(* ===== verification/Nvmev_Prelude.thy ===== *)
theory Nvmev_Prelude
  imports Main "HOL-Library.Word" "HOL-Library.Monad_Syntax" "HOL-Library.Multiset"
begin

text \<open>
  Shared vocabulary of the development.

  \<^item> A C function that can stop the kernel is an option-valued function. \<open>None\<close> is the
    outcome "the kernel stops here": a failed \<open>NVMEV_ASSERT\<close> (\<open>BUG_ON\<close> in
    \<open>nvmev.h\<close>), a division by zero, a NULL dereference or an access outside an array.
    The early returns of the code are ordinary values.
  \<^item> C's unsigned arithmetic is either a machine word, or a natural number with the
    wrap-around written out by \<open>u8\<close>, \<open>u32\<close>, \<open>u64\<close> and the wrapping subtractions.
  \<^item> A counted \<open>for\<close> loop is \<open>foldM\<close> over the list of its index values.
\<close>

section \<open>Failing computations\<close>

named_theorems fault_simps \<open>equations that turn "this computation returns" into facts\<close>

definition nvmev_assert :: "bool \<Rightarrow> unit option" where
  "nvmev_assert P = (if P then Some () else None)"

definition arr_get :: "'a list \<Rightarrow> nat \<Rightarrow> 'a option" where
  "arr_get xs i = (if i < length xs then Some (xs ! i) else None)"

definition arr_set :: "'a list \<Rightarrow> nat \<Rightarrow> 'a \<Rightarrow> 'a list option" where
  "arr_set xs i v = (if i < length xs then Some (xs[i := v]) else None)"

text \<open>Division and remainder trap on a zero divisor.\<close>

definition div_trap :: "nat \<Rightarrow> nat \<Rightarrow> nat option" where
  "div_trap a b = (if b = 0 then None else Some (a div b))"

definition mod_trap :: "nat \<Rightarrow> nat \<Rightarrow> nat option" where
  "mod_trap a b = (if b = 0 then None else Some (a mod b))"

lemma nvmev_assert_Some [simp, fault_simps]: "nvmev_assert P = Some u \<longleftrightarrow> P"
  by (simp add: nvmev_assert_def)

lemma nvmev_assert_None [simp]: "nvmev_assert P = None \<longleftrightarrow> \<not> P"
  by (simp add: nvmev_assert_def)

lemma nvmev_assert_True [simp]: "P \<Longrightarrow> nvmev_assert P = Some ()"
  by (simp add: nvmev_assert_def)

lemma arr_get_Some [simp, fault_simps]: "arr_get xs i = Some x \<longleftrightarrow> i < length xs \<and> x = xs ! i"
  by (auto simp: arr_get_def)

lemma arr_get_in [simp]: "i < length xs \<Longrightarrow> arr_get xs i = Some (xs ! i)"
  by (simp add: arr_get_def)

lemma arr_set_Some [simp, fault_simps]:
  "arr_set xs i v = Some ys \<longleftrightarrow> i < length xs \<and> ys = xs[i := v]"
  by (auto simp: arr_set_def)

lemma arr_set_in [simp]: "i < length xs \<Longrightarrow> arr_set xs i v = Some (xs[i := v])"
  by (simp add: arr_set_def)

lemma div_trap_Some [simp, fault_simps]: "div_trap a b = Some c \<longleftrightarrow> b \<noteq> 0 \<and> c = a div b"
  by (auto simp: div_trap_def)

lemma mod_trap_Some [simp, fault_simps]: "mod_trap a b = Some c \<longleftrightarrow> b \<noteq> 0 \<and> c = a mod b"
  by (auto simp: mod_trap_def)

lemma div_trap_pos [simp]: "0 < b \<Longrightarrow> div_trap a b = Some (a div b)"
  by (simp add: div_trap_def)

lemma mod_trap_pos [simp]: "0 < b \<Longrightarrow> mod_trap a b = Some (a mod b)"
  by (simp add: mod_trap_def)

declare Option.bind_eq_Some_conv [fault_simps]

section \<open>Counted loops\<close>

primrec foldM :: "('i \<Rightarrow> 's \<Rightarrow> 's option) \<Rightarrow> 'i list \<Rightarrow> 's \<Rightarrow> 's option" where
  "foldM f [] s = Some s"
| "foldM f (i # is) s = do { s' \<leftarrow> f i s; foldM f is s' }"

lemma foldM_append: "foldM f (xs @ ys) s = do { s' \<leftarrow> foldM f xs s; foldM f ys s' }"
  by (induction xs arbitrary: s) auto

lemma foldM_invariant:
  assumes "foldM f is s = Some t" and "P s"
    and "\<And>i s s'. i \<in> set is \<Longrightarrow> P s \<Longrightarrow> f i s = Some s' \<Longrightarrow> P s'"
  shows "P t"
  using assms
proof (induction "is" arbitrary: s)
  case Nil
  then show ?case by simp
next
  case (Cons i "is")
  then obtain s' where "f i s = Some s'" and rest: "foldM f is s' = Some t"
    by (auto simp: fault_simps)
  with Cons.prems(2,3) have "P s'" by (metis list.set_intros(1))
  moreover have "\<And>j u u'. j \<in> set is \<Longrightarrow> P u \<Longrightarrow> f j u = Some u' \<Longrightarrow> P u'"
    using Cons.prems(3) by (metis list.set_intros(2))
  ultimately show ?case using Cons.IH [OF rest] by blast
qed

text \<open>A loop whose body returns, under an invariant, returns.\<close>

lemma foldM_total:
  assumes "P s" and "\<And>i s. i \<in> set is \<Longrightarrow> P s \<Longrightarrow> \<exists>s'. f i s = Some s' \<and> P s'"
  shows "\<exists>t. foldM f is s = Some t \<and> P t"
  using assms
proof (induction "is" arbitrary: s)
  case Nil
  then show ?case by simp
next
  case (Cons i "is")
  from Cons.prems obtain s' where "f i s = Some s'" and "P s'"
    by (meson list.set_intros(1))
  with Cons.IH [OF \<open>P s'\<close>] Cons.prems(2) show ?case by simp
qed

text \<open>The same for a loop over \<open>0 .. n - 1\<close> with an invariant that knows the index.\<close>

lemma foldM_upto:
  assumes "P 0 s" and "\<And>i s. i < n \<Longrightarrow> P i s \<Longrightarrow> \<exists>s'. f i s = Some s' \<and> P (Suc i) s'"
  shows "\<exists>t. foldM f [0..<n] s = Some t \<and> P n t"
proof -
  have "\<exists>t. foldM f [0..<k] s = Some t \<and> P k t" if "k \<le> n" for k
    using that
  proof (induction k)
    case 0
    then show ?case using assms(1) by simp
  next
    case (Suc k)
    then obtain t where "foldM f [0..<k] s = Some t" "P k t" by auto
    with assms(2) [of k t] Suc.prems show ?case by (auto simp: foldM_append)
  qed
  then show ?thesis by blast
qed

section \<open>Unsigned arithmetic on natural numbers\<close>

definition u8 :: "nat \<Rightarrow> nat" where
  "u8 n = n mod 2 ^ 8"

definition u32 :: "nat \<Rightarrow> nat" where
  "u32 n = n mod 2 ^ 32"

definition u64 :: "nat \<Rightarrow> nat" where
  "u64 n = n mod 2 ^ 64"

text \<open>Subtraction of two values of the type, as the hardware does it.\<close>

definition sub32 :: "nat \<Rightarrow> nat \<Rightarrow> nat" where
  "sub32 a b = u32 (a + 2 ^ 32 - u32 b)"

definition sub64 :: "nat \<Rightarrow> nat \<Rightarrow> nat" where
  "sub64 a b = u64 (a + 2 ^ 64 - u64 b)"

lemma u8_id [simp]: "n < 256 \<Longrightarrow> u8 n = n"
  by (simp add: u8_def)

lemma u32_id [simp]: "n < 4294967296 \<Longrightarrow> u32 n = n"
  by (simp add: u32_def)

lemma u64_id [simp]: "n < 18446744073709551616 \<Longrightarrow> u64 n = n"
  by (simp add: u64_def)

lemma u32_less [simp]: "u32 n < 4294967296"
  by (simp add: u32_def)

lemma u64_less [simp]: "u64 n < 18446744073709551616"
  by (simp add: u64_def)

lemma u32_le: "u32 n \<le> n"
  by (simp add: u32_def)

lemma u64_le: "u64 n \<le> n"
  by (simp add: u64_def)

lemma u32_0 [simp]: "u32 0 = 0" and u64_0 [simp]: "u64 0 = 0" and u8_0 [simp]: "u8 0 = 0"
  by (simp_all add: u32_def u64_def u8_def)

lemma sub32_exact [simp]: "b \<le> a \<Longrightarrow> a < 4294967296 \<Longrightarrow> sub32 a b = a - b"
  by (simp add: sub32_def u32_def mod_if)

lemma sub64_exact [simp]: "b \<le> a \<Longrightarrow> a < 18446744073709551616 \<Longrightarrow> sub64 a b = a - b"
  by (simp add: sub64_def u64_def mod_if)

lemma sub32_less [simp]: "sub32 a b < 4294967296"
  by (simp add: sub32_def)

lemma sub64_less [simp]: "sub64 a b < 18446744073709551616"
  by (simp add: sub64_def)

text \<open>The kernel's \<open>DIV_ROUND_UP\<close> on 64-bit operands.\<close>

definition div_round_up :: "nat \<Rightarrow> nat \<Rightarrow> nat" where
  "div_round_up n d = u64 (n + d - 1) div d"

section \<open>Lists used as arrays\<close>

lemma nth_list_update_other [simp]: "i \<noteq> j \<Longrightarrow> xs[i := v] ! j = xs ! j"
  by simp

lemma nth_update_at: "l < length xs \<Longrightarrow> xs[i := v] ! l = (if i = l then v else xs ! l)"
  by auto

lemma map_update_same: "f v = f (xs ! i) \<Longrightarrow> map f (xs[i := v]) = map f xs"
  by (metis list_update_id map_update)

end
