(* ===== verification/Ssd_Config.thy ===== *)
theory Ssd_Config
  imports Nvmev_Prelude
begin

text \<open>
  The compile-time constants of the driver: \<open>ssd_config.h\<close>, the unit macros of
  \<open>nvmev.h\<close> and the enumerations of \<open>ssd.h\<close>. \<open>BASE_SSD\<close> selects a build;
  the model passes it as an argument to every function that has an \<open>#if (BASE_SSD == ...)\<close>,
  so one model covers the builds.

  The macros that describe the flash geometry (\<open>NAND_CHANNELS\<close>, \<open>FLASH_PAGE_SIZE\<close>,
  \<open>SSD_PARTITIONS\<close>, ...) are used by the C files and defined by none of the headers of the
  repository. They are fields of \<open>build_macros\<close>, a parameter of the model.
\<close>

section \<open>The build selected by \<open>BASE_SSD\<close>\<close>

datatype base_ssd = INTEL_OPTANE | SAMSUNG_970PRO | ZNS_PROTOTYPE | KV_PROTOTYPE | WD_ZN540 | HYBRID_SSD

datatype ssd_type = SSD_TYPE_NVM | SSD_TYPE_CONV | SSD_TYPE_ZNS | SSD_TYPE_KV

definition NR_NAMESPACES :: nat where
  "NR_NAMESPACES = 1"

fun NS_SSD_TYPE_0 :: "base_ssd \<Rightarrow> ssd_type" where
  "NS_SSD_TYPE_0 INTEL_OPTANE = SSD_TYPE_NVM"
| "NS_SSD_TYPE_0 SAMSUNG_970PRO = SSD_TYPE_NVM"
| "NS_SSD_TYPE_0 ZNS_PROTOTYPE = SSD_TYPE_ZNS"
| "NS_SSD_TYPE_0 KV_PROTOTYPE = SSD_TYPE_KV"
| "NS_SSD_TYPE_0 WD_ZN540 = SSD_TYPE_ZNS"
| "NS_SSD_TYPE_0 HYBRID_SSD = SSD_TYPE_CONV"

section \<open>Hybrid storage configuration\<close>

definition HYBRID_SLC_RATIO :: nat where "HYBRID_SLC_RATIO = 20"
definition HYBRID_SLC_CHANNELS :: nat where "HYBRID_SLC_CHANNELS = 2"
definition HYBRID_QLC_CHANNELS :: nat where "HYBRID_QLC_CHANNELS = 6"
definition HYBRID_LUNS_PER_CH :: nat where "HYBRID_LUNS_PER_CH = 2"

definition HYBRID_HOTNESS_TABLE_SIZE :: nat where "HYBRID_HOTNESS_TABLE_SIZE = 1024 * 1024"
definition HYBRID_HOT_THRESHOLD :: nat where "HYBRID_HOT_THRESHOLD = 10"
definition HYBRID_COLD_THRESHOLD :: nat where "HYBRID_COLD_THRESHOLD = 2"
definition HYBRID_MIGRATION_INTERVAL :: nat where "HYBRID_MIGRATION_INTERVAL = 1000000000"
definition HYBRID_MAX_MIGRATIONS_PER_CHECK :: nat where "HYBRID_MAX_MIGRATIONS_PER_CHECK = 100"

definition HYBRID_SLC_READ_LATENCY :: nat where "HYBRID_SLC_READ_LATENCY = 30000"
definition HYBRID_SLC_WRITE_LATENCY :: nat where "HYBRID_SLC_WRITE_LATENCY = 80000"
definition HYBRID_SLC_ERASE_LATENCY :: nat where "HYBRID_SLC_ERASE_LATENCY = 0"
definition HYBRID_QLC_Q1_READ_LATENCY :: nat where "HYBRID_QLC_Q1_READ_LATENCY = 75000"
definition HYBRID_QLC_Q2_READ_LATENCY :: nat where "HYBRID_QLC_Q2_READ_LATENCY = 95000"
definition HYBRID_QLC_Q3_READ_LATENCY :: nat where "HYBRID_QLC_Q3_READ_LATENCY = 130000"
definition HYBRID_QLC_Q4_READ_LATENCY :: nat where "HYBRID_QLC_Q4_READ_LATENCY = 205000"
definition HYBRID_QLC_WRITE_LATENCY :: nat where "HYBRID_QLC_WRITE_LATENCY = 561000"
definition HYBRID_QLC_ERASE_LATENCY :: nat where "HYBRID_QLC_ERASE_LATENCY = 0"

definition HYBRID_SLC_PGS_PER_BLK :: nat where "HYBRID_SLC_PGS_PER_BLK = 256"
definition HYBRID_SLC_BLKS_PER_PL :: nat where "HYBRID_SLC_BLKS_PER_PL = 8192"
definition HYBRID_SLC_PGS_PER_ONESHOTPG :: nat where "HYBRID_SLC_PGS_PER_ONESHOTPG = 1"
definition HYBRID_SLC_ONESHOTPGS_PER_BLK :: nat where "HYBRID_SLC_ONESHOTPGS_PER_BLK = 256"
definition HYBRID_QLC_PGS_PER_BLK :: nat where "HYBRID_QLC_PGS_PER_BLK = 1024"
definition HYBRID_QLC_BLKS_PER_PL :: nat where "HYBRID_QLC_BLKS_PER_PL = 8192"
definition HYBRID_QLC_PGS_PER_ONESHOTPG :: nat where "HYBRID_QLC_PGS_PER_ONESHOTPG = 4"
definition HYBRID_QLC_ONESHOTPGS_PER_BLK :: nat where "HYBRID_QLC_ONESHOTPGS_PER_BLK = 256"

lemmas hybrid_macros =
  HYBRID_SLC_RATIO_def HYBRID_SLC_CHANNELS_def HYBRID_QLC_CHANNELS_def HYBRID_LUNS_PER_CH_def
  HYBRID_HOTNESS_TABLE_SIZE_def HYBRID_HOT_THRESHOLD_def HYBRID_COLD_THRESHOLD_def
  HYBRID_MIGRATION_INTERVAL_def HYBRID_MAX_MIGRATIONS_PER_CHECK_def
  HYBRID_SLC_READ_LATENCY_def HYBRID_SLC_WRITE_LATENCY_def HYBRID_SLC_ERASE_LATENCY_def
  HYBRID_QLC_Q1_READ_LATENCY_def HYBRID_QLC_Q2_READ_LATENCY_def HYBRID_QLC_Q3_READ_LATENCY_def
  HYBRID_QLC_Q4_READ_LATENCY_def HYBRID_QLC_WRITE_LATENCY_def HYBRID_QLC_ERASE_LATENCY_def
  HYBRID_SLC_PGS_PER_BLK_def HYBRID_SLC_BLKS_PER_PL_def HYBRID_SLC_PGS_PER_ONESHOTPG_def
  HYBRID_SLC_ONESHOTPGS_PER_BLK_def HYBRID_QLC_PGS_PER_BLK_def HYBRID_QLC_BLKS_PER_PL_def
  HYBRID_QLC_PGS_PER_ONESHOTPG_def HYBRID_QLC_ONESHOTPGS_PER_BLK_def

section \<open>Macros the headers leave undefined\<close>

datatype cell_type = CELL_TYPE_LSB | CELL_TYPE_MSB | CELL_TYPE_CSB

record build_macros =
  NAND_CHANNELS :: nat
  LUNS_PER_NAND_CH :: nat
  PLNS_PER_LUN :: nat
  CELL_MODE :: nat
  BLKS_PER_PLN :: nat
  BLK_SIZE :: nat
  FLASH_PAGE_SIZE :: nat
  ONESHOT_PAGE_SIZE :: nat
  WRITE_UNIT_SIZE :: nat
  MAX_CH_XFER_SIZE :: nat
  NAND_PROG_LATENCY :: nat
  NAND_ERASE_LATENCY :: nat
  NAND_4KB_READ_LATENCY :: "cell_type \<Rightarrow> nat"
  NAND_READ_LATENCY :: "cell_type \<Rightarrow> nat"
  FW_4KB_READ_LATENCY :: nat
  FW_READ_LATENCY :: nat
  FW_CH_XFER_LATENCY :: nat
  FW_WBUF_LATENCY0 :: nat
  FW_WBUF_LATENCY1 :: nat
  NAND_CHANNEL_BANDWIDTH :: nat
  PCIE_BANDWIDTH :: nat
  GLOBAL_WB_SIZE :: nat
  WRITE_EARLY_COMPLETION :: bool
  SSD_PARTITIONS :: nat
  OP_AREA_PBA_PCENT :: nat

section \<open>Units\<close>

definition KB :: "nat \<Rightarrow> nat" where "KB k = k * 2 ^ 10"
definition MB :: "nat \<Rightarrow> nat" where "MB m = m * 2 ^ 20"
definition MS_PER_SEC :: "nat \<Rightarrow> nat" where "MS_PER_SEC s = s * 1000"
definition US_PER_SEC :: "nat \<Rightarrow> nat" where "US_PER_SEC s = MS_PER_SEC s * 1000"
definition NS_PER_SEC :: "nat \<Rightarrow> nat" where "NS_PER_SEC s = US_PER_SEC s * 1000"
definition LBA_TO_BYTE :: "nat \<Rightarrow> nat" where "LBA_TO_BYTE lba = u64 (lba * 2 ^ 9)"
definition BYTE_TO_LBA :: "nat \<Rightarrow> nat" where "BYTE_TO_LBA byte = byte div 2 ^ 9"

lemma NS_PER_SEC_1 [simp]: "NS_PER_SEC (Suc 0) = 1000000000"
  by (simp add: NS_PER_SEC_def US_PER_SEC_def MS_PER_SEC_def)

section \<open>Enumerations of \<open>ssd.h\<close>\<close>

text \<open>
  The command of a \<open>nand_cmd\<close> is a C \<open>int\<close>; a value outside the four enumerators
  reaches the \<open>default\<close> case of \<open>ssd_advance_nand\<close>. The I/O type is a \<open>uint32_t\<close>;
  a value outside the two enumerators fails the assertion of \<open>__get_wp\<close>.
\<close>

datatype nand_op = NAND_READ | NAND_WRITE | NAND_ERASE | NAND_NOP | NAND_OTHER int

datatype io_type = USER_IO | GC_IO | OTHER_IO nat

datatype page_status = PG_FREE | PG_INVALID | PG_VALID

datatype sec_status = SEC_FREE | SEC_INVALID | SEC_VALID

datatype storage_type = STORAGE_TYPE_SLC | STORAGE_TYPE_QLC

datatype access_type = ACCESS_READ | ACCESS_WRITE | ACCESS_UPDATE

end
