(* ===== verification/Channel_Model.thy ===== *)
theory Channel_Model
  imports Ssd_Config
begin

text \<open>
  The bandwidth model of a NAND channel or of the PCIe link (\<open>channel_model.c\<close>,
  \<open>channel_model.h\<close>): a ring of credit counters, one per time slot of
  \<open>UNIT_TIME_INTERVAL\<close> nanoseconds, starting with the slot of the current time at index
  \<open>head\<close>. A transfer takes credits from the slot of its request time on.

  The wall clock, \<open>cpu_clock\<close> of the kernel, is the argument \<open>now\<close>. The array of
  counters is a function on indices; the lemmas show that every index used is below
  \<open>NR_CREDIT_ENTRIES\<close>.

  The abstract view of a channel is \<open>window\<close>, the list of credits in time order; the
  operations on the ring are shown to be list operations on it.
\<close>

section \<open>Constants and state\<close>

definition NR_CREDIT_ENTRIES :: nat where "NR_CREDIT_ENTRIES = 1024 * 96"
definition UNIT_TIME_INTERVAL :: nat where "UNIT_TIME_INTERVAL = 4000"
definition UNIT_XFER_SIZE :: nat where "UNIT_XFER_SIZE = 128"
definition UNIT_XFER_CREDITS :: nat where "UNIT_XFER_CREDITS = 1"

record channel_model =
  cur_time :: nat
  head :: nat
  valid_len :: nat
  max_credits :: nat
  command_credits :: nat
  xfer_lat :: nat
  avail_credits :: "nat \<Rightarrow> nat"

text \<open>\<open>credit_t\<close> is \<open>uint8_t\<close>: \<open>memset\<close> stores the low byte of the value.\<close>

definition MEMSET :: "nat \<Rightarrow> nat \<Rightarrow> nat \<Rightarrow> (nat \<Rightarrow> nat) \<Rightarrow> (nat \<Rightarrow> nat)" where
  "MEMSET dest value len a = (\<lambda>i. if dest \<le> i \<and> i < dest + len then u8 value else a i)"

definition BANDWIDTH_TO_TX_TIME :: "nat \<Rightarrow> nat option" where
  "BANDWIDTH_TO_TX_TIME mb_s = div_trap (u64 (UNIT_XFER_SIZE * NS_PER_SEC 1)) (u64 (MB mb_s))"

definition BANDWIDTH_TO_MAX_CREDITS :: "nat \<Rightarrow> nat" where
  "BANDWIDTH_TO_MAX_CREDITS mb_s =
     u64 (u64 (MB mb_s) * UNIT_TIME_INTERVAL) div NS_PER_SEC 1 div UNIT_XFER_SIZE * UNIT_XFER_CREDITS"

definition chmodel_init :: "nat \<Rightarrow> channel_model option" where
  "chmodel_init bandwidth = do {
     let credits = u32 (BANDWIDTH_TO_MAX_CREDITS bandwidth);
     lat \<leftarrow> BANDWIDTH_TO_TX_TIME bandwidth;
     Some \<lparr> cur_time = 0, head = 0, valid_len = 0, max_credits = credits, command_credits = 0,
            xfer_lat = u32 lat, avail_credits = MEMSET 0 credits NR_CREDIT_ENTRIES (\<lambda>_. 0) \<rparr>
   }"

section \<open>A transfer request\<close>

text \<open>
  Moving the ring to the current time: the slots that have passed are refilled and become
  the last slots of the ring.
\<close>

definition chmodel_advance :: "nat \<Rightarrow> channel_model \<Rightarrow> channel_model" where
  "chmodel_advance now ch =
     (let offs = u32 (sub64 (now div UNIT_TIME_INTERVAL) (cur_time ch div UNIT_TIME_INTERVAL));
          offs = (if offs < valid_len ch then offs else valid_len ch);
          credits = (if u32 (head ch + offs) \<ge> NR_CREDIT_ENTRIES
                     then MEMSET 0 (max_credits ch) (sub32 offs (sub32 NR_CREDIT_ENTRIES (head ch)))
                            (MEMSET (head ch) (max_credits ch) (sub32 NR_CREDIT_ENTRIES (head ch))
                               (avail_credits ch))
                     else MEMSET (head ch) (max_credits ch) offs (avail_credits ch))
      in ch\<lparr> avail_credits := credits,
             head := u32 (head ch + offs) mod NR_CREDIT_ENTRIES,
             cur_time := now,
             valid_len := sub32 (valid_len ch) offs \<rparr>)"

text \<open>
  The loop that takes the credits. It stops when all credits are taken or when the next
  slot would be the head. It is a \<open>while (1)\<close>, so not returning is the value \<open>None\<close>;
  \<open>credit_loop_window\<close> shows that it returns. \<open>delay\<close> counts the slots passed, fewer
  than \<open>NR_CREDIT_ENTRIES\<close>.
\<close>

partial_function (option) credit_loop ::
  "nat \<Rightarrow> (nat \<Rightarrow> nat) \<Rightarrow> nat \<Rightarrow> nat \<Rightarrow> nat \<Rightarrow> ((nat \<Rightarrow> nat) \<times> nat \<times> nat \<times> nat) option" where
  "credit_loop h0 credits pos remaining delay =
     (let consumed = (if remaining \<le> credits pos then remaining else credits pos);
          credits' = credits(pos := credits pos - consumed);
          remaining' = remaining - consumed
      in if remaining' \<noteq> 0 then
           (let next_pos = (pos + 1) mod NR_CREDIT_ENTRIES
            in if next_pos \<noteq> h0 then credit_loop h0 credits' next_pos remaining' (Suc delay)
               else Some (credits', pos, remaining', delay))
         else Some (credits', pos, remaining', delay))"

definition chmodel_request :: "nat \<Rightarrow> nat \<Rightarrow> nat \<Rightarrow> channel_model \<Rightarrow> (nat \<times> channel_model) option" where
  "chmodel_request now request_time len ch = do {
     let units_to_xfer = u32 (div_round_up len UNIT_XFER_SIZE);
     let ch = chmodel_advance now ch;
     nvmev_assert (valid_len ch \<le> NR_CREDIT_ENTRIES);
     if request_time < now then Some (request_time, ch)
     else do {
       let request_time_offs =
         u32 (sub64 (request_time div UNIT_TIME_INTERVAL) (now div UNIT_TIME_INTERVAL));
       if request_time_offs \<ge> NR_CREDIT_ENTRIES then Some (request_time, ch)
       else do {
         let pos = u32 (head ch + request_time_offs) mod NR_CREDIT_ENTRIES;
         let remaining = u32 (u32 (units_to_xfer * UNIT_XFER_CREDITS) + command_credits ch);
         default_delay \<leftarrow> div_trap remaining (max_credits ch);
         (credits, pos, remaining, delay) \<leftarrow>
           credit_loop (head ch) (avail_credits ch) pos remaining 0;
         let valid_length = (if pos \<ge> head ch then pos - head ch + 1
                             else NR_CREDIT_ENTRIES - (head ch - pos - 1));
         let delay = (if delay > default_delay then delay - default_delay else 0);
         let total_latency =
           u64 (u32 (xfer_lat ch * units_to_xfer) + u64 (delay * UNIT_TIME_INTERVAL));
         Some (u64 (request_time + total_latency),
               ch\<lparr> avail_credits := credits,
                   valid_len := (if valid_length > valid_len ch then valid_length else valid_len ch) \<rparr>)
       }
     }
   }"

section \<open>The ring as a list in time order\<close>

definition slot :: "nat \<Rightarrow> nat \<Rightarrow> nat" where
  "slot h0 k = (h0 + k) mod NR_CREDIT_ENTRIES"

definition window :: "nat \<Rightarrow> (nat \<Rightarrow> nat) \<Rightarrow> nat list" where
  "window h0 credits = map (\<lambda>k. credits (slot h0 k)) [0..<NR_CREDIT_ENTRIES]"

text \<open>The specification of the credit loop: take credits slot by slot, greedily.\<close>

fun greedy :: "nat list \<Rightarrow> nat \<Rightarrow> nat \<Rightarrow> nat list \<times> nat \<times> nat" where
  "greedy [] r d = ([], r, d)"
| "greedy (c # cs) r d =
     (if r \<le> c then ((c - r) # cs, 0, d)
      else if cs = [] then ([0], r - c, d)
      else (let (cs', r', d') = greedy cs (r - c) (Suc d) in (0 # cs', r', d')))"

lemma NR_pos [simp]: "0 < NR_CREDIT_ENTRIES"
  by (simp add: NR_CREDIT_ENTRIES_def)

lemma NR_bound: "NR_CREDIT_ENTRIES < 2147483648"
  by (simp add: NR_CREDIT_ENTRIES_def)

lemma slot_less [simp]: "slot h0 k < NR_CREDIT_ENTRIES"
  by (simp add: slot_def)

lemma slot_if: "h0 < NR_CREDIT_ENTRIES \<Longrightarrow> k \<le> NR_CREDIT_ENTRIES \<Longrightarrow>
    slot h0 k = (if h0 + k < NR_CREDIT_ENTRIES then h0 + k else h0 + k - NR_CREDIT_ENTRIES)"
  by (auto simp: slot_def mod_if)

lemma slot_inj:
  "h0 < NR_CREDIT_ENTRIES \<Longrightarrow> j < NR_CREDIT_ENTRIES \<Longrightarrow> k < NR_CREDIT_ENTRIES \<Longrightarrow>
    slot h0 j = slot h0 k \<longleftrightarrow> j = k"
  by (auto simp: slot_if split: if_splits)

lemma slot_Suc: "(slot h0 k + 1) mod NR_CREDIT_ENTRIES = slot h0 (Suc k)"
  by (simp add: slot_def mod_Suc_eq)

lemma slot_wraps:
  "h0 < NR_CREDIT_ENTRIES \<Longrightarrow> k < NR_CREDIT_ENTRIES \<Longrightarrow>
    slot h0 (Suc k) = h0 \<longleftrightarrow> Suc k = NR_CREDIT_ENTRIES"
  by (auto simp: slot_if split: if_splits)

lemma slot_surj:
  assumes "h0 < NR_CREDIT_ENTRIES" and "i < NR_CREDIT_ENTRIES"
  obtains k where "k < NR_CREDIT_ENTRIES" and "slot h0 k = i"
proof
  let ?k = "if h0 \<le> i then i - h0 else i + NR_CREDIT_ENTRIES - h0"
  show "?k < NR_CREDIT_ENTRIES" and "slot h0 ?k = i"
    using assms by (auto simp: slot_if)
qed

lemma length_window [simp]: "length (window h0 c) = NR_CREDIT_ENTRIES"
  by (simp add: window_def)

lemma window_nth [simp]: "k < NR_CREDIT_ENTRIES \<Longrightarrow> window h0 c ! k = c (slot h0 k)"
  by (simp add: window_def)

lemma window_upd:
  "h0 < NR_CREDIT_ENTRIES \<Longrightarrow> k < NR_CREDIT_ENTRIES \<Longrightarrow>
    window h0 (c(slot h0 k := v)) = (window h0 c)[k := v]"
  by (rule nth_equalityI) (auto simp: nth_list_update slot_inj)

section \<open>The credit loop takes credits greedily\<close>

lemma greedy_length: "greedy cs r d = (cs', r', d') \<Longrightarrow> length cs' = length cs"
  by (induction cs r d arbitrary: cs' r' d' rule: greedy.induct)
    (auto split: if_splits prod.splits)

lemma greedy_delay: "greedy cs r d = (cs', r', d') \<Longrightarrow> d \<le> d' \<and> d' \<le> d + length cs"
  by (induction cs r d arbitrary: cs' r' d' rule: greedy.induct)
    (auto split: if_splits prod.splits simp: le_Suc_eq less_Suc_eq_le, (fastforce+)?)

lemma greedy_delay_less:
  "greedy cs r d = (cs', r', d') \<Longrightarrow> cs \<noteq> [] \<Longrightarrow> d' < d + length cs"
proof (induction cs r d arbitrary: cs' r' d' rule: greedy.induct)
  case (2 c cs r d)
  then show ?case by (fastforce split: if_splits prod.splits)
qed simp

text \<open>No credit is created or lost, and a demand is left over only when all slots are empty.\<close>

lemma greedy_conserves:
  "greedy cs r d = (cs', r', d') \<Longrightarrow> cs \<noteq> [] \<Longrightarrow>
    sum_list cs' + r = sum_list cs + r' \<and> r' \<le> r \<and> (0 < r' \<longrightarrow> set cs' \<subseteq> {0})"
proof (induction cs r d arbitrary: cs' r' d' rule: greedy.induct)
  case (2 c cs r d)
  show ?case
  proof (cases "r \<le> c \<or> cs = []")
    case True
    with "2.prems" show ?thesis by (auto split: if_splits)
  next
    case False
    obtain cs2 r2 d2 where g: "greedy cs (r - c) (Suc d) = (cs2, r2, d2)"
      by (metis prod_cases3)
    with "2.IH" False have "sum_list cs2 + (r - c) = sum_list cs + r2 \<and> r2 \<le> r - c \<and>
        (0 < r2 \<longrightarrow> set cs2 \<subseteq> {0})" by simp
    with g False "2.prems" show ?thesis by auto
  qed
qed simp

text \<open>Slots after the last one reached are untouched, slots before it are emptied.\<close>

lemma greedy_shape:
  "greedy cs r d = (cs', r', d') \<Longrightarrow> cs \<noteq> [] \<Longrightarrow>
    (\<forall>i < d' - d. cs' ! i = 0) \<and> (\<forall>i. d' - d < i \<and> i < length cs \<longrightarrow> cs' ! i = cs ! i)
    \<and> cs' ! (d' - d) \<le> cs ! (d' - d)"
proof (induction cs r d arbitrary: cs' r' d' rule: greedy.induct)
  case (2 c cs r d)
  show ?case
  proof (cases "r \<le> c \<or> cs = []")
    case True
    with "2.prems" show ?thesis by (auto split: if_splits)
  next
    case False
    obtain cs2 r2 d2 where g: "greedy cs (r - c) (Suc d) = (cs2, r2, d2)"
      by (metis prod_cases3)
    with "2.IH" False have IH: "(\<forall>i < d2 - Suc d. cs2 ! i = 0) \<and>
        (\<forall>i. d2 - Suc d < i \<and> i < length cs \<longrightarrow> cs2 ! i = cs ! i) \<and>
        cs2 ! (d2 - Suc d) \<le> cs ! (d2 - Suc d)" by simp
    from greedy_delay [OF g] obtain e where e: "d2 = Suc d + e"
      using le_Suc_ex by blast
    from g False "2.prems" e IH show ?thesis
      by (auto simp: nth_Cons split: nat.splits)
  qed
qed simp

lemma credit_loop_window:
  assumes "h0 < NR_CREDIT_ENTRIES" and "k < NR_CREDIT_ENTRIES"
    and "greedy (drop k (window h0 c)) r d = (cs', r', d')"
  shows "\<exists>c'. credit_loop h0 c (slot h0 k) r d = Some (c', slot h0 (k + (d' - d)), r', d')
           \<and> window h0 c' = take k (window h0 c) @ cs'"
  using assms(2,3)
proof (induction "NR_CREDIT_ENTRIES - k" arbitrary: k c r d cs' r' d')
  case 0
  then show ?case by simp
next
  case (Suc n)
  let ?w = "window h0 c" and ?p = "slot h0 k"
  have drop: "drop k ?w = c ?p # drop (Suc k) ?w"
    using Suc.prems(1) by (simp add: Cons_nth_drop_Suc [symmetric])
  show ?case
  proof (cases "r \<le> c ?p")
    case True
    with Suc.prems drop show ?thesis
      by (auto simp: credit_loop.simps window_upd [OF assms(1)] upd_conv_take_nth_drop)
  next
    case more: False
    show ?thesis
    proof (cases "Suc k = NR_CREDIT_ENTRIES")
      case True
      then have "drop (Suc k) ?w = []" and "slot h0 (Suc k) = h0"
        using slot_wraps [OF assms(1) Suc.prems(1)] by simp_all
      with more Suc.prems drop show ?thesis
        by (auto simp: credit_loop.simps [of _ _ _ r] window_upd [OF assms(1)] upd_conv_take_nth_drop
            slot_Suc [simplified] Let_def)
    next
      case False
      let ?c = "c(?p := 0)"
      have k: "Suc k < NR_CREDIT_ENTRIES" using False Suc.prems by simp
      have w: "window h0 ?c = take k ?w @ 0 # drop (Suc k) ?w"
        using Suc.prems(1) by (simp add: window_upd [OF assms(1)] upd_conv_take_nth_drop)
      then have w': "drop (Suc k) (window h0 ?c) = drop (Suc k) ?w"
        "take (Suc k) (window h0 ?c) = take k ?w @ [0]" using Suc.prems(1) by simp_all
      obtain cs2 r2 d2 where g: "greedy (drop (Suc k) ?w) (r - c ?p) (Suc d) = (cs2, r2, d2)"
        by (metis prod_cases3)
      have "n = NR_CREDIT_ENTRIES - Suc k" using Suc.hyps(2) by simp
      from Suc.hyps(1) [of "Suc k" ?c, unfolded w', OF this k g] obtain c' where
        rec: "credit_loop h0 ?c (slot h0 (Suc k)) (r - c ?p) (Suc d)
                = Some (c', slot h0 (Suc k + (d2 - Suc d)), r2, d2)"
        and win: "window h0 c' = (take k ?w @ [0]) @ cs2" by auto
      have "Suc d \<le> d2" using greedy_delay [OF g] by simp
      moreover have "drop (Suc k) ?w \<noteq> []" using k by simp
      ultimately show ?thesis
        using more Suc.prems drop g rec win k
        by (auto simp: credit_loop.simps [of _ _ _ r] slot_Suc [simplified] slot_wraps [OF assms(1)]
            Let_def Suc_diff_Suc Suc_diff_le)
    qed
  qed
qed

section \<open>Moving the ring to the current time\<close>

text \<open>
  The states of the driver: a head inside the ring, at most a full ring of slots in use, and
  every slot beyond \<open>valid_len\<close> fresh. Head, slot values and limits fit their C types.
\<close>

definition ch_wf :: "channel_model \<Rightarrow> bool" where
  "ch_wf ch \<longleftrightarrow> head ch < NR_CREDIT_ENTRIES \<and> valid_len ch \<le> NR_CREDIT_ENTRIES
     \<and> max_credits ch < 2 ^ 32
     \<and> (\<forall>k < NR_CREDIT_ENTRIES. avail_credits ch (slot (head ch) k) \<le> u8 (max_credits ch))
     \<and> (\<forall>k < NR_CREDIT_ENTRIES. valid_len ch \<le> k \<longrightarrow>
          avail_credits ch (slot (head ch) k) = u8 (max_credits ch))"

definition passed_slots :: "nat \<Rightarrow> channel_model \<Rightarrow> nat" where
  "passed_slots now ch =
     min (u32 (sub64 (now div UNIT_TIME_INTERVAL) (cur_time ch div UNIT_TIME_INTERVAL))) (valid_len ch)"

lemma advance_credits:
  assumes h: "head ch < NR_CREDIT_ENTRIES" and v: "offs \<le> NR_CREDIT_ENTRIES"
    and c: "c = (if u32 (head ch + offs) \<ge> NR_CREDIT_ENTRIES
       then MEMSET 0 m (sub32 offs (sub32 NR_CREDIT_ENTRIES (head ch)))
              (MEMSET (head ch) m (sub32 NR_CREDIT_ENTRIES (head ch)) a)
       else MEMSET (head ch) m offs a)"
  shows "c (slot (head ch) k) = (if k mod NR_CREDIT_ENTRIES < offs then u8 m else a (slot (head ch) k))"
proof -
  obtain j where j: "j = k mod NR_CREDIT_ENTRIES" and jk: "j < NR_CREDIT_ENTRIES" by simp
  have sk: "slot (head ch) k = slot (head ch) j" by (simp add: slot_def mod_add_right_eq j)
  have small: "head ch + offs < 4294967296" using h v NR_bound by linarith
  have s: "sub32 NR_CREDIT_ENTRIES (head ch) = NR_CREDIT_ENTRIES - head ch"
    using h NR_bound by simp
  show ?thesis
  proof (cases "head ch + offs \<ge> NR_CREDIT_ENTRIES")
    case True
    then have "sub32 offs (NR_CREDIT_ENTRIES - head ch) = offs - (NR_CREDIT_ENTRIES - head ch)"
      using v NR_bound by simp
    with True small s c v h jk show ?thesis
      unfolding j [symmetric] sk by (auto simp: slot_if MEMSET_def)
  next
    case False
    with small s c v h jk show ?thesis
      unfolding j [symmetric] sk by (auto simp: slot_if MEMSET_def)
  qed
qed

lemma chmodel_advance_offs:
  "chmodel_advance now ch =
     (let offs = passed_slots now ch;
          credits = (if u32 (head ch + offs) \<ge> NR_CREDIT_ENTRIES
                     then MEMSET 0 (max_credits ch) (sub32 offs (sub32 NR_CREDIT_ENTRIES (head ch)))
                            (MEMSET (head ch) (max_credits ch) (sub32 NR_CREDIT_ENTRIES (head ch))
                               (avail_credits ch))
                     else MEMSET (head ch) (max_credits ch) offs (avail_credits ch))
      in ch\<lparr> avail_credits := credits,
             head := u32 (head ch + offs) mod NR_CREDIT_ENTRIES,
             cur_time := now,
             valid_len := sub32 (valid_len ch) offs \<rparr>)"
proof -
  have "(if a < b then a else b) = min a b" for a b :: nat by auto
  then show ?thesis by (simp only: chmodel_advance_def passed_slots_def Let_def)
qed

lemma advance_fields:
  assumes "head ch < NR_CREDIT_ENTRIES" and "valid_len ch \<le> NR_CREDIT_ENTRIES"
  shows "head (chmodel_advance now ch) = slot (head ch) (passed_slots now ch)"
    and "valid_len (chmodel_advance now ch) = valid_len ch - passed_slots now ch"
    and "max_credits (chmodel_advance now ch) = max_credits ch"
    and "cur_time (chmodel_advance now ch) = now"
    and "command_credits (chmodel_advance now ch) = command_credits ch"
    and "xfer_lat (chmodel_advance now ch) = xfer_lat ch"
proof -
  have "passed_slots now ch \<le> valid_len ch" by (simp add: passed_slots_def)
  then have "u32 (head ch + passed_slots now ch) = head ch + passed_slots now ch"
    "sub32 (valid_len ch) (passed_slots now ch) = valid_len ch - passed_slots now ch"
    using assms NR_bound by simp_all
  then show "head (chmodel_advance now ch) = slot (head ch) (passed_slots now ch)"
    "valid_len (chmodel_advance now ch) = valid_len ch - passed_slots now ch"
    by (simp_all add: chmodel_advance_offs Let_def slot_def)
qed (simp_all add: chmodel_advance_offs Let_def)

lemma advance_slot:
  assumes "head ch < NR_CREDIT_ENTRIES" and "valid_len ch \<le> NR_CREDIT_ENTRIES"
  shows "avail_credits (chmodel_advance now ch) (slot (head ch) k) =
    (if k mod NR_CREDIT_ENTRIES < passed_slots now ch then u8 (max_credits ch)
     else avail_credits ch (slot (head ch) k))"
proof (rule advance_credits [OF assms(1)])
  show "passed_slots now ch \<le> NR_CREDIT_ENTRIES" using assms(2) by (simp add: passed_slots_def)
qed (simp add: chmodel_advance_offs Let_def)

lemma slot_slot: "slot (slot h0 j) k = slot h0 (j + k)"
  by (simp add: slot_def mod_add_left_eq add.assoc)

lemma slot_mod: "slot h0 (k mod NR_CREDIT_ENTRIES) = slot h0 k"
  by (simp add: slot_def mod_add_right_eq)

text \<open>In time order: the passed slots drop out in front and fresh ones appear at the end.\<close>

lemma chmodel_advance_window:
  assumes "head ch < NR_CREDIT_ENTRIES" and "valid_len ch \<le> NR_CREDIT_ENTRIES"
  shows "window (head (chmodel_advance now ch)) (avail_credits (chmodel_advance now ch)) =
    drop (passed_slots now ch) (window (head ch) (avail_credits ch))
      @ replicate (passed_slots now ch) (u8 (max_credits ch))"
proof (rule nth_equalityI)
  let ?n = "passed_slots now ch"
  have n: "?n \<le> NR_CREDIT_ENTRIES" using assms by (simp add: passed_slots_def)
  then show "length (window (head (chmodel_advance now ch)) (avail_credits (chmodel_advance now ch))) =
    length (drop ?n (window (head ch) (avail_credits ch)) @ replicate ?n (u8 (max_credits ch)))"
    by simp
  fix k assume "k < length (window (head (chmodel_advance now ch)) (avail_credits (chmodel_advance now ch)))"
  then have k: "k < NR_CREDIT_ENTRIES" by simp
  show "window (head (chmodel_advance now ch)) (avail_credits (chmodel_advance now ch)) ! k =
    (drop ?n (window (head ch) (avail_credits ch)) @ replicate ?n (u8 (max_credits ch))) ! k"
    using k n by (auto simp: advance_fields [OF assms] slot_slot advance_slot [OF assms] nth_append mod_if not_less)
qed

lemma window_conv: "(\<forall>k < NR_CREDIT_ENTRIES. P k (c (slot h0 k))) \<longleftrightarrow> (\<forall>k < NR_CREDIT_ENTRIES. P k (window h0 c ! k))"
  by simp

lemma chmodel_advance_wf: "ch_wf ch \<Longrightarrow> ch_wf (chmodel_advance now ch)"
proof -
  assume wf: "ch_wf ch"
  then have h: "head ch < NR_CREDIT_ENTRIES" and v: "valid_len ch \<le> NR_CREDIT_ENTRIES"
    by (auto simp: ch_wf_def)
  let ?n = "passed_slots now ch"
  have n: "?n \<le> valid_len ch" by (simp add: passed_slots_def)
  have slots: "avail_credits (chmodel_advance now ch) (slot (head (chmodel_advance now ch)) k)
      \<le> u8 (max_credits ch) \<and>
      (valid_len ch - ?n \<le> k \<longrightarrow> avail_credits (chmodel_advance now ch)
         (slot (head (chmodel_advance now ch)) k) = u8 (max_credits ch))"
    if k: "k < NR_CREDIT_ENTRIES" for k
  proof (cases "?n + k < NR_CREDIT_ENTRIES")
    case True
    then have "(?n + k) mod NR_CREDIT_ENTRIES = ?n + k" by simp
    with wf True n show ?thesis
      by (simp add: advance_fields [OF h v] slot_slot advance_slot [OF h v] ch_wf_def)
  next
    case False
    then have "(?n + k) mod NR_CREDIT_ENTRIES < ?n" using k n v by (auto simp: mod_if)
    then show ?thesis
      by (simp add: advance_fields [OF h v] slot_slot advance_slot [OF h v])
  qed
  with wf n show ?thesis
    by (auto simp: ch_wf_def advance_fields [OF h v])
qed

section \<open>A whole request\<close>

definition demand :: "channel_model \<Rightarrow> nat \<Rightarrow> nat" where
  "demand ch len = u32 (u32 (u32 (div_round_up len UNIT_XFER_SIZE) * UNIT_XFER_CREDITS) + command_credits ch)"

definition time_offset :: "nat \<Rightarrow> nat \<Rightarrow> nat" where
  "time_offset now request_time =
     u32 (sub64 (request_time div UNIT_TIME_INTERVAL) (now div UNIT_TIME_INTERVAL))"

definition finish_time :: "channel_model \<Rightarrow> nat \<Rightarrow> nat \<Rightarrow> nat \<Rightarrow> nat" where
  "finish_time ch request_time len delay =
     u64 (request_time +
       u64 (u32 (xfer_lat ch * u32 (div_round_up len UNIT_XFER_SIZE))
            + u64 ((delay - demand ch len div max_credits ch) * UNIT_TIME_INTERVAL)))"

text \<open>The length of the used part of the ring after the loop stopped in slot \<open>k\<close>.\<close>

lemma used_length:
  assumes "h0 < NR_CREDIT_ENTRIES" and "k < NR_CREDIT_ENTRIES"
  shows "(if slot h0 k \<ge> h0 then slot h0 k - h0 + 1
          else NR_CREDIT_ENTRIES - (h0 - slot h0 k - 1)) = Suc k"
  using assms by (auto simp: slot_if)

lemma chmodel_request_greedy:
  assumes wf: "ch_wf ch" and m: "0 < max_credits ch" and now: "now \<le> request_time"
    and off: "time_offset now request_time < NR_CREDIT_ENTRIES"
    and g: "greedy (drop (time_offset now request_time)
              (window (head (chmodel_advance now ch)) (avail_credits (chmodel_advance now ch))))
              (demand ch len) 0 = (cs', r', delay)"
  obtains credits where
    "chmodel_request now request_time len ch =
       Some (finish_time ch request_time len delay,
             (chmodel_advance now ch)\<lparr> avail_credits := credits,
               valid_len := max (Suc (time_offset now request_time + delay))
                                (valid_len ch - passed_slots now ch) \<rparr>)"
    and "window (head (chmodel_advance now ch)) credits =
       take (time_offset now request_time)
         (window (head (chmodel_advance now ch)) (avail_credits (chmodel_advance now ch))) @ cs'"
    and "time_offset now request_time + delay < NR_CREDIT_ENTRIES"
proof -
  let ?R = "time_offset now request_time" and ?a = "chmodel_advance now ch"
  let ?W = "window (head ?a) (avail_credits ?a)"
  from wf have h: "head ch < NR_CREDIT_ENTRIES" and v: "valid_len ch \<le> NR_CREDIT_ENTRIES"
    by (auto simp: ch_wf_def)
  note f = advance_fields [OF h v]
  have ha: "head ?a < NR_CREDIT_ENTRIES" by (simp add: f)
  have R32: "u32 (head ?a + ?R) = head ?a + ?R"
    using ha off NR_bound by simp
  then have pos: "u32 (head ?a + ?R) mod NR_CREDIT_ENTRIES = slot (head ?a) ?R"
    by (simp add: slot_def)
  from credit_loop_window [OF ha off g] obtain credits where
    loop: "credit_loop (head ?a) (avail_credits ?a) (slot (head ?a) ?R) (demand ch len) 0
      = Some (credits, slot (head ?a) (?R + delay), r', delay)"
    and win: "window (head ?a) credits = take ?R ?W @ cs'" by auto
  have "drop ?R ?W \<noteq> []" using off by simp
  from greedy_delay_less [OF g this] off have bound: "?R + delay < NR_CREDIT_ENTRIES" by simp
  have d: "(if delay > demand ch len div max_credits ch
     then delay - demand ch len div max_credits ch else 0) = delay - demand ch len div max_credits ch"
    by simp
  have mx: "(if a > b then a else b) = max a b" for a b :: nat by simp
  have "chmodel_request now request_time len ch =
       Some (finish_time ch request_time len delay,
             ?a\<lparr> avail_credits := credits, valid_len := max (Suc (?R + delay)) (valid_len ch - passed_slots now ch) \<rparr>)"
    using now off m v loop used_length [OF ha bound]
    unfolding chmodel_request_def Let_def time_offset_def [symmetric] pos
    by (simp add: f(2-6) demand_def [symmetric] div_trap_def d mx finish_time_def)
  with win bound that show thesis by blast
qed

section \<open>Abstract specification and properties\<close>

text \<open>
  The abstract channel is the list of credits in time order. Advancing by \<open>n\<close> slots and
  serving a demand of \<open>r\<close> credits \<open>R\<close> slots ahead are list operations.
\<close>

definition credit_window :: "channel_model \<Rightarrow> nat list" where
  "credit_window ch = window (head ch) (avail_credits ch)"

definition advance_spec :: "nat \<Rightarrow> nat \<Rightarrow> nat list \<Rightarrow> nat list" where
  "advance_spec n fresh w = drop n w @ replicate n fresh"

definition request_spec :: "nat \<Rightarrow> nat \<Rightarrow> nat list \<Rightarrow> nat list \<times> nat \<times> nat" where
  "request_spec R r w = (let (cs, left, delay) = greedy (drop R w) r 0 in (take R w @ cs, left, delay))"

lemma credit_window_advance:
  "ch_wf ch \<Longrightarrow> credit_window (chmodel_advance now ch) =
     advance_spec (passed_slots now ch) (u8 (max_credits ch)) (credit_window ch)"
  by (simp add: credit_window_def advance_spec_def chmodel_advance_window ch_wf_def)

lemma ch_wf_window:
  "ch_wf ch \<longleftrightarrow> head ch < NR_CREDIT_ENTRIES \<and> valid_len ch \<le> NR_CREDIT_ENTRIES
     \<and> max_credits ch < 2 ^ 32
     \<and> (\<forall>k < NR_CREDIT_ENTRIES. credit_window ch ! k \<le> u8 (max_credits ch))
     \<and> (\<forall>k < NR_CREDIT_ENTRIES. valid_len ch \<le> k \<longrightarrow> credit_window ch ! k = u8 (max_credits ch))"
  by (auto simp: ch_wf_def credit_window_def)

lemma greedy_le:
  assumes "greedy cs r d = (cs', r', d')" and "cs \<noteq> []" and "i < length cs"
  shows "cs' ! i \<le> cs ! i"
proof -
  note s = greedy_shape [OF assms(1,2)]
  consider "i < d' - d" | "i = d' - d" | "d' - d < i" by linarith
  then show ?thesis using s assms(3) by cases auto
qed

lemma max_credits_advance: "max_credits (chmodel_advance now ch) = max_credits ch"
  by (simp add: chmodel_advance_offs Let_def)

lemma chmodel_request_full:
  assumes wf: "ch_wf ch" and m: "0 < max_credits ch" and now: "now \<le> request_time"
    and off: "time_offset now request_time < NR_CREDIT_ENTRIES"
    and s: "request_spec (time_offset now request_time) (demand ch len)
              (credit_window (chmodel_advance now ch)) = (w, left, delay)"
  shows "\<exists>ch'. chmodel_request now request_time len ch = Some (finish_time ch request_time len delay, ch')
     \<and> credit_window ch' = w \<and> ch_wf ch' \<and> delay < NR_CREDIT_ENTRIES \<and> max_credits ch' = max_credits ch"
proof -
  let ?R = "time_offset now request_time" and ?a = "chmodel_advance now ch"
  let ?W = "window (head ?a) (avail_credits ?a)"
  from s obtain cs' where g: "greedy (drop ?R ?W) (demand ch len) 0 = (cs', left, delay)"
    and w: "w = take ?R ?W @ cs'"
    by (auto simp: request_spec_def credit_window_def split: prod.splits)
  from chmodel_request_greedy [OF wf m now off g] obtain credits where
    run: "chmodel_request now request_time len ch =
       Some (finish_time ch request_time len delay, ?a\<lparr> avail_credits := credits,
         valid_len := max (Suc (?R + delay)) (valid_len ch - passed_slots now ch) \<rparr>)"
    and win: "window (head ?a) credits = w" and bound: "?R + delay < NR_CREDIT_ENTRIES"
    unfolding w by metis
  let ?ch = "?a\<lparr> avail_credits := credits,
       valid_len := max (Suc (?R + delay)) (valid_len ch - passed_slots now ch) \<rparr>"
  have wfa: "ch_wf ?a" using wf by (rule chmodel_advance_wf)
  have va: "valid_len ?a = valid_len ch - passed_slots now ch"
    using wf by (simp add: ch_wf_def advance_fields)
  have cw: "credit_window ?ch = w" by (simp add: credit_window_def win)
  have ne: "drop ?R ?W \<noteq> []" using off by simp
  have old: "w ! k \<le> ?W ! k \<and> (?R + delay < k \<longrightarrow> w ! k = ?W ! k)" if "k < NR_CREDIT_ENTRIES" for k
  proof (cases "k < ?R")
    case True
    with off show ?thesis by (simp add: w nth_append)
  next
    case False
    then have "w ! k = cs' ! (k - ?R)" using off by (simp add: w nth_append)
    moreover have "cs' ! (k - ?R) \<le> ?W ! k"
      using greedy_le [OF g ne, of "k - ?R"] that False off by simp
    moreover have "cs' ! (k - ?R) = ?W ! k" if late: "?R + delay < k"
    proof -
      have "delay - 0 < k - ?R \<and> k - ?R < length (drop ?R ?W)"
        using late \<open>k < NR_CREDIT_ENTRIES\<close> by (simp; linarith)
      then have "cs' ! (k - ?R) = drop ?R ?W ! (k - ?R)" using greedy_shape [OF g ne] by blast
      with False off show ?thesis by (simp del: window_nth)
    qed
    ultimately show ?thesis by simp
  qed
  have "ch_wf ?ch"
    using wfa old bound wf va unfolding ch_wf_window cw
    by (auto simp: credit_window_def [of ?a] simp del: window_nth intro: order_trans)
  moreover have "max_credits ?ch = max_credits ch" by (simp add: max_credits_advance)
  ultimately show ?thesis using run cw bound by auto
qed

lemma request_spec_conserves:
  assumes "request_spec R r w = (w', left, delay)" and "R < length w"
  shows "sum_list w' + r = sum_list w + left \<and> left \<le> r \<and> (0 < left \<longrightarrow> set (drop R w') \<subseteq> {0})
    \<and> delay < length w - R"
proof -
  from assms(1) obtain cs where g: "greedy (drop R w) r 0 = (cs, left, delay)" and w: "w' = take R w @ cs"
    by (auto simp: request_spec_def split: prod.splits)
  have ne: "drop R w \<noteq> []" using assms(2) by simp
  have "sum_list w = sum_list (take R w) + sum_list (drop R w)"
    by (metis append_take_drop_id sum_list_append)
  with greedy_conserves [OF g ne] greedy_delay_less [OF g ne] w assms(2) show ?thesis by auto
qed

lemma chmodel_request_cases:
  "ch_wf ch \<Longrightarrow> request_time < now \<or> time_offset now request_time \<ge> NR_CREDIT_ENTRIES \<Longrightarrow>
    chmodel_request now request_time len ch = Some (request_time, chmodel_advance now ch)"
  by (auto simp: chmodel_request_def Let_def time_offset_def ch_wf_def advance_fields)

lemma finish_time_ge:
  assumes "request_time + (2 ^ 32 + NR_CREDIT_ENTRIES * UNIT_TIME_INTERVAL) < 2 ^ 64"
    and "delay < NR_CREDIT_ENTRIES"
  shows "request_time \<le> finish_time ch request_time len delay"
proof -
  let ?l = "u32 (xfer_lat ch * u32 (div_round_up len UNIT_XFER_SIZE))"
  let ?d = "(delay - demand ch len div max_credits ch) * UNIT_TIME_INTERVAL"
  have "?d \<le> NR_CREDIT_ENTRIES * UNIT_TIME_INTERVAL"
    using assms(2) by (intro mult_right_mono) simp_all
  moreover have "?l < 2 ^ 32" using u32_less [of "xfer_lat ch * u32 (div_round_up len UNIT_XFER_SIZE)"] by simp
  ultimately have "request_time + (?l + ?d) < 2 ^ 64" using assms(1) by linarith
  then show ?thesis by (simp add: finish_time_def)
qed

definition XFER_MAX :: nat where
  "XFER_MAX = 2 ^ 32 + NR_CREDIT_ENTRIES * UNIT_TIME_INTERVAL"

lemma finish_time_le:
  assumes "delay < NR_CREDIT_ENTRIES"
  shows "finish_time ch request_time len delay \<le> request_time + XFER_MAX"
proof -
  let ?l = "u32 (xfer_lat ch * u32 (div_round_up len UNIT_XFER_SIZE))"
  let ?d = "(delay - demand ch len div max_credits ch) * UNIT_TIME_INTERVAL"
  have "?d \<le> NR_CREDIT_ENTRIES * UNIT_TIME_INTERVAL"
    using assms by (intro mult_right_mono) simp_all
  moreover have "?l < 2 ^ 32" using u32_less [of "xfer_lat ch * u32 (div_round_up len UNIT_XFER_SIZE)"] by simp
  moreover have "finish_time ch request_time len delay \<le> request_time + (?l + ?d)"
    unfolding finish_time_def using u64_le by (metis add_left_mono order_trans)
  ultimately show ?thesis unfolding XFER_MAX_def by linarith
qed

text \<open>What the flash device needs of a request: it returns, keeps the channel usable, and
  completes no earlier than requested and within a bounded time.\<close>

definition ch_usable :: "channel_model \<Rightarrow> bool" where
  "ch_usable ch \<longleftrightarrow> ch_wf ch \<and> 0 < max_credits ch"

lemma chmodel_request_usable:
  assumes "ch_usable ch"
  shows "\<exists>t ch'. chmodel_request now request_time len ch = Some (t, ch') \<and> ch_usable ch'
    \<and> t \<le> request_time + XFER_MAX \<and> (request_time + XFER_MAX < 2 ^ 64 \<longrightarrow> request_time \<le> t)"
proof (cases "request_time < now \<or> time_offset now request_time \<ge> NR_CREDIT_ENTRIES")
  case True
  with assms show ?thesis by (simp add: ch_usable_def chmodel_request_cases chmodel_advance_wf max_credits_advance)
next
  case False
  from assms have wf: "ch_wf ch" "0 < max_credits ch" by (simp_all add: ch_usable_def)
  obtain w left delay where s: "request_spec (time_offset now request_time) (demand ch len)
      (credit_window (chmodel_advance now ch)) = (w, left, delay)" by (metis prod_cases3)
  from chmodel_request_full [OF wf _ _ s] False obtain ch' where
    "chmodel_request now request_time len ch = Some (finish_time ch request_time len delay, ch')"
    "ch_wf ch'" "max_credits ch' = max_credits ch" and d: "delay < NR_CREDIT_ENTRIES" by auto
  moreover have "request_time + XFER_MAX < 2 ^ 64 \<longrightarrow> request_time \<le> finish_time ch request_time len delay"
    unfolding XFER_MAX_def using finish_time_ge [OF _ d] by blast
  ultimately show ?thesis using wf finish_time_le [OF d] by (auto simp: ch_usable_def)
qed

text \<open>C14: A request that lies in the ring's future behaves as the list specification: the ring
  is advanced by the slots that have passed since the last request, then the demand is taken
  greedily from the slot of the request time on; the completion time is the request time plus the
  transfer latency plus a slot time for each slot waited beyond the minimum, and the state stays
  well-formed.\<close>

theorem chmodel_request_refines:
  assumes "ch_wf ch" and "0 < max_credits ch" and "now \<le> request_time"
    and "time_offset now request_time < NR_CREDIT_ENTRIES"
  shows "\<exists>w left delay ch'.
     request_spec (time_offset now request_time) (demand ch len)
       (advance_spec (passed_slots now ch) (u8 (max_credits ch)) (credit_window ch)) = (w, left, delay)
     \<and> chmodel_request now request_time len ch = Some (finish_time ch request_time len delay, ch')
     \<and> credit_window ch' = w \<and> ch_wf ch'"
  using chmodel_request_full [OF assms] credit_window_advance [OF assms(1)]
  by (metis prod_cases3)

definition example_channel :: channel_model where
  "example_channel = \<lparr> cur_time = 0, head = 98303, valid_len = 98304, max_credits = 10,
     command_credits = 0, xfer_lat = 160, avail_credits = (\<lambda>i. if i = 98303 then 2 else 10) \<rparr>"

lemma example_channel_wf: "ch_wf example_channel"
  by (simp add: ch_wf_def example_channel_def NR_CREDIT_ENTRIES_def)

lemma chmodel_request_refines_witness:
  "\<exists>w left delay ch'.
     request_spec 1 32
       (advance_spec 2 10 (credit_window example_channel)) = (w, left, delay)
     \<and> chmodel_request 8000 12000 4096 example_channel
         = Some (finish_time example_channel 12000 4096 delay, ch')
     \<and> credit_window ch' = w \<and> ch_wf ch'"
  using chmodel_request_refines [of example_channel 8000 12000 4096] example_channel_wf
  by (simp add: time_offset_def demand_def passed_slots_def example_channel_def UNIT_TIME_INTERVAL_def
      UNIT_XFER_SIZE_def UNIT_XFER_CREDITS_def div_round_up_def NR_CREDIT_ENTRIES_def)

text \<open>From a well-formed channel with a positive credit limit every request returns, whatever
  the clock, the request time and the length, and leaves the channel well-formed.\<close>

theorem chmodel_request_total:
  assumes "ch_wf ch" and "0 < max_credits ch"
  shows "\<exists>t ch'. chmodel_request now request_time len ch = Some (t, ch') \<and> ch_wf ch'"
  using chmodel_request_usable [of ch now request_time len] assms by (auto simp: ch_usable_def)

lemma chmodel_request_total_witness:
  "\<exists>t ch'. chmodel_request 8000 12000 4096 example_channel = Some (t, ch') \<and> ch_wf ch'"
  using example_channel_wf by (rule chmodel_request_total) (simp add: example_channel_def)

text \<open>No bandwidth is created or lost: the credits taken out of the advanced ring are exactly
  the demand, less what is left over when the ring is exhausted, and then every slot from the
  request time on is empty.\<close>

theorem chmodel_request_conserves_credits:
  assumes "ch_wf ch" and "0 < max_credits ch" and "now \<le> request_time"
    and "time_offset now request_time < NR_CREDIT_ENTRIES"
  shows "\<exists>t ch' left. chmodel_request now request_time len ch = Some (t, ch')
     \<and> sum_list (credit_window ch') + demand ch len
         = sum_list (credit_window (chmodel_advance now ch)) + left
     \<and> left \<le> demand ch len
     \<and> (0 < left \<longrightarrow> set (drop (time_offset now request_time) (credit_window ch')) \<subseteq> {0})"
proof -
  obtain w left delay where s: "request_spec (time_offset now request_time) (demand ch len)
      (credit_window (chmodel_advance now ch)) = (w, left, delay)" by (metis prod_cases3)
  have "length (credit_window (chmodel_advance now ch)) = NR_CREDIT_ENTRIES"
    by (simp add: credit_window_def)
  with request_spec_conserves [OF s] chmodel_request_full [OF assms s] assms(4)
  show ?thesis by auto
qed

lemma chmodel_request_conserves_credits_witness:
  "\<exists>t ch' left. chmodel_request 8000 12000 4096 example_channel = Some (t, ch')
     \<and> sum_list (credit_window ch') + 32
         = sum_list (credit_window (chmodel_advance 8000 example_channel)) + left
     \<and> left \<le> 32
     \<and> (0 < left \<longrightarrow> set (drop 1 (credit_window ch')) \<subseteq> {0})"
  using chmodel_request_conserves_credits [of example_channel 8000 12000 4096] example_channel_wf
  by (simp add: time_offset_def demand_def example_channel_def UNIT_TIME_INTERVAL_def
      UNIT_XFER_SIZE_def UNIT_XFER_CREDITS_def div_round_up_def NR_CREDIT_ENTRIES_def)

text \<open>A transfer never completes before its request time, as long as the request time is far
  enough from the end of the 64-bit nanosecond clock.\<close>

theorem chmodel_request_not_early:
  assumes "ch_wf ch" and "0 < max_credits ch"
    and "request_time + (2 ^ 32 + NR_CREDIT_ENTRIES * UNIT_TIME_INTERVAL) < 2 ^ 64"
  shows "\<exists>t ch'. chmodel_request now request_time len ch = Some (t, ch') \<and> request_time \<le> t"
proof -
  have "request_time + XFER_MAX < 2 ^ 64" using assms(3) by (simp only: XFER_MAX_def)
  then show ?thesis
    using chmodel_request_usable [of ch now request_time len] assms(1,2) by (auto simp: ch_usable_def)
qed

lemma chmodel_request_not_early_witness:
  "\<exists>t ch'. chmodel_request 8000 12000 4096 example_channel = Some (t, ch') \<and> 12000 \<le> t"
  using example_channel_wf
  by (rule chmodel_request_not_early)
    (simp_all add: example_channel_def NR_CREDIT_ENTRIES_def UNIT_TIME_INTERVAL_def)

lemma chmodel_init_ok:
  "(u64 (MB bandwidth) = 0 \<longrightarrow> chmodel_init bandwidth = None) \<and>
   (u64 (MB bandwidth) \<noteq> 0 \<longrightarrow> (\<exists>ch. chmodel_init bandwidth = Some ch
     \<and> ch_wf ch \<and> valid_len ch = 0
     \<and> max_credits ch = u32 (BANDWIDTH_TO_MAX_CREDITS bandwidth)
     \<and> credit_window ch = replicate NR_CREDIT_ENTRIES (BANDWIDTH_TO_MAX_CREDITS bandwidth mod 256)))"
proof -
  have low: "u8 (u32 n) = n mod 256" for n by (simp add: u8_def u32_def mod_mod_cancel)
  have win: "window 0 (MEMSET 0 m NR_CREDIT_ENTRIES a) = replicate NR_CREDIT_ENTRIES (u8 m)" for m a
    by (rule nth_equalityI) (simp_all add: MEMSET_def)
  have "MEMSET 0 m NR_CREDIT_ENTRIES a (slot 0 k) = u8 m" for m a k
    by (simp add: MEMSET_def)
  then show ?thesis
    by (simp add: chmodel_init_def BANDWIDTH_TO_TX_TIME_def ch_wf_window credit_window_def win low
        div_trap_def Let_def)
qed

text \<open>Initialisation with a nonzero bandwidth gives a well-formed, entirely unused channel;
  every slot holds the low byte of the credit limit, because \<open>credit_t\<close> is one byte. A zero
  bandwidth divides by zero.\<close>

theorem chmodel_init_correct:
  "(u64 (MB bandwidth) = 0 \<longrightarrow> chmodel_init bandwidth = None) \<and>
   (u64 (MB bandwidth) \<noteq> 0 \<longrightarrow> (\<exists>ch. chmodel_init bandwidth = Some ch
     \<and> ch_wf ch \<and> valid_len ch = 0
     \<and> max_credits ch = u32 (BANDWIDTH_TO_MAX_CREDITS bandwidth)
     \<and> credit_window ch = replicate NR_CREDIT_ENTRIES (BANDWIDTH_TO_MAX_CREDITS bandwidth mod 256)))"
  by (rule chmodel_init_ok)

lemma chmodel_init_correct_witness:
  "\<exists>ch. chmodel_init 800 = Some ch \<and> ch_wf ch
     \<and> credit_window ch = replicate NR_CREDIT_ENTRIES (BANDWIDTH_TO_MAX_CREDITS 800 mod 256)"
  using chmodel_init_correct [of 800] by (auto simp: MB_def)

lemma chmodel_init_usable:
  "chmodel_init bandwidth = Some ch \<Longrightarrow> 0 < u32 (BANDWIDTH_TO_MAX_CREDITS bandwidth) \<Longrightarrow> ch_usable ch"
  using chmodel_init_ok [of bandwidth] by (cases "u64 (MB bandwidth) = 0") (auto simp: ch_usable_def)

lemma ch_usable_xfer_lat [simp]: "ch_usable (ch\<lparr> xfer_lat := l \<rparr>) \<longleftrightarrow> ch_usable ch"
  by (simp add: ch_usable_def ch_wf_def)

end
