(* ===== verification/Pqueue.thy ===== *)
theory Pqueue
  imports Nvmev_Prelude
begin

text \<open>
  The priority queue of \<open>pqueue/pqueue.c\<close>: a binary heap in an array whose element 0 is
  not used, parametrised by the client's callbacks. Elements are pointers of the client; the
  priority and the position of an element live in the client's memory \<open>'m\<close>, which the
  callbacks read and write and the operations thread through.

  An access outside the array is \<open>None\<close>: \<open>pqueue_insert\<close> reports a full queue and then
  writes behind the array, because the growing of the array is commented out.

  The interface between the queue and its client is the locale \<open>pq_callbacks\<close>: what the
  callbacks must satisfy. Under it every operation keeps the heap order, the elements and the
  agreement of the stored positions with the array. It is interpreted on the callbacks of the
  victim queue in \<open>Line_Mgmt\<close>.
\<close>

section \<open>The code\<close>

record ('m, 'e) pqueue_t =
  q_size :: nat
  q_avail :: nat
  q_step :: nat
  cmppri :: "nat \<Rightarrow> nat \<Rightarrow> bool"
  getpri :: "'m \<Rightarrow> 'e \<Rightarrow> nat"
  setpri :: "'m \<Rightarrow> 'e \<Rightarrow> nat \<Rightarrow> 'm"
  getpos :: "'m \<Rightarrow> 'e \<Rightarrow> nat"
  setpos :: "'m \<Rightarrow> 'e \<Rightarrow> nat \<Rightarrow> 'm"
  q_d :: "'e list"

text \<open>\<open>junk\<close> is the indeterminate content of the memory \<open>kmalloc\<close> returns.\<close>

definition pqueue_init ::
  "nat \<Rightarrow> (nat \<Rightarrow> nat \<Rightarrow> bool) \<Rightarrow> ('m \<Rightarrow> 'e \<Rightarrow> nat) \<Rightarrow> ('m \<Rightarrow> 'e \<Rightarrow> nat \<Rightarrow> 'm) \<Rightarrow> ('m \<Rightarrow> 'e \<Rightarrow> nat) \<Rightarrow>
   ('m \<Rightarrow> 'e \<Rightarrow> nat \<Rightarrow> 'm) \<Rightarrow> 'e \<Rightarrow> ('m, 'e) pqueue_t" where
  "pqueue_init n cmp gpri spri gpos spos junk =
     \<lparr> q_size = 1, q_avail = n + 1, q_step = n + 1, cmppri = cmp, getpri = gpri, setpri = spri,
       getpos = gpos, setpos = spos, q_d = replicate (n + 1) junk \<rparr>"

definition pqueue_size :: "('m, 'e) pqueue_t \<Rightarrow> nat" where
  "pqueue_size q = q_size q - 1"

function bubble_up_loop ::
  "('m, 'e) pqueue_t \<Rightarrow> 'm \<Rightarrow> nat \<Rightarrow> nat \<Rightarrow> (('m, 'e) pqueue_t \<times> 'm \<times> nat) option" where
  "bubble_up_loop q m i moving_pri =
     (if i > 1 then
        (case arr_get (q_d q) (i div 2) of
           None \<Rightarrow> None
         | Some p \<Rightarrow>
             if cmppri q (getpri q m p) moving_pri
             then (if i < length (q_d q)
                   then bubble_up_loop (q\<lparr> q_d := (q_d q)[i := p] \<rparr>) (setpos q m p i) (i div 2) moving_pri
                   else None)
             else Some (q, m, i))
      else Some (q, m, i))"
  by pat_completeness auto
termination by (relation "measure (\<lambda>(q, m, i, mp). i)") auto

definition bubble_up :: "('m, 'e) pqueue_t \<Rightarrow> 'm \<Rightarrow> nat \<Rightarrow> (('m, 'e) pqueue_t \<times> 'm) option" where
  "bubble_up q m i = do {
     moving_node \<leftarrow> arr_get (q_d q) i;
     (q, m, i) \<leftarrow> bubble_up_loop q m i (getpri q m moving_node);
     d \<leftarrow> arr_set (q_d q) i moving_node;
     Some (q\<lparr> q_d := d \<rparr>, setpos q m moving_node i)
   }"

definition maxchild :: "('m, 'e) pqueue_t \<Rightarrow> 'm \<Rightarrow> nat \<Rightarrow> nat option" where
  "maxchild q m i =
     (let child_node = 2 * i
      in if child_node \<ge> q_size q then Some 0
         else if child_node + 1 < q_size q then do {
           l \<leftarrow> arr_get (q_d q) child_node;
           r \<leftarrow> arr_get (q_d q) (child_node + 1);
           Some (if cmppri q (getpri q m l) (getpri q m r) then child_node + 1 else child_node)
         }
         else Some child_node)"

lemma maxchild_bounds: "maxchild q m i = Some c \<Longrightarrow> c \<noteq> 0 \<Longrightarrow> i < c \<and> c < q_size q"
  by (auto simp: maxchild_def Let_def fault_simps split: if_splits)

function percolate_loop ::
  "('m, 'e) pqueue_t \<Rightarrow> 'm \<Rightarrow> nat \<Rightarrow> nat \<Rightarrow> (('m, 'e) pqueue_t \<times> 'm \<times> nat) option" where
  "percolate_loop q m i moving_pri =
     (case maxchild q m i of
        None \<Rightarrow> None
      | Some child_node \<Rightarrow>
          if child_node = 0 then Some (q, m, i)
          else (case arr_get (q_d q) child_node of
                  None \<Rightarrow> None
                | Some c \<Rightarrow>
                    if cmppri q moving_pri (getpri q m c)
                    then (if i < length (q_d q)
                          then percolate_loop (q\<lparr> q_d := (q_d q)[i := c] \<rparr>) (setpos q m c i)
                                 child_node moving_pri
                          else None)
                    else Some (q, m, i)))"
  by pat_completeness auto
termination
  by (relation "measure (\<lambda>(q, m, i, mp). q_size q - i)") (auto dest: maxchild_bounds)

definition percolate_down :: "('m, 'e) pqueue_t \<Rightarrow> 'm \<Rightarrow> nat \<Rightarrow> (('m, 'e) pqueue_t \<times> 'm) option" where
  "percolate_down q m i = do {
     moving_node \<leftarrow> arr_get (q_d q) i;
     (q, m, i) \<leftarrow> percolate_loop q m i (getpri q m moving_node);
     d \<leftarrow> arr_set (q_d q) i moving_node;
     Some (q\<lparr> q_d := d \<rparr>, setpos q m moving_node i)
   }"

declare bubble_up_loop.simps [simp del] percolate_loop.simps [simp del]

text \<open>The capacity check only reports; the store into the array follows in any case.\<close>

definition pqueue_insert :: "('m, 'e) pqueue_t \<Rightarrow> 'm \<Rightarrow> 'e \<Rightarrow> (('m, 'e) pqueue_t \<times> 'm) option" where
  "pqueue_insert q m e = do {
     let i = q_size q;
     d \<leftarrow> arr_set (q_d q) i e;
     bubble_up (q\<lparr> q_size := q_size q + 1, q_d := d \<rparr>) m i
   }"

definition pqueue_change_priority ::
  "('m, 'e) pqueue_t \<Rightarrow> 'm \<Rightarrow> nat \<Rightarrow> 'e \<Rightarrow> (('m, 'e) pqueue_t \<times> 'm) option" where
  "pqueue_change_priority q m new_pri e =
     (let old_pri = getpri q m e;
          m = setpri q m e new_pri;
          posn = getpos q m e
      in if cmppri q old_pri new_pri then bubble_up q m posn else percolate_down q m posn)"

definition pqueue_remove :: "('m, 'e) pqueue_t \<Rightarrow> 'm \<Rightarrow> 'e \<Rightarrow> (('m, 'e) pqueue_t \<times> 'm) option" where
  "pqueue_remove q m e = do {
     let posn = getpos q m e;
     let n = q_size q - 1;
     lst \<leftarrow> arr_get (q_d q) n;
     d \<leftarrow> arr_set (q_d q) posn lst;
     let q = q\<lparr> q_size := n, q_d := d \<rparr>;
     if cmppri q (getpri q m e) (getpri q m lst) then bubble_up q m posn else percolate_down q m posn
   }"

text \<open>The result of \<open>pqueue_pop\<close> and \<open>pqueue_peek\<close> is a pointer, \<open>None\<close> when it is NULL.\<close>

definition pqueue_pop ::
  "('m, 'e) pqueue_t \<Rightarrow> 'm \<Rightarrow> ('e option \<times> ('m, 'e) pqueue_t \<times> 'm) option" where
  "pqueue_pop q m =
     (if q_size q = 1 then Some (None, q, m)
      else do {
        h \<leftarrow> arr_get (q_d q) 1;
        let n = q_size q - 1;
        lst \<leftarrow> arr_get (q_d q) n;
        d \<leftarrow> arr_set (q_d q) 1 lst;
        (q, m) \<leftarrow> percolate_down (q\<lparr> q_size := n, q_d := d \<rparr>) m 1;
        Some (Some h, q, m)
      })"

definition pqueue_peek :: "('m, 'e) pqueue_t \<Rightarrow> 'e option option" where
  "pqueue_peek q = (if q_size q = 1 then Some None else do { e \<leftarrow> arr_get (q_d q) 1; Some (Some e) })"

partial_function (option) subtree_is_valid :: "('m, 'e) pqueue_t \<Rightarrow> 'm \<Rightarrow> nat \<Rightarrow> bool option" where
  "subtree_is_valid q m pos =
     Option.bind
       (if 2 * pos < q_size q
        then Option.bind (arr_get (q_d q) pos) (\<lambda>x. Option.bind (arr_get (q_d q) (2 * pos)) (\<lambda>l.
               if cmppri q (getpri q m x) (getpri q m l) then Some False
               else subtree_is_valid q m (2 * pos)))
        else Some True) (\<lambda>left_ok.
     if \<not> left_ok then Some False
     else if 2 * pos + 1 < q_size q
        then Option.bind (arr_get (q_d q) pos) (\<lambda>x. Option.bind (arr_get (q_d q) (2 * pos + 1)) (\<lambda>r.
               if cmppri q (getpri q m x) (getpri q m r) then Some False
               else subtree_is_valid q m (2 * pos + 1)))
        else Some True)"

definition pqueue_is_valid :: "('m, 'e) pqueue_t \<Rightarrow> 'm \<Rightarrow> bool option" where
  "pqueue_is_valid q m = subtree_is_valid q m 1"

section \<open>Heaps with one misplaced element\<close>

text \<open>
  \<open>le x y\<close> reads "\<open>x\<close> may stand above \<open>y\<close>". The loops move a hole at \<open>i\<close> through the
  array; with the moving element put into the hole, a step is a swap and the heap order may
  fail at \<open>i\<close> only.
\<close>

definition heap :: "('e \<Rightarrow> 'e \<Rightarrow> bool) \<Rightarrow> 'e list \<Rightarrow> nat \<Rightarrow> bool" where
  "heap le a n \<longleftrightarrow> (\<forall>j. 2 \<le> j \<and> j < n \<longrightarrow> le (a ! (j div 2)) (a ! j))"

definition bridged :: "('e \<Rightarrow> 'e \<Rightarrow> bool) \<Rightarrow> 'e list \<Rightarrow> nat \<Rightarrow> nat \<Rightarrow> bool" where
  "bridged le a n i \<longleftrightarrow> (\<forall>j. 2 \<le> j \<and> j < n \<and> j div 2 = i \<and> 2 \<le> i \<longrightarrow> le (a ! (i div 2)) (a ! j))"

definition heap_but_up :: "('e \<Rightarrow> 'e \<Rightarrow> bool) \<Rightarrow> 'e list \<Rightarrow> nat \<Rightarrow> nat \<Rightarrow> bool" where
  "heap_but_up le a n i \<longleftrightarrow>
     (\<forall>j. 2 \<le> j \<and> j < n \<and> j \<noteq> i \<longrightarrow> le (a ! (j div 2)) (a ! j)) \<and> bridged le a n i"

definition heap_but_down :: "('e \<Rightarrow> 'e \<Rightarrow> bool) \<Rightarrow> 'e list \<Rightarrow> nat \<Rightarrow> nat \<Rightarrow> bool" where
  "heap_but_down le a n i \<longleftrightarrow>
     (\<forall>j. 2 \<le> j \<and> j < n \<and> j div 2 \<noteq> i \<longrightarrow> le (a ! (j div 2)) (a ! j)) \<and> bridged le a n i"

definition swap_cells :: "'e list \<Rightarrow> nat \<Rightarrow> nat \<Rightarrow> 'e list" where
  "swap_cells a i k = a[i := a ! k, k := a ! i]"

definition cells :: "'e list \<Rightarrow> nat \<Rightarrow> 'e set" where
  "cells a n = (!) a ` {1..<n}"

definition distinct_cells :: "'e list \<Rightarrow> nat \<Rightarrow> bool" where
  "distinct_cells a n \<longleftrightarrow> inj_on ((!) a) {1..<n}"

lemma length_swap_cells [simp]: "length (swap_cells a i k) = length a"
  by (simp add: swap_cells_def)

lemma nth_swap_cells: "i < length a \<Longrightarrow> k < length a \<Longrightarrow>
    swap_cells a i k ! j = (if j = k then a ! i else if j = i then a ! k else a ! j)"
  by (auto simp: swap_cells_def nth_list_update)

lemma cells_swap_cells:
  assumes "i \<in> {1..<n}" and "k \<in> {1..<n}" and "n \<le> length a"
  shows "cells (swap_cells a i k) n = cells a n"
proof -
  have len: "i < length a" "k < length a" using assms by auto
  have "swap_cells a i k ! j \<in> cells a n" if "j \<in> {1..<n}" for j
    using assms(1,2) that by (auto simp: nth_swap_cells len cells_def)
  moreover have "a ! j \<in> cells (swap_cells a i k) n" if j: "j \<in> {1..<n}" for j
  proof -
    have "a ! j = swap_cells a i k ! (if j = i then k else if j = k then i else j)"
      by (simp add: nth_swap_cells len)
    then show ?thesis using assms(1,2) j by (auto simp: cells_def)
  qed
  ultimately show ?thesis by (fastforce simp: cells_def)
qed

lemma distinct_cells_swap_cells:
  assumes "i \<in> {1..<n}" and "k \<in> {1..<n}" and "n \<le> length a" and "distinct_cells a n"
  shows "distinct_cells (swap_cells a i k) n"
proof -
  have "i < length a" "k < length a" using assms by auto
  then show ?thesis
    using assms(1,2,4) unfolding distinct_cells_def inj_on_def by (auto simp: nth_swap_cells)
qed

lemma heap_root_least:
  assumes "heap le a n" and refl: "\<And>x. le x x" and trans: "\<And>x y z. le x y \<Longrightarrow> le y z \<Longrightarrow> le x z"
    and "1 \<le> j" and "j < n"
  shows "le (a ! 1) (a ! j)"
  using assms(4,5)
proof (induction j rule: less_induct)
  case (less j)
  show ?case
  proof (cases "j = 1")
    case False
    with less.prems have j: "2 \<le> j" by simp
    then have "le (a ! 1) (a ! (j div 2))"
      using less.prems by (intro less.IH) auto
    moreover have "le (a ! (j div 2)) (a ! j)"
      using assms(1) j less.prems by (simp add: heap_def)
    ultimately show ?thesis by (rule trans)
  qed (simp add: refl)
qed

text \<open>
  A queue with a hole at \<open>i\<close>: the cells below \<open>n\<close> hold the elements \<open>E\<close>, each once,
  and each element but the one in the hole knows its position.
\<close>

definition hole ::
  "('m \<Rightarrow> 'e \<Rightarrow> nat) \<Rightarrow> ('m \<Rightarrow> 'e \<Rightarrow> bool) \<Rightarrow> 'm \<Rightarrow> 'e list \<Rightarrow> nat \<Rightarrow> nat \<Rightarrow> 'e set \<Rightarrow> bool" where
  "hole gpos ok m a n i E \<longleftrightarrow> i \<in> {1..<n} \<and> n \<le> length a \<and> cells a n = E \<and> distinct_cells a n
     \<and> (\<forall>x \<in> E. ok m x) \<and> (\<forall>j \<in> {1..<n}. j \<noteq> i \<longrightarrow> gpos m (a ! j) = j)"

definition pri_le :: "(nat \<Rightarrow> nat \<Rightarrow> bool) \<Rightarrow> ('m \<Rightarrow> 'e \<Rightarrow> nat) \<Rightarrow> 'm \<Rightarrow> 'e \<Rightarrow> 'e \<Rightarrow> bool" where
  "pri_le cmp gpri m x y \<longleftrightarrow> \<not> cmp (gpri m x) (gpri m y)"

text \<open>The invariant of a queue at rest.\<close>

definition pq_inv :: "('m \<Rightarrow> 'e \<Rightarrow> bool) \<Rightarrow> ('m, 'e) pqueue_t \<Rightarrow> 'm \<Rightarrow> bool" where
  "pq_inv ok q m \<longleftrightarrow> 1 \<le> q_size q \<and> q_size q \<le> q_avail q \<and> length (q_d q) = q_avail q
     \<and> distinct_cells (q_d q) (q_size q) \<and> (\<forall>x \<in> cells (q_d q) (q_size q). ok m x)
     \<and> (\<forall>j \<in> {1..<q_size q}. getpos q m (q_d q ! j) = j)
     \<and> heap (pri_le (cmppri q) (getpri q) m) (q_d q) (q_size q)"

definition pq_elems :: "('m, 'e) pqueue_t \<Rightarrow> 'e set" where
  "pq_elems q = cells (q_d q) (q_size q)"

text \<open>The invariant looks at memory through the elements of the queue only.\<close>

lemma pq_inv_frame:
  assumes "pq_inv ok q m"
    and "\<And>x. x \<in> pq_elems q \<Longrightarrow> ok m' x \<and> getpri q m' x = getpri q m x \<and> getpos q m' x = getpos q m x"
  shows "pq_inv ok q m'"
proof -
  have el: "q_d q ! j \<in> pq_elems q" if "j \<in> {1..<q_size q}" for j
    using that by (simp add: pq_elems_def cells_def)
  then have pri: "getpri q m' (q_d q ! j) = getpri q m (q_d q ! j)" if "j \<in> {1..<q_size q}" for j
    using assms(2) that by blast
  have half: "j div 2 \<in> {1..<n}" "j \<in> {1..<n}" if "2 \<le> j \<and> j < n" for j n :: nat using that by auto
  have "heap (pri_le (cmppri q) (getpri q) m') (q_d q) (q_size q)"
    using assms(1) pri half unfolding pq_inv_def heap_def pri_le_def by metis
  moreover have "\<forall>j \<in> {1..<q_size q}. getpos q m' (q_d q ! j) = j"
    using assms el by (simp add: pq_inv_def)
  moreover have "\<forall>x \<in> cells (q_d q) (q_size q). ok m' x"
    using assms(2) by (simp add: pq_elems_def)
  ultimately show ?thesis using assms(1) by (simp add: pq_inv_def)
qed

lemma heap_but_up_step:
  assumes "heap_but_up le a n i" and "\<And>x y z. le x y \<Longrightarrow> le y z \<Longrightarrow> le x z"
    and "le (a ! i) (a ! (i div 2))" and "2 \<le> i" and "i < n" and "n \<le> length a"
  shows "heap_but_up le (swap_cells a i (i div 2)) n (i div 2)"
proof -
  let ?k = "i div 2" and ?b = "swap_cells a i (i div 2)"
  have len: "i < length a" "?k < length a" and ki: "?k \<noteq> i" using assms(4-6) by auto
  note b = nth_swap_cells [OF len]
  have edge: "le (a ! (j div 2)) (a ! j)" if "2 \<le> j" "j < n" "j \<noteq> i" for j
    using assms(1) that by (simp add: heap_but_up_def)
  have br: "le (a ! ?k) (a ! j)" if "2 \<le> j" "j < n" "j div 2 = i" for j
    using assms(1,4) that by (simp add: heap_but_up_def bridged_def)
  have "le (?b ! (j div 2)) (?b ! j)" if j: "2 \<le> j" "j < n" "j \<noteq> ?k" for j
  proof -
    consider "j = i" | "j \<noteq> i" "j div 2 = ?k" | "j \<noteq> i" "j div 2 = i" | "j div 2 \<noteq> ?k" "j div 2 \<noteq> i" "j \<noteq> i"
      by blast
    then show ?thesis
    proof cases
      case 1 then show ?thesis using assms(3) ki by (simp add: b)
    next
      case 2
      then have "le (a ! i) (a ! j)" using assms(2) [OF assms(3)] edge [of j] j by metis
      with 2 j ki show ?thesis by (simp add: b)
    next
      case 3 then show ?thesis using br [of j] j ki by (simp add: b)
    next
      case 4 then show ?thesis using edge [of j] j by (simp add: b)
    qed
  qed
  moreover have "bridged le ?b n ?k"
    unfolding bridged_def
  proof (intro allI impI)
    fix j assume j: "2 \<le> j \<and> j < n \<and> j div 2 = ?k \<and> 2 \<le> ?k"
    have up: "le (a ! (?k div 2)) (a ! ?k)" using edge [of ?k] j assms(5) ki by simp
    moreover have "?k div 2 \<noteq> i" "?k div 2 \<noteq> ?k" using j by linarith+
    moreover have "j \<noteq> ?k" using j by linarith
    moreover have "le (a ! (?k div 2)) (a ! j)" if "j \<noteq> i"
      using assms(2) [OF up] edge [of j] j that by simp
    ultimately show "le (?b ! (?k div 2)) (?b ! j)"
      using up by (simp add: b)
  qed
  ultimately show ?thesis by (simp add: heap_but_up_def)
qed

lemma heap_but_up_stop:
  "heap_but_up le a n i \<Longrightarrow> 2 \<le> i \<longrightarrow> le (a ! (i div 2)) (a ! i) \<Longrightarrow> heap le a n"
  by (auto simp: heap_but_up_def heap_def)

lemma heap_but_down_step:
  assumes "heap_but_down le a n i" and "le (a ! c) (a ! i)" and "c div 2 = i" and "1 \<le> i" and "c < n"
    and "\<And>j. 2 \<le> j \<Longrightarrow> j < n \<Longrightarrow> j div 2 = i \<Longrightarrow> le (a ! c) (a ! j)" and "n \<le> length a"
    and "\<And>x. le x x"
  shows "heap_but_down le (swap_cells a i c) n c"
proof -
  let ?b = "swap_cells a i c"
  have len: "i < length a" "c < length a" and ci: "c \<noteq> i" "2 \<le> c" using assms by auto
  note b = nth_swap_cells [OF len]
  have edge: "le (a ! (j div 2)) (a ! j)" if "2 \<le> j" "j < n" "j div 2 \<noteq> i" for j
    using assms(1) that by (simp add: heap_but_down_def)
  have br: "le (a ! (i div 2)) (a ! j)" if "2 \<le> j" "j < n" "j div 2 = i" "2 \<le> i" for j
    using assms(1) that by (simp add: heap_but_down_def bridged_def)
  have "le (?b ! (j div 2)) (?b ! j)" if j: "2 \<le> j" "j < n" "j div 2 \<noteq> c" for j
  proof (cases "j div 2 = i")
    case True
    then have "j \<noteq> i" using j by auto
    then show ?thesis using True j ci assms(2,6) by (simp add: b)
  next
    case False
    then show ?thesis
    proof (cases "j = i")
      case True
      then show ?thesis using br [of c] j ci assms(3,5,8) by (simp add: b)
    next
      case n: False
      then have "j \<noteq> c" using False assms(3) by auto
      then show ?thesis using edge [of j] False n j by (simp add: b)
    qed
  qed
  moreover have "bridged le ?b n c"
    unfolding bridged_def
  proof (intro allI impI)
    fix j assume j: "2 \<le> j \<and> j < n \<and> j div 2 = c \<and> 2 \<le> c"
    then have "j \<noteq> i" "j \<noteq> c" "c div 2 = i" using assms(3) by auto
    then show "le (?b ! (c div 2)) (?b ! j)" using edge [of j] j ci by (simp add: b)
  qed
  ultimately show ?thesis by (simp add: heap_but_down_def)
qed

lemma heap_but_down_stop:
  "heap_but_down le a n i \<Longrightarrow> (\<And>j. 2 \<le> j \<Longrightarrow> j < n \<Longrightarrow> j div 2 = i \<Longrightarrow> le (a ! i) (a ! j)) \<Longrightarrow> heap le a n"
  by (auto simp: heap_but_down_def heap_def)

definition wired ::
  "(nat \<Rightarrow> nat \<Rightarrow> bool) \<Rightarrow> ('m \<Rightarrow> 'e \<Rightarrow> nat) \<Rightarrow> ('m \<Rightarrow> 'e \<Rightarrow> nat \<Rightarrow> 'm) \<Rightarrow> ('m \<Rightarrow> 'e \<Rightarrow> nat) \<Rightarrow>
   ('m \<Rightarrow> 'e \<Rightarrow> nat \<Rightarrow> 'm) \<Rightarrow> ('m, 'e) pqueue_t \<Rightarrow> bool" where
  "wired cmp gpri spri gpos spos q \<longleftrightarrow>
     cmppri q = cmp \<and> getpri q = gpri \<and> setpri q = spri \<and> getpos q = gpos \<and> setpos q = spos"

section \<open>The interface between the queue and its client\<close>

locale pq_callbacks =
  fixes cmp :: "nat \<Rightarrow> nat \<Rightarrow> bool"
    and gpri :: "'m \<Rightarrow> 'e \<Rightarrow> nat" and spri :: "'m \<Rightarrow> 'e \<Rightarrow> nat \<Rightarrow> 'm"
    and gpos :: "'m \<Rightarrow> 'e \<Rightarrow> nat" and spos :: "'m \<Rightarrow> 'e \<Rightarrow> nat \<Rightarrow> 'm"
    and ok :: "'m \<Rightarrow> 'e \<Rightarrow> bool" and same :: "'m \<Rightarrow> 'm \<Rightarrow> bool"
  assumes cmp_irrefl: "\<not> cmp a a"
    and cmp_trans: "cmp a b \<Longrightarrow> cmp b c \<Longrightarrow> cmp a c"
    and cmp_cotrans: "cmp a c \<Longrightarrow> cmp a b \<or> cmp b c"
    and gpos_spos: "ok m x \<Longrightarrow> ok m y \<Longrightarrow> gpos (spos m x p) y = (if y = x then p else gpos m y)"
    and same_spos: "same m (spos m x p)"
    and same_refl: "same m m"
    and same_trans: "same m m' \<Longrightarrow> same m' m'' \<Longrightarrow> same m m''"
    and same_ok: "same m m' \<Longrightarrow> ok m' x = ok m x"
    and same_gpri: "same m m' \<Longrightarrow> ok m x \<Longrightarrow> gpri m' x = gpri m x"
    and gpri_spri: "ok m x \<Longrightarrow> ok m y \<Longrightarrow> gpri (spri m x p) y = (if y = x then p else gpri m y)"
    and gpos_spri: "ok m y \<Longrightarrow> gpos (spri m x p) y = gpos m y"
    and ok_spri: "ok (spri m x p) y = ok m y"
begin

lemma ok_spos: "ok (spos m x p) y = ok m y"
  using same_ok same_spos by blast

lemma gpri_spos: "ok m y \<Longrightarrow> gpri (spos m x p) y = gpri m y"
  using same_gpri same_spos by blast

lemma le_refl: "pri_le cmp gpri m x x"
  by (simp add: pri_le_def cmp_irrefl)

lemma le_trans: "pri_le cmp gpri m x y \<Longrightarrow> pri_le cmp gpri m y z \<Longrightarrow> pri_le cmp gpri m x z"
  unfolding pri_le_def using cmp_cotrans by blast

lemma cmp_asym: "cmp a b \<Longrightarrow> \<not> cmp b a"
  using cmp_irrefl cmp_trans by blast

lemma hole_step:
  assumes "hole gpos ok m a n i E" and "k \<in> {1..<n}" and "k \<noteq> i"
  shows "hole gpos ok (spos m (a ! k) i) (swap_cells a i k) n k E"
proof -
  from assms have i: "i \<in> {1..<n}" and n: "n \<le> length a" and E: "cells a n = E"
    and d: "distinct_cells a n" and okE: "\<forall>x\<in>E. ok m x"
    and pos: "\<forall>j\<in>{1..<n}. j \<noteq> i \<longrightarrow> gpos m (a ! j) = j"
    by (auto simp: hole_def)
  have len: "i < length a" "k < length a" using i n assms(2) by auto
  have okc: "ok m (a ! j)" if "j \<in> {1..<n}" for j
    using okE E that by (auto simp: cells_def)
  have ne: "a ! j = a ! k \<longleftrightarrow> j = k" if "j \<in> {1..<n}" for j
    using d that assms(2) by (auto simp: distinct_cells_def inj_on_def)
  have "gpos (spos m (a ! k) i) (swap_cells a i k ! j) = j" if j: "j \<in> {1..<n}" "j \<noteq> k" for j
    using pos okc assms(2,3) j i ne by (cases "j = i") (simp_all add: gpos_spos nth_swap_cells len)
  then show ?thesis
    unfolding hole_def
    using n E okE assms(2) cells_swap_cells [OF i assms(2) n] distinct_cells_swap_cells [OF i assms(2) n d]
    by (simp add: ok_spos)
qed

lemma hole_fill:
  assumes "hole gpos ok m a n i E"
  shows "distinct_cells a n" and "\<forall>x \<in> E. ok (spos m (a ! i) i) x"
    and "\<forall>j \<in> {1..<n}. gpos (spos m (a ! i) i) (a ! j) = j" and "cells a n = E"
proof -
  from assms have i: "i \<in> {1..<n}" and E: "cells a n = E"
    and d: "distinct_cells a n" and okE: "\<forall>x\<in>E. ok m x"
    and pos: "\<forall>j\<in>{1..<n}. j \<noteq> i \<longrightarrow> gpos m (a ! j) = j"
    by (auto simp: hole_def)
  have okc: "ok m (a ! j)" if "j \<in> {1..<n}" for j
    using okE E that by (auto simp: cells_def)
  have "a ! j = a ! i \<longleftrightarrow> j = i" if "j \<in> {1..<n}" for j
    using d that i by (auto simp: distinct_cells_def inj_on_def)
  then show "\<forall>j \<in> {1..<n}. gpos (spos m (a ! i) i) (a ! j) = j"
    using pos i okc by (simp add: gpos_spos)
  show "distinct_cells a n" "cells a n = E" by fact+
  show "\<forall>x \<in> E. ok (spos m (a ! i) i) x" using okE by (simp add: ok_spos)
qed

lemma heap_same:
  assumes "same m m'" and "\<forall>x \<in> cells a n. ok m x"
  shows "heap (pri_le cmp gpri m') a n \<longleftrightarrow> heap (pri_le cmp gpri m) a n"
proof -
  have "gpri m' (a ! j) = gpri m (a ! j)" if "j \<in> {1..<n}" for j
    using assms that by (auto simp: cells_def intro: same_gpri)
  moreover have "j div 2 \<in> {1..<n}" if "2 \<le> j" "j < n" for j :: nat using that by auto
  ultimately show ?thesis by (auto simp: heap_def pri_le_def)
qed

lemma bubble_up_loop_hole:
  assumes "wired cmp gpri spri gpos spos q" and "n = q_size q" and "a = (q_d q)[i := x]" and "mp = gpri m0 x"
    and "hole gpos ok m a n i E" and "same m0 m" and "\<forall>x \<in> E. ok m0 x"
    and "heap_but_up (pri_le cmp gpri m0) a n i"
  shows "\<exists>d m' i'. bubble_up_loop q m i mp = Some (q\<lparr> q_d := d \<rparr>, m', i') \<and> length d = length (q_d q)
     \<and> i' < length d \<and> hole gpos ok m' (d[i' := x]) n i' E \<and> same m0 m'
     \<and> heap (pri_le cmp gpri m0) (d[i' := x]) n
     \<and> (\<forall>y. ok m0 y \<longrightarrow> y \<notin> E \<longrightarrow> gpos m' y = gpos m y)"
  using assms
proof (induction q m i mp arbitrary: a rule: bubble_up_loop.induct)
  case (1 q m i mp)
  let ?k = "i div 2"
  from 1 have i: "i \<in> {1..<n}" and len: "n \<le> length (q_d q)" and E: "cells a n = E"
    by (auto simp: hole_def)
  have ai: "a ! i = x" using i len 1 by simp
  have q: "cmppri q = cmp" "getpri q = gpri" "setpos q = spos" using 1 by (auto simp: wired_def)
  have gp: "gpri m (a ! j) = gpri m0 (a ! j)" if "j \<in> {1..<n}" for j
    using that E "1.prems"(6,7) by (auto simp: cells_def intro: same_gpri)
  show ?case
  proof (cases "2 \<le> i \<and> cmp (gpri m (q_d q ! ?k)) mp")
    case True
    then have k: "?k \<in> {1..<n}" "?k \<noteq> i" "?k < length (q_d q)" "i < length (q_d q)"
      using i len by auto
    have ak: "q_d q ! ?k = a ! ?k" using k 1 by simp
    let ?q = "q\<lparr> q_d := (q_d q)[i := a ! ?k] \<rparr>" and ?m = "spos m (a ! ?k) i"
    have hole': "hole gpos ok ?m (swap_cells a i ?k) n ?k E"
      using hole_step [OF "1.prems"(5) k(1,2)] .
    have arr: "swap_cells a i ?k = (q_d ?q)[?k := x]"
      using ai k 1 by (simp add: swap_cells_def)
    have le: "pri_le cmp gpri m0 (a ! i) (a ! ?k)"
      using True ak gp [OF k(1)] "1.prems"(4) ai by (simp add: pri_le_def cmp_asym)
    have heap': "heap_but_up (pri_le cmp gpri m0) (swap_cells a i ?k) n ?k"
      using heap_but_up_step [OF "1.prems"(8) le_trans le] True i len 1 by simp
    have sm: "same m0 ?m" using "1.prems"(6) same_spos same_trans by blast
    have w: "wired cmp gpri spri gpos spos ?q" using "1.prems"(1) by (simp add: wired_def)
    have go: "bubble_up_loop q m i mp = bubble_up_loop ?q ?m ?k mp"
      using True k by (simp add: bubble_up_loop.simps [of q m] q ak)
    have okm: "ok m y = ok m0 y" for y using "1.prems"(6) same_ok by blast
    have akE: "a ! ?k \<in> E" using k E by (auto simp: cells_def)
    have frame: "gpos ?m y = gpos m y" if "ok m0 y" "y \<notin> E" for y
      using that akE "1.prems"(7) by (auto simp: gpos_spos okm)
    have "\<exists>d m' i'. bubble_up_loop ?q ?m ?k mp = Some (?q\<lparr> q_d := d \<rparr>, m', i') \<and> length d = length (q_d ?q)
     \<and> i' < length d \<and> hole gpos ok m' (d[i' := x]) n i' E \<and> same m0 m'
     \<and> heap (pri_le cmp gpri m0) (d[i' := x]) n
     \<and> (\<forall>y. ok m0 y \<longrightarrow> y \<notin> E \<longrightarrow> gpos m' y = gpos ?m y)"
      using True k ak
      by (intro "1.IH" [unfolded q, OF _ _ _ _ w _ arr "1.prems"(4) hole' sm "1.prems"(7) heap'])
        (auto simp: "1.prems"(2))
    with go frame show ?thesis by auto
  next
    case False
    have "2 \<le> i \<longrightarrow> pri_le cmp gpri m0 (a ! ?k) (a ! i)"
    proof
      assume 2: "2 \<le> i"
      then have k: "?k \<in> {1..<n}" "?k \<noteq> i" using i by auto
      then show "pri_le cmp gpri m0 (a ! ?k) (a ! i)"
        using False 2 gp [OF k(1)] "1.prems"(3,4) ai by (simp add: pri_le_def)
    qed
    with "1.prems"(8) have "heap (pri_le cmp gpri m0) a n" by (rule heap_but_up_stop)
    moreover have "bubble_up_loop q m i mp = Some (q, m, i)"
      using False i len by (auto simp: bubble_up_loop.simps [of q m] q split: option.splits)
    ultimately show ?thesis
      using 1 i len by (intro exI [of _ "q_d q"] exI [of _ m] exI [of _ i]) simp
  qed
qed

lemma maxchild_spec:
  assumes "wired cmp gpri spri gpos spos q" and "q_size q \<le> length (q_d q)" and "1 \<le> i"
  obtains c where "maxchild q m i = Some c"
    and "c = 0 \<longrightarrow> q_size q \<le> 2 * i"
    and "c \<noteq> 0 \<longrightarrow> c div 2 = i \<and> i < c \<and> c < q_size q \<and>
           (\<forall>j. 2 \<le> j \<and> j < q_size q \<and> j div 2 = i \<longrightarrow> pri_le cmp gpri m (q_d q ! c) (q_d q ! j))"
proof -
  have two: "j = 2 * i \<or> j = 2 * i + 1" if "j div 2 = i" for j :: nat using that by auto
  have q: "cmppri q = cmp" "getpri q = gpri" using assms(1) by (auto simp: wired_def)
  consider "q_size q \<le> 2 * i" | "2 * i < q_size q" "q_size q \<le> 2 * i + 1" | "2 * i + 1 < q_size q"
    by linarith
  then show thesis
  proof cases
    case 1
    with that [of 0] show thesis by (simp add: maxchild_def)
  next
    case 2
    with that [of "2 * i"] assms(3) two show thesis
      by (fastforce simp: maxchild_def Let_def le_refl)
  next
    case 3
    have best: "pri_le cmp gpri m (q_d q ! (if cmp (gpri m (q_d q ! (2 * i))) (gpri m (q_d q ! (2 * i + 1)))
        then 2 * i + 1 else 2 * i)) (q_d q ! j)" if "j div 2 = i" for j
      using two [OF that] cmp_asym cmp_irrefl by (auto simp: pri_le_def)
    show thesis
      by (rule that [of "if cmp (gpri m (q_d q ! (2 * i))) (gpri m (q_d q ! (2 * i + 1)))
        then 2 * i + 1 else 2 * i"]) (use 3 assms(2,3) best in \<open>auto simp: maxchild_def Let_def q\<close>)
  qed
qed

lemma percolate_loop_hole:
  assumes "wired cmp gpri spri gpos spos q" and "n = q_size q" and "a = (q_d q)[i := x]" and "mp = gpri m0 x"
    and "hole gpos ok m a n i E" and "same m0 m" and "\<forall>x \<in> E. ok m0 x"
    and "heap_but_down (pri_le cmp gpri m0) a n i"
  shows "\<exists>d m' i'. percolate_loop q m i mp = Some (q\<lparr> q_d := d \<rparr>, m', i') \<and> length d = length (q_d q)
     \<and> i' < length d \<and> hole gpos ok m' (d[i' := x]) n i' E \<and> same m0 m'
     \<and> heap (pri_le cmp gpri m0) (d[i' := x]) n
     \<and> (\<forall>y. ok m0 y \<longrightarrow> y \<notin> E \<longrightarrow> gpos m' y = gpos m y)"
  using assms
proof (induction q m i mp arbitrary: a rule: percolate_loop.induct)
  case (1 q m i mp)
  from 1 have i: "i \<in> {1..<n}" and len: "n \<le> length (q_d q)" and E: "cells a n = E"
    by (auto simp: hole_def)
  have ai: "a ! i = x" using i len 1 by simp
  have q: "cmppri q = cmp" "getpri q = gpri" "setpos q = spos" using 1 by (auto simp: wired_def)
  have gp: "gpri m (a ! j) = gpri m0 (a ! j)" if "j \<in> {1..<n}" for j
    using that E "1.prems"(6,7) by (auto simp: cells_def intro: same_gpri)
  obtain c where c: "maxchild q m i = Some c" and c0: "c = 0 \<longrightarrow> n \<le> 2 * i"
    and cn: "c \<noteq> 0 \<longrightarrow> c div 2 = i \<and> i < c \<and> c < n \<and>
           (\<forall>j. 2 \<le> j \<and> j < n \<and> j div 2 = i \<longrightarrow> pri_le cmp gpri m (q_d q ! c) (q_d q ! j))"
    using maxchild_spec [OF "1.prems"(1), of i m] i len "1.prems"(2) by auto
  have dj: "q_d q ! j = a ! j" if "j \<noteq> i" for j using that 1 by simp
  have best: "pri_le cmp gpri m0 (a ! c) (a ! j)" if "c \<noteq> 0" "2 \<le> j" "j < n" "j div 2 = i" for j
  proof -
    have "c \<noteq> i" "j \<noteq> i" using cn that by auto
    moreover have "c \<in> {1..<n}" "j \<in> {1..<n}" using cn that by auto
    moreover have "pri_le cmp gpri m (q_d q ! c) (q_d q ! j)" using cn that by blast
    ultimately show ?thesis by (simp add: pri_le_def dj gp)
  qed
  show ?case
  proof (cases "c \<noteq> 0 \<and> cmp mp (gpri m (q_d q ! c))")
    case True
    then have k: "c \<in> {1..<n}" "c \<noteq> i" "c < length (q_d q)" "i < length (q_d q)" "c div 2 = i"
      using i len cn by auto
    let ?q = "q\<lparr> q_d := (q_d q)[i := a ! c] \<rparr>" and ?m = "spos m (a ! c) i"
    have hole': "hole gpos ok ?m (swap_cells a i c) n c E"
      using hole_step [OF "1.prems"(5) k(1,2)] .
    have arr: "swap_cells a i c = (q_d ?q)[c := x]"
      using ai k 1 by (simp add: swap_cells_def)
    have le: "pri_le cmp gpri m0 (a ! c) (a ! i)"
      using True dj [OF k(2)] gp [OF k(1)] "1.prems"(4) ai by (simp add: pri_le_def cmp_asym)
    have heap': "heap_but_down (pri_le cmp gpri m0) (swap_cells a i c) n c"
      by (rule heap_but_down_step [OF "1.prems"(8) le])
        (use k i len True best le_refl "1.prems"(3) in auto)
    have sm: "same m0 ?m" using "1.prems"(6) same_spos same_trans by blast
    have w: "wired cmp gpri spri gpos spos ?q" using "1.prems"(1) by (simp add: wired_def)
    have go: "percolate_loop q m i mp = percolate_loop ?q ?m c mp"
      using True k by (simp add: percolate_loop.simps [of q m] q c dj [OF k(2)])
    have okm: "ok m y = ok m0 y" for y using "1.prems"(6) same_ok by blast
    have acE: "a ! c \<in> E" using k E by (auto simp: cells_def)
    have frame: "gpos ?m y = gpos m y" if "ok m0 y" "y \<notin> E" for y
      using that acE "1.prems"(7) by (auto simp: gpos_spos okm)
    have "\<exists>d m' i'. percolate_loop ?q ?m c mp = Some (?q\<lparr> q_d := d \<rparr>, m', i') \<and> length d = length (q_d ?q)
     \<and> i' < length d \<and> hole gpos ok m' (d[i' := x]) n i' E \<and> same m0 m'
     \<and> heap (pri_le cmp gpri m0) (d[i' := x]) n
     \<and> (\<forall>y. ok m0 y \<longrightarrow> y \<notin> E \<longrightarrow> gpos m' y = gpos ?m y)"
      using True k dj [OF k(2)] c
      by (intro "1.IH" [unfolded q, OF _ _ _ _ _ w _ arr "1.prems"(4) hole' sm "1.prems"(7) heap'])
        (auto simp: "1.prems"(2))
    with go frame show ?thesis by auto
  next
    case False
    have "pri_le cmp gpri m0 (a ! i) (a ! j)" if j: "2 \<le> j" "j < n" "j div 2 = i" for j
    proof -
      have c1: "c \<noteq> 0" using c0 j by auto
      then have k: "c \<in> {1..<n}" "c \<noteq> i" using cn by auto
      have "pri_le cmp gpri m0 (a ! i) (a ! c)"
        using False c1 gp [OF k(1)] "1.prems"(4) ai dj [OF k(2)] by (simp add: pri_le_def)
      then show ?thesis using best [OF c1 j] le_trans by blast
    qed
    with "1.prems"(8) have "heap (pri_le cmp gpri m0) a n" by (rule heap_but_down_stop)
    moreover have "percolate_loop q m i mp = Some (q, m, i)"
      using False i len cn by (auto simp: percolate_loop.simps [of q m] q c)
    ultimately show ?thesis
      using 1 i len by (intro exI [of _ "q_d q"] exI [of _ m] exI [of _ i]) simp
  qed
qed

text \<open>
  Both operations from a hole at \<open>i\<close>: the queue at rest again, with the same elements, and
  memory changed only in the positions of the elements.
\<close>

lemma pq_inv_wired:
  "wired cmp gpri spri gpos spos q \<Longrightarrow> pq_inv ok q m \<longleftrightarrow> 1 \<le> q_size q \<and> q_size q \<le> q_avail q
     \<and> length (q_d q) = q_avail q
     \<and> distinct_cells (q_d q) (q_size q) \<and> (\<forall>x \<in> cells (q_d q) (q_size q). ok m x)
     \<and> (\<forall>j \<in> {1..<q_size q}. gpos m (q_d q ! j) = j)
     \<and> heap (pri_le cmp gpri m) (q_d q) (q_size q)"
  by (simp add: pq_inv_def wired_def)

lemma settle:
  assumes w: "wired cmp gpri spri gpos spos q" and n: "n = q_size q" and av: "length (q_d q) = q_avail q"
    and hole: "hole gpos ok m (d[i := x]) n i E" and sm: "same m0 m" and okE: "\<forall>x \<in> E. ok m0 x"
    and heap: "heap (pri_le cmp gpri m0) (d[i := x]) n" and d: "length d = length (q_d q)" "i < length d"
    and fr: "\<forall>y. ok m0 y \<longrightarrow> y \<notin> E \<longrightarrow> gpos m y = gpos m0 y"
  shows "pq_inv ok (q\<lparr> q_d := d[i := x] \<rparr>) (spos m x i) \<and> pq_elems (q\<lparr> q_d := d[i := x] \<rparr>) = E
    \<and> same m0 (spos m x i) \<and> (\<forall>y. ok m0 y \<longrightarrow> y \<notin> E \<longrightarrow> gpos (spos m x i) y = gpos m0 y)"
proof -
  have ai: "d[i := x] ! i = x" using d by simp
  note fill = hole_fill [OF hole, unfolded ai]
  have sm': "same m0 (spos m x i)" using sm same_spos same_trans by blast
  have "d[i := x] ! i \<in> E" using hole unfolding hole_def cells_def by blast
  then have "x \<in> E" by (simp only: ai)
  then have fr': "\<forall>y. ok m0 y \<longrightarrow> y \<notin> E \<longrightarrow> gpos (spos m x i) y = gpos m0 y"
    using fr okE sm same_ok by (metis gpos_spos)
  have "heap (pri_le cmp gpri (spos m x i)) (d[i := x]) n"
    using heap heap_same [OF sm', of "d[i := x]" n] okE fill(4) by simp
  moreover have "1 \<le> n" "n \<le> q_avail q" using hole av d by (auto simp: hole_def)
  moreover have "wired cmp gpri spri gpos spos (q\<lparr> q_d := d[i := x] \<rparr>)" using w by (simp add: wired_def)
  ultimately show ?thesis
    using fill sm' fr' av d n by (simp add: pq_inv_wired pq_elems_def)
qed

lemma bubble_up_hole:
  assumes w: "wired cmp gpri spri gpos spos q" and n: "n = q_size q" and av: "length (q_d q) = q_avail q"
    and hole: "hole gpos ok m (q_d q) n i E"
    and heap: "heap_but_up (pri_le cmp gpri m) (q_d q) n i"
  shows "\<exists>d m'. bubble_up q m i = Some (q\<lparr> q_d := d \<rparr>, m') \<and> pq_inv ok (q\<lparr> q_d := d \<rparr>) m'
    \<and> pq_elems (q\<lparr> q_d := d \<rparr>) = E \<and> same m m' \<and> (\<forall>y. ok m y \<longrightarrow> y \<notin> E \<longrightarrow> gpos m' y = gpos m y)"
proof -
  have i: "i < length (q_d q)" and okE: "\<forall>x\<in>E. ok m x" using hole by (auto simp: hole_def)
  obtain d m' i' where run: "bubble_up_loop q m i (gpri m (q_d q ! i)) = Some (q\<lparr> q_d := d \<rparr>, m', i')"
    and res: "length d = length (q_d q)" "i' < length d" "hole gpos ok m' (d[i' := q_d q ! i]) n i' E"
     "same m m'" "heap (pri_le cmp gpri m) (d[i' := q_d q ! i]) n"
     "\<forall>y. ok m y \<longrightarrow> y \<notin> E \<longrightarrow> gpos m' y = gpos m y"
    using bubble_up_loop_hole [OF w n list_update_id [symmetric] refl hole same_refl okE heap]
    by (elim exE conjE) (rule that; assumption)
  have "bubble_up q m i = Some (q\<lparr> q_d := d[i' := q_d q ! i] \<rparr>, spos m' (q_d q ! i) i')"
    using w i run res(1,2) by (simp add: bubble_up_def wired_def)
  with settle [OF w n av res(3,4) okE res(5,1,2,6)] show ?thesis by auto
qed

lemma percolate_down_hole:
  assumes w: "wired cmp gpri spri gpos spos q" and n: "n = q_size q" and av: "length (q_d q) = q_avail q"
    and hole: "hole gpos ok m (q_d q) n i E"
    and heap: "heap_but_down (pri_le cmp gpri m) (q_d q) n i"
  shows "\<exists>d m'. percolate_down q m i = Some (q\<lparr> q_d := d \<rparr>, m') \<and> pq_inv ok (q\<lparr> q_d := d \<rparr>) m'
    \<and> pq_elems (q\<lparr> q_d := d \<rparr>) = E \<and> same m m' \<and> (\<forall>y. ok m y \<longrightarrow> y \<notin> E \<longrightarrow> gpos m' y = gpos m y)"
proof -
  have i: "i < length (q_d q)" and okE: "\<forall>x\<in>E. ok m x" using hole by (auto simp: hole_def)
  obtain d m' i' where run: "percolate_loop q m i (gpri m (q_d q ! i)) = Some (q\<lparr> q_d := d \<rparr>, m', i')"
    and res: "length d = length (q_d q)" "i' < length d" "hole gpos ok m' (d[i' := q_d q ! i]) n i' E"
     "same m m'" "heap (pri_le cmp gpri m) (d[i' := q_d q ! i]) n"
     "\<forall>y. ok m y \<longrightarrow> y \<notin> E \<longrightarrow> gpos m' y = gpos m y"
    using percolate_loop_hole [OF w n list_update_id [symmetric] refl hole same_refl okE heap]
    by (elim exE conjE) (rule that; assumption)
  have "percolate_down q m i = Some (q\<lparr> q_d := d[i' := q_d q ! i] \<rparr>, spos m' (q_d q ! i) i')"
    using w i run res(1,2) by (simp add: percolate_down_def wired_def)
  with settle [OF w n av res(3,4) okE res(5,1,2,6)] show ?thesis by auto
qed

lemma inv_hole:
  assumes "wired cmp gpri spri gpos spos q" and "pq_inv ok q m" and "i \<in> {1..<q_size q}"
  shows "hole gpos ok m (q_d q) (q_size q) i (pq_elems q)"
  using assms by (auto simp: pq_inv_wired hole_def pq_elems_def)

lemma heap_but_up_leaf: "heap le a n \<Longrightarrow> 1 \<le> n \<Longrightarrow> heap_but_up le (a[n := x]) (Suc n) n"
  by (auto simp: heap_but_up_def bridged_def heap_def)

lemma pqueue_insert_ok:
  assumes w: "wired cmp gpri spri gpos spos q" and inv: "pq_inv ok q m" and x: "ok m x" "x \<notin> pq_elems q"
    and room: "q_size q < q_avail q"
  shows "\<exists>d m'. pqueue_insert q m x = Some (q\<lparr> q_size := Suc (q_size q), q_d := d \<rparr>, m')
    \<and> pq_inv ok (q\<lparr> q_size := Suc (q_size q), q_d := d \<rparr>) m'
    \<and> pq_elems (q\<lparr> q_size := Suc (q_size q), q_d := d \<rparr>) = insert x (pq_elems q)
    \<and> same m m' \<and> (\<forall>y. ok m y \<longrightarrow> y \<noteq> x \<longrightarrow> y \<notin> pq_elems q \<longrightarrow> gpos m' y = gpos m y)"
proof -
  let ?n = "q_size q" and ?a = "(q_d q)[q_size q := x]"
  let ?q = "q\<lparr> q_size := Suc ?n, q_d := ?a \<rparr>"
  note i = inv [unfolded pq_inv_wired [OF w]]
  have len: "?n < length (q_d q)" using i room by simp
  have cells: "cells ?a (Suc ?n) = insert x (pq_elems q)"
    using i len by (fastforce simp: cells_def pq_elems_def atLeastLessThanSuc)
  have agree: "?a ! j = q_d q ! j" if "j \<in> {1..<?n}" for j
    using that by simp
  have "inj_on ((!) ?a) {1..<?n}"
    using i agree by (subst inj_on_cong [of _ _ "(!) (q_d q)"]) (auto simp: distinct_cells_def)
  moreover have "?a ! ?n \<notin> (!) ?a ` {1..<?n}"
    using x(2) len agree by (metis cells_def image_cong nth_list_update_eq pq_elems_def)
  moreover have "{1..<Suc ?n} = insert ?n {1..<?n}" using i by auto
  ultimately have "distinct_cells ?a (Suc ?n)"
    unfolding distinct_cells_def by simp
  then have "hole gpos ok m ?a (Suc ?n) ?n (insert x (pq_elems q))"
    using i len cells x(1) by (auto simp: hole_def pq_elems_def)
  moreover have "heap_but_up (pri_le cmp gpri m) ?a (Suc ?n) ?n"
    using i by (simp add: heap_but_up_leaf)
  moreover have "wired cmp gpri spri gpos spos ?q" "length (q_d ?q) = q_avail ?q"
    using w i by (simp_all add: wired_def)
  ultimately show ?thesis
    using bubble_up_hole [of ?q "Suc ?n" m ?n "insert x (pq_elems q)"] len
    by (auto simp: pqueue_insert_def)
qed

text \<open>
  When the priority found in one cell changes, whether by a new priority or by a new element,
  the order can fail only above the cell or only below it.
\<close>

lemma heap_change:
  assumes h: "heap (pri_le cmp gpri m) b n" and i: "1 \<le> i" "i < n"
    and pr: "\<And>j. 1 \<le> j \<Longrightarrow> j < n \<Longrightarrow> j \<noteq> i \<Longrightarrow> gpri m' (a ! j) = gpri m (b ! j)"
  shows "cmp (gpri m (b ! i)) (gpri m' (a ! i)) \<Longrightarrow> heap_but_up (pri_le cmp gpri m') a n i"
    and "\<not> cmp (gpri m (b ! i)) (gpri m' (a ! i)) \<Longrightarrow> heap_but_down (pri_le cmp gpri m') a n i"
proof -
  have edge: "\<not> cmp (gpri m (b ! (j div 2))) (gpri m (b ! j))" if "2 \<le> j" "j < n" for j
    using h that by (simp add: heap_def pri_le_def)
  have over: "\<not> cmp (gpri m' (a ! (i div 2))) (gpri m' (a ! j))"
    if "2 \<le> j" "j < n" "j div 2 = i" "2 \<le> i" for j
  proof -
    have "\<not> cmp (gpri m (b ! (i div 2))) (gpri m (b ! j))"
      using edge [of j] edge [of i] that i cmp_cotrans by blast
    moreover have "1 \<le> i div 2" "i div 2 < n" "i div 2 \<noteq> i" "j \<noteq> i" using that i by auto
    ultimately show ?thesis using pr [of j] pr [of "i div 2"] that by simp
  qed
  have away: "\<not> cmp (gpri m' (a ! (j div 2))) (gpri m' (a ! j))"
    if j: "2 \<le> j" "j < n" "j \<noteq> i" "j div 2 \<noteq> i" for j
  proof -
    have "1 \<le> j div 2" "j div 2 < n" using j by auto
    with j edge [of j] pr show ?thesis by simp
  qed
  have below: "\<not> cmp (gpri m (b ! i)) (gpri m' (a ! j)) \<and> j \<noteq> i"
    if j: "2 \<le> j" "j < n" "j div 2 = i" for j
    using pr [of j] edge [of j] j i by (cases "j = i") auto
  have above: "\<not> cmp (gpri m' (a ! (i div 2))) (gpri m (b ! i)) \<and> i div 2 \<noteq> i" if j: "2 \<le> i"
    using pr [of "i div 2"] edge [of i] j i by auto
  { assume up: "cmp (gpri m (b ! i)) (gpri m' (a ! i))"
    have "\<not> cmp (gpri m' (a ! i)) (gpri m' (a ! j))" if "2 \<le> j" "j < n" "j div 2 = i" for j
      using below [OF that] up cmp_trans by blast
    with away over show "heap_but_up (pri_le cmp gpri m') a n i"
      unfolding heap_but_up_def bridged_def pri_le_def by blast }
  { assume down: "\<not> cmp (gpri m (b ! i)) (gpri m' (a ! i))"
    have "\<not> cmp (gpri m' (a ! (i div 2))) (gpri m' (a ! i))" if "2 \<le> i"
      using above [OF that] down cmp_cotrans by blast
    with away over show "heap_but_down (pri_le cmp gpri m') a n i"
      unfolding heap_but_down_def bridged_def pri_le_def by blast }
qed

lemma pqueue_change_priority_ok:
  assumes w: "wired cmp gpri spri gpos spos q" and inv: "pq_inv ok q m" and x: "x \<in> pq_elems q"
  shows "\<exists>d m'. pqueue_change_priority q m p x = Some (q\<lparr> q_d := d \<rparr>, m') \<and> pq_inv ok (q\<lparr> q_d := d \<rparr>) m'
    \<and> pq_elems (q\<lparr> q_d := d \<rparr>) = pq_elems q \<and> same (spri m x p) m'
    \<and> (\<forall>y. ok m y \<longrightarrow> y \<notin> pq_elems q \<longrightarrow> gpos m' y = gpos m y)"
proof -
  note i = inv [unfolded pq_inv_wired [OF w]]
  obtain k where k: "k \<in> {1..<q_size q}" "x = q_d q ! k" using x by (auto simp: pq_elems_def cells_def)
  have pos: "gpos m x = k" using i k by auto
  let ?m = "spri m x p"
  have okx: "ok m y" if "y \<in> pq_elems q" for y using i that by (simp add: pq_elems_def)
  have cell: "q_d q ! j \<in> pq_elems q \<and> (q_d q ! j = x \<longleftrightarrow> j = k)" if "j \<in> {1..<q_size q}" for j
    using i that k by (auto simp: pq_elems_def cells_def distinct_cells_def inj_on_def)
  have keep: "gpos ?m (q_d q ! j) = gpos m (q_d q ! j)" if "j \<in> {1..<q_size q}" for j
    using cell [OF that] okx by (simp add: gpos_spri)
  have hole: "hole gpos ok ?m (q_d q) (q_size q) k (pq_elems q)"
    using inv_hole [OF w inv k(1)] keep by (simp add: hole_def ok_spri)
  have pr: "gpri ?m (q_d q ! j) = gpri m (q_d q ! j)" if "1 \<le> j" "j < q_size q" "j \<noteq> k" for j
    using cell [of j] okx x that by (simp add: gpri_spri)
  have prk: "gpri ?m (q_d q ! k) = p" using okx [OF x] k(2) by (simp add: gpri_spri)
  have old: "heap (pri_le cmp gpri m) (q_d q) (q_size q)" using i by blast
  have k1: "1 \<le> k" "k < q_size q" using k by auto
  note ch = heap_change [OF old k1, of ?m "q_d q", OF pr, unfolded prk]
  have posk: "gpos ?m x = k" using okx [OF x] pos by (simp add: gpos_spri)
  have frame: "gpos ?m y = gpos m y" if "ok m y" for y using that by (simp add: gpos_spri)
  have av: "length (q_d q) = q_avail q" using i by blast
  show ?thesis
  proof (cases "cmp (gpri m x) p")
    case True
    with bubble_up_hole [OF w refl av hole] ch(1) k(2) w posk frame show ?thesis
      by (auto simp: pqueue_change_priority_def wired_def Let_def ok_spri)
  next
    case False
    with percolate_down_hole [OF w refl av hole] ch(2) k(2) w posk frame show ?thesis
      by (auto simp: pqueue_change_priority_def wired_def Let_def ok_spri)
  qed
qed

lemma percolate_down_off_end:
  assumes "wired cmp gpri spri gpos spos q" and "q_size q \<le> i" and "1 \<le> i" and "i < length (q_d q)"
  shows "percolate_down q m i = Some (q, spos m (q_d q ! i) i)"
  using assms by (simp add: percolate_down_def percolate_loop.simps maxchild_def wired_def)

text \<open>Taking out the element of cell \<open>k\<close>: the last element goes into the cell.\<close>

lemma hole_last:
  assumes w: "wired cmp gpri spri gpos spos q" and inv: "pq_inv ok q m" and n: "q_size q = Suc n"
    and k: "k \<in> {1..<n}"
  shows "hole gpos ok m ((q_d q)[k := q_d q ! n]) n k (pq_elems q - {q_d q ! k})"
    and "heap (pri_le cmp gpri m) (q_d q) n"
proof -
  note i = inv [unfolded pq_inv_wired [OF w]]
  let ?a = "(q_d q)[k := q_d q ! n]"
  have len: "n < length (q_d q)" "k < length (q_d q)" using i n k by auto
  have "inj_on ((!) (q_d q)) {1..<Suc n}" using i n by (simp add: distinct_cells_def)
  note inj = inj_on_eq_iff [OF this]
  have a: "?a ! j = q_d q ! (if j = k then n else j)" if "j \<in> {1..<n}" for j
    using len by simp
  have dist: "distinct_cells ?a n"
    unfolding distinct_cells_def
  proof (rule inj_onI)
    fix j l assume j: "j \<in> {1..<n}" and l: "l \<in> {1..<n}" and eq: "?a ! j = ?a ! l"
    have "(if j = k then n else j) \<in> {1..<Suc n}" "(if l = k then n else l) \<in> {1..<Suc n}"
      using j l by auto
    from inj [OF this] have "(if j = k then n else j) = (if l = k then n else l)"
      using eq a [OF j] a [OF l] by simp
    then show "j = l" using j l by (simp split: if_splits)
  qed
  have range: "y \<in> pq_elems q \<longleftrightarrow> (\<exists>j \<in> {1..<Suc n}. y = q_d q ! j)" for y
    by (auto simp: pq_elems_def cells_def n)
  have cells: "cells ?a n = pq_elems q - {q_d q ! k}"
  proof (intro equalityI subsetI)
    fix y assume "y \<in> cells ?a n"
    then obtain j where j: "j \<in> {1..<n}" "y = q_d q ! (if j = k then n else j)"
      using a by (auto simp: cells_def)
    let ?l = "if j = k then n else j"
    have l: "?l \<in> {1..<Suc n}" "?l \<noteq> k" using j k by auto
    moreover have "k \<in> {1..<Suc n}" using k by auto
    ultimately have "q_d q ! ?l \<noteq> q_d q ! k" using inj by blast
    moreover have "y \<in> pq_elems q" unfolding range using l(1) j(2) by (rule bexI [rotated])
    ultimately show "y \<in> pq_elems q - {q_d q ! k}" using j(2) by simp
  next
    fix y assume "y \<in> pq_elems q - {q_d q ! k}"
    then have y: "y \<in> pq_elems q" "y \<noteq> q_d q ! k" by auto
    from y(1) obtain j where j: "j \<in> {1..<Suc n}" "y = q_d q ! j" unfolding range by (rule bexE)
    moreover have "j \<noteq> k" using y(2) j(2) by auto
    ultimately have j: "j \<in> {1..<Suc n}" "y = q_d q ! j" "j \<noteq> k" by simp_all
    have "y = ?a ! (if j = n then k else j)" using j k len by auto
    moreover have "(if j = n then k else j) \<in> {1..<n}" using j k by auto
    ultimately show "y \<in> cells ?a n" unfolding cells_def by blast
  qed
  have "gpos m (?a ! j) = j" if "j \<in> {1..<n}" "j \<noteq> k" for j
    using i n that by simp
  moreover have "\<forall>y \<in> pq_elems q. ok m y" using i by (simp add: pq_elems_def)
  ultimately show "hole gpos ok m ?a n k (pq_elems q - {q_d q ! k})"
    unfolding hole_def using k len dist cells by simp
  show "heap (pri_le cmp gpri m) (q_d q) n" using i n by (simp add: heap_def)
qed

lemma cut_last:
  assumes w: "wired cmp gpri spri gpos spos q" and inv: "pq_inv ok q m" and n: "q_size q = Suc n" "1 \<le> n"
  shows "pq_inv ok (q\<lparr> q_size := n, q_d := q_d q \<rparr>) (spos m (q_d q ! n) n)
    \<and> pq_elems (q\<lparr> q_size := n, q_d := q_d q \<rparr>) = pq_elems q - {q_d q ! n}
    \<and> same m (spos m (q_d q ! n) n)
    \<and> (\<forall>y. ok m y \<longrightarrow> y \<notin> pq_elems q - {q_d q ! n} \<longrightarrow> gpos (spos m (q_d q ! n) n) y = gpos m y)"
proof -
  note i = inv [unfolded pq_inv_wired [OF w]]
  let ?x = "q_d q ! n" and ?m = "spos m (q_d q ! n) n"
  have w': "wired cmp gpri spri gpos spos (q\<lparr> q_size := n \<rparr>)" using w by (simp add: wired_def)
  have eq: "q\<lparr> q_size := n, q_d := q_d q \<rparr> = q\<lparr> q_size := n \<rparr>" by simp
  have split: "{1..<Suc n} = insert n {1..<n}" using n by auto
  have inj: "inj_on ((!) (q_d q)) (insert n {1..<n})" using i n split by (simp add: distinct_cells_def)
  then have notin: "?x \<notin> cells (q_d q) n" by (auto simp: cells_def inj_on_def)
  have el: "pq_elems q = insert ?x (cells (q_d q) n)"
    unfolding pq_elems_def cells_def n(1) split by simp
  have okE: "ok m y" if "y \<in> pq_elems q" for y using i that by (simp add: pq_elems_def)
  have px: "gpos m ?x = n" using i n by simp
  have "gpos ?m y = gpos m y" if "ok m y" for y
    using that okE el px by (simp add: gpos_spos)
  moreover have "\<forall>j \<in> {1..<n}. gpos ?m (q_d q ! j) = j"
  proof
    fix j assume j: "j \<in> {1..<n}"
    have cj: "q_d q ! j \<in> cells (q_d q) n" unfolding cells_def using j by (rule imageI)
    have "ok m (q_d q ! j)" by (rule okE) (simp add: el cj)
    moreover have "q_d q ! j \<noteq> ?x" using cj notin by metis
    moreover have "gpos m (q_d q ! j) = j" using i n j by simp
    moreover have "ok m ?x" using okE el by blast
    ultimately show "gpos ?m (q_d q ! j) = j" by (simp add: gpos_spos)
  qed
  moreover have "heap (pri_le cmp gpri ?m) (q_d q) n"
  proof -
    have "heap (pri_le cmp gpri m) (q_d q) n" using i n by (simp add: heap_def)
    then show ?thesis using heap_same [OF same_spos] okE el by simp
  qed
  moreover have "distinct_cells (q_d q) n" using inj by (simp add: distinct_cells_def)
  ultimately show ?thesis
    unfolding eq using i n notin el okE same_spos
    by (simp add: pq_inv_wired [OF w'] ok_spos) (simp add: pq_elems_def)
qed

lemma pqueue_remove_ok:
  assumes w: "wired cmp gpri spri gpos spos q" and inv: "pq_inv ok q m" and x: "x \<in> pq_elems q"
  shows "\<exists>d m'. pqueue_remove q m x = Some (q\<lparr> q_size := q_size q - 1, q_d := d \<rparr>, m')
    \<and> pq_inv ok (q\<lparr> q_size := q_size q - 1, q_d := d \<rparr>) m'
    \<and> pq_elems (q\<lparr> q_size := q_size q - 1, q_d := d \<rparr>) = pq_elems q - {x}
    \<and> same m m' \<and> (\<forall>y. ok m y \<longrightarrow> y \<notin> pq_elems q - {x} \<longrightarrow> gpos m' y = gpos m y)"
proof -
  note i = inv [unfolded pq_inv_wired [OF w]]
  obtain k where k: "k \<in> {1..<q_size q}" "x = q_d q ! k" using x by (auto simp: pq_elems_def cells_def)
  then obtain n where n: "q_size q = Suc n" "1 \<le> n" by (cases "q_size q") auto
  have pos: "gpos m x = k" using i k by auto
  have len: "n < length (q_d q)" "k < length (q_d q)" using i n k by auto
  let ?q = "q\<lparr> q_size := n, q_d := (q_d q)[k := q_d q ! n] \<rparr>"
  have w': "wired cmp gpri spri gpos spos ?q" using w by (simp add: wired_def)
  have run: "pqueue_remove q m x = (if cmp (gpri m x) (gpri m (q_d q ! n)) then bubble_up ?q m k
      else percolate_down ?q m k)"
    using w len pos n by (simp add: pqueue_remove_def wired_def Let_def)
  show ?thesis
  proof (cases "k = n")
    case True
    then have "percolate_down ?q m k = Some (?q, spos m x n)"
      using percolate_down_off_end [OF w'] k len n by simp
    moreover have "?q = q\<lparr> q_size := q_size q - 1, q_d := q_d q \<rparr>" by (simp add: True n)
    moreover have "q_size q - 1 = n" using n by simp
    ultimately show ?thesis
      using cut_last [OF w inv n] run True k(2)
      by (intro exI [of _ "q_d q"] exI [of _ "spos m x n"]) (simp add: cmp_irrefl)
  next
    case False
    then have kn: "k \<in> {1..<n}" "1 \<le> k" "k < n" using k n by auto
    note h = hole_last [OF w inv n(1) kn(1), folded k(2)]
    note ch = heap_change [OF h(2) kn(2,3), of m "(q_d q)[k := q_d q ! n]"]
    have av: "length (q_d ?q) = q_avail ?q" using i by simp
    show ?thesis
      using bubble_up_hole [OF w' _ av, of n m k "pq_elems q - {x}"]
        percolate_down_hole [OF w' _ av, of n m k "pq_elems q - {x}"] ch h(1) run len k(2) n
      by (cases "cmp (gpri m x) (gpri m (q_d q ! n))") auto
  qed
qed

lemma root_least:
  assumes w: "wired cmp gpri spri gpos spos q" and inv: "pq_inv ok q m" and y: "y \<in> pq_elems q"
  shows "\<not> cmp (gpri m (q_d q ! 1)) (gpri m y)"
proof -
  note i = inv [unfolded pq_inv_wired [OF w]]
  obtain j where "1 \<le> j" "j < q_size q" "y = q_d q ! j" using y by (auto simp: pq_elems_def cells_def)
  with heap_root_least [of "pri_le cmp gpri m", OF _ le_refl le_trans] i show ?thesis
    by (auto simp: pri_le_def)
qed

lemma pqueue_pop_ok:
  assumes w: "wired cmp gpri spri gpos spos q" and inv: "pq_inv ok q m" and ne: "q_size q \<noteq> 1"
  shows "\<exists>x d m'. pqueue_pop q m = Some (Some x, q\<lparr> q_size := q_size q - 1, q_d := d \<rparr>, m')
    \<and> x \<in> pq_elems q \<and> (\<forall>y \<in> pq_elems q. \<not> cmp (gpri m x) (gpri m y))
    \<and> pq_inv ok (q\<lparr> q_size := q_size q - 1, q_d := d \<rparr>) m'
    \<and> pq_elems (q\<lparr> q_size := q_size q - 1, q_d := d \<rparr>) = pq_elems q - {x}
    \<and> same m m' \<and> (\<forall>y. ok m y \<longrightarrow> y \<notin> pq_elems q - {x} \<longrightarrow> gpos m' y = gpos m y)"
proof -
  note i = inv [unfolded pq_inv_wired [OF w]]
  from ne i obtain n where n: "q_size q = Suc n" "1 \<le> n" by (cases "q_size q") auto
  let ?x = "q_d q ! 1" and ?q = "q\<lparr> q_size := n, q_d := (q_d q)[1 := q_d q ! n] \<rparr>"
  have len: "n < length (q_d q)" "1 < length (q_d q)" using i n by auto
  have xin: "?x \<in> pq_elems q" using n by (auto simp: pq_elems_def cells_def)
  have w': "wired cmp gpri spri gpos spos ?q" using w by (simp add: wired_def)
  have run: "pqueue_pop q m = Option.bind (percolate_down ?q m 1) (\<lambda>(q', m'). Some (Some ?x, q', m'))"
    using ne len n by (simp add: pqueue_pop_def)
  have least: "\<forall>y \<in> pq_elems q. \<not> cmp (gpri m ?x) (gpri m y)" using root_least [OF w inv] by blast
  show ?thesis
  proof (cases "n = 1")
    case True
    then have "percolate_down ?q m 1 = Some (?q, spos m ?x n)"
      using percolate_down_off_end [OF w'] len n by simp
    moreover have "?q = q\<lparr> q_size := q_size q - 1, q_d := q_d q \<rparr>" by (simp add: True n)
    moreover have "q_size q - 1 = n" using n by simp
    ultimately show ?thesis
      using cut_last [OF w inv n] run True least xin
      by (intro exI [of _ ?x] exI [of _ "q_d q"] exI [of _ "spos m ?x n"]) simp
  next
    case False
    then have kn: "1 \<in> {1..<n}" "(1::nat) \<le> 1" "1 < n" using n by auto
    note h = hole_last [OF w inv n(1) kn(1)]
    have "q_d q ! n \<in> pq_elems q" using n by (auto simp: pq_elems_def cells_def)
    then have "\<not> cmp (gpri m ?x) (gpri m ((q_d q)[1 := q_d q ! n] ! 1))" using least len by simp
    from heap_change(2) [OF h(2) kn(2,3) _ this]
    have "heap_but_down (pri_le cmp gpri m) ((q_d q)[1 := q_d q ! n]) n 1" by simp
    moreover have av: "length (q_d ?q) = q_avail ?q" using i by simp
    ultimately show ?thesis
      using percolate_down_hole [OF w' _ av, of n m 1 "pq_elems q - {?x}"] h(1) run len n least xin
      by auto
  qed
qed

end

section \<open>The validity check decides the heap order\<close>

definition descends :: "nat \<Rightarrow> nat \<Rightarrow> bool" where
  "descends pos i \<longleftrightarrow> (\<exists>k. i div 2 ^ k = pos)"

lemma descends_self [simp]: "descends pos pos"
  unfolding descends_def by (rule exI [of _ 0]) simp

lemma descends_le: "descends pos i \<Longrightarrow> pos \<le> i"
  by (auto simp: descends_def)

lemma descends_half: "descends pos (i div 2) \<Longrightarrow> descends pos i"
  unfolding descends_def by (metis div_mult2_eq power_Suc)

lemma descends_root: "1 \<le> i \<Longrightarrow> descends 1 i"
proof (induction i rule: less_induct)
  case (less i)
  show ?case
  proof (cases "i = 1")
    case False
    with less.prems have "descends 1 (i div 2)" by (intro less.IH) auto
    then show ?thesis by (rule descends_half)
  qed simp
qed

lemma descends_split: "descends pos i \<longleftrightarrow> i = pos \<or> descends (2 * pos) i \<or> descends (2 * pos + 1) i"
proof
  assume "descends pos i"
  then obtain k where k: "i div 2 ^ k = pos" by (auto simp: descends_def)
  show "i = pos \<or> descends (2 * pos) i \<or> descends (2 * pos + 1) i"
  proof (cases k)
    case 0
    with k show ?thesis by simp
  next
    case (Suc l)
    then have "i div 2 ^ l div 2 = pos" using k by (metis div_mult2_eq mult.commute power_Suc)
    then have "i div 2 ^ l = 2 * pos \<or> i div 2 ^ l = 2 * pos + 1" by linarith
    then show ?thesis by (auto simp: descends_def)
  qed
next
  assume "i = pos \<or> descends (2 * pos) i \<or> descends (2 * pos + 1) i"
  then show "descends pos i"
  proof (elim disjE)
    assume "descends (2 * pos) i"
    then obtain k where "i div 2 ^ k = 2 * pos" by (auto simp: descends_def)
    then have "i div 2 ^ Suc k = pos" by (metis div_mult2_eq mult.commute nonzero_mult_div_cancel_left power_Suc zero_neq_numeral)
    then show ?thesis unfolding descends_def by blast
  next
    assume "descends (2 * pos + 1) i"
    then obtain k where "i div 2 ^ k = 2 * pos + 1" by (auto simp: descends_def)
    then have "i div 2 ^ k div 2 = pos" by simp
    then have "i div 2 ^ Suc k = pos" by (metis div_mult2_eq mult.commute power_Suc)
    then show ?thesis unfolding descends_def by blast
  qed simp
qed

definition edge_ok :: "('m, 'e) pqueue_t \<Rightarrow> 'm \<Rightarrow> nat \<Rightarrow> bool" where
  "edge_ok q m j \<longleftrightarrow> \<not> cmppri q (getpri q m (q_d q ! (j div 2))) (getpri q m (q_d q ! j))"

definition subtree_ok :: "('m, 'e) pqueue_t \<Rightarrow> 'm \<Rightarrow> nat \<Rightarrow> bool" where
  "subtree_ok q m pos \<longleftrightarrow> (\<forall>j. j < q_size q \<and> 2 \<le> j \<and> descends pos (j div 2) \<longrightarrow> edge_ok q m j)"

lemma subtree_ok_unfold:
  assumes "1 \<le> pos"
  shows "subtree_ok q m pos \<longleftrightarrow>
    (2 * pos < q_size q \<longrightarrow> edge_ok q m (2 * pos) \<and> subtree_ok q m (2 * pos)) \<and>
    (2 * pos + 1 < q_size q \<longrightarrow> edge_ok q m (2 * pos + 1) \<and> subtree_ok q m (2 * pos + 1))"
    (is "?l \<longleftrightarrow> ?r")
proof
  assume l: ?l
  have "subtree_ok q m (2 * pos) \<and> subtree_ok q m (2 * pos + 1)"
    using l descends_split [of pos] unfolding subtree_ok_def by blast
  moreover have "2 * pos < q_size q \<Longrightarrow> edge_ok q m (2 * pos)"
    using l [unfolded subtree_ok_def, rule_format, of "2 * pos"] assms by simp
  moreover have "2 * pos + 1 < q_size q \<Longrightarrow> edge_ok q m (2 * pos + 1)"
    using l [unfolded subtree_ok_def, rule_format, of "2 * pos + 1"] assms by simp
  ultimately show ?r by blast
next
  assume r: ?r
  show ?l
    unfolding subtree_ok_def
  proof (intro allI impI)
    fix j assume j: "j < q_size q \<and> 2 \<le> j \<and> descends pos (j div 2)"
    then consider "j div 2 = pos" | "descends (2 * pos) (j div 2)" | "descends (2 * pos + 1) (j div 2)"
      using descends_split [of pos] by blast
    then show "edge_ok q m j"
    proof cases
      case 1
      then have "j = 2 * pos \<or> j = 2 * pos + 1" by linarith
      with r j show ?thesis by auto
    next
      case 2
      then have "2 * pos < q_size q" using descends_le [OF 2] j by linarith
      with r j 2 show ?thesis unfolding subtree_ok_def by blast
    next
      case 3
      then have "2 * pos + 1 < q_size q" using descends_le [OF 3] j by linarith
      with r j 3 show ?thesis unfolding subtree_ok_def by blast
    qed
  qed
qed

lemma subtree_is_valid_eq:
  "1 \<le> pos \<Longrightarrow> q_size q \<le> length (q_d q) \<Longrightarrow> subtree_is_valid q m pos = Some (subtree_ok q m pos)"
proof (induction "q_size q - pos" arbitrary: pos rule: less_induct)
  case less
  have L: "subtree_is_valid q m (2 * pos) = Some (subtree_ok q m (2 * pos))" if "2 * pos < q_size q"
    using less.prems that by (intro less.hyps) auto
  have R: "subtree_is_valid q m (2 * pos + 1) = Some (subtree_ok q m (2 * pos + 1))" if "2 * pos + 1 < q_size q"
    using less.prems that by (intro less.hyps) auto
  have div: "2 * pos div 2 = pos" "(2 * pos + 1) div 2 = pos" by simp_all
  consider "q_size q \<le> 2 * pos" | "2 * pos < q_size q" "q_size q \<le> 2 * pos + 1" | "2 * pos + 1 < q_size q"
    by linarith
  then show ?case
  proof cases
    case 1
    then show ?thesis
      by (simp add: subtree_is_valid.simps [of q m pos] subtree_ok_unfold [OF less.prems(1)])
  next
    case 2
    with less.prems L show ?thesis
      by (simp add: subtree_is_valid.simps [of q m pos] subtree_ok_unfold [OF less.prems(1)] edge_ok_def)
  next
    case 3
    with less.prems L R show ?thesis
      unfolding subtree_is_valid.simps [of q m pos] subtree_ok_unfold [OF less.prems(1)] edge_ok_def div
      by simp
  qed
qed

text \<open>The queue's own validity check returns, and its answer is exactly whether the array is
  in heap order for the client's comparison.\<close>

theorem pqueue_is_valid_decides_heap:
  assumes "q_size q \<le> length (q_d q)"
  shows "pqueue_is_valid q m = Some (heap (pri_le (cmppri q) (getpri q) m) (q_d q) (q_size q))"
proof -
  have "subtree_ok q m 1 \<longleftrightarrow> heap (pri_le (cmppri q) (getpri q) m) (q_d q) (q_size q)"
    unfolding subtree_ok_def heap_def edge_ok_def pri_le_def
    by (auto intro!: descends_root [unfolded One_nat_def])
  then show ?thesis
    using subtree_is_valid_eq [of 1 q m] assms by (simp add: pqueue_is_valid_def)
qed

definition example_pqueue :: "(nat list, nat) pqueue_t" where
  "example_pqueue = \<lparr> q_size = 5, q_avail = 5, q_step = 5, cmppri = (\<lambda>next curr. next > curr),
     getpri = (\<lambda>m e. m ! e), setpri = (\<lambda>m e p. m[e := p]), getpos = (\<lambda>m e. 0),
     setpos = (\<lambda>m e p. m), q_d = [0, 2, 1, 3, 0] \<rparr>"

lemma pqueue_is_valid_decides_heap_witness:
  "pqueue_is_valid example_pqueue [9, 4, 2, 7] =
     Some (heap (pri_le (\<lambda>next curr. next > curr) (\<lambda>m e. m ! e) [9, 4, 2, 7]) [0, 2, 1, 3, 0] 5)"
  using pqueue_is_valid_decides_heap [of example_pqueue "[9, 4, 2, 7]"]
  by (simp add: example_pqueue_def)

end
