(* ===== verification/Ppa.thy ===== *)
theory Ppa
  imports Ssd_Config
begin

text \<open>
  Physical page addresses: \<open>struct ppa\<close> of \<open>ssd.h\<close>, a union of a 64-bit word and a
  bit-field view (\<open>pg\<close> in bits 0-15, then \<open>blk\<close>, \<open>pl\<close>, \<open>lun\<close>, \<open>ch\<close>, and
  8 reserved bits). A \<open>ppa\<close> is the 64-bit word; reading a field takes bits out of it and
  assigning a field replaces them, truncating the value to the width of the field.
\<close>

unbundle bit_operations_syntax

type_synonym ppa = "64 word"

section \<open>Bit fields\<close>

definition PAGE_BITS :: nat where "PAGE_BITS = 16"
definition BLK_BITS :: nat where "BLK_BITS = 16"
definition PL_BITS :: nat where "PL_BITS = 8"
definition LUN_BITS :: nat where "LUN_BITS = 8"
definition CH_BITS :: nat where "CH_BITS = 8"

definition get_field :: "nat \<Rightarrow> nat \<Rightarrow> 64 word \<Rightarrow> nat" where
  "get_field off w p = unat (take_bit w (drop_bit off p))"

definition set_field :: "nat \<Rightarrow> nat \<Rightarrow> nat \<Rightarrow> 64 word \<Rightarrow> 64 word" where
  "set_field off w v p =
     (p AND NOT (push_bit off (mask w))) OR push_bit off (take_bit w (word_of_nat v))"

definition g_pg :: "ppa \<Rightarrow> nat" where
  "g_pg p = get_field 0 PAGE_BITS p"

definition g_blk :: "ppa \<Rightarrow> nat" where
  "g_blk p = get_field PAGE_BITS BLK_BITS p"

definition g_pl :: "ppa \<Rightarrow> nat" where
  "g_pl p = get_field (PAGE_BITS + BLK_BITS) PL_BITS p"

definition g_lun :: "ppa \<Rightarrow> nat" where
  "g_lun p = get_field (PAGE_BITS + BLK_BITS + PL_BITS) LUN_BITS p"

definition g_ch :: "ppa \<Rightarrow> nat" where
  "g_ch p = get_field (PAGE_BITS + BLK_BITS + PL_BITS + LUN_BITS) CH_BITS p"

definition h_blk_in_ssd :: "ppa \<Rightarrow> nat" where
  "h_blk_in_ssd p = get_field PAGE_BITS (BLK_BITS + PL_BITS + LUN_BITS + CH_BITS) p"

definition set_g_pg :: "nat \<Rightarrow> ppa \<Rightarrow> ppa" where
  "set_g_pg v p = set_field 0 PAGE_BITS v p"

definition set_g_blk :: "nat \<Rightarrow> ppa \<Rightarrow> ppa" where
  "set_g_blk v p = set_field PAGE_BITS BLK_BITS v p"

definition set_g_pl :: "nat \<Rightarrow> ppa \<Rightarrow> ppa" where
  "set_g_pl v p = set_field (PAGE_BITS + BLK_BITS) PL_BITS v p"

definition set_g_lun :: "nat \<Rightarrow> ppa \<Rightarrow> ppa" where
  "set_g_lun v p = set_field (PAGE_BITS + BLK_BITS + PL_BITS) LUN_BITS v p"

definition set_g_ch :: "nat \<Rightarrow> ppa \<Rightarrow> ppa" where
  "set_g_ch v p = set_field (PAGE_BITS + BLK_BITS + PL_BITS + LUN_BITS) CH_BITS v p"

definition UNMAPPED_PPA :: ppa where
  "UNMAPPED_PPA = NOT 0"

definition INVALID_LPN :: nat where
  "INVALID_LPN = 2 ^ 64 - 1"

definition mapped_ppa :: "ppa \<Rightarrow> bool" where
  "mapped_ppa p \<longleftrightarrow> p \<noteq> UNMAPPED_PPA"

lemmas field_widths = PAGE_BITS_def BLK_BITS_def PL_BITS_def LUN_BITS_def CH_BITS_def
lemmas field_getters = g_pg_def g_blk_def g_pl_def g_lun_def g_ch_def h_blk_in_ssd_def
lemmas field_setters = set_g_pg_def set_g_blk_def set_g_pl_def set_g_lun_def set_g_ch_def

section \<open>A bit-field store, as an interface\<close>

text \<open>
  What the rest of the driver relies on: reading back an assigned field gives the value
  modulo the width, and assigning one field leaves a field on other bits alone.
\<close>

locale bit_fields =
  fixes get :: "nat \<Rightarrow> nat \<Rightarrow> 'w \<Rightarrow> nat"
    and put :: "nat \<Rightarrow> nat \<Rightarrow> nat \<Rightarrow> 'w \<Rightarrow> 'w"
    and width :: nat
  assumes get_put: "off + w \<le> width \<Longrightarrow> get off w (put off w v p) = v mod 2 ^ w"
    and get_put_other: "off + w \<le> off' \<or> off' + w' \<le> off \<Longrightarrow>
        get off w (put off' w' v p) = get off w p"
    and get_bound: "off + w \<le> width \<Longrightarrow> get off w p < 2 ^ w"
begin

lemma get_put_fits: "off + w \<le> width \<Longrightarrow> v < 2 ^ w \<Longrightarrow> get off w (put off w v p) = v"
  by (simp add: get_put)

lemma put_put_commute_get:
  assumes "off + w \<le> width" and "off' + w' \<le> width" and "off + w \<le> off' \<or> off' + w' \<le> off"
  shows "get off w (put off' w' v' (put off w v p)) = v mod 2 ^ w"
  using assms by (simp add: get_put get_put_other)

end

lemma bit_set_field:
  "bit (set_field off w v p) n \<longleftrightarrow>
     n < 64 \<and> (if off \<le> n \<and> n < off + w then bit v (n - off) else bit p n)"
proof (cases "n < 64")
  case True
  then show ?thesis
    by (auto simp: set_field_def bit_simps possible_bit_word)
next
  case False
  then show ?thesis
    using bit_word.rep_eq by (auto dest: bit_imp_le_length)
qed

lemma bit_get_field_word:
  "bit (take_bit w (drop_bit off p) :: 64 word) n \<longleftrightarrow> n < w \<and> bit p (off + n)"
  by (auto simp: bit_simps possible_bit_word add.commute)

lemma get_set_field: "off + w \<le> 64 \<Longrightarrow> get_field off w (set_field off w v p) = v mod 2 ^ w"
proof -
  assume w: "off + w \<le> 64"
  have "take_bit w (drop_bit off (set_field off w v p)) = (take_bit w (word_of_nat v) :: 64 word)"
    by (rule bit_word_eqI) (use w in \<open>auto simp: bit_get_field_word bit_set_field bit_simps possible_bit_word\<close>)
  moreover have "unat (take_bit w (word_of_nat v) :: 64 word) = v mod 2 ^ w"
    using w by (simp add: unsigned_take_bit_eq unsigned_of_nat take_bit_take_bit)
      (simp add: take_bit_eq_mod min_def)
  ultimately show ?thesis by (simp add: get_field_def)
qed

lemma get_set_field_other:
  assumes "off + w \<le> off' \<or> off' + w' \<le> off"
  shows "get_field off w (set_field off' w' v p) = get_field off w p"
proof -
  have "take_bit w (drop_bit off (set_field off' w' v p)) = (take_bit w (drop_bit off p) :: 64 word)"
    by (rule bit_word_eqI)
      (use assms in \<open>auto simp: bit_get_field_word bit_set_field dest: bit_imp_le_length\<close>)
  then show ?thesis by (simp add: get_field_def)
qed

lemma get_field_bound: "get_field off w p < 2 ^ w"
  unfolding get_field_def unsigned_take_bit_eq by (rule take_bit_nat_less_exp)

interpretation ppa_bits: bit_fields get_field set_field 64
  by unfold_locales (auto simp: get_set_field get_set_field_other get_field_bound)

section \<open>The fields of a \<open>ppa\<close>\<close>

lemma g_bounds:
  "g_pg p < 65536" "g_blk p < 65536" "g_pl p < 256" "g_lun p < 256" "g_ch p < 256"
  using get_field_bound [of 0 16 p] get_field_bound [of 16 16 p] get_field_bound [of 32 8 p]
    get_field_bound [of 40 8 p] get_field_bound [of 48 8 p]
  by (simp_all add: field_getters field_widths)

lemma g_set_same [simp]:
  "g_pg (set_g_pg v p) = v mod 65536" "g_blk (set_g_blk v p) = v mod 65536"
  "g_pl (set_g_pl v p) = v mod 256" "g_lun (set_g_lun v p) = v mod 256"
  "g_ch (set_g_ch v p) = v mod 256"
  by (simp_all add: field_getters field_setters field_widths get_set_field)

lemma g_set_other [simp]:
  "g_blk (set_g_pg v p) = g_blk p" "g_pl (set_g_pg v p) = g_pl p"
  "g_lun (set_g_pg v p) = g_lun p" "g_ch (set_g_pg v p) = g_ch p"
  "g_pg (set_g_blk v p) = g_pg p" "g_pl (set_g_blk v p) = g_pl p"
  "g_lun (set_g_blk v p) = g_lun p" "g_ch (set_g_blk v p) = g_ch p"
  "g_pg (set_g_pl v p) = g_pg p" "g_blk (set_g_pl v p) = g_blk p"
  "g_lun (set_g_pl v p) = g_lun p" "g_ch (set_g_pl v p) = g_ch p"
  "g_pg (set_g_lun v p) = g_pg p" "g_blk (set_g_lun v p) = g_blk p"
  "g_pl (set_g_lun v p) = g_pl p" "g_ch (set_g_lun v p) = g_ch p"
  "g_pg (set_g_ch v p) = g_pg p" "g_blk (set_g_ch v p) = g_blk p"
  "g_pl (set_g_ch v p) = g_pl p" "g_lun (set_g_ch v p) = g_lun p"
  by (simp_all add: field_getters field_setters field_widths get_set_field_other)

lemma h_blk_set_pg [simp]: "h_blk_in_ssd (set_g_pg v p) = h_blk_in_ssd p"
  by (simp add: h_blk_in_ssd_def set_g_pg_def field_widths get_set_field_other)

lemma set_field_twice: "set_field off w v (set_field off w v' p) = set_field off w v p"
  by (rule bit_word_eqI) (auto simp: bit_set_field)

lemma set_field_mod: "set_field off w (v mod 2 ^ w) p = set_field off w v p"
  by (simp add: set_field_def flip: take_bit_eq_mod) (simp add: take_bit_of_nat)

lemma set_field_self: "set_field off w (get_field off w p) p = p"
proof (rule bit_word_eqI)
  fix n
  assume "n < LENGTH(64)"
  then show "bit (set_field off w (get_field off w p) p) n \<longleftrightarrow> bit p n"
    by (auto simp: bit_set_field get_field_def bit_unsigned_iff bit_get_field_word)
qed

lemma set_g_pg_self [simp]: "set_g_pg (g_pg p) p = p"
  by (simp add: set_g_pg_def g_pg_def set_field_self)

lemma set_g_pg_twice [simp]: "set_g_pg v (set_g_pg v' p) = set_g_pg v p"
  by (simp add: set_g_pg_def set_field_twice)

lemma set_g_pg_mod [simp]: "set_g_pg (v mod 65536) p = set_g_pg v p"
  using set_field_mod [of 0 16 v p] by (simp add: set_g_pg_def PAGE_BITS_def)

lemma set_g_pg_Suc_mod [simp]: "set_g_pg (Suc (v mod 65536)) p = set_g_pg (Suc v) p"
  using set_g_pg_mod [of "Suc (v mod 65536)" p] set_g_pg_mod [of "Suc v" p] by (simp add: mod_Suc_eq)

lemma UNMAPPED_g_ch: "g_ch UNMAPPED_PPA = 255" and UNMAPPED_g_pl: "g_pl UNMAPPED_PPA = 255"
proof -
  have "take_bit 8 (drop_bit n (NOT 0)) = (mask 8 :: 64 word)" if "n \<le> 56" for n
    using that by (intro bit_word_eqI) (auto simp: bit_simps possible_bit_word)
  from this [of 48] this [of 32] show "g_ch UNMAPPED_PPA = 255" "g_pl UNMAPPED_PPA = 255"
    by (simp_all add: g_ch_def g_pl_def get_field_def field_widths UNMAPPED_PPA_def) (simp_all add: mask_eq_exp_minus_1)
qed

end
