(* ===== verification/Ssd_Params.thy ===== *)
theory Ssd_Params
  imports Ppa
begin

text \<open>
  The parameters of the flash device: \<open>struct ssdparams\<close> (\<open>ssd.h\<close>) and
  \<open>ssd_init_params\<close> (\<open>ssd.c\<close>), which computes the geometry of one partition from the
  capacity of the namespace.

  An \<open>int\<close> field is the natural number of its 32 bits. A product of two \<open>int\<close> operands is an
  \<open>int\<close>: it wraps at 32 bits (the kernel is built with \<open>-fno-strict-overflow\<close>), and where it, or
  a field, meets a 64-bit operand it is extended with its sign. Results of unsigned type wrap at 64 bits.
  \<open>ssd_init_params\<close> also assigns members that the structure does not declare
  (\<open>pg_wr_lat\<close>, \<open>max_ch_xfer_size\<close>, \<open>slc_start_ppa\<close>, ...): they are fields here, after
  the declared ones. The incoming structure is not initialised by the callers, so the function
  takes it as an argument and updates it.
\<close>

record ssdparams =
  secsz :: nat
  secs_per_pg :: nat
  pgsz :: nat
  pgs_per_flashpg :: nat
  flashpgs_per_blk :: nat
  pgs_per_oneshotpg :: nat
  oneshotpgs_per_blk :: nat
  pgs_per_blk :: nat
  blks_per_pl :: nat
  pls_per_lun :: nat
  luns_per_ch :: nat
  nchs :: nat
  cell_mode :: nat
  slc_ratio :: nat
  slc_channels :: nat
  slc_luns_per_ch :: nat
  qlc_channels :: nat
  qlc_luns_per_ch :: nat
  hotness_table_size :: nat
  hot_threshold :: nat
  cold_threshold :: nat
  migration_interval :: nat
  max_migrations_per_check :: nat
  slc_pgs_per_blk :: nat
  slc_blks_per_pl :: nat
  slc_pgs_per_oneshotpg :: nat
  slc_oneshotpgs_per_blk :: nat
  qlc_pgs_per_blk :: nat
  qlc_blks_per_pl :: nat
  qlc_pgs_per_oneshotpg :: nat
  qlc_oneshotpgs_per_blk :: nat
  write_unit_size :: nat
  write_early_completion :: bool
  slc_read_latency :: nat
  slc_write_latency :: nat
  slc_erase_latency :: nat
  qlc_q1_read_latency :: nat
  qlc_q2_read_latency :: nat
  qlc_q3_read_latency :: nat
  qlc_q4_read_latency :: nat
  qlc_write_latency :: nat
  qlc_erase_latency :: nat
  fw_4kb_rd_lat :: nat
  fw_rd_lat :: nat
  fw_wbuf_lat0 :: nat
  fw_wbuf_lat1 :: nat
  fw_ch_xfer_lat :: nat
  ch_bandwidth :: nat
  pcie_bandwidth :: nat
  secs_per_blk :: nat
  secs_per_pl :: nat
  secs_per_lun :: nat
  secs_per_ch :: nat
  tt_secs :: nat
  pgs_per_pl :: nat
  pgs_per_lun :: nat
  pgs_per_ch :: nat
  tt_pgs :: nat
  blks_per_lun :: nat
  blks_per_ch :: nat
  tt_blks :: nat
  secs_per_line :: nat
  pgs_per_line :: nat
  blks_per_line :: nat
  tt_lines :: nat
  secs_per_lun_line :: nat
  pgs_per_lun_line :: nat
  blks_per_lun_line :: nat
  tt_lun_lines :: nat
  pls_per_ch :: nat
  tt_pls :: nat
  tt_luns :: nat
  slc_tt_pgs :: nat
  slc_tt_blks :: nat
  slc_tt_lines :: nat
  slc_pgs_per_ch :: nat
  slc_blks_per_ch :: nat
  qlc_tt_pgs :: nat
  qlc_tt_blks :: nat
  qlc_tt_lines :: nat
  qlc_pgs_per_ch :: nat
  qlc_blks_per_ch :: nat
  write_buffer_size :: nat
  \<comment> \<open>assigned or read by the C files, declared by no header\<close>
  pg_4kb_rd_lat :: "cell_type \<Rightarrow> nat"
  pg_rd_lat :: "cell_type \<Rightarrow> nat"
  pg_wr_lat :: nat
  blk_er_lat :: nat
  max_ch_xfer_size :: nat
  slc_pg_wr_lat :: nat
  qlc_pg_wr_lat :: nat
  slc_blk_er_lat :: nat
  qlc_blk_er_lat :: nat
  slc_start_ppa :: nat
  slc_end_ppa :: nat
  qlc_start_ppa :: nat
  qlc_end_ppa :: nat
  slc_start_lpn :: nat
  slc_end_lpn :: nat
  qlc_start_lpn :: nat
  qlc_end_lpn :: nat

section \<open>\<open>ssd_init_params\<close>\<close>

definition int_mul :: "nat \<Rightarrow> nat \<Rightarrow> nat" where
  "int_mul a b = u32 (a * b)"

definition sext :: "nat \<Rightarrow> nat" where
  "sext x = (if u32 x < 2 ^ 31 then u32 x else u32 x + (2 ^ 64 - 2 ^ 32))"

lemma int_mul_exact [simp]: "a * b < 2147483648 \<Longrightarrow> int_mul a b = a * b"
  by (simp add: int_mul_def)

lemma sext_exact [simp]: "x < 2147483648 \<Longrightarrow> sext x = x"
  by (simp add: sext_def)

lemma sext_0_iff: "sext x = 0 \<longleftrightarrow> u32 x = 0"
  by (simp add: sext_def)

definition init_base_params :: "build_macros \<Rightarrow> ssdparams \<Rightarrow> ssdparams" where
  "init_base_params m spp = spp\<lparr>
     secsz := 512, secs_per_pg := 8, pgsz := 512 * 8,
     nchs := NAND_CHANNELS m, pls_per_lun := PLNS_PER_LUN m,
     luns_per_ch := LUNS_PER_NAND_CH m, cell_mode := CELL_MODE m \<rparr>"

definition init_hybrid_params :: "base_ssd \<Rightarrow> ssdparams \<Rightarrow> ssdparams" where
  "init_hybrid_params b spp = (if b = HYBRID_SSD then spp\<lparr>
     slc_ratio := HYBRID_SLC_RATIO, slc_channels := HYBRID_SLC_CHANNELS,
     qlc_channels := HYBRID_QLC_CHANNELS, slc_luns_per_ch := HYBRID_LUNS_PER_CH,
     qlc_luns_per_ch := HYBRID_LUNS_PER_CH,
     hotness_table_size := HYBRID_HOTNESS_TABLE_SIZE, hot_threshold := HYBRID_HOT_THRESHOLD,
     cold_threshold := HYBRID_COLD_THRESHOLD, migration_interval := HYBRID_MIGRATION_INTERVAL,
     max_migrations_per_check := HYBRID_MAX_MIGRATIONS_PER_CHECK,
     slc_pgs_per_blk := HYBRID_SLC_PGS_PER_BLK, slc_blks_per_pl := HYBRID_SLC_BLKS_PER_PL,
     slc_pgs_per_oneshotpg := HYBRID_SLC_PGS_PER_ONESHOTPG,
     slc_oneshotpgs_per_blk := HYBRID_SLC_ONESHOTPGS_PER_BLK,
     qlc_pgs_per_blk := HYBRID_QLC_PGS_PER_BLK, qlc_blks_per_pl := HYBRID_QLC_BLKS_PER_PL,
     qlc_pgs_per_oneshotpg := HYBRID_QLC_PGS_PER_ONESHOTPG,
     qlc_oneshotpgs_per_blk := HYBRID_QLC_ONESHOTPGS_PER_BLK,
     slc_read_latency := HYBRID_SLC_READ_LATENCY, slc_write_latency := HYBRID_SLC_WRITE_LATENCY,
     slc_erase_latency := HYBRID_SLC_ERASE_LATENCY,
     qlc_q1_read_latency := HYBRID_QLC_Q1_READ_LATENCY,
     qlc_q2_read_latency := HYBRID_QLC_Q2_READ_LATENCY,
     qlc_q3_read_latency := HYBRID_QLC_Q3_READ_LATENCY,
     qlc_q4_read_latency := HYBRID_QLC_Q4_READ_LATENCY,
     qlc_write_latency := HYBRID_QLC_WRITE_LATENCY, qlc_erase_latency := HYBRID_QLC_ERASE_LATENCY \<rparr>
   else spp)"

text \<open>
  The number of blocks per plane and the block size: one is configured, the other follows from
  the capacity of the partition.
\<close>

definition init_block_geometry :: "build_macros \<Rightarrow> ssdparams \<Rightarrow> nat \<Rightarrow> (ssdparams \<times> nat) option" where
  "init_block_geometry m spp capacity =
     (if BLKS_PER_PLN m > 0 then do {
        let d = sext (int_mul (int_mul (int_mul (BLKS_PER_PLN m) (pls_per_lun spp)) (luns_per_ch spp)) (nchs spp));
        blk_size \<leftarrow> div_trap (u64 (capacity + d - 1)) d;
        Some (spp\<lparr> blks_per_pl := BLKS_PER_PLN m \<rparr>, blk_size)
      } else do {
        nvmev_assert (BLK_SIZE m > 0);
        let d = u64 (BLK_SIZE m * sext (pls_per_lun spp) * sext (luns_per_ch spp) * sext (nchs spp));
        n \<leftarrow> div_trap (u64 (capacity + d - 1)) d;
        Some (spp\<lparr> blks_per_pl := u32 n \<rparr>, BLK_SIZE m)
      })"

definition init_page_geometry :: "build_macros \<Rightarrow> ssdparams \<Rightarrow> nat \<Rightarrow> ssdparams option" where
  "init_page_geometry m spp blk_size = do {
     o_r \<leftarrow> mod_trap (ONESHOT_PAGE_SIZE m) (pgsz spp);
     f_r \<leftarrow> mod_trap (FLASH_PAGE_SIZE m) (pgsz spp);
     nvmev_assert (o_r = 0 \<and> f_r = 0);
     of_r \<leftarrow> mod_trap (ONESHOT_PAGE_SIZE m) (FLASH_PAGE_SIZE m);
     nvmev_assert (of_r = 0);
     oneshots \<leftarrow> div_trap (u64 (blk_size + ONESHOT_PAGE_SIZE m - 1)) (ONESHOT_PAGE_SIZE m);
     Some (spp\<lparr> pgs_per_oneshotpg := ONESHOT_PAGE_SIZE m div pgsz spp,
                oneshotpgs_per_blk := u32 oneshots \<rparr>)
   }"

text \<open>The result is the parameters and the capacity of the partition.\<close>

definition init_partition_geometry ::
  "build_macros \<Rightarrow> ssdparams \<Rightarrow> nat \<Rightarrow> nat \<Rightarrow> (ssdparams \<times> nat) option" where
  "init_partition_geometry m spp capacity nparts = do {
     r \<leftarrow> mod_trap (nchs spp) nparts;
     nvmev_assert (r = 0);
     (spp, blk_size) \<leftarrow> init_block_geometry m (spp\<lparr> nchs := nchs spp div nparts \<rparr>) (capacity div nparts);
     spp \<leftarrow> init_page_geometry m spp blk_size;
     Some (spp, capacity div nparts)
   }"

definition init_slc_capacity :: "ssdparams \<Rightarrow> nat \<Rightarrow> ssdparams option" where
  "init_slc_capacity spp capacity = do {
     slc_capacity \<leftarrow> div_trap (u64 (capacity * slc_channels spp)) (slc_channels spp + qlc_channels spp);
     slc_capacity_per_ch \<leftarrow> div_trap slc_capacity (slc_channels spp);
     slc_capacity_per_lun \<leftarrow> div_trap slc_capacity_per_ch (slc_luns_per_ch spp);
     slc_pgs_per_lun \<leftarrow> div_trap slc_capacity_per_lun (pgsz spp);
     let total = u64 (sext (int_mul (slc_channels spp) (slc_luns_per_ch spp)) * slc_pgs_per_lun);
     blks \<leftarrow> div_trap total (slc_pgs_per_blk spp);
     lines \<leftarrow> div_trap blks (slc_blks_per_pl spp);
     let per_ch = u64 (slc_pgs_per_lun * slc_luns_per_ch spp);
     Some (spp\<lparr> slc_tt_pgs := total, slc_tt_blks := blks, slc_tt_lines := lines,
                slc_pgs_per_ch := per_ch, slc_blks_per_ch := per_ch div slc_pgs_per_blk spp \<rparr>)
   }"

definition init_qlc_capacity :: "ssdparams \<Rightarrow> nat \<Rightarrow> ssdparams option" where
  "init_qlc_capacity spp capacity = do {
     qlc_capacity \<leftarrow> div_trap (u64 (capacity * qlc_channels spp)) (slc_channels spp + qlc_channels spp);
     qlc_capacity_per_ch \<leftarrow> div_trap qlc_capacity (qlc_channels spp);
     qlc_capacity_per_lun \<leftarrow> div_trap qlc_capacity_per_ch (qlc_luns_per_ch spp);
     qlc_pgs_per_lun \<leftarrow> div_trap qlc_capacity_per_lun (pgsz spp);
     let total = u64 (sext (int_mul (qlc_channels spp) (qlc_luns_per_ch spp)) * qlc_pgs_per_lun);
     blks \<leftarrow> div_trap total (qlc_pgs_per_blk spp);
     lines \<leftarrow> div_trap blks (qlc_blks_per_pl spp);
     let per_ch = u64 (qlc_pgs_per_lun * qlc_luns_per_ch spp);
     Some (spp\<lparr> qlc_tt_pgs := total, qlc_tt_blks := blks, qlc_tt_lines := lines,
                qlc_pgs_per_ch := per_ch, qlc_blks_per_ch := per_ch div qlc_pgs_per_blk spp \<rparr>)
   }"

definition init_hybrid_ranges :: "ssdparams \<Rightarrow> ssdparams" where
  "init_hybrid_ranges spp =
     (let total = u64 (slc_tt_pgs spp + qlc_tt_pgs spp)
      in spp\<lparr> tt_pgs := total,
              slc_start_ppa := 0, slc_end_ppa := slc_tt_pgs spp,
              qlc_start_ppa := slc_tt_pgs spp, qlc_end_ppa := total,
              slc_start_lpn := 0, slc_end_lpn := slc_tt_pgs spp,
              qlc_start_lpn := slc_tt_pgs spp, qlc_end_lpn := total \<rparr>)"

definition init_hybrid_capacity :: "base_ssd \<Rightarrow> ssdparams \<Rightarrow> nat \<Rightarrow> ssdparams option" where
  "init_hybrid_capacity b spp capacity =
     (if b = HYBRID_SSD then do {
        spp \<leftarrow> init_slc_capacity spp capacity;
        spp \<leftarrow> init_qlc_capacity spp capacity;
        Some (init_hybrid_ranges spp)
      } else Some spp)"

definition init_latency_params :: "build_macros \<Rightarrow> ssdparams \<Rightarrow> ssdparams" where
  "init_latency_params m spp = spp\<lparr>
     pgs_per_flashpg := FLASH_PAGE_SIZE m div pgsz spp,
     pgs_per_blk := int_mul (pgs_per_oneshotpg spp) (oneshotpgs_per_blk spp),
     write_unit_size := WRITE_UNIT_SIZE m,
     pg_4kb_rd_lat := NAND_4KB_READ_LATENCY m, pg_rd_lat := NAND_READ_LATENCY m,
     pg_wr_lat := NAND_PROG_LATENCY m, blk_er_lat := NAND_ERASE_LATENCY m,
     max_ch_xfer_size := MAX_CH_XFER_SIZE m,
     fw_4kb_rd_lat := FW_4KB_READ_LATENCY m, fw_rd_lat := FW_READ_LATENCY m,
     fw_ch_xfer_lat := FW_CH_XFER_LATENCY m, fw_wbuf_lat0 := FW_WBUF_LATENCY0 m,
     fw_wbuf_lat1 := FW_WBUF_LATENCY1 m,
     ch_bandwidth := NAND_CHANNEL_BANDWIDTH m, pcie_bandwidth := PCIE_BANDWIDTH m,
     write_buffer_size := GLOBAL_WB_SIZE m,
     write_early_completion := WRITE_EARLY_COMPLETION m \<rparr>"

definition init_calculated_params :: "ssdparams \<Rightarrow> ssdparams" where
  "init_calculated_params spp =
     (let s_blk = sext (int_mul (secs_per_pg spp) (pgs_per_blk spp));
          s_pl = u64 (s_blk * sext (blks_per_pl spp));
          s_lun = u64 (s_pl * sext (pls_per_lun spp));
          s_ch = u64 (s_lun * sext (luns_per_ch spp));
          p_pl = sext (int_mul (pgs_per_blk spp) (blks_per_pl spp));
          p_lun = u64 (p_pl * sext (pls_per_lun spp));
          p_ch = u64 (p_lun * sext (luns_per_ch spp));
          b_lun = sext (int_mul (blks_per_pl spp) (pls_per_lun spp));
          b_ch = u64 (b_lun * sext (luns_per_ch spp));
          pl_ch = sext (int_mul (pls_per_lun spp) (luns_per_ch spp));
          luns = sext (int_mul (luns_per_ch spp) (nchs spp));
          p_line = u64 (luns * sext (pgs_per_blk spp));
          b_lun_line = sext (pls_per_lun spp);
          p_lun_line = u64 (b_lun_line * sext (pgs_per_blk spp))
      in spp\<lparr>
        secs_per_blk := s_blk, secs_per_pl := s_pl, secs_per_lun := s_lun, secs_per_ch := s_ch,
        tt_secs := u64 (s_ch * sext (nchs spp)),
        pgs_per_pl := p_pl, pgs_per_lun := p_lun, pgs_per_ch := p_ch, tt_pgs := u64 (p_ch * sext (nchs spp)),
        blks_per_lun := b_lun, blks_per_ch := b_ch, tt_blks := u64 (b_ch * sext (nchs spp)),
        pls_per_ch := pl_ch, tt_pls := u64 (pl_ch * sext (nchs spp)), tt_luns := luns,
        blks_per_line := luns, pgs_per_line := p_line,
        secs_per_line := u64 (p_line * sext (secs_per_pg spp)), tt_lines := b_lun,
        blks_per_lun_line := b_lun_line, pgs_per_lun_line := p_lun_line,
        secs_per_lun_line := u64 (p_lun_line * sext (secs_per_pg spp)),
        tt_lun_lines := b_lun_line \<rparr>)"

definition ssd_init_params ::
  "base_ssd \<Rightarrow> build_macros \<Rightarrow> ssdparams \<Rightarrow> nat \<Rightarrow> nat \<Rightarrow> ssdparams option" where
  "ssd_init_params b m spp capacity nparts = do {
     let spp = init_hybrid_params b (init_base_params m spp);
     (spp, capacity) \<leftarrow> init_partition_geometry m spp capacity nparts;
     spp \<leftarrow> init_hybrid_capacity b spp capacity;
     Some (init_calculated_params (init_latency_params m spp))
   }"

section \<open>The geometry the rest of the driver relies on\<close>

text \<open>The size of the device in pages, and the relations between the calculated members.\<close>

definition device_pages :: "ssdparams \<Rightarrow> nat" where
  "device_pages spp = nchs spp * (luns_per_ch spp * (pls_per_lun spp * (blks_per_pl spp * pgs_per_blk spp)))"

definition geometry_ok :: "ssdparams \<Rightarrow> bool" where
  "geometry_ok spp \<longleftrightarrow>
     secsz spp = 512 \<and> secs_per_pg spp = 8 \<and> pgsz spp = 4096
     \<and> pgs_per_blk spp = pgs_per_oneshotpg spp * oneshotpgs_per_blk spp
     \<and> pgs_per_pl spp = pgs_per_blk spp * blks_per_pl spp
     \<and> pgs_per_lun spp = pgs_per_pl spp * pls_per_lun spp
     \<and> pgs_per_ch spp = pgs_per_lun spp * luns_per_ch spp
     \<and> tt_pgs spp = pgs_per_ch spp * nchs spp
     \<and> tt_luns spp = luns_per_ch spp * nchs spp
     \<and> blks_per_lun spp = blks_per_pl spp * pls_per_lun spp
     \<and> blks_per_line spp = tt_luns spp
     \<and> pgs_per_line spp = tt_luns spp * pgs_per_blk spp
     \<and> tt_lines spp = blks_per_lun spp
     \<and> blks_per_lun_line spp = pls_per_lun spp
     \<and> pgs_per_lun_line spp = pls_per_lun spp * pgs_per_blk spp
     \<and> tt_lun_lines spp = pls_per_lun spp"

text \<open>The products the code takes in \<open>int\<close> fit an \<open>int\<close>.\<close>

definition int_products_fit :: "ssdparams \<Rightarrow> bool" where
  "int_products_fit spp \<longleftrightarrow> 8 * (pgs_per_oneshotpg spp * oneshotpgs_per_blk spp) < 2 ^ 31
     \<and> pgs_per_oneshotpg spp * oneshotpgs_per_blk spp * blks_per_pl spp < 2 ^ 31
     \<and> blks_per_pl spp * pls_per_lun spp < 2 ^ 31 \<and> pls_per_lun spp * luns_per_ch spp < 2 ^ 31
     \<and> luns_per_ch spp * nchs spp < 2 ^ 31"

lemma geometry_products:
  assumes "geometry_ok spp"
  shows "tt_pgs spp = device_pages spp" and "tt_lines spp * pgs_per_line spp = tt_pgs spp"
  using assms by (simp_all add: geometry_ok_def device_pages_def algebra_simps)

lemma mult_le_factor: "0 < (b::nat) \<Longrightarrow> a \<le> a * b" "0 < (b::nat) \<Longrightarrow> a \<le> b * a"
  by simp_all

text \<open>A partial product of positive factors is at most the whole product.\<close>

lemma partial_products:
  fixes p k l u c :: nat
  assumes "8 * (c * (u * (l * (k * p)))) < N" and "0 < k" "0 < l" "0 < u" "0 < c"
  shows "8 * p * k < N" and "8 * p * k * l < N" and "8 * p * k * l * u < N" and "8 * p * k * l * u * c < N"
    and "p * k * l < N" and "p * k * l * u < N" and "p * k * l * u * c < N"
    and "u * c * p < N" and "u * c * p * 8 < N" and "l * p < N" and "l * p * 8 < N"
proof -
  have le: "a \<le> b \<Longrightarrow> b * d < N \<Longrightarrow> 0 < d \<Longrightarrow> a < N" for a b d :: nat
    by (metis le_less_trans mult_le_factor(1) order.trans)
  have whole: "8 * p * k * l * u * c < N" using assms(1) by (simp add: algebra_simps)
  then show "8 * p * k * l * u * c < N" .
  from le [OF order_refl this] assms(5) show 3: "8 * p * k * l * u < N" by simp
  from le [OF order_refl this] assms(4) show 2: "8 * p * k * l < N" by simp
  from le [OF order_refl this] assms(3) show "8 * p * k < N" by simp
  show "p * k * l * u * c < N" using whole by simp
  show "p * k * l * u < N" using 3 by simp
  show "p * k * l < N" using 2 by simp
  have "(u * c * p * 8) * (k * l) < N" using whole by (simp add: algebra_simps)
  from le [OF order_refl this] assms show uc: "u * c * p * 8 < N" by simp
  then show "u * c * p < N" by simp
  have "(l * p * 8) * (k * u * c) < N" using whole by (simp add: algebra_simps)
  from le [OF order_refl this] assms show lp: "l * p * 8 < N" by simp
  then show "l * p < N" by simp
qed

lemma calculated_geometry:
  assumes "8 * device_pages spp < 2 ^ 64" and "secsz spp = 512" "secs_per_pg spp = 8" "pgsz spp = 4096"
    and "pgs_per_blk spp = pgs_per_oneshotpg spp * oneshotpgs_per_blk spp" and fit: "int_products_fit spp"
    and pos: "0 < nchs spp" "0 < luns_per_ch spp" "0 < pls_per_lun spp" "0 < blks_per_pl spp"
  shows "geometry_ok (init_calculated_params spp)"
    and "tt_secs (init_calculated_params spp) = 8 * tt_pgs (init_calculated_params spp)"
proof -
  have id64: "n < 2 ^ 64 \<Longrightarrow> u64 n = n" for n by simp
  note b = partial_products [OF assms(1) [unfolded device_pages_def] pos(4,3,2,1), THEN id64]
  note prod = fit [unfolded int_products_fit_def assms(5) [symmetric]]
  have le: "x \<le> x * y" "x \<le> y * x" if "0 < y" for x y :: nat using that by simp_all
  have small: "8 * pgs_per_blk spp < 2147483648" "pgs_per_blk spp * blks_per_pl spp < 2147483648"
    "blks_per_pl spp * pls_per_lun spp < 2147483648" "pls_per_lun spp * luns_per_ch spp < 2147483648"
    "luns_per_ch spp * nchs spp < 2147483648" using prod by simp_all
  have f: "pgs_per_blk spp < 2147483648" "blks_per_pl spp < 2147483648" "pls_per_lun spp < 2147483648"
    "luns_per_ch spp < 2147483648" "nchs spp < 2147483648"
    using small le(1) [OF pos(3), of "blks_per_pl spp"] le(1) [OF pos(2), of "pls_per_lun spp"]
      le(1) [OF pos(1), of "luns_per_ch spp"] le(2) [OF pos(2), of "nchs spp"] by linarith+
  show "geometry_ok (init_calculated_params spp)"
    by (simp add: init_calculated_params_def Let_def geometry_ok_def b assms(2-4) assms(5) [symmetric] small f)
  show "tt_secs (init_calculated_params spp) = 8 * tt_pgs (init_calculated_params spp)"
    by (simp add: init_calculated_params_def Let_def b assms(3) small f)
qed

text \<open>What each stage leaves alone or establishes.\<close>

lemma init_hybrid_params_keeps [simp]:
  "secsz (init_hybrid_params b spp) = secsz spp" "secs_per_pg (init_hybrid_params b spp) = secs_per_pg spp"
  "pgsz (init_hybrid_params b spp) = pgsz spp" "nchs (init_hybrid_params b spp) = nchs spp"
  "pls_per_lun (init_hybrid_params b spp) = pls_per_lun spp"
  "luns_per_ch (init_hybrid_params b spp) = luns_per_ch spp"
  by (simp_all add: init_hybrid_params_def)

definition same_geometry :: "ssdparams \<Rightarrow> ssdparams \<Rightarrow> bool" where
  "same_geometry a b \<longleftrightarrow> secsz a = secsz b \<and> secs_per_pg a = secs_per_pg b \<and> pgsz a = pgsz b
     \<and> nchs a = nchs b \<and> luns_per_ch a = luns_per_ch b \<and> pls_per_lun a = pls_per_lun b
     \<and> blks_per_pl a = blks_per_pl b \<and> pgs_per_oneshotpg a = pgs_per_oneshotpg b
     \<and> oneshotpgs_per_blk a = oneshotpgs_per_blk b"

lemma init_block_geometry_result:
  assumes "init_block_geometry m spp cap = Some (spp', blk_size)"
  shows "\<exists>n. spp' = spp\<lparr> blks_per_pl := n \<rparr>" and "0 < nchs spp" "0 < luns_per_ch spp" "0 < pls_per_lun spp"
proof -
  have "(\<exists>n. spp' = spp\<lparr> blks_per_pl := n \<rparr>) \<and> nchs spp \<noteq> 0 \<and> luns_per_ch spp \<noteq> 0 \<and> pls_per_lun spp \<noteq> 0"
  proof (cases "0 < BLKS_PER_PLN m")
    case True
    let ?d = "sext (int_mul (int_mul (int_mul (BLKS_PER_PLN m) (pls_per_lun spp)) (luns_per_ch spp)) (nchs spp))"
    from True assms have "?d \<noteq> 0" and "\<exists>n. spp' = spp\<lparr> blks_per_pl := n \<rparr>"
      by (auto simp: init_block_geometry_def fault_simps Let_def)
    moreover from this(1) have "nchs spp \<noteq> 0" "luns_per_ch spp \<noteq> 0" "pls_per_lun spp \<noteq> 0"
      by (auto simp: sext_0_iff int_mul_def intro: ccontr)
    ultimately show ?thesis by simp
  next
    case False
    let ?d = "u64 (BLK_SIZE m * sext (pls_per_lun spp) * sext (luns_per_ch spp) * sext (nchs spp))"
    from False assms have "?d \<noteq> 0" and "\<exists>n. spp' = spp\<lparr> blks_per_pl := n \<rparr>"
      by (auto simp: init_block_geometry_def fault_simps Let_def)
    moreover from this(1) have "nchs spp \<noteq> 0" "luns_per_ch spp \<noteq> 0" "pls_per_lun spp \<noteq> 0"
      by (auto intro: ccontr)
    ultimately show ?thesis by simp
  qed
  then show "\<exists>n. spp' = spp\<lparr> blks_per_pl := n \<rparr>" and "0 < nchs spp" "0 < luns_per_ch spp" "0 < pls_per_lun spp"
    by auto
qed

lemma init_page_geometry_result:
  assumes "init_page_geometry m spp blk_size = Some spp'"
  shows "spp' = spp\<lparr> pgs_per_oneshotpg := ONESHOT_PAGE_SIZE m div pgsz spp,
      oneshotpgs_per_blk := u32 (u64 (blk_size + ONESHOT_PAGE_SIZE m - 1) div ONESHOT_PAGE_SIZE m) \<rparr>"
    and "ONESHOT_PAGE_SIZE m mod pgsz spp = 0" and "0 < pgsz spp" and "0 < ONESHOT_PAGE_SIZE m"
  using assms by (simp_all add: init_page_geometry_def fault_simps)

lemma init_partition_geometry_result:
  assumes "init_partition_geometry m spp capacity nparts = Some (spp', cap)"
  obtains n blk_size where "nchs spp' * nparts = nchs spp" and "cap = capacity div nparts" and "0 < nparts"
    and "0 < nchs spp'" and "0 < luns_per_ch spp'" and "0 < pls_per_lun spp'"
    and "spp' = spp\<lparr> nchs := nchs spp div nparts, blks_per_pl := n,
      pgs_per_oneshotpg := ONESHOT_PAGE_SIZE m div pgsz spp,
      oneshotpgs_per_blk := u32 (u64 (blk_size + ONESHOT_PAGE_SIZE m - 1) div ONESHOT_PAGE_SIZE m) \<rparr>"
    and "ONESHOT_PAGE_SIZE m mod pgsz spp = 0" and "0 < pgsz spp" and "0 < ONESHOT_PAGE_SIZE m"
proof -
  let ?s = "spp\<lparr> nchs := nchs spp div nparts \<rparr>" and ?c = "capacity div nparts"
  from assms obtain s1 blk_size where np: "nparts \<noteq> 0" "nchs spp mod nparts = 0"
    and blk: "init_block_geometry m ?s ?c = Some (s1, blk_size)"
    and pg: "init_page_geometry m s1 blk_size = Some spp'" and cap: "cap = ?c"
    unfolding init_partition_geometry_def by (auto simp: fault_simps)
  note b = init_block_geometry_result [OF blk] and p = init_page_geometry_result [OF pg]
  from b(1) obtain n where s1: "s1 = ?s\<lparr> blks_per_pl := n \<rparr>" by blast
  have n: "nchs spp div nparts * nparts = nchs spp" using np by (simp add: div_mult_self1_is_m mod_0_imp_dvd)
  show thesis
    by (rule that [of blk_size n]) (use n np cap b(2-4) p s1 in simp_all)
qed

lemma init_slc_capacity_keeps: "init_slc_capacity spp c = Some spp' \<Longrightarrow> same_geometry spp' spp"
  unfolding init_slc_capacity_def Let_def
  by (simp only: fault_simps, elim exE conjE, drule sym [of "Some _"]) (simp add: same_geometry_def)

lemma init_qlc_capacity_keeps: "init_qlc_capacity spp c = Some spp' \<Longrightarrow> same_geometry spp' spp"
  unfolding init_qlc_capacity_def Let_def
  by (simp only: fault_simps, elim exE conjE, drule sym [of "Some _"]) (simp add: same_geometry_def)

lemma init_hybrid_capacity_keeps:
  assumes "init_hybrid_capacity b spp c = Some spp'"
  shows "same_geometry spp' spp"
proof (cases "b = HYBRID_SSD")
  case True
  with assms obtain s1 s2 where "init_slc_capacity spp c = Some s1" and "init_qlc_capacity s1 c = Some s2"
    and "spp' = init_hybrid_ranges s2" by (auto simp: init_hybrid_capacity_def fault_simps)
  then show ?thesis
    using init_slc_capacity_keeps [of spp c s1] init_qlc_capacity_keeps [of s1 c s2]
    by (simp add: same_geometry_def init_hybrid_ranges_def Let_def)
next
  case False
  with assms show ?thesis by (simp add: init_hybrid_capacity_def same_geometry_def)
qed

lemma ssd_init_params_stages:
  assumes "ssd_init_params b m spp capacity nparts = Some spp'"
  obtains s0 s1 s2 cap where "s0 = init_hybrid_params b (init_base_params m spp)"
    and "init_partition_geometry m s0 capacity nparts = Some (s1, cap)"
    and "same_geometry s2 s1" and "spp' = init_calculated_params (init_latency_params m s2)"
proof -
  let ?s0 = "init_hybrid_params b (init_base_params m spp)"
  obtain s1 cap s2 where "init_partition_geometry m ?s0 capacity nparts = Some (s1, cap)"
    and h: "init_hybrid_capacity b s1 cap = Some s2"
    and "spp' = init_calculated_params (init_latency_params m s2)"
    using assms unfolding ssd_init_params_def Let_def by (auto simp: fault_simps)
  with init_hybrid_capacity_keeps [OF h] that show thesis by blast
qed

lemma calculated_keeps:
  "same_geometry (init_calculated_params spp) spp"
  "pgs_per_blk (init_calculated_params spp) = pgs_per_blk spp"
  by (simp_all add: same_geometry_def init_calculated_params_def Let_def)

lemma latency_keeps:
  "same_geometry (init_latency_params m spp) spp"
  "pgs_per_blk (init_latency_params m spp) = int_mul (pgs_per_oneshotpg spp) (oneshotpgs_per_blk spp)"
  by (simp_all add: same_geometry_def init_latency_params_def)

lemma ssd_params_geometry:
  assumes "ssd_init_params b m spp capacity nparts = Some spp'"
    and "0 < blks_per_pl spp'" and "int_products_fit spp'" and "8 * device_pages spp' < 2 ^ 64"
  shows "nchs spp' * nparts = NAND_CHANNELS m \<and> geometry_ok spp'
    \<and> tt_pgs spp' = device_pages spp' \<and> tt_lines spp' * pgs_per_line spp' = tt_pgs spp'
    \<and> tt_secs spp' = 8 * tt_pgs spp'"
proof -
  from assms(1) obtain s0 s1 s2 cap where s0: "s0 = init_hybrid_params b (init_base_params m spp)"
    and part: "init_partition_geometry m s0 capacity nparts = Some (s1, cap)"
    and s2: "same_geometry s2 s1" and spp': "spp' = init_calculated_params (init_latency_params m s2)"
    by (rule ssd_init_params_stages)
  from part obtain n blk_size where p: "nchs s1 * nparts = nchs s0" "0 < nchs s1" "0 < luns_per_ch s1"
      "0 < pls_per_lun s1" and s1: "s1 = s0\<lparr> nchs := nchs s0 div nparts, blks_per_pl := n,
      pgs_per_oneshotpg := ONESHOT_PAGE_SIZE m div pgsz s0,
      oneshotpgs_per_blk := u32 (u64 (blk_size + ONESHOT_PAGE_SIZE m - 1) div ONESHOT_PAGE_SIZE m) \<rparr>"
    by (rule init_partition_geometry_result)
  have p': "secsz s1 = secsz s0" "secs_per_pg s1 = secs_per_pg s0" "pgsz s1 = pgsz s0" by (simp_all add: s1)
  let ?l = "init_latency_params m s2"
  have base: "secsz s0 = 512" "secs_per_pg s0 = 8" "pgsz s0 = 4096" "nchs s0 = NAND_CHANNELS m"
    by (simp_all add: s0 init_base_params_def)
  have l: "same_geometry ?l s1" using s2 latency_keeps(1) [of m s2] by (simp add: same_geometry_def)
  have dev: "device_pages spp' = device_pages ?l" and keep: "same_geometry spp' ?l"
    using calculated_keeps [of ?l] by (simp_all add: spp' device_pages_def same_geometry_def)
  have fit: "int_products_fit ?l" using assms(3) keep by (simp add: int_products_fit_def same_geometry_def)
  have eighth: "8 * x < 2 ^ 31 \<Longrightarrow> x < 2147483648" for x :: nat by simp
  have "pgs_per_oneshotpg ?l * oneshotpgs_per_blk ?l < 2147483648"
    by (rule eighth) (rule fit [unfolded int_products_fit_def, THEN conjunct1])
  then have pb: "pgs_per_blk ?l = pgs_per_oneshotpg ?l * oneshotpgs_per_blk ?l"
    using latency_keeps [of m s2] by (simp add: same_geometry_def)
  have facts: "8 * device_pages ?l < 2 ^ 64" "secsz ?l = 512" "secs_per_pg ?l = 8" "pgsz ?l = 4096"
    "0 < nchs ?l" "0 < luns_per_ch ?l" "0 < pls_per_lun ?l" "0 < blks_per_pl ?l"
    using assms(2,4) dev keep l base p p' by (simp_all add: same_geometry_def)
  note g = calculated_geometry [OF facts(1-4) pb fit facts(5-8), folded spp']
  have "nchs spp' * nparts = NAND_CHANNELS m"
    using keep l base p(1) by (simp add: same_geometry_def)
  with g geometry_products [OF g(1)] show ?thesis by simp
qed

text \<open>C37: When \<open>ssd_init_params\<close> returns with at least one block in a plane, and the products the code takes in
  \<open>int\<close> fit an \<open>int\<close> (eight times the pages of a block, the pages and the blocks of a plane and a LUN, the planes of a
  channel, the LUNs of the device) and the sector count of the device fits 64 bits, then the partitions share all channels
  evenly and all calculated sizes are exact: lines times pages per line is the page count, which is channels times LUNs
  times planes times blocks times pages, and the sector count is eight times that.\<close>

theorem ssd_init_params_geometry:
  assumes "ssd_init_params b m spp capacity nparts = Some spp'"
    and "0 < blks_per_pl spp'" and "int_products_fit spp'" and "8 * device_pages spp' < 2 ^ 64"
  shows "nchs spp' * nparts = NAND_CHANNELS m \<and> geometry_ok spp'
    \<and> tt_pgs spp' = device_pages spp' \<and> tt_lines spp' * pgs_per_line spp' = tt_pgs spp'
    \<and> tt_secs spp' = 8 * tt_pgs spp'"
  using assms by (rule ssd_params_geometry)

definition tiny_macros :: build_macros where
  "tiny_macros = \<lparr> NAND_CHANNELS = 2, LUNS_PER_NAND_CH = 1, PLNS_PER_LUN = 1, CELL_MODE = 0,
     BLKS_PER_PLN = 4, BLK_SIZE = 0, FLASH_PAGE_SIZE = 4096, ONESHOT_PAGE_SIZE = 4096,
     WRITE_UNIT_SIZE = 512, MAX_CH_XFER_SIZE = 16384, NAND_PROG_LATENCY = 200000,
     NAND_ERASE_LATENCY = 0, NAND_4KB_READ_LATENCY = (\<lambda>_. 30000), NAND_READ_LATENCY = (\<lambda>_. 36000),
     FW_4KB_READ_LATENCY = 20000, FW_READ_LATENCY = 13000, FW_CH_XFER_LATENCY = 0,
     FW_WBUF_LATENCY0 = 4000, FW_WBUF_LATENCY1 = 460, NAND_CHANNEL_BANDWIDTH = 800,
     PCIE_BANDWIDTH = 3360, GLOBAL_WB_SIZE = 65536, WRITE_EARLY_COMPLETION = True,
     SSD_PARTITIONS = 1, OP_AREA_PBA_PCENT = 107 \<rparr>"

text \<open>A small device for the witnesses; \<open>stack_params\<close> is what the uninitialised
  \<open>struct ssdparams\<close> of \<open>conv_init_namespace\<close> may hold.\<close>

definition stack_params :: ssdparams where
  "stack_params = \<lparr>
    secsz = 0, secs_per_pg = 0, pgsz = 0, pgs_per_flashpg = 0, flashpgs_per_blk = 2,
    pgs_per_oneshotpg = 0, oneshotpgs_per_blk = 0, pgs_per_blk = 0, blks_per_pl = 0,
    pls_per_lun = 0, luns_per_ch = 0, nchs = 0, cell_mode = 0, slc_ratio = 0, slc_channels = 0,
    slc_luns_per_ch = 0, qlc_channels = 0, qlc_luns_per_ch = 0, hotness_table_size = 0,
    hot_threshold = 0, cold_threshold = 0, migration_interval = 0, max_migrations_per_check = 0,
    slc_pgs_per_blk = 0, slc_blks_per_pl = 0, slc_pgs_per_oneshotpg = 0,
    slc_oneshotpgs_per_blk = 0, qlc_pgs_per_blk = 0, qlc_blks_per_pl = 0,
    qlc_pgs_per_oneshotpg = 0, qlc_oneshotpgs_per_blk = 0, write_unit_size = 0,
    write_early_completion = False, slc_read_latency = 0, slc_write_latency = 0,
    slc_erase_latency = 0, qlc_q1_read_latency = 0, qlc_q2_read_latency = 0,
    qlc_q3_read_latency = 0, qlc_q4_read_latency = 0, qlc_write_latency = 0,
    qlc_erase_latency = 0, fw_4kb_rd_lat = 0, fw_rd_lat = 0, fw_wbuf_lat0 = 0, fw_wbuf_lat1 = 0,
    fw_ch_xfer_lat = 0, ch_bandwidth = 0, pcie_bandwidth = 0, secs_per_blk = 0, secs_per_pl = 0,
    secs_per_lun = 0, secs_per_ch = 0, tt_secs = 0, pgs_per_pl = 0, pgs_per_lun = 0,
    pgs_per_ch = 0, tt_pgs = 0, blks_per_lun = 0, blks_per_ch = 0, tt_blks = 0,
    secs_per_line = 0, pgs_per_line = 0, blks_per_line = 0, tt_lines = 0, secs_per_lun_line = 0,
    pgs_per_lun_line = 0, blks_per_lun_line = 0, tt_lun_lines = 0, pls_per_ch = 0, tt_pls = 0,
    tt_luns = 0, slc_tt_pgs = 0, slc_tt_blks = 0, slc_tt_lines = 0, slc_pgs_per_ch = 0,
    slc_blks_per_ch = 0, qlc_tt_pgs = 0, qlc_tt_blks = 0, qlc_tt_lines = 0, qlc_pgs_per_ch = 0,
    qlc_blks_per_ch = 0, write_buffer_size = 0, pg_4kb_rd_lat = (\<lambda>_. 0),
    pg_rd_lat = (\<lambda>_. 0), pg_wr_lat = 0, blk_er_lat = 0, max_ch_xfer_size = 0,
    slc_pg_wr_lat = 0, qlc_pg_wr_lat = 0, slc_blk_er_lat = 0, qlc_blk_er_lat = 0,
    slc_start_ppa = 0, slc_end_ppa = 0, qlc_start_ppa = 0, qlc_end_ppa = 0, slc_start_lpn = 0,
    slc_end_lpn = 0, qlc_start_lpn = 0, qlc_end_lpn = 0 \<rparr>"

definition tiny_params :: ssdparams where
  "tiny_params = \<lparr>
    secsz = 512, secs_per_pg = 8, pgsz = 4096, pgs_per_flashpg = 1, flashpgs_per_blk = 2,
    pgs_per_oneshotpg = 1, oneshotpgs_per_blk = 2, pgs_per_blk = 2, blks_per_pl = 4,
    pls_per_lun = 1, luns_per_ch = 1, nchs = 2, cell_mode = 0, slc_ratio = 0, slc_channels = 0,
    slc_luns_per_ch = 0, qlc_channels = 0, qlc_luns_per_ch = 0, hotness_table_size = 0,
    hot_threshold = 0, cold_threshold = 0, migration_interval = 0, max_migrations_per_check = 0,
    slc_pgs_per_blk = 0, slc_blks_per_pl = 0, slc_pgs_per_oneshotpg = 0,
    slc_oneshotpgs_per_blk = 0, qlc_pgs_per_blk = 0, qlc_blks_per_pl = 0,
    qlc_pgs_per_oneshotpg = 0, qlc_oneshotpgs_per_blk = 0, write_unit_size = 512,
    write_early_completion = True, slc_read_latency = 0, slc_write_latency = 0,
    slc_erase_latency = 0, qlc_q1_read_latency = 0, qlc_q2_read_latency = 0,
    qlc_q3_read_latency = 0, qlc_q4_read_latency = 0, qlc_write_latency = 0,
    qlc_erase_latency = 0, fw_4kb_rd_lat = 20000, fw_rd_lat = 13000, fw_wbuf_lat0 = 4000,
    fw_wbuf_lat1 = 460, fw_ch_xfer_lat = 0, ch_bandwidth = 800, pcie_bandwidth = 3360,
    secs_per_blk = 16, secs_per_pl = 64, secs_per_lun = 64, secs_per_ch = 64, tt_secs = 128,
    pgs_per_pl = 8, pgs_per_lun = 8, pgs_per_ch = 8, tt_pgs = 16, blks_per_lun = 4,
    blks_per_ch = 4, tt_blks = 8, secs_per_line = 32, pgs_per_line = 4, blks_per_line = 2,
    tt_lines = 4, secs_per_lun_line = 16, pgs_per_lun_line = 2, blks_per_lun_line = 1,
    tt_lun_lines = 1, pls_per_ch = 1, tt_pls = 2, tt_luns = 2, slc_tt_pgs = 0, slc_tt_blks = 0,
    slc_tt_lines = 0, slc_pgs_per_ch = 0, slc_blks_per_ch = 0, qlc_tt_pgs = 0, qlc_tt_blks = 0,
    qlc_tt_lines = 0, qlc_pgs_per_ch = 0, qlc_blks_per_ch = 0, write_buffer_size = 65536,
    pg_4kb_rd_lat = (\<lambda>_. 30000), pg_rd_lat = (\<lambda>_. 36000), pg_wr_lat = 200000,
    blk_er_lat = 0, max_ch_xfer_size = 16384, slc_pg_wr_lat = 0, qlc_pg_wr_lat = 0,
    slc_blk_er_lat = 0, qlc_blk_er_lat = 0, slc_start_ppa = 0, slc_end_ppa = 0,
    qlc_start_ppa = 0, qlc_end_ppa = 0, slc_start_lpn = 0, slc_end_lpn = 0, qlc_start_lpn = 0,
    qlc_end_lpn = 0 \<rparr>"

lemma tiny_calculated:
  assumes "secs_per_pg s = 8" "pgs_per_blk s = 2" "blks_per_pl s = 4" "pls_per_lun s = 1" "luns_per_ch s = 1" "nchs s = 2"
  shows "init_calculated_params s = s\<lparr>
    secs_per_blk := 16, secs_per_pl := 64, secs_per_lun := 64, secs_per_ch := 64, tt_secs := 128,
    pgs_per_pl := 8, pgs_per_lun := 8, pgs_per_ch := 8, tt_pgs := 16, blks_per_lun := 4, blks_per_ch := 4, tt_blks := 8,
    pls_per_ch := 1, tt_pls := 2, tt_luns := 2, blks_per_line := 2, pgs_per_line := 4, secs_per_line := 32, tt_lines := 4,
    blks_per_lun_line := 1, pgs_per_lun_line := 2, secs_per_lun_line := 16, tt_lun_lines := 1 \<rparr>"
  unfolding init_calculated_params_def Let_def assms by simp

lemma tiny_partition:
  "init_partition_geometry tiny_macros (init_base_params tiny_macros stack_params) 65536 1 = Some ((init_base_params tiny_macros stack_params)\<lparr>
     blks_per_pl := 4, pgs_per_oneshotpg := 1, oneshotpgs_per_blk := 2 \<rparr>, 65536)"
proof -
  have "init_block_geometry tiny_macros ((init_base_params tiny_macros stack_params)\<lparr> nchs := 2 \<rparr>) 65536
      = Some ((init_base_params tiny_macros stack_params)\<lparr> nchs := 2, blks_per_pl := 4 \<rparr>, 8192)"
    by (simp add: init_block_geometry_def init_base_params_def tiny_macros_def)
  then show ?thesis by (simp add: init_partition_geometry_def init_page_geometry_def init_base_params_def tiny_macros_def)
qed

lemma tiny_init: "ssd_init_params SAMSUNG_970PRO tiny_macros stack_params 65536 1 = Some tiny_params"
proof -
  let ?s = "init_latency_params tiny_macros ((init_base_params tiny_macros stack_params)\<lparr>
     blks_per_pl := 4, pgs_per_oneshotpg := 1, oneshotpgs_per_blk := 2 \<rparr>)"
  have "init_calculated_params ?s = tiny_params"
    by (subst tiny_calculated) (simp_all add: init_latency_params_def init_base_params_def tiny_macros_def stack_params_def tiny_params_def)
  then show ?thesis by (simp add: ssd_init_params_def init_hybrid_params_def tiny_partition init_hybrid_capacity_def del: One_nat_def)
qed

lemma tiny_params_simps [simp]:
  "nchs tiny_params = 2" "luns_per_ch tiny_params = 1" "pls_per_lun tiny_params = 1"
  "blks_per_pl tiny_params = 4" "pgs_per_blk tiny_params = 2" "pgs_per_oneshotpg tiny_params = 1"
  "oneshotpgs_per_blk tiny_params = 2" "pgsz tiny_params = 4096" "secs_per_pg tiny_params = 8"
  "secsz tiny_params = 512" "pgs_per_flashpg tiny_params = 1" "flashpgs_per_blk tiny_params = 2" "tt_luns tiny_params = 2" "tt_pgs tiny_params = 16"
  "tt_lines tiny_params = 4" "pgs_per_line tiny_params = 4" "blks_per_line tiny_params = 2"
  "pgs_per_ch tiny_params = 8" "pgs_per_lun tiny_params = 8" "pgs_per_pl tiny_params = 8"
  "ch_bandwidth tiny_params = 800" "pcie_bandwidth tiny_params = 3360"
  "max_ch_xfer_size tiny_params = 16384" "slc_read_latency tiny_params = 0"
  "pg_wr_lat tiny_params = 200000" "blk_er_lat tiny_params = 0" "write_buffer_size tiny_params = 65536"
  "fw_ch_xfer_lat tiny_params = 0" "fw_4kb_rd_lat tiny_params = 20000" "fw_rd_lat tiny_params = 13000"
  "fw_wbuf_lat0 tiny_params = 4000" "fw_wbuf_lat1 tiny_params = 460"
  "write_early_completion tiny_params = True" "write_unit_size tiny_params = 512"
  by (simp_all add: tiny_params_def)

lemma ssd_init_params_geometry_witness:
  "nchs tiny_params * 1 = NAND_CHANNELS tiny_macros \<and> geometry_ok tiny_params
    \<and> tt_lines tiny_params * pgs_per_line tiny_params = tt_pgs tiny_params"
  using ssd_init_params_geometry [OF tiny_init] by (simp add: device_pages_def int_products_fit_def)

end
