(* ===== verification/Ssd.thy ===== *)
theory Ssd
  imports Ssd_Params Channel_Model
begin

text \<open>
  The flash device (\<open>ssd.h\<close>, \<open>ssd.c\<close>): channels of LUNs of planes of blocks of pages, the
  write buffer, and the time at which a flash command completes.

  A pointer into the device (\<open>get_lun\<close>, \<open>get_blk\<close>, \<open>get_pg\<close>) is the position a \<open>ppa\<close>
  selects; assigning through it is \<open>set_lun\<close>, \<open>set_blk\<close>, \<open>set_pg\<close>. Both are \<open>None\<close> outside
  the arrays. The wall clock is read once per operation and is the argument \<open>now\<close>.
  The arrays of nested structures are filled by counted loops over all their elements; memory
  that stays uninitialised has the value \<open>junk\<close>. Memory allocation succeeds.
\<close>

section \<open>Structures\<close>

record nand_page =
  pg_sec :: "sec_status list"
  pg_nsecs :: nat
  pg_status :: page_status

record nand_block =
  blk_pg :: "nand_page list"
  blk_npgs :: nat
  blk_ipc :: nat
  blk_vpc :: nat
  blk_erase_cnt :: nat
  blk_wp :: nat

record nand_plane =
  pl_blk :: "nand_block list"
  next_pln_avail_time :: nat
  pl_nblks :: nat

record nand_lun =
  lun_pl :: "nand_plane list"
  lun_npls :: nat
  next_lun_avail_time :: nat
  lun_busy :: bool
  lun_gc_endtime :: nat

record ssd_channel =
  ch_lun :: "nand_lun list"
  ch_nluns :: nat
  ch_gc_endtime :: nat
  ch_perf_model :: channel_model

record buffer =
  buf_size :: nat
  buf_remaining :: nat

record ssd =
  ssd_sp :: ssdparams
  ssd_ch :: "ssd_channel list"
  ssd_pcie :: channel_model
  write_buffer :: buffer
  cpu_nr_dispatcher :: nat

record nand_cmd =
  nand_type :: io_type
  cmd :: nand_op
  xfer_size :: nat
  stime :: nat
  interleave_pci_dma :: bool
  nand_ppa :: ppa

section \<open>The write buffer\<close>

text \<open>The lock makes each operation atomic. The result of \<open>buffer_allocate\<close> is a \<open>uint32_t\<close>.\<close>

definition buffer_init :: "nat \<Rightarrow> buffer" where
  "buffer_init size' = \<lparr> buf_size = size', buf_remaining = size' \<rparr>"

definition buffer_allocate :: "buffer \<Rightarrow> nat \<Rightarrow> nat \<times> buffer" where
  "buffer_allocate buf size' =
     (let granted = (if buf_remaining buf < size' then 0 else size')
      in (u32 granted, buf\<lparr> buf_remaining := sub64 (buf_remaining buf) granted \<rparr>))"

definition buffer_release :: "buffer \<Rightarrow> nat \<Rightarrow> bool \<times> buffer" where
  "buffer_release buf size' = (True, buf\<lparr> buf_remaining := u64 (buf_remaining buf + size') \<rparr>)"

definition buffer_refill :: "buffer \<Rightarrow> buffer" where
  "buffer_refill buf = buf\<lparr> buf_remaining := buf_size buf \<rparr>"

section \<open>Initialisation\<close>

definition ssd_init_nand_page :: "ssdparams \<Rightarrow> nand_page" where
  "ssd_init_nand_page spp =
     \<lparr> pg_sec = replicate (secs_per_pg spp) SEC_FREE, pg_nsecs = secs_per_pg spp, pg_status = PG_FREE \<rparr>"

definition ssd_init_nand_blk :: "ssdparams \<Rightarrow> nand_block" where
  "ssd_init_nand_blk spp =
     \<lparr> blk_pg = replicate (pgs_per_blk spp) (ssd_init_nand_page spp), blk_npgs = pgs_per_blk spp,
       blk_ipc = 0, blk_vpc = 0, blk_erase_cnt = 0, blk_wp = 0 \<rparr>"

definition ssd_init_nand_plane :: "nat \<Rightarrow> ssdparams \<Rightarrow> nand_plane" where
  "ssd_init_nand_plane junk spp =
     \<lparr> pl_blk = replicate (blks_per_pl spp) (ssd_init_nand_blk spp), next_pln_avail_time = junk,
       pl_nblks = blks_per_pl spp \<rparr>"

definition ssd_init_nand_lun :: "nat \<Rightarrow> ssdparams \<Rightarrow> nand_lun" where
  "ssd_init_nand_lun junk spp =
     \<lparr> lun_pl = replicate (pls_per_lun spp) (ssd_init_nand_plane junk spp), lun_npls = pls_per_lun spp,
       next_lun_avail_time = 0, lun_busy = False, lun_gc_endtime = junk \<rparr>"

definition ssd_init_ch :: "nat \<Rightarrow> ssdparams \<Rightarrow> ssd_channel option" where
  "ssd_init_ch junk spp = do {
     perf \<leftarrow> chmodel_init (ch_bandwidth spp);
     let overhead = u64 (fw_ch_xfer_lat spp * UNIT_XFER_SIZE) div KB 4;
     Some \<lparr> ch_lun = replicate (luns_per_ch spp) (ssd_init_nand_lun junk spp), ch_nluns = luns_per_ch spp,
            ch_gc_endtime = junk, ch_perf_model = perf\<lparr> xfer_lat := u32 (xfer_lat perf + overhead) \<rparr> \<rparr>
   }"

definition ssd_init_pcie :: "ssdparams \<Rightarrow> channel_model option" where
  "ssd_init_pcie spp = chmodel_init (pcie_bandwidth spp)"

definition ssd_init :: "nat \<Rightarrow> ssdparams \<Rightarrow> nat \<Rightarrow> ssd option" where
  "ssd_init junk spp cpu = do {
     chs \<leftarrow> foldM (\<lambda>_ chs. do { ch \<leftarrow> ssd_init_ch junk spp; Some (chs @ [ch]) }) [0..<nchs spp] [];
     pcie \<leftarrow> ssd_init_pcie spp;
     Some \<lparr> ssd_sp = spp, ssd_ch = chs, ssd_pcie = pcie,
            write_buffer = buffer_init (write_buffer_size spp), cpu_nr_dispatcher = cpu \<rparr>
   }"

section \<open>Pointers into the device\<close>

definition get_ch :: "ssd \<Rightarrow> ppa \<Rightarrow> ssd_channel option" where
  "get_ch s p = arr_get (ssd_ch s) (g_ch p)"

definition get_lun :: "ssd \<Rightarrow> ppa \<Rightarrow> nand_lun option" where
  "get_lun s p = do { ch \<leftarrow> get_ch s p; arr_get (ch_lun ch) (g_lun p) }"

definition get_pl :: "ssd \<Rightarrow> ppa \<Rightarrow> nand_plane option" where
  "get_pl s p = do { lun \<leftarrow> get_lun s p; arr_get (lun_pl lun) (g_pl p) }"

definition get_blk :: "ssd \<Rightarrow> ppa \<Rightarrow> nand_block option" where
  "get_blk s p = do { pl \<leftarrow> get_pl s p; arr_get (pl_blk pl) (g_blk p) }"

definition get_pg :: "ssd \<Rightarrow> ppa \<Rightarrow> nand_page option" where
  "get_pg s p = do { blk \<leftarrow> get_blk s p; arr_get (blk_pg blk) (g_pg p) }"

definition set_ch :: "ssd \<Rightarrow> ppa \<Rightarrow> ssd_channel \<Rightarrow> ssd option" where
  "set_ch s p c = do { chs \<leftarrow> arr_set (ssd_ch s) (g_ch p) c; Some (s\<lparr> ssd_ch := chs \<rparr>) }"

definition set_lun :: "ssd \<Rightarrow> ppa \<Rightarrow> nand_lun \<Rightarrow> ssd option" where
  "set_lun s p l = do {
     ch \<leftarrow> get_ch s p; luns \<leftarrow> arr_set (ch_lun ch) (g_lun p) l; set_ch s p (ch\<lparr> ch_lun := luns \<rparr>) }"

definition set_pl :: "ssd \<Rightarrow> ppa \<Rightarrow> nand_plane \<Rightarrow> ssd option" where
  "set_pl s p pl = do {
     lun \<leftarrow> get_lun s p; pls \<leftarrow> arr_set (lun_pl lun) (g_pl p) pl; set_lun s p (lun\<lparr> lun_pl := pls \<rparr>) }"

definition set_blk :: "ssd \<Rightarrow> ppa \<Rightarrow> nand_block \<Rightarrow> ssd option" where
  "set_blk s p b = do {
     pl \<leftarrow> get_pl s p; blks \<leftarrow> arr_set (pl_blk pl) (g_blk p) b; set_pl s p (pl\<lparr> pl_blk := blks \<rparr>) }"

definition set_pg :: "ssd \<Rightarrow> ppa \<Rightarrow> nand_page \<Rightarrow> ssd option" where
  "set_pg s p pg = do {
     blk \<leftarrow> get_blk s p; pgs \<leftarrow> arr_set (blk_pg blk) (g_pg p) pg; set_blk s p (blk\<lparr> blk_pg := pgs \<rparr>) }"

section \<open>Storage types\<close>

definition get_storage_type :: "base_ssd \<Rightarrow> ssd \<Rightarrow> ppa \<Rightarrow> storage_type" where
  "get_storage_type b s p =
     (if b = HYBRID_SSD then
        (if unat p < slc_tt_pgs (ssd_sp s) then STORAGE_TYPE_SLC else STORAGE_TYPE_QLC)
      else STORAGE_TYPE_SLC)"

definition get_storage_type_from_lpn :: "base_ssd \<Rightarrow> ssd \<Rightarrow> nat \<Rightarrow> storage_type" where
  "get_storage_type_from_lpn b s lpn =
     (if b = HYBRID_SSD then
        (if lpn < slc_tt_pgs (ssd_sp s) then STORAGE_TYPE_SLC else STORAGE_TYPE_QLC)
      else STORAGE_TYPE_SLC)"

definition get_qlc_region :: "base_ssd \<Rightarrow> ssd \<Rightarrow> ppa \<Rightarrow> nat" where
  "get_qlc_region b s p =
     (if b = HYBRID_SSD then
        (let off = sub64 (unat p) (slc_tt_pgs (ssd_sp s));
             region_size = qlc_tt_pgs (ssd_sp s) div 4
         in if off < region_size then 0
            else if off < u64 (region_size * 2) then 1
            else if off < u64 (region_size * 3) then 2
            else 3)
      else 0)"

section \<open>Time\<close>

definition ssd_advance_pcie :: "nat \<Rightarrow> ssd \<Rightarrow> nat \<Rightarrow> nat \<Rightarrow> (nat \<times> ssd) option" where
  "ssd_advance_pcie now s request_time len = do {
     (t, ch) \<leftarrow> chmodel_request now request_time len (ssd_pcie s);
     Some (t, s\<lparr> ssd_pcie := ch \<rparr>)
   }"

definition ssd_advance_write_buffer :: "nat \<Rightarrow> ssd \<Rightarrow> nat \<Rightarrow> nat \<Rightarrow> (nat \<times> ssd) option" where
  "ssd_advance_write_buffer now s request_time len =
     (let spp = ssd_sp s;
          t = u64 (request_time + fw_wbuf_lat0 spp);
          t = u64 (t + fw_wbuf_lat1 spp * div_round_up len (KB 4))
      in ssd_advance_pcie now s t len)"

text \<open>The data transfer of a read, in pieces of at most \<open>max_ch_xfer_size\<close> bytes.
  The result is \<open>chnl_etime\<close> and \<open>completed_time\<close>, \<open>None\<close> inside while they are not assigned.\<close>

partial_function (option) read_xfer ::
  "nat \<Rightarrow> ppa \<Rightarrow> bool \<Rightarrow> nat \<Rightarrow> nat \<Rightarrow> (nat \<times> nat) option \<Rightarrow> ssd \<Rightarrow> ((nat \<times> nat) option \<times> ssd) option" where
  "read_xfer now p interleave remaining chnl_stime etimes s =
     (if remaining \<noteq> 0 then
        Option.bind (get_ch s p) (\<lambda>ch.
        (let xfer = min remaining (max_ch_xfer_size (ssd_sp s))
         in Option.bind (chmodel_request now chnl_stime xfer (ch_perf_model ch)) (\<lambda>(chnl_etime, perf).
            Option.bind (set_ch s p (ch\<lparr> ch_perf_model := perf \<rparr>)) (\<lambda>s.
            Option.bind (if interleave then ssd_advance_pcie now s chnl_etime xfer
                         else Some (chnl_etime, s)) (\<lambda>(completed, s).
            read_xfer now p interleave (remaining - xfer) chnl_etime (Some (chnl_etime, completed)) s)))))
      else Some (etimes, s))"

definition read_latency :: "base_ssd \<Rightarrow> ssd \<Rightarrow> ppa \<Rightarrow> nat" where
  "read_latency b s p =
     (let spp = ssd_sp s
      in if b = HYBRID_SSD then
           (case get_storage_type b s p of
              STORAGE_TYPE_SLC \<Rightarrow> slc_read_latency spp
            | STORAGE_TYPE_QLC \<Rightarrow>
                (let region = get_qlc_region b s p
                 in if region = 0 then qlc_q1_read_latency spp
                    else if region = 1 then qlc_q2_read_latency spp
                    else if region = 2 then qlc_q3_read_latency spp
                    else if region = 3 then qlc_q4_read_latency spp
                    else qlc_q1_read_latency spp))
         else slc_read_latency spp)"

definition write_latency :: "base_ssd \<Rightarrow> ssd \<Rightarrow> ppa \<Rightarrow> nat" where
  "write_latency b s p =
     (if b = HYBRID_SSD then
        (case get_storage_type b s p of
           STORAGE_TYPE_SLC \<Rightarrow> slc_pg_wr_lat (ssd_sp s) | STORAGE_TYPE_QLC \<Rightarrow> qlc_pg_wr_lat (ssd_sp s))
      else pg_wr_lat (ssd_sp s))"

definition erase_latency :: "base_ssd \<Rightarrow> ssd \<Rightarrow> ppa \<Rightarrow> nat" where
  "erase_latency b s p =
     (if b = HYBRID_SSD then
        (case get_storage_type b s p of
           STORAGE_TYPE_SLC \<Rightarrow> slc_blk_er_lat (ssd_sp s) | STORAGE_TYPE_QLC \<Rightarrow> qlc_blk_er_lat (ssd_sp s))
      else blk_er_lat (ssd_sp s))"

definition set_lun_avail :: "ssd \<Rightarrow> ppa \<Rightarrow> nat \<Rightarrow> ssd option" where
  "set_lun_avail s p t = do { lun \<leftarrow> get_lun s p; set_lun s p (lun\<lparr> next_lun_avail_time := t \<rparr>) }"

definition ssd_advance_nand :: "base_ssd \<Rightarrow> nat \<Rightarrow> ssd \<Rightarrow> nand_cmd \<Rightarrow> (nat \<times> ssd) option" where
  "ssd_advance_nand b now s ncmd =
     (let p = nand_ppa ncmd;
          cmd_stime = (if stime ncmd = 0 then now else stime ncmd)
      in if p = UNMAPPED_PPA then Some (cmd_stime, s)
         else do {
           lun \<leftarrow> get_lun s p;
           ch \<leftarrow> get_ch s p;
           let start = max (next_lun_avail_time lun) cmd_stime;
           (case cmd ncmd of
              NAND_READ \<Rightarrow> do {
                let nand_etime = u64 (start + read_latency b s p);
                (etimes, s) \<leftarrow> read_xfer now p (interleave_pci_dma ncmd) (xfer_size ncmd) nand_etime None s;
                (chnl_etime, completed_time) \<leftarrow> etimes;
                s \<leftarrow> set_lun_avail s p chnl_etime;
                Some (completed_time, s)
              }
            | NAND_WRITE \<Rightarrow> do {
                (chnl_etime, perf) \<leftarrow> chmodel_request now start (xfer_size ncmd) (ch_perf_model ch);
                s \<leftarrow> set_ch s p (ch\<lparr> ch_perf_model := perf \<rparr>);
                let nand_etime = u64 (chnl_etime + write_latency b s p);
                s \<leftarrow> set_lun_avail s p nand_etime;
                Some (nand_etime, s)
              }
            | NAND_ERASE \<Rightarrow> do {
                let nand_etime = u64 (start + erase_latency b s p);
                s \<leftarrow> set_lun_avail s p nand_etime;
                Some (nand_etime, s)
              }
            | NAND_NOP \<Rightarrow> do {
                s \<leftarrow> set_lun_avail s p start;
                Some (start, s)
              }
            | NAND_OTHER _ \<Rightarrow> Some (0, s))
         })"

definition ssd_next_idle_time :: "nat \<Rightarrow> ssd \<Rightarrow> nat option" where
  "ssd_next_idle_time now s =
     foldM (\<lambda>i latest. do {
       ch \<leftarrow> arr_get (ssd_ch s) i;
       foldM (\<lambda>j latest. do {
         lun \<leftarrow> arr_get (ch_lun ch) j;
         Some (max latest (next_lun_avail_time lun))
       }) [0..<luns_per_ch (ssd_sp s)] latest
     }) [0..<nchs (ssd_sp s)] now"

section \<open>Cells of the device, as an interface\<close>

text \<open>
  LUNs, blocks and pages are cells selected by a \<open>ppa\<close>; \<open>key\<close> says when two addresses select
  the same cell. Storing through an address that can be read succeeds, and changes that cell only.
\<close>

locale cell_store =
  fixes get :: "'s \<Rightarrow> 'a \<Rightarrow> 'c option" and put :: "'s \<Rightarrow> 'a \<Rightarrow> 'c \<Rightarrow> 's option" and key :: "'a \<Rightarrow> 'k"
  assumes put_defined: "get s p = Some c \<Longrightarrow> \<exists>s'. put s p v = Some s'"
    and put_get: "put s p v = Some s' \<Longrightarrow> get s' q = (if key q = key p then Some v else get s q)"
    and put_was: "put s p v = Some s' \<Longrightarrow> \<exists>c. get s p = Some c"
    and get_key: "key q = key p \<Longrightarrow> get s q = get s p"
begin

lemma put_same: "put s p v = Some s' \<Longrightarrow> get s' p = Some v"
  by (simp add: put_get)

lemma put_other: "put s p v = Some s' \<Longrightarrow> key q \<noteq> key p \<Longrightarrow> get s' q = get s q"
  by (simp add: put_get)

lemma put_keeps_domain: "put s p v = Some s' \<Longrightarrow> get s' q = None \<longleftrightarrow> get s q = None"
  using put_get [of s p v s' q] put_was [of s p v s'] get_key [of q p s] by auto

lemma put_all:
  assumes "put s p v = Some s'" and "P v" and "\<And>q c. get s q = Some c \<Longrightarrow> P c" and "get s' q = Some c"
  shows "P c"
  using put_get [OF assms(1), of q] assms(2-4) by (auto split: if_splits)

lemma put_map:
  assumes "put s p v = Some s'" and "get s p = Some c" and "f v = f c"
  shows "map_option f (get s' q) = map_option f (get s q)"
  using put_get [OF assms(1), of q] get_key [of q p s] assms(2,3) by simp

end

definition ch_key :: "ppa \<Rightarrow> nat" where "ch_key p = g_ch p"
definition lun_key :: "ppa \<Rightarrow> nat \<times> nat" where "lun_key p = (g_ch p, g_lun p)"
definition pl_key :: "ppa \<Rightarrow> nat \<times> nat \<times> nat" where "pl_key p = (g_ch p, g_lun p, g_pl p)"
definition blk_key :: "ppa \<Rightarrow> nat \<times> nat \<times> nat \<times> nat" where
  "blk_key p = (g_ch p, g_lun p, g_pl p, g_blk p)"
definition pg_key :: "ppa \<Rightarrow> nat \<times> nat \<times> nat \<times> nat \<times> nat" where
  "pg_key p = (g_ch p, g_lun p, g_pl p, g_blk p, g_pg p)"

lemmas cell_keys = ch_key_def lun_key_def pl_key_def blk_key_def pg_key_def

interpretation ch_cells: cell_store get_ch set_ch ch_key
  by unfold_locales (auto simp: get_ch_def set_ch_def ch_key_def fault_simps arr_get_def split: if_splits)

text \<open>A level of the hierarchy inherits the laws from the level above it.\<close>

lemma nested_cell_store:
  assumes outer: "cell_store get put key"
    and get': "\<And>s p. get' s p = Option.bind (get s p) (\<lambda>c. arr_get (items c) (idx p))"
    and put': "\<And>s p v. put' s p v = Option.bind (get s p) (\<lambda>c. Option.bind (arr_set (items c) (idx p) v)
                 (\<lambda>xs. put s p (upd c xs)))"
    and items: "\<And>c xs. items (upd c xs) = xs"
    and key': "\<And>p q. key' p = key' q \<longleftrightarrow> key p = key q \<and> idx p = idx q"
  shows "cell_store get' put' key'"
proof -
  note o = cell_store.put_defined [OF outer] cell_store.put_get [OF outer]
    cell_store.put_was [OF outer] cell_store.get_key [OF outer]
  show ?thesis
  proof
    fix s p c v
    assume "get' s p = Some c"
    then obtain c0 where c0: "get s p = Some c0" and len: "idx p < length (items c0)"
      by (auto simp: get' fault_simps)
    with o(1) [OF c0] show "\<exists>s'. put' s p v = Some s'" by (simp add: put')
  next
    fix s p v s'
    assume "put' s p v = Some s'"
    then show "\<exists>c. get' s p = Some c"
      by (auto simp: get' put' fault_simps)
  next
    fix s p q
    assume "key' q = key' p"
    then have k: "key q = key p" and i: "idx q = idx p" by (simp_all add: key')
    show "get' s q = get' s p" unfolding get' i o(4) [OF k] ..
  next
    fix s p q v s'
    assume "put' s p v = Some s'"
    then obtain c where c: "get s p = Some c" and len: "idx p < length (items c)"
      and s': "put s p (upd c ((items c)[idx p := v])) = Some s'"
      by (auto simp: put' fault_simps)
    show "get' s' q = (if key' q = key' p then Some v else get' s q)"
    proof (cases "key q = key p")
      case True
      with o(4) c have "get s q = Some c" by metis
      with True o(2) [OF s', of q] len show ?thesis
        by (auto simp: get' key' items arr_get_def)
    next
      case False
      with o(2) [OF s', of q] show ?thesis by (simp add: get' key')
    qed
  qed
qed

interpretation lun_cells: cell_store get_lun set_lun lun_key
  by (rule nested_cell_store [OF ch_cells.cell_store_axioms, where items = ch_lun and idx = g_lun
        and upd = "\<lambda>c xs. c\<lparr> ch_lun := xs \<rparr>"])
    (auto simp: get_lun_def set_lun_def cell_keys)

interpretation pl_cells: cell_store get_pl set_pl pl_key
  by (rule nested_cell_store [OF lun_cells.cell_store_axioms, where items = lun_pl and idx = g_pl
        and upd = "\<lambda>c xs. c\<lparr> lun_pl := xs \<rparr>"])
    (auto simp: get_pl_def set_pl_def cell_keys)

interpretation blk_cells: cell_store get_blk set_blk blk_key
  by (rule nested_cell_store [OF pl_cells.cell_store_axioms, where items = pl_blk and idx = g_blk
        and upd = "\<lambda>c xs. c\<lparr> pl_blk := xs \<rparr>"])
    (auto simp: get_blk_def set_blk_def cell_keys)

interpretation pg_cells: cell_store get_pg set_pg pg_key
  by (rule nested_cell_store [OF blk_cells.cell_store_axioms, where items = blk_pg and idx = g_pg
        and upd = "\<lambda>c xs. c\<lparr> blk_pg := xs \<rparr>"])
    (auto simp: get_pg_def set_pg_def cell_keys)

section \<open>What the time functions leave alone\<close>

text \<open>
  \<open>flash_data\<close> is the part of the device that holds data: planes, blocks, pages. The time
  functions change LUN availability, channels and the PCIe link only.
\<close>

definition flash_data :: "ssd \<Rightarrow> nand_plane list list list" where
  "flash_data s = map (\<lambda>c. map lun_pl (ch_lun c)) (ssd_ch s)"

definition same_data :: "ssd \<Rightarrow> ssd \<Rightarrow> bool" where
  "same_data s s' \<longleftrightarrow> flash_data s' = flash_data s \<and> ssd_sp s' = ssd_sp s \<and> write_buffer s' = write_buffer s"

lemma same_data_refl [simp]: "same_data s s"
  by (simp add: same_data_def)

lemma same_data_trans: "same_data s s' \<Longrightarrow> same_data s' s'' \<Longrightarrow> same_data s s''"
  by (simp add: same_data_def)

lemma get_pl_flash_data:
  "get_pl s p = do { luns \<leftarrow> arr_get (flash_data s) (g_ch p); pls \<leftarrow> arr_get luns (g_lun p); arr_get pls (g_pl p) }"
  by (auto simp: get_pl_def get_lun_def get_ch_def flash_data_def arr_get_def)

lemma same_data_get:
  assumes "same_data s s'"
  shows "get_pl s' p = get_pl s p" and "get_blk s' p = get_blk s p" and "get_pg s' p = get_pg s p"
    and "ssd_sp s' = ssd_sp s" and "write_buffer s' = write_buffer s"
  using assms by (simp_all add: same_data_def get_pl_flash_data get_blk_def get_pg_def)

lemma same_data_lun:
  assumes "same_data s s'"
  shows "get_lun s' p = None \<longleftrightarrow> get_lun s p = None"
proof -
  have "get_lun s p = None \<longleftrightarrow>
      (do { luns \<leftarrow> arr_get (flash_data s) (g_ch p); arr_get luns (g_lun p) }) = None" for s
    by (auto simp: get_lun_def get_ch_def flash_data_def arr_get_def)
  with assms show ?thesis by (simp add: same_data_def)
qed

lemma set_ch_same_data:
  assumes "set_ch s p c = Some s'" and "get_ch s p = Some c0" and "map lun_pl (ch_lun c) = map lun_pl (ch_lun c0)"
  shows "same_data s s'"
  using assms by (auto simp: set_ch_def get_ch_def fault_simps same_data_def flash_data_def intro!: map_update_same)

lemma set_lun_same_data:
  assumes "set_lun s p l = Some s'" and "get_lun s p = Some l0" and "lun_pl l = lun_pl l0"
  shows "same_data s s'"
proof -
  from assms(1,2) obtain c where c: "get_ch s p = Some c" "g_lun p < length (ch_lun c)" "l0 = ch_lun c ! g_lun p"
    and s': "set_ch s p (c\<lparr> ch_lun := (ch_lun c)[g_lun p := l] \<rparr>) = Some s'"
    by (auto simp: set_lun_def get_lun_def fault_simps)
  from s' c(1) show ?thesis
    by (rule set_ch_same_data) (use c assms(3) in \<open>auto intro!: map_update_same\<close>)
qed

lemma set_lun_avail_same_data: "set_lun_avail s p t = Some s' \<Longrightarrow> same_data s s'"
  by (auto simp: set_lun_avail_def fault_simps intro: set_lun_same_data)

section \<open>Usable devices\<close>

text \<open>Every channel and the PCIe link can serve requests.\<close>

definition ssd_usable :: "ssd \<Rightarrow> bool" where
  "ssd_usable s \<longleftrightarrow> ch_usable (ssd_pcie s) \<and> (\<forall>c \<in> set (ssd_ch s). ch_usable (ch_perf_model c))"

lemma ssd_usable_get_ch: "ssd_usable s \<Longrightarrow> get_ch s p = Some c \<Longrightarrow> ch_usable (ch_perf_model c)"
  by (auto simp: ssd_usable_def get_ch_def)

lemma ssd_usable_set_ch:
  "ssd_usable s \<Longrightarrow> set_ch s p c = Some s' \<Longrightarrow> ch_usable (ch_perf_model c) \<Longrightarrow> ssd_usable s'"
  by (auto simp: ssd_usable_def set_ch_def fault_simps dest!: set_update_subset_insert [THEN subsetD])

lemma ssd_usable_set_lun:
  assumes "ssd_usable s" and "set_lun s p l = Some s'"
  shows "ssd_usable s'"
proof -
  from assms(2) obtain c where c: "get_ch s p = Some c"
    and s': "set_ch s p (c\<lparr> ch_lun := (ch_lun c)[g_lun p := l] \<rparr>) = Some s'"
    by (auto simp: set_lun_def fault_simps)
  show ?thesis
    by (rule ssd_usable_set_ch [OF assms(1) s']) (simp add: ssd_usable_get_ch [OF assms(1) c])
qed

lemma set_lun_avail_ok:
  assumes "get_lun s p = Some l" and "ssd_usable s"
  shows "\<exists>s'. set_lun_avail s p t = Some s' \<and> ssd_usable s' \<and> same_data s s'
    \<and> (\<forall>q. get_lun s' q = (if lun_key q = lun_key p then Some (l\<lparr> next_lun_avail_time := t \<rparr>) else get_lun s q))"
proof -
  obtain s' where s': "set_lun s p (l\<lparr> next_lun_avail_time := t \<rparr>) = Some s'"
    using lun_cells.put_defined [OF assms(1)] by blast
  then have av: "set_lun_avail s p t = Some s'" using assms(1) by (simp add: set_lun_avail_def)
  with s' show ?thesis
    using lun_cells.put_get [OF s'] ssd_usable_set_lun [OF assms(2) s'] set_lun_avail_same_data [OF av] by auto
qed

lemma advance_pcie_ok:
  assumes "ssd_usable s"
  shows "\<exists>t s'. ssd_advance_pcie now s request_time len = Some (t, s') \<and> ssd_usable s' \<and> same_data s s'
    \<and> ssd_ch s' = ssd_ch s \<and> t \<le> request_time + XFER_MAX
    \<and> (request_time + XFER_MAX < 2 ^ 64 \<longrightarrow> request_time \<le> t)"
proof -
  have "ch_usable (ssd_pcie s)" using assms by (simp add: ssd_usable_def)
  from chmodel_request_usable [OF this, of now request_time len] assms show ?thesis
    by (auto simp: ssd_advance_pcie_def ssd_usable_def same_data_def flash_data_def)
qed

lemma request_on_channel_ok:
  assumes "ssd_usable s" and "get_ch s p = Some ch"
  shows "\<exists>t perf s'. chmodel_request now request_time len (ch_perf_model ch) = Some (t, perf)
    \<and> set_ch s p (ch\<lparr> ch_perf_model := perf \<rparr>) = Some s' \<and> ssd_usable s' \<and> same_data s s'
    \<and> (\<forall>q. get_lun s' q = get_lun s q) \<and> t \<le> request_time + XFER_MAX
    \<and> (request_time + XFER_MAX < 2 ^ 64 \<longrightarrow> request_time \<le> t)"
proof -
  obtain t perf where req: "chmodel_request now request_time len (ch_perf_model ch) = Some (t, perf)"
    and ok: "ch_usable perf" "t \<le> request_time + XFER_MAX" "request_time + XFER_MAX < 2 ^ 64 \<longrightarrow> request_time \<le> t"
    using chmodel_request_usable [OF ssd_usable_get_ch [OF assms], of now request_time len]
    by (elim exE conjE) (rule that)
  let ?c = "ch\<lparr> ch_perf_model := perf \<rparr>"
  obtain s' where s': "set_ch s p ?c = Some s'" using ch_cells.put_defined [OF assms(2)] by blast
  have "get_lun s' q = get_lun s q" for q
    using ch_cells.put_get [OF s', of q] ch_cells.get_key [of q p s] assms(2) by (simp add: get_lun_def)
  moreover have "ssd_usable s'" using ssd_usable_set_ch [OF assms(1) s'] ok by simp
  moreover have "same_data s s'" using set_ch_same_data [OF s' assms(2)] by simp
  ultimately show ?thesis using req s' ok by blast
qed

section \<open>A flash command\<close>

lemma read_xfer_ok:
  assumes "ssd_usable s" and "get_lun s p = Some l" and "0 < max_ch_xfer_size (ssd_sp s)"
  shows "\<exists>et s'. read_xfer now p il r st et0 s = Some (et, s') \<and> ssd_usable s' \<and> same_data s s'
    \<and> (\<forall>q. get_lun s' q = get_lun s q) \<and> (r = 0 \<longrightarrow> et = et0)
    \<and> (0 < r \<longrightarrow> (\<exists>e c. et = Some (e, c)
         \<and> (st + r * XFER_MAX + XFER_MAX < 2 ^ 64 \<longrightarrow> st \<le> e \<and> e \<le> c)))"
  using assms
proof (induction r arbitrary: st et0 s rule: less_induct)
  case (less r)
  show ?case
  proof (cases "r = 0")
    case True
    with less.prems show ?thesis by (simp add: read_xfer.simps)
  next
    case False
    let ?x = "min r (max_ch_xfer_size (ssd_sp s))"
    from less.prems(2) obtain ch where ch: "get_ch s p = Some ch" by (auto simp: get_lun_def fault_simps)
    from request_on_channel_ok [OF less.prems(1) ch, of now st ?x]
    obtain e perf s1 where req: "chmodel_request now st ?x (ch_perf_model ch) = Some (e, perf)"
      and s1: "set_ch s p (ch\<lparr> ch_perf_model := perf \<rparr>) = Some s1"
      and u1: "ssd_usable s1" and d1: "same_data s s1" and l1: "\<forall>q. get_lun s1 q = get_lun s q"
      and e: "e \<le> st + XFER_MAX" "st + XFER_MAX < 2 ^ 64 \<longrightarrow> st \<le> e"
      by blast
    have "\<exists>c s2. (if il then ssd_advance_pcie now s1 e ?x else Some (e, s1)) = Some (c, s2)
        \<and> ssd_usable s2 \<and> same_data s1 s2 \<and> ssd_ch s2 = ssd_ch s1 \<and> (e + XFER_MAX < 2 ^ 64 \<longrightarrow> e \<le> c)"
      using advance_pcie_ok [OF u1, of now e ?x] u1 by (cases il) auto
    then obtain c s2 where pcie: "(if il then ssd_advance_pcie now s1 e ?x else Some (e, s1)) = Some (c, s2)"
      and u2: "ssd_usable s2" and d2: "same_data s1 s2" and ch2: "ssd_ch s2 = ssd_ch s1"
      and c: "e + XFER_MAX < 2 ^ 64 \<longrightarrow> e \<le> c" by blast
    have l2: "get_lun s2 q = get_lun s q" for q
      using l1 ch2 by (simp add: get_lun_def get_ch_def)
    have d: "same_data s s2" using d1 d2 by (rule same_data_trans)
    have sp: "ssd_sp s2 = ssd_sp s" using d by (simp add: same_data_def)
    have smaller: "r - ?x < r" using False less.prems(3) by simp
    have step: "read_xfer now p il r st et0 s = read_xfer now p il (r - ?x) e (Some (e, c)) s2"
      using False ch req s1 pcie by (simp add: read_xfer.simps [of _ _ _ r] Let_def)
    from less.IH [OF smaller u2 l2 [THEN trans, OF less.prems(2)] less.prems(3) [folded sp], of e "Some (e, c)"]
    obtain et s' where rest: "read_xfer now p il (r - ?x) e (Some (e, c)) s2 = Some (et, s')"
      and u: "ssd_usable s'" and d': "same_data s2 s'" and l': "\<forall>q. get_lun s' q = get_lun s2 q"
      and et0: "r - ?x = 0 \<longrightarrow> et = Some (e, c)"
      and etn: "0 < r - ?x \<longrightarrow> (\<exists>e' c'. et = Some (e', c')
         \<and> (e + (r - ?x) * XFER_MAX + XFER_MAX < 2 ^ 64 \<longrightarrow> e \<le> e' \<and> e' \<le> c'))"
      by (elim exE conjE) (rule that; assumption)
    have room: "e + (r - ?x) * XFER_MAX + XFER_MAX < 2 ^ 64" "e + XFER_MAX < 2 ^ 64" "st + XFER_MAX < 2 ^ 64"
      if b: "st + r * XFER_MAX + XFER_MAX < 2 ^ 64"
    proof -
      have x1: "1 \<le> ?x" using False less.prems(3) by simp
      then have "(r - ?x) * XFER_MAX + XFER_MAX \<le> r * XFER_MAX"
        by (metis add.commute diff_add le_add_diff_inverse2 min.cobounded1 mult.commute mult_Suc_right mult_le_mono2 plus_1_eq_Suc add_le_cancel_left)
      with b e show "e + (r - ?x) * XFER_MAX + XFER_MAX < 2 ^ 64" "e + XFER_MAX < 2 ^ 64" "st + XFER_MAX < 2 ^ 64"
        by linarith+
    qed
    have "\<exists>e' c'. et = Some (e', c') \<and> (st + r * XFER_MAX + XFER_MAX < 2 ^ 64 \<longrightarrow> st \<le> e' \<and> e' \<le> c')"
    proof (cases "r - ?x = 0")
      case True
      with et0 c e room show ?thesis by auto
    next
      case False
      with etn obtain e' c' where et: "et = Some (e', c')"
        and ec: "e + (r - ?x) * XFER_MAX + XFER_MAX < 2 ^ 64 \<longrightarrow> e \<le> e' \<and> e' \<le> c'" by blast
      have "st \<le> e' \<and> e' \<le> c'" if "st + r * XFER_MAX + XFER_MAX < 2 ^ 64"
        using room [OF that] ec e by linarith
      with et show ?thesis by blast
    qed
    moreover have "same_data s s'" using d d' by (rule same_data_trans)
    ultimately show ?thesis
      using step rest u l' l2 False by auto
  qed
qed

definition command_start :: "nat \<Rightarrow> nand_lun \<Rightarrow> nand_cmd \<Rightarrow> nat" where
  "command_start now lun ncmd = max (next_lun_avail_time lun) (if stime ncmd = 0 then now else stime ncmd)"

definition command_latency :: "base_ssd \<Rightarrow> ssd \<Rightarrow> nand_cmd \<Rightarrow> nat" where
  "command_latency b s ncmd = (case cmd ncmd of
     NAND_READ \<Rightarrow> read_latency b s (nand_ppa ncmd) | NAND_WRITE \<Rightarrow> write_latency b s (nand_ppa ncmd)
   | NAND_ERASE \<Rightarrow> erase_latency b s (nand_ppa ncmd) | NAND_NOP \<Rightarrow> 0 | NAND_OTHER _ \<Rightarrow> 0)"

text \<open>The commands the driver issues: a known operation on a mapped address, reads not empty.\<close>

definition command_ok :: "ssd \<Rightarrow> nand_cmd \<Rightarrow> bool" where
  "command_ok s ncmd \<longleftrightarrow> nand_ppa ncmd \<noteq> UNMAPPED_PPA \<and> (\<forall>n. cmd ncmd \<noteq> NAND_OTHER n)
     \<and> (cmd ncmd = NAND_READ \<longrightarrow> 0 < xfer_size ncmd \<and> 0 < max_ch_xfer_size (ssd_sp s))"

definition far_from_wrap :: "nat \<Rightarrow> nat \<Rightarrow> nat \<Rightarrow> bool" where
  "far_from_wrap start lat len \<longleftrightarrow> start + lat + len * XFER_MAX + 2 * XFER_MAX < 2 ^ 64"

lemma ssd_advance_nand_ok:
  assumes u: "ssd_usable s" and l: "get_lun s (nand_ppa ncmd) = Some lun" and ok: "command_ok s ncmd"
  shows "\<exists>t s' lun'. ssd_advance_nand b now s ncmd = Some (t, s') \<and> ssd_usable s' \<and> same_data s s'
    \<and> get_lun s' (nand_ppa ncmd) = Some lun'
    \<and> (\<forall>q. lun_key q \<noteq> lun_key (nand_ppa ncmd) \<longrightarrow> get_lun s' q = get_lun s q)
    \<and> (far_from_wrap (command_start now lun ncmd) (command_latency b s ncmd) (xfer_size ncmd) \<longrightarrow>
         command_start now lun ncmd + command_latency b s ncmd \<le> next_lun_avail_time lun'
         \<and> next_lun_avail_time lun' \<le> t)"
proof -
  let ?p = "nand_ppa ncmd" and ?st = "command_start now lun ncmd"
  have mapped: "?p \<noteq> UNMAPPED_PPA" using ok by (simp add: command_ok_def)
  from l obtain ch where ch: "get_ch s ?p = Some ch" by (auto simp: get_lun_def fault_simps)
  show ?thesis
  proof (cases "cmd ncmd")
    case NAND_READ
    let ?lat = "read_latency b s ?p" and ?n = "u64 (?st + read_latency b s ?p)"
    have r: "0 < xfer_size ncmd" "0 < max_ch_xfer_size (ssd_sp s)" using ok NAND_READ by (auto simp: command_ok_def)
    from read_xfer_ok [OF u l r(2), of now "interleave_pci_dma ncmd" "xfer_size ncmd" ?n None] r(1)
    obtain e c s1 where x: "read_xfer now ?p (interleave_pci_dma ncmd) (xfer_size ncmd) ?n None s = Some (Some (e, c), s1)"
      and u1: "ssd_usable s1" and d1: "same_data s s1" and l1: "\<forall>q. get_lun s1 q = get_lun s q"
      and ec: "?n + xfer_size ncmd * XFER_MAX + XFER_MAX < 2 ^ 64 \<longrightarrow> ?n \<le> e \<and> e \<le> c" by auto
    from set_lun_avail_ok [OF _ u1, of ?p lun e] l l1 obtain s' where
      s': "set_lun_avail s1 ?p e = Some s'" "ssd_usable s'" "same_data s1 s'"
      "\<forall>q. get_lun s' q = (if lun_key q = lun_key ?p then Some (lun\<lparr> next_lun_avail_time := e \<rparr>) else get_lun s1 q)"
      by auto
    have "ssd_advance_nand b now s ncmd = Some (c, s')"
      using NAND_READ mapped l ch x s'(1) by (simp add: ssd_advance_nand_def Let_def command_start_def)
    moreover have "?st + ?lat \<le> e \<and> e \<le> c" if "far_from_wrap ?st ?lat (xfer_size ncmd)"
      using ec that by (simp add: far_from_wrap_def)
    ultimately show ?thesis
      using s' d1 l1 NAND_READ by (auto simp: command_latency_def intro: same_data_trans)
  next
    case NAND_WRITE
    let ?lat = "write_latency b s ?p"
    from request_on_channel_ok [OF u ch, of now ?st "xfer_size ncmd"]
    obtain e perf s1 where req: "chmodel_request now ?st (xfer_size ncmd) (ch_perf_model ch) = Some (e, perf)"
      and s1: "set_ch s ?p (ch\<lparr> ch_perf_model := perf \<rparr>) = Some s1"
      and u1: "ssd_usable s1" and d1: "same_data s s1" and l1: "\<forall>q. get_lun s1 q = get_lun s q"
      and e: "e \<le> ?st + XFER_MAX" "?st + XFER_MAX < 2 ^ 64 \<longrightarrow> ?st \<le> e"
      by blast
    have lat: "write_latency b s1 ?p = ?lat"
      using same_data_get(4) [OF d1] by (simp add: write_latency_def get_storage_type_def)
    from set_lun_avail_ok [OF _ u1, of ?p lun "u64 (e + ?lat)"] l l1 obtain s' where
      s': "set_lun_avail s1 ?p (u64 (e + ?lat)) = Some s'" "ssd_usable s'" "same_data s1 s'"
      "\<forall>q. get_lun s' q = (if lun_key q = lun_key ?p
         then Some (lun\<lparr> next_lun_avail_time := u64 (e + ?lat) \<rparr>) else get_lun s1 q)"
      by auto
    have "ssd_advance_nand b now s ncmd = Some (u64 (e + ?lat), s')"
      using NAND_WRITE mapped l ch req s1 s'(1) lat by (simp add: ssd_advance_nand_def Let_def command_start_def)
    moreover have "?st + ?lat \<le> u64 (e + ?lat)" if "far_from_wrap ?st ?lat (xfer_size ncmd)"
      using e that by (simp add: far_from_wrap_def)
    ultimately show ?thesis
      using s' d1 l1 NAND_WRITE by (auto simp: command_latency_def intro: same_data_trans)
  next
    case NAND_ERASE
    let ?e = "u64 (?st + erase_latency b s ?p)"
    from set_lun_avail_ok [OF l u, of ?e] obtain s' where s': "set_lun_avail s ?p ?e = Some s'" "ssd_usable s'"
      "same_data s s'" "\<forall>q. get_lun s' q = (if lun_key q = lun_key ?p
         then Some (lun\<lparr> next_lun_avail_time := ?e \<rparr>) else get_lun s q)" by auto
    have "ssd_advance_nand b now s ncmd = Some (?e, s')"
      using NAND_ERASE mapped l ch s'(1) by (simp add: ssd_advance_nand_def Let_def command_start_def)
    with s' NAND_ERASE show ?thesis by (auto simp: command_latency_def far_from_wrap_def)
  next
    case NAND_NOP
    from set_lun_avail_ok [OF l u, of ?st] obtain s' where s': "set_lun_avail s ?p ?st = Some s'" "ssd_usable s'"
      "same_data s s'" "\<forall>q. get_lun s' q = (if lun_key q = lun_key ?p
         then Some (lun\<lparr> next_lun_avail_time := ?st \<rparr>) else get_lun s q)" by auto
    have "ssd_advance_nand b now s ncmd = Some (?st, s')"
      using NAND_NOP mapped l ch s'(1) by (simp add: ssd_advance_nand_def Let_def command_start_def)
    with s' NAND_NOP show ?thesis by (auto simp: command_latency_def)
  next
    case (NAND_OTHER n)
    with ok show ?thesis by (simp add: command_ok_def)
  qed
qed

section \<open>The shape of the device\<close>

definition plane_shape :: "ssdparams \<Rightarrow> nand_plane \<Rightarrow> bool" where
  "plane_shape spp pl \<longleftrightarrow> length (pl_blk pl) = blks_per_pl spp \<and> pl_nblks pl = blks_per_pl spp
     \<and> (\<forall>b \<in> set (pl_blk pl). length (blk_pg b) = pgs_per_blk spp \<and> blk_npgs b = pgs_per_blk spp)"

definition ssd_shape :: "ssd \<Rightarrow> bool" where
  "ssd_shape s \<longleftrightarrow> (let spp = ssd_sp s; d = flash_data s in
     length d = nchs spp \<and> (\<forall>luns \<in> set d. length luns = luns_per_ch spp
       \<and> (\<forall>pls \<in> set luns. length pls = pls_per_lun spp \<and> (\<forall>pl \<in> set pls. plane_shape spp pl))))"

definition blk_in_range :: "ssdparams \<Rightarrow> ppa \<Rightarrow> bool" where
  "blk_in_range spp p \<longleftrightarrow> g_ch p < nchs spp \<and> g_lun p < luns_per_ch spp \<and> g_pl p < pls_per_lun spp
     \<and> g_blk p < blks_per_pl spp"

lemma ssd_shape_at:
  assumes "ssd_shape s"
  shows "length (flash_data s) = nchs (ssd_sp s)"
    and "c < length (flash_data s) \<Longrightarrow> length (flash_data s ! c) = luns_per_ch (ssd_sp s) \<and>
      (\<forall>pls \<in> set (flash_data s ! c). length pls = pls_per_lun (ssd_sp s)
        \<and> (\<forall>pl \<in> set pls. plane_shape (ssd_sp s) pl))"
    and "c < length (flash_data s) \<Longrightarrow> l < length (flash_data s ! c) \<Longrightarrow>
      length (flash_data s ! c ! l) = pls_per_lun (ssd_sp s) \<and>
      (\<forall>pl \<in> set (flash_data s ! c ! l). plane_shape (ssd_sp s) pl)"
proof -
  note sh = assms [unfolded ssd_shape_def Let_def]
  show "length (flash_data s) = nchs (ssd_sp s)" using sh by blast
  show 1: "c < length (flash_data s) \<Longrightarrow> length (flash_data s ! c) = luns_per_ch (ssd_sp s) \<and>
      (\<forall>pls \<in> set (flash_data s ! c). length pls = pls_per_lun (ssd_sp s)
        \<and> (\<forall>pl \<in> set pls. plane_shape (ssd_sp s) pl))" for c
    using sh nth_mem by blast
  show "c < length (flash_data s) \<Longrightarrow> l < length (flash_data s ! c) \<Longrightarrow>
      length (flash_data s ! c ! l) = pls_per_lun (ssd_sp s) \<and>
      (\<forall>pl \<in> set (flash_data s ! c ! l). plane_shape (ssd_sp s) pl)"
    using 1 [of c] nth_mem [of l "flash_data s ! c"] by blast
qed

lemma ssd_shape_get_lun:
  assumes "ssd_shape s" and "g_ch p < nchs (ssd_sp s)" and "g_lun p < luns_per_ch (ssd_sp s)"
  shows "\<exists>l. get_lun s p = Some l"
proof -
  from assms have c: "g_ch p < length (ssd_ch s)" by (simp add: ssd_shape_def Let_def flash_data_def)
  then have "map lun_pl (ch_lun (ssd_ch s ! g_ch p)) \<in> set (flash_data s)"
    by (simp add: flash_data_def)
  with assms have "length (map lun_pl (ch_lun (ssd_ch s ! g_ch p))) = luns_per_ch (ssd_sp s)"
    unfolding ssd_shape_def Let_def by blast
  with c assms(3) show ?thesis by (simp add: get_lun_def get_ch_def)
qed

lemma ssd_shape_get_pl:
  assumes "ssd_shape s" and "get_pl s p = Some pl"
  shows "plane_shape (ssd_sp s) pl"
  using ssd_shape_at(3) [OF assms(1), of "g_ch p" "g_lun p"] assms(2)
  by (auto simp: get_pl_flash_data fault_simps)

lemma ssd_shape_get_blk:
  assumes "ssd_shape s" and "blk_in_range (ssd_sp s) p"
  shows "\<exists>b. get_blk s p = Some b \<and> length (blk_pg b) = pgs_per_blk (ssd_sp s) \<and> blk_npgs b = pgs_per_blk (ssd_sp s)"
proof -
  let ?spp = "ssd_sp s"
  note r = assms(2) [unfolded blk_in_range_def] and at = ssd_shape_at [OF assms(1)]
  have c: "g_ch p < length (flash_data s)" using at(1) r by simp
  have ll: "g_lun p < length (flash_data s ! g_ch p)" using at(2) [OF c] r by simp
  have pp: "g_pl p < length (flash_data s ! g_ch p ! g_lun p)" using at(3) [OF c ll] r by simp
  let ?pl = "flash_data s ! g_ch p ! g_lun p ! g_pl p"
  have get: "get_pl s p = Some ?pl" using c ll pp by (simp add: get_pl_flash_data)
  with ssd_shape_get_pl [OF assms(1)] have sh: "plane_shape ?spp ?pl" by blast
  then have "g_blk p < length (pl_blk ?pl)" using assms(2) by (simp add: plane_shape_def blk_in_range_def)
  with get sh show ?thesis by (simp add: get_blk_def plane_shape_def)
qed

lemma same_data_shape: "same_data s s' \<Longrightarrow> ssd_shape s' \<longleftrightarrow> ssd_shape s"
  by (simp add: same_data_def ssd_shape_def)

text \<open>Storing a block of the right size keeps the shape, and leaves everything but data alone.\<close>

lemma set_pl_frame:
  assumes "set_pl s p pl = Some s'"
  shows "ssd_sp s' = ssd_sp s" and "write_buffer s' = write_buffer s" and "ssd_pcie s' = ssd_pcie s"
    and "map ch_perf_model (ssd_ch s') = map ch_perf_model (ssd_ch s)"
  using assms by (auto simp: set_pl_def set_lun_def set_ch_def get_ch_def fault_simps intro!: map_update_same)

lemma set_blk_frame:
  assumes "set_blk s p b = Some s'"
  shows "ssd_sp s' = ssd_sp s" and "write_buffer s' = write_buffer s" and "ssd_pcie s' = ssd_pcie s"
    and "map ch_perf_model (ssd_ch s') = map ch_perf_model (ssd_ch s)"
  using assms set_pl_frame by (auto simp: set_blk_def fault_simps)

lemma ssd_usable_models:
  "ssd_usable s \<longleftrightarrow> ch_usable (ssd_pcie s) \<and> (\<forall>m \<in> set (map ch_perf_model (ssd_ch s)). ch_usable m)"
  by (simp add: ssd_usable_def)

lemma set_blk_usable: "set_blk s p b = Some s' \<Longrightarrow> ssd_usable s' \<longleftrightarrow> ssd_usable s"
  using set_blk_frame [of s p b s'] by (simp only: ssd_usable_models)

lemma set_pl_flash_data:
  assumes "set_pl s p pl = Some s'"
  shows "g_ch p < length (flash_data s)" and "g_lun p < length (flash_data s ! g_ch p)"
    and "flash_data s' = (flash_data s)[g_ch p :=
      (flash_data s ! g_ch p)[g_lun p := (flash_data s ! g_ch p ! g_lun p)[g_pl p := pl]]]"
  using assms
  by (auto simp: set_pl_def set_lun_def set_ch_def get_lun_def get_ch_def fault_simps flash_data_def map_update)

lemma ball_set_update: "\<forall>x \<in> set xs. P x \<Longrightarrow> P y \<Longrightarrow> \<forall>x \<in> set (xs[i := y]). P x"
  using set_update_subset_insert [of xs i y] by auto

lemma set_pl_shape:
  assumes "set_pl s p pl = Some s'" and "ssd_shape s" and "plane_shape (ssd_sp s) pl"
  shows "ssd_shape s'"
proof -
  let ?spp = "ssd_sp s" and ?d = "flash_data s"
  note fd = set_pl_flash_data [OF assms(1)]
  note at = ssd_shape_at [OF assms(2)]
  have luns: "length (?d ! g_ch p) = luns_per_ch ?spp"
    "\<forall>pls \<in> set (?d ! g_ch p). length pls = pls_per_lun ?spp \<and> (\<forall>pl \<in> set pls. plane_shape ?spp pl)"
    using at(2) [OF fd(1)] by blast+
  have pls: "length (?d ! g_ch p ! g_lun p) = pls_per_lun ?spp"
    "\<forall>pl \<in> set (?d ! g_ch p ! g_lun p). plane_shape ?spp pl"
    using at(3) [OF fd(1,2)] by blast+
  have d: "length ?d = nchs ?spp" "\<forall>luns \<in> set ?d. length luns = luns_per_ch ?spp
       \<and> (\<forall>pls \<in> set luns. length pls = pls_per_lun ?spp \<and> (\<forall>pl \<in> set pls. plane_shape ?spp pl))"
    using assms(2) unfolding ssd_shape_def Let_def by blast+
  have "\<forall>pl' \<in> set ((?d ! g_ch p ! g_lun p)[g_pl p := pl]). plane_shape ?spp pl'"
    using pls(2) assms(3) by (rule ball_set_update)
  then have "\<forall>pls \<in> set ((?d ! g_ch p)[g_lun p := (?d ! g_ch p ! g_lun p)[g_pl p := pl]]).
      length pls = pls_per_lun ?spp \<and> (\<forall>pl \<in> set pls. plane_shape ?spp pl)"
    using luns(2) pls(1) by (intro ball_set_update) auto
  then have "\<forall>luns \<in> set (flash_data s'). length luns = luns_per_ch ?spp
       \<and> (\<forall>pls \<in> set luns. length pls = pls_per_lun ?spp \<and> (\<forall>pl \<in> set pls. plane_shape ?spp pl))"
    unfolding fd(3) using d(2) luns(1) by (intro ball_set_update) auto
  then show ?thesis
    using d(1) fd(3) set_pl_frame(1) [OF assms(1)] by (simp add: ssd_shape_def Let_def)
qed

lemma set_blk_shape:
  assumes "set_blk s p b = Some s'" and "ssd_shape s" and "length (blk_pg b) = pgs_per_blk (ssd_sp s)"
    and "blk_npgs b = pgs_per_blk (ssd_sp s)"
  shows "ssd_shape s'"
proof -
  from assms(1) obtain pl where pl: "get_pl s p = Some pl" "g_blk p < length (pl_blk pl)"
    and s': "set_pl s p (pl\<lparr> pl_blk := (pl_blk pl)[g_blk p := b] \<rparr>) = Some s'"
    by (auto simp: set_blk_def fault_simps)
  from ssd_shape_get_pl [OF assms(2) pl(1)] have sh: "plane_shape (ssd_sp s) pl" .
  have "\<forall>b \<in> set ((pl_blk pl)[g_blk p := b]).
      length (blk_pg b) = pgs_per_blk (ssd_sp s) \<and> blk_npgs b = pgs_per_blk (ssd_sp s)"
    using sh assms(3,4) by (intro ball_set_update) (auto simp: plane_shape_def)
  then have "plane_shape (ssd_sp s) (pl\<lparr> pl_blk := (pl_blk pl)[g_blk p := b] \<rparr>)"
    using sh by (simp add: plane_shape_def)
  with set_pl_shape [OF s' assms(2)] show ?thesis by blast
qed

section \<open>Initialisation and idle time\<close>

lemma foldM_replicate:
  "foldM (\<lambda>_ xs. do { x \<leftarrow> m; Some (xs @ [x]) }) is acc =
     (if is = [] then Some acc else do { x \<leftarrow> m; Some (acc @ replicate (length is) x) })"
proof (induction "is" arbitrary: acc)
  case (Cons i "is")
  then show ?case by (cases m) (auto simp: replicate_append_same)
qed simp

lemma ssd_init_ok:
  assumes "ssd_init junk spp cpu = Some s"
  shows "ssd_sp s = spp" and "ssd_shape s"
    and "write_buffer s = buffer_init (write_buffer_size spp)"
    and "get_blk s p = Some b \<Longrightarrow> b = ssd_init_nand_blk spp"
    and "0 < u32 (BANDWIDTH_TO_MAX_CREDITS (ch_bandwidth spp)) \<Longrightarrow>
         0 < u32 (BANDWIDTH_TO_MAX_CREDITS (pcie_bandwidth spp)) \<Longrightarrow> ssd_usable s"
proof -
  from assms obtain chs pcie where chs: "(if [0..<nchs spp] = [] then Some [] else
      do { ch \<leftarrow> ssd_init_ch junk spp; Some (replicate (nchs spp) ch) }) = Some chs"
    and pcie: "ssd_init_pcie spp = Some pcie"
    and s: "s = \<lparr> ssd_sp = spp, ssd_ch = chs, ssd_pcie = pcie,
            write_buffer = buffer_init (write_buffer_size spp), cpu_nr_dispatcher = cpu \<rparr>"
    by (auto simp: ssd_init_def foldM_replicate fault_simps split: if_splits)
  show sp: "ssd_sp s = spp" and "write_buffer s = buffer_init (write_buffer_size spp)" by (simp_all add: s)
  let ?luns = "replicate (luns_per_ch spp) (replicate (pls_per_lun spp) (ssd_init_nand_plane junk spp))"
  have all: "flash_data s = replicate (nchs spp) ?luns"
    using chs by (auto simp: s flash_data_def ssd_init_ch_def fault_simps ssd_init_nand_lun_def Let_def split: if_splits)
  show "ssd_shape s"
    by (auto simp: ssd_shape_def Let_def all sp plane_shape_def ssd_init_nand_plane_def ssd_init_nand_blk_def)
  show "get_blk s p = Some b \<Longrightarrow> b = ssd_init_nand_blk spp"
    by (auto simp: get_blk_def get_pl_flash_data all fault_simps ssd_init_nand_plane_def)
  assume "0 < u32 (BANDWIDTH_TO_MAX_CREDITS (ch_bandwidth spp))"
    and "0 < u32 (BANDWIDTH_TO_MAX_CREDITS (pcie_bandwidth spp))"
  with chs pcie show "ssd_usable s"
    by (auto simp: s ssd_usable_def ssd_init_pcie_def ssd_init_ch_def fault_simps Let_def
        dest: chmodel_init_usable split: if_splits)
qed

lemma foldM_max:
  assumes "\<And>i. i \<in> set is \<Longrightarrow> \<exists>x. f i = Some x"
  shows "foldM (\<lambda>i acc. do { x \<leftarrow> f i; Some (max acc (g x)) }) is (acc::nat)
    = Some (Max (insert acc ((\<lambda>i. g (the (f i))) ` set is)))"
  using assms
proof (induction "is" arbitrary: acc)
  case (Cons i "is")
  from Cons.prems obtain x where x: "f i = Some x" by force
  have "foldM (\<lambda>i acc. do { x \<leftarrow> f i; Some (max acc (g x)) }) is (max acc (g x))
    = Some (Max (insert (max acc (g x)) ((\<lambda>i. g (the (f i))) ` set is)))"
    using Cons by simp
  moreover have "Max (insert (max acc (g x)) A) = Max (insert acc (insert (g x) A))" if "finite A" for A
    using that by (cases "A = {}") (simp_all add: max.assoc)
  ultimately show ?case using x by simp
qed simp

text \<open>The availability times of all LUNs.\<close>

definition lun_times :: "ssd \<Rightarrow> nat set" where
  "lun_times s = {next_lun_avail_time l | c l. c \<in> set (ssd_ch s) \<and> l \<in> set (ch_lun c)}"

lemma foldM_lun_max:
  "n = length ls \<Longrightarrow>
    foldM (\<lambda>j latest. do { lun \<leftarrow> arr_get ls j; Some (max latest (next_lun_avail_time lun)) }) [0..<n] acc
    = Some (Max (insert acc (next_lun_avail_time ` set ls)))"
proof -
  assume n: "n = length ls"
  have "(\<lambda>i. next_lun_avail_time (the (arr_get ls i))) ` set [0..<n] = next_lun_avail_time ` set ls"
  proof -
    have "next_lun_avail_time ` set ls = (\<lambda>i. next_lun_avail_time (ls ! i)) ` {..<length ls}"
      by (auto simp: set_conv_nth)
    then show ?thesis by (simp add: n atLeast0LessThan [symmetric])
  qed
  moreover have "foldM (\<lambda>j latest. do { lun \<leftarrow> arr_get ls j; Some (max latest (next_lun_avail_time lun)) }) [0..<n] acc
    = Some (Max (insert acc ((\<lambda>i. next_lun_avail_time (the (arr_get ls i))) ` set [0..<n])))"
    by (rule foldM_max) (simp add: n)
  ultimately show ?thesis by simp
qed

lemma foldM_channel_max:
  assumes "\<And>c. c \<in> set cs \<Longrightarrow> length (ch_lun c) = n"
  shows "foldM (\<lambda>i latest. do {
       ch \<leftarrow> arr_get cs i;
       foldM (\<lambda>j latest. do { lun \<leftarrow> arr_get (ch_lun ch) j; Some (max latest (next_lun_avail_time lun)) })
         [0..<n] latest }) [0..<length cs] acc
    = Some (Max (insert acc {next_lun_avail_time l | c l. c \<in> set cs \<and> l \<in> set (ch_lun c)}))"
proof -
  let ?g = "\<lambda>ch latest. foldM (\<lambda>j latest. do { lun \<leftarrow> arr_get (ch_lun ch) j; Some (max latest (next_lun_avail_time lun)) })
         [0..<n] latest"
  let ?T = "\<lambda>cs. {next_lun_avail_time l | c l. c \<in> set cs \<and> l \<in> set (ch_lun c)}"
  have "foldM (\<lambda>i latest. do { ch \<leftarrow> arr_get cs i; ?g ch latest }) [0..<k] acc
      = Some (Max (insert acc (?T (take k cs))))" if "k \<le> length cs" for k
    using that
  proof (induction k)
    case (Suc k)
    have fin: "finite (?T xs)" for xs
    proof -
      have "?T xs = (\<Union>c \<in> set xs. next_lun_avail_time ` set (ch_lun c))" by auto
      then show ?thesis by simp
    qed
    have g: "?g (cs ! k) m = Some (Max (insert m (next_lun_avail_time ` set (ch_lun (cs ! k)))))" for m
      using assms [of "cs ! k"] Suc.prems by (intro foldM_lun_max) simp
    have T: "?T (take (Suc k) cs) = ?T (take k cs) \<union> next_lun_avail_time ` set (ch_lun (cs ! k))"
      using Suc.prems by (auto simp: take_Suc_conv_app_nth)
    have M: "Max (insert (Max (insert acc A)) B) = Max (insert acc (A \<union> B))" if "finite A" "finite B" for A B
    proof -
      have "Max (insert acc A \<union> B) = max (Max (insert acc A)) (Max B)" if "B \<noteq> {}"
        using \<open>finite A\<close> \<open>finite B\<close> that by (intro Max_Un) auto
      then show ?thesis using that by (cases "B = {}") simp_all
    qed
    from Suc show ?case
      by (simp add: foldM_append g T M fin)
  qed simp
  from this [of "length cs"] show ?thesis by simp
qed

lemma ssd_next_idle_time_ok:
  assumes "ssd_shape s"
  shows "ssd_next_idle_time now s = Some (Max (insert now (lun_times s)))"
proof -
  have "length (ssd_ch s) = nchs (ssd_sp s)"
    using assms by (simp add: ssd_shape_def Let_def flash_data_def)
  moreover have "length (ch_lun c) = luns_per_ch (ssd_sp s)" if "c \<in> set (ssd_ch s)" for c
    using assms that by (auto simp: ssd_shape_def Let_def flash_data_def)
  ultimately show ?thesis
    using foldM_channel_max [of "ssd_ch s" "luns_per_ch (ssd_sp s)" now]
    by (simp add: ssd_next_idle_time_def lun_times_def)
qed

section \<open>Properties\<close>

text \<open>When the device is initialised it has the configured shape, every page of every block is
  free with zeroed counters, the write buffer is empty, and with bandwidths that allow at least one
  credit per slot every channel and the PCIe link can serve requests.\<close>

theorem ssd_init_correct:
  assumes "ssd_init junk spp cpu = Some s"
  shows "ssd_shape s \<and> ssd_sp s = spp
    \<and> (\<forall>p b. get_blk s p = Some b \<longrightarrow> blk_ipc b = 0 \<and> blk_vpc b = 0 \<and> blk_wp b = 0
         \<and> (\<forall>pg \<in> set (blk_pg b). pg_status pg = PG_FREE))
    \<and> buf_remaining (write_buffer s) = write_buffer_size spp
    \<and> (0 < u32 (BANDWIDTH_TO_MAX_CREDITS (ch_bandwidth spp))
        \<and> 0 < u32 (BANDWIDTH_TO_MAX_CREDITS (pcie_bandwidth spp)) \<longrightarrow> ssd_usable s)"
proof -
  have "blk_ipc b = 0 \<and> blk_vpc b = 0 \<and> blk_wp b = 0 \<and> (\<forall>pg \<in> set (blk_pg b). pg_status pg = PG_FREE)"
    if "get_blk s p = Some b" for p b
    unfolding ssd_init_ok(4) [OF assms that] by (simp add: ssd_init_nand_blk_def ssd_init_nand_page_def)
  then show ?thesis using ssd_init_ok [OF assms] by (simp add: buffer_init_def)
qed

definition tiny_ssd :: ssd where
  "tiny_ssd = the (ssd_init 0 tiny_params 0)"

lemma tiny_ssd_init: "ssd_init 0 tiny_params 0 = Some tiny_ssd"
proof -
  obtain c where "chmodel_init 800 = Some c" using chmodel_init_ok [of 800] by (auto simp: MB_def)
  moreover obtain d where "chmodel_init 3360 = Some d" using chmodel_init_ok [of 3360] by (auto simp: MB_def)
  ultimately have "ssd_init 0 tiny_params 0 \<noteq> None"
    by (simp add: ssd_init_def ssd_init_ch_def ssd_init_pcie_def foldM_replicate numeral_2_eq_2)
  then show ?thesis by (simp add: tiny_ssd_def)
qed

lemma tiny_credits: "0 < u32 (BANDWIDTH_TO_MAX_CREDITS 800)" "0 < u32 (BANDWIDTH_TO_MAX_CREDITS 3360)"
  by (simp_all add: BANDWIDTH_TO_MAX_CREDITS_def MB_def UNIT_TIME_INTERVAL_def UNIT_XFER_SIZE_def
      UNIT_XFER_CREDITS_def)

lemma tiny_ssd_ok: "ssd_shape tiny_ssd" "ssd_usable tiny_ssd" "ssd_sp tiny_ssd = tiny_params"
  using ssd_init_ok [OF tiny_ssd_init] tiny_credits by simp_all

lemma tiny_ssd_lun: "\<exists>l. get_lun tiny_ssd 0 = Some l"
  using ssd_shape_get_lun [OF tiny_ssd_ok(1), of 0] by (simp add: tiny_ssd_ok field_getters get_field_def)

lemma ssd_init_correct_witness: "ssd_shape tiny_ssd \<and> ssd_sp tiny_ssd = tiny_params"
  using ssd_init_correct [OF tiny_ssd_init] by blast

text \<open>A flash command on an existing LUN returns whatever the clock, keeps every channel
  able to serve requests, and changes no page, block or parameter.\<close>

theorem ssd_advance_nand_returns:
  assumes "ssd_usable s" and "get_lun s (nand_ppa ncmd) = Some lun" and "command_ok s ncmd"
  shows "\<exists>t s'. ssd_advance_nand b now s ncmd = Some (t, s') \<and> ssd_usable s'
    \<and> (\<forall>p. get_blk s' p = get_blk s p) \<and> ssd_sp s' = ssd_sp s \<and> write_buffer s' = write_buffer s"
proof -
  from ssd_advance_nand_ok [OF assms, of b now] obtain t s' where
    "ssd_advance_nand b now s ncmd = Some (t, s')" "ssd_usable s'" and d: "same_data s s'" by blast
  with same_data_get [OF d] show ?thesis by blast
qed

definition tiny_read :: nand_cmd where
  "tiny_read = \<lparr> nand_type = USER_IO, cmd = NAND_READ, xfer_size = 4096, stime = 1000,
     interleave_pci_dma = True, nand_ppa = 0 \<rparr>"

lemma tiny_read_ok: "command_ok tiny_ssd tiny_read"
  by (simp add: command_ok_def tiny_read_def tiny_ssd_ok UNMAPPED_PPA_def)

lemma ssd_advance_nand_returns_witness:
  "\<exists>t s'. ssd_advance_nand SAMSUNG_970PRO 500 tiny_ssd tiny_read = Some (t, s') \<and> ssd_usable s'"
proof -
  obtain l where "get_lun tiny_ssd (nand_ppa tiny_read) = Some l"
    using tiny_ssd_lun by (auto simp: tiny_read_def)
  from ssd_advance_nand_returns [OF tiny_ssd_ok(2) this tiny_read_ok] show ?thesis by blast
qed

text \<open>C39: A LUN serves one command at a time: a command starts no earlier than the LUN is available,
  keeps the LUN busy for at least the latency of the operation, does not complete before the LUN
  is free again, and leaves the availability of every other LUN alone (times far from the end of
  the 64-bit clock).\<close>

theorem ssd_advance_nand_serialises:
  assumes "ssd_usable s" and "get_lun s (nand_ppa ncmd) = Some lun" and "command_ok s ncmd"
    and "far_from_wrap (command_start now lun ncmd) (command_latency b s ncmd) (xfer_size ncmd)"
  shows "\<exists>t s' lun'. ssd_advance_nand b now s ncmd = Some (t, s')
    \<and> get_lun s' (nand_ppa ncmd) = Some lun'
    \<and> next_lun_avail_time lun + command_latency b s ncmd \<le> next_lun_avail_time lun'
    \<and> stime ncmd + command_latency b s ncmd \<le> next_lun_avail_time lun'
    \<and> next_lun_avail_time lun' \<le> t
    \<and> (\<forall>q. lun_key q \<noteq> lun_key (nand_ppa ncmd) \<longrightarrow> get_lun s' q = get_lun s q)"
proof -
  from ssd_advance_nand_ok [OF assms(1-3), of b now] assms(4) obtain t s' lun' where
    "ssd_advance_nand b now s ncmd = Some (t, s')" "get_lun s' (nand_ppa ncmd) = Some lun'"
    "\<forall>q. lun_key q \<noteq> lun_key (nand_ppa ncmd) \<longrightarrow> get_lun s' q = get_lun s q"
    "command_start now lun ncmd + command_latency b s ncmd \<le> next_lun_avail_time lun'"
    "next_lun_avail_time lun' \<le> t" by blast
  moreover have "next_lun_avail_time lun \<le> command_start now lun ncmd" "stime ncmd \<le> command_start now lun ncmd"
    by (auto simp: command_start_def)
  ultimately show ?thesis by (meson add_right_mono order_trans)
qed

lemma ssd_init_lun_idle:
  assumes "ssd_init junk spp cpu = Some s" and "get_lun s p = Some l"
  shows "next_lun_avail_time l = 0"
proof -
  have "\<forall>c \<in> set (ssd_ch s). \<forall>l \<in> set (ch_lun c). next_lun_avail_time l = 0"
    using assms(1) unfolding ssd_init_def foldM_replicate
    by (auto simp: fault_simps ssd_init_ch_def ssd_init_nand_lun_def Let_def split: if_splits)
  moreover have "ssd_ch s ! g_ch p \<in> set (ssd_ch s)" "l \<in> set (ch_lun (ssd_ch s ! g_ch p))"
    using assms(2) by (auto simp: get_lun_def get_ch_def fault_simps)
  ultimately show ?thesis by blast
qed

lemmas tiny_lun_idle = ssd_init_lun_idle [OF tiny_ssd_init]

lemma ssd_advance_nand_serialises_witness:
  "\<exists>t s' lun'. ssd_advance_nand SAMSUNG_970PRO 500 tiny_ssd tiny_read = Some (t, s')
    \<and> get_lun s' 0 = Some lun' \<and> 1000 \<le> next_lun_avail_time lun' \<and> next_lun_avail_time lun' \<le> t"
proof -
  obtain l where l: "get_lun tiny_ssd (nand_ppa tiny_read) = Some l"
    using tiny_ssd_lun by (auto simp: tiny_read_def)
  have "far_from_wrap (command_start 500 l tiny_read) (command_latency SAMSUNG_970PRO tiny_ssd tiny_read)
      (xfer_size tiny_read)"
    using tiny_lun_idle [OF l]
    by (simp add: far_from_wrap_def command_start_def command_latency_def read_latency_def tiny_read_def
        tiny_ssd_ok XFER_MAX_def NR_CREDIT_ENTRIES_def UNIT_TIME_INTERVAL_def Let_def)
  from ssd_advance_nand_serialises [OF tiny_ssd_ok(2) l tiny_read_ok this] show ?thesis
    by (auto simp: tiny_read_def dest: add_leD1)
qed

text \<open>The device's next idle time is exact: the latest availability time of all its LUNs, and
  not before the current time.\<close>

theorem ssd_next_idle_time_latest:
  assumes "ssd_shape s"
  shows "\<exists>t. ssd_next_idle_time now s = Some t \<and> now \<le> t \<and> (\<forall>x \<in> lun_times s. x \<le> t)
    \<and> t \<in> insert now (lun_times s)"
proof -
  have "lun_times s = (\<Union>c \<in> set (ssd_ch s). next_lun_avail_time ` set (ch_lun c))"
    by (auto simp: lun_times_def)
  then have fin: "finite (lun_times s)" by simp
  then have "Max (insert now (lun_times s)) \<in> insert now (lun_times s)" by (intro Max_in) auto
  then show ?thesis
    using ssd_next_idle_time_ok [OF assms] fin by simp
qed

lemma ssd_next_idle_time_latest_witness:
  "\<exists>t. ssd_next_idle_time 7 tiny_ssd = Some t \<and> 7 \<le> t \<and> (\<forall>x \<in> lun_times tiny_ssd. x \<le> t)"
  using ssd_next_idle_time_latest [OF tiny_ssd_ok(1), of 7] by blast

text \<open>The write buffer: a request that does not fit is granted nothing and changes nothing; one
  that fits is granted in full and releasing it restores the buffer; a refilled buffer is empty again.\<close>

theorem buffer_allocate_release:
  assumes "buf_remaining buf \<le> buf_size buf" and "buf_size buf < 2 ^ 32"
  shows "(buf_remaining buf < n \<longrightarrow> buffer_allocate buf n = (0, buf))
    \<and> (n \<le> buf_remaining buf \<longrightarrow> fst (buffer_allocate buf n) = n
         \<and> buf_remaining (snd (buffer_allocate buf n)) + n = buf_remaining buf
         \<and> buffer_release (snd (buffer_allocate buf n)) n = (True, buf)
         \<and> buffer_refill (snd (buffer_allocate buf n)) = buf\<lparr> buf_remaining := buf_size buf \<rparr>)"
  using assms
  by (auto simp: buffer_allocate_def buffer_release_def buffer_refill_def Let_def)

lemma buffer_allocate_release_witness:
  "buffer_allocate (buffer_init 65536) 70000 = (0, buffer_init 65536)
    \<and> buffer_release (snd (buffer_allocate (buffer_init 65536) 4096)) 4096 = (True, buffer_init 65536)"
  using buffer_allocate_release [of "buffer_init 65536" 70000] buffer_allocate_release [of "buffer_init 65536" 4096]
  by (simp add: buffer_init_def)

end
