(* ===== verification/Line_Mgmt.thy ===== *)
theory Line_Mgmt
  imports Ssd_Params Pqueue
begin

text \<open>
  Line management of the conventional FTL (\<open>struct line\<close>, \<open>struct line_mgmt\<close> of
  \<open>conv_ftl.h\<close>): a line is one block index across all LUNs, and is free, full, a victim, or in
  use (a write pointer's current line, or taken out for collection).

  A pointer to a line is its index in \<open>lines\<close>; the two \<open>list_head\<close> lists are lists of indices.
  \<open>list_del_init\<close> takes an entry out of the list that holds it. The victim queue is the
  priority queue of \<open>Pqueue\<close> over the array of lines, ordered by valid page count.

  The functions of \<open>conv_ftl.c\<close> that work on \<open>conv_ftl->lm\<close> and, with the same text, on an
  element of \<open>conv_ftl->lunlm\<close> are split: the part on the \<open>line_mgmt\<close> is here, with the
  number of pages of a line as argument.
\<close>

record line =
  line_id :: nat
  line_ipc :: nat
  line_vpc :: nat
  line_pos :: nat

record line_mgmt =
  lines :: "line list"
  free_line_list :: "nat list"
  victim_line_pq :: "(line list, nat) pqueue_t"
  full_line_list :: "nat list"
  lm_tt_lines :: nat
  free_line_cnt :: "32 word"
  victim_line_cnt :: "32 word"
  full_line_cnt :: "32 word"

section \<open>The callbacks of the victim queue\<close>

definition victim_line_cmp_pri :: "nat \<Rightarrow> nat \<Rightarrow> bool" where
  "victim_line_cmp_pri nxt cur \<longleftrightarrow> nxt > cur"

definition victim_line_get_pri :: "line list \<Rightarrow> nat \<Rightarrow> nat" where
  "victim_line_get_pri ls a = line_vpc (ls ! a)"

definition victim_line_set_pri :: "line list \<Rightarrow> nat \<Rightarrow> nat \<Rightarrow> line list" where
  "victim_line_set_pri ls a pri = ls[a := (ls ! a)\<lparr> line_vpc := pri \<rparr>]"

definition victim_line_get_pos :: "line list \<Rightarrow> nat \<Rightarrow> nat" where
  "victim_line_get_pos ls a = line_pos (ls ! a)"

definition victim_line_set_pos :: "line list \<Rightarrow> nat \<Rightarrow> nat \<Rightarrow> line list" where
  "victim_line_set_pos ls a pos = ls[a := (ls ! a)\<lparr> line_pos := pos \<rparr>]"

lemmas victim_callbacks = victim_line_cmp_pri_def victim_line_get_pri_def victim_line_set_pri_def
  victim_line_get_pos_def victim_line_set_pos_def

section \<open>Operations\<close>

text \<open>One iteration of the loop of \<open>init_lines\<close> appends a fresh line and makes it free.\<close>

definition init_line_mgmt :: "ssdparams \<Rightarrow> line_mgmt option" where
  "init_line_mgmt spp = do {
     nvmev_assert (blks_per_pl spp = tt_lines spp);
     let pq = pqueue_init (tt_lines spp) victim_line_cmp_pri victim_line_get_pri victim_line_set_pri
                victim_line_get_pos victim_line_set_pos 0;
     let lm = \<lparr> lines = [], free_line_list = [], victim_line_pq = pq, full_line_list = [],
                lm_tt_lines = blks_per_pl spp, free_line_cnt = 0, victim_line_cnt = 0, full_line_cnt = 0 \<rparr>;
     lm \<leftarrow> foldM (\<lambda>i lm. Some (lm\<lparr>
              lines := lines lm @ [\<lparr> line_id = i, line_ipc = 0, line_vpc = 0, line_pos = 0 \<rparr>],
              free_line_list := free_line_list lm @ [i],
              free_line_cnt := free_line_cnt lm + 1 \<rparr>)) [0..<blks_per_pl spp] lm;
     nvmev_assert (free_line_cnt lm = of_nat (lm_tt_lines lm));
     Some lm
   }"

text \<open>The pointer to the line, \<open>None\<close> when it is NULL.\<close>

definition lm_get_next_free_line :: "line_mgmt \<Rightarrow> nat option \<times> line_mgmt" where
  "lm_get_next_free_line lm =
     (case free_line_list lm of
        [] \<Rightarrow> (None, lm)
      | l # ls \<Rightarrow> (Some l, lm\<lparr> free_line_list := ls, free_line_cnt := free_line_cnt lm - 1 \<rparr>))"

text \<open>The current line of a write pointer is used up: it becomes full or a victim.\<close>

definition lm_retire_line :: "nat \<Rightarrow> line_mgmt \<Rightarrow> nat \<Rightarrow> line_mgmt option" where
  "lm_retire_line pgs lm l = do {
     line \<leftarrow> arr_get (lines lm) l;
     if line_vpc line = pgs then do {
       nvmev_assert (line_ipc line = 0);
       Some (lm\<lparr> full_line_list := full_line_list lm @ [l], full_line_cnt := full_line_cnt lm + 1 \<rparr>)
     } else do {
       nvmev_assert (line_vpc line < pgs);
       nvmev_assert (line_ipc line > 0);
       (pq, ls) \<leftarrow> pqueue_insert (victim_line_pq lm) (lines lm) l;
       Some (lm\<lparr> victim_line_pq := pq, lines := ls, victim_line_cnt := victim_line_cnt lm + 1 \<rparr>)
     }
   }"

definition lm_line_valid :: "nat \<Rightarrow> line_mgmt \<Rightarrow> nat \<Rightarrow> line_mgmt option" where
  "lm_line_valid pgs lm l = do {
     line \<leftarrow> arr_get (lines lm) l;
     nvmev_assert (line_vpc line < pgs);
     Some (lm\<lparr> lines := (lines lm)[l := line\<lparr> line_vpc := line_vpc line + 1 \<rparr>] \<rparr>)
   }"

definition lm_line_invalid :: "nat \<Rightarrow> line_mgmt \<Rightarrow> nat \<Rightarrow> line_mgmt option" where
  "lm_line_invalid pgs lm l = do {
     line \<leftarrow> arr_get (lines lm) l;
     nvmev_assert (line_ipc line < pgs);
     let was_full_line = (line_vpc line = pgs);
     nvmev_assert (was_full_line \<longrightarrow> line_ipc line = 0);
     let ls = (lines lm)[l := line\<lparr> line_ipc := line_ipc line + 1 \<rparr>];
     nvmev_assert (0 < line_vpc line \<and> line_vpc line \<le> pgs);
     (pq, ls) \<leftarrow>
       (if line_pos line \<noteq> 0
        then pqueue_change_priority (victim_line_pq lm) ls (line_vpc line - 1) l
        else Some (victim_line_pq lm, ls[l := (ls ! l)\<lparr> line_vpc := line_vpc line - 1 \<rparr>]));
     if was_full_line then do {
       (pq, ls) \<leftarrow> pqueue_insert pq ls l;
       Some (lm\<lparr> lines := ls, victim_line_pq := pq,
                 free_line_list := remove1 l (free_line_list lm),
                 full_line_list := remove1 l (full_line_list lm),
                 full_line_cnt := full_line_cnt lm - 1, victim_line_cnt := victim_line_cnt lm + 1 \<rparr>)
     } else Some (lm\<lparr> lines := ls, victim_line_pq := pq \<rparr>)
   }"

definition lm_select_victim_line :: "nat \<Rightarrow> line_mgmt \<Rightarrow> bool \<Rightarrow> (nat option \<times> line_mgmt) option" where
  "lm_select_victim_line pgs lm force = do {
     victim \<leftarrow> pqueue_peek (victim_line_pq lm);
     (case victim of
        None \<Rightarrow> Some (None, lm)
      | Some l \<Rightarrow> do {
          line \<leftarrow> arr_get (lines lm) l;
          if \<not> force \<and> line_vpc line > pgs div 8 then Some (None, lm)
          else do {
            (_, pq, ls) \<leftarrow> pqueue_pop (victim_line_pq lm) (lines lm);
            Some (Some l, lm\<lparr> victim_line_pq := pq, lines := ls[l := (ls ! l)\<lparr> line_pos := 0 \<rparr>],
                              victim_line_cnt := victim_line_cnt lm - 1 \<rparr>)
          }
        })
   }"

definition lm_mark_line_free :: "line_mgmt \<Rightarrow> nat \<Rightarrow> line_mgmt option" where
  "lm_mark_line_free lm l = do {
     line \<leftarrow> arr_get (lines lm) l;
     Some (lm\<lparr> lines := (lines lm)[l := line\<lparr> line_ipc := 0, line_vpc := 0 \<rparr>],
               free_line_list := free_line_list lm @ [l],
               free_line_cnt := free_line_cnt lm + 1 \<rparr>)
   }"

section \<open>The victim queue satisfies the interface of \<open>Pqueue\<close>\<close>

definition line_ok :: "line list \<Rightarrow> nat \<Rightarrow> bool" where
  "line_ok ls l \<longleftrightarrow> l < length ls"

definition same_lines :: "line list \<Rightarrow> line list \<Rightarrow> bool" where
  "same_lines ls ls' \<longleftrightarrow> map (\<lambda>x. x\<lparr> line_pos := 0 \<rparr>) ls' = map (\<lambda>x. x\<lparr> line_pos := 0 \<rparr>) ls"

lemma same_lines_iff:
  "same_lines ls ls' \<longleftrightarrow> length ls' = length ls \<and> (\<forall>l < length ls.
     line_id (ls' ! l) = line_id (ls ! l) \<and> line_ipc (ls' ! l) = line_ipc (ls ! l)
     \<and> line_vpc (ls' ! l) = line_vpc (ls ! l))"
proof -
  have "x\<lparr> line_pos := 0 \<rparr> = y\<lparr> line_pos := 0 \<rparr> \<longleftrightarrow>
      line_id x = line_id y \<and> line_ipc x = line_ipc y \<and> line_vpc x = line_vpc y" for x y :: line
    by (cases x, cases y) auto
  then show ?thesis by (auto simp: same_lines_def list_eq_iff_nth_eq)
qed

interpretation vq: pq_callbacks victim_line_cmp_pri victim_line_get_pri victim_line_set_pri
  victim_line_get_pos victim_line_set_pos line_ok same_lines
  by unfold_locales
    (auto simp: victim_callbacks line_ok_def same_lines_iff nth_update_at)

abbreviation victim_wired :: "(line list, nat) pqueue_t \<Rightarrow> bool" where
  "victim_wired \<equiv> wired victim_line_cmp_pri victim_line_get_pri victim_line_set_pri
     victim_line_get_pos victim_line_set_pos"

section \<open>The invariant of line management\<close>

text \<open>
  \<open>victims lm\<close> is the content of the victim queue. \<open>lm_inv pgs U lm\<close>: with \<open>U\<close> the lines in
  use, every line is in exactly one of the free list, the full list, the victim queue and \<open>U\<close>;
  the counters are the sizes; free lines are empty, full lines have all \<open>pgs\<close> pages valid, and
  victims have at least one invalid page; a line knows its position exactly when it is a victim;
  the queue is a heap with room for every line.
\<close>

definition victims :: "line_mgmt \<Rightarrow> nat set" where
  "victims lm = pq_elems (victim_line_pq lm)"

definition lm_partition :: "nat set \<Rightarrow> line_mgmt \<Rightarrow> bool" where
  "lm_partition U lm \<longleftrightarrow> distinct (free_line_list lm) \<and> distinct (full_line_list lm)
     \<and> set (free_line_list lm) \<inter> set (full_line_list lm) = {}
     \<and> set (free_line_list lm) \<inter> victims lm = {} \<and> set (full_line_list lm) \<inter> victims lm = {}
     \<and> U \<inter> (set (free_line_list lm) \<union> set (full_line_list lm) \<union> victims lm) = {}
     \<and> U \<union> set (free_line_list lm) \<union> set (full_line_list lm) \<union> victims lm = {..<length (lines lm)}"

definition lm_queue :: "line_mgmt \<Rightarrow> bool" where
  "lm_queue lm \<longleftrightarrow> victim_wired (victim_line_pq lm) \<and> pq_inv line_ok (victim_line_pq lm) (lines lm)
     \<and> q_avail (victim_line_pq lm) = length (lines lm) + 1
     \<and> (\<forall>l < length (lines lm). line_pos (lines lm ! l) \<noteq> 0 \<longleftrightarrow> l \<in> victims lm)"

definition lm_counters :: "line_mgmt \<Rightarrow> bool" where
  "lm_counters lm \<longleftrightarrow> free_line_cnt lm = of_nat (length (free_line_list lm))
     \<and> full_line_cnt lm = of_nat (length (full_line_list lm))
     \<and> victim_line_cnt lm = of_nat (card (victims lm))"

definition lm_pages :: "nat \<Rightarrow> line_mgmt \<Rightarrow> bool" where
  "lm_pages pgs lm \<longleftrightarrow>
     (\<forall>l < length (lines lm). line_id (lines lm ! l) = l
        \<and> line_vpc (lines lm ! l) + line_ipc (lines lm ! l) \<le> pgs)
     \<and> (\<forall>l \<in> set (free_line_list lm). line_vpc (lines lm ! l) = 0 \<and> line_ipc (lines lm ! l) = 0)
     \<and> (\<forall>l \<in> set (full_line_list lm). line_vpc (lines lm ! l) = pgs)
     \<and> (\<forall>l \<in> victims lm. 0 < line_ipc (lines lm ! l))"

definition lm_inv :: "nat \<Rightarrow> nat set \<Rightarrow> line_mgmt \<Rightarrow> bool" where
  "lm_inv pgs U lm \<longleftrightarrow> lm_partition U lm \<and> lm_queue lm \<and> lm_counters lm \<and> lm_pages pgs lm"

lemmas lm_inv_defs = lm_inv_def lm_partition_def lm_queue_def lm_counters_def lm_pages_def

lemma lm_inv_parts:
  assumes "lm_inv pgs U lm"
  shows "lm_partition U lm" and "lm_queue lm" and "lm_counters lm" and "lm_pages pgs lm"
  using assms by (simp_all add: lm_inv_def)

lemma lm_in_use_less: "lm_inv pgs U lm \<Longrightarrow> l \<in> U \<Longrightarrow> l < length (lines lm)"
  by (auto simp: lm_inv_def lm_partition_def)

text \<open>A victim queue that holds only existing lines, and not all of them, has room.\<close>

lemma victims_card:
  assumes "pq_inv line_ok q ls" and "victim_wired q"
  shows "card (pq_elems q) = q_size q - 1" and "finite (pq_elems q)"
proof -
  from assms have "distinct_cells (q_d q) (q_size q)" by (simp add: pq_inv_def)
  then show "card (pq_elems q) = q_size q - 1"
    unfolding pq_elems_def cells_def distinct_cells_def by (subst card_image) auto
  show "finite (pq_elems q)" by (simp add: pq_elems_def cells_def)
qed

lemma victim_queue_room:
  assumes "lm_queue lm" and "l < length (lines lm)" and "l \<notin> victims lm"
  shows "q_size (victim_line_pq lm) < q_avail (victim_line_pq lm)"
proof -
  let ?q = "victim_line_pq lm"
  have inv: "pq_inv line_ok ?q (lines lm)" and w: "victim_wired ?q"
    and av: "q_avail ?q = length (lines lm) + 1" using assms(1) by (auto simp: lm_queue_def)
  have "pq_elems ?q \<subseteq> {..<length (lines lm)} - {l}"
    using inv assms(3) by (auto simp: pq_inv_def pq_elems_def line_ok_def victims_def)
  then have "card (pq_elems ?q) \<le> card ({..<length (lines lm)} - {l})" by (intro card_mono) auto
  also have "\<dots> = length (lines lm) - 1" using assms(2) by simp
  finally show ?thesis using victims_card(1) [OF inv w] av assms(2) by linarith
qed

section \<open>Every operation keeps the invariant\<close>

lemma init_line_mgmt_ok:
  assumes "init_line_mgmt spp = Some lm"
  shows "lm_inv pgs {} lm" and "length (lines lm) = blks_per_pl spp"
    and "free_line_list lm = [0..<blks_per_pl spp]" and "blks_per_pl spp = tt_lines spp"
proof -
  let ?q = "pqueue_init (tt_lines spp) victim_line_cmp_pri victim_line_get_pri victim_line_set_pri
                victim_line_get_pos victim_line_set_pos (0::nat)"
  let ?fresh = "\<lambda>i. \<lparr> line_id = i, line_ipc = 0, line_vpc = 0, line_pos = 0 \<rparr>"
  have loop: "foldM (\<lambda>i lm. Some (lm\<lparr> lines := lines lm @ [?fresh i],
              free_line_list := free_line_list lm @ [i], free_line_cnt := free_line_cnt lm + 1 \<rparr>)) [0..<n] lm0
      = Some (lm0\<lparr> lines := lines lm0 @ map ?fresh [0..<n], free_line_list := free_line_list lm0 @ [0..<n],
              free_line_cnt := free_line_cnt lm0 + of_nat n \<rparr>)" for n lm0
    by (induction n) (simp_all add: foldM_append algebra_simps)
  from assms show tt: "blks_per_pl spp = tt_lines spp"
    by (auto simp: init_line_mgmt_def fault_simps Let_def)
  from assms have lm: "lm = \<lparr> lines = map ?fresh [0..<blks_per_pl spp], free_line_list = [0..<blks_per_pl spp],
      victim_line_pq = ?q, full_line_list = [], lm_tt_lines = blks_per_pl spp,
      free_line_cnt = of_nat (blks_per_pl spp), victim_line_cnt = 0, full_line_cnt = 0 \<rparr>"
    by (auto simp: init_line_mgmt_def fault_simps Let_def loop)
  show "length (lines lm) = blks_per_pl spp" and "free_line_list lm = [0..<blks_per_pl spp]"
    by (simp_all add: lm)
  show "lm_inv pgs {} lm"
    unfolding lm_inv_defs victims_def
    by (auto simp: lm tt pqueue_init_def pq_inv_def pq_elems_def cells_def distinct_cells_def heap_def wired_def)
qed

lemma lm_get_next_free_line_ok:
  assumes inv: "lm_inv pgs U lm" and "lm_get_next_free_line lm = (Some l, lm')"
  shows "lm_inv pgs (insert l U) lm'" and "l \<notin> U" and "l < length (lines lm)" and "lines lm' = lines lm"
    and "line_vpc (lines lm ! l) = 0" and "line_ipc (lines lm ! l) = 0"
    and "free_line_list lm = l # free_line_list lm'" and "victims lm' = victims lm"
    and "full_line_list lm' = full_line_list lm"
proof -
  from assms(2) obtain ls where fl: "free_line_list lm = l # ls"
    and lm': "lm' = lm\<lparr> free_line_list := ls, free_line_cnt := free_line_cnt lm - 1 \<rparr>"
    by (auto simp: lm_get_next_free_line_def split: list.splits)
  show "lines lm' = lines lm" "free_line_list lm = l # free_line_list lm'" "victims lm' = victims lm"
    "full_line_list lm' = full_line_list lm" by (simp_all add: lm' fl victims_def)
  show "l \<notin> U" "l < length (lines lm)" "line_vpc (lines lm ! l) = 0" "line_ipc (lines lm ! l) = 0"
    using inv fl by (auto simp: lm_inv_defs)
  have "lm_partition (insert l U) lm'"
    using lm_inv_parts(1) [OF inv] fl by (auto simp: lm_partition_def lm' victims_def)
  moreover have "lm_queue lm'"
    using lm_inv_parts(2) [OF inv] by (simp add: lm_queue_def lm' victims_def)
  moreover have "lm_counters lm'"
    using lm_inv_parts(3) [OF inv] fl by (simp add: lm_counters_def lm' victims_def)
  moreover have "lm_pages pgs lm'"
    using lm_inv_parts(4) [OF inv] fl by (simp add: lm_pages_def lm' victims_def)
  ultimately show "lm_inv pgs (insert l U) lm'" by (simp add: lm_inv_def)
qed

lemma victim_pos:
  "victim_wired q \<Longrightarrow> pq_inv line_ok q ls \<Longrightarrow> l \<in> pq_elems q \<Longrightarrow> line_pos (ls ! l) \<noteq> 0"
  by (auto simp: pq_inv_def wired_def pq_elems_def cells_def victim_line_get_pos_def)

text \<open>Replacing the queue and the positions, after a queue operation.\<close>

lemma lm_queue_new:
  assumes old: "lm_queue lm" and w: "victim_wired q" and inv: "pq_inv line_ok q ls"
    and av: "q_avail q = q_avail (victim_line_pq lm)" and len: "length ls = length (lines lm)"
    and fr: "\<And>l. l < length (lines lm) \<Longrightarrow> l \<notin> pq_elems q \<Longrightarrow> line_pos (ls ! l) = 0"
  shows "lm_queue (lm\<lparr> victim_line_pq := q, lines := ls \<rparr>)"
proof -
  have "\<forall>l < length ls. line_pos (ls ! l) \<noteq> 0 \<longleftrightarrow> l \<in> pq_elems q"
    using fr victim_pos [OF w inv] len by metis
  with old w inv av len show ?thesis by (simp add: lm_queue_def victims_def)
qed

lemma lm_pages_same:
  assumes "lm_pages pgs lm" and "same_lines (lines lm) ls" and "\<forall>l \<in> pq_elems q. l < length (lines lm) \<and> 0 < line_ipc (lines lm ! l)"
    and "set (free_line_list lm) \<union> set (full_line_list lm) \<subseteq> {..<length (lines lm)}"
  shows "lm_pages pgs (lm\<lparr> victim_line_pq := q, lines := ls \<rparr>)"
  using assms by (auto simp: lm_pages_def same_lines_iff victims_def)

lemma lm_members:
  assumes "lm_partition U lm"
  shows "set (free_line_list lm) \<union> set (full_line_list lm) \<subseteq> {..<length (lines lm)}"
    and "victims lm \<subseteq> {..<length (lines lm)}"
  using assms unfolding lm_partition_def by blast+

lemma lm_retire_line_ok:
  assumes inv: "lm_inv pgs U lm" and l: "l \<in> U"
    and used: "line_vpc (lines lm ! l) = pgs \<or> 0 < line_ipc (lines lm ! l)"
  shows "\<exists>lm'. lm_retire_line pgs lm l = Some lm' \<and> lm_inv pgs (U - {l}) lm'
     \<and> same_lines (lines lm) (lines lm') \<and> free_line_list lm' = free_line_list lm
     \<and> (if line_vpc (lines lm ! l) = pgs then l \<in> set (full_line_list lm') else l \<in> victims lm')"
proof -
  note parts = lm_inv_parts [OF inv]
  have len: "l < length (lines lm)" using lm_in_use_less [OF inv l] .
  have pages: "line_vpc (lines lm ! l) + line_ipc (lines lm ! l) \<le> pgs"
    using parts(4) len by (simp add: lm_pages_def)
  have out: "l \<notin> set (free_line_list lm)" "l \<notin> set (full_line_list lm)" "l \<notin> victims lm"
    using parts(1) l by (auto simp: lm_partition_def)
  show ?thesis
  proof (cases "line_vpc (lines lm ! l) = pgs")
    case True
    let ?lm = "lm\<lparr> full_line_list := full_line_list lm @ [l], full_line_cnt := full_line_cnt lm + 1 \<rparr>"
    have "lm_retire_line pgs lm l = Some ?lm"
      using True pages len by (simp add: lm_retire_line_def)
    moreover have "lm_partition (U - {l}) ?lm"
      using parts(1) out l by (auto simp: lm_partition_def victims_def)
    moreover have "lm_queue ?lm" using parts(2) by (simp add: lm_queue_def victims_def)
    moreover have "lm_counters ?lm" using parts(3) by (simp add: lm_counters_def victims_def)
    moreover have "lm_pages pgs ?lm" using parts(4) True by (simp add: lm_pages_def victims_def)
    ultimately show ?thesis using True by (auto simp: lm_inv_def same_lines_def)
  next
    case False
    let ?q = "victim_line_pq lm"
    have w: "victim_wired ?q" and qi: "pq_inv line_ok ?q (lines lm)" using parts(2) by (auto simp: lm_queue_def)
    from vq.pqueue_insert_ok [OF w qi, of l] len out(3) victim_queue_room [OF parts(2) len out(3)]
    obtain d ls where ins: "pqueue_insert ?q (lines lm) l = Some (?q\<lparr> q_size := Suc (q_size ?q), q_d := d \<rparr>, ls)"
      and qi': "pq_inv line_ok (?q\<lparr> q_size := Suc (q_size ?q), q_d := d \<rparr>) ls"
      and el: "pq_elems (?q\<lparr> q_size := Suc (q_size ?q), q_d := d \<rparr>) = insert l (victims lm)"
      and same: "same_lines (lines lm) ls"
      and fr: "\<forall>y. line_ok (lines lm) y \<longrightarrow> y \<noteq> l \<longrightarrow> y \<notin> pq_elems ?q \<longrightarrow>
         victim_line_get_pos ls y = victim_line_get_pos (lines lm) y"
      by (auto simp: line_ok_def victims_def)
    let ?q' = "?q\<lparr> q_size := Suc (q_size ?q), q_d := d \<rparr>"
    let ?lm = "lm\<lparr> victim_line_pq := ?q', lines := ls, victim_line_cnt := victim_line_cnt lm + 1 \<rparr>"
    have w': "victim_wired ?q'" using w by (simp add: wired_def)
    have len': "length ls = length (lines lm)" using same by (simp add: same_lines_iff)
    have vi: "victims ?lm = insert l (victims lm)" using el by (simp add: victims_def)
    have ipc: "0 < line_ipc (lines lm ! l)" using used False by simp
    have "lm_retire_line pgs lm l = Some ?lm"
      using False pages len ipc ins by (simp add: lm_retire_line_def)
    moreover have "lm_partition (U - {l}) ?lm"
      using parts(1) out l len' unfolding lm_partition_def vi by auto
    moreover have "lm_queue ?lm"
    proof -
      have "line_pos (ls ! y) = 0" if "y < length (lines lm)" "y \<notin> pq_elems ?q'" for y
        using fr parts(2) el that by (auto simp: lm_queue_def victims_def line_ok_def victim_line_get_pos_def)
      from lm_queue_new [OF parts(2) w' qi' _ len' this] show ?thesis
        by (simp add: lm_queue_def victims_def)
    qed
    moreover have "lm_counters ?lm"
      using parts(3) out(3) victims_card(2) [OF qi w] unfolding lm_counters_def vi
      by (simp add: victims_def)
    moreover have "lm_pages pgs ?lm"
    proof -
      have "\<forall>k \<in> pq_elems ?q'. k < length (lines lm) \<and> 0 < line_ipc (lines lm ! k)"
        unfolding el using parts(4) ipc len lm_members(2) [OF parts(1)] by (auto simp: lm_pages_def)
      from lm_pages_same [OF parts(4) same this lm_members(1) [OF parts(1)]] show ?thesis
        by (simp add: lm_pages_def victims_def)
    qed
    ultimately show ?thesis using False same vi by (auto simp: lm_inv_def)
  qed
qed

lemma lm_line_valid_ok:
  assumes inv: "lm_inv pgs U lm" and l: "l \<in> U" and room: "line_vpc (lines lm ! l) + line_ipc (lines lm ! l) < pgs"
  shows "\<exists>lm'. lm_line_valid pgs lm l = Some lm' \<and> lm_inv pgs U lm'
     \<and> lines lm' = (lines lm)[l := (lines lm ! l)\<lparr> line_vpc := line_vpc (lines lm ! l) + 1 \<rparr>]
     \<and> free_line_list lm' = free_line_list lm \<and> full_line_list lm' = full_line_list lm \<and> victims lm' = victims lm"
proof -
  note parts = lm_inv_parts [OF inv]
  have len: "l < length (lines lm)" using lm_in_use_less [OF inv l] .
  have out: "l \<notin> set (free_line_list lm)" "l \<notin> set (full_line_list lm)" "l \<notin> victims lm"
    using parts(1) l by (auto simp: lm_partition_def)
  let ?ls = "(lines lm)[l := (lines lm ! l)\<lparr> line_vpc := line_vpc (lines lm ! l) + 1 \<rparr>]"
  let ?lm = "lm\<lparr> lines := ?ls \<rparr>"
  have w: "victim_wired (victim_line_pq lm)" and qi: "pq_inv line_ok (victim_line_pq lm) (lines lm)"
    using parts(2) by (auto simp: lm_queue_def)
  have qi': "pq_inv line_ok (victim_line_pq lm) ?ls"
  proof (rule pq_inv_frame [OF qi])
    fix x assume x: "x \<in> pq_elems (victim_line_pq lm)"
    then have "x \<noteq> l" using out(3) by (auto simp: victims_def)
    moreover have "line_ok (lines lm) x" using qi x by (simp add: pq_inv_def pq_elems_def)
    ultimately show "line_ok ?ls x \<and> getpri (victim_line_pq lm) ?ls x = getpri (victim_line_pq lm) (lines lm) x
      \<and> getpos (victim_line_pq lm) ?ls x = getpos (victim_line_pq lm) (lines lm) x"
      using w by (simp add: wired_def victim_callbacks line_ok_def)
  qed
  have "lm_queue ?lm"
    using parts(2) qi' by (auto simp: lm_queue_def victims_def nth_update_at)
  moreover have "lm_partition U ?lm" using parts(1) by (simp add: lm_partition_def victims_def)
  moreover have "lm_counters ?lm" using parts(3) by (simp add: lm_counters_def victims_def)
  moreover have "lm_pages pgs ?lm"
  proof -
    have "\<forall>x \<in> set (free_line_list lm) \<union> set (full_line_list lm) \<union> victims lm. ?ls ! x = lines lm ! x"
      using out by (metis UnE nth_list_update_neq)
    with parts(4) room show ?thesis by (auto simp: lm_pages_def victims_def nth_update_at)
  qed
  moreover have "lm_line_valid pgs lm l = Some ?lm"
    using len room by (simp add: lm_line_valid_def)
  ultimately show ?thesis by (auto simp: lm_inv_def victims_def)
qed

lemma lm_mark_line_free_ok:
  assumes inv: "lm_inv pgs U lm" and l: "l \<in> U"
  shows "\<exists>lm'. lm_mark_line_free lm l = Some lm' \<and> lm_inv pgs (U - {l}) lm'
     \<and> lines lm' = (lines lm)[l := (lines lm ! l)\<lparr> line_ipc := 0, line_vpc := 0 \<rparr>]
     \<and> free_line_list lm' = free_line_list lm @ [l] \<and> full_line_list lm' = full_line_list lm
     \<and> victims lm' = victims lm"
proof -
  note parts = lm_inv_parts [OF inv]
  have len: "l < length (lines lm)" using lm_in_use_less [OF inv l] .
  have out: "l \<notin> set (free_line_list lm)" "l \<notin> set (full_line_list lm)" "l \<notin> victims lm"
    using parts(1) l by (auto simp: lm_partition_def)
  let ?ls = "(lines lm)[l := (lines lm ! l)\<lparr> line_ipc := 0, line_vpc := 0 \<rparr>]"
  let ?lm = "lm\<lparr> lines := ?ls, free_line_list := free_line_list lm @ [l], free_line_cnt := free_line_cnt lm + 1 \<rparr>"
  have w: "victim_wired (victim_line_pq lm)" and qi: "pq_inv line_ok (victim_line_pq lm) (lines lm)"
    using parts(2) by (auto simp: lm_queue_def)
  have qi': "pq_inv line_ok (victim_line_pq lm) ?ls"
  proof (rule pq_inv_frame [OF qi])
    fix x assume x: "x \<in> pq_elems (victim_line_pq lm)"
    then have "x \<noteq> l" using out(3) by (auto simp: victims_def)
    moreover have "line_ok (lines lm) x" using qi x by (simp add: pq_inv_def pq_elems_def)
    ultimately show "line_ok ?ls x \<and> getpri (victim_line_pq lm) ?ls x = getpri (victim_line_pq lm) (lines lm) x
      \<and> getpos (victim_line_pq lm) ?ls x = getpos (victim_line_pq lm) (lines lm) x"
      using w by (simp add: wired_def victim_callbacks line_ok_def)
  qed
  have "lm_queue ?lm"
    using parts(2) qi' by (auto simp: lm_queue_def victims_def nth_update_at)
  moreover have "lm_partition (U - {l}) ?lm"
    using parts(1) l out by (auto simp: lm_partition_def victims_def)
  moreover have "lm_counters ?lm" using parts(3) by (simp add: lm_counters_def victims_def)
  moreover have "lm_pages pgs ?lm"
  proof -
    have "\<forall>x \<in> set (free_line_list lm) \<union> set (full_line_list lm) \<union> victims lm. ?ls ! x = lines lm ! x"
      using out by (metis UnE nth_list_update_neq)
    with parts(4) len show ?thesis by (auto simp: lm_pages_def victims_def nth_update_at)
  qed
  moreover have "lm_mark_line_free lm l = Some ?lm"
    using len by (simp add: lm_mark_line_free_def)
  ultimately show ?thesis by (auto simp: lm_inv_def victims_def)
qed

lemma lm_select_victim_line_ok:
  assumes inv: "lm_inv pgs U lm"
  shows "(victims lm = {} \<and> lm_select_victim_line pgs lm force = Some (None, lm))
    \<or> (\<exists>l \<in> victims lm. (\<forall>k \<in> victims lm. line_vpc (lines lm ! l) \<le> line_vpc (lines lm ! k))
        \<and> (if \<not> force \<and> line_vpc (lines lm ! l) > pgs div 8
           then lm_select_victim_line pgs lm force = Some (None, lm)
           else (\<exists>lm'. lm_select_victim_line pgs lm force = Some (Some l, lm')
             \<and> lm_inv pgs (insert l U) lm' \<and> same_lines (lines lm) (lines lm')
             \<and> free_line_list lm' = free_line_list lm \<and> full_line_list lm' = full_line_list lm
             \<and> victims lm' = victims lm - {l})))"
proof (cases "victims lm = {}")
  let ?q = "victim_line_pq lm"
  note parts = lm_inv_parts [OF inv]
  have w: "victim_wired ?q" and qi: "pq_inv line_ok ?q (lines lm)"
    using parts(2) by (auto simp: lm_queue_def)
  have size1: "q_size ?q = 1 \<longleftrightarrow> victims lm = {}"
    using victims_card [OF qi w] qi by (auto simp: victims_def pq_inv_def)
  { case True
    with size1 show ?thesis by (simp add: lm_select_victim_line_def pqueue_peek_def) }
  { case False
    with size1 have ne: "q_size ?q \<noteq> 1" by simp
    from vq.pqueue_pop_ok [OF w qi ne] obtain l d ls where
      pop: "pqueue_pop ?q (lines lm) = Some (Some l, ?q\<lparr> q_size := q_size ?q - 1, q_d := d \<rparr>, ls)"
      and lv: "l \<in> victims lm"
      and least: "\<forall>k \<in> victims lm. \<not> victim_line_cmp_pri (victim_line_get_pri (lines lm) l) (victim_line_get_pri (lines lm) k)"
      and qi': "pq_inv line_ok (?q\<lparr> q_size := q_size ?q - 1, q_d := d \<rparr>) ls"
      and el: "pq_elems (?q\<lparr> q_size := q_size ?q - 1, q_d := d \<rparr>) = victims lm - {l}"
      and same: "same_lines (lines lm) ls"
      and fr: "\<forall>y. line_ok (lines lm) y \<longrightarrow> y \<notin> victims lm - {l} \<longrightarrow>
         victim_line_get_pos ls y = victim_line_get_pos (lines lm) y"
      unfolding victims_def by blast
    let ?q' = "?q\<lparr> q_size := q_size ?q - 1, q_d := d \<rparr>"
    let ?ls = "ls[l := (ls ! l)\<lparr> line_pos := 0 \<rparr>]"
    let ?lm = "lm\<lparr> victim_line_pq := ?q', lines := ?ls, victim_line_cnt := victim_line_cnt lm - 1 \<rparr>"
    have len: "l < length (lines lm)" using parts(1) lv by (auto simp: lm_partition_def)
    have lls: "length ls = length (lines lm)" using same by (simp add: same_lines_iff)
    have head: "q_d ?q ! 1 = l"
      using pop ne by (auto simp: pqueue_pop_def fault_simps Let_def split: if_splits)
    have peek: "pqueue_peek ?q = Some (Some l)"
      using head ne qi by (auto simp: pqueue_peek_def pq_inv_def)
    have sel: "lm_select_victim_line pgs lm force =
        (if \<not> force \<and> line_vpc (lines lm ! l) > pgs div 8 then Some (None, lm) else Some (Some l, ?lm))"
      using peek len pop by (simp add: lm_select_victim_line_def)
    have vi: "victims ?lm = victims lm - {l}" using el by (simp add: victims_def)
    have same': "same_lines (lines lm) ?ls" using same len by (auto simp: same_lines_iff nth_update_at)
    have w': "victim_wired ?q'" using w by (simp add: wired_def)
    have "pq_inv line_ok ?q' ?ls"
    proof (rule pq_inv_frame [OF qi'])
      fix x assume x: "x \<in> pq_elems ?q'"
      then have "x \<noteq> l" using el by auto
      moreover have "line_ok ls x" using qi' x by (simp add: pq_inv_def pq_elems_def)
      ultimately show "line_ok ?ls x \<and> getpri ?q' ?ls x = getpri ?q' ls x \<and> getpos ?q' ?ls x = getpos ?q' ls x"
        using w' by (simp add: wired_def victim_callbacks line_ok_def)
    qed
    then have "lm_queue ?lm"
    proof -
      have "line_pos (?ls ! y) = 0" if y: "y < length (lines lm)" "y \<notin> pq_elems ?q'" for y
      proof (cases "y = l")
        case True
        with len lls show ?thesis by simp
      next
        case False
        then have "y \<notin> victims lm" using y el by simp
        then have "line_pos (lines lm ! y) = 0" using parts(2) y(1) by (auto simp: lm_queue_def)
        moreover have "line_pos (ls ! y) = line_pos (lines lm ! y)"
          using fr y(1) \<open>y \<notin> victims lm\<close> by (simp add: line_ok_def victim_line_get_pos_def)
        ultimately show ?thesis using False by simp
      qed
      then have "lm_queue (lm\<lparr> victim_line_pq := ?q', lines := ?ls \<rparr>)"
        using lls by (intro lm_queue_new [OF parts(2) w' \<open>pq_inv line_ok ?q' ?ls\<close>]) auto
      then show ?thesis by (simp add: lm_queue_def victims_def)
    qed
    moreover have "lm_partition (insert l U) ?lm"
      using parts(1) lv lls unfolding lm_partition_def vi by auto
    moreover have "lm_counters ?lm"
    proof -
      have fin: "finite (victims lm)" using victims_card(2) [OF qi w] by (simp add: victims_def)
      have "card (victims lm) = Suc (card (victims lm - {l}))"
        by (rule card_Suc_Diff1 [OF fin lv, symmetric])
      then have "of_nat (card (victims lm)) - 1 = (of_nat (card (victims lm - {l})) :: 32 word)"
        by (simp only: of_nat_Suc) simp
      then show ?thesis using parts(3) unfolding lm_counters_def vi by simp
    qed
    moreover have "lm_pages pgs ?lm"
    proof -
      have "\<forall>k \<in> pq_elems ?q'. k < length (lines lm) \<and> 0 < line_ipc (lines lm ! k)"
        unfolding el using parts(4) lm_members(2) [OF parts(1)] by (auto simp: lm_pages_def)
      from lm_pages_same [OF parts(4) same' this lm_members(1) [OF parts(1)]] show ?thesis
        by (simp add: lm_pages_def victims_def)
    qed
    ultimately have "lm_inv pgs (insert l U) ?lm" by (simp add: lm_inv_def)
    with sel lv least same' vi show ?thesis
      by (intro disjI2 bexI [of _ l]) (auto simp: victim_callbacks not_less) }
qed

text \<open>The line after one of its valid pages was invalidated.\<close>

definition page_dropped :: "line \<Rightarrow> line" where
  "page_dropped x = x\<lparr> line_ipc := line_ipc x + 1, line_vpc := line_vpc x - 1 \<rparr>"

lemma page_dropped_simps [simp]:
  "line_id (page_dropped x) = line_id x" "line_ipc (page_dropped x) = line_ipc x + 1"
  "line_vpc (page_dropped x) = line_vpc x - 1" "line_pos (page_dropped x) = line_pos x"
  by (simp_all add: page_dropped_def)

lemma lm_pages_dropped:
  assumes pages: "lm_pages pgs lm" and part: "lm_partition U lm" and l: "l < length (lines lm)"
    and v: "0 < line_vpc (lines lm ! l)"
    and ls: "same_lines ((lines lm)[l := page_dropped (lines lm ! l)]) ls"
    and free: "set fr \<subseteq> set (free_line_list lm)" and full: "set fu \<subseteq> set (full_line_list lm) - {l}"
    and q: "pq_elems q \<subseteq> insert l (victims lm)"
  shows "lm_pages pgs (lm\<lparr> lines := ls, victim_line_pq := q, free_line_list := fr, full_line_list := fu \<rparr>)"
proof -
  have len: "length ls = length (lines lm)" using ls by (simp add: same_lines_iff)
  have at: "line_id (ls ! k) = line_id (lines lm ! k) \<and> line_ipc (ls ! k) = line_ipc (lines lm ! k) + (if k = l then 1 else 0)
      \<and> line_vpc (ls ! k) = line_vpc (lines lm ! k) - (if k = l then 1 else 0)" if "k < length (lines lm)" for k
    using ls that by (auto simp: same_lines_iff nth_update_at)
  have "line_vpc (lines lm ! l) + line_ipc (lines lm ! l) \<le> pgs" using pages l by (simp add: lm_pages_def)
  then have 1: "\<forall>k < length ls. line_id (ls ! k) = k \<and> line_vpc (ls ! k) + line_ipc (ls ! k) \<le> pgs"
    using pages at v len by (auto simp: lm_pages_def)
  have in_range: "k < length (lines lm)" if "k \<in> set (free_line_list lm) \<union> set (full_line_list lm) \<union> victims lm" for k
    using lm_members [OF part] that by blast
  have "l \<notin> set (free_line_list lm)" using pages v by (auto simp: lm_pages_def)
  then have 2: "\<forall>k \<in> set fr. line_vpc (ls ! k) = 0 \<and> line_ipc (ls ! k) = 0"
    using pages at in_range free by (auto simp: lm_pages_def)
  have 3: "\<forall>k \<in> set fu. line_vpc (ls ! k) = pgs"
  proof
    fix k assume "k \<in> set fu"
    then have k: "k \<in> set (full_line_list lm)" "k \<noteq> l" using full by auto
    with at [of k] in_range [of k] pages show "line_vpc (ls ! k) = pgs" by (simp add: lm_pages_def)
  qed
  have 4: "\<forall>k \<in> pq_elems q. 0 < line_ipc (ls ! k)"
  proof
    fix k assume "k \<in> pq_elems q"
    then consider "k = l" | "k \<noteq> l" "k \<in> victims lm" using q by auto
    then show "0 < line_ipc (ls ! k)"
    proof cases
      case 1
      with at [of l] l show ?thesis by simp
    next
      case 2
      with at [of k] in_range [of k] pages show ?thesis by (simp add: lm_pages_def)
    qed
  qed
  show ?thesis using 1 2 3 4 by (simp add: lm_pages_def victims_def)
qed

lemma lm_line_invalid_ok:
  assumes inv: "lm_inv pgs U lm" and len: "l < length (lines lm)" and v: "0 < line_vpc (lines lm ! l)"
    and U: "l \<in> U \<Longrightarrow> line_vpc (lines lm ! l) < pgs"
  shows "\<exists>lm'. lm_line_invalid pgs lm l = Some lm' \<and> lm_inv pgs U lm'
     \<and> same_lines ((lines lm)[l := page_dropped (lines lm ! l)]) (lines lm')
     \<and> free_line_list lm' = free_line_list lm
     \<and> full_line_list lm' = remove1 l (full_line_list lm)
     \<and> victims lm' = (if l \<in> set (full_line_list lm) then insert l (victims lm) else victims lm)"
proof -
  let ?q = "victim_line_pq lm" and ?x = "lines lm ! l"
  let ?ls0 = "(lines lm)[l := ?x\<lparr> line_ipc := line_ipc ?x + 1 \<rparr>]"
  let ?ls1 = "(lines lm)[l := page_dropped ?x]"
  note parts = lm_inv_parts [OF inv]
  have w: "victim_wired ?q" and qi: "pq_inv line_ok ?q (lines lm)"
    using parts(2) by (auto simp: lm_queue_def)
  have pages: "line_vpc ?x + line_ipc ?x \<le> pgs" using parts(4) len by (simp add: lm_pages_def)
  have notfree: "l \<notin> set (free_line_list lm)" using parts(4) v by (auto simp: lm_pages_def)
  have full: "l \<in> set (full_line_list lm) \<longleftrightarrow> line_vpc ?x = pgs"
  proof
    assume "line_vpc ?x = pgs"
    then have "l \<notin> U" "l \<notin> victims lm" using U parts(4) pages by (auto simp: lm_pages_def)
    with notfree parts(1) len show "l \<in> set (full_line_list lm)" by (auto simp: lm_partition_def)
  qed (use parts(4) in \<open>simp add: lm_pages_def\<close>)
  have pos: "line_pos ?x \<noteq> 0 \<longleftrightarrow> l \<in> victims lm" using parts(2) len by (simp add: lm_queue_def)
  have outside: "line_pos (lines lm ! y) = 0" if "y < length (lines lm)" "y \<notin> victims lm" for y
    using parts(2) that by (auto simp: lm_queue_def)
  show ?thesis
  proof (cases "l \<in> victims lm")
    case True
    then have nf: "l \<notin> set (full_line_list lm)" using parts(1) by (auto simp: lm_partition_def)
    have "pq_inv line_ok ?q ?ls0"
      by (rule pq_inv_frame [OF qi])
        (use w qi in \<open>auto simp: wired_def victim_callbacks line_ok_def nth_update_at pq_inv_def pq_elems_def\<close>)
    from vq.pqueue_change_priority_ok [OF w this True [unfolded victims_def], of "line_vpc ?x - 1"]
    obtain d ls where ch: "pqueue_change_priority ?q ?ls0 (line_vpc ?x - 1) l = Some (?q\<lparr> q_d := d \<rparr>, ls)"
      and qi': "pq_inv line_ok (?q\<lparr> q_d := d \<rparr>) ls" and el: "pq_elems (?q\<lparr> q_d := d \<rparr>) = victims lm"
      and same: "same_lines (victim_line_set_pri ?ls0 l (line_vpc ?x - 1)) ls"
      and fr: "\<forall>y. line_ok ?ls0 y \<longrightarrow> y \<notin> victims lm \<longrightarrow> victim_line_get_pos ls y = victim_line_get_pos ?ls0 y"
      unfolding victims_def by blast
    have set: "victim_line_set_pri ?ls0 l (line_vpc ?x - 1) = ?ls1"
      using len by (simp add: victim_line_set_pri_def page_dropped_def)
    let ?lm = "lm\<lparr> lines := ls, victim_line_pq := ?q\<lparr> q_d := d \<rparr> \<rparr>"
    have lls: "length ls = length (lines lm)" using same set by (simp add: same_lines_iff)
    have "lm_line_invalid pgs lm l = Some ?lm"
      using len v pages nf full pos True ch by (simp add: lm_line_invalid_def Let_def)
    moreover have "lm_queue ?lm"
    proof -
      have "line_pos (ls ! y) = 0" if "y < length (lines lm)" "y \<notin> pq_elems (?q\<lparr> q_d := d \<rparr>)" for y
        using fr outside el that True
        by (auto simp: line_ok_def victim_line_get_pos_def nth_update_at)
      moreover have "victim_wired (?q\<lparr> q_d := d \<rparr>)" using w by (simp add: wired_def)
      ultimately have "lm_queue (lm\<lparr> victim_line_pq := ?q\<lparr> q_d := d \<rparr>, lines := ls \<rparr>)"
        using lls by (intro lm_queue_new [OF parts(2) _ qi']) auto
      then show ?thesis by (simp add: lm_queue_def victims_def)
    qed
    moreover have vi: "victims ?lm = victims lm" using el by (simp add: victims_def)
    moreover have "lm_partition U ?lm" using parts(1) lls unfolding lm_partition_def vi by simp
    moreover have "lm_counters ?lm" using parts(3) unfolding lm_counters_def vi by simp
    moreover have "lm_pages pgs ?lm"
      using lm_pages_dropped [OF parts(4,1) len v same [unfolded set], of "free_line_list lm" "full_line_list lm"
          "?q\<lparr> q_d := d \<rparr>"] el nf by (auto simp: lm_pages_def victims_def)
    ultimately show ?thesis using nf same set by (auto simp: lm_inv_def remove1_idem)
  next
    case False
    have ls1: "?ls0[l := (?ls0 ! l)\<lparr> line_vpc := line_vpc ?x - 1 \<rparr>] = ?ls1"
      using len by (simp add: page_dropped_def)
    have qi1: "pq_inv line_ok ?q ?ls1"
      by (rule pq_inv_frame [OF qi])
        (use w qi False in \<open>auto simp: wired_def victim_callbacks line_ok_def nth_update_at pq_inv_def pq_elems_def victims_def\<close>)
    have q1: "lm_queue (lm\<lparr> lines := ?ls1 \<rparr>)"
      using parts(2) qi1 by (auto simp: lm_queue_def victims_def nth_update_at)
    show ?thesis
    proof (cases "line_vpc ?x = pgs")
      case nf: False
      let ?lm = "lm\<lparr> lines := ?ls1 \<rparr>"
      have "lm_line_invalid pgs lm l = Some ?lm"
        using len v pages nf pos False ls1 by (simp add: lm_line_invalid_def Let_def page_dropped_def)
      moreover have "lm_partition U ?lm" using parts(1) by (simp add: lm_partition_def victims_def)
      moreover have "lm_counters ?lm" using parts(3) by (simp add: lm_counters_def victims_def)
      moreover have "lm_pages pgs ?lm"
      proof -
        have "same_lines ?ls1 ?ls1" by (simp add: same_lines_def)
        from lm_pages_dropped [OF parts(4,1) len v this, of "free_line_list lm" "full_line_list lm" ?q] nf full
        show ?thesis by (auto simp: lm_pages_def victims_def)
      qed
      ultimately show ?thesis
        using q1 nf full by (auto simp: lm_inv_def remove1_idem victims_def same_lines_def)
    next
      case fl: True
      then have lf: "l \<in> set (full_line_list lm)" using full by simp
      let ?lm1 = "lm\<lparr> lines := ?ls1 \<rparr>"
      from vq.pqueue_insert_ok [OF w qi1, of l] victim_queue_room [OF q1, of l] len False
      obtain d ls where ins: "pqueue_insert ?q ?ls1 l = Some (?q\<lparr> q_size := Suc (q_size ?q), q_d := d \<rparr>, ls)"
        and qi': "pq_inv line_ok (?q\<lparr> q_size := Suc (q_size ?q), q_d := d \<rparr>) ls"
        and el: "pq_elems (?q\<lparr> q_size := Suc (q_size ?q), q_d := d \<rparr>) = insert l (victims lm)"
        and same: "same_lines ?ls1 ls"
        and fr: "\<forall>y. line_ok ?ls1 y \<longrightarrow> y \<noteq> l \<longrightarrow> y \<notin> pq_elems ?q \<longrightarrow>
           victim_line_get_pos ls y = victim_line_get_pos ?ls1 y"
        by (auto simp: line_ok_def victims_def)
      let ?q' = "?q\<lparr> q_size := Suc (q_size ?q), q_d := d \<rparr>"
      have lls: "length ls = length (lines lm)" using same by (simp add: same_lines_iff)
      have rf: "remove1 l (free_line_list lm) = free_line_list lm" using notfree by (rule remove1_idem)
      let ?lm = "lm\<lparr> lines := ls, victim_line_pq := ?q', full_line_list := remove1 l (full_line_list lm),
        full_line_cnt := full_line_cnt lm - 1, victim_line_cnt := victim_line_cnt lm + 1 \<rparr>"
      have "lm_line_invalid pgs lm l = Some ?lm"
        using len v pages fl pos False ls1 ins rf by (simp add: lm_line_invalid_def Let_def page_dropped_def)
      moreover have vi: "victims ?lm = insert l (victims lm)" using el by (simp add: victims_def)
      moreover have "lm_queue ?lm"
      proof -
        have "line_pos (ls ! y) = 0" if "y < length (lines lm)" "y \<notin> pq_elems ?q'" for y
          using fr outside el that by (auto simp: line_ok_def victim_line_get_pos_def victims_def nth_update_at)
        moreover have "victim_wired ?q'" using w by (simp add: wired_def)
        ultimately have "lm_queue (lm\<lparr> victim_line_pq := ?q', lines := ls \<rparr>)"
          using lls by (intro lm_queue_new [OF parts(2) _ qi']) auto
        then show ?thesis by (simp add: lm_queue_def victims_def)
      qed
      moreover have dist: "distinct (full_line_list lm)" using parts(1) by (simp add: lm_partition_def)
      moreover have "lm_partition U ?lm"
        using parts(1) lf lls unfolding lm_partition_def vi by (auto simp: dist)
      moreover have "lm_counters ?lm"
      proof -
        have "length (full_line_list lm) = Suc (length (remove1 l (full_line_list lm)))"
          using lf by (simp add: length_remove1) (metis length_pos_if_in_set Suc_pred)
        then have "of_nat (length (full_line_list lm)) - 1 = (of_nat (length (remove1 l (full_line_list lm))) :: 32 word)"
          by (simp only: of_nat_Suc) simp
        moreover have "card (insert l (victims lm)) = Suc (card (victims lm))"
          using False victims_card(2) [OF qi w] by (simp add: victims_def)
        ultimately show ?thesis using parts(3) unfolding lm_counters_def vi by simp
      qed
      moreover have "lm_pages pgs ?lm"
        using lm_pages_dropped [OF parts(4,1) len v same, of "free_line_list lm" "remove1 l (full_line_list lm)" ?q']
          el dist by (auto simp: lm_pages_def victims_def)
      ultimately show ?thesis using lf same vi by (auto simp: lm_inv_def)
    qed
  qed
qed

section \<open>Line management as a state machine\<close>

text \<open>
  The states are the lines in use together with the \<open>line_mgmt\<close>; the steps are the operations,
  with the conditions under which the FTL applies them: pages are written only to lines in use
  that still have free pages, and a page of a line in use is invalidated only before the last
  page of the line is written (the line is retired right after).
\<close>

inductive lm_step :: "nat \<Rightarrow> nat set \<times> line_mgmt \<Rightarrow> nat set \<times> line_mgmt \<Rightarrow> bool" for pgs where
  take_line: "lm_get_next_free_line lm = (Some l, lm') \<Longrightarrow> lm_step pgs (U, lm) (insert l U, lm')"
| retire_line: "l \<in> U \<Longrightarrow> lm_retire_line pgs lm l = Some lm' \<Longrightarrow> lm_step pgs (U, lm) (U - {l}, lm')"
| write_page: "l \<in> U \<Longrightarrow> line_vpc (lines lm ! l) + line_ipc (lines lm ! l) < pgs \<Longrightarrow>
    lm_line_valid pgs lm l = Some lm' \<Longrightarrow> lm_step pgs (U, lm) (U, lm')"
| drop_page: "(l \<in> U \<Longrightarrow> line_vpc (lines lm ! l) < pgs) \<Longrightarrow>
    lm_line_invalid pgs lm l = Some lm' \<Longrightarrow> lm_step pgs (U, lm) (U, lm')"
| pick_victim: "lm_select_victim_line pgs lm force = Some (Some l, lm') \<Longrightarrow>
    lm_step pgs (U, lm) (insert l U, lm')"
| free_line: "l \<in> U \<Longrightarrow> lm_mark_line_free lm l = Some lm' \<Longrightarrow> lm_step pgs (U, lm) (U - {l}, lm')"

inductive_cases lm_stepE: "lm_step pgs (U, lm) (U', lm')"

inductive lm_reachable :: "ssdparams \<Rightarrow> nat \<Rightarrow> nat set \<times> line_mgmt \<Rightarrow> bool" for spp pgs where
  start: "init_line_mgmt spp = Some lm \<Longrightarrow> lm_reachable spp pgs ({}, lm)"
| step: "lm_reachable spp pgs s \<Longrightarrow> lm_step pgs s s' \<Longrightarrow> lm_reachable spp pgs s'"

lemma lm_step_inv:
  assumes "lm_step pgs (U, lm) (U', lm')" and inv: "lm_inv pgs U lm"
  shows "lm_inv pgs U' lm' \<and> length (lines lm') = length (lines lm)"
  using assms(1)
proof (rule lm_stepE)
  fix l
  assume U': "U' = insert l U" and "lm_get_next_free_line lm = (Some l, lm')"
  from lm_get_next_free_line_ok(1,4) [OF inv this(2)] show ?thesis by (simp add: U')
next
  fix l
  assume U': "U' = U - {l}" and l: "l \<in> U" and r: "lm_retire_line pgs lm l = Some lm'"
  then have "line_vpc (lines lm ! l) = pgs \<or> 0 < line_ipc (lines lm ! l)"
    by (auto simp: lm_retire_line_def fault_simps split: if_splits)
  from lm_retire_line_ok [OF inv l this] r show ?thesis by (auto simp: U' same_lines_iff)
next
  fix l
  assume U': "U' = U" and l: "l \<in> U" and "line_vpc (lines lm ! l) + line_ipc (lines lm ! l) < pgs"
    and r: "lm_line_valid pgs lm l = Some lm'"
  from lm_line_valid_ok [OF inv l this(3)] r show ?thesis by (auto simp: U')
next
  fix l
  assume U': "U' = U" and l: "l \<in> U \<Longrightarrow> line_vpc (lines lm ! l) < pgs" and r: "lm_line_invalid pgs lm l = Some lm'"
  then have "l < length (lines lm)" "0 < line_vpc (lines lm ! l)"
    by (auto simp: lm_line_invalid_def fault_simps Let_def)
  from lm_line_invalid_ok [OF inv this l] r show ?thesis by (auto simp: U' same_lines_iff)
next
  fix l force
  assume U': "U' = insert l U" and r: "lm_select_victim_line pgs lm force = Some (Some l, lm')"
  with lm_select_victim_line_ok [OF inv, of force] show ?thesis
    by (auto simp: U' same_lines_iff split: if_splits)
next
  fix l
  assume U': "U' = U - {l}" and l: "l \<in> U" and r: "lm_mark_line_free lm l = Some lm'"
  from lm_mark_line_free_ok [OF inv l] r show ?thesis by (auto simp: U')
qed

lemma lm_reachable_inv:
  "lm_reachable spp pgs s \<Longrightarrow> lm_inv pgs (fst s) (snd s) \<and> length (lines (snd s)) = blks_per_pl spp"
proof (induction rule: lm_reachable.induct)
  case (start lm)
  from init_line_mgmt_ok(1,2) [OF start] show ?case by simp
next
  case (step s s')
  then show ?case using lm_step_inv [of pgs "fst s" "snd s" "fst s'" "snd s'"] by simp
qed

text \<open>C17: No line is ever lost or held twice: after any sequence of line operations from initialisation
  (\<open>lm_step\<close>: the next free line or a victim is taken; only lines in use are retired or given back; a
  page is written on a line in use that has room, or dropped from a line, which, if it is in use, still counts fewer
  valid pages than it has), every line is in exactly one of the free list, the full list, the victim queue and the
  lines in use, and the three counters are the sizes.\<close>

theorem lines_never_lost:
  assumes "lm_reachable spp pgs (U, lm)"
  shows "U \<union> set (free_line_list lm) \<union> set (full_line_list lm) \<union> victims lm = {..<blks_per_pl spp}
    \<and> U \<inter> set (free_line_list lm) = {} \<and> U \<inter> set (full_line_list lm) = {} \<and> U \<inter> victims lm = {}
    \<and> set (free_line_list lm) \<inter> set (full_line_list lm) = {}
    \<and> set (free_line_list lm) \<inter> victims lm = {} \<and> set (full_line_list lm) \<inter> victims lm = {}
    \<and> distinct (free_line_list lm) \<and> distinct (full_line_list lm)
    \<and> free_line_cnt lm = of_nat (length (free_line_list lm))
    \<and> full_line_cnt lm = of_nat (length (full_line_list lm))
    \<and> victim_line_cnt lm = of_nat (card (victims lm))"
proof -
  from lm_reachable_inv [OF assms] have inv: "lm_partition U lm" "lm_counters lm"
    and len: "length (lines lm) = blks_per_pl spp" by (auto simp: lm_inv_def)
  from inv show ?thesis unfolding lm_partition_def lm_counters_def len by blast
qed

definition tiny_lm :: line_mgmt where
  "tiny_lm = the (init_line_mgmt tiny_params)"

lemma tiny_lm_init: "init_line_mgmt tiny_params = Some tiny_lm"
  by (simp add: tiny_lm_def init_line_mgmt_def upt_rec Let_def)

lemma lines_never_lost_witness:
  "set (free_line_list tiny_lm) \<union> set (full_line_list tiny_lm) \<union> victims tiny_lm = {..<4}
    \<and> free_line_cnt tiny_lm = of_nat (length (free_line_list tiny_lm))"
  using lines_never_lost [OF lm_reachable.start [OF tiny_lm_init]] by simp

text \<open>The victim picked for collection has the fewest valid pages of all victims. It is picked
  when forced or when at most an eighth of its pages are valid, leaves the victim queue and is in use;
  otherwise, or without victims, nothing changes. The call always returns.\<close>

theorem victim_is_greedy:
  assumes "lm_reachable spp pgs (U, lm)"
  shows "\<exists>r lm'. lm_select_victim_line pgs lm force = Some (r, lm')
    \<and> (case r of
         None \<Rightarrow> lm' = lm \<and> (victims lm = {} \<or> \<not> force \<and> (\<forall>k \<in> victims lm. pgs div 8 < line_vpc (lines lm ! k)))
       | Some l \<Rightarrow> l \<in> victims lm \<and> (\<forall>k \<in> victims lm. line_vpc (lines lm ! l) \<le> line_vpc (lines lm ! k))
           \<and> (force \<or> line_vpc (lines lm ! l) \<le> pgs div 8)
           \<and> victims lm' = victims lm - {l} \<and> lm_inv pgs (insert l U) lm')"
proof -
  from lm_reachable_inv [OF assms] have inv: "lm_inv pgs U lm" by simp
  consider (empty) "victims lm = {}" "lm_select_victim_line pgs lm force = Some (None, lm)"
    | (pick) l where "l \<in> victims lm" "\<forall>k \<in> victims lm. line_vpc (lines lm ! l) \<le> line_vpc (lines lm ! k)"
      "if \<not> force \<and> line_vpc (lines lm ! l) > pgs div 8
           then lm_select_victim_line pgs lm force = Some (None, lm)
           else (\<exists>lm'. lm_select_victim_line pgs lm force = Some (Some l, lm')
             \<and> lm_inv pgs (insert l U) lm' \<and> victims lm' = victims lm - {l})"
    using lm_select_victim_line_ok [OF inv, of force] by (auto split: if_splits)
  then show ?thesis
  proof cases
    case empty
    then show ?thesis by simp
  next
    case pick
    show ?thesis
    proof (cases "\<not> force \<and> line_vpc (lines lm ! l) > pgs div 8")
      case True
      with pick(3) have "lm_select_victim_line pgs lm force = Some (None, lm)" by simp
      moreover have "\<forall>k \<in> victims lm. pgs div 8 < line_vpc (lines lm ! k)"
        using True pick(2) less_le_trans by blast
      ultimately show ?thesis using True by simp
    next
      case False
      with pick(3) obtain lm' where "lm_select_victim_line pgs lm force = Some (Some l, lm')"
        "lm_inv pgs (insert l U) lm'" "victims lm' = victims lm - {l}" by auto
      with pick False show ?thesis by auto
    qed
  qed
qed

lemma victim_is_greedy_witness:
  "\<exists>r lm'. lm_select_victim_line 4 tiny_lm True = Some (r, lm')"
  using victim_is_greedy [OF lm_reachable.start [OF tiny_lm_init], of 4 True] by blast

text \<open>The small device with line 0 taken and its first page written.\<close>

definition tiny_lm_used :: line_mgmt where
  "tiny_lm_used = tiny_lm\<lparr> free_line_list := [1, 2, 3], free_line_cnt := 3,
     lines := (lines tiny_lm)[0 := (lines tiny_lm ! 0)\<lparr> line_vpc := 1 \<rparr>] \<rparr>"

lemma tiny_lm_lines: "lines tiny_lm = [\<lparr> line_id = 0, line_ipc = 0, line_vpc = 0, line_pos = 0 \<rparr>,
    \<lparr> line_id = 1, line_ipc = 0, line_vpc = 0, line_pos = 0 \<rparr>,
    \<lparr> line_id = 2, line_ipc = 0, line_vpc = 0, line_pos = 0 \<rparr>,
    \<lparr> line_id = 3, line_ipc = 0, line_vpc = 0, line_pos = 0 \<rparr>]"
  and tiny_lm_free: "free_line_list tiny_lm = [0, 1, 2, 3]" "free_line_cnt tiny_lm = 4"
  by (simp_all add: tiny_lm_def init_line_mgmt_def upt_rec Let_def)

lemma tiny_lm_used_reachable:
  assumes "0 < pgs"
  shows "lm_reachable tiny_params pgs ({0}, tiny_lm_used)"
proof -
  let ?m = "tiny_lm\<lparr> free_line_list := [1, 2, 3], free_line_cnt := 3 \<rparr>"
  have "lm_step pgs ({}, tiny_lm) (insert 0 {}, ?m)"
    by (rule take_line) (simp add: lm_get_next_free_line_def tiny_lm_free)
  from lm_reachable.step [OF lm_reachable.start [OF tiny_lm_init] this]
  have m: "lm_reachable tiny_params pgs ({0}, ?m)" by simp
  have "lm_step pgs ({0}, ?m) ({0}, tiny_lm_used)"
    by (rule write_page [of 0]) (use assms in \<open>simp_all add: lm_line_valid_def tiny_lm_used_def tiny_lm_lines\<close>)
  from lm_reachable.step [OF m this] show ?thesis .
qed

text \<open>The victim queue never needs to grow: whenever a used-up line is retired, whether its pages
  are all valid or some are invalid, the operation returns and stays inside the queue's array, the line
  becomes full or a victim accordingly, and the page counts of all lines stay as they are.\<close>

theorem retire_never_overflows:
  assumes "lm_reachable spp pgs (U, lm)" and "l \<in> U"
    and "line_vpc (lines lm ! l) = pgs \<or> 0 < line_ipc (lines lm ! l)"
  shows "\<exists>lm'. lm_retire_line pgs lm l = Some lm'
    \<and> (if line_vpc (lines lm ! l) = pgs then l \<in> set (full_line_list lm') else l \<in> victims lm')
    \<and> q_size (victim_line_pq lm') \<le> q_avail (victim_line_pq lm')
    \<and> (\<forall>k < length (lines lm). line_vpc (lines lm' ! k) = line_vpc (lines lm ! k)
         \<and> line_ipc (lines lm' ! k) = line_ipc (lines lm ! k))"
proof -
  from lm_reachable_inv [OF assms(1)] have inv: "lm_inv pgs U lm" by simp
  from lm_retire_line_ok [OF inv assms(2,3)] obtain lm' where
    r: "lm_retire_line pgs lm l = Some lm'" "lm_inv pgs (U - {l}) lm'" "same_lines (lines lm) (lines lm')"
    "if line_vpc (lines lm ! l) = pgs then l \<in> set (full_line_list lm') else l \<in> victims lm'" by blast
  from r(2) have "q_size (victim_line_pq lm') \<le> q_avail (victim_line_pq lm')"
    by (simp add: lm_inv_def lm_queue_def pq_inv_def)
  with r show ?thesis by (auto simp: same_lines_iff)
qed

lemma retire_never_overflows_witness:
  "\<exists>lm'. lm_retire_line 1 tiny_lm_used 0 = Some lm' \<and> 0 \<in> set (full_line_list lm')"
proof -
  have "line_vpc (lines tiny_lm_used ! 0) = 1" by (simp add: tiny_lm_used_def tiny_lm_lines)
  with retire_never_overflows [OF tiny_lm_used_reachable [of 1], of 0] show ?thesis by auto
qed

text \<open>Invalidating a page moves exactly one page of the line from valid to invalid, keeps the
  victim queue ordered, turns a full line into a victim and keeps every other line as it is.\<close>

theorem line_invalid_correct:
  assumes "lm_reachable spp pgs (U, lm)" and "l < length (lines lm)" and "0 < line_vpc (lines lm ! l)"
    and "l \<in> U \<longrightarrow> line_vpc (lines lm ! l) < pgs"
  shows "\<exists>lm'. lm_line_invalid pgs lm l = Some lm'
    \<and> line_vpc (lines lm' ! l) = line_vpc (lines lm ! l) - 1 \<and> line_ipc (lines lm' ! l) = line_ipc (lines lm ! l) + 1
    \<and> (\<forall>k < length (lines lm). k \<noteq> l \<longrightarrow> line_vpc (lines lm' ! k) = line_vpc (lines lm ! k)
         \<and> line_ipc (lines lm' ! k) = line_ipc (lines lm ! k))
    \<and> victims lm' = (if l \<in> set (full_line_list lm) then insert l (victims lm) else victims lm)
    \<and> l \<notin> set (full_line_list lm')
    \<and> heap (pri_le victim_line_cmp_pri victim_line_get_pri (lines lm'))
        (q_d (victim_line_pq lm')) (q_size (victim_line_pq lm'))"
proof -
  from lm_reachable_inv [OF assms(1)] have inv: "lm_inv pgs U lm" by simp
  from lm_line_invalid_ok [OF inv assms(2,3)] assms(4) obtain lm' where
    r: "lm_line_invalid pgs lm l = Some lm'" "lm_inv pgs U lm'"
    and same: "same_lines ((lines lm)[l := page_dropped (lines lm ! l)]) (lines lm')"
    and fu: "full_line_list lm' = remove1 l (full_line_list lm)"
    and vi: "victims lm' = (if l \<in> set (full_line_list lm) then insert l (victims lm) else victims lm)"
    by blast
  have "distinct (full_line_list lm)" using inv by (simp add: lm_inv_def lm_partition_def)
  then have "l \<notin> set (full_line_list lm')" by (simp add: fu)
  moreover have "heap (pri_le victim_line_cmp_pri victim_line_get_pri (lines lm'))
        (q_d (victim_line_pq lm')) (q_size (victim_line_pq lm'))"
  proof -
    have "victim_wired (victim_line_pq lm')" "pq_inv line_ok (victim_line_pq lm') (lines lm')"
      using r(2) by (auto simp: lm_inv_def lm_queue_def)
    then show ?thesis using vq.pq_inv_wired by blast
  qed
  ultimately show ?thesis using r same vi assms(2) by (auto simp: same_lines_iff nth_update_at)
qed

lemma line_invalid_correct_witness:
  "\<exists>lm'. lm_line_invalid 4 tiny_lm_used 0 = Some lm' \<and> line_vpc (lines lm' ! 0) = 0"
proof -
  have "line_vpc (lines tiny_lm_used ! 0) = 1" "length (lines tiny_lm_used) = 4"
    by (simp_all add: tiny_lm_used_def tiny_lm_lines)
  with line_invalid_correct [OF tiny_lm_used_reachable [of 4], of 0] show ?thesis by auto
qed

end
