(* ===== verification/Conv_FTL.thy ===== *)
theory Conv_FTL
  imports Ssd Line_Mgmt
begin

text \<open>
  The conventional FTL (\<open>conv_ftl.h\<close>, \<open>conv_ftl.c\<close>): its state and the mapping tables.
  Page status, write pointers, garbage collection, hotness tracking and the host commands are in
  \<open>Page_Status\<close>, \<open>Write_Pointer\<close>, \<open>Conv_GC\<close>, \<open>Hotness\<close> and \<open>Conv_IO\<close>.

  The C functions change \<open>conv_ftl\<close> through a pointer; here they return the changed state, and
  \<open>None\<close> where the kernel stops. The member \<open>op_area_pcent\<close> (a \<open>double\<close>) is used only to
  compute \<open>pba_pcent\<close>, which is the build macro \<open>OP_AREA_PBA_PCENT\<close>.
\<close>

section \<open>State\<close>

record convparams =
  gc_thres_lines :: "32 word"
  gc_thres_lines_high :: "32 word"
  enable_gc_delay :: bool
  pba_pcent :: nat

record write_pointer =
  curline :: "nat option"
  wp_ch :: nat
  wp_lun :: nat
  wp_pg :: nat
  wp_blk :: nat
  wp_pl :: nat

record write_flow_control =
  write_credits :: "32 word"
  credits_to_refill :: "32 word"

record page_hotness =
  hot_lpn :: nat
  access_count :: "32 word"
  recent_access :: "32 word"
  last_access_time :: nat
  hot_storage_type :: storage_type
  is_migrating :: bool

record migration_mgmt =
  hotness_table :: "page_hotness list"
  mm_table_size :: nat
  mm_hot_threshold :: "32 word"
  mm_cold_threshold :: "32 word"
  mm_migration_interval :: nat
  last_migration_check :: nat
  mm_max_migrations_per_check :: "32 word"
  current_migrations :: "32 word"

record conv_ftl =
  ftl_ssd :: ssd
  cp :: convparams
  maptbl :: "ppa list"
  rmap :: "nat list"
  user_wp :: write_pointer
  gc_wp :: write_pointer
  lm :: line_mgmt
  wfc :: write_flow_control
  lunlm :: "line_mgmt list"
  lunwp :: "write_pointer list"
  lunpointer :: nat
  migration :: migration_mgmt
  total_slc_pages :: nat
  used_slc_pages :: nat
  total_qlc_pages :: nat
  used_qlc_pages :: nat

abbreviation spp_of :: "conv_ftl \<Rightarrow> ssdparams" where
  "spp_of ftl \<equiv> ssd_sp (ftl_ssd ftl)"

section \<open>Small queries\<close>

definition last_pg_in_wordline :: "conv_ftl \<Rightarrow> ppa \<Rightarrow> bool option" where
  "last_pg_in_wordline ftl p = do {
     r \<leftarrow> mod_trap (g_pg p) (pgs_per_oneshotpg (spp_of ftl));
     Some (r = pgs_per_oneshotpg (spp_of ftl) - 1)
   }"

definition should_gc :: "conv_ftl \<Rightarrow> bool" where
  "should_gc ftl \<longleftrightarrow> free_line_cnt (lm ftl) \<le> gc_thres_lines (cp ftl)"

definition should_gc_high :: "conv_ftl \<Rightarrow> bool" where
  "should_gc_high ftl \<longleftrightarrow> free_line_cnt (lm ftl) \<le> gc_thres_lines_high (cp ftl)"

definition valid_ppa :: "conv_ftl \<Rightarrow> ppa \<Rightarrow> bool" where
  "valid_ppa ftl p \<longleftrightarrow> (let spp = spp_of ftl in
     g_ch p < nchs spp \<and> g_lun p < luns_per_ch spp \<and> g_pl p < pls_per_lun spp
     \<and> g_blk p < blks_per_pl spp \<and> g_pg p < pgs_per_blk spp)"

definition valid_lpn :: "conv_ftl \<Rightarrow> nat \<Rightarrow> bool" where
  "valid_lpn ftl lpn \<longleftrightarrow> lpn < tt_pgs (spp_of ftl)"

definition get_glun :: "conv_ftl \<Rightarrow> ppa \<Rightarrow> nat" where
  "get_glun ftl p = u32 (g_lun p * nchs (spp_of ftl) + g_ch p)"

definition is_same_flash_page :: "conv_ftl \<Rightarrow> ppa \<Rightarrow> ppa \<Rightarrow> bool option" where
  "is_same_flash_page ftl p1 p2 = do {
     a \<leftarrow> div_trap (g_pg p1) (pgs_per_flashpg (spp_of ftl));
     b \<leftarrow> div_trap (g_pg p2) (pgs_per_flashpg (spp_of ftl));
     Some (h_blk_in_ssd p1 = h_blk_in_ssd p2 \<and> a = b)
   }"

section \<open>The mapping tables\<close>

definition get_maptbl_ent :: "conv_ftl \<Rightarrow> nat \<Rightarrow> ppa option" where
  "get_maptbl_ent ftl lpn = arr_get (maptbl ftl) lpn"

definition set_maptbl_ent :: "conv_ftl \<Rightarrow> nat \<Rightarrow> ppa \<Rightarrow> conv_ftl option" where
  "set_maptbl_ent ftl lpn p = do {
     nvmev_assert (lpn < tt_pgs (spp_of ftl));
     t \<leftarrow> arr_set (maptbl ftl) lpn p;
     Some (ftl\<lparr> maptbl := t \<rparr>)
   }"

definition pgidx_of :: "ssdparams \<Rightarrow> ppa \<Rightarrow> nat" where
  "pgidx_of spp p = u64 (g_ch p * pgs_per_ch spp + g_lun p * pgs_per_lun spp
     + g_pl p * pgs_per_pl spp + g_blk p * pgs_per_blk spp + g_pg p)"

definition ppa2pgidx :: "conv_ftl \<Rightarrow> ppa \<Rightarrow> nat option" where
  "ppa2pgidx ftl p = do {
     let pgidx = pgidx_of (spp_of ftl) p;
     nvmev_assert (pgidx < tt_pgs (spp_of ftl));
     Some pgidx
   }"

definition get_rmap_ent :: "conv_ftl \<Rightarrow> ppa \<Rightarrow> nat option" where
  "get_rmap_ent ftl p = do { i \<leftarrow> ppa2pgidx ftl p; arr_get (rmap ftl) i }"

definition set_rmap_ent :: "conv_ftl \<Rightarrow> nat \<Rightarrow> ppa \<Rightarrow> conv_ftl option" where
  "set_rmap_ent ftl lpn p = do {
     i \<leftarrow> ppa2pgidx ftl p;
     r \<leftarrow> arr_set (rmap ftl) i lpn;
     Some (ftl\<lparr> rmap := r \<rparr>)
   }"

section \<open>Write flow control\<close>

definition consume_write_credit :: "conv_ftl \<Rightarrow> conv_ftl" where
  "consume_write_credit ftl = ftl\<lparr> wfc := (wfc ftl)\<lparr> write_credits := write_credits (wfc ftl) - 1 \<rparr> \<rparr>"

section \<open>Initialisation\<close>

definition init_lines :: "conv_ftl \<Rightarrow> conv_ftl option" where
  "init_lines ftl = do { m \<leftarrow> init_line_mgmt (spp_of ftl); Some (ftl\<lparr> lm := m \<rparr>) }"

definition init_lines_DA :: "conv_ftl \<Rightarrow> conv_ftl option" where
  "init_lines_DA ftl = do {
     let spp = spp_of ftl;
     foldM (\<lambda>lun ftl. do {
       m \<leftarrow> init_line_mgmt spp;
       ms \<leftarrow> arr_set (lunlm ftl) lun m;
       Some (ftl\<lparr> lunlm := ms \<rparr>)
     }) [0..<u32 (luns_per_ch spp * nchs spp)] ftl
   }"

definition init_write_flow_control :: "conv_ftl \<Rightarrow> conv_ftl" where
  "init_write_flow_control ftl =
     ftl\<lparr> wfc := \<lparr> write_credits = of_nat (pgs_per_line (spp_of ftl)),
                   credits_to_refill = of_nat (pgs_per_line (spp_of ftl)) \<rparr> \<rparr>"

definition init_maptbl :: "conv_ftl \<Rightarrow> conv_ftl" where
  "init_maptbl ftl = ftl\<lparr> maptbl := replicate (tt_pgs (spp_of ftl)) UNMAPPED_PPA \<rparr>"

definition init_rmap :: "conv_ftl \<Rightarrow> conv_ftl" where
  "init_rmap ftl = ftl\<lparr> rmap := replicate (tt_pgs (spp_of ftl)) INVALID_LPN \<rparr>"

definition conv_init_params :: "build_macros \<Rightarrow> convparams" where
  "conv_init_params m = \<lparr> gc_thres_lines = 2, gc_thres_lines_high = 2, enable_gc_delay = True,
     pba_pcent = OP_AREA_PBA_PCENT m \<rparr>"

section \<open>Page indices are a bijection\<close>

text \<open>\<open>page_addr\<close> is the position of a page in the device, counted channel by channel.\<close>

definition page_addr :: "ssdparams \<Rightarrow> ppa \<Rightarrow> nat" where
  "page_addr spp p = (((g_ch p * luns_per_ch spp + g_lun p) * pls_per_lun spp + g_pl p) * blks_per_pl spp
     + g_blk p) * pgs_per_blk spp + g_pg p"

definition in_device :: "ssdparams \<Rightarrow> ppa \<Rightarrow> bool" where
  "in_device spp p \<longleftrightarrow> g_ch p < nchs spp \<and> g_lun p < luns_per_ch spp \<and> g_pl p < pls_per_lun spp
     \<and> g_blk p < blks_per_pl spp \<and> g_pg p < pgs_per_blk spp"

text \<open>The geometry fits the fields of a \<open>ppa\<close>.\<close>

definition fields_fit :: "ssdparams \<Rightarrow> bool" where
  "fields_fit spp \<longleftrightarrow> nchs spp \<le> 256 \<and> luns_per_ch spp \<le> 256 \<and> pls_per_lun spp \<le> 256
     \<and> blks_per_pl spp \<le> 65536 \<and> pgs_per_blk spp \<le> 65536"

definition sane_params :: "ssdparams \<Rightarrow> bool" where
  "sane_params spp \<longleftrightarrow> geometry_ok spp \<and> tt_pgs spp < 2 ^ 64"

lemma valid_ppa_in_device: "valid_ppa ftl p \<longleftrightarrow> in_device (spp_of ftl) p"
  by (simp add: valid_ppa_def in_device_def Let_def)

lemma radix_step: "b < n \<Longrightarrow> a < m \<Longrightarrow> a * n + b < m * (n::nat)"
proof -
  assume "b < n" "a < m"
  then have "a * n + b < a * n + n" "(a + 1) * n \<le> m * n" by (auto simp del: mult_Suc)
  then show ?thesis by simp
qed

lemma radix_eq: "b < n \<Longrightarrow> d < n \<Longrightarrow> a * n + b = c * n + d \<longleftrightarrow> a = c \<and> b = (d::nat)"
proof -
  assume l: "b < n" "d < n"
  have "(a * n + b) div n = a" "(a * n + b) mod n = b" "(c * n + d) div n = c" "(c * n + d) mod n = d"
    using l by (simp_all add: div_add1_eq)
  then show ?thesis by metis
qed

lemma page_addr_bound: "in_device spp p \<Longrightarrow> page_addr spp p < device_pages spp"
  unfolding page_addr_def device_pages_def in_device_def
  by (simp only: mult.assoc [symmetric]) (intro radix_step; simp)

lemma page_addr_eq:
  assumes "in_device spp p" and "in_device spp q"
  shows "page_addr spp p = page_addr spp q \<longleftrightarrow> pg_key p = pg_key q"
  using assms by (auto simp: page_addr_def in_device_def radix_eq pg_key_def)

lemma pgidx_of_addr:
  assumes "geometry_ok spp"
  shows "pgidx_of spp p = u64 (page_addr spp p)"
proof -
  have "g_ch p * pgs_per_ch spp + g_lun p * pgs_per_lun spp + g_pl p * pgs_per_pl spp
      + g_blk p * pgs_per_blk spp + g_pg p = page_addr spp p"
    using assms unfolding geometry_ok_def by (simp add: page_addr_def algebra_simps)
  then show ?thesis by (simp add: pgidx_of_def)
qed

lemma ppa2pgidx_Some:
  assumes "sane_params (spp_of ftl)" and "valid_ppa ftl p"
  shows "ppa2pgidx ftl p = Some (page_addr (spp_of ftl) p)" and "page_addr (spp_of ftl) p < tt_pgs (spp_of ftl)"
proof -
  have g: "geometry_ok (spp_of ftl)" and t: "tt_pgs (spp_of ftl) < 2 ^ 64"
    using assms(1) by (auto simp: sane_params_def)
  have b: "page_addr (spp_of ftl) p < tt_pgs (spp_of ftl)"
    using page_addr_bound assms(2) geometry_products(1) [OF g] by (simp add: valid_ppa_in_device)
  then have "pgidx_of (spp_of ftl) p = page_addr (spp_of ftl) p"
    using t by (simp add: pgidx_of_addr [OF g])
  with b show "ppa2pgidx ftl p = Some (page_addr (spp_of ftl) p)" "page_addr (spp_of ftl) p < tt_pgs (spp_of ftl)"
    by (simp_all add: ppa2pgidx_def)
qed

text \<open>The address with the given fields.\<close>

definition mk_ppa :: "nat \<Rightarrow> nat \<Rightarrow> nat \<Rightarrow> nat \<Rightarrow> nat \<Rightarrow> ppa" where
  "mk_ppa ch lun pl blk pg = set_g_pg pg (set_g_blk blk (set_g_pl pl (set_g_lun lun (set_g_ch ch 0))))"

lemma mk_ppa_fields:
  "ch < 256 \<Longrightarrow> g_ch (mk_ppa ch lun pl blk pg) = ch" "lun < 256 \<Longrightarrow> g_lun (mk_ppa ch lun pl blk pg) = lun"
  "pl < 256 \<Longrightarrow> g_pl (mk_ppa ch lun pl blk pg) = pl" "blk < 65536 \<Longrightarrow> g_blk (mk_ppa ch lun pl blk pg) = blk"
  "pg < 65536 \<Longrightarrow> g_pg (mk_ppa ch lun pl blk pg) = pg"
  by (simp_all add: mk_ppa_def)

lemma page_addr_surj:
  assumes fit: "fields_fit spp" and i: "i < device_pages spp"
  shows "\<exists>p. in_device spp p \<and> page_addr spp p = i"
proof -
  let ?G = "pgs_per_blk spp" and ?B = "blks_per_pl spp" and ?P = "pls_per_lun spp" and ?L = "luns_per_ch spp"
  let ?b = "i div ?G" let ?p = "?b div ?B" let ?l = "?p div ?P" let ?c = "?l div ?L"
  have pos: "0 < ?G" "0 < ?B" "0 < ?P" "0 < ?L"
    using i unfolding device_pages_def by (auto intro: Nat.gr0I)
  have "i < nchs spp * ?L * ?P * ?B * ?G" using i by (simp add: device_pages_def mult.assoc)
  then have "?c < nchs spp" by (simp add: less_mult_imp_div_less)
  then have lt: "?c < 256" "?l mod ?L < 256" "?p mod ?P < 256" "?b mod ?B < 65536" "i mod ?G < 65536"
    using fit pos unfolding fields_fit_def
    by (meson less_le_trans mod_less_divisor)+
  let ?q = "mk_ppa ?c (?l mod ?L) (?p mod ?P) (?b mod ?B) (i mod ?G)"
  have "in_device spp ?q"
    using pos \<open>?c < nchs spp\<close> by (simp add: in_device_def mk_ppa_fields lt)
  moreover have "page_addr spp ?q = i" by (simp add: page_addr_def mk_ppa_fields lt)
  ultimately show ?thesis by blast
qed

section \<open>A two-way page map, as an interface\<close>

text \<open>
  What the write paths and the collector need of \<open>maptbl\<close> and \<open>rmap\<close>: a store to one table
  changes that entry only. \<open>legal\<close> are the addresses the reverse table has an entry for, and
  \<open>key\<close> says when two addresses are the same page.
\<close>

locale page_map =
  fixes lookup :: "'s \<Rightarrow> nat \<Rightarrow> 'p option" and owner :: "'s \<Rightarrow> 'p \<Rightarrow> nat option"
    and put_map :: "'s \<Rightarrow> nat \<Rightarrow> 'p \<Rightarrow> 's option" and put_owner :: "'s \<Rightarrow> nat \<Rightarrow> 'p \<Rightarrow> 's option"
    and legal :: "'s \<Rightarrow> 'p \<Rightarrow> bool" and lpns :: "'s \<Rightarrow> nat set" and key :: "'p \<Rightarrow> 'k"
  assumes put_map_lookup: "put_map s l p = Some s' \<Longrightarrow> lookup s' m = (if m = l then Some p else lookup s m)"
    and put_map_owner: "put_map s l p = Some s' \<Longrightarrow> owner s' q = owner s q"
    and put_map_frame: "put_map s l p = Some s' \<Longrightarrow> legal s' q = legal s q \<and> lpns s' = lpns s"
    and put_map_defined: "l \<in> lpns s \<Longrightarrow> \<exists>s'. put_map s l p = Some s'"
    and put_owner_owner: "put_owner s l p = Some s' \<Longrightarrow> legal s p \<Longrightarrow> legal s q \<Longrightarrow>
          owner s' q = (if key q = key p then Some l else owner s q)"
    and put_owner_lookup: "put_owner s l p = Some s' \<Longrightarrow> lookup s' m = lookup s m"
    and put_owner_frame: "put_owner s l p = Some s' \<Longrightarrow> legal s' q = legal s q \<and> lpns s' = lpns s"
    and put_owner_defined: "legal s p \<Longrightarrow> \<exists>s'. put_owner s l p = Some s'"
    and owner_key: "legal s p \<Longrightarrow> legal s q \<Longrightarrow> key p = key q \<Longrightarrow> owner s p = owner s q"

text \<open>Every mapped logical page owns the page it is mapped to.\<close>

definition map_consistent :: "('s \<Rightarrow> nat \<Rightarrow> 'p option) \<Rightarrow> ('s \<Rightarrow> 'p \<Rightarrow> nat option) \<Rightarrow> ('s \<Rightarrow> 'p \<Rightarrow> bool)
    \<Rightarrow> ('p \<Rightarrow> bool) \<Rightarrow> 's \<Rightarrow> bool" where
  "map_consistent lookup owner legal is_mapped s \<longleftrightarrow>
     (\<forall>l p. lookup s l = Some p \<and> is_mapped p \<longrightarrow> legal s p \<and> owner s p = Some l)"

context page_map
begin

lemma consistent_inj:
  assumes "map_consistent lookup owner legal mp s"
    and "lookup s l = Some p" "mp p" "lookup s m = Some q" "mp q" "key p = key q"
  shows "l = m"
proof -
  from assms have "owner s p = Some l" "owner s q = Some m" "legal s p" "legal s q"
    unfolding map_consistent_def by blast+
  moreover have "owner s p = owner s q" by (rule owner_key) fact+
  ultimately show ?thesis by simp
qed

text \<open>Mapping a page that no other logical page uses keeps the map consistent.\<close>

lemma remap:
  assumes con: "map_consistent lookup owner legal mp s" and legal: "legal s p" and l: "l \<in> lpns s"
    and fresh: "\<And>m q. lookup s m = Some q \<Longrightarrow> mp q \<Longrightarrow> key q = key p \<Longrightarrow> m = l"
  obtains s1 s2 where "put_map s l p = Some s1" and "put_owner s1 l p = Some s2"
    and "map_consistent lookup owner legal mp s2"
    and "\<And>m. lookup s2 m = (if m = l then Some p else lookup s m)"
    and "\<And>q. legal s q \<Longrightarrow> owner s2 q = (if key q = key p then Some l else owner s q)"
    and "\<And>q. legal s2 q = legal s q" and "lpns s2 = lpns s"
proof -
  obtain s1 where 1: "put_map s l p = Some s1" using put_map_defined [OF l] by blast
  have leg1: "legal s1 q = legal s q" "lpns s1 = lpns s" for q using put_map_frame [OF 1] by auto
  obtain s2 where 2: "put_owner s1 l p = Some s2" using put_owner_defined [of s1 p l] legal leg1 by blast
  have leg2: "legal s2 q = legal s q" "lpns s2 = lpns s" for q using put_owner_frame [OF 2] leg1 by auto
  have look: "lookup s2 m = (if m = l then Some p else lookup s m)" for m
    using put_owner_lookup [OF 2] put_map_lookup [OF 1] by simp
  have own: "owner s2 q = (if key q = key p then Some l else owner s q)" if "legal s q" for q
    using put_owner_owner [OF 2, of q] put_map_owner [OF 1, of q] that legal leg1 by simp
  have "map_consistent lookup owner legal mp s2"
    unfolding map_consistent_def
  proof (intro allI impI, elim conjE)
    fix m q
    assume "lookup s2 m = Some q" and q: "mp q"
    show "legal s2 q \<and> owner s2 q = Some m"
    proof (cases "m = l")
      case True
      with \<open>lookup s2 m = Some q\<close> look have "q = p" by simp
      with True own [OF legal] legal leg2 show ?thesis by simp
    next
      case False
      with \<open>lookup s2 m = Some q\<close> look have m: "lookup s m = Some q" by simp
      with con q have "legal s q" "owner s q = Some m" by (auto simp: map_consistent_def)
      moreover have "key q \<noteq> key p" using fresh [OF m q] False by blast
      ultimately show ?thesis using own leg2 by simp
    qed
  qed
  with 1 2 look own leg2 that show ?thesis by blast
qed

end

text \<open>The tables of the FTL provide it.\<close>

definition rmap_legal :: "conv_ftl \<Rightarrow> ppa \<Rightarrow> bool" where
  "rmap_legal ftl p \<longleftrightarrow> sane_params (spp_of ftl) \<and> valid_ppa ftl p \<and> length (rmap ftl) = tt_pgs (spp_of ftl)"

definition ftl_lpns :: "conv_ftl \<Rightarrow> nat set" where
  "ftl_lpns ftl = {lpn. lpn < tt_pgs (spp_of ftl) \<and> lpn < length (maptbl ftl)}"

lemma set_maptbl_ent_eq:
  "set_maptbl_ent ftl l p = Some ftl' \<longleftrightarrow>
     l < tt_pgs (spp_of ftl) \<and> l < length (maptbl ftl) \<and> ftl' = ftl\<lparr> maptbl := (maptbl ftl)[l := p] \<rparr>"
  by (auto simp: set_maptbl_ent_def fault_simps)

lemma set_rmap_ent_eq:
  "set_rmap_ent ftl l p = Some ftl' \<longleftrightarrow>
     (\<exists>i. ppa2pgidx ftl p = Some i \<and> i < length (rmap ftl) \<and> ftl' = ftl\<lparr> rmap := (rmap ftl)[i := l] \<rparr>)"
  by (auto simp: set_rmap_ent_def fault_simps)

lemma rmap_legal_idx:
  assumes "rmap_legal ftl p"
  shows "ppa2pgidx ftl p = Some (page_addr (spp_of ftl) p)" "page_addr (spp_of ftl) p < length (rmap ftl)"
  using ppa2pgidx_Some [of ftl p] assms by (auto simp: rmap_legal_def)

lemma get_rmap_ent_legal:
  "rmap_legal ftl p \<Longrightarrow> get_rmap_ent ftl p = Some (rmap ftl ! page_addr (spp_of ftl) p)"
  using rmap_legal_idx [of ftl p] by (simp add: get_rmap_ent_def)

lemma valid_ppa_tables [simp]:
  "valid_ppa (ftl\<lparr> maptbl := t \<rparr>) = valid_ppa ftl" "valid_ppa (ftl\<lparr> rmap := r \<rparr>) = valid_ppa ftl"
  by (simp_all add: valid_ppa_def fun_eq_iff)

lemma ppa2pgidx_tables [simp]:
  "ppa2pgidx (ftl\<lparr> maptbl := t \<rparr>) = ppa2pgidx ftl" "ppa2pgidx (ftl\<lparr> rmap := r \<rparr>) = ppa2pgidx ftl"
  by (simp_all add: ppa2pgidx_def fun_eq_iff)

interpretation pm: page_map get_maptbl_ent get_rmap_ent set_maptbl_ent set_rmap_ent rmap_legal ftl_lpns pg_key
proof
  fix s l p s' m
  assume "set_maptbl_ent s l p = Some s'"
  then show "get_maptbl_ent s' m = (if m = l then Some p else get_maptbl_ent s m)"
    by (auto simp: set_maptbl_ent_eq get_maptbl_ent_def arr_get_def)
next
  fix s l p s' q
  assume "set_maptbl_ent s l p = Some s'"
  then show "get_rmap_ent s' q = get_rmap_ent s q" "rmap_legal s' q = rmap_legal s q \<and> ftl_lpns s' = ftl_lpns s"
    by (auto simp: set_maptbl_ent_eq get_rmap_ent_def rmap_legal_def ftl_lpns_def)
next
  fix l s and p :: ppa
  assume "l \<in> ftl_lpns s"
  then show "\<exists>s'. set_maptbl_ent s l p = Some s'" by (simp add: set_maptbl_ent_eq ftl_lpns_def)
next
  fix s l p s' q
  assume set: "set_rmap_ent s l p = Some s'" and p: "rmap_legal s p" and q: "rmap_legal s q"
  from set rmap_legal_idx [OF p]
  have s': "s' = s\<lparr> rmap := (rmap s)[page_addr (spp_of s) p := l] \<rparr>" by (simp add: set_rmap_ent_eq)
  then have "get_rmap_ent s' q = Some ((rmap s)[page_addr (spp_of s) p := l] ! page_addr (spp_of s) q)"
    using rmap_legal_idx [OF q] by (simp add: get_rmap_ent_def)
  moreover have "page_addr (spp_of s) p = page_addr (spp_of s) q \<longleftrightarrow> pg_key p = pg_key q"
    using page_addr_eq p q by (simp add: rmap_legal_def valid_ppa_in_device)
  ultimately show "get_rmap_ent s' q = (if pg_key q = pg_key p then Some l else get_rmap_ent s q)"
    using get_rmap_ent_legal [OF q] rmap_legal_idx [OF p] rmap_legal_idx [OF q] by auto
next
  fix s l p s' m q
  assume "set_rmap_ent s l p = Some s'"
  then show "get_maptbl_ent s' m = get_maptbl_ent s m" "rmap_legal s' q = rmap_legal s q \<and> ftl_lpns s' = ftl_lpns s"
    by (auto simp: set_rmap_ent_eq get_maptbl_ent_def rmap_legal_def ftl_lpns_def)
next
  fix s p l
  assume "rmap_legal s p"
  with rmap_legal_idx show "\<exists>s'. set_rmap_ent s l p = Some s'" by (simp add: set_rmap_ent_eq)
next
  fix s p q
  assume p: "rmap_legal s p" and q: "rmap_legal s q" and k: "pg_key p = pg_key q"
  then have "page_addr (spp_of s) p = page_addr (spp_of s) q"
    using page_addr_eq by (simp add: rmap_legal_def valid_ppa_in_device)
  with p q show "get_rmap_ent s p = get_rmap_ent s q" by (simp add: get_rmap_ent_legal)
qed

definition mapping_ok :: "conv_ftl \<Rightarrow> bool" where
  "mapping_ok ftl \<longleftrightarrow> sane_params (spp_of ftl) \<and> length (maptbl ftl) = tt_pgs (spp_of ftl)
     \<and> length (rmap ftl) = tt_pgs (spp_of ftl)
     \<and> map_consistent get_maptbl_ent get_rmap_ent rmap_legal mapped_ppa ftl"

text \<open>C22: The page index is a bijection between the pages of the device and \<open>0 .. tt_pgs - 1\<close>: every
  valid address has an index, the assertion of \<open>ppa2pgidx\<close> never fires on it, two valid addresses
  have the same index exactly when they name the same page, and every index is the index of a
  valid address when the geometry fits the bit fields.\<close>

theorem ppa2pgidx_bijection:
  assumes "sane_params (spp_of ftl)"
  shows "(\<forall>p. valid_ppa ftl p \<longrightarrow> (\<exists>i < tt_pgs (spp_of ftl). ppa2pgidx ftl p = Some i))
    \<and> (\<forall>p q. valid_ppa ftl p \<and> valid_ppa ftl q \<longrightarrow> (ppa2pgidx ftl p = ppa2pgidx ftl q \<longleftrightarrow> pg_key p = pg_key q))
    \<and> (fields_fit (spp_of ftl) \<longrightarrow>
        (\<forall>i < tt_pgs (spp_of ftl). \<exists>p. valid_ppa ftl p \<and> ppa2pgidx ftl p = Some i))"
proof -
  have dev: "tt_pgs (spp_of ftl) = device_pages (spp_of ftl)"
    using assms geometry_products(1) by (simp add: sane_params_def)
  have "\<exists>p. valid_ppa ftl p \<and> ppa2pgidx ftl p = Some i"
    if "fields_fit (spp_of ftl)" "i < tt_pgs (spp_of ftl)" for i
    using page_addr_surj [OF that(1), of i] that(2) ppa2pgidx_Some(1) [OF assms]
    unfolding dev by (auto simp: valid_ppa_in_device)
  moreover have "ppa2pgidx ftl p = ppa2pgidx ftl q \<longleftrightarrow> pg_key p = pg_key q" if "valid_ppa ftl p" "valid_ppa ftl q" for p q
    using that page_addr_eq by (simp add: ppa2pgidx_Some(1) [OF assms] valid_ppa_in_device)
  moreover have "\<exists>i < tt_pgs (spp_of ftl). ppa2pgidx ftl p = Some i" if "valid_ppa ftl p" for p
    using ppa2pgidx_Some [OF assms that] by blast
  ultimately show ?thesis by blast
qed

text \<open>C23: Entering a logical page in both tables keeps them inverse to each other, if no other logical
  page uses the physical page: the logical page is found at its new place, every other logical page
  where it was, and the physical page is owned by the logical one.\<close>

theorem remap_keeps_mapping:
  assumes "mapping_ok ftl" and "valid_ppa ftl p" and "lpn < tt_pgs (spp_of ftl)"
    and "\<forall>m q. get_maptbl_ent ftl m = Some q \<and> mapped_ppa q \<and> pg_key q = pg_key p \<longrightarrow> m = lpn"
  shows "\<exists>ftl1 ftl2. set_maptbl_ent ftl lpn p = Some ftl1 \<and> set_rmap_ent ftl1 lpn p = Some ftl2
    \<and> mapping_ok ftl2 \<and> get_rmap_ent ftl2 p = Some lpn
    \<and> (\<forall>m. get_maptbl_ent ftl2 m = (if m = lpn then Some p else get_maptbl_ent ftl m))"
proof -
  have legal: "rmap_legal ftl p" and l: "lpn \<in> ftl_lpns ftl"
    and con: "map_consistent get_maptbl_ent get_rmap_ent rmap_legal mapped_ppa ftl"
    using assms by (auto simp: mapping_ok_def rmap_legal_def ftl_lpns_def)
  have fresh: "\<And>m q. get_maptbl_ent ftl m = Some q \<Longrightarrow> mapped_ppa q \<Longrightarrow> pg_key q = pg_key p \<Longrightarrow> m = lpn"
    using assms(4) by blast
  show ?thesis
  proof (rule pm.remap [OF con legal l fresh])
    fix f1 f2
    assume 1: "set_maptbl_ent ftl lpn p = Some f1" and 2: "set_rmap_ent f1 lpn p = Some f2"
      and c2: "map_consistent get_maptbl_ent get_rmap_ent rmap_legal mapped_ppa f2"
      and look: "\<And>m. get_maptbl_ent f2 m = (if m = lpn then Some p else get_maptbl_ent ftl m)"
      and own: "\<And>q. rmap_legal ftl q \<Longrightarrow> get_rmap_ent f2 q = (if pg_key q = pg_key p then Some lpn else get_rmap_ent ftl q)"
    have "ftl_ssd f2 = ftl_ssd ftl \<and> length (maptbl f2) = length (maptbl ftl) \<and> length (rmap f2) = length (rmap ftl)"
      using 1 2 by (auto simp: set_maptbl_ent_eq set_rmap_ent_eq)
    with c2 assms(1) have "mapping_ok f2" by (simp add: mapping_ok_def)
    moreover have "get_rmap_ent f2 p = Some lpn" using own [OF legal] by simp
    ultimately show ?thesis using 1 2 look by blast
  qed
qed

text \<open>In consistent tables two logical pages never share a physical page.\<close>

theorem mapping_injective:
  assumes "mapping_ok ftl" and "get_maptbl_ent ftl l = Some p" "mapped_ppa p"
    and "get_maptbl_ent ftl m = Some q" "mapped_ppa q" and "ppa2pgidx ftl p = ppa2pgidx ftl q"
  shows "l = m"
proof -
  have con: "map_consistent get_maptbl_ent get_rmap_ent rmap_legal mapped_ppa ftl"
    and s: "sane_params (spp_of ftl)" using assms(1) by (simp_all add: mapping_ok_def)
  then have "rmap_legal ftl p" "rmap_legal ftl q"
    using assms(2-5) by (auto simp: map_consistent_def)
  then have "pg_key p = pg_key q"
    using assms(6) ppa2pgidx_Some [OF s] page_addr_eq by (auto simp: rmap_legal_def valid_ppa_in_device)
  with pm.consistent_inj [OF con] assms(2-5) show ?thesis by blast
qed

section \<open>A small device\<close>

text \<open>A write pointer at the start of line \<open>l\<close>.\<close>

definition line_start :: "nat \<Rightarrow> write_pointer" where
  "line_start l = \<lparr> curline = Some l, wp_ch = 0, wp_lun = 0, wp_pg = 0, wp_blk = l, wp_pl = 0 \<rparr>"

text \<open>The state \<open>conv_init_ftl\<close> leaves on the small device; \<open>lunlm\<close> holds initialised lines.\<close>

definition tiny_ftl :: conv_ftl where
  "tiny_ftl = \<lparr> ftl_ssd = tiny_ssd, cp = conv_init_params tiny_macros,
     maptbl = replicate 16 UNMAPPED_PPA, rmap = replicate 16 INVALID_LPN,
     user_wp = line_start 0, gc_wp = line_start 1,
     lm = tiny_lm\<lparr> free_line_list := [2, 3], free_line_cnt := 2 \<rparr>,
     wfc = \<lparr> write_credits = 4, credits_to_refill = 4 \<rparr>, lunlm = [tiny_lm, tiny_lm], lunwp = [line_start 0, line_start 0],
     lunpointer = 0,
     migration = \<lparr> hotness_table = [], mm_table_size = 0, mm_hot_threshold = 0, mm_cold_threshold = 0,
       mm_migration_interval = 0, last_migration_check = 0, mm_max_migrations_per_check = 0,
       current_migrations = 0 \<rparr>,
     total_slc_pages = 0, used_slc_pages = 0, total_qlc_pages = 0, used_qlc_pages = 0 \<rparr>"

lemma tiny_ftl_simps [simp]:
  "ftl_ssd tiny_ftl = tiny_ssd" "maptbl tiny_ftl = replicate 16 UNMAPPED_PPA" "rmap tiny_ftl = replicate 16 INVALID_LPN"
  "user_wp tiny_ftl = line_start 0" "gc_wp tiny_ftl = line_start 1"
  "lm tiny_ftl = tiny_lm\<lparr> free_line_list := [2, 3], free_line_cnt := 2 \<rparr>"
  "lunlm tiny_ftl = [tiny_lm, tiny_lm]" "lunpointer tiny_ftl = 0" "lunwp tiny_ftl = [line_start 0, line_start 0]"
  "cp tiny_ftl = conv_init_params tiny_macros"
  by (simp_all add: tiny_ftl_def)

lemma tiny_spp [simp]: "ssd_sp tiny_ssd = tiny_params"
  by (rule tiny_ssd_ok)

lemma tiny_sane: "sane_params tiny_params" and tiny_fields_fit: "fields_fit tiny_params"
  by (simp_all add: sane_params_def geometry_ok_def fields_fit_def tiny_params_def)

lemma tiny_mapping_ok: "mapping_ok tiny_ftl"
  using tiny_sane by (auto simp: mapping_ok_def map_consistent_def get_maptbl_ent_def arr_get_def mapped_ppa_def)

lemma tiny_valid_ppa: "ch < 2 \<Longrightarrow> blk < 4 \<Longrightarrow> pg < 2 \<Longrightarrow> valid_ppa tiny_ftl (mk_ppa ch 0 0 blk pg)"
  by (simp add: valid_ppa_def mk_ppa_fields Let_def)

lemma ppa2pgidx_bijection_witness:
  "\<exists>p. valid_ppa tiny_ftl p \<and> ppa2pgidx tiny_ftl p = Some 13"
  using ppa2pgidx_bijection [of tiny_ftl] tiny_sane tiny_fields_fit by simp

lemma remap_keeps_mapping_witness:
  "\<exists>ftl1 ftl2. set_maptbl_ent tiny_ftl 5 (mk_ppa 1 0 0 2 1) = Some ftl1 \<and> set_rmap_ent ftl1 5 (mk_ppa 1 0 0 2 1) = Some ftl2
    \<and> get_maptbl_ent ftl2 5 = Some (mk_ppa 1 0 0 2 1)"
proof -
  have "\<forall>m q. get_maptbl_ent tiny_ftl m = Some q \<and> mapped_ppa q \<and> pg_key q = pg_key (mk_ppa 1 0 0 2 1) \<longrightarrow> m = 5"
    by (auto simp: get_maptbl_ent_def arr_get_def mapped_ppa_def)
  with remap_keeps_mapping [OF tiny_mapping_ok tiny_valid_ppa [of 1 2 1], of 5] show ?thesis by auto
qed

text \<open>Logical page 5 mapped to page 1 of block 2 on channel 1.\<close>

definition tiny_mapped :: conv_ftl where
  "tiny_mapped = tiny_ftl\<lparr> maptbl := (maptbl tiny_ftl)[5 := mk_ppa 1 0 0 2 1],
     rmap := (rmap tiny_ftl)[13 := 5] \<rparr>"

lemma tiny_mapped_ok: "mapping_ok tiny_mapped"
  and tiny_mapped_5: "get_maptbl_ent tiny_mapped 5 = Some (mk_ppa 1 0 0 2 1)" "mapped_ppa (mk_ppa 1 0 0 2 1)"
proof -
  have m: "mk_ppa 1 0 0 2 1 \<noteq> UNMAPPED_PPA"
    using mk_ppa_fields(1) [of 1 0 0 2 1] UNMAPPED_g_ch by auto
  then show "mapped_ppa (mk_ppa 1 0 0 2 1)" by (simp add: mapped_ppa_def)
  show "get_maptbl_ent tiny_mapped 5 = Some (mk_ppa 1 0 0 2 1)" by (simp add: tiny_mapped_def get_maptbl_ent_def)
  have "rmap_legal tiny_mapped (mk_ppa 1 0 0 2 1)"
    using tiny_valid_ppa [of 1 2 1] tiny_sane by (simp add: rmap_legal_def tiny_mapped_def)
  moreover from get_rmap_ent_legal [OF this] have "get_rmap_ent tiny_mapped (mk_ppa 1 0 0 2 1) = Some 5"
    by (simp add: tiny_mapped_def page_addr_def mk_ppa_fields)
  ultimately show "mapping_ok tiny_mapped"
    using tiny_sane by (auto simp: mapping_ok_def map_consistent_def get_maptbl_ent_def tiny_mapped_def
        arr_get_def mapped_ppa_def nth_list_update split: if_splits)
qed

lemma mapping_injective_witness: "5 = (5 :: nat) \<and> mapped_ppa (mk_ppa 1 0 0 2 1)"
  using mapping_injective [OF tiny_mapped_ok tiny_mapped_5 tiny_mapped_5] tiny_mapped_5 by simp

end
