(* ===== verification/Page_Status.thy ===== *)
theory Page_Status
  imports Conv_FTL
begin

text \<open>
  Page status and the counters that summarise it (\<open>conv_ftl.c\<close>): a page is free, valid or
  invalid; blocks and lines count their valid and invalid pages. The second half of
  \<open>mark_page_valid\<close> and \<open>mark_page_invalid\<close> keeps the same counts per LUN in \<open>lunlm\<close>.
\<close>

section \<open>Operations\<close>

definition mark_page_invalid :: "conv_ftl \<Rightarrow> ppa \<Rightarrow> conv_ftl option" where
  "mark_page_invalid ftl p = do {
     let spp = spp_of ftl;
     let glun = get_glun ftl p;
     pg \<leftarrow> get_pg (ftl_ssd ftl) p;
     nvmev_assert (pg_status pg = PG_VALID);
     s \<leftarrow> set_pg (ftl_ssd ftl) p (pg\<lparr> pg_status := PG_INVALID \<rparr>);
     blk \<leftarrow> get_blk s p;
     nvmev_assert (blk_ipc blk < pgs_per_blk spp);
     nvmev_assert (0 < blk_vpc blk \<and> blk_vpc blk \<le> pgs_per_blk spp);
     s \<leftarrow> set_blk s p (blk\<lparr> blk_ipc := blk_ipc blk + 1, blk_vpc := blk_vpc blk - 1 \<rparr>);
     m \<leftarrow> lm_line_invalid (pgs_per_line spp) (lm ftl) (g_blk p);
     d \<leftarrow> arr_get (lunlm ftl) glun;
     d \<leftarrow> lm_line_invalid (pgs_per_line spp) d (g_blk p);
     ds \<leftarrow> arr_set (lunlm ftl) glun d;
     Some (ftl\<lparr> ftl_ssd := s, lm := m, lunlm := ds \<rparr>)
   }"

definition mark_page_valid :: "conv_ftl \<Rightarrow> ppa \<Rightarrow> conv_ftl option" where
  "mark_page_valid ftl p = do {
     let spp = spp_of ftl;
     pg \<leftarrow> get_pg (ftl_ssd ftl) p;
     nvmev_assert (pg_status pg = PG_FREE);
     s \<leftarrow> set_pg (ftl_ssd ftl) p (pg\<lparr> pg_status := PG_VALID \<rparr>);
     blk \<leftarrow> get_blk s p;
     nvmev_assert (blk_vpc blk < pgs_per_blk spp);
     s \<leftarrow> set_blk s p (blk\<lparr> blk_vpc := blk_vpc blk + 1 \<rparr>);
     m \<leftarrow> lm_line_valid (pgs_per_line spp) (lm ftl) (g_blk p);
     d \<leftarrow> arr_get (lunlm ftl) (get_glun ftl p);
     d \<leftarrow> lm_line_valid (pgs_per_line spp) d (g_blk p);
     ds \<leftarrow> arr_set (lunlm ftl) (get_glun ftl p) d;
     Some (ftl\<lparr> ftl_ssd := s, lm := m, lunlm := ds \<rparr>)
   }"

definition mark_block_free :: "conv_ftl \<Rightarrow> ppa \<Rightarrow> conv_ftl option" where
  "mark_block_free ftl p = do {
     let spp = spp_of ftl;
     blk \<leftarrow> get_blk (ftl_ssd ftl) p;
     blk \<leftarrow> foldM (\<lambda>i blk. do {
        pg \<leftarrow> arr_get (blk_pg blk) i;
        nvmev_assert (pg_nsecs pg = secs_per_pg spp);
        pgs \<leftarrow> arr_set (blk_pg blk) i (pg\<lparr> pg_status := PG_FREE \<rparr>);
        Some (blk\<lparr> blk_pg := pgs \<rparr>)
      }) [0..<pgs_per_blk spp] blk;
     nvmev_assert (blk_npgs blk = pgs_per_blk spp);
     s \<leftarrow> set_blk (ftl_ssd ftl) p (blk\<lparr> blk_ipc := 0, blk_vpc := 0, blk_erase_cnt := blk_erase_cnt blk + 1 \<rparr>);
     Some (ftl\<lparr> ftl_ssd := s \<rparr>)
   }"

definition mark_line_free :: "conv_ftl \<Rightarrow> ppa \<Rightarrow> conv_ftl option" where
  "mark_line_free ftl p = do {
     m \<leftarrow> lm_mark_line_free (lm ftl) (g_blk p);
     Some (ftl\<lparr> lm := m \<rparr>)
   }"

section \<open>The status of pages, and counting\<close>

type_synonym page_key = "nat \<times> nat \<times> nat \<times> nat \<times> nat"

definition pg_stat :: "ssd \<Rightarrow> ppa \<Rightarrow> page_status option" where
  "pg_stat s p = map_option pg_status (get_pg s p)"

text \<open>The pages with status \<open>st\<close> in the part \<open>K\<close> of the device.\<close>

definition stat_keys :: "ssd \<Rightarrow> page_status \<Rightarrow> (page_key \<Rightarrow> bool) \<Rightarrow> page_key set" where
  "stat_keys s st K = {pg_key p | p. pg_stat s p = Some st \<and> K (pg_key p)}"

definition in_blk :: "nat \<times> nat \<times> nat \<times> nat \<Rightarrow> page_key \<Rightarrow> bool" where
  "in_blk bk k \<longleftrightarrow> (case k of (c, l, pl, b, g) \<Rightarrow> (c, l, pl, b) = bk)"

definition in_line :: "nat \<Rightarrow> page_key \<Rightarrow> bool" where
  "in_line n k \<longleftrightarrow> (case k of (c, l, pl, b, g) \<Rightarrow> b = n)"

lemma in_blk_key [simp]: "in_blk bk (pg_key p) \<longleftrightarrow> blk_key p = bk"
  and in_line_key [simp]: "in_line n (pg_key p) \<longleftrightarrow> g_blk p = n"
  by (auto simp: in_blk_def in_line_def cell_keys)

lemma pg_stat_key: "pg_key q = pg_key p \<Longrightarrow> pg_stat s q = pg_stat s p"
  using pg_cells.get_key [of q p s] by (simp add: pg_stat_def)

lemma finite_stat_keys [simp]: "finite (stat_keys s st K)"
proof -
  have "stat_keys s st K \<subseteq> range pg_key" by (auto simp: stat_keys_def)
  then show ?thesis using finite_subset [OF _ finite_imageI [OF finite]] by blast
qed

lemma in_stat_keys: "pg_key p \<in> stat_keys s st K \<longleftrightarrow> pg_stat s p = Some st \<and> K (pg_key p)"
proof
  assume "pg_key p \<in> stat_keys s st K"
  then obtain q where "pg_key p = pg_key q" "pg_stat s q = Some st" "K (pg_key q)"
    unfolding stat_keys_def by blast
  with pg_stat_key [of p q s] show "pg_stat s p = Some st \<and> K (pg_key p)" by simp
qed (auto simp: stat_keys_def)

lemma stat_keys_update:
  assumes "\<And>q. pg_stat s' q = (if pg_key q = pg_key p then Some st else pg_stat s q)"
  shows "stat_keys s' st K = (if K (pg_key p) then insert (pg_key p) (stat_keys s st K) else stat_keys s st K)"
    and "st' \<noteq> st \<Longrightarrow> stat_keys s' st' K = stat_keys s st' K - {pg_key p}"
proof -
  have mem: "k \<in> stat_keys s u K \<longleftrightarrow> (\<exists>q. k = pg_key q \<and> pg_stat s q = Some u \<and> K (pg_key q))" for k s u
    by (simp add: stat_keys_def)
  show "stat_keys s' st K = (if K (pg_key p) then insert (pg_key p) (stat_keys s st K) else stat_keys s st K)"
  proof (intro set_eqI)
    fix k
    show "k \<in> stat_keys s' st K \<longleftrightarrow>
        k \<in> (if K (pg_key p) then insert (pg_key p) (stat_keys s st K) else stat_keys s st K)"
      by (cases "k = pg_key p") (auto simp: mem assms in_stat_keys)
  qed
  show "st' \<noteq> st \<Longrightarrow> stat_keys s' st' K = stat_keys s st' K - {pg_key p}"
    by (intro set_eqI) (auto simp: mem assms)
qed

lemma get_pg_in_device:
  assumes "ssd_shape s"
  shows "get_pg s p \<noteq> None \<longleftrightarrow> in_device (ssd_sp s) p"
proof
  assume "in_device (ssd_sp s) p"
  then have "blk_in_range (ssd_sp s) p" "g_pg p < pgs_per_blk (ssd_sp s)"
    by (simp_all add: in_device_def blk_in_range_def)
  with ssd_shape_get_blk [OF assms] show "get_pg s p \<noteq> None" by (force simp: get_pg_def)
next
  assume "get_pg s p \<noteq> None"
  then obtain pl b where pl: "get_pl s p = Some pl" and b: "g_blk p < length (pl_blk pl)" "b = pl_blk pl ! g_blk p"
    and g: "g_pg p < length (blk_pg b)" by (auto simp: get_pg_def get_blk_def fault_simps)
  have sh: "plane_shape (ssd_sp s) pl" using ssd_shape_get_pl [OF assms pl] .
  have "g_ch p < length (flash_data s)" "g_lun p < length (flash_data s ! g_ch p)"
    "g_pl p < length (flash_data s ! g_ch p ! g_lun p)"
    using pl by (auto simp: get_pl_flash_data fault_simps)
  with ssd_shape_at [OF assms] have "g_ch p < nchs (ssd_sp s)" "g_lun p < luns_per_ch (ssd_sp s)"
    "g_pl p < pls_per_lun (ssd_sp s)" by simp_all
  moreover have "g_blk p < blks_per_pl (ssd_sp s)" "length (blk_pg b) = pgs_per_blk (ssd_sp s)"
    using sh b by (auto simp: plane_shape_def)
  ultimately show "in_device (ssd_sp s) p" using g by (simp add: in_device_def)
qed

lemma pg_stat_in_device: "ssd_shape s \<Longrightarrow> pg_stat s p = None \<longleftrightarrow> \<not> in_device (ssd_sp s) p"
  using get_pg_in_device [of s p] by (auto simp: pg_stat_def)

definition dev_keys :: "ssdparams \<Rightarrow> page_key set" where
  "dev_keys spp = {..<nchs spp} \<times> {..<luns_per_ch spp} \<times> {..<pls_per_lun spp} \<times> {..<blks_per_pl spp} \<times> {..<pgs_per_blk spp}"

lemma dev_keys_ppa:
  assumes "fields_fit spp"
  shows "dev_keys spp = {pg_key p | p. in_device spp p}"
proof (intro set_eqI iffI)
  fix k
  assume "k \<in> dev_keys spp"
  then obtain c l pl b g where k: "k = (c, l, pl, b, g)" "c < nchs spp" "l < luns_per_ch spp" "pl < pls_per_lun spp"
    "b < blks_per_pl spp" "g < pgs_per_blk spp" by (auto simp: dev_keys_def)
  with assms have "pg_key (mk_ppa c l pl b g) = k" "in_device spp (mk_ppa c l pl b g)"
    by (simp_all add: fields_fit_def pg_key_def mk_ppa_fields in_device_def)
  then show "k \<in> {pg_key p | p. in_device spp p}" by blast
qed (auto simp: dev_keys_def in_device_def pg_key_def)

text \<open>Every page of the device has exactly one status.\<close>

lemma status_partition:
  assumes "ssd_shape s" and "fields_fit (ssd_sp s)"
  shows "card (stat_keys s PG_VALID K) + card (stat_keys s PG_INVALID K) + card (stat_keys s PG_FREE K)
    = card {k \<in> dev_keys (ssd_sp s). K k}"
proof -
  let ?V = "stat_keys s PG_VALID K" and ?I = "stat_keys s PG_INVALID K" and ?F = "stat_keys s PG_FREE K"
  have "{k \<in> dev_keys (ssd_sp s). K k} = ?V \<union> ?I \<union> ?F"
  proof (intro set_eqI iffI)
    fix k
    assume "k \<in> {k \<in> dev_keys (ssd_sp s). K k}"
    then obtain p where k: "k = pg_key p" "in_device (ssd_sp s) p" "K k"
      by (auto simp: dev_keys_ppa [OF assms(2)])
    then obtain st where "pg_stat s p = Some st" using pg_stat_in_device [OF assms(1)] by fastforce
    with k show "k \<in> ?V \<union> ?I \<union> ?F" by (cases st) (simp_all add: in_stat_keys)
  next
    fix k
    assume "k \<in> ?V \<union> ?I \<union> ?F"
    then obtain p where "k = pg_key p" "K k" "pg_stat s p \<noteq> None" by (auto simp: stat_keys_def)
    with pg_stat_in_device [OF assms(1)] show "k \<in> {k \<in> dev_keys (ssd_sp s). K k}"
      by (auto simp: dev_keys_ppa [OF assms(2)])
  qed
  moreover have "?V \<inter> ?I = {}" "(?V \<union> ?I) \<inter> ?F = {}"
    by (auto simp: stat_keys_def) (metis option.inject page_status.distinct pg_stat_key)+
  ultimately show ?thesis by (simp add: card_Un_disjoint)
qed

lemma card_blk_keys:
  assumes "blk_in_range spp p"
  shows "card {k \<in> dev_keys spp. in_blk (blk_key p) k} = pgs_per_blk spp"
proof -
  have "{k \<in> dev_keys spp. in_blk (blk_key p) k} =
      {g_ch p} \<times> {g_lun p} \<times> {g_pl p} \<times> {g_blk p} \<times> {..<pgs_per_blk spp}"
    using assms by (auto simp: dev_keys_def in_blk_def cell_keys blk_in_range_def)
  then show ?thesis by simp
qed

lemma card_line_keys:
  assumes "geometry_ok spp" and "pls_per_lun spp = 1" and "n < blks_per_pl spp"
  shows "card {k \<in> dev_keys spp. in_line n k} = pgs_per_line spp"
proof -
  have "{k \<in> dev_keys spp. in_line n k} =
      {..<nchs spp} \<times> {..<luns_per_ch spp} \<times> {..<pls_per_lun spp} \<times> {n} \<times> {..<pgs_per_blk spp}"
    using assms by (auto simp: dev_keys_def in_line_def)
  then show ?thesis using assms by (simp add: geometry_ok_def)
qed

section \<open>Storing a page status\<close>

definition nsecs_ok :: "ssd \<Rightarrow> bool" where
  "nsecs_ok s \<longleftrightarrow> (\<forall>p pg. get_pg s p = Some pg \<longrightarrow> pg_nsecs pg = secs_per_pg (ssd_sp s))"

lemma nsecs_okD: "nsecs_ok s \<Longrightarrow> get_blk s q = Some b \<Longrightarrow> g_pg q < length (blk_pg b) \<Longrightarrow>
    pg_nsecs (blk_pg b ! g_pg q) = secs_per_pg (ssd_sp s)"
  unfolding nsecs_ok_def by (elim allE [of _ q] allE [of _ "blk_pg b ! g_pg q"]) (simp add: get_pg_def)

lemma set_pg_blk:
  assumes "get_blk s p = Some blk" and "g_pg p < length (blk_pg blk)"
  obtains s1 where "set_pg s p pg' = Some s1"
    and "set_blk s p (blk\<lparr> blk_pg := (blk_pg blk)[g_pg p := pg'] \<rparr>) = Some s1"
    and "get_blk s1 p = Some (blk\<lparr> blk_pg := (blk_pg blk)[g_pg p := pg'] \<rparr>)"
proof -
  obtain s1 where s1: "set_blk s p (blk\<lparr> blk_pg := (blk_pg blk)[g_pg p := pg'] \<rparr>) = Some s1"
    using blk_cells.put_defined [OF assms(1)] by blast
  moreover have "set_pg s p pg' = Some s1" using s1 assms by (simp add: set_pg_def)
  ultimately show ?thesis using that blk_cells.put_same [OF s1] by blast
qed

text \<open>The two stores of \<open>mark_page_valid\<close> and \<open>mark_page_invalid\<close>: the page, then its block.\<close>

lemma store_status:
  assumes shape: "ssd_shape s" and pg: "get_pg s p = Some pg" and blk: "get_blk s p = Some blk"
  obtains s1 s2 where "set_pg s p (pg\<lparr> pg_status := st \<rparr>) = Some s1"
    and "get_blk s1 p = Some (blk\<lparr> blk_pg := (blk_pg blk)[g_pg p := pg\<lparr> pg_status := st \<rparr>] \<rparr>)"
    and "set_blk s1 p (blk\<lparr> blk_pg := (blk_pg blk)[g_pg p := pg\<lparr> pg_status := st \<rparr>], blk_ipc := i, blk_vpc := v \<rparr>) = Some s2"
    and "ssd_shape s2" and "ssd_usable s2 \<longleftrightarrow> ssd_usable s" and "ssd_sp s2 = ssd_sp s"
    and "write_buffer s2 = write_buffer s" and "ssd_pcie s2 = ssd_pcie s" and "nsecs_ok s \<Longrightarrow> nsecs_ok s2"
    and "\<And>q. pg_stat s2 q = (if pg_key q = pg_key p then Some st else pg_stat s q)"
    and "\<And>q b. get_blk s2 q = Some b \<Longrightarrow> if blk_key q = blk_key p then blk_vpc b = v \<and> blk_ipc b = i else get_blk s q = Some b"
proof -
  let ?b1 = "blk\<lparr> blk_pg := (blk_pg blk)[g_pg p := pg\<lparr> pg_status := st \<rparr>] \<rparr>"
  let ?b2 = "?b1\<lparr> blk_ipc := i, blk_vpc := v \<rparr>"
  have g: "g_pg p < length (blk_pg blk)" "pg = blk_pg blk ! g_pg p"
    using pg blk by (auto simp: get_pg_def)
  obtain s1 where s1: "set_pg s p (pg\<lparr> pg_status := st \<rparr>) = Some s1" "set_blk s p ?b1 = Some s1" "get_blk s1 p = Some ?b1"
    using set_pg_blk [OF blk g(1)] .
  obtain s2 where s2: "set_blk s1 p ?b2 = Some s2" using blk_cells.put_defined [OF s1(3)] by blast
  have get2: "get_blk s2 q = (if blk_key q = blk_key p then Some ?b2 else get_blk s q)" for q
    using blk_cells.put_get [OF s2, of q] blk_cells.put_get [OF s1(2), of q] by simp
  have "in_device (ssd_sp s) p" using pg get_pg_in_device [OF shape, of p] by simp
  then have r: "blk_in_range (ssd_sp s) p" by (simp add: in_device_def blk_in_range_def)
  have len: "length (blk_pg blk) = pgs_per_blk (ssd_sp s)" "blk_npgs blk = pgs_per_blk (ssd_sp s)"
    using ssd_shape_get_blk [OF shape r] blk by auto
  have "ssd_shape s1" by (rule set_blk_shape [OF s1(2) shape]) (simp_all add: len)
  then have sh2: "ssd_shape s2"
    using set_blk_shape [OF s2] set_blk_frame(1) [OF s1(2)] len by simp
  have stat: "pg_stat s2 q = (if pg_key q = pg_key p then Some st else pg_stat s q)" for q
  proof (cases "blk_key q = blk_key p")
    case True
    then have bq: "get_blk s q = Some blk" using blk blk_cells.get_key by metis
    from True have "pg_key q = pg_key p \<longleftrightarrow> g_pg q = g_pg p" by (auto simp: cell_keys)
    with True bq g show ?thesis by (simp add: pg_stat_def get_pg_def get2 arr_get_def)
  next
    case False
    then have "pg_key q \<noteq> pg_key p" by (auto simp: cell_keys)
    with False show ?thesis by (simp add: pg_stat_def get_pg_def get2)
  qed
  have frame: "ssd_sp s2 = ssd_sp s" "write_buffer s2 = write_buffer s" "ssd_pcie s2 = ssd_pcie s"
    "ssd_usable s2 \<longleftrightarrow> ssd_usable s"
    using set_blk_frame [OF s1(2)] set_blk_frame [OF s2] set_blk_usable [OF s1(2)] set_blk_usable [OF s2] by auto
  have "if blk_key q = blk_key p then blk_vpc b = v \<and> blk_ipc b = i else get_blk s q = Some b"
    if "get_blk s2 q = Some b" for q b using that by (auto simp: get2 split: if_splits)
  moreover have "nsecs_ok s2" if n: "nsecs_ok s"
    unfolding nsecs_ok_def frame
  proof (intro allI impI)
    fix q pg'
    assume "get_pg s2 q = Some pg'"
    moreover have "get_blk s q = Some blk" if "blk_key q = blk_key p" using that blk blk_cells.get_key by metis
    ultimately show "pg_nsecs pg' = secs_per_pg (ssd_sp s)"
      using n g nsecs_okD [OF n, of q] by (auto simp: get_pg_def get2 nth_list_update fault_simps split: if_splits)
  qed
  ultimately show ?thesis using s1(1,3) s2 sh2 frame stat that [OF s1(1,3)] by simp
qed

section \<open>The invariant of page status\<close>

text \<open>
  Every block counts its valid and its invalid pages, and so does every line outside \<open>X\<close> (the
  line being collected is in \<open>X\<close> between the erase of its first block and \<open>mark_line_free\<close>).
\<close>

definition blk_counts_ok :: "ssd \<Rightarrow> bool" where
  "blk_counts_ok s \<longleftrightarrow> (\<forall>p b. get_blk s p = Some b \<longrightarrow>
     blk_vpc b = card (stat_keys s PG_VALID (in_blk (blk_key p)))
     \<and> blk_ipc b = card (stat_keys s PG_INVALID (in_blk (blk_key p))))"

definition line_counts_ok :: "nat set \<Rightarrow> ssd \<Rightarrow> line list \<Rightarrow> bool" where
  "line_counts_ok X s ls \<longleftrightarrow> length ls = blks_per_pl (ssd_sp s) \<and> (\<forall>n < length ls. n \<notin> X \<longrightarrow>
     line_vpc (ls ! n) = card (stat_keys s PG_VALID (in_line n))
     \<and> line_ipc (ls ! n) = card (stat_keys s PG_INVALID (in_line n)))"

definition device_ok :: "ssd \<Rightarrow> bool" where
  "device_ok s \<longleftrightarrow> ssd_shape s \<and> ssd_usable s \<and> nsecs_ok s \<and> sane_params (ssd_sp s) \<and> fields_fit (ssd_sp s)
     \<and> pls_per_lun (ssd_sp s) = 1"

definition status_ok :: "nat set \<Rightarrow> conv_ftl \<Rightarrow> bool" where
  "status_ok X ftl \<longleftrightarrow> device_ok (ftl_ssd ftl) \<and> blk_counts_ok (ftl_ssd ftl)
     \<and> line_counts_ok X (ftl_ssd ftl) (lines (lm ftl))"

lemma status_okD:
  assumes "status_ok X ftl"
  shows "ssd_shape (ftl_ssd ftl)" "fields_fit (spp_of ftl)" "sane_params (spp_of ftl)"
    "geometry_ok (spp_of ftl)" "pls_per_lun (spp_of ftl) = 1" "ssd_usable (ftl_ssd ftl)"
    "blk_counts_ok (ftl_ssd ftl)" "line_counts_ok X (ftl_ssd ftl) (lines (lm ftl))"
    "length (lines (lm ftl)) = blks_per_pl (spp_of ftl)" "nsecs_ok (ftl_ssd ftl)"
  using assms by (auto simp: status_ok_def device_ok_def sane_params_def line_counts_ok_def)

lemma blk_pages_sum:
  assumes "ssd_shape s" and "fields_fit (ssd_sp s)" and "blk_in_range (ssd_sp s) p"
  shows "card (stat_keys s PG_VALID (in_blk (blk_key p))) + card (stat_keys s PG_INVALID (in_blk (blk_key p)))
    + card (stat_keys s PG_FREE (in_blk (blk_key p))) = pgs_per_blk (ssd_sp s)"
  by (simp add: status_partition [OF assms(1,2)] card_blk_keys [OF assms(3)])

lemma line_pages_sum:
  assumes "status_ok X ftl" and "n < blks_per_pl (spp_of ftl)"
  shows "card (stat_keys (ftl_ssd ftl) PG_VALID (in_line n)) + card (stat_keys (ftl_ssd ftl) PG_INVALID (in_line n))
    + card (stat_keys (ftl_ssd ftl) PG_FREE (in_line n)) = pgs_per_line (spp_of ftl)"
  using status_partition [of "ftl_ssd ftl" "in_line n"] card_line_keys [of "spp_of ftl" n] status_okD [OF assms(1)]
    assms(2) by simp

lemma stat_keys_pos: "pg_stat s p = Some st \<Longrightarrow> K (pg_key p) \<Longrightarrow> 0 < card (stat_keys s st K)"
  using in_stat_keys [of p s st K] finite_stat_keys [of s st K] by (simp add: card_gt_0_iff) blast

text \<open>Counting after one page changed its status.\<close>

lemma card_after:
  assumes upd: "\<And>q. pg_stat s' q = (if pg_key q = pg_key p then Some st else pg_stat s q)"
    and old: "pg_stat s p = Some st0" and ne: "st0 \<noteq> st"
  shows "K (pg_key p) \<Longrightarrow> card (stat_keys s' st K) = card (stat_keys s st K) + 1"
    and "K (pg_key p) \<Longrightarrow> card (stat_keys s' st0 K) = card (stat_keys s st0 K) - 1"
    and "\<not> K (pg_key p) \<Longrightarrow> stat_keys s' u K = stat_keys s u K"
    and "u \<noteq> st \<Longrightarrow> u \<noteq> st0 \<Longrightarrow> stat_keys s' u K = stat_keys s u K"
proof -
  have not_st: "pg_key p \<notin> stat_keys s st K" using old ne by (simp add: in_stat_keys)
  show "K (pg_key p) \<Longrightarrow> card (stat_keys s' st K) = card (stat_keys s st K) + 1"
    using not_st by (simp add: stat_keys_update(1) [OF upd])
  show "K (pg_key p) \<Longrightarrow> card (stat_keys s' st0 K) = card (stat_keys s st0 K) - 1"
    using old ne by (simp add: stat_keys_update(2) [OF upd] in_stat_keys)
  show "\<not> K (pg_key p) \<Longrightarrow> stat_keys s' u K = stat_keys s u K"
    using in_stat_keys [of p s u K] by (cases "u = st") (simp_all add: stat_keys_update(1) [OF upd] stat_keys_update(2) [OF upd])
  show "u \<noteq> st \<Longrightarrow> u \<noteq> st0 \<Longrightarrow> stat_keys s' u K = stat_keys s u K"
    using old in_stat_keys [of p s u K] by (simp add: stat_keys_update(2) [OF upd])
qed

lemma blk_counts_after:
  assumes ok: "blk_counts_ok s" and old: "pg_stat s p = Some st0" and ne: "st0 \<noteq> st"
    and upd: "\<And>q. pg_stat s' q = (if pg_key q = pg_key p then Some st else pg_stat s q)"
    and blk: "get_blk s p = Some blk"
    and v: "v = blk_vpc blk + (if st = PG_VALID then 1 else 0) - (if st0 = PG_VALID then 1 else 0)"
    and i: "i = blk_ipc blk + (if st = PG_INVALID then 1 else 0) - (if st0 = PG_INVALID then 1 else 0)"
    and blks: "\<And>q b. get_blk s' q = Some b \<Longrightarrow> if blk_key q = blk_key p then blk_vpc b = v \<and> blk_ipc b = i
      else get_blk s q = Some b"
  shows "blk_counts_ok s'"
  unfolding blk_counts_ok_def
proof (intro allI impI)
  fix q b
  assume b: "get_blk s' q = Some b"
  note c = card_after [OF upd old ne]
  show "blk_vpc b = card (stat_keys s' PG_VALID (in_blk (blk_key q)))
      \<and> blk_ipc b = card (stat_keys s' PG_INVALID (in_blk (blk_key q)))"
  proof (cases "blk_key q = blk_key p")
    case True
    have p: "in_blk (blk_key p) (pg_key p)" by simp
    have "blk_vpc blk = card (stat_keys s PG_VALID (in_blk (blk_key p)))"
      "blk_ipc blk = card (stat_keys s PG_INVALID (in_blk (blk_key p)))"
      using ok blk by (auto simp: blk_counts_ok_def)
    moreover have "blk_vpc b = v" "blk_ipc b = i" using blks [OF b] True by auto
    ultimately show ?thesis
      using v i ne c(1,2) [where K = "in_blk (blk_key p)", OF p] c(4) [where K = "in_blk (blk_key p)"] unfolding True
      by (cases st; cases st0) simp_all
  next
    case False
    then have p: "\<not> in_blk (blk_key q) (pg_key p)" by auto
    have "get_blk s q = Some b" using blks [OF b] False by simp
    then show ?thesis using ok c(3) [where K = "in_blk (blk_key q)", OF p] by (simp add: blk_counts_ok_def)
  qed
qed

lemma line_counts_after:
  assumes ok: "line_counts_ok X s ls" and old: "pg_stat s p = Some st0" and ne: "st0 \<noteq> st"
    and upd: "\<And>q. pg_stat s' q = (if pg_key q = pg_key p then Some st else pg_stat s q)"
    and sp: "ssd_sp s' = ssd_sp s" and len: "length ls' = length ls"
    and at: "\<And>n. n < length ls \<Longrightarrow> n \<noteq> g_blk p \<Longrightarrow> line_vpc (ls' ! n) = line_vpc (ls ! n) \<and> line_ipc (ls' ! n) = line_ipc (ls ! n)"
    and v: "line_vpc (ls' ! g_blk p) = line_vpc (ls ! g_blk p) + (if st = PG_VALID then 1 else 0) - (if st0 = PG_VALID then 1 else 0)"
    and i: "line_ipc (ls' ! g_blk p) = line_ipc (ls ! g_blk p) + (if st = PG_INVALID then 1 else 0) - (if st0 = PG_INVALID then 1 else 0)"
  shows "line_counts_ok X s' ls'"
  unfolding line_counts_ok_def
proof (intro conjI [of "length ls' = blks_per_pl (ssd_sp s')"] allI impI)
  show "length ls' = blks_per_pl (ssd_sp s')" using ok len sp by (simp add: line_counts_ok_def)
  fix n
  assume n: "n < length ls'" "n \<notin> X"
  note c = card_after [OF upd old ne]
  have "line_vpc (ls ! n) = card (stat_keys s PG_VALID (in_line n))" "line_ipc (ls ! n) = card (stat_keys s PG_INVALID (in_line n))"
    using ok n len by (simp_all add: line_counts_ok_def)
  then show "line_vpc (ls' ! n) = card (stat_keys s' PG_VALID (in_line n)) \<and> line_ipc (ls' ! n) = card (stat_keys s' PG_INVALID (in_line n))"
  proof (cases "n = g_blk p")
    case True
    then have p: "in_line n (pg_key p)" by simp
    show ?thesis
      using \<open>line_vpc (ls ! n) = _\<close> \<open>line_ipc (ls ! n) = _\<close> v i ne c(1,2) [where K = "in_line n", OF p] c(4) [where K = "in_line n"] unfolding True
      by (cases st; cases st0) simp_all
  next
    case False
    then have "\<not> in_line n (pg_key p)" by simp
    from c(3) [where K = "in_line n", OF this] show ?thesis using \<open>line_vpc (ls ! n) = _\<close> \<open>line_ipc (ls ! n) = _\<close> at [of n] n len False by simp
  qed
qed

section \<open>The operations keep it\<close>

text \<open>The line of \<open>lunlm\<close> that counts the pages of \<open>p\<close> has room for one more valid page.\<close>

definition da_room :: "conv_ftl \<Rightarrow> ppa \<Rightarrow> bool" where
  "da_room ftl p \<longleftrightarrow> (\<exists>d. arr_get (lunlm ftl) (get_glun ftl p) = Some d \<and> g_blk p < length (lines d)
     \<and> line_vpc (lines d ! g_blk p) < pgs_per_line (spp_of ftl))"

text \<open>It is not queued, not full and counts at least one valid page.\<close>

definition da_countable :: "conv_ftl \<Rightarrow> ppa \<Rightarrow> bool" where
  "da_countable ftl p \<longleftrightarrow> (\<exists>d. arr_get (lunlm ftl) (get_glun ftl p) = Some d \<and> g_blk p < length (lines d)
     \<and> line_pos (lines d ! g_blk p) = 0 \<and> line_ipc (lines d ! g_blk p) < pgs_per_line (spp_of ftl)
     \<and> 0 < line_vpc (lines d ! g_blk p) \<and> line_vpc (lines d ! g_blk p) < pgs_per_line (spp_of ftl))"

lemma in_device_parts:
  "in_device spp p \<Longrightarrow> blk_in_range spp p \<and> g_blk p < blks_per_pl spp"
  by (simp add: in_device_def blk_in_range_def)

lemma mark_page_valid_ok:
  assumes ok: "status_ok X ftl" and free: "pg_stat (ftl_ssd ftl) p = Some PG_FREE" and da: "da_room ftl p"
    and X: "g_blk p \<notin> X"
  shows "\<exists>s ds. let l = g_blk p; ftl' = ftl\<lparr> ftl_ssd := s, lunlm := ds, lm := (lm ftl)\<lparr> lines :=
       (lines (lm ftl))[l := (lines (lm ftl) ! l)\<lparr> line_vpc := line_vpc (lines (lm ftl) ! l) + 1 \<rparr>] \<rparr> \<rparr>
     in mark_page_valid ftl p = Some ftl' \<and> status_ok X ftl' \<and> ssd_sp s = spp_of ftl
       \<and> lm_line_valid (pgs_per_line (spp_of ftl)) (lm ftl) l = Some (lm ftl')
       \<and> (\<forall>q. pg_stat s q = (if pg_key q = pg_key p then Some PG_VALID else pg_stat (ftl_ssd ftl) q))
       \<and> (\<exists>d. arr_get (lunlm ftl) (get_glun ftl p) = Some d \<and> ds = (lunlm ftl)[get_glun ftl p :=
            d\<lparr> lines := (lines d)[l := (lines d ! l)\<lparr> line_vpc := line_vpc (lines d ! l) + 1 \<rparr>] \<rparr>])"
proof -
  let ?s = "ftl_ssd ftl" and ?l = "g_blk p" and ?lm = "lm ftl"
  note D = status_okD [OF ok]
  obtain pg where pg: "get_pg ?s p = Some pg" "pg_status pg = PG_FREE" using free by (auto simp: pg_stat_def)
  then obtain blk where blk: "get_blk ?s p = Some blk" by (auto simp: get_pg_def fault_simps)
  have "in_device (spp_of ftl) p" using pg get_pg_in_device [OF D(1), of p] by simp
  then have r: "blk_in_range (spp_of ftl) p" and l: "?l < length (lines ?lm)" using in_device_parts D(9) by auto
  have vpc: "blk_vpc blk < pgs_per_blk (spp_of ftl)"
    using blk_pages_sum [OF D(1,2) r] stat_keys_pos [OF free, of "in_blk (blk_key p)"] D(7) blk
    by (simp add: blk_counts_ok_def)
  have lvpc: "line_vpc (lines ?lm ! ?l) < pgs_per_line (spp_of ftl)"
    using line_pages_sum [OF ok, of ?l] stat_keys_pos [OF free, of "in_line ?l"] D(8,9) l X
    by (simp add: line_counts_ok_def)
  obtain d where d: "arr_get (lunlm ftl) (get_glun ftl p) = Some d" "?l < length (lines d)"
    "line_vpc (lines d ! ?l) < pgs_per_line (spp_of ftl)" using da by (auto simp: da_room_def)
  let ?ls = "(lines ?lm)[?l := (lines ?lm ! ?l)\<lparr> line_vpc := line_vpc (lines ?lm ! ?l) + 1 \<rparr>]"
  let ?d = "d\<lparr> lines := (lines d)[?l := (lines d ! ?l)\<lparr> line_vpc := line_vpc (lines d ! ?l) + 1 \<rparr>] \<rparr>"
  show ?thesis
  proof (rule store_status [OF D(1) pg(1) blk, where st = PG_VALID and i = "blk_ipc blk" and v = "blk_vpc blk + 1"])
    fix s1 s2
    assume s1: "set_pg ?s p (pg\<lparr> pg_status := PG_VALID \<rparr>) = Some s1"
      "get_blk s1 p = Some (blk\<lparr> blk_pg := (blk_pg blk)[g_pg p := pg\<lparr> pg_status := PG_VALID \<rparr>] \<rparr>)"
      and s2: "set_blk s1 p (blk\<lparr> blk_pg := (blk_pg blk)[g_pg p := pg\<lparr> pg_status := PG_VALID \<rparr>], blk_ipc := blk_ipc blk,
          blk_vpc := blk_vpc blk + 1 \<rparr>) = Some s2"
      and sh: "ssd_shape s2" "ssd_usable s2 = ssd_usable ?s" "ssd_sp s2 = ssd_sp ?s" "nsecs_ok ?s \<Longrightarrow> nsecs_ok s2"
      and stat: "\<And>q. pg_stat s2 q = (if pg_key q = pg_key p then Some PG_VALID else pg_stat ?s q)"
      and blks: "\<And>q b. get_blk s2 q = Some b \<Longrightarrow> if blk_key q = blk_key p
        then blk_vpc b = blk_vpc blk + 1 \<and> blk_ipc b = blk_ipc blk else get_blk ?s q = Some b"
    have "blk\<lparr> blk_pg := x, blk_ipc := blk_ipc blk, blk_vpc := y \<rparr> = blk\<lparr> blk_pg := x, blk_vpc := y \<rparr>" for x y
      by (cases blk) simp
    with s2 have s2': "set_blk s1 p (blk\<lparr> blk_pg := (blk_pg blk)[g_pg p := pg\<lparr> pg_status := PG_VALID \<rparr>],
        blk_vpc := blk_vpc blk + 1 \<rparr>) = Some s2" by simp
    let ?f = "ftl\<lparr> ftl_ssd := s2, lunlm := (lunlm ftl)[get_glun ftl p := ?d], lm := ?lm\<lparr> lines := ?ls \<rparr> \<rparr>"
    have lmv: "lm_line_valid (pgs_per_line (spp_of ftl)) ?lm ?l = Some (?lm\<lparr> lines := ?ls \<rparr>)"
      using l lvpc by (simp add: lm_line_valid_def)
    have dv: "lm_line_valid (pgs_per_line (spp_of ftl)) d ?l = Some ?d"
      using d by (simp add: lm_line_valid_def)
    have "mark_page_valid ftl p = Some ?f"
      using pg s1 s2' vpc lmv dv d(1) by (simp add: mark_page_valid_def Let_def)
    moreover have "blk_counts_ok s2"
      by (rule blk_counts_after [OF D(7) free _ stat blk _ _ blks]) simp_all
    moreover have "line_counts_ok X s2 ?ls"
      using l by (intro line_counts_after [OF D(8) free _ stat sh(3)]) simp_all
    ultimately show ?thesis
      using sh D stat lmv d(1) by (intro exI [of _ s2] exI [of _ "(lunlm ftl)[get_glun ftl p := ?d]"])
        (simp add: Let_def status_ok_def device_ok_def)
  qed
qed

lemma mark_page_invalid_ok:
  assumes ok: "status_ok X ftl" and valid: "pg_stat (ftl_ssd ftl) p = Some PG_VALID" and da: "da_countable ftl p"
    and X: "g_blk p \<notin> X" and inv: "lm_inv (pgs_per_line (spp_of ftl)) U (lm ftl)"
    and open': "g_blk p \<in> U \<longrightarrow> line_vpc (lines (lm ftl) ! g_blk p) < pgs_per_line (spp_of ftl)"
  shows "\<exists>s m ds. let ftl' = ftl\<lparr> ftl_ssd := s, lm := m, lunlm := ds \<rparr>
     in mark_page_invalid ftl p = Some ftl' \<and> status_ok X ftl' \<and> ssd_sp s = spp_of ftl
       \<and> lm_line_invalid (pgs_per_line (spp_of ftl)) (lm ftl) (g_blk p) = Some m
       \<and> lm_inv (pgs_per_line (spp_of ftl)) U m
       \<and> (\<forall>q. pg_stat s q = (if pg_key q = pg_key p then Some PG_INVALID else pg_stat (ftl_ssd ftl) q))"
proof -
  let ?s = "ftl_ssd ftl" and ?l = "g_blk p" and ?lm = "lm ftl" and ?pgs = "pgs_per_line (spp_of ftl)"
  note D = status_okD [OF ok]
  obtain pg where pg: "get_pg ?s p = Some pg" "pg_status pg = PG_VALID" using valid by (auto simp: pg_stat_def)
  then obtain blk where blk: "get_blk ?s p = Some blk" by (auto simp: get_pg_def fault_simps)
  have "in_device (spp_of ftl) p" using pg get_pg_in_device [OF D(1), of p] by simp
  then have r: "blk_in_range (spp_of ftl) p" and l: "?l < length (lines ?lm)" using in_device_parts D(9) by auto
  have bsum: "card (stat_keys ?s PG_VALID (in_blk (blk_key p))) = blk_vpc blk"
    "card (stat_keys ?s PG_INVALID (in_blk (blk_key p))) = blk_ipc blk"
    using D(7) blk by (simp_all add: blk_counts_ok_def)
  have bpos: "0 < blk_vpc blk" using stat_keys_pos [OF valid, of "in_blk (blk_key p)"] bsum by simp
  have bc: "blk_ipc blk < pgs_per_blk (spp_of ftl)" "blk_vpc blk \<le> pgs_per_blk (spp_of ftl)"
    using blk_pages_sum [OF D(1,2) r] bsum bpos by simp_all
  have lpos: "0 < line_vpc (lines ?lm ! ?l)"
    using stat_keys_pos [OF valid, of "in_line ?l"] D(8) l X by (simp add: line_counts_ok_def)
  from lm_line_invalid_ok [OF inv l lpos mp [OF open']] obtain m where
    m: "lm_line_invalid ?pgs ?lm ?l = Some m" "lm_inv ?pgs U m"
    and same: "same_lines ((lines ?lm)[?l := page_dropped (lines ?lm ! ?l)]) (lines m)" by blast
  obtain d where d: "arr_get (lunlm ftl) (get_glun ftl p) = Some d" "?l < length (lines d)"
    "line_pos (lines d ! ?l) = 0" "line_ipc (lines d ! ?l) < ?pgs" "0 < line_vpc (lines d ! ?l)" "line_vpc (lines d ! ?l) < ?pgs"
    using da by (auto simp: da_countable_def)
  then obtain d' where d': "lm_line_invalid ?pgs d ?l = Some d'"
    by (simp add: lm_line_invalid_def Let_def)
  show ?thesis
  proof (rule store_status [OF D(1) pg(1) blk, where st = PG_INVALID and i = "blk_ipc blk + 1" and v = "blk_vpc blk - 1"])
    fix s1 s2
    assume s1: "set_pg ?s p (pg\<lparr> pg_status := PG_INVALID \<rparr>) = Some s1"
      "get_blk s1 p = Some (blk\<lparr> blk_pg := (blk_pg blk)[g_pg p := pg\<lparr> pg_status := PG_INVALID \<rparr>] \<rparr>)"
      and s2: "set_blk s1 p (blk\<lparr> blk_pg := (blk_pg blk)[g_pg p := pg\<lparr> pg_status := PG_INVALID \<rparr>], blk_ipc := blk_ipc blk + 1,
          blk_vpc := blk_vpc blk - 1 \<rparr>) = Some s2"
      and sh: "ssd_shape s2" "ssd_usable s2 = ssd_usable ?s" "ssd_sp s2 = ssd_sp ?s" "nsecs_ok ?s \<Longrightarrow> nsecs_ok s2"
      and stat: "\<And>q. pg_stat s2 q = (if pg_key q = pg_key p then Some PG_INVALID else pg_stat ?s q)"
      and blks: "\<And>q b. get_blk s2 q = Some b \<Longrightarrow> if blk_key q = blk_key p
        then blk_vpc b = blk_vpc blk - 1 \<and> blk_ipc b = blk_ipc blk + 1 else get_blk ?s q = Some b"
    let ?f = "ftl\<lparr> ftl_ssd := s2, lm := m, lunlm := (lunlm ftl)[get_glun ftl p := d'] \<rparr>"
    have "mark_page_invalid ftl p = Some ?f"
      using pg s1 s2 bpos bc m(1) d' d(1) by (simp add: mark_page_invalid_def Let_def)
    moreover have "blk_counts_ok s2"
      by (rule blk_counts_after [OF D(7) valid _ stat blk _ _ blks]) simp_all
    moreover have "line_counts_ok X s2 (lines m)"
      using l same by (intro line_counts_after [OF D(8) valid _ stat sh(3)]) (simp_all add: same_lines_iff)
    ultimately show ?thesis
      using sh D stat m by (intro exI [of _ s2] exI [of _ m] exI [of _ "(lunlm ftl)[get_glun ftl p := d']"])
        (simp add: Let_def status_ok_def device_ok_def)
  qed
qed

text \<open>Erasing a block frees its pages and no other, and counts the erase.\<close>

lemma free_pages_loop:
  assumes len: "length (blk_pg blk) = n" and nsecs: "\<forall>g < n. pg_nsecs (blk_pg blk ! g) = k"
  shows "foldM (\<lambda>i blk. do { pg \<leftarrow> arr_get (blk_pg blk) i; nvmev_assert (pg_nsecs pg = k);
       pgs \<leftarrow> arr_set (blk_pg blk) i (pg\<lparr> pg_status := PG_FREE \<rparr>); Some (blk\<lparr> blk_pg := pgs \<rparr>) }) [0..<n] blk
     = Some (blk\<lparr> blk_pg := map (\<lambda>pg. pg\<lparr> pg_status := PG_FREE \<rparr>) (blk_pg blk) \<rparr>)"
proof -
  let ?f = "\<lambda>i blk. do { pg \<leftarrow> arr_get (blk_pg blk) i; nvmev_assert (pg_nsecs pg = k);
       pgs \<leftarrow> arr_set (blk_pg blk) i (pg\<lparr> pg_status := PG_FREE \<rparr>); Some (blk\<lparr> blk_pg := pgs \<rparr>) }"
  let ?fr = "\<lambda>pg. pg\<lparr> pg_status := PG_FREE \<rparr>"
  have "foldM ?f [0..<m] blk = Some (blk\<lparr> blk_pg := map ?fr (take m (blk_pg blk)) @ drop m (blk_pg blk) \<rparr>)" if "m \<le> n" for m
    using that
  proof (induction m)
    case 0
    then show ?case by simp
  next
    case (Suc m)
    then have m: "m < length (blk_pg blk)" by (simp add: len)
    let ?xs = "map ?fr (take m (blk_pg blk)) @ drop m (blk_pg blk)"
    have at: "?xs ! m = blk_pg blk ! m" "length ?xs = n" "?xs[m := ?fr (blk_pg blk ! m)] =
        map ?fr (take (Suc m) (blk_pg blk)) @ drop (Suc m) (blk_pg blk)"
      using m by (simp_all add: nth_append len take_Suc_conv_app_nth list_update_append Cons_nth_drop_Suc [symmetric])
    have "foldM ?f [0..<Suc m] blk = Option.bind (foldM ?f [0..<m] blk) (?f m)"
      by (simp add: foldM_append)
    with Suc show ?case using m nsecs at by (simp add: len)
  qed
  from this [of n] show ?thesis by (simp add: len)
qed

lemma mark_block_free_ok:
  assumes ok: "status_ok X ftl" and r: "blk_in_range (spp_of ftl) p" and X: "g_blk p \<in> X"
  shows "\<exists>s. let ftl' = ftl\<lparr> ftl_ssd := s \<rparr> in mark_block_free ftl p = Some ftl' \<and> status_ok X ftl'
     \<and> ssd_sp s = spp_of ftl
     \<and> (\<forall>q. pg_stat s q = (if blk_key q = blk_key p \<and> pg_stat (ftl_ssd ftl) q \<noteq> None then Some PG_FREE
                             else pg_stat (ftl_ssd ftl) q))
     \<and> (\<forall>b. get_blk (ftl_ssd ftl) p = Some b \<longrightarrow> (\<exists>b'. get_blk s p = Some b' \<and> blk_erase_cnt b' = blk_erase_cnt b + 1
            \<and> blk_vpc b' = 0 \<and> blk_ipc b' = 0))"
proof -
  let ?s = "ftl_ssd ftl"
  note D = status_okD [OF ok]
  obtain blk where blk: "get_blk ?s p = Some blk" "length (blk_pg blk) = pgs_per_blk (spp_of ftl)"
    "blk_npgs blk = pgs_per_blk (spp_of ftl)" using ssd_shape_get_blk [OF D(1) r] by blast
  let ?b1 = "blk\<lparr> blk_pg := map (\<lambda>pg. pg\<lparr> pg_status := PG_FREE \<rparr>) (blk_pg blk) \<rparr>"
  let ?b2 = "?b1\<lparr> blk_ipc := 0, blk_vpc := 0, blk_erase_cnt := blk_erase_cnt blk + 1 \<rparr>"
  have "pg_nsecs (blk_pg blk ! g) = secs_per_pg (spp_of ftl)" if g: "g < pgs_per_blk (spp_of ftl)" for g
  proof -
    let ?q = "set_g_pg g p"
    have "g < 65536" using g D(2) by (simp add: fields_fit_def)
    then have "blk_key ?q = blk_key p" "g_pg ?q = g" by (simp_all add: cell_keys)
    then have "get_pg ?s ?q = Some (blk_pg blk ! g)"
      using blk g blk_cells.get_key [of ?q p ?s] by (simp add: get_pg_def)
    with D(10) show ?thesis by (simp add: nsecs_ok_def)
  qed
  then have loop: "foldM (\<lambda>i blk. do { pg \<leftarrow> arr_get (blk_pg blk) i; nvmev_assert (pg_nsecs pg = secs_per_pg (spp_of ftl));
       pgs \<leftarrow> arr_set (blk_pg blk) i (pg\<lparr> pg_status := PG_FREE \<rparr>); Some (blk\<lparr> blk_pg := pgs \<rparr>) })
       [0..<pgs_per_blk (spp_of ftl)] blk = Some ?b1"
    using blk(2) by (intro free_pages_loop) auto
  obtain s where s: "set_blk ?s p ?b2 = Some s" using blk_cells.put_defined [OF blk(1)] by blast
  have run: "mark_block_free ftl p = Some (ftl\<lparr> ftl_ssd := s \<rparr>)"
    using blk s loop by (simp add: mark_block_free_def Let_def)
  have get: "get_blk s q = (if blk_key q = blk_key p then Some ?b2 else get_blk ?s q)" for q
    using blk_cells.put_get [OF s] .
  have at: "get_blk ?s q = Some blk" if "blk_key q = blk_key p" for q
    using that blk(1) blk_cells.get_key by metis
  have stat: "pg_stat s q = (if blk_key q = blk_key p \<and> pg_stat ?s q \<noteq> None then Some PG_FREE else pg_stat ?s q)" for q
    using at [of q] by (simp add: pg_stat_def get_pg_def get arr_get_def)
  have sp: "ssd_sp s = spp_of ftl" using set_blk_frame(1) [OF s] .
  have "nsecs_ok s"
    unfolding nsecs_ok_def sp
  proof (intro allI impI)
    fix q pg'
    assume "get_pg s q = Some pg'"
    then show "pg_nsecs pg' = secs_per_pg (spp_of ftl)"
      using nsecs_okD [OF D(10), of q] at [of q] by (auto simp: get_pg_def get fault_simps split: if_splits)
  qed
  moreover have "ssd_shape s" using set_blk_shape [OF s D(1)] blk by simp
  ultimately have dev: "device_ok s"
    using D sp set_blk_usable [OF s] by (simp add: device_ok_def)
  have key: "stat_keys s st K = stat_keys ?s st K" if "\<And>q. K (pg_key q) \<Longrightarrow> blk_key q \<noteq> blk_key p" for st K
    using that by (auto simp: stat_keys_def stat)
  have zero: "stat_keys s st (in_blk (blk_key p)) = {}" if "st \<noteq> PG_FREE" for st
    using that by (auto simp: stat_keys_def stat)
  have "blk_counts_ok s"
    unfolding blk_counts_ok_def
  proof (intro allI impI)
    fix q b
    assume b: "get_blk s q = Some b"
    show "blk_vpc b = card (stat_keys s PG_VALID (in_blk (blk_key q)))
        \<and> blk_ipc b = card (stat_keys s PG_INVALID (in_blk (blk_key q)))"
    proof (cases "blk_key q = blk_key p")
      case True
      with b show ?thesis by (auto simp: get zero)
    next
      case False
      then have "stat_keys s st (in_blk (blk_key q)) = stat_keys ?s st (in_blk (blk_key q))" for st
        by (intro key) auto
      with False b D(7) show ?thesis by (simp add: get blk_counts_ok_def)
    qed
  qed
  moreover have "line_counts_ok X s (lines (lm ftl))"
    unfolding line_counts_ok_def
  proof (intro conjI [of "length (lines (lm ftl)) = blks_per_pl (ssd_sp s)"] allI impI)
    show "length (lines (lm ftl)) = blks_per_pl (ssd_sp s)" using D(9) sp by simp
    fix n
    assume n: "n < length (lines (lm ftl))" "n \<notin> X"
    then have "stat_keys s st (in_line n) = stat_keys ?s st (in_line n)" for st
      using X by (intro key) (auto simp: blk_key_def)
    with n D(8) show "line_vpc (lines (lm ftl) ! n) = card (stat_keys s PG_VALID (in_line n))
        \<and> line_ipc (lines (lm ftl) ! n) = card (stat_keys s PG_INVALID (in_line n))"
      by (simp add: line_counts_ok_def)
  qed
  ultimately have "status_ok X (ftl\<lparr> ftl_ssd := s \<rparr>)" using dev by (simp add: status_ok_def)
  moreover have "\<exists>b'. get_blk s p = Some b' \<and> blk_erase_cnt b' = blk_erase_cnt blk + 1 \<and> blk_vpc b' = 0 \<and> blk_ipc b' = 0"
    by (simp add: get)
  ultimately show ?thesis using run stat sp blk(1) by (intro exI [of _ s]) (simp add: Let_def)
qed

section \<open>Room in the lines of the LUNs\<close>

text \<open>Outside the lines \<open>X\<close>, the line of \<open>lunlm\<close> that counts the pages of a block has room for its free pages.\<close>

definition da_spare :: "nat set \<Rightarrow> conv_ftl \<Rightarrow> bool" where
  "da_spare X ftl \<longleftrightarrow> (\<forall>p. in_device (spp_of ftl) p \<and> g_blk p \<notin> X \<longrightarrow>
     (\<exists>d. arr_get (lunlm ftl) (get_glun ftl p) = Some d \<and> g_blk p < length (lines d)
        \<and> line_vpc (lines d ! g_blk p) + card (stat_keys (ftl_ssd ftl) PG_FREE (in_blk (blk_key p))) \<le> pgs_per_line (spp_of ftl)))"

lemma glun_inj:
  assumes "fields_fit (spp_of ftl)" and "in_device (spp_of ftl) p" and "in_device (spp_of ftl) q"
  shows "get_glun ftl p = get_glun ftl q \<longleftrightarrow> g_ch p = g_ch q \<and> g_lun p = g_lun q"
proof -
  let ?N = "nchs (spp_of ftl)"
  have small: "g_lun x * ?N + g_ch x < 4294967296" if "in_device (spp_of ftl) x" for x
  proof -
    have "g_lun x * ?N + g_ch x < 256 * ?N" using that g_bounds(4) [of x] by (intro radix_step) (auto simp: in_device_def)
    also have "\<dots> \<le> 256 * 256" using assms(1) by (simp add: fields_fit_def)
    finally show ?thesis by simp
  qed
  show ?thesis
    using small [OF assms(2)] small [OF assms(3)] radix_eq [of "g_ch p" ?N "g_ch q" "g_lun p" "g_lun q"] assms(2,3)
    by (auto simp: get_glun_def in_device_def)
qed

lemma da_spare_write:
  assumes spare: "da_spare X ftl" and fit: "fields_fit (spp_of ftl)" and pls: "pls_per_lun (spp_of ftl) = 1"
    and shape: "ssd_shape (ftl_ssd ftl)"
    and p: "in_device (spp_of ftl) p" "pg_stat (ftl_ssd ftl) p = Some PG_FREE" "g_blk p \<notin> X"
    and d: "arr_get (lunlm ftl) (get_glun ftl p) = Some d"
    and ds: "lunlm ftl' = (lunlm ftl)[get_glun ftl p := d\<lparr> lines := (lines d)[g_blk p :=
        (lines d ! g_blk p)\<lparr> line_vpc := line_vpc (lines d ! g_blk p) + 1 \<rparr>] \<rparr>]"
    and sp: "spp_of ftl' = spp_of ftl"
    and stat: "\<And>q. pg_stat (ftl_ssd ftl') q = (if pg_key q = pg_key p then Some PG_VALID else pg_stat (ftl_ssd ftl) q)"
  shows "da_spare X ftl'"
  unfolding da_spare_def sp
proof (intro allI impI, elim conjE)
  fix q
  assume q: "in_device (spp_of ftl) q" "g_blk q \<notin> X"
  let ?F = "\<lambda>s. card (stat_keys s PG_FREE (in_blk (blk_key q)))"
  note c = card_after [OF stat p(2), where K = "in_blk (blk_key q)"]
  have glun: "get_glun ftl' q = get_glun ftl q" by (simp add: get_glun_def sp)
  obtain dq where dq: "arr_get (lunlm ftl) (get_glun ftl q) = Some dq" "g_blk q < length (lines dq)"
    "line_vpc (lines dq ! g_blk q) + ?F (ftl_ssd ftl) \<le> pgs_per_line (spp_of ftl)"
    using spare q by (auto simp: da_spare_def)
  show "\<exists>d. arr_get (lunlm ftl') (get_glun ftl' q) = Some d \<and> g_blk q < length (lines d)
      \<and> line_vpc (lines d ! g_blk q) + ?F (ftl_ssd ftl') \<le> pgs_per_line (spp_of ftl)"
  proof (cases "blk_key q = blk_key p")
    case True
    then have same: "get_glun ftl q = get_glun ftl p" "g_blk q = g_blk p" by (simp_all add: cell_keys get_glun_def)
    have "0 < ?F (ftl_ssd ftl)" using stat_keys_pos [OF p(2)] True by simp
    moreover have "?F (ftl_ssd ftl') = ?F (ftl_ssd ftl) - 1" using c(2) True by simp
    ultimately show ?thesis
      using d dq same unfolding glun ds by (auto simp: nth_list_update)
  next
    case False
    then have "?F (ftl_ssd ftl') = ?F (ftl_ssd ftl)" using c(3) by auto
    moreover have "get_glun ftl q \<noteq> get_glun ftl p \<or> g_blk q \<noteq> g_blk p"
      using False glun_inj [OF fit q(1) p(1)] q p(1) pls by (auto simp: cell_keys in_device_def)
    ultimately show ?thesis
      using d dq unfolding glun ds by (auto simp: nth_list_update)
  qed
qed

lemma da_spare_room:
  assumes "da_spare X ftl" and "ssd_shape (ftl_ssd ftl)" and free: "pg_stat (ftl_ssd ftl) p = Some PG_FREE" and "g_blk p \<notin> X"
  shows "in_device (spp_of ftl) p" and "da_room ftl p"
proof -
  show p: "in_device (spp_of ftl) p" using free get_pg_in_device [OF assms(2), of p] by (auto simp: pg_stat_def)
  obtain d where "arr_get (lunlm ftl) (get_glun ftl p) = Some d" "g_blk p < length (lines d)"
    "line_vpc (lines d ! g_blk p) + card (stat_keys (ftl_ssd ftl) PG_FREE (in_blk (blk_key p))) \<le> pgs_per_line (spp_of ftl)"
    using assms(1,4) p unfolding da_spare_def by blast
  moreover have "0 < card (stat_keys (ftl_ssd ftl) PG_FREE (in_blk (blk_key p)))" using stat_keys_pos [OF free] by simp
  ultimately show "da_room ftl p" by (simp add: da_room_def)
qed

section \<open>Properties\<close>

text \<open>C24: In a device whose page counts are exact (\<open>status_ok\<close>, with one plane in a LUN) and whose LUN lines have room for the
  free pages of their blocks (\<open>da_spare\<close>), writing a free page returns, that is, no assertion of \<open>mark_page_valid\<close> fires.
  It makes exactly that page valid, keeps every block's and every line's counts of valid and invalid pages exact, counts the
  page in the line of its LUN and in no other, and leaves room in the LUN lines for the pages that are still free, so it can
  be applied again; the tables are not touched.\<close>

theorem mark_page_valid_correct:
  assumes "status_ok {} ftl" and "da_spare {} ftl" and "pg_stat (ftl_ssd ftl) p = Some PG_FREE"
  shows "\<exists>ftl' d. mark_page_valid ftl p = Some ftl' \<and> status_ok {} ftl' \<and> da_spare {} ftl'
    \<and> (\<forall>q. pg_stat (ftl_ssd ftl') q = (if pg_key q = pg_key p then Some PG_VALID else pg_stat (ftl_ssd ftl) q))
    \<and> arr_get (lunlm ftl) (get_glun ftl p) = Some d
    \<and> lunlm ftl' = (lunlm ftl)[get_glun ftl p := d\<lparr> lines := (lines d)[g_blk p := (lines d ! g_blk p)\<lparr> line_vpc := line_vpc (lines d ! g_blk p) + 1 \<rparr>] \<rparr>]
    \<and> maptbl ftl' = maptbl ftl \<and> rmap ftl' = rmap ftl"
proof -
  note D = status_okD [OF assms(1)]
  have X: "g_blk p \<notin> {}" by simp
  note room = da_spare_room [OF assms(2) D(1) assms(3) X]
  from mark_page_valid_ok [OF assms(1,3) room(2) X] obtain ftl' d where r: "mark_page_valid ftl p = Some ftl'" "status_ok {} ftl'"
    "spp_of ftl' = spp_of ftl" "\<And>q. pg_stat (ftl_ssd ftl') q = (if pg_key q = pg_key p then Some PG_VALID else pg_stat (ftl_ssd ftl) q)"
    "arr_get (lunlm ftl) (get_glun ftl p) = Some d"
    "lunlm ftl' = (lunlm ftl)[get_glun ftl p := d\<lparr> lines := (lines d)[g_blk p := (lines d ! g_blk p)\<lparr> line_vpc := line_vpc (lines d ! g_blk p) + 1 \<rparr>] \<rparr>]"
    "maptbl ftl' = maptbl ftl" "rmap ftl' = rmap ftl"
    unfolding Let_def by (elim exE conjE) auto
  from da_spare_write [OF assms(2) D(2,5,1) room(1) assms(3) X r(5,6,3,4)] have "da_spare {} ftl'" .
  with r show ?thesis by blast
qed

text \<open>Invalidating a valid page makes exactly that page invalid, keeps all counts exact and line
  management consistent (a full line becomes a victim); no assertion of \<open>mark_page_invalid\<close> fires.\<close>

theorem mark_page_invalid_correct:
  assumes "status_ok {} ftl" and "pg_stat (ftl_ssd ftl) p = Some PG_VALID" and "da_countable ftl p"
    and "lm_inv (pgs_per_line (spp_of ftl)) U (lm ftl)"
    and "g_blk p \<in> U \<longrightarrow> line_vpc (lines (lm ftl) ! g_blk p) < pgs_per_line (spp_of ftl)"
  shows "\<exists>ftl'. mark_page_invalid ftl p = Some ftl' \<and> status_ok {} ftl'
    \<and> lm_inv (pgs_per_line (spp_of ftl)) U (lm ftl')
    \<and> (\<forall>q. pg_stat (ftl_ssd ftl') q = (if pg_key q = pg_key p then Some PG_INVALID else pg_stat (ftl_ssd ftl) q))
    \<and> maptbl ftl' = maptbl ftl \<and> rmap ftl' = rmap ftl"
proof -
  have "g_blk p \<notin> {}" by simp
  from mark_page_invalid_ok [OF assms(1-3) this assms(4,5)] show ?thesis
    unfolding Let_def by (elim exE conjE, intro exI conjI) (assumption | simp)+
qed

text \<open>Erasing a block makes all its pages free, zeroes its counts, counts one erase and touches no
  other page, while the line being collected is out of the accounting.\<close>

theorem mark_block_free_correct:
  assumes "status_ok X ftl" and "blk_in_range (spp_of ftl) p" and "g_blk p \<in> X"
  shows "\<exists>ftl' b b'. mark_block_free ftl p = Some ftl' \<and> status_ok X ftl'
    \<and> (\<forall>q. pg_stat (ftl_ssd ftl') q = (if blk_key q = blk_key p \<and> pg_stat (ftl_ssd ftl) q \<noteq> None
         then Some PG_FREE else pg_stat (ftl_ssd ftl) q))
    \<and> get_blk (ftl_ssd ftl) p = Some b \<and> get_blk (ftl_ssd ftl') p = Some b'
    \<and> blk_vpc b' = 0 \<and> blk_ipc b' = 0 \<and> blk_erase_cnt b' = blk_erase_cnt b + 1"
proof -
  obtain b where b: "get_blk (ftl_ssd ftl) p = Some b"
    using ssd_shape_get_blk [OF status_okD(1) [OF assms(1)] assms(2)] by blast
  obtain s where "mark_block_free ftl p = Some (ftl\<lparr> ftl_ssd := s \<rparr>)" "status_ok X (ftl\<lparr> ftl_ssd := s \<rparr>)"
    "\<forall>q. pg_stat s q = (if blk_key q = blk_key p \<and> pg_stat (ftl_ssd ftl) q \<noteq> None
         then Some PG_FREE else pg_stat (ftl_ssd ftl) q)"
    "\<exists>b'. get_blk s p = Some b' \<and> blk_erase_cnt b' = blk_erase_cnt b + 1 \<and> blk_vpc b' = 0 \<and> blk_ipc b' = 0"
    using mark_block_free_ok [OF assms] b unfolding Let_def by blast
  with b show ?thesis by (elim exE conjE, intro exI [of _ "ftl\<lparr> ftl_ssd := s \<rparr>"] exI [of _ b] exI conjI) (assumption | simp)+
qed

lemma tiny_get_blk:
  "get_blk tiny_ssd p = Some b \<Longrightarrow> b = ssd_init_nand_blk tiny_params"
  using ssd_init_ok(4) [OF tiny_ssd_init] by blast

lemma tiny_pg_stat: "pg_stat tiny_ssd p = (if in_device tiny_params p then Some PG_FREE else None)"
proof (cases "in_device tiny_params p")
  case True
  then obtain pg where pg: "get_pg tiny_ssd p = Some pg" using get_pg_in_device [OF tiny_ssd_ok(1), of p] by auto
  then have "pg_status pg = PG_FREE"
    by (auto simp: get_pg_def ssd_init_nand_blk_def ssd_init_nand_page_def fault_simps dest!: tiny_get_blk)
  with True pg show ?thesis by (simp add: pg_stat_def)
next
  case False
  then show ?thesis using get_pg_in_device [OF tiny_ssd_ok(1), of p] by (simp add: pg_stat_def)
qed

lemma tiny_no_pages: "st \<noteq> PG_FREE \<Longrightarrow> stat_keys tiny_ssd st K = {}"
  by (auto simp: stat_keys_def tiny_pg_stat split: if_splits)

lemma tiny_device_ok: "device_ok tiny_ssd"
  using tiny_ssd_ok tiny_sane tiny_fields_fit
  by (auto simp: device_ok_def nsecs_ok_def get_pg_def ssd_init_nand_blk_def ssd_init_nand_page_def fault_simps
      dest!: tiny_get_blk)

lemma tiny_status_ok: "status_ok {} tiny_ftl"
proof -
  have "blk_counts_ok tiny_ssd"
    by (auto simp: blk_counts_ok_def tiny_no_pages ssd_init_nand_blk_def dest!: tiny_get_blk)
  moreover have "line_counts_ok {} tiny_ssd (lines tiny_lm)"
    by (auto simp: line_counts_ok_def tiny_no_pages tiny_lm_lines less_Suc_eq numeral_eq_Suc)
  ultimately show ?thesis using tiny_device_ok by (simp add: status_ok_def)
qed

lemma tiny_free_page: "pg_stat tiny_ssd (mk_ppa 1 0 0 0 1) = Some PG_FREE"
  by (simp add: tiny_pg_stat in_device_def mk_ppa_fields)

lemma tiny_da_room: "da_room tiny_ftl (mk_ppa 1 0 0 0 1)"
  by (simp add: da_room_def get_glun_def mk_ppa_fields tiny_lm_lines)

lemma tiny_da_spare: "da_spare {} tiny_ftl"
  unfolding da_spare_def
proof (intro allI impI, elim conjE)
  fix p
  assume p: "in_device (spp_of tiny_ftl) p"
  then have q: "g_ch p < 2" "g_lun p = 0" "g_blk p < 4" "blk_in_range (spp_of tiny_ftl) p" by (simp_all add: in_device_def blk_in_range_def)
  note D = status_okD [OF tiny_status_ok]
  have "card (stat_keys tiny_ssd PG_FREE (in_blk (blk_key p))) \<le> 2" using blk_pages_sum [OF D(1,2) q(4)] by simp
  moreover have "get_glun tiny_ftl p = g_ch p" using q by (simp add: get_glun_def)
  moreover have "g_ch p = 0 \<or> g_ch p = 1" "g_blk p = 0 \<or> g_blk p = 1 \<or> g_blk p = 2 \<or> g_blk p = 3" using q(1,3) by auto
  ultimately show "\<exists>d. arr_get (lunlm tiny_ftl) (get_glun tiny_ftl p) = Some d \<and> g_blk p < length (lines d)
      \<and> line_vpc (lines d ! g_blk p) + card (stat_keys (ftl_ssd tiny_ftl) PG_FREE (in_blk (blk_key p))) \<le> pgs_per_line (spp_of tiny_ftl)"
    by (auto simp: tiny_lm_lines)
qed

lemma mark_page_valid_correct_witness:
  "\<exists>ftl'. mark_page_valid tiny_ftl (mk_ppa 1 0 0 0 1) = Some ftl'
    \<and> pg_stat (ftl_ssd ftl') (mk_ppa 1 0 0 0 1) = Some PG_VALID"
  using mark_page_valid_correct [OF tiny_status_ok tiny_da_spare, of "mk_ppa 1 0 0 0 1"] tiny_free_page by auto

text \<open>The small device after its first page was written.\<close>

definition tiny_written :: conv_ftl where
  "tiny_written = the (mark_page_valid tiny_ftl (mk_ppa 1 0 0 0 1))"

lemma tiny_written_ok:
  "status_ok {} tiny_written" "pg_stat (ftl_ssd tiny_written) (mk_ppa 1 0 0 0 1) = Some PG_VALID"
  "da_countable tiny_written (mk_ppa 1 0 0 0 1)" "spp_of tiny_written = tiny_params"
  "\<exists>lm'. lm_line_valid 4 (lm tiny_ftl) 0 = Some lm' \<and> lm tiny_written = lm'"
proof -
  have "pg_stat (ftl_ssd tiny_ftl) (mk_ppa 1 0 0 0 1) = Some PG_FREE" "g_blk (mk_ppa 1 0 0 0 1) \<notin> {}"
    using tiny_free_page by simp_all
  note ok = mark_page_valid_ok [OF tiny_status_ok this(1) tiny_da_room this(2), unfolded Let_def]
  show "status_ok {} tiny_written" "pg_stat (ftl_ssd tiny_written) (mk_ppa 1 0 0 0 1) = Some PG_VALID"
    "da_countable tiny_written (mk_ppa 1 0 0 0 1)" "spp_of tiny_written = tiny_params"
    "\<exists>lm'. lm_line_valid 4 (lm tiny_ftl) 0 = Some lm' \<and> lm tiny_written = lm'"
    using ok by (auto simp: tiny_written_def da_countable_def get_glun_def mk_ppa_fields tiny_lm_lines)
qed

lemma tiny_ftl_lm_inv: "lm_inv 4 {0, 1} (lm tiny_ftl)"
proof -
  have i: "lm_inv 4 {} tiny_lm" using init_line_mgmt_ok(1) [OF tiny_lm_init] .
  have 1: "lm_get_next_free_line tiny_lm = (Some 0, tiny_lm\<lparr> free_line_list := [1, 2, 3], free_line_cnt := 3 \<rparr>)"
    by (simp add: lm_get_next_free_line_def tiny_lm_free)
  have 2: "lm_get_next_free_line (tiny_lm\<lparr> free_line_list := [1, 2, 3], free_line_cnt := 3 \<rparr>) = (Some 1, lm tiny_ftl)"
    by (simp add: lm_get_next_free_line_def)
  from lm_get_next_free_line_ok(1) [OF lm_get_next_free_line_ok(1) [OF i 1] 2]
  show ?thesis by (simp add: insert_commute)
qed

lemma tiny_written_lm_inv: "lm_inv 4 {0, 1} (lm tiny_written)" "line_vpc (lines (lm tiny_written) ! 0) = 1"
proof -
  have r: "line_vpc (lines (lm tiny_ftl) ! 0) + line_ipc (lines (lm tiny_ftl) ! 0) < 4" by (simp add: tiny_lm_lines)
  from lm_line_valid_ok [OF tiny_ftl_lm_inv _ r] obtain m where
    "lm_line_valid 4 (lm tiny_ftl) 0 = Some m" "lm_inv 4 {0, 1} m"
    "lines m = (lines (lm tiny_ftl))[0 := (lines (lm tiny_ftl) ! 0)\<lparr> line_vpc := line_vpc (lines (lm tiny_ftl) ! 0) + 1 \<rparr>]"
    by auto
  with tiny_written_ok(5) show "lm_inv 4 {0, 1} (lm tiny_written)" "line_vpc (lines (lm tiny_written) ! 0) = 1"
    by (auto simp: tiny_lm_lines)
qed

lemma mark_page_invalid_correct_witness:
  "\<exists>ftl'. mark_page_invalid tiny_written (mk_ppa 1 0 0 0 1) = Some ftl'
    \<and> pg_stat (ftl_ssd ftl') (mk_ppa 1 0 0 0 1) = Some PG_INVALID"
  using mark_page_invalid_correct [OF tiny_written_ok(1-3), of "{0, 1}"] tiny_written_ok(4) tiny_written_lm_inv
  by (auto simp: mk_ppa_fields)

lemma mark_block_free_correct_witness:
  "\<exists>ftl'. mark_block_free tiny_written (mk_ppa 1 0 0 0 0) = Some ftl'"
proof -
  have "status_ok {0} tiny_written" using tiny_written_ok(1) by (auto simp: status_ok_def line_counts_ok_def)
  from mark_block_free_correct [OF this, of "mk_ppa 1 0 0 0 0"] tiny_written_ok(4)
  show ?thesis by (auto simp: blk_in_range_def mk_ppa_fields)
qed

end
