(* ===== verification/Write_Pointer.thy ===== *)
theory Write_Pointer
  imports Page_Status
begin

text \<open>
  The write pointers of the conventional FTL (\<open>conv_ftl.c\<close>): taking the next free line, the
  striped order in which a line is written (\<open>advance_write_pointer\<close>, \<open>get_new_page\<close>), and the
  per-LUN (DA) and QLC variants of the hybrid build.
\<close>

section \<open>Operations\<close>

definition get_next_free_line :: "conv_ftl \<Rightarrow> nat option \<times> conv_ftl" where
  "get_next_free_line ftl = (let (l, m) = lm_get_next_free_line (lm ftl) in (l, ftl\<lparr> lm := m \<rparr>))"

definition get_next_free_line_DA :: "conv_ftl \<Rightarrow> nat \<Rightarrow> (nat option \<times> conv_ftl) option" where
  "get_next_free_line_DA ftl lun = do {
     m \<leftarrow> arr_get (lunlm ftl) lun;
     let (l, m) = lm_get_next_free_line m;
     ms \<leftarrow> arr_set (lunlm ftl) lun m;
     Some (l, ftl\<lparr> lunlm := ms \<rparr>)
   }"

text \<open>The pointer \<open>__get_wp\<close> returns, read and written through.\<close>

definition get_wp :: "conv_ftl \<Rightarrow> io_type \<Rightarrow> write_pointer option" where
  "get_wp ftl io = (case io of USER_IO \<Rightarrow> Some (user_wp ftl) | GC_IO \<Rightarrow> Some (gc_wp ftl) | OTHER_IO _ \<Rightarrow> None)"

definition put_wp :: "conv_ftl \<Rightarrow> io_type \<Rightarrow> write_pointer \<Rightarrow> conv_ftl" where
  "put_wp ftl io w = (case io of USER_IO \<Rightarrow> ftl\<lparr> user_wp := w \<rparr> | GC_IO \<Rightarrow> ftl\<lparr> gc_wp := w \<rparr> | OTHER_IO _ \<Rightarrow> ftl)"

definition get_wp_DA :: "conv_ftl \<Rightarrow> io_type \<Rightarrow> nat \<Rightarrow> write_pointer option" where
  "get_wp_DA ftl io lun =
     (case io of USER_IO \<Rightarrow> arr_get (lunwp ftl) lun | GC_IO \<Rightarrow> Some (gc_wp ftl) | OTHER_IO _ \<Rightarrow> None)"

definition put_wp_DA :: "conv_ftl \<Rightarrow> io_type \<Rightarrow> nat \<Rightarrow> write_pointer \<Rightarrow> conv_ftl option" where
  "put_wp_DA ftl io lun w =
     (case io of
        USER_IO \<Rightarrow> do { ws \<leftarrow> arr_set (lunwp ftl) lun w; Some (ftl\<lparr> lunwp := ws \<rparr>) }
      | GC_IO \<Rightarrow> Some (ftl\<lparr> gc_wp := w \<rparr>)
      | OTHER_IO _ \<Rightarrow> None)"

definition prepare_write_pointer :: "conv_ftl \<Rightarrow> io_type \<Rightarrow> conv_ftl option" where
  "prepare_write_pointer ftl io = do {
     _ \<leftarrow> get_wp ftl io;
     let (curl, ftl) = get_next_free_line ftl;
     l \<leftarrow> curl;
     line \<leftarrow> arr_get (lines (lm ftl)) l;
     Some (put_wp ftl io \<lparr> curline = Some l, wp_ch = 0, wp_lun = 0, wp_pg = 0, wp_blk = line_id line, wp_pl = 0 \<rparr>)
   }"

definition prepare_write_pointer_DA :: "conv_ftl \<Rightarrow> io_type \<Rightarrow> conv_ftl option" where
  "prepare_write_pointer_DA ftl io = do {
     let n = nchs (spp_of ftl);
     foldM (\<lambda>lun ftl. do {
       (curl, ftl) \<leftarrow> get_next_free_line_DA ftl lun;
       _ \<leftarrow> get_wp_DA ftl io lun;
       localch \<leftarrow> mod_trap lun n;
       locallun \<leftarrow> div_trap lun n;
       l \<leftarrow> curl;
       m \<leftarrow> arr_get (lunlm ftl) lun;
       line \<leftarrow> arr_get (lines m) l;
       put_wp_DA ftl io lun \<lparr> curline = Some l, wp_ch = localch, wp_lun = locallun, wp_pg = 0,
                              wp_blk = line_id line, wp_pl = 0 \<rparr>
     }) [0..<u32 (luns_per_ch (spp_of ftl) * n)] ftl
   }"

text \<open>The current line is used up: it is put away and the next free line becomes current.\<close>

definition next_line :: "conv_ftl \<Rightarrow> write_pointer \<Rightarrow> (write_pointer \<times> conv_ftl) option" where
  "next_line ftl wpp = do {
     let spp = spp_of ftl;
     l \<leftarrow> curline wpp;
     m \<leftarrow> lm_retire_line (pgs_per_line spp) (lm ftl) l;
     nvmev_assert (wp_blk wpp < blks_per_pl spp);
     let (curl, ftl) = get_next_free_line (ftl\<lparr> lm := m \<rparr>);
     l \<leftarrow> curl;
     line \<leftarrow> arr_get (lines (lm ftl)) l;
     nvmev_assert (line_id line < blks_per_pl spp);
     Some (wpp\<lparr> curline := Some l, wp_blk := line_id line \<rparr>, ftl)
   }"

definition advance_write_pointer :: "conv_ftl \<Rightarrow> io_type \<Rightarrow> conv_ftl option" where
  "advance_write_pointer ftl io = do {
     let spp = spp_of ftl;
     wpp \<leftarrow> get_wp ftl io;
     nvmev_assert (wp_pg wpp < pgs_per_blk spp);
     let pg = wp_pg wpp + 1;
     r \<leftarrow> mod_trap pg (pgs_per_oneshotpg spp);
     if r \<noteq> 0 then Some (put_wp ftl io (wpp\<lparr> wp_pg := pg \<rparr>))
     else do {
       let pg = pg - pgs_per_oneshotpg spp;
       nvmev_assert (wp_ch wpp < nchs spp);
       let ch = wp_ch wpp + 1;
       if ch \<noteq> nchs spp then Some (put_wp ftl io (wpp\<lparr> wp_pg := pg, wp_ch := ch \<rparr>))
       else do {
         nvmev_assert (wp_lun wpp < luns_per_ch spp);
         let lun = wp_lun wpp + 1;
         if lun \<noteq> luns_per_ch spp
         then Some (put_wp ftl io (wpp\<lparr> wp_pg := pg, wp_ch := 0, wp_lun := lun \<rparr>))
         else do {
           let pg = pg + pgs_per_oneshotpg spp;
           if pg \<noteq> pgs_per_blk spp
           then Some (put_wp ftl io (wpp\<lparr> wp_pg := pg, wp_ch := 0, wp_lun := 0 \<rparr>))
           else do {
             (wpp, ftl) \<leftarrow> next_line ftl (wpp\<lparr> wp_pg := 0, wp_ch := 0, wp_lun := 0 \<rparr>);
             nvmev_assert (wp_pl wpp = 0);
             Some (put_wp ftl io wpp)
           }
         }
       }
     }
   }"

definition pick :: "base_ssd \<Rightarrow> 'a \<Rightarrow> 'a \<Rightarrow> 'a" where
  "pick b hybrid other = (if b = HYBRID_SSD then hybrid else other)"

text \<open>The per-LUN ("die allocation") pointer: \<open>next_line_DA\<close> is the part taken when the block is full.\<close>

definition next_line_DA :: "base_ssd \<Rightarrow> conv_ftl \<Rightarrow> nat \<Rightarrow> write_pointer \<Rightarrow> (write_pointer \<times> conv_ftl) option" where
  "next_line_DA b ftl lun wpp = do {
     let spp = spp_of ftl;
     let blks = pick b (slc_blks_per_pl spp) (blks_per_pl spp);
     l \<leftarrow> curline wpp;
     m \<leftarrow> arr_get (lunlm ftl) lun;
     m \<leftarrow> lm_retire_line (pgs_per_lun_line spp) m l;
     nvmev_assert (wp_blk wpp < blks);
     ms \<leftarrow> arr_set (lunlm ftl) lun m;
     (curl, ftl) \<leftarrow> get_next_free_line_DA (ftl\<lparr> lunlm := ms \<rparr>) lun;
     l \<leftarrow> curl;
     m \<leftarrow> arr_get (lunlm ftl) lun;
     line \<leftarrow> arr_get (lines m) l;
     nvmev_assert (line_id line < blks);
     Some (wpp\<lparr> curline := Some l, wp_blk := line_id line, wp_pg := 0 \<rparr>, ftl)
   }"

definition advance_write_pointer_DA :: "base_ssd \<Rightarrow> conv_ftl \<Rightarrow> io_type \<Rightarrow> conv_ftl option" where
  "advance_write_pointer_DA b ftl io = do {
     let spp = spp_of ftl;
     let lun = lunpointer ftl;
     let max_luns = pick b (u32 (slc_channels spp * slc_luns_per_ch spp)) (nchs spp * luns_per_ch spp);
     let pgs = pick b (slc_pgs_per_blk spp) (pgs_per_blk spp);
     wpp \<leftarrow> get_wp_DA ftl io lun;
     nvmev_assert (wp_pg wpp < pgs);
     let pg = wp_pg wpp + 1;
     r \<leftarrow> mod_trap pg (pick b (slc_pgs_per_oneshotpg spp) (pgs_per_oneshotpg spp));
     if r \<noteq> 0 then put_wp_DA ftl io lun (wpp\<lparr> wp_pg := pg \<rparr>)
     else do {
       (wpp, ftl) \<leftarrow> (if pg = pgs then next_line_DA b ftl lun (wpp\<lparr> wp_pg := pg \<rparr>)
                       else Some (wpp\<lparr> wp_pg := pg \<rparr>, ftl));
       ftl \<leftarrow> put_wp_DA ftl io lun wpp;
       let glun = u32 (lun + 1);
       Some (ftl\<lparr> lunpointer := (if glun \<noteq> max_luns then glun else 0) \<rparr>)
     }
   }"

definition advance_write_pointer_QLC :: "base_ssd \<Rightarrow> conv_ftl \<Rightarrow> io_type \<Rightarrow> conv_ftl option" where
  "advance_write_pointer_QLC b ftl io =
     (if b \<noteq> HYBRID_SSD then Some ftl
      else do {
        let spp = spp_of ftl;
        wpp \<leftarrow> get_wp ftl io;
        nvmev_assert (wp_pg wpp < qlc_pgs_per_blk spp);
        let wpp = wpp\<lparr> wp_pg := wp_pg wpp + 1 \<rparr>;
        r \<leftarrow> mod_trap (wp_pg wpp) (qlc_pgs_per_oneshotpg spp);
        if r \<noteq> 0 \<or> wp_pg wpp \<noteq> qlc_pgs_per_blk spp then Some (put_wp ftl io wpp)
        else do {
          let wpp = wpp\<lparr> wp_blk := wp_blk wpp + 1 \<rparr>;
          nvmev_assert (wp_blk wpp < qlc_blks_per_pl spp);
          let wpp = wpp\<lparr> wp_pg := 0 \<rparr>;
          if wp_blk wpp \<noteq> qlc_blks_per_pl spp then Some (put_wp ftl io wpp)
          else do {
            let wpp = wpp\<lparr> wp_blk := 0, wp_pl := wp_pl wpp + 1 \<rparr>;
            nvmev_assert (wp_pl wpp < pls_per_lun spp);
            if wp_pl wpp \<noteq> pls_per_lun spp then Some (put_wp ftl io wpp)
            else do {
              let wpp = wpp\<lparr> wp_pl := 0, wp_lun := wp_lun wpp + 1 \<rparr>;
              nvmev_assert (wp_lun wpp < qlc_luns_per_ch spp);
              if wp_lun wpp \<noteq> qlc_luns_per_ch spp then Some (put_wp ftl io wpp)
              else do {
                let wpp = wpp\<lparr> wp_lun := 0, wp_ch := wp_ch wpp + 1 \<rparr>;
                let wpp = (if wp_ch wpp \<ge> slc_channels spp + qlc_channels spp
                           then wpp\<lparr> wp_ch := slc_channels spp \<rparr> else wpp);
                Some (put_wp ftl io wpp)
              }
            }
          }
        }
      })"

definition get_new_page :: "base_ssd \<Rightarrow> conv_ftl \<Rightarrow> io_type \<Rightarrow> ppa option" where
  "get_new_page b ftl io = do {
     let spp = spp_of ftl;
     w \<leftarrow> get_wp ftl io;
     p \<leftarrow> (if b = HYBRID_SSD then do {
             c \<leftarrow> mod_trap (wp_ch w) (qlc_channels spp);
             l \<leftarrow> mod_trap (wp_lun w) (qlc_luns_per_ch spp);
             let p = set_g_lun l (set_g_ch (slc_channels spp + c) 0);
             nvmev_assert (g_ch p \<ge> slc_channels spp);
             nvmev_assert (g_ch p < slc_channels spp + qlc_channels spp);
             Some p
           } else Some (set_g_lun (wp_lun w) (set_g_ch (wp_ch w) 0)));
     Some (set_g_pg (wp_pg w) (set_g_blk (wp_blk w) (set_g_pl (wp_pl w) p)))
   }"

definition get_new_page_DA :: "base_ssd \<Rightarrow> conv_ftl \<Rightarrow> io_type \<Rightarrow> ppa option" where
  "get_new_page_DA b ftl io = do {
     let spp = spp_of ftl;
     w \<leftarrow> get_wp_DA ftl io (lunpointer ftl);
     p \<leftarrow> (if b = HYBRID_SSD then do {
             c \<leftarrow> mod_trap (wp_ch w) (slc_channels spp);
             l \<leftarrow> mod_trap (wp_lun w) (slc_luns_per_ch spp);
             let p = set_g_lun l (set_g_ch c 0);
             nvmev_assert (g_ch p < slc_channels spp);
             Some p
           } else Some (set_g_lun (wp_lun w) (set_g_ch (wp_ch w) 0)));
     let p = set_g_pl (wp_pl w) (set_g_blk (wp_blk w) (set_g_pg (wp_pg w) p));
     nvmev_assert (g_pl p = 0);
     Some p
   }"

section \<open>The order in which a line is written\<close>

text \<open>
  \<open>stripe spp i\<close> is the channel, LUN and page written \<open>i\<close>-th in a line: all pages of a one-shot
  page first, then the next channel, the next LUN, and the next word line. \<open>wp_index\<close> is the
  number of pages of the line already written.
\<close>

definition stripe :: "ssdparams \<Rightarrow> nat \<Rightarrow> nat \<times> nat \<times> nat" where
  "stripe spp i = (let o1 = pgs_per_oneshotpg spp; j = i div o1
     in (j mod nchs spp, j div nchs spp mod luns_per_ch spp, j div nchs spp div luns_per_ch spp * o1 + i mod o1))"

definition wp_index :: "ssdparams \<Rightarrow> write_pointer \<Rightarrow> nat" where
  "wp_index spp w = ((wp_pg w div pgs_per_oneshotpg spp * luns_per_ch spp + wp_lun w) * nchs spp + wp_ch w)
     * pgs_per_oneshotpg spp + wp_pg w mod pgs_per_oneshotpg spp"

definition wp_ok :: "ssdparams \<Rightarrow> write_pointer \<Rightarrow> bool" where
  "wp_ok spp w \<longleftrightarrow> wp_ch w < nchs spp \<and> wp_lun w < luns_per_ch spp \<and> wp_pg w < pgs_per_blk spp
     \<and> wp_blk w < blks_per_pl spp \<and> wp_pl w = 0"

lemma oneshot_pos:
  assumes "geometry_ok spp" and "wp_ok spp w"
  shows "0 < pgs_per_oneshotpg spp" "0 < oneshotpgs_per_blk spp" "0 < nchs spp" "0 < luns_per_ch spp"
    and "pgs_per_blk spp = oneshotpgs_per_blk spp * pgs_per_oneshotpg spp"
    and "pgs_per_line spp = oneshotpgs_per_blk spp * luns_per_ch spp * nchs spp * pgs_per_oneshotpg spp"
  using assms by (auto simp: geometry_ok_def wp_ok_def intro!: Nat.gr0I)

lemma stripe_index:
  assumes "geometry_ok spp" and "wp_ok spp w"
  shows "stripe spp (wp_index spp w) = (wp_ch w, wp_lun w, wp_pg w)"
proof -
  note p = oneshot_pos [OF assms]
  have "wp_index spp w div pgs_per_oneshotpg spp =
      (wp_pg w div pgs_per_oneshotpg spp * luns_per_ch spp + wp_lun w) * nchs spp + wp_ch w"
    "wp_index spp w mod pgs_per_oneshotpg spp = wp_pg w mod pgs_per_oneshotpg spp"
    using p by (simp_all add: wp_index_def)
  then show ?thesis using assms(2) p by (simp add: stripe_def wp_ok_def Let_def)
qed

lemma wp_index_bound:
  assumes "geometry_ok spp" and "wp_ok spp w"
  shows "wp_index spp w < pgs_per_line spp"
proof -
  note p = oneshot_pos [OF assms]
  have "wp_pg w div pgs_per_oneshotpg spp < oneshotpgs_per_blk spp"
    using assms(2) p(5) by (simp add: wp_ok_def less_mult_imp_div_less)
  then show ?thesis
    using assms(2) p unfolding wp_index_def p(6) wp_ok_def by (intro radix_step) auto
qed

lemma stripe_range:
  assumes "geometry_ok spp" and "i < pgs_per_line spp"
  shows "stripe spp i \<in> {..<nchs spp} \<times> {..<luns_per_ch spp} \<times> {..<pgs_per_blk spp}"
proof -
  let ?o = "pgs_per_oneshotpg spp" and ?N = "nchs spp" and ?L = "luns_per_ch spp" and ?S = "oneshotpgs_per_blk spp"
  have l: "i < ?S * ?L * ?N * ?o" using assms by (simp add: geometry_ok_def mult_ac)
  then have pos: "0 < ?o" "0 < ?N" "0 < ?L" by (auto intro!: Nat.gr0I)
  have "i div ?o div ?N div ?L < ?S"
    using l by (simp add: less_mult_imp_div_less)
  then have "i div ?o div ?N div ?L * ?o + i mod ?o < ?S * ?o" using pos by (intro radix_step) auto
  then show ?thesis using pos assms by (simp add: stripe_def Let_def geometry_ok_def mult.commute)
qed

lemma stripe_inj:
  assumes "geometry_ok spp" and "i < pgs_per_line spp" and "j < pgs_per_line spp" and eq: "stripe spp i = stripe spp j"
  shows "i = j"
proof -
  let ?o = "pgs_per_oneshotpg spp" and ?N = "nchs spp" and ?L = "luns_per_ch spp"
  have pos: "0 < ?o"
    using assms(1,2) by (auto simp: geometry_ok_def intro!: Nat.gr0I)
  have "i mod ?o < ?o" "j mod ?o < ?o" using pos by simp_all
  with eq have e: "i div ?o div ?N div ?L = j div ?o div ?N div ?L" "i mod ?o = j mod ?o"
    "i div ?o mod ?N = j div ?o mod ?N" "i div ?o div ?N mod ?L = j div ?o div ?N mod ?L"
    by (auto simp: stripe_def Let_def radix_eq)
  then have "i div ?o div ?N = j div ?o div ?N" by (metis div_mult_mod_eq)
  with e have "i div ?o = j div ?o" by (metis div_mult_mod_eq)
  with e show ?thesis by (metis div_mult_mod_eq)
qed

lemma stripe_bij:
  assumes "geometry_ok spp"
  shows "bij_betw (stripe spp) {..<pgs_per_line spp} ({..<nchs spp} \<times> {..<luns_per_ch spp} \<times> {..<pgs_per_blk spp})"
proof -
  let ?R = "{..<nchs spp} \<times> {..<luns_per_ch spp} \<times> {..<pgs_per_blk spp}"
  have inj: "inj_on (stripe spp) {..<pgs_per_line spp}"
    using stripe_inj [OF assms] by (auto intro: inj_onI)
  have "stripe spp ` {..<pgs_per_line spp} \<subseteq> ?R" using stripe_range [OF assms] by blast
  moreover have "card (stripe spp ` {..<pgs_per_line spp}) = card ?R"
    unfolding card_image [OF inj] using assms by (simp add: geometry_ok_def mult_ac)
  ultimately have "stripe spp ` {..<pgs_per_line spp} = ?R" by (intro card_subset_eq) auto
  with inj show ?thesis by (simp add: bij_betw_def)
qed

section \<open>Advancing the write pointer\<close>

lemma wp_index_parts:
  "0 < o1 \<Longrightarrow> r < o1 \<Longrightarrow> ((k * o1 + r) div o1 * L + l) * N + c = (k * L + l) * N + (c :: nat)"
  by simp

text \<open>One step inside a line.\<close>

definition wp_next :: "ssdparams \<Rightarrow> write_pointer \<Rightarrow> write_pointer" where
  "wp_next spp w = (let (c, l, g) = stripe spp (wp_index spp w + 1) in w\<lparr> wp_pg := g, wp_ch := c, wp_lun := l \<rparr>)"

lemma stripe_step:
  assumes geo: "geometry_ok spp" and w: "wp_ok spp w"
    and o1: "o1 = pgs_per_oneshotpg spp" and k: "k = wp_pg w div o1" and r: "r = wp_pg w mod o1"
  shows "r + 1 \<noteq> o1 \<Longrightarrow> stripe spp (wp_index spp w + 1) = (wp_ch w, wp_lun w, wp_pg w + 1)"
    and "r + 1 = o1 \<Longrightarrow> wp_ch w + 1 \<noteq> nchs spp \<Longrightarrow> stripe spp (wp_index spp w + 1) = (wp_ch w + 1, wp_lun w, k * o1)"
    and "r + 1 = o1 \<Longrightarrow> wp_ch w + 1 = nchs spp \<Longrightarrow> wp_lun w + 1 \<noteq> luns_per_ch spp \<Longrightarrow>
          stripe spp (wp_index spp w + 1) = (0, wp_lun w + 1, k * o1)"
    and "r + 1 = o1 \<Longrightarrow> wp_ch w + 1 = nchs spp \<Longrightarrow> wp_lun w + 1 = luns_per_ch spp \<Longrightarrow>
          stripe spp (wp_index spp w + 1) = (0, 0, (k + 1) * o1)"
    and "r + 1 = o1 \<Longrightarrow> wp_ch w + 1 = nchs spp \<Longrightarrow> wp_lun w + 1 = luns_per_ch spp \<Longrightarrow>
          wp_index spp w + 1 = (k + 1) * luns_per_ch spp * nchs spp * o1"
proof -
  let ?N = "nchs spp" and ?L = "luns_per_ch spp"
  note p = oneshot_pos(1-4) [OF geo w]
  have lt: "wp_ch w < ?N" "wp_lun w < ?L" "r < o1" using w p by (simp_all add: wp_ok_def r o1)
  have i: "wp_index spp w = ((k * ?L + wp_lun w) * ?N + wp_ch w) * o1 + r"
    by (simp add: wp_index_def k r o1)
  have pg: "wp_pg w = k * o1 + r" by (simp add: k r)
  { assume a: "r + 1 \<noteq> o1"
    then have "r + 1 < o1" using lt by simp
    moreover have "wp_index spp w + 1 = ((k * ?L + wp_lun w) * ?N + wp_ch w) * o1 + (r + 1)" by (simp add: i)
    ultimately have "(wp_index spp w + 1) div o1 = (k * ?L + wp_lun w) * ?N + wp_ch w" "(wp_index spp w + 1) mod o1 = r + 1"
      by (simp_all only: div_mult_self3 mod_mult_self3 div_less mod_less)
    then show "stripe spp (wp_index spp w + 1) = (wp_ch w, wp_lun w, wp_pg w + 1)"
      using lt by (simp add: stripe_def Let_def o1 [symmetric] pg) }
  { assume a: "r + 1 = o1"
    then have "wp_index spp w + 1 = ((k * ?L + wp_lun w) * ?N + (wp_ch w + 1)) * o1" by (simp add: i)
    then have d: "(wp_index spp w + 1) div o1 = (k * ?L + wp_lun w) * ?N + (wp_ch w + 1)" "(wp_index spp w + 1) mod o1 = 0"
      and full: "wp_index spp w + 1 = ((k * ?L + wp_lun w) * ?N + (wp_ch w + 1)) * o1"
      using lt p by (simp_all add: o1)
    { assume "wp_ch w + 1 \<noteq> ?N"
      then have "wp_ch w + 1 < ?N" using lt by simp
      then have "((k * ?L + wp_lun w) * ?N + (wp_ch w + 1)) div ?N = k * ?L + wp_lun w"
        "((k * ?L + wp_lun w) * ?N + (wp_ch w + 1)) mod ?N = wp_ch w + 1"
        by (simp_all only: div_mult_self3 mod_mult_self3 div_less mod_less)
      then show "stripe spp (wp_index spp w + 1) = (wp_ch w + 1, wp_lun w, k * o1)"
        using lt unfolding stripe_def Let_def o1 [symmetric] d by simp }
    { assume c: "wp_ch w + 1 = ?N"
      then have "(k * ?L + wp_lun w) * ?N + (wp_ch w + 1) = (k * ?L + (wp_lun w + 1)) * ?N"
        by (simp add: add_mult_distrib)
      note e = d [unfolded this] and full = full [unfolded this]
      { assume "wp_lun w + 1 \<noteq> ?L"
        then have "wp_lun w + 1 < ?L" using lt by simp
        then have "(k * ?L + (wp_lun w + 1)) div ?L = k" "(k * ?L + (wp_lun w + 1)) mod ?L = wp_lun w + 1"
          by (simp_all only: div_mult_self3 mod_mult_self3 div_less mod_less)
        then show "stripe spp (wp_index spp w + 1) = (0, wp_lun w + 1, k * o1)"
          using p unfolding stripe_def Let_def o1 [symmetric] e by simp }
      { assume "wp_lun w + 1 = ?L"
        then have "k * ?L + (wp_lun w + 1) = (k + 1) * ?L" by simp
        note e = e [unfolded this] and full = full [unfolded this]
        show "stripe spp (wp_index spp w + 1) = (0, 0, (k + 1) * o1)"
          using lt p unfolding stripe_def Let_def o1 [symmetric] e by simp
        show "wp_index spp w + 1 = (k + 1) * luns_per_ch spp * nchs spp * o1" by (fact full) } } }
qed

lemma advance_write_pointer_cases:
  assumes geo: "geometry_ok (spp_of ftl)" and w: "wp_ok (spp_of ftl) w" and get: "get_wp ftl io = Some w"
  shows "wp_index (spp_of ftl) w + 1 < pgs_per_line (spp_of ftl) \<Longrightarrow>
      advance_write_pointer ftl io = Some (put_wp ftl io (wp_next (spp_of ftl) w))"
    and "wp_index (spp_of ftl) w + 1 = pgs_per_line (spp_of ftl) \<Longrightarrow>
      advance_write_pointer ftl io = do {
        (wpp, ftl) \<leftarrow> next_line ftl (w\<lparr> wp_pg := 0, wp_ch := 0, wp_lun := 0 \<rparr>);
        nvmev_assert (wp_pl wpp = 0);
        Some (put_wp ftl io wpp) }"
proof -
  let ?spp = "spp_of ftl" let ?o = "pgs_per_oneshotpg ?spp" and ?N = "nchs ?spp" and ?L = "luns_per_ch ?spp"
  let ?k = "wp_pg w div ?o" and ?r = "wp_pg w mod ?o"
  note p = oneshot_pos [OF geo w] and st = stripe_step [OF geo w refl refl refl]
  have lt: "wp_ch w < ?N" "wp_lun w < ?L" "wp_pg w < pgs_per_blk ?spp" "?r < ?o" using w p by (simp_all add: wp_ok_def)
  have mod: "(wp_pg w + 1) mod ?o = (if ?r + 1 = ?o then 0 else ?r + 1)"
    using p(1) by (simp add: mod_Suc)
  have sub: "wp_pg w + 1 - ?o = ?k * ?o" "wp_pg w + 1 - ?o + ?o = (?k + 1) * ?o" if "?r + 1 = ?o"
  proof -
    have "wp_pg w + 1 = ?k * ?o + (?r + 1)" using div_mult_mod_eq [of "wp_pg w" ?o] by linarith
    then have "wp_pg w + 1 = ?k * ?o + ?o" unfolding that .
    then show "wp_pg w + 1 - ?o = ?k * ?o" "wp_pg w + 1 - ?o + ?o = (?k + 1) * ?o" by (simp_all add: add.commute)
  qed
  note unf = advance_write_pointer_def Let_def get bind.bind_lunit
  have nxt: "wp_next ?spp w = w\<lparr> wp_pg := g, wp_ch := c, wp_lun := l \<rparr>" if "stripe ?spp (wp_index ?spp w + 1) = (c, l, g)" for c l g
    using that by (simp add: wp_next_def)
  have upd: "w\<lparr> wp_pg := g, wp_ch := wp_ch w, wp_lun := wp_lun w \<rparr> = w\<lparr> wp_pg := g \<rparr>"
    "w\<lparr> wp_pg := g, wp_ch := c, wp_lun := wp_lun w \<rparr> = w\<lparr> wp_pg := g, wp_ch := c \<rparr>" for c g
    by (cases w; simp)+
  consider (page) "?r + 1 \<noteq> ?o" | (ch) "?r + 1 = ?o" "wp_ch w + 1 \<noteq> ?N"
    | (lun) "?r + 1 = ?o" "wp_ch w + 1 = ?N" "wp_lun w + 1 \<noteq> ?L"
    | (row) "?r + 1 = ?o" "wp_ch w + 1 = ?N" "wp_lun w + 1 = ?L" by blast
  then have inside: "advance_write_pointer ftl io = (if ?r + 1 = ?o \<and> wp_ch w + 1 = ?N \<and> wp_lun w + 1 = ?L
        \<and> (?k + 1) * ?o = pgs_per_blk ?spp
      then do { (wpp, ftl) \<leftarrow> next_line ftl (w\<lparr> wp_pg := 0, wp_ch := 0, wp_lun := 0 \<rparr>);
                nvmev_assert (wp_pl wpp = 0); Some (put_wp ftl io wpp) }
      else Some (put_wp ftl io (wp_next ?spp w)))"
  proof cases
    case page
    with st(1) [OF page] mod lt p show ?thesis by (simp add: unf nxt upd)
  next
    case ch
    with st(2) [OF ch] mod lt p sub show ?thesis by (simp add: unf nxt upd)
  next
    case lun
    with st(3) [OF lun] mod lt p sub show ?thesis by (simp add: unf nxt)
  next
    case row
    with st(4) [OF row] mod lt p sub show ?thesis by (simp add: unf nxt add.commute)
  qed
  have last: "?r + 1 = ?o \<and> wp_ch w + 1 = ?N \<and> wp_lun w + 1 = ?L \<and> (?k + 1) * ?o = pgs_per_blk ?spp
      \<longleftrightarrow> wp_index ?spp w + 1 = pgs_per_line ?spp"
  proof
    assume l: "?r + 1 = ?o \<and> wp_ch w + 1 = ?N \<and> wp_lun w + 1 = ?L \<and> (?k + 1) * ?o = pgs_per_blk ?spp"
    then have "(?k + 1) * ?o = oneshotpgs_per_blk ?spp * ?o" using p(5) by metis
    then have "?k + 1 = oneshotpgs_per_blk ?spp" using p(1) by (simp only: mult_cancel2) simp
    with st(5) l p(6) show "wp_index ?spp w + 1 = pgs_per_line ?spp" by (metis (no_types))
  next
    assume e: "wp_index ?spp w + 1 = pgs_per_line ?spp"
    have i: "wp_index ?spp w + 1 = ((?k * ?L + wp_lun w) * ?N + wp_ch w) * ?o + (?r + 1)" by (simp add: wp_index_def)
    have "?r + 1 = ?o"
    proof (rule ccontr)
      assume "?r + 1 \<noteq> ?o"
      then have "(wp_index ?spp w + 1) mod ?o = ?r + 1" using lt unfolding i by (simp only: mod_mult_self3) simp
      with e p(6) show False by simp
    qed
    moreover from this have "wp_index ?spp w + 1 = ((?k * ?L + wp_lun w) * ?N + (wp_ch w + 1)) * ?o"
      unfolding i by (simp only: distrib_right mult_1 add.assoc)
    then have "((?k * ?L + wp_lun w) * ?N + (wp_ch w + 1)) * ?o = oneshotpgs_per_blk ?spp * ?L * ?N * ?o"
      using e p(6) by metis
    then have j: "(?k * ?L + wp_lun w) * ?N + (wp_ch w + 1) = oneshotpgs_per_blk ?spp * ?L * ?N"
      using p(1) by (simp only: mult_cancel2) simp
    have "wp_ch w + 1 = ?N"
    proof (rule ccontr)
      assume "wp_ch w + 1 \<noteq> ?N"
      then have "((?k * ?L + wp_lun w) * ?N + (wp_ch w + 1)) mod ?N = wp_ch w + 1" using lt by (simp only: mod_mult_self3) simp
      with j show False by simp
    qed
    moreover from this have "(?k * ?L + wp_lun w) * ?N + (wp_ch w + 1) = (?k * ?L + (wp_lun w + 1)) * ?N"
      by (simp only: distrib_right mult_1 add.assoc)
    then have "(?k * ?L + (wp_lun w + 1)) * ?N = oneshotpgs_per_blk ?spp * ?L * ?N" using j by metis
    then have j': "?k * ?L + (wp_lun w + 1) = oneshotpgs_per_blk ?spp * ?L" using p(3) by (simp only: mult_cancel2) simp
    have "wp_lun w + 1 = ?L"
    proof (rule ccontr)
      assume "wp_lun w + 1 \<noteq> ?L"
      then have "(?k * ?L + (wp_lun w + 1)) mod ?L = wp_lun w + 1" using lt by (simp only: mod_mult_self3) simp
      with j' show False by simp
    qed
    moreover from this have "?k * ?L + ?L = oneshotpgs_per_blk ?spp * ?L" using j' by metis
    then have "(?k + 1) * ?L = oneshotpgs_per_blk ?spp * ?L" by (simp only: distrib_right mult_1)
    then have "?k + 1 = oneshotpgs_per_blk ?spp" using p(4) by (simp only: mult_cancel2) simp
    then have "(?k + 1) * ?o = pgs_per_blk ?spp" using p(5) by metis
    ultimately show "?r + 1 = ?o \<and> wp_ch w + 1 = ?N \<and> wp_lun w + 1 = ?L \<and> (?k + 1) * ?o = pgs_per_blk ?spp" by blast
  qed
  show "wp_index ?spp w + 1 < pgs_per_line ?spp \<Longrightarrow> advance_write_pointer ftl io = Some (put_wp ftl io (wp_next ?spp w))"
    unfolding inside last by simp
  show "wp_index ?spp w + 1 = pgs_per_line ?spp \<Longrightarrow> advance_write_pointer ftl io = do {
        (wpp, ftl) \<leftarrow> next_line ftl (w\<lparr> wp_pg := 0, wp_ch := 0, wp_lun := 0 \<rparr>);
        nvmev_assert (wp_pl wpp = 0);
        Some (put_wp ftl io wpp) }"
    unfolding inside last by simp
qed

lemma get_put_wp:
  assumes "get_wp ftl io = Some w"
  shows "get_wp (put_wp ftl io w') io = Some w'" and "put_wp (put_wp ftl io w') io w'' = put_wp ftl io w''"
    and "put_wp ftl io w = ftl" and "ftl_ssd (put_wp ftl io w') = ftl_ssd ftl" and "lm (put_wp ftl io w') = lm ftl"
    and "maptbl (put_wp ftl io w') = maptbl ftl" and "rmap (put_wp ftl io w') = rmap ftl"
    and "lunlm (put_wp ftl io w') = lunlm ftl"
  using assms by (auto simp: get_wp_def put_wp_def split: io_type.splits)

lemma index_of_stripe:
  assumes "geometry_ok spp" and "wp_ok spp w" and "i < pgs_per_line spp" and "stripe spp i = (wp_ch w, wp_lun w, wp_pg w)"
  shows "wp_index spp w = i"
  by (rule stripe_inj [OF assms(1) wp_index_bound [OF assms(1,2)] assms(3)])
    (simp add: stripe_index [OF assms(1,2)] assms(4))

lemma wp_next_ok:
  assumes geo: "geometry_ok spp" and w: "wp_ok spp w" and i: "wp_index spp w + 1 < pgs_per_line spp"
  shows "wp_ok spp (wp_next spp w)" and "wp_index spp (wp_next spp w) = wp_index spp w + 1"
    and "curline (wp_next spp w) = curline w" and "wp_blk (wp_next spp w) = wp_blk w" and "wp_pl (wp_next spp w) = wp_pl w"
proof -
  obtain c l g where st: "stripe spp (wp_index spp w + 1) = (c, l, g)" by (cases "stripe spp (wp_index spp w + 1)") auto
  then have n: "wp_next spp w = w\<lparr> wp_pg := g, wp_ch := c, wp_lun := l \<rparr>" by (simp add: wp_next_def)
  show ok: "wp_ok spp (wp_next spp w)" using stripe_range [OF geo i] st w by (simp add: n wp_ok_def)
  show "wp_index spp (wp_next spp w) = wp_index spp w + 1"
    by (rule index_of_stripe [OF geo ok i]) (simp add: n, simp add: st [simplified])
  show "curline (wp_next spp w) = curline w" "wp_blk (wp_next spp w) = wp_blk w" "wp_pl (wp_next spp w) = wp_pl w"
    by (simp_all add: n)
qed

definition advance_times :: "nat \<Rightarrow> conv_ftl \<Rightarrow> io_type \<Rightarrow> conv_ftl option" where
  "advance_times k ftl io = foldM (\<lambda>_ ftl. advance_write_pointer ftl io) [0..<k] ftl"

lemma advance_times_ok:
  assumes geo: "geometry_ok (spp_of ftl)" and w: "wp_ok (spp_of ftl) w" and get: "get_wp ftl io = Some w"
    and k: "wp_index (spp_of ftl) w + k < pgs_per_line (spp_of ftl)"
  shows "\<exists>w'. advance_times k ftl io = Some (put_wp ftl io w') \<and> wp_ok (spp_of ftl) w'
    \<and> wp_index (spp_of ftl) w' = wp_index (spp_of ftl) w + k \<and> curline w' = curline w \<and> wp_blk w' = wp_blk w"
  using k
proof (induction k)
  case 0
  then show ?case using w get_put_wp(3) [OF get] by (intro exI [of _ w]) (simp add: advance_times_def)
next
  case (Suc k)
  then obtain w' where run: "advance_times k ftl io = Some (put_wp ftl io w')" and w': "wp_ok (spp_of ftl) w'"
    "wp_index (spp_of ftl) w' = wp_index (spp_of ftl) w + k" "curline w' = curline w" "wp_blk w' = wp_blk w" by auto
  let ?f = "put_wp ftl io w'"
  have f: "spp_of ?f = spp_of ftl" "get_wp ?f io = Some w'" using get_put_wp [OF get] by simp_all
  have i: "wp_index (spp_of ftl) w' + 1 < pgs_per_line (spp_of ftl)" using Suc.prems w' by simp
  have "advance_write_pointer ?f io = Some (put_wp ?f io (wp_next (spp_of ftl) w'))"
    using advance_write_pointer_cases(1) [of ?f w' io] f geo w' i by simp
  then have "advance_times (Suc k) ftl io = Some (put_wp ftl io (wp_next (spp_of ftl) w'))"
    using run get_put_wp(2) [OF get] by (simp add: advance_times_def foldM_append)
  with wp_next_ok [OF geo w'(1) i] w' show ?case by auto
qed

text \<open>The next line: the used-up one is put away, the first free one becomes current.\<close>

lemma advance_write_pointer_new_line:
  assumes geo: "geometry_ok (spp_of ftl)" and w: "wp_ok (spp_of ftl) w" and get: "get_wp ftl io = Some w"
    and last: "wp_index (spp_of ftl) w + 1 = pgs_per_line (spp_of ftl)"
    and inv: "lm_inv (pgs_per_line (spp_of ftl)) U (lm ftl)" and len: "length (lines (lm ftl)) = blks_per_pl (spp_of ftl)"
    and l: "curline w = Some l" "l \<in> U"
    and used: "line_vpc (lines (lm ftl) ! l) = pgs_per_line (spp_of ftl) \<or> 0 < line_ipc (lines (lm ftl) ! l)"
    and free: "free_line_list (lm ftl) = l' # ls"
  shows "\<exists>m. advance_write_pointer ftl io = Some (put_wp (ftl\<lparr> lm := m \<rparr>) io (line_start l'))
     \<and> lm_inv (pgs_per_line (spp_of ftl)) (insert l' (U - {l})) m \<and> same_lines (lines (lm ftl)) (lines m)
     \<and> free_line_list m = ls \<and> l' < blks_per_pl (spp_of ftl)
     \<and> (if line_vpc (lines (lm ftl) ! l) = pgs_per_line (spp_of ftl) then l \<in> set (full_line_list m) else l \<in> victims m)"
proof -
  let ?spp = "spp_of ftl" and ?pgs = "pgs_per_line (spp_of ftl)"
  obtain m where m: "lm_retire_line ?pgs (lm ftl) l = Some m" "lm_inv ?pgs (U - {l}) m"
    "same_lines (lines (lm ftl)) (lines m)" "free_line_list m = free_line_list (lm ftl)"
    "if line_vpc (lines (lm ftl) ! l) = ?pgs then l \<in> set (full_line_list m) else l \<in> victims m"
    using lm_retire_line_ok [OF inv l(2) used] by blast
  let ?m = "m\<lparr> free_line_list := ls, free_line_cnt := free_line_cnt m - 1 \<rparr>"
  have next': "lm_get_next_free_line m = (Some l', ?m)"
    using m(4) free by (simp add: lm_get_next_free_line_def)
  note n = lm_get_next_free_line_ok [OF m(2) next']
  have len': "length (lines m) = blks_per_pl ?spp" using m(3) len by (simp add: same_lines_iff)
  have id: "line_id (lines m ! l') = l'" using m(2) n(3) by (simp add: lm_inv_def lm_pages_def)
  have "next_line ftl (w\<lparr> wp_pg := 0, wp_ch := 0, wp_lun := 0 \<rparr>) =
      Some (w\<lparr> wp_pg := 0, wp_ch := 0, wp_lun := 0, curline := Some l', wp_blk := l' \<rparr>, ftl\<lparr> lm := ?m \<rparr>)"
    using l(1) m(1) next' n(3) id len' w by (simp add: next_line_def get_next_free_line_def wp_ok_def)
  moreover have "w\<lparr> wp_pg := 0, wp_ch := 0, wp_lun := 0, curline := Some l', wp_blk := l' \<rparr> = line_start l'"
    using w by (cases w) (simp add: line_start_def wp_ok_def)
  ultimately have "advance_write_pointer ftl io = Some (put_wp (ftl\<lparr> lm := ?m \<rparr>) io (line_start l'))"
    unfolding advance_write_pointer_cases(2) [OF geo w get last] by (simp add: line_start_def)
  moreover have "if line_vpc (lines (lm ftl) ! l) = ?pgs then l \<in> set (full_line_list ?m) else l \<in> victims ?m"
    using m(5) by (auto simp: victims_def split: if_splits)
  ultimately show ?thesis using n m(3) len' by (intro exI [of _ ?m]) simp
qed

lemma get_new_page_fields:
  assumes "b \<noteq> HYBRID_SSD" and "fields_fit (spp_of ftl)" and "wp_ok (spp_of ftl) w" and "get_wp ftl io = Some w"
    and "pls_per_lun (spp_of ftl) \<noteq> 0"
  shows "\<exists>p. get_new_page b ftl io = Some p \<and> pg_key p = (wp_ch w, wp_lun w, 0, wp_blk w, wp_pg w)
    \<and> in_device (spp_of ftl) p"
  using assms by (auto simp: get_new_page_def pg_key_def wp_ok_def fields_fit_def in_device_def Let_def)

section \<open>Properties\<close>

text \<open>C25: In the builds other than the hybrid, with one plane in a LUN and a geometry that fits the fields of
  an address: starting from a fresh line, the pages handed out by \<open>get_new_page\<close> after \<open>0, 1, 2,
  ...\<close> calls of \<open>advance_write_pointer\<close> are the pages of that line in stripe order (one-shot page,
  channel, LUN, word line), and before the line is used up every page of the line is handed out exactly once. (In the
  hybrid build different positions give the same page: \<open>hybrid_pages_collide\<close>.)\<close>

theorem line_written_in_stripe_order:
  assumes "b \<noteq> HYBRID_SSD" and "geometry_ok (spp_of ftl)" and "fields_fit (spp_of ftl)" and "pls_per_lun (spp_of ftl) = 1"
    and "get_wp ftl io = Some (line_start l)" and "l < blks_per_pl (spp_of ftl)" and "k < pgs_per_line (spp_of ftl)"
  shows "(\<exists>ftl' p. advance_times k ftl io = Some ftl' \<and> get_new_page b ftl' io = Some p
      \<and> (g_ch p, g_lun p, g_pg p) = stripe (spp_of ftl) k \<and> g_blk p = l \<and> g_pl p = 0)
    \<and> bij_betw (stripe (spp_of ftl)) {..<pgs_per_line (spp_of ftl)}
        ({..<nchs (spp_of ftl)} \<times> {..<luns_per_ch (spp_of ftl)} \<times> {..<pgs_per_blk (spp_of ftl)})"
proof -
  let ?spp = "spp_of ftl"
  have "0 < pgs_per_line ?spp" using assms(7) by simp
  then have w: "wp_ok ?spp (line_start l)"
    using assms(2,6) by (simp add: wp_ok_def line_start_def geometry_ok_def)
  have i: "wp_index ?spp (line_start l) = 0" by (simp add: wp_index_def line_start_def)
  obtain w' where w': "advance_times k ftl io = Some (put_wp ftl io w')" "wp_ok ?spp w'" "wp_index ?spp w' = k" "wp_blk w' = l"
    using advance_times_ok [OF assms(2) w assms(5), of k] assms(7) i by (auto simp: line_start_def)
  have f: "spp_of (put_wp ftl io w') = ?spp" "get_wp (put_wp ftl io w') io = Some w'" using get_put_wp [OF assms(5)] by simp_all
  obtain p where "get_new_page b (put_wp ftl io w') io = Some p" "pg_key p = (wp_ch w', wp_lun w', 0, wp_blk w', wp_pg w')"
    using get_new_page_fields [OF assms(1), of "put_wp ftl io w'" w' io] f assms(3,4) w'(2) by auto
  moreover have "stripe ?spp k = (wp_ch w', wp_lun w', wp_pg w')" using stripe_index [OF assms(2) w'(2)] w'(3) by simp
  ultimately show ?thesis using w' stripe_bij [OF assms(2)] by (auto simp: pg_key_def)
qed

text \<open>After the last page of a line the write pointer moves to the start of the first free line; the
  old line becomes full when all its pages are valid and a victim when some are invalid, and line
  management stays consistent.\<close>

theorem advance_moves_to_free_line:
  assumes "geometry_ok (spp_of ftl)" and "get_wp ftl io = Some w" and "wp_ok (spp_of ftl) w"
    and "wp_index (spp_of ftl) w + 1 = pgs_per_line (spp_of ftl)"
    and "lm_inv (pgs_per_line (spp_of ftl)) U (lm ftl)" and "length (lines (lm ftl)) = blks_per_pl (spp_of ftl)"
    and "curline w = Some l" and "l \<in> U" and "free_line_list (lm ftl) = l' # ls"
    and "line_vpc (lines (lm ftl) ! l) = pgs_per_line (spp_of ftl) \<or> 0 < line_ipc (lines (lm ftl) ! l)"
  shows "\<exists>ftl'. advance_write_pointer ftl io = Some ftl' \<and> get_wp ftl' io = Some (line_start l')
    \<and> lm_inv (pgs_per_line (spp_of ftl)) (insert l' (U - {l})) (lm ftl') \<and> free_line_list (lm ftl') = ls
    \<and> (if line_vpc (lines (lm ftl) ! l) = pgs_per_line (spp_of ftl) then l \<in> set (full_line_list (lm ftl'))
       else l \<in> victims (lm ftl'))"
proof -
  from advance_write_pointer_new_line [OF assms(1,3,2,4,5,6,7,8,10,9)] obtain m where
    m: "advance_write_pointer ftl io = Some (put_wp (ftl\<lparr> lm := m \<rparr>) io (line_start l'))"
    "lm_inv (pgs_per_line (spp_of ftl)) (insert l' (U - {l})) m" "free_line_list m = ls"
    "if line_vpc (lines (lm ftl) ! l) = pgs_per_line (spp_of ftl) then l \<in> set (full_line_list m) else l \<in> victims m"
    by blast
  have "get_wp (ftl\<lparr> lm := m \<rparr>) io = Some w" using assms(2) by (simp add: get_wp_def split: io_type.splits)
  from get_put_wp [OF this] m show ?thesis by (intro exI [of _ "put_wp (ftl\<lparr> lm := m \<rparr>) io (line_start l')"]) simp
qed

text \<open>A line whose pages were not accounted for stops the kernel: when the pointer leaves a line that
  is neither all valid nor has an invalid page, the assertion \<open>ipc > 0\<close> fails. (The write path
  never marks its pages valid, so this is what happens after \<open>pgs_per_line\<close> host writes.)\<close>

theorem advance_stops_on_unaccounted_line:
  assumes "geometry_ok (spp_of ftl)" and "get_wp ftl io = Some w" and "wp_ok (spp_of ftl) w"
    and "wp_index (spp_of ftl) w + 1 = pgs_per_line (spp_of ftl)" and "curline w = Some l"
    and "line_vpc (lines (lm ftl) ! l) \<noteq> pgs_per_line (spp_of ftl)" and "line_ipc (lines (lm ftl) ! l) = 0"
  shows "advance_write_pointer ftl io = None"
proof -
  have "lm_retire_line (pgs_per_line (spp_of ftl)) (lm ftl) l = None"
    using assms(6,7) by (auto simp: lm_retire_line_def arr_get_def nvmev_assert_def bind_eq_None_conv)
  then have "next_line ftl (w\<lparr> wp_pg := 0, wp_ch := 0, wp_lun := 0 \<rparr>) = None"
    using assms(5) by (simp add: next_line_def)
  then show ?thesis by (simp add: advance_write_pointer_cases(2) [OF assms(1,3,2,4)])
qed

text \<open>In the hybrid build two positions of the collector's write pointer that are one QLC channel
  count apart get the same physical page, so a stripe over all channels hands out pages twice.\<close>

theorem hybrid_pages_collide:
  assumes "get_wp ftl io = Some w" and "get_wp ftl' io = Some (w\<lparr> wp_ch := wp_ch w + qlc_channels (spp_of ftl) \<rparr>)"
    and "spp_of ftl' = spp_of ftl"
  shows "get_new_page HYBRID_SSD ftl' io = get_new_page HYBRID_SSD ftl io"
  using assms by (simp add: get_new_page_def mod_trap_def Let_def)

text \<open>The per-LUN pointer writes one one-shot page and then turns to the next LUN, round robin over the
  LUNs it stripes over; while the block is not full only the pointer of that LUN moves.\<close>

theorem DA_round_robin:
  assumes "arr_get (lunwp ftl) (lunpointer ftl) = Some w" and "lunpointer ftl < n" and "n < 2 ^ 32"
    and "n = pick b (u32 (slc_channels (spp_of ftl) * slc_luns_per_ch (spp_of ftl))) (nchs (spp_of ftl) * luns_per_ch (spp_of ftl))"
    and "wp_pg w + 1 < pick b (slc_pgs_per_blk (spp_of ftl)) (pgs_per_blk (spp_of ftl))"
    and "o1 = pick b (slc_pgs_per_oneshotpg (spp_of ftl)) (pgs_per_oneshotpg (spp_of ftl))" and "0 < o1"
  shows "advance_write_pointer_DA b ftl USER_IO = Some (ftl\<lparr>
    lunwp := (lunwp ftl)[lunpointer ftl := w\<lparr> wp_pg := wp_pg w + 1 \<rparr>],
    lunpointer := (if o1 dvd wp_pg w + 1 then (lunpointer ftl + 1) mod n else lunpointer ftl) \<rparr>)"
proof -
  have nxt: "(if u32 (lunpointer ftl + 1) \<noteq> n then u32 (lunpointer ftl + 1) else 0) = (lunpointer ftl + 1) mod n"
    using assms(2,3) by (cases "lunpointer ftl + 1 = n") auto
  have same: "ftl\<lparr> lunwp := x, lunpointer := lunpointer ftl \<rparr> = ftl\<lparr> lunwp := x \<rparr>" for x by (cases ftl) simp
  show ?thesis
    using assms nxt [folded assms(4)] same
    by (simp add: advance_write_pointer_DA_def get_wp_DA_def put_wp_DA_def dvd_eq_mod_eq_0 Let_def)
qed

text \<open>The QLC pointer never leaves the last block of its plane: after the last page of that block the
  assertion on the block number fails before the wrap to the next plane, LUN or channel is reached.\<close>

theorem QLC_pointer_never_wraps:
  assumes "get_wp ftl io = Some w" and "wp_pg w + 1 = qlc_pgs_per_blk (spp_of ftl)"
    and "qlc_pgs_per_oneshotpg (spp_of ftl) dvd qlc_pgs_per_blk (spp_of ftl)"
    and "wp_blk w + 1 = qlc_blks_per_pl (spp_of ftl)"
  shows "advance_write_pointer_QLC HYBRID_SSD ftl io = None"
  using assms by (auto simp: advance_write_pointer_QLC_def Let_def mod_trap_def dvd_eq_mod_eq_0 bind_eq_None_conv)

section \<open>Witnesses\<close>

lemma tiny_geometry: "geometry_ok tiny_params" "fields_fit tiny_params"
  using tiny_sane tiny_fields_fit by (simp_all add: sane_params_def)

lemma tiny_user_wp: "get_wp tiny_ftl USER_IO = Some (line_start 0)" and tiny_gc_wp: "get_wp tiny_ftl GC_IO = Some (line_start 1)"
  by (simp_all add: get_wp_def)

lemma line_written_in_stripe_order_witness:
  "\<exists>ftl' p. advance_times 3 tiny_ftl USER_IO = Some ftl' \<and> get_new_page SAMSUNG_970PRO ftl' USER_IO = Some p
     \<and> (g_ch p, g_lun p, g_pg p) = (1, 0, 1)"
proof -
  have "stripe tiny_params 3 = (1, 0, 1)" by (simp add: stripe_def Let_def)
  then show ?thesis
    using line_written_in_stripe_order [of SAMSUNG_970PRO tiny_ftl USER_IO 0 3] tiny_geometry tiny_user_wp by auto
qed

text \<open>The host pointer on the last page of line 0, with \<open>k\<close> pages of the line valid.\<close>

definition tiny_last :: "nat \<Rightarrow> conv_ftl" where
  "tiny_last k = tiny_ftl\<lparr> user_wp := (line_start 0)\<lparr> wp_ch := 1, wp_pg := 1 \<rparr>,
     lm := (lm tiny_ftl)\<lparr> lines := (lines tiny_lm)[0 := (lines tiny_lm ! 0)\<lparr> line_vpc := k \<rparr>] \<rparr> \<rparr>"

lemma tiny_last_inv: "k \<le> 4 \<Longrightarrow> lm_inv 4 {0, 1} (lm (tiny_last k))"
proof (induction k)
  case 0
  have "lm (tiny_last 0) = lm tiny_ftl" by (simp add: tiny_last_def tiny_lm_lines)
  then show ?case using tiny_ftl_lm_inv by simp
next
  case (Suc k)
  have inv: "lm_inv 4 {0, 1} (lm (tiny_last k))" using Suc by simp
  have v: "lines (lm (tiny_last k)) ! 0 = (lines tiny_lm ! 0)\<lparr> line_vpc := k \<rparr>" "line_ipc (lines tiny_lm ! 0) = 0"
    "length (lines tiny_lm) = 4" by (simp_all add: tiny_last_def tiny_lm_lines)
  obtain m where m: "lm_line_valid 4 (lm (tiny_last k)) 0 = Some m" "lm_inv 4 {0, 1} m"
    using lm_line_valid_ok [OF inv, of 0] Suc.prems v by auto
  have "lm_line_valid 4 (lm (tiny_last k)) 0 = Some (lm (tiny_last (Suc k)))"
    using Suc.prems v by (simp add: lm_line_valid_def tiny_last_def)
  with m show ?case by simp
qed

lemma tiny_last_facts:
  "get_wp (tiny_last k) USER_IO = Some ((line_start 0)\<lparr> wp_ch := 1, wp_pg := 1 \<rparr>)" "spp_of (tiny_last k) = tiny_params"
  "wp_ok tiny_params ((line_start 0)\<lparr> wp_ch := 1, wp_pg := 1 \<rparr>)"
  "wp_index tiny_params ((line_start 0)\<lparr> wp_ch := 1, wp_pg := 1 \<rparr>) + 1 = 4"
  "curline ((line_start 0)\<lparr> wp_ch := 1, wp_pg := 1 \<rparr>) = Some 0" "free_line_list (lm (tiny_last k)) = [2, 3]"
  "line_vpc (lines (lm (tiny_last k)) ! 0) = k" "line_ipc (lines (lm (tiny_last k)) ! 0) = 0"
  "length (lines (lm (tiny_last k))) = 4"
  by (simp_all add: get_wp_def tiny_last_def wp_ok_def wp_index_def line_start_def tiny_lm_lines)

lemma advance_moves_to_free_line_witness:
  "\<exists>ftl'. advance_write_pointer (tiny_last 4) USER_IO = Some ftl' \<and> get_wp ftl' USER_IO = Some (line_start 2)"
proof -
  have inv: "lm_inv 4 {0, 1} (lm (tiny_last 4))" by (rule tiny_last_inv) simp
  have "\<exists>ftl'. advance_write_pointer (tiny_last 4) USER_IO = Some ftl' \<and> get_wp ftl' USER_IO = Some (line_start 2)
    \<and> lm_inv (pgs_per_line (spp_of (tiny_last 4))) (insert 2 ({0, 1} - {0})) (lm ftl') \<and> free_line_list (lm ftl') = [3]
    \<and> (if line_vpc (lines (lm (tiny_last 4)) ! 0) = pgs_per_line (spp_of (tiny_last 4)) then 0 \<in> set (full_line_list (lm ftl'))
       else 0 \<in> victims (lm ftl'))"
    by (rule advance_moves_to_free_line [OF _ tiny_last_facts(1)])
      (simp_all only: tiny_last_facts tiny_params_simps tiny_geometry inv, simp_all)
  then show ?thesis by blast
qed

lemma advance_stops_on_unaccounted_line_witness: "advance_write_pointer (tiny_last 0) USER_IO = None"
  by (rule advance_stops_on_unaccounted_line [OF _ tiny_last_facts(1), where l = 0])
    (simp_all only: tiny_last_facts tiny_params_simps tiny_geometry)

text \<open>The same device with hybrid parameters.\<close>

definition tiny_hybrid :: "write_pointer \<Rightarrow> conv_ftl" where
  "tiny_hybrid w = tiny_ftl\<lparr> ftl_ssd := tiny_ssd\<lparr> ssd_sp := tiny_params\<lparr> slc_channels := 2, slc_luns_per_ch := 2, qlc_channels := 6,
     qlc_luns_per_ch := 2, qlc_pgs_per_blk := 4, qlc_pgs_per_oneshotpg := 4, qlc_blks_per_pl := 4 \<rparr> \<rparr>, gc_wp := w \<rparr>"

lemma hybrid_pages_collide_witness:
  "get_new_page HYBRID_SSD (tiny_hybrid ((line_start 1)\<lparr> wp_ch := 6 \<rparr>)) GC_IO
     = get_new_page HYBRID_SSD (tiny_hybrid (line_start 1)) GC_IO
   \<and> get_new_page HYBRID_SSD (tiny_hybrid (line_start 1)) GC_IO \<noteq> None"
proof
  show "get_new_page HYBRID_SSD (tiny_hybrid ((line_start 1)\<lparr> wp_ch := 6 \<rparr>)) GC_IO
     = get_new_page HYBRID_SSD (tiny_hybrid (line_start 1)) GC_IO"
    by (rule hybrid_pages_collide [of _ _ "line_start 1"]) (simp_all add: tiny_hybrid_def get_wp_def line_start_def)
  show "get_new_page HYBRID_SSD (tiny_hybrid (line_start 1)) GC_IO \<noteq> None"
    by (simp add: get_new_page_def tiny_hybrid_def get_wp_def line_start_def Let_def)
qed

lemma DA_round_robin_witness:
  "advance_write_pointer_DA SAMSUNG_970PRO tiny_ftl USER_IO = Some (tiny_ftl\<lparr>
     lunwp := [(line_start 0)\<lparr> wp_pg := 1 \<rparr>, line_start 0], lunpointer := 1 \<rparr>)"
proof -
  have "advance_write_pointer_DA SAMSUNG_970PRO tiny_ftl USER_IO = Some (tiny_ftl\<lparr>
    lunwp := (lunwp tiny_ftl)[lunpointer tiny_ftl := (line_start 0)\<lparr> wp_pg := wp_pg (line_start 0) + 1 \<rparr>],
    lunpointer := (if 1 dvd wp_pg (line_start 0) + 1 then (lunpointer tiny_ftl + 1) mod 2 else lunpointer tiny_ftl) \<rparr>)"
    by (rule DA_round_robin) (simp_all add: pick_def line_start_def)
  then show ?thesis by (simp add: line_start_def)
qed

lemma QLC_pointer_never_wraps_witness:
  "advance_write_pointer_QLC HYBRID_SSD (tiny_hybrid ((line_start 3)\<lparr> wp_pg := 3 \<rparr>)) GC_IO = None"
  by (rule QLC_pointer_never_wraps [of _ _ "(line_start 3)\<lparr> wp_pg := 3 \<rparr>"])
    (simp_all add: tiny_hybrid_def get_wp_def line_start_def)

end
