(* ===== verification/Conv_GC.thy ===== *)
theory Conv_GC
  imports Write_Pointer
begin

text \<open>
  Garbage collection of the conventional FTL (\<open>conv_ftl.c\<close>): pick a victim line, move its valid
  pages to the line of the collector's write pointer, erase its blocks and free the line.
  \<open>now\<close> is the clock read by \<open>ssd_advance_nand\<close>. The local \<open>struct ppa ppa\<close> of \<open>do_gc\<close> is not
  initialised; what the stack holds is the argument \<open>junk\<close>.
\<close>

section \<open>Operations\<close>

definition gc_command :: "nand_op \<Rightarrow> nat \<Rightarrow> ppa \<Rightarrow> nand_cmd" where
  "gc_command op len p = \<lparr> nand_type = GC_IO, cmd = op, xfer_size = len, stime = 0,
     interleave_pci_dma = False, nand_ppa = p \<rparr>"

text \<open>Run a command on the device of the FTL and drop its completion time.\<close>

definition gc_advance :: "base_ssd \<Rightarrow> nat \<Rightarrow> conv_ftl \<Rightarrow> nand_cmd \<Rightarrow> conv_ftl option" where
  "gc_advance b now ftl c = do {
     (_, s) \<leftarrow> ssd_advance_nand b now (ftl_ssd ftl) c;
     Some (ftl\<lparr> ftl_ssd := s \<rparr>)
   }"

definition gc_read_page :: "base_ssd \<Rightarrow> nat \<Rightarrow> conv_ftl \<Rightarrow> ppa \<Rightarrow> conv_ftl option" where
  "gc_read_page b now ftl p =
     (if enable_gc_delay (cp ftl) then gc_advance b now ftl (gc_command NAND_READ (pgsz (spp_of ftl)) p)
      else Some ftl)"

definition gc_write_page :: "base_ssd \<Rightarrow> nat \<Rightarrow> conv_ftl \<Rightarrow> ppa \<Rightarrow> conv_ftl option" where
  "gc_write_page b now ftl old_ppa = do {
     let spp = spp_of ftl;
     lpn \<leftarrow> get_rmap_ent ftl old_ppa;
     nvmev_assert (valid_lpn ftl lpn);
     new_ppa \<leftarrow> get_new_page b ftl GC_IO;
     ftl \<leftarrow> set_maptbl_ent ftl lpn new_ppa;
     ftl \<leftarrow> set_rmap_ent ftl lpn new_ppa;
     ftl \<leftarrow> mark_page_valid ftl new_ppa;
     ftl \<leftarrow> advance_write_pointer ftl GC_IO;
     if enable_gc_delay (cp ftl) then do {
       last \<leftarrow> last_pg_in_wordline ftl new_ppa;
       gc_advance b now ftl
         (if last then gc_command NAND_WRITE (pgsz spp * pgs_per_oneshotpg spp) new_ppa
          else gc_command NAND_NOP 0 new_ppa)
     } else Some ftl
   }"

text \<open>\<open>None\<close> inside is the NULL line.\<close>

definition select_victim_line :: "conv_ftl \<Rightarrow> bool \<Rightarrow> (nat option \<times> conv_ftl) option" where
  "select_victim_line ftl force = do {
     (l, m) \<leftarrow> lm_select_victim_line (pgs_per_line (spp_of ftl)) (lm ftl) force;
     Some (l, ftl\<lparr> lm := m \<rparr>)
   }"

definition clean_one_block :: "base_ssd \<Rightarrow> nat \<Rightarrow> conv_ftl \<Rightarrow> ppa \<Rightarrow> (ppa \<times> conv_ftl) option" where
  "clean_one_block b now ftl p = do {
     (p, cnt, ftl) \<leftarrow> foldM (\<lambda>pg (p, cnt, ftl). do {
        let p = set_g_pg pg p;
        pg_iter \<leftarrow> get_pg (ftl_ssd ftl) p;
        nvmev_assert (pg_status pg_iter \<noteq> PG_FREE);
        if pg_status pg_iter = PG_VALID then do {
          ftl \<leftarrow> gc_read_page b now ftl p;
          ftl \<leftarrow> gc_write_page b now ftl p;
          Some (p, cnt + 1, ftl)
        } else Some (p, cnt, ftl)
      }) [0..<pgs_per_blk (spp_of ftl)] (p, 0 :: nat, ftl);
     blk \<leftarrow> get_blk (ftl_ssd ftl) p;
     nvmev_assert (blk_vpc blk = cnt);
     Some (p, ftl)
   }"

text \<open>The first loop of \<open>clean_one_flashpg\<close> counts the valid pages of a flash page; the second moves them.\<close>

definition count_valid :: "conv_ftl \<Rightarrow> ppa \<Rightarrow> nat option" where
  "count_valid ftl p = do {
     (_, cnt) \<leftarrow> foldM (\<lambda>_ (q, cnt). do {
        pg_iter \<leftarrow> get_pg (ftl_ssd ftl) q;
        nvmev_assert (pg_status pg_iter \<noteq> PG_FREE);
        Some (set_g_pg (g_pg q + 1) q, if pg_status pg_iter = PG_VALID then cnt + 1 else cnt)
      }) [0..<pgs_per_flashpg (spp_of ftl)] (p, 0);
     Some cnt
   }"

definition move_valid :: "base_ssd \<Rightarrow> nat \<Rightarrow> conv_ftl \<Rightarrow> ppa \<Rightarrow> conv_ftl option" where
  "move_valid b now ftl p = do {
     (_, ftl) \<leftarrow> foldM (\<lambda>_ (q, ftl). do {
        pg_iter \<leftarrow> get_pg (ftl_ssd ftl) q;
        ftl \<leftarrow> (if pg_status pg_iter = PG_VALID then gc_write_page b now ftl q else Some ftl);
        Some (set_g_pg (g_pg q + 1) q, ftl)
      }) [0..<pgs_per_flashpg (spp_of ftl)] (p, ftl);
     Some ftl
   }"

definition clean_one_flashpg :: "base_ssd \<Rightarrow> nat \<Rightarrow> conv_ftl \<Rightarrow> ppa \<Rightarrow> conv_ftl option" where
  "clean_one_flashpg b now ftl p = do {
     cnt \<leftarrow> count_valid ftl p;
     if cnt = 0 then Some ftl
     else do {
       ftl \<leftarrow> (if enable_gc_delay (cp ftl) then gc_advance b now ftl (gc_command NAND_READ (pgsz (spp_of ftl) * cnt) p)
               else Some ftl);
       move_valid b now ftl p
     }
   }"

text \<open>The body of the three nested loops of \<open>do_gc\<close>, for one flash page of one LUN.\<close>

definition gc_finish_lun :: "base_ssd \<Rightarrow> nat \<Rightarrow> conv_ftl \<Rightarrow> ppa \<Rightarrow> conv_ftl option" where
  "gc_finish_lun b now ftl p = do {
     ftl \<leftarrow> mark_block_free ftl p;
     ftl \<leftarrow> (if enable_gc_delay (cp ftl) then gc_advance b now ftl (gc_command NAND_ERASE 0 p) else Some ftl);
     lunp \<leftarrow> get_lun (ftl_ssd ftl) p;
     s \<leftarrow> set_lun (ftl_ssd ftl) p (lunp\<lparr> lun_gc_endtime := next_lun_avail_time lunp \<rparr>);
     Some (ftl\<lparr> ftl_ssd := s \<rparr>)
   }"

definition gc_lun_step :: "base_ssd \<Rightarrow> nat \<Rightarrow> nat \<Rightarrow> nat \<Rightarrow> nat \<Rightarrow> ppa \<times> conv_ftl \<Rightarrow> (ppa \<times> conv_ftl) option" where
  "gc_lun_step b now flashpg ch lun = (\<lambda>(p, ftl). do {
     let p = set_g_pl 0 (set_g_lun lun (set_g_ch ch p));
     _ \<leftarrow> get_lun (ftl_ssd ftl) p;
     ftl \<leftarrow> clean_one_flashpg b now ftl p;
     ftl \<leftarrow> (if flashpg + 1 = flashpgs_per_blk (spp_of ftl) then gc_finish_lun b now ftl p else Some ftl);
     Some (p, ftl)
   })"

text \<open>The result is \<open>-1\<close> (\<open>False\<close>) when there is no victim, \<open>0\<close> (\<open>True\<close>) otherwise.\<close>

definition do_gc :: "base_ssd \<Rightarrow> nat \<Rightarrow> ppa \<Rightarrow> conv_ftl \<Rightarrow> bool \<Rightarrow> (bool \<times> conv_ftl) option" where
  "do_gc b now junk ftl force = do {
     let spp = spp_of ftl;
     (victim, ftl) \<leftarrow> select_victim_line ftl force;
     (case victim of
        None \<Rightarrow> Some (False, ftl)
      | Some l \<Rightarrow> do {
          line \<leftarrow> arr_get (lines (lm ftl)) l;
          let p = set_g_blk (line_id line) junk;
          let ftl = ftl\<lparr> wfc := (wfc ftl)\<lparr> credits_to_refill := of_nat (line_ipc line) \<rparr> \<rparr>;
          (p, ftl) \<leftarrow> foldM (\<lambda>flashpg (p, ftl).
            let p = set_g_pg (flashpg * pgs_per_flashpg spp) p
            in foldM (\<lambda>ch st. foldM (\<lambda>lun st. gc_lun_step b now flashpg ch lun st) [0..<luns_per_ch spp] st)
                 [0..<nchs spp] (p, ftl)) [0..<flashpgs_per_blk spp] (p, ftl);
          ftl \<leftarrow> mark_line_free ftl p;
          Some (True, ftl)
        })
   }"

definition forground_gc :: "base_ssd \<Rightarrow> nat \<Rightarrow> ppa \<Rightarrow> conv_ftl \<Rightarrow> conv_ftl option" where
  "forground_gc b now junk ftl =
     (if should_gc_high ftl then do { (_, ftl) \<leftarrow> do_gc b now junk ftl True; Some ftl } else Some ftl)"

text \<open>The credits are a \<open>uint32_t\<close>, so \<open><= 0\<close> is \<open>= 0\<close>.\<close>

definition check_and_refill_write_credit :: "base_ssd \<Rightarrow> nat \<Rightarrow> ppa \<Rightarrow> conv_ftl \<Rightarrow> conv_ftl option" where
  "check_and_refill_write_credit b now junk ftl =
     (if write_credits (wfc ftl) = 0 then do {
        ftl \<leftarrow> forground_gc b now junk ftl;
        Some (ftl\<lparr> wfc := (wfc ftl)\<lparr> write_credits := write_credits (wfc ftl) + credits_to_refill (wfc ftl) \<rparr> \<rparr>)
      } else Some ftl)"

section \<open>The time model does not touch the data\<close>

lemma same_data_pg_stat: "same_data s s' \<Longrightarrow> pg_stat s' = pg_stat s"
  using same_data_get [of s s'] by (simp add: pg_stat_def get_pg_def fun_eq_iff)

lemma same_data_stat_keys: "same_data s s' \<Longrightarrow> stat_keys s' = stat_keys s"
  using same_data_pg_stat [of s s'] by (simp add: stat_keys_def fun_eq_iff)

lemma in_device_mapped: "in_device spp p \<Longrightarrow> pls_per_lun spp = 1 \<Longrightarrow> p \<noteq> UNMAPPED_PPA"
  using UNMAPPED_g_pl by (auto simp: in_device_def)

lemma status_ok_same_data:
  assumes "status_ok X ftl" and "same_data (ftl_ssd ftl) s" and "ssd_usable s"
  shows "status_ok X (ftl\<lparr> ftl_ssd := s \<rparr>)"
proof -
  note D = status_okD [OF assms(1)] and g = same_data_get [OF assms(2)]
  have sp: "ssd_sp s = spp_of ftl" using g by simp
  have "nsecs_ok s" using D(10) g by (simp add: nsecs_ok_def get_pg_def sp)
  then have "device_ok s"
    using D assms(3) same_data_shape [OF assms(2)] by (simp add: device_ok_def sp)
  moreover have "blk_counts_ok s" using D(7) g same_data_stat_keys [OF assms(2)] by (simp add: blk_counts_ok_def)
  moreover have "line_counts_ok X s (lines (lm ftl))"
    using D(8) same_data_stat_keys [OF assms(2)] by (simp add: line_counts_ok_def sp)
  ultimately show ?thesis by (simp add: status_ok_def)
qed

lemma gc_advance_ok:
  assumes ok: "status_ok X ftl" and p: "in_device (spp_of ftl) (nand_ppa c)" and known: "\<forall>n. cmd c \<noteq> NAND_OTHER n"
    and read: "cmd c = NAND_READ \<longrightarrow> 0 < xfer_size c \<and> 0 < max_ch_xfer_size (spp_of ftl)"
  shows "\<exists>s. gc_advance b now ftl c = Some (ftl\<lparr> ftl_ssd := s \<rparr>) \<and> same_data (ftl_ssd ftl) s
    \<and> ssd_usable s \<and> status_ok X (ftl\<lparr> ftl_ssd := s \<rparr>)"
proof -
  note D = status_okD [OF ok]
  have "command_ok (ftl_ssd ftl) c"
    using known read in_device_mapped [OF p D(5)] by (simp add: command_ok_def)
  moreover obtain lun where "get_lun (ftl_ssd ftl) (nand_ppa c) = Some lun"
    using ssd_shape_get_lun [OF D(1), of "nand_ppa c"] p by (auto simp: in_device_def)
  ultimately obtain t s where "ssd_advance_nand b now (ftl_ssd ftl) c = Some (t, s)" "ssd_usable s" "same_data (ftl_ssd ftl) s"
    using ssd_advance_nand_ok [OF D(6), of c lun b now] by blast
  with status_ok_same_data [OF ok] show ?thesis by (intro exI [of _ s]) (simp add: gc_advance_def)
qed

section \<open>The invariant of collection\<close>

text \<open>
  During a collection \<open>v\<close> is the victim line, \<open>W\<close> the lines in use other than the collector's
  current one (\<open>v\<close> is among them), and \<open>M\<close> the valid pages of \<open>v\<close> already copied elsewhere.
  \<^item> \<open>pages_owned\<close>: a mapped logical page is on a valid page that is not a stale copy, and every
    valid page that is not a stale copy belongs to the logical page the reverse table names.
  \<^item> \<open>line_progress\<close>: the free pages of the current line are those from the write pointer on.
  \<^item> \<open>da_spare\<close>: the per-LUN lines have room for what can still be written.
  \<^item> \<open>gc_room\<close> pages can be written before the free lines run out.
\<close>

definition pages_owned :: "page_key set \<Rightarrow> conv_ftl \<Rightarrow> bool" where
  "pages_owned M ftl \<longleftrightarrow>
     (\<forall>m p. get_maptbl_ent ftl m = Some p \<and> mapped_ppa p \<longrightarrow> pg_stat (ftl_ssd ftl) p = Some PG_VALID \<and> pg_key p \<notin> M)
     \<and> (\<forall>p. pg_stat (ftl_ssd ftl) p = Some PG_VALID \<and> pg_key p \<notin> M \<longrightarrow>
          (\<exists>m q. get_rmap_ent ftl p = Some m \<and> m < tt_pgs (spp_of ftl) \<and> get_maptbl_ent ftl m = Some q
             \<and> mapped_ppa q \<and> pg_key q = pg_key p))"

definition page_index :: "ssdparams \<Rightarrow> ppa \<Rightarrow> nat" where
  "page_index spp p = wp_index spp \<lparr> curline = None, wp_ch = g_ch p, wp_lun = g_lun p, wp_pg = g_pg p, wp_blk = g_blk p, wp_pl = 0 \<rparr>"

definition line_progress :: "ssd \<Rightarrow> write_pointer \<Rightarrow> bool" where
  "line_progress s w \<longleftrightarrow> (\<forall>p. in_device (ssd_sp s) p \<and> g_blk p = wp_blk w \<longrightarrow>
     (pg_stat s p = Some PG_FREE \<longleftrightarrow> wp_index (ssd_sp s) w \<le> page_index (ssd_sp s) p))"

definition gc_room :: "conv_ftl \<Rightarrow> nat" where
  "gc_room ftl = pgs_per_line (spp_of ftl) - wp_index (spp_of ftl) (gc_wp ftl)
     + pgs_per_line (spp_of ftl) * length (free_line_list (lm ftl))"

definition gc_inv :: "nat set \<Rightarrow> nat \<Rightarrow> page_key set \<Rightarrow> conv_ftl \<Rightarrow> bool" where
  "gc_inv W v M ftl \<longleftrightarrow> status_ok {v} ftl \<and> mapping_ok ftl \<and> pages_owned M ftl
     \<and> v \<in> W \<and> wp_blk (gc_wp ftl) \<notin> W \<and> curline (gc_wp ftl) = Some (wp_blk (gc_wp ftl))
     \<and> wp_ok (spp_of ftl) (gc_wp ftl) \<and> line_progress (ftl_ssd ftl) (gc_wp ftl)
     \<and> lm_inv (pgs_per_line (spp_of ftl)) (insert (wp_blk (gc_wp ftl)) W) (lm ftl) \<and> da_spare {v} ftl
     \<and> M \<subseteq> stat_keys (ftl_ssd ftl) PG_VALID (in_line v)
     \<and> card (stat_keys (ftl_ssd ftl) PG_VALID (in_line v) - M) + 1 \<le> gc_room ftl"

lemma gc_inv_same_data:
  assumes "gc_inv W v M ftl" and d: "same_data (ftl_ssd ftl) s" and "ssd_usable s"
  shows "gc_inv W v M (ftl\<lparr> ftl_ssd := s \<rparr>)"
proof -
  have sp: "ssd_sp s = spp_of ftl" using same_data_get [OF d] by simp
  note st = same_data_pg_stat [OF d] same_data_stat_keys [OF d]
  have rm: "get_rmap_ent (ftl\<lparr> ftl_ssd := s \<rparr>) = get_rmap_ent ftl" "get_maptbl_ent (ftl\<lparr> ftl_ssd := s \<rparr>) = get_maptbl_ent ftl"
    "rmap_legal (ftl\<lparr> ftl_ssd := s \<rparr>) = rmap_legal ftl" "get_glun (ftl\<lparr> ftl_ssd := s \<rparr>) = get_glun ftl"
    by (simp_all add: fun_eq_iff get_rmap_ent_def ppa2pgidx_def get_maptbl_ent_def rmap_legal_def valid_ppa_def get_glun_def sp)
  have "status_ok {v} ftl" using assms(1) by (simp add: gc_inv_def)
  from status_ok_same_data [OF this d assms(3)] have "status_ok {v} (ftl\<lparr> ftl_ssd := s \<rparr>)" .
  moreover have "mapping_ok (ftl\<lparr> ftl_ssd := s \<rparr>) \<longleftrightarrow> mapping_ok ftl"
    by (simp only: mapping_ok_def map_consistent_def rm) (simp add: sp)
  moreover have "pages_owned M (ftl\<lparr> ftl_ssd := s \<rparr>) \<longleftrightarrow> pages_owned M ftl"
    by (simp only: pages_owned_def rm) (simp add: sp st)
  moreover have "line_progress s w \<longleftrightarrow> line_progress (ftl_ssd ftl) w" for w
    by (simp only: line_progress_def sp st)
  moreover have "da_spare {v} (ftl\<lparr> ftl_ssd := s \<rparr>) \<longleftrightarrow> da_spare {v} ftl"
    by (simp only: da_spare_def rm) (simp add: sp st)
  moreover have "gc_room (ftl\<lparr> ftl_ssd := s \<rparr>) = gc_room ftl" by (simp add: gc_room_def sp)
  ultimately show ?thesis using assms(1) by (simp only: gc_inv_def) (simp add: sp st)
qed

text \<open>What a relocation keeps: which logical pages are mapped, and the status of the victim's pages.\<close>

definition lpn_mapped :: "conv_ftl \<Rightarrow> nat \<Rightarrow> bool" where
  "lpn_mapped ftl m \<longleftrightarrow> (\<exists>p. get_maptbl_ent ftl m = Some p \<and> mapped_ppa p)"

definition kept :: "nat \<Rightarrow> conv_ftl \<Rightarrow> conv_ftl \<Rightarrow> bool" where
  "kept v ftl ftl' \<longleftrightarrow> spp_of ftl' = spp_of ftl \<and> cp ftl' = cp ftl \<and> user_wp ftl' = user_wp ftl
     \<and> (\<forall>m. lpn_mapped ftl' m \<longleftrightarrow> lpn_mapped ftl m)
     \<and> (\<forall>q. g_blk q = v \<longrightarrow> pg_stat (ftl_ssd ftl') q = pg_stat (ftl_ssd ftl) q)"

lemma kept_refl: "kept v ftl ftl"
  by (simp add: kept_def)

lemma kept_trans: "kept v f g \<Longrightarrow> kept v g h \<Longrightarrow> kept v f h"
  by (simp add: kept_def)

lemma kept_stat_keys:
  assumes "kept v ftl ftl'"
  shows "stat_keys (ftl_ssd ftl') st (in_line v) = stat_keys (ftl_ssd ftl) st (in_line v)"
  using assms by (auto simp: kept_def stat_keys_def)

lemma kept_same_data: "same_data (ftl_ssd ftl) s \<Longrightarrow> kept v ftl (ftl\<lparr> ftl_ssd := s \<rparr>)"
  using same_data_get [of "ftl_ssd ftl" s] same_data_pg_stat [of "ftl_ssd ftl" s]
  by (simp add: kept_def lpn_mapped_def get_maptbl_ent_def)

text \<open>A command of the collector, with its result dropped, keeps the invariant.\<close>

lemma gc_command_ok:
  assumes inv: "gc_inv W v M ftl" and p: "in_device (spp_of ftl) p" and op: "\<forall>n. op \<noteq> NAND_OTHER n"
    and read: "op = NAND_READ \<longrightarrow> 0 < len \<and> 0 < max_ch_xfer_size (spp_of ftl)"
  shows "\<exists>ftl'. gc_advance b now ftl (gc_command op len p) = Some ftl' \<and> gc_inv W v M ftl' \<and> kept v ftl ftl'
    \<and> (\<exists>s. ftl' = ftl\<lparr> ftl_ssd := s \<rparr>)"
proof -
  have "status_ok {v} ftl" using inv by (simp add: gc_inv_def)
  moreover have "in_device (spp_of ftl) (nand_ppa (gc_command op len p))" "\<forall>n. cmd (gc_command op len p) \<noteq> NAND_OTHER n"
    "cmd (gc_command op len p) = NAND_READ \<longrightarrow> 0 < xfer_size (gc_command op len p) \<and> 0 < max_ch_xfer_size (spp_of ftl)"
    using p op read by (simp_all add: gc_command_def)
  ultimately obtain s where "gc_advance b now ftl (gc_command op len p) = Some (ftl\<lparr> ftl_ssd := s \<rparr>)"
    "same_data (ftl_ssd ftl) s" "ssd_usable s" using gc_advance_ok by blast
  with gc_inv_same_data [OF inv] kept_same_data show ?thesis by blast
qed

section \<open>Moving one page\<close>

lemma page_index_stripe:
  assumes "geometry_ok spp" and "in_device spp p"
  shows "page_index spp p < pgs_per_line spp" and "stripe spp (page_index spp p) = (g_ch p, g_lun p, g_pg p)"
proof -
  let ?w = "\<lparr> curline = None, wp_ch = g_ch p, wp_lun = g_lun p, wp_pg = g_pg p, wp_blk = g_blk p, wp_pl = 0 \<rparr>"
  have "wp_ok spp ?w" using assms(2) by (simp add: wp_ok_def in_device_def)
  from wp_index_bound [OF assms(1) this] stripe_index [OF assms(1) this]
  show "page_index spp p < pgs_per_line spp" "stripe spp (page_index spp p) = (g_ch p, g_lun p, g_pg p)"
    by (simp_all add: page_index_def)
qed

lemma page_index_eq:
  assumes "geometry_ok spp" and "pls_per_lun spp = 1" and "in_device spp p" and "in_device spp q" and "g_blk p = g_blk q"
  shows "page_index spp p = page_index spp q \<longleftrightarrow> pg_key p = pg_key q"
proof
  assume "page_index spp p = page_index spp q"
  then have "(g_ch p, g_lun p, g_pg p) = (g_ch q, g_lun q, g_pg q)"
    using page_index_stripe(2) [OF assms(1,3)] page_index_stripe(2) [OF assms(1,4)] by metis
  with assms show "pg_key p = pg_key q" by (simp add: pg_key_def in_device_def)
qed (simp add: pg_key_def page_index_def)

lemma page_index_wp:
  "pg_key p = (wp_ch w, wp_lun w, 0, wp_blk w, wp_pg w) \<Longrightarrow> page_index spp p = wp_index spp w"
  by (simp add: pg_key_def page_index_def wp_index_def)

lemma line_progress_next:
  assumes geo: "geometry_ok spp" and pls: "pls_per_lun spp = 1" and w: "wp_ok spp w" and sp: "ssd_sp s = spp" "ssd_sp s' = spp"
    and prog: "line_progress s w" and i: "wp_index spp w + 1 < pgs_per_line spp"
    and p: "in_device spp p" "pg_key p = (wp_ch w, wp_lun w, 0, wp_blk w, wp_pg w)"
    and stat: "\<And>q. pg_stat s' q = (if pg_key q = pg_key p then Some PG_VALID else pg_stat s q)"
  shows "line_progress s' (wp_next spp w)"
  unfolding line_progress_def sp
proof (intro allI impI, elim conjE)
  fix q
  assume q: "in_device spp q" and b: "g_blk q = wp_blk (wp_next spp w)"
  note n = wp_next_ok [OF geo w i]
  have blk: "g_blk q = wp_blk w" "g_blk p = wp_blk w" using b n(4) p(2) by (simp_all add: pg_key_def)
  have "pg_key q = pg_key p \<longleftrightarrow> page_index spp q = wp_index spp w"
    using page_index_eq [OF geo pls q p(1)] blk page_index_wp [OF p(2), of spp] by simp
  moreover have "pg_stat s q = Some PG_FREE \<longleftrightarrow> wp_index spp w \<le> page_index spp q"
    using prog q blk sp by (simp add: line_progress_def)
  ultimately show "pg_stat s' q = Some PG_FREE \<longleftrightarrow> wp_index spp (wp_next spp w) \<le> page_index spp q"
    using n(2) stat [of q] by auto
qed

lemma empty_line_progress:
  assumes "status_ok X ftl" and "n \<notin> X" and n: "n < length (lines (lm ftl))"
    and z: "line_vpc (lines (lm ftl) ! n) = 0" "line_ipc (lines (lm ftl) ! n) = 0"
  shows "line_progress (ftl_ssd ftl) (line_start n)"
  unfolding line_progress_def
proof (intro allI impI, elim conjE)
  fix p
  assume p: "in_device (spp_of ftl) p" and b: "g_blk p = wp_blk (line_start n)"
  note D = status_okD [OF assms(1)]
  have e: "stat_keys (ftl_ssd ftl) PG_VALID (in_line n) = {}" "stat_keys (ftl_ssd ftl) PG_INVALID (in_line n) = {}"
    using D(8) assms(2) n z by (auto simp: line_counts_ok_def)
  obtain st where st: "pg_stat (ftl_ssd ftl) p = Some st" using pg_stat_in_device [OF D(1), of p] p by auto
  then have "pg_key p \<in> stat_keys (ftl_ssd ftl) st (in_line n)" using b by (simp add: in_stat_keys line_start_def)
  with e have "st = PG_FREE" by (cases st) auto
  with st show "pg_stat (ftl_ssd ftl) p = Some PG_FREE \<longleftrightarrow> wp_index (spp_of ftl) (line_start n) \<le> page_index (spp_of ftl) p"
    by (simp add: wp_index_def line_start_def)
qed

lemma pages_owned_move:
  assumes own: "pages_owned M ftl" and con: "map_consistent get_maptbl_ent get_rmap_ent rmap_legal mapped_ppa ftl"
    and shape: "ssd_shape (ftl_ssd ftl)" and leg: "\<And>q. in_device (spp_of ftl) q \<Longrightarrow> rmap_legal ftl q"
    and old: "get_rmap_ent ftl old = Some l" "l < tt_pgs (spp_of ftl)" "pg_stat (ftl_ssd ftl) old = Some PG_VALID" "pg_key old \<notin> M"
    and new: "in_device (spp_of ftl) p" "pg_stat (ftl_ssd ftl) p = Some PG_FREE" "pg_key p \<notin> M" "mapped_ppa p"
    and sp: "spp_of ftl' = spp_of ftl"
    and stat: "\<And>q. pg_stat (ftl_ssd ftl') q = (if pg_key q = pg_key p then Some PG_VALID else pg_stat (ftl_ssd ftl) q)"
    and look: "\<And>m. get_maptbl_ent ftl' m = (if m = l then Some p else get_maptbl_ent ftl m)"
    and rev: "\<And>q. in_device (spp_of ftl) q \<Longrightarrow> get_rmap_ent ftl' q = (if pg_key q = pg_key p then Some l else get_rmap_ent ftl q)"
  shows "pages_owned (insert (pg_key old) M) ftl'"
proof -
  let ?s = "ftl_ssd ftl"
  obtain q0 where q0: "get_maptbl_ent ftl l = Some q0" "mapped_ppa q0" "pg_key q0 = pg_key old"
    using own old by (auto simp: pages_owned_def)
  have live: "pg_stat ?s q = Some PG_VALID" "pg_key q \<notin> M" if "get_maptbl_ent ftl m = Some q" "mapped_ppa q" for m q
    using own that by (auto simp: pages_owned_def)
  have dev: "in_device (spp_of ftl) q" if "pg_stat ?s q = Some st" for q st
    using pg_stat_in_device [OF shape, of q] that by auto
  have uniq: "m = k" if "get_maptbl_ent ftl m = Some q" "mapped_ppa q" "get_maptbl_ent ftl k = Some q'" "mapped_ppa q'" "pg_key q = pg_key q'" for m k q q'
    using pm.consistent_inj [OF con that] .
  have ne: "pg_key old \<noteq> pg_key p" using old(3) new(2) pg_stat_key [of old p ?s] by auto
  show ?thesis
    unfolding pages_owned_def
  proof (intro conjI allI impI; elim conjE)
    fix m q
    assume m: "get_maptbl_ent ftl' m = Some q" "mapped_ppa q"
    show "pg_stat (ftl_ssd ftl') q = Some PG_VALID" "pg_key q \<notin> insert (pg_key old) M"
      using m look [of m] stat [of q] live [of m q] new(3) ne uniq [of m q l q0] q0 by (auto split: if_splits)
  next
    fix q
    assume v: "pg_stat (ftl_ssd ftl') q = Some PG_VALID" and nm: "pg_key q \<notin> insert (pg_key old) M"
    show "\<exists>m r. get_rmap_ent ftl' q = Some m \<and> m < tt_pgs (spp_of ftl') \<and> get_maptbl_ent ftl' m = Some r
        \<and> mapped_ppa r \<and> pg_key r = pg_key q"
    proof (cases "pg_key q = pg_key p")
      case True
      then have "pg_stat ?s q = Some PG_FREE" using new(2) pg_stat_key [of q p ?s] by simp
      with True rev [OF dev] look [of l] sp old(2) new(4) show ?thesis by auto
    next
      case False
      with v stat have vq: "pg_stat ?s q = Some PG_VALID" by simp
      with own nm obtain m r where r: "get_rmap_ent ftl q = Some m" "m < tt_pgs (spp_of ftl)" "get_maptbl_ent ftl m = Some r"
        "mapped_ppa r" "pg_key r = pg_key q" by (auto simp: pages_owned_def)
      then have "m \<noteq> l" using q0 nm by auto
      with r False rev [OF dev [OF vq]] look [of m] sp show ?thesis by auto
    qed
  qed
qed

text \<open>The state after both tables and the page status are updated, before the write pointer moves.\<close>

lemma gc_write_tables:
  assumes inv: "gc_inv W v M ftl" and b: "b \<noteq> HYBRID_SSD"
    and old: "pg_stat (ftl_ssd ftl) old = Some PG_VALID" "g_blk old = v" "pg_key old \<notin> M"
  obtains l p f1 f2 f3 where "get_rmap_ent ftl old = Some l" and "l < tt_pgs (spp_of ftl)"
    and "get_new_page b ftl GC_IO = Some p" and "in_device (spp_of ftl) p"
    and "pg_key p = (wp_ch (gc_wp ftl), wp_lun (gc_wp ftl), 0, wp_blk (gc_wp ftl), wp_pg (gc_wp ftl))"
    and "set_maptbl_ent ftl l p = Some f1" and "set_rmap_ent f1 l p = Some f2" and "mark_page_valid f2 p = Some f3"
    and "status_ok {v} f3" and "mapping_ok f3" and "pages_owned (insert (pg_key old) M) f3" and "da_spare {v} f3"
    and "spp_of f3 = spp_of ftl" and "cp f3 = cp ftl" and "user_wp f3 = user_wp ftl" and "gc_wp f3 = gc_wp ftl"
    and "\<And>m. lpn_mapped f3 m \<longleftrightarrow> lpn_mapped ftl m"
    and "\<And>q. pg_stat (ftl_ssd f3) q = (if pg_key q = pg_key p then Some PG_VALID else pg_stat (ftl_ssd ftl) q)"
    and "lm_inv (pgs_per_line (spp_of ftl)) (insert (wp_blk (gc_wp ftl)) W) (lm f3)"
    and "free_line_list (lm f3) = free_line_list (lm ftl)"
proof -
  let ?spp = "spp_of ftl" and ?w = "gc_wp ftl" and ?s = "ftl_ssd ftl" and ?pgs = "pgs_per_line (spp_of ftl)"
  have I: "status_ok {v} ftl" "mapping_ok ftl" "pages_owned M ftl" "v \<in> W" "wp_blk ?w \<notin> W" "wp_ok ?spp ?w"
    "line_progress ?s ?w" "lm_inv ?pgs (insert (wp_blk ?w) W) (lm ftl)" "da_spare {v} ftl"
    "M \<subseteq> stat_keys ?s PG_VALID (in_line v)" using inv by (simp_all add: gc_inv_def)
  note D = status_okD [OF I(1)]
  obtain l q0 where l: "get_rmap_ent ftl old = Some l" "l < tt_pgs ?spp" "get_maptbl_ent ftl l = Some q0" "mapped_ppa q0"
    using I(3) old by (auto simp: pages_owned_def)
  obtain p where p: "get_new_page b ftl GC_IO = Some p" "pg_key p = (wp_ch ?w, wp_lun ?w, 0, wp_blk ?w, wp_pg ?w)" "in_device ?spp p"
    using get_new_page_fields [OF b D(2) I(6), of GC_IO] D(5) by (auto simp: get_wp_def)
  have pblk: "g_blk p = wp_blk ?w" using p(2) by (simp add: pg_key_def)
  have pv: "g_blk p \<notin> {v}" using pblk I(4,5) by auto
  have free: "pg_stat ?s p = Some PG_FREE"
    using I(7) p(3) pblk page_index_wp [OF p(2), of ?spp] by (simp add: line_progress_def)
  have pM: "pg_key p \<notin> M" using I(10) pv by (auto simp: in_stat_keys)
  have pm: "mapped_ppa p" using in_device_mapped [OF p(3) D(5)] by (simp add: mapped_ppa_def)
  have con: "map_consistent get_maptbl_ent get_rmap_ent rmap_legal mapped_ppa ftl"
    and len: "length (rmap ftl) = tt_pgs ?spp" "length (maptbl ftl) = tt_pgs ?spp" using I(2) by (simp_all add: mapping_ok_def)
  have leg: "rmap_legal ftl q" if "in_device ?spp q" for q
    using that D(3) len by (simp add: rmap_legal_def valid_ppa_in_device)
  have fresh: "m = l" if "get_maptbl_ent ftl m = Some q" "mapped_ppa q" "pg_key q = pg_key p" for m q
    using that I(3) free pg_stat_key [of q p ?s] by (auto simp: pages_owned_def)
  show ?thesis
  proof (rule pm.remap [OF con leg [OF p(3)] _ fresh])
    show "l \<in> ftl_lpns ftl" using l(2) len by (simp add: ftl_lpns_def)
    fix f1 f2
    assume f1: "set_maptbl_ent ftl l p = Some f1" and f2: "set_rmap_ent f1 l p = Some f2"
      and con2: "map_consistent get_maptbl_ent get_rmap_ent rmap_legal mapped_ppa f2"
      and look: "\<And>m. get_maptbl_ent f2 m = (if m = l then Some p else get_maptbl_ent ftl m)"
      and own: "\<And>q. rmap_legal ftl q \<Longrightarrow> get_rmap_ent f2 q = (if pg_key q = pg_key p then Some l else get_rmap_ent ftl q)"
    obtain mt rm where f2': "f2 = ftl\<lparr> maptbl := mt, rmap := rm \<rparr>" "length mt = length (maptbl ftl)" "length rm = length (rmap ftl)"
      using f1 f2 by (auto simp: set_maptbl_ent_eq set_rmap_ent_eq)
    have st2: "status_ok {v} f2" using I(1) by (simp add: status_ok_def f2')
    obtain d where d: "arr_get (lunlm ftl) (get_glun ftl p) = Some d" "g_blk p < length (lines d)"
      "line_vpc (lines d ! g_blk p) + card (stat_keys ?s PG_FREE (in_blk (blk_key p))) \<le> ?pgs"
      using I(9) p(3) pv unfolding da_spare_def by blast
    moreover have "0 < card (stat_keys ?s PG_FREE (in_blk (blk_key p)))" using stat_keys_pos [OF free] by simp
    moreover have glun: "get_glun f2 p = get_glun ftl p" by (simp add: get_glun_def f2')
    ultimately have room: "da_room f2 p" by (simp add: da_room_def f2')
    have free2: "pg_stat (ftl_ssd f2) p = Some PG_FREE" using free by (simp add: f2')
    let ?F = "\<lambda>s ds. f2\<lparr> ftl_ssd := s, lunlm := ds, lm := (lm f2)\<lparr> lines := (lines (lm f2))[g_blk p :=
          (lines (lm f2) ! g_blk p)\<lparr> line_vpc := line_vpc (lines (lm f2) ! g_blk p) + 1 \<rparr>] \<rparr> \<rparr>"
    from mark_page_valid_ok [OF st2 free2 room pv] obtain s ds where
      mk: "mark_page_valid f2 p = Some (?F s ds)"
      and st3: "status_ok {v} (?F s ds)" and sp3: "ssd_sp s = spp_of f2"
      and lmv: "lm_line_valid (pgs_per_line (spp_of f2)) (lm f2) (g_blk p) = Some (lm (?F s ds))"
      and stat: "\<forall>q. pg_stat s q = (if pg_key q = pg_key p then Some PG_VALID else pg_stat (ftl_ssd f2) q)"
      and ds: "\<exists>d. arr_get (lunlm f2) (get_glun f2 p) = Some d \<and> ds = (lunlm f2)[get_glun f2 p :=
            d\<lparr> lines := (lines d)[g_blk p := (lines d ! g_blk p)\<lparr> line_vpc := line_vpc (lines d ! g_blk p) + 1 \<rparr>] \<rparr>]"
      unfolding Let_def by blast
    let ?f3 = "?F s ds"
    have sp: "spp_of ?f3 = ?spp" using sp3 by (simp add: f2')
    have stat': "pg_stat (ftl_ssd ?f3) q = (if pg_key q = pg_key p then Some PG_VALID else pg_stat ?s q)" for q
      using stat by (simp add: f2')
    have tab: "get_maptbl_ent ?f3 = get_maptbl_ent f2" "get_rmap_ent ?f3 = get_rmap_ent f2" "rmap_legal ?f3 = rmap_legal f2"
      using sp by (simp_all add: fun_eq_iff get_maptbl_ent_def get_rmap_ent_def ppa2pgidx_def rmap_legal_def valid_ppa_def f2')
    have look3: "get_maptbl_ent ?f3 m = (if m = l then Some p else get_maptbl_ent ftl m)" for m
      unfolding tab by (rule look)
    have own3: "get_rmap_ent ?f3 q = (if pg_key q = pg_key p then Some l else get_rmap_ent ftl q)" if "in_device ?spp q" for q
      unfolding tab by (rule own [OF leg [OF that]])
    have "map_consistent get_maptbl_ent get_rmap_ent rmap_legal mapped_ppa ?f3"
      using con2 unfolding map_consistent_def tab .
    then have "mapping_ok ?f3" using D(3) len sp by (simp add: mapping_ok_def f2')
    moreover have "pages_owned (insert (pg_key old) M) ?f3"
      by (rule pages_owned_move [OF I(3) con D(1) leg l(1,2) old(1,3) p(3) free pM pm sp stat' look3 own3])
    moreover have "da_spare {v} ?f3"
      by (rule da_spare_write [OF I(9) D(2,5,1) p(3) free pv d(1) _ sp stat'])
        (use ds d(1) glun in \<open>simp add: f2'\<close>)
    moreover have "lpn_mapped ?f3 m \<longleftrightarrow> lpn_mapped ftl m" for m
      using l(3,4) pm unfolding lpn_mapped_def look3 by auto
    moreover have "lm_inv ?pgs (insert (wp_blk ?w) W) (lm ?f3) \<and> free_line_list (lm ?f3) = free_line_list (lm ftl)"
    proof -
      have n: "g_blk p < blks_per_pl ?spp" using p(3) by (simp add: in_device_def)
      have "line_vpc (lines (lm ftl) ! g_blk p) + line_ipc (lines (lm ftl) ! g_blk p) < ?pgs"
        using line_pages_sum [OF I(1) n] stat_keys_pos [OF free, of "in_line (g_blk p)"] D(8,9) n pv
        by (simp add: line_counts_ok_def)
      from lm_line_valid_ok [OF I(8) _ this] pblk lmv show ?thesis by (auto simp: f2')
    qed
    moreover have "cp ?f3 = cp ftl" "user_wp ?f3 = user_wp ftl" "gc_wp ?f3 = gc_wp ftl" by (simp_all add: f2')
    ultimately show ?thesis
      using that [OF l(1,2) p(1,3,2) f1 f2 mk st3] sp stat' by blast
  qed
qed

text \<open>Then the write pointer moves, to the next page or, at the end of the line, to a free line.\<close>

lemma gc_advance_pointer:
  assumes st: "status_ok {v} f3" and v: "v \<in> W" and w: "wp_ok (spp_of f3) (gc_wp f3)" and cur: "curline (gc_wp f3) = Some (wp_blk (gc_wp f3))"
    and inv: "lm_inv (pgs_per_line (spp_of f3)) (insert (wp_blk (gc_wp f3)) W) (lm f3)" and out: "wp_blk (gc_wp f3) \<notin> W"
    and prog: "wp_index (spp_of f3) (gc_wp f3) + 1 < pgs_per_line (spp_of f3) \<Longrightarrow> line_progress (ftl_ssd f3) (wp_next (spp_of f3) (gc_wp f3))"
    and full: "wp_index (spp_of f3) (gc_wp f3) + 1 = pgs_per_line (spp_of f3) \<Longrightarrow> stat_keys (ftl_ssd f3) PG_FREE (in_line (wp_blk (gc_wp f3))) = {}"
    and room: "2 \<le> gc_room f3"
  shows "\<exists>m w'. let f4 = f3\<lparr> lm := m, gc_wp := w' \<rparr> in advance_write_pointer f3 GC_IO = Some f4 \<and> status_ok {v} f4
    \<and> wp_ok (spp_of f3) w' \<and> curline w' = Some (wp_blk w') \<and> wp_blk w' \<notin> W
    \<and> lm_inv (pgs_per_line (spp_of f3)) (insert (wp_blk w') W) m \<and> line_progress (ftl_ssd f3) w' \<and> gc_room f3 \<le> gc_room f4 + 1"
proof -
  let ?spp = "spp_of f3" and ?w = "gc_wp f3" and ?pgs = "pgs_per_line (spp_of f3)"
  note D = status_okD [OF st]
  have get: "get_wp f3 GC_IO = Some ?w" by (simp add: get_wp_def)
  show ?thesis
  proof (cases "wp_index ?spp ?w + 1 = ?pgs")
    case False
    then have i: "wp_index ?spp ?w + 1 < ?pgs" using wp_index_bound [OF D(4) w] by simp
    note n = wp_next_ok [OF D(4) w i]
    have "f3\<lparr> lm := lm f3, gc_wp := x \<rparr> = f3\<lparr> gc_wp := x \<rparr>" for x by (cases f3) simp
    then have "advance_write_pointer f3 GC_IO = Some (f3\<lparr> lm := lm f3, gc_wp := wp_next ?spp ?w \<rparr>)"
      using advance_write_pointer_cases(1) [OF D(4) w get i] by (simp add: put_wp_def)
    moreover have "status_ok {v} (f3\<lparr> lm := lm f3, gc_wp := wp_next ?spp ?w \<rparr>)" using st by (simp add: status_ok_def)
    ultimately show ?thesis
      using n cur out inv prog [OF i] by (intro exI [of _ "lm f3"] exI [of _ "wp_next ?spp ?w"]) (simp add: gc_room_def)
  next
    case True
    have b: "wp_blk ?w < blks_per_pl ?spp" using w by (simp add: wp_ok_def)
    have bv: "wp_blk ?w \<notin> {v}" using out v by auto
    have "line_vpc (lines (lm f3) ! wp_blk ?w) + line_ipc (lines (lm f3) ! wp_blk ?w) = ?pgs"
      using line_pages_sum [OF st b] full [OF True] D(8,9) b bv by (simp add: line_counts_ok_def)
    then have used: "line_vpc (lines (lm f3) ! wp_blk ?w) = ?pgs \<or> 0 < line_ipc (lines (lm f3) ! wp_blk ?w)" by auto
    obtain l' ls where fr: "free_line_list (lm f3) = l' # ls"
      using room True by (cases "free_line_list (lm f3)") (auto simp: gc_room_def)
    obtain m where m: "advance_write_pointer f3 GC_IO = Some (put_wp (f3\<lparr> lm := m \<rparr>) GC_IO (line_start l'))"
      "lm_inv ?pgs (insert l' (insert (wp_blk ?w) W - {wp_blk ?w})) m" "same_lines (lines (lm f3)) (lines m)"
      "free_line_list m = ls" "l' < blks_per_pl ?spp"
      using advance_write_pointer_new_line [OF D(4) w get True inv D(9) cur _ used fr] by blast
    have W: "insert (wp_blk ?w) W - {wp_blk ?w} = W" using out by auto
    have l': "l' \<notin> insert (wp_blk ?w) W" using inv fr by (auto simp: lm_inv_def lm_partition_def)
    have st4: "status_ok {v} (f3\<lparr> lm := m, gc_wp := line_start l' \<rparr>)"
      using st m(3) by (simp add: status_ok_def line_counts_ok_def same_lines_iff)
    have pos: "0 < ?pgs" using True by simp
    have "wp_ok ?spp (line_start l')"
      using w m(5) by (simp add: wp_ok_def line_start_def)
    moreover have "line_vpc (lines (lm f3) ! l') = 0" "line_ipc (lines (lm f3) ! l') = 0"
      using inv fr by (auto simp: lm_inv_def lm_pages_def)
    then have "line_progress (ftl_ssd f3) (line_start l')"
      using empty_line_progress [OF st, of l'] l' v m(5) D(9) by auto
    moreover have "gc_room f3 \<le> gc_room (f3\<lparr> lm := m, gc_wp := line_start l' \<rparr>) + 1"
      using True fr m(4) by (simp add: gc_room_def line_start_def wp_index_def)
    ultimately show ?thesis
      using m(1,2) st4 l' by (intro exI [of _ m] exI [of _ "line_start l'"]) (simp add: W put_wp_def line_start_def)
  qed
qed

lemma gc_write_page_ok:
  assumes inv: "gc_inv W v M ftl" and b: "b \<noteq> HYBRID_SSD"
    and old: "pg_stat (ftl_ssd ftl) old = Some PG_VALID" "g_blk old = v" "pg_key old \<notin> M"
  shows "\<exists>ftl'. gc_write_page b now ftl old = Some ftl' \<and> gc_inv W v (insert (pg_key old) M) ftl' \<and> kept v ftl ftl'"
proof (rule gc_write_tables [OF inv b old])
  let ?spp = "spp_of ftl" and ?w = "gc_wp ftl" and ?s = "ftl_ssd ftl" and ?pgs = "pgs_per_line (spp_of ftl)"
  let ?M = "insert (pg_key old) M"
  have I: "v \<in> W" "wp_blk ?w \<notin> W" "curline ?w = Some (wp_blk ?w)" "wp_ok ?spp ?w" "line_progress ?s ?w"
    "M \<subseteq> stat_keys ?s PG_VALID (in_line v)" "card (stat_keys ?s PG_VALID (in_line v) - M) + 1 \<le> gc_room ftl"
    and D: "geometry_ok ?spp" "pls_per_lun ?spp = 1" "ssd_shape ?s"
    using inv status_okD [of "{v}" ftl] by (auto simp: gc_inv_def)
  fix l p f1 f2 f3
  assume l: "get_rmap_ent ftl old = Some l" "l < tt_pgs ?spp" and p: "get_new_page b ftl GC_IO = Some p" "in_device ?spp p"
    "pg_key p = (wp_ch ?w, wp_lun ?w, 0, wp_blk ?w, wp_pg ?w)"
    and run: "set_maptbl_ent ftl l p = Some f1" "set_rmap_ent f1 l p = Some f2" "mark_page_valid f2 p = Some f3"
    and st3: "status_ok {v} f3" and f3: "mapping_ok f3" "pages_owned ?M f3" "da_spare {v} f3"
    and fr: "spp_of f3 = ?spp" "cp f3 = cp ftl" "user_wp f3 = user_wp ftl" "gc_wp f3 = ?w" "\<And>m. lpn_mapped f3 m \<longleftrightarrow> lpn_mapped ftl m"
    and stat: "\<And>q. pg_stat (ftl_ssd f3) q = (if pg_key q = pg_key p then Some PG_VALID else pg_stat ?s q)"
    and lm3: "lm_inv ?pgs (insert (wp_blk ?w) W) (lm f3)" "free_line_list (lm f3) = free_line_list (lm ftl)"
  have pblk: "g_blk p = wp_blk ?w" using p(3) by (simp add: pg_key_def)
  have pv: "\<not> in_line v (pg_key p)" using pblk I(1,2) by auto
  have free: "pg_stat ?s p = Some PG_FREE"
    using I(5) p(2) pblk page_index_wp [OF p(3), of ?spp] by (simp add: line_progress_def)
  have room3: "gc_room f3 = gc_room ftl" using lm3(2) fr by (simp add: gc_room_def)
  have V: "stat_keys (ftl_ssd f3) PG_VALID (in_line v) = stat_keys ?s PG_VALID (in_line v)"
    using card_after(3) [where K = "in_line v", OF stat free _ pv] by simp
  have oldV: "pg_key old \<in> stat_keys ?s PG_VALID (in_line v)" using old by (simp add: in_stat_keys)
  then have card: "card (stat_keys ?s PG_VALID (in_line v) - M) = card (stat_keys ?s PG_VALID (in_line v) - ?M) + 1"
    using old(3) card_Suc_Diff1 [of "stat_keys ?s PG_VALID (in_line v) - M" "pg_key old"]
    by (simp add: Diff_insert [of _ _ M])
  have full: "stat_keys (ftl_ssd f3) PG_FREE (in_line (wp_blk ?w)) = {}" if last: "wp_index ?spp ?w + 1 = ?pgs"
  proof -
    have "pg_stat (ftl_ssd f3) q \<noteq> Some PG_FREE" if b: "g_blk q = wp_blk ?w" for q
    proof
      assume f: "pg_stat (ftl_ssd f3) q = Some PG_FREE"
      with stat [of q] have ne: "pg_key q \<noteq> pg_key p" and fq: "pg_stat ?s q = Some PG_FREE" by (auto split: if_splits)
      have q: "in_device ?spp q" using fq pg_stat_in_device [OF D(3), of q] by auto
      then have "wp_index ?spp ?w \<le> page_index ?spp q" using I(5) b fq by (simp add: line_progress_def)
      moreover have "page_index ?spp q < ?pgs" using page_index_stripe(1) [OF D(1) q] .
      ultimately have "page_index ?spp q = page_index ?spp p" using last page_index_wp [OF p(3), of ?spp] by simp
      with page_index_eq [OF D(1,2) q p(2)] b pblk ne show False by simp
    qed
    then show ?thesis by (auto simp: stat_keys_def)
  qed
  have "\<exists>m w'. let f4 = f3\<lparr> lm := m, gc_wp := w' \<rparr> in advance_write_pointer f3 GC_IO = Some f4 \<and> status_ok {v} f4
    \<and> wp_ok (spp_of f3) w' \<and> curline w' = Some (wp_blk w') \<and> wp_blk w' \<notin> W
    \<and> lm_inv (pgs_per_line (spp_of f3)) (insert (wp_blk w') W) m \<and> line_progress (ftl_ssd f3) w' \<and> gc_room f3 \<le> gc_room f4 + 1"
    using I lm3 fr full room3 card line_progress_next [OF D(1,2) I(4) refl fr(1) I(5) _ p(2,3) stat]
    by (intro gc_advance_pointer [OF st3 I(1)]) auto
  then obtain m w' where adv: "advance_write_pointer f3 GC_IO = Some (f3\<lparr> lm := m, gc_wp := w' \<rparr>)" (is "_ = Some ?f4")
    and st4: "status_ok {v} (f3\<lparr> lm := m, gc_wp := w' \<rparr>)"
    and w': "wp_ok ?spp w'" "curline w' = Some (wp_blk w')" "wp_blk w' \<notin> W"
    "lm_inv ?pgs (insert (wp_blk w') W) m" "line_progress (ftl_ssd f3) w'" "gc_room f3 \<le> gc_room (f3\<lparr> lm := m, gc_wp := w' \<rparr>) + 1"
    unfolding Let_def fr(1) by blast
  let ?f4 = "f3\<lparr> lm := m, gc_wp := w' \<rparr>"
  have tab: "get_maptbl_ent ?f4 = get_maptbl_ent f3" "get_rmap_ent ?f4 = get_rmap_ent f3" "rmap_legal ?f4 = rmap_legal f3"
    "get_glun ?f4 = get_glun f3"
    by (simp_all add: fun_eq_iff get_maptbl_ent_def get_rmap_ent_def ppa2pgidx_def rmap_legal_def valid_ppa_def get_glun_def)
  have same: "ftl_ssd ?f4 = ftl_ssd f3" "lunlm ?f4 = lunlm f3" by simp_all
  have "map_consistent get_maptbl_ent get_rmap_ent rmap_legal mapped_ppa f3" using f3(1) by (simp add: mapping_ok_def)
  then have "map_consistent get_maptbl_ent get_rmap_ent rmap_legal mapped_ppa ?f4"
    unfolding map_consistent_def tab .
  then have "mapping_ok ?f4" using f3(1) by (simp add: mapping_ok_def)
  moreover have "pages_owned ?M ?f4" using f3(2) unfolding pages_owned_def tab same .
  moreover have "da_spare {v} ?f4" using f3(3) unfolding da_spare_def tab same .
  moreover have "?M \<subseteq> stat_keys (ftl_ssd f3) PG_VALID (in_line v)" unfolding V using I(6) oldV by simp
  moreover have "card (stat_keys (ftl_ssd f3) PG_VALID (in_line v) - ?M) + 1 \<le> gc_room ?f4"
    unfolding V using I(7) card w'(6) room3 by simp
  ultimately have inv4: "gc_inv W v ?M ?f4"
    using st4 I(1) w' fr by (simp add: gc_inv_def)
  have sp4: "spp_of ?f4 = ?spp" "cp ?f4 = cp ftl" using fr by simp_all
  have kept4: "kept v ftl ?f4"
  proof -
    have "lpn_mapped ?f4 m \<longleftrightarrow> lpn_mapped ftl m" for m using fr(5) unfolding lpn_mapped_def tab .
    moreover have "pg_stat (ftl_ssd ?f4) q = pg_stat ?s q" if "g_blk q = v" for q
      using stat [of q] that pblk I(1,2) by (auto simp: pg_key_def)
    ultimately show ?thesis using fr by (simp add: kept_def)
  qed
  have pre: "gc_write_page b now ftl old = (if enable_gc_delay (cp ?f4) then do {
       last \<leftarrow> last_pg_in_wordline ?f4 p;
       gc_advance b now ?f4 (if last then gc_command NAND_WRITE (pgsz ?spp * pgs_per_oneshotpg ?spp) p else gc_command NAND_NOP 0 p)
     } else Some ?f4)"
    using l p(1) run adv sp4 by (simp add: gc_write_page_def valid_lpn_def Let_def)
  show ?thesis
  proof (cases "enable_gc_delay (cp ?f4)")
    case False
    then show ?thesis using pre inv4 kept4 by simp
  next
    case True
    have "last_pg_in_wordline ?f4 p = Some (g_pg p mod pgs_per_oneshotpg ?spp = pgs_per_oneshotpg ?spp - 1)"
      using oneshot_pos(1) [OF D(1) I(4)] fr(1) by (simp add: last_pg_in_wordline_def)
    moreover have dev: "in_device (spp_of ?f4) p" using p(2) fr(1) by simp
    have "\<exists>ftl'. gc_advance b now ?f4 (gc_command op len p) = Some ftl' \<and> gc_inv W v ?M ftl' \<and> kept v ftl ftl'"
      if "op = NAND_WRITE \<or> op = NAND_NOP" for op len
    proof -
      have "\<forall>n. op \<noteq> NAND_OTHER n" "op = NAND_READ \<longrightarrow> 0 < len \<and> 0 < max_ch_xfer_size (spp_of ?f4)" using that by auto
      from gc_command_ok [OF inv4 dev this, of b now] kept_trans [OF kept4] show ?thesis by blast
    qed
    ultimately show ?thesis
      using pre True by (simp split: if_splits)
  qed
qed

section \<open>Moving a flash page\<close>

text \<open>The stale pages of the victim are the valid ones already passed by the loops, described by \<open>R\<close>.\<close>

definition done_keys :: "nat \<Rightarrow> (page_key \<Rightarrow> bool) \<Rightarrow> conv_ftl \<Rightarrow> page_key set" where
  "done_keys v R ftl = stat_keys (ftl_ssd ftl) PG_VALID (\<lambda>k. in_line v k \<and> R k)"

definition run_page :: "ppa \<Rightarrow> nat \<Rightarrow> ppa" where
  "run_page p i = set_g_pg (g_pg p + i) p"

lemma run_page_fields [simp]:
  "g_ch (run_page p i) = g_ch p" "g_lun (run_page p i) = g_lun p" "g_pl (run_page p i) = g_pl p"
  "g_blk (run_page p i) = g_blk p" "g_pg p + i < 65536 \<Longrightarrow> g_pg (run_page p i) = g_pg p + i"
  by (simp_all add: run_page_def)

lemma run_page_0 [simp]: "run_page p 0 = p"
  by (simp add: run_page_def)

lemma run_page_Suc: "g_pg p + i < 65536 \<Longrightarrow> set_g_pg (g_pg (run_page p i) + 1) (run_page p i) = run_page p (Suc i)"
  by (simp add: run_page_def)

lemma stat_keys_kept: "kept v ftl ftl' \<Longrightarrow> stat_keys (ftl_ssd ftl') st (\<lambda>k. in_line v k \<and> R k) = stat_keys (ftl_ssd ftl) st (\<lambda>k. in_line v k \<and> R k)"
  by (auto simp: kept_def stat_keys_def)

lemma done_keys_valid: "done_keys v R ftl \<subseteq> stat_keys (ftl_ssd ftl) PG_VALID (in_line v)"
  by (auto simp: done_keys_def stat_keys_def)

lemma done_keys_extra:
  assumes "pg_stat (ftl_ssd ftl) q \<noteq> Some PG_VALID"
  shows "done_keys v (\<lambda>k. R k \<or> k = pg_key q) ftl = done_keys v R ftl"
proof -
  have "pg_stat (ftl_ssd ftl) x \<noteq> Some PG_VALID" if "pg_key x = pg_key q" for x
    using assms pg_stat_key [OF that] by simp
  then show ?thesis by (auto simp: done_keys_def stat_keys_def)
qed

lemma count_valid_ok:
  assumes fit: "g_pg p + pgs_per_flashpg (spp_of ftl) \<le> 65536"
    and used: "\<And>i. i < pgs_per_flashpg (spp_of ftl) \<Longrightarrow>
      \<exists>st. pg_stat (ftl_ssd ftl) (run_page p i) = Some st \<and> st \<noteq> PG_FREE"
  shows "\<exists>c. count_valid ftl p = Some c
    \<and> (c = 0 \<longrightarrow> (\<forall>i < pgs_per_flashpg (spp_of ftl). pg_stat (ftl_ssd ftl) (run_page p i) \<noteq> Some PG_VALID))"
proof -
  let ?n = "pgs_per_flashpg (spp_of ftl)"
  let ?P = "\<lambda>i (q, c :: nat). q = run_page p i \<and> (c = 0 \<longrightarrow> (\<forall>j < i. pg_stat (ftl_ssd ftl) (run_page p j) \<noteq> Some PG_VALID))"
  have "\<exists>t. foldM (\<lambda>_ (q, cnt). do {
        pg_iter \<leftarrow> get_pg (ftl_ssd ftl) q;
        nvmev_assert (pg_status pg_iter \<noteq> PG_FREE);
        Some (set_g_pg (g_pg q + 1) q, if pg_status pg_iter = PG_VALID then cnt + 1 else cnt)
      }) [0..<?n] (p, 0) = Some t \<and> ?P ?n t"
  proof (rule foldM_upto)
    fix i and s :: "ppa \<times> nat"
    assume i: "i < ?n" and P: "?P i s"
    obtain c where s: "s = (run_page p i, c)" using P by (cases s) simp
    from used [OF i] obtain pg where pg: "get_pg (ftl_ssd ftl) (run_page p i) = Some pg" "pg_status pg \<noteq> PG_FREE"
      by (auto simp: pg_stat_def)
    have "g_pg p + i < 65536" using i fit by simp
    from P pg run_page_Suc [OF this] show "\<exists>t. (case s of (q, cnt) \<Rightarrow> do {
        pg_iter \<leftarrow> get_pg (ftl_ssd ftl) q;
        nvmev_assert (pg_status pg_iter \<noteq> PG_FREE);
        Some (set_g_pg (g_pg q + 1) q, if pg_status pg_iter = PG_VALID then cnt + 1 else cnt)
      }) = Some t \<and> ?P (Suc i) t"
      by (auto simp: s pg_stat_def less_Suc_eq)
  qed simp
  then show ?thesis by (auto simp: count_valid_def)
qed

lemma move_valid_ok:
  assumes inv: "gc_inv W v (done_keys v R ftl) ftl" and b: "b \<noteq> HYBRID_SSD" and v: "g_blk p = v"
    and fit: "g_pg p + pgs_per_flashpg (spp_of ftl) \<le> 65536"
    and used: "\<And>i. i < pgs_per_flashpg (spp_of ftl) \<Longrightarrow>
      \<not> R (pg_key (run_page p i)) \<and> (\<exists>st. pg_stat (ftl_ssd ftl) (run_page p i) = Some st)"
  shows "\<exists>ftl'. move_valid b now ftl p = Some ftl' \<and> kept v ftl ftl'
    \<and> gc_inv W v (done_keys v (\<lambda>k. R k \<or> (\<exists>i < pgs_per_flashpg (spp_of ftl). k = pg_key (run_page p i))) ftl') ftl'"
proof -
  let ?n = "pgs_per_flashpg (spp_of ftl)"
  let ?R = "\<lambda>n k. R k \<or> (\<exists>i < n. k = pg_key (run_page p i))"
  let ?P = "\<lambda>i (q, f). q = run_page p i \<and> kept v ftl f \<and> gc_inv W v (done_keys v (?R i) f) f"
  let ?body = "\<lambda>_ (q, ftl). do {
        pg_iter \<leftarrow> get_pg (ftl_ssd ftl) q;
        ftl \<leftarrow> (if pg_status pg_iter = PG_VALID then gc_write_page b now ftl q else Some ftl);
        Some (set_g_pg (g_pg q + 1) q, ftl)
      }"
  have "\<exists>t. foldM ?body [0..<?n] (p, ftl) = Some t \<and> ?P ?n t"
  proof (rule foldM_upto)
    fix i and s :: "ppa \<times> conv_ftl"
    assume i: "i < ?n" and P: "?P i s"
    let ?q = "run_page p i"
    obtain f where s: "s = (?q, f)" "kept v ftl f" "gc_inv W v (done_keys v (?R i) f) f" using P by (cases s) auto
    have small: "g_pg p + i < 65536" using i fit by simp
    note nxt = run_page_Suc [OF small]
    have st: "pg_stat (ftl_ssd f) ?q = pg_stat (ftl_ssd ftl) ?q" using s(2) v by (simp add: kept_def)
    obtain pg where pg: "get_pg (ftl_ssd f) ?q = Some pg" using used [OF i] st by (auto simp: pg_stat_def)
    have new: "\<not> ?R i (pg_key ?q)"
    proof -
      have "pg_key ?q \<noteq> pg_key (run_page p j)" if "j < i" for j using that small by (simp add: pg_key_def)
      with used [OF i] show ?thesis by blast
    qed
    have grow: "?R (Suc i) k \<longleftrightarrow> ?R i k \<or> k = pg_key ?q" for k by (auto simp: less_Suc_eq)
    show "\<exists>t. ?body i s = Some t \<and> ?P (Suc i) t"
    proof (cases "pg_status pg = PG_VALID")
      case True
      then have V: "pg_stat (ftl_ssd f) ?q = Some PG_VALID" using pg by (simp add: pg_stat_def)
      have "pg_key ?q \<notin> done_keys v (?R i) f" using new by (simp add: done_keys_def in_stat_keys)
      from gc_write_page_ok [OF s(3) b V _ this] v obtain f' where f':
        "gc_write_page b now f ?q = Some f'" "gc_inv W v (insert (pg_key ?q) (done_keys v (?R i) f)) f'" "kept v f f'"
        by auto
      have "insert (pg_key ?q) (done_keys v (?R i) f) = done_keys v (?R (Suc i)) f"
        using V v unfolding done_keys_def grow by (auto simp: stat_keys_def)
      also have "\<dots> = done_keys v (?R (Suc i)) f'" unfolding done_keys_def using stat_keys_kept [OF f'(3)] by simp
      finally show ?thesis using f' pg True nxt kept_trans [OF s(2) f'(3)] by (simp add: s(1))
    next
      case False
      then have "pg_stat (ftl_ssd f) ?q \<noteq> Some PG_VALID" using pg by (simp add: pg_stat_def)
      then have "done_keys v (?R (Suc i)) f = done_keys v (?R i) f"
        unfolding grow by (rule done_keys_extra)
      with s pg False nxt show ?thesis by simp
    qed
  qed (use inv in \<open>simp add: kept_refl\<close>)
  then show ?thesis by (auto simp: move_valid_def)
qed

lemma clean_one_flashpg_ok:
  assumes inv: "gc_inv W v (done_keys v R ftl) ftl" and b: "b \<noteq> HYBRID_SSD" and v: "g_blk p = v" and p: "in_device (spp_of ftl) p"
    and fit: "g_pg p + pgs_per_flashpg (spp_of ftl) \<le> 65536" and xfer: "0 < max_ch_xfer_size (spp_of ftl)"
    and used: "\<And>i. i < pgs_per_flashpg (spp_of ftl) \<Longrightarrow>
      \<not> R (pg_key (run_page p i)) \<and> (\<exists>st. pg_stat (ftl_ssd ftl) (run_page p i) = Some st \<and> st \<noteq> PG_FREE)"
  shows "\<exists>ftl'. clean_one_flashpg b now ftl p = Some ftl' \<and> kept v ftl ftl'
    \<and> gc_inv W v (done_keys v (\<lambda>k. R k \<or> (\<exists>i < pgs_per_flashpg (spp_of ftl). k = pg_key (run_page p i))) ftl') ftl'"
proof -
  let ?R = "\<lambda>k. R k \<or> (\<exists>i < pgs_per_flashpg (spp_of ftl). k = pg_key (run_page p i))"
  obtain c where c: "count_valid ftl p = Some c"
    "c = 0 \<longrightarrow> (\<forall>i < pgs_per_flashpg (spp_of ftl). pg_stat (ftl_ssd ftl) (run_page p i) \<noteq> Some PG_VALID)"
    using count_valid_ok [OF fit] used by blast
  show ?thesis
  proof (cases "c = 0")
    case True
    then have "done_keys v ?R ftl = done_keys v R ftl"
    proof -
      have "pg_stat (ftl_ssd ftl) x \<noteq> Some PG_VALID" if "i < pgs_per_flashpg (spp_of ftl)" "pg_key x = pg_key (run_page p i)" for x i
        using c(2) True that(1) pg_stat_key [OF that(2)] by simp
      then show ?thesis by (auto simp: done_keys_def stat_keys_def)
    qed
    with c True inv show ?thesis by (auto simp: clean_one_flashpg_def kept_refl)
  next
    case False
    have "status_ok {v} ftl" using inv by (simp add: gc_inv_def)
    then have pos: "0 < pgsz (spp_of ftl) * c" using False status_okD(4) by (simp add: geometry_ok_def)
    have "\<exists>f. (if enable_gc_delay (cp ftl) then gc_advance b now ftl (gc_command NAND_READ (pgsz (spp_of ftl) * c) p)
        else Some ftl) = Some f \<and> gc_inv W v (done_keys v R f) f \<and> kept v ftl f"
    proof (cases "enable_gc_delay (cp ftl)")
      case True
      have op: "\<forall>n. NAND_READ \<noteq> NAND_OTHER n" "NAND_READ = NAND_READ \<longrightarrow> 0 < pgsz (spp_of ftl) * c \<and> 0 < max_ch_xfer_size (spp_of ftl)"
        using pos xfer by simp_all
      from gc_command_ok [OF inv p op, of b now] obtain f where
        "gc_advance b now ftl (gc_command NAND_READ (pgsz (spp_of ftl) * c) p) = Some f" "gc_inv W v (done_keys v R ftl) f" "kept v ftl f"
        by blast
      moreover from this(3) have "done_keys v R f = done_keys v R ftl" unfolding done_keys_def by (rule stat_keys_kept)
      ultimately show ?thesis using True by simp
    qed (simp add: inv kept_refl)
    then obtain f where f: "(if enable_gc_delay (cp ftl) then gc_advance b now ftl (gc_command NAND_READ (pgsz (spp_of ftl) * c) p)
        else Some ftl) = Some f" "gc_inv W v (done_keys v R f) f" "kept v ftl f" by blast
    then have same: "spp_of f = spp_of ftl" "pg_stat (ftl_ssd f) (run_page p i) = pg_stat (ftl_ssd ftl) (run_page p i)" for i
      using v by (simp_all add: kept_def)
    have "\<not> R (pg_key (run_page p i)) \<and> (\<exists>st. pg_stat (ftl_ssd f) (run_page p i) = Some st)"
      if "i < pgs_per_flashpg (spp_of f)" for i using used [of i] that same by auto
    moreover have "g_pg p + pgs_per_flashpg (spp_of f) \<le> 65536" using fit same by simp
    ultimately obtain f' where "move_valid b now f p = Some f'" "kept v f f'"
      "gc_inv W v (done_keys v ?R f') f'" using move_valid_ok [OF f(2) b v, of now] same(1) by auto
    with c(1) False f kept_trans [OF f(3)] show ?thesis by (auto simp: clean_one_flashpg_def)
  qed
qed

section \<open>Erasing a collected block\<close>

definition erased :: "ppa \<Rightarrow> conv_ftl \<Rightarrow> conv_ftl \<Rightarrow> bool" where
  "erased p ftl ftl' \<longleftrightarrow> spp_of ftl' = spp_of ftl \<and> cp ftl' = cp ftl \<and> user_wp ftl' = user_wp ftl
     \<and> (\<forall>m. lpn_mapped ftl' m \<longleftrightarrow> lpn_mapped ftl m)
     \<and> (\<forall>q. pg_stat (ftl_ssd ftl') q = (if blk_key q = blk_key p \<and> pg_stat (ftl_ssd ftl) q \<noteq> None then Some PG_FREE
          else pg_stat (ftl_ssd ftl) q))"

lemma erase_keys:
  assumes cov: "\<And>q. blk_key q = blk_key p \<Longrightarrow> pg_stat s q = Some PG_VALID \<Longrightarrow> R (pg_key q)"
    and stat: "\<And>q. pg_stat s' q = (if blk_key q = blk_key p \<and> pg_stat s q \<noteq> None then Some PG_FREE else pg_stat s q)"
  shows "stat_keys s' PG_VALID (in_line v) - stat_keys s' PG_VALID (\<lambda>k. in_line v k \<and> R k)
    = stat_keys s PG_VALID (in_line v) - stat_keys s PG_VALID (\<lambda>k. in_line v k \<and> R k)"
proof -
  have left: "stat_keys s PG_VALID (in_line v) - stat_keys s PG_VALID (\<lambda>k. in_line v k \<and> R k) = stat_keys s PG_VALID (\<lambda>k. in_line v k \<and> \<not> R k)"
    for s using in_stat_keys [of _ s PG_VALID "\<lambda>k. in_line v k \<and> R k"] by (auto simp: stat_keys_def)
  have "pg_stat s' q = Some PG_VALID \<longleftrightarrow> pg_stat s q = Some PG_VALID" if "\<not> R (pg_key q)" for q
    using cov [of q] that by (auto simp: stat)
  then have "stat_keys s' PG_VALID (\<lambda>k. in_line v k \<and> \<not> R k) = stat_keys s PG_VALID (\<lambda>k. in_line v k \<and> \<not> R k)"
    by (auto simp: stat_keys_def)
  then show ?thesis by (simp only: left)
qed

lemma gc_erase_ok:
  assumes inv: "gc_inv W v (done_keys v R ftl) ftl" and p: "in_device (spp_of ftl) p" and v: "g_blk p = v"
    and cov: "\<And>q. blk_key q = blk_key p \<Longrightarrow> pg_stat (ftl_ssd ftl) q = Some PG_VALID \<Longrightarrow> R (pg_key q)"
  shows "\<exists>s. let ftl' = ftl\<lparr> ftl_ssd := s \<rparr> in mark_block_free ftl p = Some ftl' \<and> gc_inv W v (done_keys v R ftl') ftl' \<and> erased p ftl ftl'"
proof -
  let ?s = "ftl_ssd ftl"
  have I: "status_ok {v} ftl" "mapping_ok ftl" "pages_owned (done_keys v R ftl) ftl" "v \<in> W" "wp_blk (gc_wp ftl) \<notin> W"
    "line_progress ?s (gc_wp ftl)" "da_spare {v} ftl" using inv by (simp_all add: gc_inv_def)
  have r: "blk_in_range (spp_of ftl) p" "g_blk p \<in> {v}" using p v by (simp_all add: in_device_def blk_in_range_def)
  obtain s where run: "mark_block_free ftl p = Some (ftl\<lparr> ftl_ssd := s \<rparr>)" and st: "status_ok {v} (ftl\<lparr> ftl_ssd := s \<rparr>)"
    and sp: "ssd_sp s = spp_of ftl"
    and stat: "\<And>q. pg_stat s q = (if blk_key q = blk_key p \<and> pg_stat ?s q \<noteq> None then Some PG_FREE else pg_stat ?s q)"
    using mark_block_free_ok [OF I(1) r] unfolding Let_def by blast
  let ?f = "ftl\<lparr> ftl_ssd := s \<rparr>"
  have tab: "get_rmap_ent ?f = get_rmap_ent ftl" "get_maptbl_ent ?f = get_maptbl_ent ftl"
    "rmap_legal ?f = rmap_legal ftl" "get_glun ?f = get_glun ftl"
    by (simp_all add: fun_eq_iff get_rmap_ent_def ppa2pgidx_def get_maptbl_ent_def rmap_legal_def valid_ppa_def get_glun_def sp)
  have "map_consistent get_maptbl_ent get_rmap_ent rmap_legal mapped_ppa ftl" using I(2) by (simp add: mapping_ok_def)
  then have "map_consistent get_maptbl_ent get_rmap_ent rmap_legal mapped_ppa ?f" unfolding map_consistent_def tab .
  then have m: "mapping_ok ?f" using I(2) sp by (simp add: mapping_ok_def)
  have out: "pg_stat s q = pg_stat ?s q" if "g_blk q \<noteq> v" for q using that v stat [of q] by (auto simp: blk_key_def)
  have own: "pages_owned (done_keys v R ?f) ?f"
    unfolding pages_owned_def tab
  proof (intro conjI allI impI; elim conjE)
    fix k q
    assume k: "get_maptbl_ent ftl k = Some q" "mapped_ppa q"
    with I(3) have q: "pg_stat ?s q = Some PG_VALID" "pg_key q \<notin> done_keys v R ftl" unfolding pages_owned_def by blast+
    then have "blk_key q \<noteq> blk_key p" using cov [of q] v by (auto simp: done_keys_def in_stat_keys blk_key_def)
    with q stat [of q] show "pg_stat (ftl_ssd ?f) q = Some PG_VALID" "pg_key q \<notin> done_keys v R ?f"
      by (simp_all add: done_keys_def in_stat_keys)
  next
    fix q
    assume "pg_stat (ftl_ssd ?f) q = Some PG_VALID" "pg_key q \<notin> done_keys v R ?f"
    then have "pg_stat ?s q = Some PG_VALID" "pg_key q \<notin> done_keys v R ftl"
      using stat [of q] by (auto simp: done_keys_def in_stat_keys split: if_splits)
    with I(3) show "\<exists>m r. get_rmap_ent ftl q = Some m \<and> m < tt_pgs (spp_of ?f) \<and> get_maptbl_ent ftl m = Some r
        \<and> mapped_ppa r \<and> pg_key r = pg_key q" using sp by (simp add: pages_owned_def)
  qed
  have "line_progress s (gc_wp ftl)"
  proof -
    have "pg_stat s q = pg_stat ?s q" if "g_blk q = wp_blk (gc_wp ftl)" for q
      using that I(4,5) out by metis
    with I(6) show ?thesis by (simp add: line_progress_def sp)
  qed
  moreover have "stat_keys s PG_FREE (in_blk (blk_key q)) = stat_keys ?s PG_FREE (in_blk (blk_key q))" if "g_blk q \<noteq> v" for q
  proof -
    have "pg_stat s x = pg_stat ?s x" if "blk_key x = blk_key q" for x
      using that \<open>g_blk q \<noteq> v\<close> out by (simp add: blk_key_def)
    then show ?thesis by (auto simp: stat_keys_def)
  qed
  then have "da_spare {v} ?f" using I(7) unfolding da_spare_def tab by (simp add: sp)
  moreover have "gc_room ?f = gc_room ftl" by (simp add: gc_room_def sp)
  moreover have "stat_keys s PG_VALID (in_line v) - done_keys v R ?f = stat_keys ?s PG_VALID (in_line v) - done_keys v R ftl"
    using erase_keys [where R = R, OF cov stat] by (simp add: done_keys_def)
  moreover have "done_keys v R ?f \<subseteq> stat_keys s PG_VALID (in_line v)" by (auto simp: done_keys_def stat_keys_def)
  ultimately have "gc_inv W v (done_keys v R ?f) ?f"
    using inv st m own by (simp add: gc_inv_def sp)
  moreover have "erased p ftl ?f"
    using stat by (simp add: erased_def sp lpn_mapped_def get_maptbl_ent_def)
  ultimately show ?thesis using run unfolding Let_def by blast
qed

lemma gc_finish_lun_ok:
  assumes inv: "gc_inv W v (done_keys v R ftl) ftl" and p: "in_device (spp_of ftl) p" and v: "g_blk p = v"
    and cov: "\<And>q. blk_key q = blk_key p \<Longrightarrow> pg_stat (ftl_ssd ftl) q = Some PG_VALID \<Longrightarrow> R (pg_key q)"
  shows "\<exists>ftl'. gc_finish_lun b now ftl p = Some ftl' \<and> gc_inv W v (done_keys v R ftl') ftl' \<and> erased p ftl ftl'"
proof -
  obtain f where f: "mark_block_free ftl p = Some f" "gc_inv W v (done_keys v R f) f" "erased p ftl f"
    using gc_erase_ok [OF inv p v cov] unfolding Let_def by blast
  have same: "gc_inv W v (done_keys v R (f\<lparr> ftl_ssd := s \<rparr>)) (f\<lparr> ftl_ssd := s \<rparr>) \<and> erased p ftl (f\<lparr> ftl_ssd := s \<rparr>)"
    if d: "same_data (ftl_ssd f) s" "ssd_usable s" for s
    using gc_inv_same_data [OF f(2) d] f(3) same_data_get(4) [OF d(1)] same_data_stat_keys [OF d(1)] same_data_pg_stat [OF d(1)]
    by (simp add: done_keys_def erased_def lpn_mapped_def get_maptbl_ent_def)
  have dev: "in_device (spp_of f) p" using f(3) p by (simp add: erased_def)
  have st: "status_ok {v} f" using f(2) by (simp add: gc_inv_def)
  have "\<exists>s. (if enable_gc_delay (cp f) then gc_advance b now f (gc_command NAND_ERASE 0 p) else Some f) = Some (f\<lparr> ftl_ssd := s \<rparr>)
      \<and> same_data (ftl_ssd f) s \<and> ssd_usable s"
  proof (cases "enable_gc_delay (cp f)")
    case True
    have c: "in_device (spp_of f) (nand_ppa (gc_command NAND_ERASE 0 p))" "\<forall>n. cmd (gc_command NAND_ERASE 0 p) \<noteq> NAND_OTHER n"
      "cmd (gc_command NAND_ERASE 0 p) = NAND_READ \<longrightarrow> 0 < xfer_size (gc_command NAND_ERASE 0 p) \<and> 0 < max_ch_xfer_size (spp_of f)"
      using dev by (simp_all add: gc_command_def)
    from gc_advance_ok [OF st c] True show ?thesis by auto
  next
    case False
    with status_okD(6) [OF st] show ?thesis by (intro exI [of _ "ftl_ssd f"]) simp
  qed
  then obtain s where s: "(if enable_gc_delay (cp f) then gc_advance b now f (gc_command NAND_ERASE 0 p) else Some f) = Some (f\<lparr> ftl_ssd := s \<rparr>)"
    "same_data (ftl_ssd f) s" "ssd_usable s" by blast
  have "get_lun (ftl_ssd f) p \<noteq> None" using ssd_shape_get_lun [OF status_okD(1) [OF st], of p] dev by (auto simp: in_device_def)
  then obtain lun where lun: "get_lun s p = Some lun" using same_data_lun [OF s(2), of p] by auto
  then obtain s' where s': "set_lun s p (lun\<lparr> lun_gc_endtime := next_lun_avail_time lun \<rparr>) = Some s'"
    using lun_cells.put_defined by blast
  have d: "same_data (ftl_ssd f) s'" using same_data_trans [OF s(2) set_lun_same_data [OF s' lun]] by simp
  have u: "ssd_usable s'" using ssd_usable_set_lun [OF s(3) s'] .
  have "gc_finish_lun b now ftl p = Some (f\<lparr> ftl_ssd := s' \<rparr>)"
    using f(1) s(1) lun s' by (simp add: gc_finish_lun_def)
  with same [OF d u] show ?thesis by blast
qed

section \<open>The loops over the victim line\<close>

text \<open>
  The loops visit the flash pages of the line in the order flash page, channel, LUN.
  \<open>passed n f c l\<close> holds of the pages visited before flash page \<open>f\<close> of LUN \<open>l\<close> of channel \<open>c\<close>, with
  \<open>n\<close> pages in a flash page. A block is erased once its last page is passed.
\<close>

definition passed :: "nat \<Rightarrow> nat \<Rightarrow> nat \<Rightarrow> nat \<Rightarrow> page_key \<Rightarrow> bool" where
  "passed n f c l k \<longleftrightarrow> (case k of (c', l', _, _, g) \<Rightarrow> g div n < f \<or> g div n = f \<and> (c' < c \<or> c' = c \<and> l' < l))"

definition last_key :: "ssdparams \<Rightarrow> ppa \<Rightarrow> page_key" where
  "last_key spp p = (g_ch p, g_lun p, g_pl p, g_blk p, pgs_per_blk spp - 1)"

definition same_frame :: "conv_ftl \<Rightarrow> conv_ftl \<Rightarrow> bool" where
  "same_frame ftl ftl' \<longleftrightarrow> spp_of ftl' = spp_of ftl \<and> cp ftl' = cp ftl \<and> user_wp ftl' = user_wp ftl
     \<and> (\<forall>m. lpn_mapped ftl' m \<longleftrightarrow> lpn_mapped ftl m)"

definition gc_at :: "nat set \<Rightarrow> nat \<Rightarrow> conv_ftl \<Rightarrow> nat \<Rightarrow> nat \<Rightarrow> nat \<Rightarrow> conv_ftl \<Rightarrow> bool" where
  "gc_at W v ftl0 f c l ftl \<longleftrightarrow> same_frame ftl0 ftl
     \<and> gc_inv W v (done_keys v (passed (pgs_per_flashpg (spp_of ftl0)) f c l) ftl) ftl
     \<and> (\<forall>q. in_device (spp_of ftl0) q \<and> g_blk q = v \<longrightarrow>
          (pg_stat (ftl_ssd ftl) q = Some PG_FREE \<longleftrightarrow> passed (pgs_per_flashpg (spp_of ftl0)) f c l (last_key (spp_of ftl0) q)))"

lemma same_frame_step: "same_frame a b \<Longrightarrow> kept v b c \<Longrightarrow> same_frame a c"
  "same_frame a b \<Longrightarrow> erased p b c \<Longrightarrow> same_frame a c"
  by (simp_all add: same_frame_def kept_def erased_def)

lemma done_keys_cong:
  assumes "ssd_shape (ftl_ssd ftl)"
    and "\<And>q. in_device (spp_of ftl) q \<Longrightarrow> g_blk q = v \<Longrightarrow> R (pg_key q) \<longleftrightarrow> R' (pg_key q)"
  shows "done_keys v R ftl = done_keys v R' ftl"
proof -
  have "R (pg_key q) \<longleftrightarrow> R' (pg_key q)" if "pg_stat (ftl_ssd ftl) q = Some PG_VALID" "g_blk q = v" for q
    using assms(2) pg_stat_in_device [OF assms(1), of q] that by auto
  then show ?thesis by (auto simp: done_keys_def stat_keys_def)
qed

lemma gc_invD: "gc_inv W v M ftl \<Longrightarrow> ssd_shape (ftl_ssd ftl) \<and> fields_fit (spp_of ftl) \<and> pls_per_lun (spp_of ftl) = 1 \<and> geometry_ok (spp_of ftl)"
  using status_okD [of "{v}" ftl] by (simp add: gc_inv_def)

text \<open>Moving to the next channel, and to the next flash page, changes nothing.\<close>

lemma gc_at_cong:
  assumes "gc_at W v ftl0 f c l ftl"
    and "\<And>q g. in_device (spp_of ftl0) q \<Longrightarrow> passed (pgs_per_flashpg (spp_of ftl0)) f c l (g_ch q, g_lun q, g_pl q, g_blk q, g)
        \<longleftrightarrow> passed (pgs_per_flashpg (spp_of ftl0)) f' c' l' (g_ch q, g_lun q, g_pl q, g_blk q, g)"
  shows "gc_at W v ftl0 f' c' l' ftl"
proof -
  let ?n = "pgs_per_flashpg (spp_of ftl0)"
  have A: "same_frame ftl0 ftl" "gc_inv W v (done_keys v (passed ?n f c l) ftl) ftl" using assms(1) by (simp_all add: gc_at_def)
  then have "done_keys v (passed ?n f c l) ftl = done_keys v (passed ?n f' c' l') ftl"
    using assms(2) gc_invD [OF A(2)] by (intro done_keys_cong) (auto simp: same_frame_def pg_key_def)
  moreover have "passed ?n f c l (last_key (spp_of ftl0) q) \<longleftrightarrow> passed ?n f' c' l' (last_key (spp_of ftl0) q)"
    if "in_device (spp_of ftl0) q" for q unfolding last_key_def by (rule assms(2) [OF that])
  ultimately show ?thesis using assms(1) by (simp add: gc_at_def)
qed

lemma gc_at_next_ch: "gc_at W v ftl0 f c (luns_per_ch (spp_of ftl0)) ftl \<Longrightarrow> gc_at W v ftl0 f (Suc c) 0 ftl"
  by (erule gc_at_cong) (auto simp: passed_def in_device_def)

lemma gc_at_next_flashpg: "gc_at W v ftl0 f (nchs (spp_of ftl0)) 0 ftl \<Longrightarrow> gc_at W v ftl0 (Suc f) 0 0 ftl"
  by (erule gc_at_cong) (auto simp: passed_def in_device_def)

lemma gc_lun_step_ok:
  assumes at: "gc_at W v ftl0 f c l ftl" and b: "b \<noteq> HYBRID_SSD" and xfer: "0 < max_ch_xfer_size (spp_of ftl0)"
    and split: "flashpgs_per_blk (spp_of ftl0) * pgs_per_flashpg (spp_of ftl0) = pgs_per_blk (spp_of ftl0)"
    and p: "g_blk p = v" "g_pg p = f * pgs_per_flashpg (spp_of ftl0)" and v: "v < blks_per_pl (spp_of ftl0)"
    and f: "f < flashpgs_per_blk (spp_of ftl0)" and c: "c < nchs (spp_of ftl0)" and l: "l < luns_per_ch (spp_of ftl0)"
    and n: "0 < pgs_per_flashpg (spp_of ftl0)"
  shows "\<exists>p' ftl'. gc_lun_step b now f c l (p, ftl) = Some (p', ftl') \<and> gc_at W v ftl0 f c (Suc l) ftl'
    \<and> g_blk p' = v \<and> g_pg p' = f * pgs_per_flashpg (spp_of ftl0)"
proof -
  let ?spp = "spp_of ftl0" and ?n = "pgs_per_flashpg (spp_of ftl0)" and ?F = "flashpgs_per_blk (spp_of ftl0)"
  let ?p = "set_g_pl 0 (set_g_lun l (set_g_ch c p))" and ?R = "passed ?n f c"
  have A: "same_frame ftl0 ftl" "gc_inv W v (done_keys v (?R l) ftl) ftl" and sp: "spp_of ftl = ?spp"
    and free: "\<And>q. in_device ?spp q \<Longrightarrow> g_blk q = v \<Longrightarrow>
      pg_stat (ftl_ssd ftl) q = Some PG_FREE \<longleftrightarrow> ?R l (last_key ?spp q)"
    using at by (auto simp: gc_at_def same_frame_def)
  have D: "ssd_shape (ftl_ssd ftl)" "fields_fit ?spp" "pls_per_lun ?spp = 1" using gc_invD [OF A(2)] sp by simp_all
  have top: "f * ?n + ?n \<le> pgs_per_blk ?spp" using f mult_le_mono1 [of "Suc f" ?F ?n] split by simp
  have small: "c < 256" "l < 256" "f * ?n + ?n \<le> 65536" using D(2) c l top by (simp_all add: fields_fit_def)
  have P: "g_ch ?p = c" "g_lun ?p = l" "g_pl ?p = 0" "g_blk ?p = v" "g_pg ?p = f * ?n" using small p by simp_all
  have run: "pg_key (run_page ?p i) = (c, l, 0, v, f * ?n + i)" "in_device ?spp (run_page ?p i)" if "i < ?n" for i
    using that P small top c l v D(3) by (simp_all add: pg_key_def in_device_def)
  have dev: "in_device ?spp ?p" using run(2) [OF n] n P c l v D(3) top by (simp add: in_device_def)
  have last: "(pgs_per_blk ?spp - 1) div ?n = ?F - 1"
  proof -
    have "pgs_per_blk ?spp - 1 = (?F - 1) * ?n + (?n - 1)" using f n split [symmetric] by (cases ?F) simp_all
    then show ?thesis using n by (simp only: div_mult_self3) simp
  qed
  have used: "\<not> ?R l (pg_key (run_page ?p i)) \<and> (\<exists>st. pg_stat (ftl_ssd ftl) (run_page ?p i) = Some st \<and> st \<noteq> PG_FREE)"
    if i: "i < ?n" for i
  proof -
    have "\<not> ?R l (last_key ?spp (run_page ?p i))" using P last f by (auto simp: passed_def last_key_def)
    then have "pg_stat (ftl_ssd ftl) (run_page ?p i) \<noteq> Some PG_FREE" using free [OF run(2) [OF i]] P by simp
    moreover have "pg_stat (ftl_ssd ftl) (run_page ?p i) \<noteq> None" using pg_stat_in_device [OF D(1)] run(2) [OF i] sp by simp
    moreover have "\<not> ?R l (pg_key (run_page ?p i))" using i by (simp add: run passed_def)
    ultimately show ?thesis by auto
  qed
  obtain f1 where f1: "clean_one_flashpg b now ftl ?p = Some f1" "kept v ftl f1"
    "gc_inv W v (done_keys v (\<lambda>k. ?R l k \<or> (\<exists>i < ?n. k = pg_key (run_page ?p i))) f1) f1"
    using clean_one_flashpg_ok [OF A(2) b P(4), where now = now] used dev small(3) xfer sp P(5) by auto
  have fr: "same_frame ftl0 f1" using same_frame_step(1) [OF A(1) f1(2)] .
  then have sp1: "spp_of f1 = ?spp" by (simp add: same_frame_def)
  have grow: "?R (Suc l) k \<longleftrightarrow> ?R l k \<or> (case k of (c', l', _, _, g) \<Rightarrow> g div ?n = f \<and> c' = c \<and> l' = l)" for k
    by (auto simp: passed_def less_Suc_eq split: prod.splits)
  have "done_keys v (\<lambda>k. ?R l k \<or> (\<exists>i < ?n. k = pg_key (run_page ?p i))) f1 = done_keys v (?R (Suc l)) f1"
  proof (rule done_keys_cong)
    fix q
    assume q: "in_device (spp_of f1) q" "g_blk q = v"
    have "(\<exists>i < ?n. pg_key q = pg_key (run_page ?p i)) \<longleftrightarrow> g_pg q div ?n = f \<and> g_ch q = c \<and> g_lun q = l"
    proof
      assume "\<exists>i < ?n. pg_key q = pg_key (run_page ?p i)"
      then obtain i where "i < ?n" "pg_key q = (c, l, 0, v, f * ?n + i)" by (auto simp: run)
      then show "g_pg q div ?n = f \<and> g_ch q = c \<and> g_lun q = l" using n by (simp add: pg_key_def)
    next
      assume k: "g_pg q div ?n = f \<and> g_ch q = c \<and> g_lun q = l"
      then have "g_pg q = f * ?n + g_pg q mod ?n" by auto
      with k q sp1 D(3) n show "\<exists>i < ?n. pg_key q = pg_key (run_page ?p i)"
        by (intro exI [of _ "g_pg q mod ?n"]) (simp add: run, simp add: pg_key_def in_device_def)
    qed
    then show "(?R l (pg_key q) \<or> (\<exists>i < ?n. pg_key q = pg_key (run_page ?p i))) \<longleftrightarrow> ?R (Suc l) (pg_key q)"
      by (simp add: grow pg_key_def)
  qed (use gc_invD [OF f1(3)] in blast)
  with f1(3) have inv1: "gc_inv W v (done_keys v (?R (Suc l)) f1) f1" by simp
  have lun: "get_lun (ftl_ssd ftl) ?p \<noteq> None" using ssd_shape_get_lun [OF D(1), of ?p] dev sp by (auto simp: in_device_def)
  have stat1: "pg_stat (ftl_ssd f1) q = pg_stat (ftl_ssd ftl) q" if "g_blk q = v" for q using f1(2) that by (simp add: kept_def)
  show ?thesis
  proof (cases "f + 1 = ?F")
    case False
    have "?R (Suc l) (last_key ?spp q) = ?R l (last_key ?spp q)" for q
      using False f last by (auto simp: passed_def last_key_def)
    then have "gc_at W v ftl0 f c (Suc l) f1"
      using inv1 fr free stat1 by (simp add: gc_at_def)
    then show ?thesis using f1(1) lun False sp1 P by (auto simp: gc_lun_step_def)
  next
    case True
    have "?R (Suc l) (pg_key q)" if q: "blk_key q = blk_key ?p" "pg_stat (ftl_ssd f1) q = Some PG_VALID" for q
    proof -
      have "g_pg q < pgs_per_blk ?spp" using pg_stat_in_device [of "ftl_ssd f1" q] gc_invD [OF inv1] q(2) sp1
        by (auto simp: in_device_def)
      then have "g_pg q div ?n < ?F" using split n by (simp add: less_mult_imp_div_less)
      with True q(1) P show ?thesis by (auto simp: passed_def pg_key_def blk_key_def)
    qed
    then obtain f2 where f2: "gc_finish_lun b now f1 ?p = Some f2" "gc_inv W v (done_keys v (?R (Suc l)) f2) f2" "erased ?p f1 f2"
      using gc_finish_lun_ok [OF inv1, of ?p] dev sp1 P(4) by metis
    have "pg_stat (ftl_ssd f2) q = Some PG_FREE \<longleftrightarrow> ?R (Suc l) (last_key ?spp q)" if q: "in_device ?spp q" "g_blk q = v" for q
    proof -
      have "pg_stat (ftl_ssd f1) q \<noteq> None" using pg_stat_in_device [of "ftl_ssd f1" q] gc_invD [OF inv1] q sp1 by auto
      then have "pg_stat (ftl_ssd f2) q = Some PG_FREE \<longleftrightarrow> blk_key q = blk_key ?p \<or> ?R l (last_key ?spp q)"
        using f2(3) stat1 free q by (simp add: erased_def)
      moreover have "blk_key q = blk_key ?p \<longleftrightarrow> g_ch q = c \<and> g_lun q = l" using P q D(3) by (auto simp: blk_key_def in_device_def)
      ultimately show ?thesis using True last by (auto simp: grow last_key_def)
    qed
    then have "gc_at W v ftl0 f c (Suc l) f2"
      using f2 same_frame_step(2) [OF fr f2(3)] by (simp add: gc_at_def)
    then show ?thesis using f1(1) f2(1) lun True sp1 P by (auto simp: gc_lun_step_def)
  qed
qed

lemma gc_flashpg_ok:
  assumes at: "gc_at W v ftl0 f 0 0 ftl" and b: "b \<noteq> HYBRID_SSD" and xfer: "0 < max_ch_xfer_size (spp_of ftl0)"
    and split: "flashpgs_per_blk (spp_of ftl0) * pgs_per_flashpg (spp_of ftl0) = pgs_per_blk (spp_of ftl0)"
    and p: "g_blk p = v" "g_pg p = f * pgs_per_flashpg (spp_of ftl0)" and v: "v < blks_per_pl (spp_of ftl0)"
    and f: "f < flashpgs_per_blk (spp_of ftl0)" and n: "0 < pgs_per_flashpg (spp_of ftl0)"
  shows "\<exists>t. foldM (\<lambda>ch st. foldM (\<lambda>lun st. gc_lun_step b now f ch lun st) [0..<luns_per_ch (spp_of ftl0)] st)
      [0..<nchs (spp_of ftl0)] (p, ftl) = Some t \<and> (case t of (p', ftl') \<Rightarrow> gc_at W v ftl0 (Suc f) 0 0 ftl' \<and> g_blk p' = v)"
proof -
  let ?Q = "\<lambda>c l (p, ftl). gc_at W v ftl0 f c l ftl \<and> g_blk p = v \<and> g_pg p = f * pgs_per_flashpg (spp_of ftl0)"
  have inner: "\<exists>t. foldM (\<lambda>lun st. gc_lun_step b now f c lun st) [0..<luns_per_ch (spp_of ftl0)] s = Some t
      \<and> ?Q c (luns_per_ch (spp_of ftl0)) t" if c: "c < nchs (spp_of ftl0)" and s: "?Q c 0 s" for c s
  proof (rule foldM_upto)
    show "?Q c 0 s" using s .
    fix l s
    assume l: "l < luns_per_ch (spp_of ftl0)" and Q: "?Q c l s"
    obtain p ftl where s': "s = (p, ftl)" by (cases s)
    from gc_lun_step_ok [OF _ b xfer split _ _ v f c l n, of W ftl p now] Q
    show "\<exists>t. gc_lun_step b now f c l s = Some t \<and> ?Q c (Suc l) t" by (auto simp: s')
  qed
  have "\<exists>t. foldM (\<lambda>ch st. foldM (\<lambda>lun st. gc_lun_step b now f ch lun st) [0..<luns_per_ch (spp_of ftl0)] st)
      [0..<nchs (spp_of ftl0)] (p, ftl) = Some t \<and> ?Q (nchs (spp_of ftl0)) 0 t"
  proof (rule foldM_upto)
    show "?Q 0 0 (p, ftl)" using at p by simp
    fix c s
    assume "c < nchs (spp_of ftl0)" "?Q c 0 s"
    from inner [OF this] obtain t where t: "foldM (\<lambda>lun st. gc_lun_step b now f c lun st) [0..<luns_per_ch (spp_of ftl0)] s = Some t"
      "?Q c (luns_per_ch (spp_of ftl0)) t" by blast
    with gc_at_next_ch show "\<exists>t. foldM (\<lambda>lun st. gc_lun_step b now f c lun st) [0..<luns_per_ch (spp_of ftl0)] s = Some t
      \<and> ?Q (Suc c) 0 t" by (auto split: prod.splits)
  qed
  with gc_at_next_flashpg show ?thesis by (auto split: prod.splits)
qed

lemma gc_line_ok:
  assumes at: "gc_at W v ftl0 0 0 0 ftl" and b: "b \<noteq> HYBRID_SSD" and xfer: "0 < max_ch_xfer_size (spp_of ftl0)"
    and split: "flashpgs_per_blk (spp_of ftl0) * pgs_per_flashpg (spp_of ftl0) = pgs_per_blk (spp_of ftl0)"
    and p: "g_blk p = v" and v: "v < blks_per_pl (spp_of ftl0)" and pos: "0 < pgs_per_blk (spp_of ftl0)" and fit: "pgs_per_blk (spp_of ftl0) \<le> 65536"
  shows "\<exists>t. foldM (\<lambda>flashpg (p, ftl).
      let p = set_g_pg (flashpg * pgs_per_flashpg (spp_of ftl0)) p
      in foldM (\<lambda>ch st. foldM (\<lambda>lun st. gc_lun_step b now flashpg ch lun st) [0..<luns_per_ch (spp_of ftl0)] st)
           [0..<nchs (spp_of ftl0)] (p, ftl)) [0..<flashpgs_per_blk (spp_of ftl0)] (p, ftl) = Some t
    \<and> (case t of (p', ftl') \<Rightarrow> gc_at W v ftl0 (flashpgs_per_blk (spp_of ftl0)) 0 0 ftl' \<and> g_blk p' = v)"
proof (rule foldM_upto)
  let ?n = "pgs_per_flashpg (spp_of ftl0)" and ?F = "flashpgs_per_blk (spp_of ftl0)"
  have n: "0 < ?n" using split pos by (cases ?n) auto
  fix f and s :: "ppa \<times> conv_ftl"
  assume f: "f < ?F" and Q: "case s of (p', ftl') \<Rightarrow> gc_at W v ftl0 f 0 0 ftl' \<and> g_blk p' = v"
  obtain p' ftl' where s: "s = (p', ftl')" by (cases s)
  have "f * ?n < pgs_per_blk (spp_of ftl0)" using f n unfolding split [symmetric] by simp
  then have "g_blk (set_g_pg (f * ?n) p') = v" "g_pg (set_g_pg (f * ?n) p') = f * ?n" using Q s fit by simp_all
  from gc_flashpg_ok [OF _ b xfer split this v f n, of W ftl' now] Q
  show "\<exists>t. (case s of (p, ftl) \<Rightarrow> let p = set_g_pg (f * ?n) p
      in foldM (\<lambda>ch st. foldM (\<lambda>lun st. gc_lun_step b now f ch lun st) [0..<luns_per_ch (spp_of ftl0)] st)
           [0..<nchs (spp_of ftl0)] (p, ftl)) = Some t
    \<and> (case t of (p', ftl') \<Rightarrow> gc_at W v ftl0 (Suc f) 0 0 ftl' \<and> g_blk p' = v)" by (simp add: s Let_def)
qed (use at p in simp)

text \<open>
  What the collector may start from: exact accounting, consistent tables, a collector's pointer in
  the middle of its line, victims without free pages, and a free line to continue on.
\<close>

definition gc_ready :: "nat set \<Rightarrow> conv_ftl \<Rightarrow> bool" where
  "gc_ready W ftl \<longleftrightarrow> status_ok {} ftl \<and> mapping_ok ftl \<and> pages_owned {} ftl
     \<and> wp_blk (gc_wp ftl) \<notin> W \<and> curline (gc_wp ftl) = Some (wp_blk (gc_wp ftl))
     \<and> wp_ok (spp_of ftl) (gc_wp ftl) \<and> line_progress (ftl_ssd ftl) (gc_wp ftl)
     \<and> lm_inv (pgs_per_line (spp_of ftl)) (insert (wp_blk (gc_wp ftl)) W) (lm ftl) \<and> da_spare {} ftl
     \<and> (\<forall>l \<in> victims (lm ftl). stat_keys (ftl_ssd ftl) PG_FREE (in_line l) = {}) \<and> free_line_list (lm ftl) \<noteq> []
     \<and> 0 < max_ch_xfer_size (spp_of ftl)
     \<and> flashpgs_per_blk (spp_of ftl) * pgs_per_flashpg (spp_of ftl) = pgs_per_blk (spp_of ftl)"

lemma gc_start:
  assumes r: "gc_ready W ftl" and v: "v \<in> victims (lm ftl)"
    and m: "lm_inv (pgs_per_line (spp_of ftl)) (insert v (insert (wp_blk (gc_wp ftl)) W)) m" "same_lines (lines (lm ftl)) (lines m)"
    "free_line_list m = free_line_list (lm ftl)" and vn: "v \<notin> insert (wp_blk (gc_wp ftl)) W"
  shows "gc_at (insert v W) v (ftl\<lparr> lm := m, wfc := x \<rparr>) 0 0 0 (ftl\<lparr> lm := m, wfc := x \<rparr>)"
proof -
  let ?f = "ftl\<lparr> lm := m, wfc := x \<rparr>" and ?s = "ftl_ssd ftl" and ?pgs = "pgs_per_line (spp_of ftl)"
  have R: "status_ok {} ftl" "mapping_ok ftl" "pages_owned {} ftl" "curline (gc_wp ftl) = Some (wp_blk (gc_wp ftl))"
    "wp_ok (spp_of ftl) (gc_wp ftl)" "line_progress ?s (gc_wp ftl)" "da_spare {} ftl" "free_line_list (lm ftl) \<noteq> []"
    "stat_keys ?s PG_FREE (in_line v) = {}" "wp_blk (gc_wp ftl) \<notin> W"
    using r v by (auto simp: gc_ready_def)
  note D = status_okD [OF R(1)]
  have tab: "get_maptbl_ent ?f = get_maptbl_ent ftl" "get_rmap_ent ?f = get_rmap_ent ftl" "rmap_legal ?f = rmap_legal ftl"
    "get_glun ?f = get_glun ftl"
    by (simp_all add: fun_eq_iff get_maptbl_ent_def get_rmap_ent_def ppa2pgidx_def rmap_legal_def valid_ppa_def get_glun_def)
  have same: "ftl_ssd ?f = ftl_ssd ftl" "lunlm ?f = lunlm ftl" by simp_all
  have none: "done_keys v (passed n 0 0 0) ?f = {}" for n by (auto simp: done_keys_def stat_keys_def passed_def)
  have st: "status_ok {v} ?f"
    using R(1) m(2) by (auto simp: status_ok_def line_counts_ok_def same_lines_iff)
  have "map_consistent get_maptbl_ent get_rmap_ent rmap_legal mapped_ppa ftl" using R(2) by (simp add: mapping_ok_def)
  then have "map_consistent get_maptbl_ent get_rmap_ent rmap_legal mapped_ppa ?f" unfolding map_consistent_def tab .
  then have map: "mapping_ok ?f" using R(2) by (simp add: mapping_ok_def)
  have own: "pages_owned {} ?f" using R(3) unfolding pages_owned_def tab same .
  have "da_spare {v} ftl" using R(7) by (simp add: da_spare_def)
  then have da: "da_spare {v} ?f" unfolding da_spare_def tab same .
  have blk: "v < blks_per_pl (spp_of ftl)" using v r D(9) by (auto simp: gc_ready_def lm_inv_def lm_partition_def)
  have "card (stat_keys ?s PG_VALID (in_line v)) \<le> ?pgs" using line_pages_sum [OF R(1) blk] by simp
  moreover have "wp_index (spp_of ftl) (gc_wp ftl) < ?pgs" using wp_index_bound [OF D(4) R(5)] .
  moreover have "?pgs \<le> ?pgs * length (free_line_list m)" using R(8) m(3) by (cases "free_line_list (lm ftl)") simp_all
  moreover have "gc_room ?f = ?pgs - wp_index (spp_of ftl) (gc_wp ftl) + ?pgs * length (free_line_list m)" by (simp add: gc_room_def)
  ultimately have room: "card (stat_keys ?s PG_VALID (in_line v)) + 1 \<le> gc_room ?f" by linarith
  have "pg_stat ?s q \<noteq> Some PG_FREE" if "g_blk q = v" for q
    using R(9) that in_stat_keys [of q ?s PG_FREE "in_line v"] by simp
  then have "\<forall>q. in_device (spp_of ?f) q \<and> g_blk q = v \<longrightarrow> (pg_stat (ftl_ssd ?f) q = Some PG_FREE \<longleftrightarrow>
      passed (pgs_per_flashpg (spp_of ?f)) 0 0 0 (last_key (spp_of ?f) q))" by (simp add: passed_def last_key_def)
  moreover have "gc_inv (insert v W) v {} ?f"
    using st map own da room R m(1) vn by (simp add: gc_inv_def insert_commute)
  ultimately show ?thesis by (simp add: gc_at_def none same_frame_def)
qed

lemma mark_line_free_end:
  assumes at: "gc_at W v ftl0 (flashpgs_per_blk (spp_of ftl0)) 0 0 ftl" and p: "g_blk p = v"
    and split: "flashpgs_per_blk (spp_of ftl0) * pgs_per_flashpg (spp_of ftl0) = pgs_per_blk (spp_of ftl0)"
    and pos: "0 < pgs_per_blk (spp_of ftl0)"
  shows "\<exists>ftl'. mark_line_free ftl p = Some ftl' \<and> status_ok {} ftl' \<and> mapping_ok ftl' \<and> pages_owned {} ftl'
    \<and> (\<forall>m. lpn_mapped ftl' m \<longleftrightarrow> lpn_mapped ftl0 m) \<and> user_wp ftl' = user_wp ftl0 \<and> spp_of ftl' = spp_of ftl0
    \<and> stat_keys (ftl_ssd ftl') PG_VALID (in_line v) = {}
    \<and> lm_inv (pgs_per_line (spp_of ftl0)) (insert (wp_blk (gc_wp ftl')) W - {v}) (lm ftl') \<and> v \<in> set (free_line_list (lm ftl'))
    \<and> wp_blk (gc_wp ftl') \<noteq> v"
proof -
  let ?s = "ftl_ssd ftl" and ?n = "pgs_per_flashpg (spp_of ftl0)" and ?F = "flashpgs_per_blk (spp_of ftl0)"
  have fr: "same_frame ftl0 ftl" and inv: "gc_inv W v (done_keys v (passed ?n ?F 0 0) ftl) ftl"
    and free: "\<And>q. in_device (spp_of ftl0) q \<Longrightarrow> g_blk q = v \<Longrightarrow>
      pg_stat ?s q = Some PG_FREE \<longleftrightarrow> passed ?n ?F 0 0 (last_key (spp_of ftl0) q)"
    using at by (auto simp: gc_at_def)
  have sp: "spp_of ftl = spp_of ftl0" using fr by (simp add: same_frame_def)
  have I: "status_ok {v} ftl" "mapping_ok ftl" "pages_owned (done_keys v (passed ?n ?F 0 0) ftl) ftl" "v \<in> W"
    "wp_blk (gc_wp ftl) \<notin> W" "lm_inv (pgs_per_line (spp_of ftl0)) (insert (wp_blk (gc_wp ftl)) W) (lm ftl)"
    using inv sp by (simp_all add: gc_inv_def)
  note D = status_okD [OF I(1)]
  have "(pgs_per_blk (spp_of ftl0) - 1) div ?n < ?F"
    using split pos by (metis diff_less less_mult_imp_div_less less_one)
  then have "pg_stat ?s q = Some PG_FREE" if "pg_stat ?s q = Some st" "g_blk q = v" for q st
    using free [of q] pg_stat_in_device [OF D(1), of q] that sp by (simp add: passed_def last_key_def)
  then have clean: "stat_keys ?s st (in_line v) = {}" if "st \<noteq> PG_FREE" for st
    using that by (auto simp: stat_keys_def)
  then have "done_keys v (passed ?n ?F 0 0) ftl = {}" using done_keys_valid [of v _ ftl] unfolding clean [OF page_status.distinct(4)] by simp
  with I(3) have own: "pages_owned {} ftl" by simp
  obtain m where m: "lm_mark_line_free (lm ftl) v = Some m" "lm_inv (pgs_per_line (spp_of ftl0)) (insert (wp_blk (gc_wp ftl)) W - {v}) m"
    "lines m = (lines (lm ftl))[v := (lines (lm ftl) ! v)\<lparr> line_ipc := 0, line_vpc := 0 \<rparr>]" "free_line_list m = free_line_list (lm ftl) @ [v]"
    using lm_mark_line_free_ok [OF I(6), of v] I(4) by auto
  let ?f = "ftl\<lparr> lm := m \<rparr>"
  have tab: "get_maptbl_ent ?f = get_maptbl_ent ftl" "get_rmap_ent ?f = get_rmap_ent ftl" "rmap_legal ?f = rmap_legal ftl"
    by (simp_all add: fun_eq_iff get_maptbl_ent_def get_rmap_ent_def ppa2pgidx_def rmap_legal_def valid_ppa_def)
  have same: "ftl_ssd ?f = ftl_ssd ftl" by simp
  have "line_counts_ok {} ?s (lines m)"
    using D(8) clean [of PG_VALID] clean [of PG_INVALID] by (auto simp: line_counts_ok_def m(3) nth_update_at)
  then have "status_ok {} ?f" using I(1) by (simp add: status_ok_def)
  moreover have "map_consistent get_maptbl_ent get_rmap_ent rmap_legal mapped_ppa ftl" using I(2) by (simp add: mapping_ok_def)
  then have "map_consistent get_maptbl_ent get_rmap_ent rmap_legal mapped_ppa ?f" unfolding map_consistent_def tab .
  then have "mapping_ok ?f" using I(2) by (simp add: mapping_ok_def)
  moreover have "pages_owned {} ?f" using own unfolding pages_owned_def tab same .
  moreover have "lpn_mapped ?f = lpn_mapped ftl" by (rule ext) (simp add: lpn_mapped_def get_maptbl_ent_def)
  moreover have "wp_blk (gc_wp ftl) \<noteq> v" using I(4,5) by auto
  ultimately show ?thesis
    using m fr p clean by (intro exI [of _ ?f]) (simp add: mark_line_free_def same_frame_def)
qed


section \<open>A state to collect\<close>

text \<open>The states the operations of the FTL layer reach: pages written and made stale, entries of both tables, and the
  host's write pointer moved. \<open>conv_write\<close> calls all of them but the two that mark pages.\<close>

inductive ftl_steps :: "conv_ftl \<Rightarrow> conv_ftl \<Rightarrow> bool" for f0 where
  steps_start: "ftl_steps f0 f0"
| steps_valid: "ftl_steps f0 f \<Longrightarrow> mark_page_valid f p = Some f' \<Longrightarrow> ftl_steps f0 f'"
| steps_invalid: "ftl_steps f0 f \<Longrightarrow> mark_page_invalid f p = Some f' \<Longrightarrow> ftl_steps f0 f'"
| steps_maptbl: "ftl_steps f0 f \<Longrightarrow> set_maptbl_ent f lpn p = Some f' \<Longrightarrow> ftl_steps f0 f'"
| steps_rmap: "ftl_steps f0 f \<Longrightarrow> set_rmap_ent f lpn p = Some f' \<Longrightarrow> ftl_steps f0 f'"
| steps_advance: "ftl_steps f0 f \<Longrightarrow> advance_write_pointer f USER_IO = Some f' \<Longrightarrow> ftl_steps f0 f'"

text \<open>The small device after logical page 3 was written four times: line 0 has three stale pages and a valid one,
  and the host's pointer has moved on to line 2.\<close>

definition tiny_lines :: "nat \<times> nat \<Rightarrow> line list" where
  "tiny_lines vi = (lines tiny_lm)[0 := \<lparr> line_id = 0, line_ipc = snd vi, line_vpc = fst vi, line_pos = 0 \<rparr>]"

definition tiny_state :: "(page_key \<Rightarrow> page_status) \<Rightarrow> nat \<times> nat \<Rightarrow> (nat \<times> nat) list \<Rightarrow> conv_ftl \<Rightarrow> bool" where
  "tiny_state st l ds f \<longleftrightarrow> status_ok {} f \<and> lm_inv 4 {0, 1} (lm f) \<and> spp_of f = tiny_params \<and> gc_wp f = line_start 1
     \<and> lm f = (lm tiny_ftl)\<lparr> lines := tiny_lines l \<rparr> \<and> lunlm f = map (\<lambda>d. tiny_lm\<lparr> lines := tiny_lines d \<rparr>) ds \<and> length ds = 2
     \<and> (\<forall>q. pg_stat (ftl_ssd f) q = (if in_device tiny_params q then Some (st (pg_key q)) else None))"

lemma tiny_state_start: "tiny_state (\<lambda>_. PG_FREE) (0, 0) [(0, 0), (0, 0)] tiny_ftl"
proof -
  have "(lines tiny_lm)[0 := \<lparr> line_id = 0, line_ipc = 0, line_vpc = 0, line_pos = 0 \<rparr>] = lines tiny_lm"
    by (simp add: tiny_lm_lines)
  then show ?thesis
    using tiny_status_ok tiny_ftl_lm_inv by (simp add: tiny_state_def tiny_lines_def tiny_pg_stat)
qed

lemma tiny_line_valid:
  "fst vi < 4 \<Longrightarrow> lm_line_valid 4 (m\<lparr> lines := tiny_lines vi \<rparr>) 0 = Some (m\<lparr> lines := tiny_lines (fst vi + 1, snd vi) \<rparr>)"
  by (simp add: lm_line_valid_def tiny_lines_def tiny_lm_lines)

lemma tiny_line_invalid:
  "0 < fst vi \<Longrightarrow> fst vi < 4 \<Longrightarrow> snd vi < 4 \<Longrightarrow>
     lm_line_invalid 4 (m\<lparr> lines := tiny_lines vi \<rparr>) 0 = Some (m\<lparr> lines := tiny_lines (fst vi - 1, snd vi + 1) \<rparr>)"
  by (simp add: lm_line_invalid_def tiny_lines_def tiny_lm_lines)

lemma mark_page_frame:
  assumes "mark_page_valid f p = Some f' \<and> F = lm_line_valid \<or> mark_page_invalid f p = Some f' \<and> F = lm_line_invalid"
  obtains d d' where "F (pgs_per_line (spp_of f)) (lm f) (g_blk p) = Some (lm f')" and "arr_get (lunlm f) (get_glun f p) = Some d"
    and "F (pgs_per_line (spp_of f)) d (g_blk p) = Some d'" and "lunlm f' = (lunlm f)[get_glun f p := d']"
    and "maptbl f' = maptbl f" and "rmap f' = rmap f" and "gc_wp f' = gc_wp f" and "user_wp f' = user_wp f"
  using assms by (auto simp: mark_page_valid_def mark_page_invalid_def fault_simps Let_def)

lemma tiny_state_valid:
  assumes T: "tiny_state st l ds f" and p: "in_device tiny_params p" "g_blk p = 0" "st (pg_key p) = PG_FREE"
    and l: "fst l < 4" "fst (ds ! g_ch p) < 4"
  shows "\<exists>f'. mark_page_valid f p = Some f' \<and> maptbl f' = maptbl f \<and> rmap f' = rmap f \<and> user_wp f' = user_wp f
    \<and> tiny_state (st(pg_key p := PG_VALID)) (fst l + 1, snd l) (ds[g_ch p := (fst (ds ! g_ch p) + 1, snd (ds ! g_ch p))]) f'"
proof -
  have t: "status_ok {} f" "lm_inv 4 {0, 1} (lm f)" "spp_of f = tiny_params" "gc_wp f = line_start 1"
    "lm f = (lm tiny_ftl)\<lparr> lines := tiny_lines l \<rparr>" "lunlm f = map (\<lambda>d. tiny_lm\<lparr> lines := tiny_lines d \<rparr>) ds" "length ds = 2"
    and stat: "\<And>q. pg_stat (ftl_ssd f) q = (if in_device tiny_params q then Some (st (pg_key q)) else None)"
    using T by (auto simp: tiny_state_def)
  have ch: "g_ch p < 2" "g_lun p = 0" using p(1) by (simp_all add: in_device_def)
  have glun: "get_glun f p = g_ch p" using ch t(3) by (simp add: get_glun_def)
  have free: "pg_stat (ftl_ssd f) p = Some PG_FREE" using stat [of p] p by simp
  have room: "da_room f p" using glun ch t p l by (simp add: da_room_def tiny_lines_def tiny_lm_lines)
  have "g_blk p \<notin> {}" by simp
  from mark_page_valid_ok [OF t(1) free room this] obtain f' where f': "mark_page_valid f p = Some f'" "status_ok {} f'"
    "spp_of f' = spp_of f" "\<And>q. pg_stat (ftl_ssd f') q = (if pg_key q = pg_key p then Some PG_VALID else pg_stat (ftl_ssd f) q)"
    unfolding Let_def by (elim exE conjE) auto
  obtain d d' where fr: "lm_line_valid 4 (lm f) 0 = Some (lm f')" "arr_get (lunlm f) (g_ch p) = Some d" "lm_line_valid 4 d 0 = Some d'"
    "lunlm f' = (lunlm f)[g_ch p := d']" "maptbl f' = maptbl f" "rmap f' = rmap f" "gc_wp f' = gc_wp f" "user_wp f' = user_wp f"
    using mark_page_frame [of f p f' lm_line_valid] f'(1) p(2) t(3) glun by auto
  have "line_vpc (lines (lm f) ! 0) + line_ipc (lines (lm f) ! 0) < 4"
  proof -
    have n: "0 < blks_per_pl (spp_of f)" using t(3) by simp
    have "0 < card (stat_keys (ftl_ssd f) PG_FREE (in_line 0))" using stat_keys_pos [OF free, of "in_line 0"] p(2) by simp
    with line_pages_sum [OF t(1) n] status_okD(8,9) [OF t(1)] t(3) show ?thesis by (simp add: line_counts_ok_def)
  qed
  with lm_line_valid_ok [OF t(2), of 0] fr(1) have inv: "lm_inv 4 {0, 1} (lm f')" by auto
  have key: "in_device tiny_params q" if "pg_key q = pg_key p" for q
    using that p(1) by (simp add: pg_key_def in_device_def)
  have "lm f' = (lm tiny_ftl)\<lparr> lines := tiny_lines (fst l + 1, snd l) \<rparr>"
    using fr(1) tiny_line_valid [OF l(1)] t(5) by simp
  moreover have "d' = tiny_lm\<lparr> lines := tiny_lines (fst (ds ! g_ch p) + 1, snd (ds ! g_ch p)) \<rparr>"
    using fr(2,3) tiny_line_valid [OF l(2)] t(6,7) ch by auto
  ultimately show ?thesis
    using f' fr t inv key stat by (intro exI [of _ f']) (simp add: tiny_state_def map_update)
qed

lemma tiny_state_invalid:
  assumes T: "tiny_state st l ds f" and p: "in_device tiny_params p" "g_blk p = 0" "st (pg_key p) = PG_VALID"
    and l: "0 < fst l" "fst l < 4" "snd l < 4" "0 < fst (ds ! g_ch p)" "fst (ds ! g_ch p) < 4" "snd (ds ! g_ch p) < 4"
  shows "\<exists>f'. mark_page_invalid f p = Some f' \<and> maptbl f' = maptbl f \<and> rmap f' = rmap f \<and> user_wp f' = user_wp f
    \<and> tiny_state (st(pg_key p := PG_INVALID)) (fst l - 1, snd l + 1) (ds[g_ch p := (fst (ds ! g_ch p) - 1, snd (ds ! g_ch p) + 1)]) f'"
proof -
  have t: "status_ok {} f" "lm_inv 4 {0, 1} (lm f)" "spp_of f = tiny_params" "gc_wp f = line_start 1"
    "lm f = (lm tiny_ftl)\<lparr> lines := tiny_lines l \<rparr>" "lunlm f = map (\<lambda>d. tiny_lm\<lparr> lines := tiny_lines d \<rparr>) ds" "length ds = 2"
    and stat: "\<And>q. pg_stat (ftl_ssd f) q = (if in_device tiny_params q then Some (st (pg_key q)) else None)"
    using T by (auto simp: tiny_state_def)
  have ch: "g_ch p < 2" "g_lun p = 0" using p(1) by (simp_all add: in_device_def)
  have glun: "get_glun f p = g_ch p" using ch t(3) by (simp add: get_glun_def)
  have valid: "pg_stat (ftl_ssd f) p = Some PG_VALID" using stat [of p] p by simp
  have c: "da_countable f p" using glun ch t p l by (simp add: da_countable_def tiny_lines_def tiny_lm_lines)
  have 1: "g_blk p \<notin> {}" "lm_inv (pgs_per_line (spp_of f)) {0, 1} (lm f)"
    "g_blk p \<in> {0, 1} \<longrightarrow> line_vpc (lines (lm f) ! g_blk p) < pgs_per_line (spp_of f)"
    using t l p by (simp_all add: tiny_lines_def tiny_lm_lines)
  from mark_page_invalid_ok [OF t(1) valid c this] t(3) obtain f' where f': "mark_page_invalid f p = Some f'" "status_ok {} f'"
    "spp_of f' = spp_of f" "\<And>q. pg_stat (ftl_ssd f') q = (if pg_key q = pg_key p then Some PG_INVALID else pg_stat (ftl_ssd f) q)"
    "lm_inv 4 {0, 1} (lm f')"
    unfolding Let_def by (elim exE conjE) auto
  obtain d d' where fr: "lm_line_invalid 4 (lm f) 0 = Some (lm f')" "arr_get (lunlm f) (g_ch p) = Some d" "lm_line_invalid 4 d 0 = Some d'"
    "lunlm f' = (lunlm f)[g_ch p := d']" "maptbl f' = maptbl f" "rmap f' = rmap f" "gc_wp f' = gc_wp f" "user_wp f' = user_wp f"
    using mark_page_frame [of f p f' lm_line_invalid] f'(1) p(2) t(3) glun by auto
  have key: "in_device tiny_params q" if "pg_key q = pg_key p" for q
    using that p(1) by (simp add: pg_key_def in_device_def)
  have "lm f' = (lm tiny_ftl)\<lparr> lines := tiny_lines (fst l - 1, snd l + 1) \<rparr>"
    using fr(1) tiny_line_invalid [OF l(1-3)] t(5) by simp
  moreover have "d' = tiny_lm\<lparr> lines := tiny_lines (fst (ds ! g_ch p) - 1, snd (ds ! g_ch p) + 1) \<rparr>"
    using fr(2,3) tiny_line_invalid [OF l(4-6)] t(6,7) ch by auto
  ultimately show ?thesis
    using f' fr t key stat by (intro exI [of _ f']) (simp add: tiny_state_def map_update)
qed

text \<open>The host's pointer has written \<open>k\<close> pages of line 0.\<close>

definition tiny_at :: "nat \<Rightarrow> conv_ftl \<Rightarrow> bool" where
  "tiny_at k f \<longleftrightarrow> wp_ok tiny_params (user_wp f) \<and> wp_index tiny_params (user_wp f) = k \<and> curline (user_wp f) = Some 0"

lemma tiny_state_wp: "tiny_state st l ds f \<Longrightarrow> tiny_state st l ds (f\<lparr> user_wp := w \<rparr>)"
proof -
  have e: "ftl_ssd (f\<lparr> user_wp := w \<rparr>) = ftl_ssd f" "lm (f\<lparr> user_wp := w \<rparr>) = lm f"
    "lunlm (f\<lparr> user_wp := w \<rparr>) = lunlm f" "gc_wp (f\<lparr> user_wp := w \<rparr>) = gc_wp f" by simp_all
  assume "tiny_state st l ds f"
  then show ?thesis unfolding tiny_state_def status_ok_def e .
qed

text \<open>Write a page, make it stale again, and go on to the next.\<close>

lemma tiny_state_stale:
  assumes T: "tiny_state st l ds f" and p: "in_device tiny_params p" "g_blk p = 0" "st (pg_key p) = PG_FREE"
    and l: "fst l = 0" "snd l < 4" "fst (ds ! g_ch p) = 0" "snd (ds ! g_ch p) < 4"
    and w: "tiny_at k f" "k < 3" and r: "ftl_steps tiny_ftl f"
  shows "\<exists>f'. maptbl f' = maptbl f \<and> rmap f' = rmap f \<and> tiny_at (Suc k) f' \<and> ftl_steps tiny_ftl f'
    \<and> tiny_state (st(pg_key p := PG_INVALID)) (0, snd l + 1) (ds[g_ch p := (0, snd (ds ! g_ch p) + 1)]) f'"
proof -
  have ch: "g_ch p < length ds" using T p(1) by (simp add: tiny_state_def in_device_def)
  have l4: "fst l < 4" "fst (ds ! g_ch p) < 4" using l by simp_all
  obtain f1 where f1: "mark_page_valid f p = Some f1" "maptbl f1 = maptbl f" "rmap f1 = rmap f" "user_wp f1 = user_wp f"
    "tiny_state (st(pg_key p := PG_VALID)) (1, snd l) (ds[g_ch p := (1, snd (ds ! g_ch p))]) f1"
    using tiny_state_valid [OF T p l4] l by auto
  from tiny_state_invalid [OF f1(5) p(1,2)] ch l f1 obtain f2 where f2: "mark_page_invalid f1 p = Some f2" "maptbl f2 = maptbl f" "rmap f2 = rmap f"
    "user_wp f2 = user_wp f"
    "tiny_state (st(pg_key p := PG_INVALID)) (0, snd l + 1) (ds[g_ch p := (0, snd (ds ! g_ch p) + 1)]) f2" by auto
  have g: "geometry_ok tiny_params" using tiny_sane by (simp add: sane_params_def)
  have sp: "spp_of f2 = tiny_params" using f2(5) by (simp add: tiny_state_def)
  let ?w = "user_wp f2" and ?f3 = "f2\<lparr> user_wp := wp_next tiny_params (user_wp f2) \<rparr>"
  have wk: "wp_ok tiny_params ?w" "wp_index tiny_params ?w + 1 < pgs_per_line tiny_params" "get_wp f2 USER_IO = Some ?w" "wp_index tiny_params ?w = k"
    using w f2(4) by (simp_all add: tiny_at_def get_wp_def)
  have "advance_write_pointer f2 USER_IO = Some ?f3"
    using advance_write_pointer_cases(1) [of f2 ?w USER_IO] g wk sp by (simp add: put_wp_def)
  from steps_advance [OF steps_invalid [OF steps_valid [OF r f1(1)] f2(1)] this] have "ftl_steps tiny_ftl ?f3" .
  moreover have "tiny_at (Suc k) ?f3" using wp_next_ok [OF g wk(1,2)] w(1) f2(4) wk(4) by (simp add: tiny_at_def)
  ultimately show ?thesis using f2 tiny_state_wp [OF f2(5)] by (intro exI [of _ ?f3]) simp
qed

lemma tiny_state_tables: "tiny_state st l ds f \<Longrightarrow> tiny_state st l ds (f\<lparr> maptbl := a, rmap := b \<rparr>)"
proof -
  have "ftl_ssd (f\<lparr> maptbl := a, rmap := b \<rparr>) = ftl_ssd f" "lm (f\<lparr> maptbl := a, rmap := b \<rparr>) = lm f"
    "lunlm (f\<lparr> maptbl := a, rmap := b \<rparr>) = lunlm f" "gc_wp (f\<lparr> maptbl := a, rmap := b \<rparr>) = gc_wp f" by simp_all
  note e = this
  assume "tiny_state st l ds f"
  then show ?thesis unfolding tiny_state_def status_ok_def e .
qed

definition tiny_old :: "page_key \<Rightarrow> page_status" where
  "tiny_old = ((((\<lambda>_. PG_FREE)((0, 0, 0, 0, 0) := PG_INVALID))((1, 0, 0, 0, 0) := PG_INVALID))((0, 0, 0, 0, 1) := PG_INVALID))
     ((1, 0, 0, 0, 1) := PG_VALID)"

lemma tiny_old_state:
  "\<exists>f. tiny_state tiny_old (1, 3) [(0, 2), (1, 1)] f \<and> maptbl f = (replicate 16 UNMAPPED_PPA)[3 := mk_ppa 1 0 0 0 1]
    \<and> rmap f = (replicate 16 INVALID_LPN)[9 := 3] \<and> tiny_at 3 f \<and> ftl_steps tiny_ftl f"
proof -
  let ?p0 = "mk_ppa 0 0 0 0 0" and ?p1 = "mk_ppa 1 0 0 0 0" and ?p2 = "mk_ppa 0 0 0 0 1" and ?p3 = "mk_ppa 1 0 0 0 1"
  have key: "pg_key ?p1 = (1, 0, 0, 0, 0)" "pg_key ?p2 = (0, 0, 0, 0, 1)" "pg_key ?p3 = (1, 0, 0, 0, 1)" "pg_key ?p0 = (0, 0, 0, 0, 0)"
    and dev: "in_device tiny_params ?p1" "in_device tiny_params ?p2" "in_device tiny_params ?p3" "in_device tiny_params ?p0"
    by (simp_all add: pg_key_def mk_ppa_fields in_device_def)
  let ?st1 = "(\<lambda>_. PG_FREE)((0, 0, 0, 0, 0) := PG_INVALID)"
  let ?st2 = "?st1((1, 0, 0, 0, 0) := PG_INVALID)"
  let ?st3 = "?st2((0, 0, 0, 0, 1) := PG_INVALID)"
  have at0: "tiny_at 0 tiny_ftl" by (simp add: tiny_at_def wp_ok_def wp_index_def line_start_def)
  obtain f1 where f1: "tiny_state ?st1 (0, 1) [(0, 1), (0, 0)] f1" "maptbl f1 = maptbl tiny_ftl" "rmap f1 = rmap tiny_ftl" "tiny_at 1 f1" "ftl_steps tiny_ftl f1"
    using tiny_state_stale [OF tiny_state_start dev(4) _ _ _ _ _ _ at0] steps_start by (auto simp: key key [simplified] mk_ppa_fields)
  obtain f2 where f2: "tiny_state ?st2 (0, 2) [(0, 1), (0, 1)] f2" "maptbl f2 = maptbl tiny_ftl" "rmap f2 = rmap tiny_ftl" "tiny_at 2 f2" "ftl_steps tiny_ftl f2"
    using tiny_state_stale [OF f1(1) dev(1) _ _ _ _ _ _ f1(4) _ f1(5)] f1(2,3) by (auto simp: key key [simplified] mk_ppa_fields numeral_2_eq_2)
  obtain f3 where f3: "tiny_state ?st3 (0, 3) [(0, 2), (0, 1)] f3" "maptbl f3 = maptbl tiny_ftl" "rmap f3 = rmap tiny_ftl" "tiny_at 3 f3" "ftl_steps tiny_ftl f3"
    using tiny_state_stale [OF f2(1) dev(2) _ _ _ _ _ _ f2(4) _ f2(5)] f2(2,3) by (auto simp: key key [simplified] mk_ppa_fields numeral_2_eq_2 numeral_3_eq_3)
  let ?m = "f3\<lparr> maptbl := (replicate 16 UNMAPPED_PPA)[3 := ?p3] \<rparr>"
  let ?g = "f3\<lparr> maptbl := (replicate 16 UNMAPPED_PPA)[3 := ?p3], rmap := (replicate 16 INVALID_LPN)[9 := 3] \<rparr>"
  have sp: "spp_of f3 = tiny_params" using f3(1) by (simp add: tiny_state_def)
  have m: "set_maptbl_ent f3 3 ?p3 = Some ?m" using sp f3(2) by (simp add: set_maptbl_ent_def)
  have "ppa2pgidx ?m ?p3 = Some 9"
    using sp dev(3) tiny_sane valid_ppa_in_device [of ?m ?p3] by (simp add: ppa2pgidx_def pgidx_of_def mk_ppa_fields)
  then have "set_rmap_ent ?m 3 ?p3 = Some ?g" using f3(3) by (simp add: set_rmap_ent_def)
  from steps_rmap [OF steps_maptbl [OF f3(5) m] this] have r: "ftl_steps tiny_ftl ?g" .
  have "tiny_state ?st3 (0, 3) [(0, 2), (0, 1)] ?g" using f3(1) by (rule tiny_state_tables)
  from tiny_state_valid [OF this dev(3)] obtain f where "mark_page_valid ?g ?p3 = Some f" "maptbl f = maptbl ?g" "rmap f = rmap ?g"
    "user_wp f = user_wp ?g" "tiny_state tiny_old (1, 3) [(0, 2), (1, 1)] f" by (auto simp: key key [simplified] mk_ppa_fields tiny_old_def)
  moreover have "tiny_at 3 f" using calculation(4) f3(4) by (simp add: tiny_at_def)
  ultimately show ?thesis using r by (intro exI [of _ f]) (auto intro: steps_valid)
qed

lemma tiny_collectable:
  "\<exists>f. ftl_steps tiny_ftl f \<and> gc_ready {2} f \<and> 0 \<in> victims (lm f) \<and> lpn_mapped f 3"
proof -
  let ?p3 = "mk_ppa 1 0 0 0 1"
  obtain g where g: "tiny_state tiny_old (1, 3) [(0, 2), (1, 1)] g" and mt: "maptbl g = (replicate 16 UNMAPPED_PPA)[3 := ?p3]"
    and rm: "rmap g = (replicate 16 INVALID_LPN)[9 := 3]" and at: "tiny_at 3 g" and reach: "ftl_steps tiny_ftl g" using tiny_old_state by blast
  have t: "status_ok {} g" "lm_inv 4 {0, 1} (lm g)" "spp_of g = tiny_params" "gc_wp g = line_start 1"
    "lm g = (lm tiny_ftl)\<lparr> lines := tiny_lines (1, 3) \<rparr>"
    "lunlm g = [tiny_lm\<lparr> lines := tiny_lines (0, 2) \<rparr>, tiny_lm\<lparr> lines := tiny_lines (1, 1) \<rparr>]"
    and stat: "\<And>q. pg_stat (ftl_ssd g) q = (if in_device tiny_params q then Some (tiny_old (pg_key q)) else None)"
    using g by (auto simp: tiny_state_def)
  note D = status_okD [OF t(1)]
  have "line_ipc (lines (lm g) ! 0) = 3" "line_vpc (lines (lm g) ! 0) = 1" using t(5) by (simp_all add: tiny_lines_def tiny_lm_lines)
  then obtain m where m: "advance_write_pointer g USER_IO = Some (put_wp (g\<lparr> lm := m \<rparr>) USER_IO (line_start 2))"
    "lm_inv 4 (insert 2 ({0, 1} - {0})) m" "same_lines (lines (lm g)) (lines m)" "free_line_list m = [3]" "0 \<in> victims m"
    using advance_write_pointer_new_line [of g "user_wp g" USER_IO "{0, 1}" 0 2 "[3]"] at t D(4,9) by (auto simp: tiny_at_def get_wp_def)
  then have inv: "lm_inv 4 {1, 2} m" by (simp add: insert_Diff_if insert_commute)
  let ?f = "g\<lparr> lm := m, user_wp := line_start 2 \<rparr>"
  have reach: "ftl_steps tiny_ftl ?f" using reach m(1) by (auto intro: steps_advance simp: put_wp_def)
  have v0: "l = 0" if "l \<in> victims m" for l
  proof -
    have "l < 4" "l \<noteq> 1" "l \<noteq> 2" "l \<noteq> 3"
      using inv m(3,4) D(9) t(3) that by (auto simp: lm_inv_def lm_partition_def same_lines_iff)
    then show ?thesis by auto
  qed
  have st: "status_ok {} ?f" using t(1) m(3) by (auto simp: status_ok_def line_counts_ok_def same_lines_iff)
  have mp: "mapped_ppa ?p3" using mk_ppa_fields(1) [of 1 0 0 0 1] UNMAPPED_g_ch by (auto simp: mapped_ppa_def)
  have k0: "pg_key ?p3 = (1, 0, 0, 0, 1)" "in_device tiny_params ?p3" by (simp_all add: pg_key_def mk_ppa_fields in_device_def)
  have look: "get_maptbl_ent ?f l = Some p \<and> mapped_ppa p \<longleftrightarrow> l = 3 \<and> p = ?p3" for l p
    using mp by (auto simp: get_maptbl_ent_def mt arr_get_def mapped_ppa_def nth_list_update split: if_splits)
  have rev: "rmap_legal ?f p \<and> get_rmap_ent ?f p = Some 3" if "pg_key p = (1, 0, 0, 0, 1)" for p
  proof -
    have "in_device tiny_params p" using that by (simp add: pg_key_def in_device_def)
    then have "rmap_legal ?f p" using tiny_sane t(3) rm by (simp add: rmap_legal_def valid_ppa_in_device)
    moreover from get_rmap_ent_legal [OF this] have "get_rmap_ent ?f p = Some 3"
      using that t(3) rm by (simp add: page_addr_def pg_key_def)
    ultimately show ?thesis by simp
  qed
  have "map_consistent get_maptbl_ent get_rmap_ent rmap_legal mapped_ppa ?f"
    unfolding map_consistent_def
  proof (intro allI impI)
    fix l p
    assume "get_maptbl_ent ?f l = Some p \<and> mapped_ppa p"
    then have "l = 3" "p = ?p3" using look by blast+
    with rev [OF k0(1)] show "rmap_legal ?f p \<and> get_rmap_ent ?f p = Some l" by simp
  qed
  then have map: "mapping_ok ?f" using t(3) mt rm tiny_sane by (simp add: mapping_ok_def)
  have old: "tiny_old k = PG_VALID \<longleftrightarrow> k = (1, 0, 0, 0, 1)" "tiny_old (c, 0, 0, 0, g) = PG_FREE \<longleftrightarrow> \<not> (c < 2 \<and> g < 2)" for k c g
    by (auto simp: tiny_old_def less_2_cases_iff)
  have own: "pages_owned {} ?f"
    unfolding pages_owned_def
  proof (intro conjI allI impI; elim conjE)
    fix k p
    assume "get_maptbl_ent ?f k = Some p" "mapped_ppa p"
    then have "p = ?p3" using look by blast
    then show "pg_stat (ftl_ssd ?f) p = Some PG_VALID" "pg_key p \<notin> {}" using stat k0 old(1) by simp_all
  next
    fix p
    assume "pg_stat (ftl_ssd ?f) p = Some PG_VALID"
    then have "pg_key p = (1, 0, 0, 0, 1)" using stat [of p] old(1) by (auto split: if_splits)
    with rev [OF this] look k0(1) t(3) show "\<exists>k q. get_rmap_ent ?f p = Some k \<and> k < tt_pgs (spp_of ?f)
        \<and> get_maptbl_ent ?f k = Some q \<and> mapped_ppa q \<and> pg_key q = pg_key p"
      by (intro exI [of _ 3] exI [of _ ?p3]) auto
  qed
  have prog: "line_progress (ftl_ssd ?f) (line_start 1)"
    by (rule empty_line_progress [OF st]) (use m(3) t(5) in \<open>simp_all add: same_lines_iff tiny_lines_def tiny_lm_lines\<close>)
  have spare: "da_spare {} ?f"
    unfolding da_spare_def
  proof (intro allI impI, elim conjE)
    fix p
    assume p: "in_device (spp_of ?f) p"
    then have q: "g_ch p < 2" "g_lun p = 0" "g_blk p < 4" "blk_in_range (spp_of g) p" using t(3) by (simp_all add: in_device_def blk_in_range_def)
    have "card (stat_keys (ftl_ssd g) PG_FREE (in_blk (blk_key p))) \<le> 2"
      using blk_pages_sum [OF D(1,2) q(4)] t(3) by simp
    moreover have "get_glun ?f p = g_ch p" using q t(3) by (simp add: get_glun_def)
    moreover have "g_ch p = 0 \<or> g_ch p = 1" using q(1) by auto
    moreover have "g_blk p = 0 \<or> g_blk p = 1 \<or> g_blk p = 2 \<or> g_blk p = 3" using q(3) by auto
    ultimately show "\<exists>d. arr_get (lunlm ?f) (get_glun ?f p) = Some d \<and> g_blk p < length (lines d)
        \<and> line_vpc (lines d ! g_blk p) + card (stat_keys (ftl_ssd ?f) PG_FREE (in_blk (blk_key p))) \<le> pgs_per_line (spp_of ?f)"
      using t(3,6) by (auto simp: tiny_lines_def tiny_lm_lines)
  qed
  have "pg_stat (ftl_ssd g) q \<noteq> Some PG_FREE" if b: "g_blk q = 0" for q
  proof (cases "in_device tiny_params q")
    case True
    then have "pg_key q = (g_ch q, 0, 0, 0, g_pg q)" "g_ch q < 2" "g_pg q < 2" using b by (simp_all add: pg_key_def in_device_def)
    with stat [of q] old(2) show ?thesis by auto
  qed (simp add: stat)
  then have "stat_keys (ftl_ssd g) PG_FREE (in_line 0) = {}" by (auto simp: stat_keys_def)
  then have "\<forall>l \<in> victims m. stat_keys (ftl_ssd ?f) PG_FREE (in_line l) = {}" using v0 by auto
  then have "gc_ready {2} ?f"
    using st map own prog spare inv m(4) t(3,4)
    by (simp add: gc_ready_def line_start_def wp_ok_def tiny_params_def)
  moreover have "lpn_mapped ?f 3" using look unfolding lpn_mapped_def by blast
  ultimately show ?thesis using m(5) reach by (intro exI [of _ ?f]) simp
qed


end
