(* ===== verification/Hotness.thy ===== *)
theory Hotness
  imports Write_Pointer
begin

text \<open>
  Hotness tracking and migration of the hybrid device (\<open>conv_ftl.c\<close>, compiled for \<open>HYBRID_SSD\<close>).
  The table is open-addressed with linear probing; a pointer into it is an index. Allocation
  succeeds. \<open>migrate_page\<close> leaves \<open>interleave_pci_dma\<close> of its two commands uninitialised: what the
  stack holds is an argument.
\<close>

section \<open>Operations\<close>

definition fresh_hotness :: "nat \<Rightarrow> page_hotness" where
  "fresh_hotness lpn = \<lparr> hot_lpn = lpn, access_count = 0, recent_access = 0, last_access_time = 0,
     hot_storage_type = STORAGE_TYPE_SLC, is_migrating = False \<rparr>"

definition init_hotness_tracking :: "conv_ftl \<Rightarrow> conv_ftl" where
  "init_hotness_tracking ftl = (let spp = spp_of ftl in ftl\<lparr>
     migration := \<lparr> hotness_table = replicate (hotness_table_size spp) (fresh_hotness INVALID_LPN),
       mm_table_size = hotness_table_size spp, mm_hot_threshold = of_nat (hot_threshold spp),
       mm_cold_threshold = of_nat (cold_threshold spp), mm_migration_interval = migration_interval spp,
       last_migration_check = 0, mm_max_migrations_per_check = of_nat (max_migrations_per_check spp),
       current_migrations = 0 \<rparr>,
     total_slc_pages := slc_tt_pgs spp, used_slc_pages := 0, total_qlc_pages := qlc_tt_pgs spp, used_qlc_pages := 0 \<rparr>)"

definition remove_hotness_tracking :: "conv_ftl \<Rightarrow> conv_ftl" where
  "remove_hotness_tracking ftl = ftl\<lparr> migration := (migration ftl)\<lparr> hotness_table := [] \<rparr> \<rparr>"

text \<open>The loop of \<open>get_hotness_entry\<close> over the remaining values of \<open>i\<close>; \<open>None\<close> inside is the NULL entry.\<close>

primrec hotness_probe :: "nat \<Rightarrow> nat \<Rightarrow> nat list \<Rightarrow> migration_mgmt \<Rightarrow> (nat option \<times> migration_mgmt) option" where
  "hotness_probe lpn hash [] mm = Some (None, mm)"
| "hotness_probe lpn hash (i # is) mm = do {
     idx \<leftarrow> mod_trap (u64 (hash + i)) (mm_table_size mm);
     e \<leftarrow> arr_get (hotness_table mm) idx;
     if hot_lpn e = INVALID_LPN then do {
       t \<leftarrow> arr_set (hotness_table mm) idx (fresh_hotness lpn);
       Some (Some idx, mm\<lparr> hotness_table := t \<rparr>)
     } else if hot_lpn e = lpn then Some (Some idx, mm)
     else hotness_probe lpn hash is mm
   }"

definition get_hotness_entry :: "migration_mgmt \<Rightarrow> nat \<Rightarrow> (nat option \<times> migration_mgmt) option" where
  "get_hotness_entry mm lpn = do {
     hash \<leftarrow> mod_trap lpn (mm_table_size mm);
     hotness_probe lpn hash [0..<mm_table_size mm] mm
   }"

definition put_hotness :: "migration_mgmt \<Rightarrow> nat \<Rightarrow> (page_hotness \<Rightarrow> page_hotness) \<Rightarrow> migration_mgmt option" where
  "put_hotness mm i f = do {
     e \<leftarrow> arr_get (hotness_table mm) i;
     t \<leftarrow> arr_set (hotness_table mm) i (f e);
     Some (mm\<lparr> hotness_table := t \<rparr>)
   }"

definition update_page_hotness :: "nat \<Rightarrow> migration_mgmt \<Rightarrow> nat \<Rightarrow> migration_mgmt option" where
  "update_page_hotness now mm lpn = do {
     (r, mm) \<leftarrow> get_hotness_entry mm lpn;
     (case r of None \<Rightarrow> Some mm
      | Some i \<Rightarrow> put_hotness mm i (\<lambda>e.
          let e = e\<lparr> access_count := access_count e + 1, recent_access := recent_access e + 1, last_access_time := now \<rparr>
          in if sub64 now (last_access_time e) > 1000000000
             then e\<lparr> recent_access := (if recent_access e > 0 then recent_access e - 1 else 0) \<rparr>
             else e))
   }"

definition should_migrate_page :: "migration_mgmt \<Rightarrow> page_hotness \<Rightarrow> bool" where
  "should_migrate_page mm e =
     (if is_migrating e then False
      else if hot_lpn e = INVALID_LPN then False
      else if hot_storage_type e = STORAGE_TYPE_SLC then recent_access e \<le> mm_cold_threshold mm
      else False)"

definition on_entry :: "conv_ftl \<Rightarrow> nat \<Rightarrow> (page_hotness \<Rightarrow> page_hotness) \<Rightarrow> conv_ftl option" where
  "on_entry ftl i f = do { mm \<leftarrow> put_hotness (migration ftl) i f; Some (ftl\<lparr> migration := mm \<rparr>) }"

definition migrate_page :: "base_ssd \<Rightarrow> nat \<Rightarrow> bool \<Rightarrow> bool \<Rightarrow> conv_ftl \<Rightarrow> nat \<Rightarrow> storage_type \<Rightarrow> (nat \<times> conv_ftl) option" where
  "migrate_page b now junk_r junk_w ftl lpn target_storage = do {
     let spp = spp_of ftl;
     (r, mm) \<leftarrow> get_hotness_entry (migration ftl) lpn;
     let ftl = ftl\<lparr> migration := mm \<rparr>;
     (case r of None \<Rightarrow> Some (0, ftl)
      | Some i \<Rightarrow> do {
          old_ppa \<leftarrow> get_maptbl_ent ftl lpn;
          if \<not> mapped_ppa old_ppa then Some (0, ftl)
          else do {
            ftl \<leftarrow> on_entry ftl i (\<lambda>e. e\<lparr> is_migrating := True \<rparr>);
            (t, s) \<leftarrow> ssd_advance_nand b now (ftl_ssd ftl) \<lparr> nand_type = GC_IO, cmd = NAND_READ, xfer_size = pgsz spp,
               stime = now, interleave_pci_dma = junk_r, nand_ppa = old_ppa \<rparr>;
            let ftl = ftl\<lparr> ftl_ssd := s \<rparr>;
            new_ppa \<leftarrow> get_new_page b ftl GC_IO;
            let ftl = ftl\<lparr> used_qlc_pages := u64 (used_qlc_pages ftl + 1) \<rparr>;
            ftl \<leftarrow> on_entry ftl i (\<lambda>e. e\<lparr> hot_storage_type := STORAGE_TYPE_QLC \<rparr>);
            (t, s) \<leftarrow> ssd_advance_nand b now (ftl_ssd ftl) \<lparr> nand_type = GC_IO, cmd = NAND_WRITE, xfer_size = pgsz spp,
               stime = t, interleave_pci_dma = junk_w, nand_ppa = new_ppa \<rparr>;
            let ftl = ftl\<lparr> ftl_ssd := s \<rparr>;
            ftl \<leftarrow> set_maptbl_ent ftl lpn new_ppa;
            ftl \<leftarrow> set_rmap_ent ftl lpn new_ppa;
            ftl \<leftarrow> advance_write_pointer_QLC b ftl GC_IO;
            ftl \<leftarrow> mark_page_invalid ftl old_ppa;
            let ftl = ftl\<lparr> used_slc_pages := sub64 (used_slc_pages ftl) 1 \<rparr>;
            ftl \<leftarrow> on_entry ftl i (\<lambda>e. e\<lparr> is_migrating := False \<rparr>);
            Some (t, ftl)
          }
        })
   }"

text \<open>The loop ends early once enough pages are migrated; \<open>junk i\<close> is the stack at iteration \<open>i\<close>.\<close>

definition check_and_perform_migrations :: "base_ssd \<Rightarrow> nat \<Rightarrow> (nat \<Rightarrow> bool \<times> bool) \<Rightarrow> conv_ftl \<Rightarrow> conv_ftl option" where
  "check_and_perform_migrations b now junk ftl =
     (if sub64 now (last_migration_check (migration ftl)) < mm_migration_interval (migration ftl) then Some ftl
      else do {
        let ftl = ftl\<lparr> migration := (migration ftl)\<lparr> last_migration_check := now, current_migrations := 0 \<rparr> \<rparr>;
        foldM (\<lambda>i ftl.
          if \<not> current_migrations (migration ftl) < mm_max_migrations_per_check (migration ftl) then Some ftl
          else do {
            e \<leftarrow> arr_get (hotness_table (migration ftl)) i;
            if hot_lpn e = INVALID_LPN then Some ftl
            else if should_migrate_page (migration ftl) e then do {
              (t, ftl) \<leftarrow> migrate_page b now (fst (junk i)) (snd (junk i)) ftl (hot_lpn e) STORAGE_TYPE_QLC;
              Some (if 0 < t then ftl\<lparr> migration := (migration ftl)\<lparr> current_migrations := current_migrations (migration ftl) + 1 \<rparr> \<rparr>
                    else ftl)
            } else Some ftl
          }) [0..<mm_table_size (migration ftl)] ftl
      })"

section \<open>The table as a map\<close>

text \<open>
  Slot \<open>(l + i) mod n\<close> is the \<open>i\<close>-th slot probed for \<open>l\<close>. In a well-formed table every tracked page
  is reached by its probe sequence before any empty slot and before any other slot tracking it.
\<close>

definition probe_slot :: "nat \<Rightarrow> nat \<Rightarrow> nat \<Rightarrow> nat" where
  "probe_slot n lpn i = (lpn mod n + i) mod n"

definition lpn_at :: "migration_mgmt \<Rightarrow> nat \<Rightarrow> nat" where
  "lpn_at mm j = hot_lpn (hotness_table mm ! j)"

definition hotness_ok :: "migration_mgmt \<Rightarrow> bool" where
  "hotness_ok mm \<longleftrightarrow> 0 < mm_table_size mm \<and> mm_table_size mm < 2 ^ 62 \<and> length (hotness_table mm) = mm_table_size mm
     \<and> (\<forall>j < mm_table_size mm. lpn_at mm j \<noteq> INVALID_LPN \<longrightarrow>
          (\<exists>i < mm_table_size mm. probe_slot (mm_table_size mm) (lpn_at mm j) i = j
             \<and> (\<forall>k < i. lpn_at mm (probe_slot (mm_table_size mm) (lpn_at mm j) k) \<notin> {INVALID_LPN, lpn_at mm j})))"

definition hotness_of :: "migration_mgmt \<Rightarrow> nat \<Rightarrow> page_hotness option" where
  "hotness_of mm lpn = find (\<lambda>e. hot_lpn e = lpn) (hotness_table mm)"

lemma probe_slot_less [simp]: "0 < n \<Longrightarrow> probe_slot n lpn i < n"
  by (simp add: probe_slot_def)

lemma probe_slot_inj:
  assumes "i < n" and "k < n" and "probe_slot n l i = probe_slot n l k"
  shows "i = k"
proof -
  have "(l mod n + i) mod n = (l mod n + k) mod n" using assms(3) by (simp add: probe_slot_def)
  then have "i mod n = k mod n" by (simp add: nat_mod_eq_iff)
  with assms show ?thesis by simp
qed

lemma probe_small: "(n :: nat) < 2 ^ 62 \<Longrightarrow> i < n \<Longrightarrow> lpn mod n + i < 2 ^ 64"
proof -
  assume n: "n < 2 ^ 62" "i < n"
  then have "lpn mod n < n" by simp
  with n have "lpn mod n + i < n + n" by linarith
  with n(1) show ?thesis by simp
qed

lemma probe_finds:
  assumes n: "mm_table_size mm = n" "0 < n" "n < 2 ^ 62" "length (hotness_table mm) = n" and i: "i < n"
    and here: "lpn_at mm (probe_slot n lpn i) = INVALID_LPN \<or> lpn_at mm (probe_slot n lpn i) = lpn"
    and before: "\<And>k. a \<le> k \<Longrightarrow> k < i \<Longrightarrow> lpn_at mm (probe_slot n lpn k) \<noteq> INVALID_LPN \<and> lpn_at mm (probe_slot n lpn k) \<noteq> lpn" and a: "a \<le> i"
  shows "hotness_probe lpn (lpn mod n) [a..<n] mm =
    Some (Some (probe_slot n lpn i), if lpn_at mm (probe_slot n lpn i) = INVALID_LPN
       then mm\<lparr> hotness_table := (hotness_table mm)[probe_slot n lpn i := fresh_hotness lpn] \<rparr> else mm)"
  using a before
proof (induction "i - a" arbitrary: a)
  case 0
  then have "[a..<n] = i # [Suc i..<n]" using i by (simp add: upt_conv_Cons)
  moreover have "lpn mod n + i < 2 ^ 64" using probe_small [OF n(3) i] by simp
  ultimately show ?case using here n by (auto simp: lpn_at_def probe_slot_def)
next
  case (Suc d)
  then have "[a..<n] = a # [Suc a..<n]" using i by (simp add: upt_conv_Cons)
  moreover have "lpn mod n + a < 2 ^ 64" using probe_small [OF n(3), of a] i Suc by simp
  moreover have "lpn_at mm (probe_slot n lpn a) \<noteq> INVALID_LPN \<and> lpn_at mm (probe_slot n lpn a) \<noteq> lpn" using Suc by simp
  moreover have "hotness_probe lpn (lpn mod n) [Suc a..<n] mm =
    Some (Some (probe_slot n lpn i), if lpn_at mm (probe_slot n lpn i) = INVALID_LPN
       then mm\<lparr> hotness_table := (hotness_table mm)[probe_slot n lpn i := fresh_hotness lpn] \<rparr> else mm)"
    using Suc by simp
  ultimately show ?case using n by (simp add: lpn_at_def probe_slot_def)
qed

lemma probe_full:
  assumes n: "mm_table_size mm = n" "0 < n" "n < 2 ^ 62" "length (hotness_table mm) = n" and a: "b \<le> n"
    and none: "\<And>k. k < n \<Longrightarrow> lpn_at mm (probe_slot n lpn k) \<noteq> INVALID_LPN \<and> lpn_at mm (probe_slot n lpn k) \<noteq> lpn"
  shows "hotness_probe lpn (lpn mod n) [a..<b] mm = Some (None, mm)"
proof (induction "b - a" arbitrary: a)
  case 0
  then show ?case by simp
next
  case (Suc d)
  then have "[a..<b] = a # [Suc a..<b]" by (simp add: upt_conv_Cons)
  moreover have "lpn mod n + a < 2 ^ 64" using probe_small [OF n(3), of a] a Suc by simp
  moreover have "hotness_probe lpn (lpn mod n) [Suc a..<b] mm = Some (None, mm)" using Suc by simp
  ultimately show ?case using n none [of a] Suc.hyps a by (simp add: lpn_at_def probe_slot_def)
qed

lemma probe_slot_surj:
  assumes "j < n"
  shows "\<exists>i < n. probe_slot n lpn i = j"
proof -
  have h: "lpn mod n < n" using assms by simp
  let ?i = "(j + (n - lpn mod n)) mod n"
  have "probe_slot n lpn ?i = (lpn mod n + (j + (n - lpn mod n))) mod n" by (simp add: probe_slot_def mod_add_right_eq)
  also have "lpn mod n + (j + (n - lpn mod n)) = j + n" using h by simp
  finally show ?thesis using assms by (intro exI [of _ ?i]) simp
qed

lemma hotness_okE:
  assumes "hotness_ok mm" and "j < mm_table_size mm" and "lpn_at mm j = l" and "l \<noteq> INVALID_LPN"
  obtains i where "i < mm_table_size mm" and "probe_slot (mm_table_size mm) l i = j"
    and "\<forall>k < i. lpn_at mm (probe_slot (mm_table_size mm) l k) \<notin> {INVALID_LPN, l}"
proof -
  have "\<forall>j < mm_table_size mm. lpn_at mm j \<noteq> INVALID_LPN \<longrightarrow>
          (\<exists>i < mm_table_size mm. probe_slot (mm_table_size mm) (lpn_at mm j) i = j
             \<and> (\<forall>k < i. lpn_at mm (probe_slot (mm_table_size mm) (lpn_at mm j) k) \<notin> {INVALID_LPN, lpn_at mm j}))"
    using assms(1) by (simp add: hotness_ok_def)
  from this [rule_format, OF assms(2)] assms(3,4) that show ?thesis by auto
qed

lemma tracked_once:
  assumes ok: "hotness_ok mm" and "j < mm_table_size mm" "j' < mm_table_size mm" and "lpn_at mm j = l" "lpn_at mm j' = l" "l \<noteq> INVALID_LPN"
  shows "j = j'"
proof -
  let ?n = "mm_table_size mm"
  obtain i where i: "probe_slot ?n l i = j" "\<forall>k < i. lpn_at mm (probe_slot ?n l k) \<notin> {INVALID_LPN, l}"
    using hotness_okE [OF assms(1,2,4,6)] by metis
  obtain i' where i': "probe_slot ?n l i' = j'" "\<forall>k < i'. lpn_at mm (probe_slot ?n l k) \<notin> {INVALID_LPN, l}"
    using hotness_okE [OF assms(1,3,5,6)] by metis
  have "\<not> i < i'" "\<not> i' < i" using i i' assms(4,5) by auto
  then show ?thesis using i i' by (simp add: not_less_iff_gr_or_eq)
qed

lemma hotness_of_at:
  assumes ok: "hotness_ok mm" and j: "j < mm_table_size mm" "lpn_at mm j = l" "l \<noteq> INVALID_LPN"
  shows "hotness_of mm l = Some (hotness_table mm ! j)"
proof -
  have "hot_lpn (hotness_table mm ! k) \<noteq> l" if "k < j" for k
    using tracked_once [OF ok j(1), of k l] that j by (auto simp: lpn_at_def)
  moreover have "j < length (hotness_table mm)" using ok j(1) by (simp add: hotness_ok_def)
  ultimately show ?thesis
    unfolding hotness_of_def find_Some_iff using j(2) by (intro exI [of _ j]) (simp add: lpn_at_def)
qed

lemma hotness_of_None:
  assumes "hotness_ok mm"
  shows "hotness_of mm l = None \<longleftrightarrow> (\<forall>j < mm_table_size mm. lpn_at mm j \<noteq> l)"
proof -
  have "length (hotness_table mm) = mm_table_size mm" using assms by (simp add: hotness_ok_def)
  then have "(\<exists>e \<in> set (hotness_table mm). hot_lpn e = l) \<longleftrightarrow> (\<exists>j < mm_table_size mm. lpn_at mm j = l)"
    unfolding lpn_at_def by (metis in_set_conv_nth)
  then show ?thesis by (auto simp: hotness_of_def find_None_iff)
qed

lemma hotness_insert:
  assumes ok: "hotness_ok mm" and new: "\<forall>j < mm_table_size mm. lpn_at mm j \<noteq> lpn" "lpn \<noteq> INVALID_LPN"
    and i: "i < mm_table_size mm" and free: "lpn_at mm (probe_slot (mm_table_size mm) lpn i) = INVALID_LPN"
    and least: "\<forall>k < i. lpn_at mm (probe_slot (mm_table_size mm) lpn k) \<noteq> INVALID_LPN"
  shows "hotness_ok (mm\<lparr> hotness_table := (hotness_table mm)[probe_slot (mm_table_size mm) lpn i := fresh_hotness lpn] \<rparr>)"
proof -
  let ?n = "mm_table_size mm" and ?mm = "mm\<lparr> hotness_table := (hotness_table mm)[probe_slot (mm_table_size mm) lpn i := fresh_hotness lpn] \<rparr>"
  have n: "0 < ?n" "?n < 2 ^ 62" "length (hotness_table mm) = ?n" using ok by (simp_all add: hotness_ok_def)
  have at: "lpn_at ?mm j = (if j = probe_slot ?n lpn i then lpn else lpn_at mm j)" if "j < ?n" for j
    using that n by (simp add: lpn_at_def fresh_hotness_def)
  have "\<exists>i' < ?n. probe_slot ?n (lpn_at ?mm j) i' = j
      \<and> (\<forall>k < i'. lpn_at ?mm (probe_slot ?n (lpn_at ?mm j) k) \<notin> {INVALID_LPN, lpn_at ?mm j})"
    if j: "j < ?n" "lpn_at ?mm j \<noteq> INVALID_LPN" for j
  proof (cases "j = probe_slot ?n lpn i")
    case True
    have "probe_slot ?n lpn k \<noteq> probe_slot ?n lpn i" if "k < i" for k using probe_slot_inj [of k ?n i lpn] that i by auto
    then have "\<forall>k < i. lpn_at ?mm (probe_slot ?n lpn k) \<notin> {INVALID_LPN, lpn}" using at least new n i by simp
    moreover have "lpn_at ?mm j = lpn" using at [OF j(1)] True by simp
    ultimately show ?thesis using True i by (intro exI [of _ i]) simp
  next
    case False
    then have l: "lpn_at ?mm j = lpn_at mm j" "lpn_at mm j \<noteq> lpn" using at j(1) new by simp_all
    with ok j obtain i' where i': "i' < ?n" "probe_slot ?n (lpn_at mm j) i' = j"
      "\<forall>k < i'. lpn_at mm (probe_slot ?n (lpn_at mm j) k) \<notin> {INVALID_LPN, lpn_at mm j}" unfolding hotness_ok_def by metis
    then have "\<forall>k < i'. lpn_at ?mm (probe_slot ?n (lpn_at mm j) k) \<notin> {INVALID_LPN, lpn_at mm j}"
      using at new(2) l(2) n(1) by auto
    with i' l show ?thesis by auto
  qed
  with n show ?thesis by (simp add: hotness_ok_def)
qed

lemma get_hotness_entry_map:
  assumes "hotness_ok mm" and "lpn \<noteq> INVALID_LPN"
  shows "\<exists>r mm'. get_hotness_entry mm lpn = Some (r, mm') \<and> hotness_ok mm' \<and> (case r of
      None \<Rightarrow> mm' = mm \<and> hotness_of mm lpn = None \<and> hotness_of mm INVALID_LPN = None
    | Some i \<Rightarrow> hotness_of mm' lpn = Some (hotness_table mm' ! i) \<and> hot_lpn (hotness_table mm' ! i) = lpn
        \<and> hotness_of mm' lpn = Some (case hotness_of mm lpn of None \<Rightarrow> fresh_hotness lpn | Some e \<Rightarrow> e)
        \<and> (\<forall>l. l \<noteq> lpn \<and> l \<noteq> INVALID_LPN \<longrightarrow> hotness_of mm' l = hotness_of mm l))"
proof -
  let ?n = "mm_table_size mm"
  have n: "0 < ?n" "?n < 2 ^ 62" "length (hotness_table mm) = ?n" using assms(1) by (simp_all add: hotness_ok_def)
  note find = probe_finds [OF refl n, where a = 0]
  have run: "get_hotness_entry mm lpn = hotness_probe lpn (lpn mod ?n) [0..<?n] mm"
    using n by (simp add: get_hotness_entry_def)
  consider (tracked) j where "j < ?n" "lpn_at mm j = lpn"
    | (free) j where "j < ?n" "lpn_at mm j = INVALID_LPN" "\<forall>j < ?n. lpn_at mm j \<noteq> lpn"
    | (full) "\<forall>j < ?n. lpn_at mm j \<noteq> lpn" "\<forall>j < ?n. lpn_at mm j \<noteq> INVALID_LPN" by blast
  then show ?thesis
  proof cases
    case tracked
    then obtain i where i: "i < ?n" "probe_slot ?n lpn i = j" "\<forall>k < i. lpn_at mm (probe_slot ?n lpn k) \<notin> {INVALID_LPN, lpn}"
      using assms unfolding hotness_ok_def by blast
    have "hotness_probe lpn (lpn mod ?n) [0..<?n] mm = Some (Some j, mm)"
      using find [of i lpn] i tracked assms(2) by simp
    with hotness_of_at [OF assms(1) tracked(1,2) assms(2)] tracked assms(1) show ?thesis
      by (simp add: run lpn_at_def)
  next
    case free
    let ?P = "\<lambda>i. i < ?n \<and> lpn_at mm (probe_slot ?n lpn i) = INVALID_LPN"
    have "\<exists>i. ?P i" using probe_slot_surj [OF free(1), of lpn] free(2) by metis
    then obtain i where "?P i" and "\<forall>k < i. \<not> ?P k" using exists_least_iff [of ?P] by blast
    then have i: "i < ?n" "lpn_at mm (probe_slot ?n lpn i) = INVALID_LPN"
      and least: "\<forall>k < i. lpn_at mm (probe_slot ?n lpn k) \<noteq> INVALID_LPN" by auto
    let ?j = "probe_slot ?n lpn i" and ?mm = "mm\<lparr> hotness_table := (hotness_table mm)[probe_slot ?n lpn i := fresh_hotness lpn] \<rparr>"
    have "hotness_probe lpn (lpn mod ?n) [0..<?n] mm = Some (Some ?j, ?mm)"
      using find [OF i(1), of lpn] i(2) least free(3) n(1) by simp
    moreover have ok: "hotness_ok ?mm" using hotness_insert [OF assms(1) free(3) assms(2) i least] .
    have j: "?j < ?n" using n by simp
    have at: "lpn_at ?mm k = (if k = ?j then lpn else lpn_at mm k)" if "k < ?n" for k
      using that n by (simp add: lpn_at_def fresh_hotness_def)
    have "hotness_of ?mm lpn = Some (fresh_hotness lpn)"
      using hotness_of_at [OF ok, of ?j lpn] j at [OF j] assms(2) n(3) by simp
    moreover have "hotness_of ?mm l = hotness_of mm l" if l: "l \<noteq> lpn" "l \<noteq> INVALID_LPN" for l
    proof (cases "\<exists>k < ?n. lpn_at mm k = l")
      case True
      then obtain k where k: "k < ?n" "lpn_at mm k = l" by blast
      then have "k \<noteq> ?j" using i l(2) by auto
      with k hotness_of_at [OF ok, of k l] hotness_of_at [OF assms(1) k l(2)] at [OF k(1)] l(2) show ?thesis by simp
    next
      case False
      then have "hotness_of mm l = None" using hotness_of_None [OF assms(1)] by blast
      moreover have "hotness_of ?mm l = None" using hotness_of_None [OF ok] False at l(1) by auto
      ultimately show ?thesis by simp
    qed
    moreover have "hotness_of mm lpn = None" using hotness_of_None [OF assms(1)] free(3) by blast
    moreover have "hotness_table ?mm ! ?j = fresh_hotness lpn" using j n by simp
    ultimately show ?thesis using ok run
      by (intro exI [of _ "Some ?j"] exI [of _ ?mm]) (simp add: fresh_hotness_def)
  next
    case full
    then have "hotness_probe lpn (lpn mod ?n) [0..<?n] mm = Some (None, mm)"
      using n by (intro probe_full [OF refl n]) simp_all
    with full hotness_of_None [OF assms(1)] assms(1) show ?thesis by (simp add: run)
  qed
qed

text \<open>C15: The hotness table is a map from logical pages to entries. A lookup returns the page's entry;
  a page not yet tracked gets a fresh entry in the first empty slot of its probe sequence, which loses
  no other page's entry; only when every slot is taken is there no entry, and then nothing changes.\<close>

theorem get_hotness_entry_is_map:
  assumes "hotness_ok mm" and "lpn \<noteq> INVALID_LPN"
  shows "\<exists>r mm'. get_hotness_entry mm lpn = Some (r, mm') \<and> hotness_ok mm' \<and> (case r of
      None \<Rightarrow> mm' = mm \<and> hotness_of mm lpn = None \<and> hotness_of mm INVALID_LPN = None
    | Some i \<Rightarrow> hotness_of mm' lpn = Some (hotness_table mm' ! i) \<and> hot_lpn (hotness_table mm' ! i) = lpn
        \<and> hotness_of mm' lpn = Some (case hotness_of mm lpn of None \<Rightarrow> fresh_hotness lpn | Some e \<Rightarrow> e)
        \<and> (\<forall>l. l \<noteq> lpn \<and> l \<noteq> INVALID_LPN \<longrightarrow> hotness_of mm' l = hotness_of mm l))"
  using assms by (rule get_hotness_entry_map)

lemma init_hotness_ok:
  assumes "0 < hotness_table_size (spp_of ftl)" and "hotness_table_size (spp_of ftl) < 2 ^ 62"
  shows "hotness_ok (migration (init_hotness_tracking ftl))"
  using assms by (simp add: hotness_ok_def init_hotness_tracking_def Let_def lpn_at_def fresh_hotness_def)

definition tiny_hotness :: migration_mgmt where
  "tiny_hotness = migration (init_hotness_tracking (tiny_ftl\<lparr> ftl_ssd := tiny_ssd\<lparr> ssd_sp := tiny_params\<lparr> hotness_table_size := 4 \<rparr> \<rparr> \<rparr>))"

lemma tiny_hotness_ok: "hotness_ok tiny_hotness"
  unfolding tiny_hotness_def by (rule init_hotness_ok) simp_all

lemma get_hotness_entry_is_map_witness:
  "\<exists>r mm'. get_hotness_entry tiny_hotness 6 = Some (r, mm') \<and> hotness_ok mm'"
  using get_hotness_entry_is_map [OF tiny_hotness_ok, of 6] by (auto simp: INVALID_LPN_def)

lemma put_hotness_ok:
  assumes ok: "hotness_ok mm" and i: "hotness_of mm lpn = Some (hotness_table mm ! i)" "hot_lpn (hotness_table mm ! i) = lpn"
    and il: "i < mm_table_size mm" and l: "lpn \<noteq> INVALID_LPN" and f: "hot_lpn (f (hotness_table mm ! i)) = lpn"
  shows "\<exists>mm'. put_hotness mm i f = Some mm' \<and> hotness_ok mm' \<and> hotness_of mm' lpn = Some (f (hotness_table mm ! i))
    \<and> mm_table_size mm' = mm_table_size mm"
proof -
  let ?mm = "mm\<lparr> hotness_table := (hotness_table mm)[i := f (hotness_table mm ! i)] \<rparr>"
  have len: "length (hotness_table mm) = mm_table_size mm" using ok by (simp add: hotness_ok_def)
  have at: "lpn_at ?mm j = lpn_at mm j" for j
    using f i(2) il len by (cases "j = i"; cases "i < length (hotness_table mm)") (simp_all add: lpn_at_def)
  have ok': "hotness_ok ?mm" using ok unfolding hotness_ok_def at by simp
  have "hotness_of ?mm lpn = Some (hotness_table ?mm ! i)"
    by (rule hotness_of_at [OF ok']) (use il l at i(2) in \<open>simp_all add: lpn_at_def\<close>)
  with ok' il len show ?thesis by (simp add: put_hotness_def)
qed

lemma probe_index: "hotness_probe lpn h is mm = Some (Some i, mm') \<Longrightarrow> i < mm_table_size mm' \<and> mm_table_size mm' = mm_table_size mm"
  by (induction "is" arbitrary: i mm') (auto simp: fault_simps split: if_splits)

text \<open>Each access counts: the entry's total and recent access counts grow by one, modulo 2^32, and
  its time is the current one. The ageing step, which would lower the recent count after a second
  without access, never runs, because the time of the last access is overwritten before it is tested.\<close>

theorem update_page_hotness_never_ages:
  assumes "hotness_ok mm" and "lpn \<noteq> INVALID_LPN" and "hotness_of mm lpn = Some e" and "now < 2 ^ 64"
  shows "\<exists>mm'. update_page_hotness now mm lpn = Some mm' \<and> hotness_ok mm'
    \<and> hotness_of mm' lpn = Some (e\<lparr> access_count := access_count e + 1, recent_access := recent_access e + 1, last_access_time := now \<rparr>)"
proof -
  obtain r mm1 where g: "get_hotness_entry mm lpn = Some (r, mm1)" "hotness_ok mm1" and c: "case r of
      None \<Rightarrow> mm1 = mm \<and> hotness_of mm lpn = None \<and> hotness_of mm INVALID_LPN = None
    | Some i \<Rightarrow> hotness_of mm1 lpn = Some (hotness_table mm1 ! i) \<and> hot_lpn (hotness_table mm1 ! i) = lpn
        \<and> hotness_of mm1 lpn = Some (case hotness_of mm lpn of None \<Rightarrow> fresh_hotness lpn | Some e \<Rightarrow> e)
        \<and> (\<forall>l. l \<noteq> lpn \<and> l \<noteq> INVALID_LPN \<longrightarrow> hotness_of mm1 l = hotness_of mm l)"
    using get_hotness_entry_map [OF assms(1,2)] by blast
  obtain i where r: "r = Some i" using c assms(3) by (cases r) simp_all
  have i: "hotness_of mm1 lpn = Some (hotness_table mm1 ! i)" "hot_lpn (hotness_table mm1 ! i) = lpn" "hotness_table mm1 ! i = e"
    using c r assms(3) by auto
  have il: "i < mm_table_size mm1" 
  proof -
    from g(1) r have "hotness_probe lpn (lpn mod mm_table_size mm) [0..<mm_table_size mm] mm = Some (Some i, mm1)"
      by (auto simp: get_hotness_entry_def fault_simps)
    from probe_index [OF this] show ?thesis by simp
  qed
  let ?f = "\<lambda>e. let e = e\<lparr> access_count := access_count e + 1, recent_access := recent_access e + 1, last_access_time := now \<rparr>
          in if sub64 now (last_access_time e) > 1000000000
             then e\<lparr> recent_access := (if recent_access e > 0 then recent_access e - 1 else 0) \<rparr>
             else e"
  have e: "?f e = e\<lparr> access_count := access_count e + 1, recent_access := recent_access e + 1, last_access_time := now \<rparr>"
    using assms(4) by simp
  from put_hotness_ok [OF g(2) i(1,2) il assms(2), of ?f] e i(2,3) show ?thesis
    using g(1) r by (auto simp: update_page_hotness_def)
qed

lemma update_page_hotness_never_ages_witness:
  "\<exists>mm mm' e. update_page_hotness 5000000000 mm 6 = Some mm' \<and> hotness_of mm 6 = Some e"
proof -
  have 6: "6 \<noteq> INVALID_LPN" by (simp add: INVALID_LPN_def)
  have "hotness_of tiny_hotness INVALID_LPN \<noteq> None"
    by (simp add: hotness_of_def tiny_hotness_def init_hotness_tracking_def fresh_hotness_def numeral_eq_Suc)
  with get_hotness_entry_map [OF tiny_hotness_ok 6] obtain mm e where mm: "hotness_ok mm" "hotness_of mm 6 = Some e"
    by (auto split: option.splits)
  from update_page_hotness_never_ages [OF mm(1) 6 mm(2), of 5000000000] mm(2) show ?thesis by auto
qed

end
