(* ===== verification/Nvme.thy ===== *)
theory Nvme
  imports Ssd
begin

text \<open>
  The NVMe interface shared by the command handlers (\<open>nvme.h\<close>, \<open>nvme_zns.h\<close>, \<open>nvmev.h\<close>): opcodes,
  status codes, commands, requests and results. A command is kept as the dwords the host wrote; the
  members of the union \<open>nvme_command\<close> are functions that read them.
\<close>

section \<open>Opcodes and status codes\<close>

definition nvme_cmd_flush :: nat where "nvme_cmd_flush = 0x00"
definition nvme_cmd_write :: nat where "nvme_cmd_write = 0x01"
definition nvme_cmd_read :: nat where "nvme_cmd_read = 0x02"
definition nvme_cmd_zone_mgmt_send :: nat where "nvme_cmd_zone_mgmt_send = 0x79"
definition nvme_cmd_zone_mgmt_recv :: nat where "nvme_cmd_zone_mgmt_recv = 0x7a"
definition nvme_cmd_zone_append :: nat where "nvme_cmd_zone_append = 0x7d"

lemmas opcodes = nvme_cmd_flush_def nvme_cmd_write_def nvme_cmd_read_def nvme_cmd_zone_mgmt_send_def
  nvme_cmd_zone_mgmt_recv_def nvme_cmd_zone_append_def

definition NVME_SC_SUCCESS :: nat where "NVME_SC_SUCCESS = 0x0"
definition NVME_SC_INVALID_FIELD :: nat where "NVME_SC_INVALID_FIELD = 0x2"

definition NVME_SCT_CMD_SPECIFIC_STATUS :: nat where "NVME_SCT_CMD_SPECIFIC_STATUS = 1"

definition NVME_SC_ZNS_INVALID_ZONE_OPERATION :: nat where
  "NVME_SC_ZNS_INVALID_ZONE_OPERATION = NVME_SCT_CMD_SPECIFIC_STATUS * 2 ^ 8 + 0xB6"
definition NVME_SC_ZNS_ZRWA_RSRC_UNAVAIL :: nat where "NVME_SC_ZNS_ZRWA_RSRC_UNAVAIL = NVME_SC_ZNS_INVALID_ZONE_OPERATION + 1"
definition NVME_SC_ZNS_ERR_BOUNDARY :: nat where "NVME_SC_ZNS_ERR_BOUNDARY = NVME_SC_ZNS_INVALID_ZONE_OPERATION + 2"
definition NVME_SC_ZNS_ERR_FULL :: nat where "NVME_SC_ZNS_ERR_FULL = NVME_SC_ZNS_INVALID_ZONE_OPERATION + 3"
definition NVME_SC_ZNS_ERR_READ_ONLY :: nat where "NVME_SC_ZNS_ERR_READ_ONLY = NVME_SC_ZNS_INVALID_ZONE_OPERATION + 4"
definition NVME_SC_ZNS_ERR_OFFLINE :: nat where "NVME_SC_ZNS_ERR_OFFLINE = NVME_SC_ZNS_INVALID_ZONE_OPERATION + 5"
definition NVME_SC_ZNS_INVALID_WRITE :: nat where "NVME_SC_ZNS_INVALID_WRITE = NVME_SC_ZNS_INVALID_ZONE_OPERATION + 6"
definition NVME_SC_ZNS_NO_ACTIVE_ZONE :: nat where "NVME_SC_ZNS_NO_ACTIVE_ZONE = NVME_SC_ZNS_INVALID_ZONE_OPERATION + 7"
definition NVME_SC_ZNS_NO_OPEN_ZONE :: nat where "NVME_SC_ZNS_NO_OPEN_ZONE = NVME_SC_ZNS_INVALID_ZONE_OPERATION + 8"
definition NVME_SC_ZNS_INVALID_TRANSITION :: nat where "NVME_SC_ZNS_INVALID_TRANSITION = NVME_SC_ZNS_INVALID_ZONE_OPERATION + 9"

lemmas status_codes = NVME_SC_SUCCESS_def NVME_SC_INVALID_FIELD_def NVME_SCT_CMD_SPECIFIC_STATUS_def
  NVME_SC_ZNS_INVALID_ZONE_OPERATION_def NVME_SC_ZNS_ZRWA_RSRC_UNAVAIL_def NVME_SC_ZNS_ERR_BOUNDARY_def
  NVME_SC_ZNS_ERR_FULL_def NVME_SC_ZNS_ERR_READ_ONLY_def NVME_SC_ZNS_ERR_OFFLINE_def NVME_SC_ZNS_INVALID_WRITE_def
  NVME_SC_ZNS_NO_ACTIVE_ZONE_def NVME_SC_ZNS_NO_OPEN_ZONE_def NVME_SC_ZNS_INVALID_TRANSITION_def

datatype nvme_csi = NVME_CSI_NVM | NVME_CSI_KV | NVME_CSI_ZNS

section \<open>Commands\<close>

record nvme_command =
  opcode :: nat
  command_id :: nat
  nsid :: nat
  prp1 :: nat
  prp2 :: nat
  cdw10 :: nat
  cdw11 :: nat
  cdw12 :: nat
  cdw13 :: nat

text \<open>\<open>struct nvme_rw_command\<close>.\<close>

definition rw_slba :: "nvme_command \<Rightarrow> nat" where
  "rw_slba c = u32 (cdw10 c) + u32 (cdw11 c) * 2 ^ 32"

definition set_rw_slba :: "nat \<Rightarrow> nvme_command \<Rightarrow> nvme_command" where
  "set_rw_slba v c = c\<lparr> cdw10 := u32 v, cdw11 := u32 (v div 2 ^ 32) \<rparr>"

definition rw_length :: "nvme_command \<Rightarrow> nat" where
  "rw_length c = cdw12 c mod 2 ^ 16"

definition rw_control :: "nvme_command \<Rightarrow> nat" where
  "rw_control c = cdw12 c div 2 ^ 16 mod 2 ^ 16"

definition NVME_RW_FUA :: nat where "NVME_RW_FUA = 2 ^ 14"

definition rw_fua :: "nvme_command \<Rightarrow> bool" where
  "rw_fua c \<longleftrightarrow> odd (rw_control c div NVME_RW_FUA)"

text \<open>\<open>struct nvme_zone_mgmt_send\<close>.\<close>

definition zsend_zsa :: "nvme_command \<Rightarrow> nat" where "zsend_zsa c = cdw13 c mod 2 ^ 8"
definition zsend_select_all :: "nvme_command \<Rightarrow> bool" where "zsend_select_all c = odd (cdw13 c div 2 ^ 8)"
definition zsend_zsaso :: "nvme_command \<Rightarrow> bool" where "zsend_zsaso c = odd (cdw13 c div 2 ^ 9)"

text \<open>\<open>struct nvme_zone_mgmt_recv\<close>.\<close>

definition zrecv_nr_dw :: "nvme_command \<Rightarrow> nat" where "zrecv_nr_dw c = u32 (cdw12 c)"
definition zrecv_zra :: "nvme_command \<Rightarrow> nat" where "zrecv_zra c = cdw13 c mod 2 ^ 8"
definition zrecv_specific_field :: "nvme_command \<Rightarrow> nat" where "zrecv_specific_field c = cdw13 c div 2 ^ 8 mod 2 ^ 8"
definition zrecv_specific_features :: "nvme_command \<Rightarrow> nat" where "zrecv_specific_features c = cdw13 c div 2 ^ 16 mod 2"

lemma rw_slba_bound [simp]: "rw_slba c < 18446744073709551616"
proof -
  have "u32 (cdw10 c) \<le> 4294967295" "u32 (cdw11 c) \<le> 4294967295"
    using u32_less [of "cdw10 c"] u32_less [of "cdw11 c"] by linarith+
  then show ?thesis unfolding rw_slba_def by simp
qed

lemma rw_slba_set [simp]: "v < 18446744073709551616 \<Longrightarrow> rw_slba (set_rw_slba v c) = v"
  by (simp add: rw_slba_def set_rw_slba_def u32_def)

lemma set_rw_slba_other [simp]: "opcode (set_rw_slba v c) = opcode c" "rw_length (set_rw_slba v c) = rw_length c"
  "rw_control (set_rw_slba v c) = rw_control c" "rw_fua (set_rw_slba v c) = rw_fua c"
  by (simp_all add: set_rw_slba_def rw_length_def rw_control_def rw_fua_def)

section \<open>Requests and results\<close>

record nvmev_request =
  req_cmd :: nvme_command
  req_sq_id :: nat
  req_nsecs_start :: nat

record nvmev_result =
  ret_status :: nat
  ret_nsecs_target :: nat
  ret_early_completion :: nat
  ret_result :: nat

text \<open>A pointer to a write buffer, and a request to release part of one at a given time.\<close>

datatype buffer_ref = SSD_BUFFER | ZONE_WRITE_BUFFER nat | ZRWA_BUFFER nat

record writeback =
  wb_sqid :: nat
  wb_nsecs_target :: nat
  wb_buffer :: buffer_ref
  wb_buffs_to_release :: nat

text \<open>
  What a command handler reads and writes besides its FTL: the request (an append stores the start
  address into the command), the result, and the writeback requests queued for the worker, in order.
\<close>

record io_env =
  env_req :: nvmev_request
  env_ret :: nvmev_result
  env_wbs :: "writeback list"

definition enqueue_writeback :: "nat \<Rightarrow> nat \<Rightarrow> buffer_ref \<Rightarrow> nat \<Rightarrow> io_env \<Rightarrow> io_env" where
  "enqueue_writeback sqid t buf n e =
     e\<lparr> env_wbs := env_wbs e @ [\<lparr> wb_sqid = sqid, wb_nsecs_target = t, wb_buffer = buf, wb_buffs_to_release = n \<rparr>] \<rparr>"

text \<open>The namespace; \<open>ftls\<close> points to \<open>nr_parts\<close> instances of the kind \<open>csi\<close> and the handler decide.\<close>

datatype io_handler = conv_proc_nvme_io_cmd | zns_proc_nvme_io_cmd | simple_proc_nvme_io_cmd | kv_proc_nvme_io_cmd

record 'f nvmev_ns =
  ns_id :: nat
  ns_csi :: nvme_csi
  ns_size :: nat
  ns_mapped :: nat
  ns_nr_parts :: nat
  ns_ftls :: "'f list"
  ns_proc_io_cmd :: io_handler

text \<open>The flush handlers wait for the latest completion of all instances.\<close>

definition flush_target :: "nat \<Rightarrow> ssd list \<Rightarrow> nat option" where
  "flush_target now ssds = foldM (\<lambda>s latest. do { t \<leftarrow> ssd_next_idle_time now s; Some (max latest t) }) ssds now"

text \<open>The table of opcode names ends at \<open>nvme_cmd_zone_append\<close>: the message about an unknown command
  reads past it for larger opcodes.\<close>

definition nvme_opcode_string_ok :: "nat \<Rightarrow> bool" where
  "nvme_opcode_string_ok op \<longleftrightarrow> op \<le> nvme_cmd_zone_append"

end
