(* ===== verification/Zone.thy ===== *)
theory Zone
  imports Nvme
begin

text \<open>
  The zoned namespace: the zones, their state machine and the zone management commands
  (\<open>zns_ftl.h\<close>, \<open>zns_ftl.c\<close>, \<open>zns_mgmt_send.c\<close>, the types of \<open>nvme_zns.h\<close>). The macros of the zoned
  builds (\<open>ZONE_SIZE\<close>, ...) are defined by no header of the repository and are a parameter.
  \<open>ASSERT\<close> expands to nothing (\<open>nvmev.h\<close>), so it has no branch here. The backing memory of the
  namespace is a function from the offset from \<open>storage_base_addr\<close> to the byte.
\<close>

section \<open>Data\<close>

datatype zone_state = ZONE_STATE_EMPTY | ZONE_STATE_OPENED_IMPL | ZONE_STATE_OPENED_EXPL | ZONE_STATE_CLOSED
  | ZONE_STATE_READ_ONLY | ZONE_STATE_FULL | ZONE_STATE_OFFLINE

datatype zone_resource_type = ACTIVE_ZONE | OPEN_ZONE | ZRWA_ZONE

definition ZONE_TYPE_SEQ_WRITE_REQUIRED :: nat where "ZONE_TYPE_SEQ_WRITE_REQUIRED = 2"

text \<open>The other bits of a descriptor are cleared at start and never written.\<close>

record zone_descriptor =
  zd_type :: nat
  zd_state :: zone_state
  zrwav :: bool
  zone_capacity :: nat
  zslba :: nat
  zd_wp :: nat

record zone_report =
  rep_nr_zones :: nat
  rep_zd :: "zone_descriptor list"

record zns_macros =
  ZONE_SIZE :: nat
  DIES_PER_ZONE :: nat
  MAX_ZRWA_ZONES :: nat
  ZONE_WB_SIZE :: nat
  ZRWA_SIZE :: nat
  ZRWAFG_SIZE :: nat
  ZRWA_BUFFER_SIZE :: nat

record znsparams =
  nr_zones :: nat
  nr_active_zones :: nat
  nr_open_zones :: nat
  dies_per_zone :: nat
  zone_size :: nat
  zone_wb_size :: nat
  nr_zrwa_zones :: nat
  zrwafg_size :: nat
  zrwa_size :: nat
  zrwa_buffer_size :: nat
  lbas_per_zrwafg :: nat
  lbas_per_zrwa :: nat

record zone_resource_info =
  acquired_cnt :: nat
  total_cnt :: nat

record zns_ftl =
  zf_ssd :: ssd
  zp :: znsparams
  res_infos :: "zone_resource_type \<Rightarrow> zone_resource_info"
  zone_descs :: "zone_descriptor list"
  report_buffer :: zone_report
  zone_write_buffer :: "buffer list"
  zwra_buffer :: "buffer list"
  zf_storage :: "nat \<Rightarrow> 8 word"

abbreviation zspp :: "zns_ftl \<Rightarrow> ssdparams" where
  "zspp f \<equiv> ssd_sp (zf_ssd f)"

section \<open>Resources and addresses\<close>

definition is_zone_resource_avail :: "zns_ftl \<Rightarrow> zone_resource_type \<Rightarrow> bool" where
  "is_zone_resource_avail f k \<longleftrightarrow> acquired_cnt (res_infos f k) < total_cnt (res_infos f k)"

definition is_zone_resource_full :: "zns_ftl \<Rightarrow> zone_resource_type \<Rightarrow> bool" where
  "is_zone_resource_full f k \<longleftrightarrow> acquired_cnt (res_infos f k) = total_cnt (res_infos f k)"

definition set_acquired :: "zone_resource_type \<Rightarrow> nat \<Rightarrow> zns_ftl \<Rightarrow> zns_ftl" where
  "set_acquired k n f = f\<lparr> res_infos := (res_infos f)(k := (res_infos f k)\<lparr> acquired_cnt := n \<rparr>) \<rparr>"

definition acquire_zone_resource :: "zns_ftl \<Rightarrow> zone_resource_type \<Rightarrow> bool \<times> zns_ftl" where
  "acquire_zone_resource f k =
     (if is_zone_resource_avail f k then (True, set_acquired k (u32 (acquired_cnt (res_infos f k) + 1)) f) else (False, f))"

definition release_zone_resource :: "zone_resource_type \<Rightarrow> zns_ftl \<Rightarrow> zns_ftl" where
  "release_zone_resource k f = set_acquired k (sub32 (acquired_cnt (res_infos f k)) 1) f"

definition on_zone :: "zns_ftl \<Rightarrow> nat \<Rightarrow> (zone_descriptor \<Rightarrow> zone_descriptor) \<Rightarrow> zns_ftl option" where
  "on_zone f zid g = do {
     z \<leftarrow> arr_get (zone_descs f) zid;
     d \<leftarrow> arr_set (zone_descs f) zid (g z);
     Some (f\<lparr> zone_descs := d \<rparr>)
   }"

definition change_zone_state :: "zns_ftl \<Rightarrow> nat \<Rightarrow> zone_state \<Rightarrow> zns_ftl option" where
  "change_zone_state f zid st = on_zone f zid (\<lambda>z. z\<lparr> zd_state := st \<rparr>)"

definition lpn_to_zone :: "zns_ftl \<Rightarrow> nat \<Rightarrow> nat option" where
  "lpn_to_zone f lpn = do {
     n \<leftarrow> div_trap (zone_size (zp f)) (pgsz (zspp f));
     q \<leftarrow> div_trap lpn n;
     Some (u32 q)
   }"

text \<open>The products of a zone number and a zone size are computed in 32 bits.\<close>

definition zone_to_slpn :: "zns_ftl \<Rightarrow> nat \<Rightarrow> nat option" where
  "zone_to_slpn f zid = do { n \<leftarrow> div_trap (zone_size (zp f)) (pgsz (zspp f)); Some (u32 (zid * n)) }"

definition lba_to_zone :: "zns_ftl \<Rightarrow> nat \<Rightarrow> nat option" where
  "lba_to_zone f lba = do {
     n \<leftarrow> div_trap (zone_size (zp f)) (secsz (zspp f));
     q \<leftarrow> div_trap lba n;
     Some (u32 q)
   }"

definition zone_to_slba :: "zns_ftl \<Rightarrow> nat \<Rightarrow> nat option" where
  "zone_to_slba f zid = do { n \<leftarrow> div_trap (zone_size (zp f)) (secsz (zspp f)); Some (u32 (u32 zid * n)) }"

definition zone_to_elba :: "zns_ftl \<Rightarrow> nat \<Rightarrow> nat option" where
  "zone_to_elba f zid = do { s \<leftarrow> zone_to_slba f (zid + 1); Some (sub64 s 1) }"

definition zone_to_elpn :: "zns_ftl \<Rightarrow> nat \<Rightarrow> nat option" where
  "zone_to_elpn f zid = do { e \<leftarrow> zone_to_elba f zid; div_trap e (secs_per_pg (zspp f)) }"

definition die_to_channel :: "zns_ftl \<Rightarrow> nat \<Rightarrow> nat option" where
  "die_to_channel f die = mod_trap die (nchs (zspp f))"

definition die_to_lun :: "zns_ftl \<Rightarrow> nat \<Rightarrow> nat option" where
  "die_to_lun f die = div_trap die (nchs (zspp f))"

definition lba_to_lpn :: "zns_ftl \<Rightarrow> nat \<Rightarrow> nat option" where
  "lba_to_lpn f lba = div_trap lba (secs_per_pg (zspp f))"

definition get_storage_addr_from_zid :: "zns_ftl \<Rightarrow> nat \<Rightarrow> nat" where
  "get_storage_addr_from_zid f zid = u64 (zid * zone_size (zp f))"

section \<open>Initialisation\<close>

text \<open>The loop of \<open>__init_descriptor\<close>, from zone \<open>i\<close> on; \<open>zslba\<close> is a \<open>uint64_t\<close>.\<close>

primrec init_descriptors :: "znsparams \<Rightarrow> nat \<Rightarrow> nat \<Rightarrow> zone_descriptor list" where
  "init_descriptors zpp s 0 = []"
| "init_descriptors zpp s (Suc n) =
     \<lparr> zd_type = ZONE_TYPE_SEQ_WRITE_REQUIRED, zd_state = ZONE_STATE_EMPTY, zrwav = False,
       zone_capacity = BYTE_TO_LBA (zone_size zpp), zslba = s, zd_wp = s \<rparr>
     # init_descriptors zpp (u64 (s + BYTE_TO_LBA (zone_size zpp))) n"

text \<open>The buffers exist when their size is not zero.\<close>

definition init_descriptor :: "zns_ftl \<Rightarrow> zns_ftl" where
  "init_descriptor f =
     (let zpp = zp f in f\<lparr>
        zone_descs := init_descriptors zpp 0 (nr_zones zpp),
        zone_write_buffer := (if zone_wb_size zpp \<noteq> 0 then replicate (nr_zones zpp) (buffer_init (zone_wb_size zpp)) else []),
        zwra_buffer := (if zrwa_buffer_size zpp \<noteq> 0 then replicate (nr_zones zpp) (buffer_init (zrwa_buffer_size zpp)) else []) \<rparr>)"

definition init_resource :: "zns_ftl \<Rightarrow> zns_ftl" where
  "init_resource f = f\<lparr> res_infos := (\<lambda>_. \<lparr> acquired_cnt = 0, total_cnt = nr_zones (zp f) \<rparr>) \<rparr>"

definition zns_init_params :: "zns_macros \<Rightarrow> ssdparams \<Rightarrow> nat \<Rightarrow> znsparams option" where
  "zns_init_params mac spp capacity = do {
     n \<leftarrow> div_trap capacity (ZONE_SIZE mac);
     zrwa \<leftarrow> div_trap (u32 (ZRWA_SIZE mac)) (secsz spp);
     fg \<leftarrow> div_trap (u32 (ZRWAFG_SIZE mac)) (secsz spp);
     let zpp = \<lparr> nr_zones = u32 n, nr_active_zones = u32 n, nr_open_zones = u32 n, dies_per_zone = u32 (DIES_PER_ZONE mac),
       zone_size = u32 (ZONE_SIZE mac), zone_wb_size = u32 (ZONE_WB_SIZE mac), nr_zrwa_zones = u32 (MAX_ZRWA_ZONES mac),
       zrwafg_size = u32 (ZRWAFG_SIZE mac), zrwa_size = u32 (ZRWA_SIZE mac), zrwa_buffer_size = u32 (ZRWA_BUFFER_SIZE mac),
       lbas_per_zrwafg = fg, lbas_per_zrwa = zrwa \<rparr>;
     nvmev_assert (zone_size zpp \<noteq> 0 \<and> capacity mod zone_size zpp = 0);
     nvmev_assert (pgsz spp \<noteq> 0 \<and> zone_size zpp mod pgsz spp = 0);
     Some zpp
   }"

text \<open>\<open>mem\<close> is the content of the mapped memory.\<close>

definition zns_init_ftl :: "znsparams \<Rightarrow> ssd \<Rightarrow> (nat \<Rightarrow> 8 word) \<Rightarrow> zns_ftl" where
  "zns_init_ftl zpp s mem = init_resource (init_descriptor
     \<lparr> zf_ssd = s, zp = zpp, res_infos = (\<lambda>_. \<lparr> acquired_cnt = 0, total_cnt = 0 \<rparr>), zone_descs = [],
       report_buffer = \<lparr> rep_nr_zones = 0, rep_zd = [] \<rparr>, zone_write_buffer = [], zwra_buffer = [], zf_storage = mem \<rparr>)"

text \<open>\<open>junk\<close> is what \<open>kmalloc\<close> leaves in the fields the initialisation skips.\<close>

definition zns_init_namespace ::
  "base_ssd \<Rightarrow> build_macros \<Rightarrow> ssdparams \<Rightarrow> zns_macros \<Rightarrow> nat \<Rightarrow> nat \<Rightarrow> nat \<Rightarrow> nat \<Rightarrow> (nat \<Rightarrow> 8 word) \<Rightarrow> nat \<Rightarrow> zns_ftl nvmev_ns option" where
  "zns_init_namespace b mac stack zmac junk id' size' mapped mem cpu = do {
     spp \<leftarrow> ssd_init_params b mac stack size' 1;
     s \<leftarrow> ssd_init junk spp cpu;
     zpp \<leftarrow> zns_init_params zmac spp size';
     Some \<lparr> ns_id = id', ns_csi = NVME_CSI_ZNS, ns_size = size', ns_mapped = mapped, ns_nr_parts = 1,
            ns_ftls = [zns_init_ftl zpp s mem], ns_proc_io_cmd = zns_proc_nvme_io_cmd \<rparr>
   }"

section \<open>Zone management send\<close>

definition zmgmt_send_close_zone :: "zns_ftl \<Rightarrow> nat \<Rightarrow> (nat \<times> zns_ftl) option" where
  "zmgmt_send_close_zone f zid = do {
     z \<leftarrow> arr_get (zone_descs f) zid;
     (case zd_state z of
        ZONE_STATE_OPENED_IMPL \<Rightarrow> do { f \<leftarrow> change_zone_state f zid ZONE_STATE_CLOSED; Some (NVME_SC_SUCCESS, release_zone_resource OPEN_ZONE f) }
      | ZONE_STATE_OPENED_EXPL \<Rightarrow> do { f \<leftarrow> change_zone_state f zid ZONE_STATE_CLOSED; Some (NVME_SC_SUCCESS, release_zone_resource OPEN_ZONE f) }
      | ZONE_STATE_CLOSED \<Rightarrow> Some (NVME_SC_SUCCESS, f)
      | _ \<Rightarrow> Some (NVME_SC_ZNS_INVALID_TRANSITION, f))
   }"

text \<open>The cases from \<open>ZONE_STATE_CLOSED\<close> on, which the opened states fall through to.\<close>

definition release_active :: "bool \<Rightarrow> zns_ftl \<Rightarrow> zns_ftl" where
  "release_active is_zrwa_zone f =
     (let f = release_zone_resource ACTIVE_ZONE f
      in if is_zrwa_zone then release_zone_resource ZRWA_ZONE f else f)"

definition zmgmt_send_finish_zone :: "zns_ftl \<Rightarrow> nat \<Rightarrow> (nat \<times> zns_ftl) option" where
  "zmgmt_send_finish_zone f zid = do {
     z \<leftarrow> arr_get (zone_descs f) zid;
     let done = (\<lambda>f. do { f \<leftarrow> change_zone_state f zid ZONE_STATE_FULL; Some (NVME_SC_SUCCESS, f) });
     (case zd_state z of
        ZONE_STATE_OPENED_IMPL \<Rightarrow> done (release_active (zrwav z) (release_zone_resource OPEN_ZONE f))
      | ZONE_STATE_OPENED_EXPL \<Rightarrow> done (release_active (zrwav z) (release_zone_resource OPEN_ZONE f))
      | ZONE_STATE_CLOSED \<Rightarrow> done (release_active (zrwav z) f)
      | ZONE_STATE_EMPTY \<Rightarrow> done f
      | ZONE_STATE_FULL \<Rightarrow> Some (NVME_SC_SUCCESS, f)
      | _ \<Rightarrow> Some (NVME_SC_ZNS_INVALID_TRANSITION, f))
   }"

definition open_from_closed :: "zns_ftl \<Rightarrow> nat \<Rightarrow> (nat \<times> zns_ftl) option" where
  "open_from_closed f zid =
     (let (ok, f) = acquire_zone_resource f OPEN_ZONE
      in if \<not> ok then Some (NVME_SC_ZNS_NO_OPEN_ZONE, f)
         else do { f \<leftarrow> change_zone_state f zid ZONE_STATE_OPENED_EXPL; Some (NVME_SC_SUCCESS, f) })"

definition zmgmt_send_open_zone :: "zns_ftl \<Rightarrow> nat \<Rightarrow> bool \<Rightarrow> (nat \<times> zns_ftl) option" where
  "zmgmt_send_open_zone f zid zrwa = do {
     z \<leftarrow> arr_get (zone_descs f) zid;
     (case zd_state z of
        ZONE_STATE_EMPTY \<Rightarrow>
          if is_zone_resource_full f ACTIVE_ZONE then Some (NVME_SC_ZNS_NO_ACTIVE_ZONE, f)
          else if is_zone_resource_full f OPEN_ZONE then Some (NVME_SC_ZNS_NO_OPEN_ZONE, f)
          else if zrwa \<and> is_zone_resource_full f ZRWA_ZONE then Some (NVME_SC_ZNS_ZRWA_RSRC_UNAVAIL, f)
          else do {
            f \<leftarrow> (if zrwa then on_zone (snd (acquire_zone_resource f ZRWA_ZONE)) zid (\<lambda>z. z\<lparr> zrwav := True \<rparr>) else Some f);
            open_from_closed (snd (acquire_zone_resource f ACTIVE_ZONE)) zid
          }
      | ZONE_STATE_CLOSED \<Rightarrow> open_from_closed f zid
      | ZONE_STATE_OPENED_IMPL \<Rightarrow> do { f \<leftarrow> change_zone_state f zid ZONE_STATE_OPENED_EXPL; Some (NVME_SC_SUCCESS, f) }
      | ZONE_STATE_OPENED_EXPL \<Rightarrow> Some (NVME_SC_SUCCESS, f)
      | _ \<Rightarrow> Some (NVME_SC_ZNS_INVALID_TRANSITION, f))
   }"

definition reset_zone :: "zns_ftl \<Rightarrow> nat \<Rightarrow> zns_ftl option" where
  "reset_zone f zid = do {
     let a = get_storage_addr_from_zid f zid;
     let f = f\<lparr> zf_storage := (\<lambda>x. if a \<le> x \<and> x < a + zone_size (zp f) then 0 else zf_storage f x) \<rparr>;
     f \<leftarrow> on_zone f zid (\<lambda>z. z\<lparr> zd_wp := zslba z, zrwav := False \<rparr>);
     if zrwa_buffer_size (zp f) \<noteq> 0 then do {
       buf \<leftarrow> arr_get (zwra_buffer f) zid;
       bs \<leftarrow> arr_set (zwra_buffer f) zid (buffer_refill buf);
       Some (f\<lparr> zwra_buffer := bs \<rparr>)
     } else Some f
   }"

definition zmgmt_send_reset_zone :: "zns_ftl \<Rightarrow> nat \<Rightarrow> (nat \<times> zns_ftl) option" where
  "zmgmt_send_reset_zone f zid = do {
     z \<leftarrow> arr_get (zone_descs f) zid;
     let done = (\<lambda>f. do { f \<leftarrow> change_zone_state f zid ZONE_STATE_EMPTY; f \<leftarrow> reset_zone f zid; Some (NVME_SC_SUCCESS, f) });
     (case zd_state z of
        ZONE_STATE_OPENED_IMPL \<Rightarrow> done (release_active (zrwav z) (release_zone_resource OPEN_ZONE f))
      | ZONE_STATE_OPENED_EXPL \<Rightarrow> done (release_active (zrwav z) (release_zone_resource OPEN_ZONE f))
      | ZONE_STATE_CLOSED \<Rightarrow> done (release_active (zrwav z) f)
      | ZONE_STATE_FULL \<Rightarrow> done f
      | ZONE_STATE_EMPTY \<Rightarrow> done f
      | _ \<Rightarrow> Some (NVME_SC_ZNS_INVALID_TRANSITION, f))
   }"

definition zmgmt_send_offline_zone :: "zns_ftl \<Rightarrow> nat \<Rightarrow> (nat \<times> zns_ftl) option" where
  "zmgmt_send_offline_zone f zid = do {
     z \<leftarrow> arr_get (zone_descs f) zid;
     (case zd_state z of
        ZONE_STATE_READ_ONLY \<Rightarrow> do { f \<leftarrow> change_zone_state f zid ZONE_STATE_OFFLINE; Some (NVME_SC_SUCCESS, f) }
      | ZONE_STATE_OFFLINE \<Rightarrow> Some (NVME_SC_SUCCESS, f)
      | _ \<Rightarrow> Some (NVME_SC_ZNS_INVALID_TRANSITION, f))
   }"

definition zmgmt_send_flush_explicit_zrwa :: "zns_ftl \<Rightarrow> nat \<Rightarrow> (nat \<times> zns_ftl) option" where
  "zmgmt_send_flush_explicit_zrwa f slba = do {
     zid \<leftarrow> lba_to_zone f slba;
     z \<leftarrow> arr_get (zone_descs f) zid;
     start \<leftarrow> zone_to_slba f zid;
     let wp = zd_wp z;
     let zrwa_end = min (sub64 (wp + lbas_per_zrwa (zp f)) 1) (sub64 (start + zone_capacity z) 1);
     let nr_lbas_flush = u64 (sub64 slba wp + 1);
     if \<not> zrwav z then Some (NVME_SC_ZNS_INVALID_ZONE_OPERATION, f)
     else if \<not> (wp \<le> slba \<and> slba \<le> zrwa_end) then Some (NVME_SC_ZNS_INVALID_ZONE_OPERATION, f)
     else do {
       r \<leftarrow> mod_trap nr_lbas_flush (lbas_per_zrwafg (zp f));
       if r \<noteq> 0 then Some (NVME_SC_INVALID_FIELD, f)
       else if zd_state z \<in> {ZONE_STATE_OPENED_EXPL, ZONE_STATE_OPENED_IMPL, ZONE_STATE_CLOSED} then do {
         f \<leftarrow> on_zone f zid (\<lambda>z. z\<lparr> zd_wp := u64 (slba + 1) \<rparr>);
         if u64 (slba + 1) = u64 (start + zone_capacity z) then do {
           let f = (if zd_state z \<noteq> ZONE_STATE_CLOSED then release_zone_resource OPEN_ZONE f else f);
           let f = release_active True f;
           f \<leftarrow> change_zone_state f zid ZONE_STATE_FULL;
           Some (NVME_SC_SUCCESS, f)
         } else Some (NVME_SC_SUCCESS, f)
       } else Some (NVME_SC_ZNS_INVALID_ZONE_OPERATION, f)
     }
   }"

definition ZSA_CLOSE_ZONE :: nat where "ZSA_CLOSE_ZONE = 1"
definition ZSA_FINISH_ZONE :: nat where "ZSA_FINISH_ZONE = 2"
definition ZSA_OPEN_ZONE :: nat where "ZSA_OPEN_ZONE = 3"
definition ZSA_RESET_ZONE :: nat where "ZSA_RESET_ZONE = 4"
definition ZSA_OFFLINE_ZONE :: nat where "ZSA_OFFLINE_ZONE = 5"
definition ZSA_FLUSH_EXPL_ZRWA :: nat where "ZSA_FLUSH_EXPL_ZRWA = 0x11"

lemmas zone_actions = ZSA_CLOSE_ZONE_def ZSA_FINISH_ZONE_def ZSA_OPEN_ZONE_def ZSA_RESET_ZONE_def
  ZSA_OFFLINE_ZONE_def ZSA_FLUSH_EXPL_ZRWA_def

text \<open>For any other action the status is not assigned: it is what the stack holds, \<open>junk\<close>.\<close>

definition zmgmt_send :: "nat \<Rightarrow> zns_ftl \<Rightarrow> nat \<Rightarrow> nat \<Rightarrow> bool \<Rightarrow> (nat \<times> zns_ftl) option" where
  "zmgmt_send junk f slba action option = do {
     zid \<leftarrow> lba_to_zone f slba;
     if action = ZSA_CLOSE_ZONE then zmgmt_send_close_zone f zid
     else if action = ZSA_FINISH_ZONE then zmgmt_send_finish_zone f zid
     else if action = ZSA_OPEN_ZONE then zmgmt_send_open_zone f zid option
     else if action = ZSA_RESET_ZONE then zmgmt_send_reset_zone f zid
     else if action = ZSA_OFFLINE_ZONE then zmgmt_send_offline_zone f zid
     else if action = ZSA_FLUSH_EXPL_ZRWA then zmgmt_send_flush_explicit_zrwa f slba
     else Some (junk, f)
   }"

definition zns_zmgmt_send :: "nat \<Rightarrow> zns_ftl \<Rightarrow> io_env \<Rightarrow> (io_env \<times> zns_ftl) option" where
  "zns_zmgmt_send junk f e = do {
     let c = req_cmd (env_req e);
     let action = zsend_zsa c;
     let option = zsend_zsaso c;
     _ \<leftarrow> lba_to_zone f (rw_slba c);
     (status, f) \<leftarrow> (if zsend_select_all c then do {
         f \<leftarrow> foldM (\<lambda>zid f. do { s \<leftarrow> zone_to_slba f zid; (_, f) \<leftarrow> zmgmt_send junk f s action option; Some f })
                [0..<nr_zones (zp f)] f;
         Some (NVME_SC_SUCCESS, f)
       } else zmgmt_send junk f (rw_slba c) action option);
     Some (e\<lparr> env_ret := (env_ret e)\<lparr> ret_nsecs_target := req_nsecs_start (env_req e), ret_status := status \<rparr> \<rparr>, f)
   }"

section \<open>The invariant\<close>

definition zone_opened :: "zone_descriptor \<Rightarrow> bool" where
  "zone_opened z \<longleftrightarrow> zd_state z \<in> {ZONE_STATE_OPENED_IMPL, ZONE_STATE_OPENED_EXPL}"

definition zone_active :: "zone_descriptor \<Rightarrow> bool" where
  "zone_active z \<longleftrightarrow> zone_opened z \<or> zd_state z = ZONE_STATE_CLOSED"

text \<open>Which resources a zone holds in its state.\<close>

fun holds :: "zone_resource_type \<Rightarrow> zone_descriptor \<Rightarrow> bool" where
  "holds ACTIVE_ZONE z = zone_active z"
| "holds OPEN_ZONE z = zone_opened z"
| "holds ZRWA_ZONE z = (zone_active z \<and> zrwav z)"

definition holders :: "zone_resource_type \<Rightarrow> zone_descriptor list \<Rightarrow> nat" where
  "holders k ds = length (filter (holds k) ds)"

definition zone_lbas :: "zns_ftl \<Rightarrow> nat" where
  "zone_lbas f = zone_size (zp f) div secsz (zspp f)"

definition zns_geometry :: "zns_ftl \<Rightarrow> bool" where
  "zns_geometry f \<longleftrightarrow> secsz (zspp f) = 512 \<and> pgsz (zspp f) = 4096 \<and> secs_per_pg (zspp f) = 8
     \<and> 0 < zone_size (zp f) \<and> zone_size (zp f) mod 4096 = 0 \<and> nr_zones (zp f) * zone_lbas f < 2 ^ 32
     \<and> (zrwa_buffer_size (zp f) \<noteq> 0 \<longrightarrow> length (zwra_buffer f) = nr_zones (zp f))
     \<and> (zone_wb_size (zp f) \<noteq> 0 \<longrightarrow> length (zone_write_buffer f) = nr_zones (zp f))"

definition zone_wf :: "nat \<Rightarrow> nat \<Rightarrow> zone_descriptor \<Rightarrow> bool" where
  "zone_wf Z i z \<longleftrightarrow> zslba z = i * Z \<and> zone_capacity z = Z \<and> zslba z \<le> zd_wp z \<and> zd_wp z \<le> zslba z + Z
     \<and> (zd_state z = ZONE_STATE_EMPTY \<longrightarrow> zd_wp z = zslba z \<and> \<not> zrwav z) \<and> (zone_active z \<longrightarrow> zd_wp z < zslba z + Z)"

text \<open>
  The active and open resources acquired are exactly those the zones hold; ZRWA resources may be
  acquired by no zone any more (see \<open>zrwa_write_correct\<close> in \<open>Zns_IO\<close>), but never fewer than are held.
\<close>

definition res_ok :: "zns_ftl \<Rightarrow> zone_resource_type \<Rightarrow> bool" where
  "res_ok f k \<longleftrightarrow> total_cnt (res_infos f k) = nr_zones (zp f) \<and> acquired_cnt (res_infos f k) \<le> nr_zones (zp f)
     \<and> holders k (zone_descs f) \<le> acquired_cnt (res_infos f k)
     \<and> (k \<noteq> ZRWA_ZONE \<longrightarrow> acquired_cnt (res_infos f k) = holders k (zone_descs f))"

definition zns_inv :: "zns_ftl \<Rightarrow> bool" where
  "zns_inv f \<longleftrightarrow> zns_geometry f \<and> length (zone_descs f) = nr_zones (zp f)
     \<and> (\<forall>i < nr_zones (zp f). zone_wf (zone_lbas f) i (zone_descs f ! i)) \<and> (\<forall>k. res_ok f k)"

lemma zns_geometryD:
  assumes "zns_geometry f"
  shows "0 < zone_lbas f" "zone_lbas f * 512 = zone_size (zp f)" "zone_lbas f mod 8 = 0"
proof -
  have s: "secsz (zspp f) = 512" "0 < zone_size (zp f)" "4096 dvd zone_size (zp f)"
    using assms by (auto simp: zns_geometry_def)
  then obtain k where k: "zone_size (zp f) = 4096 * k" by (auto elim: dvdE)
  then have "zone_lbas f = 8 * k" using s by (simp add: zone_lbas_def)
  then show "0 < zone_lbas f" "zone_lbas f * 512 = zone_size (zp f)" "zone_lbas f mod 8 = 0" using k s by simp_all
qed

lemma zone_lbas_bound:
  assumes "zns_geometry f" and "i \<le> nr_zones (zp f)"
  shows "i * zone_lbas f < 4294967296"
proof -
  have "i * zone_lbas f \<le> nr_zones (zp f) * zone_lbas f" using assms(2) by simp
  also have "\<dots> < 4294967296" using assms(1) by (simp add: zns_geometry_def)
  finally show ?thesis .
qed

lemma nr_zones_bound: "zns_geometry f \<Longrightarrow> nr_zones (zp f) < 4294967296"
  using zone_lbas_bound [of f "nr_zones (zp f)"] zns_geometryD(1) [of f]
  by (cases "zone_lbas f") auto

text \<open>Addresses of the zones.\<close>

lemma lba_to_zone_eq:
  assumes "zns_geometry f" and "i < nr_zones (zp f)" and "x < zone_lbas f"
  shows "lba_to_zone f (i * zone_lbas f + x) = Some i"
proof -
  have "(i * zone_lbas f + x) div zone_lbas f = i" using assms(3) by simp
  with assms nr_zones_bound [OF assms(1)] zns_geometryD(1) [OF assms(1)] show ?thesis
    by (simp add: lba_to_zone_def zone_lbas_def zns_geometry_def)
qed

lemma zone_to_slba_eq:
  assumes "zns_geometry f" and "i \<le> nr_zones (zp f)"
  shows "zone_to_slba f i = Some (i * zone_lbas f)"
  using zone_lbas_bound [OF assms] nr_zones_bound [OF assms(1)] assms
  by (simp add: zone_to_slba_def zone_lbas_def zns_geometry_def)

lemma holders_update:
  assumes "i < length ds"
  shows "holders k (ds[i := z]) + of_bool (holds k (ds ! i)) = holders k ds + of_bool (holds k z)"
  using assms
proof (induction ds arbitrary: i)
  case Nil
  then show ?case by simp
next
  case (Cons d ds)
  then show ?case by (cases i) (auto simp: holders_def)
qed

text \<open>A step that touches zone \<open>i\<close> only, with the resources following its state, keeps the invariant.\<close>

definition zone_moved :: "nat \<Rightarrow> zns_ftl \<Rightarrow> zns_ftl \<Rightarrow> bool" where
  "zone_moved i f f' \<longleftrightarrow> (\<exists>z. zone_descs f' = (zone_descs f)[i := z] \<and> zone_wf (zone_lbas f) i z
     \<and> (\<forall>k. total_cnt (res_infos f' k) = total_cnt (res_infos f k)
          \<and> (acquired_cnt (res_infos f' k) + of_bool (holds k (zone_descs f ! i)) = acquired_cnt (res_infos f k) + of_bool (holds k z)
             \<or> k = ZRWA_ZONE \<and> acquired_cnt (res_infos f' k) = acquired_cnt (res_infos f k) \<and> (holds k z \<longrightarrow> holds k (zone_descs f ! i))))
     \<and> acquired_cnt (res_infos f' ZRWA_ZONE) \<le> nr_zones (zp f))
     \<and> zp f' = zp f \<and> zspp f' = zspp f \<and> length (zwra_buffer f') = length (zwra_buffer f)
     \<and> length (zone_write_buffer f') = length (zone_write_buffer f)"

lemma zone_moved_inv:
  assumes inv: "zns_inv f" and i: "i < nr_zones (zp f)" and m: "zone_moved i f f'"
  shows "zns_inv f'"
proof -
  obtain z where z: "zone_descs f' = (zone_descs f)[i := z]" "zone_wf (zone_lbas f) i z"
    and r: "\<And>k. total_cnt (res_infos f' k) = total_cnt (res_infos f k)"
    "\<And>k. acquired_cnt (res_infos f' k) + of_bool (holds k (zone_descs f ! i)) = acquired_cnt (res_infos f k) + of_bool (holds k z)
             \<or> k = ZRWA_ZONE \<and> acquired_cnt (res_infos f' k) = acquired_cnt (res_infos f k) \<and> (holds k z \<longrightarrow> holds k (zone_descs f ! i))"
    and zr: "acquired_cnt (res_infos f' ZRWA_ZONE) \<le> nr_zones (zp f)"
    and fr: "zp f' = zp f" "zspp f' = zspp f" "length (zwra_buffer f') = length (zwra_buffer f)"
      "length (zone_write_buffer f') = length (zone_write_buffer f)"
    using m by (auto simp: zone_moved_def)
  have L: "length (zone_descs f) = nr_zones (zp f)" and R: "\<And>k. res_ok f k" using inv by (simp_all add: zns_inv_def)
  have lb: "zone_lbas f' = zone_lbas f" using fr by (simp add: zone_lbas_def)
  have "res_ok f' k" for k
  proof -
    have h: "holders k (zone_descs f') + of_bool (holds k (zone_descs f ! i)) = holders k (zone_descs f) + of_bool (holds k z)"
      unfolding z(1) using holders_update L i by simp
    have "holders k (zone_descs f') \<le> nr_zones (zp f)"
      using L length_filter_le [of "holds k" "zone_descs f'"] by (simp add: holders_def z(1))
    moreover have "acquired_cnt (res_infos f' k) \<le> nr_zones (zp f)
        \<and> holders k (zone_descs f') \<le> acquired_cnt (res_infos f' k)
        \<and> (k \<noteq> ZRWA_ZONE \<longrightarrow> acquired_cnt (res_infos f' k) = holders k (zone_descs f'))"
    proof (cases "k = ZRWA_ZONE")
      case True
      have "holders k (zone_descs f) \<le> acquired_cnt (res_infos f k)" using R [of k] by (simp add: res_ok_def)
      with True h r(2) [of k] zr show ?thesis
        by (cases "holds k z"; cases "holds k (zone_descs f ! i)") (auto simp del: holds.simps)
    next
      case False
      have "acquired_cnt (res_infos f k) = holders k (zone_descs f)" using R [of k] False by (simp add: res_ok_def)
      with False h r(2) [of k] \<open>holders k (zone_descs f') \<le> nr_zones (zp f)\<close> show ?thesis by (simp del: holds.simps)
    qed
    ultimately show ?thesis using R [of k] r(1) [of k] unfolding res_ok_def fr by simp
  qed
  moreover have "zns_geometry f'" using inv fr lb by (simp add: zns_inv_def zns_geometry_def)
  ultimately show ?thesis
    using inv z L i fr lb by (auto simp: zns_inv_def nth_list_update)
qed

section \<open>The state machine\<close>

text \<open>The transitions of the specification: the state after a management action, \<open>None\<close> if not allowed.\<close>

fun zone_next :: "nat \<Rightarrow> zone_state \<Rightarrow> zone_state option" where
  "zone_next a ZONE_STATE_OPENED_IMPL = (if a = ZSA_CLOSE_ZONE then Some ZONE_STATE_CLOSED
     else if a = ZSA_FINISH_ZONE then Some ZONE_STATE_FULL else if a = ZSA_OPEN_ZONE then Some ZONE_STATE_OPENED_EXPL
     else if a = ZSA_RESET_ZONE then Some ZONE_STATE_EMPTY else None)"
| "zone_next a ZONE_STATE_OPENED_EXPL = (if a = ZSA_CLOSE_ZONE then Some ZONE_STATE_CLOSED
     else if a = ZSA_FINISH_ZONE then Some ZONE_STATE_FULL else if a = ZSA_OPEN_ZONE then Some ZONE_STATE_OPENED_EXPL
     else if a = ZSA_RESET_ZONE then Some ZONE_STATE_EMPTY else None)"
| "zone_next a ZONE_STATE_CLOSED = (if a = ZSA_CLOSE_ZONE then Some ZONE_STATE_CLOSED
     else if a = ZSA_FINISH_ZONE then Some ZONE_STATE_FULL else if a = ZSA_OPEN_ZONE then Some ZONE_STATE_OPENED_EXPL
     else if a = ZSA_RESET_ZONE then Some ZONE_STATE_EMPTY else None)"
| "zone_next a ZONE_STATE_EMPTY = (if a = ZSA_FINISH_ZONE then Some ZONE_STATE_FULL
     else if a = ZSA_OPEN_ZONE then Some ZONE_STATE_OPENED_EXPL else if a = ZSA_RESET_ZONE then Some ZONE_STATE_EMPTY else None)"
| "zone_next a ZONE_STATE_FULL = (if a = ZSA_FINISH_ZONE then Some ZONE_STATE_FULL
     else if a = ZSA_RESET_ZONE then Some ZONE_STATE_EMPTY else None)"
| "zone_next a ZONE_STATE_READ_ONLY = (if a = ZSA_OFFLINE_ZONE then Some ZONE_STATE_OFFLINE else None)"
| "zone_next a ZONE_STATE_OFFLINE = (if a = ZSA_OFFLINE_ZONE then Some ZONE_STATE_OFFLINE else None)"

lemma all_resources: "(\<forall>k. P k) \<longleftrightarrow> P ACTIVE_ZONE \<and> P OPEN_ZONE \<and> P ZRWA_ZONE"
  by (metis zone_resource_type.exhaust)

lemma on_zone_eq: "i < length (zone_descs f) \<Longrightarrow> on_zone f i g = Some (f\<lparr> zone_descs := (zone_descs f)[i := g (zone_descs f ! i)] \<rparr>)"
  by (simp add: on_zone_def)

lemma holders_pos: "i < length ds \<Longrightarrow> holds k (ds ! i) \<Longrightarrow> 0 < holders k ds"
  by (auto simp: holders_def filter_empty_conv intro!: bexI [OF _ nth_mem] simp del: holds.simps)

lemma zns_invD:
  assumes "zns_inv f" and "i < nr_zones (zp f)"
  shows "zns_geometry f" "length (zone_descs f) = nr_zones (zp f)" "zone_wf (zone_lbas f) i (zone_descs f ! i)"
    "total_cnt (res_infos f k) = nr_zones (zp f)" "acquired_cnt (res_infos f k) \<le> nr_zones (zp f)" "acquired_cnt (res_infos f k) < 4294967296"
    "holds k (zone_descs f ! i) \<Longrightarrow> 0 < acquired_cnt (res_infos f k)"
proof -
  show g: "zns_geometry f" and L: "length (zone_descs f) = nr_zones (zp f)" and "zone_wf (zone_lbas f) i (zone_descs f ! i)"
    using assms by (simp_all add: zns_inv_def)
  have R: "res_ok f k" using assms(1) by (simp add: zns_inv_def)
  then show "total_cnt (res_infos f k) = nr_zones (zp f)" "acquired_cnt (res_infos f k) \<le> nr_zones (zp f)"
    by (simp_all add: res_ok_def)
  then show "acquired_cnt (res_infos f k) < 4294967296" using nr_zones_bound [OF g] by simp
  show "0 < acquired_cnt (res_infos f k)" if "holds k (zone_descs f ! i)"
    using holders_pos [of i "zone_descs f" k] that assms(2) L R unfolding res_ok_def by linarith
qed

text \<open>A zone that is not active leaves room for itself: the limits are the number of zones.\<close>

lemma room_for_zone:
  assumes "zns_inv f" and "i < nr_zones (zp f)" and "\<not> holds k (zone_descs f ! i)" and "k \<noteq> ZRWA_ZONE"
  shows "acquired_cnt (res_infos f k) < total_cnt (res_infos f k)"
proof -
  have L: "length (zone_descs f) = nr_zones (zp f)" and R: "res_ok f k" using assms(1) by (simp_all add: zns_inv_def)
  have "length (filter (holds k) (zone_descs f)) < length (zone_descs f)"
    using assms(2,3) L by (intro length_filter_less [of "zone_descs f ! i"]) auto
  then show ?thesis using R L assms(4) by (simp add: res_ok_def holders_def)
qed

lemma release_frame [simp]:
  "zone_descs (release_zone_resource k f) = zone_descs f" "zp (release_zone_resource k f) = zp f"
  "zf_ssd (release_zone_resource k f) = zf_ssd f" "zwra_buffer (release_zone_resource k f) = zwra_buffer f"
  "zone_write_buffer (release_zone_resource k f) = zone_write_buffer f" "zf_storage (release_zone_resource k f) = zf_storage f"
  "total_cnt (res_infos (release_zone_resource k f) j) = total_cnt (res_infos f j)"
  "acquired_cnt (res_infos (release_zone_resource k f) j) =
     (if j = k then sub32 (acquired_cnt (res_infos f k)) 1 else acquired_cnt (res_infos f j))"
  by (simp_all add: release_zone_resource_def set_acquired_def)

lemma acquire_eq:
  "acquired_cnt (res_infos f k) < total_cnt (res_infos f k) \<Longrightarrow> total_cnt (res_infos f k) < 4294967296 \<Longrightarrow>
     acquire_zone_resource f k = (True, set_acquired k (acquired_cnt (res_infos f k) + 1) f)"
  by (simp add: acquire_zone_resource_def is_zone_resource_avail_def)

lemma set_acquired_frame [simp]:
  "zone_descs (set_acquired k n f) = zone_descs f" "zp (set_acquired k n f) = zp f" "zf_ssd (set_acquired k n f) = zf_ssd f"
  "zwra_buffer (set_acquired k n f) = zwra_buffer f" "zone_write_buffer (set_acquired k n f) = zone_write_buffer f"
  "zf_storage (set_acquired k n f) = zf_storage f" "total_cnt (res_infos (set_acquired k n f) j) = total_cnt (res_infos f j)"
  "acquired_cnt (res_infos (set_acquired k n f) j) = (if j = k then n else acquired_cnt (res_infos f j))"
  by (simp_all add: set_acquired_def)

text \<open>What an active zone gives up when it becomes full or empty.\<close>

definition release_all :: "zone_descriptor \<Rightarrow> zns_ftl \<Rightarrow> zns_ftl" where
  "release_all z f = release_active (zrwav z) (if zone_opened z then release_zone_resource OPEN_ZONE f else f)"

lemma release_all_ok:
  assumes inv: "zns_inv f" and i: "i < nr_zones (zp f)" and a: "zone_active (zone_descs f ! i)"
  shows "acquired_cnt (res_infos (release_all (zone_descs f ! i) f) k) + of_bool (holds k (zone_descs f ! i)) = acquired_cnt (res_infos f k)"
    and "total_cnt (res_infos (release_all (zone_descs f ! i) f) k) = total_cnt (res_infos f k)"
    and "zone_descs (release_all (zone_descs f ! i) f) = zone_descs f" "zp (release_all (zone_descs f ! i) f) = zp f"
    "zf_ssd (release_all (zone_descs f ! i) f) = zf_ssd f" "zwra_buffer (release_all (zone_descs f ! i) f) = zwra_buffer f"
    "zone_write_buffer (release_all (zone_descs f ! i) f) = zone_write_buffer f" "zf_storage (release_all (zone_descs f ! i) f) = zf_storage f"
proof -
  let ?z = "zone_descs f ! i"
  have pos: "0 < acquired_cnt (res_infos f j)" "acquired_cnt (res_infos f j) < 4294967296" if "holds j ?z" for j
    using zns_invD(6,7) [OF inv i] that by blast+
  show "acquired_cnt (res_infos (release_all ?z f) k) + of_bool (holds k ?z) = acquired_cnt (res_infos f k)"
    using pos [of k] a by (cases k) (auto simp: release_all_def release_active_def Let_def Suc_leI)
qed (simp_all add: release_all_def release_active_def Let_def)

text \<open>The zone ends up not active, in state \<open>st\<close>, with its resources given back.\<close>

text \<open>A move in which every resource counts exactly, the ZRWA resources as well.\<close>

definition zone_exact :: "nat \<Rightarrow> zns_ftl \<Rightarrow> zns_ftl \<Rightarrow> bool" where
  "zone_exact i f f' \<longleftrightarrow> zone_moved i f f' \<and> (\<forall>k. acquired_cnt (res_infos f' k) + of_bool (holds k (zone_descs f ! i))
     = acquired_cnt (res_infos f k) + of_bool (holds k (zone_descs f' ! i)))"

lemma exact_moved: "zone_exact i f f' \<Longrightarrow> zone_moved i f f'"
  by (simp add: zone_exact_def)

lemma zone_exact_counts:
  assumes inv: "zns_inv f" and i: "i < nr_zones (zp f)" and m: "zone_exact i f f'"
  shows "acquired_cnt (res_infos f' k) + holders k (zone_descs f) = acquired_cnt (res_infos f k) + holders k (zone_descs f')"
proof -
  have len: "i < length (zone_descs f)" using zns_invD(2) [OF inv i] i by simp
  obtain z where z: "zone_descs f' = (zone_descs f)[i := z]" using m by (auto simp: zone_exact_def zone_moved_def)
  then have "holders k (zone_descs f') + of_bool (holds k (zone_descs f ! i)) = holders k (zone_descs f) + of_bool (holds k z)"
    using holders_update len by simp
  moreover have "acquired_cnt (res_infos f' k) + of_bool (holds k (zone_descs f ! i)) = acquired_cnt (res_infos f k) + of_bool (holds k z)"
    using m len unfolding zone_exact_def z by simp
  ultimately show ?thesis by linarith
qed

lemma moved_idle:
  assumes inv: "zns_inv f" and i: "i < nr_zones (zp f)" and z: "zone_wf (zone_lbas f) i z" "\<not> zone_active z"
    and f': "zone_descs f' = (zone_descs f)[i := z]" "zp f' = zp f" "zspp f' = zspp f" "length (zwra_buffer f') = length (zwra_buffer f)"
      "length (zone_write_buffer f') = length (zone_write_buffer f)"
    and r: "\<And>k. total_cnt (res_infos f' k) = total_cnt (res_infos f k)
      \<and> acquired_cnt (res_infos f' k) + of_bool (holds k (zone_descs f ! i)) = acquired_cnt (res_infos f k)"
  shows "zone_exact i f f'"
proof -
  have no: "\<not> holds k z" for k using z(2) by (cases k) (auto simp: zone_active_def)
  have "acquired_cnt (res_infos f' ZRWA_ZONE) \<le> nr_zones (zp f)"
    using r [of ZRWA_ZONE] zns_invD(5) [OF inv i, of ZRWA_ZONE] by linarith
  then have "zone_moved i f f'" unfolding zone_moved_def using z(1) f' r no by (intro conjI exI [of _ z]) simp_all
  then show ?thesis using r no f'(1) zns_invD(2) [OF inv i] i by (simp add: zone_exact_def del: holds.simps)
qed

lemma same_state [simp]: "zd_state z = st \<Longrightarrow> z\<lparr> zd_state := st \<rparr> = z"
  by auto

lemma send_close_ok:
  assumes inv: "zns_inv f" and i: "i < nr_zones (zp f)"
  shows "case zone_next ZSA_CLOSE_ZONE (zd_state (zone_descs f ! i)) of
      None \<Rightarrow> zmgmt_send_close_zone f i = Some (NVME_SC_ZNS_INVALID_TRANSITION, f)
    | Some st \<Rightarrow> \<exists>f'. zmgmt_send_close_zone f i = Some (NVME_SC_SUCCESS, f') \<and> zone_exact i f f'
        \<and> zone_descs f' = (zone_descs f)[i := (zone_descs f ! i)\<lparr> zd_state := st \<rparr>] \<and> zf_storage f' = zf_storage f"
proof -
  let ?z = "zone_descs f ! i" and ?f = "f\<lparr> zone_descs := (zone_descs f)[i := (zone_descs f ! i)\<lparr> zd_state := ZONE_STATE_CLOSED \<rparr>] \<rparr>"
  note D = zns_invD [OF inv i]
  have len: "i < length (zone_descs f)" using D(2) i by simp
  have mv: "zone_exact i f (release_zone_resource OPEN_ZONE ?f)" if "zone_opened ?z"
  proof -
    have "0 < acquired_cnt (res_infos f OPEN_ZONE)" using that by (intro D(7)) simp
    moreover have "zone_wf (zone_lbas f) i (?z\<lparr> zd_state := ZONE_STATE_CLOSED \<rparr>)"
      using D(3) that by (auto simp: zone_wf_def zone_active_def zone_opened_def)
    ultimately show ?thesis
      unfolding zone_exact_def zone_moved_def using that len D(5) [of ZRWA_ZONE] D(6) [of OPEN_ZONE]
      by (intro conjI exI [of _ "?z\<lparr> zd_state := ZONE_STATE_CLOSED \<rparr>"])
        (simp_all add: all_resources zone_active_def zone_opened_def)
  qed
  have same: "zone_exact i f f" if "zd_state ?z = ZONE_STATE_CLOSED"
    unfolding zone_exact_def zone_moved_def using D by (intro conjI exI [of _ ?z]) (simp_all add: len)
  show ?thesis
    using len mv same by (cases "zd_state ?z")
      (simp_all add: zmgmt_send_close_zone_def change_zone_state_def on_zone_eq zone_actions zone_opened_def)
qed

lemma zone_exact_refl: "zns_inv f \<Longrightarrow> i < nr_zones (zp f) \<Longrightarrow> zone_exact i f f"
  using zns_invD(3) [of f i] zns_invD(5) [of f i ZRWA_ZONE]
  unfolding zone_exact_def zone_moved_def by (intro conjI exI [of _ "zone_descs f ! i"]) simp_all

lemma send_finish_ok:
  assumes inv: "zns_inv f" and i: "i < nr_zones (zp f)"
  shows "case zone_next ZSA_FINISH_ZONE (zd_state (zone_descs f ! i)) of
      None \<Rightarrow> zmgmt_send_finish_zone f i = Some (NVME_SC_ZNS_INVALID_TRANSITION, f)
    | Some st \<Rightarrow> \<exists>f'. zmgmt_send_finish_zone f i = Some (NVME_SC_SUCCESS, f') \<and> zone_exact i f f'
        \<and> zone_descs f' = (zone_descs f)[i := (zone_descs f ! i)\<lparr> zd_state := st \<rparr>] \<and> zf_storage f' = zf_storage f"
proof -
  let ?z = "zone_descs f ! i" and ?zf = "(zone_descs f ! i)\<lparr> zd_state := ZONE_STATE_FULL \<rparr>"
  let ?g = "\<lambda>f'. f'\<lparr> zone_descs := (zone_descs f)[i := ?zf] \<rparr>"
  note D = zns_invD [OF inv i]
  have len: "i < length (zone_descs f)" using D(2) i by simp
  have wf: "zone_wf (zone_lbas f) i ?zf" "\<not> zone_active ?zf"
    using D(3) by (auto simp: zone_wf_def zone_active_def zone_opened_def)
  have a: "zone_exact i f (?g (release_all ?z f))" if "zone_active ?z"
    using release_all_ok [OF inv i that] by (intro moved_idle [OF inv i wf]) simp_all
  have e: "zone_exact i f (?g f)" if "\<not> zone_active ?z"
  proof (rule moved_idle [OF inv i wf])
    have "\<not> holds k ?z" for k using that by (cases k) (auto simp: zone_active_def)
    then show "total_cnt (res_infos (?g f) k) = total_cnt (res_infos f k)
      \<and> acquired_cnt (res_infos (?g f) k) + of_bool (holds k ?z) = acquired_cnt (res_infos f k)" for k by simp
  qed simp_all
  have rd: "zone_descs (release_all ?z f) = zone_descs f" "zf_storage (release_all ?z f) = zf_storage f" if "zone_active ?z"
    using release_all_ok(3,8) [OF inv i that] by simp_all
  have run: "zmgmt_send_finish_zone f i = Some (NVME_SC_SUCCESS, ?g (release_all ?z f))" if "zone_active ?z"
    using that len rd [OF that] by (cases "zd_state ?z") (auto simp: zmgmt_send_finish_zone_def change_zone_state_def on_zone_eq
        release_all_def zone_active_def zone_opened_def)
  show ?thesis
  proof (cases "zone_active ?z")
    case True
    then have "zone_next ZSA_FINISH_ZONE (zd_state ?z) = Some ZONE_STATE_FULL"
      by (auto simp: zone_active_def zone_opened_def zone_actions)
    with run [OF True] a [OF True] rd [OF True] show ?thesis by simp
  next
    case False
    then show ?thesis
      using len e [OF False] zone_exact_refl [OF inv i] by (cases "zd_state ?z")
        (simp_all add: zmgmt_send_finish_zone_def change_zone_state_def on_zone_eq zone_actions zone_active_def zone_opened_def)
  qed
qed

text \<open>A reset also clears the zone's memory, rewinds its write pointer and ends its ZRWA.\<close>

definition reset_desc :: "zone_descriptor \<Rightarrow> zone_descriptor" where
  "reset_desc z = z\<lparr> zd_state := ZONE_STATE_EMPTY, zd_wp := zslba z, zrwav := False \<rparr>"

definition zeroed :: "zns_ftl \<Rightarrow> nat \<Rightarrow> nat \<Rightarrow> 8 word" where
  "zeroed f i = (\<lambda>x. if i * zone_size (zp f) \<le> x \<and> x < (i + 1) * zone_size (zp f) then 0 else zf_storage f x)"

lemma storage_offset:
  assumes "zns_geometry f" and "i < nr_zones (zp f)"
  shows "get_storage_addr_from_zid f i = i * zone_size (zp f)"
proof -
  have "i * zone_lbas f < 4294967296" using zone_lbas_bound [OF assms(1), of i] assms(2) by simp
  moreover have "i * zone_size (zp f) = (i * zone_lbas f) * 512" using zns_geometryD(2) [OF assms(1)] by (simp add: mult.assoc)
  ultimately have "i * zone_size (zp f) < 18446744073709551616" by linarith
  then show ?thesis by (simp add: get_storage_addr_from_zid_def)
qed

lemma reset_zone_ok:
  assumes g: "zns_geometry f" and i: "i < nr_zones (zp f)" and len: "length (zone_descs f) = nr_zones (zp f)"
  shows "\<exists>bs. reset_zone f i = Some (f\<lparr> zf_storage := zeroed f i,
      zone_descs := (zone_descs f)[i := (zone_descs f ! i)\<lparr> zd_wp := zslba (zone_descs f ! i), zrwav := False \<rparr>], zwra_buffer := bs \<rparr>)
    \<and> length bs = length (zwra_buffer f)"
proof -
  have st: "(\<lambda>x. if get_storage_addr_from_zid f i \<le> x \<and> x < get_storage_addr_from_zid f i + zone_size (zp f) then 0 else zf_storage f x)
      = zeroed f i" by (simp add: storage_offset [OF g i] zeroed_def fun_eq_iff)
  have "i < length (zwra_buffer f)" if "zrwa_buffer_size (zp f) \<noteq> 0" using g i that by (simp add: zns_geometry_def)
  then show ?thesis using i len
    by (cases "zrwa_buffer_size (zp f) = 0") (auto simp: reset_zone_def Let_def st on_zone_eq intro: exI [of _ "zwra_buffer f"])
qed

lemma send_reset_ok:
  assumes inv: "zns_inv f" and i: "i < nr_zones (zp f)"
  shows "case zone_next ZSA_RESET_ZONE (zd_state (zone_descs f ! i)) of
      None \<Rightarrow> zmgmt_send_reset_zone f i = Some (NVME_SC_ZNS_INVALID_TRANSITION, f)
    | Some st \<Rightarrow> \<exists>f'. zmgmt_send_reset_zone f i = Some (NVME_SC_SUCCESS, f') \<and> zone_exact i f f'
        \<and> zone_descs f' = (zone_descs f)[i := reset_desc (zone_descs f ! i)] \<and> zf_storage f' = zeroed f i"
proof -
  let ?z = "zone_descs f ! i" and ?ze = "(zone_descs f ! i)\<lparr> zd_state := ZONE_STATE_EMPTY \<rparr>"
  note D = zns_invD [OF inv i]
  have len: "i < length (zone_descs f)" using D(2) i by simp
  have wf: "zone_wf (zone_lbas f) i (reset_desc ?z)" "\<not> zone_active (reset_desc ?z)"
    using D(3) by (auto simp: zone_wf_def zone_active_def zone_opened_def reset_desc_def)
  text \<open>The end of every branch, from a state that differs in its resources only.\<close>
  have fin: "\<exists>f'. do { h \<leftarrow> change_zone_state g i ZONE_STATE_EMPTY; h \<leftarrow> reset_zone h i; Some (NVME_SC_SUCCESS, h) } = Some (NVME_SC_SUCCESS, f')
      \<and> zone_exact i f f' \<and> zone_descs f' = (zone_descs f)[i := reset_desc ?z] \<and> zf_storage f' = zeroed f i"
    if g: "zone_descs g = zone_descs f" "zp g = zp f" "zf_ssd g = zf_ssd f" "zwra_buffer g = zwra_buffer f"
      "zone_write_buffer g = zone_write_buffer f" "zf_storage g = zf_storage f"
      and r: "\<And>k. total_cnt (res_infos g k) = total_cnt (res_infos f k)
        \<and> acquired_cnt (res_infos g k) + of_bool (holds k ?z) = acquired_cnt (res_infos f k)" for g
  proof -
    let ?h = "g\<lparr> zone_descs := (zone_descs f)[i := ?ze] \<rparr>"
    have h: "change_zone_state g i ZONE_STATE_EMPTY = Some ?h" using len g(1) by (simp add: change_zone_state_def on_zone_eq)
    have "zns_geometry ?h" using D(1) g by (auto simp: zns_geometry_def zone_lbas_def)
    from reset_zone_ok [OF this, of i] obtain bs where
      h': "reset_zone ?h i = Some (?h\<lparr> zf_storage := zeroed ?h i, zone_descs := (zone_descs f)[i := reset_desc ?z], zwra_buffer := bs \<rparr>)"
      "length bs = length (zwra_buffer f)" using g D(2) i len by (auto simp: reset_desc_def)
    let ?f' = "?h\<lparr> zf_storage := zeroed ?h i, zone_descs := (zone_descs f)[i := reset_desc ?z], zwra_buffer := bs \<rparr>"
    have "zone_exact i f ?f'" using g h'(2) r by (intro moved_idle [OF inv i wf]) simp_all
    moreover have "zeroed ?h i = zeroed f i" using g by (simp add: zeroed_def fun_eq_iff)
    ultimately show ?thesis using h h'(1) by simp
  qed
  show ?thesis
  proof (cases "zone_active ?z")
    case True
    then have n: "zone_next ZSA_RESET_ZONE (zd_state ?z) = Some ZONE_STATE_EMPTY"
      by (auto simp: zone_active_def zone_opened_def zone_actions)
    have "zmgmt_send_reset_zone f i = do { h \<leftarrow> change_zone_state (release_all ?z f) i ZONE_STATE_EMPTY; h \<leftarrow> reset_zone h i; Some (NVME_SC_SUCCESS, h) }"
      using True len by (cases "zd_state ?z") (auto simp: zmgmt_send_reset_zone_def release_all_def zone_active_def zone_opened_def Let_def)
    with n fin [of "release_all ?z f"] release_all_ok [OF inv i True] show ?thesis by simp
  next
    case False
    then have no: "\<not> holds k ?z" for k by (cases k) (auto simp: zone_active_def)
    have "zmgmt_send_reset_zone f i = (if zd_state ?z \<in> {ZONE_STATE_FULL, ZONE_STATE_EMPTY}
        then do { h \<leftarrow> change_zone_state f i ZONE_STATE_EMPTY; h \<leftarrow> reset_zone h i; Some (NVME_SC_SUCCESS, h) }
        else Some (NVME_SC_ZNS_INVALID_TRANSITION, f))"
      using False len by (cases "zd_state ?z") (auto simp: zmgmt_send_reset_zone_def zone_active_def zone_opened_def Let_def)
    with fin [of f] no False show ?thesis
      by (cases "zd_state ?z") (simp_all add: zone_actions zone_active_def zone_opened_def del: holds.simps)
  qed
qed

text \<open>An open takes what the zone does not hold yet.\<close>

definition open_desc :: "bool \<Rightarrow> zone_descriptor \<Rightarrow> zone_descriptor" where
  "open_desc zrwa z = z\<lparr> zrwav := (if zd_state z = ZONE_STATE_EMPTY then zrwa else zrwav z), zd_state := ZONE_STATE_OPENED_EXPL \<rparr>"

lemma moved_opened:
  assumes inv: "zns_inv f" and i: "i < nr_zones (zp f)" and z: "zone_wf (zone_lbas f) i z"
    and f': "zone_descs f' = (zone_descs f)[i := z]" "zp f' = zp f" "zf_ssd f' = zf_ssd f" "zwra_buffer f' = zwra_buffer f"
      "zone_write_buffer f' = zone_write_buffer f"
    and r: "\<And>k. total_cnt (res_infos f' k) = total_cnt (res_infos f k)
      \<and> acquired_cnt (res_infos f' k) + of_bool (holds k (zone_descs f ! i)) = acquired_cnt (res_infos f k) + of_bool (holds k z)"
    and room: "holds ZRWA_ZONE z \<Longrightarrow> \<not> holds ZRWA_ZONE (zone_descs f ! i) \<Longrightarrow> acquired_cnt (res_infos f ZRWA_ZONE) < nr_zones (zp f)"
  shows "zone_exact i f f'"
proof -
  have "acquired_cnt (res_infos f' ZRWA_ZONE) \<le> nr_zones (zp f)"
    using r [of ZRWA_ZONE] zns_invD(5) [OF inv i, of ZRWA_ZONE] room
    by (cases "holds ZRWA_ZONE z"; cases "holds ZRWA_ZONE (zone_descs f ! i)") (auto simp del: holds.simps)
  then have "zone_moved i f f'" unfolding zone_moved_def using z f' r by (intro conjI exI [of _ z]) simp_all
  then show ?thesis using r f'(1) zns_invD(2) [OF inv i] i by (simp add: zone_exact_def del: holds.simps)
qed

lemma acquire_room:
  assumes inv: "zns_inv f" and i: "i < nr_zones (zp f)" and h: "\<not> holds k (zone_descs f ! i)" "k \<noteq> ZRWA_ZONE"
    and g: "acquired_cnt (res_infos g k) = acquired_cnt (res_infos f k)" "total_cnt (res_infos g k) = total_cnt (res_infos f k)"
  shows "acquire_zone_resource g k = (True, set_acquired k (acquired_cnt (res_infos f k) + 1) g)" and "\<not> is_zone_resource_full g k"
proof -
  note room = room_for_zone [OF inv i h]
  have "total_cnt (res_infos f k) < 4294967296"
    using zns_invD(4) [OF inv i, of k] nr_zones_bound [OF zns_invD(1) [OF inv i]] by simp
  with room g show "acquire_zone_resource g k = (True, set_acquired k (acquired_cnt (res_infos f k) + 1) g)" "\<not> is_zone_resource_full g k"
    using acquire_eq [of g k] by (simp_all add: is_zone_resource_full_def)
qed

lemma send_open_ok:
  assumes inv: "zns_inv f" and i: "i < nr_zones (zp f)"
    and no: "\<not> (zd_state (zone_descs f ! i) = ZONE_STATE_EMPTY \<and> zrwa \<and> is_zone_resource_full f ZRWA_ZONE)"
  shows "case zone_next ZSA_OPEN_ZONE (zd_state (zone_descs f ! i)) of
      None \<Rightarrow> zmgmt_send_open_zone f i zrwa = Some (NVME_SC_ZNS_INVALID_TRANSITION, f)
    | Some st \<Rightarrow> \<exists>f'. zmgmt_send_open_zone f i zrwa = Some (NVME_SC_SUCCESS, f') \<and> zone_exact i f f'
        \<and> zone_descs f' = (zone_descs f)[i := open_desc zrwa (zone_descs f ! i)] \<and> zf_storage f' = zf_storage f"
proof -
  let ?z = "zone_descs f ! i" and ?A = "\<lambda>k. acquired_cnt (res_infos f k)"
  note D = zns_invD [OF inv i]
  have len: "i < length (zone_descs f)" using D(2) i by simp
  have wf: "zone_wf (zone_lbas f) i (open_desc zrwa ?z)" if "zd_state ?z = ZONE_STATE_EMPTY \<or> zone_active ?z"
    using D(3) that zns_geometryD(1) [OF D(1)] by (auto simp: zone_wf_def zone_active_def zone_opened_def open_desc_def)
  show ?thesis
  proof (cases "zd_state ?z")
    case ZONE_STATE_EMPTY
    then have idle: "\<not> holds k ?z" for k by (cases k) (auto simp: zone_active_def zone_opened_def)
    define g where "g = (if zrwa then (set_acquired ZRWA_ZONE (?A ZRWA_ZONE + 1) f)\<lparr> zone_descs := (zone_descs f)[i := ?z\<lparr> zrwav := True \<rparr>] \<rparr> else f)"
    have zr: "?A ZRWA_ZONE < nr_zones (zp f)" if zrwa
      using no that ZONE_STATE_EMPTY D(4,5) [of ZRWA_ZONE] by (simp add: is_zone_resource_full_def)
    have take: "acquire_zone_resource f ZRWA_ZONE = (True, set_acquired ZRWA_ZONE (?A ZRWA_ZONE + 1) f)" if zrwa
      using zr [OF that] D(4) nr_zones_bound [OF D(1)] by (intro acquire_eq) simp_all
    have g: "(if zrwa then on_zone (snd (acquire_zone_resource f ZRWA_ZONE)) i (\<lambda>z. z\<lparr> zrwav := True \<rparr>) else Some f) = Some g"
      using take len by (simp add: g_def on_zone_eq)
    have gz: "zone_descs g ! i = ?z\<lparr> zrwav := zrwa \<rparr>" "i < length (zone_descs g)"
      "(zone_descs g)[i := x] = (zone_descs f)[i := x]" for x
      using len D(3) ZONE_STATE_EMPTY by (auto simp: g_def zone_wf_def)
    let ?g1 = "set_acquired ACTIVE_ZONE (?A ACTIVE_ZONE + 1) g"
    have acts: "acquire_zone_resource g ACTIVE_ZONE = (True, ?g1)"
      "acquire_zone_resource ?g1 OPEN_ZONE = (True, set_acquired OPEN_ZONE (?A OPEN_ZONE + 1) ?g1)"
      using idle by (intro acquire_room(1) [OF inv i]; simp add: g_def)+
    have avail: "\<not> is_zone_resource_full f ACTIVE_ZONE" "\<not> is_zone_resource_full f OPEN_ZONE"
      using idle by (intro acquire_room(2) [OF inv i]; simp)+
    let ?f' = "(set_acquired OPEN_ZONE (?A OPEN_ZONE + 1) ?g1)\<lparr> zone_descs := (zone_descs f)[i := open_desc zrwa ?z] \<rparr>"
    have "zmgmt_send_open_zone f i zrwa = Some (NVME_SC_SUCCESS, ?f')"
      using ZONE_STATE_EMPTY avail no g acts len gz
      by (cases zrwa) (simp_all add: zmgmt_send_open_zone_def open_from_closed_def change_zone_state_def on_zone_eq open_desc_def)
    moreover have "zone_exact i f ?f'"
    proof (rule moved_opened [OF inv i wf])
      show "total_cnt (res_infos ?f' k) = total_cnt (res_infos f k)
        \<and> acquired_cnt (res_infos ?f' k) + of_bool (holds k ?z) = acquired_cnt (res_infos f k) + of_bool (holds k (open_desc zrwa ?z))" for k
        using idle [of k] ZONE_STATE_EMPTY by (cases k) (auto simp: g_def open_desc_def zone_active_def zone_opened_def)
    qed (use zr ZONE_STATE_EMPTY in \<open>auto simp: g_def open_desc_def\<close>)
    ultimately show ?thesis using ZONE_STATE_EMPTY by (simp add: zone_actions g_def)
  next
    case ZONE_STATE_CLOSED
    then have h: "\<not> holds OPEN_ZONE ?z" "zone_active ?z" by (simp_all add: zone_active_def zone_opened_def)
    have act: "acquire_zone_resource f OPEN_ZONE = (True, set_acquired OPEN_ZONE (?A OPEN_ZONE + 1) f)"
      by (rule acquire_room(1) [OF inv i h(1)]) simp_all
    let ?f' = "(set_acquired OPEN_ZONE (?A OPEN_ZONE + 1) f)\<lparr> zone_descs := (zone_descs f)[i := open_desc zrwa ?z] \<rparr>"
    have "zmgmt_send_open_zone f i zrwa = Some (NVME_SC_SUCCESS, ?f')"
      using ZONE_STATE_CLOSED act len
      by (simp add: zmgmt_send_open_zone_def open_from_closed_def change_zone_state_def on_zone_eq open_desc_def)
    moreover have "zone_exact i f ?f'"
    proof (rule moved_opened [OF inv i wf])
      show "total_cnt (res_infos ?f' k) = total_cnt (res_infos f k)
        \<and> acquired_cnt (res_infos ?f' k) + of_bool (holds k ?z) = acquired_cnt (res_infos f k) + of_bool (holds k (open_desc zrwa ?z))" for k
        using h ZONE_STATE_CLOSED by (cases k) (auto simp: open_desc_def zone_active_def zone_opened_def)
    qed (use h ZONE_STATE_CLOSED in \<open>auto simp: open_desc_def zone_active_def\<close>)
    ultimately show ?thesis using ZONE_STATE_CLOSED by (simp add: zone_actions)
  next
    case ZONE_STATE_OPENED_IMPL
    let ?f' = "f\<lparr> zone_descs := (zone_descs f)[i := open_desc zrwa ?z] \<rparr>"
    have "zmgmt_send_open_zone f i zrwa = Some (NVME_SC_SUCCESS, ?f')"
      using ZONE_STATE_OPENED_IMPL len by (simp add: zmgmt_send_open_zone_def change_zone_state_def on_zone_eq open_desc_def)
    moreover have "zone_exact i f ?f'"
    proof (rule moved_opened [OF inv i wf])
      show "total_cnt (res_infos ?f' k) = total_cnt (res_infos f k)
        \<and> acquired_cnt (res_infos ?f' k) + of_bool (holds k ?z) = acquired_cnt (res_infos f k) + of_bool (holds k (open_desc zrwa ?z))" for k
        using ZONE_STATE_OPENED_IMPL by (cases k) (auto simp: open_desc_def zone_active_def zone_opened_def)
    qed (use ZONE_STATE_OPENED_IMPL in \<open>auto simp: open_desc_def zone_active_def zone_opened_def\<close>)
    ultimately show ?thesis using ZONE_STATE_OPENED_IMPL by (simp add: zone_actions)
  next
    case ZONE_STATE_OPENED_EXPL
    have "(zone_descs f)[i := open_desc zrwa ?z] = zone_descs f" using ZONE_STATE_OPENED_EXPL by (simp add: open_desc_def)
    with ZONE_STATE_OPENED_EXPL zone_exact_refl [OF inv i] len show ?thesis
      by (simp add: zmgmt_send_open_zone_def zone_actions)
  qed (use len in \<open>simp_all add: zmgmt_send_open_zone_def zone_actions\<close>)
qed

lemma send_open_no_zrwa:
  assumes inv: "zns_inv f" and i: "i < nr_zones (zp f)"
    and no: "zd_state (zone_descs f ! i) = ZONE_STATE_EMPTY" "zrwa" "is_zone_resource_full f ZRWA_ZONE"
  shows "zmgmt_send_open_zone f i zrwa = Some (NVME_SC_ZNS_ZRWA_RSRC_UNAVAIL, f)"
proof -
  have idle: "\<not> holds k (zone_descs f ! i)" for k using no(1) by (cases k) (auto simp: zone_active_def zone_opened_def)
  have "\<not> is_zone_resource_full f ACTIVE_ZONE" "\<not> is_zone_resource_full f OPEN_ZONE"
    using idle by (intro acquire_room(2) [OF inv i]; simp)+
  with no i zns_invD(2) [OF inv i] show ?thesis by (simp add: zmgmt_send_open_zone_def)
qed

lemma send_offline_ok:
  assumes inv: "zns_inv f" and i: "i < nr_zones (zp f)"
  shows "case zone_next ZSA_OFFLINE_ZONE (zd_state (zone_descs f ! i)) of
      None \<Rightarrow> zmgmt_send_offline_zone f i = Some (NVME_SC_ZNS_INVALID_TRANSITION, f)
    | Some st \<Rightarrow> \<exists>f'. zmgmt_send_offline_zone f i = Some (NVME_SC_SUCCESS, f') \<and> zone_exact i f f'
        \<and> zone_descs f' = (zone_descs f)[i := (zone_descs f ! i)\<lparr> zd_state := st \<rparr>] \<and> zf_storage f' = zf_storage f"
proof -
  let ?z = "zone_descs f ! i" and ?zo = "(zone_descs f ! i)\<lparr> zd_state := ZONE_STATE_OFFLINE \<rparr>"
  note D = zns_invD [OF inv i]
  have len: "i < length (zone_descs f)" using D(2) i by simp
  have mv: "zone_exact i f (f\<lparr> zone_descs := (zone_descs f)[i := ?zo] \<rparr>)" if r: "zd_state ?z = ZONE_STATE_READ_ONLY"
  proof (rule moved_idle [OF inv i])
    show "zone_wf (zone_lbas f) i ?zo" "\<not> zone_active ?zo" using D(3) by (auto simp: zone_wf_def zone_active_def zone_opened_def)
    have "\<not> holds k ?z" for k using r by (cases k) (auto simp: zone_active_def zone_opened_def)
    then show "total_cnt (res_infos (f\<lparr> zone_descs := (zone_descs f)[i := ?zo] \<rparr>) k) = total_cnt (res_infos f k)
      \<and> acquired_cnt (res_infos (f\<lparr> zone_descs := (zone_descs f)[i := ?zo] \<rparr>) k) + of_bool (holds k ?z) = acquired_cnt (res_infos f k)"
      for k by simp
  qed simp_all
  show ?thesis
    using len mv zone_exact_refl [OF inv i] by (cases "zd_state ?z")
      (simp_all add: zmgmt_send_offline_zone_def change_zone_state_def on_zone_eq zone_actions)
qed

lemma send_result:
  assumes inv: "zns_inv f" and i: "i < nr_zones (zp f)" and x: "x < zone_lbas f"
    and a: "a \<in> {ZSA_CLOSE_ZONE, ZSA_FINISH_ZONE, ZSA_OPEN_ZONE, ZSA_RESET_ZONE, ZSA_OFFLINE_ZONE}"
    and no: "\<not> (a = ZSA_OPEN_ZONE \<and> zd_state (zone_descs f ! i) = ZONE_STATE_EMPTY \<and> zrwa \<and> is_zone_resource_full f ZRWA_ZONE)"
  shows "case zone_next a (zd_state (zone_descs f ! i)) of
      None \<Rightarrow> zmgmt_send junk f (i * zone_lbas f + x) a zrwa = Some (NVME_SC_ZNS_INVALID_TRANSITION, f)
    | Some st \<Rightarrow> \<exists>f'. zmgmt_send junk f (i * zone_lbas f + x) a zrwa = Some (NVME_SC_SUCCESS, f') \<and> zone_exact i f f'
        \<and> zone_descs f' = (zone_descs f)[i := zone_descs f' ! i] \<and> zd_state (zone_descs f' ! i) = st
        \<and> zf_storage f' = (if a = ZSA_RESET_ZONE then zeroed f i else zf_storage f)"
proof -
  have z: "lba_to_zone f (i * zone_lbas f + x) = Some i" using lba_to_zone_eq [OF _ i x] inv by (simp add: zns_inv_def)
  have len: "i < length (zone_descs f)" using zns_invD(2) [OF inv i] i by simp
  consider "a = ZSA_CLOSE_ZONE" | "a = ZSA_FINISH_ZONE" | "a = ZSA_OPEN_ZONE" | "a = ZSA_RESET_ZONE" | "a = ZSA_OFFLINE_ZONE"
    using a by blast
  then show ?thesis
  proof cases
    case 1
    from z have run: "zmgmt_send junk f (i * zone_lbas f + x) ZSA_CLOSE_ZONE zrwa = zmgmt_send_close_zone f i" by (simp add: zmgmt_send_def)
    show ?thesis using send_close_ok [OF inv i] unfolding 1 run using len by (auto simp: zone_actions split: option.splits)
  next
    case 2
    from z have run: "zmgmt_send junk f (i * zone_lbas f + x) ZSA_FINISH_ZONE zrwa = zmgmt_send_finish_zone f i" by (simp add: zmgmt_send_def zone_actions)
    show ?thesis using send_finish_ok [OF inv i] unfolding 2 run using len by (auto simp: zone_actions split: option.splits)
  next
    case 3
    from z have run: "zmgmt_send junk f (i * zone_lbas f + x) ZSA_OPEN_ZONE zrwa = zmgmt_send_open_zone f i zrwa" by (simp add: zmgmt_send_def zone_actions)
    have s: "zone_next ZSA_OPEN_ZONE (zd_state (zone_descs f ! i)) \<in> {None, Some ZONE_STATE_OPENED_EXPL}"
      by (cases "zd_state (zone_descs f ! i)") (simp_all add: zone_actions)
    show ?thesis
      using send_open_ok [OF inv i, of zrwa] no s unfolding 3 run
      using len by (auto simp: zone_actions open_desc_def split: option.splits)
  next
    case 4
    from z have run: "zmgmt_send junk f (i * zone_lbas f + x) ZSA_RESET_ZONE zrwa = zmgmt_send_reset_zone f i" by (simp add: zmgmt_send_def zone_actions)
    have s: "zone_next ZSA_RESET_ZONE (zd_state (zone_descs f ! i)) \<in> {None, Some ZONE_STATE_EMPTY}"
      by (cases "zd_state (zone_descs f ! i)") (simp_all add: zone_actions)
    show ?thesis
      using send_reset_ok [OF inv i] s unfolding 4 run
      using len by (auto simp: reset_desc_def split: option.splits)
  next
    case 5
    from z have run: "zmgmt_send junk f (i * zone_lbas f + x) ZSA_OFFLINE_ZONE zrwa = zmgmt_send_offline_zone f i" by (simp add: zmgmt_send_def zone_actions)
    show ?thesis using send_offline_ok [OF inv i] unfolding 5 run using len by (auto simp: zone_actions split: option.splits)
  qed
qed

text \<open>C8: In a namespace that satisfies the invariant, the zone management commands implement the zone state machine of
  the specification: an action that is allowed in the zone's state moves it to the state the specification names and
  succeeds, any other is refused with \<open>Invalid Transition\<close> and changes nothing. Other zones are not touched; of each
  resource, active, open and random write area, exactly as many are acquired or released as the zone starts or
  ceases to hold; a reset zeroes exactly the zone's memory. The only resource error is an open with ZRWA when no ZRWA resource is
  left: the limits on active and open zones, being the number of zones, never refuse an open.\<close>

theorem zone_commands_refine_state_machine:
  assumes "zns_inv f" and "i < nr_zones (zp f)" and "x < zone_lbas f"
    and "a \<in> {ZSA_CLOSE_ZONE, ZSA_FINISH_ZONE, ZSA_OPEN_ZONE, ZSA_RESET_ZONE, ZSA_OFFLINE_ZONE}"
  shows "if a = ZSA_OPEN_ZONE \<and> zd_state (zone_descs f ! i) = ZONE_STATE_EMPTY \<and> zrwa \<and> is_zone_resource_full f ZRWA_ZONE
    then zmgmt_send junk f (i * zone_lbas f + x) a zrwa = Some (NVME_SC_ZNS_ZRWA_RSRC_UNAVAIL, f)
    else case zone_next a (zd_state (zone_descs f ! i)) of
      None \<Rightarrow> zmgmt_send junk f (i * zone_lbas f + x) a zrwa = Some (NVME_SC_ZNS_INVALID_TRANSITION, f)
    | Some st \<Rightarrow> \<exists>f'. zmgmt_send junk f (i * zone_lbas f + x) a zrwa = Some (NVME_SC_SUCCESS, f') \<and> zns_inv f'
        \<and> zd_state (zone_descs f' ! i) = st \<and> (\<forall>j. j \<noteq> i \<longrightarrow> zone_descs f' ! j = zone_descs f ! j)
        \<and> zf_storage f' = (if a = ZSA_RESET_ZONE then zeroed f i else zf_storage f)
        \<and> (\<forall>k. acquired_cnt (res_infos f' k) + holders k (zone_descs f) = acquired_cnt (res_infos f k) + holders k (zone_descs f'))"
proof (cases "a = ZSA_OPEN_ZONE \<and> zd_state (zone_descs f ! i) = ZONE_STATE_EMPTY \<and> zrwa \<and> is_zone_resource_full f ZRWA_ZONE")
  case True
  have "lba_to_zone f (i * zone_lbas f + x) = Some i" using lba_to_zone_eq [OF _ assms(2,3)] assms(1) by (simp add: zns_inv_def)
  with True send_open_no_zrwa [OF assms(1,2)] show ?thesis by (simp add: zmgmt_send_def zone_actions)
next
  case False
  note r = send_result [OF assms False, of junk]
  show ?thesis
  proof (cases "zone_next a (zd_state (zone_descs f ! i))")
    case None
    with r show ?thesis unfolding if_not_P [OF False] by simp
  next
    case (Some st)
    with r obtain f' where f': "zmgmt_send junk f (i * zone_lbas f + x) a zrwa = Some (NVME_SC_SUCCESS, f')" "zone_exact i f f'"
      "zone_descs f' = (zone_descs f)[i := zone_descs f' ! i]" "zd_state (zone_descs f' ! i) = st"
      "zf_storage f' = (if a = ZSA_RESET_ZONE then zeroed f i else zf_storage f)" by auto
    have "\<forall>j. j \<noteq> i \<longrightarrow> zone_descs f' ! j = zone_descs f ! j" using f'(3) by (metis nth_list_update_neq)
    with Some f' zone_moved_inv [OF assms(1,2) exact_moved [OF f'(2)]] zone_exact_counts [OF assms(1,2) f'(2)] show ?thesis unfolding if_not_P [OF False] by simp
  qed
qed

section \<open>Explicit flush of the ZRWA\<close>

text \<open>A build that supports ZRWA: a flush granularity, not larger than the area.\<close>

definition zrwa_supported :: "zns_ftl \<Rightarrow> bool" where
  "zrwa_supported f \<longleftrightarrow> 0 < lbas_per_zrwafg (zp f) \<and> lbas_per_zrwafg (zp f) \<le> lbas_per_zrwa (zp f) \<and> 2 * lbas_per_zrwa (zp f) < 2 ^ 32"

definition flush_allowed :: "zns_ftl \<Rightarrow> zone_descriptor \<Rightarrow> nat \<Rightarrow> bool" where
  "flush_allowed f z slba \<longleftrightarrow> zrwav z \<and> zd_wp z \<le> slba \<and> slba < zd_wp z + lbas_per_zrwa (zp f)
     \<and> (slba - zd_wp z + 1) mod lbas_per_zrwafg (zp f) = 0 \<and> zone_active z"

lemma flush_ok:
  assumes inv: "zns_inv f" and i: "i < nr_zones (zp f)" and x: "x < zone_lbas f" and zr: "zrwa_supported f"
  defines "slba \<equiv> i * zone_lbas f + x" and "z \<equiv> zone_descs f ! i"
  shows "\<exists>s f'. zmgmt_send_flush_explicit_zrwa f slba = Some (s, f') \<and> zone_moved i f f' \<and> zf_storage f' = zf_storage f
    \<and> (if flush_allowed f z slba then s = NVME_SC_SUCCESS
         \<and> zone_descs f' = (zone_descs f)[i := z\<lparr> zd_wp := slba + 1,
             zd_state := (if slba + 1 = (i + 1) * zone_lbas f then ZONE_STATE_FULL else zd_state z) \<rparr>]
       else s \<noteq> NVME_SC_SUCCESS \<and> f' = f)"
proof -
  note D = zns_invD [OF inv i]
  have len: "i < length (zone_descs f)" using D(2) i by simp
  have lb: "(i + 1) * zone_lbas f < 4294967296" using zone_lbas_bound [OF D(1), of "i + 1"] i by simp
  have wf: "zslba z = i * zone_lbas f" "zone_capacity z = zone_lbas f" "zd_wp z \<le> (i + 1) * zone_lbas f" "i * zone_lbas f \<le> zd_wp z"
    using D(3) by (auto simp: zone_wf_def z_def)
  have sl: "slba < (i + 1) * zone_lbas f" "slba < 4294967295" using x lb by (simp_all add: slba_def)
  have Z: "0 < zone_lbas f" using zns_geometryD(1) [OF D(1)] .
  have L: "0 < lbas_per_zrwa (zp f)" "lbas_per_zrwa (zp f) < 4294967296" "0 < lbas_per_zrwafg (zp f)" using zr by (auto simp: zrwa_supported_def)
  have lz: "lba_to_zone f slba = Some i" unfolding slba_def by (rule lba_to_zone_eq [OF D(1) i x])
  have zs: "zone_to_slba f i = Some (i * zone_lbas f)" using zone_to_slba_eq [OF D(1), of i] i by simp
  have e1: "sub64 (zd_wp z + lbas_per_zrwa (zp f)) 1 = zd_wp z + lbas_per_zrwa (zp f) - 1"
    using L wf(3) lb by (intro sub64_exact) linarith+
  have e2: "sub64 (i * zone_lbas f + zone_lbas f) 1 = (i + 1) * zone_lbas f - 1"
    using Z lb by (subst sub64_exact) simp_all
  have e3: "zd_wp z \<le> slba \<Longrightarrow> u64 (sub64 slba (zd_wp z) + 1) = slba - zd_wp z + 1" using sl by simp
  have e4: "u64 (slba + 1) = slba + 1" "u64 (i * zone_lbas f + zone_lbas f) = (i + 1) * zone_lbas f" using sl lb by simp_all
  have e5: "slba \<le> min (zd_wp z + lbas_per_zrwa (zp f) - 1) ((i + 1) * zone_lbas f - 1) \<longleftrightarrow> slba < zd_wp z + lbas_per_zrwa (zp f)"
    using sl(1) L(1) by auto
  let ?f1 = "f\<lparr> zone_descs := (zone_descs f)[i := z\<lparr> zd_wp := slba + 1 \<rparr>] \<rparr>"
  let ?f2 = "(release_active True (if zone_opened z then release_zone_resource OPEN_ZONE ?f1 else ?f1))
      \<lparr> zone_descs := (zone_descs f)[i := z\<lparr> zd_wp := slba + 1, zd_state := ZONE_STATE_FULL \<rparr>] \<rparr>"
  have opn: "zone_active z \<Longrightarrow> (zd_state z \<noteq> ZONE_STATE_CLOSED) = zone_opened z"
    by (auto simp: zone_active_def zone_opened_def)
  have act: "zd_state z \<in> {ZONE_STATE_OPENED_EXPL, ZONE_STATE_OPENED_IMPL, ZONE_STATE_CLOSED} \<longleftrightarrow> zone_active z"
    by (auto simp: zone_active_def zone_opened_def)
  have at: "arr_get (zone_descs f) i = Some z" using len by (simp add: z_def)
  have on: "on_zone f i (\<lambda>z. z\<lparr> zd_wp := slba + 1 \<rparr>) = Some ?f1" using len by (simp add: on_zone_eq z_def)
  have full: "change_zone_state (release_active True (if zone_opened z then release_zone_resource OPEN_ZONE ?f1 else ?f1)) i ZONE_STATE_FULL = Some ?f2"
    using len by (simp add: change_zone_state_def on_zone_eq release_active_def Let_def)
  have pre: "zmgmt_send_flush_explicit_zrwa f slba = (if flush_allowed f z slba
      then Some (NVME_SC_SUCCESS, if slba + 1 = (i + 1) * zone_lbas f then ?f2 else ?f1)
      else if \<not> zrwav z \<or> \<not> (zd_wp z \<le> slba \<and> slba < zd_wp z + lbas_per_zrwa (zp f)) then Some (NVME_SC_ZNS_INVALID_ZONE_OPERATION, f)
      else if (slba - zd_wp z + 1) mod lbas_per_zrwafg (zp f) \<noteq> 0 then Some (NVME_SC_INVALID_FIELD, f)
      else Some (NVME_SC_ZNS_INVALID_ZONE_OPERATION, f))"
  proof (cases "zrwav z \<and> zd_wp z \<le> slba \<and> slba < zd_wp z + lbas_per_zrwa (zp f)")
    case False
    have "\<not> flush_allowed f z slba" using False by (auto simp: flush_allowed_def)
    moreover have "zmgmt_send_flush_explicit_zrwa f slba = Some (NVME_SC_ZNS_INVALID_ZONE_OPERATION, f)"
      unfolding zmgmt_send_flush_explicit_zrwa_def lz zs at Let_def Option.bind.simps wf(2) e1 e2 e5 using False by auto
    ultimately show ?thesis using False by auto
  next
    case True
    note e3' = e3 [OF conjunct1 [OF conjunct2 [OF True]]]
    show ?thesis
      unfolding zmgmt_send_flush_explicit_zrwa_def lz zs at Let_def Option.bind.simps wf(2) e1 e2 e5 e3' e4 act on
      using True L(3) full opn by (auto simp: flush_allowed_def)
  qed
show ?thesis
  proof (cases "flush_allowed f z slba")
    case False
    with pre exact_moved [OF zone_exact_refl [OF inv i]] show ?thesis
      by (auto simp: status_codes split: if_splits)
  next
    case True
    then have z: "zrwav z" "zone_active z" "zd_wp z \<le> slba" by (simp_all add: flush_allowed_def)
    have ne: "zd_state z \<noteq> ZONE_STATE_EMPTY" using z(2) by (auto simp: zone_active_def zone_opened_def)
    show ?thesis
    proof (cases "slba + 1 = (i + 1) * zone_lbas f")
      case full: True
      let ?D = "(zone_descs f)[i := z\<lparr> zd_wp := slba + 1, zd_state := ZONE_STATE_FULL \<rparr>]"
      have f2: "?f2 = (release_all z f)\<lparr> zone_descs := ?D \<rparr>"
        using z(1) by (simp add: release_all_def release_active_def release_zone_resource_def set_acquired_def)
      have a: "zone_active (zone_descs f ! i)" using z(2) by (simp add: z_def)
      have w: "zone_wf (zone_lbas f) i (z\<lparr> zd_wp := slba + 1, zd_state := ZONE_STATE_FULL \<rparr>)"
        "\<not> zone_active (z\<lparr> zd_wp := slba + 1, zd_state := ZONE_STATE_FULL \<rparr>)"
        using wf full z(3) by (simp_all add: zone_wf_def zone_active_def zone_opened_def)
      have "zone_moved i f ?f2"
        unfolding f2 using release_all_ok [OF inv i a] by (intro exact_moved moved_idle [OF inv i w]) (simp_all add: z_def)
      moreover have "zf_storage ?f2 = zf_storage f" unfolding f2 using release_all_ok(8) [OF inv i a] by (simp add: z_def)
      ultimately show ?thesis unfolding pre using True full by simp
    next
      case False
      let ?z1 = "z\<lparr> zd_wp := slba + 1 \<rparr>"
      have "zone_wf (zone_lbas f) i ?z1"
        using wf z ne False sl(1) by (simp add: zone_wf_def zone_active_def zone_opened_def)
      moreover have "holds k ?z1 = holds k (zone_descs f ! i)" for k
        by (cases k) (simp_all add: z_def zone_active_def zone_opened_def)
      ultimately have "zone_moved i f ?f1" by (intro exact_moved moved_opened [OF inv i, where z = ?z1]) (simp_all del: holds.simps)
      with True False show ?thesis unfolding pre by simp
    qed
  qed
qed

text \<open>Every management command on an existing zone returns and keeps the invariant.\<close>

lemma zmgmt_send_inv:
  assumes inv: "zns_inv f" and i: "i < nr_zones (zp f)" and x: "x < zone_lbas f" and zr: "zrwa_supported f"
  shows "\<exists>s f'. zmgmt_send junk f (i * zone_lbas f + x) a zrwa = Some (s, f') \<and> zone_moved i f f' \<and> zns_inv f'"
proof -
  have lz: "lba_to_zone f (i * zone_lbas f + x) = Some i" using lba_to_zone_eq [OF _ i x] inv by (simp add: zns_inv_def)
  have "\<exists>s f'. zmgmt_send junk f (i * zone_lbas f + x) a zrwa = Some (s, f') \<and> zone_moved i f f'"
  proof (cases "a \<in> {ZSA_CLOSE_ZONE, ZSA_FINISH_ZONE, ZSA_OPEN_ZONE, ZSA_RESET_ZONE, ZSA_OFFLINE_ZONE}")
    case True
    show ?thesis
    proof (cases "a = ZSA_OPEN_ZONE \<and> zd_state (zone_descs f ! i) = ZONE_STATE_EMPTY \<and> zrwa \<and> is_zone_resource_full f ZRWA_ZONE")
      case full: True
      with lz send_open_no_zrwa [OF inv i] exact_moved [OF zone_exact_refl [OF inv i]] show ?thesis
        by (simp add: zmgmt_send_def zone_actions)
    next
      case False
      from send_result [OF inv i x True False, of junk] exact_moved [OF zone_exact_refl [OF inv i]] exact_moved show ?thesis
        by (auto split: option.splits)
    qed
  next
    case False
    with lz flush_ok [OF inv i x zr] exact_moved [OF zone_exact_refl [OF inv i]] show ?thesis
      by (cases "a = ZSA_FLUSH_EXPL_ZRWA") (auto simp: zmgmt_send_def zone_actions)
  qed
  with zone_moved_inv [OF inv i] show ?thesis by blast
qed

lemma zone_moved_frame: "zone_moved i f f' \<Longrightarrow> zp f' = zp f \<and> zspp f' = zspp f \<and> zone_lbas f' = zone_lbas f"
  by (simp add: zone_moved_def zone_lbas_def)

lemma init_descriptors_nth:
  "j < n \<Longrightarrow> s + n * BYTE_TO_LBA (zone_size zpp) < 2 ^ 64 \<Longrightarrow> init_descriptors zpp s n ! j =
     \<lparr> zd_type = ZONE_TYPE_SEQ_WRITE_REQUIRED, zd_state = ZONE_STATE_EMPTY, zrwav = False,
       zone_capacity = BYTE_TO_LBA (zone_size zpp), zslba = s + j * BYTE_TO_LBA (zone_size zpp),
       zd_wp = s + j * BYTE_TO_LBA (zone_size zpp) \<rparr>"
  by (induction n arbitrary: s j) (auto simp: nth_Cons' algebra_simps)

lemma init_descriptors_length [simp]: "length (init_descriptors zpp s n) = n"
  by (induction n arbitrary: s) simp_all

lemma zns_init_ftl_ok:
  assumes s: "secsz (ssd_sp s) = 512" "pgsz (ssd_sp s) = 4096" "secs_per_pg (ssd_sp s) = 8"
    and z: "0 < zone_size zpp" "zone_size zpp mod 4096 = 0" "nr_zones zpp * (zone_size zpp div 512) < 2 ^ 32"
  shows "zns_inv (zns_init_ftl zpp s mem)" and "zp (zns_init_ftl zpp s mem) = zpp" and "zf_ssd (zns_init_ftl zpp s mem) = s"
    and "zf_storage (zns_init_ftl zpp s mem) = mem"
proof -
  let ?f = "zns_init_ftl zpp s mem"
  show zp: "zp ?f = zpp" and sd: "zf_ssd ?f = s" and "zf_storage ?f = mem"
    by (simp_all add: zns_init_ftl_def init_resource_def init_descriptor_def Let_def)
  have d: "zone_descs ?f = init_descriptors zpp 0 (nr_zones zpp)"
    and r: "res_infos ?f k = \<lparr> acquired_cnt = 0, total_cnt = nr_zones zpp \<rparr>" for k
    by (simp_all add: zns_init_ftl_def init_resource_def init_descriptor_def Let_def)
  have g: "zns_geometry ?f"
    using s z by (simp add: zns_geometry_def zone_lbas_def zp sd)
      (simp add: zns_init_ftl_def init_resource_def init_descriptor_def Let_def)
  have lb: "zone_lbas ?f = zone_size zpp div 512" using s by (simp add: zone_lbas_def zp sd)
  have at: "zone_descs ?f ! j = \<lparr> zd_type = ZONE_TYPE_SEQ_WRITE_REQUIRED, zd_state = ZONE_STATE_EMPTY, zrwav = False,
       zone_capacity = zone_lbas ?f, zslba = j * zone_lbas ?f, zd_wp = j * zone_lbas ?f \<rparr>" if "j < nr_zones zpp" for j
    unfolding d using init_descriptors_nth [OF that, of 0] z(3) by (simp add: lb BYTE_TO_LBA_def)
  have "\<not> holds k (zone_descs ?f ! j)" if "j < nr_zones zpp" for k j
    by (cases k) (simp_all add: at [OF that] zone_active_def zone_opened_def)
  then have "holders k (zone_descs ?f) = 0" for k
    using d by (auto simp: holders_def filter_empty_conv in_set_conv_nth simp del: holds.simps)
  then have "res_ok ?f k" for k by (simp add: res_ok_def r zp)
  moreover have "zone_wf (zone_lbas ?f) j (zone_descs ?f ! j)" if "j < nr_zones zpp" for j
    using zns_geometryD(1) [OF g] by (simp add: at [OF that] zone_wf_def zone_active_def zone_opened_def)
  ultimately show "zns_inv ?f" using g d by (simp add: zns_inv_def zp)
qed

section \<open>A small zoned device\<close>

definition tiny_zpp :: znsparams where
  "tiny_zpp = \<lparr> nr_zones = 3, nr_active_zones = 3, nr_open_zones = 3, dies_per_zone = 2, zone_size = 16384, zone_wb_size = 65536,
     nr_zrwa_zones = 1, zrwafg_size = 4096, zrwa_size = 8192, zrwa_buffer_size = 16384, lbas_per_zrwafg = 8, lbas_per_zrwa = 16 \<rparr>"

definition tiny_zns :: zns_ftl where
  "tiny_zns = zns_init_ftl tiny_zpp tiny_ssd (\<lambda>_. 7)"

lemma tiny_zns_ok: "zns_inv tiny_zns" "zp tiny_zns = tiny_zpp" "zf_ssd tiny_zns = tiny_ssd" "zone_lbas tiny_zns = 32"
proof -
  have s: "secsz (ssd_sp tiny_ssd) = 512" "pgsz (ssd_sp tiny_ssd) = 4096" "secs_per_pg (ssd_sp tiny_ssd) = 8"
    by (simp_all add: tiny_ssd_ok)
  have z: "0 < zone_size tiny_zpp" "zone_size tiny_zpp mod 4096 = 0" "nr_zones tiny_zpp * (zone_size tiny_zpp div 512) < 2 ^ 32"
    by (simp_all add: tiny_zpp_def)
  show "zns_inv tiny_zns" and p: "zp tiny_zns = tiny_zpp" "zf_ssd tiny_zns = tiny_ssd"
    unfolding tiny_zns_def by (rule zns_init_ftl_ok [OF s z])+
  then show "zone_lbas tiny_zns = 32" using s by (simp add: zone_lbas_def tiny_zpp_def)
qed

lemma tiny_zns_state: "j < 3 \<Longrightarrow> zone_descs tiny_zns ! j =
    \<lparr> zd_type = 2, zd_state = ZONE_STATE_EMPTY, zrwav = False, zone_capacity = 32, zslba = j * 32, zd_wp = j * 32 \<rparr>"
  using init_descriptors_nth [of j 3 0 tiny_zpp]
  by (simp add: tiny_zns_def zns_init_ftl_def init_resource_def init_descriptor_def Let_def tiny_zpp_def BYTE_TO_LBA_def
      ZONE_TYPE_SEQ_WRITE_REQUIRED_def)

lemma zone_commands_refine_state_machine_witness:
  "\<exists>f. zmgmt_send 0 tiny_zns 37 ZSA_OPEN_ZONE False = Some (NVME_SC_SUCCESS, f) \<and> zns_inv f
    \<and> zd_state (zone_descs f ! 1) = ZONE_STATE_OPENED_EXPL"
  using zone_commands_refine_state_machine [OF tiny_zns_ok(1), of 1 5 ZSA_OPEN_ZONE False 0] tiny_zns_ok tiny_zns_state [of 1]
  by (auto simp: tiny_zpp_def zone_actions)

end
