(* ===== verification/Prp.thy ===== *)
theory Prp
  imports Nvme
begin

text \<open>
  Data transfer between the device and the pages of the host that a command names by its PRP entries
  (\<open>__prp_transfer_data\<close> in \<open>zns_mgmt_recv.c\<close>, the loop of \<open>__do_perform_io\<close> in \<open>io.c\<close>). Host memory is a
  function from the physical address to the byte, device memory one from the offset to the byte, with
  its size. \<open>kmap_atomic_pfn\<close> maps one page, so \<open>None\<close> also stands for a list entry past the end of the page
  of the list, and for an entry of a list that was never mapped.
\<close>

type_synonym bytes = "nat \<Rightarrow> 8 word"

definition PAGE_SIZE :: nat where "PAGE_SIZE = 4096"

definition memcpy :: "bytes \<Rightarrow> nat \<Rightarrow> bytes \<Rightarrow> nat \<Rightarrow> nat \<Rightarrow> bytes" where
  "memcpy dst d src s n = (\<lambda>x. if d \<le> x \<and> x < d + n then src (s + (x - d)) else dst x)"

definition le64 :: "bytes \<Rightarrow> nat \<Rightarrow> nat" where
  "le64 m a = sum_list (map (\<lambda>k. unat (m (a + k)) * 256 ^ k) [0..<8])"

text \<open>\<open>paddr_list[i]\<close>, for the list that starts at \<open>base\<close>.\<close>

definition list_entry :: "bytes \<Rightarrow> nat \<Rightarrow> nat \<Rightarrow> nat option" where
  "list_entry m base i =
     (if base mod PAGE_SIZE + 8 * i + 8 \<le> PAGE_SIZE then Some (le64 m (base + 8 * i)) else None)"

text \<open>The address of the \<open>n\<close>-th piece; the list and the index into it are state of the loop.\<close>

definition prp_next :: "bytes \<Rightarrow> nat \<Rightarrow> nat \<Rightarrow> nat \<Rightarrow> nat \<Rightarrow> nat option \<Rightarrow> nat \<Rightarrow> (nat \<times> nat option \<times> nat) option" where
  "prp_next m p1 p2 n remaining lst i =
     (if n = 1 then Some (p1, lst, i)
      else if n = 2 then
        if PAGE_SIZE < remaining then do { p \<leftarrow> list_entry m p2 i; Some (p, Some p2, i + 1) }
        else Some (p2, lst, i)
      else do { base \<leftarrow> lst; p \<leftarrow> list_entry m base i; Some (p, lst, i + 1) })"

definition prp_io_size :: "nat \<Rightarrow> nat \<Rightarrow> nat" where
  "prp_io_size paddr remaining =
     (let io_size = min remaining PAGE_SIZE; mem_offs = paddr mod PAGE_SIZE
      in if mem_offs \<noteq> 0 \<and> PAGE_SIZE < io_size + mem_offs then PAGE_SIZE - mem_offs else io_size)"

lemma prp_io_size_eq: "prp_io_size p r = min r (PAGE_SIZE - p mod PAGE_SIZE)"
  by (auto simp: prp_io_size_def PAGE_SIZE_def Let_def)

lemma prp_io_size_pos: "0 < r \<Longrightarrow> 0 < prp_io_size p r"
  by (simp add: prp_io_size_eq PAGE_SIZE_def)

datatype prp_dir = TO_HOST | FROM_HOST | NO_COPY

text \<open>The loop: \<open>n\<close> pieces are done, \<open>offset\<close> is where the next one lies in the device memory.\<close>

function prp_loop ::
  "prp_dir \<Rightarrow> nat \<Rightarrow> nat \<Rightarrow> nat \<Rightarrow> nat \<Rightarrow> nat \<Rightarrow> nat \<Rightarrow> nat option \<Rightarrow> nat \<Rightarrow> bytes \<Rightarrow> bytes \<Rightarrow> (bytes \<times> bytes) option" where
  "prp_loop dir size' p1 p2 n remaining offset lst i host dev =
     (if remaining = 0 then Some (host, dev)
      else case prp_next host p1 p2 (n + 1) remaining lst i of
        None \<Rightarrow> None
      | Some (paddr, lst', i') \<Rightarrow>
          if dir \<noteq> NO_COPY \<and> size' < offset + prp_io_size paddr remaining then None
          else prp_loop dir size' p1 p2 (n + 1) (remaining - prp_io_size paddr remaining)
                 (offset + prp_io_size paddr remaining) lst' i'
                 (if dir = TO_HOST then memcpy host paddr dev offset (prp_io_size paddr remaining) else host)
                 (if dir = FROM_HOST then memcpy dev offset host paddr (prp_io_size paddr remaining) else dev))"
  by pat_completeness auto
termination
  by (relation "measure (\<lambda>(dir, s, p1, p2, n, r, _). r)") (auto simp: prp_io_size_pos)

declare prp_loop.simps [simp del]

text \<open>\<open>__prp_transfer_data\<close>; \<open>io\<close> is 0 for output. The result is the length.\<close>

definition prp_transfer_data :: "nat \<Rightarrow> nat \<Rightarrow> nat \<Rightarrow> nat \<Rightarrow> nat \<Rightarrow> bytes \<Rightarrow> bytes \<Rightarrow> (nat \<times> bytes \<times> bytes) option" where
  "prp_transfer_data p1 p2 size' len io host dev = do {
     (host, dev) \<leftarrow> prp_loop (if io = 0 then TO_HOST else FROM_HOST) size' p1 p2 0 len 0 None 0 host dev;
     Some (len, host, dev)
   }"

section \<open>What the PRP entries mean\<close>

text \<open>
  The first piece ends at a page boundary; the second is the page at PRP2, or, if more than a page is
  left, the rest is in the pages of the list that starts at PRP2.
\<close>

definition prp_addr :: "bytes \<Rightarrow> nat \<Rightarrow> nat \<Rightarrow> nat \<Rightarrow> nat \<Rightarrow> nat" where
  "prp_addr m p1 p2 len x =
     (let first = PAGE_SIZE - p1 mod PAGE_SIZE
      in if x < first then p1 + x
         else if len - first \<le> PAGE_SIZE then p2 + (x - first)
         else le64 m (p2 + 8 * ((x - first) div PAGE_SIZE)) + (x - first) mod PAGE_SIZE)"

text \<open>A well-formed command: pages after the first are aligned, and the list does not cross a page.\<close>

definition prp_wf :: "bytes \<Rightarrow> nat \<Rightarrow> nat \<Rightarrow> nat \<Rightarrow> bool" where
  "prp_wf m p1 p2 len \<longleftrightarrow>
     (let first = PAGE_SIZE - p1 mod PAGE_SIZE; k = (len - first + PAGE_SIZE - 1) div PAGE_SIZE
      in first < len \<longrightarrow>
           (if len - first \<le> PAGE_SIZE then p2 mod PAGE_SIZE = 0
            else p2 mod PAGE_SIZE + 8 * k \<le> PAGE_SIZE \<and> (\<forall>j < k. le64 m (p2 + 8 * j) mod PAGE_SIZE = 0)))"

definition piece_at :: "bytes \<Rightarrow> nat \<Rightarrow> nat \<Rightarrow> nat \<Rightarrow> nat \<Rightarrow> nat \<Rightarrow> nat option \<Rightarrow> nat \<Rightarrow> bool" where
  "piece_at m p1 p2 len n x lst i \<longleftrightarrow>
     (let first = PAGE_SIZE - p1 mod PAGE_SIZE
      in n = 0 \<and> x = 0 \<and> lst = None \<and> i = 0
       \<or> n = 1 \<and> x = first \<and> lst = None \<and> i = 0
       \<or> 2 \<le> n \<and> PAGE_SIZE < len - first \<and> x = first + (n - 1) * PAGE_SIZE \<and> lst = Some p2 \<and> i = n - 1)"

lemma piece_next:
  assumes wf: "prp_wf m p1 p2 len" and at: "piece_at m p1 p2 len n x lst i" and x: "x < len"
  shows "\<exists>a lst' i'. prp_next m p1 p2 (n + 1) (len - x) lst i = Some (a, lst', i')
    \<and> (\<forall>y < prp_io_size a (len - x). prp_addr m p1 p2 len (x + y) = a + y)
    \<and> (x + prp_io_size a (len - x) < len \<longrightarrow> piece_at m p1 p2 len (n + 1) (x + prp_io_size a (len - x)) lst' i')"
proof -
  define first where "first = PAGE_SIZE - p1 mod PAGE_SIZE"
  have first: "0 < first" "first \<le> PAGE_SIZE" by (simp_all add: first_def PAGE_SIZE_def)
  let ?k = "(len - first + PAGE_SIZE - 1) div PAGE_SIZE"
  have one_page: "first < len \<Longrightarrow> \<not> PAGE_SIZE < len - first \<Longrightarrow> p2 mod PAGE_SIZE = 0"
    and listed: "PAGE_SIZE < len - first \<Longrightarrow> p2 mod PAGE_SIZE + 8 * ?k \<le> PAGE_SIZE"
      "PAGE_SIZE < len - first \<Longrightarrow> \<forall>j < ?k. le64 m (p2 + 8 * j) mod PAGE_SIZE = 0"
    using wf unfolding prp_wf_def Let_def first_def [symmetric] by (auto split: if_splits)
  consider (zero) "n = 0" "x = 0" "lst = None" "i = 0" | (one) "n = 1" "x = first" "lst = None" "i = 0"
    | (more) "2 \<le> n" "PAGE_SIZE < len - first" "x = first + (n - 1) * PAGE_SIZE" "lst = Some p2" "i = n - 1"
    using at by (auto simp: piece_at_def Let_def first_def)
  then show ?thesis
  proof cases
    case zero
    have "prp_next m p1 p2 (n + 1) (len - x) lst i = Some (p1, None, 0)" using zero by (simp add: prp_next_def)
    moreover have "prp_addr m p1 p2 len (x + y) = p1 + y" if "y < prp_io_size p1 (len - x)" for y
      using that zero by (simp add: prp_addr_def prp_io_size_eq Let_def)
    ultimately show ?thesis using zero by (auto simp: piece_at_def prp_io_size_eq Let_def)
  next
    case one
    show ?thesis
    proof (cases "PAGE_SIZE < len - first")
      case False
      then have al: "p2 mod PAGE_SIZE = 0" using one_page one x by simp
      have "prp_next m p1 p2 (n + 1) (len - x) lst i = Some (p2, None, 0)" using one False by (simp add: prp_next_def)
      moreover have "prp_addr m p1 p2 len (x + y) = p2 + y" if "y < prp_io_size p2 (len - x)" for y
        using that one False by (simp add: prp_addr_def Let_def first_def [symmetric])
      ultimately show ?thesis using one False al by (auto simp: prp_io_size_eq)
    next
      case True
      let ?a = "le64 m p2"
      have k: "0 < ?k" using True by (simp add: PAGE_SIZE_def)
      note w = listed [OF True]
      have al: "?a mod PAGE_SIZE = 0" using w(2) k by auto
      have "prp_next m p1 p2 (n + 1) (len - x) lst i = Some (?a, Some p2, 1)"
        using one True w(1) k by (simp add: prp_next_def list_entry_def)
      moreover have io: "prp_io_size ?a (len - x) = PAGE_SIZE" using True one al by (simp add: prp_io_size_eq)
      moreover have "prp_addr m p1 p2 len (x + y) = ?a + y" if "y < PAGE_SIZE" for y
        using that one True by (simp add: prp_addr_def Let_def first_def [symmetric])
      moreover have "piece_at m p1 p2 len (n + 1) (x + PAGE_SIZE) (Some p2) 1"
        using one True by (simp add: piece_at_def Let_def first_def [symmetric])
      ultimately show ?thesis by auto
    qed
  next
    case more
    let ?a = "le64 m (p2 + 8 * i)"
    note w = listed [OF more(2)]
    have "i * PAGE_SIZE < len - first" using more x by simp
    then have ik: "i < ?k" by (simp add: PAGE_SIZE_def)
    have al: "?a mod PAGE_SIZE = 0" using w(2) ik by blast
    have "p2 mod PAGE_SIZE + 8 * i + 8 \<le> PAGE_SIZE" using w(1) ik by linarith
    then have "prp_next m p1 p2 (n + 1) (len - x) lst i = Some (?a, Some p2, i + 1)"
      using more by (simp add: prp_next_def list_entry_def)
    moreover have io: "prp_io_size ?a (len - x) = min (len - x) PAGE_SIZE" using al by (simp add: prp_io_size_eq)
    moreover have "prp_addr m p1 p2 len (x + y) = ?a + y" if "y < PAGE_SIZE" for y
    proof -
      have "x + y - first = i * PAGE_SIZE + y" "\<not> x + y < first" using more by simp_all
      moreover have "(i * PAGE_SIZE + y) div PAGE_SIZE = i" "(i * PAGE_SIZE + y) mod PAGE_SIZE = y" using that by simp_all
      ultimately show ?thesis using more(2) by (simp add: prp_addr_def Let_def first_def [symmetric])
    qed
    moreover have "piece_at m p1 p2 len (n + 1) (x + PAGE_SIZE) (Some p2) (i + 1)"
      using more by (simp add: piece_at_def Let_def first_def [symmetric]) (metis Suc_diff_Suc One_nat_def Suc_1 Suc_le_lessD add.commute less_imp_Suc_add mult_Suc numeral_2_eq_2 plus_1_eq_Suc diff_Suc_1)
    ultimately show ?thesis by (auto simp: min_def)
  qed
qed

text \<open>Host to device.\<close>

lemma prp_loop_from_host:
  assumes wf: "prp_wf m p1 p2 len" and size': "off + len \<le> size'"
    and at: "piece_at m p1 p2 len n x lst i \<or> x = len" and x: "x \<le> len"
  shows "prp_loop FROM_HOST size' p1 p2 n (len - x) (off + x) lst i m dev
    = Some (m, \<lambda>z. if off + x \<le> z \<and> z < off + len then m (prp_addr m p1 p2 len (z - off)) else dev z)"
  using at x
proof (induction "len - x" arbitrary: n x lst i dev rule: less_induct)
  case less
  show ?case
  proof (cases "x = len")
    case True
    then show ?thesis by (auto simp: prp_loop.simps fun_eq_iff)
  next
    case False
    with less.prems have xl: "x < len" and pa: "piece_at m p1 p2 len n x lst i" by simp_all
    from piece_next [OF wf pa xl] obtain a lst' i' where nx: "prp_next m p1 p2 (n + 1) (len - x) lst i = Some (a, lst', i')"
      and ad: "\<forall>y < prp_io_size a (len - x). prp_addr m p1 p2 len (x + y) = a + y"
      and pa': "x + prp_io_size a (len - x) < len \<longrightarrow> piece_at m p1 p2 len (n + 1) (x + prp_io_size a (len - x)) lst' i'" by blast
    let ?io = "prp_io_size a (len - x)"
    have io: "0 < ?io" "?io \<le> len - x" using prp_io_size_pos [of "len - x" a] xl by (simp_all add: prp_io_size_eq)
    have ih: "prp_loop FROM_HOST size' p1 p2 (n + 1) (len - (x + ?io)) (off + (x + ?io)) lst' i' m (memcpy dev (off + x) m a ?io)
      = Some (m, \<lambda>z. if off + (x + ?io) \<le> z \<and> z < off + len then m (prp_addr m p1 p2 len (z - off)) else memcpy dev (off + x) m a ?io z)"
      using io xl pa' by (intro less.hyps) auto
    have "(if off + (x + ?io) \<le> z \<and> z < off + len then m (prp_addr m p1 p2 len (z - off)) else memcpy dev (off + x) m a ?io z)
      = (if off + x \<le> z \<and> z < off + len then m (prp_addr m p1 p2 len (z - off)) else dev z)" for z
    proof (cases "off + x \<le> z \<and> z < off + x + ?io")
      case True
      then have "prp_addr m p1 p2 len (z - off) = a + (z - (off + x))"
        using ad [rule_format, of "z - (off + x)"] by (simp add: less_diff_conv2)
      then show ?thesis using True io by (auto simp: memcpy_def)
    qed (auto simp: memcpy_def)
    then show ?thesis
      using xl io size' nx ih by (subst prp_loop.simps) (simp add: add.assoc)
  qed
qed

text \<open>Device to host: the pages written are disjoint and the PRP list is in none of them.\<close>

definition prp_list :: "nat \<Rightarrow> nat \<Rightarrow> nat \<Rightarrow> nat set" where
  "prp_list p1 p2 len =
     (let first = PAGE_SIZE - p1 mod PAGE_SIZE
      in if PAGE_SIZE < len - first then {p2 ..< p2 + 8 * ((len - first + PAGE_SIZE - 1) div PAGE_SIZE)} else {})"

definition prp_safe :: "bytes \<Rightarrow> nat \<Rightarrow> nat \<Rightarrow> nat \<Rightarrow> bool" where
  "prp_safe m p1 p2 len \<longleftrightarrow> prp_wf m p1 p2 len \<and> inj_on (prp_addr m p1 p2 len) {..<len}
     \<and> prp_addr m p1 p2 len ` {..<len} \<inter> prp_list p1 p2 len = {}"

lemma le64_cong: "(\<And>x. x < 8 \<Longrightarrow> m (a + x) = m' (a + x)) \<Longrightarrow> le64 m a = le64 m' a"
  unfolding le64_def by (intro arg_cong [where f = sum_list] map_cong) auto

lemma prp_list_entry_cong:
  assumes eq: "\<And>z. z \<in> prp_list p1 p2 len \<Longrightarrow> m' z = m z"
    and more: "PAGE_SIZE < len - (PAGE_SIZE - p1 mod PAGE_SIZE)"
    and j: "j < (len - (PAGE_SIZE - p1 mod PAGE_SIZE) + PAGE_SIZE - 1) div PAGE_SIZE"
  shows "le64 m' (p2 + 8 * j) = le64 m (p2 + 8 * j)"
proof (rule le64_cong)
  fix x :: nat
  assume "x < 8"
  with j more have "p2 + 8 * j + x \<in> prp_list p1 p2 len" by (simp add: prp_list_def Let_def)
  then show "m' (p2 + 8 * j + x) = m (p2 + 8 * j + x)" by (rule eq)
qed

lemma prp_cong:
  assumes eq: "\<And>z. z \<in> prp_list p1 p2 len \<Longrightarrow> m' z = m z"
  shows "prp_wf m' p1 p2 len \<longleftrightarrow> prp_wf m p1 p2 len"
    and "x < len \<Longrightarrow> prp_addr m' p1 p2 len x = prp_addr m p1 p2 len x"
proof -
  let ?f = "PAGE_SIZE - p1 mod PAGE_SIZE"
  show "prp_wf m' p1 p2 len \<longleftrightarrow> prp_wf m p1 p2 len"
  proof (cases "PAGE_SIZE < len - ?f")
    case True
    define f where "f = ?f"
    note True = True [folded f_def]
    have "le64 m' (p2 + 8 * j) = le64 m (p2 + 8 * j)" if "j < (len - f + PAGE_SIZE - 1) div PAGE_SIZE" for j
      using True that unfolding f_def by (intro prp_list_entry_cong [of p1 p2 len m' m]) (auto intro: eq)
    with True show ?thesis unfolding prp_wf_def Let_def f_def [symmetric] by auto
  next
    case False
    then show ?thesis unfolding prp_wf_def Let_def by auto
  qed
  assume x: "x < len"
  show "prp_addr m' p1 p2 len x = prp_addr m p1 p2 len x"
  proof (cases "x < ?f \<or> len - ?f \<le> PAGE_SIZE")
    case True
    then show ?thesis by (auto simp: prp_addr_def Let_def)
  next
    case False
    have "x - ?f + PAGE_SIZE \<le> len - ?f + PAGE_SIZE - 1" using x False by linarith
    then have "(x - ?f + PAGE_SIZE) div PAGE_SIZE \<le> (len - ?f + PAGE_SIZE - 1) div PAGE_SIZE" by (rule div_le_mono)
    moreover have "(x - ?f + PAGE_SIZE) div PAGE_SIZE = (x - ?f) div PAGE_SIZE + 1"
      by (subst div_add_self2) (simp_all add: PAGE_SIZE_def)
    ultimately have "(x - ?f) div PAGE_SIZE < (len - ?f + PAGE_SIZE - 1) div PAGE_SIZE" by linarith
    then have "le64 m' (p2 + 8 * ((x - ?f) div PAGE_SIZE)) = le64 m (p2 + 8 * ((x - ?f) div PAGE_SIZE))"
      using False by (intro prp_list_entry_cong [of p1 p2 len m' m]) (auto intro: eq)
    then show ?thesis unfolding prp_addr_def Let_def by simp
  qed
qed

lemma piece_next_cong:
  assumes "piece_at m p1 p2 len n x lst i"
  shows "piece_at m' p1 p2 len n x lst i"
  using assms by (simp add: piece_at_def)

lemma prp_loop_to_host:
  assumes safe: "prp_safe m p1 p2 len" and size': "off + len \<le> size'"
    and at: "piece_at m p1 p2 len n x lst i \<or> x = len" and x: "x \<le> len"
    and h: "\<And>z. z \<in> prp_list p1 p2 len \<Longrightarrow> h z = m z"
  shows "\<exists>h'. prp_loop TO_HOST size' p1 p2 n (len - x) (off + x) lst i h dev = Some (h', dev)
    \<and> (\<forall>y < len. x \<le> y \<longrightarrow> h' (prp_addr m p1 p2 len y) = dev (off + y))
    \<and> (\<forall>z. z \<notin> prp_addr m p1 p2 len ` {x..<len} \<longrightarrow> h' z = h z)"
  using at x h
proof (induction "len - x" arbitrary: n x lst i h rule: less_induct)
  case less
  let ?A = "prp_addr m p1 p2 len"
  have inj: "inj_on ?A {..<len}" and dis: "?A ` {..<len} \<inter> prp_list p1 p2 len = {}" and wfm: "prp_wf m p1 p2 len"
    using safe by (simp_all add: prp_safe_def)
  have wf: "prp_wf h p1 p2 len" using prp_cong(1) [of p1 p2 len h m] less.prems(3) wfm by blast
  have A: "prp_addr h p1 p2 len y = ?A y" if "y < len" for y using prp_cong(2) [of p1 p2 len h m, OF _ that] less.prems(3) by blast
  show ?case
  proof (cases "x = len")
    case True
    then show ?thesis by (simp add: prp_loop.simps)
  next
    case False
    with less.prems have xl: "x < len" and pa: "piece_at h p1 p2 len n x lst i" by (auto intro: piece_next_cong)
    from piece_next [OF wf pa xl] obtain a lst' i' where nx: "prp_next h p1 p2 (n + 1) (len - x) lst i = Some (a, lst', i')"
      and ad: "\<forall>y < prp_io_size a (len - x). prp_addr h p1 p2 len (x + y) = a + y"
      and pa': "x + prp_io_size a (len - x) < len \<longrightarrow> piece_at h p1 p2 len (n + 1) (x + prp_io_size a (len - x)) lst' i'" by blast
    let ?io = "prp_io_size a (len - x)"
    let ?h = "memcpy h a dev (off + x) ?io"
    have io: "0 < ?io" "?io \<le> len - x" using prp_io_size_pos [of "len - x" a] xl by (simp_all add: prp_io_size_eq)
    have at: "?A (x + y) = a + y" if "y < ?io" for y
      using ad that io A [of "x + y"] by auto
    have hit: "z \<in> ?A ` {x..<x + ?io} \<longleftrightarrow> a \<le> z \<and> z < a + ?io" for z
    proof
      assume "z \<in> ?A ` {x..<x + ?io}"
      then obtain w where "x \<le> w" "w < x + ?io" "z = ?A w" by auto
      moreover from this have "z = a + (w - x)" using at [of "w - x"] by simp
      ultimately show "a \<le> z \<and> z < a + ?io" by linarith
    next
      assume "a \<le> z \<and> z < a + ?io"
      then have "z = ?A (x + (z - a))" "z - a < ?io" using at [of "z - a"] by auto
      then show "z \<in> ?A ` {x..<x + ?io}" by auto
    qed
    have keep: "?h z = m z" if z: "z \<in> prp_list p1 p2 len" for z
    proof -
      have "?A ` {x..<x + ?io} \<subseteq> ?A ` {..<len}" using io by auto
      then have "z \<notin> ?A ` {x..<x + ?io}" using dis z by blast
      then have "?h z = h z" using hit by (auto simp: memcpy_def)
      with less.prems(3) [OF z] show ?thesis by simp
    qed
    have "\<exists>h'. prp_loop TO_HOST size' p1 p2 (n + 1) (len - (x + ?io)) (off + (x + ?io)) lst' i' ?h dev = Some (h', dev)
      \<and> (\<forall>y < len. x + ?io \<le> y \<longrightarrow> h' (?A y) = dev (off + y)) \<and> (\<forall>z. z \<notin> ?A ` {x + ?io..<len} \<longrightarrow> h' z = ?h z)"
      using io xl pa' keep by (intro less.hyps) (auto intro: piece_next_cong)
    then obtain h' where ih: "prp_loop TO_HOST size' p1 p2 (n + 1) (len - (x + ?io)) (off + (x + ?io)) lst' i' ?h dev = Some (h', dev)"
      "\<And>y. y < len \<Longrightarrow> x + ?io \<le> y \<Longrightarrow> h' (?A y) = dev (off + y)" "\<And>z. z \<notin> ?A ` {x + ?io..<len} \<Longrightarrow> h' z = ?h z" by blast
    have "prp_loop TO_HOST size' p1 p2 n (len - x) (off + x) lst i h dev = Some (h', dev)"
      using xl io size' nx ih(1) by (subst prp_loop.simps) (simp add: add.assoc)
    moreover have "h' (?A y) = dev (off + y)" if y: "y < len" "x \<le> y" for y
    proof (cases "x + ?io \<le> y")
      case True
      then show ?thesis using ih(2) y by blast
    next
      case False
      have "?A y \<notin> ?A ` {x + ?io..<len}"
      proof -
        have "{x + ?io..<len} \<subseteq> {..<len}" by auto
        with inj_on_image_mem_iff [OF inj, of y "{x + ?io..<len}"] y False show ?thesis by simp
      qed
      then have "h' (?A y) = ?h (?A y)" by (rule ih(3))
      moreover obtain w where w: "y = x + w" using y(2) by (auto simp: le_iff_add)
      moreover have "?A (x + w) = a + w" using at [of w] w False by simp
      ultimately show ?thesis using False by (simp add: memcpy_def add.assoc)
    qed
    moreover have "h' z = h z" if z: "z \<notin> ?A ` {x..<len}" for z
    proof -
      have "z \<notin> ?A ` {x + ?io..<len}" "z \<notin> ?A ` {x..<x + ?io}" using z io by auto
      then have "h' z = ?h z" "\<not> (a \<le> z \<and> z < a + ?io)" using ih(3) hit by blast+
      then show ?thesis by (simp add: memcpy_def)
    qed
    ultimately show ?thesis by blast
  qed
qed

lemma piece_start: "piece_at m p1 p2 len 0 0 None 0"
  by (simp add: piece_at_def)

text \<open>C18: A transfer reads and writes the bytes the PRP entries of the NVMe specification name: data taken
  from the pages of one command (aligned pages, or a list that fits its page) and given back through the
  pages of another arrives byte for byte, and no other byte of the host memory changes.\<close>

theorem prp_transfer_roundtrip:
  assumes "prp_wf m p1 p2 len" and "prp_safe m q1 q2 len" and "len \<le> size'"
  shows "\<exists>h d. prp_transfer_data p1 p2 size' len 1 m dev = Some (len, m, d)
    \<and> prp_transfer_data q1 q2 size' len 0 m d = Some (len, h, d)
    \<and> (\<forall>x < len. h (prp_addr m q1 q2 len x) = m (prp_addr m p1 p2 len x))
    \<and> (\<forall>z. z \<notin> prp_addr m q1 q2 len ` {..<len} \<longrightarrow> h z = m z)"
proof -
  let ?d = "\<lambda>z. if z < len then m (prp_addr m p1 p2 len z) else dev z"
  have "prp_transfer_data p1 p2 size' len 1 m dev = Some (len, m, ?d)"
    using prp_loop_from_host [OF assms(1), of 0 size' 0 0 None 0 dev] piece_start assms(3)
    by (simp add: prp_transfer_data_def fun_eq_iff)
  moreover obtain h where "prp_transfer_data q1 q2 size' len 0 m ?d = Some (len, h, ?d)"
    "\<forall>y < len. h (prp_addr m q1 q2 len y) = ?d y" "\<forall>z. z \<notin> prp_addr m q1 q2 len ` {0..<len} \<longrightarrow> h z = m z"
    using prp_loop_to_host [OF assms(2), of 0 size' 0 0 None 0 m ?d] piece_start assms(3) by (auto simp: prp_transfer_data_def)
  ultimately show ?thesis by (auto simp: lessThan_atLeast0)
qed

text \<open>Two pages and a half: the first at 16384, the others in a list at 20480.\<close>

definition tiny_host :: bytes where
  "tiny_host = (\<lambda>a. if a = 20481 then 0x60 else if a = 20489 then 0x80
     else if 20480 \<le> a \<and> a < 20496 then 0 else word_of_nat a)"

lemma tiny_host_list: "le64 tiny_host 20480 = 24576" "le64 tiny_host 20488 = 32768"
  by (simp_all add: le64_def tiny_host_def upt_rec)

lemma tiny_host_addr:
  assumes "x < 8704"
  shows "prp_addr tiny_host 16384 20480 8704 x
    = (if x < 4096 then 16384 + x else if x < 8192 then 24576 + (x - 4096) else 32768 + (x - 8192))"
proof -
  have "4096 \<le> x \<Longrightarrow> x < 8192 \<Longrightarrow> (x - 4096) div 4096 = 0" "8192 \<le> x \<Longrightarrow> (x - 4096) div 4096 = 1"
    "8192 \<le> x \<Longrightarrow> (x - 4096) mod 4096 = x - 8192"
    using assms by (simp_all add: div_nat_eqI mod_nat_eqI)
  then show ?thesis using tiny_host_list by (simp add: prp_addr_def PAGE_SIZE_def Let_def)
qed

lemma tiny_host_safe: "prp_safe tiny_host 16384 20480 8704"
proof -
  have "prp_wf tiny_host 16384 20480 8704"
    using tiny_host_list by (auto simp: prp_wf_def PAGE_SIZE_def less_Suc_eq numeral_eq_Suc [of "num.Bit0 num.One"])
  moreover have "inj_on (prp_addr tiny_host 16384 20480 8704) {..<8704}"
    using tiny_host_addr by (auto simp: inj_on_def split: if_splits)
  moreover have "prp_addr tiny_host 16384 20480 8704 ` {..<8704} \<inter> prp_list 16384 20480 8704 = {}"
    using tiny_host_addr by (auto simp: prp_list_def PAGE_SIZE_def split: if_splits)
  ultimately show ?thesis by (simp add: prp_safe_def)
qed

lemma prp_transfer_roundtrip_witness:
  "\<exists>h d. prp_transfer_data 40961 20480 8704 8704 1 tiny_host (\<lambda>_. 0) = Some (8704, tiny_host, d)
    \<and> prp_transfer_data 16384 20480 8704 8704 0 tiny_host d = Some (8704, h, d)
    \<and> h 16484 = tiny_host 41061"
proof -
  have "prp_wf tiny_host 40961 20480 8704"
    using tiny_host_list by (auto simp: prp_wf_def PAGE_SIZE_def less_Suc_eq numeral_eq_Suc [of "num.Bit0 num.One"])
  from prp_transfer_roundtrip [OF this tiny_host_safe order_refl, of "\<lambda>_. 0"] obtain h d where
    r: "prp_transfer_data 40961 20480 8704 8704 1 tiny_host (\<lambda>_. 0) = Some (8704, tiny_host, d)"
    "prp_transfer_data 16384 20480 8704 8704 0 tiny_host d = Some (8704, h, d)"
    "\<forall>x < 8704. h (prp_addr tiny_host 16384 20480 8704 x) = tiny_host (prp_addr tiny_host 40961 20480 8704 x)" by blast
  have "prp_addr tiny_host 40961 20480 8704 100 = 41061" by (simp add: prp_addr_def PAGE_SIZE_def)
  moreover have "prp_addr tiny_host 16384 20480 8704 100 = 16484" by (simp add: tiny_host_addr)
  ultimately have "h 16484 = tiny_host 41061" using r(3) [rule_format, of 100] by simp
  with r(1,2) show ?thesis by blast
qed

end
