(* ===== verification/Zns_IO.thy ===== *)
theory Zns_IO
  imports Zone Prp
begin

text \<open>
  Reads and writes of the zoned namespace (\<open>zns_read_write.c\<close>), the zone report
  (\<open>zns_mgmt_recv.c\<close>) and the dispatcher of \<open>zns_ftl.c\<close>. \<open>now\<close> is the clock the time model reads.
  \<open>None\<close> outside means that the handler does not return (an assertion, an access out of bounds, a
  division by zero).
\<close>

section \<open>Addresses\<close>

definition nr_lbas_from_rw_cmd :: "nvme_command \<Rightarrow> nat" where
  "nr_lbas_from_rw_cmd c = rw_length c + 1"

text \<open>The result is true when there is no boundary error.\<close>

definition check_boundary_error :: "zns_ftl \<Rightarrow> nat \<Rightarrow> nat \<Rightarrow> bool option" where
  "check_boundary_error f slba nr_lba = do {
     a \<leftarrow> lba_to_zone f slba;
     b \<leftarrow> lba_to_zone f (sub64 (slba + nr_lba) 1);
     Some (a = b)
   }"

definition increase_write_ptr :: "zns_ftl \<Rightarrow> nat \<Rightarrow> nat \<Rightarrow> zns_ftl option" where
  "increase_write_ptr f zid nr_lba = do {
     z \<leftarrow> arr_get (zone_descs f) zid;
     let wp = u64 (zd_wp z + u32 nr_lba);
     f \<leftarrow> on_zone f zid (\<lambda>z. z\<lparr> zd_wp := wp \<rparr>);
     start \<leftarrow> zone_to_slba f zid;
     if wp = u64 (start + zone_capacity z) then
       change_zone_state (release_zone_resource ACTIVE_ZONE (release_zone_resource OPEN_ZONE f)) zid ZONE_STATE_FULL
     else Some f
   }"

definition lpn_to_ppa :: "zns_ftl \<Rightarrow> nat \<Rightarrow> ppa option" where
  "lpn_to_ppa f lpn = do {
     let spp = zspp f;
     zone \<leftarrow> lpn_to_zone f lpn;
     start \<leftarrow> zone_to_slpn f zone;
     let off = sub64 lpn start;
     sdie \<leftarrow> mod_trap (u64 (zone * dies_per_zone (zp f))) (tt_luns spp);
     q \<leftarrow> div_trap off (pgs_per_oneshotpg spp);
     r \<leftarrow> mod_trap q (dies_per_zone (zp f));
     let die = u32 (u32 sdie + r);
     channel \<leftarrow> die_to_channel f die;
     lun \<leftarrow> die_to_lun f die;
     pg \<leftarrow> mod_trap off (pgs_per_oneshotpg spp);
     Some (set_g_pg pg (set_g_ch channel (set_g_lun lun 0)))
   }"

section \<open>Write\<close>

definition get_buffer :: "zns_ftl \<Rightarrow> buffer_ref \<Rightarrow> buffer option" where
  "get_buffer f r = (case r of
     SSD_BUFFER \<Rightarrow> Some (write_buffer (zf_ssd f))
   | ZONE_WRITE_BUFFER i \<Rightarrow> arr_get (zone_write_buffer f) i
   | ZRWA_BUFFER i \<Rightarrow> arr_get (zwra_buffer f) i)"

definition put_buffer :: "zns_ftl \<Rightarrow> buffer_ref \<Rightarrow> buffer \<Rightarrow> zns_ftl option" where
  "put_buffer f r buf = (case r of
     SSD_BUFFER \<Rightarrow> Some (f\<lparr> zf_ssd := (zf_ssd f)\<lparr> write_buffer := buf \<rparr> \<rparr>)
   | ZONE_WRITE_BUFFER i \<Rightarrow> do { bs \<leftarrow> arr_set (zone_write_buffer f) i buf; Some (f\<lparr> zone_write_buffer := bs \<rparr>) }
   | ZRWA_BUFFER i \<Rightarrow> do { bs \<leftarrow> arr_set (zwra_buffer f) i buf; Some (f\<lparr> zwra_buffer := bs \<rparr>) })"

definition alloc_buffer :: "zns_ftl \<Rightarrow> buffer_ref \<Rightarrow> nat \<Rightarrow> (nat \<times> zns_ftl) option" where
  "alloc_buffer f r n = do {
     buf \<leftarrow> get_buffer f r;
     let (granted, buf) = buffer_allocate buf n;
     f \<leftarrow> put_buffer f r buf;
     Some (granted, f)
   }"

text \<open>The checks and the state switch of \<open>__zns_write\<close>: \<open>Some status\<close> inside is a jump to \<open>out\<close>. The cases
  of the full and the read-only state fall through to the offline one.\<close>

definition zns_write_admit :: "zns_ftl \<Rightarrow> nat \<Rightarrow> nat \<Rightarrow> nat \<Rightarrow> (nat option \<times> zns_ftl) option" where
  "zns_write_admit f zid slba nr_lba = do {
     z \<leftarrow> arr_get (zone_descs f) zid;
     r \<leftarrow> mod_trap (LBA_TO_BYTE nr_lba) (write_unit_size (zspp f));
     if r \<noteq> 0 then Some (Some NVME_SC_ZNS_INVALID_WRITE, f)
     else do {
       same \<leftarrow> check_boundary_error f slba nr_lba;
       if \<not> same then Some (Some NVME_SC_ZNS_ERR_BOUNDARY, f)
       else if slba \<noteq> zd_wp z then Some (Some NVME_SC_ZNS_INVALID_WRITE, f)
       else
         let open_impl = (\<lambda>f. let (ok, f) = acquire_zone_resource f OPEN_ZONE
               in if \<not> ok then Some (Some NVME_SC_ZNS_NO_OPEN_ZONE, f)
                  else do { f \<leftarrow> change_zone_state f zid ZONE_STATE_OPENED_IMPL; Some (None, f) })
         in case zd_state z of
              ZONE_STATE_EMPTY \<Rightarrow>
                if slba \<noteq> zslba z then Some (Some NVME_SC_ZNS_INVALID_WRITE, f)
                else if is_zone_resource_full f ACTIVE_ZONE then Some (Some NVME_SC_ZNS_NO_ACTIVE_ZONE, f)
                else if is_zone_resource_full f OPEN_ZONE then Some (Some NVME_SC_ZNS_NO_OPEN_ZONE, f)
                else open_impl (snd (acquire_zone_resource f ACTIVE_ZONE))
            | ZONE_STATE_CLOSED \<Rightarrow> open_impl f
            | ZONE_STATE_OPENED_IMPL \<Rightarrow> Some (None, f)
            | ZONE_STATE_OPENED_EXPL \<Rightarrow> Some (None, f)
            | _ \<Rightarrow> Some (Some NVME_SC_ZNS_ERR_OFFLINE, f)
     }
   }"

definition zns_nand_cmd :: "nand_op \<Rightarrow> nat \<Rightarrow> nat \<Rightarrow> ppa \<Rightarrow> nand_cmd" where
  "zns_nand_cmd op t len p = \<lparr> nand_type = USER_IO, cmd = op, xfer_size = len, stime = t, interleave_pci_dma = False, nand_ppa = p \<rparr>"

text \<open>The loop that programs the written pages, one-shot page by one-shot page.\<close>

partial_function (option) write_pages ::
  "base_ssd \<Rightarrow> nat \<Rightarrow> nat \<Rightarrow> buffer_ref \<Rightarrow> nat \<Rightarrow> nat \<Rightarrow> nat \<Rightarrow> nat \<Rightarrow> nat \<Rightarrow> nat \<Rightarrow> io_env \<Rightarrow> zns_ftl
     \<Rightarrow> (nat \<times> io_env \<times> zns_ftl) option" where
  "write_pages b now sqid buf unaligned zone_elpn xfer_done elpn latest lpn e f =
     (if lpn \<le> elpn then
        Option.bind (lpn_to_ppa f lpn) (\<lambda>ppa.
        Option.bind (mod_trap (g_pg ppa) (pgs_per_oneshotpg (zspp f))) (\<lambda>pg_off.
        let oneshot = pgs_per_oneshotpg (zspp f);
            pgs = min (elpn - lpn + 1) (oneshot - pg_off)
        in if pg_off + pgs = oneshot \<or> u64 (lpn + pgs - 1) = zone_elpn then
             Option.bind (ssd_advance_nand b now (zf_ssd f) (zns_nand_cmd NAND_WRITE xfer_done (oneshot * pgsz (zspp f)) ppa)) (\<lambda>(t, s).
             let n = (if u64 (lpn + pgs - 1) = zone_elpn \<and> 0 < unaligned then unaligned else oneshot * pgsz (zspp f))
             in write_pages b now sqid buf unaligned zone_elpn xfer_done elpn (max t latest) (u64 (lpn + pgs))
                  (enqueue_writeback sqid t buf n e) (f\<lparr> zf_ssd := s \<rparr>))
           else write_pages b now sqid buf unaligned zone_elpn xfer_done elpn latest (u64 (lpn + pgs)) e f))
      else Some (latest, e, f))"

text \<open>The end of both write paths: the status, and the time at which the command completes.\<close>

definition write_out :: "ssdparams \<Rightarrow> nat \<Rightarrow> nat \<Rightarrow> nat \<Rightarrow> io_env \<Rightarrow> io_env" where
  "write_out spp status latest xfer_done e =
     e\<lparr> env_ret := (env_ret e)\<lparr> ret_status := status,
          ret_nsecs_target := (if rw_fua (req_cmd (env_req e)) \<or> \<not> write_early_completion spp then latest else xfer_done) \<rparr> \<rparr>"

definition zns_write_seq :: "base_ssd \<Rightarrow> nat \<Rightarrow> zns_ftl \<Rightarrow> io_env \<Rightarrow> (bool \<times> io_env \<times> zns_ftl) option" where
  "zns_write_seq b now f e = do {
     let spp = zspp f;
     let c = req_cmd (env_req e);
     let nr_lba = nr_lbas_from_rw_cmd c;
     let start = req_nsecs_start (env_req e);
     zid \<leftarrow> lba_to_zone f (rw_slba c);
     z \<leftarrow> arr_get (zone_descs f) zid;
     unaligned \<leftarrow> mod_trap (zone_size (zp f)) (pgs_per_oneshotpg spp * pgsz spp);
     let append = (opcode c = nvme_cmd_zone_append);
     let slba = (if append then zd_wp z else rw_slba c);
     let e = (if append then e\<lparr> env_req := (env_req e)\<lparr> req_cmd := set_rw_slba slba c \<rparr>,
                                env_ret := (env_ret e)\<lparr> ret_result := slba \<rparr> \<rparr> else e);
     slpn \<leftarrow> lba_to_lpn f slba;
     elpn \<leftarrow> lba_to_lpn f (sub64 (slba + nr_lba) 1);
     zone_elpn \<leftarrow> zone_to_elpn f zid;
     let buf = (if zone_wb_size (zp f) \<noteq> 0 then ZONE_WRITE_BUFFER zid else SSD_BUFFER);
     (granted, f) \<leftarrow> alloc_buffer f buf (LBA_TO_BYTE nr_lba);
     if granted < LBA_TO_BYTE nr_lba then Some (False, e, f)
     else do {
       (err, f) \<leftarrow> zns_write_admit f zid slba nr_lba;
       (case err of
          Some status \<Rightarrow> Some (True, write_out spp status start start e, f)
        | None \<Rightarrow> do {
            f \<leftarrow> increase_write_ptr f zid nr_lba;
            (t, s) \<leftarrow> ssd_advance_write_buffer now (zf_ssd f) start (LBA_TO_BYTE nr_lba);
            (latest, e, f) \<leftarrow> write_pages b now (req_sq_id (env_req e)) buf unaligned zone_elpn t elpn t slpn e (f\<lparr> zf_ssd := s \<rparr>);
            Some (True, write_out spp NVME_SC_SUCCESS latest t e, f)
          })
     }
   }"

section \<open>Write to the random write area\<close>

definition zrwa_write_admit :: "zns_ftl \<Rightarrow> nat \<Rightarrow> nat \<Rightarrow> nat \<Rightarrow> nat \<Rightarrow> (nat option \<times> zns_ftl) option" where
  "zrwa_write_admit f zid slba nr_lba elba = do {
     z \<leftarrow> arr_get (zone_descs f) zid;
     let zrwa_impl_end = sub64 (zd_wp z + u32 (2 * lbas_per_zrwa (zp f))) 1;
     r \<leftarrow> mod_trap (LBA_TO_BYTE nr_lba) (write_unit_size (zspp f));
     if r \<noteq> 0 then Some (Some NVME_SC_ZNS_INVALID_WRITE, f)
     else do {
       same \<leftarrow> check_boundary_error f slba nr_lba;
       if \<not> same then Some (Some NVME_SC_ZNS_ERR_BOUNDARY, f)
       else if slba < zd_wp z \<or> zrwa_impl_end < elba then Some (Some NVME_SC_ZNS_INVALID_WRITE, f)
       else case zd_state z of
          ZONE_STATE_FULL \<Rightarrow> Some (Some NVME_SC_ZNS_ERR_FULL, f)
        | ZONE_STATE_READ_ONLY \<Rightarrow> Some (Some NVME_SC_ZNS_ERR_READ_ONLY, f)
        | ZONE_STATE_OFFLINE \<Rightarrow> Some (Some NVME_SC_ZNS_ERR_OFFLINE, f)
        | ZONE_STATE_OPENED_IMPL \<Rightarrow> Some (None, f)
        | ZONE_STATE_OPENED_EXPL \<Rightarrow> Some (None, f)
        | _ \<Rightarrow>
            (let (ok, f) = acquire_zone_resource f OPEN_ZONE
             in if \<not> ok then Some (Some NVME_SC_ZNS_NO_OPEN_ZONE, f)
                else do {
                  (granted, f) \<leftarrow> alloc_buffer f (ZRWA_BUFFER zid) (zrwa_size (zp f));
                  nvmev_assert (granted \<noteq> 0);
                  f \<leftarrow> change_zone_state f zid ZONE_STATE_OPENED_IMPL;
                  Some (None, f)
                })
     }
   }"

text \<open>How far the write pointer moves.\<close>

definition zrwa_flush_len :: "zns_ftl \<Rightarrow> nat \<Rightarrow> nat \<Rightarrow> nat \<Rightarrow> nat option" where
  "zrwa_flush_len f zid prev_wp elba = do {
     let impl_start = u64 (prev_wp + lbas_per_zrwa (zp f));
     zone_end \<leftarrow> zone_to_elba f zid;
     if impl_start \<le> elba then do {
       q \<leftarrow> div_trap (u64 (elba - impl_start + 1 + sub64 (lbas_per_zrwafg (zp f)) 1)) (lbas_per_zrwafg (zp f));
       Some (u64 (q * lbas_per_zrwafg (zp f)))
     } else Some (if elba = zone_end then u64 (sub64 elba prev_wp + 1) else 0)
   }"

partial_function (option) zrwa_pages ::
  "base_ssd \<Rightarrow> nat \<Rightarrow> nat \<Rightarrow> buffer_ref \<Rightarrow> nat \<Rightarrow> nat \<Rightarrow> nat \<Rightarrow> nat \<Rightarrow> io_env \<Rightarrow> zns_ftl \<Rightarrow> (nat \<times> io_env \<times> zns_ftl) option" where
  "zrwa_pages b now sqid buf xfer_done latest lpn remaining e f =
     (if 0 < remaining then
        Option.bind (lpn_to_ppa f lpn) (\<lambda>ppa.
        Option.bind (mod_trap (g_pg ppa) (pgs_per_oneshotpg (zspp f))) (\<lambda>pg_off.
        let oneshot = pgs_per_oneshotpg (zspp f);
            pgs = min remaining (oneshot - pg_off)
        in if pg_off + pgs = oneshot then
             Option.bind (ssd_advance_nand b now (zf_ssd f) (zns_nand_cmd NAND_WRITE xfer_done (oneshot * pgsz (zspp f)) ppa)) (\<lambda>(t, s).
             zrwa_pages b now sqid buf xfer_done (max t latest) (u64 (lpn + pgs)) (remaining - pgs)
               (enqueue_writeback sqid t buf (oneshot * pgsz (zspp f)) e) (f\<lparr> zf_ssd := s \<rparr>))
           else zrwa_pages b now sqid buf xfer_done latest (u64 (lpn + pgs)) (remaining - pgs) e f))
      else Some (latest, e, f))"

definition zns_write_zrwa :: "base_ssd \<Rightarrow> nat \<Rightarrow> zns_ftl \<Rightarrow> io_env \<Rightarrow> (bool \<times> io_env \<times> zns_ftl) option" where
  "zns_write_zrwa b now f e = do {
     let spp = zspp f;
     let c = req_cmd (env_req e);
     let slba = rw_slba c;
     let nr_lba = nr_lbas_from_rw_cmd c;
     let elba = sub64 (slba + nr_lba) 1;
     let start = req_nsecs_start (env_req e);
     zid \<leftarrow> lba_to_zone f slba;
     z \<leftarrow> arr_get (zone_descs f) zid;
     let prev_wp = zd_wp z;
     (err, f) \<leftarrow> zrwa_write_admit f zid slba nr_lba elba;
     (case err of
        Some status \<Rightarrow> Some (True, write_out spp status start start e, f)
      | None \<Rightarrow> do {
          n \<leftarrow> zrwa_flush_len f zid prev_wp elba;
          (granted, f) \<leftarrow> (if 0 < n then alloc_buffer f (ZRWA_BUFFER zid) (LBA_TO_BYTE n) else Some (1, f));
          if granted = 0 then Some (False, e, f)
          else do {
            f \<leftarrow> (if 0 < n then increase_write_ptr f zid n else Some f);
            (t, s) \<leftarrow> ssd_advance_write_buffer now (zf_ssd f) start (LBA_TO_BYTE nr_lba);
            lpn \<leftarrow> lba_to_lpn f prev_wp;
            remaining \<leftarrow> div_trap n (secs_per_pg spp);
            (latest, e, f) \<leftarrow> zrwa_pages b now (req_sq_id (env_req e)) (ZRWA_BUFFER zid) t t lpn remaining e (f\<lparr> zf_ssd := s \<rparr>);
            Some (True, write_out spp NVME_SC_SUCCESS latest t e, f)
          }
        })
   }"

definition zns_write :: "base_ssd \<Rightarrow> nat \<Rightarrow> zns_ftl \<Rightarrow> io_env \<Rightarrow> (bool \<times> io_env \<times> zns_ftl) option" where
  "zns_write b now f e = do {
     slpn \<leftarrow> lba_to_lpn f (rw_slba (req_cmd (env_req e)));
     zid \<leftarrow> lpn_to_zone f slpn;
     z \<leftarrow> arr_get (zone_descs f) zid;
     if \<not> zrwav z then zns_write_seq b now f e else zns_write_zrwa b now f e
   }"

section \<open>Read\<close>

partial_function (option) zns_read_pages ::
  "base_ssd \<Rightarrow> nat \<Rightarrow> nat \<Rightarrow> nat \<Rightarrow> nat \<Rightarrow> nat \<Rightarrow> zns_ftl \<Rightarrow> (nat \<times> zns_ftl) option" where
  "zns_read_pages b now start elpn latest lpn f =
     (if lpn \<le> elpn then
        Option.bind (lpn_to_ppa f lpn) (\<lambda>ppa.
        Option.bind (mod_trap (g_pg ppa) (pgs_per_flashpg (zspp f))) (\<lambda>pg_off.
        let pgs = min (elpn - lpn + 1) (pgs_per_flashpg (zspp f) - pg_off)
        in Option.bind (ssd_advance_nand b now (zf_ssd f) (zns_nand_cmd NAND_READ start (pgs * pgsz (zspp f)) ppa)) (\<lambda>(t, s).
           zns_read_pages b now start elpn (max t latest) (u64 (lpn + pgs)) (f\<lparr> zf_ssd := s \<rparr>))))
      else Some (latest, f))"

definition zns_read :: "base_ssd \<Rightarrow> nat \<Rightarrow> zns_ftl \<Rightarrow> io_env \<Rightarrow> (bool \<times> io_env \<times> zns_ftl) option" where
  "zns_read b now f e = do {
     let spp = zspp f;
     let c = req_cmd (env_req e);
     let slba = rw_slba c;
     let nr_lba = nr_lbas_from_rw_cmd c;
     slpn \<leftarrow> lba_to_lpn f slba;
     elpn \<leftarrow> lba_to_lpn f (sub64 (slba + nr_lba) 1);
     zid \<leftarrow> lpn_to_zone f slpn;
     z \<leftarrow> arr_get (zone_descs f) zid;
     same \<leftarrow> check_boundary_error f slba nr_lba;
     let status = (if zd_state z = ZONE_STATE_OFFLINE then NVME_SC_ZNS_ERR_OFFLINE
                   else if \<not> same then NVME_SC_ZNS_ERR_BOUNDARY else NVME_SC_SUCCESS);
     let start = u64 (req_nsecs_start (env_req e) + (if LBA_TO_BYTE nr_lba \<le> KB 4 then fw_4kb_rd_lat spp else fw_rd_lat spp));
     (latest, f) \<leftarrow> zns_read_pages b now start elpn start slpn f;
     (t, s) \<leftarrow> ssd_advance_pcie now (zf_ssd f) latest (nr_lba * secsz spp);
     Some (True, e\<lparr> env_ret := (env_ret e)\<lparr> ret_status := status, ret_nsecs_target := max t latest \<rparr> \<rparr>, f\<lparr> zf_ssd := s \<rparr>)
   }"

section \<open>Zone management receive\<close>

fun state_code :: "zone_state \<Rightarrow> nat" where
  "state_code ZONE_STATE_EMPTY = 0x1"
| "state_code ZONE_STATE_OPENED_IMPL = 0x2"
| "state_code ZONE_STATE_OPENED_EXPL = 0x3"
| "state_code ZONE_STATE_CLOSED = 0x4"
| "state_code ZONE_STATE_READ_ONLY = 0xD"
| "state_code ZONE_STATE_FULL = 0xE"
| "state_code ZONE_STATE_OFFLINE = 0xF"

definition byte_of :: "nat \<Rightarrow> nat \<Rightarrow> 8 word" where
  "byte_of v k = word_of_nat (v div 256 ^ k)"

text \<open>The layout of \<open>struct zone_descriptor\<close> and of \<open>struct zone_report\<close> in memory. Bytes the code never
  writes are what the allocation left there.\<close>

definition descriptor_byte :: "zone_descriptor \<Rightarrow> nat \<Rightarrow> 8 word" where
  "descriptor_byte z k =
     (if k = 0 then word_of_nat (zd_type z mod 16)
      else if k = 1 then word_of_nat (16 * state_code (zd_state z))
      else if k = 2 then (if zrwav z then 8 else 0)
      else if 8 \<le> k \<and> k < 16 then byte_of (zone_capacity z) (k - 8)
      else if 16 \<le> k \<and> k < 24 then byte_of (zslba z) (k - 16)
      else if 24 \<le> k \<and> k < 32 then byte_of (zd_wp z) (k - 24)
      else 0)"

definition report_byte :: "bytes \<Rightarrow> zone_report \<Rightarrow> bytes" where
  "report_byte junk r x =
     (if x < 8 then byte_of (rep_nr_zones r) x
      else if 64 \<le> x \<and> (x - 64) div 64 < length (rep_zd r) then descriptor_byte (rep_zd r ! ((x - 64) div 64)) ((x - 64) mod 64)
      else junk x)"

definition zrecv_length :: "nvme_command \<Rightarrow> nat" where
  "zrecv_length c = u32 (zrecv_nr_dw c + 1) * 4"

definition fill_zone_report :: "zns_ftl \<Rightarrow> nvme_command \<Rightarrow> zone_report \<Rightarrow> zone_report option" where
  "fill_zone_report f c r = do {
     start_zid \<leftarrow> lba_to_zone f (rw_slba c);
     let n = (if zrecv_specific_features c = 0 then sub64 (nr_zones (zp f)) start_zid
              else sub64 (zrecv_length c div 64) 1);
     nvmev_assert (start_zid + n \<le> length (zone_descs f) \<and> n \<le> nr_zones (zp f));
     Some (r\<lparr> rep_nr_zones := n, rep_zd := take n (drop start_zid (zone_descs f)) @ drop n (rep_zd r) \<rparr>)
   }"

text \<open>The address range is checked, but only a message is printed.\<close>

definition check_zmgmt_rcv_option_supported :: "zns_ftl \<Rightarrow> nvme_command \<Rightarrow> bool option" where
  "check_zmgmt_rcv_option_supported f c = do {
     _ \<leftarrow> lba_to_zone f (rw_slba c);
     Some (zrecv_zra c = 0 \<and> zrecv_specific_field c = 0)
   }"

definition zns_zmgmt_recv :: "bytes \<Rightarrow> zns_ftl \<Rightarrow> io_env \<Rightarrow> bytes \<Rightarrow> (io_env \<times> zns_ftl \<times> bytes) option" where
  "zns_zmgmt_recv junk f e host = do {
     let c = req_cmd (env_req e);
     ok \<leftarrow> check_zmgmt_rcv_option_supported f c;
     (status, f, host) \<leftarrow> (if ok then do {
         r \<leftarrow> fill_zone_report f c (report_buffer f);
         (_, host, _) \<leftarrow> prp_transfer_data (prp1 c) (prp2 c) (64 + 64 * nr_zones (zp f)) (zrecv_length c) 0 host (report_byte junk r);
         Some (NVME_SC_SUCCESS, f\<lparr> report_buffer := r \<rparr>, host)
       } else Some (NVME_SC_INVALID_FIELD, f, host));
     Some (e\<lparr> env_ret := (env_ret e)\<lparr> ret_nsecs_target := req_nsecs_start (env_req e), ret_status := status \<rparr> \<rparr>, f, host)
   }"

section \<open>The command handler\<close>

definition zns_flush :: "nat \<Rightarrow> zns_ftl list \<Rightarrow> io_env \<Rightarrow> io_env option" where
  "zns_flush now fs e = do {
     t \<leftarrow> flush_target now (map zf_ssd fs);
     Some (e\<lparr> env_ret := (env_ret e)\<lparr> ret_status := NVME_SC_SUCCESS, ret_nsecs_target := t \<rparr> \<rparr>)
   }"

definition zns_proc_io_cmd ::
  "base_ssd \<Rightarrow> nat \<Rightarrow> nat \<Rightarrow> bytes \<Rightarrow> zns_ftl nvmev_ns \<Rightarrow> io_env \<Rightarrow> bytes \<Rightarrow> (bool \<times> io_env \<times> zns_ftl nvmev_ns \<times> bytes) option" where
  "zns_proc_io_cmd b now junk junk_mem ns e host = do {
     let op = opcode (req_cmd (env_req e));
     nvmev_assert (ns_csi ns = NVME_CSI_ZNS);
     nvmev_assert (ns_nr_parts ns = 1);
     f \<leftarrow> arr_get (ns_ftls ns) 0;
     let store = (\<lambda>f. ns\<lparr> ns_ftls := (ns_ftls ns)[0 := f] \<rparr>);
     if op = nvme_cmd_write \<or> op = nvme_cmd_zone_append then do { (r, e, f) \<leftarrow> zns_write b now f e; Some (r, e, store f, host) }
     else if op = nvme_cmd_read then do { (r, e, f) \<leftarrow> zns_read b now f e; Some (r, e, store f, host) }
     else if op = nvme_cmd_flush then do { e \<leftarrow> zns_flush now (ns_ftls ns) e; Some (True, e, ns, host) }
     else if op = nvme_cmd_zone_mgmt_send then do { (e, f) \<leftarrow> zns_zmgmt_send junk f e; Some (True, e, store f, host) }
     else if op = nvme_cmd_zone_mgmt_recv then do { (e, f, host) \<leftarrow> zns_zmgmt_recv junk_mem f e host; Some (True, e, store f, host) }
     else do { nvmev_assert (nvme_opcode_string_ok op); Some (True, e, ns, host) }
   }"

text \<open>What is left of the namespace when its memory is given back.\<close>

definition zns_remove_namespace :: "zns_ftl nvmev_ns \<Rightarrow> zns_ftl nvmev_ns" where
  "zns_remove_namespace ns = ns\<lparr> ns_ftls := [] \<rparr>"

section \<open>A working zoned device\<close>

definition zone_pgs :: "zns_ftl \<Rightarrow> nat" where
  "zone_pgs f = zone_size (zp f) div pgsz (zspp f)"

text \<open>The dies of a zone are a group of \<open>dies_per_zone\<close> LUNs; groups do not overlap the end of the device.\<close>

definition zns_device :: "zns_ftl \<Rightarrow> bool" where
  "zns_device f \<longleftrightarrow> (let spp = zspp f in ssd_usable (zf_ssd f) \<and> ssd_shape (zf_ssd f)
     \<and> 0 < pgs_per_oneshotpg spp \<and> pgs_per_oneshotpg spp \<le> 65536 \<and> 0 < pgs_per_flashpg spp
     \<and> 0 < nchs spp \<and> nchs spp < 255 \<and> luns_per_ch spp \<le> 256 \<and> tt_luns spp = nchs spp * luns_per_ch spp
     \<and> 0 < tt_luns spp \<and> 0 < dies_per_zone (zp f) \<and> dies_per_zone (zp f) dvd tt_luns spp
     \<and> 0 < max_ch_xfer_size spp \<and> 0 < write_unit_size spp)"

lemma zns_deviceD:
  assumes "zns_device f"
  shows "ssd_usable (zf_ssd f)" "ssd_shape (zf_ssd f)" "0 < pgs_per_oneshotpg (zspp f)" "pgs_per_oneshotpg (zspp f) \<le> 65536"
    "0 < pgs_per_flashpg (zspp f)" "0 < nchs (zspp f)" "nchs (zspp f) < 255" "luns_per_ch (zspp f) \<le> 256"
    "tt_luns (zspp f) = nchs (zspp f) * luns_per_ch (zspp f)" "0 < tt_luns (zspp f)" "0 < dies_per_zone (zp f)"
    "dies_per_zone (zp f) dvd tt_luns (zspp f)" "0 < max_ch_xfer_size (zspp f)" "0 < write_unit_size (zspp f)"
  using assms unfolding zns_device_def Let_def by blast+

lemma zns_device_step:
  assumes "zns_device f" and "ssd_usable s" and "same_data (zf_ssd f) s" and "zf_ssd g = s" and "zp g = zp f"
  shows "zns_device g"
proof -
  have s: "ssd_sp s = zspp f" and "ssd_shape s" using assms(1,3) same_data_get(4) same_data_shape by (auto simp: zns_device_def Let_def)
  then show ?thesis using zns_deviceD [OF assms(1)] assms(2) unfolding zns_device_def Let_def assms(4,5) s by blast
qed

lemma zone_pgs_facts:
  assumes "zns_geometry f"
  shows "0 < zone_pgs f" "zone_lbas f = 8 * zone_pgs f" "zone_size (zp f) = 4096 * zone_pgs f" "zone_size (zp f) div pgsz (zspp f) = zone_pgs f"
proof -
  have s: "pgsz (zspp f) = 4096" "0 < zone_size (zp f)" "4096 dvd zone_size (zp f)" using assms by (auto simp: zns_geometry_def)
  then obtain k where k: "zone_size (zp f) = 4096 * k" by (auto elim: dvdE)
  with s show "0 < zone_pgs f" "zone_size (zp f) = 4096 * zone_pgs f" "zone_size (zp f) div pgsz (zspp f) = zone_pgs f"
    by (auto simp: zone_pgs_def)
  then show "zone_lbas f = 8 * zone_pgs f" using assms by (simp add: zone_lbas_def zns_geometry_def)
qed

lemma zone_pgs_bound:
  assumes "zns_geometry f" and "i \<le> nr_zones (zp f)"
  shows "i * zone_pgs f < 536870912"
  using zone_lbas_bound [OF assms] zone_pgs_facts(2) [OF assms(1)] by simp

lemma lpn_to_zone_eq:
  assumes "zns_geometry f" and "i < nr_zones (zp f)" and "y < zone_pgs f"
  shows "lpn_to_zone f (i * zone_pgs f + y) = Some i"
  using assms nr_zones_bound [OF assms(1)] zone_pgs_facts(4) [OF assms(1)]
  by (simp add: lpn_to_zone_def zns_geometry_def zone_pgs_facts(1))

lemma group_bound:
  assumes "d dvd (t::nat)" and "0 < d" and "0 < t" and "r < d"
  shows "(z * d) mod t + r < t"
proof -
  obtain k where k: "t = d * k" using assms(1) by (auto elim: dvdE)
  with assms have "0 < k" by simp
  have "(z * d) mod t = (z mod k) * d" unfolding k by (metis mult.commute mult_mod_right)
  moreover have "(z mod k) * d + r < (z mod k) * d + d" using assms(4) by simp
  moreover have "Suc (z mod k) * d \<le> k * d" using \<open>0 < k\<close> by (intro mult_le_mono1) (simp add: Suc_leI)
  ultimately show ?thesis by (simp add: k mult.commute)
qed

lemma lpn_to_ppa_ok:
  assumes g: "zns_geometry f" and d: "zns_device f" and i: "i < nr_zones (zp f)" and y: "y < zone_pgs f"
  shows "\<exists>p l. lpn_to_ppa f (i * zone_pgs f + y) = Some p \<and> g_pg p = y mod pgs_per_oneshotpg (zspp f) \<and> p \<noteq> UNMAPPED_PPA
    \<and> get_lun (zf_ssd f) p = Some l"
proof -
  note D = zns_deviceD [OF d]
  let ?t = "tt_luns (zspp f)" and ?o = "pgs_per_oneshotpg (zspp f)" and ?n = "nchs (zspp f)"
  have t: "?t < 65536" using D(7,8,9) mult_le_mono [of ?n 254 "luns_per_ch (zspp f)" 256] by simp
  have dz: "dies_per_zone (zp f) \<le> ?t" using D(10,12) by (simp add: dvd_imp_le)
  have "i * dies_per_zone (zp f) \<le> 4294967296 * 65536"
    using nr_zones_bound [OF g] i dz t by (intro mult_le_mono) linarith+
  then have u: "u64 (i * dies_per_zone (zp f)) = i * dies_per_zone (zp f)" by simp
  let ?s = "(i * dies_per_zone (zp f)) mod ?t" and ?r = "(y div ?o) mod dies_per_zone (zp f)"
  have die: "?s + ?r < ?t" using D(10,11,12) by (intro group_bound) simp_all
  have b: "i * zone_pgs f < 536870912" "Suc i * zone_pgs f < 536870912" using zone_pgs_bound [OF g, of i] zone_pgs_bound [OF g, of "Suc i"] i by simp_all
  have st: "zone_to_slpn f i = Some (i * zone_pgs f)"
    using zone_pgs_facts(4) [OF g] b g by (simp add: zone_to_slpn_def zns_geometry_def)
  have off: "sub64 (i * zone_pgs f + y) (i * zone_pgs f) = y" using b y by (subst sub64_exact) simp_all
  have "?s < ?t" using D(10) by simp
  then have ud: "u32 (u32 ?s + ?r) = ?s + ?r" using die t by (simp add: u32_def)
  let ?p = "set_g_pg (y mod ?o) (set_g_ch ((?s + ?r) mod ?n) (set_g_lun ((?s + ?r) div ?n) 0))"
  have ch: "(?s + ?r) mod ?n < ?n" and lun: "(?s + ?r) div ?n < luns_per_ch (zspp f)"
    using D(6,9) die by (simp_all add: less_mult_imp_div_less mult.commute)
  have eq: "lpn_to_ppa f (i * zone_pgs f + y) = Some ?p"
    using D(3,6,10,11) unfolding lpn_to_ppa_def lpn_to_zone_eq [OF g i y] st u Let_def Option.bind.simps off
    by (simp add: ud die_to_channel_def die_to_lun_def)
  have pg: "g_pg ?p = y mod ?o" using mod_less_divisor [OF D(3), of y] D(4) by simp
  have gch: "g_ch ?p = (?s + ?r) mod ?n" and glun: "g_lun ?p = (?s + ?r) div ?n" using ch lun D(7,8) by simp_all
  have "?p \<noteq> UNMAPPED_PPA"
  proof
    assume "?p = UNMAPPED_PPA"
    then have "g_ch ?p = 255" by (simp only: UNMAPPED_g_ch)
    then show False using gch ch D(7) by linarith
  qed
  moreover obtain l where "get_lun (zf_ssd f) ?p = Some l"
    using ssd_shape_get_lun [OF D(2), of ?p] ch lun unfolding gch glun by blast
  ultimately show ?thesis using eq pg by blast
qed

text \<open>The bytes of a zone whose programming has been issued when the pages up to \<open>y\<close> are written: full
  one-shot pages, and at the end of the zone what is left.\<close>

definition programmed :: "zns_ftl \<Rightarrow> nat \<Rightarrow> nat" where
  "programmed f y = (if y = zone_pgs f then y else y div pgs_per_oneshotpg (zspp f) * pgs_per_oneshotpg (zspp f)) * 4096"

definition queued_for :: "buffer_ref \<Rightarrow> io_env \<Rightarrow> io_env \<Rightarrow> nat \<Rightarrow> bool" where
  "queued_for buf e e' n \<longleftrightarrow> (\<exists>ws. env_wbs e' = env_wbs e @ ws \<and> (\<forall>w \<in> set ws. wb_buffer w = buf \<and> wb_sqid w = req_sq_id (env_req e))
      \<and> sum_list (map wb_buffs_to_release ws) = n)
     \<and> env_req e' = env_req e \<and> env_ret e' = env_ret e"

lemma queued_none [simp]: "queued_for buf e e 0"
  by (simp add: queued_for_def)

lemma queued_step:
  assumes "queued_for buf (enqueue_writeback (req_sq_id (env_req e)) t buf n e) e' m"
  shows "queued_for buf e e' (n + m)"
proof -
  from assms obtain ws where "env_wbs e' = env_wbs e @ (\<lparr> wb_sqid = req_sq_id (env_req e), wb_nsecs_target = t, wb_buffer = buf, wb_buffs_to_release = n \<rparr> # ws)"
    "\<forall>w \<in> set ws. wb_buffer w = buf \<and> wb_sqid w = req_sq_id (env_req e)" "sum_list (map wb_buffs_to_release ws) = m"
    by (auto simp: queued_for_def enqueue_writeback_def)
  then show ?thesis using assms
    by (auto simp: queued_for_def enqueue_writeback_def intro!: exI [of _ "\<lparr> wb_sqid = req_sq_id (env_req e), wb_nsecs_target = t, wb_buffer = buf, wb_buffs_to_release = n \<rparr> # ws"])
qed

text \<open>One round of the loop: the pages up to the end of the one-shot page, or of the request.\<close>

lemma oneshot_round:
  fixes y y' o' P :: nat
  assumes "0 < o'" and "y < y'" and "y' \<le> P" and "P mod o' = u"
  defines "pgs \<equiv> min (y' - y) (o' - y mod o')"
  shows "0 < pgs" and "y + pgs \<le> y'"
    and "y mod o' + pgs = o' \<Longrightarrow> (y + pgs) div o' * o' = y div o' * o' + o'"
    and "y mod o' + pgs = o' \<Longrightarrow> (y + pgs) mod o' = 0"
    and "y mod o' + pgs \<noteq> o' \<Longrightarrow> (y + pgs) div o' = y div o' \<and> y + pgs = y'"
proof -
  have m: "y mod o' < o'" using assms(1) by simp
  show "0 < pgs" "y + pgs \<le> y'" using m assms(2) by (auto simp: pgs_def)
  have dm: "y div o' * o' + y mod o' = y" by simp
  { assume e: "y mod o' + pgs = o'"
    have "y + pgs = y div o' * o' + (y mod o' + pgs)" using dm by linarith
    then have s: "y + pgs = (y div o' + 1) * o'" unfolding e by simp
    show "(y + pgs) div o' * o' = y div o' * o' + o'" unfolding s using assms(1) by simp
    show "(y + pgs) mod o' = 0" unfolding s by simp }
  assume n: "y mod o' + pgs \<noteq> o'"
  then have p: "pgs = y' - y" "y mod o' + pgs < o'" using m by (auto simp: pgs_def min_def split: if_splits)
  have "(y + pgs) div o' = (y div o' * o' + (y mod o' + pgs)) div o'" using dm by simp
  also have "\<dots> = y div o'" using p(2) by (subst div_mult_self3) (use assms(1) in simp_all)
  finally show "(y + pgs) div o' = y div o' \<and> y + pgs = y'" using p assms(2) by simp
qed

lemma programmed_round:
  assumes g: "zns_geometry f" and d: "zns_device f" and y: "y < y'" "y' \<le> zone_pgs f"
  defines "o' \<equiv> pgs_per_oneshotpg (zspp f)"
  defines "pgs \<equiv> min (y' - y) (o' - y mod o')"
  defines "n \<equiv> (if y + pgs = zone_pgs f \<and> 0 < zone_pgs f mod o' * 4096 then zone_pgs f mod o' * 4096 else o' * 4096)"
  shows "programmed f y + (if y mod o' + pgs = o' \<or> y + pgs = zone_pgs f then n else 0) = programmed f (y + pgs)"
proof -
  let ?P = "zone_pgs f"
  have o': "0 < o'" using zns_deviceD(3) [OF d] by (simp add: o'_def)
  note r = oneshot_round [OF o' y refl, folded pgs_def]
  have py: "programmed f y = y div o' * o' * 4096" using y by (simp add: programmed_def o'_def)
  have pm: "?P div o' * o' + ?P mod o' = ?P" by simp
  show ?thesis
  proof (cases "y mod o' + pgs = o'")
    case True
    have "n = o' * 4096" using r(4) [OF True] by (auto simp: n_def)
    moreover have "programmed f (y + pgs) = (y + pgs) div o' * o' * 4096"
      using r(4) [OF True] by (auto simp: programmed_def o'_def)
    ultimately show ?thesis unfolding py using r(3) [OF True] True by simp
  next
    case False
    note q = r(5) [OF False]
    show ?thesis
    proof (cases "y + pgs = ?P")
      case True
      have "?P mod o' \<noteq> 0"
      proof
        assume z: "?P mod o' = 0"
        then have "(y + pgs) div o' * o' = y + pgs" using pm True by simp
        then have "y + pgs = y div o' * o'" using conjunct1 [OF q] by metis
        moreover have "y div o' * o' \<le> y" by simp
        ultimately show False using r(1) by linarith
      qed
      then have "n = ?P mod o' * 4096" using True by (simp add: n_def)
      moreover have "programmed f (y + pgs) = ?P * 4096" using True by (simp add: programmed_def)
      moreover have "y div o' * o' + ?P mod o' = ?P" using conjunct1 [OF q] True pm by metis
      ultimately have "y div o' * o' * 4096 + n = programmed f (y + pgs)" by (metis add_mult_distrib)
      then show ?thesis unfolding py using True by simp
    next
      case ne: False
      then have "programmed f (y + pgs) = (y + pgs) div o' * o' * 4096" by (simp add: programmed_def o'_def)
      also have "\<dots> = programmed f y" unfolding py using conjunct1 [OF q] by metis
      finally show ?thesis using False ne by simp
    qed
  qed
qed

lemma nand_write_ok:
  assumes d: "zns_device f" and l: "get_lun (zf_ssd f) p = Some l" and p: "p \<noteq> UNMAPPED_PPA"
  shows "\<exists>t s. ssd_advance_nand b now (zf_ssd f) (zns_nand_cmd NAND_WRITE x n p) = Some (t, s) \<and> ssd_usable s \<and> same_data (zf_ssd f) s
    \<and> zns_device (f\<lparr> zf_ssd := s \<rparr>)"
proof -
  obtain t s where s: "ssd_advance_nand b now (zf_ssd f) (zns_nand_cmd NAND_WRITE x n p) = Some (t, s)" "ssd_usable s" "same_data (zf_ssd f) s"
    using ssd_advance_nand_ok [OF zns_deviceD(1) [OF d], of "zns_nand_cmd NAND_WRITE x n p" l b now] l p
    by (auto simp: zns_nand_cmd_def command_ok_def)
  with zns_device_step [OF d s(2,3), of "f\<lparr> zf_ssd := s \<rparr>"] show ?thesis by auto
qed

text \<open>Changes of the device state only.\<close>

definition ssd_moved :: "zns_ftl \<Rightarrow> zns_ftl \<Rightarrow> bool" where
  "ssd_moved f f' \<longleftrightarrow> (\<exists>s. f' = f\<lparr> zf_ssd := s \<rparr> \<and> same_data (zf_ssd f) s) \<and> (zns_device f \<longrightarrow> zns_device f')"

lemma ssd_moved_refl: "ssd_moved f f"
  by (auto simp: ssd_moved_def intro: exI [of _ "zf_ssd f"])

lemma ssd_moved_trans:
  assumes "ssd_moved f g" and "ssd_moved g h"
  shows "ssd_moved f h"
proof -
  from assms obtain s t where "g = f\<lparr> zf_ssd := s \<rparr>" "same_data (zf_ssd f) s" "h = f\<lparr> zf_ssd := t \<rparr>" "same_data s t"
    by (auto simp: ssd_moved_def)
  with assms show ?thesis unfolding ssd_moved_def by (metis same_data_trans)
qed

lemma ssd_movedD:
  assumes "ssd_moved f f'"
  shows "zspp f' = zspp f" "zp f' = zp f" "zone_descs f' = zone_descs f" "res_infos f' = res_infos f"
    "zf_storage f' = zf_storage f" "zwra_buffer f' = zwra_buffer f" "zone_write_buffer f' = zone_write_buffer f"
    "write_buffer (zf_ssd f') = write_buffer (zf_ssd f)" "report_buffer f' = report_buffer f"
    "zone_pgs f' = zone_pgs f" "zone_lbas f' = zone_lbas f" "programmed f' y = programmed f y"
    "zns_geometry f' = zns_geometry f" "zns_device f \<Longrightarrow> zns_device f'"
proof -
  from assms obtain s where s: "f' = f\<lparr> zf_ssd := s \<rparr>" "same_data (zf_ssd f) s" by (auto simp: ssd_moved_def)
  note sp = same_data_get(4,5) [OF s(2)]
  show "zspp f' = zspp f" "zp f' = zp f" "zone_descs f' = zone_descs f" "res_infos f' = res_infos f"
    "zf_storage f' = zf_storage f" "zwra_buffer f' = zwra_buffer f" "zone_write_buffer f' = zone_write_buffer f"
    "write_buffer (zf_ssd f') = write_buffer (zf_ssd f)" "report_buffer f' = report_buffer f"
    "zone_pgs f' = zone_pgs f" "zone_lbas f' = zone_lbas f" "programmed f' y = programmed f y"
    "zns_geometry f' = zns_geometry f"
    using sp by (simp_all add: s(1) zone_pgs_def zone_lbas_def programmed_def zns_geometry_def)
  show "zns_device f \<Longrightarrow> zns_device f'" using assms by (simp add: ssd_moved_def)
qed

lemma write_pages_step:
  assumes "lpn \<le> elpn" and "lpn_to_ppa f lpn = Some p" and "0 < pgs_per_oneshotpg (zspp f)" and "u64 (lpn + pgs) = lpn + pgs"
    and "pgs = min (elpn - lpn + 1) (pgs_per_oneshotpg (zspp f) - g_pg p mod pgs_per_oneshotpg (zspp f))"
    and "u64 (lpn + pgs - 1) = lpn + pgs - 1"
  shows "write_pages b now sqid buf unaligned zone_elpn x elpn latest lpn e f =
    (if g_pg p mod pgs_per_oneshotpg (zspp f) + pgs = pgs_per_oneshotpg (zspp f) \<or> lpn + pgs - 1 = zone_elpn then
       Option.bind (ssd_advance_nand b now (zf_ssd f) (zns_nand_cmd NAND_WRITE x (pgs_per_oneshotpg (zspp f) * pgsz (zspp f)) p)) (\<lambda>(t, s).
       write_pages b now sqid buf unaligned zone_elpn x elpn (max t latest) (lpn + pgs)
         (enqueue_writeback sqid t buf (if lpn + pgs - 1 = zone_elpn \<and> 0 < unaligned then unaligned
            else pgs_per_oneshotpg (zspp f) * pgsz (zspp f)) e) (f\<lparr> zf_ssd := s \<rparr>))
     else write_pages b now sqid buf unaligned zone_elpn x elpn latest (lpn + pgs) e f)"
  unfolding write_pages.simps [of b now sqid buf unaligned zone_elpn x elpn latest lpn e f] assms(2) Let_def
    mod_trap_pos [OF assms(3)] Option.bind.simps assms(5) [symmetric] assms(4,6) using assms(1) by simp

lemma write_pages_ok:
  assumes i: "i < nr_zones (zp f)" and y: "y \<le> y'" "0 < y'" "y' \<le> zone_pgs f"
    and g: "zns_geometry f" and d: "zns_device f"
  defines "P \<equiv> zone_pgs f"
  shows "\<exists>t e' f' m. write_pages b now (req_sq_id (env_req e)) buf (P mod pgs_per_oneshotpg (zspp f) * 4096) (i * P + P - 1) x (i * P + y' - 1)
      latest (i * P + y) e f = Some (t, e', f') \<and> ssd_moved f f' \<and> latest \<le> t
    \<and> queued_for buf e e' m \<and> programmed f y + m = programmed f y'"
  using y g d i unfolding P_def
proof (induction "y' - y" arbitrary: y latest e f rule: less_induct)
  case less
  let ?P = "zone_pgs f" and ?o = "pgs_per_oneshotpg (zspp f)"
  have b: "i * ?P + ?P < 18446744073709551616" "Suc i * ?P < 536870912"
    using zone_pgs_bound [OF less.prems(4), of "Suc i"] less.prems(6) by simp_all
  show ?case
  proof (cases "y = y'")
    case True
    then have "write_pages b now (req_sq_id (env_req e)) buf (?P mod ?o * 4096) (i * ?P + ?P - 1) x (i * ?P + y' - 1) latest (i * ?P + y) e f
        = Some (latest, e, f)"
    proof -
      have "\<not> i * ?P + y \<le> i * ?P + y' - 1" using True less.prems(2) by linarith
      then show ?thesis by (subst write_pages.simps) simp
    qed
    moreover have "programmed f y + 0 = programmed f y'" using True by simp
    ultimately show ?thesis using ssd_moved_refl queued_none by blast
  next
    case False
    then have y: "y < y'" using less.prems(1) by simp
    have o': "0 < ?o" using zns_deviceD(3) [OF less.prems(5)] .
    define pgs where "pgs = min (y' - y) (?o - y mod ?o)"
    let ?n = "if y + pgs = ?P \<and> 0 < ?P mod ?o * 4096 then ?P mod ?o * 4096 else ?o * 4096"
    note r = oneshot_round [OF o' y less.prems(3) refl, folded pgs_def]
    obtain p l where p: "lpn_to_ppa f (i * ?P + y) = Some p" "g_pg p = y mod ?o" "p \<noteq> UNMAPPED_PPA" "get_lun (zf_ssd f) p = Some l"
      using lpn_to_ppa_ok [OF less.prems(4,5,6), of y] y less.prems(3) by auto
    have e1: "i * ?P + y' - 1 - (i * ?P + y) + 1 = y' - y" using y by simp
    have e2': "u64 (i * ?P + (y + pgs)) = i * ?P + (y + pgs)" "u64 (i * ?P + (y + pgs) - 1) = i * ?P + (y + pgs) - 1"
      using r(2) less.prems(3) b by simp_all
    have e3: "i * ?P + (y + pgs) - 1 = i * ?P + ?P - 1 \<longleftrightarrow> y + pgs = ?P"
      using r(1) zone_pgs_facts(1) [OF less.prems(4)] by linarith
    have pg: "pgsz (zspp f) = 4096" using less.prems(4) by (simp add: zns_geometry_def)
    have le: "i * ?P + y \<le> i * ?P + y' - 1" using y by simp
    have pe: "pgs = min (i * ?P + y' - 1 - (i * ?P + y) + 1) (?o - g_pg p mod ?o)" unfolding e1 p(2) pgs_def by simp
    note step = write_pages_step [where zone_elpn = "i * ?P + ?P - 1", OF le p(1) o' _ pe, unfolded add.assoc e2' e3 pg p(2) mod_mod_trivial, OF refl refl]
    note pr = programmed_round [OF less.prems(4,5) y less.prems(3), folded pgs_def]
    show ?thesis
    proof (cases "y mod ?o + pgs = ?o \<or> y + pgs = ?P")
      case True
      obtain t s where s: "ssd_advance_nand b now (zf_ssd f) (zns_nand_cmd NAND_WRITE x (?o * pgsz (zspp f)) p) = Some (t, s)"
        "same_data (zf_ssd f) s" "zns_device (f\<lparr> zf_ssd := s \<rparr>)"
        using nand_write_ok [OF less.prems(5) p(4,3)] by blast
      let ?f = "f\<lparr> zf_ssd := s \<rparr>" and ?e = "enqueue_writeback (req_sq_id (env_req e)) t buf ?n e"
      have m: "ssd_moved f ?f" using s by (auto simp: ssd_moved_def)
      note fr = ssd_movedD [OF m]
      have "\<exists>t' e' f' m. write_pages b now (req_sq_id (env_req ?e)) buf (zone_pgs ?f mod pgs_per_oneshotpg (zspp ?f) * 4096)
          (i * zone_pgs ?f + zone_pgs ?f - 1) x (i * zone_pgs ?f + y' - 1) (max t latest) (i * zone_pgs ?f + (y + pgs)) ?e ?f = Some (t', e', f')
        \<and> ssd_moved ?f f' \<and> max t latest \<le> t' \<and> queued_for buf ?e e' m \<and> programmed ?f (y + pgs) + m = programmed ?f y'"
        using r(1,2) y less.prems fr by (intro less.hyps) auto
      then obtain t' e' f' m' where ih: "write_pages b now (req_sq_id (env_req e)) buf (?P mod ?o * 4096)
          (i * ?P + ?P - 1) x (i * ?P + y' - 1) (max t latest) (i * ?P + (y + pgs)) ?e ?f = Some (t', e', f')"
        "ssd_moved ?f f'" "max t latest \<le> t'" "queued_for buf ?e e' m'" "programmed f (y + pgs) + m' = programmed f y'"
        unfolding fr by (auto simp: enqueue_writeback_def)
      have "write_pages b now (req_sq_id (env_req e)) buf (?P mod ?o * 4096) (i * ?P + ?P - 1) x (i * ?P + y' - 1) latest (i * ?P + y) e f
          = Some (t', e', f')"
        unfolding step using True s(1) ih(1) pg by simp
      moreover have "queued_for buf e e' (?n + m')" using queued_step ih(4) by blast
      moreover have "programmed f y + (?n + m') = programmed f y'" using pr True ih(5) by simp
      ultimately show ?thesis using ssd_moved_trans [OF m ih(2)] ih(3) by (metis max.bounded_iff)
    next
      case False
      have "\<exists>t' e' f' m. write_pages b now (req_sq_id (env_req e)) buf (?P mod ?o * 4096)
          (i * ?P + ?P - 1) x (i * ?P + y' - 1) latest (i * ?P + (y + pgs)) e f = Some (t', e', f')
        \<and> ssd_moved f f' \<and> latest \<le> t' \<and> queued_for buf e e' m \<and> programmed f (y + pgs) + m = programmed f y'"
        using r(1,2) y less.prems by (intro less.hyps) auto
      moreover have "write_pages b now (req_sq_id (env_req e)) buf (?P mod ?o * 4096) (i * ?P + ?P - 1) x (i * ?P + y' - 1) latest (i * ?P + y) e f
          = write_pages b now (req_sq_id (env_req e)) buf (?P mod ?o * 4096) (i * ?P + ?P - 1) x (i * ?P + y' - 1) latest (i * ?P + (y + pgs)) e f"
        unfolding step using False by simp
      ultimately show ?thesis using pr False by simp
    qed
  qed
qed

section \<open>Admission of a write\<close>

text \<open>Changes of the zone list and of the resource counts only.\<close>

definition zones_moved :: "nat \<Rightarrow> zone_descriptor \<Rightarrow> zns_ftl \<Rightarrow> zns_ftl \<Rightarrow> bool" where
  "zones_moved i z f f' \<longleftrightarrow> zone_moved i f f' \<and> zone_descs f' = (zone_descs f)[i := z]
     \<and> (\<exists>r. f' = f\<lparr> res_infos := r, zone_descs := (zone_descs f)[i := z] \<rparr>)"

lemma zones_movedD:
  assumes "zones_moved i z f f'"
  shows "zone_descs f' = (zone_descs f)[i := z]" "zf_ssd f' = zf_ssd f" "zp f' = zp f" "zf_storage f' = zf_storage f"
    "zwra_buffer f' = zwra_buffer f" "zone_write_buffer f' = zone_write_buffer f" "report_buffer f' = report_buffer f"
    "zone_lbas f' = zone_lbas f" "zone_pgs f' = zone_pgs f" "zns_device f' = zns_device f" "programmed f' y = programmed f y"
    "zone_moved i f f'"
  using assms by (auto simp: zones_moved_def zone_lbas_def zone_pgs_def zns_device_def programmed_def)

definition implicitly_open :: "zone_descriptor \<Rightarrow> zone_descriptor" where
  "implicitly_open z = (if zone_opened z then z else z\<lparr> zd_state := ZONE_STATE_OPENED_IMPL \<rparr>)"

lemma same_zone [simp]: "xs[i := xs ! i] = xs"
  by simp

lemma zones_moved_refl: "zns_inv f \<Longrightarrow> i < nr_zones (zp f) \<Longrightarrow> zones_moved i (zone_descs f ! i) f f"
  unfolding zones_moved_def using exact_moved [OF zone_exact_refl] by (auto intro!: exI [of _ "res_infos f"])

lemma implicit_open_closed:
  assumes inv: "zns_inv f" and i: "i < nr_zones (zp f)" and st: "zd_state (zone_descs f ! i) = ZONE_STATE_CLOSED"
  shows "\<exists>f1 f2. acquire_zone_resource f OPEN_ZONE = (True, f1) \<and> f1 = set_acquired OPEN_ZONE (acquired_cnt (res_infos f OPEN_ZONE) + 1) f
    \<and> change_zone_state f1 i ZONE_STATE_OPENED_IMPL = Some f2 \<and> zones_moved i (implicitly_open (zone_descs f ! i)) f f2"
proof -
  let ?z = "zone_descs f ! i" and ?n = "acquired_cnt (res_infos f OPEN_ZONE) + 1"
  note D = zns_invD [OF inv i]
  have len: "i < length (zone_descs f)" using D(2) i by simp
  have h: "\<not> holds OPEN_ZONE ?z" "zone_active ?z" using st by (simp_all add: zone_active_def zone_opened_def)
  have act: "acquire_zone_resource f OPEN_ZONE = (True, set_acquired OPEN_ZONE ?n f)"
    by (rule acquire_room(1) [OF inv i h(1)]) simp_all
  have z': "implicitly_open ?z = ?z\<lparr> zd_state := ZONE_STATE_OPENED_IMPL \<rparr>" using h by (simp add: implicitly_open_def)
  let ?f' = "(set_acquired OPEN_ZONE ?n f)\<lparr> zone_descs := (zone_descs f)[i := implicitly_open ?z] \<rparr>"
  have "change_zone_state (set_acquired OPEN_ZONE ?n f) i ZONE_STATE_OPENED_IMPL = Some ?f'"
    using len by (simp add: change_zone_state_def on_zone_eq z')
  moreover have "zone_moved i f ?f'"
  proof (rule exact_moved [OF moved_opened [OF inv i, where z = "implicitly_open ?z"]])
    show "zone_wf (zone_lbas f) i (implicitly_open ?z)" using D(3) h by (auto simp: z' zone_wf_def zone_active_def zone_opened_def)
    show "total_cnt (res_infos ?f' k) = total_cnt (res_infos f k)
      \<and> acquired_cnt (res_infos ?f' k) + of_bool (holds k ?z) = acquired_cnt (res_infos f k) + of_bool (holds k (implicitly_open ?z))" for k
      using h st by (cases k) (auto simp: z' zone_active_def zone_opened_def)
  qed (use h st in \<open>auto simp: z' zone_active_def\<close>)
  ultimately show ?thesis using act unfolding zones_moved_def set_acquired_def by auto
qed

text \<open>The verdict on a write at \<open>slba\<close>. The cases of a full and of a read-only zone miss their
  \<open>break\<close>, so both are reported as offline.\<close>

definition write_verdict :: "zns_ftl \<Rightarrow> zone_descriptor \<Rightarrow> nat \<Rightarrow> nat \<Rightarrow> nat" where
  "write_verdict f z slba nr_lba =
     (if LBA_TO_BYTE nr_lba mod write_unit_size (zspp f) \<noteq> 0 then NVME_SC_ZNS_INVALID_WRITE
      else if slba div zone_lbas f \<noteq> (slba + nr_lba - 1) div zone_lbas f then NVME_SC_ZNS_ERR_BOUNDARY
      else if slba \<noteq> zd_wp z then NVME_SC_ZNS_INVALID_WRITE
      else if zd_state z = ZONE_STATE_EMPTY \<or> zone_active z then NVME_SC_SUCCESS
      else NVME_SC_ZNS_ERR_OFFLINE)"

lemma lba_to_zone_div:
  assumes "zns_geometry f" and "lba < 8589934592"
  shows "lba_to_zone f lba = Some (u32 (lba div zone_lbas f))"
  using assms zns_geometryD(1) [OF assms(1)] by (simp add: lba_to_zone_def zone_lbas_def zns_geometry_def)

lemma boundary_eq:
  assumes g: "zns_geometry f" and "slba < 4294967296" and "0 < n" "n \<le> 65536"
  shows "check_boundary_error f slba n = Some (slba div zone_lbas f = (slba + n - 1) div zone_lbas f)"
proof -
  have Z: "8 \<le> zone_lbas f"
    using zone_pgs_facts(1,2) [OF g] by simp
  have "slba div zone_lbas f \<le> slba div 8" "(slba + n - 1) div zone_lbas f \<le> (slba + n - 1) div 8"
    using Z by (auto intro!: div_le_mono2)
  then have "slba div zone_lbas f < 4294967296" "(slba + n - 1) div zone_lbas f < 4294967296" using assms(2,4) by linarith+
  moreover have "sub64 (slba + n) 1 = slba + n - 1" using assms by (subst sub64_exact) simp_all
  ultimately show ?thesis using assms lba_to_zone_div [OF g] by (simp add: check_boundary_error_def)
qed

lemma write_admit_ok:
  assumes inv: "zns_inv f" and d: "zns_device f" and i: "i < nr_zones (zp f)" and n: "0 < n" "n \<le> 65536"
    and slba: "slba \<le> (i + 1) * zone_lbas f"
  defines "z \<equiv> zone_descs f ! i"
  shows "if write_verdict f z slba n \<noteq> NVME_SC_SUCCESS then zns_write_admit f i slba n = Some (Some (write_verdict f z slba n), f)
    else \<exists>f'. zns_write_admit f i slba n = Some (None, f') \<and> zones_moved i (implicitly_open z) f f'
      \<and> slba = zd_wp z \<and> slba + n \<le> (i + 1) * zone_lbas f"
proof -
  note D = zns_invD [OF inv i]
  have len: "i < length (zone_descs f)" using D(2) i by simp
  have lb: "(i + 1) * zone_lbas f < 4294967296" using zone_lbas_bound [OF D(1), of "i + 1"] i by simp
  then have b: "check_boundary_error f slba n = Some (slba div zone_lbas f = (slba + n - 1) div zone_lbas f)"
    using slba n by (intro boundary_eq [OF D(1)]) simp_all
  have w: "0 < write_unit_size (zspp f)" using zns_deviceD(14) [OF d] .
  have wf: "zslba z = i * zone_lbas f" "zd_state z = ZONE_STATE_EMPTY \<Longrightarrow> zd_wp z = zslba z"
    "zone_active z \<Longrightarrow> zd_wp z < zslba z + zone_lbas f" "zslba z \<le> zd_wp z" using D(3) by (auto simp: zone_wf_def z_def)
  note pre = zns_write_admit_def [of f i slba n, unfolded b mod_trap_pos [OF w] arr_get_in [OF len] Option.bind.simps z_def [symmetric]]
  show ?thesis
  proof (cases "LBA_TO_BYTE n mod write_unit_size (zspp f) = 0 \<and> slba div zone_lbas f = (slba + n - 1) div zone_lbas f \<and> slba = zd_wp z")
    case False
    then show ?thesis by (auto simp: pre write_verdict_def status_codes)
  next
    case ok: True
    have c: "zd_wp z = slba" "LBA_TO_BYTE n mod write_unit_size (zspp f) = 0" "(slba div zone_lbas f = (slba + n - 1) div zone_lbas f) = True"
      using ok by blast+
    have fit: "slba + n \<le> (i + 1) * zone_lbas f" if "zd_state z = ZONE_STATE_EMPTY \<or> zone_active z"
    proof -
      have Z: "0 < zone_lbas f" using zns_geometryD(1) [OF D(1)] .
      have "i * zone_lbas f \<le> slba" "slba < (i + 1) * zone_lbas f" using that wf ok Z by auto
      then have "slba div zone_lbas f = i" by (intro div_nat_eqI) (simp_all add: mult.commute)
      then have "(slba + n - 1) div zone_lbas f < i + 1" using conjunct1 [OF conjunct2 [OF ok]] by linarith
      then show ?thesis using n Z by (simp add: div_less_iff_less_mult)
    qed
    show ?thesis
    proof (cases "zd_state z")
      case ZONE_STATE_EMPTY
      let ?A = "\<lambda>k. acquired_cnt (res_infos f k)"
      have idle: "\<not> holds k (zone_descs f ! i)" for k using ZONE_STATE_EMPTY by (cases k) (auto simp: z_def zone_active_def zone_opened_def)
      let ?g = "set_acquired ACTIVE_ZONE (?A ACTIVE_ZONE + 1) f"
      have acts: "acquire_zone_resource f ACTIVE_ZONE = (True, ?g)"
        "acquire_zone_resource ?g OPEN_ZONE = (True, set_acquired OPEN_ZONE (?A OPEN_ZONE + 1) ?g)"
        using idle by (intro acquire_room(1) [OF inv i]; simp)+
      have avail: "\<not> is_zone_resource_full f ACTIVE_ZONE" "\<not> is_zone_resource_full f OPEN_ZONE"
        using idle by (intro acquire_room(2) [OF inv i]; simp)+
      have z': "implicitly_open z = z\<lparr> zd_state := ZONE_STATE_OPENED_IMPL \<rparr>" using ZONE_STATE_EMPTY by (simp add: implicitly_open_def zone_opened_def)
      let ?f' = "(set_acquired OPEN_ZONE (?A OPEN_ZONE + 1) ?g)\<lparr> zone_descs := (zone_descs f)[i := implicitly_open z] \<rparr>"
      have run: "zns_write_admit f i slba n = Some (None, ?f')"
      proof -
        have "zslba z = slba" using c wf(2) ZONE_STATE_EMPTY by simp
        then show ?thesis unfolding pre using c ZONE_STATE_EMPTY avail acts len
          by (simp del: div_mult_self1 add: change_zone_state_def on_zone_eq z' z_def [symmetric])
      qed
      have "zone_moved i f ?f'"
      proof (rule exact_moved [OF moved_opened [OF inv i, where z = "implicitly_open z"]])
        show "zone_wf (zone_lbas f) i (implicitly_open z)"
          unfolding z' using D(3) [folded z_def] ZONE_STATE_EMPTY zns_geometryD(1) [OF D(1)] by (auto simp: zone_wf_def zone_active_def zone_opened_def)
        show "total_cnt (res_infos ?f' k) = total_cnt (res_infos f k)
          \<and> acquired_cnt (res_infos ?f' k) + of_bool (holds k (zone_descs f ! i)) = acquired_cnt (res_infos f k) + of_bool (holds k (implicitly_open z))" for k
          unfolding z' using idle [of k] D(3) [folded z_def] ZONE_STATE_EMPTY
          by (cases k) (auto simp: z_def [symmetric] zone_active_def zone_opened_def zone_wf_def)
      qed (use D(3) [folded z_def] ZONE_STATE_EMPTY z' in \<open>auto simp: zone_wf_def zone_active_def\<close>)
      then have "zones_moved i (implicitly_open z) f ?f'" unfolding zones_moved_def set_acquired_def by auto
      with run ok fit ZONE_STATE_EMPTY show ?thesis by (auto simp: write_verdict_def)
    next
      case ZONE_STATE_CLOSED
      from implicit_open_closed [OF inv i] ZONE_STATE_CLOSED obtain f1 f2 where
        "acquire_zone_resource f OPEN_ZONE = (True, f1)" "change_zone_state f1 i ZONE_STATE_OPENED_IMPL = Some f2"
        "zones_moved i (implicitly_open z) f f2" by (auto simp: z_def)
      moreover have "zone_active z" using ZONE_STATE_CLOSED by (simp add: zone_active_def)
      ultimately show ?thesis unfolding pre using ok fit ZONE_STATE_CLOSED by (auto simp: write_verdict_def)
    next
      case ZONE_STATE_OPENED_IMPL
      then have "zone_active z" "implicitly_open z = z" by (simp_all add: zone_active_def zone_opened_def implicitly_open_def)
      with zones_moved_refl [OF inv i] ok fit ZONE_STATE_OPENED_IMPL show ?thesis unfolding pre by (auto simp: write_verdict_def z_def [symmetric])
    next
      case ZONE_STATE_OPENED_EXPL
      then have "zone_active z" "implicitly_open z = z" by (simp_all add: zone_active_def zone_opened_def implicitly_open_def)
      with zones_moved_refl [OF inv i] ok fit ZONE_STATE_OPENED_EXPL show ?thesis unfolding pre by (auto simp: write_verdict_def z_def [symmetric])
    qed (use c in \<open>simp_all add: pre write_verdict_def status_codes zone_active_def zone_opened_def\<close>)
  qed
qed

definition advanced :: "zone_descriptor \<Rightarrow> nat \<Rightarrow> zone_descriptor" where
  "advanced z n = z\<lparr> zd_wp := zd_wp z + n,
     zd_state := (if zd_wp z + n = zslba z + zone_capacity z then ZONE_STATE_FULL else zd_state z) \<rparr>"

lemma increase_write_ptr_ok:
  assumes inv: "zns_inv f" and i: "i < nr_zones (zp f)" and op: "zone_opened (zone_descs f ! i)"
    and n: "zd_wp (zone_descs f ! i) + n \<le> (i + 1) * zone_lbas f"
  shows "\<exists>f'. increase_write_ptr f i n = Some f' \<and> zones_moved i (advanced (zone_descs f ! i) n) f f'
    \<and> acquired_cnt (res_infos f' ZRWA_ZONE) = acquired_cnt (res_infos f ZRWA_ZONE)"
proof -
  let ?z = "zone_descs f ! i" and ?A = "\<lambda>k. acquired_cnt (res_infos f k)"
  note D = zns_invD [OF inv i]
  have len: "i < length (zone_descs f)" using D(2) i by simp
  have lb: "(i + 1) * zone_lbas f < 4294967296" using zone_lbas_bound [OF D(1), of "i + 1"] i by simp
  have wf: "zslba ?z = i * zone_lbas f" "zone_capacity ?z = zone_lbas f" "zslba ?z \<le> zd_wp ?z"
    "zd_state ?z = ZONE_STATE_EMPTY \<longrightarrow> False" "zd_wp ?z < zslba ?z + zone_lbas f"
    using D(3) op by (auto simp: zone_wf_def zone_opened_def zone_active_def)
  have w: "u64 (zd_wp ?z + u32 n) = zd_wp ?z + n" using n lb by simp
  have c: "u64 (i * zone_lbas f + zone_capacity ?z) = i * zone_lbas f + zone_lbas f" using wf(2) lb by simp
  have zs: "zone_to_slba f i = Some (i * zone_lbas f)" using zone_to_slba_eq [OF D(1), of i] i by simp
  let ?f1 = "f\<lparr> zone_descs := (zone_descs f)[i := ?z\<lparr> zd_wp := zd_wp ?z + n \<rparr>] \<rparr>"
  have on: "on_zone f i (\<lambda>z. z\<lparr> zd_wp := zd_wp ?z + n \<rparr>) = Some ?f1" using len by (simp add: on_zone_eq)
  have zs1: "zone_to_slba ?f1 i = Some (i * zone_lbas f)" using zs by (simp add: zone_to_slba_def)
  have held: "0 < ?A OPEN_ZONE" "0 < ?A ACTIVE_ZONE" using op by (intro D(7); simp add: zone_active_def)+
  note pre = increase_write_ptr_def [of f i n, unfolded arr_get_in [OF len] Option.bind.simps Let_def w on zs1 c]
  show ?thesis
  proof (cases "zd_wp ?z + n = i * zone_lbas f + zone_lbas f")
    case True
    have adv: "advanced ?z n = ?z\<lparr> zd_wp := zd_wp ?z + n, zd_state := ZONE_STATE_FULL \<rparr>" using True wf by (simp add: advanced_def)
    let ?g = "release_zone_resource ACTIVE_ZONE (release_zone_resource OPEN_ZONE ?f1)"
    let ?f' = "?g\<lparr> zone_descs := (zone_descs f)[i := advanced ?z n] \<rparr>"
    have run: "increase_write_ptr f i n = Some ?f'"
      using True len by (simp add: pre change_zone_state_def on_zone_eq adv)
    have "zone_moved i f ?f'"
      unfolding zone_moved_def
    proof (intro conjI exI [of _ "advanced ?z n"])
      show "zone_wf (zone_lbas f) i (advanced ?z n)" using wf True by (simp add: adv zone_wf_def zone_active_def zone_opened_def)
      show "\<forall>k. total_cnt (res_infos ?f' k) = total_cnt (res_infos f k)
          \<and> (acquired_cnt (res_infos ?f' k) + of_bool (holds k ?z) = ?A k + of_bool (holds k (advanced ?z n))
             \<or> k = ZRWA_ZONE \<and> acquired_cnt (res_infos ?f' k) = ?A k \<and> (holds k (advanced ?z n) \<longrightarrow> holds k ?z))"
        using op held D(6) by (auto simp: all_resources adv zone_active_def zone_opened_def Suc_leI)
      show "acquired_cnt (res_infos ?f' ZRWA_ZONE) \<le> nr_zones (zp f)" using D(5) [of ZRWA_ZONE] by simp
    qed simp_all
    then have "zones_moved i (advanced ?z n) f ?f'"
      by (auto simp: zones_moved_def release_zone_resource_def set_acquired_def)
    moreover have "acquired_cnt (res_infos ?f' ZRWA_ZONE) = ?A ZRWA_ZONE" by simp
    ultimately show ?thesis using run by blast
  next
    case False
    have adv: "advanced ?z n = ?z\<lparr> zd_wp := zd_wp ?z + n \<rparr>" using False wf by (simp add: advanced_def)
    have "zone_moved i f ?f1"
    proof (rule exact_moved [OF moved_opened [OF inv i, where z = "advanced ?z n"]])
      show "zone_wf (zone_lbas f) i (advanced ?z n)"
        using wf False n by (simp add: adv zone_wf_def zone_active_def zone_opened_def)
      have "holds k (advanced ?z n) = holds k ?z" for k by (cases k) (simp_all add: adv zone_active_def zone_opened_def)
      then show "total_cnt (res_infos ?f1 k) = total_cnt (res_infos f k)
          \<and> acquired_cnt (res_infos ?f1 k) + of_bool (holds k ?z) = ?A k + of_bool (holds k (advanced ?z n))" for k by simp
    qed (simp_all add: adv zone_active_def zone_opened_def)
    then have "zones_moved i (advanced ?z n) f ?f1"
      by (auto simp: zones_moved_def adv intro!: exI [of _ "res_infos f"])
    with False show ?thesis by (auto simp: pre)
  qed
qed

lemma buffer_alloc_ok:
  assumes "get_buffer f r = Some buf"
  shows "\<exists>f'. alloc_buffer f r n = Some (fst (buffer_allocate buf n), f') \<and> put_buffer f r (snd (buffer_allocate buf n)) = Some f'"
proof -
  have "\<exists>f'. put_buffer f r b = Some f'" for b using assms by (cases r) (auto simp: get_buffer_def put_buffer_def)
  then obtain f' where "put_buffer f r (snd (buffer_allocate buf n)) = Some f'" by blast
  then show ?thesis using assms by (auto simp: alloc_buffer_def Let_def split_def)
qed

text \<open>Storing a buffer keeps everything but the buffers.\<close>

lemma put_buffer_frame:
  assumes "put_buffer f r b = Some f'"
  shows "zone_descs f' = zone_descs f" "res_infos f' = res_infos f" "zp f' = zp f" "zspp f' = zspp f" "zf_storage f' = zf_storage f"
    "report_buffer f' = report_buffer f" "get_buffer f' q = (if q = r then Some b else get_buffer f q)"
    "zns_inv f' = zns_inv f" "zns_device f' = zns_device f" "zone_lbas f' = zone_lbas f" "zone_pgs f' = zone_pgs f"
    "programmed f' y = programmed f y"
proof -
  show fr: "zone_descs f' = zone_descs f" "res_infos f' = res_infos f" "zp f' = zp f" "zspp f' = zspp f" "zf_storage f' = zf_storage f"
    "report_buffer f' = report_buffer f"
    using assms by (cases r; force simp: put_buffer_def fault_simps)+
  show "get_buffer f' q = (if q = r then Some b else get_buffer f q)"
    using assms by (cases r; cases q) (auto simp: put_buffer_def get_buffer_def fault_simps arr_get_def)
  have ln: "length (zwra_buffer f') = length (zwra_buffer f)" "length (zone_write_buffer f') = length (zone_write_buffer f)"
    using assms by (cases r; force simp: put_buffer_def fault_simps)+
  have dv: "ssd_usable (zf_ssd f') = ssd_usable (zf_ssd f)" "ssd_shape (zf_ssd f') = ssd_shape (zf_ssd f)"
    using assms by (cases r; force simp: put_buffer_def fault_simps ssd_usable_def ssd_shape_def flash_data_def)+
  show zl: "zone_lbas f' = zone_lbas f" "zone_pgs f' = zone_pgs f" "programmed f' y = programmed f y"
    by (simp_all add: zone_lbas_def zone_pgs_def programmed_def fr)
  show "zns_device f' = zns_device f" by (simp add: zns_device_def fr dv)
  show "zns_inv f' = zns_inv f" by (simp add: zns_inv_def zns_geometry_def res_ok_def fr zl ln)
qed

section \<open>Sequential writes\<close>

definition zone_wbuf :: "zns_ftl \<Rightarrow> nat \<Rightarrow> buffer_ref" where
  "zone_wbuf f i = (if zone_wb_size (zp f) \<noteq> 0 then ZONE_WRITE_BUFFER i else SSD_BUFFER)"

lemma zone_wbuf_ok: "zns_inv f \<Longrightarrow> i < nr_zones (zp f) \<Longrightarrow> \<exists>bf. get_buffer f (zone_wbuf f i) = Some bf"
  by (auto simp: zone_wbuf_def get_buffer_def zns_inv_def zns_geometry_def)

text \<open>Where the command starts: an append writes at the write pointer.\<close>

definition write_start :: "nvme_command \<Rightarrow> zone_descriptor \<Rightarrow> nat" where
  "write_start c z = (if opcode c = nvme_cmd_zone_append then zd_wp z else rw_slba c)"

definition started :: "nvme_command \<Rightarrow> zone_descriptor \<Rightarrow> io_env \<Rightarrow> io_env" where
  "started c z e = (if opcode c = nvme_cmd_zone_append
     then e\<lparr> env_req := (env_req e)\<lparr> req_cmd := set_rw_slba (zd_wp z) c \<rparr>, env_ret := (env_ret e)\<lparr> ret_result := zd_wp z \<rparr> \<rparr> else e)"

lemma nr_lbas_bounds [simp]: "0 < nr_lbas_from_rw_cmd c" "nr_lbas_from_rw_cmd c \<le> 65536"
proof -
  have "rw_length c < 65536" by (simp add: rw_length_def)
  then show "0 < nr_lbas_from_rw_cmd c" "nr_lbas_from_rw_cmd c \<le> 65536" by (simp_all add: nr_lbas_from_rw_cmd_def)
qed

lemma lba_to_lpn_eq: "zns_geometry f \<Longrightarrow> lba_to_lpn f lba = Some (lba div 8)"
  by (simp add: lba_to_lpn_def zns_geometry_def)

lemma zone_elpn_eq:
  assumes g: "zns_geometry f" and i: "i < nr_zones (zp f)"
  shows "zone_to_elpn f i = Some (i * zone_pgs f + zone_pgs f - 1)"
proof -
  have Z: "zone_lbas f = 8 * zone_pgs f" "0 < zone_pgs f" using zone_pgs_facts [OF g] by simp_all
  have b: "(i + 1) * zone_lbas f < 4294967296" using zone_lbas_bound [OF g, of "i + 1"] i by simp
  have "zone_to_slba f (i + 1) = Some ((i + 1) * zone_lbas f)" using zone_to_slba_eq [OF g, of "i + 1"] i by simp
  moreover have "sub64 ((i + 1) * zone_lbas f) 1 = (i + 1) * zone_lbas f - 1" using b Z by (subst sub64_exact) simp_all
  moreover have "((i + 1) * zone_lbas f - 1) div 8 = (i + 1) * zone_pgs f - 1" using Z by (simp add: algebra_simps)
  ultimately show ?thesis using g by (simp add: zone_to_elpn_def zone_to_elba_def zns_geometry_def add.commute)
qed

text \<open>Pages of a range of sectors inside a zone.\<close>

lemma page_range:
  assumes g: "zns_geometry f" and s: "i * zone_lbas f \<le> s" "s + n \<le> (i + 1) * zone_lbas f" "0 < n"
  defines "y \<equiv> (s - i * zone_lbas f) div 8" and "y' \<equiv> (s - i * zone_lbas f + n - 1) div 8 + 1"
  shows "s div 8 = i * zone_pgs f + y" and "(s + n - 1) div 8 = i * zone_pgs f + y' - 1" and "y \<le> y'" "0 < y'" "y' \<le> zone_pgs f"
proof -
  have Z: "zone_lbas f = 8 * zone_pgs f" using zone_pgs_facts [OF g] by simp
  define x where "x = s - i * zone_lbas f"
  have sx: "s = 8 * (i * zone_pgs f) + x" using s(1) Z by (simp add: x_def)
  have y: "y = x div 8" "y' = (x + n - 1) div 8 + 1" by (simp_all add: y_def y'_def x_def)
  show "s div 8 = i * zone_pgs f + y" unfolding sx y by simp
  have "s + n - 1 = 8 * (i * zone_pgs f) + (x + n - 1)" using sx s(3) by simp
  then have "(s + n - 1) div 8 = i * zone_pgs f + (x + n - 1) div 8" by simp
  then show "(s + n - 1) div 8 = i * zone_pgs f + y' - 1" unfolding y by simp
  have "x div 8 \<le> (x + n - 1) div 8" using s(3) by (intro div_le_mono) simp
  then show "y \<le> y'" unfolding y by simp
  have "x + n \<le> 8 * zone_pgs f" using s(2) sx Z by simp
  then show "y' \<le> zone_pgs f" using s(3) unfolding y by linarith
  show "0 < y'" unfolding y by simp
qed

lemma advance_write_buffer_ok:
  assumes d: "zns_device f"
  shows "\<exists>t s. ssd_advance_write_buffer now (zf_ssd f) t0 n = Some (t, s) \<and> ssd_moved f (f\<lparr> zf_ssd := s \<rparr>)"
proof -
  obtain t s where s: "ssd_advance_write_buffer now (zf_ssd f) t0 n = Some (t, s)" "ssd_usable s" "same_data (zf_ssd f) s"
    using advance_pcie_ok [OF zns_deviceD(1) [OF d]] by (auto simp: ssd_advance_write_buffer_def Let_def) metis
  with zns_device_step [OF d s(2,3), of "f\<lparr> zf_ssd := s \<rparr>"] show ?thesis by (auto simp: ssd_moved_def)
qed

lemma ssd_moved_inv: "ssd_moved f f' \<Longrightarrow> zns_inv f' = zns_inv f"
  using ssd_movedD [of f f'] by (simp add: zns_inv_def res_ok_def)

lemma started_req [simp]: "req_sq_id (env_req (started c z e)) = req_sq_id (env_req e)"
  "req_nsecs_start (env_req (started c z e)) = req_nsecs_start (env_req e)" "env_wbs (started c z e) = env_wbs e"
  by (simp_all add: started_def)

lemma write_out_fields [simp]: "ret_status (env_ret (write_out spp st l t e)) = st" "env_wbs (write_out spp st l t e) = env_wbs e"
  "env_req (write_out spp st l t e) = env_req e" "ret_result (env_ret (write_out spp st l t e)) = ret_result (env_ret e)"
  by (simp_all add: write_out_def)

text \<open>The pages from \<open>y\<close> on are a whole number of one-shot pages behind those up to \<open>y'\<close>.\<close>

definition write_effect :: "zns_ftl \<Rightarrow> nat \<Rightarrow> nat \<Rightarrow> nat \<Rightarrow> io_env \<Rightarrow> io_env \<Rightarrow> zns_ftl \<Rightarrow> bool" where
  "write_effect f i s n e e' f' \<longleftrightarrow>
     (let z = zone_descs f ! i; x = s - i * zone_lbas f
      in zone_descs f' = (zone_descs f)[i := advanced (implicitly_open z) n]
         \<and> (\<exists>ws. env_wbs e' = env_wbs e @ ws \<and> (\<forall>w \<in> set ws. wb_buffer w = zone_wbuf f i \<and> wb_sqid w = req_sq_id (env_req e))
              \<and> programmed f (x div 8) + sum_list (map wb_buffs_to_release ws) = programmed f ((x + n - 1) div 8 + 1)))"

lemma put_buffer_same: "get_buffer f r = Some b \<Longrightarrow> put_buffer f r b = Some f"
  by (cases r) (auto simp: get_buffer_def put_buffer_def)

lemma zns_write_seq_ok:
  assumes inv: "zns_inv f" and d: "zns_device f" and i: "i < nr_zones (zp f)"
    and at: "i * zone_lbas f \<le> rw_slba (req_cmd (env_req e))" "rw_slba (req_cmd (env_req e)) < (i + 1) * zone_lbas f"
    and bf: "get_buffer f (zone_wbuf f i) = Some bf"
  defines "c \<equiv> req_cmd (env_req e)" and "z \<equiv> zone_descs f ! i"
  defines "s \<equiv> write_start c z" and "n \<equiv> nr_lbas_from_rw_cmd c"
  shows "if buf_remaining bf < LBA_TO_BYTE n then zns_write_seq b now f e = Some (False, started c z e, f)
    else \<exists>e' f'. zns_write_seq b now f e = Some (True, e', f') \<and> zns_inv f' \<and> zns_device f'
      \<and> ret_status (env_ret e') = write_verdict f z s n \<and> ret_result (env_ret e') = ret_result (env_ret (started c z e))
      \<and> zf_storage f' = zf_storage f \<and> zp f' = zp f
      \<and> get_buffer f' (zone_wbuf f i) = Some (snd (buffer_allocate bf (LBA_TO_BYTE n)))
      \<and> (if write_verdict f z s n = NVME_SC_SUCCESS then write_effect f i s n e e' f'
         else zone_descs f' = zone_descs f \<and> env_wbs e' = env_wbs e)"
proof -
  note D = zns_invD [OF inv i] and g = zns_invD(1) [OF inv i]
  let ?P = "zone_pgs f" and ?o = "pgs_per_oneshotpg (zspp f)" and ?e = "started c z e" and ?buf = "zone_wbuf f i"
  have len: "i < length (zone_descs f)" using D(2) i by simp
  have n: "0 < n" "n \<le> 65536" by (simp_all add: n_def)
  have lb: "(i + 1) * zone_lbas f < 4294967296" using zone_lbas_bound [OF g, of "i + 1"] i by simp
  have wp: "zd_wp z \<le> (i + 1) * zone_lbas f" "i * zone_lbas f \<le> zd_wp z" using D(3) by (auto simp: zone_wf_def z_def)
  have s: "s \<le> (i + 1) * zone_lbas f" "i * zone_lbas f \<le> s" using wp at by (auto simp: s_def write_start_def c_def)
  have lz: "lba_to_zone f (rw_slba c) = Some i"
    using lba_to_zone_eq [OF g i, of "rw_slba c - i * zone_lbas f"] at by (simp add: c_def)
  have un: "mod_trap (zone_size (zp f)) (?o * pgsz (zspp f)) = Some (?P mod ?o * 4096)"
    using zone_pgs_facts(3) [OF g] zns_deviceD(3) [OF d] g
    by (simp add: zns_geometry_def mult.commute)
  have sub: "sub64 (s + n) 1 = s + n - 1" using s lb n by (subst sub64_exact) simp_all
  have gr: "fst (buffer_allocate bf (LBA_TO_BYTE n)) = (if buf_remaining bf < LBA_TO_BYTE n then 0 else LBA_TO_BYTE n)"
    using n by (simp add: buffer_allocate_def LBA_TO_BYTE_def Let_def)
  obtain f1 where f1: "alloc_buffer f ?buf (LBA_TO_BYTE n) = Some (if buf_remaining bf < LBA_TO_BYTE n then 0 else LBA_TO_BYTE n, f1)"
    "put_buffer f ?buf (snd (buffer_allocate bf (LBA_TO_BYTE n))) = Some f1"
    using buffer_alloc_ok [OF bf, of "LBA_TO_BYTE n"] gr by auto
  have ws: "opcode c = nvme_cmd_zone_append \<Longrightarrow> zd_wp z = s" by (simp add: s_def write_start_def)
  have run: "zns_write_seq b now f e =
     (if (if buf_remaining bf < LBA_TO_BYTE n then 0 else LBA_TO_BYTE n) < LBA_TO_BYTE n then Some (False, ?e, f1)
      else Option.bind (zns_write_admit f1 i s n) (\<lambda>(err, f). case err of
          Some status \<Rightarrow> Some (True, write_out (zspp f1) status (req_nsecs_start (env_req e)) (req_nsecs_start (env_req e)) ?e, f)
        | None \<Rightarrow> do {
            f \<leftarrow> increase_write_ptr f i n;
            (t, sd) \<leftarrow> ssd_advance_write_buffer now (zf_ssd f) (req_nsecs_start (env_req e)) (LBA_TO_BYTE n);
            (latest, e, f) \<leftarrow> write_pages b now (req_sq_id (env_req e)) ?buf (?P mod ?o * 4096) (i * ?P + ?P - 1) t ((s + n - 1) div 8) t (s div 8) ?e (f\<lparr> zf_ssd := sd \<rparr>);
            Some (True, write_out (zspp f1) NVME_SC_SUCCESS latest t e, f)
          }))"
    unfolding zns_write_seq_def Let_def c_def [symmetric] n_def [symmetric] lz un Option.bind.simps arr_get_in [OF len] z_def [symmetric]
      write_start_def [symmetric] s_def [symmetric] sub lba_to_lpn_eq [OF g] zone_elpn_eq [OF g i] zone_wbuf_def [symmetric]
    using f1(1) put_buffer_frame(4) [OF f1(2)] ws
    by (cases "opcode c = nvme_cmd_zone_append") (simp_all add: started_def cong: if_cong cong del: option.case_cong_weak)
  show ?thesis
  proof (cases "buf_remaining bf < LBA_TO_BYTE n")
    case True
    then have "buf_remaining bf < 18446744073709551616" using n by (simp add: LBA_TO_BYTE_def)
    then have "snd (buffer_allocate bf (LBA_TO_BYTE n)) = bf" using True by (simp add: buffer_allocate_def Let_def)
    then have "f1 = f" using put_buffer_same [OF bf] f1(2) by simp
    then show ?thesis using True n unfolding run by (simp add: LBA_TO_BYTE_def)
  next
    case room: False
    note F = put_buffer_frame [OF f1(2)]
    have inv1: "zns_inv f1" and d1: "zns_device f1" and i1: "i < nr_zones (zp f1)" and z1: "zone_descs f1 ! i = z"
      and lb1: "zone_lbas f1 = zone_lbas f" using F inv d i by (simp_all add: z_def)
    have v1: "write_verdict f1 z s n = write_verdict f z s n" by (simp add: write_verdict_def F lb1)
    note adm = write_admit_ok [OF inv1 d1 i1 n, unfolded z1 lb1, OF s(1), unfolded v1]
    show ?thesis
    proof (cases "write_verdict f z s n = NVME_SC_SUCCESS")
      case False
      with adm have "zns_write_admit f1 i s n = Some (Some (write_verdict f z s n), f1)" by simp
      then show ?thesis using room False inv1 d1 F unfolding run by simp
    next
      case True
      with adm obtain f2 where f2: "zns_write_admit f1 i s n = Some (None, f2)" "zones_moved i (implicitly_open z) f1 f2"
        and sw: "s = zd_wp z" "s + n \<le> (i + 1) * zone_lbas f" by auto
      note F2 = zones_movedD [OF f2(2)]
      have inv2: "zns_inv f2" using zone_moved_inv [OF inv1 i1 F2(12)] .
      have z2: "zone_descs f2 ! i = implicitly_open z" using F2(1) F(1) len by simp
      have wp2: "zd_wp (implicitly_open z) = zd_wp z" by (simp add: implicitly_open_def)
      have op2: "zone_opened (implicitly_open z)" by (simp add: implicitly_open_def zone_opened_def)
      obtain f3 where f3: "increase_write_ptr f2 i n = Some f3" "zones_moved i (advanced (implicitly_open z) n) f2 f3"
        using increase_write_ptr_ok [OF inv2, of i n] i F2 F sw op2 unfolding z2 wp2 by auto
      note F3 = zones_movedD [OF f3(2)]
      have inv3: "zns_inv f3" using zone_moved_inv [OF inv2 _ F3(12)] i F2(3) F(3) by simp
      have d3: "zns_device f3" using d1 F2(10) F3(10) by simp
      obtain t sd where t: "ssd_advance_write_buffer now (zf_ssd f3) (req_nsecs_start (env_req e)) (LBA_TO_BYTE n) = Some (t, sd)"
        "ssd_moved f3 (f3\<lparr> zf_ssd := sd \<rparr>)" using advance_write_buffer_ok [OF d3] by blast
      let ?f4 = "f3\<lparr> zf_ssd := sd \<rparr>"
      note F4 = ssd_movedD [OF t(2)]
      have d4: "zns_device ?f4" using F4(14) d3 by simp
      have inv4: "zns_inv ?f4" using ssd_moved_inv [OF t(2)] inv3 by simp
      have P4: "zone_pgs ?f4 = ?P" "zspp ?f4 = zspp f" "nr_zones (zp ?f4) = nr_zones (zp f)" "programmed ?f4 y = programmed f y" for y
        using F F2 F3 F4 by simp_all
      note pr = page_range [OF g s(2) sw(2) n(1)]
      let ?y = "(s - i * zone_lbas f) div 8" and ?y' = "(s - i * zone_lbas f + n - 1) div 8 + 1"
      obtain t' e' f5 m where w: "write_pages b now (req_sq_id (env_req ?e)) ?buf (?P mod ?o * 4096) (i * ?P + ?P - 1) t (i * ?P + ?y' - 1) t (i * ?P + ?y) ?e ?f4
          = Some (t', e', f5)" "ssd_moved ?f4 f5" "queued_for ?buf ?e e' m" "programmed f ?y + m = programmed f ?y'"
        using write_pages_ok [of i ?f4 ?y ?y' b now ?e ?buf t t] pr(3-5) i zns_invD(1) [OF inv4] d4 unfolding P4 by auto
      note F5 = ssd_movedD [OF w(2)]
      have "get_buffer f5 ?buf = get_buffer f1 ?buf"
        using F F2 F3 F4 F5 by (cases ?buf) (simp_all add: get_buffer_def)
      then have gb: "get_buffer f5 ?buf = Some (snd (buffer_allocate bf (LBA_TO_BYTE n)))" using F(7) [of ?buf] by simp
      have run': "zns_write_seq b now f e = Some (True, write_out (zspp f1) NVME_SC_SUCCESS t' t e', f5)"
        using room n f2(1) f3(1) t(1) w(1) unfolding run pr(1,2) by simp
      have zd: "zone_descs f5 = (zone_descs f)[i := advanced (implicitly_open z) n]" using F F2 F3 F4 F5 by simp
      obtain ws where ws: "env_wbs e' = env_wbs e @ ws" "\<forall>w \<in> set ws. wb_buffer w = ?buf \<and> wb_sqid w = req_sq_id (env_req e)"
        "sum_list (map wb_buffs_to_release ws) = m" "env_ret e' = env_ret ?e" using w(3) by (auto simp: queued_for_def)
      have "write_effect f i s n e (write_out (zspp f1) NVME_SC_SUCCESS t' t e') f5"
        using zd ws(1-3) w(4) by (auto simp: write_effect_def Let_def z_def)
      moreover have "zns_inv f5" "zns_device f5" using ssd_moved_inv [OF w(2)] inv4 F5(14) d4 by simp_all
      moreover have "zf_storage f5 = zf_storage f" "zp f5 = zp f" using F F2 F3 F4 F5 by simp_all
      ultimately show ?thesis using run' room gb True ws(4) by simp
    qed
  qed
qed

lemma zns_write_dispatch:
  assumes inv: "zns_inv f" and i: "i < nr_zones (zp f)"
    and at: "i * zone_lbas f \<le> rw_slba (req_cmd (env_req e))" "rw_slba (req_cmd (env_req e)) < (i + 1) * zone_lbas f"
  shows "zns_write b now f e = (if zrwav (zone_descs f ! i) then zns_write_zrwa b now f e else zns_write_seq b now f e)"
proof -
  note g = zns_invD(1) [OF inv i] and len = zns_invD(2) [OF inv i]
  have Z: "zone_lbas f = 8 * zone_pgs f" using zone_pgs_facts [OF g] by simp
  let ?y = "(rw_slba (req_cmd (env_req e)) - i * zone_lbas f) div 8"
  have y: "rw_slba (req_cmd (env_req e)) div 8 = i * zone_pgs f + ?y" "?y < zone_pgs f"
    using page_range [OF g at(1), of 1] at(2) Z by simp_all
  show ?thesis
    unfolding zns_write_def lba_to_lpn_eq [OF g] Option.bind.simps y(1) lpn_to_zone_eq [OF g i y(2)] using i len by simp
qed

text \<open>A write to the second zone of the small device, which has 32 sectors.\<close>

definition tiny_write :: nvme_command where
  "tiny_write = \<lparr> opcode = nvme_cmd_write, command_id = 7, nsid = 1, prp1 = 0, prp2 = 0, cdw10 = 32, cdw11 = 0, cdw12 = 7, cdw13 = 0 \<rparr>"

definition tiny_env :: "nvme_command \<Rightarrow> io_env" where
  "tiny_env c = \<lparr> env_req = \<lparr> req_cmd = c, req_sq_id = 1, req_nsecs_start = 1000 \<rparr>,
     env_ret = \<lparr> ret_status = 0, ret_nsecs_target = 0, ret_early_completion = 0, ret_result = 0 \<rparr>, env_wbs = [] \<rparr>"

lemma tiny_zns_device: "zns_device tiny_zns"
  using tiny_ssd_ok unfolding zns_device_def Let_def tiny_zns_ok by (simp add: tiny_zpp_def tiny_params_def)

lemma tiny_write_fields [simp]: "rw_slba tiny_write = 32" "nr_lbas_from_rw_cmd tiny_write = 8" "opcode tiny_write = 1"
  by (simp_all add: rw_slba_def nr_lbas_from_rw_cmd_def rw_length_def tiny_write_def nvme_cmd_write_def u32_def)

text \<open>C9: A write or append to a sequential zone is accepted exactly when its length is a whole number of
  write units, it stays in the zone, it starts at the write pointer and the zone is empty, open or closed;
  then the pointer advances by its length, the zone is open, or full if the pointer reached the end, and
  buffer space is queued for release exactly for the one-shot pages completed (the rest of the zone at its
  end). A refused write changes no zone, but keeps the buffer space taken before the checks. If the buffer
  has no room the command is retried, with nothing changed. Full and read-only zones are reported offline.\<close>

theorem zns_write_correct:
  assumes "zns_inv f" and "zns_device f" and "i < nr_zones (zp f)" and "\<not> zrwav (zone_descs f ! i)"
    and "i * zone_lbas f \<le> rw_slba (req_cmd (env_req e))" and "rw_slba (req_cmd (env_req e)) < (i + 1) * zone_lbas f"
    and "get_buffer f (zone_wbuf f i) = Some bf"
    and "c = req_cmd (env_req e)" and "z = zone_descs f ! i" and "n = nr_lbas_from_rw_cmd c" and "s = write_start c z"
  shows "if buf_remaining bf < LBA_TO_BYTE n then zns_write b now f e = Some (False, started c z e, f)
    else \<exists>e' f'. zns_write b now f e = Some (True, e', f') \<and> zns_inv f' \<and> zns_device f'
      \<and> ret_status (env_ret e') = write_verdict f z s n \<and> ret_result (env_ret e') = ret_result (env_ret (started c z e))
      \<and> zf_storage f' = zf_storage f
      \<and> get_buffer f' (zone_wbuf f i) = Some (snd (buffer_allocate bf (LBA_TO_BYTE n)))
      \<and> (if write_verdict f z s n = NVME_SC_SUCCESS then write_effect f i s n e e' f'
         else zone_descs f' = zone_descs f \<and> env_wbs e' = env_wbs e)"
  using zns_write_seq_ok [OF assms(1-3,5-7), of b now] zns_write_dispatch [OF assms(1,3,5,6), of b now] assms(4,8-11)
  by (auto split: if_splits)

lemma zns_write_correct_witness:
  "\<exists>e f. zns_write SAMSUNG_970PRO 0 tiny_zns (tiny_env tiny_write) = Some (True, e, f) \<and> ret_status (env_ret e) = NVME_SC_SUCCESS
    \<and> zd_state (zone_descs f ! 1) = ZONE_STATE_OPENED_IMPL \<and> zd_wp (zone_descs f ! 1) = 40"
proof -
  have z: "zone_descs tiny_zns ! 1 = \<lparr> zd_type = 2, zd_state = ZONE_STATE_EMPTY, zrwav = False, zone_capacity = 32, zslba = 32, zd_wp = 32 \<rparr>"
    using tiny_zns_state [of 1] by simp
  have bf: "get_buffer tiny_zns (zone_wbuf tiny_zns 1) = Some (buffer_init 65536)"
    using tiny_zns_ok(2) by (simp add: zone_wbuf_def get_buffer_def) (simp add: tiny_zpp_def tiny_zns_def zns_init_ftl_def init_resource_def init_descriptor_def Let_def)
  have st: "write_start tiny_write (zone_descs tiny_zns ! 1) = 32" by (simp add: write_start_def nvme_cmd_zone_append_def)
  have v: "write_verdict tiny_zns (zone_descs tiny_zns ! 1) 32 8 = NVME_SC_SUCCESS"
    unfolding write_verdict_def z tiny_zns_ok(4) by (simp add: tiny_zns_ok tiny_ssd_ok LBA_TO_BYTE_def)
  have len: "length (zone_descs tiny_zns) = 3" using zns_invD(2) [OF tiny_zns_ok(1), of 0] tiny_zns_ok(2) by (simp add: tiny_zpp_def)
  have rq: "req_cmd (env_req (tiny_env tiny_write)) = tiny_write" by (simp add: tiny_env_def)
  have room: "\<not> buf_remaining (buffer_init 65536) < LBA_TO_BYTE 8" by (simp add: buffer_init_def LBA_TO_BYTE_def)
  have nz: "1 < nr_zones (zp tiny_zns)" "1 * zone_lbas tiny_zns \<le> 32" "32 < (1 + 1) * zone_lbas tiny_zns" "\<not> zrwav (zone_descs tiny_zns ! 1)"
    using tiny_zns_ok(2,4) z by (simp_all add: tiny_zpp_def)
  have "\<exists>e' f'. zns_write SAMSUNG_970PRO 0 tiny_zns (tiny_env tiny_write) = Some (True, e', f')
      \<and> ret_status (env_ret e') = NVME_SC_SUCCESS \<and> write_effect tiny_zns 1 32 8 (tiny_env tiny_write) e' f'"
    using zns_write_correct [OF tiny_zns_ok(1) tiny_zns_device nz(1,4), of "tiny_env tiny_write", unfolded rq tiny_write_fields, OF nz(2,3) bf refl refl refl refl,
        of SAMSUNG_970PRO 0, unfolded tiny_write_fields st v if_not_P [OF room] if_P [OF refl]] by blast
  then obtain e' f' where r: "zns_write SAMSUNG_970PRO 0 tiny_zns (tiny_env tiny_write) = Some (True, e', f')"
      "ret_status (env_ret e') = NVME_SC_SUCCESS" "write_effect tiny_zns 1 32 8 (tiny_env tiny_write) e' f'" by blast
  have "zone_descs f' ! 1 = advanced (implicitly_open (zone_descs tiny_zns ! 1)) 8" using r(3) len by (simp add: write_effect_def Let_def)
  then have "zd_state (zone_descs f' ! 1) = ZONE_STATE_OPENED_IMPL \<and> zd_wp (zone_descs f' ! 1) = 40"
    unfolding z by (simp add: advanced_def implicitly_open_def zone_opened_def)
  with r(1,2) show ?thesis by blast
qed

section \<open>Writes to the random write area\<close>

lemma zrwa_pages_ok:
  assumes "i < nr_zones (zp f)" and "y + r \<le> zone_pgs f" and "zns_geometry f" and "zns_device f"
  shows "\<exists>t e' f'. zrwa_pages b now sq buf x latest (i * zone_pgs f + y) r e f = Some (t, e', f') \<and> ssd_moved f f'
    \<and> env_ret e' = env_ret e \<and> env_req e' = env_req e"
  using assms
proof (induction r arbitrary: y latest e f rule: less_induct)
  case (less r)
  let ?P = "zone_pgs f" and ?o = "pgs_per_oneshotpg (zspp f)"
  show ?case
  proof (cases "r = 0")
    case True
    then show ?thesis using ssd_moved_refl by (subst zrwa_pages.simps) auto
  next
    case False
    have o': "0 < ?o" using zns_deviceD(3) [OF less.prems(4)] .
    obtain p l where p: "lpn_to_ppa f (i * ?P + y) = Some p" "g_pg p = y mod ?o" "p \<noteq> UNMAPPED_PPA" "get_lun (zf_ssd f) p = Some l"
      using lpn_to_ppa_ok [OF less.prems(3,4,1), of y] less.prems(2) False by auto
    define pgs where "pgs = min r (?o - g_pg p mod ?o)"
    have pgs: "0 < pgs" "pgs \<le> r" using False mod_less_divisor [OF o', of "g_pg p"] by (auto simp: pgs_def)
    have u: "u64 (i * ?P + y + pgs) = i * ?P + (y + pgs)"
      using zone_pgs_bound [OF less.prems(3), of "Suc i"] less.prems(1,2) pgs by simp
    have r: "(0 < r) = True" using False by simp
    note step = zrwa_pages.simps [of b now sq buf x latest "i * ?P + y" r e f, unfolded p(1) Let_def mod_trap_pos [OF o'] Option.bind.simps
        pgs_def [symmetric] u r if_True]
    show ?thesis
    proof (cases "g_pg p mod ?o + pgs = ?o")
      case True
      obtain t s where s: "ssd_advance_nand b now (zf_ssd f) (zns_nand_cmd NAND_WRITE x (?o * pgsz (zspp f)) p) = Some (t, s)"
        "same_data (zf_ssd f) s" "zns_device (f\<lparr> zf_ssd := s \<rparr>)"
        using nand_write_ok [OF less.prems(4) p(4,3)] by blast
      let ?f = "f\<lparr> zf_ssd := s \<rparr>" and ?e = "enqueue_writeback sq t buf (?o * pgsz (zspp f)) e"
      have m: "ssd_moved f ?f" using s by (auto simp: ssd_moved_def)
      note fr = ssd_movedD [OF m]
      have "\<exists>t' e' f'. zrwa_pages b now sq buf x (max t latest) (i * zone_pgs ?f + (y + pgs)) (r - pgs) ?e ?f = Some (t', e', f')
        \<and> ssd_moved ?f f' \<and> env_ret e' = env_ret ?e \<and> env_req e' = env_req ?e"
        using pgs less.prems fr by (intro less.IH) auto
      then obtain t' e' f' where ih: "zrwa_pages b now sq buf x (max t latest) (i * ?P + (y + pgs)) (r - pgs) ?e ?f = Some (t', e', f')"
        "ssd_moved ?f f'" "env_ret e' = env_ret e" "env_req e' = env_req e" unfolding fr by (auto simp: enqueue_writeback_def)
      have "zrwa_pages b now sq buf x latest (i * ?P + y) r e f = Some (t', e', f')" unfolding step using True s(1) ih(1) by simp
      with ssd_moved_trans [OF m ih(2)] ih(3,4) show ?thesis by blast
    next
      case nb: False
      have "\<exists>t' e' f'. zrwa_pages b now sq buf x latest (i * ?P + (y + pgs)) (r - pgs) e f = Some (t', e', f')
        \<and> ssd_moved f f' \<and> env_ret e' = env_ret e \<and> env_req e' = env_req e"
        using pgs less.prems by (intro less.IH) auto
      then show ?thesis unfolding step using nb by simp
    qed
  qed
qed

text \<open>The verdict on a write at \<open>slba\<close> to a zone whose ZRWA is valid, and how far it moves the write
  pointer: by whole flush granules until the end of the write is in the area, or to the end of the zone.\<close>

definition zrwa_verdict :: "zns_ftl \<Rightarrow> zone_descriptor \<Rightarrow> nat \<Rightarrow> nat \<Rightarrow> nat" where
  "zrwa_verdict f z slba nr_lba =
     (if LBA_TO_BYTE nr_lba mod write_unit_size (zspp f) \<noteq> 0 then NVME_SC_ZNS_INVALID_WRITE
      else if slba div zone_lbas f \<noteq> (slba + nr_lba - 1) div zone_lbas f then NVME_SC_ZNS_ERR_BOUNDARY
      else if slba < zd_wp z \<or> zd_wp z + 2 * lbas_per_zrwa (zp f) < slba + nr_lba then NVME_SC_ZNS_INVALID_WRITE
      else case zd_state z of
        ZONE_STATE_FULL \<Rightarrow> NVME_SC_ZNS_ERR_FULL
      | ZONE_STATE_READ_ONLY \<Rightarrow> NVME_SC_ZNS_ERR_READ_ONLY
      | ZONE_STATE_OFFLINE \<Rightarrow> NVME_SC_ZNS_ERR_OFFLINE
      | _ \<Rightarrow> NVME_SC_SUCCESS)"

definition zrwa_advance :: "zns_ftl \<Rightarrow> zone_descriptor \<Rightarrow> nat \<Rightarrow> nat" where
  "zrwa_advance f z el =
     (if zd_wp z + lbas_per_zrwa (zp f) \<le> el then
        (el - (zd_wp z + lbas_per_zrwa (zp f)) + lbas_per_zrwafg (zp f)) div lbas_per_zrwafg (zp f) * lbas_per_zrwafg (zp f)
      else if el + 1 = zslba z + zone_capacity z then el + 1 - zd_wp z else 0)"

lemma zrwa_advance_fits:
  assumes "zrwa_supported f" and "zd_wp z \<le> el"
  shows "zd_wp z + zrwa_advance f z el \<le> el + 1"
proof (cases "zd_wp z + lbas_per_zrwa (zp f) \<le> el")
  case True
  let ?g = "lbas_per_zrwafg (zp f)" and ?d = "el - (zd_wp z + lbas_per_zrwa (zp f))"
  have "(?d + ?g) div ?g * ?g \<le> ?d + ?g" by simp
  moreover have "?g \<le> lbas_per_zrwa (zp f)" using assms(1) by (simp add: zrwa_supported_def)
  moreover have "zrwa_advance f z el = (?d + ?g) div ?g * ?g" using True by (simp only: zrwa_advance_def if_True)
  ultimately show ?thesis using True by linarith
next
  case False
  then show ?thesis using assms by (simp add: zrwa_advance_def)
qed

lemma zrwa_flush_len_eq:
  assumes inv: "zns_inv f" and i: "i < nr_zones (zp f)" and zr: "zrwa_supported f"
    and el: "zd_wp (zone_descs f ! i) \<le> el" "el < 4294967296"
  shows "zrwa_flush_len f i (zd_wp (zone_descs f ! i)) el = Some (zrwa_advance f (zone_descs f ! i) el)"
proof -
  let ?z = "zone_descs f ! i" and ?g = "lbas_per_zrwafg (zp f)" and ?a = "lbas_per_zrwa (zp f)"
  note D = zns_invD [OF inv i]
  have lb: "(i + 1) * zone_lbas f < 4294967296" using zone_lbas_bound [OF D(1), of "i + 1"] i by simp
  have Z: "0 < zone_lbas f" using zns_geometryD(1) [OF D(1)] .
  have wf: "zslba ?z = i * zone_lbas f" "zone_capacity ?z = zone_lbas f" "zd_wp ?z \<le> (i + 1) * zone_lbas f" using D(3) by (auto simp: zone_wf_def)
  have L: "0 < ?g" "?g \<le> ?a" "?a < 4294967296" using zr by (auto simp: zrwa_supported_def)
  have ze: "zone_to_elba f i = Some (i * zone_lbas f + zone_lbas f - 1)"
    using zone_to_slba_eq [OF D(1), of "i + 1"] i lb Z by (simp add: zone_to_elba_def)
  have u: "u64 (zd_wp ?z + ?a) = zd_wp ?z + ?a" using wf(3) lb L by simp
  show ?thesis
  proof (cases "zd_wp ?z + ?a \<le> el")
    case True
    let ?d = "el - (zd_wp ?z + ?a)"
    have m: "?d + ?g \<le> el" using True L by simp
    have "u64 (?d + 1 + sub64 ?g 1) = ?d + ?g" using L el m by simp
    moreover have "(?d + ?g) div ?g * ?g \<le> ?d + ?g" by simp
    then have "u64 ((?d + ?g) div ?g * ?g) = (?d + ?g) div ?g * ?g" using m el(2) by (intro u64_id) linarith
    ultimately show ?thesis unfolding zrwa_flush_len_def u ze Let_def Option.bind.simps using True L by (simp add: zrwa_advance_def)
  next
    case False
    have "u64 (sub64 el (zd_wp ?z) + 1) = el + 1 - zd_wp ?z" using el by simp
    moreover have "(el = i * zone_lbas f + zone_lbas f - 1) = (el + 1 = zslba ?z + zone_capacity ?z)" using wf Z by auto
    ultimately show ?thesis unfolding zrwa_flush_len_def u ze Let_def Option.bind.simps using False by (simp add: zrwa_advance_def)
  qed
qed

lemma alloc_set_acquired:
  assumes "alloc_buffer f (ZRWA_BUFFER i) n = Some (m, g)"
  shows "alloc_buffer (set_acquired k a f) (ZRWA_BUFFER i) n = Some (m, set_acquired k a g)" and "res_infos g = res_infos f"
  using assms by (auto simp: alloc_buffer_def get_buffer_def put_buffer_def fault_simps set_acquired_def Let_def split: prod.splits)

text \<open>The buffer of the ZRWA can serve as the area of the zone: an implicit reopening does not fail its assertion.\<close>

definition zrwa_room :: "zns_ftl \<Rightarrow> nat \<Rightarrow> bool" where
  "zrwa_room f i \<longleftrightarrow> (\<exists>zb. get_buffer f (ZRWA_BUFFER i) = Some zb
     \<and> (zd_state (zone_descs f ! i) = ZONE_STATE_CLOSED \<longrightarrow> 0 < zrwa_size (zp f) \<and> zrwa_size (zp f) < 2 ^ 32 \<and> zrwa_size (zp f) \<le> buf_remaining zb))"

text \<open>What the buffer of the area has left once the area of a closed zone is taken from it again, and whether that is
  enough for the bytes of \<open>m\<close> blocks. The amount granted comes back in 32 bits: a multiple of 4 GiB reads as none.\<close>

definition zrwa_left :: "zns_ftl \<Rightarrow> nat \<Rightarrow> nat" where
  "zrwa_left f i = (case get_buffer f (ZRWA_BUFFER i) of None \<Rightarrow> 0
     | Some zb \<Rightarrow> if zd_state (zone_descs f ! i) = ZONE_STATE_CLOSED then sub64 (buf_remaining zb) (zrwa_size (zp f)) else buf_remaining zb)"

definition zrwa_flushable :: "zns_ftl \<Rightarrow> nat \<Rightarrow> nat \<Rightarrow> bool" where
  "zrwa_flushable f i m \<longleftrightarrow> m = 0 \<or> LBA_TO_BYTE m \<le> zrwa_left f i \<and> u32 (LBA_TO_BYTE m) \<noteq> 0"

lemma zrwa_admit_ok:
  assumes inv: "zns_inv f" and d: "zns_device f" and i: "i < nr_zones (zp f)" and n: "0 < n" "n \<le> 65536"
    and slba: "slba < (i + 1) * zone_lbas f" and v: "zrwav (zone_descs f ! i)" and room: "zrwa_room f i" and zr: "zrwa_supported f"
  defines "z \<equiv> zone_descs f ! i"
  shows "if zrwa_verdict f z slba n \<noteq> NVME_SC_SUCCESS then zrwa_write_admit f i slba n (slba + n - 1) = Some (Some (zrwa_verdict f z slba n), f)
    else \<exists>g f' b. zrwa_write_admit f i slba n (slba + n - 1) = Some (None, f') \<and> (put_buffer f (ZRWA_BUFFER i) b = Some g \<or> g = f)
      \<and> zones_moved i (implicitly_open z) g f' \<and> zone_active z \<and> zd_wp z \<le> slba
      \<and> slba div zone_lbas f = (slba + n - 1) div zone_lbas f
      \<and> (\<exists>zb. get_buffer f' (ZRWA_BUFFER i) = Some zb \<and> buf_remaining zb = zrwa_left f i)"
proof -
  note D = zns_invD [OF inv i]
  have len: "i < length (zone_descs f)" using D(2) i by simp
  have left: "\<exists>zb. get_buffer f (ZRWA_BUFFER i) = Some zb \<and> buf_remaining zb = zrwa_left f i" if "zd_state z \<noteq> ZONE_STATE_CLOSED"
    using room that by (auto simp: zrwa_room_def zrwa_left_def z_def)
  have lb: "(i + 1) * zone_lbas f < 4294967296" using zone_lbas_bound [OF D(1), of "i + 1"] i by simp
  have b: "check_boundary_error f slba n = Some (slba div zone_lbas f = (slba + n - 1) div zone_lbas f)"
    using slba n lb by (intro boundary_eq [OF D(1)]) simp_all
  have w: "0 < write_unit_size (zspp f)" using zns_deviceD(14) [OF d] .
  have ne: "zd_state z \<noteq> ZONE_STATE_EMPTY" and wp: "zd_wp z \<le> (i + 1) * zone_lbas f" using D(3) v by (auto simp: zone_wf_def z_def)
  have a: "0 < lbas_per_zrwa (zp f)" "2 * lbas_per_zrwa (zp f) < 4294967296" using zr by (auto simp: zrwa_supported_def)
  have ie: "sub64 (zd_wp z + u32 (2 * lbas_per_zrwa (zp f))) 1 < slba + n - 1 \<longleftrightarrow> zd_wp z + 2 * lbas_per_zrwa (zp f) < slba + n"
  proof -
    have "sub64 (zd_wp z + 2 * lbas_per_zrwa (zp f)) 1 = zd_wp z + 2 * lbas_per_zrwa (zp f) - 1"
      using a wp lb by (intro sub64_exact) linarith+
    then show ?thesis using a n by simp linarith
  qed
  note pre = zrwa_write_admit_def [of f i slba n "slba + n - 1", unfolded b mod_trap_pos [OF w] arr_get_in [OF len] Option.bind.simps Let_def z_def [symmetric] ie]
  show ?thesis
  proof (cases "LBA_TO_BYTE n mod write_unit_size (zspp f) = 0 \<and> slba div zone_lbas f = (slba + n - 1) div zone_lbas f
      \<and> \<not> (slba < zd_wp z \<or> zd_wp z + 2 * lbas_per_zrwa (zp f) < slba + n)")
    case False
    then show ?thesis unfolding pre by (auto simp: zrwa_verdict_def status_codes)
  next
    case ok: True
    have c: "LBA_TO_BYTE n mod write_unit_size (zspp f) = 0" "(slba div zone_lbas f = (slba + n - 1) div zone_lbas f) = True"
      "(slba < zd_wp z \<or> zd_wp z + 2 * lbas_per_zrwa (zp f) < slba + n) = False" "zd_wp z \<le> slba" using ok by auto
    show ?thesis
    proof (cases "zd_state z")
      case ZONE_STATE_EMPTY
      with ne show ?thesis by simp
    next
      case ZONE_STATE_CLOSED
      obtain zb where zb: "get_buffer f (ZRWA_BUFFER i) = Some zb" "0 < zrwa_size (zp f)" "zrwa_size (zp f) < 2 ^ 32" "zrwa_size (zp f) \<le> buf_remaining zb"
        using room ZONE_STATE_CLOSED by (auto simp: zrwa_room_def z_def)
      obtain g where g: "alloc_buffer f (ZRWA_BUFFER i) (zrwa_size (zp f)) = Some (zrwa_size (zp f), g)"
        "put_buffer f (ZRWA_BUFFER i) (snd (buffer_allocate zb (zrwa_size (zp f)))) = Some g"
        using buffer_alloc_ok [OF zb(1), of "zrwa_size (zp f)"] zb(3,4) by (auto simp: buffer_allocate_def Let_def)
      note F = put_buffer_frame [OF g(2)]
      obtain f1 where f1: "acquire_zone_resource f OPEN_ZONE = (True, f1)" "f1 = set_acquired OPEN_ZONE (acquired_cnt (res_infos f OPEN_ZONE) + 1) f"
        using implicit_open_closed [OF inv i] ZONE_STATE_CLOSED by (auto simp: z_def)
      obtain f2 where f2: "change_zone_state (set_acquired OPEN_ZONE (acquired_cnt (res_infos g OPEN_ZONE) + 1) g) i ZONE_STATE_OPENED_IMPL = Some f2"
        "zones_moved i (implicitly_open z) g f2"
        using implicit_open_closed [of g i] inv i F ZONE_STATE_CLOSED by (auto simp: z_def)
      have al: "alloc_buffer f1 (ZRWA_BUFFER i) (zrwa_size (zp f1)) = Some (zrwa_size (zp f), set_acquired OPEN_ZONE (acquired_cnt (res_infos g OPEN_ZONE) + 1) g)"
        using alloc_set_acquired [OF g(1)] f1(2) by simp
      have "zrwa_write_admit f i slba n (slba + n - 1) = Some (None, f2)"
        unfolding pre using c ZONE_STATE_CLOSED f1(1) al f2(1) zb(2) by simp
      moreover have "zrwa_verdict f z slba n = NVME_SC_SUCCESS" using c ZONE_STATE_CLOSED by (simp add: zrwa_verdict_def)
      moreover have "zone_active z" using ZONE_STATE_CLOSED by (simp add: zone_active_def)
      moreover have "\<exists>zb. get_buffer f2 (ZRWA_BUFFER i) = Some zb \<and> buf_remaining zb = zrwa_left f i"
      proof -
        have "get_buffer f2 (ZRWA_BUFFER i) = get_buffer g (ZRWA_BUFFER i)" using zones_movedD(5) [OF f2(2)] by (simp add: get_buffer_def)
        moreover have "get_buffer g (ZRWA_BUFFER i) = Some (snd (buffer_allocate zb (zrwa_size (zp f))))" using F(7) by simp
        ultimately show ?thesis using zb ZONE_STATE_CLOSED by (simp add: zrwa_left_def z_def buffer_allocate_def Let_def)
      qed
      ultimately show ?thesis using f2(2) g(2) c by auto
    next
      case ZONE_STATE_OPENED_IMPL
      then have "zone_active z" "implicitly_open z = z" by (simp_all add: zone_active_def zone_opened_def implicitly_open_def)
      moreover have "zrwa_verdict f z slba n = NVME_SC_SUCCESS" "zrwa_write_admit f i slba n (slba + n - 1) = Some (None, f)"
        unfolding pre using c ZONE_STATE_OPENED_IMPL by (simp_all add: zrwa_verdict_def)
      ultimately show ?thesis using zones_moved_refl [OF inv i] c left ZONE_STATE_OPENED_IMPL by (auto simp: z_def)
    next
      case ZONE_STATE_OPENED_EXPL
      then have "zone_active z" "implicitly_open z = z" by (simp_all add: zone_active_def zone_opened_def implicitly_open_def)
      moreover have "zrwa_verdict f z slba n = NVME_SC_SUCCESS" "zrwa_write_admit f i slba n (slba + n - 1) = Some (None, f)"
        unfolding pre using c ZONE_STATE_OPENED_EXPL by (simp_all add: zrwa_verdict_def)
      ultimately show ?thesis using zones_moved_refl [OF inv i] c left ZONE_STATE_OPENED_EXPL by (auto simp: z_def)
    next
      case ZONE_STATE_READ_ONLY
      then show ?thesis unfolding pre using c by (simp add: zrwa_verdict_def status_codes)
    next
      case ZONE_STATE_FULL
      then show ?thesis unfolding pre using c by (simp add: zrwa_verdict_def status_codes)
    next
      case ZONE_STATE_OFFLINE
      then show ?thesis unfolding pre using c by (simp add: zrwa_verdict_def status_codes)
    qed
  qed
qed

lemma zrwa_flush_len_cong: "zp f = zp g \<Longrightarrow> zspp f = zspp g \<Longrightarrow> zrwa_flush_len f i w el = zrwa_flush_len g i w el"
  by (simp add: zrwa_flush_len_def zone_to_elba_def zone_to_slba_def cong: if_cong)

lemma zns_write_zrwa_ok:
  assumes inv: "zns_inv f" and d: "zns_device f" and i: "i < nr_zones (zp f)"
    and at: "i * zone_lbas f \<le> rw_slba (req_cmd (env_req e))" "rw_slba (req_cmd (env_req e)) < (i + 1) * zone_lbas f"
    and v: "zrwav (zone_descs f ! i)" and room: "zrwa_room f i" and zr: "zrwa_supported f"
  defines "c \<equiv> req_cmd (env_req e)" and "z \<equiv> zone_descs f ! i"
  defines "s \<equiv> rw_slba c" and "n \<equiv> nr_lbas_from_rw_cmd c"
  defines "m \<equiv> zrwa_advance f z (s + n - 1)"
  shows "\<exists>r e' f'. zns_write_zrwa b now f e = Some (r, e', f') \<and> zns_inv f' \<and> zns_device f' \<and> zp f' = zp f \<and> zf_storage f' = zf_storage f
      \<and> acquired_cnt (res_infos f' ZRWA_ZONE) = acquired_cnt (res_infos f ZRWA_ZONE)
      \<and> (r \<longrightarrow> ret_status (env_ret e') = zrwa_verdict f z s n)
      \<and> (if zrwa_verdict f z s n = NVME_SC_SUCCESS
         then (r \<longleftrightarrow> zrwa_flushable f i m) \<and> (\<not> r \<longrightarrow> e' = e)
           \<and> zone_descs f' = (zone_descs f)[i := if r \<and> 0 < m then advanced (implicitly_open z) m else implicitly_open z]
         else r \<and> zone_descs f' = zone_descs f \<and> env_wbs e' = env_wbs e)"
proof -
  note D = zns_invD [OF inv i] and g0 = zns_invD(1) [OF inv i]
  have len: "i < length (zone_descs f)" using D(2) i by simp
  have n: "0 < n" "n \<le> 65536" by (simp_all add: n_def)
  have lb: "(i + 1) * zone_lbas f < 4294967296" using zone_lbas_bound [OF g0, of "i + 1"] i by simp
  have s: "s < (i + 1) * zone_lbas f" "i * zone_lbas f \<le> s" using at by (simp_all add: s_def c_def)
  have lz: "lba_to_zone f s = Some i" using lba_to_zone_eq [OF g0 i, of "s - i * zone_lbas f"] s by simp
  have sub: "sub64 (s + n) 1 = s + n - 1" using s lb n by (subst sub64_exact) simp_all
  have spg: "secs_per_pg (zspp f) = 8" using g0 by (simp add: zns_geometry_def)
  have wp: "i * zone_lbas f \<le> zd_wp z" "zslba z = i * zone_lbas f" using D(3) by (auto simp: zone_wf_def z_def)
  note run = zns_write_zrwa_def [of b now f e, unfolded Let_def c_def [symmetric] s_def [symmetric] n_def [symmetric] lz sub spg
      arr_get_in [OF len] Option.bind.simps z_def [symmetric] lba_to_lpn_eq]
  note adm = zrwa_admit_ok [OF inv d i n s(1) v room zr, folded z_def]
  show ?thesis
  proof (cases "zrwa_verdict f z s n = NVME_SC_SUCCESS")
    case False
    with adm have "zrwa_write_admit f i s n (s + n - 1) = Some (Some (zrwa_verdict f z s n), f)" by simp
    then have "zns_write_zrwa b now f e = Some (True, write_out (zspp f) (zrwa_verdict f z s n) (req_nsecs_start (env_req e)) (req_nsecs_start (env_req e)) e, f)"
      unfolding run by simp
    then show ?thesis using inv d False by (intro exI [of _ True] exI) (rule conjI, assumption, simp)
  next
    case True
    with adm obtain g f2 bb where a: "zrwa_write_admit f i s n (s + n - 1) = Some (None, f2)" "put_buffer f (ZRWA_BUFFER i) bb = Some g \<or> g = f"
      "zones_moved i (implicitly_open z) g f2" "zone_active z" "zd_wp z \<le> s" "s div zone_lbas f = (s + n - 1) div zone_lbas f"
      "\<exists>zb. get_buffer f2 (ZRWA_BUFFER i) = Some zb \<and> buf_remaining zb = zrwa_left f i" by auto
    have G: "zone_descs g = zone_descs f" "zp g = zp f" "zspp g = zspp f" "zf_storage g = zf_storage f" "zns_inv g" "zns_device g"
      "zone_lbas g = zone_lbas f" "zone_pgs g = zone_pgs f"
      using a(2) put_buffer_frame [of f "ZRWA_BUFFER i" bb g] inv d by auto
    note F2 = zones_movedD [OF a(3)]
    have inv2: "zns_inv f2" using zone_moved_inv [OF G(5) _ F2(12)] i G(2) by simp
    have z2: "zone_descs f2 ! i = implicitly_open z" using F2(1) G(1) len by simp
    have wp2: "zd_wp (implicitly_open z) = zd_wp z" "zslba (implicitly_open z) = zslba z" "zone_capacity (implicitly_open z) = zone_capacity z"
      by (simp_all add: implicitly_open_def)
    have op2: "zone_opened (implicitly_open z)" by (simp add: implicitly_open_def zone_opened_def)
    have i2: "i < nr_zones (zp f2)" using F2 G i by simp
    have el: "s + n - 1 < (i + 1) * zone_lbas f"
    proof -
      have "s div zone_lbas f = i" using s by (intro div_nat_eqI) (simp_all add: mult.commute)
      then have "(s + n - 1) div zone_lbas f < i + 1" using a(6) by linarith
      then show ?thesis using zns_geometryD(1) [OF g0] by (simp add: div_less_iff_less_mult)
    qed
    have fl: "zrwa_flush_len f2 i (zd_wp z) (s + n - 1) = Some m"
      unfolding zrwa_flush_len_cong [of f2 f, OF trans [OF F2(3) G(2)] trans [OF arg_cong [OF F2(2), of ssd_sp] G(3)]] m_def z_def
      using a(5) n el lb by (intro zrwa_flush_len_eq [OF inv i zr]) (simp_all add: z_def)
    have m: "zd_wp z + m \<le> (i + 1) * zone_lbas f"
      using zrwa_advance_fits [OF zr, of z "s + n - 1"] a(5) n el unfolding m_def by linarith
    obtain zb where zb: "get_buffer f2 (ZRWA_BUFFER i) = Some zb" "buf_remaining zb = zrwa_left f i" using a(7) by blast
    have granted: "fst (buffer_allocate zb (LBA_TO_BYTE m)) \<noteq> 0 \<longleftrightarrow> zrwa_flushable f i m" if "0 < m"
      using that zb(2) by (simp add: buffer_allocate_def Let_def zrwa_flushable_def)
    obtain f3 gr where f3: "(if 0 < m then alloc_buffer f2 (ZRWA_BUFFER i) (LBA_TO_BYTE m) else Some (1, f2)) = Some (gr, f3)"
      "\<exists>b. put_buffer f2 (ZRWA_BUFFER i) b = Some f3" "gr \<noteq> 0 \<longleftrightarrow> zrwa_flushable f i m"
    proof (cases "0 < m")
      case True
      obtain f3 where "alloc_buffer f2 (ZRWA_BUFFER i) (LBA_TO_BYTE m) = Some (fst (buffer_allocate zb (LBA_TO_BYTE m)), f3)"
        "put_buffer f2 (ZRWA_BUFFER i) (snd (buffer_allocate zb (LBA_TO_BYTE m))) = Some f3" using buffer_alloc_ok [OF zb(1)] by blast
      then show ?thesis using True by (intro that [OF _ _ granted [OF True], of f3]) auto
    next
      case False
      with put_buffer_same [OF zb(1)] show ?thesis using that by (auto simp: zrwa_flushable_def)
    qed
    obtain b3 where b3: "put_buffer f2 (ZRWA_BUFFER i) b3 = Some f3" using f3(2) by blast
    note F3 = put_buffer_frame [OF b3]
    have inv3: "zns_inv f3" and d3: "zns_device f3" and i3: "i < nr_zones (zp f3)" and z3: "zone_descs f3 ! i = implicitly_open z"
      using F3 inv2 F2(10) G(6) i2 z2 by simp_all
    have zd3: "zone_descs f3 = (zone_descs f)[i := implicitly_open z]" using F3 F2 G by simp
    have zr3: "acquired_cnt (res_infos f3 ZRWA_ZONE) = acquired_cnt (res_infos f ZRWA_ZONE)"
    proof -
      have "holds ZRWA_ZONE (zone_descs g ! i)" "holds ZRWA_ZONE (implicitly_open z)"
        using a(4) v G(1) op2 by (simp_all add: z_def zone_active_def implicitly_open_def)
      then have "acquired_cnt (res_infos f2 ZRWA_ZONE) = acquired_cnt (res_infos g ZRWA_ZONE)"
        using F2(12) F2(1) G(1) len by (auto simp: zone_moved_def all_resources simp del: holds.simps dest!: arg_cong [where f = "\<lambda>x. x ! i"])
      moreover have "res_infos g = res_infos f" using a(2) put_buffer_frame(2) [of f "ZRWA_BUFFER i" bb g] by auto
      ultimately show ?thesis using F3(2) by simp
    qed
    show ?thesis
    proof (cases "gr = 0")
      case zero: True
      have "zns_write_zrwa b now f e = Some (False, e, f3)" unfolding run using a(1) fl f3(1) zero by simp
      then show ?thesis using inv3 d3 F3(3,5) F2(3,4) G(2,4) zd3 zr3 True f3(3) zero by (intro exI [of _ False] exI) (rule conjI, assumption, simp)
    next
      case False
      have "\<exists>f4 zz. (if 0 < m then increase_write_ptr f3 i m else Some f3) = Some f4 \<and> zones_moved i zz f3 f4
          \<and> acquired_cnt (res_infos f4 ZRWA_ZONE) = acquired_cnt (res_infos f3 ZRWA_ZONE)
          \<and> zz = (if 0 < m then advanced (implicitly_open z) m else implicitly_open z)"
        using increase_write_ptr_ok [OF inv3 i3, of m] zones_moved_refl [OF inv3 i3] m op2 F3 F2 G unfolding z3 wp2 by auto
      then obtain f4 zz where f4: "(if 0 < m then increase_write_ptr f3 i m else Some f3) = Some f4" "zones_moved i zz f3 f4"
        "acquired_cnt (res_infos f4 ZRWA_ZONE) = acquired_cnt (res_infos f3 ZRWA_ZONE)"
        "zz = (if 0 < m then advanced (implicitly_open z) m else implicitly_open z)" by blast
      note F4 = zones_movedD [OF f4(2)]
      have inv4: "zns_inv f4" using zone_moved_inv [OF inv3 i3 F4(12)] .
      have d4: "zns_device f4" using d3 F4(10) by simp
      obtain t sd where t: "ssd_advance_write_buffer now (zf_ssd f4) (req_nsecs_start (env_req e)) (LBA_TO_BYTE n) = Some (t, sd)"
        "ssd_moved f4 (f4\<lparr> zf_ssd := sd \<rparr>)" using advance_write_buffer_ok [OF d4] by blast
      let ?f5 = "f4\<lparr> zf_ssd := sd \<rparr>"
      note F5 = ssd_movedD [OF t(2)]
      have inv5: "zns_inv ?f5" using ssd_moved_inv [OF t(2)] inv4 by simp
      have d5: "zns_device ?f5" using F5(14) d4 by simp
      have P5: "zone_pgs ?f5 = zone_pgs f" "nr_zones (zp ?f5) = nr_zones (zp f)" "zp ?f5 = zp f" "zf_storage ?f5 = zf_storage f"
        using F5 F4 F3 F2 G by simp_all
      let ?y = "(zd_wp z - i * zone_lbas f) div 8"
      have Z: "zone_lbas f = 8 * zone_pgs f" using zone_pgs_facts [OF g0] by simp
      have wy: "zd_wp z div 8 = i * zone_pgs f + ?y"
      proof -
        have "zd_wp z = 8 * (i * zone_pgs f) + (zd_wp z - i * zone_lbas f)" using wp Z by simp
        then show ?thesis by (metis div_mult_self4 zero_neq_numeral)
      qed
      have ym: "?y + m div 8 \<le> zone_pgs f"
      proof -
        have "zd_wp z - i * zone_lbas f + m \<le> 8 * zone_pgs f" using m wp Z by simp
        then show ?thesis by linarith
      qed
      obtain t' e' f6 where w: "zrwa_pages b now (req_sq_id (env_req e)) (ZRWA_BUFFER i) t t (i * zone_pgs f + ?y) (m div 8) e ?f5 = Some (t', e', f6)"
        "ssd_moved ?f5 f6"
        using zrwa_pages_ok [of i ?f5 ?y "m div 8" b now "req_sq_id (env_req e)" "ZRWA_BUFFER i" t t e] i ym zns_invD(1) [OF inv5] d5 unfolding P5 by auto
      note F6 = ssd_movedD [OF w(2)]
      have lp: "lba_to_lpn f4 (zd_wp z) = Some (i * zone_pgs f + ?y)"
        using lba_to_lpn_eq [OF zns_invD(1) [OF inv4]] F4 F3 F2 G i wy by simp
      have "zns_write_zrwa b now f e = Some (True, write_out (zspp f) NVME_SC_SUCCESS t' t e', f6)"
        unfolding run using a(1) fl f3(1) False f4(1) t(1) w(1) lp
        by (simp add: lba_to_lpn_def)
      moreover have "zns_inv f6" "zns_device f6" using ssd_moved_inv [OF w(2)] inv5 F6(14) d5 by simp_all
      moreover have "zone_descs f6 = (zone_descs f)[i := zz]" using F6 F5 F4 zd3 by simp
      ultimately show ?thesis using P5 F6(2,4,5) F5(4) zr3 True f4(3,4) f3(3) False by (intro exI [of _ True] exI) (rule conjI, assumption, simp)
    qed
  qed
qed

section \<open>Reads\<close>

lemma lpn_to_ppa_any:
  assumes g: "zns_geometry f" and d: "zns_device f" and l: "lpn < nr_zones (zp f) * zone_pgs f"
  shows "\<exists>p l. lpn_to_ppa f lpn = Some p \<and> p \<noteq> UNMAPPED_PPA \<and> get_lun (zf_ssd f) p = Some l"
proof -
  have P: "0 < zone_pgs f" using zone_pgs_facts [OF g] by simp
  have "lpn div zone_pgs f < nr_zones (zp f)" using l P by (simp add: div_less_iff_less_mult)
  moreover have "lpn mod zone_pgs f < zone_pgs f" using P by simp
  ultimately show ?thesis using lpn_to_ppa_ok [OF g d, of "lpn div zone_pgs f" "lpn mod zone_pgs f"] by auto
qed

lemma zns_read_pages_ok:
  assumes "zns_geometry f" and "zns_device f" and "el < nr_zones (zp f) * zone_pgs f"
  shows "\<exists>t f'. zns_read_pages b now start el latest lpn f = Some (t, f') \<and> ssd_moved f f' \<and> latest \<le> t"
  using assms
proof (induction "Suc el - lpn" arbitrary: lpn latest f rule: less_induct)
  case less
  show ?case
  proof (cases "lpn \<le> el")
    case False
    then show ?thesis using ssd_moved_refl by (subst zns_read_pages.simps) auto
  next
    case True
    let ?o = "pgs_per_flashpg (zspp f)"
    have o': "0 < ?o" using zns_deviceD(5) [OF less.prems(2)] .
    obtain p l where p: "lpn_to_ppa f lpn = Some p" "p \<noteq> UNMAPPED_PPA" "get_lun (zf_ssd f) p = Some l"
      using lpn_to_ppa_any [OF less.prems(1,2), of lpn] less.prems(3) True by auto
    define pgs where "pgs = min (el - lpn + 1) (?o - g_pg p mod ?o)"
    have pgs: "0 < pgs" "lpn + pgs \<le> el + 1" using True mod_less_divisor [OF o', of "g_pg p"] by (auto simp: pgs_def)
    have "nr_zones (zp f) * zone_pgs f < 536870912" using zone_pgs_bound [OF less.prems(1) order_refl] .
    then have u: "u64 (lpn + pgs) = lpn + pgs" using pgs(2) less.prems(3) by simp
    have pz: "pgsz (zspp f) = 4096" using less.prems(1) by (simp add: zns_geometry_def)
    obtain t s where s: "ssd_advance_nand b now (zf_ssd f) (zns_nand_cmd NAND_READ start (pgs * pgsz (zspp f)) p) = Some (t, s)" "ssd_usable s" "same_data (zf_ssd f) s"
      using ssd_advance_nand_ok [OF zns_deviceD(1) [OF less.prems(2)], of "zns_nand_cmd NAND_READ start (pgs * pgsz (zspp f)) p" l b now] p
        zns_deviceD(13) [OF less.prems(2)] pgs(1) pz by (auto simp: zns_nand_cmd_def command_ok_def)
    let ?f = "f\<lparr> zf_ssd := s \<rparr>"
    have m: "ssd_moved f ?f" using zns_device_step [OF less.prems(2) s(2,3), of ?f] s(3) by (auto simp: ssd_moved_def)
    note fr = ssd_movedD [OF m]
    have "\<exists>t' f'. zns_read_pages b now start el (max t latest) (lpn + pgs) ?f = Some (t', f') \<and> ssd_moved ?f f' \<and> max t latest \<le> t'"
      using pgs less.prems fr True by (intro less.hyps) auto
    then obtain t' f' where ih: "zns_read_pages b now start el (max t latest) (lpn + pgs) ?f = Some (t', f')" "ssd_moved ?f f'" "max t latest \<le> t'" by blast
    have le: "(lpn \<le> el) = True" using True by simp
    have "zns_read_pages b now start el latest lpn f = Some (t', f')"
      unfolding zns_read_pages.simps [of b now start el latest lpn f, unfolded p(1) Let_def mod_trap_pos [OF o'] Option.bind.simps
        pgs_def [symmetric] u le if_True] using s(1) ih(1) by simp
    then show ?thesis using ssd_moved_trans [OF m ih(2)] ih(3) by auto
  qed
qed

lemma zns_read_ok:
  assumes inv: "zns_inv f" and d: "zns_device f" and c: "c = req_cmd (env_req e)" and i: "i < nr_zones (zp f)"
    and at: "i * zone_lbas f \<le> rw_slba c" "rw_slba c < (i + 1) * zone_lbas f"
    and len: "rw_slba c + nr_lbas_from_rw_cmd c \<le> nr_zones (zp f) * zone_lbas f"
  shows "\<exists>e' f'. zns_read b now f e = Some (True, e', f') \<and> ssd_moved f f' \<and> env_wbs e' = env_wbs e
    \<and> ret_status (env_ret e') = (if zd_state (zone_descs f ! i) = ZONE_STATE_OFFLINE then NVME_SC_ZNS_ERR_OFFLINE
        else if rw_slba c div zone_lbas f \<noteq> (rw_slba c + nr_lbas_from_rw_cmd c - 1) div zone_lbas f then NVME_SC_ZNS_ERR_BOUNDARY else NVME_SC_SUCCESS)"
proof -
  note g = zns_invD(1) [OF inv i] and ld = zns_invD(2) [OF inv i]
  let ?s = "rw_slba c" and ?n = "nr_lbas_from_rw_cmd c"
  have Z: "zone_lbas f = 8 * zone_pgs f" using zone_pgs_facts [OF g] by simp
  have B: "nr_zones (zp f) * zone_lbas f < 4294967296" using zone_lbas_bound [OF g order_refl] .
  have b: "check_boundary_error f ?s ?n = Some (?s div zone_lbas f = (?s + ?n - 1) div zone_lbas f)"
    using len B nr_lbas_bounds [of c] by (intro boundary_eq [OF g]) simp_all
  have sub: "sub64 (?s + ?n) 1 = ?s + ?n - 1" 
  proof (rule sub64_exact)
    show "1 \<le> ?s + ?n" using nr_lbas_bounds(1) [of c] by linarith
  qed (use len B in linarith)
  let ?y = "(?s - i * zone_lbas f) div 8"
  have y: "?s div 8 = i * zone_pgs f + ?y" "?y < zone_pgs f" using page_range [OF g at(1), of 1] at(2) Z by simp_all
  have el: "(?s + ?n - 1) div 8 < nr_zones (zp f) * zone_pgs f"
  proof -
    have "nr_zones (zp f) * zone_lbas f = 8 * (nr_zones (zp f) * zone_pgs f)" using Z by simp
    then have "?s + ?n - 1 < 8 * (nr_zones (zp f) * zone_pgs f)" using len nr_lbas_bounds(1) [of c] by linarith
    then show ?thesis by linarith
  qed
  have at': "arr_get (zone_descs f) i = Some (zone_descs f ! i)" using ld i by simp
  let ?st = "u64 (req_nsecs_start (env_req e) + (if LBA_TO_BYTE ?n \<le> KB 4 then fw_4kb_rd_lat (zspp f) else fw_rd_lat (zspp f)))"
  obtain t f1 where r: "zns_read_pages b now ?st ((?s + ?n - 1) div 8) ?st (?s div 8) f = Some (t, f1)" "ssd_moved f f1"
    using zns_read_pages_ok [OF g d el] by blast
  note F = ssd_movedD [OF r(2)]
  have d1: "zns_device f1" using F(14) d by simp
  obtain t2 s2 where p: "ssd_advance_pcie now (zf_ssd f1) t (?n * secsz (zspp f)) = Some (t2, s2)" "ssd_usable s2" "same_data (zf_ssd f1) s2"
    using advance_pcie_ok [OF zns_deviceD(1) [OF d1]] by metis
  have "ssd_moved f1 (f1\<lparr> zf_ssd := s2 \<rparr>)" using zns_device_step [OF d1 p(2,3), of "f1\<lparr> zf_ssd := s2 \<rparr>"] p(3) by (auto simp: ssd_moved_def)
  then have m: "ssd_moved f (f1\<lparr> zf_ssd := s2 \<rparr>)" using ssd_moved_trans [OF r(2)] by blast
  have lz: "lpn_to_zone f (?s div 8) = Some i" unfolding y(1) by (rule lpn_to_zone_eq [OF g i y(2)])
  show ?thesis
    unfolding zns_read_def Let_def c [symmetric] lba_to_lpn_eq [OF g] sub Option.bind.simps lz at' b
    using r(1) p(1) m by simp
qed

section \<open>The handler\<close>

lemma frame_simps:
  "zf_ssd (set_acquired k n f) = zf_ssd f" "zf_ssd (release_active v f) = zf_ssd f" "zf_ssd (snd (acquire_zone_resource f k)) = zf_ssd f"
  "on_zone f i h = Some f' \<Longrightarrow> zf_ssd f' = zf_ssd f" "change_zone_state f i st = Some f' \<Longrightarrow> zf_ssd f' = zf_ssd f"
  "reset_zone f i = Some f' \<Longrightarrow> zf_ssd f' = zf_ssd f" "acquire_zone_resource f k = (ok, f') \<Longrightarrow> zf_ssd f' = zf_ssd f"
  by (auto simp: release_active_def acquire_zone_resource_def on_zone_def change_zone_state_def reset_zone_def fault_simps Let_def split: if_splits)

lemma send_keeps_ssd:
  assumes "zmgmt_send junk f s a zrwa = Some (st, f')"
  shows "zf_ssd f' = zf_ssd f"
proof -
  have 1: "zmgmt_send_close_zone f i = Some (st, f') \<Longrightarrow> zf_ssd f' = zf_ssd f" for i
    by (auto simp: zmgmt_send_close_zone_def fault_simps dest: frame_simps(5) split: zone_state.splits)
  have 2: "zmgmt_send_finish_zone f i = Some (st, f') \<Longrightarrow> zf_ssd f' = zf_ssd f" for i
    by (auto simp: zmgmt_send_finish_zone_def Let_def fault_simps frame_simps(2) dest: frame_simps(5) split: zone_state.splits)
  have o': "open_from_closed g i = Some (st, f') \<Longrightarrow> zf_ssd f' = zf_ssd g" for g i
    by (auto simp: open_from_closed_def fault_simps dest!: frame_simps(5,7) split: prod.splits if_splits)
  have 3: "zmgmt_send_open_zone f i zrwa = Some (st, f') \<Longrightarrow> zf_ssd f' = zf_ssd f" for i
    by (auto simp: zmgmt_send_open_zone_def fault_simps frame_simps(3) dest!: o' frame_simps(4,5) split: zone_state.splits if_splits)
  have 4: "zmgmt_send_reset_zone f i = Some (st, f') \<Longrightarrow> zf_ssd f' = zf_ssd f" for i
    by (auto simp: zmgmt_send_reset_zone_def Let_def fault_simps frame_simps(2) dest!: frame_simps(5,6) split: zone_state.splits)
  have 5: "zmgmt_send_offline_zone f i = Some (st, f') \<Longrightarrow> zf_ssd f' = zf_ssd f" for i
    by (auto simp: zmgmt_send_offline_zone_def fault_simps dest!: frame_simps(5) split: zone_state.splits)
  have 6: "zmgmt_send_flush_explicit_zrwa f s = Some (st, f') \<Longrightarrow> zf_ssd f' = zf_ssd f"
    by (auto simp: zmgmt_send_flush_explicit_zrwa_def Let_def fault_simps frame_simps(2) dest!: frame_simps(4,5) split: if_splits)
  show ?thesis using assms 1 2 3 4 5 6 by (auto simp: zmgmt_send_def fault_simps split: if_splits)
qed

definition zns_ok :: "zns_ftl \<Rightarrow> bool" where
  "zns_ok f \<longleftrightarrow> zns_inv f \<and> zns_device f \<and> zrwa_supported f"

lemma zmgmt_send_ok:
  assumes "zns_ok f" and "i < nr_zones (zp f)" and "i * zone_lbas f \<le> s" and "s < (i + 1) * zone_lbas f"
  shows "\<exists>st f'. zmgmt_send junk f s a zrwa = Some (st, f') \<and> zns_ok f' \<and> zp f' = zp f \<and> zone_lbas f' = zone_lbas f"
proof -
  have f: "zns_inv f" "zns_device f" "zrwa_supported f" using assms(1) by (simp_all add: zns_ok_def)
  have "s = i * zone_lbas f + (s - i * zone_lbas f)" "s - i * zone_lbas f < zone_lbas f" using assms(3,4) by simp_all
  then obtain st f' where r: "zmgmt_send junk f s a zrwa = Some (st, f')" "zone_moved i f f'" "zns_inv f'"
    using zmgmt_send_inv [OF f(1) assms(2) _ f(3)] by metis
  have fr: "zp f' = zp f" "zone_lbas f' = zone_lbas f" using zone_moved_frame [OF r(2)] by simp_all
  have "zns_device f'" "zrwa_supported f'" using f(2,3) fr send_keeps_ssd [OF r(1)] by (simp_all add: zns_device_def zrwa_supported_def)
  with r fr show ?thesis by (auto simp: zns_ok_def)
qed

lemma zns_zmgmt_send_ok:
  assumes ok: "zns_ok f" and at: "zsend_select_all (req_cmd (env_req e)) \<or>
    (\<exists>i < nr_zones (zp f). i * zone_lbas f \<le> rw_slba (req_cmd (env_req e)) \<and> rw_slba (req_cmd (env_req e)) < (i + 1) * zone_lbas f)"
  shows "\<exists>e' f'. zns_zmgmt_send junk f e = Some (e', f') \<and> zns_ok f' \<and> zp f' = zp f"
proof -
  let ?c = "req_cmd (env_req e)"
  have g: "zns_geometry f" using ok by (simp add: zns_ok_def zns_inv_def)
  obtain z0 where z0: "lba_to_zone f (rw_slba ?c) = Some z0"
    using zns_geometryD(1) [OF g] g by (auto simp: lba_to_zone_def zone_lbas_def zns_geometry_def)
  show ?thesis
  proof (cases "zsend_select_all ?c")
    case True
    let ?P = "\<lambda>h. zns_ok h \<and> zp h = zp f \<and> zone_lbas h = zone_lbas f"
    have "\<exists>h. foldM (\<lambda>zid f. do { s \<leftarrow> zone_to_slba f zid; (_, f) \<leftarrow> zmgmt_send junk f s (zsend_zsa ?c) (zsend_zsaso ?c); Some f }) [0..<nr_zones (zp f)] f = Some h
        \<and> ?P h"
    proof (rule foldM_total [where P = ?P])
      fix i h
      assume i: "i \<in> set [0..<nr_zones (zp f)]" and h: "?P h"
      then have gh: "zns_geometry h" and ih: "i < nr_zones (zp h)" by (simp_all add: zns_ok_def zns_inv_def)
      have zs: "zone_to_slba h i = Some (i * zone_lbas h)" using zone_to_slba_eq [OF gh, of i] ih by simp
      have "i * zone_lbas h < (i + 1) * zone_lbas h" using zns_geometryD(1) [OF gh] by simp
      then obtain st h' where "zmgmt_send junk h (i * zone_lbas h) (zsend_zsa ?c) (zsend_zsaso ?c) = Some (st, h')" "zns_ok h'" "zp h' = zp h" "zone_lbas h' = zone_lbas h"
        using zmgmt_send_ok [of h i "i * zone_lbas h"] h ih by blast
      then show "\<exists>h'. (do { s \<leftarrow> zone_to_slba h i; (_, f) \<leftarrow> zmgmt_send junk h s (zsend_zsa ?c) (zsend_zsaso ?c); Some f }) = Some h' \<and> ?P h'"
        using zs h by simp
    qed (use ok in simp)
    then show ?thesis using True z0 by (auto simp: zns_zmgmt_send_def Let_def)
  next
    case False
    with at obtain i where i: "i < nr_zones (zp f)" "i * zone_lbas f \<le> rw_slba ?c" "rw_slba ?c < (i + 1) * zone_lbas f" by blast
    obtain st f' where "zmgmt_send junk f (rw_slba ?c) (zsend_zsa ?c) (zsend_zsaso ?c) = Some (st, f')" "zns_ok f'" "zp f' = zp f"
      using zmgmt_send_ok [OF ok i] by blast
    then show ?thesis using False z0 by (simp add: zns_zmgmt_send_def Let_def)
  qed
qed

text \<open>The zones a report covers: all from its start, or as many descriptors as the transfer has room for.\<close>

definition zones_reported :: "zns_ftl \<Rightarrow> nvme_command \<Rightarrow> nat" where
  "zones_reported f c = (if zrecv_specific_features c = 0 then nr_zones (zp f) - rw_slba c div zone_lbas f else zrecv_length c div 64 - 1)"

lemma report_zones_eq:
  assumes g: "zns_geometry f" and i: "i < nr_zones (zp f)" and at: "i * zone_lbas f \<le> rw_slba c" "rw_slba c < (i + 1) * zone_lbas f"
    and room: "zrecv_specific_features c \<noteq> 0 \<longrightarrow> 64 \<le> zrecv_length c"
  shows "lba_to_zone f (rw_slba c) = Some i" and "rw_slba c div zone_lbas f = i"
    and "(if zrecv_specific_features c = 0 then sub64 (nr_zones (zp f)) i else sub64 (zrecv_length c div 64) 1) = zones_reported f c"
proof -
  show "lba_to_zone f (rw_slba c) = Some i" using lba_to_zone_eq [OF g i, of "rw_slba c - i * zone_lbas f"] at by simp
  show iq: "rw_slba c div zone_lbas f = i" using at by (intro div_nat_eqI) (simp_all add: mult.commute)
  have "zrecv_length c div 64 < 4294967296"
  proof -
    have "zrecv_length c < 4294967296 * 64" using u32_less [of "zrecv_nr_dw c + 1"] unfolding zrecv_length_def by linarith
    then show ?thesis by (simp add: div_less_iff_less_mult)
  qed
  moreover have "64 \<le> zrecv_length c \<Longrightarrow> 1 \<le> zrecv_length c div 64" by (simp add: div_greater_zero_iff Suc_le_eq)
  ultimately show "(if zrecv_specific_features c = 0 then sub64 (nr_zones (zp f)) i else sub64 (zrecv_length c div 64) 1) = zones_reported f c"
    using i nr_zones_bound [OF g] room unfolding zones_reported_def iq by simp
qed

lemma fill_report_ok:
  assumes inv: "zns_inv f" and i: "i < nr_zones (zp f)" and at: "i * zone_lbas f \<le> rw_slba c" "rw_slba c < (i + 1) * zone_lbas f"
    and room: "zrecv_specific_features c \<noteq> 0 \<longrightarrow> 64 \<le> zrecv_length c"
  shows "fill_zone_report f c r = (if i + zones_reported f c \<le> nr_zones (zp f)
    then Some (r\<lparr> rep_nr_zones := zones_reported f c, rep_zd := take (zones_reported f c) (drop i (zone_descs f)) @ drop (zones_reported f c) (rep_zd r) \<rparr>)
    else None)"
proof -
  note g = zns_invD(1) [OF inv i] and len = zns_invD(2) [OF inv i]
  show ?thesis unfolding fill_zone_report_def report_zones_eq(1) [OF g i at room] Let_def Option.bind.simps report_zones_eq(3) [OF g i at room]
    using len by (simp add: nvmev_assert_def)
qed

text \<open>A report with the partial flag counts the descriptors its transfer has room for, not the zones that are left:
  with more room than zones it copies from behind the last descriptor.\<close>

lemma partial_report_overruns:
  assumes "zns_inv f" and "i < nr_zones (zp f)" and "i * zone_lbas f \<le> rw_slba c" "rw_slba c < (i + 1) * zone_lbas f"
    and "zrecv_specific_features c \<noteq> 0" and "64 * (nr_zones (zp f) - i + 2) \<le> zrecv_length c"
  shows "fill_zone_report f c r = None"
proof -
  have "nr_zones (zp f) - i + 2 \<le> zrecv_length c div 64" using assms(6) by (simp add: less_eq_div_iff_mult_less_eq mult.commute)
  then have "\<not> i + zones_reported f c \<le> nr_zones (zp f)" using assms(5) by (simp add: zones_reported_def)
  then show ?thesis using fill_report_ok [OF assms(1-4)] assms(6) by simp
qed

text \<open>A report command that the device answers: a valid start, and, if the report is one it supports, zones up to the
  last at most, room for a descriptor, no more bytes than the report has, and pages the PRP entries name correctly.\<close>

definition recv_ok :: "zns_ftl \<Rightarrow> nvme_command \<Rightarrow> bytes \<Rightarrow> bool" where
  "recv_ok f c host \<longleftrightarrow> (\<exists>i < nr_zones (zp f). i * zone_lbas f \<le> rw_slba c \<and> rw_slba c < (i + 1) * zone_lbas f)
     \<and> (zrecv_zra c = 0 \<and> zrecv_specific_field c = 0 \<longrightarrow>
          rw_slba c div zone_lbas f + zones_reported f c \<le> nr_zones (zp f) \<and> (zrecv_specific_features c \<noteq> 0 \<longrightarrow> 64 \<le> zrecv_length c)
          \<and> zrecv_length c \<le> 64 + 64 * nr_zones (zp f) \<and> prp_safe host (prp1 c) (prp2 c) (zrecv_length c))"

lemma zns_zmgmt_recv_ok:
  assumes inv: "zns_inv f" and c: "c = req_cmd (env_req e)" and ok: "recv_ok f c host"
  shows "\<exists>e' f' h. zns_zmgmt_recv junk f e host = Some (e', f', h) \<and> (\<exists>r. f' = f\<lparr> report_buffer := r \<rparr>)
    \<and> (if zrecv_zra c = 0 \<and> zrecv_specific_field c = 0
       then ret_status (env_ret e') = NVME_SC_SUCCESS \<and> (\<forall>x < zrecv_length c. h (prp_addr host (prp1 c) (prp2 c) (zrecv_length c) x) = report_byte junk (report_buffer f') x)
         \<and> rep_nr_zones (report_buffer f') = zones_reported f c
         \<and> take (zones_reported f c) (rep_zd (report_buffer f')) = take (zones_reported f c) (drop (rw_slba c div zone_lbas f) (zone_descs f))
       else ret_status (env_ret e') = NVME_SC_INVALID_FIELD \<and> f' = f \<and> h = host)"
proof -
  from ok obtain i where i: "i < nr_zones (zp f)" "i * zone_lbas f \<le> rw_slba c" "rw_slba c < (i + 1) * zone_lbas f"
    by (auto simp: recv_ok_def)
  note g = zns_invD(1) [OF inv i(1)] and len = zns_invD(2) [OF inv i(1)]
  have iq: "rw_slba c div zone_lbas f = i" using i by (intro div_nat_eqI) (simp_all add: mult.commute)
  have lz: "lba_to_zone f (rw_slba c) = Some i" using lba_to_zone_eq [OF g i(1), of "rw_slba c - i * zone_lbas f"] i by simp
  have same: "\<exists>r. f = f\<lparr> report_buffer := r \<rparr>" by (rule exI [of _ "report_buffer f"]) simp
  show ?thesis
  proof (cases "zrecv_zra c = 0 \<and> zrecv_specific_field c = 0")
    case False
    then show ?thesis using same lz by (auto simp: zns_zmgmt_recv_def check_zmgmt_rcv_option_supported_def Let_def c [symmetric])
  next
    case True
    then have r: "i + zones_reported f c \<le> nr_zones (zp f)" "zrecv_specific_features c \<noteq> 0 \<longrightarrow> 64 \<le> zrecv_length c"
      "zrecv_length c \<le> 64 + 64 * nr_zones (zp f)" "prp_safe host (prp1 c) (prp2 c) (zrecv_length c)"
      using ok unfolding recv_ok_def iq by simp_all
    define n where "n = zones_reported f c"
    let ?r = "(report_buffer f)\<lparr> rep_nr_zones := n, rep_zd := take n (drop i (zone_descs f)) @ drop n (rep_zd (report_buffer f)) \<rparr>"
    have fill: "fill_zone_report f c (report_buffer f) = Some ?r"
      using fill_report_ok [OF inv i r(2), of "report_buffer f"] r(1) by (simp add: n_def)
    obtain h where h: "prp_transfer_data (prp1 c) (prp2 c) (64 + 64 * nr_zones (zp f)) (zrecv_length c) 0 host (report_byte junk ?r) = Some (zrecv_length c, h, report_byte junk ?r)"
      "\<forall>y < zrecv_length c. h (prp_addr host (prp1 c) (prp2 c) (zrecv_length c) y) = report_byte junk ?r y"
      using prp_loop_to_host [OF r(4), of 0 "64 + 64 * nr_zones (zp f)" 0 0 None 0 host "report_byte junk ?r"] piece_start r(3)
      by (auto simp: prp_transfer_data_def)
    have "take n (take n (drop i (zone_descs f)) @ drop n (rep_zd (report_buffer f))) = take n (drop i (zone_descs f))"
      using r(1) len by (simp add: n_def)
    then show ?thesis
      using True h fill lz unfolding iq n_def [symmetric]
      by (auto simp: zns_zmgmt_recv_def check_zmgmt_rcv_option_supported_def Let_def c [symmetric])
  qed
qed

text \<open>The commands a host may send in a state: addresses inside the namespace, and, for a write that reopens
  a closed zone with a ZRWA, room in the buffer of its area (\<open>zrwa_room\<close>).\<close>

definition in_zone :: "zns_ftl \<Rightarrow> nat \<Rightarrow> nat \<Rightarrow> bool" where
  "in_zone f i lba \<longleftrightarrow> i < nr_zones (zp f) \<and> i * zone_lbas f \<le> lba \<and> lba < (i + 1) * zone_lbas f"

definition zns_command_ok :: "zns_ftl \<Rightarrow> nvme_command \<Rightarrow> bytes \<Rightarrow> bool" where
  "zns_command_ok f c host \<longleftrightarrow>
     (let op = opcode c; n = nr_lbas_from_rw_cmd c
      in if op = nvme_cmd_write \<or> op = nvme_cmd_zone_append then (\<exists>i. in_zone f i (rw_slba c) \<and> (zrwav (zone_descs f ! i) \<longrightarrow> zrwa_room f i))
         else if op = nvme_cmd_read then rw_slba c + n \<le> nr_zones (zp f) * zone_lbas f
         else if op = nvme_cmd_flush then True
         else if op = nvme_cmd_zone_mgmt_send then zsend_select_all c \<or> (\<exists>i. in_zone f i (rw_slba c))
         else if op = nvme_cmd_zone_mgmt_recv then recv_ok f c host
         else op < nvme_cmd_zone_append)"

definition zns_ns_ok :: "zns_ftl nvmev_ns \<Rightarrow> bool" where
  "zns_ns_ok ns \<longleftrightarrow> ns_csi ns = NVME_CSI_ZNS \<and> ns_nr_parts ns = 1 \<and> length (ns_ftls ns) = 1 \<and> zns_ok (ns_ftls ns ! 0)"

lemma ssd_moved_ok: "ssd_moved f f' \<Longrightarrow> zns_ok f \<Longrightarrow> zns_ok f'"
  using ssd_moved_inv [of f f'] ssd_movedD(2,14) [of f f'] by (simp add: zns_ok_def zrwa_supported_def)

lemma flush_target_ok:
  assumes "\<And>s. s \<in> set ss \<Longrightarrow> ssd_shape s"
  shows "\<exists>t. flush_target now ss = Some t \<and> now \<le> t \<and> (\<forall>s \<in> set ss. \<forall>u \<in> lun_times s. u \<le> t)"
  using assms
proof (induction ss rule: rev_induct)
  case Nil
  then show ?case by (simp add: flush_target_def)
next
  case (snoc s ss)
  then obtain t where t: "flush_target now ss = Some t" "now \<le> t" "\<forall>s \<in> set ss. \<forall>u \<in> lun_times s. u \<le> t" by auto
  have n: "ssd_next_idle_time now s = Some (Max (insert now (lun_times s)))" using snoc.prems by (intro ssd_next_idle_time_ok) simp
  have fin: "finite (lun_times s)"
  proof -
    have "lun_times s = (\<Union>c \<in> set (ssd_ch s). next_lun_avail_time ` set (ch_lun c))" by (auto simp: lun_times_def)
    then show ?thesis by simp
  qed
  have "flush_target now (ss @ [s]) = Some (max t (Max (insert now (lun_times s))))"
    using t(1) n by (simp add: flush_target_def foldM_append)
  then show ?case using t fin by (auto simp: le_max_iff_disj)
qed

lemma zns_proc_ok:
  assumes ok: "zns_ns_ok ns" and c: "zns_command_ok (ns_ftls ns ! 0) (req_cmd (env_req e)) host"
  shows "\<exists>r e' ns' host'. zns_proc_io_cmd b now junk junk_mem ns e host = Some (r, e', ns', host') \<and> zns_ns_ok ns'"
proof -
  let ?f = "ns_ftls ns ! 0" and ?c = "req_cmd (env_req e)" and ?op = "opcode (req_cmd (env_req e))"
  have f: "zns_ok ?f" "zns_inv ?f" "zns_device ?f" "zrwa_supported ?f" and one: "length (ns_ftls ns) = 1"
    and top: "ns_csi ns = NVME_CSI_ZNS" "ns_nr_parts ns = 1" using ok by (auto simp: zns_ns_ok_def zns_ok_def)
  have store: "zns_ns_ok (ns\<lparr> ns_ftls := (ns_ftls ns)[0 := f'] \<rparr>)" if "zns_ok f'" for f'
    using that ok one by (simp add: zns_ns_ok_def)
  note pre = zns_proc_io_cmd_def [of b now junk junk_mem ns e host]
  consider "?op = nvme_cmd_write \<or> ?op = nvme_cmd_zone_append" | "?op = nvme_cmd_read" | "?op = nvme_cmd_flush"
    | "?op = nvme_cmd_zone_mgmt_send" | "?op = nvme_cmd_zone_mgmt_recv"
    | "?op \<notin> {nvme_cmd_write, nvme_cmd_zone_append, nvme_cmd_read, nvme_cmd_flush, nvme_cmd_zone_mgmt_send, nvme_cmd_zone_mgmt_recv}" by blast
  then show ?thesis
  proof cases
    case 1
    with c obtain i where i: "in_zone ?f i (rw_slba ?c)" "zrwav (zone_descs ?f ! i) \<longrightarrow> zrwa_room ?f i"
      by (auto simp: zns_command_ok_def Let_def)
    then have z: "i < nr_zones (zp ?f)" "i * zone_lbas ?f \<le> rw_slba ?c" "rw_slba ?c < (i + 1) * zone_lbas ?f" by (simp_all add: in_zone_def)
    have "\<exists>r e' f'. zns_write b now ?f e = Some (r, e', f') \<and> zns_inv f' \<and> zns_device f' \<and> zp f' = zp ?f"
    proof (cases "zrwav (zone_descs ?f ! i)")
      case True
      with zns_write_zrwa_ok [OF f(2,3) z True _ f(4)] i(2) zns_write_dispatch [OF f(2) z] show ?thesis by auto metis
    next
      case False
      obtain bf where bf: "get_buffer ?f (zone_wbuf ?f i) = Some bf" using zone_wbuf_ok [OF f(2) z(1)] by blast
      from zns_write_seq_ok [OF f(2,3) z bf, of b now] zns_write_dispatch [OF f(2) z] False f show ?thesis
        by (auto split: if_splits)
    qed
    then obtain r e' f' where "zns_write b now ?f e = Some (r, e', f')" "zns_ok f'" using f(4) by (auto simp: zns_ok_def zrwa_supported_def)
    with 1 top one store show ?thesis by (auto simp: pre Let_def)
  next
    case 2
    let ?i = "rw_slba ?c div zone_lbas ?f"
    have r: "rw_slba ?c + nr_lbas_from_rw_cmd ?c \<le> nr_zones (zp ?f) * zone_lbas ?f" using c 2
      by (simp add: zns_command_ok_def Let_def nvme_cmd_read_def nvme_cmd_write_def nvme_cmd_zone_append_def)
    have Z: "0 < zone_lbas ?f" using f(2) zns_geometryD(1) by (auto simp: zns_inv_def)
    have "rw_slba ?c < nr_zones (zp ?f) * zone_lbas ?f" using r nr_lbas_bounds(1) [of ?c] by linarith
    then have z: "?i < nr_zones (zp ?f)" "?i * zone_lbas ?f \<le> rw_slba ?c" "rw_slba ?c < (?i + 1) * zone_lbas ?f"
      using Z by (simp_all add: div_less_iff_less_mult dividend_less_div_times)
    obtain e' f' where "zns_read b now ?f e = Some (True, e', f')" "ssd_moved ?f f'"
      using zns_read_ok [OF f(2,3) refl z r] by blast
    with 2 top one store ssd_moved_ok [of ?f f'] f(1) show ?thesis
      by (auto simp: pre Let_def nvme_cmd_read_def nvme_cmd_write_def nvme_cmd_zone_append_def)
  next
    case 3
    obtain t where "flush_target now (map zf_ssd (ns_ftls ns)) = Some t"
    proof -
      have "set (ns_ftls ns) = {?f}" using one by (cases "ns_ftls ns") auto
      then show ?thesis using that flush_target_ok [of "map zf_ssd (ns_ftls ns)" now] zns_deviceD(2) [OF f(3)] by auto
    qed
    with 3 top one ok show ?thesis by (auto simp: pre Let_def opcodes zns_flush_def)
  next
    case 4
    have "zsend_select_all ?c \<or> (\<exists>i < nr_zones (zp ?f). i * zone_lbas ?f \<le> rw_slba ?c \<and> rw_slba ?c < (i + 1) * zone_lbas ?f)"
      using c 4 by (auto simp: zns_command_ok_def Let_def in_zone_def opcodes)
    from zns_zmgmt_send_ok [OF f(1) this, of junk] 4 top one store show ?thesis by (auto simp: pre Let_def opcodes)
  next
    case 5
    have "recv_ok ?f ?c host" using c 5 by (simp add: zns_command_ok_def Let_def opcodes)
    from zns_zmgmt_recv_ok [OF f(2) refl this, of junk_mem] obtain e' r h where
      "zns_zmgmt_recv junk_mem ?f e host = Some (e', ?f\<lparr> report_buffer := r \<rparr>, h)" by auto
    moreover have "zns_ok (?f\<lparr> report_buffer := r \<rparr>)" using f
      by (simp add: zns_ok_def zns_inv_def zns_device_def zrwa_supported_def zns_geometry_def zone_lbas_def res_ok_def)
    ultimately show ?thesis using 5 top one store by (auto simp: pre Let_def opcodes)
  next
    case 6
    then have "nvme_opcode_string_ok ?op" using c by (auto simp: zns_command_ok_def Let_def nvme_opcode_string_ok_def)
    with 6 top one ok show ?thesis by (auto simp: pre Let_def)
  qed
qed

section \<open>Reachable states\<close>

text \<open>The states of a namespace after any sequence of commands, at any times, and of writebacks: the worker
  releases buffer space at any moment.\<close>

inductive zns_reach :: "base_ssd \<Rightarrow> zns_ftl nvmev_ns \<Rightarrow> zns_ftl nvmev_ns \<Rightarrow> bool" for b ns0 where
  start: "zns_reach b ns0 ns0"
| command: "zns_reach b ns0 ns \<Longrightarrow> zns_command_ok (ns_ftls ns ! 0) (req_cmd (env_req e)) host \<Longrightarrow>
    zns_proc_io_cmd b now junk junk_mem ns e host = Some (r, e', ns', host') \<Longrightarrow> zns_reach b ns0 ns'"
| writeback: "zns_reach b ns0 ns \<Longrightarrow> get_buffer (ns_ftls ns ! 0) q = Some buf \<Longrightarrow>
    put_buffer (ns_ftls ns ! 0) q (snd (buffer_release buf n)) = Some f' \<Longrightarrow>
    zns_reach b ns0 (ns\<lparr> ns_ftls := (ns_ftls ns)[0 := f'] \<rparr>)"

lemma zns_reach_ok:
  assumes "zns_reach b ns0 ns" and "zns_ns_ok ns0"
  shows "zns_ns_ok ns"
  using assms
proof (induction rule: zns_reach.induct)
  case (command ns e host now junk junk_mem r e' ns' host')
  with zns_proc_ok [of ns e host b now junk junk_mem] show ?case by auto
next
  case (writeback ns q buf n f')
  then have "zns_ns_ok ns" by simp
  moreover from this have "zns_ok f'"
    using put_buffer_frame [OF writeback.hyps(3)] by (simp add: zns_ns_ok_def zns_ok_def zrwa_supported_def)
  ultimately show ?case by (simp add: zns_ns_ok_def)
qed simp


definition tiny_zns_ns :: "zns_ftl nvmev_ns" where
  "tiny_zns_ns = \<lparr> ns_id = 0, ns_csi = NVME_CSI_ZNS, ns_size = 49152, ns_mapped = 0, ns_nr_parts = 1, ns_ftls = [tiny_zns],
     ns_proc_io_cmd = zns_proc_nvme_io_cmd \<rparr>"

lemma tiny_zns_ns_ok: "zns_ns_ok tiny_zns_ns"
  using tiny_zns_ok(1,2) tiny_zns_device by (simp add: zns_ns_ok_def zns_ok_def tiny_zns_ns_def zrwa_supported_def tiny_zpp_def)


section \<open>A write to the random write area, as a property\<close>

lemma holders_drop:
  assumes "i < length ds" and "holds k (ds ! i)" and "\<not> holds k z"
  shows "holders k (ds[i := z]) + 1 = holders k ds"
  using holders_update [OF assms(1), of k z] assms(2,3) by simp

text \<open>C10: In a build that supports ZRWA, a write to a zone with a valid random write area is accepted exactly when its
  length is a whole number of write units, it stays in the zone and between the write pointer and twice the area behind
  it, the zone is open or closed, and the buffer of the area has room for the blocks it flushes (none, or as many bytes
  as are left, in 32 bits not zero). It moves the write pointer by the granules needed to bring its end into the
  area, or to the end of the zone. A refused write changes no zone; one that finds no room is retried, unanswered, with
  the zone left open. When it fills the zone, the zone is full and holds no ZRWA resource any more, but the
  count of acquired ones stays: the release is under \<open>ASSERT\<close>, which is empty, so the resource is lost. For a closed zone
  the buffer has to have room for the whole area (\<open>zrwa_room\<close>): the code takes it anew when the write reopens the zone.\<close>

theorem zrwa_write_correct:
  assumes "zns_inv f" and "zns_device f" and "i < nr_zones (zp f)" and "c = req_cmd (env_req e)" and "z = zone_descs f ! i"
    and "i * zone_lbas f \<le> rw_slba c" and "rw_slba c < (i + 1) * zone_lbas f" and "zrwav z" and "zrwa_room f i" and "zrwa_supported f"
    and "n = nr_lbas_from_rw_cmd c" and "m = zrwa_advance f z (rw_slba c + n - 1)"
  shows "\<exists>r e' f'. zns_write b now f e = Some (r, e', f') \<and> zns_inv f' \<and> zns_device f' \<and> zf_storage f' = zf_storage f
      \<and> (r \<longrightarrow> ret_status (env_ret e') = zrwa_verdict f z (rw_slba c) n)
      \<and> (if zrwa_verdict f z (rw_slba c) n = NVME_SC_SUCCESS
         then (r \<longleftrightarrow> zrwa_flushable f i m) \<and> (\<not> r \<longrightarrow> e' = e)
           \<and> zone_descs f' = (zone_descs f)[i := if r \<and> 0 < m then advanced (implicitly_open z) m else implicitly_open z]
           \<and> (r \<and> 0 < m \<and> zd_wp z + m = zslba z + zone_capacity z \<longrightarrow>
                holders ZRWA_ZONE (zone_descs f') + 1 = holders ZRWA_ZONE (zone_descs f)
                \<and> acquired_cnt (res_infos f' ZRWA_ZONE) = acquired_cnt (res_infos f ZRWA_ZONE))
         else r \<and> zone_descs f' = zone_descs f \<and> env_wbs e' = env_wbs e)"
proof -
  have len: "i < length (zone_descs f)" using zns_invD(2) [OF assms(1,3)] assms(3) by simp
  have at: "i * zone_lbas f \<le> rw_slba (req_cmd (env_req e))" "rw_slba (req_cmd (env_req e)) < (i + 1) * zone_lbas f"
    "zrwav (zone_descs f ! i)" using assms(4-8) by simp_all
  obtain r e' f' where R: "zns_write_zrwa b now f e = Some (r, e', f')" "zns_inv f'" "zns_device f'" "zf_storage f' = zf_storage f"
    "acquired_cnt (res_infos f' ZRWA_ZONE) = acquired_cnt (res_infos f ZRWA_ZONE)"
    "r \<longrightarrow> ret_status (env_ret e') = zrwa_verdict f z (rw_slba c) n"
    "if zrwa_verdict f z (rw_slba c) n = NVME_SC_SUCCESS
         then (r \<longleftrightarrow> zrwa_flushable f i m) \<and> (\<not> r \<longrightarrow> e' = e)
           \<and> zone_descs f' = (zone_descs f)[i := if r \<and> 0 < m then advanced (implicitly_open z) m else implicitly_open z]
         else r \<and> zone_descs f' = zone_descs f \<and> env_wbs e' = env_wbs e"
    using zns_write_zrwa_ok [OF assms(1-3) at assms(9,10), of b now] unfolding assms(4,5,11,12) by blast
  have w: "zns_write b now f e = Some (r, e', f')" using zns_write_dispatch [OF assms(1,3) at(1,2)] at(3) R(1) by simp
  have "holders ZRWA_ZONE (zone_descs f') + 1 = holders ZRWA_ZONE (zone_descs f)"
    if v: "zrwa_verdict f z (rw_slba c) n = NVME_SC_SUCCESS" and m: "r" "0 < m" "zd_wp z + m = zslba z + zone_capacity z"
  proof -
    have d: "zone_descs f' = (zone_descs f)[i := advanced (implicitly_open z) m]" using R(7) v m by simp
    have "zd_state z \<noteq> ZONE_STATE_EMPTY" using zns_invD(3) [OF assms(1,3)] assms(5,8) by (auto simp: zone_wf_def)
    then have "zone_active z" using v by (auto simp: zrwa_verdict_def status_codes zone_active_def zone_opened_def split: if_splits zone_state.splits)
    then have h: "holds ZRWA_ZONE (zone_descs f ! i)" using assms(5,8) by simp
    have "zd_state (advanced (implicitly_open z) m) = ZONE_STATE_FULL" using m(3) by (simp add: advanced_def implicitly_open_def)
    then have "\<not> holds ZRWA_ZONE (advanced (implicitly_open z) m)" by (simp add: zone_active_def zone_opened_def)
    then show ?thesis unfolding d using holders_drop [OF len h] by simp
  qed
  with R w show ?thesis by auto
qed

text \<open>The small device with its second zone opened for random writes: 16 sectors of area, granules of 8.\<close>

definition tiny_zrwa :: zns_ftl where
  "tiny_zrwa = snd (the (zmgmt_send 0 tiny_zns 32 ZSA_OPEN_ZONE True))"

lemma tiny_zrwa_ok: "zns_inv tiny_zrwa" "zns_device tiny_zrwa" "zp tiny_zrwa = tiny_zpp" "zone_lbas tiny_zrwa = 32" "zrwa_supported tiny_zrwa"
  and tiny_zrwa_zone: "zone_descs tiny_zrwa ! 1 = \<lparr> zd_type = 2, zd_state = ZONE_STATE_OPENED_EXPL, zrwav = True, zone_capacity = 32, zslba = 32, zd_wp = 32 \<rparr>"
  and tiny_zrwa_buf: "get_buffer tiny_zrwa (ZRWA_BUFFER 1) = Some (buffer_init 16384)" "zspp tiny_zrwa = tiny_params"
proof -
  have ok: "zns_ok tiny_zns" using tiny_zns_ns_ok by (simp add: zns_ns_ok_def tiny_zns_ns_def)
  have i: "1 < nr_zones (zp tiny_zns)" "1 * zone_lbas tiny_zns \<le> 32" "32 < (1 + 1) * zone_lbas tiny_zns" using tiny_zns_ok(2,4) by (simp_all add: tiny_zpp_def)
  have lz: "lba_to_zone tiny_zns 32 = Some 1" using lba_to_zone_eq [of tiny_zns 1 0] tiny_zns_ok i by (simp add: zns_inv_def)
  obtain st f' where r: "zmgmt_send 0 tiny_zns 32 ZSA_OPEN_ZONE True = Some (st, f')" "zns_ok f'" "zp f' = zp tiny_zns" "zone_lbas f' = zone_lbas tiny_zns"
    using zmgmt_send_ok [OF ok i, of 0 ZSA_OPEN_ZONE True] by blast
  have f': "tiny_zrwa = f'" by (simp add: tiny_zrwa_def r(1))
  with r tiny_zns_ok show "zns_inv tiny_zrwa" "zns_device tiny_zrwa" "zp tiny_zrwa = tiny_zpp" "zone_lbas tiny_zrwa = 32" "zrwa_supported tiny_zrwa"
    by (simp_all add: zns_ok_def)
  have e: "zmgmt_send_open_zone tiny_zns 1 True = Some (st, f')" using r(1) lz by (simp add: zmgmt_send_def zone_actions)
  have a: "acquired_cnt (res_infos tiny_zns k) = 0" "total_cnt (res_infos tiny_zns k) = 3" for k
    by (simp_all add: tiny_zns_def zns_init_ftl_def init_resource_def tiny_zpp_def init_descriptor_def Let_def)
  have len: "length (zone_descs tiny_zns) = 3" using zns_invD(2) [OF tiny_zns_ok(1), of 0] tiny_zns_ok(2) by (simp add: tiny_zpp_def)
  have nf: "\<not> is_zone_resource_full tiny_zns k" for k by (simp add: is_zone_resource_full_def a)
  have z1: "zone_descs tiny_zns ! 1 = \<lparr> zd_type = 2, zd_state = ZONE_STATE_EMPTY, zrwav = False, zone_capacity = 32, zslba = 32, zd_wp = 32 \<rparr>"
    using tiny_zns_state [of 1] by simp
  from e show "zone_descs tiny_zrwa ! 1 = \<lparr> zd_type = 2, zd_state = ZONE_STATE_OPENED_EXPL, zrwav = True, zone_capacity = 32, zslba = 32, zd_wp = 32 \<rparr>"
    unfolding f' using len z1 nf a
    by (auto simp: zmgmt_send_open_zone_def open_from_closed_def acquire_zone_resource_def is_zone_resource_avail_def on_zone_eq change_zone_state_def
        Let_def split: if_splits)
  have buf: "zwra_buffer tiny_zns = replicate 3 (buffer_init 16384)"
    by (simp add: tiny_zns_def zns_init_ftl_def init_resource_def init_descriptor_def Let_def tiny_zpp_def)
  have "zwra_buffer f' = zwra_buffer tiny_zns" using e len z1 nf a
    by (auto simp: zmgmt_send_open_zone_def open_from_closed_def acquire_zone_resource_def is_zone_resource_avail_def on_zone_eq change_zone_state_def
        Let_def split: if_splits)
  then show "get_buffer tiny_zrwa (ZRWA_BUFFER 1) = Some (buffer_init 16384)" unfolding f' by (simp add: get_buffer_def buf)
  show "zspp tiny_zrwa = tiny_params" using send_keeps_ssd [OF r(1)] tiny_zns_ok(3) tiny_ssd_ok by (simp add: f')
qed

lemma zrwa_write_correct_witness:
  "\<exists>e f. zns_write SAMSUNG_970PRO 0 tiny_zrwa (tiny_env (tiny_write\<lparr> cdw10 := 40, cdw12 := 15 \<rparr>)) = Some (True, e, f) \<and> zns_inv f
    \<and> zd_wp (zone_descs f ! 1) = 40"
proof -
  let ?c = "tiny_write\<lparr> cdw10 := 40, cdw12 := 15 \<rparr>" and ?z = "zone_descs tiny_zrwa ! 1"
  have c: "rw_slba ?c = 40" "nr_lbas_from_rw_cmd ?c = 16"
    by (simp_all add: rw_slba_def nr_lbas_from_rw_cmd_def rw_length_def tiny_write_def u32_def)
  have rq: "req_cmd (env_req (tiny_env ?c)) = ?c" by (simp add: tiny_env_def)
  have h: "1 < nr_zones (zp tiny_zrwa)" "1 * zone_lbas tiny_zrwa \<le> 40" "40 < (1 + 1) * zone_lbas tiny_zrwa" "zrwav ?z" "zrwa_room tiny_zrwa 1"
    using tiny_zrwa_ok tiny_zrwa_zone tiny_zrwa_buf by (simp_all add: tiny_zpp_def zrwa_room_def)
  have m: "zrwa_advance tiny_zrwa ?z (40 + 16 - 1) = 8" unfolding tiny_zrwa_zone using tiny_zrwa_ok(3) by (simp add: zrwa_advance_def tiny_zpp_def)
  have v: "zrwa_verdict tiny_zrwa ?z 40 16 = NVME_SC_SUCCESS" unfolding tiny_zrwa_zone
    using tiny_zrwa_ok(3,4) tiny_zrwa_buf(2) by (simp add: zrwa_verdict_def tiny_zpp_def LBA_TO_BYTE_def)
  have len: "length (zone_descs tiny_zrwa) = 3" using zns_invD(2) [OF tiny_zrwa_ok(1), of 0] tiny_zrwa_ok(3) by (simp add: tiny_zpp_def)
  obtain r e f where w: "zns_write SAMSUNG_970PRO 0 tiny_zrwa (tiny_env ?c) = Some (r, e, f)" "zns_inv f"
    "r \<longleftrightarrow> zrwa_flushable tiny_zrwa 1 8" "zone_descs f = (zone_descs tiny_zrwa)[1 := if r \<and> 0 < (8::nat) then advanced (implicitly_open ?z) 8 else implicitly_open ?z]"
    using zrwa_write_correct [OF tiny_zrwa_ok(1,2) h(1) rq [symmetric] refl, unfolded c, OF h(2-5) tiny_zrwa_ok(5) refl m [symmetric], of SAMSUNG_970PRO 0,
        unfolded if_P [OF v]] by blast
  have "buf_remaining (buffer_init 16384) = 16384" by (simp add: buffer_init_def u32_def)
  then have r: "r" using w(3) tiny_zrwa_buf(1) tiny_zrwa_zone by (simp add: zrwa_flushable_def zrwa_left_def LBA_TO_BYTE_def)
  then have "zd_wp (zone_descs f ! 1) = 40"
    using len unfolding w(4) tiny_zrwa_zone by (simp add: advanced_def implicitly_open_def zone_opened_def)
  moreover have "r = True" using r by simp
  ultimately show ?thesis using w(1,2) by blast
qed

end
