(* ===== verification/IO_Queue.thy ===== *)
theory IO_Queue
  imports Prp
begin

text \<open>
  The I/O path of \<open>io.c\<close> with \<open>CONFIG_NVMEV_IO_WORKER_BY_SQ\<close> (as \<open>nvmev.h\<close> defines it): the table of
  pending requests of each I/O worker, with its free list and its list in the order of target times,
  the dispatcher that puts requests into it and takes finished ones out, the worker that copies data
  and posts completions, and the two queues. The state of the FTLs is a type parameter; a command
  handler and the release of write-buffer space are functions on it. Dispatcher and worker run
  concurrently: each operation here is one of them running alone between the barriers of the code.
\<close>

section \<open>Data\<close>

text \<open>\<open>-1\<close> as an \<open>unsigned int\<close>, the end of a list.\<close>

definition NIL :: nat where "NIL = 2 ^ 32 - 1"

definition NR_MAX_PARALLEL_IO :: nat where "NR_MAX_PARALLEL_IO = 16384"

record nvmev_proc_table =
  pe_sqid :: nat
  pe_cqid :: nat
  pe_sq_entry :: nat
  pe_command_id :: nat
  pe_nsecs_start :: nat
  pe_nsecs_target :: nat
  pe_nsecs_enqueue :: nat
  is_copied :: bool
  is_completed :: bool
  pe_status :: nat
  pe_result0 :: nat
  pe_result1 :: nat
  writeback_cmd :: bool
  pe_write_buffer :: buffer_ref
  pe_buffs_to_release :: nat
  pe_next :: nat
  pe_prev :: nat

record nvmev_proc_info =
  proc_table :: "nvmev_proc_table list"
  free_seq :: nat
  free_seq_end :: nat
  io_seq :: nat
  io_seq_end :: nat
  proc_io_nsecs :: nat
  pi_id :: nat

record nvmev_sq_stat =
  nr_dispatched :: nat
  nr_dispatch :: nat
  nr_in_flight :: nat
  max_nr_in_flight :: nat
  total_io :: nat

record submission_queue =
  sq_cqid :: nat
  sq_size :: nat
  sq_stat :: nvmev_sq_stat
  sq_cmds :: "nvme_command list"

record nvme_completion =
  c_result0 :: nat
  c_result1 :: nat
  c_sq_head :: nat
  c_sq_id :: nat
  c_command_id :: nat
  c_status :: nat

record completion_queue =
  cq_size :: nat
  cq_phase :: nat
  cq_head :: nat
  cq_tail :: int
  cq_interrupt_ready :: bool
  cq_irq_enabled :: bool
  cq_irq_vector :: nat
  cq_entries :: "nvme_completion list"

text \<open>\<open>ns_base\<close> is where the memory of each namespace starts in the device memory.\<close>

record 's nvmev_dev =
  nr_io_cpu :: nat
  proc_infos :: "nvmev_proc_info list"
  proc_turn :: nat
  sqes :: "submission_queue option list"
  cqes :: "completion_queue option list"
  dev_ns :: 's
  ns_base :: "nat list"
  dev_storage :: bytes
  dev_storage_size :: nat
  dev_host :: bytes

definition get_io_worker :: "'s nvmev_dev \<Rightarrow> nat \<Rightarrow> nat option" where
  "get_io_worker d sqid = mod_trap (sub32 sqid 1) (nr_io_cpu d)"

section \<open>Initialisation\<close>

text \<open>The table is zeroed, then linked; \<open>i - 1\<close> of the first entry is \<open>-1\<close>.\<close>

definition empty_entry :: nvmev_proc_table where
  "empty_entry = \<lparr> pe_sqid = 0, pe_cqid = 0, pe_sq_entry = 0, pe_command_id = 0, pe_nsecs_start = 0, pe_nsecs_target = 0,
     pe_nsecs_enqueue = 0, is_copied = False, is_completed = False, pe_status = 0, pe_result0 = 0, pe_result1 = 0,
     writeback_cmd = False, pe_write_buffer = SSD_BUFFER, pe_buffs_to_release = 0, pe_next = 0, pe_prev = 0 \<rparr>"

definition init_proc_info :: "nat \<Rightarrow> nvmev_proc_info" where
  "init_proc_info idx =
     (let t = map (\<lambda>i. empty_entry\<lparr> pe_next := i + 1, pe_prev := sub32 i 1 \<rparr>) [0..<NR_MAX_PARALLEL_IO]
      in \<lparr> proc_table = t[NR_MAX_PARALLEL_IO - 1 := (t ! (NR_MAX_PARALLEL_IO - 1))\<lparr> pe_next := NIL \<rparr>],
           free_seq = 0, free_seq_end = NR_MAX_PARALLEL_IO - 1, io_seq = NIL, io_seq_end = NIL, proc_io_nsecs = 0, pi_id = idx \<rparr>)"

definition NVMEV_IO_PROC_INIT :: "'s nvmev_dev \<Rightarrow> 's nvmev_dev" where
  "NVMEV_IO_PROC_INIT d = d\<lparr> proc_infos := map init_proc_info [0..<nr_io_cpu d], proc_turn := 0 \<rparr>"

section \<open>Putting a request into the table\<close>

definition on_pe :: "nvmev_proc_info \<Rightarrow> nat \<Rightarrow> (nvmev_proc_table \<Rightarrow> nvmev_proc_table) \<Rightarrow> nvmev_proc_info option" where
  "on_pe pi k f = do {
     e \<leftarrow> arr_get (proc_table pi) k;
     t \<leftarrow> arr_set (proc_table pi) k (f e);
     Some (pi\<lparr> proc_table := t \<rparr>)
   }"

text \<open>The search for the place, from the end; a worker that has passed an entry's time is not overtaken.\<close>

partial_function (option) io_walk :: "nvmev_proc_info \<Rightarrow> nat \<Rightarrow> nat \<Rightarrow> nat option" where
  "io_walk pi target cur =
     (if cur \<noteq> NIL then
        Option.bind (arr_get (proc_table pi) cur) (\<lambda>e.
        if pe_nsecs_target e \<le> proc_io_nsecs pi then Some cur
        else if pe_nsecs_target e \<le> target then Some cur
        else io_walk pi target (pe_prev e))
      else Some NIL)"

definition io_link :: "nvmev_proc_info \<Rightarrow> nat \<Rightarrow> nat \<Rightarrow> nvmev_proc_info option" where
  "io_link pi entry target =
     (if io_seq pi = NIL then Some (pi\<lparr> io_seq := entry, io_seq_end := entry \<rparr>)
      else do {
        cur \<leftarrow> io_walk pi target (io_seq_end pi);
        if cur = NIL then do {
          pi \<leftarrow> on_pe pi (io_seq pi) (\<lambda>e. e\<lparr> pe_prev := entry \<rparr>);
          pi \<leftarrow> on_pe pi entry (\<lambda>e. e\<lparr> pe_next := io_seq pi \<rparr>);
          Some (pi\<lparr> io_seq := entry \<rparr>)
        } else do {
          c \<leftarrow> arr_get (proc_table pi) cur;
          if pe_next c = NIL then do {
            pi \<leftarrow> on_pe pi entry (\<lambda>e. e\<lparr> pe_prev := cur \<rparr>);
            let pi = pi\<lparr> io_seq_end := entry \<rparr>;
            on_pe pi cur (\<lambda>e. e\<lparr> pe_next := entry \<rparr>)
          } else do {
            pi \<leftarrow> on_pe pi entry (\<lambda>e. e\<lparr> pe_prev := cur \<rparr>);
            pi \<leftarrow> on_pe pi entry (\<lambda>e. e\<lparr> pe_next := pe_next c \<rparr>);
            pi \<leftarrow> on_pe pi (pe_next c) (\<lambda>e. e\<lparr> pe_prev := entry \<rparr>);
            on_pe pi cur (\<lambda>e. e\<lparr> pe_next := entry \<rparr>)
          }
        }
      })"

text \<open>What both enqueue functions do with the table: take the first free entry, fill it and link it. When
  only one entry is free the request is dropped with a warning.\<close>

definition io_insert :: "nvmev_proc_info \<Rightarrow> (nvmev_proc_table \<Rightarrow> nvmev_proc_table) \<Rightarrow> nat \<Rightarrow> (bool \<times> nvmev_proc_info) option" where
  "io_insert pi fill target = do {
     let entry = free_seq pi;
     e \<leftarrow> arr_get (proc_table pi) entry;
     if NR_MAX_PARALLEL_IO \<le> pe_next e then Some (False, pi\<lparr> free_seq := entry \<rparr>)
     else do {
       let pi = pi\<lparr> free_seq := pe_next e \<rparr>;
       pi \<leftarrow> on_pe pi entry (\<lambda>e. (fill e)\<lparr> pe_prev := NIL, pe_next := NIL \<rparr>);
       pi \<leftarrow> io_link pi entry target;
       Some (True, pi)
     }
   }"

text \<open>The next worker is stored into \<open>proc_turn\<close>, though the worker is chosen by the queue.\<close>

definition put_info :: "'s nvmev_dev \<Rightarrow> nat \<Rightarrow> (bool \<times> nvmev_proc_info) \<Rightarrow> 's nvmev_dev option" where
  "put_info d turn r = do {
     pis \<leftarrow> arr_set (proc_infos d) turn (snd r);
     Some (d\<lparr> proc_infos := pis, proc_turn := (if fst r then (if turn + 1 = nr_io_cpu d then 0 else turn + 1) else proc_turn d) \<rparr>)
   }"

definition sq_command :: "'s nvmev_dev \<Rightarrow> nat \<Rightarrow> nat \<Rightarrow> nvme_command option" where
  "sq_command d sqid k = do { sq \<leftarrow> arr_get (sqes d) sqid; sq \<leftarrow> sq; arr_get (sq_cmds sq) k }"

definition fill_io_req :: "nat \<Rightarrow> nat \<Rightarrow> nat \<Rightarrow> nat \<Rightarrow> nat \<Rightarrow> nat \<Rightarrow> nvmev_result \<Rightarrow> nvmev_proc_table \<Rightarrow> nvmev_proc_table" where
  "fill_io_req sqid cqid sq_entry cid start now ret e = e\<lparr> pe_sqid := sqid, pe_cqid := cqid, pe_sq_entry := sq_entry,
     pe_command_id := cid, pe_nsecs_start := start, pe_nsecs_enqueue := now, pe_nsecs_target := ret_nsecs_target ret,
     pe_status := ret_status ret, is_completed := False, is_copied := False, writeback_cmd := False \<rparr>"

definition enqueue_io_req :: "nat \<Rightarrow> 's nvmev_dev \<Rightarrow> nat \<Rightarrow> nat \<Rightarrow> nat \<Rightarrow> nat \<Rightarrow> nvmev_result \<Rightarrow> 's nvmev_dev option" where
  "enqueue_io_req now d sqid cqid sq_entry start ret = do {
     turn \<leftarrow> get_io_worker d sqid;
     pi \<leftarrow> arr_get (proc_infos d) turn;
     c \<leftarrow> sq_command d sqid sq_entry;
     r \<leftarrow> io_insert pi (fill_io_req sqid cqid sq_entry (command_id c) start now ret) (ret_nsecs_target ret);
     put_info d turn r
   }"

definition fill_writeback :: "nat \<Rightarrow> writeback \<Rightarrow> nvmev_proc_table \<Rightarrow> nvmev_proc_table" where
  "fill_writeback now w e = e\<lparr> pe_sqid := wb_sqid w, pe_nsecs_start := now, pe_nsecs_enqueue := now, pe_nsecs_target := wb_nsecs_target w,
     is_completed := False, is_copied := True, writeback_cmd := True, pe_buffs_to_release := wb_buffs_to_release w,
     pe_write_buffer := wb_buffer w \<rparr>"

definition enqueue_writeback_io_req :: "nat \<Rightarrow> 's nvmev_dev \<Rightarrow> writeback \<Rightarrow> 's nvmev_dev option" where
  "enqueue_writeback_io_req now d w = do {
     turn \<leftarrow> get_io_worker d (wb_sqid w);
     pi \<leftarrow> arr_get (proc_infos d) turn;
     r \<leftarrow> io_insert pi (fill_writeback now w) (wb_nsecs_target w);
     put_info d turn r
   }"

section \<open>Taking finished requests out\<close>

text \<open>The scan from the head: the last entry of the finished prefix, \<open>NIL\<close> if there is none.\<close>

definition reclaimable :: "nvmev_proc_info \<Rightarrow> nvmev_proc_table \<Rightarrow> bool" where
  "reclaimable pi e \<longleftrightarrow> is_completed e \<and> is_copied e \<and> pe_nsecs_target e \<le> proc_io_nsecs pi"

partial_function (option) reclaim_scan :: "nvmev_proc_info \<Rightarrow> nat \<Rightarrow> nat \<Rightarrow> nat option" where
  "reclaim_scan pi last_entry cur =
     (if cur \<noteq> NIL then
        Option.bind (arr_get (proc_table pi) cur) (\<lambda>e.
        if reclaimable pi e then reclaim_scan pi cur (pe_next e) else Some last_entry)
      else Some last_entry)"

definition reclaim_info :: "nvmev_proc_info \<Rightarrow> nvmev_proc_info option" where
  "reclaim_info pi = do {
     let first_entry = io_seq pi;
     last_entry \<leftarrow> reclaim_scan pi NIL first_entry;
     if last_entry \<noteq> NIL then do {
       e \<leftarrow> arr_get (proc_table pi) last_entry;
       let pi = pi\<lparr> io_seq := pe_next e \<rparr>;
       pi \<leftarrow> (if pe_next e \<noteq> NIL then on_pe pi (pe_next e) (\<lambda>e. e\<lparr> pe_prev := NIL \<rparr>) else Some pi);
       pi \<leftarrow> on_pe pi last_entry (\<lambda>e. e\<lparr> pe_next := NIL \<rparr>);
       pi \<leftarrow> on_pe pi first_entry (\<lambda>e. e\<lparr> pe_prev := free_seq_end pi \<rparr>);
       pi \<leftarrow> on_pe pi (free_seq_end pi) (\<lambda>e. e\<lparr> pe_next := first_entry \<rparr>);
       Some (pi\<lparr> free_seq_end := last_entry \<rparr>)
     } else Some pi
   }"

definition reclaim_completed_reqs :: "'s nvmev_dev \<Rightarrow> 's nvmev_dev option" where
  "reclaim_completed_reqs d = foldM (\<lambda>turn d. do {
     pi \<leftarrow> arr_get (proc_infos d) turn;
     pi \<leftarrow> reclaim_info pi;
     pis \<leftarrow> arr_set (proc_infos d) turn pi;
     Some (d\<lparr> proc_infos := pis \<rparr>)
   }) [0..<nr_io_cpu d] d"

section \<open>The dispatcher\<close>

text \<open>A command handler: from the request and the FTLs to the answer, the requests it queued, and the FTLs.
  The namespace is chosen by the command.\<close>

type_synonym 's handler = "nat \<Rightarrow> io_env \<Rightarrow> 's \<Rightarrow> (bool \<times> io_env \<times> 's) option"

definition nvmev_proc_io :: "'s handler \<Rightarrow> nat \<Rightarrow> nat \<Rightarrow> 's nvmev_dev \<Rightarrow> nat \<Rightarrow> nat \<Rightarrow> (bool \<times> nat \<times> 's nvmev_dev) option" where
  "nvmev_proc_io handler now wall d sqid sq_entry = do {
     sq \<leftarrow> arr_get (sqes d) sqid;
     sq \<leftarrow> sq;
     c \<leftarrow> arr_get (sq_cmds sq) sq_entry;
     (ok, e, s) \<leftarrow> handler (sub32 (nsid c) 1)
        \<lparr> env_req = \<lparr> req_cmd = c, req_sq_id = sqid, req_nsecs_start = wall \<rparr>,
          env_ret = \<lparr> ret_status = NVME_SC_SUCCESS, ret_nsecs_target = wall, ret_early_completion = 0, ret_result = 0 \<rparr>,
          env_wbs = [] \<rparr> (dev_ns d);
     let d = d\<lparr> dev_ns := s, sqes := (sqes d)[sqid := Some (sq\<lparr> sq_cmds := (sq_cmds sq)[sq_entry := req_cmd (env_req e)] \<rparr>)] \<rparr>;
     d \<leftarrow> foldM (\<lambda>w d. enqueue_writeback_io_req now d w) (env_wbs e) d;
     if \<not> ok then Some (False, 0, d)
     else do {
       d \<leftarrow> enqueue_io_req now d sqid (sq_cqid sq) sq_entry wall (env_ret e);
       d \<leftarrow> reclaim_completed_reqs d;
       Some (True, (rw_length c + 1) * 512, d)
     }
   }"

definition count_dispatched :: "nat \<Rightarrow> submission_queue \<Rightarrow> submission_queue" where
  "count_dispatched n sq = (let st = sq_stat sq in sq\<lparr> sq_stat := st\<lparr> nr_dispatched := u32 (nr_dispatched st + 1),
     nr_in_flight := u32 (nr_in_flight st + 1), total_io := u64 (total_io st + n) \<rparr> \<rparr>)"

definition on_sq :: "'s nvmev_dev \<Rightarrow> nat \<Rightarrow> (submission_queue \<Rightarrow> submission_queue) \<Rightarrow> 's nvmev_dev option" where
  "on_sq d sqid f = do { sq \<leftarrow> arr_get (sqes d) sqid; sq \<leftarrow> sq; Some (d\<lparr> sqes := (sqes d)[sqid := Some (f sq)] \<rparr>) }"

text \<open>The loop over the new entries: how many were taken. \<open>clock seq\<close> are the clocks read for entry \<open>seq\<close>.\<close>

primrec proc_entries :: "'s handler \<Rightarrow> (nat \<Rightarrow> nat \<times> nat) \<Rightarrow> nat \<Rightarrow> nat \<Rightarrow> nat \<Rightarrow> nat \<Rightarrow> 's nvmev_dev \<Rightarrow> (nat \<times> 's nvmev_dev) option" where
  "proc_entries handler clock sqid seq entry 0 d = Some (seq, d)"
| "proc_entries handler clock sqid seq entry (Suc n) d = do {
     (ok, io_size, d) \<leftarrow> nvmev_proc_io handler (fst (clock seq)) (snd (clock seq)) d sqid entry;
     if \<not> ok then Some (seq, d)
     else do {
       sq \<leftarrow> arr_get (sqes d) sqid;
       sq \<leftarrow> sq;
       d \<leftarrow> on_sq d sqid (count_dispatched io_size);
       proc_entries handler clock sqid (seq + 1) (if entry + 1 = sq_size sq then 0 else entry + 1) n d
     }
   }"

text \<open>\<open>max_t (int, ...)\<close> compares the counters as signed numbers.\<close>

definition signed32 :: "nat \<Rightarrow> int" where
  "signed32 n = (if u32 n < 2 ^ 31 then int (u32 n) else int (u32 n) - 2 ^ 32)"

definition nvmev_proc_io_sq :: "'s handler \<Rightarrow> (nat \<Rightarrow> nat \<times> nat) \<Rightarrow> 's nvmev_dev \<Rightarrow> nat \<Rightarrow> nat \<Rightarrow> nat \<Rightarrow> (nat \<times> 's nvmev_dev) option" where
  "nvmev_proc_io_sq handler clock d sqid new_db old_db = do {
     osq \<leftarrow> arr_get (sqes d) sqid;
     (case osq of None \<Rightarrow> Some (old_db, d)
      | Some sq \<Rightarrow> do {
          let num_proc = (if new_db < old_db then new_db + sq_size sq - old_db else new_db - old_db);
          (seq, d) \<leftarrow> proc_entries handler clock sqid 0 old_db num_proc d;
          d \<leftarrow> on_sq d sqid (\<lambda>sq. let st = sq_stat sq; st = st\<lparr> nr_dispatch := u32 (nr_dispatch st + 1) \<rparr>
                 in sq\<lparr> sq_stat := st\<lparr> max_nr_in_flight := (if signed32 (max_nr_in_flight st) < signed32 (nr_in_flight st) then nr_in_flight st else max_nr_in_flight st) \<rparr> \<rparr>);
          db \<leftarrow> mod_trap (old_db + seq) (sq_size sq);
          Some (db, d)
        })
   }"

text \<open>The doorbell of a completion queue: entries \<open>old_db\<close> up to \<open>new_db\<close>, around the end of the queue.\<close>

partial_function (option) proc_cq_entries :: "nat \<Rightarrow> int \<Rightarrow> int \<Rightarrow> 's nvmev_dev \<Rightarrow> 's nvmev_dev option" where
  "proc_cq_entries cqid i new_db d =
     (if i \<noteq> new_db then
        Option.bind (arr_get (cqes d) cqid) (\<lambda>ocq.
        Option.bind ocq (\<lambda>cq.
        if int (cq_size cq) \<le> i then proc_cq_entries cqid 0 new_db d
        else if i < 0 then None
        else Option.bind (arr_get (cq_entries cq) (nat i)) (\<lambda>e.
          Option.bind (on_sq d (c_sq_id e) (\<lambda>sq. sq\<lparr> sq_stat := (sq_stat sq)\<lparr> nr_in_flight := sub32 (nr_in_flight (sq_stat sq)) 1 \<rparr> \<rparr>)) (\<lambda>d.
          proc_cq_entries cqid (i + 1) new_db d))))
      else Some d)"

definition on_cq :: "'s nvmev_dev \<Rightarrow> nat \<Rightarrow> (completion_queue \<Rightarrow> completion_queue) \<Rightarrow> 's nvmev_dev option" where
  "on_cq d cqid f = do { cq \<leftarrow> arr_get (cqes d) cqid; cq \<leftarrow> cq; Some (d\<lparr> cqes := (cqes d)[cqid := Some (f cq)] \<rparr>) }"

definition nvmev_proc_io_cq :: "'s nvmev_dev \<Rightarrow> nat \<Rightarrow> int \<Rightarrow> int \<Rightarrow> 's nvmev_dev option" where
  "nvmev_proc_io_cq d cqid new_db old_db = do {
     d \<leftarrow> proc_cq_entries cqid old_db new_db d;
     on_cq d cqid (\<lambda>cq. cq\<lparr> cq_tail := (if new_db = -1 then int (cq_size cq) - 1 else new_db - 1) \<rparr>)
   }"

section \<open>The worker\<close>

text \<open>The \<open>status\<close> of an entry is a 16-bit field.\<close>

definition post_completion :: "nvmev_proc_table \<Rightarrow> completion_queue \<Rightarrow> completion_queue option" where
  "post_completion pe cq = do {
     es \<leftarrow> arr_set (cq_entries cq) (cq_head cq)
       \<lparr> c_result0 = pe_result0 pe, c_result1 = pe_result1 pe, c_sq_head = pe_sq_entry pe mod 2 ^ 16, c_sq_id = pe_sqid pe mod 2 ^ 16,
         c_command_id = pe_command_id pe mod 2 ^ 16,
         c_status = (if even (cq_phase cq) then 2 * pe_status pe else 2 * pe_status pe + 1) mod 2 ^ 16 \<rparr>;
     let cq = cq\<lparr> cq_entries := es \<rparr>;
     let cq = (if cq_head cq + 1 = cq_size cq then cq\<lparr> cq_head := 0, cq_phase := (if cq_phase cq = 0 then 1 else 0) \<rparr>
               else cq\<lparr> cq_head := cq_head cq + 1 \<rparr>);
     Some (cq\<lparr> cq_interrupt_ready := True \<rparr>)
   }"

definition fill_cq_result :: "'s nvmev_dev \<Rightarrow> nvmev_proc_table \<Rightarrow> 's nvmev_dev option" where
  "fill_cq_result d pe = do {
     cq \<leftarrow> arr_get (cqes d) (pe_cqid pe);
     cq \<leftarrow> cq;
     cq \<leftarrow> post_completion pe cq;
     Some (d\<lparr> cqes := (cqes d)[pe_cqid pe := Some cq] \<rparr>)
   }"

text \<open>The data transfer of a command, between the host's pages and the memory of its namespace.\<close>

definition io_dir :: "nat \<Rightarrow> prp_dir" where
  "io_dir op = (if op = nvme_cmd_write \<or> op = nvme_cmd_zone_append then FROM_HOST
                else if op = nvme_cmd_read then TO_HOST else NO_COPY)"

definition do_perform_io :: "'s nvmev_dev \<Rightarrow> nvme_command \<Rightarrow> 's nvmev_dev option" where
  "do_perform_io d c = do {
     base \<leftarrow> arr_get (ns_base d) (sub32 (nsid c) 1);
     (host, dev) \<leftarrow> prp_loop (io_dir (opcode c)) (dev_storage_size d) (prp1 c) (prp2 c) 0 ((rw_length c + 1) * 512)
       (base + u64 (rw_slba c * 512)) None 0 (dev_host d) (dev_storage d);
     Some (d\<lparr> dev_host := host, dev_storage := dev \<rparr>)
   }"

definition on_worker :: "'s nvmev_dev \<Rightarrow> nat \<Rightarrow> nat \<Rightarrow> (nvmev_proc_table \<Rightarrow> nvmev_proc_table) \<Rightarrow> 's nvmev_dev option" where
  "on_worker d w k f = do {
     pi \<leftarrow> arr_get (proc_infos d) w;
     pi \<leftarrow> on_pe pi k f;
     Some (d\<lparr> proc_infos := (proc_infos d)[w := pi] \<rparr>)
   }"

text \<open>One round of the inner loop, on entry \<open>cur\<close> of worker \<open>w\<close>, at time \<open>now\<close>; \<open>release\<close> gives buffer space
  back. Compiled without \<open>KV_PROTOTYPE\<close> and with \<open>io_using_dma\<close> off.\<close>

definition copy_entry :: "nat \<Rightarrow> nat \<Rightarrow> nvmev_proc_table \<Rightarrow> 's nvmev_dev \<Rightarrow> 's nvmev_dev option" where
  "copy_entry w cur e d =
     (if \<not> is_copied e then do {
        d \<leftarrow> (if writeback_cmd e then Some d else do { c \<leftarrow> sq_command d (pe_sqid e) (pe_sq_entry e); do_perform_io d c });
        on_worker d w cur (\<lambda>e. e\<lparr> is_copied := True \<rparr>)
      } else Some d)"

definition complete_entry :: "(buffer_ref \<Rightarrow> nat \<Rightarrow> 's \<Rightarrow> 's option) \<Rightarrow> nat \<Rightarrow> nat \<Rightarrow> nat \<Rightarrow> nvmev_proc_table \<Rightarrow> 's nvmev_dev \<Rightarrow> 's nvmev_dev option" where
  "complete_entry release now w cur e d =
     (if pe_nsecs_target e \<le> now then do {
        d \<leftarrow> (if writeback_cmd e then do { s \<leftarrow> release (pe_write_buffer e) (pe_buffs_to_release e) (dev_ns d); Some (d\<lparr> dev_ns := s \<rparr>) }
              else fill_cq_result d e);
        on_worker d w cur (\<lambda>e. e\<lparr> is_completed := True \<rparr>)
      } else Some d)"

definition worker_entry :: "(buffer_ref \<Rightarrow> nat \<Rightarrow> 's \<Rightarrow> 's option) \<Rightarrow> nat \<Rightarrow> nat \<Rightarrow> nat \<Rightarrow> 's nvmev_dev \<Rightarrow> 's nvmev_dev option" where
  "worker_entry release now w cur d = do {
     pi \<leftarrow> arr_get (proc_infos d) w;
     e \<leftarrow> arr_get (proc_table pi) cur;
     let d = d\<lparr> proc_infos := (proc_infos d)[w := pi\<lparr> proc_io_nsecs := now \<rparr>] \<rparr>;
     if is_completed e then Some d else do { d \<leftarrow> copy_entry w cur e d; complete_entry release now w cur e d }
   }"

text \<open>The inner loop; \<open>clock k\<close> is the time read in round \<open>k\<close>.\<close>

partial_function (option) worker_pass :: "(buffer_ref \<Rightarrow> nat \<Rightarrow> 's \<Rightarrow> 's option) \<Rightarrow> (nat \<Rightarrow> nat) \<Rightarrow> nat \<Rightarrow> nat \<Rightarrow> nat \<Rightarrow> 's nvmev_dev \<Rightarrow> 's nvmev_dev option" where
  "worker_pass release clock w k cur d =
     (if cur \<noteq> NIL then
        Option.bind (worker_entry release (clock k) w cur d) (\<lambda>d.
        Option.bind (arr_get (proc_infos d) w) (\<lambda>pi.
        Option.bind (arr_get (proc_table pi) cur) (\<lambda>e.
        worker_pass release clock w (k + 1) (pe_next e) d)))
      else Some d)"

text \<open>The second part of a round of the thread: the interrupts it raises, in order, for the queues it serves.\<close>

definition signal_ready :: "nat \<Rightarrow> nat \<Rightarrow> 's nvmev_dev \<Rightarrow> (nat list \<times> 's nvmev_dev) option" where
  "signal_ready w nr_cq d = foldM (\<lambda>qidx (irqs, d). do {
     cq \<leftarrow> arr_get (cqes d) qidx;
     turn \<leftarrow> get_io_worker d qidx;
     if w \<noteq> turn then Some (irqs, d)
     else (case cq of None \<Rightarrow> Some (irqs, d)
       | Some cq \<Rightarrow> if cq_irq_enabled cq \<and> cq_interrupt_ready cq
           then Some (irqs @ [cq_irq_vector cq], d\<lparr> cqes := (cqes d)[qidx := Some (cq\<lparr> cq_interrupt_ready := False \<rparr>)] \<rparr>)
           else Some (irqs, d))
   }) [1..<nr_cq + 1] ([], d)"

definition nvmev_kthread_round :: "(buffer_ref \<Rightarrow> nat \<Rightarrow> 's \<Rightarrow> 's option) \<Rightarrow> (nat \<Rightarrow> nat) \<Rightarrow> nat \<Rightarrow> nat \<Rightarrow> 's nvmev_dev \<Rightarrow> (nat list \<times> 's nvmev_dev) option" where
  "nvmev_kthread_round release clock w nr_cq d = do {
     pi \<leftarrow> arr_get (proc_infos d) w;
     d \<leftarrow> worker_pass release clock w 0 (io_seq pi) d;
     signal_ready w nr_cq d
   }"

section \<open>The two lists of a worker\<close>

text \<open>\<open>chain nx xs\<close>: the links \<open>nx\<close> lead through \<open>xs\<close> and end there.\<close>

definition chain :: "(nat \<Rightarrow> nat) \<Rightarrow> nat list \<Rightarrow> bool" where
  "chain nx xs \<longleftrightarrow> successively (\<lambda>a b. nx a = b) xs \<and> (xs \<noteq> [] \<longrightarrow> nx (last xs) = NIL)"

definition head_or :: "nat list \<Rightarrow> nat" where
  "head_or xs = (if xs = [] then NIL else hd xs)"

definition nxt :: "nvmev_proc_info \<Rightarrow> nat \<Rightarrow> nat" where "nxt pi k = pe_next (proc_table pi ! k)"
definition prv :: "nvmev_proc_info \<Rightarrow> nat \<Rightarrow> nat" where "prv pi k = pe_prev (proc_table pi ! k)"
definition tgt :: "nvmev_proc_info \<Rightarrow> nat \<Rightarrow> nat" where "tgt pi k = pe_nsecs_target (proc_table pi ! k)"

text \<open>The time an entry is ordered by: all entries that are due count alike.\<close>

definition due_or :: "nvmev_proc_info \<Rightarrow> nat \<Rightarrow> nat" where "due_or pi t = max (proc_io_nsecs pi) t"

text \<open>\<open>fl\<close> is the free list, \<open>il\<close> the list of pending requests: every entry of the table is on exactly one.\<close>

definition lists_ok :: "nvmev_proc_info \<Rightarrow> nat list \<Rightarrow> nat list \<Rightarrow> bool" where
  "lists_ok pi fl il \<longleftrightarrow> length (proc_table pi) = NR_MAX_PARALLEL_IO \<and> distinct (fl @ il) \<and> set (fl @ il) = {..<NR_MAX_PARALLEL_IO}
     \<and> fl \<noteq> [] \<and> free_seq pi = hd fl \<and> free_seq_end pi = last fl \<and> chain (nxt pi) fl
     \<and> io_seq pi = head_or il \<and> (il \<noteq> [] \<longrightarrow> io_seq_end pi = last il) \<and> chain (nxt pi) il \<and> chain (prv pi) (rev il)"

definition in_order :: "nvmev_proc_info \<Rightarrow> nat list \<Rightarrow> bool" where
  "in_order pi il \<longleftrightarrow> sorted (map (\<lambda>k. due_or pi (tgt pi k)) il)"

text \<open>Where a request with target \<open>t\<close> goes: behind the last entry that is not later.\<close>

definition later :: "nvmev_proc_info \<Rightarrow> nat \<Rightarrow> nat \<Rightarrow> bool" where
  "later pi t k \<longleftrightarrow> due_or pi t < due_or pi (tgt pi k)"

definition before :: "nvmev_proc_info \<Rightarrow> nat \<Rightarrow> nat list \<Rightarrow> nat list" where
  "before pi t il = rev (dropWhile (later pi t) (rev il))"

definition behind :: "nvmev_proc_info \<Rightarrow> nat \<Rightarrow> nat list \<Rightarrow> nat list" where
  "behind pi t il = rev (takeWhile (later pi t) (rev il))"

lemma before_behind: "before pi t il @ behind pi t il = il"
  unfolding before_def behind_def by (metis rev_append rev_rev_ident takeWhile_dropWhile_id)

lemma last_before: "before pi t il \<noteq> [] \<Longrightarrow> \<not> later pi t (last (before pi t il))"
  unfolding before_def by (simp add: last_rev hd_dropWhile)

lemma behind_later: "k \<in> set (behind pi t il) \<Longrightarrow> later pi t k"
  unfolding behind_def by (auto dest: set_takeWhileD)

lemma chain_Nil [simp]: "chain nx []"
  by (simp add: chain_def)

lemma chain_append:
  "chain nx (xs @ ys) \<longleftrightarrow> (if ys = [] then chain nx xs
     else successively (\<lambda>a b. nx a = b) xs \<and> (xs \<noteq> [] \<longrightarrow> nx (last xs) = hd ys) \<and> chain nx ys)"
  by (cases "ys = []") (auto simp: chain_def successively_append_iff)

lemma chain_Cons: "chain nx (x # xs) \<longleftrightarrow> nx x = head_or xs \<and> chain nx xs"
  by (cases xs) (auto simp: chain_def head_or_def)

lemma chain_next:
  assumes "chain nx (xs @ x # ys)"
  shows "nx x = head_or ys"
  using assms by (cases xs) (auto simp: chain_append chain_Cons split: if_splits)

lemma successively_links_cong:
  assumes "\<And>k. k \<in> set (butlast xs) \<Longrightarrow> nx' k = nx k"
  shows "successively (\<lambda>a b. nx' a = b) xs \<longleftrightarrow> successively (\<lambda>a b. nx a = b) xs"
  using assms
proof (induction xs)
  case (Cons x xs)
  then show ?case by (cases xs) auto
qed simp

lemma chain_cong: "(\<And>k. k \<in> set xs \<Longrightarrow> nx' k = nx k) \<Longrightarrow> chain nx' xs \<longleftrightarrow> chain nx xs"
  unfolding chain_def using successively_links_cong [of xs nx' nx] in_set_butlastD [of _ xs] by auto

text \<open>Splicing an entry into a chain.\<close>

lemma chain_insert:
  assumes "chain nx (xs @ ys)" and "distinct (xs @ e # ys)"
    and "nx' e = head_or ys" and "xs \<noteq> [] \<Longrightarrow> nx' (last xs) = e" and "\<And>k. k \<in> set (butlast xs @ ys) \<Longrightarrow> nx' k = nx k"
  shows "chain nx' (xs @ e # ys)"
proof -
  have "chain nx ys" using assms(1) by (auto simp: chain_append split: if_splits)
  then have ys: "chain nx' ys" using assms(5) chain_cong [of ys nx' nx] by auto
  have "successively (\<lambda>a b. nx a = b) xs" using assms(1) by (simp add: chain_def successively_append_iff)
  then have "successively (\<lambda>a b. nx' a = b) xs" using assms(5) successively_links_cong [of xs nx' nx] by auto
  then show ?thesis using assms(3,4) ys by (simp add: chain_append chain_Cons)
qed

lemma chain_splice:
  assumes "chain nx (xs @ ys)" and "distinct (xs @ e # ys)"
    and "\<And>k. nx' k = (if k = e then head_or ys else if xs \<noteq> [] \<and> k = last xs then e else nx k)"
  shows "chain nx' (xs @ e # ys)"
proof (rule chain_insert [OF assms(1,2)])
  show "nx' (last xs) = e" if "xs \<noteq> []" using that assms(2,3) by (cases xs rule: rev_cases) auto
  show "nx' k = nx k" if "k \<in> set (butlast xs @ ys)" for k
    using that assms(2,3) by (cases xs rule: rev_cases) auto
qed (simp add: assms(3))

text \<open>What an entry holds besides its links.\<close>

definition payload :: "nvmev_proc_table \<Rightarrow> nvmev_proc_table" where
  "payload e = e\<lparr> pe_next := 0, pe_prev := 0 \<rparr>"

definition requests :: "nvmev_proc_info \<Rightarrow> nat list \<Rightarrow> nvmev_proc_table list" where
  "requests pi il = map (\<lambda>k. payload (proc_table pi ! k)) il"

lemma payload_fields [simp]:
  "pe_nsecs_target (payload e) = pe_nsecs_target e" "is_completed (payload e) = is_completed e" "is_copied (payload e) = is_copied e"
  "payload (e\<lparr> pe_next := n \<rparr>) = payload e" "payload (e\<lparr> pe_prev := n \<rparr>) = payload e"
  "payload (e\<lparr> pe_prev := p, pe_next := n \<rparr>) = payload e"
  by (cases e; simp add: payload_def)+

lemma payload_target: "payload e = payload e' \<Longrightarrow> pe_nsecs_target e = pe_nsecs_target e'"
  by (metis payload_fields(1))

lemma on_pe_Some:
  "k < length (proc_table pi) \<Longrightarrow> on_pe pi k f = Some (pi\<lparr> proc_table := (proc_table pi)[k := f (proc_table pi ! k)] \<rparr>)"
  by (simp add: on_pe_def arr_get_def arr_set_def)

lemma NIL_not_index: "k < NR_MAX_PARALLEL_IO \<Longrightarrow> k \<noteq> NIL"
  by (simp add: NR_MAX_PARALLEL_IO_def NIL_def)

lemma NIL_too_big [simp]: "\<not> NIL < NR_MAX_PARALLEL_IO"
  by (simp add: NR_MAX_PARALLEL_IO_def NIL_def)

lemma later_iff: "later pi t k \<longleftrightarrow> \<not> (tgt pi k \<le> proc_io_nsecs pi) \<and> \<not> (tgt pi k \<le> t)"
  by (auto simp: later_def due_or_def)

lemma head_or_simps [simp]: "head_or [] = NIL" "head_or (x # xs) = x"
  by (simp_all add: head_or_def)

text \<open>The search from the end stops at the last entry that is not later.\<close>

lemma io_walk_stop:
  assumes "chain (prv pi) rl" and "set rl \<subseteq> {..<NR_MAX_PARALLEL_IO}" and "length (proc_table pi) = NR_MAX_PARALLEL_IO"
  shows "io_walk pi t (head_or rl) = Some (head_or (dropWhile (later pi t) rl))"
  using assms(1,2)
proof (induction rl)
  case Nil
  then show ?case by (subst io_walk.simps) simp
next
  case (Cons k rl)
  then have k: "k < NR_MAX_PARALLEL_IO" "k \<noteq> NIL" "pe_prev (proc_table pi ! k) = head_or rl"
    by (auto simp: NIL_not_index chain_Cons prv_def)
  have IH: "io_walk pi t (head_or rl) = Some (head_or (dropWhile (later pi t) rl))" using Cons by (simp add: chain_Cons)
  show ?case using k IH assms(3)
    by (subst io_walk.simps) (auto simp: arr_get_def later_iff tgt_def)
qed

lemma io_link_effect:
  fixes t :: nat
  assumes "length (proc_table pi) = NR_MAX_PARALLEL_IO" and "distinct (entry # il)" and "set (entry # il) \<subseteq> {..<NR_MAX_PARALLEL_IO}"
    and "io_seq pi = head_or il" and "il \<noteq> [] \<Longrightarrow> io_seq_end pi = last il" and "chain (nxt pi) il" and "chain (prv pi) (rev il)"
    and "nxt pi entry = NIL" and "prv pi entry = NIL"
  defines "bs \<equiv> before pi t il" and "hs \<equiv> behind pi t il"
  obtains pi' where "io_link pi entry t = Some pi'" "length (proc_table pi') = NR_MAX_PARALLEL_IO"
    "\<And>k. nxt pi' k = (if k = entry then head_or hs else if bs \<noteq> [] \<and> k = last bs then entry else nxt pi k)"
    "\<And>k. prv pi' k = (if k = entry then head_or (rev bs) else if hs \<noteq> [] \<and> k = hd hs then entry else prv pi k)"
    "\<And>k. payload (proc_table pi' ! k) = payload (proc_table pi ! k)"
    "io_seq pi' = head_or (bs @ entry # hs)" "io_seq_end pi' = last (bs @ entry # hs)"
    "free_seq pi' = free_seq pi" "free_seq_end pi' = free_seq_end pi" "proc_io_nsecs pi' = proc_io_nsecs pi" "pi_id pi' = pi_id pi"
proof -
  have split: "bs @ hs = il" unfolding bs_def hs_def by (rule before_behind)
  show ?thesis
  proof (cases "il = []")
    case True
    then show ?thesis using split assms(1,4,8,9) that [of "pi\<lparr> io_seq := entry, io_seq_end := entry \<rparr>"]
      by (simp add: io_link_def nxt_def prv_def)
  next
    case False
    have lastNIL: "io_seq pi \<noteq> NIL" using False assms(3,4) by (cases il) (auto simp: NIL_not_index)
    have walk: "io_walk pi t (io_seq_end pi) = Some (head_or (rev bs))"
      using io_walk_stop [of pi "rev il" t] assms(1,3,5,7) False
      by (simp add: bs_def before_def head_or_def hd_rev)
    show ?thesis
    proof (cases "bs = []")
      case True
      then have hs: "hs = il" "hs \<noteq> []" "hd hs < NR_MAX_PARALLEL_IO" "hd hs \<noteq> entry" using split False assms(2,3) by (auto dest: hd_in_set)
      define pi' where "pi' = pi\<lparr> proc_table := (proc_table pi)[io_seq pi := (proc_table pi ! io_seq pi)\<lparr> pe_prev := entry \<rparr>,
        entry := (proc_table pi ! entry)\<lparr> pe_next := io_seq pi \<rparr>], io_seq := entry \<rparr>"
      have seq: "io_seq pi = hd hs" using hs assms(4) by (simp add: head_or_def)
      have "io_link pi entry t = Some pi'"
        using lastNIL walk True hs seq assms(1,3) by (simp add: io_link_def on_pe_Some pi'_def)
      then show ?thesis using True hs seq assms(1,3,5,9)
        by (intro that [of pi']) (auto simp: pi'_def nxt_def prv_def nth_list_update head_or_def)
    next
      case False
      then obtain b0 c where bs: "bs = b0 @ [c]" by (cases bs rule: rev_cases) auto
      have c: "c < NR_MAX_PARALLEL_IO" "c \<noteq> entry" "c \<noteq> NIL" "entry < NR_MAX_PARALLEL_IO"
        using split [symmetric] assms(2,3) bs NIL_too_big by (auto simp del: NIL_too_big)
      have nc: "nxt pi c = head_or hs"
        using chain_next [of "nxt pi" b0 c hs] assms(6) split bs by simp
      show ?thesis
      proof (cases hs)
        case Nil
        define pi' where "pi' = pi\<lparr> proc_table := (proc_table pi)[entry := (proc_table pi ! entry)\<lparr> pe_prev := c \<rparr>,
          c := (proc_table pi ! c)\<lparr> pe_next := entry \<rparr>], io_seq_end := entry \<rparr>"
        have "io_link pi entry t = Some pi'"
          using lastNIL walk c nc Nil bs assms(1) by (simp add: io_link_def on_pe_Some pi'_def arr_get_def nxt_def)
        then show ?thesis
        proof (rule that [of pi'])
          show "io_seq pi' = head_or (bs @ entry # hs)" using assms(4) split [symmetric] Nil bs by (cases b0) (simp_all add: pi'_def head_or_def)
          show "nxt pi' k = (if k = entry then head_or hs else if bs \<noteq> [] \<and> k = last bs then entry else nxt pi k)" for k
            using Nil bs c assms(1,8) by (simp add: pi'_def nxt_def nth_list_update)
          show "prv pi' k = (if k = entry then head_or (rev bs) else if hs \<noteq> [] \<and> k = hd hs then entry else prv pi k)" for k
            using Nil bs c assms(1) by (simp add: pi'_def prv_def nth_list_update)
          show "payload (proc_table pi' ! k) = payload (proc_table pi ! k)" for k
            using c assms(1) by (simp add: pi'_def nth_list_update)
        qed (simp_all add: pi'_def Nil assms(1))
      next
        case (Cons h h0)
        have h: "h < NR_MAX_PARALLEL_IO" "h \<noteq> NIL" "h \<noteq> entry" "h \<noteq> c"
          using split [symmetric] assms(2,3) Cons bs NIL_too_big by (auto simp del: NIL_too_big)
        define pi' where "pi' = pi\<lparr> proc_table := (proc_table pi)[entry := (proc_table pi ! entry)\<lparr> pe_prev := c, pe_next := h \<rparr>,
          h := (proc_table pi ! h)\<lparr> pe_prev := entry \<rparr>, c := (proc_table pi ! c)\<lparr> pe_next := entry \<rparr>] \<rparr>"
        have "io_link pi entry t = Some pi'"
          using lastNIL walk c nc h Cons bs assms(1)
          by (simp add: io_link_def on_pe_Some pi'_def arr_get_def nxt_def)
        then show ?thesis
        proof (rule that [of pi'])
          show "io_seq pi' = head_or (bs @ entry # hs)" using assms(4) split [symmetric] Cons bs by (cases b0) (simp_all add: pi'_def head_or_def)
          show "io_seq_end pi' = last (bs @ entry # hs)" using assms(5) split [symmetric] Cons bs by (simp add: pi'_def)
          show "nxt pi' k = (if k = entry then head_or hs else if bs \<noteq> [] \<and> k = last bs then entry else nxt pi k)" for k
            using Cons bs c h assms(1) by (simp add: pi'_def nxt_def nth_list_update)
          show "prv pi' k = (if k = entry then head_or (rev bs) else if hs \<noteq> [] \<and> k = hd hs then entry else prv pi k)" for k
            using Cons bs c h assms(1) by (simp add: pi'_def prv_def nth_list_update)
          show "payload (proc_table pi' ! k) = payload (proc_table pi ! k)" for k
            using c h assms(1) by (simp add: pi'_def nth_list_update)
        qed (simp_all add: pi'_def assms(1))
      qed
    qed
  qed
qed

text \<open>The abstract operation: a new request goes behind the last one whose time is not later, where all times
  that the worker has passed count alike.\<close>

definition passes :: "nat \<Rightarrow> nat \<Rightarrow> nvmev_proc_table \<Rightarrow> bool" where
  "passes p t r \<longleftrightarrow> max p t < max p (pe_nsecs_target r)"

definition insert_request :: "nat \<Rightarrow> nvmev_proc_table \<Rightarrow> nvmev_proc_table list \<Rightarrow> nvmev_proc_table list" where
  "insert_request p r rs = rev (dropWhile (passes p (pe_nsecs_target r)) (rev rs)) @ r # rev (takeWhile (passes p (pe_nsecs_target r)) (rev rs))"

abbreviation by_time :: "nat \<Rightarrow> nvmev_proc_table list \<Rightarrow> bool" where
  "by_time p rs \<equiv> sorted (map (\<lambda>r. max p (pe_nsecs_target r)) rs)"

lemma insert_request_by_time:
  assumes "by_time p rs"
  shows "by_time p (insert_request p r rs)"
proof -
  define P where "P = passes p (pe_nsecs_target r)"
  define bs hs where "bs = rev (dropWhile P (rev rs))" and "hs = rev (takeWhile P (rev rs))"
  have rs: "rs = bs @ hs" unfolding bs_def hs_def by (metis rev_append rev_rev_ident takeWhile_dropWhile_id)
  have hs: "P e" if "e \<in> set hs" for e using that by (auto simp: hs_def dest: set_takeWhileD)
  have bs: "max p (pe_nsecs_target e) \<le> max p (pe_nsecs_target r)" if "e \<in> set bs" for e
  proof -
    have ne: "bs \<noteq> []" using that by auto
    then have "\<not> P (last bs)" using hd_dropWhile [of P "rev rs"] by (simp add: bs_def last_rev)
    moreover have "max p (pe_nsecs_target e) \<le> max p (pe_nsecs_target (last bs))"
    proof -
      obtain b0 c where b: "bs = b0 @ [c]" using ne by (cases bs rule: rev_cases) auto
      have "by_time p bs" using assms rs by (simp add: sorted_append)
      then show ?thesis using that b by (auto simp: sorted_append)
    qed
    ultimately show ?thesis unfolding P_def passes_def by linarith
  qed
  have "by_time p bs" "by_time p hs" using assms rs by (simp_all add: sorted_append)
  then have "by_time p (bs @ r # hs)"
    using bs hs by (fastforce simp: sorted_append P_def passes_def)
  then show ?thesis by (simp add: insert_request_def bs_def hs_def P_def)
qed

lemma in_order_requests: "in_order pi il \<longleftrightarrow> by_time (proc_io_nsecs pi) (requests pi il)"
  by (simp add: in_order_def requests_def due_or_def tgt_def comp_def)

lemma later_passes: "later pi t = (\<lambda>k. passes (proc_io_nsecs pi) t (payload (proc_table pi ! k)))"
  by (simp add: fun_eq_iff later_def passes_def due_or_def tgt_def)

lemma requests_split:
  "map (\<lambda>k. payload (proc_table pi ! k)) (before pi t il) = rev (dropWhile (passes (proc_io_nsecs pi) t) (rev (requests pi il)))"
  "map (\<lambda>k. payload (proc_table pi ! k)) (behind pi t il) = rev (takeWhile (passes (proc_io_nsecs pi) t) (rev (requests pi il)))"
  by (simp_all add: before_def behind_def requests_def rev_map dropWhile_map takeWhile_map comp_def later_passes)

lemma before_behind_cong:
  assumes "\<And>k. k \<in> set il \<Longrightarrow> later pi' t k \<longleftrightarrow> later pi t k"
  shows "before pi' t il = before pi t il" and "behind pi' t il = behind pi t il"
  unfolding before_def behind_def using assms
  by (auto intro!: arg_cong [where f = rev] dropWhile_cong takeWhile_cong)

lemma io_insert_effect:
  assumes ok: "lists_ok pi fl il" and two: "2 \<le> length fl" and fill: "\<And>e. pe_nsecs_target (fill e) = t"
  obtains pi' where "io_insert pi fill t = Some (True, pi')" "lists_ok pi' (tl fl) (before pi t il @ hd fl # behind pi t il)"
    "requests pi' (before pi t il @ hd fl # behind pi t il) = insert_request (proc_io_nsecs pi) (payload (fill (proc_table pi ! hd fl))) (requests pi il)"
    "proc_io_nsecs pi' = proc_io_nsecs pi" "pi_id pi' = pi_id pi"
proof -
  obtain f g fl' where fl: "fl = f # g # fl'" using two by (cases fl; cases "tl fl") auto
  have idx: "set (fl @ il) = {..<NR_MAX_PARALLEL_IO}" and len: "length (proc_table pi) = NR_MAX_PARALLEL_IO" using ok by (simp_all add: lists_ok_def)
  have fg: "f < NR_MAX_PARALLEL_IO" "g < NR_MAX_PARALLEL_IO" "nxt pi f = g" "free_seq pi = f" "f \<notin> set il" "f \<notin> set (g # fl')"
    and sub: "set il \<subseteq> {..<NR_MAX_PARALLEL_IO}"
    using ok fl idx by (auto simp: lists_ok_def chain_Cons)
  define pi1 where "pi1 = pi\<lparr> free_seq := g, proc_table := (proc_table pi)[f := (fill (proc_table pi ! f))\<lparr> pe_prev := NIL, pe_next := NIL \<rparr>] \<rparr>"
  have n1: "nxt pi1 k = (if k = f then NIL else nxt pi k)" "prv pi1 k = (if k = f then NIL else prv pi k)"
    "tgt pi1 k = (if k = f then t else tgt pi k)"
    "payload (proc_table pi1 ! k) = (if k = f then payload (fill (proc_table pi ! f)) else payload (proc_table pi ! k))" for k
    using fg len fill by (simp_all add: pi1_def nxt_def prv_def tgt_def nth_list_update)
  have s1: "length (proc_table pi1) = NR_MAX_PARALLEL_IO" "io_seq pi1 = io_seq pi" "io_seq_end pi1 = io_seq_end pi" "free_seq pi1 = g"
    "free_seq_end pi1 = free_seq_end pi" "proc_io_nsecs pi1 = proc_io_nsecs pi" "pi_id pi1 = pi_id pi"
    using len by (simp_all add: pi1_def)
  have bb: "before pi1 t il = before pi t il" "behind pi1 t il = behind pi t il"
    using fg(5) by (intro before_behind_cong; metis later_def due_or_def n1(3) s1(6))+
  define bs hs where "bs = before pi t il" and "hs = behind pi t il"
  have il: "il = bs @ hs" by (simp add: bs_def hs_def before_behind)
  have ch: "chain (nxt pi) il" "chain (prv pi) (rev il)" "chain (nxt pi) (g # fl')" "distinct il" "io_seq pi = head_or il" "il \<noteq> [] \<Longrightarrow> io_seq_end pi = last il"
    "free_seq_end pi = last (g # fl')" "distinct (g # fl')" "set (g # fl') \<inter> set il = {}"
    using ok fl by (auto simp: lists_ok_def chain_Cons)
  have k1: "nxt pi1 k = nxt pi k" "prv pi1 k = prv pi k" if "k \<noteq> f" for k using that n1 by simp_all
  have c1: "chain (nxt pi1) il" by (rule chain_cong [THEN iffD2, OF _ ch(1)]) (metis fg(5) k1(1))
  have c2: "chain (prv pi1) (rev il)" by (rule chain_cong [THEN iffD2, OF _ ch(2)]) (metis fg(5) k1(2) set_rev)
  obtain pi' where link: "io_link pi1 f t = Some pi'" "length (proc_table pi') = NR_MAX_PARALLEL_IO"
    "\<And>k. nxt pi' k = (if k = f then head_or hs else if bs \<noteq> [] \<and> k = last bs then f else nxt pi1 k)"
    "\<And>k. prv pi' k = (if k = f then head_or (rev bs) else if hs \<noteq> [] \<and> k = hd hs then f else prv pi1 k)"
    "\<And>k. payload (proc_table pi' ! k) = payload (proc_table pi1 ! k)"
    "io_seq pi' = head_or (bs @ f # hs)" "io_seq_end pi' = last (bs @ f # hs)"
    "free_seq pi' = g" "free_seq_end pi' = free_seq_end pi" "proc_io_nsecs pi' = proc_io_nsecs pi" "pi_id pi' = pi_id pi"
    using io_link_effect [of pi1 f il t] ch s1 c1 c2 n1 fg sub unfolding bb bs_def hs_def by auto
  have d: "distinct (bs @ f # hs)" using ch(4) fg(5) il by auto
  have free: "chain (nxt pi') (g # fl')"
  proof (rule chain_cong [THEN iffD2, OF _ ch(3)])
    fix k assume "k \<in> set (g # fl')"
    then have "k \<noteq> f" "bs \<noteq> [] \<Longrightarrow> k \<noteq> last bs" using fg(6) ch(9) il by (auto dest: last_in_set)
    then show "nxt pi' k = nxt pi k" using link(3) k1 by metis
  qed
  have "chain (nxt pi') (bs @ f # hs)"
    by (rule chain_splice [of "nxt pi1"]) (use c1 d il link(3) in auto)
  moreover have "chain (prv pi') (rev hs @ f # rev bs)"
    by (rule chain_splice [of "prv pi1"]) (use c2 d il link(4) in \<open>auto simp: last_rev\<close>)
  moreover have "set (g # fl') \<union> set (bs @ f # hs) = {..<NR_MAX_PARALLEL_IO}" "distinct (g # fl' @ bs @ f # hs)"
    using idx fl il ch(4,8,9) fg(5,6) by auto
  ultimately have "lists_ok pi' (g # fl') (bs @ f # hs)"
    using link(2,6-9) free ch(7) unfolding lists_ok_def by (simp only: set_append append_assoc) simp
  moreover have "requests pi' (bs @ f # hs) = insert_request (proc_io_nsecs pi) (payload (fill (proc_table pi ! f))) (requests pi il)"
  proof -
    have same: "payload (proc_table pi' ! k) = payload (proc_table pi ! k)" if "k \<in> set bs \<union> set hs" for k
      using that link(5) n1(4) d by auto
    have "requests pi' bs = requests pi bs" "requests pi' hs = requests pi hs" "payload (proc_table pi' ! f) = payload (fill (proc_table pi ! f))"
      using same link(5) n1(4) by (auto simp: requests_def)
    then have "requests pi' (bs @ f # hs) = requests pi bs @ payload (fill (proc_table pi ! f)) # requests pi hs"
      by (simp add: requests_def)
    then show ?thesis unfolding insert_request_def payload_fields(1) fill
      using requests_split [of pi t il] by (simp add: requests_def bs_def hs_def)
  qed
  moreover have "io_insert pi fill t = Some (True, pi')"
    using fg len link(1) by (simp add: io_insert_def arr_get_def nxt_def on_pe_Some pi1_def)
  ultimately show ?thesis using link(10,11) fl that by (simp add: bs_def hs_def)
qed

text \<open>With one free entry left, the request is dropped.\<close>

lemma io_insert_full:
  assumes "lists_ok pi [f] il"
  shows "io_insert pi fill t = Some (False, pi)"
proof -
  have "free_seq pi = f" "nxt pi f = NIL" "f < NR_MAX_PARALLEL_IO" "length (proc_table pi) = NR_MAX_PARALLEL_IO"
    using assms by (auto simp: lists_ok_def chain_Cons)
  then show ?thesis by (simp add: io_insert_def arr_get_def nxt_def NIL_def NR_MAX_PARALLEL_IO_def)
qed

section \<open>Finished requests\<close>

lemma chain_cut:
  assumes "chain nx (xs @ ys)" and "xs \<noteq> []" and "nx' (last xs) = NIL" and "\<And>k. k \<in> set (butlast xs) \<Longrightarrow> nx' k = nx k"
  shows "chain nx' xs"
proof -
  have "successively (\<lambda>a b. nx a = b) xs" using assms(1) by (simp add: chain_def successively_append_iff)
  then show ?thesis using assms successively_links_cong [of xs nx' nx] by (simp add: chain_def)
qed

lemma chain_join:
  assumes "chain nx xs" and "chain nx' ys" and "xs \<noteq> [] \<Longrightarrow> nx' (last xs) = head_or ys" and "\<And>k. k \<in> set (butlast xs) \<Longrightarrow> nx' k = nx k"
  shows "chain nx' (xs @ ys)"
proof -
  have "successively (\<lambda>a b. nx' a = b) xs" using assms successively_links_cong [of xs nx' nx] by (simp add: chain_def)
  then show ?thesis using assms(1-3)
    by (cases "xs = []"; cases "ys = []") (simp_all add: head_or_def chain_def successively_append_iff)
qed

definition finished :: "nvmev_proc_info \<Rightarrow> nat \<Rightarrow> bool" where
  "finished pi k \<longleftrightarrow> reclaimable pi (proc_table pi ! k)"

lemma reclaim_scan_stop:
  assumes "chain (nxt pi) il" and "set il \<subseteq> {..<NR_MAX_PARALLEL_IO}" and "length (proc_table pi) = NR_MAX_PARALLEL_IO"
  shows "reclaim_scan pi le (head_or il) = Some (if takeWhile (finished pi) il = [] then le else last (takeWhile (finished pi) il))"
  using assms(1,2)
proof (induction il arbitrary: le)
  case Nil
  then show ?case by (subst reclaim_scan.simps) simp
next
  case (Cons k il)
  then have k: "k < NR_MAX_PARALLEL_IO" "k \<noteq> NIL" "pe_next (proc_table pi ! k) = head_or il"
    by (auto simp: NIL_not_index chain_Cons nxt_def)
  have IH: "reclaim_scan pi le (head_or il) = Some (if takeWhile (finished pi) il = [] then le else last (takeWhile (finished pi) il))" for le
    using Cons by (simp add: chain_Cons)
  show ?case using k IH assms(3)
    by (subst reclaim_scan.simps) (auto simp: arr_get_def finished_def)
qed

lemma reclaim_info_effect:
  assumes ok: "lists_ok pi fl il"
  defines "ds \<equiv> takeWhile (finished pi) il" and "rs \<equiv> dropWhile (finished pi) il"
  obtains pi' where "reclaim_info pi = Some pi'" "lists_ok pi' (fl @ ds) rs" "requests pi' rs = requests pi rs"
    "proc_io_nsecs pi' = proc_io_nsecs pi" "pi_id pi' = pi_id pi"
proof -
  have il: "il = ds @ rs" by (simp add: ds_def rs_def)
  have len: "length (proc_table pi) = NR_MAX_PARALLEL_IO" and idx: "set (fl @ il) = {..<NR_MAX_PARALLEL_IO}" and dist: "distinct (fl @ il)"
    and fe: "fl \<noteq> []" "free_seq_end pi = last fl" "chain (nxt pi) fl" and ch: "chain (nxt pi) il" "chain (prv pi) (rev il)" "io_seq pi = head_or il"
    using ok by (simp_all add: lists_ok_def)
  have scan: "reclaim_scan pi NIL (io_seq pi) = Some (if ds = [] then NIL else last ds)"
    unfolding ds_def ch(3) by (rule reclaim_scan_stop) (use ch(1) idx len in auto)
  show ?thesis
  proof (cases ds rule: rev_cases)
    case Nil
    then show ?thesis using scan ok il by (intro that [of pi]) (simp_all add: reclaim_info_def)
  next
    case (snoc d0 l)
    obtain f0 fx where fl: "fl = f0 @ [fx]" using fe by (cases fl rule: rev_cases) auto
    define h where "h = hd ds"
    have h: "head_or il = h" "h \<in> set ds" using snoc il by (auto simp: h_def head_or_def hd_append)
    have all: "set (fl @ ds @ rs) = {..<NR_MAX_PARALLEL_IO}" "distinct (fl @ ds @ rs)" using idx dist il by simp_all
    then have lt: "k < NR_MAX_PARALLEL_IO" if "k \<in> set fl \<union> set ds \<union> set rs" for k using that by auto
    have mem: "l \<in> set ds" "fx \<in> set fl" using snoc fl by auto
    have l: "l < NR_MAX_PARALLEL_IO" "h < NR_MAX_PARALLEL_IO" "fx < NR_MAX_PARALLEL_IO" "l \<noteq> NIL" "fx \<noteq> l" "fx \<noteq> h"
      using mem h(2) lt all(2) NIL_not_index by (simp, simp, simp, blast, (auto; fail)+)
    have nl: "nxt pi l = head_or rs" using chain_next [of "nxt pi" d0 l rs] ch(1) il snoc by simp
    define t1 where "t1 = (if rs = [] then proc_table pi else (proc_table pi)[hd rs := (proc_table pi ! hd rs)\<lparr> pe_prev := NIL \<rparr>])"
    define pi' where "pi' = pi\<lparr> io_seq := head_or rs, proc_table := t1[l := (t1 ! l)\<lparr> pe_next := NIL \<rparr>,
      h := (t1[l := (t1 ! l)\<lparr> pe_next := NIL \<rparr>] ! h)\<lparr> pe_prev := fx \<rparr>, fx := (t1 ! fx)\<lparr> pe_next := h \<rparr>], free_seq_end := l \<rparr>"
    have r: "hd rs < NR_MAX_PARALLEL_IO" "hd rs \<noteq> NIL" "hd rs \<noteq> l" "hd rs \<noteq> h" "hd rs \<noteq> fx" if "rs \<noteq> []"
    proof -
      have "hd rs \<in> set rs" using that by simp
      then show "hd rs < NR_MAX_PARALLEL_IO" "hd rs \<noteq> NIL" "hd rs \<noteq> l" "hd rs \<noteq> h" "hd rs \<noteq> fx"
        using mem h(2) lt all(2) NIL_not_index by (simp, blast, (auto; fail)+)
    qed
    have "reclaim_info pi = Some pi'"
      using scan snoc h l nl r fe fl len ch(3)
      by (cases "rs = []") (simp_all add: reclaim_info_def on_pe_Some arr_get_def nxt_def pi'_def t1_def head_or_def)
    have nx: "nxt pi' k = (if k = fx then h else if k = l then NIL else nxt pi k)" for k
      using l r len by (auto simp: pi'_def t1_def nxt_def nth_list_update)
    have pv: "prv pi' k = (if k = h then fx else if rs \<noteq> [] \<and> k = hd rs then NIL else prv pi k)" for k
      using l r len by (auto simp: pi'_def t1_def prv_def nth_list_update)
    have pl: "payload (proc_table pi' ! k) = payload (proc_table pi ! k)" for k
      using l r len by (auto simp: pi'_def t1_def nth_list_update)
    have ds: "ds \<noteq> []" "last ds = l" "butlast ds = d0" and bl: "last fl = fx" "butlast fl = f0" using snoc fl by simp_all
    have n1: "chain (nxt pi') ds"
      by (rule chain_cut [of "nxt pi" ds rs]) (use ch(1) il ds nx l(5) mem all(2) fl snoc in auto)
    have n2: "chain (nxt pi') (fl @ ds)"
      by (rule chain_join [of "nxt pi"]) (use fe(3) n1 bl ds nx mem all(2) fl snoc in \<open>auto simp: head_or_def h_def\<close>)
    have "chain (nxt pi) rs" using ch(1) il by (cases "rs = []") (simp_all add: chain_append)
    then have n3: "chain (nxt pi') rs"
      by (rule chain_cong [THEN iffD2, rotated]) (use nx mem all(2) in auto)
    have n4: "chain (prv pi') (rev rs)"
    proof (cases rs)
      case (Cons x xs)
      then show ?thesis
        by (intro chain_cut [of "prv pi" "rev rs" "rev ds"]) (use ch(2) il pv r h(2) all(2) in \<open>auto simp: butlast_append\<close>)
    qed simp
    have fs: "free_seq pi = hd fl" "il \<noteq> [] \<longrightarrow> io_seq_end pi = last il" using ok by (simp_all add: lists_ok_def)
    have "length (proc_table pi') = NR_MAX_PARALLEL_IO" "free_seq pi' = hd (fl @ ds)" "free_seq_end pi' = last (fl @ ds)" "io_seq pi' = head_or rs"
      using len fs(1) fe(1) ds by (simp_all add: pi'_def t1_def)
    moreover have "rs \<noteq> [] \<longrightarrow> io_seq_end pi' = last rs" using fs(2) il by (simp add: pi'_def)
    ultimately have "lists_ok pi' (fl @ ds) rs" unfolding lists_ok_def
      using n2 n3 n4 all fe(1) by (simp only: append_assoc) simp
    then show ?thesis using \<open>reclaim_info pi = Some pi'\<close> pl
      by (intro that [of pi']) (simp_all add: requests_def pi'_def)
  qed
qed

section \<open>Tables in use\<close>

text \<open>No request is completed before its data is copied.\<close>

definition copied_first :: "nvmev_proc_table \<Rightarrow> bool" where
  "copied_first r \<longleftrightarrow> is_copied r \<or> \<not> is_completed r"

definition table_ok :: "nvmev_proc_info \<Rightarrow> bool" where
  "table_ok pi \<longleftrightarrow> (\<exists>fl il. lists_ok pi fl il \<and> in_order pi il \<and> list_all copied_first (requests pi il))"

lemma table_okI: "lists_ok pi fl il \<Longrightarrow> in_order pi il \<Longrightarrow> list_all copied_first (requests pi il) \<Longrightarrow> table_ok pi"
  unfolding table_ok_def by blast

lemma copied_first_payload [simp]: "copied_first (payload e) \<longleftrightarrow> copied_first e"
  by (simp add: copied_first_def)

lemma insert_request_set: "set (insert_request p r rs) = insert r (set rs)"
proof -
  have "set (takeWhile P (rev rs)) \<union> set (dropWhile P (rev rs)) = set rs" for P
    by (metis set_append set_rev takeWhile_dropWhile_id)
  then show ?thesis by (auto simp: insert_request_def)
qed

lemma chain_upt: "(\<And>k. a \<le> k \<Longrightarrow> k < b \<Longrightarrow> nx k = (if Suc k = b then NIL else Suc k)) \<Longrightarrow> chain nx [a..<b]"
proof (induction "b - a" arbitrary: a)
  case (Suc n)
  then have "[a..<b] = a # [Suc a..<b]" "nx a = head_or [Suc a..<b]" "chain nx [Suc a..<b]"
    by (auto simp: upt_conv_Cons head_or_def)
  then show ?case by (simp add: chain_Cons)
qed simp

lemma init_lists_ok: "lists_ok (init_proc_info idx) [0..<NR_MAX_PARALLEL_IO] []"
proof -
  have pos: "0 < NR_MAX_PARALLEL_IO" by (simp add: NR_MAX_PARALLEL_IO_def)
  have "nxt (init_proc_info idx) k = (if Suc k = NR_MAX_PARALLEL_IO then NIL else Suc k)" if "k < NR_MAX_PARALLEL_IO" for k
    using that by (auto simp: init_proc_info_def nxt_def Let_def nth_list_update)
  then have "chain (nxt (init_proc_info idx)) [0..<NR_MAX_PARALLEL_IO]" by (intro chain_upt) simp
  then show ?thesis using pos by (auto simp: lists_ok_def init_proc_info_def Let_def hd_upt last_upt head_or_def)
qed

lemma init_table_ok: "table_ok (init_proc_info idx)"
  by (rule table_okI [OF init_lists_ok]) (simp_all add: in_order_def requests_def)

text \<open>The worker moves its clock and marks entries; neither touches a link.\<close>

lemma lists_ok_cong:
  assumes "lists_ok pi fl il" and "length (proc_table pi') = length (proc_table pi)" and "\<And>k. nxt pi' k = nxt pi k" and "\<And>k. prv pi' k = prv pi k"
    and "free_seq pi' = free_seq pi" "free_seq_end pi' = free_seq_end pi" "io_seq pi' = io_seq pi" "io_seq_end pi' = io_seq_end pi"
  shows "lists_ok pi' fl il"
proof -
  have "nxt pi' = nxt pi" "prv pi' = prv pi" using assms(3,4) by auto
  then show ?thesis using assms unfolding lists_ok_def by simp
qed

lemma lists_ok_clock: "lists_ok pi fl il \<Longrightarrow> lists_ok (pi\<lparr> proc_io_nsecs := now \<rparr>) fl il"
  by (erule lists_ok_cong) (simp_all add: nxt_def prv_def)

lemma in_order_clock:
  assumes "in_order pi il" and "proc_io_nsecs pi \<le> now"
  shows "in_order (pi\<lparr> proc_io_nsecs := now \<rparr>) il"
proof -
  have "max now t = max now (max (proc_io_nsecs pi) t)" for t using assms(2) by simp
  then have eq: "map (\<lambda>k. max now (tgt pi k)) il = map (max now) (map (\<lambda>k. max (proc_io_nsecs pi) (tgt pi k)) il)" by simp
  have mono: "sorted (map (max now) xs)" if "sorted xs" for xs :: "nat list"
    using that by (induction xs) (auto intro: max.mono)
  have "sorted (map (\<lambda>k. max now (tgt pi k)) il)"
    unfolding eq by (rule mono) (use assms(1) in \<open>simp add: in_order_def due_or_def\<close>)
  then show ?thesis by (simp add: in_order_def due_or_def tgt_def)
qed

lemma lists_ok_mark:
  assumes "lists_ok pi fl il" and "on_pe pi k f = Some pi'" and "\<And>e. pe_next (f e) = pe_next e \<and> pe_prev (f e) = pe_prev e"
  shows "lists_ok pi' fl il"
  by (rule lists_ok_cong [OF assms(1)])
    (use assms(2,3) in \<open>auto simp: on_pe_def arr_get_def arr_set_def nxt_def prv_def nth_list_update split: if_splits bind_splits\<close>)

lemma table_ok_clock: "table_ok pi \<Longrightarrow> proc_io_nsecs pi \<le> now \<Longrightarrow> table_ok (pi\<lparr> proc_io_nsecs := now \<rparr>)"
  unfolding table_ok_def using lists_ok_clock in_order_clock by (fastforce simp: requests_def)

lemma table_ok_mark:
  assumes "table_ok pi" and "on_pe pi k f = Some pi'"
    and "\<And>e. pe_next (f e) = pe_next e \<and> pe_prev (f e) = pe_prev e \<and> pe_nsecs_target (f e) = pe_nsecs_target e"
    and "\<And>e. copied_first e \<Longrightarrow> copied_first (f e)"
  shows "table_ok pi'"
proof -
  obtain fl il where l: "lists_ok pi fl il" "in_order pi il" "list_all copied_first (requests pi il)" using assms(1) by (auto simp: table_ok_def)
  have "copied_first (proc_table pi' ! j)" if "copied_first (proc_table pi ! j)" for j
    using that assms(2,4) by (cases "j = k") (auto simp: on_pe_def arr_get_def arr_set_def split: if_splits bind_splits)
  then have "list_all copied_first (requests pi' il)" using l(3) by (auto simp: requests_def list_all_iff)
  moreover
  have "tgt pi' = tgt pi" "proc_io_nsecs pi' = proc_io_nsecs pi"
    using assms(2,3) by (auto simp: on_pe_def arr_get_def arr_set_def tgt_def nth_list_update fun_eq_iff split: if_splits bind_splits)
  then have "in_order pi' il" using l(2) by (simp add: in_order_def due_or_def)
  ultimately show ?thesis using lists_ok_mark [OF l(1) assms(2)] assms(3) by (auto simp: table_ok_def)
qed

lemma table_ok_insert:
  assumes "table_ok pi" and "\<And>e. pe_nsecs_target (fill e) = t" and "\<And>e. \<not> is_completed (fill e)"
  shows "\<exists>b pi'. io_insert pi fill t = Some (b, pi') \<and> table_ok pi' \<and> proc_io_nsecs pi' = proc_io_nsecs pi"
proof -
  obtain fl il where l: "lists_ok pi fl il" "in_order pi il" "list_all copied_first (requests pi il)" using assms(1) by (auto simp: table_ok_def)
  have ne: "fl \<noteq> []" using l(1) by (simp add: lists_ok_def)
  show ?thesis
  proof (cases "tl fl")
    case Nil
    then have "fl = [hd fl]" using ne by (cases fl) auto
    then show ?thesis using io_insert_full assms(1) l(1) by metis
  next
    case Cons
    then have "2 \<le> length fl" by (cases fl) auto
    then obtain pi' where p: "io_insert pi fill t = Some (True, pi')" "lists_ok pi' (tl fl) (before pi t il @ hd fl # behind pi t il)"
      "requests pi' (before pi t il @ hd fl # behind pi t il) = insert_request (proc_io_nsecs pi) (payload (fill (proc_table pi ! hd fl))) (requests pi il)"
      "proc_io_nsecs pi' = proc_io_nsecs pi"
      using io_insert_effect [of pi fl il fill t] l(1) assms(2) by metis
    have "in_order pi' (before pi t il @ hd fl # behind pi t il)"
      using l(2) p(3,4) insert_request_by_time by (simp add: in_order_requests)
    moreover have "list_all copied_first (requests pi' (before pi t il @ hd fl # behind pi t il))"
      unfolding p(3) list_all_iff insert_request_set using l(3) assms(3) by (simp add: list_all_iff copied_first_def)
    ultimately show ?thesis using p table_okI by metis
  qed
qed

lemma table_ok_reclaim:
  assumes "table_ok pi"
  shows "\<exists>pi'. reclaim_info pi = Some pi' \<and> table_ok pi' \<and> proc_io_nsecs pi' = proc_io_nsecs pi"
proof -
  obtain fl il where l: "lists_ok pi fl il" "in_order pi il" "list_all copied_first (requests pi il)" using assms by (auto simp: table_ok_def)
  obtain pi' where p: "reclaim_info pi = Some pi'" "lists_ok pi' (fl @ takeWhile (finished pi) il) (dropWhile (finished pi) il)"
    "requests pi' (dropWhile (finished pi) il) = requests pi (dropWhile (finished pi) il)" "proc_io_nsecs pi' = proc_io_nsecs pi"
    using reclaim_info_effect [OF l(1)] by metis
  have "requests pi il = requests pi (takeWhile (finished pi) il) @ requests pi (dropWhile (finished pi) il)"
    unfolding requests_def by (metis map_append takeWhile_dropWhile_id)
  then have "in_order pi' (dropWhile (finished pi) il)"
    using l(2) p(3,4) by (simp add: in_order_requests sorted_append)
  moreover have "list_all copied_first (requests pi' (dropWhile (finished pi) il))"
    using l(3) p(3) \<open>requests pi il = _\<close> by simp
  ultimately show ?thesis using p table_okI by metis
qed

section \<open>A pass of the worker\<close>

text \<open>What a visit at time \<open>now\<close> does to an entry.\<close>

definition visited :: "nat \<Rightarrow> nvmev_proc_table \<Rightarrow> nvmev_proc_table" where
  "visited now e = (if is_completed e then e else e\<lparr> is_copied := True, is_completed := pe_nsecs_target e \<le> now \<rparr>)"

lemma visited_reclaimable:
  "pe_nsecs_target e \<le> t \<Longrightarrow> t \<le> proc_io_nsecs pi \<Longrightarrow> copied_first e \<Longrightarrow> reclaimable pi (visited t e)"
  by (auto simp: reclaimable_def visited_def copied_first_def)

lemma do_perform_io_tables: "do_perform_io d c = Some d' \<Longrightarrow> proc_infos d' = proc_infos d \<and> nr_io_cpu d' = nr_io_cpu d"
  by (auto simp: do_perform_io_def split: bind_splits)

lemma fill_cq_result_tables: "fill_cq_result d e = Some d' \<Longrightarrow> proc_infos d' = proc_infos d \<and> nr_io_cpu d' = nr_io_cpu d"
  by (auto simp: fill_cq_result_def split: bind_splits)

lemma on_worker_Some:
  "w < length (proc_infos d) \<Longrightarrow> k < length (proc_table (proc_infos d ! w)) \<Longrightarrow>
   on_worker d w k f = Some (d\<lparr> proc_infos := (proc_infos d)[w := (proc_infos d ! w)\<lparr> proc_table := (proc_table (proc_infos d ! w))[k := f (proc_table (proc_infos d ! w) ! k)] \<rparr>] \<rparr>)"
  by (simp add: on_worker_def arr_get_def on_pe_Some)

lemma copy_entry_effect:
  assumes "copy_entry w cur e d = Some d'" and "w < length (proc_infos d)" and "cur < length (proc_table (proc_infos d ! w))"
    and "e = proc_table (proc_infos d ! w) ! cur"
  shows "nr_io_cpu d' = nr_io_cpu d"
    "proc_infos d' = (proc_infos d)[w := (proc_infos d ! w)\<lparr> proc_table := (proc_table (proc_infos d ! w))[cur := e\<lparr> is_copied := True \<rparr>] \<rparr>]"
proof -
  have same: "proc_infos d2 = proc_infos d \<and> nr_io_cpu d2 = nr_io_cpu d"
    if "(if writeback_cmd e then Some d else do { c \<leftarrow> sq_command d (pe_sqid e) (pe_sq_entry e); do_perform_io d c }) = Some d2" for d2
    using that by (auto split: if_splits bind_splits dest: do_perform_io_tables)
  have id: "e\<lparr> is_copied := True \<rparr> = e" if "is_copied e" using that by (cases e) simp
  have "nr_io_cpu d' = nr_io_cpu d \<and>
    proc_infos d' = (proc_infos d)[w := (proc_infos d ! w)\<lparr> proc_table := (proc_table (proc_infos d ! w))[cur := e\<lparr> is_copied := True \<rparr>] \<rparr>]"
  proof (cases "is_copied e")
    case True
    have "(proc_table (proc_infos d ! w))[cur := e\<lparr> is_copied := True \<rparr>] = proc_table (proc_infos d ! w)"
      using id [OF True] unfolding assms(4) by (simp only: list_update_id)
    then show ?thesis using assms(1) True by (simp add: copy_entry_def)
  next
    case False
    then obtain d2 where "(if writeback_cmd e then Some d else do { c \<leftarrow> sq_command d (pe_sqid e) (pe_sq_entry e); do_perform_io d c }) = Some d2"
      and "on_worker d2 w cur (\<lambda>e. e\<lparr> is_copied := True \<rparr>) = Some d'"
      using assms(1) unfolding copy_entry_def by (simp only: if_True not_False_eq_True bind_eq_Some_conv) blast
    then show ?thesis using same [of d2] assms(2-4) on_worker_Some [of w d2 cur] by auto
  qed
  then show "nr_io_cpu d' = nr_io_cpu d" and
    "proc_infos d' = (proc_infos d)[w := (proc_infos d ! w)\<lparr> proc_table := (proc_table (proc_infos d ! w))[cur := e\<lparr> is_copied := True \<rparr>] \<rparr>]" by simp_all
qed

lemma complete_entry_effect:
  assumes "complete_entry release now w cur e d = Some d'" and "w < length (proc_infos d)" and "cur < length (proc_table (proc_infos d ! w))"
  shows "nr_io_cpu d' = nr_io_cpu d"
    "proc_infos d' = (if pe_nsecs_target e \<le> now
      then (proc_infos d)[w := (proc_infos d ! w)\<lparr> proc_table := (proc_table (proc_infos d ! w))[cur := (proc_table (proc_infos d ! w) ! cur)\<lparr> is_completed := True \<rparr>] \<rparr>]
      else proc_infos d)"
  using assms
  by (auto simp: complete_entry_def on_worker_Some split: if_splits bind_splits dest!: fill_cq_result_tables)

lemma worker_entry_effect:
  assumes "worker_entry release now w cur d = Some d'"
  defines "pi \<equiv> proc_infos d ! w"
  shows "w < length (proc_infos d)" "cur < length (proc_table pi)" "nr_io_cpu d' = nr_io_cpu d"
    "proc_infos d' = (proc_infos d)[w := pi\<lparr> proc_io_nsecs := now, proc_table := (proc_table pi)[cur := visited now (proc_table pi ! cur)] \<rparr>]"
proof -
  show w: "w < length (proc_infos d)" and c: "cur < length (proc_table pi)"
    using assms by (auto simp: worker_entry_def arr_get_def split: bind_splits if_splits)
  define e where "e = proc_table pi ! cur"
  define d1 where "d1 = d\<lparr> proc_infos := (proc_infos d)[w := pi\<lparr> proc_io_nsecs := now \<rparr>] \<rparr>"
  have d1: "proc_infos d1 = (proc_infos d)[w := pi\<lparr> proc_io_nsecs := now \<rparr>]" "nr_io_cpu d1 = nr_io_cpu d"
    by (simp_all add: d1_def)
  have run: "(if is_completed e then Some d1 else do { d \<leftarrow> copy_entry w cur e d1; complete_entry release now w cur e d }) = Some d'"
    using assms(1) w c by (simp add: worker_entry_def arr_get_def d1_def e_def pi_def Let_def split del: if_split cong: if_cong)
  have "nr_io_cpu d' = nr_io_cpu d \<and> proc_infos d' = (proc_infos d)[w := pi\<lparr> proc_io_nsecs := now, proc_table := (proc_table pi)[cur := visited now e] \<rparr>]"
  proof (cases "is_completed e")
    case True
    then have "d' = d1" "visited now e = e" using run by (simp_all add: visited_def)
    then show ?thesis using d1 by (simp add: e_def)
  next
    case False
    obtain d2 where d2: "copy_entry w cur e d1 = Some d2" "complete_entry release now w cur e d2 = Some d'"
      using run False by (auto split: bind_splits)
    have c2: "nr_io_cpu d2 = nr_io_cpu d" "proc_infos d2 = (proc_infos d)[w := pi\<lparr> proc_io_nsecs := now, proc_table := (proc_table pi)[cur := e\<lparr> is_copied := True \<rparr>] \<rparr>]"
      using copy_entry_effect [OF d2(1)] w c d1 by (simp_all add: e_def)
    moreover have "visited now e = (if pe_nsecs_target e \<le> now then e\<lparr> is_copied := True, is_completed := True \<rparr> else e\<lparr> is_copied := True \<rparr>)"
      using False by (cases e) (simp add: visited_def)
    ultimately show ?thesis using complete_entry_effect [OF d2(2)] w c by simp
  qed
  then show "nr_io_cpu d' = nr_io_cpu d"
    and "proc_infos d' = (proc_infos d)[w := pi\<lparr> proc_io_nsecs := now, proc_table := (proc_table pi)[cur := visited now (proc_table pi ! cur)] \<rparr>]"
    by (simp_all add: e_def)
qed

text \<open>The pass visits the entries of the list in order, each at the time read for its round. It ends: a
  visit changes no link.\<close>

lemma worker_pass_visits:
  assumes "chain (nxt (proc_infos d ! w)) il" and "set il \<subseteq> {..<length (proc_table (proc_infos d ! w))}" and "set il \<subseteq> {..<NR_MAX_PARALLEL_IO}"
    and "w < length (proc_infos d)" and "distinct il"
  shows "worker_pass release clock w k (head_or il) d = foldM (\<lambda>(j, cur). worker_entry release (clock j) w cur) (enumerate k il) d"
  using assms
proof (induction il arbitrary: k d)
  case Nil
  then show ?case by (subst worker_pass.simps) simp
next
  case (Cons c il)
  show ?case
  proof (cases "worker_entry release (clock k) w c d")
    case None
    then show ?thesis using Cons.prems(3) NIL_not_index [of c] by (subst worker_pass.simps) simp
  next
    case (Some d')
    note eff = worker_entry_effect [OF Some]
    define pi' where "pi' = proc_infos d' ! w"
    have nx: "nxt pi' = nxt (proc_infos d ! w)" and len: "length (proc_table pi') = length (proc_table (proc_infos d ! w))" "w < length (proc_infos d')"
      using eff by (auto simp: pi'_def nxt_def fun_eq_iff nth_list_update visited_def)
    have "worker_pass release clock w (k + 1) (head_or il) d' = foldM (\<lambda>(j, cur). worker_entry release (clock j) w cur) (enumerate (k + 1) il) d'"
      by (rule Cons.IH) (use Cons.prems nx len in \<open>auto simp: chain_Cons pi'_def\<close>)
    moreover have "pe_next (proc_table pi' ! c) = head_or il"
      using Cons.prems(1) nx by (simp add: chain_Cons nxt_def fun_eq_iff)
    ultimately show ?thesis using Some len eff(2) Cons.prems(3) NIL_not_index [of c]
      by (subst worker_pass.simps) (simp add: arr_get_def pi'_def)
  qed
qed

lemma worker_pass_table:
  assumes "foldM (\<lambda>(j, cur). worker_entry release (clock j) w cur) (enumerate k il) d = Some d'" and "distinct il" and "w < length (proc_infos d)"
  defines "pi \<equiv> proc_infos d ! w" and "pi' \<equiv> proc_infos d' ! w"
  shows "lists_ok pi fl ll \<longrightarrow> lists_ok pi' fl ll"
    and "\<And>i. i < length il \<Longrightarrow> proc_table pi' ! (il ! i) = visited (clock (k + i)) (proc_table pi ! (il ! i))"
    and "\<And>c. c \<notin> set il \<Longrightarrow> proc_table pi' ! c = proc_table pi ! c"
    and "proc_io_nsecs pi' = (if il = [] then proc_io_nsecs pi else clock (k + length il - 1))"
    and "length (proc_infos d') = length (proc_infos d)" and "nr_io_cpu d' = nr_io_cpu d" and "\<And>v. v \<noteq> w \<Longrightarrow> proc_infos d' ! v = proc_infos d ! v"
proof -
  have "(lists_ok pi fl ll \<longrightarrow> lists_ok pi' fl ll) \<and> (\<forall>i < length il. proc_table pi' ! (il ! i) = visited (clock (k + i)) (proc_table pi ! (il ! i)))
    \<and> (\<forall>c. c \<notin> set il \<longrightarrow> proc_table pi' ! c = proc_table pi ! c) \<and> proc_io_nsecs pi' = (if il = [] then proc_io_nsecs pi else clock (k + length il - 1))
    \<and> length (proc_infos d') = length (proc_infos d) \<and> nr_io_cpu d' = nr_io_cpu d \<and> (\<forall>v. v \<noteq> w \<longrightarrow> proc_infos d' ! v = proc_infos d ! v)"
    using assms(1-3) unfolding pi_def pi'_def
  proof (induction il arbitrary: k d)
    case (Cons c il)
    then obtain d1 where d1: "worker_entry release (clock k) w c d = Some d1"
      "foldM (\<lambda>(j, cur). worker_entry release (clock j) w cur) (enumerate (Suc k) il) d1 = Some d'" by (auto split: bind_splits)
    note eff = worker_entry_effect [OF d1(1)]
    have w1: "w < length (proc_infos d1)" using eff by simp
    have l1: "lists_ok (proc_infos d ! w) fl ll \<Longrightarrow> lists_ok (proc_infos d1 ! w) fl ll"
      by (erule lists_ok_cong) (use eff in \<open>auto simp: nxt_def prv_def nth_list_update visited_def\<close>)
    have t1: "proc_table (proc_infos d1 ! w) ! c = visited (clock k) (proc_table (proc_infos d ! w) ! c)"
      "\<And>c'. c' \<noteq> c \<Longrightarrow> proc_table (proc_infos d1 ! w) ! c' = proc_table (proc_infos d ! w) ! c'" "proc_io_nsecs (proc_infos d1 ! w) = clock k"
      "length (proc_infos d1) = length (proc_infos d)" "\<And>v. v \<noteq> w \<Longrightarrow> proc_infos d1 ! v = proc_infos d ! v"
      using eff by simp_all
    note IH = Cons.IH [OF d1(2) _ w1]
    have at: "proc_table (proc_infos d' ! w) ! ((c # il) ! i) = visited (clock (k + i)) (proc_table (proc_infos d ! w) ! ((c # il) ! i))"
      if "i < length (c # il)" for i
    proof (cases i)
      case 0
      then show ?thesis using IH t1 Cons.prems(2) by simp
    next
      case (Suc j)
      then have "il ! j \<noteq> c" using that Cons.prems(2) by auto
      then show ?thesis using IH t1 Cons.prems(2) Suc that by simp
    qed
    show ?case using IH t1 at l1 eff(3) Cons.prems(2) by (cases il) auto
  qed simp
  then show "lists_ok pi fl ll \<longrightarrow> lists_ok pi' fl ll"
    and "\<And>i. i < length il \<Longrightarrow> proc_table pi' ! (il ! i) = visited (clock (k + i)) (proc_table pi ! (il ! i))"
    and "\<And>c. c \<notin> set il \<Longrightarrow> proc_table pi' ! c = proc_table pi ! c"
    and "proc_io_nsecs pi' = (if il = [] then proc_io_nsecs pi else clock (k + length il - 1))"
    and "length (proc_infos d') = length (proc_infos d)" and "nr_io_cpu d' = nr_io_cpu d" and "\<And>v. v \<noteq> w \<Longrightarrow> proc_infos d' ! v = proc_infos d ! v" by blast+
qed

section \<open>The operations of the device\<close>

definition dev_ok :: "'s nvmev_dev \<Rightarrow> bool" where
  "dev_ok d \<longleftrightarrow> 0 < nr_io_cpu d \<and> length (proc_infos d) = nr_io_cpu d \<and> (\<forall>w < nr_io_cpu d. table_ok (proc_infos d ! w))"

lemma get_io_worker_bound:
  assumes "dev_ok d"
  obtains w where "get_io_worker d sqid = Some w" "w < nr_io_cpu d" "w < length (proc_infos d)"
  using assms by (auto simp: get_io_worker_def dev_ok_def)

lemma dev_ok_update:
  fixes d d' :: "'s nvmev_dev"
  assumes "dev_ok d" and "table_ok pi" and "proc_infos d' = (proc_infos d)[w := pi]" and "nr_io_cpu d' = nr_io_cpu d"
  shows "dev_ok d'"
proof -
  have "table_ok (proc_infos d' ! v)" if "v < nr_io_cpu d" for v
    using assms that by (cases "v = w") (simp_all add: dev_ok_def)
  then show ?thesis using assms by (simp add: dev_ok_def)
qed

lemma put_info_Some:
  "w < length (proc_infos d) \<Longrightarrow> put_info d w (b, pi) = Some (d\<lparr> proc_infos := (proc_infos d)[w := pi],
     proc_turn := (if b then (if w + 1 = nr_io_cpu d then 0 else w + 1) else proc_turn d) \<rparr>)"
  by (simp add: put_info_def arr_set_def)

lemma enqueue_writeback_ok:
  assumes "dev_ok d"
  shows "\<exists>d'. enqueue_writeback_io_req now d wb = Some d' \<and> dev_ok d'"
proof -
  obtain w where w: "get_io_worker d (wb_sqid wb) = Some w" "w < nr_io_cpu d" "w < length (proc_infos d)"
    using get_io_worker_bound [OF assms] .
  then have "table_ok (proc_infos d ! w)" using assms by (simp add: dev_ok_def)
  then obtain b pi' where "io_insert (proc_infos d ! w) (fill_writeback now wb) (wb_nsecs_target wb) = Some (b, pi')" "table_ok pi'"
    using table_ok_insert [of "proc_infos d ! w" "fill_writeback now wb" "wb_nsecs_target wb"] by (fastforce simp: fill_writeback_def)
  then show ?thesis using w put_info_Some [of w d b pi'] dev_ok_update [OF assms, of pi' _ w]
    by (auto simp: enqueue_writeback_io_req_def arr_get_def)
qed

lemma enqueue_io_ok:
  assumes "dev_ok d" and "sq_command d sqid sq_entry = Some c"
  shows "\<exists>d'. enqueue_io_req now d sqid cqid sq_entry start ret = Some d' \<and> dev_ok d'"
proof -
  obtain w where w: "get_io_worker d sqid = Some w" "w < nr_io_cpu d" "w < length (proc_infos d)"
    using get_io_worker_bound [OF assms(1)] .
  then have "table_ok (proc_infos d ! w)" using assms by (simp add: dev_ok_def)
  then obtain b pi' where "io_insert (proc_infos d ! w) (fill_io_req sqid cqid sq_entry (command_id c) start now ret) (ret_nsecs_target ret) = Some (b, pi')"
    "table_ok pi'"
    using table_ok_insert [of "proc_infos d ! w" "fill_io_req sqid cqid sq_entry (command_id c) start now ret" "ret_nsecs_target ret"]
    by (fastforce simp: fill_io_req_def)
  then show ?thesis using w assms(2) put_info_Some [of w d b pi'] dev_ok_update [OF assms(1), of pi' _ w]
    by (auto simp: enqueue_io_req_def arr_get_def)
qed

lemma reclaim_ok:
  assumes "dev_ok d"
  shows "\<exists>d'. reclaim_completed_reqs d = Some d' \<and> dev_ok d'"
proof -
  have "\<exists>d'. reclaim_completed_reqs d = Some d' \<and> (dev_ok d' \<and> nr_io_cpu d' = nr_io_cpu d)"
    unfolding reclaim_completed_reqs_def
  proof (rule foldM_total)
    fix turn d1 assume t: "turn \<in> set [0..<nr_io_cpu d]" and d1: "dev_ok d1 \<and> nr_io_cpu d1 = nr_io_cpu d"
    then have w: "turn < length (proc_infos d1)" "table_ok (proc_infos d1 ! turn)" by (auto simp: dev_ok_def)
    then obtain pi' where "reclaim_info (proc_infos d1 ! turn) = Some pi'" "table_ok pi'" using table_ok_reclaim by blast
    then show "\<exists>d2. (do { pi \<leftarrow> arr_get (proc_infos d1) turn; pi \<leftarrow> reclaim_info pi; pis \<leftarrow> arr_set (proc_infos d1) turn pi;
        Some (d1\<lparr> proc_infos := pis \<rparr>) }) = Some d2 \<and> dev_ok d2 \<and> nr_io_cpu d2 = nr_io_cpu d"
      using w d1 dev_ok_update [of d1 pi' _ turn] by (auto simp: arr_get_def arr_set_def)
  qed (use assms in simp)
  then show ?thesis by blast
qed

lemma worker_entry_ok:
  assumes "dev_ok d" and "worker_entry release now w cur d = Some d'" and "proc_io_nsecs (proc_infos d ! w) \<le> now"
  shows "dev_ok d'"
proof -
  note eff = worker_entry_effect [OF assms(2)]
  define pi where "pi = proc_infos d ! w"
  have "table_ok (pi\<lparr> proc_io_nsecs := now \<rparr>)"
    using table_ok_clock assms(1,3) eff(1) by (simp add: pi_def dev_ok_def)
  moreover have "on_pe (pi\<lparr> proc_io_nsecs := now \<rparr>) cur (visited now)
    = Some (pi\<lparr> proc_io_nsecs := now, proc_table := (proc_table pi)[cur := visited now (proc_table pi ! cur)] \<rparr>)"
    using eff(2) by (simp add: on_pe_Some pi_def)
  ultimately have "table_ok (pi\<lparr> proc_io_nsecs := now, proc_table := (proc_table pi)[cur := visited now (proc_table pi ! cur)] \<rparr>)"
    by (rule table_ok_mark) (auto simp: visited_def copied_first_def)
  then show ?thesis using dev_ok_update [OF assms(1)] eff(3,4) by (simp add: pi_def)
qed

text \<open>The states of the tables under the dispatcher and the workers, in any order; the last rule is every other
  step of the device, which leaves the tables alone.\<close>

inductive dev_reach :: "'s nvmev_dev \<Rightarrow> bool" where
  reach_init: "0 < nr_io_cpu d \<Longrightarrow> dev_reach (NVMEV_IO_PROC_INIT d)"
| reach_enqueue: "dev_reach d \<Longrightarrow> enqueue_io_req now d sqid cqid sq_entry start ret = Some d' \<Longrightarrow> dev_reach d'"
| reach_writeback: "dev_reach d \<Longrightarrow> enqueue_writeback_io_req now d wb = Some d' \<Longrightarrow> dev_reach d'"
| reach_reclaim: "dev_reach d \<Longrightarrow> reclaim_completed_reqs d = Some d' \<Longrightarrow> dev_reach d'"
| reach_worker: "dev_reach d \<Longrightarrow> worker_entry release now w cur d = Some d' \<Longrightarrow> proc_io_nsecs (proc_infos d ! w) \<le> now \<Longrightarrow> dev_reach d'"
| reach_other: "dev_reach d \<Longrightarrow> proc_infos d' = proc_infos d \<Longrightarrow> nr_io_cpu d' = nr_io_cpu d \<Longrightarrow> dev_reach d'"

lemma dev_reach_ok: "dev_reach d \<Longrightarrow> dev_ok d"
proof (induction rule: dev_reach.induct)
  case (reach_init d)
  then show ?case using init_table_ok by (simp add: dev_ok_def NVMEV_IO_PROC_INIT_def)
next
  case (reach_enqueue d now sqid cqid sq_entry start ret d')
  moreover obtain c where "sq_command d sqid sq_entry = Some c"
    using reach_enqueue.hyps by (auto simp: enqueue_io_req_def split: bind_splits)
  ultimately show ?case using enqueue_io_ok by (metis option.inject)
next
  case reach_writeback
  then show ?case using enqueue_writeback_ok by (metis option.inject)
next
  case reach_reclaim
  then show ?case using reclaim_ok by (metis option.inject)
next
  case reach_worker
  then show ?case using worker_entry_ok by blast
qed (simp add: dev_ok_def)

section \<open>Properties\<close>

text \<open>A device with one worker and one pair of queues, for the examples.\<close>

definition tiny_cmd :: "nat \<Rightarrow> nat \<Rightarrow> nat \<Rightarrow> nvme_command" where
  "tiny_cmd op p1 p2 = \<lparr> opcode = op, command_id = 9, nsid = 1, prp1 = p1, prp2 = p2, cdw10 = 8, cdw11 = 0, cdw12 = 16, cdw13 = 0 \<rparr>"

definition tiny_dev :: "unit nvmev_dev" where
  "tiny_dev = \<lparr> nr_io_cpu = 1, proc_infos = [init_proc_info 0], proc_turn = 0,
     sqes = [None, Some \<lparr> sq_cqid = 1, sq_size = 2,
       sq_stat = \<lparr> nr_dispatched = 0, nr_dispatch = 0, nr_in_flight = 0, max_nr_in_flight = 0, total_io = 0 \<rparr>,
       sq_cmds = [tiny_cmd nvme_cmd_write 40961 20480, tiny_cmd nvme_cmd_read 16384 20480] \<rparr>],
     cqes = [None, None], dev_ns = (), ns_base = [1048576], dev_storage = (\<lambda>_. 0), dev_storage_size = 2097152, dev_host = tiny_host \<rparr>"

lemma tiny_dev_simps [simp]: "nr_io_cpu tiny_dev = 1" "proc_infos tiny_dev = [init_proc_info 0]" "dev_host tiny_dev = tiny_host"
  "ns_base tiny_dev = [1048576]" "dev_storage_size tiny_dev = 2097152" "proc_io_nsecs (init_proc_info i) = 0"
  "sq_command tiny_dev 1 0 = Some (tiny_cmd nvme_cmd_write 40961 20480)"
  by (simp_all add: tiny_dev_def sq_command_def arr_get_def init_proc_info_def Let_def)

lemma tiny_dev_reach: "dev_reach tiny_dev"
proof -
  have "tiny_dev = NVMEV_IO_PROC_INIT tiny_dev" by (simp add: NVMEV_IO_PROC_INIT_def tiny_dev_def)
  then show ?thesis using reach_init [of tiny_dev] by simp
qed

lemma tiny_dev_lists: "lists_ok (proc_infos tiny_dev ! 0) [0..<NR_MAX_PARALLEL_IO] []"
  by (simp add: init_lists_ok)

lemma parallel_io_many: "2 \<le> NR_MAX_PARALLEL_IO" by (simp add: NR_MAX_PARALLEL_IO_def)

text \<open>C6: Enqueueing a request takes the first entry of the free list of the worker its queue belongs to and puts
  the request into the worker's list as the abstract sorted insertion does: behind the last request that is
  not later, all due ones counting alike, so the list stays in the order of completion times; the lists keep
  their links and nothing else in the device changes but the next-worker hint. With one entry left the
  request is dropped: the device does not change.\<close>

theorem enqueue_io_req_sorted:
  fixes ret :: nvmev_result and now start cqid :: nat
  assumes "get_io_worker d sqid = Some w" and "w < length (proc_infos d)" and "sq_command d sqid sq_entry = Some c"
    and "lists_ok (proc_infos d ! w) fl il"
  defines "r \<equiv> payload (fill_io_req sqid cqid sq_entry (command_id c) start now ret (proc_table (proc_infos d ! w) ! hd fl))"
  shows "if length fl = 1 then enqueue_io_req now d sqid cqid sq_entry start ret = Some d
    else \<exists>pi il' t. enqueue_io_req now d sqid cqid sq_entry start ret = Some (d\<lparr> proc_infos := (proc_infos d)[w := pi], proc_turn := t \<rparr>)
      \<and> lists_ok pi (tl fl) il' \<and> requests pi il' = insert_request (proc_io_nsecs pi) r (requests (proc_infos d ! w) il)
      \<and> proc_io_nsecs pi = proc_io_nsecs (proc_infos d ! w) \<and> (in_order (proc_infos d ! w) il \<longrightarrow> in_order pi il')"
proof (cases "length fl = 1")
  case True
  then obtain f where "fl = [f]" by (cases fl) auto
  then have "io_insert (proc_infos d ! w) fill t = Some (False, proc_infos d ! w)" for fill t using io_insert_full assms(4) by blast
  then show ?thesis using True assms(1-3) by (simp add: enqueue_io_req_def arr_get_def put_info_Some)
next
  case False
  have "fl \<noteq> []" using assms(4) by (simp add: lists_ok_def)
  then have two: "2 \<le> length fl" using False by (cases fl; cases "tl fl") auto
  define fill where "fill = fill_io_req sqid cqid sq_entry (command_id c) start now ret"
  define bs hs where "bs = before (proc_infos d ! w) (ret_nsecs_target ret) il" and "hs = behind (proc_infos d ! w) (ret_nsecs_target ret) il"
  have target: "pe_nsecs_target (fill e) = ret_nsecs_target ret" for e by (simp add: fill_def fill_io_req_def)
  obtain pi where pi: "io_insert (proc_infos d ! w) fill (ret_nsecs_target ret) = Some (True, pi)" "lists_ok pi (tl fl) (bs @ hd fl # hs)"
    "requests pi (bs @ hd fl # hs) = insert_request (proc_io_nsecs (proc_infos d ! w)) (payload (fill (proc_table (proc_infos d ! w) ! hd fl))) (requests (proc_infos d ! w) il)"
    "proc_io_nsecs pi = proc_io_nsecs (proc_infos d ! w)"
    unfolding bs_def hs_def by (rule io_insert_effect [OF assms(4) two target])
  have order: "in_order (proc_infos d ! w) il \<longrightarrow> in_order pi (bs @ hd fl # hs)"
    using pi(3,4) insert_request_by_time by (simp add: in_order_requests)
  have run: "\<exists>t. enqueue_io_req now d sqid cqid sq_entry start ret = Some (d\<lparr> proc_infos := (proc_infos d)[w := pi], proc_turn := t \<rparr>)"
    using pi(1) assms(1-3) by (intro exI [of _ "if w + 1 = nr_io_cpu d then 0 else w + 1"]) (simp add: enqueue_io_req_def arr_get_def put_info_Some fill_def)
  show ?thesis unfolding if_not_P [OF False]
    by (rule exE [OF run], intro exI conjI, assumption, rule pi(2)) (use pi(3,4) order in \<open>simp_all add: r_def fill_def\<close>)
qed

lemma enqueue_io_req_sorted_witness:
  "\<exists>pi il' t. enqueue_io_req 5 tiny_dev 1 1 0 3 \<lparr> ret_status = 0, ret_nsecs_target = 70, ret_early_completion = 0, ret_result = 0 \<rparr>
      = Some (tiny_dev\<lparr> proc_infos := [pi], proc_turn := t \<rparr>)
    \<and> lists_ok pi [1..<NR_MAX_PARALLEL_IO] il' \<and> map pe_nsecs_target (requests pi il') = [70]"
proof -
  let ?ret = "\<lparr> ret_status = 0, ret_nsecs_target = 70, ret_early_completion = 0, ret_result = 0 \<rparr>"
  have w: "get_io_worker tiny_dev 1 = Some 0" by (simp add: get_io_worker_def)
  have "length [0..<NR_MAX_PARALLEL_IO] \<noteq> 1" using parallel_io_many by simp
  then obtain pi il' t where "enqueue_io_req 5 tiny_dev 1 1 0 3 ?ret = Some (tiny_dev\<lparr> proc_infos := (proc_infos tiny_dev)[0 := pi], proc_turn := t \<rparr>)"
    "lists_ok pi (tl [0..<NR_MAX_PARALLEL_IO]) il'"
    "requests pi il' = insert_request (proc_io_nsecs pi) (payload (fill_io_req 1 1 0 9 3 5 ?ret (proc_table (proc_infos tiny_dev ! 0) ! hd [0..<NR_MAX_PARALLEL_IO])))
       (requests (proc_infos tiny_dev ! 0) [])"
    using enqueue_io_req_sorted [OF w _ tiny_dev_simps(7) tiny_dev_lists, where now = 5 and start = 3 and cqid = 1 and ret = ?ret]
    by (auto simp: tiny_cmd_def)
  then show ?thesis by (intro exI [of _ pi] exI [of _ il'] exI [of _ t]) (simp add: requests_def insert_request_def fill_io_req_def)
qed

text \<open>C3: Whatever the dispatcher and the workers do after initialisation, in any order, with clocks that never
  run backwards for a worker, every worker's table stays well formed: each of its entries is on exactly one of the two
  lists, the lists are linked and ended correctly and the pending one is in the order of times. So no step on a table
  ever reads outside it or runs in a cycle: reclaiming, queueing a write-back and queueing a request whose queue and
  entry exist always succeed.\<close>

theorem io_tables_well_formed:
  assumes "dev_reach d"
  shows "length (proc_infos d) = nr_io_cpu d \<and> list_all table_ok (proc_infos d) \<and> reclaim_completed_reqs d \<noteq> None
    \<and> enqueue_writeback_io_req now d wb \<noteq> None
    \<and> (sq_command d sqid sq_entry = None \<or> enqueue_io_req now d sqid cqid sq_entry start ret \<noteq> None)"
proof -
  have ok: "dev_ok d" using assms by (rule dev_reach_ok)
  then have "length (proc_infos d) = nr_io_cpu d" "list_all table_ok (proc_infos d)" by (simp_all add: dev_ok_def list_all_length)
  moreover have "reclaim_completed_reqs d \<noteq> None" "enqueue_writeback_io_req now d wb \<noteq> None"
    using reclaim_ok [OF ok] enqueue_writeback_ok [OF ok] by fastforce+
  moreover have "sq_command d sqid sq_entry = None \<or> enqueue_io_req now d sqid cqid sq_entry start ret \<noteq> None"
    using enqueue_io_ok [OF ok] by fastforce
  ultimately show ?thesis by blast
qed

lemma io_tables_well_formed_witness:
  "table_ok (proc_infos tiny_dev ! 0) \<and> reclaim_completed_reqs tiny_dev \<noteq> None
    \<and> enqueue_io_req 5 tiny_dev 1 1 0 3 \<lparr> ret_status = 0, ret_nsecs_target = 70, ret_early_completion = 0, ret_result = 0 \<rparr> \<noteq> None"
proof -
  let ?ret = "\<lparr> ret_status = 0, ret_nsecs_target = 70, ret_early_completion = 0, ret_result = 0 \<rparr>"
  show ?thesis
    using io_tables_well_formed [OF tiny_dev_reach, where now = 5 and sqid = 1 and sq_entry = 0 and cqid = 1 and start = 3 and ret = ?ret and wb = undefined]
    by (simp add: tiny_dev_simps(7) [unfolded One_nat_def])
qed

text \<open>C4: A pass of a worker over its list ends, whatever the data: it is the visit of each pending request in the
  order of the list, each at the time read for it. If the clock does not run backwards and every request is
  due when visited, then after the pass the reclaiming of that worker takes every entry: the list is empty
  and all of the table is free again, in the old free list followed by the finished requests in order.\<close>

theorem worker_pass_completes_due:
  assumes "w < length (proc_infos d)" and "lists_ok (proc_infos d ! w) fl il" and "list_all copied_first (requests (proc_infos d ! w) il)" and "mono clock"
    and "list_all2 (\<lambda>k t. tgt (proc_infos d ! w) k \<le> t) il (map clock [0..<length il])"
  shows "worker_pass release clock w 0 (io_seq (proc_infos d ! w)) d
      = foldM (\<lambda>(j, cur). worker_entry release (clock j) w cur) (enumerate 0 il) d
    \<and> pred_option (\<lambda>d'. \<exists>pi. reclaim_info (proc_infos d' ! w) = Some pi \<and> lists_ok pi (fl @ il) [])
        (worker_pass release clock w 0 (io_seq (proc_infos d ! w)) d)"
proof
  have il: "io_seq (proc_infos d ! w) = head_or il" "chain (nxt (proc_infos d ! w)) il" "distinct il" "set il \<subseteq> {..<NR_MAX_PARALLEL_IO}"
    "length (proc_table (proc_infos d ! w)) = NR_MAX_PARALLEL_IO"
    using assms(2) by (auto simp: lists_ok_def)
  show pass: "worker_pass release clock w 0 (io_seq (proc_infos d ! w)) d
      = foldM (\<lambda>(j, cur). worker_entry release (clock j) w cur) (enumerate 0 il) d"
    unfolding il(1) by (rule worker_pass_visits) (use il assms(1) in simp_all)
  show "pred_option (\<lambda>d'. \<exists>pi. reclaim_info (proc_infos d' ! w) = Some pi \<and> lists_ok pi (fl @ il) [])
        (worker_pass release clock w 0 (io_seq (proc_infos d ! w)) d)"
  proof (cases "worker_pass release clock w 0 (io_seq (proc_infos d ! w)) d")
    case (Some d')
    note tab = worker_pass_table [OF Some [unfolded pass] il(3) assms(1)]
    define pi' where "pi' = proc_infos d' ! w"
    have ok: "lists_ok pi' fl il" using tab(1) assms(2) by (simp add: pi'_def)
    have "finished pi' k" if k: "k \<in> set il" for k
    proof -
      obtain i where i: "i < length il" "il ! i = k" using k by (auto simp: in_set_conv_nth)
      then have e: "proc_table pi' ! k = visited (clock i) (proc_table (proc_infos d ! w) ! k)" using tab(2) [of i] by (simp add: pi'_def)
      have "tgt (proc_infos d ! w) k \<le> clock i" using assms(5) i by (auto simp: list_all2_conv_all_nth)
      moreover have "clock i \<le> proc_io_nsecs pi'"
        using tab(4) i monoD [OF assms(4), of i "length il - 1"] by (cases "il = []") (simp_all add: pi'_def)
      moreover have "copied_first (proc_table (proc_infos d ! w) ! k)" using assms(3) k by (simp add: requests_def list_all_iff)
      ultimately have "reclaimable pi' (visited (clock i) (proc_table (proc_infos d ! w) ! k))"
        unfolding tgt_def by (rule visited_reclaimable)
      then show ?thesis by (simp add: finished_def e)
    qed
    then have all: "takeWhile (finished pi') il = il" "dropWhile (finished pi') il = []" by (simp_all add: takeWhile_eq_all_conv)
    obtain pi'' where r: "reclaim_info pi' = Some pi''" "lists_ok pi'' (fl @ takeWhile (finished pi') il) (dropWhile (finished pi') il)"
      by (rule reclaim_info_effect [OF ok])
    show ?thesis unfolding Some option.pred_inject(2)
      by (rule exI [of _ pi'']) (use r [unfolded all] in \<open>simp only: pi'_def simp_thms\<close>)
  qed simp
qed

lemma worker_pass_completes_due_witness:
  "\<exists>pi d' pi'. io_insert (init_proc_info 0) (fill_writeback 0 \<lparr> wb_sqid = 1, wb_nsecs_target = 70, wb_buffer = SSD_BUFFER, wb_buffs_to_release = 4096 \<rparr>) 70 = Some (True, pi)
    \<and> worker_pass (\<lambda>_ _ s. Some s) (\<lambda>_. 900) 0 0 (io_seq pi) (tiny_dev\<lparr> proc_infos := [pi] \<rparr>) = Some d'
    \<and> reclaim_info (proc_infos d' ! 0) = Some pi' \<and> lists_ok pi' ([1..<NR_MAX_PARALLEL_IO] @ [0]) []"
proof -
  let ?fill = "fill_writeback 0 \<lparr> wb_sqid = 1, wb_nsecs_target = 70, wb_buffer = SSD_BUFFER, wb_buffs_to_release = 4096 \<rparr>"
  have two: "2 \<le> length [0..<NR_MAX_PARALLEL_IO]" and "0 < NR_MAX_PARALLEL_IO" using parallel_io_many by simp_all
  then have hd0: "hd [0..<NR_MAX_PARALLEL_IO] = 0" by simp
  have target: "pe_nsecs_target (?fill e) = 70" for e by (simp add: fill_writeback_def)
  obtain pi where pi: "io_insert (init_proc_info 0) ?fill 70 = Some (True, pi)"
    "lists_ok pi (tl [0..<NR_MAX_PARALLEL_IO]) (before (init_proc_info 0) 70 [] @ hd [0..<NR_MAX_PARALLEL_IO] # behind (init_proc_info 0) 70 [])"
    "requests pi (before (init_proc_info 0) 70 [] @ hd [0..<NR_MAX_PARALLEL_IO] # behind (init_proc_info 0) 70 [])
      = insert_request (proc_io_nsecs (init_proc_info 0)) (payload (?fill (proc_table (init_proc_info 0) ! hd [0..<NR_MAX_PARALLEL_IO]))) (requests (init_proc_info 0) [])"
    by (rule io_insert_effect [OF init_lists_ok two target])
  have l: "lists_ok pi [1..<NR_MAX_PARALLEL_IO] [0]" using pi(2) hd0 by (simp add: before_def behind_def)
  define e where "e = proc_table pi ! 0"
  have "payload e = payload (?fill (proc_table (init_proc_info 0) ! 0))"
    using pi(3) hd0 by (simp add: before_def behind_def requests_def insert_request_def e_def)
  then have e: "pe_nsecs_target e = 70" "\<not> is_completed e" "is_copied e" "writeback_cmd e"
    by (auto simp: payload_def fill_writeback_def dest: arg_cong [where f = pe_nsecs_target] arg_cong [where f = is_completed] arg_cong [where f = is_copied] arg_cong [where f = writeback_cmd])
  have len: "0 < length (proc_table pi)" using l by (auto simp: lists_ok_def)
  define d where "d = tiny_dev\<lparr> proc_infos := [pi] \<rparr>"
  have "\<exists>d'. foldM (\<lambda>(j, cur). worker_entry (\<lambda>_ _ s. Some s) ((\<lambda>_. 900) j) 0 cur) (enumerate 0 [0]) d = Some d'"
    using len e by (simp add: worker_entry_def arr_get_def d_def copy_entry_def complete_entry_def on_worker_def on_pe_Some e_def [symmetric])
  moreover have c: "list_all copied_first (requests (proc_infos d ! 0) [0])" "mono (\<lambda>_ :: nat. 900 :: nat)" "0 < length (proc_infos d)" "lists_ok (proc_infos d ! 0) [1..<NR_MAX_PARALLEL_IO] [0]"
    "list_all2 (\<lambda>k t. tgt (proc_infos d ! 0) k \<le> t) [0] (map (\<lambda>_. 900) [0..<length [0::nat]])"
    using e l by (simp_all add: requests_def copied_first_def d_def e_def [symmetric] mono_def tgt_def)
  ultimately show ?thesis
    using worker_pass_completes_due [OF c(3,4,1,2,5), of "\<lambda>_ _ s. Some s"] pi(1) by (auto simp: d_def)
qed

text \<open>C2: A write (or append) followed by a read of the same blocks of the same namespace delivers to the pages
  of the read exactly the bytes that were in the pages of the write. It is stated for blocks inside the device memory,
  and for PRP entries as a driver builds them: every entry after the first names a whole page, a list lies inside one
  page (\<open>prp_wf\<close>), and the pages of the read are apart from each other and from the list
  (\<open>prp_safe\<close>). The write changes no byte of the device memory outside its blocks, and the read no byte
  of the host outside its pages.\<close>

theorem write_then_read:
  fixes d :: "'s nvmev_dev"
  assumes "opcode c = nvme_cmd_write \<or> opcode c = nvme_cmd_zone_append" and "opcode c' = nvme_cmd_read"
    and "nsid c' = nsid c" and "rw_slba c' = rw_slba c" and "rw_length c' = rw_length c"
    and "sub32 (nsid c) 1 < length (ns_base d)"
  defines "len \<equiv> (rw_length c + 1) * 512" and "off \<equiv> ns_base d ! sub32 (nsid c) 1 + u64 (rw_slba c * 512)"
  assumes "off + len \<le> dev_storage_size d" and "prp_wf (dev_host d) (prp1 c) (prp2 c) len" and "prp_safe (dev_host d) (prp1 c') (prp2 c') len"
  shows "\<exists>d1 d2. do_perform_io d c = Some d1 \<and> do_perform_io d1 c' = Some d2
    \<and> (\<forall>x < len. dev_host d2 (prp_addr (dev_host d) (prp1 c') (prp2 c') len x) = dev_host d (prp_addr (dev_host d) (prp1 c) (prp2 c) len x))
    \<and> (\<forall>z. z \<notin> prp_addr (dev_host d) (prp1 c') (prp2 c') len ` {..<len} \<longrightarrow> dev_host d2 z = dev_host d z)
    \<and> (\<forall>z. z < off \<or> off + len \<le> z \<longrightarrow> dev_storage d2 z = dev_storage d z)"
proof -
  let ?s = "\<lambda>z. if off \<le> z \<and> z < off + len then dev_host d (prp_addr (dev_host d) (prp1 c) (prp2 c) len (z - off)) else dev_storage d z"
  have dirs: "io_dir (opcode c) = FROM_HOST" "io_dir (opcode c') = TO_HOST"
    using assms(1,2) by (auto simp: io_dir_def nvme_cmd_write_def nvme_cmd_zone_append_def nvme_cmd_read_def)
  define d1 where "d1 = d\<lparr> dev_host := dev_host d, dev_storage := ?s \<rparr>"
  have w: "do_perform_io d c = Some d1"
    using prp_loop_from_host [OF assms(10,9), of 0 0 None 0 "dev_storage d"] assms(6) dirs(1) piece_start
    by (simp add: do_perform_io_def arr_get_def len_def off_def d1_def)
  obtain h where h: "prp_loop TO_HOST (dev_storage_size d) (prp1 c') (prp2 c') 0 len off None 0 (dev_host d) ?s = Some (h, ?s)"
    "\<forall>y < len. 0 \<le> y \<longrightarrow> h (prp_addr (dev_host d) (prp1 c') (prp2 c') len y) = ?s (off + y)"
    "\<forall>z. z \<notin> prp_addr (dev_host d) (prp1 c') (prp2 c') len ` {0..<len} \<longrightarrow> h z = dev_host d z"
    using prp_loop_to_host [OF assms(11,9), of 0 0 None 0 "dev_host d" ?s] piece_start by auto
  have r: "do_perform_io d1 c' = Some (d1\<lparr> dev_host := h, dev_storage := ?s \<rparr>)"
    using h(1) assms(3-6) dirs(2) by (simp add: do_perform_io_def arr_get_def len_def off_def d1_def)
  show ?thesis by (intro exI conjI, rule w, rule r) (use h(2,3) in \<open>auto simp: lessThan_atLeast0 d1_def\<close>)
qed

lemma write_then_read_witness:
  "\<exists>d1 d2. do_perform_io tiny_dev (tiny_cmd nvme_cmd_write 40961 20480) = Some d1
    \<and> do_perform_io d1 (tiny_cmd nvme_cmd_read 16384 20480) = Some d2 \<and> dev_host d2 16484 = tiny_host 41061"
proof -
  let ?w = "tiny_cmd nvme_cmd_write 40961 20480" and ?r = "tiny_cmd nvme_cmd_read 16384 20480"
  have f: "opcode ?w = nvme_cmd_write \<or> opcode ?w = nvme_cmd_zone_append" "opcode ?r = nvme_cmd_read" "nsid ?r = nsid ?w" "rw_slba ?r = rw_slba ?w"
    "rw_length ?r = rw_length ?w" "sub32 (nsid ?w) 1 < length (ns_base tiny_dev)" "(rw_length ?w + 1) * 512 = 8704" "rw_slba ?w = 8" "sub32 (nsid ?w) 1 = 0"
    "prp1 ?w = 40961" "prp2 ?w = 20480" "prp1 ?r = 16384" "prp2 ?r = 20480"
    by (simp_all add: tiny_cmd_def rw_slba_def rw_length_def u32_def)
  have wf: "prp_wf tiny_host 40961 20480 8704"
    using tiny_host_list by (auto simp: prp_wf_def PAGE_SIZE_def less_Suc_eq numeral_eq_Suc [of "num.Bit0 num.One"])
  have pre: "ns_base tiny_dev ! sub32 (nsid ?w) 1 + u64 (rw_slba ?w * 512) + (rw_length ?w + 1) * 512 \<le> dev_storage_size tiny_dev"
    "prp_wf (dev_host tiny_dev) (prp1 ?w) (prp2 ?w) ((rw_length ?w + 1) * 512)" "prp_safe (dev_host tiny_dev) (prp1 ?r) (prp2 ?r) ((rw_length ?w + 1) * 512)"
    using wf tiny_host_safe unfolding f(7-) tiny_dev_simps by (simp_all add: u64_def)
  obtain d1 d2 where d: "do_perform_io tiny_dev ?w = Some d1" "do_perform_io d1 ?r = Some d2"
    "\<forall>x < 8704. dev_host d2 (prp_addr tiny_host 16384 20480 8704 x) = tiny_host (prp_addr tiny_host 40961 20480 8704 x)"
    using write_then_read [OF f(1-6) pre] unfolding f(7-) tiny_dev_simps by blast
  have "prp_addr tiny_host 40961 20480 8704 100 = 41061" by (simp add: prp_addr_def PAGE_SIZE_def)
  moreover have "prp_addr tiny_host 16384 20480 8704 100 = 16484" by (simp add: tiny_host_addr)
  ultimately have "dev_host d2 16484 = tiny_host 41061" using d(3) [rule_format, of 100] by simp
  with d(1,2) show ?thesis by blast
qed

end
