(* ===== verification/Conv_IO.thy ===== *)
theory Conv_IO
  imports Nvme Conv_GC Hotness
begin

text \<open>
  The host commands of the conventional FTL and its setup (\<open>conv_ftl.c\<close>): \<open>conv_init_namespace\<close>,
  \<open>conv_read\<close>, \<open>conv_write\<close>, \<open>conv_flush\<close> and their dispatch. A namespace has
  \<open>SSD_PARTITIONS\<close> FTLs that share one PCIe channel model and one write buffer: the pointers are
  equal in C, so \<open>share\<close> puts what one FTL did to them into all. \<open>now\<close> is the clock.
\<close>

section \<open>Setup\<close>

definition null_wp :: write_pointer where
  "null_wp = \<lparr> curline = None, wp_ch = 0, wp_lun = 0, wp_pg = 0, wp_blk = 0, wp_pl = 0 \<rparr>"

text \<open>\<open>raw\<close> is the memory the FTL is built in.\<close>

definition conv_init_ftl :: "base_ssd \<Rightarrow> conv_ftl \<Rightarrow> convparams \<Rightarrow> ssd \<Rightarrow> conv_ftl option" where
  "conv_init_ftl b raw cpp s = do {
     let ftl = init_rmap (init_maptbl (raw\<lparr> ftl_ssd := s, cp := cpp \<rparr>));
     ftl \<leftarrow> init_lines (ftl\<lparr> user_wp := null_wp, gc_wp := null_wp \<rparr>);
     let ftl = init_write_flow_control ftl;
     ftl \<leftarrow> (if b = HYBRID_SSD then do {
               ftl \<leftarrow> init_lines_DA (init_hotness_tracking ftl);
               Some (ftl\<lparr> lunpointer := 0 \<rparr>)
             } else Some ftl);
     ftl \<leftarrow> prepare_write_pointer ftl USER_IO;
     prepare_write_pointer ftl GC_IO
   }"

definition share :: "nat \<Rightarrow> conv_ftl list \<Rightarrow> conv_ftl list" where
  "share i fs = map (\<lambda>f. f\<lparr> ftl_ssd := (ftl_ssd f)\<lparr> ssd_pcie := ssd_pcie (ftl_ssd (fs ! i)), write_buffer := write_buffer (ftl_ssd (fs ! i)) \<rparr> \<rparr>) fs"

text \<open>Each FTL gets arrays of per-LUN lines and write pointers with whatever the memory held: \<open>raw\<close>,
  \<open>raw_lm\<close> and \<open>raw_wp\<close>; \<open>junk\<close> is the memory of its \<open>ssd\<close>.\<close>

definition conv_init_namespace ::
  "base_ssd \<Rightarrow> build_macros \<Rightarrow> ssdparams \<Rightarrow> (nat \<Rightarrow> nat) \<Rightarrow> (nat \<Rightarrow> conv_ftl) \<Rightarrow> (nat \<Rightarrow> nat \<Rightarrow> line_mgmt) \<Rightarrow> (nat \<Rightarrow> nat \<Rightarrow> write_pointer)
   \<Rightarrow> nat \<Rightarrow> nat \<Rightarrow> nat \<Rightarrow> nat \<Rightarrow> conv_ftl nvmev_ns option" where
  "conv_init_namespace b mac stack junk raw raw_lm raw_wp id' size' mapped cpu = do {
     spp \<leftarrow> ssd_init_params b mac stack size' (SSD_PARTITIONS mac);
     let cpp = conv_init_params mac;
     let luns = NAND_CHANNELS mac * LUNS_PER_NAND_CH mac;
     fs \<leftarrow> foldM (\<lambda>i fs. do {
         s \<leftarrow> ssd_init (junk i) spp cpu;
         f \<leftarrow> conv_init_ftl b ((raw i)\<lparr> lunlm := map (raw_lm i) [0..<luns], lunwp := map (raw_wp i) [0..<luns] \<rparr>) cpp s;
         Some (fs @ [f])
       }) [0..<SSD_PARTITIONS mac] [];
     logical \<leftarrow> div_trap (u64 (size' * 100)) (pba_pcent cpp);
     Some \<lparr> ns_id = id', ns_csi = NVME_CSI_NVM, ns_size = logical, ns_mapped = mapped, ns_nr_parts = SSD_PARTITIONS mac,
            ns_ftls = share 0 fs, ns_proc_io_cmd = conv_proc_nvme_io_cmd \<rparr>
   }"

text \<open>What is left of the namespace when its memory is given back.\<close>

definition conv_remove_namespace :: "conv_ftl nvmev_ns \<Rightarrow> conv_ftl nvmev_ns" where
  "conv_remove_namespace ns = ns\<lparr> ns_ftls := [] \<rparr>"

section \<open>Read\<close>

definition user_cmd :: "nand_op \<Rightarrow> nat \<Rightarrow> nat \<Rightarrow> ppa \<Rightarrow> nand_cmd" where
  "user_cmd op t n p = \<lparr> nand_type = USER_IO, cmd = op, xfer_size = n, stime = t, interleave_pci_dma = True, nand_ppa = p \<rparr>"

text \<open>One read command to the flash of FTL \<open>k\<close>; the latest completion is kept.\<close>

definition issue_read :: "base_ssd \<Rightarrow> nat \<Rightarrow> nat \<Rightarrow> nat \<Rightarrow> nat \<Rightarrow> ppa \<Rightarrow> nat \<times> conv_ftl list \<Rightarrow> (nat \<times> conv_ftl list) option" where
  "issue_read b now k t n p = (\<lambda>(latest, fs). do {
     f \<leftarrow> arr_get fs k;
     (done_at, s) \<leftarrow> ssd_advance_nand b now (ftl_ssd f) (user_cmd NAND_READ t n p);
     Some (max done_at latest, share k (fs[k := f\<lparr> ftl_ssd := s \<rparr>]))
   })"

text \<open>One page of FTL \<open>k\<close>: reads of the same flash page are joined, \<open>prev\<close> and \<open>xfer\<close> are the read not
  issued yet.\<close>

definition read_page :: "base_ssd \<Rightarrow> nat \<Rightarrow> nat \<Rightarrow> nat \<Rightarrow> nat \<Rightarrow> nat \<Rightarrow> (ppa \<times> nat) \<times> nat \<times> conv_ftl list \<Rightarrow> ((ppa \<times> nat) \<times> nat \<times> conv_ftl list) option" where
  "read_page b now t nparts k lpn = (\<lambda>((prev, xfer), latest, fs). do {
     f \<leftarrow> arr_get fs k;
     local_lpn \<leftarrow> div_trap lpn nparts;
     cur \<leftarrow> get_maptbl_ent f local_lpn;
     if \<not> mapped_ppa cur \<or> \<not> valid_ppa f cur then Some ((prev, xfer), latest, fs)
     else do {
       same \<leftarrow> (if mapped_ppa prev then is_same_flash_page f cur prev else Some False);
       if same then Some ((prev, u32 (xfer + pgsz (spp_of f))), latest, fs)
       else do {
         (latest, fs) \<leftarrow> (if 0 < xfer then issue_read b now k t xfer prev (latest, fs) else Some (latest, fs));
         Some ((cur, pgsz (spp_of f)), latest, fs)
       }
     }
   })"

text \<open>The pages of the request that FTL \<open>first mod nparts\<close> holds: \<open>first\<close> and every \<open>nparts\<close>-th page after it.\<close>

definition part_lpns :: "nat \<Rightarrow> nat \<Rightarrow> nat \<Rightarrow> nat list" where
  "part_lpns nparts first end_lpn = map (\<lambda>j. first + j * nparts) [0..<(end_lpn - first) div nparts + 1]"

text \<open>The read still pending after the last page.\<close>

definition finish_read :: "base_ssd \<Rightarrow> nat \<Rightarrow> nat \<Rightarrow> nat \<Rightarrow> (ppa \<times> nat) \<times> nat \<times> conv_ftl list \<Rightarrow> (nat \<times> conv_ftl list) option" where
  "finish_read b now t k = (\<lambda>((prev, xfer), latest, fs).
     if 0 < xfer then issue_read b now k t xfer prev (latest, fs) else Some (latest, fs))"

definition read_part :: "base_ssd \<Rightarrow> nat \<Rightarrow> nat \<Rightarrow> nat \<Rightarrow> nat \<Rightarrow> nat \<Rightarrow> nat \<times> conv_ftl list \<Rightarrow> (nat \<times> conv_ftl list) option" where
  "read_part b now t nparts end_lpn first = (\<lambda>(latest, fs). do {
     k \<leftarrow> mod_trap first nparts;
     f \<leftarrow> arr_get fs k;
     local_lpn \<leftarrow> div_trap first nparts;
     prev \<leftarrow> get_maptbl_ent f local_lpn;
     st \<leftarrow> foldM (read_page b now t nparts k) (part_lpns nparts first end_lpn) ((prev, 0), latest, fs);
     finish_read b now t k st
   })"

definition conv_read :: "base_ssd \<Rightarrow> nat \<Rightarrow> conv_ftl nvmev_ns \<Rightarrow> io_env \<Rightarrow> (bool \<times> io_env \<times> conv_ftl nvmev_ns) option" where
  "conv_read b now ns e = do {
     f0 \<leftarrow> arr_get (ns_ftls ns) 0;
     let spp = spp_of f0;
     let lba = rw_slba (req_cmd (env_req e));
     let nr_lba = rw_length (req_cmd (env_req e)) + 1;
     let nsecs_start = req_nsecs_start (env_req e);
     start_lpn \<leftarrow> div_trap lba (secs_per_pg spp);
     end_lpn \<leftarrow> div_trap (sub64 (lba + nr_lba) 1) (secs_per_pg spp);
     last_local \<leftarrow> div_trap end_lpn (ns_nr_parts ns);
     if tt_pgs spp \<le> last_local then Some (False, e, ns)
     else do {
       let t = u64 (nsecs_start + (if LBA_TO_BYTE nr_lba \<le> u32 (KB 4 * ns_nr_parts ns) then fw_4kb_rd_lat spp else fw_rd_lat spp));
       (latest, fs) \<leftarrow> foldM (read_part b now t (ns_nr_parts ns) end_lpn)
         (takeWhile (\<lambda>l. l \<le> end_lpn) (map (\<lambda>i. start_lpn + i) [0..<ns_nr_parts ns])) (nsecs_start, ns_ftls ns);
       Some (True, e\<lparr> env_ret := (env_ret e)\<lparr> ret_nsecs_target := latest, ret_status := NVME_SC_SUCCESS \<rparr> \<rparr>, ns\<lparr> ns_ftls := fs \<rparr>)
     }
   }"

section \<open>Write\<close>

text \<open>One page: \<open>junk\<close> is the stack of the garbage collection and of the migrations. The target page is
  chosen by the write pointer, the per-LUN pointers in the hybrid build.\<close>

definition write_target :: "base_ssd \<Rightarrow> nat \<Rightarrow> (nat \<Rightarrow> bool \<times> bool) \<Rightarrow> nat \<Rightarrow> conv_ftl \<Rightarrow> (ppa \<times> conv_ftl) option" where
  "write_target b now junk lpn ftl =
     (if b = HYBRID_SSD then do {
        mm \<leftarrow> update_page_hotness now (migration ftl) lpn;
        ftl \<leftarrow> check_and_perform_migrations b now junk (ftl\<lparr> migration := mm \<rparr>);
        l \<leftarrow> mod_trap lpn (u32 (slc_channels (spp_of ftl) * slc_luns_per_ch (spp_of ftl)));
        let ftl = ftl\<lparr> lunpointer := l \<rparr>;
        p \<leftarrow> get_new_page_DA b ftl USER_IO;
        Some (p, ftl)
      } else do { p \<leftarrow> get_new_page b ftl USER_IO; Some (p, ftl) })"

definition write_page :: "base_ssd \<Rightarrow> nat \<Rightarrow> (nat \<Rightarrow> ppa \<times> (nat \<Rightarrow> bool \<times> bool)) \<Rightarrow> nat \<Rightarrow> nat \<times> conv_ftl \<Rightarrow> (nat \<times> conv_ftl) option" where
  "write_page b now junk lpn = (\<lambda>(t, ftl). do {
     ftl \<leftarrow> check_and_refill_write_credit b now (fst (junk lpn)) ftl;
     (p, ftl) \<leftarrow> write_target b now (snd (junk lpn)) lpn ftl;
     (t, s) \<leftarrow> ssd_advance_nand b now (ftl_ssd ftl) (user_cmd NAND_WRITE t (pgsz (spp_of ftl)) p);
     (t, s) \<leftarrow> ssd_advance_write_buffer now s t (pgsz (spp_of ftl));
     ftl \<leftarrow> set_maptbl_ent (ftl\<lparr> ftl_ssd := s \<rparr>) lpn p;
     ftl \<leftarrow> set_rmap_ent ftl lpn p;
     ftl \<leftarrow> (if b = HYBRID_SSD then advance_write_pointer_DA b ftl USER_IO else advance_write_pointer ftl USER_IO);
     Some (t, ftl)
   })"

definition conv_write :: "base_ssd \<Rightarrow> nat \<Rightarrow> (nat \<Rightarrow> ppa \<times> (nat \<Rightarrow> bool \<times> bool)) \<Rightarrow> ppa \<Rightarrow> conv_ftl nvmev_ns \<Rightarrow> io_env \<Rightarrow> (bool \<times> io_env \<times> conv_ftl nvmev_ns) option" where
  "conv_write b now junk gc_junk ns e = do {
     f0 \<leftarrow> arr_get (ns_ftls ns) 0;
     let spp = spp_of f0;
     let lba = rw_slba (req_cmd (env_req e));
     let bytes' = (rw_length (req_cmd (env_req e)) + 1) * 2 ^ 9;
     let (granted, buf) = buffer_allocate (write_buffer (ftl_ssd f0)) bytes';
     let f0 = f0\<lparr> ftl_ssd := (ftl_ssd f0)\<lparr> write_buffer := buf \<rparr> \<rparr>;
     let answer = (\<lambda>t e. e\<lparr> env_ret := (env_ret e)\<lparr> ret_nsecs_target := t \<rparr> \<rparr>);
     if granted = 0 then
       Some (True, answer now (enqueue_writeback (req_sq_id (env_req e)) now SSD_BUFFER 0 e), ns\<lparr> ns_ftls := share 0 ((ns_ftls ns)[0 := f0]) \<rparr>)
     else do {
       lpn \<leftarrow> div_trap lba (secs_per_pg spp);
       n \<leftarrow> div_trap bytes' (pgsz spp);
       (t, f0) \<leftarrow> foldM (write_page b now junk) (map (\<lambda>i. lpn + i) [0..<n]) (now, f0);
       f0 \<leftarrow> (if should_gc f0 then do { (_, f0) \<leftarrow> do_gc b now gc_junk f0 False; Some f0 } else Some f0);
       Some (True, answer t e, ns\<lparr> ns_ftls := share 0 ((ns_ftls ns)[0 := f0]) \<rparr>)
     }
   }"

section \<open>Flush and dispatch\<close>

definition conv_flush :: "nat \<Rightarrow> conv_ftl nvmev_ns \<Rightarrow> io_env \<Rightarrow> io_env option" where
  "conv_flush now ns e = do {
     t \<leftarrow> flush_target now (map ftl_ssd (ns_ftls ns));
     Some (e\<lparr> env_ret := (env_ret e)\<lparr> ret_status := NVME_SC_SUCCESS, ret_nsecs_target := t \<rparr> \<rparr>)
   }"

definition conv_proc_io_cmd :: "base_ssd \<Rightarrow> nat \<Rightarrow> (nat \<Rightarrow> ppa \<times> (nat \<Rightarrow> bool \<times> bool)) \<Rightarrow> ppa \<Rightarrow> conv_ftl nvmev_ns \<Rightarrow> io_env \<Rightarrow> (bool \<times> io_env \<times> conv_ftl nvmev_ns) option" where
  "conv_proc_io_cmd b now junk gc_junk ns e = do {
     let op = opcode (req_cmd (env_req e));
     nvmev_assert (ns_csi ns = NVME_CSI_NVM);
     if op = nvme_cmd_write then conv_write b now junk gc_junk ns e
     else if op = nvme_cmd_read then conv_read b now ns e
     else if op = nvme_cmd_flush then do { e \<leftarrow> conv_flush now ns e; Some (True, e, ns) }
     else do { nvmev_assert (nvme_opcode_string_ok op); Some (True, e, ns) }
   }"

section \<open>Writing inside a line\<close>

lemma mapping_ok_ssd:
  assumes sp: "ssd_sp s = spp_of ftl"
  shows "mapping_ok (ftl\<lparr> ftl_ssd := s \<rparr>) \<longleftrightarrow> mapping_ok ftl"
proof -
  have rm: "get_rmap_ent (ftl\<lparr> ftl_ssd := s \<rparr>) = get_rmap_ent ftl" "get_maptbl_ent (ftl\<lparr> ftl_ssd := s \<rparr>) = get_maptbl_ent ftl"
    "rmap_legal (ftl\<lparr> ftl_ssd := s \<rparr>) = rmap_legal ftl"
    by (simp_all add: fun_eq_iff get_rmap_ent_def ppa2pgidx_def get_maptbl_ent_def rmap_legal_def valid_ppa_def sp)
  show ?thesis by (simp only: mapping_ok_def map_consistent_def rm) (simp add: sp)
qed

lemma mapping_ok_wp: "mapping_ok (put_wp ftl io w) \<longleftrightarrow> mapping_ok ftl"
proof -
  have "get_rmap_ent (put_wp ftl io w) = get_rmap_ent ftl" "get_maptbl_ent (put_wp ftl io w) = get_maptbl_ent ftl"
    "rmap_legal (put_wp ftl io w) = rmap_legal ftl" "ftl_ssd (put_wp ftl io w) = ftl_ssd ftl"
    "maptbl (put_wp ftl io w) = maptbl ftl" "rmap (put_wp ftl io w) = rmap ftl"
    by (cases io; simp add: put_wp_def fun_eq_iff get_rmap_ent_def ppa2pgidx_def get_maptbl_ent_def rmap_legal_def valid_ppa_def)+
  then show ?thesis by (simp only: mapping_ok_def map_consistent_def)
qed

text \<open>Ready for host writes: the tables agree, and the pages of the current line from the write pointer on
  belong to no logical page.\<close>

definition host_ok :: "conv_ftl \<Rightarrow> bool" where
  "host_ok ftl \<longleftrightarrow> mapping_ok ftl \<and> fields_fit (spp_of ftl) \<and> pls_per_lun (spp_of ftl) = 1 \<and> ssd_shape (ftl_ssd ftl)
     \<and> ssd_usable (ftl_ssd ftl) \<and> 0 < max_ch_xfer_size (spp_of ftl) \<and> wp_ok (spp_of ftl) (user_wp ftl)
     \<and> (\<forall>m q. get_maptbl_ent ftl m = Some q \<and> mapped_ppa q \<and> g_blk q = wp_blk (user_wp ftl) \<longrightarrow>
          page_index (spp_of ftl) q < wp_index (spp_of ftl) (user_wp ftl))"

lemma host_okD:
  assumes "host_ok ftl"
  shows "mapping_ok ftl" "sane_params (spp_of ftl)" "geometry_ok (spp_of ftl)" "fields_fit (spp_of ftl)" "pls_per_lun (spp_of ftl) = 1"
    "ssd_shape (ftl_ssd ftl)" "ssd_usable (ftl_ssd ftl)" "wp_ok (spp_of ftl) (user_wp ftl)"
    "length (maptbl ftl) = tt_pgs (spp_of ftl)" "length (rmap ftl) = tt_pgs (spp_of ftl)" "get_wp ftl USER_IO = Some (user_wp ftl)"
  using assms by (simp_all add: host_ok_def mapping_ok_def sane_params_def get_wp_def)

lemma user_write_ok:
  assumes "host_ok ftl" and "in_device (spp_of ftl) p"
  shows "\<exists>t' s. ssd_advance_nand b now (ftl_ssd ftl) (user_cmd NAND_WRITE t n p) = Some (t', s) \<and> same_data (ftl_ssd ftl) s \<and> ssd_usable s"
proof -
  note D = host_okD [OF assms(1)]
  have "command_ok (ftl_ssd ftl) (user_cmd NAND_WRITE t n p)"
    using in_device_mapped [OF assms(2) D(5)] by (simp add: command_ok_def user_cmd_def)
  moreover obtain lun where "get_lun (ftl_ssd ftl) (nand_ppa (user_cmd NAND_WRITE t n p)) = Some lun"
    using ssd_shape_get_lun [OF D(6), of p] assms(2) by (auto simp: in_device_def user_cmd_def)
  ultimately show ?thesis using ssd_advance_nand_ok [OF D(7), of "user_cmd NAND_WRITE t n p" lun b now] by blast
qed

lemma host_ok_tables:
  assumes ok: "host_ok ftl" and p: "in_device (spp_of ftl) p" "g_blk p = wp_blk (user_wp ftl)"
    "page_index (spp_of ftl) p = wp_index (spp_of ftl) (user_wp ftl)" and lpn: "lpn < tt_pgs (spp_of ftl)"
  obtains f1 f2 mt rm where "set_maptbl_ent ftl lpn p = Some f1" "set_rmap_ent f1 lpn p = Some f2" "f2 = ftl\<lparr> maptbl := mt, rmap := rm \<rparr>"
    "mapping_ok f2" "\<And>m. get_maptbl_ent f2 m = (if m = lpn then Some p else get_maptbl_ent ftl m)" "get_rmap_ent f2 p = Some lpn"
proof -
  note D = host_okD [OF ok]
  have con: "map_consistent get_maptbl_ent get_rmap_ent rmap_legal mapped_ppa ftl" using D(1) by (simp add: mapping_ok_def)
  have leg: "rmap_legal ftl p" using p(1) D(2,10) by (simp add: rmap_legal_def valid_ppa_in_device)
  have fresh: "m = lpn" if "get_maptbl_ent ftl m = Some q" "mapped_ppa q" "pg_key q = pg_key p" for m q
  proof -
    have "g_blk q = wp_blk (user_wp ftl)" "page_index (spp_of ftl) q = page_index (spp_of ftl) p"
      using that(3) p(2) by (simp_all add: pg_key_def page_index_def)
    moreover have "page_index (spp_of ftl) q < wp_index (spp_of ftl) (user_wp ftl)"
      using ok that(1,2) calculation(1) unfolding host_ok_def by blast
    ultimately show ?thesis using p(3) by simp
  qed
  show ?thesis
  proof (rule pm.remap [OF con leg _ fresh])
    show "lpn \<in> ftl_lpns ftl" using lpn D(9) by (simp add: ftl_lpns_def)
    fix f1 f2
    assume f1: "set_maptbl_ent ftl lpn p = Some f1" and f2: "set_rmap_ent f1 lpn p = Some f2"
      and con2: "map_consistent get_maptbl_ent get_rmap_ent rmap_legal mapped_ppa f2"
      and look: "\<And>m. get_maptbl_ent f2 m = (if m = lpn then Some p else get_maptbl_ent ftl m)"
      and own: "\<And>q. rmap_legal ftl q \<Longrightarrow> get_rmap_ent f2 q = (if pg_key q = pg_key p then Some lpn else get_rmap_ent ftl q)"
    obtain mt rm where f2': "f2 = ftl\<lparr> maptbl := mt, rmap := rm \<rparr>" "length mt = length (maptbl ftl)" "length rm = length (rmap ftl)"
      using f1 f2 by (auto simp: set_maptbl_ent_eq set_rmap_ent_eq)
    then have "mapping_ok f2" using con2 D(1) by (simp add: mapping_ok_def)
    then show ?thesis using that [OF f1 f2 f2'(1)] look own [OF leg] by simp
  qed
qed

text \<open>\<open>stored ftl lpn p ftl'\<close>: the logical page is now at \<open>p\<close>, in both tables, and nothing else moved.\<close>

definition stored :: "conv_ftl \<Rightarrow> nat \<Rightarrow> ppa \<Rightarrow> conv_ftl \<Rightarrow> bool" where
  "stored ftl lpn p ftl' \<longleftrightarrow> (\<forall>m. get_maptbl_ent ftl' m = (if m = lpn then Some p else get_maptbl_ent ftl m)) \<and> get_rmap_ent ftl' p = Some lpn"

lemma write_page_ok:
  assumes ok: "host_ok ftl" and b: "b \<noteq> HYBRID_SSD" and cred: "write_credits (wfc ftl) \<noteq> 0" and lpn: "lpn < tt_pgs (spp_of ftl)"
    and room: "wp_index (spp_of ftl) (user_wp ftl) + 1 < pgs_per_line (spp_of ftl)"
  shows "\<exists>t' ftl' p. write_page b now junk lpn (t, ftl) = Some (t', ftl') \<and> host_ok ftl' \<and> stored ftl lpn p ftl'
    \<and> (g_ch p, g_lun p, g_pg p) = stripe (spp_of ftl) (wp_index (spp_of ftl) (user_wp ftl)) \<and> g_pl p = 0 \<and> g_blk p = wp_blk (user_wp ftl)
    \<and> user_wp ftl' = wp_next (spp_of ftl) (user_wp ftl) \<and> spp_of ftl' = spp_of ftl \<and> wfc ftl' = wfc ftl \<and> lm ftl' = lm ftl \<and> cp ftl' = cp ftl
    \<and> write_buffer (ftl_ssd ftl') = write_buffer (ftl_ssd ftl)"
proof -
  let ?spp = "spp_of ftl" and ?w = "user_wp ftl"
  note D = host_okD [OF ok]
  obtain p where p: "get_new_page b ftl USER_IO = Some p" "pg_key p = (wp_ch ?w, wp_lun ?w, 0, wp_blk ?w, wp_pg ?w)" "in_device ?spp p"
    using get_new_page_fields [OF b D(4,8,11)] D(5) by auto
  have pf: "g_ch p = wp_ch ?w" "g_lun p = wp_lun ?w" "g_pl p = 0" "g_blk p = wp_blk ?w" "g_pg p = wp_pg ?w" using p(2) by (simp_all add: pg_key_def)
  obtain t1 s1 where s1: "ssd_advance_nand b now (ftl_ssd ftl) (user_cmd NAND_WRITE t (pgsz ?spp) p) = Some (t1, s1)"
    "same_data (ftl_ssd ftl) s1" "ssd_usable s1" using user_write_ok [OF ok p(3)] by blast
  obtain t2 s2 where s2: "ssd_advance_write_buffer now s1 t1 (pgsz ?spp) = Some (t2, s2)" "ssd_usable s2" "same_data s1 s2"
    using advance_pcie_ok [OF s1(3), of now] by (metis ssd_advance_write_buffer_def)
  have d: "same_data (ftl_ssd ftl) s2" using s1(2) s2(3) by (rule same_data_trans)
  have sp: "ssd_sp s2 = ?spp" "write_buffer s2 = write_buffer (ftl_ssd ftl)" using d by (simp_all add: same_data_def)
  let ?g = "ftl\<lparr> ftl_ssd := s2 \<rparr>"
  have ok2: "host_ok ?g" using ok s2(2) sp mapping_ok_ssd [OF sp(1)] same_data_shape [OF d] by (simp add: host_ok_def get_maptbl_ent_def)
  have idx: "page_index ?spp p = wp_index ?spp ?w" using page_index_wp [OF p(2)] .
  obtain f1 f2 mt rm where f: "set_maptbl_ent ?g lpn p = Some f1" "set_rmap_ent f1 lpn p = Some f2" "f2 = ?g\<lparr> maptbl := mt, rmap := rm \<rparr>"
    "mapping_ok f2" "\<And>m. get_maptbl_ent f2 m = (if m = lpn then Some p else get_maptbl_ent ?g m)" "get_rmap_ent f2 p = Some lpn"
    by (rule host_ok_tables [OF ok2, of p lpn]) (use p(3) pf(4) idx lpn sp in auto)
  let ?f3 = "put_wp f2 USER_IO (wp_next ?spp ?w)"
  have adv: "advance_write_pointer f2 USER_IO = Some ?f3"
    using advance_write_pointer_cases(1) [of f2 ?w USER_IO] f(3) D(3,8,11) room sp by (simp add: get_wp_def)
  note n = wp_next_ok [OF D(3,8) room]
  have gm: "get_maptbl_ent ?f3 m = (if m = lpn then Some p else get_maptbl_ent ftl m)" for m
    using f(5) by (simp add: put_wp_def get_maptbl_ent_def)
  have rm: "get_rmap_ent ?f3 p = Some lpn" using f(6) by (simp add: put_wp_def get_rmap_ent_def ppa2pgidx_def)
  have ok3: "host_ok ?f3"
  proof -
    have prog: "page_index ?spp q < wp_index ?spp (wp_next ?spp ?w)" if "get_maptbl_ent ?f3 m = Some q" "mapped_ppa q" "g_blk q = wp_blk ?w" for m q
    proof (cases "m = lpn")
      case True
      then show ?thesis using that(1) gm idx n(2) by simp
    next
      case False
      then have "page_index ?spp q < wp_index ?spp ?w" using that gm ok unfolding host_ok_def by auto
      then show ?thesis using n(2) by simp
    qed
    have ff: "ftl_ssd ?f3 = s2" "user_wp ?f3 = wp_next ?spp ?w" using f(3) by (simp_all add: put_wp_def)
    have "mapping_ok ?f3" using f(4) mapping_ok_wp by simp
    moreover have "fields_fit ?spp" "pls_per_lun ?spp = 1" "ssd_shape s2" "ssd_usable s2" "0 < max_ch_xfer_size ?spp"
      using ok2 sp by (simp_all add: host_ok_def)
    ultimately show ?thesis unfolding host_ok_def ff sp(1) n(4) using n(1) prog by blast
  qed
  have "write_page b now junk lpn (t, ftl) = Some (t2, ?f3)"
    using b cred p(1) s1(1) s2(1) f(1,2) adv by (simp add: write_page_def check_and_refill_write_credit_def write_target_def)
  moreover have "stored ftl lpn p ?f3" using gm rm by (simp add: stored_def)
  moreover have "(g_ch p, g_lun p, g_pg p) = stripe ?spp (wp_index ?spp ?w)" using stripe_index [OF D(3,8)] pf by simp
  ultimately show ?thesis using ok3 pf f(3) sp
    by (intro exI [of _ t2] exI [of _ ?f3] exI [of _ p]) (simp add: put_wp_def)
qed

lemma conv_write_pages_ok:
  assumes ok: "host_ok ftl" and b: "b \<noteq> HYBRID_SSD" and cred: "write_credits (wfc ftl) \<noteq> 0" and lpn: "lpn + n \<le> tt_pgs (spp_of ftl)"
    and room: "wp_index (spp_of ftl) (user_wp ftl) + n < pgs_per_line (spp_of ftl)"
  shows "\<exists>t' ftl'. foldM (write_page b now junk) (map (\<lambda>i. lpn + i) [0..<n]) (t, ftl) = Some (t', ftl') \<and> host_ok ftl'
    \<and> (\<forall>m. m < lpn \<or> lpn + n \<le> m \<longrightarrow> get_maptbl_ent ftl' m = get_maptbl_ent ftl m)
    \<and> (\<forall>i < n. \<exists>p. get_maptbl_ent ftl' (lpn + i) = Some p \<and> (g_ch p, g_lun p, g_pg p) = stripe (spp_of ftl) (wp_index (spp_of ftl) (user_wp ftl) + i)
         \<and> g_pl p = 0 \<and> g_blk p = wp_blk (user_wp ftl))
    \<and> wp_index (spp_of ftl) (user_wp ftl') = wp_index (spp_of ftl) (user_wp ftl) + n \<and> wp_blk (user_wp ftl') = wp_blk (user_wp ftl)
    \<and> spp_of ftl' = spp_of ftl \<and> wfc ftl' = wfc ftl \<and> lm ftl' = lm ftl \<and> cp ftl' = cp ftl
    \<and> write_buffer (ftl_ssd ftl') = write_buffer (ftl_ssd ftl)"
  using lpn room
proof (induction n)
  case 0
  then show ?case using ok by simp
next
  case (Suc n)
  then obtain t1 f1 where f1: "foldM (write_page b now junk) (map (\<lambda>i. lpn + i) [0..<n]) (t, ftl) = Some (t1, f1)" "host_ok f1"
    "\<forall>m. m < lpn \<or> lpn + n \<le> m \<longrightarrow> get_maptbl_ent f1 m = get_maptbl_ent ftl m"
    "\<forall>i < n. \<exists>p. get_maptbl_ent f1 (lpn + i) = Some p \<and> (g_ch p, g_lun p, g_pg p) = stripe (spp_of ftl) (wp_index (spp_of ftl) (user_wp ftl) + i)
         \<and> g_pl p = 0 \<and> g_blk p = wp_blk (user_wp ftl)"
    "wp_index (spp_of ftl) (user_wp f1) = wp_index (spp_of ftl) (user_wp ftl) + n" "wp_blk (user_wp f1) = wp_blk (user_wp ftl)"
    "spp_of f1 = spp_of ftl" "wfc f1 = wfc ftl" "lm f1 = lm ftl" "cp f1 = cp ftl" "write_buffer (ftl_ssd f1) = write_buffer (ftl_ssd ftl)" by auto
  have r: "wp_index (spp_of f1) (user_wp f1) + 1 < pgs_per_line (spp_of f1)" using Suc.prems f1(5,7) by simp
  obtain t2 f2 p where f2: "write_page b now junk (lpn + n) (t1, f1) = Some (t2, f2)" "host_ok f2" "stored f1 (lpn + n) p f2"
    "(g_ch p, g_lun p, g_pg p) = stripe (spp_of f1) (wp_index (spp_of f1) (user_wp f1))" "g_pl p = 0" "g_blk p = wp_blk (user_wp f1)"
    "user_wp f2 = wp_next (spp_of f1) (user_wp f1)" "spp_of f2 = spp_of f1" "wfc f2 = wfc f1" "lm f2 = lm f1" "cp f2 = cp f1" "write_buffer (ftl_ssd f2) = write_buffer (ftl_ssd f1)"
    using write_page_ok [OF f1(2) b _ _ r, of "lpn + n" now junk t1] cred Suc.prems(1) f1(7,8) by auto
  have D: "geometry_ok (spp_of f1)" "wp_ok (spp_of f1) (user_wp f1)" using host_okD [OF f1(2)] by simp_all
  note n = wp_next_ok [OF D r]
  have look: "get_maptbl_ent f2 m = (if m = lpn + n then Some p else get_maptbl_ent f1 m)" for m using f2(3) by (simp add: stored_def)
  have at: "\<exists>p. get_maptbl_ent f2 (lpn + i) = Some p \<and> (g_ch p, g_lun p, g_pg p) = stripe (spp_of ftl) (wp_index (spp_of ftl) (user_wp ftl) + i)
      \<and> g_pl p = 0 \<and> g_blk p = wp_blk (user_wp ftl)" if "i < Suc n" for i
  proof (cases "i = n")
    case True
    then show ?thesis using look f2(4-6) f1(5-7) by (intro exI [of _ p]) simp
  next
    case False
    then show ?thesis using that look f1(4) by (simp add: less_Suc_eq)
  qed
  show ?case
  proof (intro exI conjI)
    show "foldM (write_page b now junk) (map (\<lambda>i. lpn + i) [0..<Suc n]) (t, ftl) = Some (t2, f2)"
      using f1(1) f2(1) by (simp add: foldM_append)
    show "\<forall>m. m < lpn \<or> lpn + Suc n \<le> m \<longrightarrow> get_maptbl_ent f2 m = get_maptbl_ent ftl m" using look f1(3) by auto
    show "\<forall>i < Suc n. \<exists>p. get_maptbl_ent f2 (lpn + i) = Some p \<and> (g_ch p, g_lun p, g_pg p) = stripe (spp_of ftl) (wp_index (spp_of ftl) (user_wp ftl) + i)
      \<and> g_pl p = 0 \<and> g_blk p = wp_blk (user_wp ftl)" using at by blast
    show "wp_index (spp_of ftl) (user_wp f2) = wp_index (spp_of ftl) (user_wp ftl) + Suc n" using f2(7) n(2) f1(5,7) by simp
    show "wp_blk (user_wp f2) = wp_blk (user_wp ftl)" using f2(7) n(4) f1(6) by simp
  qed (use f1 f2 in simp_all)
qed

lemma host_ok_buffer: "host_ok ftl \<Longrightarrow> host_ok (ftl\<lparr> ftl_ssd := (ftl_ssd ftl)\<lparr> write_buffer := buf \<rparr> \<rparr>)"
  using mapping_ok_ssd [of "(ftl_ssd ftl)\<lparr> write_buffer := buf \<rparr>" ftl]
  by (simp add: host_ok_def ssd_shape_def ssd_usable_def flash_data_def get_maptbl_ent_def)

lemma share_0: "share 0 (f # fs) ! 0 = f" "length (share 0 fs) = length fs"
  by (simp_all add: share_def)

section \<open>A fresh namespace\<close>

lemma ssd_init_runs:
  assumes "chmodel_init (ch_bandwidth spp) \<noteq> None" and "chmodel_init (pcie_bandwidth spp) \<noteq> None"
  shows "\<exists>s. ssd_init junk spp cpu = Some s"
proof -
  obtain ch where "ssd_init_ch junk spp = Some ch" using assms(1) by (auto simp: ssd_init_ch_def)
  then have "\<exists>chs. foldM (\<lambda>_ chs. Some (chs @ [ch])) [0..<nchs spp] [] = Some chs"
    using foldM_replicate [of "Some ch" "[0..<nchs spp]" "[]"] by simp
  then show ?thesis using assms(2) \<open>ssd_init_ch junk spp = Some ch\<close> by (auto simp: ssd_init_def ssd_init_pcie_def)
qed

lemma init_line_mgmt_runs:
  assumes "blks_per_pl spp = tt_lines spp"
  shows "\<exists>m. init_line_mgmt spp = Some m"
proof -
  let ?fresh = "\<lambda>i. \<lparr> line_id = i, line_ipc = 0, line_vpc = 0, line_pos = 0 \<rparr>"
  have loop: "foldM (\<lambda>i lm. Some (lm\<lparr> lines := lines lm @ [?fresh i],
              free_line_list := free_line_list lm @ [i], free_line_cnt := free_line_cnt lm + 1 \<rparr>)) [0..<n] lm0
      = Some (lm0\<lparr> lines := lines lm0 @ map ?fresh [0..<n], free_line_list := free_line_list lm0 @ [0..<n],
              free_line_cnt := free_line_cnt lm0 + of_nat n \<rparr>)" for n lm0
    by (induction n) (simp_all add: foldM_append algebra_simps)
  show ?thesis using assms by (simp add: init_line_mgmt_def Let_def loop)
qed

lemma prepare_write_pointer_ok:
  assumes "lm_inv pgs U (lm ftl)" and "free_line_list (lm ftl) = l # ls" and "io = USER_IO \<or> io = GC_IO"
  shows "\<exists>m. prepare_write_pointer ftl io = Some (put_wp (ftl\<lparr> lm := m \<rparr>) io (line_start l)) \<and> lm_inv pgs (insert l U) m
    \<and> free_line_list m = ls \<and> lines m = lines (lm ftl)"
proof -
  let ?m = "(lm ftl)\<lparr> free_line_list := ls, free_line_cnt := free_line_cnt (lm ftl) - 1 \<rparr>"
  have n: "lm_get_next_free_line (lm ftl) = (Some l, ?m)" using assms(2) by (simp add: lm_get_next_free_line_def)
  note ok = lm_get_next_free_line_ok [OF assms(1) n]
  have id: "line_id (lines (lm ftl) ! l) = l" using assms(1) ok(3) by (simp add: lm_inv_def lm_pages_def)
  have "prepare_write_pointer ftl io = Some (put_wp (ftl\<lparr> lm := ?m \<rparr>) io (line_start l))"
    using n id ok(3) assms(3) by (auto simp: prepare_write_pointer_def get_next_free_line_def get_wp_def arr_get_def line_start_def)
  then show ?thesis using ok(1,4) by (intro exI [of _ ?m]) simp
qed

text \<open>What initialisation leaves of an FTL.\<close>

definition fresh_ftl :: "ssdparams \<Rightarrow> conv_ftl \<Rightarrow> bool" where
  "fresh_ftl spp f \<longleftrightarrow> host_ok f \<and> spp_of f = spp \<and> maptbl f = replicate (tt_pgs spp) UNMAPPED_PPA \<and> rmap f = replicate (tt_pgs spp) INVALID_LPN
     \<and> user_wp f = line_start 0 \<and> gc_wp f = line_start 1 \<and> lm_inv (pgs_per_line spp) {0, 1} (lm f) \<and> free_line_list (lm f) = [2..<blks_per_pl spp]
     \<and> wfc f = \<lparr> write_credits = of_nat (pgs_per_line spp), credits_to_refill = of_nat (pgs_per_line spp) \<rparr>"

lemma conv_init_ftl_ok:
  assumes b: "b \<noteq> HYBRID_SSD" and sane: "sane_params (ssd_sp s)" and fit: "fields_fit (ssd_sp s)" "pls_per_lun (ssd_sp s) = 1" "0 < max_ch_xfer_size (ssd_sp s)"
    and shape: "ssd_shape s" "ssd_usable s" and size': "0 < pgs_per_line (ssd_sp s)" "2 \<le> blks_per_pl (ssd_sp s)"
  shows "\<exists>f. conv_init_ftl b raw cpp s = Some f \<and> fresh_ftl (ssd_sp s) f \<and> ftl_ssd f = s \<and> cp f = cpp"
proof -
  let ?spp = "ssd_sp s"
  have geo: "geometry_ok ?spp" using sane by (simp add: sane_params_def)
  then have "blks_per_pl ?spp = tt_lines ?spp" using fit(2) by (simp add: geometry_ok_def)
  then obtain m where m: "init_line_mgmt ?spp = Some m" using init_line_mgmt_runs by blast
  note lm = init_line_mgmt_ok [OF m]
  let ?f1 = "raw\<lparr> ftl_ssd := s, cp := cpp, maptbl := replicate (tt_pgs ?spp) UNMAPPED_PPA, rmap := replicate (tt_pgs ?spp) INVALID_LPN,
    user_wp := null_wp, gc_wp := null_wp, lm := m, wfc := \<lparr> write_credits = of_nat (pgs_per_line ?spp), credits_to_refill = of_nat (pgs_per_line ?spp) \<rparr> \<rparr>"
  obtain k where k: "blks_per_pl ?spp = Suc (Suc k)" using size'(2) by (metis add_2_eq_Suc le_Suc_ex)
  have fl: "free_line_list (lm ?f1) = 0 # 1 # [2..<blks_per_pl ?spp]" unfolding k using lm(3) k
    by (simp add: upt_conv_Cons numeral_2_eq_2 del: upt_Suc)
  obtain m1 where m1: "prepare_write_pointer ?f1 USER_IO = Some (put_wp (?f1\<lparr> lm := m1 \<rparr>) USER_IO (line_start 0))" "lm_inv (pgs_per_line ?spp) {0} m1"
    "free_line_list m1 = 1 # [2..<blks_per_pl ?spp]"
    using prepare_write_pointer_ok [of "pgs_per_line ?spp" "{}" ?f1 0 _ USER_IO] lm(1) fl by auto
  let ?f2 = "put_wp (?f1\<lparr> lm := m1 \<rparr>) USER_IO (line_start 0)"
  obtain m2 where m2: "prepare_write_pointer ?f2 GC_IO = Some (put_wp (?f2\<lparr> lm := m2 \<rparr>) GC_IO (line_start 1))" "lm_inv (pgs_per_line ?spp) {1, 0} m2"
    "free_line_list m2 = [2..<blks_per_pl ?spp]"
    using prepare_write_pointer_ok [of "pgs_per_line ?spp" "{0}" ?f2 1 _ GC_IO] m1(2,3) by (auto simp: put_wp_def)
  let ?f = "put_wp (?f2\<lparr> lm := m2 \<rparr>) GC_IO (line_start 1)"
  have "conv_init_ftl b raw cpp s = Some ?f"
    using b m m1(1) m2(1) by (simp add: conv_init_ftl_def init_lines_def init_maptbl_def init_rmap_def init_write_flow_control_def)
  moreover have fields: "ftl_ssd ?f = s" "maptbl ?f = replicate (tt_pgs ?spp) UNMAPPED_PPA" "rmap ?f = replicate (tt_pgs ?spp) INVALID_LPN"
    "user_wp ?f = line_start 0" "gc_wp ?f = line_start 1" "lm ?f = m2" "cp ?f = cpp"
    "wfc ?f = \<lparr> write_credits = of_nat (pgs_per_line ?spp), credits_to_refill = of_nat (pgs_per_line ?spp) \<rparr>"
    by (simp_all add: put_wp_def)
  have "host_ok ?f"
  proof -
    have un: "\<not> mapped_ppa q" if "get_maptbl_ent ?f m = Some q" for m q
      using that unfolding get_maptbl_ent_def fields by (auto simp: arr_get_def mapped_ppa_def split: if_splits)
    then have "mapping_ok ?f" using sane unfolding mapping_ok_def map_consistent_def fields by (simp add: fields) blast
    moreover have "wp_ok ?spp (line_start 0)"
      using size' geo by (auto simp: wp_ok_def line_start_def geometry_ok_def intro!: Nat.gr0I)
    ultimately show ?thesis using fit shape un unfolding host_ok_def fields by blast
  qed
  then have "fresh_ftl ?spp ?f" unfolding fresh_ftl_def fields using m2(2,3) by (simp add: insert_commute)
  ultimately show ?thesis using fields by blast
qed

lemma foldM_collect:
  assumes "\<And>i. i \<in> set is \<Longrightarrow> \<exists>x. g i = Some x \<and> P x"
  shows "\<exists>ys. foldM (\<lambda>i xs. do { x \<leftarrow> g i; Some (xs @ [x]) }) is acc = Some (acc @ ys) \<and> length ys = length is \<and> (\<forall>y \<in> set ys. P y)"
  using assms
proof (induction "is" arbitrary: acc)
  case (Cons i "is")
  obtain x where x: "g i = Some x" "P x" using Cons.prems [of i] by auto
  from Cons obtain ys where "foldM (\<lambda>i xs. do { x \<leftarrow> g i; Some (xs @ [x]) }) is (acc @ [x]) = Some (acc @ [x] @ ys)" "length ys = length is" "\<forall>y \<in> set ys. P y"
    by (metis append.assoc list.set_intros(2))
  then show ?case using x by (intro exI [of _ "x # ys"]) simp
qed simp

lemma host_ok_shared:
  assumes "host_ok f" and "ch_usable c"
  shows "host_ok (f\<lparr> ftl_ssd := (ftl_ssd f)\<lparr> ssd_pcie := c, write_buffer := buf \<rparr> \<rparr>)"
  using mapping_ok_ssd [of "(ftl_ssd f)\<lparr> ssd_pcie := c, write_buffer := buf \<rparr>" f] assms
  by (simp add: host_ok_def ssd_shape_def ssd_usable_def flash_data_def get_maptbl_ent_def)

lemma share_fresh:
  assumes "\<forall>f \<in> set fs. fresh_ftl spp f"
  shows "\<forall>f \<in> set (share 0 fs). fresh_ftl spp f \<and> ssd_pcie (ftl_ssd f) = ssd_pcie (ftl_ssd (fs ! 0)) \<and> write_buffer (ftl_ssd f) = write_buffer (ftl_ssd (fs ! 0))"
proof (cases fs)
  case (Cons f0 fr)
  then have "host_ok f0" using assms by (simp add: fresh_ftl_def)
  then have "ch_usable (ssd_pcie (ftl_ssd f0))" by (simp add: host_ok_def ssd_usable_def)
  then show ?thesis using assms host_ok_shared Cons by (auto simp: share_def fresh_ftl_def)
qed (simp add: share_def)

lemma conv_init_namespace_ok:
  fixes mac :: build_macros
  assumes b: "b \<noteq> HYBRID_SSD" and spp: "ssd_init_params b mac stack size' (SSD_PARTITIONS mac) = Some spp"
    and fit: "fields_fit spp" "pls_per_lun spp = 1" "0 < max_ch_xfer_size spp" and small: "8 * device_pages spp < 2 ^ 64" and ints: "int_products_fit spp"
    and line: "0 < pgs_per_line spp" "2 \<le> blks_per_pl spp" and pcent: "OP_AREA_PBA_PCENT mac \<noteq> 0"
    and bw: "chmodel_init (ch_bandwidth spp) \<noteq> None" "chmodel_init (pcie_bandwidth spp) \<noteq> None"
      "0 < u32 (BANDWIDTH_TO_MAX_CREDITS (ch_bandwidth spp))" "0 < u32 (BANDWIDTH_TO_MAX_CREDITS (pcie_bandwidth spp))"
  obtains ns where "conv_init_namespace b mac stack junk raw raw_lm raw_wp id' size' mapped cpu = Some ns"
    "ns_csi ns = NVME_CSI_NVM" "ns_proc_io_cmd ns = conv_proc_nvme_io_cmd" "ns_nr_parts ns = SSD_PARTITIONS mac" "ns_mapped ns = mapped"
    "ns_size ns = u64 (size' * 100) div OP_AREA_PBA_PCENT mac" "length (ns_ftls ns) = SSD_PARTITIONS mac"
    "\<forall>f \<in> set (ns_ftls ns). fresh_ftl spp f \<and> ssd_pcie (ftl_ssd f) = ssd_pcie (ftl_ssd (ns_ftls ns ! 0))
       \<and> write_buffer (ftl_ssd f) = write_buffer (ftl_ssd (ns_ftls ns ! 0))"
proof -
  have "geometry_ok spp" "tt_pgs spp = device_pages spp"
    using ssd_params_geometry [OF spp _ ints small] line(2) by simp_all
  then have sane: "sane_params spp" using small by (simp add: sane_params_def)
  let ?luns = "NAND_CHANNELS mac * LUNS_PER_NAND_CH mac"
  let ?g = "\<lambda>i. do { s \<leftarrow> ssd_init (junk i) spp cpu;
         conv_init_ftl b ((raw i)\<lparr> lunlm := map (raw_lm i) [0..<?luns], lunwp := map (raw_wp i) [0..<?luns] \<rparr>) (conv_init_params mac) s }"
  have g: "\<exists>f. ?g i = Some f \<and> fresh_ftl spp f" for i
  proof -
    obtain s where s: "ssd_init (junk i) spp cpu = Some s" using ssd_init_runs [OF bw(1,2)] by blast
    note si = ssd_init_ok [OF s]
    have "ssd_sp s = spp" "ssd_shape s" "ssd_usable s" using si(1,2) si(5) [OF bw(3,4)] by simp_all
    then show ?thesis using conv_init_ftl_ok [OF b, of s] s sane fit line by auto
  qed
  obtain fs where fs: "foldM (\<lambda>i xs. do { x \<leftarrow> ?g i; Some (xs @ [x]) }) [0..<SSD_PARTITIONS mac] [] = Some ([] @ fs)"
    "length fs = length [0..<SSD_PARTITIONS mac]" "\<forall>f \<in> set fs. fresh_ftl spp f"
    using foldM_collect [of "[0..<SSD_PARTITIONS mac]" ?g "fresh_ftl spp" "[]"] g by blast
  have run: "conv_init_namespace b mac stack junk raw raw_lm raw_wp id' size' mapped cpu = Some
     \<lparr> ns_id = id', ns_csi = NVME_CSI_NVM, ns_size = u64 (size' * 100) div OP_AREA_PBA_PCENT mac, ns_mapped = mapped, ns_nr_parts = SSD_PARTITIONS mac,
       ns_ftls = share 0 fs, ns_proc_io_cmd = conv_proc_nvme_io_cmd \<rparr>"
    using spp fs(1) pcent by (simp add: conv_init_namespace_def conv_init_params_def div_trap_def)
  have first: "share 0 fs ! 0 = fs ! 0" if "f \<in> set (share 0 fs)" for f
    using that by (cases fs) (simp_all add: share_0, simp add: share_def)
  have all: "\<forall>f \<in> set (share 0 fs). fresh_ftl spp f \<and> ssd_pcie (ftl_ssd f) = ssd_pcie (ftl_ssd (share 0 fs ! 0))
       \<and> write_buffer (ftl_ssd f) = write_buffer (ftl_ssd (share 0 fs ! 0))"
    using share_fresh [OF fs(3)] first by metis
  show ?thesis
    by (rule that [OF run]) (use all fs(2) in \<open>simp_all add: share_0\<close>)
qed

section \<open>The reads of a request\<close>

definition same_fpg :: "ssdparams \<Rightarrow> ppa \<Rightarrow> ppa \<Rightarrow> bool" where
  "same_fpg spp p q \<longleftrightarrow> h_blk_in_ssd q = h_blk_in_ssd p \<and> g_pg q div pgs_per_flashpg spp = g_pg p div pgs_per_flashpg spp"

text \<open>Pages of one flash page that follow each other are read together.\<close>

function join_reads :: "ssdparams \<Rightarrow> ppa list \<Rightarrow> (ppa \<times> nat) list" where
  "join_reads spp [] = []"
| "join_reads spp (p # ps) = (p, pgsz spp * (1 + length (takeWhile (same_fpg spp p) ps))) # join_reads spp (dropWhile (same_fpg spp p) ps)"
  by pat_completeness auto
termination by (relation "measure (\<lambda>(_, ps). length ps)") (auto simp: le_imp_less_Suc length_dropWhile_le)

lemma join_reads_bytes: "sum_list (map snd (join_reads spp ps)) = pgsz spp * length ps"
proof (induction spp ps rule: join_reads.induct)
  case (2 spp p ps)
  have "length ps = length (takeWhile (same_fpg spp p) ps) + length (dropWhile (same_fpg spp p) ps)"
    by (metis length_append takeWhile_dropWhile_id)
  then show ?case using 2 by (simp add: algebra_simps)
qed simp

lemma join_reads_pages: "(p, n) \<in> set (join_reads spp ps) \<Longrightarrow> p \<in> set ps \<and> (0 < pgsz spp \<longrightarrow> 0 < n)"
  by (induction spp ps rule: join_reads.induct) (auto dest: set_dropWhileD)

definition parts_ok :: "ssdparams \<Rightarrow> conv_ftl list \<Rightarrow> bool" where
  "parts_ok spp fs \<longleftrightarrow> 0 < pgs_per_flashpg spp \<and> (\<forall>f \<in> set fs. host_ok f \<and> spp_of f = spp)"

text \<open>What a read leaves alone: all but the times.\<close>

definition same_tables :: "conv_ftl \<Rightarrow> conv_ftl \<Rightarrow> bool" where
  "same_tables f f' \<longleftrightarrow> maptbl f' = maptbl f \<and> rmap f' = rmap f \<and> user_wp f' = user_wp f \<and> gc_wp f' = gc_wp f \<and> lm f' = lm f
     \<and> flash_data (ftl_ssd f') = flash_data (ftl_ssd f)"

lemma same_tables_trans: "list_all2 same_tables a b \<Longrightarrow> list_all2 same_tables b c \<Longrightarrow> list_all2 same_tables a c"
  by (rule list_all2_trans) (auto simp: same_tables_def)

lemma host_ok_same_data:
  assumes "host_ok f" and "same_data (ftl_ssd f) s" and "ssd_usable s"
  shows "host_ok (f\<lparr> ftl_ssd := s \<rparr>)"
proof -
  have sp: "ssd_sp s = spp_of f" using assms(2) by (simp add: same_data_def)
  show ?thesis using assms sp mapping_ok_ssd [OF sp] same_data_shape [OF assms(2)] by (simp add: host_ok_def get_maptbl_ent_def)
qed

lemma share_ok:
  assumes ok: "parts_ok spp fs" and k: "k < length fs" and f: "host_ok f" "spp_of f = spp" "same_tables (fs ! k) f"
  shows "parts_ok spp (share k (fs[k := f]))" and "list_all2 same_tables fs (share k (fs[k := f]))"
proof -
  have c: "ch_usable (ssd_pcie (ftl_ssd f))" using f(1) by (simp add: host_ok_def ssd_usable_def)
  have "\<forall>g \<in> set (fs[k := f]). host_ok g \<and> spp_of g = spp"
    using ok f(1,2) set_update_subset_insert [of fs k f] by (auto simp: parts_ok_def)
  then show "parts_ok spp (share k (fs[k := f]))" using ok k host_ok_shared [OF _ c] by (auto simp: parts_ok_def share_def)
  show "list_all2 same_tables fs (share k (fs[k := f]))"
    using f(3) k by (auto simp: list_all2_conv_all_nth share_def nth_list_update same_tables_def flash_data_def)
qed

lemma issue_read_ok:
  assumes ok: "parts_ok spp fs" and k: "k < length fs" and p: "in_device spp p" "0 < n"
  shows "\<exists>t' fs'. issue_read b now k t n p (latest, fs) = Some (max t' latest, fs') \<and> parts_ok spp fs' \<and> list_all2 same_tables fs fs'"
proof -
  define f where "f = fs ! k"
  have f: "host_ok f" "spp_of f = spp" using ok k by (simp_all add: parts_ok_def f_def)
  note D = host_okD [OF f(1)]
  have "0 < max_ch_xfer_size (spp_of f)" using f(1) by (simp add: host_ok_def)
  then have "command_ok (ftl_ssd f) (user_cmd NAND_READ t n p)"
    using in_device_mapped [OF p(1)] D(5) f(2) p(2) by (simp add: command_ok_def user_cmd_def)
  moreover obtain lun where "get_lun (ftl_ssd f) (nand_ppa (user_cmd NAND_READ t n p)) = Some lun"
    using ssd_shape_get_lun [OF D(6), of p] p(1) f(2) by (auto simp: in_device_def user_cmd_def)
  ultimately obtain t' s where s: "ssd_advance_nand b now (ftl_ssd f) (user_cmd NAND_READ t n p) = Some (t', s)" "same_data (ftl_ssd f) s" "ssd_usable s"
    using ssd_advance_nand_ok [OF D(7), of "user_cmd NAND_READ t n p" lun b now] by blast
  have g: "host_ok (f\<lparr> ftl_ssd := s \<rparr>)" "spp_of (f\<lparr> ftl_ssd := s \<rparr>) = spp" "same_tables (fs ! k) (f\<lparr> ftl_ssd := s \<rparr>)"
    using host_ok_same_data [OF f(1) s(2,3)] s(2) f(2) by (simp_all add: same_data_def same_tables_def f_def)
  show ?thesis using share_ok [OF ok k g] s(1) k by (intro exI [of _ t'] exI [of _ "share k (fs[k := f\<lparr> ftl_ssd := s \<rparr>])"])
    (simp add: issue_read_def arr_get_def f_def)
qed

text \<open>The physical pages of the logical ones of FTL \<open>f\<close>, without the unmapped.\<close>

definition mapped_pages :: "conv_ftl \<Rightarrow> nat \<Rightarrow> nat list \<Rightarrow> ppa list" where
  "mapped_pages f nparts lpns = filter mapped_ppa (map (\<lambda>l. maptbl f ! (l div nparts)) lpns)"

definition issue_reads :: "base_ssd \<Rightarrow> nat \<Rightarrow> nat \<Rightarrow> nat \<Rightarrow> (ppa \<times> nat) list \<Rightarrow> nat \<times> conv_ftl list \<Rightarrow> (nat \<times> conv_ftl list) option" where
  "issue_reads b now k t = foldM (\<lambda>(p, n). issue_read b now k t n p)"

text \<open>The reads that are still to come while \<open>xfer\<close> bytes at \<open>prev\<close> are pending.\<close>

definition pending :: "ssdparams \<Rightarrow> ppa \<Rightarrow> nat \<Rightarrow> ppa list \<Rightarrow> (ppa \<times> nat) list" where
  "pending spp prev xfer ps = (if 0 < xfer
     then (prev, xfer + pgsz spp * length (takeWhile (same_fpg spp prev) ps)) # join_reads spp (dropWhile (same_fpg spp prev) ps)
     else join_reads spp ps)"

lemma mapped_valid:
  assumes "host_ok f" and "l < tt_pgs (spp_of f)" and "mapped_ppa (maptbl f ! l)"
  shows "in_device (spp_of f) (maptbl f ! l)"
proof -
  note D = host_okD [OF assms(1)]
  have "get_maptbl_ent f l = Some (maptbl f ! l)" using D(9) assms(2) by (simp add: get_maptbl_ent_def arr_get_def)
  then have "rmap_legal f (maptbl f ! l)"
    using D(1) assms(3) unfolding mapping_ok_def map_consistent_def by blast
  then show ?thesis by (simp add: rmap_legal_def valid_ppa_in_device)
qed

lemma read_pages_pending:
  assumes "parts_ok spp fs" and "k < length fs" and "0 < nparts" and "maptbl (fs ! k) = tbl" and "length tbl = tt_pgs spp"
    and "\<forall>l \<in> set lpns. l div nparts < tt_pgs spp" and "mapped_ppa prev \<longleftrightarrow> 0 < xfer" and "0 < xfer \<longrightarrow> in_device spp prev"
    and "xfer + pgsz spp * length lpns < 2 ^ 32"
  shows "Option.bind (foldM (read_page b now t nparts k) lpns ((prev, xfer), latest, fs)) (finish_read b now t k)
     = issue_reads b now k t (pending spp prev xfer (filter mapped_ppa (map (\<lambda>l. tbl ! (l div nparts)) lpns))) (latest, fs)"
  using assms
proof (induction lpns arbitrary: prev xfer latest fs)
  case Nil
  then show ?case by (simp add: pending_def issue_reads_def finish_read_def)
next
  case (Cons l lpns)
  define ps where "ps = filter mapped_ppa (map (\<lambda>l. tbl ! (l div nparts)) lpns)"
  define cur where "cur = tbl ! (l div nparts)"
  have f: "host_ok (fs ! k)" "spp_of (fs ! k) = spp" using Cons.prems(1,2) by (simp_all add: parts_ok_def)
  have sz: "pgsz spp = 4096" and fpg: "0 < pgs_per_flashpg spp" using host_okD(3) [OF f(1)] f(2) Cons.prems(1) by (simp_all add: geometry_ok_def parts_ok_def)
  have get: "get_maptbl_ent (fs ! k) (l div nparts) = Some cur" using Cons.prems(4-6) by (simp add: get_maptbl_ent_def arr_get_def cur_def)
  have dev: "in_device spp cur" if "mapped_ppa cur" using mapped_valid [OF f(1)] that Cons.prems(4,6) f(2) by (simp add: cur_def)
  have same: "is_same_flash_page (fs ! k) cur prev = Some (same_fpg spp prev cur)"
    using fpg f(2) by (simp add: is_same_flash_page_def same_fpg_def div_trap_def)
  have IH: "Option.bind (foldM (read_page b now t nparts k) lpns ((prev', xfer'), latest', fs')) (finish_read b now t k)
     = issue_reads b now k t (pending spp prev' xfer' ps) (latest', fs')"
    if "parts_ok spp fs'" "list_all2 same_tables fs fs'" "mapped_ppa prev' \<longleftrightarrow> 0 < xfer'" "0 < xfer' \<longrightarrow> in_device spp prev'"
      "xfer' + 4096 * length lpns < 2 ^ 32" for prev' xfer' latest' fs'
  proof -
    have "length fs' = length fs" "maptbl (fs' ! k) = tbl"
      using that(2) Cons.prems(2,4) by (auto simp: list_all2_conv_all_nth same_tables_def)
    then show ?thesis using Cons.IH [of fs' prev' xfer' latest'] that Cons.prems sz by (simp add: ps_def)
  qed
  have refl: "list_all2 same_tables fs fs" by (rule list_all2_refl) (simp add: same_tables_def)
  have step: "read_page b now t nparts k l ((prev, xfer), latest, fs) =
     (if \<not> mapped_ppa cur then Some ((prev, xfer), latest, fs)
      else if 0 < xfer \<and> same_fpg spp prev cur then Some ((prev, xfer + 4096), latest, fs)
      else do { (latest, fs) \<leftarrow> (if 0 < xfer then issue_read b now k t xfer prev (latest, fs) else Some (latest, fs)); Some ((cur, 4096), latest, fs) })"
  proof -
    have "valid_ppa (fs ! k) cur" if "mapped_ppa cur" using dev [OF that] f(2) by (simp add: valid_ppa_in_device)
    moreover have "u32 (xfer + 4096) = xfer + 4096" using Cons.prems(9) sz by (simp add: u32_def)
    ultimately show ?thesis using get same Cons.prems(2,3,7) f(2) sz by (simp add: read_page_def arr_get_def div_trap_def)
  qed
  show ?case
  proof (cases "mapped_ppa cur")
    case False
    then show ?thesis using step IH [OF Cons.prems(1) refl Cons.prems(7,8)] Cons.prems(9) sz by (simp add: ps_def [symmetric] cur_def [symmetric])
  next
    case True
    have goal: "filter mapped_ppa (map (\<lambda>l. tbl ! (l div nparts)) (l # lpns)) = cur # ps" using True by (simp add: ps_def cur_def)
    have next': "pending spp cur 4096 ps = join_reads spp (cur # ps)" by (simp add: pending_def sz)
    have b: "4096 + 4096 * length lpns < 2 ^ 32" using Cons.prems(9) sz by simp
    consider "0 < xfer" "same_fpg spp prev cur" | "0 < xfer" "\<not> same_fpg spp prev cur" | "xfer = 0" by blast
    then show ?thesis
    proof cases
      case 1
      then show ?thesis unfolding goal using step True IH [OF Cons.prems(1) refl, of prev "xfer + 4096" latest] Cons.prems(7-9) sz
        by (simp add: pending_def add.assoc)
    next
      case 2
      obtain t' fs' where i: "issue_read b now k t xfer prev (latest, fs) = Some (max t' latest, fs')" "parts_ok spp fs'" "list_all2 same_tables fs fs'"
        using issue_read_ok [OF Cons.prems(1,2), of prev xfer b now t latest] 2(1) Cons.prems(8) by blast
      show ?thesis unfolding goal using step True 2 i(1) IH [OF i(2,3), of cur 4096 "max t' latest"] dev b
        by (simp add: pending_def issue_reads_def sz)
    next
      case 3
      then show ?thesis unfolding goal using step True IH [OF Cons.prems(1) refl, of cur 4096 latest] dev b next'
        by (simp add: pending_def sz)
    qed
  qed
qed

definition part_reads :: "ssdparams \<Rightarrow> conv_ftl list \<Rightarrow> nat \<Rightarrow> nat \<Rightarrow> nat \<Rightarrow> (ppa \<times> nat) list" where
  "part_reads spp fs nparts end_lpn first = join_reads spp (mapped_pages (fs ! (first mod nparts)) nparts (part_lpns nparts first end_lpn))"

lemma part_lpns_bound:
  assumes "l \<in> set (part_lpns nparts first end_lpn)" and "first \<le> end_lpn"
  shows "l \<le> end_lpn"
proof -
  obtain j where j: "l = first + j * nparts" "j \<le> (end_lpn - first) div nparts"
  proof -
    have "l \<in> (\<lambda>j. first + j * nparts) ` set [0..<(end_lpn - first) div nparts + 1]" using assms(1) unfolding part_lpns_def set_map .
    then show thesis by (elim imageE) (rule that, auto)
  qed
  have "j * nparts \<le> (end_lpn - first) div nparts * nparts" using j(2) by (rule mult_le_mono1)
  also have "\<dots> \<le> end_lpn - first" by simp
  finally show ?thesis using j(1) assms(2) by simp
qed

lemma part_lpns_Cons: "\<exists>ls. part_lpns nparts first end_lpn = first # ls"
  unfolding part_lpns_def by (simp add: upt_conv_Cons del: upt_Suc)

lemma issue_reads_ok:
  assumes "parts_ok spp fs" and "k < length fs" and "\<And>p n. (p, n) \<in> set rs \<Longrightarrow> in_device spp p \<and> 0 < n"
  shows "\<exists>latest' fs'. issue_reads b now k t rs (latest, fs) = Some (latest', fs') \<and> latest \<le> latest' \<and> parts_ok spp fs' \<and> list_all2 same_tables fs fs'"
  using assms
proof (induction rs arbitrary: latest fs)
  case Nil
  then show ?case by (simp add: issue_reads_def list_all2_refl same_tables_def)
next
  case (Cons r rs)
  obtain p n where r: "r = (p, n)" by (cases r)
  then have "in_device spp p" "0 < n" using Cons.prems(3) by auto
  then obtain t' fs1 where 1: "issue_read b now k t n p (latest, fs) = Some (max t' latest, fs1)" "parts_ok spp fs1" "list_all2 same_tables fs fs1"
    using issue_read_ok [OF Cons.prems(1,2)] by blast
  then have "k < length fs1" using Cons.prems(2) by (simp add: list_all2_lengthD)
  then obtain latest' fs' where 2: "issue_reads b now k t rs (max t' latest, fs1) = Some (latest', fs')" "max t' latest \<le> latest'" "parts_ok spp fs'" "list_all2 same_tables fs1 fs'"
    using Cons.IH [OF 1(2), of "max t' latest"] Cons.prems(3) by auto
  then show ?case using 1(1) r same_tables_trans [OF 1(3) 2(4)] by (simp add: issue_reads_def)
qed

lemma part_reads_ok:
  assumes ok: "parts_ok spp fs" and n: "0 < nparts" "nparts \<le> length fs" and range: "first \<le> end_lpn" "end_lpn div nparts < tt_pgs spp"
    and r: "(p, m) \<in> set (part_reads spp fs nparts end_lpn first)"
  shows "in_device spp p \<and> 0 < m"
proof -
  let ?f = "fs ! (first mod nparts)"
  have f: "host_ok ?f" "spp_of ?f = spp"
  proof -
    have "first mod nparts < length fs" using n mod_less_divisor [of nparts first] by linarith
    then show "host_ok ?f" "spp_of ?f = spp" using ok by (simp_all add: parts_ok_def)
  qed
  have sz: "0 < pgsz spp" using host_okD(3) [OF f(1)] f(2) by (simp add: geometry_ok_def)
  from join_reads_pages [OF r [unfolded part_reads_def]] obtain l where l: "l \<in> set (part_lpns nparts first end_lpn)"
    "p = maptbl ?f ! (l div nparts)" "mapped_ppa p" and m: "0 < m" using sz by (auto simp: mapped_pages_def)
  have "l div nparts \<le> end_lpn div nparts" using part_lpns_bound [OF l(1) range(1)] by (rule div_le_mono)
  then show ?thesis using mapped_valid [OF f(1), of "l div nparts"] l f(2) range(2) m by simp
qed

lemma read_part_plan:
  assumes ok: "parts_ok spp fs" and n: "0 < nparts" "nparts \<le> length fs" and range: "first \<le> end_lpn" "end_lpn div nparts < tt_pgs spp"
    and small: "4096 * (end_lpn - first + 1) < 2 ^ 32"
  shows "read_part b now t nparts end_lpn first (latest, fs) = issue_reads b now (first mod nparts) t (part_reads spp fs nparts end_lpn first) (latest, fs)"
proof -
  define k where "k = first mod nparts"
  define tbl where "tbl = maptbl (fs ! k)"
  have k: "k < length fs" using n mod_less_divisor [of nparts first] unfolding k_def by linarith
  have f: "host_ok (fs ! k)" "spp_of (fs ! k) = spp" using ok k by (simp_all add: parts_ok_def)
  have len: "length tbl = tt_pgs spp" using host_okD(9) [OF f(1)] f(2) by (simp add: tbl_def)
  have sz: "pgsz spp = 4096" and fpg: "0 < pgs_per_flashpg spp" using host_okD(3) [OF f(1)] f(2) ok by (simp_all add: geometry_ok_def parts_ok_def)
  obtain ls where ls: "part_lpns nparts first end_lpn = first # ls" using part_lpns_Cons by blast
  have in': "\<forall>l \<in> set (first # ls). l div nparts < tt_pgs spp"
    using part_lpns_bound [OF _ range(1), of _ nparts] div_le_mono [of _ end_lpn nparts] range(2) unfolding ls by (meson le_less_trans)
  have cnt: "length (first # ls) \<le> end_lpn - first + 1"
    unfolding ls [symmetric] by (simp add: part_lpns_def)
  define cur where "cur = tbl ! (first div nparts)"
  have get: "get_maptbl_ent (fs ! k) (first div nparts) = Some cur" using in' len by (simp add: get_maptbl_ent_def arr_get_def cur_def tbl_def)
  define ps where "ps = filter mapped_ppa (map (\<lambda>l. tbl ! (l div nparts)) ls)"
  have pages: "mapped_pages (fs ! k) nparts (first # ls) = (if mapped_ppa cur then cur # ps else ps)"
    by (simp add: mapped_pages_def cur_def ps_def tbl_def)
  have dev: "in_device spp cur" if "mapped_ppa cur" using mapped_valid [OF f(1)] that in' f(2) by (simp add: cur_def tbl_def)
  have run: "read_part b now t nparts end_lpn first (latest, fs)
    = Option.bind (foldM (read_page b now t nparts k) (first # ls) ((cur, 0), latest, fs)) (finish_read b now t k)"
    using n(1) k get by (simp add: read_part_def k_def [symmetric] arr_get_def div_trap_def ls)
  have pend: "Option.bind (foldM (read_page b now t nparts k) ls ((cur, x), latest, fs)) (finish_read b now t k)
    = issue_reads b now k t (pending spp cur x ps) (latest, fs)" if "mapped_ppa cur \<longleftrightarrow> 0 < x" "x \<le> 4096" for x
    using read_pages_pending [OF ok k n(1) refl, where lpns = ls and prev = cur and xfer = x] that dev len in' cnt small sz
    by (simp add: ps_def tbl_def)
  show ?thesis
  proof (cases "mapped_ppa cur")
    case True
    have "is_same_flash_page (fs ! k) cur cur = Some True" using fpg f(2) by (simp add: is_same_flash_page_def div_trap_def)
    moreover have "valid_ppa (fs ! k) cur" using dev [OF True] f(2) by (simp add: valid_ppa_in_device)
    ultimately have "read_page b now t nparts k first ((cur, 0), latest, fs) = Some ((cur, 4096), latest, fs)"
      using get k n(1) True sz f(2) by (simp add: read_page_def arr_get_def div_trap_def u32_def)
    then show ?thesis using run pend [of 4096] True pages
      by (simp add: part_reads_def k_def [symmetric] ls pending_def sz)
  next
    case False
    have "read_page b now t nparts k first ((cur, 0), latest, fs) = Some ((cur, 0), latest, fs)"
      using get k n(1) False by (simp add: read_page_def arr_get_def div_trap_def)
    then show ?thesis using run pend [of 0] False pages
      by (simp add: part_reads_def k_def [symmetric] ls pending_def)
  qed
qed

lemma part_reads_same: "list_all2 same_tables fs fs' \<Longrightarrow> first mod nparts < length fs \<Longrightarrow> part_reads spp fs' nparts end_lpn first = part_reads spp fs nparts end_lpn first"
  by (simp add: part_reads_def mapped_pages_def list_all2_conv_all_nth same_tables_def)

lemma read_parts_plan:
  assumes "parts_ok spp fs" and "0 < nparts" "nparts \<le> length fs" and "end_lpn div nparts < tt_pgs spp"
    and "\<forall>first \<in> set firsts. first \<le> end_lpn \<and> 4096 * (end_lpn - first + 1) < 2 ^ 32"
  shows "\<exists>latest' fs'. foldM (read_part b now t nparts end_lpn) firsts (latest, fs) = Some (latest', fs')
    \<and> foldM (\<lambda>first. issue_reads b now (first mod nparts) t (part_reads spp fs nparts end_lpn first)) firsts (latest, fs) = Some (latest', fs')
    \<and> latest \<le> latest' \<and> parts_ok spp fs' \<and> list_all2 same_tables fs fs'"
proof -
  have "\<exists>latest' fs'. foldM (read_part b now t nparts end_lpn) firsts (latest, fs1) = Some (latest', fs')
    \<and> foldM (\<lambda>first. issue_reads b now (first mod nparts) t (part_reads spp fs nparts end_lpn first)) firsts (latest, fs1) = Some (latest', fs')
    \<and> latest \<le> latest' \<and> parts_ok spp fs' \<and> list_all2 same_tables fs fs'"
    if "parts_ok spp fs1" "list_all2 same_tables fs fs1" for latest fs1
    using that assms(5)
  proof (induction firsts arbitrary: latest fs1)
    case Nil
    then show ?case by simp
  next
    case (Cons first firsts)
    have k: "first mod nparts < length fs" using assms(2,3) mod_less_divisor [of nparts first] by linarith
    have l: "length fs1 = length fs" using Cons.prems(2) by (simp add: list_all2_lengthD)
    have same: "part_reads spp fs1 nparts end_lpn first = part_reads spp fs nparts end_lpn first" using part_reads_same [OF Cons.prems(2) k] .
    have run: "read_part b now t nparts end_lpn first (latest, fs1) = issue_reads b now (first mod nparts) t (part_reads spp fs nparts end_lpn first) (latest, fs1)"
      unfolding same [symmetric] by (rule read_part_plan) (use Cons.prems assms(2-4) l in auto)
    obtain t1 fs2 where 1: "issue_reads b now (first mod nparts) t (part_reads spp fs1 nparts end_lpn first) (latest, fs1) = Some (t1, fs2)" "latest \<le> t1" "parts_ok spp fs2" "list_all2 same_tables fs1 fs2"
      using issue_reads_ok [OF Cons.prems(1), of "first mod nparts" "part_reads spp fs1 nparts end_lpn first" b now t latest] k l
        part_reads_ok [OF Cons.prems(1) assms(2) _ _ assms(4), of first] Cons.prems(3) assms(3) by auto
    obtain latest' fs' where 2: "foldM (read_part b now t nparts end_lpn) firsts (t1, fs2) = Some (latest', fs')"
      "foldM (\<lambda>first. issue_reads b now (first mod nparts) t (part_reads spp fs nparts end_lpn first)) firsts (t1, fs2) = Some (latest', fs')"
      "t1 \<le> latest'" "parts_ok spp fs'" "list_all2 same_tables fs fs'"
      using Cons.IH [OF 1(3) same_tables_trans [OF Cons.prems(2) 1(4)], of t1] Cons.prems(3) by auto
    show ?case using run 1(1,2) 2 unfolding same by (intro exI [of _ latest'] exI [of _ fs']) simp
  qed
  then show ?thesis using assms(1) by (simp add: list_all2_refl same_tables_def)
qed

lemma firsts_upt: "takeWhile (\<lambda>l. l \<le> (m::nat)) (map (\<lambda>i. s + i) [0..<n]) = [s..<min (s + n) (Suc m)]"
proof -
  have "takeWhile (\<lambda>l. l \<le> m) [s..<k] = [s..<min k (Suc m)]" if "s \<le> k" for k
    using that
  proof (induction k rule: dec_induct)
    case (step k)
    show ?case
    proof (cases "k \<le> m")
      case True
      then show ?thesis using step by (subst takeWhile_eq_all_conv [THEN iffD2]) auto
    next
      case False
      then have "takeWhile (\<lambda>l. l \<le> m) ([s..<k] @ [k]) = takeWhile (\<lambda>l. l \<le> m) [s..<k]"
        by (cases "\<forall>x \<in> set [s..<k]. x \<le> m") (auto simp: takeWhile_append takeWhile_eq_all_conv [THEN iffD2])
      moreover have "min k (Suc m) = Suc m" "min (Suc k) (Suc m) = Suc m" using False by simp_all
      moreover have "[s..<Suc k] = [s..<k] @ [k]" using step(1) by simp
      ultimately show ?thesis using step(3) by (simp del: upt_Suc)
    qed
  qed simp
  moreover have "map (\<lambda>i. s + i) [0..<n] = [s..<s + n]" using map_add_upt [of s n] by (simp add: add.commute)
  ultimately show ?thesis by simp
qed

text \<open>What a read of the logical pages \<open>start\<close> to \<open>end_lpn\<close> asks of the flash, FTL by FTL.\<close>

definition read_plan :: "base_ssd \<Rightarrow> nat \<Rightarrow> nat \<Rightarrow> nat \<Rightarrow> ssdparams \<Rightarrow> nat \<Rightarrow> nat \<Rightarrow> nat \<times> conv_ftl list \<Rightarrow> (nat \<times> conv_ftl list) option" where
  "read_plan b now t nparts spp start end_lpn = (\<lambda>(latest, fs).
     foldM (\<lambda>first. issue_reads b now (first mod nparts) t (part_reads spp fs nparts end_lpn first)) [start..<min (start + nparts) (Suc end_lpn)] (latest, fs))"

section \<open>Properties\<close>

text \<open>C19: A host write of \<open>n\<close> whole pages, in a build other than the hybrid, whose pages are
  numbers of the first FTL, is accepted when fewer than all pages left in the current line are asked for
  (\<open>wp_index + n < pgs_per_line\<close>: the page that fills the line would move the pointer on), write credits
  are left and no foreground collection is due; the first FTL satisfies \<open>host_ok\<close> (tables consistent, a
  usable device with one plane in a LUN, a pointer in range, and the current line not mapped from the pointer on),
  which the write keeps. If the write buffer has room, the \<open>n\<close> logical pages are put on the next
  \<open>n\<close> pages of the line in stripe order, in both tables, no other logical page moves and the line
  management is left alone. All of it happens in the first FTL, with the global page number, whatever the number of
  partitions. The bytes stay allocated in the write buffer: no release is queued. Without buffer space the request is
  answered at once and nothing is stored.\<close>

theorem conv_write_correct:
  fixes e :: io_env and ns :: "conv_ftl nvmev_ns"
  assumes "b \<noteq> HYBRID_SSD" and "ns_ftls ns = f0 # fs" and "host_ok f0" and "write_credits (wfc f0) \<noteq> 0" and "\<not> should_gc f0"
  defines "bytes' \<equiv> (rw_length (req_cmd (env_req e)) + 1) * 512" and "lpn \<equiv> rw_slba (req_cmd (env_req e)) div 8"
    and "buf \<equiv> write_buffer (ftl_ssd f0)" and "spp \<equiv> spp_of f0" and "w \<equiv> user_wp f0"
  assumes "buf_remaining buf < 2 ^ 64" and "lpn + bytes' div 4096 \<le> tt_pgs spp" and "wp_index spp w + bytes' div 4096 < pgs_per_line spp"
  shows "\<exists>e' ns' f. conv_write b now junk gc_junk ns e = Some (True, e', ns') \<and> ns_ftls ns' ! 0 = f \<and> length (ns_ftls ns') = length (ns_ftls ns)
    \<and> host_ok f \<and> lm f = lm f0 \<and> ret_status (env_ret e') = ret_status (env_ret e)
    \<and> (if buf_remaining buf < bytes' then maptbl f = maptbl f0 \<and> user_wp f = w \<and> ret_nsecs_target (env_ret e') = now \<and> write_buffer (ftl_ssd f) = buf
       else (\<forall>m. m < lpn \<or> lpn + bytes' div 4096 \<le> m \<longrightarrow> get_maptbl_ent f m = get_maptbl_ent f0 m)
         \<and> (\<forall>i < bytes' div 4096. \<exists>p. get_maptbl_ent f (lpn + i) = Some p \<and> (g_ch p, g_lun p, g_pg p) = stripe spp (wp_index spp w + i)
              \<and> g_pl p = 0 \<and> g_blk p = wp_blk w)
         \<and> wp_index spp (user_wp f) = wp_index spp w + bytes' div 4096 \<and> env_wbs e' = env_wbs e
         \<and> buf_remaining (write_buffer (ftl_ssd f)) = buf_remaining buf - bytes')"
proof -
  have geo: "secs_per_pg spp = 8" "pgsz spp = 4096" using host_okD(3) [OF assms(3)] by (simp_all add: geometry_ok_def spp_def)
  have small: "bytes' < 2 ^ 32" "0 < bytes'"
    using mod_less_divisor [of "2 ^ 16" "cdw12 (req_cmd (env_req e))"] by (simp_all add: bytes'_def rw_length_def)
  have eq: "(rw_length (req_cmd (env_req e)) + 1) * 2 ^ 9 = bytes'" by (simp add: bytes'_def)
  show ?thesis
  proof (cases "buf_remaining buf < bytes'")
    case True
    then have a: "buffer_allocate (write_buffer (ftl_ssd f0)) bytes' = (0, buf)"
      using assms(11) by (simp add: buffer_allocate_def buf_def u32_def)
    have "conv_write b now junk gc_junk ns e = Some (True, (enqueue_writeback (req_sq_id (env_req e)) now SSD_BUFFER 0 e)\<lparr> env_ret := (env_ret e)\<lparr> ret_nsecs_target := now \<rparr> \<rparr>,
        ns\<lparr> ns_ftls := share 0 (f0 # fs) \<rparr>)"
      unfolding conv_write_def eq using a assms(2) by (simp add: arr_get_def Let_def enqueue_writeback_def buf_def)
    then show ?thesis using True assms(2,3) by (simp add: share_0 w_def buf_def)
  next
    case False
    let ?b = "buf\<lparr> buf_remaining := buf_remaining buf - bytes' \<rparr>"
    let ?f1 = "f0\<lparr> ftl_ssd := (ftl_ssd f0)\<lparr> write_buffer := ?b \<rparr> \<rparr>"
    have a: "buffer_allocate (write_buffer (ftl_ssd f0)) bytes' = (bytes', ?b)"
      using False small assms(11) by (simp add: buffer_allocate_def buf_def u32_def)
    have ok1: "host_ok ?f1" using host_ok_buffer [OF assms(3)] .
    obtain t f where f: "foldM (write_page b now junk) (map (\<lambda>i. lpn + i) [0..<bytes' div 4096]) (now, ?f1) = Some (t, f)" "host_ok f"
      "\<forall>m. m < lpn \<or> lpn + bytes' div 4096 \<le> m \<longrightarrow> get_maptbl_ent f m = get_maptbl_ent ?f1 m"
      "\<forall>i < bytes' div 4096. \<exists>p. get_maptbl_ent f (lpn + i) = Some p \<and> (g_ch p, g_lun p, g_pg p) = stripe spp (wp_index spp w + i)
         \<and> g_pl p = 0 \<and> g_blk p = wp_blk w"
      "wp_index spp (user_wp f) = wp_index spp w + bytes' div 4096" "lm f = lm f0" "cp f = cp f0" "write_buffer (ftl_ssd f) = ?b"
      using conv_write_pages_ok [OF ok1 assms(1), of lpn "bytes' div 4096" now junk now] assms(4,12,13) by (auto simp: spp_def w_def)
    have "\<not> should_gc f" using assms(5) f(6,7) by (simp add: should_gc_def)
    then have "conv_write b now junk gc_junk ns e = Some (True, e\<lparr> env_ret := (env_ret e)\<lparr> ret_nsecs_target := t \<rparr> \<rparr>, ns\<lparr> ns_ftls := share 0 (f # fs) \<rparr>)"
      unfolding conv_write_def eq using a f(1) small(2) assms(2) geo by (simp add: arr_get_def Let_def lpn_def spp_def)
    then show ?thesis using False f assms(2) by (simp add: share_0 get_maptbl_ent_def)
  qed
qed

text \<open>C20: For FTLs that share their geometry and each satisfy \<open>host_ok\<close> (\<open>parts_ok\<close>),
  a read is refused exactly when the page of its last block lies past the FTLs; otherwise it is answered with success
  once the last flash read has come back. Each FTL is asked for the mapped pages of the request that it holds;
  consecutive ones of one flash page are joined to one command, and the commands together carry a page for every
  mapped logical page. Nothing but the times changes. The last block is computed in 64 bits: a request that runs past
  the end of the address space asks for the pages from its start to the wrapped end, that is for none.\<close>

theorem conv_read_correct:
  fixes e :: io_env and ns :: "conv_ftl nvmev_ns"
  assumes "ns_ftls ns \<noteq> []" and "parts_ok spp (ns_ftls ns)" and "length (ns_ftls ns) = ns_nr_parts ns"
  defines "lba \<equiv> rw_slba (req_cmd (env_req e))" and "nr_lba \<equiv> rw_length (req_cmd (env_req e)) + 1" and "nparts \<equiv> ns_nr_parts ns"
    and "t0 \<equiv> req_nsecs_start (env_req e)"
  defines "end_lpn \<equiv> (lba + nr_lba - 1) mod 2 ^ 64 div 8"
    and "t \<equiv> u64 (t0 + (if LBA_TO_BYTE nr_lba \<le> u32 (KB 4 * nparts) then fw_4kb_rd_lat spp else fw_rd_lat spp))"
  shows "(if tt_pgs spp \<le> end_lpn div nparts then conv_read b now ns e = Some (False, e, ns)
     else \<exists>latest fs. read_plan b now t nparts spp (lba div 8) end_lpn (t0, ns_ftls ns) = Some (latest, fs)
       \<and> conv_read b now ns e = Some (True, e\<lparr> env_ret := (env_ret e)\<lparr> ret_nsecs_target := latest, ret_status := NVME_SC_SUCCESS \<rparr> \<rparr>, ns\<lparr> ns_ftls := fs \<rparr>)
       \<and> t0 \<le> latest \<and> parts_ok spp fs \<and> list_all2 same_tables (ns_ftls ns) fs)
    \<and> (\<forall>first. sum_list (map snd (part_reads spp (ns_ftls ns) nparts end_lpn first))
         = 4096 * length (mapped_pages (ns_ftls ns ! (first mod nparts)) nparts (part_lpns nparts first end_lpn)))"
proof -
  obtain f0 fr where fs: "ns_ftls ns = f0 # fr" using assms(1) by (cases "ns_ftls ns") auto
  have f0: "host_ok f0" "spp_of f0 = spp" using assms(2) fs by (simp_all add: parts_ok_def)
  have geo: "secs_per_pg spp = 8" "pgsz spp = 4096" using host_okD(3) [OF f0(1)] f0(2) by (simp_all add: geometry_ok_def)
  have np: "0 < nparts" using assms(3) fs by (simp add: nparts_def)
  have get0: "arr_get (ns_ftls ns) 0 = Some f0" using fs by (simp add: arr_get_def)
  have nr: "1 \<le> nr_lba" "nr_lba \<le> 65536" using mod_less_divisor [of "2 ^ 16" "cdw12 (req_cmd (env_req e))"]
    by (simp_all add: nr_lba_def rw_length_def)
  have last': "sub64 (lba + nr_lba) 1 div 8 = end_lpn"
  proof -
    have "lba + nr_lba + 2 ^ 64 - 1 = (lba + nr_lba - 1) + 2 ^ 64" using nr(1) by simp
    then have "sub64 (lba + nr_lba) 1 = (lba + nr_lba - 1) mod 2 ^ 64" unfolding sub64_def u64_def by (metis mod_add_self2 one_mod_2_pow_eq mod_less nat_1 one_less_numeral_iff power_one_right one_less_power zero_less_numeral semiring_norm(76))
    then show ?thesis by (simp add: end_lpn_def)
  qed
  have small: "4096 * (end_lpn - first + 1) < 2 ^ 32" if "lba div 8 \<le> first" for first
  proof -
    have "(lba + nr_lba - 1) mod 2 ^ 64 \<le> lba + nr_lba - 1" by simp
    then have "end_lpn \<le> (lba + nr_lba - 1) div 8" unfolding end_lpn_def by (rule div_le_mono)
    also have "\<dots> \<le> lba div 8 + 8192" using nr(2) by linarith
    finally show ?thesis using that by simp
  qed
  have bytes': "\<forall>first. sum_list (map snd (part_reads spp (ns_ftls ns) nparts end_lpn first))
         = 4096 * length (mapped_pages (ns_ftls ns ! (first mod nparts)) nparts (part_lpns nparts first end_lpn))"
    by (simp add: part_reads_def join_reads_bytes geo)
  show ?thesis
  proof (cases "tt_pgs spp \<le> end_lpn div nparts")
    case True
    then show ?thesis using bytes' get0 f0(2) geo np last' by (simp add: conv_read_def lba_def nr_lba_def nparts_def)
  next
    case False
    let ?firsts = "[lba div 8..<min (lba div 8 + nparts) (Suc end_lpn)]"
    have "\<forall>first \<in> set ?firsts. first \<le> end_lpn \<and> 4096 * (end_lpn - first + 1) < 2 ^ 32" using small by auto
    then obtain latest fs' where run: "foldM (read_part b now t nparts end_lpn) ?firsts (t0, ns_ftls ns) = Some (latest, fs')"
      and plan: "foldM (\<lambda>first. issue_reads b now (first mod nparts) t (part_reads spp (ns_ftls ns) nparts end_lpn first)) ?firsts (t0, ns_ftls ns) = Some (latest, fs')"
      and out: "t0 \<le> latest" "parts_ok spp fs'" "list_all2 same_tables (ns_ftls ns) fs'"
      using read_parts_plan [OF assms(2) np, of end_lpn ?firsts b now t t0] False assms(3) by (auto simp: nparts_def)
    have tw: "takeWhile (\<lambda>l. l \<le> end_lpn) (map (\<lambda>i. lba div 8 + i) [0..<nparts]) = ?firsts" by (rule firsts_upt)
    have "conv_read b now ns e = Some (True, e\<lparr> env_ret := (env_ret e)\<lparr> ret_nsecs_target := latest, ret_status := NVME_SC_SUCCESS \<rparr> \<rparr>, ns\<lparr> ns_ftls := fs' \<rparr>)"
      unfolding conv_read_def Let_def get0 lba_def [symmetric] nr_lba_def [symmetric] nparts_def [symmetric] t0_def [symmetric]
        Option.bind.bind_lunit f0(2) t_def [symmetric]
      using np False last' geo run tw by simp
    then show ?thesis using False bytes' out plan by (simp add: read_plan_def)
  qed
qed

text \<open>A namespace of any build but the hybrid one comes up with one FTL for every partition. All of them share
  the PCIe link and the write buffer of the first, map no logical page yet, and write hosts' pages at the start of
  line 0 and the collector's at the start of line 1; the other lines are free. The size told to the host leaves the
  over-provisioned part out.\<close>

theorem conv_init_namespace_ready:
  fixes mac :: build_macros
  assumes "b \<noteq> HYBRID_SSD" and "ssd_init_params b mac stack size' (SSD_PARTITIONS mac) = Some spp"
    and "fields_fit spp" "pls_per_lun spp = 1" "0 < max_ch_xfer_size spp" and "8 * device_pages spp < 2 ^ 64" and "int_products_fit spp"
    and "0 < pgs_per_line spp" "2 \<le> blks_per_pl spp" and "OP_AREA_PBA_PCENT mac \<noteq> 0"
    and "chmodel_init (ch_bandwidth spp) \<noteq> None" "chmodel_init (pcie_bandwidth spp) \<noteq> None"
      "0 < u32 (BANDWIDTH_TO_MAX_CREDITS (ch_bandwidth spp))" "0 < u32 (BANDWIDTH_TO_MAX_CREDITS (pcie_bandwidth spp))"
  shows "\<exists>ns. conv_init_namespace b mac stack junk raw raw_lm raw_wp id' size' mapped cpu = Some ns
    \<and> ns_csi ns = NVME_CSI_NVM \<and> ns_proc_io_cmd ns = conv_proc_nvme_io_cmd \<and> ns_nr_parts ns = SSD_PARTITIONS mac \<and> ns_mapped ns = mapped
    \<and> ns_size ns = u64 (size' * 100) div OP_AREA_PBA_PCENT mac \<and> length (ns_ftls ns) = SSD_PARTITIONS mac
    \<and> (\<forall>f \<in> set (ns_ftls ns). fresh_ftl spp f \<and> ssd_pcie (ftl_ssd f) = ssd_pcie (ftl_ssd (ns_ftls ns ! 0))
       \<and> write_buffer (ftl_ssd f) = write_buffer (ftl_ssd (ns_ftls ns ! 0)))"
  by (rule conv_init_namespace_ok [OF assms]) blast

section \<open>Concrete runs\<close>

definition tiny_rw :: "nat \<Rightarrow> nat \<Rightarrow> io_env" where
  "tiny_rw slba n = \<lparr> env_req = \<lparr> req_cmd = \<lparr> opcode = 0, command_id = 0, nsid = 1, prp1 = 0, prp2 = 0, cdw10 = slba, cdw11 = 0, cdw12 = n, cdw13 = 0 \<rparr>, req_sq_id = 1, req_nsecs_start = 1000 \<rparr>,
     env_ret = \<lparr> ret_status = 0, ret_nsecs_target = 0, ret_early_completion = 0, ret_result = 0 \<rparr>, env_wbs = [] \<rparr>"

definition tiny_ns :: "conv_ftl list \<Rightarrow> conv_ftl nvmev_ns" where
  "tiny_ns fs = \<lparr> ns_id = 1, ns_csi = NVME_CSI_NVM, ns_size = 61248, ns_mapped = 0, ns_nr_parts = length fs, ns_ftls = fs,
     ns_proc_io_cmd = conv_proc_nvme_io_cmd \<rparr>"

text \<open>The small FTL is what \<open>conv_init_ftl\<close> makes of memory in which the LUN lines happen to be empty.\<close>

lemma tiny_ftl_initialised:
  "conv_init_ftl SAMSUNG_970PRO (tiny_ftl\<lparr> maptbl := [], rmap := [] \<rparr>) (conv_init_params tiny_macros) tiny_ssd = Some tiny_ftl"
  using tiny_lm_init by (simp add: conv_init_ftl_def init_maptbl_def init_rmap_def init_lines_def tiny_lm_free tiny_lm_lines prepare_write_pointer_def
      get_next_free_line_def lm_get_next_free_line_def init_write_flow_control_def put_wp_def get_wp_def tiny_ftl_def line_start_def)

text \<open>The collector starts when one free line is left.\<close>

definition tiny_host_ftl :: conv_ftl where
  "tiny_host_ftl = tiny_mapped\<lparr> cp := (cp tiny_ftl)\<lparr> gc_thres_lines := 1 \<rparr> \<rparr>"

lemma tiny_host_ftl_simps [simp]:
  "ftl_ssd tiny_host_ftl = tiny_ssd" "user_wp tiny_host_ftl = line_start 0" "write_credits (wfc tiny_host_ftl) = 4"
  by (simp_all add: tiny_host_ftl_def tiny_mapped_def tiny_ftl_def)

lemma tiny_host_ok: "host_ok tiny_host_ftl"
proof -
  have get: "get_maptbl_ent tiny_host_ftl = get_maptbl_ent tiny_mapped" "get_rmap_ent tiny_host_ftl = get_rmap_ent tiny_mapped"
    "rmap_legal tiny_host_ftl = rmap_legal tiny_mapped"
    by (simp_all add: fun_eq_iff tiny_host_ftl_def get_maptbl_ent_def get_rmap_ent_def ppa2pgidx_def rmap_legal_def valid_ppa_def)
  have same: "spp_of tiny_host_ftl = spp_of tiny_mapped" "maptbl tiny_host_ftl = maptbl tiny_mapped" "rmap tiny_host_ftl = rmap tiny_mapped"
    by (simp_all add: tiny_host_ftl_def)
  have m: "mapping_ok tiny_host_ftl"
    using tiny_mapped_ok unfolding mapping_ok_def map_consistent_def get same .
  have blk: "g_blk q \<noteq> 0" if "get_maptbl_ent tiny_mapped l = Some q" "mapped_ppa q" for l q
    using that by (auto simp: get_maptbl_ent_def tiny_mapped_def arr_get_def mapped_ppa_def nth_list_update mk_ppa_fields split: if_splits)
  have "wp_blk (line_start 0) = 0" "wp_ok tiny_params (line_start 0)" by (simp_all add: wp_ok_def line_start_def)
  then show ?thesis using m tiny_fields_fit tiny_ssd_ok blk unfolding host_ok_def get by fastforce
qed

lemma tiny_parts_ok: "parts_ok tiny_params [tiny_host_ftl]"
  using tiny_host_ok by (simp add: parts_ok_def)

lemma conv_init_namespace_ready_witness:
  "\<exists>ns. conv_init_namespace SAMSUNG_970PRO tiny_macros stack_params (\<lambda>_. 0) (\<lambda>_. tiny_ftl) (\<lambda>_ _. tiny_lm) (\<lambda>_ _. line_start 0) 1 65536 0 0 = Some ns \<and> ns_size ns = 61248"
proof -
  have macros: "SSD_PARTITIONS tiny_macros = 1" "OP_AREA_PBA_PCENT tiny_macros = 107" by (simp_all add: tiny_macros_def)
  have init: "chmodel_init 800 \<noteq> None" "chmodel_init 3360 \<noteq> None" using chmodel_init_ok [of 800] chmodel_init_ok [of 3360] by (auto simp: MB_def)
  have dev: "8 * device_pages tiny_params < 2 ^ 64" "SAMSUNG_970PRO \<noteq> HYBRID_SSD" "int_products_fit tiny_params"
    by (simp_all add: device_pages_def int_products_fit_def)
  show ?thesis
    using conv_init_namespace_ready [OF dev(2) tiny_init [folded macros(1)] tiny_fields_fit _ _ dev(1) dev(3), of "\<lambda>_. 0" "\<lambda>_. tiny_ftl" "\<lambda>_ _. tiny_lm" "\<lambda>_ _. line_start 0" 1 0 0]
      macros init tiny_credits by auto
qed

lemma conv_read_correct_witness:
  "\<exists>latest fs. conv_read SAMSUNG_970PRO 0 (tiny_ns [tiny_host_ftl]) (tiny_rw 40 7)
     = Some (True, (tiny_rw 40 7)\<lparr> env_ret := (env_ret (tiny_rw 40 7))\<lparr> ret_nsecs_target := latest, ret_status := NVME_SC_SUCCESS \<rparr> \<rparr>,
         (tiny_ns [tiny_host_ftl])\<lparr> ns_ftls := fs \<rparr>)"
proof -
  have ns: "ns_ftls (tiny_ns [tiny_host_ftl]) = [tiny_host_ftl]" "ns_nr_parts (tiny_ns [tiny_host_ftl]) = 1" by (simp_all add: tiny_ns_def)
  have rq: "rw_slba (req_cmd (env_req (tiny_rw 40 7))) = 40" "rw_length (req_cmd (env_req (tiny_rw 40 7))) = 7"
    by (simp_all add: tiny_rw_def rw_slba_def rw_length_def)
  show ?thesis
    using conv_read_correct [where ns = "tiny_ns [tiny_host_ftl]" and e = "tiny_rw 40 7" and spp = tiny_params and b = SAMSUNG_970PRO and now = 0, unfolded ns rq] tiny_parts_ok by auto
qed

lemma conv_write_correct_witness:
  "\<exists>e ns f. conv_write SAMSUNG_970PRO 0 (\<lambda>_. (0, \<lambda>_. (False, False))) 0 (tiny_ns [tiny_host_ftl]) (tiny_rw 24 7) = Some (True, e, ns) \<and> ns_ftls ns ! 0 = f
     \<and> host_ok f \<and> wp_index tiny_params (user_wp f) = 1"
proof -
  have ns: "ns_ftls (tiny_ns [tiny_host_ftl]) = [tiny_host_ftl]" by (simp add: tiny_ns_def)
  have rq: "rw_slba (req_cmd (env_req (tiny_rw 24 7))) = 24" "rw_length (req_cmd (env_req (tiny_rw 24 7))) = 7"
    by (simp_all add: tiny_rw_def rw_slba_def rw_length_def)
  have buf: "buf_remaining (write_buffer (ftl_ssd tiny_host_ftl)) = 65536"
    using ssd_init_ok(3) [OF tiny_ssd_init] by (simp add: buffer_init_def u32_def)
  have gc: "\<not> should_gc tiny_host_ftl" by (simp add: should_gc_def tiny_host_ftl_def tiny_mapped_def word_le_nat_alt)
  have idx: "wp_index tiny_params (line_start 0) = 0" by (simp add: wp_index_def line_start_def)
  show ?thesis
    using conv_write_correct [of SAMSUNG_970PRO "tiny_ns [tiny_host_ftl]" tiny_host_ftl "[]" "tiny_rw 24 7" 0 "\<lambda>_. (0, \<lambda>_. (False, False))" 0, OF _ ns tiny_host_ok _ gc, unfolded ns rq]
      buf idx by auto
qed

end
