(* ===== verification/Allocator.thy ===== *)
theory Allocator
  imports Nvmev_Prelude
begin

text \<open>
  The two allocators of device memory for values of the key-value device. \<open>append_only.c\<close> hands out
  consecutive ranges and takes nothing back. \<open>bitmap.c\<close> halves the device: the lower half is cut into slots of
  1024 bytes, the upper into slots of 4096, each half has a bitmap and a position where its next search starts.
  Neither has a function that gives memory back. The search of the kernel, \<open>bitmap_find_next_zero_area\<close>, is the
  parameter \<open>search\<close>: from the map, the number of bits in use and the start to the position.
\<close>

section \<open>Append only\<close>

record append_pool =
  ap_latest :: nat
  ap_dev_size :: nat
  ap_total_written :: nat

definition append_only_allocator_init :: "nat \<Rightarrow> append_pool \<Rightarrow> nat \<times> append_pool" where
  "append_only_allocator_init size' st = (1, st\<lparr> ap_dev_size := size', ap_latest := 0, ap_total_written := 0 \<rparr>)"

definition append_only_allocate :: "nat \<Rightarrow> append_pool \<Rightarrow> nat \<times> append_pool" where
  "append_only_allocate len st =
     (ap_latest st, st\<lparr> ap_latest := u64 (ap_latest st + len), ap_total_written := u64 (ap_total_written st + len) \<rparr>)"

section \<open>Bitmap\<close>

definition SMALL_LENGTH :: nat where "SMALL_LENGTH = 1024"
definition LARGE_LENGTH :: nat where "LARGE_LENGTH = 4096"

text \<open>One half: its bits (all of the static array), how many of them are in use, and where to search next.\<close>

record slot_pool =
  sp_bits :: "bool list"
  sp_nbits :: nat
  sp_last_pos :: nat
  sp_capacity :: nat

record bitmap_pool =
  bp_small :: slot_pool
  bp_large :: slot_pool
  bp_dev_size :: nat
  bp_total_written :: nat

text \<open>The kernel clears the words of 64 bits that the first \<open>n\<close> bits take; a write behind the array is \<open>None\<close>.\<close>

definition bitmap_zero :: "nat \<Rightarrow> bool list \<Rightarrow> bool list option" where
  "bitmap_zero n bits = (let k = (n + 63) div 64 * 64 in if k \<le> length bits then Some (replicate k False @ drop k bits) else None)"

definition init_pool :: "nat \<Rightarrow> slot_pool \<Rightarrow> slot_pool option" where
  "init_pool n p = do { bits \<leftarrow> bitmap_zero n (sp_bits p); Some (p\<lparr> sp_bits := bits, sp_nbits := n \<rparr>) }"

definition bitmap_allocator_init :: "nat \<Rightarrow> bitmap_pool \<Rightarrow> (nat \<times> bitmap_pool) option" where
  "bitmap_allocator_init size' st = do {
     small \<leftarrow> init_pool (size' div 2 div SMALL_LENGTH) (bp_small st);
     large \<leftarrow> init_pool (size' div 2 div LARGE_LENGTH) (bp_large st);
     Some (1, st\<lparr> bp_small := small, bp_large := large, bp_dev_size := size' \<rparr>)
   }"

definition take_slot :: "(bool list \<Rightarrow> nat \<Rightarrow> nat \<Rightarrow> nat) \<Rightarrow> slot_pool \<Rightarrow> (nat \<times> slot_pool) option" where
  "take_slot search p = do {
     let off = search (sp_bits p) (sp_nbits p) (sp_last_pos p);
     bits \<leftarrow> arr_set (sp_bits p) off True;
     Some (off, p\<lparr> sp_bits := bits, sp_last_pos := (if sp_nbits p < off + 1 then 0 else off + 1), sp_capacity := sp_capacity p + 1 \<rparr>)
   }"

definition bitmap_allocate :: "(bool list \<Rightarrow> nat \<Rightarrow> nat \<Rightarrow> nat) \<Rightarrow> nat \<Rightarrow> bitmap_pool \<Rightarrow> (nat \<times> bitmap_pool) option" where
  "bitmap_allocate search len st = do {
     let st = st\<lparr> bp_total_written := u64 (bp_total_written st + len) \<rparr>;
     if SMALL_LENGTH < len then do {
       (off, large) \<leftarrow> take_slot search (bp_large st);
       Some (u64 (bp_dev_size st div 2 + off * LARGE_LENGTH), st\<lparr> bp_large := large \<rparr>)
     } else do {
       (off, small) \<leftarrow> take_slot search (bp_small st);
       Some (u64 (off * SMALL_LENGTH), st\<lparr> bp_small := small \<rparr>)
     }
   }"

section \<open>What an allocator promises\<close>

fun allocate_all :: "(nat \<Rightarrow> 'a \<Rightarrow> (nat \<times> 'a) option) \<Rightarrow> nat list \<Rightarrow> 'a \<Rightarrow> (nat list \<times> 'a) option" where
  "allocate_all allocate [] st = Some ([], st)"
| "allocate_all allocate (n # ns) st = do { (a, st) \<leftarrow> allocate n st; (as, st) \<leftarrow> allocate_all allocate ns st; Some (a # as, st) }"

definition ranges :: "nat list \<Rightarrow> nat list \<Rightarrow> nat set list" where
  "ranges as ns = map (\<lambda>(a, n). {a..<a + n}) (zip as ns)"

text \<open>\<open>room ns st\<close>: there is memory for the lengths \<open>ns\<close>. What is handed out was not in use, and is now.\<close>

locale value_allocator =
  fixes allocate :: "nat \<Rightarrow> 'a \<Rightarrow> (nat \<times> 'a) option" and used :: "'a \<Rightarrow> nat set" and room :: "nat list \<Rightarrow> 'a \<Rightarrow> bool"
  assumes allocates: "room (n # ns) st \<Longrightarrow> \<exists>a st'. allocate n st = Some (a, st') \<and> room ns st'
    \<and> used st \<inter> {a..<a + n} = {} \<and> used st \<union> {a..<a + n} \<subseteq> used st'"
begin

lemma allocate_all_disjoint:
  assumes "room ns st"
  shows "\<exists>as st'. allocate_all allocate ns st = Some (as, st') \<and> length as = length ns
    \<and> sorted_wrt disjnt (used st # ranges as ns) \<and> used st \<union> \<Union> (set (ranges as ns)) \<subseteq> used st' \<and> room [] st'"
  using assms
proof (induction ns arbitrary: st)
  case (Cons n ns)
  obtain a st1 where 1: "allocate n st = Some (a, st1)" "room ns st1" "used st \<inter> {a..<a + n} = {}" "used st \<union> {a..<a + n} \<subseteq> used st1"
    using allocates [OF Cons.prems] by blast
  obtain as st' where 2: "allocate_all allocate ns st1 = Some (as, st')" "length as = length ns"
    "sorted_wrt disjnt (used st1 # ranges as ns)" "used st1 \<union> \<Union> (set (ranges as ns)) \<subseteq> used st'" "room [] st'"
    using Cons.IH [OF 1(2)] by blast
  have r: "ranges (a # as) (n # ns) = {a..<a + n} # ranges as ns" by (simp add: ranges_def)
  have later: "disjnt X Y" if "X \<subseteq> used st1" "Y \<in> set (ranges as ns)" for X Y
    using 2(3) that by (auto simp: disjnt_def)
  have "sorted_wrt disjnt (used st # ranges (a # as) (n # ns))"
    unfolding r using 1(3,4) 2(3) later by (auto simp: disjnt_def)
  moreover have "used st \<union> \<Union> (set (ranges (a # as) (n # ns))) \<subseteq> used st'" unfolding r using 1(4) 2(4) by auto
  ultimately show ?case using 1(1) 2(1,2,5) by (intro exI [of _ "a # as"] exI [of _ st']) simp
qed (simp add: ranges_def)

end

section \<open>The two allocators keep it\<close>

text \<open>The append-only allocator checks nothing: it has room until its counter wraps.\<close>

interpretation ap: value_allocator "\<lambda>n st. Some (append_only_allocate n st)" "\<lambda>st. {..<ap_latest st}"
  "\<lambda>ns st. ap_latest st + sum_list ns < 2 ^ 64"
  by unfold_locales (auto simp: append_only_allocate_def u64_def)

text \<open>What the kernel promises of the search: the first zero at or after the start, if there is one below \<open>n\<close>, and
  otherwise a position that is not below \<open>n\<close>. It does not start again from the beginning.\<close>

definition zero_area :: "(bool list \<Rightarrow> nat \<Rightarrow> nat \<Rightarrow> nat) \<Rightarrow> bool" where
  "zero_area search \<longleftrightarrow> (\<forall>bits n start. start \<le> n \<and> n \<le> length bits \<longrightarrow>
     (if \<exists>i. start \<le> i \<and> i < n \<and> \<not> bits ! i
      then start \<le> search bits n start \<and> search bits n start < n \<and> \<not> bits ! search bits n start \<and> (\<forall>i. start \<le> i \<and> i < search bits n start \<longrightarrow> bits ! i)
      else n \<le> search bits n start))"

text \<open>A pool that has given out its first \<open>k\<close> slots.\<close>

definition pool_at :: "nat \<Rightarrow> slot_pool \<Rightarrow> bool" where
  "pool_at k p \<longleftrightarrow> k \<le> sp_nbits p \<and> sp_last_pos p = k \<and> sp_nbits p \<le> length (sp_bits p) \<and> (\<forall>i < sp_nbits p. sp_bits p ! i \<longleftrightarrow> i < k)"

lemma take_slot_next:
  assumes "zero_area search" and "pool_at k p" and "k < sp_nbits p"
  obtains p' where "take_slot search p = Some (k, p')" "pool_at (Suc k) p'" "sp_nbits p' = sp_nbits p"
proof -
  let ?off = "search (sp_bits p) (sp_nbits p) (sp_last_pos p)"
  have k: "k \<le> sp_nbits p" "sp_last_pos p = k" "sp_nbits p \<le> length (sp_bits p)" "\<forall>i < sp_nbits p. sp_bits p ! i \<longleftrightarrow> i < k"
    using assms(2) by (simp_all add: pool_at_def)
  have "\<exists>i. k \<le> i \<and> i < sp_nbits p \<and> \<not> sp_bits p ! i" using k(4) assms(3) by blast
  then have f: "k \<le> ?off" "?off < sp_nbits p" "\<forall>i. k \<le> i \<and> i < ?off \<longrightarrow> sp_bits p ! i"
    using assms(1) k(1-3) unfolding zero_area_def by auto
  have "?off = k" using f k(4) by (metis le_neq_implies_less less_irrefl order_less_trans order_refl)
  define p' where "p' = p\<lparr> sp_bits := (sp_bits p)[k := True], sp_last_pos := k + 1, sp_capacity := sp_capacity p + 1 \<rparr>"
  have "take_slot search p = Some (k, p')" using \<open>?off = k\<close> k(3) assms(3) by (simp add: take_slot_def p'_def)
  moreover have "pool_at (Suc k) p'" using k assms(3) by (auto simp: pool_at_def p'_def nth_list_update)
  ultimately show ?thesis using that [of p'] by (simp add: p'_def)
qed

definition bitmap_ok :: "nat \<Rightarrow> nat \<Rightarrow> bitmap_pool \<Rightarrow> bool" where
  "bitmap_ok s l st \<longleftrightarrow> pool_at s (bp_small st) \<and> pool_at l (bp_large st) \<and> sp_nbits (bp_small st) = bp_dev_size st div 2 div SMALL_LENGTH
     \<and> sp_nbits (bp_large st) = bp_dev_size st div 2 div LARGE_LENGTH \<and> bp_dev_size st < 2 ^ 64"

definition bitmap_used :: "bitmap_pool \<Rightarrow> nat set" where
  "bitmap_used st = {..<sp_last_pos (bp_small st) * SMALL_LENGTH} \<union> {bp_dev_size st div 2..<bp_dev_size st div 2 + sp_last_pos (bp_large st) * LARGE_LENGTH}"

text \<open>Values of up to 4096 bytes, and a slot of the right size for each of them.\<close>

definition bitmap_room :: "(bool list \<Rightarrow> nat \<Rightarrow> nat \<Rightarrow> nat) \<Rightarrow> nat list \<Rightarrow> bitmap_pool \<Rightarrow> bool" where
  "bitmap_room search ns st \<longleftrightarrow> zero_area search \<and> (\<exists>s l. bitmap_ok s l st
     \<and> s + length (filter (\<lambda>n. n \<le> SMALL_LENGTH) ns) \<le> sp_nbits (bp_small st) \<and> l + length (filter (\<lambda>n. SMALL_LENGTH < n) ns) \<le> sp_nbits (bp_large st))
     \<and> (\<forall>n \<in> set ns. n \<le> LARGE_LENGTH)"

lemma bitmap_allocates:
  assumes "bitmap_room search (n # ns) st"
  shows "\<exists>a st'. bitmap_allocate search n st = Some (a, st') \<and> bitmap_room search ns st'
    \<and> bitmap_used st \<inter> {a..<a + n} = {} \<and> bitmap_used st \<union> {a..<a + n} \<subseteq> bitmap_used st'"
proof -
  let ?h = "bp_dev_size st div 2"
  obtain s l where ok: "zero_area search" "bitmap_ok s l st" and n: "n \<le> LARGE_LENGTH" "\<forall>m \<in> set ns. m \<le> LARGE_LENGTH"
    and fit: "s + length (filter (\<lambda>n. n \<le> SMALL_LENGTH) (n # ns)) \<le> sp_nbits (bp_small st)"
      "l + length (filter (\<lambda>n. SMALL_LENGTH < n) (n # ns)) \<le> sp_nbits (bp_large st)"
    using assms by (auto simp: bitmap_room_def)
  have at: "sp_last_pos (bp_small st) = s" "sp_last_pos (bp_large st) = l" "s \<le> ?h div SMALL_LENGTH" "?h < 2 ^ 63"
    using ok(2) less_mult_imp_div_less [of "bp_dev_size st" "2 ^ 63" 2] by (simp_all add: bitmap_ok_def pool_at_def)
  have half: "k * m \<le> ?h" if "k \<le> ?h div m" for k m
    using mult_le_mono1 [OF that, of m] by (meson div_times_less_eq_dividend order_trans)
  show ?thesis
  proof (cases "SMALL_LENGTH < n")
    case True
    obtain p where p: "take_slot search (bp_large st) = Some (l, p)" "pool_at (Suc l) p" "sp_nbits p = sp_nbits (bp_large st)"
      by (rule take_slot_next [OF ok(1), of l "bp_large st"]) (use ok(2) fit(2) True in \<open>auto simp: bitmap_ok_def\<close>)
    let ?st = "st\<lparr> bp_total_written := u64 (bp_total_written st + n), bp_large := p \<rparr>"
    have "l * LARGE_LENGTH \<le> ?h" using fit(2) ok(2) by (intro half) (simp add: bitmap_ok_def)
    then have "u64 (?h + l * LARGE_LENGTH) = ?h + l * LARGE_LENGTH" using at(4) by (simp add: u64_def)
    then have "bitmap_allocate search n st = Some (?h + l * LARGE_LENGTH, ?st)" using True p(1) by (simp add: bitmap_allocate_def)
    moreover have "bitmap_room search ns ?st"
      using ok p fit n True unfolding bitmap_room_def bitmap_ok_def by (intro conjI exI [of _ s] exI [of _ "Suc l"]) auto
    moreover have "bitmap_used st \<inter> {?h + l * LARGE_LENGTH..<?h + l * LARGE_LENGTH + n} = {}"
      using half [OF at(3)] at(1,2) by (auto simp: bitmap_used_def)
    moreover have "bitmap_used st \<union> {?h + l * LARGE_LENGTH..<?h + l * LARGE_LENGTH + n} \<subseteq> bitmap_used ?st"
      using at(1,2) p(2) n(1) by (auto simp: bitmap_used_def pool_at_def)
    ultimately show ?thesis by blast
  next
    case False
    obtain p where p: "take_slot search (bp_small st) = Some (s, p)" "pool_at (Suc s) p" "sp_nbits p = sp_nbits (bp_small st)"
      by (rule take_slot_next [OF ok(1), of s "bp_small st"]) (use ok(2) fit(1) False in \<open>auto simp: bitmap_ok_def\<close>)
    let ?st = "st\<lparr> bp_total_written := u64 (bp_total_written st + n), bp_small := p \<rparr>"
    have s: "Suc s * SMALL_LENGTH \<le> ?h" using fit(1) ok(2) False by (intro half) (simp add: bitmap_ok_def)
    then have "u64 (s * SMALL_LENGTH) = s * SMALL_LENGTH" using at(4) by (simp add: u64_def)
    then have "bitmap_allocate search n st = Some (s * SMALL_LENGTH, ?st)" using False p(1) by (simp add: bitmap_allocate_def)
    moreover have "bitmap_room search ns ?st"
      using ok p fit n False unfolding bitmap_room_def bitmap_ok_def by (intro conjI exI [of _ "Suc s"] exI [of _ l]) auto
    moreover have "bitmap_used st \<inter> {s * SMALL_LENGTH..<s * SMALL_LENGTH + n} = {}"
      using s False at(1,2) by (auto simp: bitmap_used_def)
    moreover have "bitmap_used st \<union> {s * SMALL_LENGTH..<s * SMALL_LENGTH + n} \<subseteq> bitmap_used ?st"
      using False at(1,2) p(2) by (auto simp: bitmap_used_def pool_at_def)
    ultimately show ?thesis by blast
  qed
qed

interpretation bm: value_allocator "bitmap_allocate search" bitmap_used "bitmap_room search" for search
  by unfold_locales (rule bitmap_allocates)

lemma bitmap_zero_pool:
  assumes "init_pool n p = Some p'" and "sp_last_pos p = 0"
  shows "pool_at 0 p'" and "sp_nbits p' = n"
proof -
  have "n \<le> (n + 63) div 64 * 64" using div_mult_mod_eq [of "n + 63" 64] mod_less_divisor [of 64 "n + 63"] by linarith
  then show "pool_at 0 p'" "sp_nbits p' = n"
    using assms by (auto simp: init_pool_def bitmap_zero_def pool_at_def nth_append Let_def split: if_splits)
qed

lemma slots_within:
  assumes "bitmap_ok s l st"
  shows "bitmap_used st \<subseteq> {..<bp_dev_size st}"
proof -
  let ?h = "bp_dev_size st div 2"
  have "sp_last_pos (bp_small st) \<le> ?h div SMALL_LENGTH" "sp_last_pos (bp_large st) \<le> ?h div LARGE_LENGTH"
    using assms by (simp_all add: bitmap_ok_def pool_at_def)
  then have "sp_last_pos (bp_small st) * SMALL_LENGTH \<le> ?h" "sp_last_pos (bp_large st) * LARGE_LENGTH \<le> ?h"
    by (meson div_times_less_eq_dividend mult_le_mono1 order_trans)+
  then show ?thesis by (auto simp: bitmap_used_def)
qed

lemma bitmap_allocate_size: "bitmap_allocate search n st = Some (a, st') \<Longrightarrow> bp_dev_size st' = bp_dev_size st"
  by (auto simp: fault_simps bitmap_allocate_def Let_def split: if_splits)

lemma allocate_all_size: "allocate_all (bitmap_allocate search) ns st = Some (as, st') \<Longrightarrow> bp_dev_size st' = bp_dev_size st"
  by (induction ns arbitrary: st as) (auto simp: fault_simps dest: bitmap_allocate_size)

section \<open>Properties\<close>

text \<open>C28: After \<open>bitmap_allocator_init\<close> of an allocator whose last positions are zero, values of
  up to 4096 bytes get memory of their own inside the device, as long as there are 1024-byte slots for the short ones
  and 4096-byte slots for the others: no two ranges overlap, and none ends past the device. The search of the kernel
  is a parameter.\<close>

theorem bitmap_values_disjoint:
  assumes "zero_area search" and "bitmap_allocator_init size' st0 = Some (r, st)" and "size' < 2 ^ 64"
    and "sp_last_pos (bp_small st0) = 0" "sp_last_pos (bp_large st0) = 0" and "\<forall>n \<in> set ns. n \<le> LARGE_LENGTH"
    and "length (filter (\<lambda>n. n \<le> SMALL_LENGTH) ns) \<le> size' div 2 div SMALL_LENGTH"
    and "length (filter (\<lambda>n. SMALL_LENGTH < n) ns) \<le> size' div 2 div LARGE_LENGTH"
  shows "\<exists>as st'. allocate_all (bitmap_allocate search) ns st = Some (as, st') \<and> length as = length ns
    \<and> sorted_wrt disjnt (ranges as ns) \<and> \<Union> (set (ranges as ns)) \<subseteq> {..<size'}"
proof -
  obtain small large where st: "init_pool (size' div 2 div SMALL_LENGTH) (bp_small st0) = Some small"
    "init_pool (size' div 2 div LARGE_LENGTH) (bp_large st0) = Some large" "st = st0\<lparr> bp_small := small, bp_large := large, bp_dev_size := size' \<rparr>"
    using assms(2) by (auto simp: bitmap_allocator_init_def fault_simps)
  have ok: "bitmap_ok 0 0 st" using bitmap_zero_pool [OF st(1) assms(4)] bitmap_zero_pool [OF st(2) assms(5)] st(3) assms(3)
    by (simp add: bitmap_ok_def)
  then have "bitmap_room search ns st" using assms(1,6-8) st(3) unfolding bitmap_room_def
    by (intro conjI exI [of _ 0]) (auto simp: bitmap_ok_def)
  from bm.allocate_all_disjoint [OF this] obtain as st' where a: "allocate_all (bitmap_allocate search) ns st = Some (as, st')" "length as = length ns"
    "sorted_wrt disjnt (ranges as ns)" "\<Union> (set (ranges as ns)) \<subseteq> bitmap_used st'" "bitmap_room search [] st'" by auto
  have same: "bp_dev_size st' = bp_dev_size st"
    using allocate_all_size [OF a(1)] .
  obtain s l where "bitmap_ok s l st'" using a(5) by (auto simp: bitmap_room_def)
  then have "bitmap_used st' \<subseteq> {..<size'}" using slots_within same st(3) by fastforce
  then show ?thesis using a(1-4) by blast
qed

text \<open>A device of 16 KiB, and the search as the kernel does it.\<close>

definition first_zero :: "bool list \<Rightarrow> nat \<Rightarrow> nat \<Rightarrow> nat" where
  "first_zero bits n start = start + length (takeWhile (\<lambda>i. bits ! i) [start..<n])"

lemma first_zero_area: "zero_area first_zero"
  unfolding zero_area_def
proof (intro allI impI)
  fix bits :: "bool list" and n start :: nat
  assume "start \<le> n \<and> n \<le> length bits"
  then have le: "start \<le> n" ..
  let ?t = "takeWhile (\<lambda>i. bits ! i) [start..<n]"
  have len: "length ?t \<le> n - start" using length_takeWhile_le [of "\<lambda>i. bits ! i" "[start..<n]"] by simp
  have before: "bits ! (start + j)" if "j < length ?t" for j
    using that takeWhile_nth [OF that] set_takeWhileD [OF nth_mem [OF that]] len by simp
  have here: "\<not> bits ! (start + length ?t)" if "length ?t < n - start"
    using nth_length_takeWhile [of "\<lambda>i. bits ! i" "[start..<n]"] that by simp
  show "if \<exists>i. start \<le> i \<and> i < n \<and> \<not> bits ! i
      then start \<le> first_zero bits n start \<and> first_zero bits n start < n \<and> \<not> bits ! first_zero bits n start
        \<and> (\<forall>i. start \<le> i \<and> i < first_zero bits n start \<longrightarrow> bits ! i)
      else n \<le> first_zero bits n start"
  proof (cases "length ?t < n - start")
    case True
    then have "\<not> bits ! first_zero bits n start" "first_zero bits n start < n" using here by (simp_all add: first_zero_def)
    moreover have "bits ! i" if "start \<le> i" "i < first_zero bits n start" for i
      using before [of "i - start"] that by (simp add: first_zero_def)
    ultimately show ?thesis using le_add1 [of start] unfolding first_zero_def by metis
  next
    case False
    then have "length ?t = n - start" using len by simp
    then have "\<forall>i. start \<le> i \<and> i < n \<longrightarrow> bits ! i" using before [of "i - start" for i]
      by (metis diff_less_mono le_add_diff_inverse)
    then show ?thesis using \<open>length ?t = n - start\<close> le by (auto simp: first_zero_def)
  qed
qed

definition tiny_bitmap :: bitmap_pool where
  "tiny_bitmap = \<lparr> bp_small = \<lparr> sp_bits = replicate 64 True, sp_nbits = 0, sp_last_pos = 0, sp_capacity = 0 \<rparr>,
     bp_large = \<lparr> sp_bits = replicate 64 True, sp_nbits = 0, sp_last_pos = 0, sp_capacity = 0 \<rparr>, bp_dev_size = 0, bp_total_written = 0 \<rparr>"

lemma bitmap_values_disjoint_witness:
  "\<exists>r st as st'. bitmap_allocator_init 16384 tiny_bitmap = Some (r, st) \<and> allocate_all (bitmap_allocate first_zero) [8, 4096, 1000] st = Some (as, st')
     \<and> sorted_wrt disjnt (ranges as [8, 4096, 1000])"
proof -
  have n: "SMALL_LENGTH = 1024" "LARGE_LENGTH = 4096" by (simp_all add: SMALL_LENGTH_def LARGE_LENGTH_def)
  have "\<exists>st. bitmap_allocator_init 16384 tiny_bitmap = Some (1, st)"
    by (simp add: bitmap_allocator_init_def init_pool_def bitmap_zero_def tiny_bitmap_def n)
  then obtain st where st: "bitmap_allocator_init 16384 tiny_bitmap = Some (1, st)" by blast
  show ?thesis using st bitmap_values_disjoint [OF first_zero_area st, of "[8, 4096, 1000]"] by (auto simp: tiny_bitmap_def n)
qed

end
