(* ===== verification/Kv_Map.thy ===== *)
theory Kv_Map
  imports Allocator Nvme
begin

text \<open>
  The mapping table of the key-value device (\<open>kv_ftl.c\<close>, \<open>kv_ftl.h\<close>): a hash table with open addressing whose
  slots are also chained. A key is looked for in its home slot and along the chain from there; a new key goes to
  its home slot or, if that is taken, to the next free slot, and the home slot is linked to it. The two variants
  of each function, with a command and with a key, have the same loops: \<open>key_search\<close> is the search of all of
  them. \<open>None\<close> stands for a search that does not end, an index outside an array and a failed \<open>BUG_ON\<close>.
\<close>

unbundle bit_operations_syntax

section \<open>Commands and entries\<close>

text \<open>The members of the union \<open>nvme_kv_command\<close> lie over each other: the fields of \<open>nvme_kv_store_command\<close> are
  kept, and the other members are read from them.\<close>

record nvme_kv_command =
  kv_opcode :: nat
  kv_prp1 :: nat
  kv_prp2 :: nat
  kv_value_len :: nat
  kv_key_len :: nat
  kv_option :: nat
  kv_rsvd4 :: nat
  kv_key :: "8 word list"

definition nvme_cmd_kv_store :: nat where "nvme_cmd_kv_store = 0x81"
definition nvme_cmd_kv_append :: nat where "nvme_cmd_kv_append = 0x83"
definition nvme_cmd_kv_retrieve :: nat where "nvme_cmd_kv_retrieve = 0x90"
definition nvme_cmd_kv_delete :: nat where "nvme_cmd_kv_delete = 0xA1"
definition nvme_cmd_kv_iter_req :: nat where "nvme_cmd_kv_iter_req = 0xB1"
definition nvme_cmd_kv_iter_read :: nat where "nvme_cmd_kv_iter_read = 0xB2"
definition nvme_cmd_kv_exist :: nat where "nvme_cmd_kv_exist = 0xB3"
definition nvme_cmd_kv_batch :: nat where "nvme_cmd_kv_batch = 0x85"

lemmas kv_opcodes = nvme_cmd_kv_store_def nvme_cmd_kv_append_def nvme_cmd_kv_retrieve_def nvme_cmd_kv_delete_def
  nvme_cmd_kv_iter_req_def nvme_cmd_kv_iter_read_def nvme_cmd_kv_exist_def nvme_cmd_kv_batch_def

definition cmd_key_length :: "nvme_kv_command \<Rightarrow> nat" where "cmd_key_length c = kv_key_len c + 1"
definition cmd_value_length :: "nvme_kv_command \<Rightarrow> nat" where "cmd_value_length c = u32 (kv_value_len c * 4)"

text \<open>\<open>-1\<close> as a \<open>size_t\<close> and as an \<open>unsigned int\<close>.\<close>

definition NO_OFFSET :: nat where "NO_OFFSET = 2 ^ 64 - 1"
definition NO_SLOT :: nat where "NO_SLOT = 2 ^ 32 - 1"

record mapping_entry =
  me_key :: "8 word list"
  mem_offset :: nat
  me_length :: nat
  next_slot :: nat

text \<open>\<open>memset\<close> of an entry with \<open>-1\<close>.\<close>

definition cleared_entry :: mapping_entry where
  "cleared_entry = \<lparr> me_key = replicate 18 (- 1), mem_offset = NO_OFFSET, me_length = NO_OFFSET, next_slot = NO_SLOT \<rparr>"

record kv_table =
  kv_mapping_table :: "mapping_entry list"
  hash_slots :: nat

section \<open>Search\<close>

definition hash_function :: "8 word list \<Rightarrow> nat \<Rightarrow> 32 word option" where
  "hash_function key n = do {
     nvmev_assert (n \<le> length key);
     Some (foldl (\<lambda>h b. (h * 16777619) XOR ucast b) 2166136261 (take n key))
   }"

definition get_hash_slot :: "kv_table \<Rightarrow> 8 word list \<Rightarrow> nat \<Rightarrow> nat option" where
  "get_hash_slot kv key n = do { h \<leftarrow> hash_function key n; mod_trap (unat h) (hash_slots kv) }"

definition memcmp :: "8 word list \<Rightarrow> 8 word list \<Rightarrow> nat \<Rightarrow> bool option" where
  "memcmp a b n = do { nvmev_assert (n \<le> length a \<and> n \<le> length b); Some (take n a = take n b) }"

definition copy_key :: "8 word list \<Rightarrow> 8 word list \<Rightarrow> nat \<Rightarrow> 8 word list option" where
  "copy_key dst src n = do { nvmev_assert (n \<le> length dst \<and> n \<le> length src); Some (take n src @ drop n dst) }"

partial_function (option) key_search :: "kv_table \<Rightarrow> 8 word list \<Rightarrow> nat \<Rightarrow> nat \<Rightarrow> nat option" where
  "key_search kv key n pos =
     Option.bind (arr_get (kv_mapping_table kv) pos) (\<lambda>e.
     if mem_offset e = NO_OFFSET then Some NO_SLOT
     else Option.bind (memcmp key (me_key e) n) (\<lambda>same.
       if same then Some pos
       else if next_slot e = NO_SLOT then Some NO_SLOT
       else key_search kv key n (next_slot e)))"

definition get_mapping_entry_by_key :: "kv_table \<Rightarrow> 8 word list \<Rightarrow> nat \<Rightarrow> mapping_entry option" where
  "get_mapping_entry_by_key kv key n = do {
     home \<leftarrow> get_hash_slot kv key n;
     pos \<leftarrow> key_search kv key n home;
     if pos = NO_SLOT then Some cleared_entry
     else do {
       e \<leftarrow> arr_get (kv_mapping_table kv) pos;
       k \<leftarrow> copy_key (me_key cleared_entry) (me_key e) n;
       Some \<lparr> me_key = k, mem_offset = mem_offset e, me_length = me_length e, next_slot = next_slot e \<rparr>
     }
   }"

definition get_mapping_entry :: "kv_table \<Rightarrow> nvme_kv_command \<Rightarrow> mapping_entry option" where
  "get_mapping_entry kv c = get_mapping_entry_by_key kv (kv_key c) (cmd_key_length c)"

section \<open>Changes\<close>

definition on_mapping :: "kv_table \<Rightarrow> nat \<Rightarrow> (mapping_entry \<Rightarrow> mapping_entry) \<Rightarrow> kv_table option" where
  "on_mapping kv pos f = do {
     e \<leftarrow> arr_get (kv_mapping_table kv) pos;
     t \<leftarrow> arr_set (kv_mapping_table kv) pos (f e);
     Some (kv\<lparr> kv_mapping_table := t \<rparr>)
   }"

definition chain_mapping :: "kv_table \<Rightarrow> nat \<Rightarrow> nat \<Rightarrow> kv_table option" where
  "chain_mapping kv prev pos = on_mapping kv prev (\<lambda>e. e\<lparr> next_slot := pos \<rparr>)"

text \<open>\<open>find_next_slot\<close> also stores the original slot as the one to link from.\<close>

partial_function (option) find_next_slot :: "kv_table \<Rightarrow> nat \<Rightarrow> nat option" where
  "find_next_slot kv pos =
     Option.bind (arr_get (kv_mapping_table kv) pos) (\<lambda>e.
     if mem_offset e \<noteq> NO_OFFSET
     then find_next_slot kv (if hash_slots kv \<le> u32 (pos + 1) then 0 else u32 (pos + 1))
     else Some pos)"

definition new_mapping_entry_by_key :: "nat \<Rightarrow> kv_table \<Rightarrow> 8 word list \<Rightarrow> nat \<Rightarrow> nat \<Rightarrow> nat \<Rightarrow> kv_table option" where
  "new_mapping_entry_by_key storage_size kv key n val_len val_offset = do {
     nvmev_assert (val_offset < storage_size);
     home \<leftarrow> get_hash_slot kv key n;
     e \<leftarrow> arr_get (kv_mapping_table kv) home;
     let taken = mem_offset e \<noteq> NO_OFFSET;
     pos \<leftarrow> (if taken then find_next_slot kv home else Some home);
     e \<leftarrow> arr_get (kv_mapping_table kv) pos;
     k \<leftarrow> copy_key (me_key e) key n;
     kv \<leftarrow> on_mapping kv pos (\<lambda>e. e\<lparr> me_key := k, mem_offset := val_offset, me_length := val_len \<rparr>);
     if taken then chain_mapping kv home pos else Some kv
   }"

definition new_mapping_entry :: "nat \<Rightarrow> kv_table \<Rightarrow> nvme_kv_command \<Rightarrow> nat \<Rightarrow> kv_table option" where
  "new_mapping_entry storage_size kv c val_offset =
     new_mapping_entry_by_key storage_size kv (kv_key c) (cmd_key_length c) (cmd_value_length c) val_offset"

definition update_mapping_entry :: "kv_table \<Rightarrow> nvme_kv_command \<Rightarrow> (nat \<times> kv_table) option" where
  "update_mapping_entry kv c = do {
     home \<leftarrow> get_hash_slot kv (kv_key c) (cmd_key_length c);
     pos \<leftarrow> key_search kv (kv_key c) (cmd_key_length c) home;
     if pos = NO_SLOT then Some (1, kv)
     else do { kv \<leftarrow> on_mapping kv pos (\<lambda>e. e\<lparr> me_length := cmd_value_length c \<rparr>); Some (0, kv) }
   }"

definition delete_mapping_entry :: "kv_table \<Rightarrow> nvme_kv_command \<Rightarrow> (mapping_entry \<times> kv_table) option" where
  "delete_mapping_entry kv c = do {
     home \<leftarrow> get_hash_slot kv (kv_key c) (cmd_key_length c);
     pos \<leftarrow> key_search kv (kv_key c) (cmd_key_length c) home;
     if pos = NO_SLOT then Some (cleared_entry, kv)
     else do { kv \<leftarrow> on_mapping kv pos (\<lambda>_. cleared_entry); Some (cleared_entry, kv) }
   }"

text \<open>The table of a new namespace: \<open>memset\<close> with 0, then the three stores for each slot. The size of the table
  and of an entry come from the build.\<close>

definition init_mapping_table :: "nat \<Rightarrow> nat \<Rightarrow> kv_table option" where
  "init_mapping_table table_size entry_size = do {
     n \<leftarrow> div_trap table_size entry_size;
     Some \<lparr> kv_mapping_table = replicate n \<lparr> me_key = replicate 18 0, mem_offset = NO_OFFSET, me_length = NO_OFFSET, next_slot = NO_SLOT \<rparr>,
            hash_slots = n \<rparr>
   }"

section \<open>Chains\<close>

definition occupied :: "kv_table \<Rightarrow> nat \<Rightarrow> bool" where
  "occupied kv p \<longleftrightarrow> mem_offset (kv_mapping_table kv ! p) \<noteq> NO_OFFSET"

definition link :: "kv_table \<Rightarrow> nat \<Rightarrow> nat" where
  "link kv p = next_slot (kv_mapping_table kv ! p)"

text \<open>Along the links between occupied slots some rank grows (the time at which a slot was last taken).\<close>

definition chains_ok :: "kv_table \<Rightarrow> bool" where
  "chains_ok kv \<longleftrightarrow> hash_slots kv = length (kv_mapping_table kv) \<and> 0 < hash_slots kv \<and> hash_slots kv < 2 ^ 31
     \<and> (\<forall>p < hash_slots kv. length (me_key (kv_mapping_table kv ! p)) = 18 \<and> (\<not> occupied kv p \<longrightarrow> link kv p = NO_SLOT)
          \<and> (link kv p \<noteq> NO_SLOT \<longrightarrow> link kv p < hash_slots kv))
     \<and> (\<exists>rank :: nat \<Rightarrow> nat. \<forall>p < hash_slots kv. occupied kv p \<and> link kv p \<noteq> NO_SLOT \<and> occupied kv (link kv p) \<longrightarrow> rank p < rank (link kv p))"

lemma chains_okD:
  assumes "chains_ok kv"
  shows "length (kv_mapping_table kv) = hash_slots kv" "0 < hash_slots kv" "hash_slots kv < 2 ^ 31" "p < hash_slots kv \<Longrightarrow> length (me_key (kv_mapping_table kv ! p)) = 18"
    "p < hash_slots kv \<Longrightarrow> \<not> occupied kv p \<Longrightarrow> link kv p = NO_SLOT" "p < hash_slots kv \<Longrightarrow> link kv p \<noteq> NO_SLOT \<Longrightarrow> link kv p < hash_slots kv"
    "p < hash_slots kv \<Longrightarrow> p \<noteq> NO_SLOT"
  using assms by (auto simp: chains_ok_def NO_SLOT_def)

lemma key_search_step:
  assumes "chains_ok kv" and "p < hash_slots kv" and "n \<le> length key" and "n \<le> 18"
  shows "key_search kv key n p =
     (if \<not> occupied kv p then Some NO_SLOT else if take n key = take n (me_key (kv_mapping_table kv ! p)) then Some p
      else if link kv p = NO_SLOT then Some NO_SLOT else key_search kv key n (link kv p))"
  using assms chains_okD(1,4) [OF assms(1)]
  by (subst key_search.simps) (simp add: occupied_def link_def memcmp_def)

text \<open>What a search returns: the first slot of the chain with the key.\<close>

definition found_at :: "kv_table \<Rightarrow> 8 word list \<Rightarrow> nat \<Rightarrow> nat \<Rightarrow> bool" where
  "found_at kv key n p \<longleftrightarrow> p < hash_slots kv \<and> occupied kv p \<and> take n key = take n (me_key (kv_mapping_table kv ! p))"

lemma key_search_returns:
  assumes ok: "chains_ok kv" and p: "p < hash_slots kv" and n: "n \<le> length key" "n \<le> 18"
  shows "\<exists>r. key_search kv key n p = Some r \<and> (r = NO_SLOT \<or> found_at kv key n r)"
proof -
  obtain rank :: "nat \<Rightarrow> nat" where rank: "\<forall>p < hash_slots kv. occupied kv p \<and> link kv p \<noteq> NO_SLOT \<and> occupied kv (link kv p) \<longrightarrow> rank p < rank (link kv p)"
    using ok unfolding chains_ok_def by blast
  define M where "M = Max (rank ` {..<hash_slots kv})"
  have M: "rank q \<le> M" if "q < hash_slots kv" for q using that by (auto simp: M_def intro!: Max_ge)
  show ?thesis
    using p
  proof (induction "M - rank p" arbitrary: p rule: less_induct)
    case less
    note step = key_search_step [OF ok less.prems n]
    show ?case
    proof (cases "occupied kv p \<and> take n key \<noteq> take n (me_key (kv_mapping_table kv ! p)) \<and> link kv p \<noteq> NO_SLOT")
      case True
      then have q: "link kv p < hash_slots kv" using chains_okD(6) [OF ok less.prems] by simp
      show ?thesis
      proof (cases "occupied kv (link kv p)")
        case occ: True
        then have "M - rank (link kv p) < M - rank p" using rank less.prems True M [OF q] by (meson diff_less_mono2 less_le_trans)
        then show ?thesis using less.hyps [OF _ q] step True by simp
      next
        case False
        then show ?thesis using step True key_search_step [OF ok q n] by simp
      qed
    next
      case False
      then show ?thesis using step less.prems by (auto simp: found_at_def)
    qed
  qed
qed

lemma hash_slot_ok:
  assumes "chains_ok kv" and "n \<le> length key"
  shows "\<exists>h. get_hash_slot kv key n = Some h \<and> h < hash_slots kv"
  using assms chains_okD(2) [OF assms(1)] by (simp add: get_hash_slot_def hash_function_def)

lemma find_next_slot_returns:
  assumes ok: "chains_ok kv" and p: "p < hash_slots kv" and free: "\<not> occupied kv ((p + d) mod hash_slots kv)"
  shows "\<exists>q. find_next_slot kv p = Some q \<and> q < hash_slots kv \<and> \<not> occupied kv q"
  using p free
proof (induction d arbitrary: p)
  case 0
  then show ?case using chains_okD(1) [OF ok] by (subst find_next_slot.simps) (simp add: occupied_def)
next
  case (Suc d)
  have u: "u32 (p + 1) = p + 1" using Suc.prems(1) chains_okD(3) [OF ok] by (simp add: u32_def)
  let ?q = "if hash_slots kv \<le> p + 1 then 0 else p + 1"
  have q: "?q < hash_slots kv" "?q = (p + 1) mod hash_slots kv" using Suc.prems(1) chains_okD(2) [OF ok] by (auto simp: mod_Suc)
  have "(?q + d) mod hash_slots kv = (p + Suc d) mod hash_slots kv" unfolding q(2) by (simp add: mod_add_left_eq)
  then obtain r where r: "find_next_slot kv ?q = Some r" "r < hash_slots kv" "\<not> occupied kv r" using Suc.IH [OF q(1)] Suc.prems(2) by auto
  show ?case
  proof (cases "occupied kv p")
    case True
    then have "find_next_slot kv p = find_next_slot kv ?q" using Suc.prems(1) chains_okD(1) [OF ok] u
      by (subst find_next_slot.simps) (simp add: occupied_def)
    then show ?thesis using r by simp
  next
    case False
    then show ?thesis using Suc.prems(1) chains_okD(1) [OF ok] by (subst find_next_slot.simps) (simp add: occupied_def)
  qed
qed

lemma find_next_slot_free:
  assumes ok: "chains_ok kv" and p: "p < hash_slots kv" and q: "q < hash_slots kv" "\<not> occupied kv q"
  shows "\<exists>r. find_next_slot kv p = Some r \<and> r < hash_slots kv \<and> \<not> occupied kv r"
proof -
  have "(p + (q + hash_slots kv - p)) mod hash_slots kv = q" using p q(1) by simp
  then show ?thesis using find_next_slot_returns [OF ok p, of "q + hash_slots kv - p"] q(2) by simp
qed

section \<open>What the changes do\<close>

definition stored_entry :: "mapping_entry \<Rightarrow> 8 word list \<Rightarrow> nat \<Rightarrow> nat \<Rightarrow> nat \<Rightarrow> mapping_entry" where
  "stored_entry e key n val_len off = e\<lparr> me_key := take n key @ drop n (me_key e), mem_offset := off, me_length := val_len \<rparr>"

text \<open>The table with the new entry in the free slot \<open>r\<close>, linked from the home slot \<open>h\<close> if that was taken.\<close>

definition inserted :: "kv_table \<Rightarrow> nat \<Rightarrow> nat \<Rightarrow> 8 word list \<Rightarrow> nat \<Rightarrow> nat \<Rightarrow> nat \<Rightarrow> kv_table" where
  "inserted kv h r key n val_len off =
     (let t = (kv_mapping_table kv)[r := stored_entry (kv_mapping_table kv ! r) key n val_len off]
      in kv\<lparr> kv_mapping_table := (if occupied kv h then t[h := (t ! h)\<lparr> next_slot := r \<rparr>] else t) \<rparr>)"

lemma new_mapping_entry_effect:
  assumes ok: "chains_ok kv" and n: "n \<le> length key" "n \<le> 18" and off: "off < storage_size" and h: "get_hash_slot kv key n = Some h" "h < hash_slots kv"
    and free: "q < hash_slots kv" "\<not> occupied kv q"
  obtains r where "new_mapping_entry_by_key storage_size kv key n val_len off = Some (inserted kv h r key n val_len off)"
    "r < hash_slots kv" "\<not> occupied kv r" "occupied kv h \<or> r = h"
proof -
  note D = chains_okD [OF ok]
  obtain r where r: "(if occupied kv h then find_next_slot kv h else Some h) = Some r" "r < hash_slots kv" "\<not> occupied kv r" "occupied kv h \<or> r = h"
    using find_next_slot_free [OF ok h(2) free] h(2) by (metis option.inject)
  have "new_mapping_entry_by_key storage_size kv key n val_len off = Some (inserted kv h r key n val_len off)"
  proof (cases "occupied kv h")
    case True
    then show ?thesis using off h r D(1,4) n
      by (simp add: new_mapping_entry_by_key_def occupied_def [symmetric] copy_key_def on_mapping_def chain_mapping_def inserted_def stored_entry_def Let_def)
  next
    case False
    then show ?thesis using off h r D(1,4) n
      by (simp add: new_mapping_entry_by_key_def occupied_def [symmetric] copy_key_def on_mapping_def inserted_def stored_entry_def Let_def)
  qed
  then show ?thesis using that r by blast
qed

lemma inserted_fields:
  fixes val_len :: nat
  assumes ok: "chains_ok kv" and r: "r < hash_slots kv" "\<not> occupied kv r" "occupied kv h \<or> r = h" and h: "h < hash_slots kv"
    and n: "n \<le> length key" "n \<le> 18" and off: "off \<noteq> NO_OFFSET"
  defines "kv' \<equiv> inserted kv h r key n val_len off"
  shows "hash_slots kv' = hash_slots kv" "length (kv_mapping_table kv') = hash_slots kv"
    "occupied kv' p \<longleftrightarrow> p = r \<or> occupied kv p" "p < hash_slots kv \<Longrightarrow> link kv' p = (if occupied kv h \<and> p = h then r else link kv p)"
    "p \<noteq> r \<Longrightarrow> me_key (kv_mapping_table kv' ! p) = me_key (kv_mapping_table kv ! p)"
    "me_key (kv_mapping_table kv' ! r) = take n key @ drop n (me_key (kv_mapping_table kv ! r))"
    "mem_offset (kv_mapping_table kv' ! r) = off" "me_length (kv_mapping_table kv' ! r) = val_len"
proof -
  note D = chains_okD [OF ok]
  define s where "s = stored_entry (kv_mapping_table kv ! r) key n val_len off"
  have tab: "kv_mapping_table kv' = (if occupied kv h then (kv_mapping_table kv)[r := s, h := ((kv_mapping_table kv)[r := s] ! h)\<lparr> next_slot := r \<rparr>] else (kv_mapping_table kv)[r := s])"
    by (simp add: kv'_def inserted_def Let_def s_def)
  show "hash_slots kv' = hash_slots kv" by (simp add: kv'_def inserted_def Let_def)
  show "length (kv_mapping_table kv') = hash_slots kv" using D(1) by (simp add: tab)
  have nth: "kv_mapping_table kv' ! p = (if p = r then s else if p = h \<and> occupied kv h then (kv_mapping_table kv ! h)\<lparr> next_slot := r \<rparr> else kv_mapping_table kv ! p)" for p
  proof (cases "occupied kv h")
    case True
    then have "h \<noteq> r" using r(2) by blast
    then show ?thesis using True r(1) h D(1) by (simp add: tab nth_list_update)
  next
    case False
    then show ?thesis using r(1) D(1) by (simp add: tab nth_list_update)
  qed
  have s: "mem_offset s = off" "me_length s = val_len" "me_key s = take n key @ drop n (me_key (kv_mapping_table kv ! r))" "next_slot s = NO_SLOT"
    using D(5) [OF r(1,2)] by (simp_all add: s_def stored_entry_def link_def)
  show "occupied kv' p \<longleftrightarrow> p = r \<or> occupied kv p" using s(1) off by (simp add: occupied_def nth)
  show "p < hash_slots kv \<Longrightarrow> link kv' p = (if occupied kv h \<and> p = h then r else link kv p)"
    using s(4) D(5) [OF r(1,2)] r(2) by (auto simp: link_def nth)
  show "p \<noteq> r \<Longrightarrow> me_key (kv_mapping_table kv' ! p) = me_key (kv_mapping_table kv ! p)" by (simp add: nth)
  show "me_key (kv_mapping_table kv' ! r) = take n key @ drop n (me_key (kv_mapping_table kv ! r))"
    "mem_offset (kv_mapping_table kv' ! r) = off" "me_length (kv_mapping_table kv' ! r) = val_len"
    using s by (simp_all add: nth)
qed

lemma inserted_chains_ok:
  assumes ok: "chains_ok kv" and r: "r < hash_slots kv" "\<not> occupied kv r" "occupied kv h \<or> r = h" and h: "h < hash_slots kv"
    and n: "n \<le> length key" "n \<le> 18" and off: "off \<noteq> NO_OFFSET"
  shows "chains_ok (inserted kv h r key n val_len off)"
proof -
  let ?kv = "inserted kv h r key n val_len off"
  note D = chains_okD [OF ok] and F = inserted_fields [where kv = kv and h = h and r = r and key = key and n = n and off = off and val_len = val_len, OF ok r h n off]
  have keys: "length (me_key (kv_mapping_table ?kv ! p)) = 18" if "p < hash_slots kv" for p
    using D(4) [OF that] F(5) [of p] F(6) n D(4) [OF r(1)] by (cases "p = r") simp_all
  have links: "(\<not> occupied ?kv p \<longrightarrow> link ?kv p = NO_SLOT) \<and> (link ?kv p \<noteq> NO_SLOT \<longrightarrow> link ?kv p < hash_slots kv)" if "p < hash_slots kv" for p
    using D(5,6) [OF that] F(3) [of p] F(4) [OF that] r(1) by auto
  obtain rank :: "nat \<Rightarrow> nat" where rank: "\<forall>p < hash_slots kv. occupied kv p \<and> link kv p \<noteq> NO_SLOT \<and> occupied kv (link kv p) \<longrightarrow> rank p < rank (link kv p)"
    using ok unfolding chains_ok_def by blast
  define M where "M = Max (rank ` {..<hash_slots kv})"
  have M: "rank q < Suc M" if "q < hash_slots kv" for q using that by (auto simp: M_def le_imp_less_Suc intro!: Max_ge)
  have "(rank(r := Suc M)) p < (rank(r := Suc M)) (link ?kv p)"
    if p: "p < hash_slots kv" and e: "occupied ?kv p" "link ?kv p \<noteq> NO_SLOT" "occupied ?kv (link ?kv p)" for p
  proof -
    have "p \<noteq> r" using e(2) F(4) [OF p] D(5) [OF r(1,2)] r(2) by (cases "r = h") auto
    then show ?thesis using e F(3) [of p] F(3) [of "link ?kv p"] F(4) [OF p] rank p M [OF p] by (auto split: if_splits)
  qed
  then show ?thesis unfolding chains_ok_def F(1,2) using D(2,3) keys links by blast
qed

lemma on_mapping_same_links:
  assumes ok: "chains_ok kv" and p: "p < hash_slots kv" and f: "length (me_key (f (kv_mapping_table kv ! p))) = 18"
    "f (kv_mapping_table kv ! p) = cleared_entry \<or> next_slot (f (kv_mapping_table kv ! p)) = link kv p \<and> mem_offset (f (kv_mapping_table kv ! p)) = mem_offset (kv_mapping_table kv ! p)"
  shows "\<exists>kv'. on_mapping kv p f = Some kv' \<and> chains_ok kv' \<and> hash_slots kv' = hash_slots kv \<and> kv_mapping_table kv' = (kv_mapping_table kv)[p := f (kv_mapping_table kv ! p)]"
proof -
  note D = chains_okD [OF ok]
  let ?e = "f (kv_mapping_table kv ! p)"
  let ?kv = "kv\<lparr> kv_mapping_table := (kv_mapping_table kv)[p := ?e] \<rparr>"
  have run: "on_mapping kv p f = Some ?kv" using p D(1) by (simp add: on_mapping_def)
  have occ: "occupied ?kv q \<longleftrightarrow> occupied kv q \<and> \<not> (q = p \<and> ?e = cleared_entry)" for q
    using f(2) p D(1) by (auto simp: occupied_def nth_list_update cleared_entry_def)
  have lnk: "link ?kv q = (if q = p \<and> ?e = cleared_entry then NO_SLOT else link kv q)" if "q < hash_slots kv" for q
    using f(2) p D(1) that by (auto simp: link_def nth_list_update cleared_entry_def)
  obtain rank :: "nat \<Rightarrow> nat" where rank: "\<forall>p < hash_slots kv. occupied kv p \<and> link kv p \<noteq> NO_SLOT \<and> occupied kv (link kv p) \<longrightarrow> rank p < rank (link kv p)"
    using ok unfolding chains_ok_def by blast
  have keys: "length (me_key (kv_mapping_table ?kv ! q)) = 18" if "q < hash_slots kv" for q
    using that p D(1) D(4) [OF that] f(1) by (cases "q = p") simp_all
  have links: "(\<not> occupied ?kv q \<longrightarrow> link ?kv q = NO_SLOT) \<and> (link ?kv q \<noteq> NO_SLOT \<longrightarrow> link ?kv q < hash_slots kv)" if "q < hash_slots kv" for q
    using D(5,6) [OF that] occ [of q] lnk [OF that] by auto
  have ranks: "rank q < rank (link ?kv q)" if "q < hash_slots kv" "occupied ?kv q" "link ?kv q \<noteq> NO_SLOT" "occupied ?kv (link ?kv q)" for q
    using that occ lnk [OF that(1)] rank by (auto split: if_splits)
  have "chains_ok ?kv" unfolding chains_ok_def using D(1-3) keys links ranks by (intro conjI exI [of _ rank]) auto
  then show ?thesis using run by simp
qed

section \<open>Reachable tables\<close>

text \<open>Every table the operations can make of a fresh one.\<close>

inductive kv_reach :: "nat \<Rightarrow> kv_table \<Rightarrow> bool" for storage_size :: nat where
  start: "init_mapping_table table_size entry_size = Some kv \<Longrightarrow> 0 < hash_slots kv \<Longrightarrow> hash_slots kv < 2 ^ 31 \<Longrightarrow> kv_reach storage_size kv"
| insert: "kv_reach storage_size kv \<Longrightarrow> new_mapping_entry_by_key storage_size kv key n val_len off = Some kv' \<Longrightarrow> kv_reach storage_size kv'"
| update: "kv_reach storage_size kv \<Longrightarrow> update_mapping_entry kv c = Some (r, kv') \<Longrightarrow> kv_reach storage_size kv'"
| delete: "kv_reach storage_size kv \<Longrightarrow> delete_mapping_entry kv c = Some (e, kv') \<Longrightarrow> kv_reach storage_size kv'"

lemma find_next_slot_result:
  assumes "find_next_slot kv p = Some q"
  shows "q < length (kv_mapping_table kv) \<and> \<not> occupied kv q"
  by (rule find_next_slot.raw_induct [OF _ assms]) (auto simp: fault_simps occupied_def split: if_splits)

lemma copy_key_Some: "copy_key dst src n = Some k \<longleftrightarrow> n \<le> length dst \<and> n \<le> length src \<and> k = take n src @ drop n dst"
  by (auto simp: copy_key_def fault_simps)

lemma insert_chains_ok:
  assumes ok: "chains_ok kv" and run: "new_mapping_entry_by_key storage_size kv key n val_len off = Some kv'" and size': "storage_size < 2 ^ 64"
  shows "chains_ok kv'"
proof -
  note D = chains_okD [OF ok]
  from run obtain h r k where h: "get_hash_slot kv key n = Some h" and off: "off < storage_size" and r: "(if occupied kv h then find_next_slot kv h else Some h) = Some r"
    and k: "copy_key (me_key (kv_mapping_table kv ! r)) key n = Some k" and rl: "r < length (kv_mapping_table kv)"
    by (auto simp: new_mapping_entry_by_key_def fault_simps Let_def occupied_def)
  have n: "n \<le> length key" "n \<le> 18" using k rl D(1,4) by (auto simp: copy_key_Some)
  have hl: "h < hash_slots kv" using hash_slot_ok [OF ok n(1)] h by simp
  have r': "r < hash_slots kv" "\<not> occupied kv r" "occupied kv h \<or> r = h" using r rl D(1) find_next_slot_result by (auto split: if_splits)
  obtain q where q: "new_mapping_entry_by_key storage_size kv key n val_len off = Some (inserted kv h q key n val_len off)"
    "q < hash_slots kv" "\<not> occupied kv q" "occupied kv h \<or> q = h"
    using new_mapping_entry_effect [OF ok n off h hl r'(1,2)] by blast
  have "off \<noteq> NO_OFFSET" using off size' by (simp add: NO_OFFSET_def)
  then show ?thesis using inserted_chains_ok [OF ok q(2-4) hl n] q(1) run by simp
qed

lemma search_result:
  assumes "key_search kv key n p = Some q"
  shows "q = NO_SLOT \<or> q < length (kv_mapping_table kv) \<and> occupied kv q"
  by (rule key_search.raw_induct [OF _ assms]) (clarsimp simp: fault_simps occupied_def split: if_splits; blast?)

lemma kv_reach_ok:
  assumes "kv_reach storage_size kv" and "storage_size < 2 ^ 64"
  shows "chains_ok kv"
  using assms
proof (induction rule: kv_reach.induct)
  case (start table_size entry_size kv)
  then show ?case by (auto simp: init_mapping_table_def fault_simps chains_ok_def occupied_def link_def)
next
  case (insert kv key n val_len off kv')
  then show ?case using insert_chains_ok by blast
next
  case (update kv c r kv')
  then have ok: "chains_ok kv" by simp
  from update.hyps(2) consider "kv' = kv" | h q where "q \<noteq> NO_SLOT" "key_search kv (kv_key c) (cmd_key_length c) h = Some q"
      "on_mapping kv q (\<lambda>e. e\<lparr> me_length := cmd_value_length c \<rparr>) = Some kv'"
    by (auto simp: update_mapping_entry_def fault_simps split: if_splits)
  then show ?case
  proof cases
    case (2 h q)
    then have "q < hash_slots kv" using search_result chains_okD(1) [OF ok] by metis
    then show ?thesis using on_mapping_same_links [OF ok, of q "\<lambda>e. e\<lparr> me_length := cmd_value_length c \<rparr>"] 2(3) chains_okD(4) [OF ok]
      by (auto simp: link_def)
  qed (use ok in simp)
next
  case (delete kv c e kv')
  then have ok: "chains_ok kv" by simp
  from delete.hyps(2) consider "kv' = kv" | h q where "q \<noteq> NO_SLOT" "key_search kv (kv_key c) (cmd_key_length c) h = Some q" "on_mapping kv q (\<lambda>_. cleared_entry) = Some kv'"
    by (auto simp: delete_mapping_entry_def fault_simps split: if_splits)
  then show ?case
  proof cases
    case (2 h q)
    then have "q < hash_slots kv" using search_result chains_okD(1) [OF ok] by metis
    then show ?thesis using on_mapping_same_links [OF ok, of q "\<lambda>_. cleared_entry"] 2(3) by (auto simp: cleared_entry_def)
  qed (use ok in simp)
qed

text \<open>A lookup in a table whose chains are in order.\<close>

definition entry_of :: "kv_table \<Rightarrow> nat \<Rightarrow> nat \<Rightarrow> mapping_entry" where
  "entry_of kv n p = (kv_mapping_table kv ! p)\<lparr> me_key := take n (me_key (kv_mapping_table kv ! p)) @ replicate (18 - n) (- 1) \<rparr>"

lemma lookup_ok:
  assumes ok: "chains_ok kv" and n: "n \<le> length key" "n \<le> 18"
  obtains h r where "get_hash_slot kv key n = Some h" "h < hash_slots kv" "key_search kv key n h = Some r"
    "r = NO_SLOT \<or> found_at kv key n r"
    "get_mapping_entry_by_key kv key n = Some (if r = NO_SLOT then cleared_entry else entry_of kv n r)"
proof -
  obtain h where h: "get_hash_slot kv key n = Some h" "h < hash_slots kv" using hash_slot_ok [OF ok n(1)] by blast
  obtain r where r: "key_search kv key n h = Some r" "r = NO_SLOT \<or> found_at kv key n r" using key_search_returns [OF ok h(2) n] by blast
  have "get_mapping_entry_by_key kv key n = Some (if r = NO_SLOT then cleared_entry else entry_of kv n r)"
    using h r n chains_okD(1,4) [OF ok]
    by (auto simp: get_mapping_entry_by_key_def found_at_def copy_key_def entry_of_def cleared_entry_def)
  then show ?thesis using that h r by blast
qed

lemma entry_of_offset: "mem_offset (entry_of kv n p) = mem_offset (kv_mapping_table kv ! p)"
  by (simp add: entry_of_def)

lemma store_then_lookup:
  assumes reach: "kv_reach storage_size kv" and size': "storage_size < 2 ^ 64" and n: "n \<le> length key" "n \<le> 18" and off: "off < storage_size"
    and missing: "get_mapping_entry_by_key kv key n = Some cleared_entry" and q: "q < hash_slots kv" "\<not> occupied kv q"
  obtains kv' e where "new_mapping_entry_by_key storage_size kv key n val_len off = Some kv'" "kv_reach storage_size kv'"
    "get_mapping_entry_by_key kv' key n = Some e" "mem_offset e = off" "me_length e = val_len" "take n (me_key e) = take n key"
proof -
  have ok: "chains_ok kv" using kv_reach_ok reach size' by blast
  have off': "off \<noteq> NO_OFFSET" using off size' by (simp add: NO_OFFSET_def)
  obtain h p where h: "get_hash_slot kv key n = Some h" "h < hash_slots kv" "key_search kv key n h = Some p" "p = NO_SLOT \<or> found_at kv key n p"
    "get_mapping_entry_by_key kv key n = Some (if p = NO_SLOT then cleared_entry else entry_of kv n p)" by (rule lookup_ok [OF ok n])
  have p: "p = NO_SLOT"
  proof (rule ccontr)
    assume "p \<noteq> NO_SLOT"
    then have "found_at kv key n p" "entry_of kv n p = cleared_entry" using h(4,5) missing by simp_all
    moreover have "mem_offset cleared_entry = NO_OFFSET" by (simp add: cleared_entry_def)
    ultimately show False by (metis (no_types) entry_of_offset found_at_def occupied_def)
  qed
  obtain r where r: "new_mapping_entry_by_key storage_size kv key n val_len off = Some (inserted kv h r key n val_len off)"
    "r < hash_slots kv" "\<not> occupied kv r" "occupied kv h \<or> r = h"
    using new_mapping_entry_effect [OF ok n off h(1,2) q] by blast
  let ?kv = "inserted kv h r key n val_len off"
  note F = inserted_fields [where kv = kv and h = h and r = r and key = key and n = n and off = off and val_len = val_len, OF ok r(2-4) h(2) n off']
  have ok': "chains_ok ?kv" using inserted_chains_ok [OF ok r(2-4) h(2) n off'] .
  have home: "get_hash_slot ?kv key n = Some h" using h(1) F(1) by (simp add: get_hash_slot_def)
  have at: "key_search ?kv key n r = Some r" using key_search_step [OF ok', of r n key] F(1,3,6) r(2) n by simp
  have "key_search ?kv key n h = Some r"
  proof (cases "occupied kv h")
    case True
    have hr: "h \<noteq> r" using r(3) True by blast
    have "take n key \<noteq> take n (me_key (kv_mapping_table kv ! h))"
      using key_search_step [OF ok h(2) n] h(3) True p chains_okD(7) [OF ok h(2)] by (auto split: if_splits)
    then show ?thesis using key_search_step [OF ok', of h n key] at F(1,3) F(4) [OF h(2)] F(5) [OF hr] h(2) r(2) n chains_okD(7) [OF ok] True by simp
  qed (use at r(4) in simp)
  moreover obtain h' r' where "get_hash_slot ?kv key n = Some h'" "key_search ?kv key n h' = Some r'"
    "get_mapping_entry_by_key ?kv key n = Some (if r' = NO_SLOT then cleared_entry else entry_of ?kv n r')" by (rule lookup_ok [OF ok' n])
  ultimately have "get_mapping_entry_by_key ?kv key n = Some (entry_of ?kv n r)" using home chains_okD(7) [OF ok r(2)] by simp
  moreover have "mem_offset (entry_of ?kv n r) = off" "me_length (entry_of ?kv n r) = val_len" "take n (me_key (entry_of ?kv n r)) = take n key"
    using F(6-8) n by (simp_all add: entry_of_def)
  ultimately show ?thesis using that r(1) kv_reach.insert [OF reach r(1)] by blast
qed

text \<open>A deletion clears the slot with its link: if the key was in its home slot, all keys with that home slot are
  out of reach.\<close>

lemma delete_home_loses_chain:
  assumes ok: "chains_ok kv" and n: "kv_key_len c < length (kv_key c)" "kv_key_len c < 18"
    and h: "get_hash_slot kv (kv_key c) (cmd_key_length c) = Some h" "key_search kv (kv_key c) (cmd_key_length c) h = Some h"
    and old: "m \<le> length old" "m \<le> 18" "get_hash_slot kv old m = Some h"
  shows "\<exists>kv'. delete_mapping_entry kv c = Some (cleared_entry, kv') \<and> get_mapping_entry_by_key kv' old m = Some cleared_entry"
proof -
  have hl: "h < hash_slots kv" using hash_slot_ok [OF ok old(1)] old(3) by simp
  obtain kv' where kv': "on_mapping kv h (\<lambda>_. cleared_entry) = Some kv'" "chains_ok kv'" "hash_slots kv' = hash_slots kv"
    "kv_mapping_table kv' = (kv_mapping_table kv)[h := cleared_entry]"
    using on_mapping_same_links [OF ok hl, of "\<lambda>_. cleared_entry"] by (auto simp: cleared_entry_def)
  have "\<not> occupied kv' h" using kv'(4) hl chains_okD(1) [OF ok] by (simp add: occupied_def cleared_entry_def)
  then have "key_search kv' old m h = Some NO_SLOT" using key_search_step [OF kv'(2), of h m old] kv'(3) hl old by simp
  then have "get_mapping_entry_by_key kv' old m = Some cleared_entry" using old(3) kv'(3) by (simp add: get_mapping_entry_by_key_def get_hash_slot_def)
  then show ?thesis using h kv'(1) chains_okD(7) [OF ok hl] by (simp add: delete_mapping_entry_def)
qed

section \<open>Properties\<close>

text \<open>C27: In every table that insertions, updates and deletions can make, the lookup of a key of up to 18 bytes
  ends: although links are overwritten and left behind by deletions, they never form a circle. It gives the
  cleared entry or the entry of an occupied slot that begins with the key.\<close>

theorem kv_lookup_returns:
  assumes "kv_reach storage_size kv" and "storage_size < 2 ^ 64" and "n \<le> length key" and "n \<le> 18"
  shows "\<exists>e. get_mapping_entry_by_key kv key n = Some e \<and> (e = cleared_entry \<or> (\<exists>p. found_at kv key n p \<and> e = entry_of kv n p))"
proof -
  have "chains_ok kv" using kv_reach_ok assms(1,2) by blast
  then obtain h r where "r = NO_SLOT \<or> found_at kv key n r"
    "get_mapping_entry_by_key kv key n = Some (if r = NO_SLOT then cleared_entry else entry_of kv n r)"
    by (rule lookup_ok [OF _ assms(3,4)])
  then show ?thesis by auto
qed

text \<open>Storing a key that a lookup does not find, in a table with a free slot, makes the next lookup of it return
  its place and its length, whatever the collisions.\<close>

theorem kv_store_then_lookup:
  assumes "kv_reach storage_size kv" and "storage_size < 2 ^ 64" and "n \<le> length key" and "n \<le> 18" and "off < storage_size"
    and "get_mapping_entry_by_key kv key n = Some cleared_entry" and "q < hash_slots kv" and "\<not> occupied kv q"
  shows "\<exists>kv' e. new_mapping_entry_by_key storage_size kv key n val_len off = Some kv' \<and> kv_reach storage_size kv'
    \<and> get_mapping_entry_by_key kv' key n = Some e \<and> mem_offset e = off \<and> me_length e = val_len \<and> take n (me_key e) = take n key"
  by (rule store_then_lookup [OF assms]) blast

text \<open>A home slot is linked to one other slot only. When a key is stored whose home slot is taken, the link is
  overwritten: every older key with that home slot is lost, other than the one in the home slot itself.\<close>

theorem kv_collision_loses_keys:
  assumes "kv_reach storage_size kv" and "storage_size < 2 ^ 64" and "n \<le> length key" and "n \<le> 18" and "off < storage_size"
    and "get_hash_slot kv key n = Some h" and "occupied kv h" and "q < hash_slots kv" and "\<not> occupied kv q"
    and "n \<le> length old" and "get_hash_slot kv old n = Some h" and "take n old \<noteq> take n (me_key (kv_mapping_table kv ! h))" and "take n old \<noteq> take n key"
  shows "\<exists>kv'. new_mapping_entry_by_key storage_size kv key n val_len off = Some kv' \<and> get_mapping_entry_by_key kv' old n = Some cleared_entry"
proof -
  have ok: "chains_ok kv" using kv_reach_ok assms(1,2) by blast
  have hl: "h < hash_slots kv" using hash_slot_ok [OF ok assms(3)] assms(6) by simp
  have off: "off \<noteq> NO_OFFSET" using assms(2,5) by (simp add: NO_OFFSET_def)
  obtain r where r: "new_mapping_entry_by_key storage_size kv key n val_len off = Some (inserted kv h r key n val_len off)"
    "r < hash_slots kv" "\<not> occupied kv r" "occupied kv h \<or> r = h"
    using new_mapping_entry_effect [OF ok assms(3-6) hl assms(8,9)] by blast
  let ?kv = "inserted kv h r key n val_len off"
  note F = inserted_fields [where kv = kv and h = h and r = r and key = key and n = n and off = off and val_len = val_len, OF ok r(2-4) hl assms(3,4) off]
  have ok': "chains_ok ?kv" using inserted_chains_ok [OF ok r(2-4) hl assms(3,4) off] .
  have hr: "h \<noteq> r" using r(3) assms(7) by blast
  have home: "get_hash_slot ?kv old n = Some h" using assms(11) F(1) by (simp add: get_hash_slot_def)
  have "key_search ?kv old n h = key_search ?kv old n r"
    using key_search_step [OF ok', of h n old] F(1,3) F(4) [OF hl] F(5) [OF hr] hl r(2) chains_okD(7) [OF ok] assms(4,7,10,12) by simp
  moreover have "key_search ?kv old n r = Some NO_SLOT"
    using key_search_step [OF ok', of r n old] F(1,3,6) F(4) [OF r(2)] r(2) hr chains_okD(5) [OF ok r(2,3)] assms(3,4,10,13) by simp
  ultimately have "get_mapping_entry_by_key ?kv old n = Some cleared_entry" using home by (simp add: get_mapping_entry_by_key_def)
  then show ?thesis using r(1) by blast
qed

section \<open>A table of four slots\<close>

definition four_slots :: kv_table where
  "four_slots = the (init_mapping_table 192 48)"

lemma four_slots_init: "init_mapping_table 192 48 = Some four_slots" "hash_slots four_slots = 4"
  by (simp_all add: four_slots_def init_mapping_table_def)

text \<open>The keys 0, 4 and 8 of one byte have the same home slot.\<close>

lemma hash_example: "get_hash_slot four_slots [0] 1 = Some 3" "get_hash_slot four_slots [4] 1 = Some 3" "get_hash_slot four_slots [8] 1 = Some 3"
  by (simp_all add: get_hash_slot_def hash_function_def four_slots_init)

lemma four_slots_reach: "kv_reach 65536 four_slots"
  by (rule kv_reach.start [OF four_slots_init(1)]) (simp_all add: four_slots_init)

lemma four_slots_free: "p < 4 \<Longrightarrow> \<not> occupied four_slots p \<and> length (me_key (kv_mapping_table four_slots ! p)) = 18"
  by (simp add: four_slots_def init_mapping_table_def occupied_def)

lemma four_slots_missing: "get_mapping_entry_by_key four_slots [0] 1 = Some cleared_entry"
proof -
  have ok: "chains_ok four_slots" using kv_reach_ok [OF four_slots_reach] by simp
  show ?thesis using hash_example(1) four_slots_free [of 3] key_search_step [OF ok, of 3 1 "[0]"] four_slots_init(2)
    by (simp add: get_mapping_entry_by_key_def)
qed

lemma kv_lookup_returns_witness: "\<exists>e. get_mapping_entry_by_key four_slots [0] 1 = Some e"
  using kv_lookup_returns [OF four_slots_reach, of 1 "[0]"] by auto

lemma kv_store_then_lookup_witness:
  "\<exists>kv e. new_mapping_entry_by_key 65536 four_slots [0] 1 8 0 = Some kv \<and> get_mapping_entry_by_key kv [0] 1 = Some e \<and> me_length e = 8"
  using kv_store_then_lookup [OF four_slots_reach, of 1 "[0]" 0 0 8] four_slots_missing four_slots_free [of 0] four_slots_init(2) by auto

lemma same_home: "hash_slots kv = hash_slots four_slots \<Longrightarrow> get_hash_slot kv = get_hash_slot four_slots"
  by (simp add: get_hash_slot_def fun_eq_iff)

lemma kv_collision_loses_keys_witness:
  "\<exists>kv1 kv2 kv3. new_mapping_entry_by_key 65536 four_slots [0] 1 8 0 = Some kv1 \<and> new_mapping_entry_by_key 65536 kv1 [4] 1 8 8 = Some kv2
     \<and> new_mapping_entry_by_key 65536 kv2 [8] 1 8 16 = Some kv3 \<and> get_mapping_entry_by_key kv3 [4] 1 = Some cleared_entry"
proof -
  have sl: "hash_slots four_slots = 4" by (rule four_slots_init)
  have ok0: "chains_ok four_slots" using kv_reach_ok [OF four_slots_reach] by simp
  have no: "0 \<noteq> NO_OFFSET" "8 \<noteq> NO_OFFSET" by (simp_all add: NO_OFFSET_def)
  have free: "\<not> occupied four_slots p" if "p < 4" for p using four_slots_free [OF that] by simp
  obtain r where r: "new_mapping_entry_by_key 65536 four_slots [0] 1 8 0 = Some (inserted four_slots 3 r [0] 1 8 0)" "r < 4" "\<not> occupied four_slots r" "occupied four_slots 3 \<or> r = 3"
    using new_mapping_entry_effect [OF ok0, of 1 "[0]" 0 65536 3 0 8] hash_example(1) free sl by auto
  then have r3: "r = 3" using free by simp
  define kv1 where "kv1 = inserted four_slots 3 3 [0] 1 8 0"
  have run1: "new_mapping_entry_by_key 65536 four_slots [0] 1 8 0 = Some kv1" using r(1) r3 by (simp add: kv1_def)
  have at0: "3 < hash_slots four_slots" "\<not> occupied four_slots 3" "occupied four_slots 3 \<or> 3 = (3::nat)" "1 \<le> length [0 :: 8 word]" "(1::nat) \<le> 18" using free sl by simp_all
  note F1 = inserted_fields [OF ok0 at0(1-3,1,4,5) no(1), where val_len = 8, folded kv1_def]
  have f1: "hash_slots kv1 = 4" "occupied kv1 p \<longleftrightarrow> p = 3 \<or> occupied four_slots p" "take 1 (me_key (kv_mapping_table kv1 ! 3)) = [0]" for p
    using F1(1,3,6) sl by simp_all
  have reach1: "kv_reach 65536 kv1" using kv_reach.insert [OF four_slots_reach run1] .
  have ok1: "chains_ok kv1" using kv_reach_ok [OF reach1] by simp
  have h1: "get_hash_slot kv1 [4] 1 = Some 3" using hash_example(2) same_home [of kv1] f1(1) sl by simp
  obtain q where q: "new_mapping_entry_by_key 65536 kv1 [4] 1 8 8 = Some (inserted kv1 3 q [4] 1 8 8)" "q < 4" "\<not> occupied kv1 q"
    using new_mapping_entry_effect [OF ok1, of 1 "[4]" 8 65536 3 0 8] h1 f1(1,2) free [of 0] by auto
  define kv2 where "kv2 = inserted kv1 3 q [4] 1 8 8"
  have at1: "q < hash_slots kv1" "occupied kv1 3 \<or> q = 3" "3 < hash_slots kv1" "1 \<le> length [4 :: 8 word]" using q(2) f1(1,2) by simp_all
  note F2 = inserted_fields [OF ok1 at1(1) q(3) at1(2-4) at0(5) no(2), where val_len = 8, folded kv2_def]
  have q3: "3 \<noteq> q" using q(3) f1(2) by auto
  have f2: "hash_slots kv2 = 4" "occupied kv2 p \<longleftrightarrow> p = q \<or> occupied kv1 p" "me_key (kv_mapping_table kv2 ! 3) = me_key (kv_mapping_table kv1 ! 3)" for p
    using F2(1,3) F2(5) [OF q3] f1(1) by simp_all
  have run2: "new_mapping_entry_by_key 65536 kv1 [4] 1 8 8 = Some kv2" using q(1) by (simp add: kv2_def)
  have reach2: "kv_reach 65536 kv2" using kv_reach.insert [OF reach1 run2] .
  have h2: "get_hash_slot kv2 [8] 1 = Some 3" "get_hash_slot kv2 [4] 1 = Some 3" using hash_example same_home [of kv2] f2(1) sl by simp_all
  define z :: nat where "z = (if q = 0 then 1 else 0)"
  have z: "z < hash_slots kv2" "\<not> occupied kv2 z" using f2(1,2) f1(2) free [of z] by (auto simp: z_def)
  have "occupied kv2 3" using f2(2) f1(2) by simp
  moreover have "take 1 [4] \<noteq> take 1 (me_key (kv_mapping_table kv2 ! 3))" "take 1 [4 :: 8 word] \<noteq> take 1 [8]" using f2(3) f1(3) by simp_all
  ultimately have "\<exists>kv3. new_mapping_entry_by_key 65536 kv2 [8] 1 8 16 = Some kv3 \<and> get_mapping_entry_by_key kv3 [4] 1 = Some cleared_entry"
    by (intro kv_collision_loses_keys [OF reach2 _ _ _ _ h2(1) _ z _ h2(2)]) simp_all
  then show ?thesis using run1 run2 by blast
qed

end
