(* ===== verification/Simple_FTL.thy ===== *)
theory Simple_FTL
  imports Nvme
begin

text \<open>
  The simple device (\<open>simple_ftl.c\<close>), which the builds without an FTL use: a request is cut into pieces of
  \<open>2 ^ io_unit_shift\<close> bytes, the pieces go to the I/O units in turn, and an array remembers when each unit is
  idle again. \<open>kv_ftl.c\<close> has its own copy of the schedule, with more opcodes; here the opcode is turned into
  its times by a function that is an argument. \<open>None\<close> stands for a division by zero, an access outside the
  array and a shift the C standard leaves undefined.
\<close>

section \<open>Configuration\<close>

text \<open>\<open>struct nvmev_config\<close>.\<close>

record nvmev_config =
  cfg_memmap_start :: nat
  cfg_memmap_size :: nat
  cfg_storage_start :: nat
  cfg_storage_size :: nat
  cfg_nr_io_units :: nat
  cfg_io_unit_shift :: nat
  cfg_cpu_nr_dispatcher :: nat
  cfg_nr_io_cpu :: nat
  cfg_cpu_nr_io_workers :: "nat list"
  cfg_read_delay :: nat
  cfg_read_time :: nat
  cfg_read_trailing :: nat
  cfg_write_delay :: nat
  cfg_write_time :: nat
  cfg_write_trailing :: nat

section \<open>The schedule\<close>

definition cmd_io_size :: "nvme_command \<Rightarrow> nat" where
  "cmd_io_size c = (rw_length c + 1) * 2 ^ 9"

text \<open>Delay, time for a piece and trailing time of an opcode.\<close>

definition simple_times :: "nvmev_config \<Rightarrow> nat \<Rightarrow> nat \<times> nat \<times> nat" where
  "simple_times cfg op =
     (if op = nvme_cmd_write then (cfg_write_delay cfg, cfg_write_time cfg, cfg_write_trailing cfg)
      else if op = nvme_cmd_read then (cfg_read_delay cfg, cfg_read_time cfg, cfg_read_trailing cfg)
      else (0, 0, 0))"

definition DIV_ROUND_UP :: "nat \<Rightarrow> nat \<Rightarrow> nat option" where
  "DIV_ROUND_UP n d = div_trap (sub32 (n + d) 1) d"

text \<open>The loop over the pieces. \<open>left\<close> is the number of pieces that still add the trailing time.\<close>

partial_function (option) unit_loop ::
  "nvmev_config \<Rightarrow> nat \<Rightarrow> nat \<Rightarrow> nat \<Rightarrow> nat \<Rightarrow> int \<Rightarrow> nat \<Rightarrow> nat \<Rightarrow> nat list \<Rightarrow> (nat \<times> nat list) option" where
  "unit_loop cfg size' latency trailing io_unit left len latest stat =
     Option.bind (arr_set stat io_unit (u64 (latest + latency))) (\<lambda>stat.
     Option.bind (if 0 < left then arr_set stat io_unit (u64 (u64 (latest + latency) + trailing)) else Some stat) (\<lambda>stat.
     if 0 < len - min len size'
     then unit_loop cfg size' latency trailing (if cfg_nr_io_units cfg \<le> u32 (io_unit + 1) then 0 else u32 (io_unit + 1)) (left - 1)
            (len - min len size') (u64 (latest + latency)) stat
     else Some (u64 (latest + latency), stat)))"

definition schedule_io_units :: "nvmev_config \<Rightarrow> nat \<times> nat \<times> nat \<Rightarrow> nat \<Rightarrow> nat \<Rightarrow> nat \<Rightarrow> nat list \<Rightarrow> (nat \<times> nat list) option" where
  "schedule_io_units cfg op_times lba len nsecs_start stat = do {
     nvmev_assert (9 \<le> cfg_io_unit_shift cfg \<and> cfg_io_unit_shift cfg < 32);
     let io_unit_size = 2 ^ cfg_io_unit_shift cfg;
     io_unit \<leftarrow> mod_trap (lba div 2 ^ (cfg_io_unit_shift cfg - 9)) (cfg_nr_io_units cfg);
     pieces \<leftarrow> DIV_ROUND_UP len io_unit_size;
     idle \<leftarrow> arr_get stat io_unit;
     let (delay, latency, trailing) = op_times;
     unit_loop cfg io_unit_size latency trailing io_unit (int (min (cfg_nr_io_units cfg) pieces)) len (u64 (max nsecs_start idle + delay)) stat
   }"

definition schedule_flush :: "nvmev_config \<Rightarrow> nat list \<Rightarrow> nat option" where
  "schedule_flush cfg stat = foldM (\<lambda>i latest. do { t \<leftarrow> arr_get stat i; Some (max latest t) }) [0..<cfg_nr_io_units cfg] 0"

text \<open>\<open>base\<close> is the selected build; \<open>wall\<close> the wall clock.\<close>

definition simple_proc_io_cmd :: "base_ssd \<Rightarrow> nvmev_config \<Rightarrow> nat \<Rightarrow> 'f nvmev_ns \<Rightarrow> io_env \<Rightarrow> nat list \<Rightarrow> (bool \<times> io_env \<times> nat list) option" where
  "simple_proc_io_cmd base cfg wall ns e stat = do {
     let c = req_cmd (env_req e);
     let answer = (\<lambda>t. e\<lparr> env_ret := (env_ret e)\<lparr> ret_nsecs_target := t \<rparr> \<rparr>);
     nvmev_assert (ns_csi ns = NVME_CSI_NVM);
     nvmev_assert (base = INTEL_OPTANE);
     if opcode c = nvme_cmd_write \<or> opcode c = nvme_cmd_read then do {
       (t, stat) \<leftarrow> schedule_io_units cfg (simple_times cfg (opcode c)) (rw_slba c) (cmd_io_size c) wall stat;
       Some (True, answer t, stat)
     } else if opcode c = nvme_cmd_flush then do {
       t \<leftarrow> schedule_flush cfg stat;
       Some (True, answer t, stat)
     } else do { nvmev_assert (nvme_opcode_string_ok (opcode c)); Some (True, e, stat) }
   }"

definition simple_init_namespace :: "nat \<Rightarrow> nat \<Rightarrow> nat \<Rightarrow> 'f nvmev_ns \<Rightarrow> 'f nvmev_ns" where
  "simple_init_namespace id' size' mapped ns = ns\<lparr> ns_id := id', ns_csi := NVME_CSI_NVM, ns_size := size', ns_mapped := mapped,
     ns_proc_io_cmd := simple_proc_nvme_io_cmd \<rparr>"

section \<open>The times of the units\<close>

text \<open>How far unit \<open>v\<close> is behind the first unit in the turn, and the last of the first \<open>i\<close> pieces it gets.\<close>

definition turn :: "nat \<Rightarrow> nat \<Rightarrow> nat \<Rightarrow> nat" where
  "turn nr u v = (v + nr - u) mod nr"

definition last_piece :: "nat \<Rightarrow> nat \<Rightarrow> nat \<Rightarrow> nat \<Rightarrow> nat" where
  "last_piece nr u i v = turn nr u v + nr * ((i - 1 - turn nr u v) div nr)"

text \<open>When unit \<open>v\<close> is idle again after \<open>i\<close> pieces; the first \<open>m\<close> pieces have a trailing time.\<close>

definition idle_after :: "nat list \<Rightarrow> nat \<Rightarrow> nat \<Rightarrow> nat \<Rightarrow> nat \<Rightarrow> nat \<Rightarrow> nat \<Rightarrow> nat \<Rightarrow> nat" where
  "idle_after stat u base latency trailing m i v =
     (if i \<le> turn (length stat) u v then stat ! v
      else base + (last_piece (length stat) u i v + 1) * latency + (if last_piece (length stat) u i v < m then trailing else 0))"

lemma turn_inj:
  assumes "(u + a) mod nr = (u + b) mod nr" and "a < nr" "b < nr"
  shows "a = (b::nat)"
proof -
  have "a = b" if "(u + a) mod nr = (u + b) mod nr" "a \<le> b" "b < nr" for a b
  proof -
    have "nr dvd (u + b) - (u + a)" using that(1,2) mod_eq_dvd_iff_nat [of "u + a" "u + b" nr] by simp
    moreover have "b - a < nr" using that(3) by linarith
    moreover have "u + b - (u + a) = b - a" by simp
    ultimately have "b - a = 0" by (metis dvd_imp_le neq0_conv not_less)
    then show ?thesis using that(2) by simp
  qed
  then show ?thesis using assms by (metis nat_le_linear)
qed

lemma turn_less: "0 < nr \<Longrightarrow> turn nr u v < nr"
  by (simp add: turn_def)

lemma turn_back:
  assumes "u < nr" and "v < nr"
  shows "(u + turn nr u v) mod nr = v"
proof -
  have "(u + (v + nr - u)) mod nr = v" using assms by simp
  then show ?thesis by (metis mod_add_right_eq turn_def)
qed

lemma turn_eq:
  assumes "u < nr" and "v < nr"
  shows "turn nr u v = i mod nr \<longleftrightarrow> v = (u + i) mod nr"
proof
  assume "turn nr u v = i mod nr"
  then show "v = (u + i) mod nr" using turn_back [OF assms] by (metis mod_add_right_eq)
next
  assume "v = (u + i) mod nr"
  then have "(u + turn nr u v) mod nr = (u + i mod nr) mod nr" using turn_back [OF assms] by (simp add: mod_add_right_eq)
  then show "turn nr u v = i mod nr" using assms turn_inj turn_less by (metis gr_implies_not0 mod_less_divisor neq0_conv)
qed

lemma last_piece_same:
  assumes "turn nr u v = i mod nr"
  shows "last_piece nr u (Suc i) v = i"
proof -
  have "(i - i mod nr) div nr = i div nr" by (simp add: minus_mod_eq_mult_div)
  then show ?thesis using assms by (simp add: last_piece_def)
qed

lemma last_piece_other:
  assumes "turn nr u v \<noteq> i mod nr" and "turn nr u v < i" and "0 < nr"
  shows "last_piece nr u (Suc i) v = last_piece nr u i v"
proof -
  define d where "d = turn nr u v"
  have d: "d < nr" using assms(3) by (simp add: d_def turn_less)
  have "(i - d) mod nr \<noteq> 0"
  proof
    assume "(i - d) mod nr = 0"
    then have "(d + (i - d)) mod nr = d" using d by (metis add.right_neutral mod_add_right_eq mod_less)
    then show False using assms(1,2) by (simp add: d_def)
  qed
  then have "(i - d) div nr = (i - 1 - d) div nr" using assms(2,3) d_def
    by (metis Suc_diff_1 diff_commute div_Suc mod_0 zero_less_diff)
  then show ?thesis by (simp add: last_piece_def d_def)
qed

lemma idle_after_step:
  assumes "u < length stat" and "v < length stat"
  shows "idle_after stat u base latency trailing m (Suc i) v =
     (if v = (u + i) mod length stat then base + (i + 1) * latency + (if i < m then trailing else 0)
      else idle_after stat u base latency trailing m i v)"
proof (cases "v = (u + i) mod length stat")
  case True
  then have t: "turn (length stat) u v = i mod length stat" using turn_eq [OF assms] by simp
  then have "\<not> Suc i \<le> turn (length stat) u v" by (simp add: not_less_eq_eq [symmetric] le_imp_less_Suc)
  then show ?thesis using True last_piece_same [OF t] by (simp add: idle_after_def)
next
  case False
  then have t: "turn (length stat) u v \<noteq> i mod length stat" using turn_eq [OF assms] by simp
  have "Suc i \<le> turn (length stat) u v \<longleftrightarrow> i \<le> turn (length stat) u v"
  proof -
    have "turn (length stat) u v \<noteq> i"
    proof
      assume "turn (length stat) u v = i"
      then have "i < length stat" using turn_less [of "length stat" u v] assms(1) by linarith
      then show False using t \<open>turn (length stat) u v = i\<close> by simp
    qed
    then show ?thesis by linarith
  qed
  moreover have "last_piece (length stat) u (Suc i) v = last_piece (length stat) u i v" if "\<not> i \<le> turn (length stat) u v"
    by (rule last_piece_other [OF t]) (use that assms(1) in linarith)+
  ultimately show ?thesis using False by (auto simp: idle_after_def)
qed

lemma unit_loop_ok:
  assumes nr: "cfg_nr_io_units cfg = length stat0" "u < length stat0" "length stat0 < 2 ^ 32"
    and size': "0 < size'" and k: "k = max 1 ((len + size' - 1) div size')" and left: "left = int m - int i"
    and over: "base + (i + k) * latency + trailing < 2 ^ 64" and stat: "length stat = length stat0"
    "\<forall>v < length stat0. stat ! v = idle_after stat0 u base latency trailing m i v"
  shows "\<exists>stat'. unit_loop cfg size' latency trailing ((u + i) mod length stat0) left len (base + i * latency) stat
      = Some (base + (i + k) * latency, stat') \<and> length stat' = length stat0
    \<and> (\<forall>v < length stat0. stat' ! v = idle_after stat0 u base latency trailing m (i + k) v)"
  using k left over stat
proof (induction k arbitrary: i len left stat)
  case 0
  then show ?case by simp
next
  case (Suc k)
  let ?x = "(u + i) mod length stat0"
  define t where "t = base + (i + 1) * latency"
  have x: "?x < length stat" using Suc.prems(4) nr(2) mod_less_divisor [of "length stat0" "u + i"] by linarith
  have "(i + 1) * latency \<le> (i + Suc k) * latency" by (rule mult_le_mono1) simp
  then have small: "base + i * latency + latency < 2 ^ 64" "t + trailing < 2 ^ 64" "base + i * latency + latency = t"
    using Suc.prems(3) by (simp_all add: t_def algebra_simps)
  then have wrap: "u64 (base + i * latency + latency) = t" "u64 (t + trailing) = t + trailing" by (simp_all add: u64_def)
  define s1 where "s1 = (if i < m then stat[?x := t + trailing] else stat[?x := t])"
  have s1: "length s1 = length stat0" "\<forall>v < length stat0. s1 ! v = idle_after stat0 u base latency trailing m (Suc i) v"
    using Suc.prems(4,5) idle_after_step [OF nr(2)] nr(2) by (auto simp: s1_def t_def nth_list_update)
  have turn': "(if cfg_nr_io_units cfg \<le> u32 (?x + 1) then 0 else u32 (?x + 1)) = (u + Suc i) mod length stat0"
  proof -
    have "u32 (?x + 1) = ?x + 1" using x Suc.prems(4) nr(3) by (simp add: u32_def)
    then show ?thesis using nr(1) x Suc.prems(4) by (auto simp: mod_Suc)
  qed
  have run: "unit_loop cfg size' latency trailing ?x left len (base + i * latency) stat =
     (if 0 < len - min len size' then unit_loop cfg size' latency trailing ((u + Suc i) mod length stat0) (left - 1) (len - min len size') t s1
      else Some (t, s1))"
    using x Suc.prems(2) by (subst unit_loop.simps) (simp only: wrap turn', auto simp: s1_def)
  show ?case
  proof (cases "len \<le> size'")
    case True
    then have "len + size' - 1 < 2 * size'" using size' by linarith
    then have "(len + size' - 1) div size' < 2" by (rule less_mult_imp_div_less)
    then have "k = 0" using Suc.prems(1) by simp
    then show ?thesis using run True s1 unfolding t_def by (intro exI [of _ s1]) simp
  next
    case False
    have "(len + size' - 1) div size' = Suc ((len - size' + size' - 1) div size')"
    proof -
      have "len + size' - 1 = size' + (len - size' + size' - 1)" using False by simp
      then show ?thesis using size' by (metis add.commute div_add_self1 less_numeral_extra(3) plus_1_eq_Suc)
    qed
    moreover have "1 \<le> (len - size' + size' - 1) div size'" using False size' by (simp add: Suc_leI div_greater_zero_iff)
    ultimately have k: "k = max 1 ((len - min len size' + size' - 1) div size')" using Suc.prems(1) False by simp
    have l: "left - 1 = int m - int (Suc i)" using Suc.prems(2) by simp
    have o: "base + (Suc i + k) * latency + trailing < 2 ^ 64" using Suc.prems(3) by simp
    show ?thesis using Suc.IH [OF k l o s1] run False by (simp add: t_def algebra_simps)
  qed
qed

lemma schedule_ok:
  fixes lba nsecs_start delay :: nat
  assumes shift: "9 \<le> cfg_io_unit_shift cfg" "cfg_io_unit_shift cfg < 32" and nr: "0 < cfg_nr_io_units cfg" "cfg_nr_io_units cfg < 2 ^ 32" "length stat = cfg_nr_io_units cfg"
    and len: "len + 2 ^ cfg_io_unit_shift cfg < 2 ^ 32"
  defines "size' \<equiv> 2 ^ cfg_io_unit_shift cfg" and "u \<equiv> lba div 2 ^ (cfg_io_unit_shift cfg - 9) mod cfg_nr_io_units cfg"
  defines "pieces \<equiv> (len + size' - 1) div size'" and "base \<equiv> max nsecs_start (stat ! u) + delay"
  assumes over: "base + max 1 pieces * latency + trailing < 2 ^ 64"
  shows "\<exists>stat'. schedule_io_units cfg (delay, latency, trailing) lba len nsecs_start stat = Some (base + max 1 pieces * latency, stat')
    \<and> length stat' = cfg_nr_io_units cfg
    \<and> (\<forall>v < cfg_nr_io_units cfg. stat' ! v = idle_after stat u base latency trailing (min (cfg_nr_io_units cfg) pieces) (max 1 pieces) v)"
proof -
  have u: "u < length stat" using nr by (simp add: u_def)
  have pos: "0 < size'" by (simp add: size'_def)
  have "sub32 (len + size') 1 = len + size' - 1"
    using len pos by (intro sub32_exact) (simp_all add: size'_def Suc_le_eq)
  then have up: "DIV_ROUND_UP len size' = Some pieces" using pos by (simp add: DIV_ROUND_UP_def pieces_def)
  have start: "\<forall>v < length stat. stat ! v = idle_after stat u base latency trailing m 0 v" for m by (simp add: idle_after_def)
  have b: "u64 (max nsecs_start (stat ! u) + delay) = base" using over by (simp add: base_def u64_def)
  have at: "(u + 0) mod length stat = u" using u by simp
  define k where "k = max 1 pieces"
  have k: "k = max 1 ((len + size' - 1) div size')" by (simp only: k_def pieces_def)
  have o: "base + (0 + k) * latency + trailing < 2 ^ 64" using over by (simp add: k_def)
  show ?thesis
    unfolding k_def [symmetric]
    using unit_loop_ok [of cfg stat u size' k len "int (min (cfg_nr_io_units cfg) pieces)" "min (cfg_nr_io_units cfg) pieces" 0 base latency trailing stat,
        OF nr(3) [symmetric] u _ pos k _ o refl start]
      nr shift u up b at arr_get_in [OF u]
    by (simp add: schedule_io_units_def u_def [symmetric] size'_def [symmetric])
qed

section \<open>Properties\<close>

text \<open>C38: A request of the simple device, whose times and length do not overflow, with units of 2^9 to 2^31
  bytes, is cut into pieces of \<open>2 ^ io_unit_shift\<close> bytes (one for an empty request) and ends one piece
  time after the other, counted from the moment its first unit is idle. The units take the pieces in turn, and each is
  idle again when the last piece it got is done, a unit without a piece when it was before. The trailing time is added
  for as many pieces as there are units at most: a unit that gets a second piece is idle again without it. Unit shifts
  under 9 pass the checks of the module but make the C code shift by a negative number.\<close>

theorem schedule_io_units_correct:
  fixes lba nsecs_start delay :: nat
  assumes "9 \<le> cfg_io_unit_shift cfg" and "cfg_io_unit_shift cfg < 32" and "0 < cfg_nr_io_units cfg" and "cfg_nr_io_units cfg < 2 ^ 32"
    and "length stat = cfg_nr_io_units cfg" and "len + 2 ^ cfg_io_unit_shift cfg < 2 ^ 32"
  defines "size' \<equiv> 2 ^ cfg_io_unit_shift cfg" and "u \<equiv> lba div 2 ^ (cfg_io_unit_shift cfg - 9) mod cfg_nr_io_units cfg"
  defines "pieces \<equiv> (len + size' - 1) div size'" and "base \<equiv> max nsecs_start (stat ! u) + delay"
  assumes "base + max 1 pieces * latency + trailing < 2 ^ 64"
  shows "\<exists>stat'. schedule_io_units cfg (delay, latency, trailing) lba len nsecs_start stat = Some (base + max 1 pieces * latency, stat')
    \<and> length stat' = cfg_nr_io_units cfg
    \<and> (\<forall>v < cfg_nr_io_units cfg. stat' ! v = idle_after stat u base latency trailing (min (cfg_nr_io_units cfg) pieces) (max 1 pieces) v)"
  using schedule_ok [OF assms(1-6)] assms(11) unfolding size'_def u_def pieces_def base_def by blast

text \<open>Two units, three pieces: the first unit gets the third piece and loses its trailing time.\<close>

definition tiny_cfg :: nvmev_config where
  "tiny_cfg = \<lparr> cfg_memmap_start = 2 ^ 30, cfg_memmap_size = 2 ^ 21, cfg_storage_start = 2 ^ 30 + 2 ^ 20, cfg_storage_size = 2 ^ 20,
     cfg_nr_io_units = 2, cfg_io_unit_shift = 12, cfg_cpu_nr_dispatcher = 1, cfg_nr_io_cpu = 1, cfg_cpu_nr_io_workers = [2],
     cfg_read_delay = 1, cfg_read_time = 10, cfg_read_trailing = 5, cfg_write_delay = 1, cfg_write_time = 10, cfg_write_trailing = 5 \<rparr>"

lemma schedule_io_units_correct_witness:
  "\<exists>stat'. schedule_io_units tiny_cfg (1, 10, 5) 0 12288 100 [0, 0] = Some (131, stat') \<and> stat' ! 0 = 131 \<and> stat' ! 1 = 126"
proof -
  have up: "((12288 :: nat) + 4096 - 1) div 4096 = 3" by simp
  have "idle_after [0, 0] 0 101 10 5 2 3 0 = 131" "idle_after [0, 0] 0 101 10 5 2 3 1 = 126" by code_simp+
  then have "stat' ! 0 = 131 \<and> stat' ! 1 = 126"
    if "\<forall>v < 2. stat' ! v = idle_after [0, 0] 0 101 10 5 2 3 v" for stat'
    using that by simp
  then show ?thesis
    using schedule_io_units_correct [of tiny_cfg "[0, 0]" 12288 100 0 1 10 5] up by (auto simp: tiny_cfg_def)
qed

end
