(* ===== verification/Kv_FTL.thy ===== *)
theory Kv_FTL
  imports Kv_Map Prp Simple_FTL
begin

text \<open>
  The commands of the key-value device (\<open>kv_ftl.c\<close>): store, retrieve, exist and delete, a batch of stores in one
  payload, the iterators, the times of the commands and the setup of the namespace. The value of a command is
  moved by the loop of \<open>Prp\<close>. \<open>search\<close> is the bitmap search of the kernel, \<open>storage_size\<close> the size of the device
  memory. \<open>None\<close> also stands for an access outside the device memory, a buffer on the stack or the heap, or the
  command.
\<close>

section \<open>State\<close>

text \<open>Which allocator is built in, with its static variables.\<close>

datatype kv_pool = Append_Only append_pool | Bitmap bitmap_pool

text \<open>\<open>struct kv_iter_context\<close>, the fields that are read again.\<close>

record kv_iter_context =
  it_prefix :: nat
  it_bitmask :: nat
  it_buf :: bytes
  it_current_pos :: nat

record kv_ftl =
  kf_table :: kv_table
  kf_pool :: kv_pool
  iter_handle :: "kv_iter_context option list"

record kv_env =
  ke_ftl :: kv_ftl
  ke_status :: nat
  ke_host :: bytes
  ke_dev :: bytes

definition KV_ERR_KEY_NOT_EXIST :: nat where "KV_ERR_KEY_NOT_EXIST = 0x310"

type_synonym bit_search = "bool list \<Rightarrow> nat \<Rightarrow> nat \<Rightarrow> nat"

definition pool_allocate :: "bit_search \<Rightarrow> nat \<Rightarrow> kv_pool \<Rightarrow> (nat \<times> kv_pool) option" where
  "pool_allocate search n pool = (case pool of
     Append_Only p \<Rightarrow> (case append_only_allocate n p of (a, p) \<Rightarrow> Some (a, Append_Only p))
   | Bitmap p \<Rightarrow> do { (a, p) \<leftarrow> bitmap_allocate search n p; Some (a, Bitmap p) })"

definition allocate_mem_offset_by_length :: "bit_search \<Rightarrow> kv_ftl \<Rightarrow> nat \<Rightarrow> (nat \<times> kv_ftl) option" where
  "allocate_mem_offset_by_length search kf n = do {
     (a, p) \<leftarrow> pool_allocate search n (kf_pool kf);
     Some (if a = NO_OFFSET then 0 else a, kf\<lparr> kf_pool := p \<rparr>)
   }"

definition allocate_mem_offset :: "bit_search \<Rightarrow> kv_ftl \<Rightarrow> nvme_kv_command \<Rightarrow> (nat \<times> kv_ftl) option" where
  "allocate_mem_offset search kf c =
     (if kv_opcode c = nvme_cmd_kv_store then allocate_mem_offset_by_length search kf (cmd_value_length c) else Some (0, kf))"

section \<open>One key\<close>

text \<open>What a store does about the mapping when the data has been copied: \<open>is_insert\<close>.\<close>

datatype mapping_action = Keep | Insert nat | Change_Length

definition store_action :: "bit_search \<Rightarrow> kv_ftl \<Rightarrow> nvme_kv_command \<Rightarrow> mapping_entry \<Rightarrow> (nat \<times> mapping_action \<times> kv_ftl) option" where
  "store_action search kf c entry =
     (if mem_offset entry = NO_OFFSET then do {
        (new_offset, kf) \<leftarrow> allocate_mem_offset search kf c;
        Some (new_offset, Insert new_offset, kf)
      } else Some (mem_offset entry,
        if cmd_value_length c \<noteq> me_length entry \<and> cmd_value_length c \<le> SMALL_LENGTH \<and> me_length entry \<le> SMALL_LENGTH then Change_Length else Keep, kf))"

definition apply_action :: "nat \<Rightarrow> kv_ftl \<Rightarrow> nvme_kv_command \<Rightarrow> mapping_action \<Rightarrow> kv_ftl option" where
  "apply_action storage_size kf c a = (case a of
     Keep \<Rightarrow> Some kf
   | Insert off \<Rightarrow> do { t \<leftarrow> new_mapping_entry storage_size (kf_table kf) c off; Some (kf\<lparr> kf_table := t \<rparr>) }
   | Change_Length \<Rightarrow> do { (_, t) \<leftarrow> update_mapping_entry (kf_table kf) c; Some (kf\<lparr> kf_table := t \<rparr>) })"

text \<open>The loop that moves the value, from or to \<open>offset\<close> in the device memory.\<close>

definition move_value :: "prp_dir \<Rightarrow> nat \<Rightarrow> nvme_kv_command \<Rightarrow> nat \<Rightarrow> nat \<Rightarrow> bytes \<Rightarrow> bytes \<Rightarrow> (bytes \<times> bytes) option" where
  "move_value dir size' c len offset host dev = prp_loop dir size' (kv_prp1 c) (kv_prp2 c) 0 len offset None 0 host dev"

definition do_perform_kv_io :: "bit_search \<Rightarrow> nat \<Rightarrow> nvme_kv_command \<Rightarrow> kv_env \<Rightarrow> (nat \<times> kv_env) option" where
  "do_perform_kv_io search storage_size c e = do {
     let missing = (0, e\<lparr> ke_status := KV_ERR_KEY_NOT_EXIST \<rparr>);
     entry \<leftarrow> get_mapping_entry (kf_table (ke_ftl e)) c;
     if kv_opcode c = nvme_cmd_kv_store then do {
       (offset, act, kf) \<leftarrow> store_action search (ke_ftl e) c entry;
       (host, dev) \<leftarrow> move_value FROM_HOST storage_size c (cmd_value_length c) offset (ke_host e) (ke_dev e);
       kf \<leftarrow> apply_action storage_size kf c act;
       Some (0, e\<lparr> ke_ftl := kf, ke_host := host, ke_dev := dev \<rparr>)
     } else if kv_opcode c = nvme_cmd_kv_retrieve then
       if mem_offset entry = NO_OFFSET then Some missing
       else do {
         let len = min (me_length entry) (cmd_value_length c);
         (host, dev) \<leftarrow> move_value TO_HOST storage_size c len (mem_offset entry) (ke_host e) (ke_dev e);
         Some (u32 len, e\<lparr> ke_host := host, ke_dev := dev \<rparr>)
       }
     else if kv_opcode c = nvme_cmd_kv_exist then
       if mem_offset entry = NO_OFFSET then Some missing else Some (0, e)
     else if kv_opcode c = nvme_cmd_kv_delete then
       if mem_offset entry = NO_OFFSET then Some missing
       else do {
         (_, t) \<leftarrow> delete_mapping_entry (kf_table (ke_ftl e)) c;
         Some (0, e\<lparr> ke_ftl := (ke_ftl e)\<lparr> kf_table := t \<rparr> \<rparr>)
       }
     else Some (0, e)
   }"

section \<open>Batches\<close>

text \<open>One sub-command. A value of another length replaces the old one without a change of the mapping.\<close>

definition do_perform_kv_batched_io ::
  "bit_search \<Rightarrow> nat \<Rightarrow> kv_ftl \<Rightarrow> nat \<Rightarrow> 8 word list \<Rightarrow> nat \<Rightarrow> bytes \<Rightarrow> nat \<Rightarrow> bytes \<Rightarrow> (kv_ftl \<times> bytes) option" where
  "do_perform_kv_batched_io search storage_size kf op key key_len value val_len dev = do {
     entry \<leftarrow> get_mapping_entry_by_key (kf_table kf) key key_len;
     if op = nvme_cmd_kv_store then do {
       let is_insert = (mem_offset entry = NO_OFFSET);
       (offset, kf) \<leftarrow> (if is_insert then allocate_mem_offset_by_length search kf val_len else Some (mem_offset entry, kf));
       nvmev_assert (offset + val_len \<le> storage_size);
       let dev = memcpy dev offset value 0 val_len;
       if is_insert then do {
         t \<leftarrow> new_mapping_entry_by_key storage_size (kf_table kf) key key_len val_len offset;
         Some (kf\<lparr> kf_table := t \<rparr>, dev)
       } else Some (kf, dev)
     } else Some (kf, dev)
   }"

definition ALIGN_LEN :: nat where "ALIGN_LEN = 64"
definition BATCH_HEAD_SIZE :: nat where "BATCH_HEAD_SIZE = 512"

definition le32 :: "bytes \<Rightarrow> nat \<Rightarrow> nat" where
  "le32 m a = unat (m a) + unat (m (a + 1)) * 2 ^ 8 + unat (m (a + 2)) * 2 ^ 16 + unat (m (a + 3)) * 2 ^ 24"

definition align_up :: "nat \<Rightarrow> nat" where
  "align_up n = ((n - 1) div ALIGN_LEN + 1) * ALIGN_LEN"

text \<open>Sub-command \<open>i\<close> of the payload in a buffer of \<open>len\<close> bytes: its attributes are in the head, its key and value at
  \<open>offset\<close> of the rest. The local buffers hold 20 bytes of key and 4097 bytes of value.\<close>

definition batch_step :: "bit_search \<Rightarrow> nat \<Rightarrow> nat \<Rightarrow> bytes \<Rightarrow> nat \<Rightarrow> nat \<times> kv_ftl \<times> bytes \<Rightarrow> (nat \<times> kv_ftl \<times> bytes) option" where
  "batch_step search storage_size len buffer i = (\<lambda>(offset, kf, dev). do {
     nvmev_assert (16 * i + 16 \<le> len);
     let op = unat (buffer (16 * i));
     let key_len = unat (buffer (16 * i + 1));
     let val_len = le32 buffer (16 * i + 4);
     nvmev_assert (key_len \<le> 20 \<and> val_len \<le> 4097);
     let base = BATCH_HEAD_SIZE + offset;
     nvmev_assert (base + key_len \<le> len \<and> base + align_up key_len + val_len \<le> len);
     let key = map (\<lambda>k. if k < key_len then buffer (base + k) else 0) [0..<20];
     let value = memcpy (\<lambda>_. 0) 0 buffer (base + align_up key_len) val_len;
     (kf, dev) \<leftarrow> do_perform_kv_batched_io search storage_size kf op key key_len value val_len dev;
     Some (offset + align_up key_len + align_up val_len + ALIGN_LEN, kf, dev)
   })"

text \<open>\<open>junk\<close> is the memory the payload buffer gets.\<close>

definition do_perform_kv_batch :: "bit_search \<Rightarrow> nat \<Rightarrow> bytes \<Rightarrow> nvme_kv_command \<Rightarrow> kv_env \<Rightarrow> (nat \<times> kv_env) option" where
  "do_perform_kv_batch search storage_size junk c e = do {
     let len = cmd_value_length c;
     (host, buffer) \<leftarrow> move_value FROM_HOST len c len 0 (ke_host e) junk;
     (_, kf, dev) \<leftarrow> foldM (batch_step search storage_size len buffer) [0..<kv_rsvd4 c] (ALIGN_LEN, ke_ftl e, ke_dev e);
     Some (0, e\<lparr> ke_ftl := kf, ke_host := host, ke_dev := dev \<rparr>)
   }"

section \<open>Iterators\<close>

definition ITER_OPTION_OPEN :: nat where "ITER_OPTION_OPEN = 1"
definition ITER_OPTION_CLOSE :: nat where "ITER_OPTION_CLOSE = 2"

text \<open>\<open>struct nvme_kv_iter_req_command\<close> and \<open>struct nvme_kv_iter_read_command\<close> over the same bytes.\<close>

definition kv_iter_handle :: "nvme_kv_command \<Rightarrow> nat" where "kv_iter_handle c = kv_key_len c"
definition kv_iter_val :: "nvme_kv_command \<Rightarrow> nat" where "kv_iter_val c = le32 (\<lambda>k. kv_key c ! k) 0"
definition kv_iter_bitmask :: "nvme_kv_command \<Rightarrow> nat" where "kv_iter_bitmask c = le32 (\<lambda>k. kv_key c ! k) 4"

definition kv_iter_open :: "bytes \<Rightarrow> nvme_kv_command \<Rightarrow> kv_env \<Rightarrow> (nat \<times> kv_env) option" where
  "kv_iter_open junk c e =
     (case filter (\<lambda>i. iter_handle (ke_ftl e) ! i = None) [1..<17] of
        [] \<Rightarrow> Some (1, e)
      | i # _ \<Rightarrow> do {
          h \<leftarrow> arr_set (iter_handle (ke_ftl e)) i
            (Some \<lparr> it_prefix = kv_iter_val c, it_bitmask = kv_iter_bitmask c, it_buf = junk, it_current_pos = 0 \<rparr>);
          Some (i, e\<lparr> ke_ftl := (ke_ftl e)\<lparr> iter_handle := h \<rparr>, ke_status := 0 \<rparr>)
        })"

definition kv_iter_close :: "nvme_kv_command \<Rightarrow> kv_env \<Rightarrow> (nat \<times> kv_env) option" where
  "kv_iter_close c e = do {
     _ \<leftarrow> arr_get (iter_handle (ke_ftl e)) (kv_iter_handle c);
     h \<leftarrow> arr_set (iter_handle (ke_ftl e)) (kv_iter_handle c) None;
     Some (0, e\<lparr> ke_ftl := (ke_ftl e)\<lparr> iter_handle := h \<rparr>, ke_status := 0 \<rparr>)
   }"

text \<open>The loop of a read: matching keys of occupied slots are put into the buffer, each after its length, until
  the buffer would pass 1024 bytes or the table ends. The results are the slot, the length of the buffer, the
  number of keys, the buffer, and whether the end was reached.\<close>

definition put_le32 :: "bytes \<Rightarrow> nat \<Rightarrow> nat \<Rightarrow> bytes" where
  "put_le32 m a v = memcpy m a (\<lambda>k. word_of_nat (v div 256 ^ k)) 0 4"

definition iter_match :: "kv_iter_context \<Rightarrow> mapping_entry \<Rightarrow> bool" where
  "iter_match h en \<longleftrightarrow> mem_offset en \<noteq> NO_OFFSET
     \<and> and (le32 (\<lambda>k. me_key en ! k) 0) (it_bitmask h) = and (it_prefix h) (it_bitmask h)"

definition put_key :: "bytes \<Rightarrow> nat \<Rightarrow> mapping_entry \<Rightarrow> bytes" where
  "put_key buf off en = memcpy (put_le32 buf off 16) (off + 4) (\<lambda>k. me_key en ! k) 0 16"

function iter_scan :: "kv_table \<Rightarrow> kv_iter_context \<Rightarrow> nat \<Rightarrow> nat \<Rightarrow> nat \<Rightarrow> bytes \<Rightarrow> (nat \<times> nat \<times> nat \<times> bytes \<times> bool) option" where
  "iter_scan t h pos off nr buf =
     (if pos < hash_slots t then
        case arr_get (kv_mapping_table t) pos of None \<Rightarrow> None
        | Some en \<Rightarrow>
            if iter_match h en \<and> 1024 < off + 4 + 16 then Some (pos, off, nr, buf, False)
            else if pos + 1 = hash_slots t
            then Some (pos + 1, if iter_match h en then off + 20 else off, if iter_match h en then nr + 1 else nr,
                       if iter_match h en then put_key buf off en else buf, True)
            else iter_scan t h (pos + 1) (if iter_match h en then off + 20 else off) (if iter_match h en then nr + 1 else nr)
                   (if iter_match h en then put_key buf off en else buf)
      else Some (pos, off, nr, buf, False))"
  by pat_completeness auto
termination by (relation "measure (\<lambda>(t, _, pos, _). hash_slots t - pos)") auto

declare iter_scan.simps [simp del]

definition kv_iter_read :: "nvme_kv_command \<Rightarrow> kv_env \<Rightarrow> (nat \<times> kv_env) option" where
  "kv_iter_read c e = do {
     slot \<leftarrow> arr_get (iter_handle (ke_ftl e)) (kv_iter_handle c);
     case slot of
       None \<Rightarrow> Some (0, e)
     | Some h \<Rightarrow> do {
         (pos, off, nr, buf, at_end) \<leftarrow> iter_scan (kf_table (ke_ftl e)) h (it_current_pos h) 4 0 (it_buf h);
         let buf = put_le32 buf 0 nr;
         hs \<leftarrow> arr_set (iter_handle (ke_ftl e)) (kv_iter_handle c) (Some (h\<lparr> it_buf := buf, it_current_pos := pos \<rparr>));
         (host, _) \<leftarrow> move_value TO_HOST 32768 c off 0 (ke_host e) buf;
         Some (off, e\<lparr> ke_ftl := (ke_ftl e)\<lparr> iter_handle := hs \<rparr>, ke_status := (if at_end then 0x393 else 0), ke_host := host \<rparr>)
       }
   }"

definition do_perform_kv_iter_io :: "bytes \<Rightarrow> nvme_kv_command \<Rightarrow> kv_env \<Rightarrow> (nat \<times> kv_env) option" where
  "do_perform_kv_iter_io junk c e =
     (if kv_opcode c = nvme_cmd_kv_iter_req then
        if odd (kv_option c div ITER_OPTION_OPEN) then kv_iter_open junk c e
        else if odd (kv_option c div ITER_OPTION_CLOSE) then kv_iter_close c e
        else Some (0, e)
      else if kv_opcode c = nvme_cmd_kv_iter_read then kv_iter_read c e
      else Some (0, e))"

section \<open>Dispatch, times and setup\<close>

definition kv_identify_nvme_io_cmd :: "nat \<Rightarrow> bool" where
  "kv_identify_nvme_io_cmd op \<longleftrightarrow> op \<in> {nvme_cmd_kv_append, nvme_cmd_kv_store, nvme_cmd_kv_retrieve, nvme_cmd_kv_delete,
     nvme_cmd_kv_iter_req, nvme_cmd_kv_iter_read, nvme_cmd_kv_exist, nvme_cmd_kv_batch}"

definition kv_perform_nvme_io_cmd :: "bit_search \<Rightarrow> nat \<Rightarrow> bytes \<Rightarrow> nvme_kv_command \<Rightarrow> kv_env \<Rightarrow> (nat \<times> kv_env) option" where
  "kv_perform_nvme_io_cmd search storage_size junk c e =
     (if kv_opcode c = nvme_cmd_kv_batch then do_perform_kv_batch search storage_size junk c e
      else if kv_opcode c = nvme_cmd_kv_iter_req \<or> kv_opcode c = nvme_cmd_kv_iter_read then do_perform_kv_iter_io junk c e
      else do_perform_kv_io search storage_size c e)"

definition kv_times :: "nvmev_config \<Rightarrow> nat \<Rightarrow> nat \<times> nat \<times> nat" where
  "kv_times cfg op =
     (if op = nvme_cmd_write \<or> op = nvme_cmd_kv_store \<or> op = nvme_cmd_kv_batch then (cfg_write_delay cfg, cfg_write_time cfg, cfg_write_trailing cfg)
      else if op = nvme_cmd_read \<or> op = nvme_cmd_kv_retrieve then (cfg_read_delay cfg, cfg_read_time cfg, cfg_read_trailing cfg)
      else (0, 0, 0))"

text \<open>\<open>value_len\<close> of a key-value command is its \<open>cdw10\<close>.\<close>

definition kv_proc_io_cmd :: "nvmev_config \<Rightarrow> nat \<Rightarrow> io_env \<Rightarrow> nat list \<Rightarrow> (bool \<times> io_env \<times> nat list) option" where
  "kv_proc_io_cmd cfg wall e stat = do {
     let c = req_cmd (env_req e);
     let answer = (\<lambda>t. e\<lparr> env_ret := (env_ret e)\<lparr> ret_nsecs_target := t \<rparr> \<rparr>);
     if opcode c = nvme_cmd_write \<or> opcode c = nvme_cmd_read then do {
       (t, stat) \<leftarrow> schedule_io_units cfg (kv_times cfg (opcode c)) (rw_slba c) (cmd_io_size c) wall stat;
       Some (True, answer t, stat)
     } else if opcode c = nvme_cmd_flush then do {
       t \<leftarrow> schedule_flush cfg stat;
       Some (True, answer t, stat)
     } else if opcode c \<in> {nvme_cmd_kv_store, nvme_cmd_kv_retrieve, nvme_cmd_kv_batch} then do {
       (t, stat) \<leftarrow> schedule_io_units cfg (kv_times cfg (opcode c)) 0 (u32 (cdw10 c * 4)) wall stat;
       Some (True, answer t, stat)
     } else do { nvmev_assert (nvme_opcode_string_ok (opcode c)); Some (True, e, stat) }
   }"

datatype allocator_type = ALLOCATOR_TYPE_BITMAP | ALLOCATOR_TYPE_APPEND_ONLY

definition init_pools :: "allocator_type \<Rightarrow> nat \<Rightarrow> bitmap_pool \<Rightarrow> append_pool \<Rightarrow> kv_pool option" where
  "init_pools ty storage_size bp ap = (case ty of
     ALLOCATOR_TYPE_BITMAP \<Rightarrow> do { (_, p) \<leftarrow> bitmap_allocator_init storage_size bp; Some (Bitmap p) }
   | ALLOCATOR_TYPE_APPEND_ONLY \<Rightarrow> Some (Append_Only (snd (append_only_allocator_init storage_size ap))))"

text \<open>\<open>bp\<close> and \<open>ap\<close> are the static variables of the allocators, \<open>handles\<close> the memory of the structure where the
  iterator handles come to lie: the last of the 17 is not set.\<close>

definition kv_init_namespace ::
  "allocator_type \<Rightarrow> nat \<Rightarrow> nat \<Rightarrow> nat \<Rightarrow> bitmap_pool \<Rightarrow> append_pool \<Rightarrow> kv_iter_context option list \<Rightarrow> nat \<Rightarrow> nat \<Rightarrow> nat \<Rightarrow> kv_ftl nvmev_ns \<Rightarrow> kv_ftl nvmev_ns option" where
  "kv_init_namespace ty storage_size table_size entry_size bp ap handles id' size' mapped ns = do {
     t \<leftarrow> init_mapping_table table_size entry_size;
     pool \<leftarrow> init_pools ty storage_size bp ap;
     hs \<leftarrow> foldM (\<lambda>i hs. arr_set hs i None) [0..<16] handles;
     Some (ns\<lparr> ns_id := id', ns_csi := NVME_CSI_NVM, ns_ftls := [\<lparr> kf_table = t, kf_pool = pool, iter_handle = hs \<rparr>], ns_size := size', ns_mapped := mapped,
       ns_proc_io_cmd := kv_proc_nvme_io_cmd \<rparr>)
   }"

section \<open>What an iterator finds\<close>

text \<open>An entry an iterator is to find: the slot is occupied, and the first four bytes of its key agree with the prefix in
  every bit of the bitmask; and the slots of the table from \<open>pos\<close> on that hold one.\<close>

definition wanted :: "nat \<Rightarrow> nat \<Rightarrow> mapping_entry \<Rightarrow> bool" where
  "wanted bitmask prefix en \<longleftrightarrow> mem_offset en \<noteq> NO_OFFSET \<and>
     (\<forall>n. bit bitmask n \<longrightarrow> bit (le32 (\<lambda>k. me_key en ! k) 0) n = bit prefix n)"

definition hits :: "kv_table \<Rightarrow> kv_iter_context \<Rightarrow> nat \<Rightarrow> nat list" where
  "hits t h pos = filter (\<lambda>p. wanted (it_bitmask h) (it_prefix h) (kv_mapping_table t ! p)) [pos..<hash_slots t]"

lemma wanted_match: "wanted (it_bitmask h) (it_prefix h) en = iter_match h en"
  by (auto simp: wanted_def iter_match_def bit_eq_iff bit_and_iff)

lemma hits_step: "pos < hash_slots t \<Longrightarrow> hits t h pos = (if iter_match h (kv_mapping_table t ! pos) then pos # hits t h (pos + 1) else hits t h (pos + 1))"
  by (simp add: hits_def wanted_match upt_conv_Cons)

lemma hits_end: "hash_slots t \<le> pos \<Longrightarrow> hits t h pos = []"
  by (simp add: hits_def)

text \<open>The keys of the slots, one after the other, each after its length.\<close>

definition put_keys :: "kv_table \<Rightarrow> bytes \<Rightarrow> nat \<Rightarrow> nat list \<Rightarrow> bytes" where
  "put_keys t buf off ps = fst (foldl (\<lambda>(buf, off) p. (put_key buf off (kv_mapping_table t ! p), off + 20)) (buf, off) ps)"

lemma put_keys_simps [simp]: "put_keys t buf off [] = buf"
  "put_keys t buf off (p # ps) = put_keys t (put_key buf off (kv_mapping_table t ! p)) (off + 20) ps"
  by (simp_all add: put_keys_def)

lemma iter_scan_takes:
  fixes h :: kv_iter_context
  assumes "length (kv_mapping_table t) = hash_slots t" and "off = 4 + 20 * nr" and "nr \<le> 51" and "pos \<le> hash_slots t"
  defines "ps \<equiv> take (51 - nr) (hits t h pos)"
  shows "\<exists>pos'. iter_scan t h pos off nr buf = Some (pos', off + 20 * length ps, nr + length ps, put_keys t buf off ps,
       pos < hash_slots t \<and> length (hits t h pos) \<le> 51 - nr)
     \<and> pos' \<le> hash_slots t \<and> hits t h pos' = drop (51 - nr) (hits t h pos) \<and> (length (hits t h pos) \<le> 51 - nr \<longrightarrow> pos' = hash_slots t)"
  using assms(1-4) unfolding ps_def
proof (induction t h pos off nr buf rule: iter_scan.induct)
  case (1 t h pos off nr buf)
  let ?en = "kv_mapping_table t ! pos"
  show ?case
  proof (cases "pos < hash_slots t")
    case True
    then have get: "arr_get (kv_mapping_table t) pos = Some ?en" using 1(2) by simp
    consider "iter_match h ?en" "nr = 51" | "iter_match h ?en" "nr < 51" | "\<not> iter_match h ?en" using 1(4) by fastforce
    then show ?thesis
    proof cases
      case 1
      then have "iter_scan t h pos off nr buf = Some (pos, off, nr, buf, False)" using True get \<open>off = 4 + 20 * nr\<close> by (subst iter_scan.simps) simp
      then show ?thesis using 1 True by (intro exI [of _ pos]) (simp add: hits_step)
    next
      case 2
      have small: "\<not> 1024 < off + 4 + 16" using 1(3) 2(2) by simp
      show ?thesis
      proof (cases "pos + 1 = hash_slots t")
        case end': True
        have "iter_scan t h pos off nr buf = Some (pos + 1, off + 20, nr + 1, put_key buf off ?en, True)"
          using True get small 2(1) end' by (subst iter_scan.simps) simp
        then show ?thesis using 2 True end' hits_end [of t "pos + 1"] by (intro exI [of _ "pos + 1"]) (simp add: hits_step take_Cons' drop_Cons')
      next
        case False
        have step: "iter_scan t h pos off nr buf = iter_scan t h (pos + 1) (off + 20) (nr + 1) (put_key buf off ?en)"
          using True get small 2(1) False by (subst iter_scan.simps) simp
        have "51 - nr = Suc (51 - (nr + 1))" using 2(2) by simp
        then show ?thesis
          using 1(1) [OF True get _ False] small 1(2,3) True 2 False unfolding step by (auto simp: hits_step)
      qed
    next
      case 3
      show ?thesis
      proof (cases "pos + 1 = hash_slots t")
        case end': True
        have "iter_scan t h pos off nr buf = Some (pos + 1, off, nr, buf, True)"
          using True get 3 end' by (subst iter_scan.simps) simp
        then show ?thesis using 3 True end' hits_end [of t "pos + 1"] by (intro exI [of _ "pos + 1"]) (simp add: hits_step)
      next
        case False
        have step: "iter_scan t h pos off nr buf = iter_scan t h (pos + 1) off nr buf"
          using True get 3 False by (subst iter_scan.simps) simp
        show ?thesis using 1(1) [OF True get _ False] 1(2-4) True 3 False unfolding step by (auto simp: hits_step)
      qed
    qed
  next
    case False
    then have "iter_scan t h pos off nr buf = Some (pos, off, nr, buf, False)" by (subst iter_scan.simps) simp
    then show ?thesis using False 1(5) by (intro exI [of _ pos]) (simp add: hits_end)
  qed
qed

lemma put_le32_same: "x < a \<or> a + 4 \<le> x \<Longrightarrow> put_le32 m a v x = m x"
  by (auto simp: put_le32_def memcpy_def)

lemma le32_put: "v < 2 ^ 32 \<Longrightarrow> le32 (put_le32 m a v) a = v"
proof -
  assume v: "v < 2 ^ 32"
  have b: "unat (word_of_nat (v div 256 ^ k) :: 8 word) = v div 256 ^ k mod 256" for k by (simp add: unat_of_nat)
  have "put_le32 m a v (a + k) = word_of_nat (v div 256 ^ k)" if "k < 4" for k using that by (simp add: put_le32_def memcpy_def)
  from this [of 0] this [of 1] this [of 2] this [of 3]
  have "le32 (put_le32 m a v) a = v mod 256 + v div 256 mod 256 * 2 ^ 8 + v div 256 ^ 2 mod 256 * 2 ^ 16 + v div 256 ^ 3 mod 256 * 2 ^ 24"
    using b [of 0] b [of 1] b [of 2] b [of 3] by (simp add: le32_def)
  also have "\<dots> = v"
  proof -
    have "v div 256 ^ 3 mod 256 = v div 256 ^ 3" using v by (simp add: less_mult_imp_div_less)
    then have "v mod 256 + v div 256 mod 256 * 2 ^ 8 + v div 256 ^ 2 mod 256 * 2 ^ 16 + v div 256 ^ 3 mod 256 * 2 ^ 24
        = v mod 256 + v div 256 mod 256 * 256 + v div 256 div 256 mod 256 * 65536 + v div 256 div 256 div 256 * 16777216"
      by (simp add: div_mult2_eq [symmetric])
    moreover have "x = x mod 256 + 256 * (x div 256)" for x :: nat by simp
    from this [of v] this [of "v div 256"] this [of "v div 256 div 256"]
    have "v = v mod 256 + v div 256 mod 256 * 256 + v div 256 div 256 mod 256 * 65536 + v div 256 div 256 div 256 * 16777216" by linarith
    ultimately show ?thesis by linarith
  qed
  finally show ?thesis .
qed

lemma le32_cong: "(\<And>k. k < 4 \<Longrightarrow> m (a + k) = m' (b + k)) \<Longrightarrow> le32 m a = le32 m' b"
  unfolding le32_def by (metis add.right_neutral one_less_numeral_iff semiring_norm(76) zero_less_numeral num.distinct(1) numeral_less_iff semiring_norm(77-81) less_numeral_extra(1))

lemma put_keys_before: "x < off \<Longrightarrow> put_keys t buf off ps x = buf x"
  by (induction ps arbitrary: buf off) (auto simp: put_key_def memcpy_def put_le32_same)

lemma put_keys_at:
  assumes "j < length ps"
  shows "le32 (put_keys t buf off ps) (off + 20 * j) = 16 \<and> (\<forall>k < 16. put_keys t buf off ps (off + 20 * j + 4 + k) = me_key (kv_mapping_table t ! (ps ! j)) ! k)"
  using assms
proof (induction ps arbitrary: buf off j)
  case (Cons p ps)
  let ?buf = "put_key buf off (kv_mapping_table t ! p)"
  show ?case
  proof (cases j)
    case 0
    have "put_keys t ?buf (off + 20) ps (off + k) = ?buf (off + k)" if "k < 20" for k using that by (simp add: put_keys_before)
    moreover have "?buf (off + k) = put_le32 buf off 16 (off + k)" if "k < 4" for k using that by (simp add: put_key_def memcpy_def)
    moreover have "?buf (off + 4 + k) = me_key (kv_mapping_table t ! p) ! k" if "k < 16" for k using that by (simp add: put_key_def memcpy_def)
    moreover have "le32 (put_keys t ?buf (off + 20) ps) off = le32 (put_le32 buf off 16) off" by (rule le32_cong) (simp add: calculation(1,2))
    ultimately show ?thesis using 0 le32_put [of 16 buf off] by (simp add: add.assoc)
  next
    case (Suc i)
    then show ?thesis using Cons.IH [of i ?buf "off + 20"] Cons.prems by (simp add: add.assoc add.left_commute)
  qed
qed simp

section \<open>Properties\<close>

text \<open>C16: A value that is stored under a new key of at most 18 bytes comes back byte for byte: a store that
  finds a free slot of the table and gets device memory of its length, inside the device, from the allocator, and then
  a retrieve of the same key with room for the value, give the host's bytes to the other pages, return the length, and
  change no other byte of the host or of the device. The PRP entries of both name whole pages, their lists lie inside
  one page, and the pages of the retrieve are apart from each other and from the list.\<close>

theorem kv_store_then_retrieve:
  assumes "kv_reach storage_size (kf_table (ke_ftl e))" and "storage_size < 2 ^ 64"
    and "kv_opcode c = nvme_cmd_kv_store" and "kv_opcode c' = nvme_cmd_kv_retrieve" and "kv_key c' = kv_key c" "kv_key_len c' = kv_key_len c"
    and "kv_key_len c < length (kv_key c)" "kv_key_len c < 18" and "get_mapping_entry (kf_table (ke_ftl e)) c = Some cleared_entry"
    and "q < hash_slots (kf_table (ke_ftl e))" "\<not> occupied (kf_table (ke_ftl e)) q"
  defines "len \<equiv> cmd_value_length c"
  assumes "pool_allocate search len (kf_pool (ke_ftl e)) = Some (a, pool)" and "a < storage_size" "a + len \<le> storage_size" and "len \<le> cmd_value_length c'"
    and "prp_wf (ke_host e) (kv_prp1 c) (kv_prp2 c) len" and "prp_safe (ke_host e) (kv_prp1 c') (kv_prp2 c') len"
  shows "\<exists>e1 e2. kv_perform_nvme_io_cmd search storage_size junk c e = Some (0, e1) \<and> kv_perform_nvme_io_cmd search storage_size junk c' e1 = Some (len, e2)
    \<and> (\<forall>x < len. ke_host e2 (prp_addr (ke_host e) (kv_prp1 c') (kv_prp2 c') len x) = ke_host e (prp_addr (ke_host e) (kv_prp1 c) (kv_prp2 c) len x))
    \<and> (\<forall>z. z \<notin> prp_addr (ke_host e) (kv_prp1 c') (kv_prp2 c') len ` {..<len} \<longrightarrow> ke_host e2 z = ke_host e z)
    \<and> (\<forall>z. z < a \<or> a + len \<le> z \<longrightarrow> ke_dev e2 z = ke_dev e z)"
proof -
  let ?n = "cmd_key_length c" and ?t = "kf_table (ke_ftl e)"
  have n: "?n \<le> length (kv_key c)" "?n \<le> 18" using assms(7,8) by (simp_all add: cmd_key_length_def)
  have n': "cmd_key_length c' = ?n" using assms(6) by (simp add: cmd_key_length_def)
  have op: "nvme_cmd_kv_store \<noteq> nvme_cmd_kv_batch" "nvme_cmd_kv_store \<noteq> nvme_cmd_kv_iter_req" "nvme_cmd_kv_store \<noteq> nvme_cmd_kv_iter_read"
    "nvme_cmd_kv_retrieve \<noteq> nvme_cmd_kv_batch" "nvme_cmd_kv_retrieve \<noteq> nvme_cmd_kv_iter_req" "nvme_cmd_kv_retrieve \<noteq> nvme_cmd_kv_iter_read"
    "nvme_cmd_kv_retrieve \<noteq> nvme_cmd_kv_store" by (simp_all add: kv_opcodes)
  have a: "a \<noteq> NO_OFFSET" using assms(2,14) by (simp add: NO_OFFSET_def)
  have len: "u32 len = len" by (simp add: len_def cmd_value_length_def u32_def)
  obtain t en where t: "new_mapping_entry_by_key storage_size ?t (kv_key c) ?n len a = Some t" "get_mapping_entry_by_key t (kv_key c) ?n = Some en"
    "mem_offset en = a" "me_length en = len"
    by (rule store_then_lookup [OF assms(1,2) n assms(14) assms(9) [unfolded get_mapping_entry_def] assms(10,11)])
  define dev' where "dev' = (\<lambda>z. if a \<le> z \<and> z < a + len then ke_host e (prp_addr (ke_host e) (kv_prp1 c) (kv_prp2 c) len (z - a)) else ke_dev e z)"
  define e1 where "e1 = e\<lparr> ke_ftl := (ke_ftl e)\<lparr> kf_pool := pool, kf_table := t \<rparr>, ke_host := ke_host e, ke_dev := dev' \<rparr>"
  have moved: "move_value FROM_HOST storage_size c len a (ke_host e) (ke_dev e) = Some (ke_host e, dev')"
    using prp_loop_from_host [OF assms(17,15), of 0 0 None 0 "ke_dev e"] piece_start by (simp add: move_value_def dev'_def)
  have act: "store_action search (ke_ftl e) c cleared_entry = Some (a, Insert a, (ke_ftl e)\<lparr> kf_pool := pool \<rparr>)"
    using assms(3,13) a by (simp add: store_action_def cleared_entry_def allocate_mem_offset_def allocate_mem_offset_by_length_def len_def)
  have ins: "apply_action storage_size ((ke_ftl e)\<lparr> kf_pool := pool \<rparr>) c (Insert a) = Some ((ke_ftl e)\<lparr> kf_pool := pool, kf_table := t \<rparr>)"
    using t(1) by (simp add: apply_action_def new_mapping_entry_def len_def)
  have store: "kv_perform_nvme_io_cmd search storage_size junk c e = Some (0, e1)"
    using op assms(3,9) moved [unfolded len_def] act ins by (simp add: kv_perform_nvme_io_cmd_def do_perform_kv_io_def e1_def len_def)
  obtain h where h: "prp_loop TO_HOST storage_size (kv_prp1 c') (kv_prp2 c') 0 len a None 0 (ke_host e) dev' = Some (h, dev')"
    "\<forall>y < len. 0 \<le> y \<longrightarrow> h (prp_addr (ke_host e) (kv_prp1 c') (kv_prp2 c') len y) = dev' (a + y)"
    "\<forall>z. z \<notin> prp_addr (ke_host e) (kv_prp1 c') (kv_prp2 c') len ` {0..<len} \<longrightarrow> h z = ke_host e z"
    using prp_loop_to_host [OF assms(18,15), of 0 0 None 0 "ke_host e" dev'] piece_start by auto
  define e2 where "e2 = e1\<lparr> ke_host := h, ke_dev := dev' \<rparr>"
  have e1: "kf_table (ke_ftl e1) = t" "ke_host e1 = ke_host e" "ke_dev e1 = dev'" by (simp_all add: e1_def)
  have look: "get_mapping_entry t c' = Some en" using t(2) assms(5) n' by (simp add: get_mapping_entry_def)
  have retr: "kv_perform_nvme_io_cmd search storage_size junk c' e1 = Some (len, e2)"
    using op assms(4,16) look t(3,4) a h(1) len unfolding kv_perform_nvme_io_cmd_def do_perform_kv_io_def e1
    by (simp add: Let_def move_value_def min_absorb1 e2_def)
  show ?thesis using store retr h(2,3) by (intro exI [of _ e1] exI [of _ e2]) (simp add: e2_def dev'_def lessThan_atLeast0)
qed

text \<open>C26: One read of an open iterator gives the host the keys of the occupied slots whose first four bytes agree with the
  prefix in the bits of the bitmask, in the order of the table and from the iterator's position on, at most 51, each 16 bytes
  after its length, and their number first (the PRP entries of the command being well-formed and apart). The position stays in
  the table, and what is wanted from it on is exactly the rest, so the next read goes on with the keys that are
  left; the status tells that the end of the table was reached.\<close>

theorem kv_iter_read_correct:
  fixes c :: nvme_kv_command and e :: kv_env and h :: kv_iter_context
  defines "i \<equiv> kv_iter_handle c" and "t \<equiv> kf_table (ke_ftl e)"
  assumes "length (kv_mapping_table t) = hash_slots t" and "i < length (iter_handle (ke_ftl e))" and "iter_handle (ke_ftl e) ! i = Some h" and "it_current_pos h \<le> hash_slots t"
  defines "found \<equiv> hits t h (it_current_pos h)" and "ps \<equiv> take 51 (hits t h (it_current_pos h))"
  defines "len \<equiv> 4 + 20 * length ps" and "seen \<equiv> (\<lambda>e' x. ke_host e' (prp_addr (ke_host e) (kv_prp1 c) (kv_prp2 c) (4 + 20 * length ps) x))"
  assumes "prp_safe (ke_host e) (kv_prp1 c) (kv_prp2 c) len"
  shows "\<exists>e' h'. kv_iter_read c e = Some (len, e') \<and> iter_handle (ke_ftl e') = (iter_handle (ke_ftl e))[i := Some h']
    \<and> it_current_pos h' \<le> hash_slots t \<and> hits t h' (it_current_pos h') = drop 51 found \<and> it_prefix h' = it_prefix h \<and> it_bitmask h' = it_bitmask h \<and> kf_table (ke_ftl e') = t
    \<and> ke_status e' = (if it_current_pos h < hash_slots t \<and> length found \<le> 51 then 0x393 else 0)
    \<and> le32 (seen e') 0 = length ps
    \<and> (\<forall>j < length ps. le32 (seen e') (4 + 20 * j) = 16 \<and> (\<forall>k < 16. seen e' (8 + 20 * j + k) = me_key (kv_mapping_table t ! (ps ! j)) ! k))"
proof -
  obtain pos' where scan: "iter_scan t h (it_current_pos h) 4 0 (it_buf h) = Some (pos', len, length ps, put_keys t (it_buf h) 4 ps,
       it_current_pos h < hash_slots t \<and> length found \<le> 51)" "hits t h pos' = drop 51 found" "pos' \<le> hash_slots t"
    using iter_scan_takes [OF assms(3) _ _ assms(6), of 4 0 h "it_buf h"] by (auto simp: len_def ps_def found_def)
  define buf where "buf = put_le32 (put_keys t (it_buf h) 4 ps) 0 (length ps)"
  have ps: "length ps \<le> 51" by (simp add: ps_def)
  then have len: "len \<le> 32768" "len < 2 ^ 32" by (simp_all add: len_def)
  obtain host where m: "prp_loop TO_HOST 32768 (kv_prp1 c) (kv_prp2 c) 0 len 0 None 0 (ke_host e) buf = Some (host, buf)"
    "\<forall>y < len. 0 \<le> y \<longrightarrow> host (prp_addr (ke_host e) (kv_prp1 c) (kv_prp2 c) len y) = buf (0 + y)"
    using prp_loop_to_host [OF assms(11), of 0 32768 0 0 None 0 "ke_host e" buf] piece_start len(1) by auto
  let ?h' = "h\<lparr> it_buf := buf, it_current_pos := pos' \<rparr>"
  define e' where "e' = e\<lparr> ke_ftl := (ke_ftl e)\<lparr> iter_handle := (iter_handle (ke_ftl e))[i := Some ?h'] \<rparr>,
     ke_status := (if it_current_pos h < hash_slots t \<and> length found \<le> 51 then 0x393 else 0), ke_host := host \<rparr>"
  have run: "kv_iter_read c e = Some (len, e')"
    using scan(1) m(1) assms(4,5) unfolding kv_iter_read_def i_def [symmetric] t_def [symmetric]
    by (simp add: Let_def move_value_def buf_def [symmetric] e'_def)
  have seen: "seen e' y = buf y" if "y < len" for y using m(2) that by (simp add: seen_def e'_def len_def)
  have cnt: "le32 (seen e') 0 = length ps"
  proof -
    have "le32 (seen e') 0 = le32 buf 0" by (rule le32_cong) (simp add: seen len_def)
    then show ?thesis using ps by (simp add: buf_def le32_put)
  qed
  have keys: "le32 (seen e') (4 + 20 * j) = 16 \<and> (\<forall>k < 16. seen e' (8 + 20 * j + k) = me_key (kv_mapping_table t ! (ps ! j)) ! k)" if j: "j < length ps" for j
  proof -
    have same: "seen e' (4 + 20 * j + k) = put_keys t (it_buf h) 4 ps (4 + 20 * j + k)" if "k < 20" for k
      using seen [of "4 + 20 * j + k"] that j by (simp add: len_def buf_def put_le32_same)
    have "le32 (seen e') (4 + 20 * j) = le32 (put_keys t (it_buf h) 4 ps) (4 + 20 * j)" by (rule le32_cong) (simp add: same)
    moreover have "seen e' (8 + 20 * j + k) = put_keys t (it_buf h) 4 ps (4 + 20 * j + 4 + k)" if "k < 16" for k
      using same [of "4 + k"] that by (simp add: add.assoc add.left_commute)
    ultimately show ?thesis using put_keys_at [OF j, of t "it_buf h" 4] by simp
  qed
  have "hits t ?h' pos' = hits t h pos'" by (simp add: hits_def)
  then show ?thesis using run scan(2,3) cnt keys by (intro exI [of _ e'] exI [of _ ?h']) (simp add: e'_def t_def)
qed

section \<open>Concrete runs\<close>

lemma one_page_safe:
  assumes "p mod 4096 = 0" and "len \<le> 4096"
  shows "prp_wf m p q len" "prp_safe m p q len" "x < len \<Longrightarrow> prp_addr m p q len x = p + x"
  using assms by (auto simp: prp_wf_def prp_safe_def prp_list_def prp_addr_def PAGE_SIZE_def inj_on_def)

lemma four_slots_empty:
  assumes "n \<le> length key" and "n \<le> 18"
  shows "get_mapping_entry_by_key four_slots key n = Some cleared_entry"
proof -
  have ok: "chains_ok four_slots" using kv_reach_ok [OF four_slots_reach] by simp
  obtain h r where "get_hash_slot four_slots key n = Some h" "h < hash_slots four_slots" "key_search four_slots key n h = Some r"
    "r = NO_SLOT \<or> found_at four_slots key n r" "get_mapping_entry_by_key four_slots key n = Some (if r = NO_SLOT then cleared_entry else entry_of four_slots n r)"
    by (rule lookup_ok [OF ok assms])
  then show ?thesis using four_slots_free [of r] four_slots_init(2) by (auto simp: found_at_def)
qed

definition tiny_kv :: kv_env where
  "tiny_kv = \<lparr> ke_ftl = \<lparr> kf_table = four_slots, kf_pool = Append_Only \<lparr> ap_latest = 0, ap_dev_size = 65536, ap_total_written = 0 \<rparr>,
     iter_handle = replicate 17 None \<rparr>, ke_status = 0, ke_host = (\<lambda>x. word_of_nat x), ke_dev = (\<lambda>_. 0) \<rparr>"

definition tiny_kv_cmd :: "nat \<Rightarrow> nat \<Rightarrow> nvme_kv_command" where
  "tiny_kv_cmd op page = \<lparr> kv_opcode = op, kv_prp1 = page, kv_prp2 = 0, kv_value_len = 2, kv_key_len = 0, kv_option = 0, kv_rsvd4 = 0, kv_key = replicate 16 5 \<rparr>"

lemma kv_store_then_retrieve_witness:
  "\<exists>e1 e2. kv_perform_nvme_io_cmd first_zero 65536 (\<lambda>_. 0) (tiny_kv_cmd nvme_cmd_kv_store 4096) tiny_kv = Some (0, e1)
     \<and> kv_perform_nvme_io_cmd first_zero 65536 (\<lambda>_. 0) (tiny_kv_cmd nvme_cmd_kv_retrieve 8192) e1 = Some (8, e2) \<and> ke_host e2 8195 = 3"
proof -
  let ?c = "tiny_kv_cmd nvme_cmd_kv_store 4096" and ?c' = "tiny_kv_cmd nvme_cmd_kv_retrieve 8192"
  have t: "kf_table (ke_ftl tiny_kv) = four_slots" by (simp add: tiny_kv_def)
  have reach: "kv_reach 65536 (kf_table (ke_ftl tiny_kv))" using four_slots_reach t by simp
  have fields: "kv_opcode (tiny_kv_cmd op p) = op" "kv_key (tiny_kv_cmd op p) = replicate 16 5" "kv_key_len (tiny_kv_cmd op p) = 0"
    "cmd_value_length (tiny_kv_cmd op p) = 8" "kv_prp1 (tiny_kv_cmd op p) = p" "cmd_key_length (tiny_kv_cmd op p) = 1" for op p
    by (simp_all add: tiny_kv_cmd_def cmd_value_length_def cmd_key_length_def)
  have missing: "get_mapping_entry (kf_table (ke_ftl tiny_kv)) ?c = Some cleared_entry" using four_slots_empty t by (simp add: get_mapping_entry_def fields)
  have free: "0 < hash_slots (kf_table (ke_ftl tiny_kv))" "\<not> occupied (kf_table (ke_ftl tiny_kv)) 0" using four_slots_free [of 0] four_slots_init(2) t by simp_all
  obtain pool where pool: "pool_allocate first_zero 8 (kf_pool (ke_ftl tiny_kv)) = Some (0, pool)"
    by (simp add: tiny_kv_def pool_allocate_def append_only_allocate_def)
  have wf: "prp_wf (ke_host tiny_kv) 4096 (kv_prp2 ?c) 8" and safe: "prp_safe (ke_host tiny_kv) 8192 (kv_prp2 ?c') 8"
    by (rule one_page_safe(1,2); simp)+
  note k = kv_store_then_retrieve [where e = tiny_kv and c = ?c and c' = ?c' and q = 0 and a = 0 and pool = pool and search = first_zero
    and storage_size = 65536 and junk = "\<lambda>_. 0", unfolded fields, OF reach _ refl refl refl refl _ _ missing free pool _ _ _ wf safe]
  obtain e1 e2 where r: "kv_perform_nvme_io_cmd first_zero 65536 (\<lambda>_. 0) ?c tiny_kv = Some (0, e1)"
    "kv_perform_nvme_io_cmd first_zero 65536 (\<lambda>_. 0) ?c' e1 = Some (8, e2)"
    "\<forall>x < 8. ke_host e2 (prp_addr (ke_host tiny_kv) 8192 (kv_prp2 ?c') 8 x) = ke_host tiny_kv (prp_addr (ke_host tiny_kv) 4096 (kv_prp2 ?c) 8 x)"
    using k by auto
  have "ke_host e2 (8192 + 3) = ke_host tiny_kv (4096 + 3)" using r(3) [rule_format, of 3] one_page_safe(3) [of _ 8 3] by simp
  then have "ke_host e2 8195 = 3" by (simp add: tiny_kv_def)
  then show ?thesis using r(1,2) by blast
qed

text \<open>A table of one slot, an iterator for all keys at its start.\<close>

definition one_key :: kv_env where
  "one_key = tiny_kv\<lparr> ke_ftl := (ke_ftl tiny_kv)\<lparr> kf_table := \<lparr> kv_mapping_table = [\<lparr> me_key = replicate 18 7, mem_offset = 0, me_length = 8, next_slot = NO_SLOT \<rparr>], hash_slots = 1 \<rparr>,
     iter_handle := (replicate 17 None)[1 := Some \<lparr> it_prefix = 0, it_bitmask = 0, it_buf = (\<lambda>_. 0), it_current_pos = 0 \<rparr>] \<rparr> \<rparr>"

lemma kv_iter_read_correct_witness:
  "\<exists>e'. kv_iter_read ((tiny_kv_cmd nvme_cmd_kv_iter_read 4096)\<lparr> kv_key_len := 1 \<rparr>) one_key = Some (24, e') \<and> ke_status e' = 0x393 \<and> ke_host e' 4104 = 7"
proof -
  let ?c = "(tiny_kv_cmd nvme_cmd_kv_iter_read 4096)\<lparr> kv_key_len := 1 \<rparr>" and ?h = "\<lparr> it_prefix = 0, it_bitmask = 0, it_buf = (\<lambda>_. 0), it_current_pos = 0 \<rparr>"
  let ?t = "kf_table (ke_ftl one_key)"
  have i: "kv_iter_handle ?c = 1" "kv_prp1 ?c = 4096" by (simp_all add: kv_iter_handle_def tiny_kv_cmd_def)
  have t: "length (kv_mapping_table ?t) = hash_slots ?t" "hash_slots ?t = 1" "me_key (kv_mapping_table ?t ! 0) = replicate 18 7" "length (iter_handle (ke_ftl one_key)) = 17"
    "iter_handle (ke_ftl one_key) ! 1 = Some ?h" by (simp_all add: one_key_def tiny_kv_def)
  have hit: "hits ?t ?h (it_current_pos ?h) = [0]" by (simp add: hits_def wanted_def one_key_def NO_OFFSET_def)
  obtain e' where r: "kv_iter_read ?c one_key = Some (24, e')" "ke_status e' = 0x393"
    "\<forall>k < 16. ke_host e' (prp_addr (ke_host one_key) 4096 (kv_prp2 ?c) 24 (8 + k)) = replicate 18 7 ! k"
    using kv_iter_read_correct [of one_key ?c ?h, unfolded hit i] t one_page_safe(2) [of 4096 24] by auto
  have "ke_host e' 4104 = 7" using r(3) [rule_format, of 0] one_page_safe(3) [of 4096 24 8] by simp
  then show ?thesis using r(1,2) by blast
qed

end
