(* ===== verification/Admin.thy ===== *)
theory Admin
  imports IO_Queue Zone
begin

text \<open>
  The admin commands of \<open>admin.c\<close>. The rings of the admin queue are lists of commands and completions,
  \<open>None\<close> while the host has not given their address; a queue that a command creates has the entries that the
  pages of the host hold at its address. Identify data and log pages are written byte by byte into host memory.
  The FTLs stay the type parameter of \<open>IO_Queue\<close>; what the identify commands say of a namespace is kept in
  \<open>vns\<close>. \<open>None\<close> is again a stopped kernel: no ring, an index out of range, a failed assertion.
\<close>

section \<open>Memory of the host\<close>

text \<open>Little-endian integers of \<open>n\<close> bytes, and runs of bytes.\<close>

definition store :: "nat \<Rightarrow> nat \<Rightarrow> nat \<Rightarrow> bytes \<Rightarrow> bytes" where
  "store n a v m = (\<lambda>x. if a \<le> x \<and> x < a + n then of_nat (v div 256 ^ (x - a)) else m x)"

primrec load :: "nat \<Rightarrow> bytes \<Rightarrow> nat \<Rightarrow> nat" where
  "load 0 m a = 0"
| "load (Suc n) m a = unat (m a) + 256 * load n m (a + 1)"

definition memset :: "nat \<Rightarrow> 8 word \<Rightarrow> nat \<Rightarrow> bytes \<Rightarrow> bytes" where
  "memset a v n m = (\<lambda>x. if a \<le> x \<and> x < a + n then v else m x)"

definition put_bytes :: "nat \<Rightarrow> 8 word list \<Rightarrow> bytes \<Rightarrow> bytes" where
  "put_bytes a vs m = (\<lambda>x. if a \<le> x \<and> x < a + length vs then vs ! (x - a) else m x)"

definition c_string :: "string \<Rightarrow> 8 word list" where
  "c_string s = map of_char s @ [0]"

lemma store_other: "x < a \<or> a + n \<le> x \<Longrightarrow> store n a v m x = m x"
  by (auto simp: store_def)

lemma load_cong: "(\<And>x. a \<le> x \<Longrightarrow> x < a + n \<Longrightarrow> m x = m' x) \<Longrightarrow> load n m a = load n m' a"
  by (induction n arbitrary: a) auto

lemma load_store_other [simp]: "b + k \<le> a \<or> a + n \<le> b \<Longrightarrow> load k (store n a v m) b = load k m b"
  by (rule load_cong) (auto simp: store_other)

lemma load_put_other [simp]: "b + k \<le> a \<or> a + length vs \<le> b \<Longrightarrow> load k (put_bytes a vs m) b = load k m b"
  by (rule load_cong) (auto simp: put_bytes_def)

lemma load_memset_other [simp]: "b + k \<le> a \<or> a + n \<le> b \<Longrightarrow> load k (memset a v n m) b = load k m b"
  by (rule load_cong) (auto simp: memset_def)

lemma load_memset_0 [simp]: "a \<le> b \<Longrightarrow> b + k \<le> a + n \<Longrightarrow> load k (memset a 0 n m) b = 0"
  by (induction k arbitrary: b) (auto simp: memset_def)

lemma load_store [simp]: "load n (store n a v m) a = v mod 256 ^ n"
proof (induction n arbitrary: a v m)
  case 0
  then show ?case by simp
next
  case (Suc n)
  have "load n (store (Suc n) a v m) (a + 1) = load n (store n (a + 1) (v div 256) m) (a + 1)"
  proof (rule load_cong)
    fix x assume x: "a + 1 \<le> x" "x < a + 1 + n"
    have "x - a = Suc (x - (a + 1))" using x by simp
    then have "v div 256 ^ (x - a) = v div 256 div 256 ^ (x - (a + 1))" by (simp only: power_Suc div_mult2_eq)
    then show "store (Suc n) a v m x = store n (a + 1) (v div 256) m x" using x by (simp add: store_def)
  qed
  also have "\<dots> = v div 256 mod 256 ^ n" by (rule Suc.IH)
  finally have "load (Suc n) (store (Suc n) a v m) a = v mod 256 + 256 * (v div 256 mod 256 ^ n)"
    by (simp add: store_def unat_of_nat)
  also have "\<dots> = v mod 256 ^ Suc n" by (simp add: mod_mult2_eq)
  finally show ?case .
qed

declare load.simps [simp del]

section \<open>The rings\<close>

text \<open>\<open>prp_address_offset\<close> for page \<open>k div per\<close>, and the entry in it.\<close>

definition ring_addr :: "nat \<Rightarrow> nat \<Rightarrow> nat \<Rightarrow> nat" where
  "ring_addr prp sz k = (let per = PAGE_SIZE div sz
     in (prp div PAGE_SIZE + k div per) * PAGE_SIZE + prp mod PAGE_SIZE + sz * (k mod per))"

definition command_at :: "bytes \<Rightarrow> nat \<Rightarrow> nvme_command" where
  "command_at m a = \<lparr> opcode = load 1 m a, command_id = load 2 m (a + 2), nsid = load 4 m (a + 4),
     prp1 = load 8 m (a + 24), prp2 = load 8 m (a + 32), cdw10 = load 4 m (a + 40), cdw11 = load 4 m (a + 44),
     cdw12 = load 4 m (a + 48), cdw13 = load 4 m (a + 52) \<rparr>"

definition completion_at :: "bytes \<Rightarrow> nat \<Rightarrow> nvme_completion" where
  "completion_at m a = \<lparr> c_result0 = load 4 m a, c_result1 = load 4 m (a + 4), c_sq_head = load 2 m (a + 8),
     c_sq_id = load 2 m (a + 10), c_command_id = load 2 m (a + 12), c_status = load 2 m (a + 14) \<rparr>"

text \<open>The entries of the pages that a ring of \<open>n\<close> entries takes: 64 commands or 256 completions in each. A ring is read from the
  host memory when its queue is created and is a list of its own from then on: the model is of hosts that keep the pages of the rings apart from
  those the device writes data to.\<close>

definition SZ_COMMAND :: nat where "SZ_COMMAND = 64"
definition SZ_COMPLETION :: nat where "SZ_COMPLETION = 16"

definition ring_pages :: "nat \<Rightarrow> nat \<Rightarrow> nat" where
  "ring_pages n sz = (n * sz + PAGE_SIZE - 1) div PAGE_SIZE"

definition sq_ring :: "bytes \<Rightarrow> nat \<Rightarrow> nat \<Rightarrow> nvme_command list" where
  "sq_ring m prp n = map (\<lambda>k. command_at m (ring_addr prp SZ_COMMAND k)) [0..<ring_pages n SZ_COMMAND * (PAGE_SIZE div SZ_COMMAND)]"

definition cq_ring :: "bytes \<Rightarrow> nat \<Rightarrow> nat \<Rightarrow> nvme_completion list" where
  "cq_ring m prp n = map (\<lambda>k. completion_at m (ring_addr prp SZ_COMPLETION k)) [0..<ring_pages n SZ_COMPLETION * (PAGE_SIZE div SZ_COMPLETION)]"

lemma ring_fits: "n \<le> length (sq_ring m prp n)" "n \<le> length (cq_ring m prp n)"
  by (simp_all add: sq_ring_def cq_ring_def ring_pages_def PAGE_SIZE_def SZ_COMMAND_def SZ_COMPLETION_def)

section \<open>State\<close>

text \<open>The phase is an \<open>int\<close> that is only ever 0 or 1.\<close>

record nvmev_admin_queue =
  aq_phase :: bool
  aq_sq_depth :: nat
  aq_cq_depth :: nat
  aq_cq_head :: nat
  nvme_sq :: "nvme_command list option"
  nvme_cq :: "nvme_completion list option"

text \<open>What the identify commands read of a namespace; \<open>ni_zp\<close> are the parameters of its first FTL if it is zoned.\<close>

record ns_info =
  ni_size :: nat
  ni_csi :: nvme_csi
  ni_zp :: "znsparams option"

text \<open>The controller: the device of \<open>IO_Queue\<close>, the admin queue, the doorbells of the host and the last values seen,
  and the interrupts raised so far. \<open>zns_supported\<close> and \<open>mdts\<close> are fixed by the build.\<close>

record 's controller =
  vdev :: "'s nvmev_dev"
  admin_q :: "nvmev_admin_queue option"
  dbs :: "nat list"
  old_dbs :: "nat list"
  nr_sq :: nat
  nr_cq :: nat
  vns :: "ns_info list"
  mdts :: nat
  zns_supported :: bool
  irqs_raised :: "nat list"

definition NR_MAX_IO_QUEUE :: nat where "NR_MAX_IO_QUEUE = 72"

definition NR_DBS :: nat where "NR_DBS = PAGE_SIZE div 4"

text \<open>The interrupt is handed to the kernel's descriptor of the vector. The list of descriptors is the kernel's, filled by
  the driver of the host when it enables MSI-X; the model takes a descriptor for every vector that is signalled to be
  there (without one, the code stops in \<open>BUG_ON\<close>), and records the vectors.\<close>

definition nvmev_signal_irq :: "nat \<Rightarrow> 's controller \<Rightarrow> 's controller" where
  "nvmev_signal_irq i v = v\<lparr> irqs_raised := irqs_raised v @ [i] \<rparr>"

definition with_host :: "(bytes \<Rightarrow> bytes) \<Rightarrow> 's controller \<Rightarrow> 's controller" where
  "with_host f v = v\<lparr> vdev := (vdev v)\<lparr> dev_host := f (dev_host (vdev v)) \<rparr> \<rparr>"

text \<open>\<open>sq_entry(eid)\<close>, and the assignments to members of \<open>cq_entry(cq_head)\<close>.\<close>

definition sq_entry :: "'s controller \<Rightarrow> nat \<Rightarrow> nvme_command option" where
  "sq_entry v eid = do { q \<leftarrow> admin_q v; cs \<leftarrow> nvme_sq q; arr_get cs eid }"

definition on_cqe :: "nat \<Rightarrow> (nvme_completion \<Rightarrow> nvme_completion) \<Rightarrow> 's controller \<Rightarrow> 's controller option" where
  "on_cqe cqh f v = do {
     q \<leftarrow> admin_q v;
     es \<leftarrow> nvme_cq q;
     e \<leftarrow> arr_get es cqh;
     Some (v\<lparr> admin_q := Some (q\<lparr> nvme_cq := Some (es[cqh := f e]) \<rparr>) \<rparr>)
   }"

text \<open>The four assignments that every command makes; the two results keep what the entry held before.\<close>

definition fill_cqe :: "bool \<Rightarrow> nat \<Rightarrow> nat \<Rightarrow> nat \<Rightarrow> nvme_completion \<Rightarrow> nvme_completion" where
  "fill_cqe phase eid cid sc e = e\<lparr> c_command_id := cid, c_sq_id := 0, c_sq_head := eid mod 2 ^ 16,
     c_status := (if phase then 2 * sc + 1 else 2 * sc) mod 2 ^ 16 \<rparr>"

definition post_cqe :: "nat \<Rightarrow> nat \<Rightarrow> nat \<Rightarrow> 's controller \<Rightarrow> 's controller option" where
  "post_cqe eid cqh sc v = do {
     q \<leftarrow> admin_q v;
     c \<leftarrow> sq_entry v eid;
     on_cqe cqh (fill_cqe (aq_phase q) eid (command_id c) sc) v
   }"

section \<open>Queues\<close>

definition nvme_admin_delete_sq :: nat where "nvme_admin_delete_sq = 0x00"
definition nvme_admin_create_sq :: nat where "nvme_admin_create_sq = 0x01"
definition nvme_admin_get_log_page :: nat where "nvme_admin_get_log_page = 0x02"
definition nvme_admin_delete_cq :: nat where "nvme_admin_delete_cq = 0x04"
definition nvme_admin_create_cq :: nat where "nvme_admin_create_cq = 0x05"
definition nvme_admin_identify :: nat where "nvme_admin_identify = 0x06"
definition nvme_admin_abort_cmd :: nat where "nvme_admin_abort_cmd = 0x08"
definition nvme_admin_set_features :: nat where "nvme_admin_set_features = 0x09"
definition nvme_admin_get_features :: nat where "nvme_admin_get_features = 0x0a"
definition nvme_admin_async_event :: nat where "nvme_admin_async_event = 0x0c"

lemmas admin_opcodes = nvme_admin_delete_sq_def nvme_admin_create_sq_def nvme_admin_get_log_page_def
  nvme_admin_delete_cq_def nvme_admin_create_cq_def nvme_admin_identify_def nvme_admin_abort_cmd_def
  nvme_admin_set_features_def nvme_admin_get_features_def nvme_admin_async_event_def

definition NVME_SC_ASYNC_LIMIT :: nat where "NVME_SC_ASYNC_LIMIT = 0x105"

text \<open>The members of the queue commands; \<open>sqid\<close> and \<open>cqid\<close> of the created queue, and \<open>qid\<close>, share their place.\<close>

definition q_id :: "nvme_command \<Rightarrow> nat" where "q_id c = cdw10 c mod 2 ^ 16"
definition q_size :: "nvme_command \<Rightarrow> nat" where "q_size c = cdw10 c div 2 ^ 16 mod 2 ^ 16"
definition q_flags :: "nvme_command \<Rightarrow> nat" where "q_flags c = cdw11 c mod 2 ^ 16"
definition q_vector :: "nvme_command \<Rightarrow> nat" where "q_vector c = cdw11 c div 2 ^ 16 mod 2 ^ 16"
definition q_cqid :: "nvme_command \<Rightarrow> nat" where "q_cqid c = cdw11 c div 2 ^ 16 mod 2 ^ 16"

text \<open>\<open>NVME_CQ_IRQ_ENABLED\<close> is bit 1 of the flags.\<close>

definition new_cq :: "bytes \<Rightarrow> nvme_command \<Rightarrow> completion_queue" where
  "new_cq host c = \<lparr> cq_size = q_size c + 1, cq_phase = 1, cq_head = 0, cq_tail = -1, cq_interrupt_ready = False,
     cq_irq_enabled = odd (q_flags c div 2), cq_irq_vector = (if odd (q_flags c div 2) then q_vector c else 0),
     cq_entries = cq_ring host (prp1 c) (q_size c + 1) \<rparr>"

definition zero_stat :: nvmev_sq_stat where
  "zero_stat = \<lparr> nr_dispatched = 0, nr_dispatch = 0, nr_in_flight = 0, max_nr_in_flight = 0, total_io = 0 \<rparr>"

definition new_sq :: "bytes \<Rightarrow> nvme_command \<Rightarrow> submission_queue" where
  "new_sq host c = \<lparr> sq_cqid = q_cqid c, sq_size = q_size c + 1, sq_stat = zero_stat,
     sq_cmds = sq_ring host (prp1 c) (q_size c + 1) \<rparr>"

definition reset_db :: "nat \<Rightarrow> 's controller \<Rightarrow> 's controller option" where
  "reset_db i v = do {
     d \<leftarrow> arr_set (dbs v) i 0;
     o' \<leftarrow> arr_set (old_dbs v) i 0;
     Some (v\<lparr> dbs := d, old_dbs := o' \<rparr>)
   }"

definition admin_create_cq :: "nat \<Rightarrow> nat \<Rightarrow> 's controller \<Rightarrow> 's controller option" where
  "admin_create_cq eid cqh v = do {
     c \<leftarrow> sq_entry v eid;
     qs \<leftarrow> arr_set (cqes (vdev v)) (q_id c) (Some (new_cq (dev_host (vdev v)) c));
     v \<leftarrow> reset_db (q_id c * 2 + 1) (v\<lparr> vdev := (vdev v)\<lparr> cqes := qs \<rparr> \<rparr>);
     post_cqe eid cqh NVME_SC_SUCCESS v
   }"

definition admin_delete_cq :: "nat \<Rightarrow> nat \<Rightarrow> 's controller \<Rightarrow> 's controller option" where
  "admin_delete_cq eid cqh v = do {
     c \<leftarrow> sq_entry v eid;
     qs \<leftarrow> arr_set (cqes (vdev v)) (q_id c) None;
     post_cqe eid cqh NVME_SC_SUCCESS (v\<lparr> vdev := (vdev v)\<lparr> cqes := qs \<rparr> \<rparr>)
   }"

definition admin_create_sq :: "nat \<Rightarrow> nat \<Rightarrow> 's controller \<Rightarrow> 's controller option" where
  "admin_create_sq eid cqh v = do {
     c \<leftarrow> sq_entry v eid;
     qs \<leftarrow> arr_set (sqes (vdev v)) (q_id c) (Some (new_sq (dev_host (vdev v)) c));
     v \<leftarrow> reset_db (q_id c * 2) (v\<lparr> vdev := (vdev v)\<lparr> sqes := qs \<rparr> \<rparr>);
     post_cqe eid cqh NVME_SC_SUCCESS v
   }"

definition admin_delete_sq :: "nat \<Rightarrow> nat \<Rightarrow> 's controller \<Rightarrow> 's controller option" where
  "admin_delete_sq eid cqh v = do {
     c \<leftarrow> sq_entry v eid;
     qs \<leftarrow> arr_set (sqes (vdev v)) (q_id c) None;
     post_cqe eid cqh NVME_SC_SUCCESS (v\<lparr> vdev := (vdev v)\<lparr> sqes := qs \<rparr> \<rparr>)
   }"

section \<open>Identify\<close>

text \<open>\<open>struct nvme_id_ctrl\<close>, of 4096 bytes.\<close>

definition id_ctrl :: "nat \<Rightarrow> nat \<Rightarrow> nat \<Rightarrow> bytes \<Rightarrow> bytes" where
  "id_ctrl nn md a m =
     (let m = memset a 0 4096 m;
          m = store 4 (a + 516) nn m;
          m = store 2 (a + 520) 0 m;
          m = store 1 (a + 258) 3 m;
          m = store 1 (a + 525) 0 m;
          m = put_bytes (a + 4) (c_string ''CSL_Virt_SN_01'') m;
          m = put_bytes (a + 24) (c_string ''CSL_Virt_MN_01'') m;
          m = put_bytes (a + 64) (c_string ''CSL_002'') m;
          m = store 1 (a + 77) md m;
          m = store 1 (a + 512) 0x66 m
      in store 1 (a + 513) 0x44 m)"

definition admin_identify_ctrl :: "nat \<Rightarrow> nat \<Rightarrow> 's controller \<Rightarrow> 's controller option" where
  "admin_identify_ctrl eid cqh v = do {
     c \<leftarrow> sq_entry v eid;
     post_cqe eid cqh NVME_SC_SUCCESS (with_host (id_ctrl (length (vns v)) (mdts v) (prp1 c)) v)
   }"

text \<open>\<open>struct nvme_id_ns\<close>: the table of formats \<open>lbaf\<close> has a metadata size, the logarithm of the data size and the
  relative performance in each entry of 4 bytes.\<close>

definition lbaf_at :: "nat \<Rightarrow> nat \<Rightarrow> nat" where "lbaf_at a i = a + 128 + 4 * i"

definition put_lbaf :: "nat \<Rightarrow> nat \<times> nat \<times> nat \<times> nat \<Rightarrow> bytes \<Rightarrow> bytes" where
  "put_lbaf a e m = (case e of (i, ms, ds, rp) \<Rightarrow>
     store 1 (lbaf_at a i + 3) rp (store 1 (lbaf_at a i + 2) ds (store 2 (lbaf_at a i) ms m)))"

definition NVME_LBAF_RP_BEST :: nat where "NVME_LBAF_RP_BEST = 0"
definition NVME_LBAF_RP_GOOD :: nat where "NVME_LBAF_RP_GOOD = 2"

definition lba_formats :: "(nat \<times> nat \<times> nat \<times> nat) list" where
  "lba_formats = [(0, 0, 9, NVME_LBAF_RP_GOOD), (1, 8, 9, NVME_LBAF_RP_GOOD), (2, 16, 9, NVME_LBAF_RP_GOOD),
     (3, 0, 12, NVME_LBAF_RP_BEST), (4, 8, 12, NVME_LBAF_RP_BEST), (5, 64, 12, NVME_LBAF_RP_BEST), (6, 128, 12, NVME_LBAF_RP_BEST)]"

text \<open>The size is shifted by the data size of the format that \<open>flbas\<close> selects, as just written.\<close>

definition id_ns :: "nat \<Rightarrow> nat \<Rightarrow> bytes \<Rightarrow> bytes" where
  "id_ns size' a m =
     (let m = memset a 0 PAGE_SIZE m;
          m = fold (put_lbaf a) lba_formats m;
          nsze = size' div 2 ^ load 1 m (lbaf_at a (load 1 m (a + 26)) + 2);
          m = store 8 a nsze m;
          m = store 8 (a + 8) (load 8 m a) m;
          m = store 8 (a + 16) (load 8 m a) m;
          m = store 1 (a + 25) 6 m;
          m = store 1 (a + 26) 0 m
      in store 1 (a + 29) 0 m)"

definition admin_identify_namespace :: "nat \<Rightarrow> nat \<Rightarrow> 's controller \<Rightarrow> 's controller option" where
  "admin_identify_namespace eid cqh v = do {
     c \<leftarrow> sq_entry v eid;
     ns \<leftarrow> arr_get (vns v) (sub32 (nsid c) 1);
     post_cqe eid cqh NVME_SC_SUCCESS (with_host (id_ns (ni_size ns) (prp1 c)) v)
   }"

text \<open>The list of the namespaces above the one the command names; two pages are cleared for it.\<close>

definition put_nsids :: "nat \<Rightarrow> nat \<Rightarrow> nat \<Rightarrow> bytes \<Rightarrow> bytes" where
  "put_nsids nn nsid' a m =
     fst (fold (\<lambda>i (m, p). if nsid' < i then (store 4 p i m, p + 4) else (m, p)) [1..<nn + 1] (memset a 0 (PAGE_SIZE * 2) m, a))"

definition admin_identify_namespaces :: "nat \<Rightarrow> nat \<Rightarrow> 's controller \<Rightarrow> 's controller option" where
  "admin_identify_namespaces eid cqh v = do {
     c \<leftarrow> sq_entry v eid;
     post_cqe eid cqh NVME_SC_SUCCESS (with_host (put_nsids (length (vns v)) (nsid c) (prp1 c)) v)
   }"

fun csi_code :: "nvme_csi \<Rightarrow> nat" where
  "csi_code NVME_CSI_NVM = 0"
| "csi_code NVME_CSI_KV = 1"
| "csi_code NVME_CSI_ZNS = 2"

definition NVME_NIDT_CSI :: nat where "NVME_NIDT_CSI = 4"

definition id_ns_desc :: "nvme_csi \<Rightarrow> nat \<Rightarrow> bytes \<Rightarrow> bytes" where
  "id_ns_desc csi a m = store 1 (a + 4) (csi_code csi) (store 1 (a + 1) 1 (store 1 a NVME_NIDT_CSI (memset a 0 4096 m)))"

definition admin_identify_namespace_desc :: "nat \<Rightarrow> nat \<Rightarrow> 's controller \<Rightarrow> 's controller option" where
  "admin_identify_namespace_desc eid cqh v = do {
     c \<leftarrow> sq_entry v eid;
     ns \<leftarrow> arr_get (vns v) (sub32 (nsid c) 1);
     post_cqe eid cqh NVME_SC_SUCCESS (with_host (id_ns_desc (ni_csi ns) (prp1 c)) v)
   }"

text \<open>\<open>struct nvme_id_zns_ns\<close>; \<open>zrwafg\<close> and \<open>zrwasz\<close> are 16-bit members.\<close>

definition OZCS_ZRWA :: nat where "OZCS_ZRWA = 2"
definition ZRWACAP_EXPFLUSHSUP :: nat where "ZRWACAP_EXPFLUSHSUP = 1"

definition id_zns_ns :: "znsparams \<Rightarrow> nat \<Rightarrow> bytes \<Rightarrow> bytes" where
  "id_zns_ns z a m =
     (let m = memset a 0 4096 m;
          m = store 2 a 0 m;
          m = store 2 (a + 2) 0 m;
          m = store 4 (a + 4) (sub32 (nr_active_zones z) 1) m;
          m = store 4 (a + 8) (sub32 (nr_open_zones z) 1) m;
          m = (if 0 < nr_zrwa_zones z then
                 (let m = store 2 (a + 2) OZCS_ZRWA m;
                      m = store 4 (a + 44) (sub32 (nr_zrwa_zones z) 1) m;
                      m = store 2 (a + 48) (zrwafg_size z) m;
                      m = store 2 (a + 50) (zrwa_size z) m
                  in store 1 (a + 52) ZRWACAP_EXPFLUSHSUP m)
               else m);
          m = store 8 (a + 2816) (BYTE_TO_LBA (zone_size z)) m
      in store 1 (a + 2824) 0 m)"

definition admin_identify_zns_namespace :: "nat \<Rightarrow> nat \<Rightarrow> 's controller \<Rightarrow> 's controller option" where
  "admin_identify_zns_namespace eid cqh v = do {
     c \<leftarrow> sq_entry v eid;
     ns \<leftarrow> arr_get (vns v) (sub32 (nsid c) 1);
     _ \<leftarrow> nvmev_assert (ni_csi ns = NVME_CSI_ZNS);
     z \<leftarrow> ni_zp ns;
     post_cqe eid cqh NVME_SC_SUCCESS (with_host (id_zns_ns z (prp1 c)) v)
   }"

definition admin_identify_zns_ctrl :: "nat \<Rightarrow> nat \<Rightarrow> 's controller \<Rightarrow> 's controller option" where
  "admin_identify_zns_ctrl eid cqh v = do {
     c \<leftarrow> sq_entry v eid;
     post_cqe eid cqh NVME_SC_SUCCESS (with_host (store 1 (prp1 c) 0) v)
   }"

section \<open>Log pages and features\<close>

text \<open>\<open>struct nvme_smart_log\<close> (512 bytes) and \<open>struct nvme_effects_log\<close> (4096 bytes: 256 words for the admin commands,
  256 for the I/O commands, reserved bytes).\<close>

definition NVME_LOG_SMART :: nat where "NVME_LOG_SMART = 2"
definition NVME_LOG_CMD_EFFECTS :: nat where "NVME_LOG_CMD_EFFECTS = 5"

definition smart_log :: bytes where "smart_log = store 1 4 20 (\<lambda>_. 0)"

definition effects_log :: "bool \<Rightarrow> bytes" where
  "effects_log zns =
     (let m = fold (\<lambda>op. store 4 (4 * op) 1) [nvme_admin_get_log_page, nvme_admin_identify, nvme_admin_set_features,
                nvme_admin_get_features, nvme_admin_async_event] (\<lambda>_. 0)
      in if zns then store 4 (1024 + 4 * nvme_cmd_zone_mgmt_recv) 1 (store 4 (1024 + 4 * nvme_cmd_zone_mgmt_send) 3
           (store 4 (1024 + 4 * nvme_cmd_zone_append) 1 m)) else m)"

definition log_lid :: "nvme_command \<Rightarrow> nat" where "log_lid c = cdw10 c mod 2 ^ 8"

definition log_len :: "nvme_command \<Rightarrow> nat" where
  "log_len c = u32 ((cdw11 c mod 2 ^ 16 * 2 ^ 16 + cdw10 c div 2 ^ 16 mod 2 ^ 16 + 1) mod 2 ^ 32 * 4)"

text \<open>The length is the host's: it may lie past the log that is copied.\<close>

definition log_page :: "bool \<Rightarrow> nvme_command \<Rightarrow> bytes \<Rightarrow> bytes option" where
  "log_page zns c m =
     (if log_lid c = NVME_LOG_SMART then (if log_len c \<le> 512 then Some (memcpy m (prp1 c) smart_log 0 (log_len c)) else None)
      else if log_lid c = NVME_LOG_CMD_EFFECTS then
        (if log_len c \<le> 4096 then Some (memcpy m (prp1 c) (effects_log zns) 0 (log_len c)) else None)
      else Some (memset (prp1 c) 0 (log_len c) m))"

definition admin_get_log_page :: "nat \<Rightarrow> nat \<Rightarrow> 's controller \<Rightarrow> 's controller option" where
  "admin_get_log_page eid cqh v = do {
     c \<leftarrow> sq_entry v eid;
     m \<leftarrow> log_page (zns_supported v) c (dev_host (vdev v));
     post_cqe eid cqh NVME_SC_SUCCESS (with_host (\<lambda>_. m) v)
   }"

definition NVME_FEAT_NUM_QUEUES :: nat where "NVME_FEAT_NUM_QUEUES = 7"

definition admin_set_features :: "nat \<Rightarrow> nat \<Rightarrow> 's controller \<Rightarrow> 's controller option" where
  "admin_set_features eid cqh v = do {
     c \<leftarrow> sq_entry v eid;
     v \<leftarrow> (if cdw10 c = NVME_FEAT_NUM_QUEUES then do {
        let v = v\<lparr> nr_sq := min (cdw11 c mod 2 ^ 16 + 1) NR_MAX_IO_QUEUE \<rparr>;
        let v = v\<lparr> nr_cq := min (cdw11 c div 2 ^ 16 mod 2 ^ 16 + 1) NR_MAX_IO_QUEUE \<rparr>;
        on_cqe cqh (\<lambda>e. e\<lparr> c_result0 := (nr_cq v - 1) * 2 ^ 16 + (nr_sq v - 1) \<rparr>) v
      } else Some v);
     post_cqe eid cqh NVME_SC_SUCCESS v
   }"

definition admin_async_event :: "nat \<Rightarrow> nat \<Rightarrow> 's controller \<Rightarrow> 's controller option" where
  "admin_async_event eid cqh v = do {
     v \<leftarrow> on_cqe cqh (\<lambda>e. e\<lparr> c_result0 := 0 \<rparr>) v;
     post_cqe eid cqh NVME_SC_ASYNC_LIMIT v
   }"

section \<open>Processing\<close>

definition admin_identify :: "nat \<Rightarrow> nat \<Rightarrow> nat \<Rightarrow> 's controller \<Rightarrow> 's controller option" where
  "admin_identify cns eid cqh v =
     (if cns = 0x00 then admin_identify_namespace eid cqh v
      else if cns = 0x01 then admin_identify_ctrl eid cqh v
      else if cns = 0x02 then admin_identify_namespaces eid cqh v
      else if cns = 0x03 then admin_identify_namespace_desc eid cqh v
      else if cns = 0x05 then admin_identify_zns_namespace eid cqh v
      else if cns = 0x06 then admin_identify_zns_ctrl eid cqh v
      else Some v)"

text \<open>The commands that are not handled, \<open>get_features\<close> among them, do nothing.\<close>

definition admin_dispatch :: "nat \<Rightarrow> nat \<Rightarrow> 's controller \<Rightarrow> 's controller option" where
  "admin_dispatch eid cqh v = do {
     c \<leftarrow> sq_entry v eid;
     if opcode c = nvme_admin_delete_sq then admin_delete_sq eid cqh v
     else if opcode c = nvme_admin_create_sq then admin_create_sq eid cqh v
     else if opcode c = nvme_admin_get_log_page then admin_get_log_page eid cqh v
     else if opcode c = nvme_admin_delete_cq then admin_delete_cq eid cqh v
     else if opcode c = nvme_admin_create_cq then admin_create_cq eid cqh v
     else if opcode c = nvme_admin_identify then admin_identify (cdw10 c) eid cqh v
     else if opcode c = nvme_admin_set_features then admin_set_features eid cqh v
     else if opcode c = nvme_admin_async_event then admin_async_event eid cqh v
     else Some v
   }"

definition advance_aq :: "nat \<Rightarrow> nvmev_admin_queue \<Rightarrow> nvmev_admin_queue" where
  "advance_aq cqh q =
     (if cqh + 1 = aq_cq_depth q then q\<lparr> aq_cq_head := 0, aq_phase := \<not> aq_phase q \<rparr>
      else q\<lparr> aq_cq_head := cqh + 1 \<rparr>)"

definition proc_admin_req :: "nat \<Rightarrow> 's controller \<Rightarrow> 's controller option" where
  "proc_admin_req eid v = do {
     q \<leftarrow> admin_q v;
     v \<leftarrow> admin_dispatch eid (aq_cq_head q) v;
     q' \<leftarrow> admin_q v;
     Some (v\<lparr> admin_q := Some (advance_aq (aq_cq_head q) q') \<rparr>)
   }"

text \<open>The loop over the new entries, from \<open>curr\<close>.\<close>

primrec proc_admin_entries :: "nat \<Rightarrow> nat \<Rightarrow> nat \<Rightarrow> 's controller \<Rightarrow> 's controller option" where
  "proc_admin_entries depth entry 0 v = Some v"
| "proc_admin_entries depth entry (Suc n) v = do {
     v \<leftarrow> proc_admin_req entry v;
     proc_admin_entries depth (if entry + 1 = depth then 0 else entry + 1) n v
   }"

text \<open>The doorbells are passed as \<open>int\<close>; \<open>sq_depth\<close> is set by the register code only.\<close>

definition nvmev_proc_admin_sq :: "int \<Rightarrow> int \<Rightarrow> 's controller \<Rightarrow> 's controller option" where
  "nvmev_proc_admin_sq new_db old_db v = do {
     q \<leftarrow> admin_q v;
     let num_proc = (if new_db - old_db < 0 then new_db - old_db + int (aq_sq_depth q) else new_db - old_db);
     v \<leftarrow> (if 0 < num_proc \<and> old_db < 0 then None else proc_admin_entries (aq_sq_depth q) (nat old_db) (nat num_proc) v);
     Some (nvmev_signal_irq 0 v)
   }"

definition nvmev_proc_admin_cq :: "int \<Rightarrow> int \<Rightarrow> 's controller \<Rightarrow> 's controller option" where
  "nvmev_proc_admin_cq new_db old_db v = Some v"

section \<open>What one command does\<close>

text \<open>The rings of the admin queue, in place.\<close>

definition rings :: "'s controller \<Rightarrow> nvmev_admin_queue \<Rightarrow> nvme_command list \<Rightarrow> nvme_completion list \<Rightarrow> bool" where
  "rings v q cs es \<longleftrightarrow> admin_q v = Some q \<and> nvme_sq q = Some cs \<and> nvme_cq q = Some es"

text \<open>The arrays of the device have the sizes the code declares.\<close>

definition arrays_ok :: "'s controller \<Rightarrow> bool" where
  "arrays_ok v \<longleftrightarrow> length (sqes (vdev v)) = NR_MAX_IO_QUEUE + 1 \<and> length (cqes (vdev v)) = NR_MAX_IO_QUEUE + 1 \<and>
     length (dbs v) = NR_DBS \<and> length (old_dbs v) = NR_DBS"

text \<open>What admin commands never change.\<close>

definition same_setup :: "'s controller \<Rightarrow> 's controller \<Rightarrow> bool" where
  "same_setup v v' \<longleftrightarrow> vns v' = vns v \<and> mdts v' = mdts v \<and> zns_supported v' = zns_supported v \<and> irqs_raised v' = irqs_raised v \<and>
     proc_infos (vdev v') = proc_infos (vdev v) \<and> nr_io_cpu (vdev v') = nr_io_cpu (vdev v) \<and> dev_ns (vdev v') = dev_ns (vdev v) \<and>
     dev_storage (vdev v') = dev_storage (vdev v)"

text \<open>The commands that stay inside the arrays, the logs and the namespaces; nothing in the code checks this.\<close>

definition admin_cmd_ok :: "'s controller \<Rightarrow> nvme_command \<Rightarrow> bool" where
  "admin_cmd_ok v c \<longleftrightarrow>
     (opcode c \<in> {nvme_admin_delete_sq, nvme_admin_create_sq, nvme_admin_delete_cq, nvme_admin_create_cq} \<longrightarrow> q_id c \<le> NR_MAX_IO_QUEUE) \<and>
     (opcode c = nvme_admin_get_log_page \<longrightarrow>
        (log_lid c = NVME_LOG_SMART \<longrightarrow> log_len c \<le> 512) \<and> (log_lid c = NVME_LOG_CMD_EFFECTS \<longrightarrow> log_len c \<le> 4096)) \<and>
     (opcode c = nvme_admin_identify \<and> cdw10 c \<in> {0, 3, 5} \<longrightarrow> sub32 (nsid c) 1 < length (vns v)) \<and>
     (opcode c = nvme_admin_identify \<and> cdw10 c = 5 \<longrightarrow>
        ni_csi (vns v ! sub32 (nsid c) 1) = NVME_CSI_ZNS \<and> ni_zp (vns v ! sub32 (nsid c) 1) \<noteq> None)"

lemma admin_cmd_okD:
  assumes "admin_cmd_ok v c"
  shows "opcode c \<in> {nvme_admin_delete_sq, nvme_admin_create_sq, nvme_admin_delete_cq, nvme_admin_create_cq} \<Longrightarrow> q_id c \<le> NR_MAX_IO_QUEUE"
    and "opcode c = nvme_admin_get_log_page \<Longrightarrow> log_lid c = NVME_LOG_SMART \<Longrightarrow> log_len c \<le> 512"
    and "opcode c = nvme_admin_get_log_page \<Longrightarrow> log_lid c = NVME_LOG_CMD_EFFECTS \<Longrightarrow> log_len c \<le> 4096"
    and "opcode c = nvme_admin_identify \<Longrightarrow> cdw10 c \<in> {0, 3, 5} \<Longrightarrow> sub32 (nsid c) 1 < length (vns v)"
    and "opcode c = nvme_admin_identify \<Longrightarrow> cdw10 c = 5 \<Longrightarrow> ni_csi (vns v ! sub32 (nsid c) 1) = NVME_CSI_ZNS"
    and "opcode c = nvme_admin_identify \<Longrightarrow> cdw10 c = 5 \<Longrightarrow> ni_zp (vns v ! sub32 (nsid c) 1) \<noteq> None"
  using assms unfolding admin_cmd_ok_def by blast+

text \<open>The commands that are answered at all, and the status of the answer.\<close>

definition answered :: "nvme_command \<Rightarrow> bool" where
  "answered c \<longleftrightarrow> opcode c \<in> {nvme_admin_delete_sq, nvme_admin_create_sq, nvme_admin_get_log_page, nvme_admin_delete_cq,
       nvme_admin_create_cq, nvme_admin_set_features, nvme_admin_async_event} \<or>
     opcode c = nvme_admin_identify \<and> cdw10 c \<in> {0, 1, 2, 3, 5, 6}"

definition answer :: "bool \<Rightarrow> nat \<Rightarrow> nvme_command \<Rightarrow> nvme_completion \<Rightarrow> nvme_completion \<Rightarrow> bool" where
  "answer phase eid c e e' \<longleftrightarrow>
     (if answered c then
        c_command_id e' = command_id c \<and> c_sq_id e' = 0 \<and> c_sq_head e' = eid mod 2 ^ 16 \<and> (odd (c_status e') \<longleftrightarrow> phase) \<and>
        c_status e' div 2 = (if opcode c = nvme_admin_async_event then NVME_SC_ASYNC_LIMIT else NVME_SC_SUCCESS)
      else e' = e)"

lemma post_cqe_Some:
  "rings v q cs es \<Longrightarrow> eid < length cs \<Longrightarrow> h < length es \<Longrightarrow>
   post_cqe eid h sc v = Some (v\<lparr> admin_q := Some (q\<lparr> nvme_cq := Some (es[h := fill_cqe (aq_phase q) eid (command_id (cs ! eid)) sc (es ! h)]) \<rparr>) \<rparr>)"
  by (simp add: post_cqe_def rings_def sq_entry_def on_cqe_def)

lemma on_cqe_Some:
  "rings v q cs es \<Longrightarrow> h < length es \<Longrightarrow> on_cqe h f v = Some (v\<lparr> admin_q := Some (q\<lparr> nvme_cq := Some (es[h := f (es ! h)]) \<rparr>) \<rparr>)"
  by (simp add: rings_def on_cqe_def)

lemma sq_entry_Some: "rings v q cs es \<Longrightarrow> eid < length cs \<Longrightarrow> sq_entry v eid = Some (cs ! eid)"
  by (simp add: rings_def sq_entry_def)

lemma rings_cong: "admin_q v' = admin_q v \<Longrightarrow> rings v' q cs es = rings v q cs es"
  by (simp add: rings_def)

text \<open>The result of a command: the ring of completions, of which at most entry \<open>h\<close> has changed.\<close>

definition outcome :: "nvmev_admin_queue \<Rightarrow> nvme_command list \<Rightarrow> nvme_completion list \<Rightarrow> nat \<Rightarrow> nat \<Rightarrow> 's controller \<Rightarrow> 's controller \<Rightarrow> bool" where
  "outcome q cs es h eid v v' \<longleftrightarrow> (\<exists>e. admin_q v' = Some (q\<lparr> nvme_cq := Some (es[h := e]) \<rparr>) \<and> answer (aq_phase q) eid (cs ! eid) (es ! h) e \<and>
     same_setup v v' \<and> arrays_ok v')"

lemma outcome_post:
  assumes "rings v q cs es" and "eid < length cs" and "h < length es" and "answered (cs ! eid)"
    and "sc = (if opcode (cs ! eid) = nvme_admin_async_event then NVME_SC_ASYNC_LIMIT else NVME_SC_SUCCESS)"
    and "admin_q v1 = Some (q\<lparr> nvme_cq := Some (es[h := f (es ! h)]) \<rparr>)" and "same_setup v v1" and "arrays_ok v1"
  shows "\<exists>v'. post_cqe eid h sc v1 = Some v' \<and> outcome q cs es h eid v v'"
proof -
  have r: "rings v1 (q\<lparr> nvme_cq := Some (es[h := f (es ! h)]) \<rparr>) cs (es[h := f (es ! h)])"
    using assms(1,6) by (simp add: rings_def)
  have "sc < 2 ^ 15" using assms(5) by (simp add: NVME_SC_ASYNC_LIMIT_def NVME_SC_SUCCESS_def)
  then have "answer (aq_phase q) eid (cs ! eid) (es ! h) (fill_cqe (aq_phase q) eid (command_id (cs ! eid)) sc (f (es ! h)))"
    using assms(4,5) by (simp add: answer_def fill_cqe_def)
  moreover have "same_setup v (v1\<lparr> admin_q := x \<rparr>)" "arrays_ok (v1\<lparr> admin_q := x \<rparr>)" for x
    using assms(7,8) by (simp_all add: same_setup_def arrays_ok_def)
  ultimately show ?thesis using post_cqe_Some [OF r assms(2), of h sc] assms(3) by (auto simp: outcome_def)
qed

lemma outcome_plain:
  assumes "rings v q cs es" and "eid < length cs" and "h < length es" and "answered (cs ! eid)"
    and "opcode (cs ! eid) \<noteq> nvme_admin_async_event"
    and "admin_q v1 = admin_q v" and "same_setup v v1" and "arrays_ok v1"
  shows "\<exists>v'. post_cqe eid h NVME_SC_SUCCESS v1 = Some v' \<and> outcome q cs es h eid v v'"
proof (rule outcome_post [where f = "\<lambda>e. e", OF assms(1-4)])
  have "q\<lparr> nvme_cq := Some es \<rparr> = q" using assms(1) by (simp add: rings_def)
  then show "admin_q v1 = Some (q\<lparr> nvme_cq := Some (es[h := es ! h]) \<rparr>)" using assms(1,6) by (simp add: rings_def)
qed (use assms in simp_all)

lemma setup_simps [simp]: "same_setup v v" "same_setup v (with_host f v)" "admin_q (with_host f v) = admin_q v"
  "arrays_ok (with_host f v) = arrays_ok v"
  by (simp_all add: same_setup_def with_host_def arrays_ok_def)

lemma reset_db_Some:
  "arrays_ok v \<Longrightarrow> i < NR_DBS \<Longrightarrow> reset_db i v = Some (v\<lparr> dbs := (dbs v)[i := 0], old_dbs := (old_dbs v)[i := 0] \<rparr>)"
  by (simp add: reset_db_def arrays_ok_def)

lemma queue_dbs: "n \<le> NR_MAX_IO_QUEUE \<Longrightarrow> n * 2 + 1 < NR_DBS" "n \<le> NR_MAX_IO_QUEUE \<Longrightarrow> n * 2 < NR_DBS"
  by (simp_all add: NR_MAX_IO_QUEUE_def NR_DBS_def PAGE_SIZE_def)

lemma create_cq_outcome:
  assumes "rings v q cs es" and "eid < length cs" and "h < length es" and "arrays_ok v"
    and c: "opcode (cs ! eid) = nvme_admin_create_cq" "q_id (cs ! eid) \<le> NR_MAX_IO_QUEUE"
  shows "\<exists>v'. admin_create_cq eid h v = Some v' \<and> outcome q cs es h eid v v'"
proof -
  define v1 where "v1 = v\<lparr> vdev := (vdev v)\<lparr> cqes := (cqes (vdev v))[q_id (cs ! eid) := Some (new_cq (dev_host (vdev v)) (cs ! eid))] \<rparr> \<rparr>"
  define v2 where "v2 = v1\<lparr> dbs := (dbs v1)[q_id (cs ! eid) * 2 + 1 := 0], old_dbs := (old_dbs v1)[q_id (cs ! eid) * 2 + 1 := 0] \<rparr>"
  have v1: "arrays_ok v1" using assms(4) by (simp add: arrays_ok_def v1_def)
  have "reset_db (q_id (cs ! eid) * 2 + 1) v1 = Some v2"
    using reset_db_Some [OF v1 queue_dbs(1) [OF c(2)]] by (simp add: v2_def)
  moreover have "q_id (cs ! eid) < length (cqes (vdev v))" using assms(4) c(2) by (simp add: arrays_ok_def)
  ultimately have "admin_create_cq eid h v = post_cqe eid h NVME_SC_SUCCESS v2"
    using sq_entry_Some [OF assms(1,2)] by (simp add: admin_create_cq_def v1_def)
  moreover have "arrays_ok v2" "same_setup v v2" "admin_q v2 = admin_q v"
    using v1 by (simp_all add: arrays_ok_def v2_def v1_def same_setup_def)
  ultimately show ?thesis using outcome_plain [OF assms(1-3), of v2] c(1) by (simp add: answered_def admin_opcodes)
qed

lemma create_sq_outcome:
  assumes "rings v q cs es" and "eid < length cs" and "h < length es" and "arrays_ok v"
    and c: "opcode (cs ! eid) = nvme_admin_create_sq" "q_id (cs ! eid) \<le> NR_MAX_IO_QUEUE"
  shows "\<exists>v'. admin_create_sq eid h v = Some v' \<and> outcome q cs es h eid v v'"
proof -
  define v1 where "v1 = v\<lparr> vdev := (vdev v)\<lparr> sqes := (sqes (vdev v))[q_id (cs ! eid) := Some (new_sq (dev_host (vdev v)) (cs ! eid))] \<rparr> \<rparr>"
  define v2 where "v2 = v1\<lparr> dbs := (dbs v1)[q_id (cs ! eid) * 2 := 0], old_dbs := (old_dbs v1)[q_id (cs ! eid) * 2 := 0] \<rparr>"
  have v1: "arrays_ok v1" using assms(4) by (simp add: arrays_ok_def v1_def)
  have "reset_db (q_id (cs ! eid) * 2) v1 = Some v2"
    using reset_db_Some [OF v1 queue_dbs(2) [OF c(2)]] by (simp add: v2_def)
  moreover have "q_id (cs ! eid) < length (sqes (vdev v))" using assms(4) c(2) by (simp add: arrays_ok_def)
  ultimately have "admin_create_sq eid h v = post_cqe eid h NVME_SC_SUCCESS v2"
    using sq_entry_Some [OF assms(1,2)] by (simp add: admin_create_sq_def v1_def)
  moreover have "arrays_ok v2" "same_setup v v2" "admin_q v2 = admin_q v"
    using v1 by (simp_all add: arrays_ok_def v2_def v1_def same_setup_def)
  ultimately show ?thesis using outcome_plain [OF assms(1-3), of v2] c(1) by (simp add: answered_def admin_opcodes)
qed

lemma delete_queue_outcome:
  assumes "rings v q cs es" and "eid < length cs" and "h < length es" and "arrays_ok v" and "q_id (cs ! eid) \<le> NR_MAX_IO_QUEUE"
  shows "opcode (cs ! eid) = nvme_admin_delete_cq \<Longrightarrow> \<exists>v'. admin_delete_cq eid h v = Some v' \<and> outcome q cs es h eid v v'"
    and "opcode (cs ! eid) = nvme_admin_delete_sq \<Longrightarrow> \<exists>v'. admin_delete_sq eid h v = Some v' \<and> outcome q cs es h eid v v'"
proof -
  have l: "q_id (cs ! eid) < length (cqes (vdev v))" "q_id (cs ! eid) < length (sqes (vdev v))"
    using assms(4,5) by (simp_all add: arrays_ok_def)
  let ?c = "v\<lparr> vdev := (vdev v)\<lparr> cqes := (cqes (vdev v))[q_id (cs ! eid) := None] \<rparr> \<rparr>"
  let ?s = "v\<lparr> vdev := (vdev v)\<lparr> sqes := (sqes (vdev v))[q_id (cs ! eid) := None] \<rparr> \<rparr>"
  have ok: "arrays_ok ?c" "arrays_ok ?s" "same_setup v ?c" "same_setup v ?s" using assms(4) by (simp_all add: arrays_ok_def same_setup_def)
  show "\<exists>v'. admin_delete_cq eid h v = Some v' \<and> outcome q cs es h eid v v'" if "opcode (cs ! eid) = nvme_admin_delete_cq"
    using outcome_plain [OF assms(1-3), of ?c] ok l sq_entry_Some [OF assms(1,2)] that
    by (simp add: admin_delete_cq_def answered_def admin_opcodes)
  show "\<exists>v'. admin_delete_sq eid h v = Some v' \<and> outcome q cs es h eid v v'" if "opcode (cs ! eid) = nvme_admin_delete_sq"
    using outcome_plain [OF assms(1-3), of ?s] ok l sq_entry_Some [OF assms(1,2)] that
    by (simp add: admin_delete_sq_def answered_def admin_opcodes)
qed

lemma identify_outcome:
  assumes "rings v q cs es" and "eid < length cs" and "h < length es" and "arrays_ok v"
    and c: "opcode (cs ! eid) = nvme_admin_identify" "admin_cmd_ok v (cs ! eid)"
  shows "\<exists>v'. admin_identify (cdw10 (cs ! eid)) eid h v = Some v' \<and> outcome q cs es h eid v v'"
proof -
  have post: "\<exists>v'. post_cqe eid h NVME_SC_SUCCESS (with_host f v) = Some v' \<and> outcome q cs es h eid v v'"
    if "cdw10 (cs ! eid) \<in> {0, 1, 2, 3, 5, 6}" for f
    using outcome_plain [OF assms(1-3), of "with_host f v"] assms(4) that c(1) by (simp add: answered_def admin_opcodes)
  have ns: "sub32 (nsid (cs ! eid)) 1 < length (vns v)" if "cdw10 (cs ! eid) \<in> {0, 3, 5}"
    using admin_cmd_okD(4) [OF c(2,1)] that by blast
  have zns: "ni_csi (vns v ! sub32 (nsid (cs ! eid)) 1) = NVME_CSI_ZNS" "ni_zp (vns v ! sub32 (nsid (cs ! eid)) 1) \<noteq> None"
    if "cdw10 (cs ! eid) = 5" using admin_cmd_okD(5,6) [OF c(2,1)] that by blast+
  note se = sq_entry_Some [OF assms(1,2)]
  consider "cdw10 (cs ! eid) = 0" | "cdw10 (cs ! eid) = 1" | "cdw10 (cs ! eid) = 2" | "cdw10 (cs ! eid) = 3"
    | "cdw10 (cs ! eid) = 5" | "cdw10 (cs ! eid) = 6" | "cdw10 (cs ! eid) \<notin> {0, 1, 2, 3, 5, 6}" by auto
  then show ?thesis
  proof cases
    case 1
    then show ?thesis using post ns se by (simp add: admin_identify_def admin_identify_namespace_def)
  next
    case 2
    then show ?thesis using post se by (simp add: admin_identify_def admin_identify_ctrl_def)
  next
    case 3
    then show ?thesis using post se by (simp add: admin_identify_def admin_identify_namespaces_def)
  next
    case 4
    then show ?thesis using post ns se by (simp add: admin_identify_def admin_identify_namespace_desc_def)
  next
    case 5
    then obtain z where z: "ni_zp (vns v ! sub32 (nsid (cs ! eid)) 1) = Some z" using zns by blast
    have "admin_identify (cdw10 (cs ! eid)) eid h v = post_cqe eid h NVME_SC_SUCCESS (with_host (id_zns_ns z (prp1 (cs ! eid))) v)"
      using 5 z zns(1) arr_get_in [OF ns] se by (simp add: admin_identify_def admin_identify_zns_namespace_def)
    then show ?thesis using post 5 by simp
  next
    case 6
    then show ?thesis using post se by (simp add: admin_identify_def admin_identify_zns_ctrl_def)
  next
    case 7
    then have "answer (aq_phase q) eid (cs ! eid) (es ! h) (es ! h)" using c(1) by (auto simp: answer_def answered_def admin_opcodes)
    moreover have "admin_q v = Some (q\<lparr> nvme_cq := Some (es[h := es ! h]) \<rparr>)" using assms(1) by (simp add: rings_def)
    ultimately have "outcome q cs es h eid v v" using assms(4) unfolding outcome_def by (intro exI [of _ "es ! h"]) simp
    then show ?thesis using 7 by (simp add: admin_identify_def)
  qed
qed

lemma log_outcome:
  assumes "rings v q cs es" and "eid < length cs" and "h < length es" and "arrays_ok v"
    and c: "opcode (cs ! eid) = nvme_admin_get_log_page" "admin_cmd_ok v (cs ! eid)"
  shows "\<exists>v'. admin_get_log_page eid h v = Some v' \<and> outcome q cs es h eid v v'"
proof -
  obtain m where "log_page (zns_supported v) (cs ! eid) (dev_host (vdev v)) = Some m"
    using admin_cmd_okD(2,3) [OF c(2,1)] by (cases "log_lid (cs ! eid) = NVME_LOG_SMART"; cases "log_lid (cs ! eid) = NVME_LOG_CMD_EFFECTS") (auto simp: log_page_def)
  then show ?thesis using outcome_plain [OF assms(1-3), of "with_host (\<lambda>_. m) v"] assms(4) c(1) sq_entry_Some [OF assms(1,2)]
    by (simp add: admin_get_log_page_def answered_def admin_opcodes)
qed

lemma features_outcome:
  assumes "rings v q cs es" and "eid < length cs" and "h < length es" and "arrays_ok v"
    and c: "opcode (cs ! eid) = nvme_admin_set_features"
  shows "\<exists>v'. admin_set_features eid h v = Some v' \<and> outcome q cs es h eid v v'"
proof (cases "cdw10 (cs ! eid) = NVME_FEAT_NUM_QUEUES")
  case True
  define v1 where "v1 = v\<lparr> nr_sq := min (cdw11 (cs ! eid) mod 2 ^ 16 + 1) NR_MAX_IO_QUEUE,
      nr_cq := min (cdw11 (cs ! eid) div 2 ^ 16 mod 2 ^ 16 + 1) NR_MAX_IO_QUEUE \<rparr>"
  define f where "f = (\<lambda>e::nvme_completion. e\<lparr> c_result0 := (nr_cq v1 - 1) * 2 ^ 16 + (nr_sq v1 - 1) \<rparr>)"
  define v2 where "v2 = v1\<lparr> admin_q := Some (q\<lparr> nvme_cq := Some (es[h := f (es ! h)]) \<rparr>) \<rparr>"
  have "rings v1 q cs es" using assms(1) by (simp add: rings_def v1_def)
  then have "on_cqe h f v1 = Some v2" using on_cqe_Some [of v1 q cs es h f] assms(3) by (simp add: v2_def)
  then have "admin_set_features eid h v = post_cqe eid h NVME_SC_SUCCESS v2"
    using sq_entry_Some [OF assms(1,2)] True by (simp add: admin_set_features_def v1_def f_def Let_def)
  moreover have "same_setup v v2" "arrays_ok v2" using assms(4) by (simp_all add: same_setup_def arrays_ok_def v2_def v1_def)
  ultimately show ?thesis using outcome_post [OF assms(1-3), of NVME_SC_SUCCESS v2 f] c by (simp add: answered_def admin_opcodes v2_def)
next
  case False
  then show ?thesis using outcome_plain [OF assms(1-3), of v] assms(4) c sq_entry_Some [OF assms(1,2)]
    by (simp add: admin_set_features_def answered_def admin_opcodes)
qed

lemma async_outcome:
  assumes "rings v q cs es" and "eid < length cs" and "h < length es" and "arrays_ok v"
    and c: "opcode (cs ! eid) = nvme_admin_async_event"
  shows "\<exists>v'. admin_async_event eid h v = Some v' \<and> outcome q cs es h eid v v'"
proof -
  define f where "f = (\<lambda>e::nvme_completion. e\<lparr> c_result0 := 0 \<rparr>)"
  define v2 where "v2 = v\<lparr> admin_q := Some (q\<lparr> nvme_cq := Some (es[h := f (es ! h)]) \<rparr>) \<rparr>"
  have "admin_async_event eid h v = post_cqe eid h NVME_SC_ASYNC_LIMIT v2"
    using on_cqe_Some [OF assms(1), of h f] assms(3) by (simp add: admin_async_event_def v2_def f_def)
  moreover have "same_setup v v2" "arrays_ok v2" using assms(4) by (simp_all add: same_setup_def arrays_ok_def v2_def)
  ultimately show ?thesis using outcome_post [OF assms(1-3), of NVME_SC_ASYNC_LIMIT v2 f] c by (simp add: answered_def admin_opcodes v2_def)
qed

lemma dispatch_outcome:
  assumes "rings v q cs es" and "eid < length cs" and "h < length es" and "arrays_ok v" and c: "admin_cmd_ok v (cs ! eid)"
  shows "\<exists>v'. admin_dispatch eid h v = Some v' \<and> outcome q cs es h eid v v'"
proof -
  note se = sq_entry_Some [OF assms(1,2)]
  note hyps = assms(1-4)
  have qid: "q_id (cs ! eid) \<le> NR_MAX_IO_QUEUE"
    if "opcode (cs ! eid) \<in> {nvme_admin_delete_sq, nvme_admin_create_sq, nvme_admin_delete_cq, nvme_admin_create_cq}"
    using admin_cmd_okD(1) [OF c that] .
  consider "opcode (cs ! eid) = nvme_admin_delete_sq" | "opcode (cs ! eid) = nvme_admin_create_sq"
    | "opcode (cs ! eid) = nvme_admin_get_log_page" | "opcode (cs ! eid) = nvme_admin_delete_cq"
    | "opcode (cs ! eid) = nvme_admin_create_cq" | "opcode (cs ! eid) = nvme_admin_identify"
    | "opcode (cs ! eid) = nvme_admin_set_features" | "opcode (cs ! eid) = nvme_admin_async_event"
    | "opcode (cs ! eid) \<notin> {0, 1, 2, 4, 5, 6, 9, 0xc}"
    by (auto simp: admin_opcodes)
  then show ?thesis
  proof cases
    case 1
    then show ?thesis using delete_queue_outcome(2) [OF hyps qid] se by (simp add: admin_dispatch_def)
  next
    case 2
    then show ?thesis using create_sq_outcome [OF hyps _ qid] se by (simp add: admin_dispatch_def admin_opcodes)
  next
    case 3
    then show ?thesis using log_outcome [OF hyps _ c] se by (simp add: admin_dispatch_def admin_opcodes)
  next
    case 4
    then show ?thesis using delete_queue_outcome(1) [OF hyps qid] se by (simp add: admin_dispatch_def admin_opcodes)
  next
    case 5
    then show ?thesis using create_cq_outcome [OF hyps _ qid] se by (simp add: admin_dispatch_def admin_opcodes)
  next
    case 6
    then show ?thesis using identify_outcome [OF hyps _ c] se by (simp add: admin_dispatch_def admin_opcodes)
  next
    case 7
    then show ?thesis using features_outcome [OF hyps] se by (simp add: admin_dispatch_def admin_opcodes)
  next
    case 8
    then show ?thesis using async_outcome [OF hyps] se by (simp add: admin_dispatch_def admin_opcodes)
  next
    case 9
    then have "answer (aq_phase q) eid (cs ! eid) (es ! h) (es ! h)" by (auto simp: answer_def answered_def admin_opcodes)
    moreover have "admin_q v = Some (q\<lparr> nvme_cq := Some (es[h := es ! h]) \<rparr>)" using assms(1) by (simp add: rings_def)
    ultimately have "outcome q cs es h eid v v" using assms(4) unfolding outcome_def by (intro exI [of _ "es ! h"]) simp
    then show ?thesis using 9 se by (simp add: admin_dispatch_def admin_opcodes)
  qed
qed

section \<open>A run over the submission queue\<close>

text \<open>The phase of the \<open>k\<close>-th completion to come, and the queue after \<open>n\<close> of them.\<close>

definition phase_at :: "nvmev_admin_queue \<Rightarrow> nat \<Rightarrow> bool" where
  "phase_at q k \<longleftrightarrow> (if even ((aq_cq_head q + k) div aq_cq_depth q) then aq_phase q else \<not> aq_phase q)"

definition slot_at :: "nvmev_admin_queue \<Rightarrow> nat \<Rightarrow> nat" where
  "slot_at q k = (aq_cq_head q + k) mod aq_cq_depth q"

definition advanced :: "nvmev_admin_queue \<Rightarrow> nat \<Rightarrow> nvmev_admin_queue" where
  "advanced q n = q\<lparr> aq_cq_head := slot_at q n, aq_phase := phase_at q n \<rparr>"

definition entry_at :: "nvmev_admin_queue \<Rightarrow> nat \<Rightarrow> nat \<Rightarrow> nat" where
  "entry_at q eid k = (eid + k) mod aq_sq_depth q"

lemma advance_aq_advanced:
  "h = aq_cq_head q \<Longrightarrow> h < aq_cq_depth q \<Longrightarrow> advance_aq h (q\<lparr> nvme_cq := x \<rparr>) = advanced (q\<lparr> nvme_cq := x \<rparr>) 1"
  by (cases "h + 1 = aq_cq_depth q") (simp_all add: advance_aq_def advanced_def phase_at_def slot_at_def)

lemma advanced_more:
  assumes "aq_cq_head q < aq_cq_depth q"
  shows "slot_at (advanced q 1) k = slot_at q (Suc k)" and "phase_at (advanced q 1) k = phase_at q (Suc k)"
    and "advanced (advanced q 1) n = advanced q (Suc n)"
proof -
  define h d where "h = aq_cq_head q" and "d = aq_cq_depth q"
  have d: "0 < d" using assms by (simp add: d_def)
  have m: "((h + 1) mod d + k) mod d = (h + Suc k) mod d" for k by (simp add: mod_add_left_eq)
  have e: "even ((h + Suc k) div d) \<longleftrightarrow> (even ((h + 1) div d) \<longleftrightarrow> even (((h + 1) mod d + k) div d))" for k
  proof -
    have "h + Suc k = (h + 1) div d * d + ((h + 1) mod d + k)" by (metis add.assoc add_Suc_shift div_mult_mod_eq plus_1_eq_Suc add.commute)
    then have "(h + Suc k) div d = (h + 1) div d + ((h + 1) mod d + k) div d" using d by (metis div_mult_self3 add.commute less_numeral_extra(3))
    then show ?thesis by simp
  qed
  show 1: "slot_at (advanced q 1) k = slot_at q (Suc k)" for k
    using m [of k] by (simp add: slot_at_def advanced_def h_def d_def)
  show 2: "phase_at (advanced q 1) k = phase_at q (Suc k)" for k
    using e [of k] by (auto simp: phase_at_def advanced_def slot_at_def h_def d_def)
  show "advanced (advanced q 1) n = advanced q (Suc n)"
    using 1 [of n] 2 [of n] by (simp add: advanced_def [of "advanced q 1"]) (simp add: advanced_def)
qed

lemma slot_at_other:
  assumes "aq_cq_head q < aq_cq_depth q" and "k < n" and "n \<le> aq_cq_depth q" and "0 < k"
  shows "slot_at q k \<noteq> slot_at q 0"
proof
  assume "slot_at q k = slot_at q 0"
  then have "(aq_cq_head q + k) mod aq_cq_depth q = aq_cq_head q mod aq_cq_depth q" by (simp add: slot_at_def)
  then have "k mod aq_cq_depth q = 0" by (metis mod_eq_dvd_iff_nat le_add1 add_diff_cancel_left' dvd_imp_mod_0)
  then show False using assms by simp
qed

lemma same_setup_trans: "same_setup u v \<Longrightarrow> same_setup v w \<Longrightarrow> same_setup u w"
  by (simp add: same_setup_def)

lemma admin_cmd_ok_setup: "same_setup v v' \<Longrightarrow> admin_cmd_ok v' c = admin_cmd_ok v c"
  by (simp add: same_setup_def admin_cmd_ok_def)

lemma proc_admin_req_effect:
  assumes "rings v q cs es" and "eid < length cs" and "aq_cq_head q < aq_cq_depth q" and "aq_cq_depth q \<le> length es"
    and "arrays_ok v" and "admin_cmd_ok v (cs ! eid)"
  shows "\<exists>v' e. proc_admin_req eid v = Some v' \<and> rings v' (advanced (q\<lparr> nvme_cq := Some (es[slot_at q 0 := e]) \<rparr>) 1) cs (es[slot_at q 0 := e]) \<and>
    answer (phase_at q 0) eid (cs ! eid) (es ! slot_at q 0) e \<and> same_setup v v' \<and> arrays_ok v'"
proof -
  have h: "aq_cq_head q < length es" "slot_at q 0 = aq_cq_head q" "phase_at q 0 = aq_phase q"
    using assms(3,4) by (simp_all add: slot_at_def phase_at_def)
  obtain v1 e where v1: "admin_dispatch eid (aq_cq_head q) v = Some v1" "admin_q v1 = Some (q\<lparr> nvme_cq := Some (es[aq_cq_head q := e]) \<rparr>)"
    "answer (aq_phase q) eid (cs ! eid) (es ! aq_cq_head q) e" "same_setup v v1" "arrays_ok v1"
    using dispatch_outcome [OF assms(1,2) h(1) assms(5,6)] by (auto simp: outcome_def)
  define q1 where "q1 = q\<lparr> nvme_cq := Some (es[aq_cq_head q := e]) \<rparr>"
  define v2 where "v2 = v1\<lparr> admin_q := Some (advanced q1 1) \<rparr>"
  have "advance_aq (aq_cq_head q) q1 = advanced q1 1" unfolding q1_def by (rule advance_aq_advanced) (use assms(3) in simp_all)
  then have "proc_admin_req eid v = Some v2" using assms(1) v1(1,2) by (simp add: proc_admin_req_def rings_def v2_def q1_def)
  moreover have "rings v2 (advanced q1 1) cs (es[aq_cq_head q := e])"
    using assms(1) by (simp add: rings_def v2_def q1_def advanced_def)
  moreover have "same_setup v v2" "arrays_ok v2" using v1(4,5) by (simp_all add: v2_def same_setup_def arrays_ok_def)
  ultimately show ?thesis using v1(3) unfolding h(2,3) q1_def by blast
qed

lemma advanced_fields [simp]: "aq_cq_depth (advanced q n) = aq_cq_depth q" "aq_sq_depth (advanced q n) = aq_sq_depth q"
  "(advanced q n)\<lparr> nvme_cq := x \<rparr> = advanced (q\<lparr> nvme_cq := x \<rparr>) n"
  "slot_at (q\<lparr> nvme_cq := x \<rparr>) k = slot_at q k" "phase_at (q\<lparr> nvme_cq := x \<rparr>) k = phase_at q k"
  "entry_at (q\<lparr> nvme_cq := x \<rparr>) i k = entry_at q i k" "entry_at (advanced q n) i k = entry_at q i k"
  by (simp_all add: advanced_def slot_at_def phase_at_def entry_at_def)

lemma entry_at_next:
  "eid < aq_sq_depth q \<Longrightarrow> (if eid + 1 = aq_sq_depth q then 0 else eid + 1) = entry_at q eid 1"
  "entry_at q (entry_at q eid 1) k = entry_at q eid (Suc k)"
  by (simp_all add: entry_at_def mod_simps)

lemma proc_admin_entries_effect:
  assumes "rings v q cs es" and "aq_sq_depth q \<le> length cs" and "eid < aq_sq_depth q" and "aq_cq_head q < aq_cq_depth q"
    and "aq_cq_depth q \<le> length es" and "arrays_ok v" and "n \<le> aq_cq_depth q"
    and "\<And>k. k < n \<Longrightarrow> admin_cmd_ok v (cs ! entry_at q eid k)"
  shows "\<exists>v' es'. proc_admin_entries (aq_sq_depth q) eid n v = Some v' \<and> rings v' (advanced (q\<lparr> nvme_cq := Some es' \<rparr>) n) cs es' \<and>
    length es' = length es \<and>
    (\<forall>k<n. answer (phase_at q k) (entry_at q eid k) (cs ! entry_at q eid k) (es ! slot_at q k) (es' ! slot_at q k)) \<and>
    (\<forall>j. (\<forall>k<n. j \<noteq> slot_at q k) \<longrightarrow> es' ! j = es ! j) \<and> same_setup v v' \<and> arrays_ok v'"
  using assms
proof (induction n arbitrary: v q es eid)
  case 0
  have "q\<lparr> nvme_cq := Some es \<rparr> = q" "advanced q 0 = q" using 0(1,4) by (simp_all add: rings_def advanced_def slot_at_def phase_at_def)
  then show ?case using 0 by (intro exI [of _ v] exI [of _ es]) simp
next
  case (Suc n)
  note q = Suc.prems(1-7)
  have eid: "entry_at q eid 0 = eid" using q(3) by (simp add: entry_at_def)
  then obtain v1 e where v1: "proc_admin_req eid v = Some v1" "same_setup v v1" "arrays_ok v1"
      "rings v1 (advanced (q\<lparr> nvme_cq := Some (es[slot_at q 0 := e]) \<rparr>) 1) cs (es[slot_at q 0 := e])"
    and ans: "answer (phase_at q 0) eid (cs ! eid) (es ! slot_at q 0) e"
    using proc_admin_req_effect [OF q(1), of eid] q(2-6) Suc.prems(8) [of 0] by auto
  define es1 q1 where "es1 = es[slot_at q 0 := e]" and "q1 = advanced (q\<lparr> nvme_cq := Some es1 \<rparr>) 1"
  have head1: "aq_cq_head (q\<lparr> nvme_cq := Some es1 \<rparr>) < aq_cq_depth (q\<lparr> nvme_cq := Some es1 \<rparr>)" using q(4) by simp
  have shift: "slot_at q1 k = slot_at q (Suc k)" "phase_at q1 k = phase_at q (Suc k)" for k
    using advanced_more(1,2) [OF head1, of k] by (simp_all add: q1_def)
  have depths: "aq_sq_depth q1 = aq_sq_depth q" "aq_cq_depth q1 = aq_cq_depth q" by (simp_all add: q1_def)
  have next': "entry_at q1 (entry_at q eid 1) k = entry_at q eid (Suc k)" for k using entry_at_next(2) by (simp add: q1_def)
  have "entry_at q eid 1 < aq_sq_depth q1" "aq_cq_head q1 < aq_cq_depth q1"
    using q(3,4) by (simp_all add: q1_def entry_at_def advanced_def slot_at_def)
  moreover have "admin_cmd_ok v1 (cs ! entry_at q1 (entry_at q eid 1) k)" if "k < n" for k
    using Suc.prems(8) [of "Suc k"] that admin_cmd_ok_setup [OF v1(2)] unfolding next' by simp
  ultimately obtain v' es' where run: "proc_admin_entries (aq_sq_depth q) (entry_at q eid 1) n v1 = Some v'"
      "rings v' (advanced (q1\<lparr> nvme_cq := Some es' \<rparr>) n) cs es'" "length es' = length es1"
    and got: "\<And>k. k < n \<Longrightarrow> answer (phase_at q (Suc k)) (entry_at q eid (Suc k)) (cs ! entry_at q eid (Suc k)) (es1 ! slot_at q (Suc k)) (es' ! slot_at q (Suc k))"
    and kept: "\<And>j. (\<forall>k<n. j \<noteq> slot_at q (Suc k)) \<Longrightarrow> es' ! j = es1 ! j" and frame: "same_setup v1 v'" "arrays_ok v'"
    using Suc.IH [of v1 q1 es1 "entry_at q eid 1"] v1(3,4) q(2,5,7) unfolding depths next' shift es1_def [symmetric] q1_def [symmetric]
    by (auto simp: es1_def)
  have other: "slot_at q (Suc k) \<noteq> slot_at q 0" if "k < n" for k
    using slot_at_other [OF q(4), of "Suc k" "Suc n"] that q(7) by simp
  have "slot_at q 0 < length es" using q(4,5) by (simp add: slot_at_def)
  then have first: "es' ! slot_at q 0 = e" using kept [of "slot_at q 0"] other by (metis es1_def nth_list_update_eq)
  have "answer (phase_at q k) (entry_at q eid k) (cs ! entry_at q eid k) (es ! slot_at q k) (es' ! slot_at q k)" if "k < Suc n" for k
  proof (cases k)
    case 0
    then show ?thesis using ans first eid by simp
  next
    case (Suc i)
    then show ?thesis using got [of i] other [of i] that by (simp add: es1_def nth_list_update_neq not_sym)
  qed
  moreover have "es' ! j = es ! j" if "\<forall>k<Suc n. j \<noteq> slot_at q k" for j
    using kept [of j] that by (auto simp: es1_def)
  moreover have "advanced (q1\<lparr> nvme_cq := Some es' \<rparr>) n = advanced (q\<lparr> nvme_cq := Some es' \<rparr>) (Suc n)"
    using advanced_more(3) [of "q\<lparr> nvme_cq := Some es' \<rparr>" n] q(4) by (simp add: q1_def)
  moreover have "proc_admin_entries (aq_sq_depth q) eid (Suc n) v = Some v'"
    using v1(1) run(1) entry_at_next(1) [OF q(3)] by simp
  ultimately show ?case using run(2,3) frame same_setup_trans [OF v1(2) frame(1)]
    by (intro exI [of _ v'] exI [of _ es']) (simp add: es1_def)
qed

section \<open>The identify data\<close>

lemma put_lbaf_load:
  "b + k \<le> lbaf_at a i \<or> lbaf_at a i + 4 \<le> b \<Longrightarrow> load k (put_lbaf a (i, ms, ds, rp) m) b = load k m b"
  "load 2 (put_lbaf a (i, ms, ds, rp) m) (lbaf_at a i) = ms mod 2 ^ 16"
  "load 1 (put_lbaf a (i, ms, ds, rp) m) (lbaf_at a i + 2) = ds mod 2 ^ 8"
  "load 1 (put_lbaf a (i, ms, ds, rp) m) (lbaf_at a i + 3) = rp mod 2 ^ 8"
proof -
  show "b + k \<le> lbaf_at a i \<or> lbaf_at a i + 4 \<le> b \<Longrightarrow> load k (put_lbaf a (i, ms, ds, rp) m) b = load k m b"
    unfolding put_lbaf_def by (elim disjE) simp_all
  show "load 2 (put_lbaf a (i, ms, ds, rp) m) (lbaf_at a i) = ms mod 2 ^ 16"
    using load_store [of 2 "lbaf_at a i" ms m] by (simp add: put_lbaf_def)
  show "load 1 (put_lbaf a (i, ms, ds, rp) m) (lbaf_at a i + 2) = ds mod 2 ^ 8"
    using load_store [of 1 "lbaf_at a i + 2" ds "store 2 (lbaf_at a i) ms m"] unfolding put_lbaf_def
    by simp
  show "load 1 (put_lbaf a (i, ms, ds, rp) m) (lbaf_at a i + 3) = rp mod 2 ^ 8"
    using load_store [of 1 "lbaf_at a i + 3" rp] unfolding put_lbaf_def by (simp)
qed

text \<open>A table of formats with increasing indices: each entry reads back, and the rest of memory is as before.\<close>

lemma put_lbafs_other:
  "(\<And>i ms ds rp. (i, ms, ds, rp) \<in> set fs \<Longrightarrow> b + k \<le> lbaf_at a i \<or> lbaf_at a i + 4 \<le> b) \<Longrightarrow>
   load k (fold (put_lbaf a) fs m) b = load k m b"
proof (induction fs arbitrary: m)
  case (Cons f fs)
  obtain i ms ds rp where f: "f = (i, ms, ds, rp)" by (cases f)
  have "load k (fold (put_lbaf a) fs (put_lbaf a f m)) b = load k (put_lbaf a f m) b"
    by (rule Cons.IH) (erule Cons.prems [OF list.set_intros(2)])
  also have "\<dots> = load k m b" unfolding f by (rule put_lbaf_load(1)) (use Cons.prems f in auto)
  finally show ?case by simp
qed simp

lemma put_lbafs_load:
  assumes "sorted_wrt (<) (map fst fs)" and "(i, ms, ds, rp) \<in> set fs"
  shows "load 2 (fold (put_lbaf a) fs m) (lbaf_at a i) = ms mod 2 ^ 16 \<and> load 1 (fold (put_lbaf a) fs m) (lbaf_at a i + 2) = ds mod 2 ^ 8 \<and>
    load 1 (fold (put_lbaf a) fs m) (lbaf_at a i + 3) = rp mod 2 ^ 8"
  using assms
proof (induction fs arbitrary: m)
  case (Cons f fs)
  show ?case
  proof (cases "(i, ms, ds, rp) \<in> set fs")
    case True
    then show ?thesis using Cons.IH Cons.prems(1) by simp
  next
    case False
    then have f: "f = (i, ms, ds, rp)" using Cons.prems(2) by simp
    have "i < j" if "(j, x, y, z) \<in> set fs" for j x y z using Cons.prems(1) that f by force
    then have later: "lbaf_at a i + 4 \<le> lbaf_at a j" if "(j, x, y, z) \<in> set fs" for j x y z using that by (fastforce simp: lbaf_at_def)
    have "load 2 (fold (put_lbaf a) fs m') (lbaf_at a i) = load 2 m' (lbaf_at a i)"
      "load 1 (fold (put_lbaf a) fs m') (lbaf_at a i + 2) = load 1 m' (lbaf_at a i + 2)"
      "load 1 (fold (put_lbaf a) fs m') (lbaf_at a i + 3) = load 1 m' (lbaf_at a i + 3)" for m'
      by (rule put_lbafs_other, use later in fastforce)+
    then show ?thesis using put_lbaf_load(2-4) [of a i ms ds rp m] f by simp
  qed
qed simp

lemma lba_formats_sorted: "sorted_wrt (<) (map fst lba_formats)"
  by (simp add: lba_formats_def)

lemma lba_formats_index: "(i, ms, ds, rp) \<in> set lba_formats \<Longrightarrow> i < 7"
  by (auto simp: lba_formats_def)

lemma id_ns_fields:
  assumes "size' < 2 ^ 64"
  shows "load 8 (id_ns size' a m) a = size' div 512" and "load 8 (id_ns size' a m) (a + 8) = size' div 512"
    and "load 8 (id_ns size' a m) (a + 16) = size' div 512" and "load 1 (id_ns size' a m) (a + 25) = 6"
    and "load 1 (id_ns size' a m) (a + 26) = 0"
    and "(i, ms, ds, rp) \<in> set lba_formats \<Longrightarrow> load 2 (id_ns size' a m) (lbaf_at a i) = ms \<and>
      load 1 (id_ns size' a m) (lbaf_at a i + 2) = ds \<and> load 1 (id_ns size' a m) (lbaf_at a i + 3) = rp"
proof -
  define m1 where "m1 = fold (put_lbaf a) lba_formats (memset a 0 PAGE_SIZE m)"
  have f0: "load 1 m1 (a + 26) = load 1 (memset a 0 PAGE_SIZE m) (a + 26)"
    unfolding m1_def by (rule put_lbafs_other) (auto simp: lbaf_at_def)
  then have flbas: "load 1 m1 (a + 26) = 0" by (simp add: PAGE_SIZE_def)
  have "(0, 0, 9, NVME_LBAF_RP_GOOD) \<in> set lba_formats" by (simp add: lba_formats_def)
  then have ds: "load 1 m1 (lbaf_at a 0 + 2) = 9" using put_lbafs_load [OF lba_formats_sorted] unfolding m1_def by fastforce
  define n where "n = size' div 512"
  have n: "n mod 18446744073709551616 = n" using assms by (simp add: n_def)
  have id: "id_ns size' a m = store 1 (a + 29) 0 (store 1 (a + 26) 0 (store 1 (a + 25) 6 (store 8 (a + 16) n (store 8 (a + 8) n (store 8 a n m1)))))"
    using flbas ds n unfolding id_ns_def m1_def [symmetric] Let_def n_def
    by (simp add: n_def [symmetric])
  show "load 8 (id_ns size' a m) a = size' div 512" "load 8 (id_ns size' a m) (a + 8) = size' div 512"
    "load 8 (id_ns size' a m) (a + 16) = size' div 512" "load 1 (id_ns size' a m) (a + 25) = 6" "load 1 (id_ns size' a m) (a + 26) = 0"
    unfolding id n_def [symmetric] by (simp_all add: n)
  assume e: "(i, ms, ds, rp) \<in> set lba_formats"
  have keep: "load k (id_ns size' a m) b = load k m1 b" if "a + 30 \<le> b" for k b
    unfolding id using that by (simp)
  have "ms < 2 ^ 16 \<and> ds < 2 ^ 8 \<and> rp < 2 ^ 8" using e by (auto simp: lba_formats_def NVME_LBAF_RP_BEST_def NVME_LBAF_RP_GOOD_def)
  moreover have "a + 30 \<le> lbaf_at a i" by (simp add: lbaf_at_def)
  ultimately show "load 2 (id_ns size' a m) (lbaf_at a i) = ms \<and> load 1 (id_ns size' a m) (lbaf_at a i + 2) = ds \<and>
      load 1 (id_ns size' a m) (lbaf_at a i + 3) = rp"
    using put_lbafs_load [OF lba_formats_sorted e, of a "memset a 0 PAGE_SIZE m"] unfolding m1_def [symmetric]
    by (simp add: keep)
qed

text \<open>The zoned namespace; the sizes of the random write area are the byte counts of the parameters, cut to 16 bits.\<close>

lemma id_zns_ns_fields:
  shows "load 4 (id_zns_ns z a m) (a + 4) = sub32 (nr_active_zones z) 1 mod 2 ^ 32"
    and "load 4 (id_zns_ns z a m) (a + 8) = sub32 (nr_open_zones z) 1 mod 2 ^ 32"
    and "load 8 (id_zns_ns z a m) (a + 2816) = zone_size z div 512 mod 2 ^ 64"
    and "load 2 (id_zns_ns z a m) (a + 2) = (if 0 < nr_zrwa_zones z then 2 else 0)"
    and "0 < nr_zrwa_zones z \<Longrightarrow> load 4 (id_zns_ns z a m) (a + 44) = sub32 (nr_zrwa_zones z) 1 mod 2 ^ 32"
    and "0 < nr_zrwa_zones z \<Longrightarrow> load 2 (id_zns_ns z a m) (a + 48) = zrwafg_size z mod 2 ^ 16"
    and "0 < nr_zrwa_zones z \<Longrightarrow> load 2 (id_zns_ns z a m) (a + 50) = zrwa_size z mod 2 ^ 16"
  by (cases "0 < nr_zrwa_zones z", simp_all add: id_zns_ns_def Let_def OZCS_ZRWA_def BYTE_TO_LBA_def)

section \<open>What a command does to the device\<close>

lemma post_cqe_frame:
  assumes "post_cqe eid h sc v = Some v'"
  shows "vdev v' = vdev v" and "dbs v' = dbs v" and "old_dbs v' = old_dbs v" and "nr_sq v' = nr_sq v" and "nr_cq v' = nr_cq v"
  using assms by (auto simp: post_cqe_def on_cqe_def fault_simps)

lemma post_cqe_frameD:
  "post_cqe eid h sc v = Some v' \<Longrightarrow>
   vdev v' = vdev v \<and> dbs v' = dbs v \<and> old_dbs v' = old_dbs v \<and> nr_sq v' = nr_sq v \<and> nr_cq v' = nr_cq v"
  by (simp add: post_cqe_frame)

lemma proc_admin_req_dispatch:
  assumes "proc_admin_req eid v = Some v'" and "rings v q cs es" and "eid < length cs"
  obtains v1 where "admin_dispatch eid (aq_cq_head q) v = Some v1" and "vdev v' = vdev v1" and "dbs v' = dbs v1"
    and "old_dbs v' = old_dbs v1" and "nr_sq v' = nr_sq v1" and "nr_cq v' = nr_cq v1" and "sq_entry v eid = Some (cs ! eid)"
  using assms sq_entry_Some [OF assms(2,3)] by (auto simp: proc_admin_req_def rings_def fault_simps)

lemma on_cqe_frameD:
  "on_cqe h f v = Some v' \<Longrightarrow>
   vdev v' = vdev v \<and> dbs v' = dbs v \<and> old_dbs v' = old_dbs v \<and> nr_sq v' = nr_sq v \<and> nr_cq v' = nr_cq v"
  by (auto simp: on_cqe_def fault_simps)

text \<open>The number of queues granted, and what the completion says of it.\<close>

lemma features_frame:
  assumes "admin_set_features eid h v = Some v'" and "sq_entry v eid = Some c"
  shows "vdev v' = vdev v" and "dbs v' = dbs v" and "old_dbs v' = old_dbs v"
    and "nr_sq v' = (if cdw10 c = NVME_FEAT_NUM_QUEUES then min (cdw11 c mod 2 ^ 16 + 1) NR_MAX_IO_QUEUE else nr_sq v)"
    and "nr_cq v' = (if cdw10 c = NVME_FEAT_NUM_QUEUES then min (cdw11 c div 2 ^ 16 mod 2 ^ 16 + 1) NR_MAX_IO_QUEUE else nr_cq v)"
proof -
  define vq where "vq = v\<lparr> nr_sq := min (cdw11 c mod 2 ^ 16 + 1) NR_MAX_IO_QUEUE, nr_cq := min (cdw11 c div 2 ^ 16 mod 2 ^ 16 + 1) NR_MAX_IO_QUEUE \<rparr>"
  define f where "f = (\<lambda>e::nvme_completion. e\<lparr> c_result0 := (nr_cq vq - 1) * 2 ^ 16 + (nr_sq vq - 1) \<rparr>)"
  have eq: "admin_set_features eid h v = Option.bind (if cdw10 c = NVME_FEAT_NUM_QUEUES then on_cqe h f vq else Some v) (post_cqe eid h NVME_SC_SUCCESS)"
    using assms(2) by (simp add: admin_set_features_def vq_def f_def Let_def)
  obtain v1 where v1: "(if cdw10 c = NVME_FEAT_NUM_QUEUES then on_cqe h f vq else Some v) = Some v1"
    and post: "post_cqe eid h NVME_SC_SUCCESS v1 = Some v'"
    using assms(1) unfolding eq Option.bind_eq_Some_conv by blast
  note fr = post_cqe_frame [OF post]
  have "vdev v1 = vdev v \<and> dbs v1 = dbs v \<and> old_dbs v1 = old_dbs v \<and>
    nr_sq v1 = (if cdw10 c = NVME_FEAT_NUM_QUEUES then nr_sq vq else nr_sq v) \<and> nr_cq v1 = (if cdw10 c = NVME_FEAT_NUM_QUEUES then nr_cq vq else nr_cq v)"
  proof (cases "cdw10 c = NVME_FEAT_NUM_QUEUES")
    case True
    then have "on_cqe h f vq = Some v1" using v1 by simp
    from on_cqe_frameD [OF this] show ?thesis using True by (simp add: vq_def)
  next
    case False
    then have "v1 = v" using v1 by simp
    then show ?thesis using False by simp
  qed
  then show "vdev v' = vdev v" "dbs v' = dbs v" "old_dbs v' = old_dbs v"
    "nr_sq v' = (if cdw10 c = NVME_FEAT_NUM_QUEUES then min (cdw11 c mod 2 ^ 16 + 1) NR_MAX_IO_QUEUE else nr_sq v)"
    "nr_cq v' = (if cdw10 c = NVME_FEAT_NUM_QUEUES then min (cdw11 c div 2 ^ 16 mod 2 ^ 16 + 1) NR_MAX_IO_QUEUE else nr_cq v)"
    unfolding fr by (auto simp: vq_def)
qed

text \<open>The queues and doorbells after a queue command.\<close>

type_synonym queues = "submission_queue option list \<times> completion_queue option list \<times> nat list \<times> nat list"

definition queues_of :: "'s controller \<Rightarrow> queues" where
  "queues_of v = (sqes (vdev v), cqes (vdev v), dbs v, old_dbs v)"

definition queues_after :: "nvme_command \<Rightarrow> bytes \<Rightarrow> queues \<Rightarrow> queues" where
  "queues_after c host qs = (case qs of (sqs, cqs, db, odb) \<Rightarrow>
     if opcode c = nvme_admin_create_cq then (sqs, cqs[q_id c := Some (new_cq host c)], db[2 * q_id c + 1 := 0], odb[2 * q_id c + 1 := 0])
     else if opcode c = nvme_admin_create_sq then (sqs[q_id c := Some (new_sq host c)], cqs, db[2 * q_id c := 0], odb[2 * q_id c := 0])
     else if opcode c = nvme_admin_delete_cq then (sqs, cqs[q_id c := None], db, odb)
     else if opcode c = nvme_admin_delete_sq then (sqs[q_id c := None], cqs, db, odb)
     else qs)"

lemma dispatch_queues:
  assumes "admin_dispatch eid h v = Some v1" and "sq_entry v eid = Some c"
  shows "queues_of v1 = queues_after c (dev_host (vdev v)) (queues_of v)"
proof -
  have create: "queues_of v1 = queues_after c (dev_host (vdev v)) (queues_of v)"
    if "opcode c \<in> {nvme_admin_delete_sq, nvme_admin_create_sq, nvme_admin_delete_cq, nvme_admin_create_cq}"
    using that assms unfolding admin_dispatch_def
    by (auto simp: admin_opcodes admin_create_cq_def admin_delete_cq_def admin_create_sq_def admin_delete_sq_def reset_db_def fault_simps
        queues_of_def queues_after_def mult.commute dest!: post_cqe_frameD)
  show ?thesis
  proof (cases "opcode c \<in> {nvme_admin_delete_sq, nvme_admin_create_sq, nvme_admin_delete_cq, nvme_admin_create_cq}")
    case False
    have host: "queues_of w = queues_of v" if "post_cqe eid h sc (with_host f v) = Some w" for w sc f
      using post_cqe_frame [OF that] by (simp add: queues_of_def with_host_def)
    have feat: "queues_of w = queues_of v" if "admin_set_features eid h v = Some w" for w
      using features_frame [OF that assms(2)] by (simp add: queues_of_def)
    have "queues_of w = queues_of v" if asy: "admin_async_event eid h v = Some w" for w
    proof -
      obtain w1 where "on_cqe h (\<lambda>e. e\<lparr> c_result0 := 0 \<rparr>) v = Some w1" "post_cqe eid h NVME_SC_ASYNC_LIMIT w1 = Some w"
        using asy by (auto simp: admin_async_event_def fault_simps)
      from on_cqe_frameD [OF this(1)] post_cqe_frameD [OF this(2)] show ?thesis by (simp add: queues_of_def)
    qed
    moreover have "queues_of w = queues_of v" if "admin_identify cns eid h v = Some w" for w cns
      using that host assms(2) unfolding admin_identify_def
      by (auto simp: fault_simps admin_identify_namespace_def admin_identify_ctrl_def admin_identify_namespaces_def
          admin_identify_namespace_desc_def admin_identify_zns_namespace_def admin_identify_zns_ctrl_def split: if_splits)
    moreover have "queues_of w = queues_of v" if "admin_get_log_page eid h v = Some w" for w
      using that host assms(2) by (auto simp: admin_get_log_page_def fault_simps)
    ultimately have "queues_of v1 = queues_of v" using False feat assms unfolding admin_dispatch_def by (auto split: if_splits)
    moreover have "queues_after c m qs = qs" for m qs using False by (simp add: queues_after_def split: prod.splits)
    ultimately show ?thesis by simp
  qed (rule create)
qed

text \<open>The pages that the identify commands of a namespace write.\<close>

lemma put_lbafs_outside: "(\<forall>f \<in> set fs. fst f < 16) \<Longrightarrow> x < a \<or> a + 4096 \<le> x \<Longrightarrow> fold (put_lbaf a) fs m x = m x"
proof (induction fs arbitrary: m)
  case (Cons f fs)
  obtain i ms ds rp where f: "f = (i, ms, ds, rp)" by (cases f)
  then have "i < 16" using Cons.prems(1) by simp
  then have "put_lbaf a f m x = m x" using Cons.prems(2) by (auto simp: f put_lbaf_def lbaf_at_def store_def)
  then show ?case using Cons by simp
qed simp

lemma store_outside:
  assumes "x < a \<or> a + 4096 \<le> x"
  shows "j + k \<le> 4096 \<Longrightarrow> store k (a + j) w m x = m x" and "k \<le> 4096 \<Longrightarrow> store k a w m x = m x"
    and "memset a w8 4096 m x = m x"
  using assms by (auto simp: store_def memset_def)

lemma id_ns_other:
  assumes x: "x < a \<or> a + 4096 \<le> x"
  shows "id_ns size' a m x = m x"
proof -
  have "fold (put_lbaf a) lba_formats (memset a 0 PAGE_SIZE m) x = m x"
    using put_lbafs_outside [of lba_formats x a] lba_formats_index x by (fastforce simp: memset_def PAGE_SIZE_def)
  then show ?thesis by (simp add: id_ns_def Let_def store_outside [OF x])
qed

lemma id_zns_ns_other:
  assumes x: "x < a \<or> a + 4096 \<le> x"
  shows "id_zns_ns z a m x = m x"
  by (cases "0 < nr_zrwa_zones z") (simp_all add: id_zns_ns_def Let_def store_outside [OF x] store_outside(1) [OF x, of 2, simplified])

lemma identify_host:
  assumes "proc_admin_req eid v = Some v'" and "rings v q cs es" and "eid < length cs"
    and "opcode (cs ! eid) = nvme_admin_identify" and "ns = vns v ! sub32 (nsid (cs ! eid)) 1"
  shows "cdw10 (cs ! eid) = 0 \<Longrightarrow> dev_host (vdev v') = id_ns (ni_size ns) (prp1 (cs ! eid)) (dev_host (vdev v))"
    and "cdw10 (cs ! eid) = 5 \<Longrightarrow> ni_zp ns = Some z \<Longrightarrow> dev_host (vdev v') = id_zns_ns z (prp1 (cs ! eid)) (dev_host (vdev v))"
proof -
  obtain v1 where v1: "admin_dispatch eid (aq_cq_head q) v = Some v1" "vdev v' = vdev v1" "sq_entry v eid = Some (cs ! eid)"
    using proc_admin_req_dispatch [OF assms(1-3)] by metis
  then have id: "admin_identify (cdw10 (cs ! eid)) eid (aq_cq_head q) v = Some v1"
    using assms(4) by (simp add: admin_dispatch_def admin_opcodes)
  have host: "dev_host (vdev v1) = f (dev_host (vdev v))" if "post_cqe eid (aq_cq_head q) sc (with_host f v) = Some v1" for f sc
    using post_cqe_frame(1) [OF that] by (simp add: with_host_def)
  show "dev_host (vdev v') = id_ns (ni_size ns) (prp1 (cs ! eid)) (dev_host (vdev v))" if "cdw10 (cs ! eid) = 0"
    using id that host v1 assms(5) by (auto simp: admin_identify_def admin_identify_namespace_def fault_simps)
  show "dev_host (vdev v') = id_zns_ns z (prp1 (cs ! eid)) (dev_host (vdev v))" if "cdw10 (cs ! eid) = 5" "ni_zp ns = Some z"
    using id that host v1 assms(5) by (auto simp: admin_identify_def admin_identify_zns_namespace_def fault_simps)
qed

section \<open>Properties\<close>

text \<open>A controller with an admin queue of two entries, about to wrap, for the examples.\<close>

definition admin_cmd :: "nat \<Rightarrow> nat \<Rightarrow> nat \<Rightarrow> nat \<Rightarrow> nvme_command" where
  "admin_cmd op cid d10 d11 = \<lparr> opcode = op, command_id = cid, nsid = 1, prp1 = 8192, prp2 = 0, cdw10 = d10, cdw11 = d11, cdw12 = 0, cdw13 = 0 \<rparr>"

definition zero_cqe :: nvme_completion where
  "zero_cqe = \<lparr> c_result0 = 0, c_result1 = 0, c_sq_head = 0, c_sq_id = 0, c_command_id = 0, c_status = 0 \<rparr>"

definition tiny_aq :: "nvme_command list \<Rightarrow> nvmev_admin_queue" where
  "tiny_aq cs = \<lparr> aq_phase = True, aq_sq_depth = 2, aq_cq_depth = 2, aq_cq_head = 1, nvme_sq = Some cs, nvme_cq = Some [zero_cqe, zero_cqe] \<rparr>"

definition tiny_ctrl :: "nvme_command list \<Rightarrow> ns_info \<Rightarrow> unit controller" where
  "tiny_ctrl cs ns = \<lparr> vdev = tiny_dev\<lparr> sqes := replicate 73 None, cqes := replicate 73 None \<rparr>, admin_q = Some (tiny_aq cs),
     dbs = replicate 1024 0, old_dbs = replicate 1024 0, nr_sq = 0, nr_cq = 0, vns = [ns], mdts = 5, zns_supported = True, irqs_raised = [] \<rparr>"

definition plain_ns :: ns_info where
  "plain_ns = \<lparr> ni_size = 1048576, ni_csi = NVME_CSI_NVM, ni_zp = None \<rparr>"

lemma tiny_ctrl_ok: "rings (tiny_ctrl cs ns) (tiny_aq cs) cs [zero_cqe, zero_cqe]" "arrays_ok (tiny_ctrl cs ns)"
  "aq_cq_head (tiny_aq cs) < aq_cq_depth (tiny_aq cs)" "aq_cq_depth (tiny_aq cs) \<le> length [zero_cqe, zero_cqe]"
  "aq_sq_depth (tiny_aq cs) = 2" "vns (tiny_ctrl cs ns) = [ns]" "irqs_raised (tiny_ctrl cs ns) = []" "dev_host (vdev (tiny_ctrl cs ns)) = tiny_host"
  by (simp_all add: rings_def tiny_ctrl_def tiny_aq_def arrays_ok_def NR_MAX_IO_QUEUE_def NR_DBS_def PAGE_SIZE_def)

text \<open>C11: When the host moves the admin submission doorbell past at most as many commands as the completion
  ring has entries, every new command is processed in ring order, and its completion goes to the next slot of the
  completion ring with the phase that flips at each wrap: it names the command and its entry and has status success,
  or ASYNC_LIMIT for an event request. A command the code does not handle (get_features, abort, an unknown opcode or
  CNS) takes a slot but leaves it as it was, so the host never sees it complete. The queue then stands n slots
  further, no other slot has changed, and one interrupt is raised. This needs commands that stay inside the arrays
  (\<open>admin_cmd_ok\<close>), which the code does not check.\<close>

theorem admin_sq_answers_in_order:
  assumes "rings v q cs es" and "aq_sq_depth q \<le> length cs" and "old < aq_sq_depth q" and "new < aq_sq_depth q"
    and "aq_cq_head q < aq_cq_depth q" and "aq_cq_depth q \<le> length es" and "arrays_ok v"
    and "n = (if old \<le> new then new - old else new + aq_sq_depth q - old)" and "n \<le> aq_cq_depth q"
    and "\<And>k. k < n \<Longrightarrow> admin_cmd_ok v (cs ! entry_at q old k)"
  shows "\<exists>v' es'. nvmev_proc_admin_sq (int new) (int old) v = Some v' \<and> rings v' (advanced (q\<lparr> nvme_cq := Some es' \<rparr>) n) cs es' \<and>
    (\<forall>k<n. answer (phase_at q k) (entry_at q old k) (cs ! entry_at q old k) (es ! slot_at q k) (es' ! slot_at q k)) \<and>
    (\<forall>j. (\<forall>k<n. j \<noteq> slot_at q k) \<longrightarrow> es' ! j = es ! j) \<and> irqs_raised v' = irqs_raised v @ [0]"
proof -
  obtain v' es' where run: "proc_admin_entries (aq_sq_depth q) old n v = Some v'" "rings v' (advanced (q\<lparr> nvme_cq := Some es' \<rparr>) n) cs es'"
    and got: "\<forall>k<n. answer (phase_at q k) (entry_at q old k) (cs ! entry_at q old k) (es ! slot_at q k) (es' ! slot_at q k)"
    and kept: "\<forall>j. (\<forall>k<n. j \<noteq> slot_at q k) \<longrightarrow> es' ! j = es ! j" and frame: "same_setup v v'"
    using proc_admin_entries_effect [OF assms(1-3,5-7,9,10)] by blast
  have num: "nat (if int new - int old < 0 then int new - int old + int (aq_sq_depth q) else int new - int old) = n"
    using assms(3,4,8) by auto
  then have "nvmev_proc_admin_sq (int new) (int old) v = Some (nvmev_signal_irq 0 v')"
    using assms(1) run(1) by (simp add: nvmev_proc_admin_sq_def rings_def Let_def)
  moreover have "rings (nvmev_signal_irq 0 v') x cs es' = rings v' x cs es'" for x by (rule rings_cong) (simp add: nvmev_signal_irq_def)
  moreover have "irqs_raised (nvmev_signal_irq 0 v') = irqs_raised v @ [0]" using frame by (simp add: nvmev_signal_irq_def same_setup_def)
  ultimately show ?thesis using run(2) got kept by metis
qed

lemma admin_sq_answers_in_order_witness:
  "\<exists>v' es'. nvmev_proc_admin_sq (int 0) (int 1) (tiny_ctrl [admin_cmd nvme_admin_get_features 7 1 0, admin_cmd nvme_admin_create_cq 8 (3 * 65536 + 1) 3] plain_ns) = Some v' \<and>
     irqs_raised v' = [0] \<and> rings v' (advanced ((tiny_aq [admin_cmd nvme_admin_get_features 7 1 0, admin_cmd nvme_admin_create_cq 8 (3 * 65536 + 1) 3])\<lparr> nvme_cq := Some es' \<rparr>) 1)
       [admin_cmd nvme_admin_get_features 7 1 0, admin_cmd nvme_admin_create_cq 8 (3 * 65536 + 1) 3] es'"
proof -
  let ?cs = "[admin_cmd nvme_admin_get_features 7 1 0, admin_cmd nvme_admin_create_cq 8 (3 * 65536 + 1) 3]"
  have "admin_cmd_ok (tiny_ctrl ?cs plain_ns) (?cs ! entry_at (tiny_aq ?cs) 1 k)" if "k < 1" for k
    using that by (simp add: entry_at_def tiny_aq_def admin_cmd_ok_def admin_cmd_def admin_opcodes q_id_def NR_MAX_IO_QUEUE_def)
  then show ?thesis
    using admin_sq_answers_in_order [OF tiny_ctrl_ok(1) [of ?cs plain_ns], where old = 1 and new = 0 and n = 1]
      tiny_ctrl_ok(3,4,5) [of ?cs] tiny_ctrl_ok(2,7) [of ?cs plain_ns]
    by (auto simp: tiny_aq_def)
qed

text \<open>The queue a create command asks for: its size, its ring, entry by entry, in the host memory from PRP1 on, and
  nothing in it yet.\<close>

definition cq_created :: "nvme_command \<Rightarrow> bytes \<Rightarrow> completion_queue \<Rightarrow> bool" where
  "cq_created c host cq \<longleftrightarrow> cq_size cq = q_size c + 1 \<and> cq_phase cq = 1 \<and> cq_head cq = 0 \<and> cq_tail cq = -1 \<and> \<not> cq_interrupt_ready cq \<and>
     (cq_irq_enabled cq \<longleftrightarrow> odd (q_flags c div 2)) \<and> cq_irq_vector cq = (if cq_irq_enabled cq then q_vector c else 0) \<and>
     take (q_size c + 1) (cq_entries cq) = map (\<lambda>k. completion_at host (prp1 c + 16 * k)) [0..<q_size c + 1]"

definition sq_created :: "nvme_command \<Rightarrow> bytes \<Rightarrow> submission_queue \<Rightarrow> bool" where
  "sq_created c host sq \<longleftrightarrow> sq_size sq = q_size c + 1 \<and> sq_cqid sq = q_cqid c \<and> nr_dispatched (sq_stat sq) = 0 \<and>
     nr_dispatch (sq_stat sq) = 0 \<and> nr_in_flight (sq_stat sq) = 0 \<and> max_nr_in_flight (sq_stat sq) = 0 \<and> total_io (sq_stat sq) = 0 \<and>
     take (q_size c + 1) (sq_cmds sq) = map (\<lambda>k. command_at host (prp1 c + 64 * k)) [0..<q_size c + 1]"

definition queue_effect :: "nvme_command \<Rightarrow> bytes \<Rightarrow> queues \<Rightarrow> queues \<Rightarrow> bool" where
  "queue_effect c host qs qs' = (case qs of (sqs, cqs, db, odb) \<Rightarrow>
     if opcode c = nvme_admin_create_cq then
       \<exists>cq. cq_created c host cq \<and> qs' = (sqs, cqs[q_id c := Some cq], db[2 * q_id c + 1 := 0], odb[2 * q_id c + 1 := 0])
     else if opcode c = nvme_admin_create_sq then
       \<exists>sq. sq_created c host sq \<and> qs' = (sqs[q_id c := Some sq], cqs, db[2 * q_id c := 0], odb[2 * q_id c := 0])
     else if opcode c = nvme_admin_delete_cq then qs' = (sqs, cqs[q_id c := None], db, odb)
     else if opcode c = nvme_admin_delete_sq then qs' = (sqs[q_id c := None], cqs, db, odb)
     else qs' = qs)"

lemma ring_addr_linear: "ring_addr prp 16 k = prp + 16 * k" "ring_addr prp 64 k = prp + 64 * k"
proof -
  have prp: "prp div 4096 * 4096 + prp mod 4096 = prp" and k: "k div 256 * 256 + k mod 256 = k" "k div 64 * 64 + k mod 64 = k"
    by (rule div_mult_mod_eq)+
  have "(prp div 4096 + k div 256) * 4096 + prp mod 4096 + 16 * (k mod 256) = prp + 16 * k"
    "(prp div 4096 + k div 64) * 4096 + prp mod 4096 + 64 * (k mod 64) = prp + 64 * k"
    unfolding add_mult_distrib using prp k by linarith+
  then show "ring_addr prp 16 k = prp + 16 * k" "ring_addr prp 64 k = prp + 64 * k" by (simp_all add: ring_addr_def PAGE_SIZE_def)
qed

lemma new_cq_created: "cq_created c host (new_cq host c)"
  using ring_fits(2) [of "q_size c + 1" host "prp1 c"]
  by (simp add: cq_created_def new_cq_def cq_ring_def take_map ring_addr_linear SZ_COMPLETION_def del: upt_Suc)

lemma new_sq_created: "sq_created c host (new_sq host c)"
  using ring_fits(1) [of "q_size c + 1" host "prp1 c"]
  by (simp add: sq_created_def new_sq_def sq_ring_def take_map ring_addr_linear SZ_COMMAND_def zero_stat_def del: upt_Suc)

lemma queues_after_effect: "queue_effect c host qs (queues_after c host qs)"
  by (cases qs) (auto simp: queue_effect_def queues_after_def new_cq_created new_sq_created
      intro!: exI [of _ "new_cq host c"] exI [of _ "new_sq host c"])

text \<open>C21: An admin command that the code can serve (\<open>admin_cmd_ok\<close>) and that creates or deletes an I/O queue has exactly
  the effect \<open>queue_effect\<close> names: a new completion queue has the size of the command, phase 1, head 0, tail -1, the
  vector of the command if its flags enable interrupts, and for its entries the completions at the host address PRP1 and every 16 bytes
  on; a new submission queue has the size and the completion queue of the command, counters at zero, and the commands
  at PRP1 and every 64 bytes on; both doorbells of the queue are zero; a deleted queue is gone. Other queues and doorbells
  are not touched, and every other admin command leaves all of them as they were.\<close>

theorem queue_commands_correct:
  assumes "rings v q cs es" and "eid < length cs" and "aq_cq_head q < aq_cq_depth q" and "aq_cq_depth q \<le> length es"
    and "arrays_ok v" and "admin_cmd_ok v (cs ! eid)"
  shows "\<exists>v'. proc_admin_req eid v = Some v' \<and> queue_effect (cs ! eid) (dev_host (vdev v)) (queues_of v) (queues_of v')"
proof -
  obtain v' where v': "proc_admin_req eid v = Some v'" using proc_admin_req_effect [OF assms] by blast
  then obtain v1 where "admin_dispatch eid (aq_cq_head q) v = Some v1" "vdev v' = vdev v1" "dbs v' = dbs v1" "old_dbs v' = old_dbs v1"
    using proc_admin_req_dispatch [OF _ assms(1,2)] by metis
  then have "queues_of v' = queues_after (cs ! eid) (dev_host (vdev v)) (queues_of v)"
    using dispatch_queues sq_entry_Some [OF assms(1,2)] by (metis queues_of_def)
  then show ?thesis using v' queues_after_effect by metis
qed

lemma queue_commands_correct_witness:
  "\<exists>v' sq. proc_admin_req 0 (tiny_ctrl [admin_cmd nvme_admin_create_sq 8 (3 * 65536 + 2) (65536 + 1)] plain_ns) = Some v' \<and>
     sqes (vdev v') ! 2 = Some sq \<and> sq_size sq = 4 \<and> sq_cqid sq = 1"
proof -
  let ?c = "admin_cmd nvme_admin_create_sq 8 (3 * 65536 + 2) (65536 + 1)"
  have q: "q_id ?c = 2" "q_size ?c = 3" "q_cqid ?c = 1" by (simp_all add: q_id_def q_size_def q_cqid_def admin_cmd_def)
  then have "admin_cmd_ok (tiny_ctrl [?c] plain_ns) ([?c] ! 0)"
    by (simp add: admin_cmd_ok_def NR_MAX_IO_QUEUE_def) (simp add: admin_cmd_def admin_opcodes)
  then obtain v' where v': "proc_admin_req 0 (tiny_ctrl [?c] plain_ns) = Some v'"
    "queue_effect ([?c] ! 0) (dev_host (vdev (tiny_ctrl [?c] plain_ns))) (queues_of (tiny_ctrl [?c] plain_ns)) (queues_of v')"
    using queue_commands_correct [OF tiny_ctrl_ok(1) [of "[?c]" plain_ns], of 0] tiny_ctrl_ok(2,3,4) by auto
  have "opcode ?c = nvme_admin_create_sq" by (simp add: admin_cmd_def)
  then obtain sq where "sqes (vdev v') = (sqes (vdev (tiny_ctrl [?c] plain_ns)))[2 := Some sq]" "sq_created ?c tiny_host sq"
    using v'(2) q tiny_ctrl_ok(8) by (auto simp: queue_effect_def queues_of_def admin_opcodes)
  then show ?thesis using v'(1) q by (simp add: tiny_ctrl_def sq_created_def)
qed

text \<open>IDENTIFY of a namespace writes the identify structure the host asked for into the page at PRP1 and nothing
  else: size, capacity and utilization are the namespace's size in 512-byte blocks, whatever junk the page held,
  the format in use is 0 of seven, and every format of the table reads back at its place.\<close>

theorem identify_namespace_correct:
  assumes "rings v q cs es" and "eid < length cs" and "aq_cq_head q < aq_cq_depth q" and "aq_cq_depth q \<le> length es"
    and "arrays_ok v" and c: "cs ! eid = c" "opcode c = nvme_admin_identify" "cdw10 c = 0"
    and ns: "1 \<le> nsid c" "nsid c \<le> length (vns v)" "length (vns v) < 2 ^ 32" "ni_size (vns v ! (nsid c - 1)) < 2 ^ 64"
  shows "\<exists>v'. proc_admin_req eid v = Some v' \<and>
    (\<forall>k. k = 0 \<or> k = 8 \<or> k = 16 \<longrightarrow> load 8 (dev_host (vdev v')) (prp1 c + k) = ni_size (vns v ! (nsid c - 1)) div 512) \<and>
    load 1 (dev_host (vdev v')) (prp1 c + 25) = 6 \<and> load 1 (dev_host (vdev v')) (prp1 c + 26) = 0 \<and>
    (\<forall>(i, ms, ds, rp) \<in> set lba_formats. load 2 (dev_host (vdev v')) (lbaf_at (prp1 c) i) = ms \<and>
       load 1 (dev_host (vdev v')) (lbaf_at (prp1 c) i + 2) = ds \<and> load 1 (dev_host (vdev v')) (lbaf_at (prp1 c) i + 3) = rp) \<and>
    (\<forall>x. x < prp1 c \<or> prp1 c + 4096 \<le> x \<longrightarrow> dev_host (vdev v') x = dev_host (vdev v) x)"
proof -
  have i: "sub32 (nsid c) 1 = nsid c - 1" using ns by (intro sub32_exact) simp_all
  have "admin_cmd_ok v (cs ! eid)" using c ns i by (simp add: admin_cmd_ok_def admin_opcodes)
  then obtain v' where v': "proc_admin_req eid v = Some v'" using proc_admin_req_effect [OF assms(1-5)] by blast
  have "dev_host (vdev v') = id_ns (ni_size (vns v ! (nsid c - 1))) (prp1 c) (dev_host (vdev v))"
    using identify_host(1) [OF v' assms(1,2), OF _ refl] c i by simp
  then show ?thesis using v' id_ns_fields [OF ns(4)] id_ns_other [of _ "prp1 c"] by auto
qed

lemma identify_namespace_correct_witness:
  "\<exists>v'. proc_admin_req 0 (tiny_ctrl [admin_cmd nvme_admin_identify 8 0 0] plain_ns) = Some v' \<and> load 8 (dev_host (vdev v')) 8192 = 2048"
  using identify_namespace_correct [OF tiny_ctrl_ok(1) [of "[admin_cmd nvme_admin_identify 8 0 0]" plain_ns], where eid = 0
      and c = "admin_cmd nvme_admin_identify 8 0 0"] tiny_ctrl_ok(2,6) [of "[admin_cmd nvme_admin_identify 8 0 0]" plain_ns]
    tiny_ctrl_ok(3,4) [of "[admin_cmd nvme_admin_identify 8 0 0]"]
  by (auto simp: admin_cmd_def plain_ns_def)

text \<open>Setting the number of queues grants between 1 and 72 queues of each kind, the number asked for if it is not
  more, and result 0 of the completion carries the two grants, zero-based, from which the host recovers them.\<close>

theorem set_num_queues_grants:
  assumes "rings v q cs es" and "eid < length cs" and "aq_cq_head q < length es"
    and "opcode (cs ! eid) = nvme_admin_set_features" and "cdw10 (cs ! eid) = NVME_FEAT_NUM_QUEUES" and "cdw11 (cs ! eid) = ncqr * 2 ^ 16 + nsqr"
    and "ncqr < 2 ^ 16" and "nsqr < 2 ^ 16"
  shows "\<exists>v' es'. proc_admin_req eid v = Some v' \<and> Option.bind (admin_q v') nvme_cq = Some es' \<and>
    nr_sq v' = min (nsqr + 1) 72 \<and> nr_cq v' = min (ncqr + 1) 72 \<and>
    c_result0 (es' ! aq_cq_head q) mod 2 ^ 16 + 1 = nr_sq v' \<and> c_result0 (es' ! aq_cq_head q) div 2 ^ 16 + 1 = nr_cq v'"
proof -
  define s c where "s = min (nsqr + 1) NR_MAX_IO_QUEUE" and "c = min (ncqr + 1) NR_MAX_IO_QUEUE"
  define v1 where "v1 = v\<lparr> nr_sq := s, nr_cq := c \<rparr>"
  define f where "f = (\<lambda>e::nvme_completion. e\<lparr> c_result0 := (c - 1) * 2 ^ 16 + (s - 1) \<rparr>)"
  define es1 where "es1 = es[aq_cq_head q := f (es ! aq_cq_head q)]"
  define es2 where "es2 = es1[aq_cq_head q := fill_cqe (aq_phase q) eid (command_id (cs ! eid)) NVME_SC_SUCCESS (f (es ! aq_cq_head q))]"
  have r1: "rings v1 q cs es" using assms(1) by (simp add: rings_def v1_def)
  have r2: "rings (v1\<lparr> admin_q := Some (q\<lparr> nvme_cq := Some es1 \<rparr>) \<rparr>) (q\<lparr> nvme_cq := Some es1 \<rparr>) cs es1"
    using assms(1) by (simp add: rings_def)
  have d: "cdw11 (cs ! eid) mod 2 ^ 16 = nsqr" "cdw11 (cs ! eid) div 2 ^ 16 mod 2 ^ 16 = ncqr" using assms(6-8) by simp_all
  have "admin_set_features eid (aq_cq_head q) v = Some (v1\<lparr> admin_q := Some (q\<lparr> nvme_cq := Some es2 \<rparr>) \<rparr>)"
    using sq_entry_Some [OF assms(1,2)] assms(3,5) on_cqe_Some [OF r1 assms(3), of f] post_cqe_Some [OF r2 assms(2), of "aq_cq_head q" NVME_SC_SUCCESS] d
    by (simp add: admin_set_features_def es1_def es2_def v1_def f_def s_def c_def Let_def)
  then have "proc_admin_req eid v = Some (v1\<lparr> admin_q := Some (advance_aq (aq_cq_head q) (q\<lparr> nvme_cq := Some es2 \<rparr>)) \<rparr>)"
    using assms(1,4) sq_entry_Some [OF assms(1,2)] by (simp add: proc_admin_req_def rings_def admin_dispatch_def admin_opcodes)
  moreover have "c_result0 (es2 ! aq_cq_head q) = (c - 1) * 2 ^ 16 + (s - 1)"
    using assms(3) by (simp add: es2_def es1_def fill_cqe_def f_def)
  moreover have "1 \<le> s" "s \<le> 72" "1 \<le> c" "c \<le> 72" by (simp_all add: s_def c_def NR_MAX_IO_QUEUE_def)
  ultimately show ?thesis
    by (auto simp: v1_def advance_aq_def s_def c_def NR_MAX_IO_QUEUE_def)
qed

lemma set_num_queues_grants_witness:
  "\<exists>v'. proc_admin_req 0 (tiny_ctrl [admin_cmd nvme_admin_set_features 8 NVME_FEAT_NUM_QUEUES (99 * 65536 + 3)] plain_ns) = Some v' \<and> nr_sq v' = 4 \<and> nr_cq v' = 72"
  using set_num_queues_grants [OF tiny_ctrl_ok(1) [of "[admin_cmd nvme_admin_set_features 8 NVME_FEAT_NUM_QUEUES (99 * 65536 + 3)]" plain_ns],
      where eid = 0 and ncqr = 99 and nsqr = 3]
  by (auto simp: admin_cmd_def tiny_aq_def)

text \<open>IDENTIFY of a zoned namespace reports the limits on active and open zones zero-based and the zone size in
  512-byte blocks; with a random write area the area's size and flush granularity are reported in bytes cut to
  16 bits, where the field's comment asks for blocks: a 1 MiB area is reported as 0.\<close>

theorem identify_zns_correct:
  assumes "rings v q cs es" and "eid < length cs" and "aq_cq_head q < aq_cq_depth q" and "aq_cq_depth q \<le> length es"
    and "arrays_ok v" and c: "cs ! eid = c" "opcode c = nvme_admin_identify" "cdw10 c = 5"
    and ns: "1 \<le> nsid c" "nsid c \<le> length (vns v)" "length (vns v) < 2 ^ 32"
    and zns: "ni_csi (vns v ! (nsid c - 1)) = NVME_CSI_ZNS" "ni_zp (vns v ! (nsid c - 1)) = Some z"
    and z: "1 \<le> nr_active_zones z" "nr_active_zones z < 2 ^ 32" "1 \<le> nr_open_zones z" "nr_open_zones z < 2 ^ 32" "zone_size z < 2 ^ 64"
  shows "\<exists>v'. proc_admin_req eid v = Some v' \<and> load 4 (dev_host (vdev v')) (prp1 c + 4) + 1 = nr_active_zones z \<and>
    load 4 (dev_host (vdev v')) (prp1 c + 8) + 1 = nr_open_zones z \<and> load 8 (dev_host (vdev v')) (prp1 c + 2816) = zone_size z div 512 \<and>
    (0 < nr_zrwa_zones z \<longrightarrow> load 2 (dev_host (vdev v')) (prp1 c + 48) = zrwafg_size z mod 2 ^ 16 \<and>
       load 2 (dev_host (vdev v')) (prp1 c + 50) = zrwa_size z mod 2 ^ 16) \<and>
    (\<forall>x. x < prp1 c \<or> prp1 c + 4096 \<le> x \<longrightarrow> dev_host (vdev v') x = dev_host (vdev v) x)"
proof -
  have i: "sub32 (nsid c) 1 = nsid c - 1" using ns by (intro sub32_exact) simp_all
  have "admin_cmd_ok v (cs ! eid)" using c ns i zns by (simp add: admin_cmd_ok_def admin_opcodes)
  then obtain v' where v': "proc_admin_req eid v = Some v'" using proc_admin_req_effect [OF assms(1-5)] by blast
  have host: "dev_host (vdev v') = id_zns_ns z (prp1 c) (dev_host (vdev v))"
    using identify_host(2) [OF v' assms(1,2), OF _ refl, of z] c i zns by simp
  have "sub32 (nr_active_zones z) 1 = nr_active_zones z - 1" "sub32 (nr_open_zones z) 1 = nr_open_zones z - 1"
    using z by (auto intro: sub32_exact)
  then show ?thesis using v' z id_zns_ns_fields [of z "prp1 c" "dev_host (vdev v)"] id_zns_ns_other [of _ "prp1 c" z]
    unfolding host by (intro exI [of _ v']) (simp add: host)
qed

definition zoned_ns :: ns_info where
  "zoned_ns = \<lparr> ni_size = 1048576, ni_csi = NVME_CSI_ZNS, ni_zp = Some \<lparr> nr_zones = 4, nr_active_zones = 4, nr_open_zones = 4,
     dies_per_zone = 1, zone_size = 262144, zone_wb_size = 0, nr_zrwa_zones = 4, zrwafg_size = 32768, zrwa_size = 1048576,
     zrwa_buffer_size = 0, lbas_per_zrwafg = 64, lbas_per_zrwa = 2048 \<rparr> \<rparr>"

lemma identify_zns_correct_witness:
  "\<exists>v'. proc_admin_req 0 (tiny_ctrl [admin_cmd nvme_admin_identify 8 5 0] zoned_ns) = Some v' \<and> load 2 (dev_host (vdev v')) (8192 + 50) = 0"
  using identify_zns_correct [OF tiny_ctrl_ok(1) [of "[admin_cmd nvme_admin_identify 8 5 0]" zoned_ns], where eid = 0
      and c = "admin_cmd nvme_admin_identify 8 5 0" and z = "the (ni_zp zoned_ns)"] tiny_ctrl_ok(2,6) [of "[admin_cmd nvme_admin_identify 8 5 0]" zoned_ns]
    tiny_ctrl_ok(3,4) [of "[admin_cmd nvme_admin_identify 8 5 0]"]
  by (auto simp: admin_cmd_def zoned_ns_def)

end
