(* ===== verification/Device.thy ===== *)
theory Device
  imports Admin
begin

text \<open>
  The register block and the dispatcher thread (\<open>nvmev_proc_bars\<close> in \<open>pci.c\<close>, \<open>nvmev_proc_dbs\<close> and
  \<open>nvmev_dispatcher\<close> in \<open>main.c\<close>). The host writes registers and doorbells at any time; the dispatcher polls
  both and compares them with the values it saw last. Doorbells are 32-bit values that the code reads as
  \<open>int\<close>; those of I/O queues are taken to be below 2 ^ 31.
\<close>

section \<open>Registers\<close>

record nvme_ctrl_regs =
  u_aqa :: nat
  u_asq :: nat
  u_acq :: nat
  u_cc :: nat
  csts_rdy :: bool
  csts_shst :: nat

record nvme_bar =
  o_cc :: nat
  o_aqa :: nat
  o_asq :: nat
  o_acq :: nat

record 's device =
  ctl :: "'s controller"
  bar :: nvme_ctrl_regs
  old_bar :: nvme_bar

definition aqa_asqs :: "nvme_ctrl_regs \<Rightarrow> nat" where "aqa_asqs r = u_aqa r mod 2 ^ 12"
definition aqa_acqs :: "nvme_ctrl_regs \<Rightarrow> nat" where "aqa_acqs r = u_aqa r div 2 ^ 16 mod 2 ^ 12"
definition cc_en :: "nvme_ctrl_regs \<Rightarrow> bool" where "cc_en r \<longleftrightarrow> odd (u_cc r)"
definition cc_shn :: "nvme_ctrl_regs \<Rightarrow> nat" where "cc_shn r = u_cc r div 2 ^ 14 mod 2 ^ 2"

text \<open>The page of an admin ring: the low bits of its register are dropped.\<close>

definition page_of :: "nat \<Rightarrow> nat" where "page_of a = a div PAGE_SIZE * PAGE_SIZE"

definition on_admin_q :: "(nvmev_admin_queue \<Rightarrow> nvmev_admin_queue) \<Rightarrow> 's controller \<Rightarrow> 's controller option" where
  "on_admin_q f v = do { q \<leftarrow> admin_q v; Some (v\<lparr> admin_q := Some (f q) \<rparr>) }"

section \<open>nvmev_proc_bars\<close>

definition new_admin_queue :: "nvme_ctrl_regs \<Rightarrow> nvmev_admin_queue" where
  "new_admin_queue r = \<lparr> aq_phase = True, aq_sq_depth = aqa_asqs r + 1, aq_cq_depth = aqa_acqs r + 1, aq_cq_head = 0,
     nvme_sq = None, nvme_cq = None \<rparr>"

definition bars_aqa :: "'s device \<Rightarrow> 's device option" where
  "bars_aqa d =
     (if o_aqa (old_bar d) \<noteq> u_aqa (bar d) then do {
        let d = d\<lparr> old_bar := (old_bar d)\<lparr> o_aqa := u_aqa (bar d) \<rparr> \<rparr>;
        if admin_q (ctl d) = None then do {
          v \<leftarrow> reset_db 0 (ctl d);
          v \<leftarrow> reset_db 1 v;
          Some (d\<lparr> ctl := v\<lparr> admin_q := Some (new_admin_queue (bar d)) \<rparr> \<rparr>)
        } else Some d
      } else Some d)"

text \<open>The other three steps say whether the function goes on, or returns to be run again.\<close>

definition bars_asq :: "'s device \<Rightarrow> (bool \<times> 's device) option" where
  "bars_asq d =
     (if o_asq (old_bar d) \<noteq> u_asq (bar d) then
        if admin_q (ctl d) = None then Some (False, d)
        else do {
          let d = d\<lparr> old_bar := (old_bar d)\<lparr> o_asq := u_asq (bar d) \<rparr> \<rparr>;
          v \<leftarrow> on_admin_q (\<lambda>q. q\<lparr> aq_sq_depth := aqa_asqs (bar d) + 1,
                 nvme_sq := Some (sq_ring (dev_host (vdev (ctl d))) (page_of (u_asq (bar d))) (aqa_asqs (bar d) + 1)) \<rparr>) (ctl d);
          v \<leftarrow> reset_db 0 v;
          Some (True, d\<lparr> ctl := v \<rparr>)
        }
      else Some (True, d))"

definition bars_acq :: "'s device \<Rightarrow> (bool \<times> 's device) option" where
  "bars_acq d =
     (if o_acq (old_bar d) \<noteq> u_acq (bar d) then
        if admin_q (ctl d) = None then Some (False, d)
        else do {
          let d = d\<lparr> old_bar := (old_bar d)\<lparr> o_acq := u_acq (bar d) \<rparr> \<rparr>;
          v \<leftarrow> on_admin_q (\<lambda>q. q\<lparr> aq_cq_depth := aqa_acqs (bar d) + 1,
                 nvme_cq := Some (cq_ring (dev_host (vdev (ctl d))) (page_of (u_acq (bar d))) (aqa_acqs (bar d) + 1)), aq_cq_head := 0 \<rparr>) (ctl d);
          v \<leftarrow> reset_db 1 v;
          Some (True, d\<lparr> ctl := v \<rparr>)
        }
      else Some (True, d))"

definition cc_shutdown :: "'s device \<Rightarrow> 's device option" where
  "cc_shutdown d =
     (if cc_shn (bar d) = 1 then do {
        let d = d\<lparr> bar := (bar d)\<lparr> csts_shst := 2 \<rparr> \<rparr>;
        v \<leftarrow> reset_db 0 (ctl d);
        v \<leftarrow> reset_db 1 v;
        v \<leftarrow> on_admin_q (\<lambda>q. q\<lparr> aq_cq_head := 0 \<rparr>) v;
        Some (d\<lparr> ctl := v \<rparr>)
      } else Some d)"

definition bars_cc :: "'s device \<Rightarrow> 's device option" where
  "bars_cc d =
     (if o_cc (old_bar d) \<noteq> u_cc (bar d) then
        if cc_en (bar d) \<and> admin_q (ctl d) = None then Some d
        else do {
          d \<leftarrow> cc_shutdown (d\<lparr> bar := (bar d)\<lparr> csts_rdy := cc_en (bar d) \<rparr> \<rparr>);
          Some (d\<lparr> old_bar := (old_bar d)\<lparr> o_cc := u_cc (bar d) \<rparr> \<rparr>)
        }
      else Some d)"

definition nvmev_proc_bars :: "'s device \<Rightarrow> 's device option" where
  "nvmev_proc_bars d = do {
     d \<leftarrow> bars_aqa d;
     (go, d) \<leftarrow> bars_asq d;
     if \<not> go then Some d
     else do {
       (go, d) \<leftarrow> bars_acq d;
       if \<not> go then Some d else bars_cc d
     }
   }"

section \<open>nvmev_proc_dbs\<close>

definition set_old_db :: "nat \<Rightarrow> nat \<Rightarrow> 's controller \<Rightarrow> 's controller option" where
  "set_old_db i x v = do { o' \<leftarrow> arr_set (old_dbs v) i x; Some (v\<lparr> old_dbs := o' \<rparr>) }"

definition db_admin_sq :: "'s controller \<Rightarrow> 's controller option" where
  "db_admin_sq v = do {
     new_db \<leftarrow> arr_get (dbs v) 0;
     old_db \<leftarrow> arr_get (old_dbs v) 0;
     if new_db \<noteq> old_db then do {
       v \<leftarrow> nvmev_proc_admin_sq (signed32 new_db) (signed32 old_db) v;
       set_old_db 0 new_db v
     } else Some v
   }"

definition db_admin_cq :: "'s controller \<Rightarrow> 's controller option" where
  "db_admin_cq v = do {
     new_db \<leftarrow> arr_get (dbs v) 1;
     old_db \<leftarrow> arr_get (old_dbs v) 1;
     if new_db \<noteq> old_db then do {
       v \<leftarrow> nvmev_proc_admin_cq (signed32 new_db) (signed32 old_db) v;
       set_old_db 1 new_db v
     } else Some v
   }"

definition db_sq :: "'s handler \<Rightarrow> (nat \<Rightarrow> nat \<Rightarrow> nat \<times> nat) \<Rightarrow> nat \<Rightarrow> 's controller \<Rightarrow> 's controller option" where
  "db_sq handler clock qid v = do {
     sq \<leftarrow> arr_get (sqes (vdev v)) qid;
     if sq = None then Some v
     else do {
       new_db \<leftarrow> arr_get (dbs v) (qid * 2);
       old_db \<leftarrow> arr_get (old_dbs v) (qid * 2);
       if new_db \<noteq> old_db then do {
         (db, dev) \<leftarrow> nvmev_proc_io_sq handler (clock qid) (vdev v) qid new_db old_db;
         set_old_db (qid * 2) (u32 db) (v\<lparr> vdev := dev \<rparr>)
       } else Some v
     }
   }"

definition db_cq :: "nat \<Rightarrow> 's controller \<Rightarrow> 's controller option" where
  "db_cq qid v = do {
     cq \<leftarrow> arr_get (cqes (vdev v)) qid;
     if cq = None then Some v
     else do {
       new_db \<leftarrow> arr_get (dbs v) (qid * 2 + 1);
       old_db \<leftarrow> arr_get (old_dbs v) (qid * 2 + 1);
       if new_db \<noteq> old_db then do {
         dev \<leftarrow> nvmev_proc_io_cq (vdev v) qid (signed32 new_db) (signed32 old_db);
         set_old_db (qid * 2 + 1) new_db (v\<lparr> vdev := dev \<rparr>)
       } else Some v
     }
   }"

text \<open>The numbers of queues are set by admin commands only, so they do not change while the loops run.\<close>

definition nvmev_proc_dbs :: "'s handler \<Rightarrow> (nat \<Rightarrow> nat \<Rightarrow> nat \<times> nat) \<Rightarrow> 's controller \<Rightarrow> 's controller option" where
  "nvmev_proc_dbs handler clock v = do {
     v \<leftarrow> db_admin_sq v;
     v \<leftarrow> db_admin_cq v;
     v \<leftarrow> foldM (db_sq handler clock) [1..<nr_sq v + 1] v;
     foldM db_cq [1..<nr_cq v + 1] v
   }"

text \<open>A round of the thread.\<close>

definition nvmev_dispatcher :: "'s handler \<Rightarrow> (nat \<Rightarrow> nat \<Rightarrow> nat \<times> nat) \<Rightarrow> 's device \<Rightarrow> 's device option" where
  "nvmev_dispatcher handler clock d = do {
     d \<leftarrow> nvmev_proc_bars d;
     v \<leftarrow> nvmev_proc_dbs handler clock (ctl d);
     Some (d\<lparr> ctl := v \<rparr>)
   }"

section \<open>What holds in every state\<close>

text \<open>The admin queue: the position is inside the completion ring, and the rings, once their address is known, hold
  as many entries as the depths say.\<close>

definition aq_ok :: "nvmev_admin_queue \<Rightarrow> bool" where
  "aq_ok q \<longleftrightarrow> aq_cq_head q < aq_cq_depth q \<and> 0 < aq_sq_depth q \<and>
     (case nvme_sq q of None \<Rightarrow> True | Some cs \<Rightarrow> aq_sq_depth q \<le> length cs) \<and>
     (case nvme_cq q of None \<Rightarrow> True | Some es \<Rightarrow> aq_cq_depth q \<le> length es)"

definition ctl_ok :: "'s controller \<Rightarrow> bool" where
  "ctl_ok v \<longleftrightarrow> arrays_ok v \<and> (case admin_q v of None \<Rightarrow> True | Some q \<Rightarrow> aq_ok q)"

definition device_ok :: "'s device \<Rightarrow> bool" where
  "device_ok d \<longleftrightarrow> ctl_ok (ctl d) \<and> (csts_rdy (bar d) \<longrightarrow> admin_q (ctl d) \<noteq> None)"

text \<open>No doorbell but the admin submission doorbell is news to the dispatcher.\<close>

definition quiet :: "'s controller \<Rightarrow> bool" where
  "quiet v \<longleftrightarrow> nr_sq v \<le> NR_MAX_IO_QUEUE \<and> nr_cq v \<le> NR_MAX_IO_QUEUE \<and> (\<forall>i. 0 < i \<and> i < NR_DBS \<longrightarrow> dbs v ! i = old_dbs v ! i)"

lemma quiet_cong: "nr_sq w = nr_sq v \<Longrightarrow> nr_cq w = nr_cq v \<Longrightarrow> dbs w = dbs v \<Longrightarrow> old_dbs w = old_dbs v \<Longrightarrow> quiet w = quiet v"
  by (simp add: quiet_def)

lemma quiet_with_host [simp]: "quiet (with_host f v) = quiet v"
  by (rule quiet_cong) (simp_all add: with_host_def)

lemma quiet_reset: "reset_db i v = Some w \<Longrightarrow> quiet v \<Longrightarrow> quiet w"
  by (auto simp: reset_db_def fault_simps quiet_def nth_list_update)

text \<open>An admin command changes at most one completion, and no array's length; it makes no doorbell news.\<close>

definition cqe_step :: "nat \<Rightarrow> 's controller \<Rightarrow> 's controller \<Rightarrow> bool" where
  "cqe_step h v w \<longleftrightarrow> (arrays_ok v \<longrightarrow> arrays_ok w) \<and> (quiet v \<longrightarrow> quiet w) \<and>
     (admin_q w = admin_q v \<or>
      (\<exists>q es e. admin_q v = Some q \<and> nvme_cq q = Some es \<and> admin_q w = Some (q\<lparr> nvme_cq := Some (es[h := e]) \<rparr>)))"

lemma cqe_step_trans:
  assumes "cqe_step h u v" and "cqe_step h v w"
  shows "cqe_step h u w"
proof -
  have arr: "(arrays_ok u \<longrightarrow> arrays_ok w) \<and> (quiet u \<longrightarrow> quiet w)" using assms by (simp add: cqe_step_def)
  consider "admin_q v = admin_q u" | "admin_q w = admin_q v"
    | q es e q1 es1 e1 where "admin_q u = Some q" "nvme_cq q = Some es" "admin_q v = Some (q\<lparr> nvme_cq := Some (es[h := e]) \<rparr>)"
      "admin_q v = Some q1" "nvme_cq q1 = Some es1" "admin_q w = Some (q1\<lparr> nvme_cq := Some (es1[h := e1]) \<rparr>)"
    using assms unfolding cqe_step_def by blast
  then show ?thesis
  proof cases
    case 1
    then show ?thesis using arr assms(2) by (simp add: cqe_step_def)
  next
    case 2
    then show ?thesis using arr assms(1) by (simp add: cqe_step_def)
  next
    case (3 q es e q1 es1 e1)
    then have "admin_q w = Some (q\<lparr> nvme_cq := Some (es[h := e1]) \<rparr>)" by auto
    then show ?thesis using arr 3(1,2) unfolding cqe_step_def by blast
  qed
qed

lemma cqe_step_plain: "(arrays_ok v \<Longrightarrow> arrays_ok w) \<Longrightarrow> (quiet v \<Longrightarrow> quiet w) \<Longrightarrow> admin_q w = admin_q v \<Longrightarrow> cqe_step h v w"
  by (simp add: cqe_step_def)

lemma on_cqe_step: "on_cqe h f v = Some w \<Longrightarrow> cqe_step h v w"
  by (auto simp: on_cqe_def fault_simps cqe_step_def arrays_ok_def quiet_def)

lemma post_cqe_step: "post_cqe eid h sc v = Some w \<Longrightarrow> cqe_step h v w"
  by (auto simp: post_cqe_def fault_simps intro: on_cqe_step)

lemma reset_db_keeps:
  "reset_db i v = Some w \<Longrightarrow> (arrays_ok w = arrays_ok v) \<and> admin_q w = admin_q v \<and> vdev w = vdev v \<and> nr_sq w = nr_sq v \<and> nr_cq w = nr_cq v"
  by (auto simp: reset_db_def fault_simps arrays_ok_def)

lemma queue_step:
  assumes "post_cqe eid h sc w = Some u" and "admin_q w = admin_q v" and "arrays_ok v \<Longrightarrow> arrays_ok w" and "quiet v \<Longrightarrow> quiet w"
  shows "cqe_step h v u"
  using cqe_step_trans [OF cqe_step_plain post_cqe_step [OF assms(1)]] assms(2-4) by blast

lemma dispatch_step:
  assumes "admin_dispatch eid h v = Some w"
  shows "cqe_step h v w"
proof -
  obtain c where c: "sq_entry v eid = Some c" using assms by (auto simp: admin_dispatch_def fault_simps)
  have del: "cqe_step h v w" if "admin_delete_sq eid h v = Some w \<or> admin_delete_cq eid h v = Some w"
    using that by (auto simp: admin_delete_sq_def admin_delete_cq_def fault_simps arrays_ok_def quiet_def elim!: queue_step)
  have new: "cqe_step h v w" if "admin_create_sq eid h v = Some w \<or> admin_create_cq eid h v = Some w"
    using that by (auto simp: admin_create_sq_def admin_create_cq_def fault_simps reset_db_def arrays_ok_def quiet_def nth_list_update elim!: queue_step)
  have host: "cqe_step h v w" if "post_cqe eid h sc (with_host f v) = Some w" for f sc
    using queue_step [OF that, of v] by simp
  have log: "cqe_step h v w" if "admin_get_log_page eid h v = Some w"
    using that host by (auto simp: admin_get_log_page_def fault_simps)
  have id: "cqe_step h v w" if "admin_identify cns eid h v = Some w" for cns
    using that host cqe_step_plain [of v v h] unfolding admin_identify_def
    by (auto simp: fault_simps admin_identify_namespace_def admin_identify_ctrl_def admin_identify_namespaces_def
        admin_identify_namespace_desc_def admin_identify_zns_namespace_def admin_identify_zns_ctrl_def split: if_splits)
  have asy: "cqe_step h v w" if run: "admin_async_event eid h v = Some w"
  proof -
    obtain v1 where "on_cqe h (\<lambda>e::nvme_completion. e\<lparr> c_result0 := 0 \<rparr>) v = Some v1" "post_cqe eid h NVME_SC_ASYNC_LIMIT v1 = Some w"
      using run by (auto simp: admin_async_event_def fault_simps)
    then show ?thesis using cqe_step_trans [OF on_cqe_step post_cqe_step] by blast
  qed
  have feat: "cqe_step h v w" if run: "admin_set_features eid h v = Some w"
  proof (cases "cdw10 c = NVME_FEAT_NUM_QUEUES")
    case True
    define v0 where "v0 = v\<lparr> nr_sq := min (cdw11 c mod 2 ^ 16 + 1) NR_MAX_IO_QUEUE, nr_cq := min (cdw11 c div 2 ^ 16 mod 2 ^ 16 + 1) NR_MAX_IO_QUEUE \<rparr>"
    have "cqe_step h v v0" by (rule cqe_step_plain) (simp_all add: v0_def arrays_ok_def quiet_def)
    moreover obtain v1 where "on_cqe h (\<lambda>e::nvme_completion. e\<lparr> c_result0 := (nr_cq v0 - 1) * 2 ^ 16 + (nr_sq v0 - 1) \<rparr>) v0 = Some v1"
      "post_cqe eid h NVME_SC_SUCCESS v1 = Some w"
      using run c True unfolding admin_set_features_def by (auto simp: v0_def Let_def Option.bind_eq_Some_conv)
    ultimately show ?thesis using cqe_step_trans on_cqe_step post_cqe_step by metis
  next
    case False
    then show ?thesis using run c queue_step [of eid h NVME_SC_SUCCESS v w v] by (simp add: admin_set_features_def)
  qed
  show ?thesis using assms c del new log id asy feat cqe_step_plain [of v v h] unfolding admin_dispatch_def
    by (auto split: if_splits)
qed

lemma aq_ok_cqe: "aq_ok q \<Longrightarrow> nvme_cq q = Some es \<Longrightarrow> aq_ok (q\<lparr> nvme_cq := Some (es[h := e]) \<rparr>)"
  by (simp add: aq_ok_def split: option.splits)

lemma aq_ok_advance: "aq_ok q \<Longrightarrow> h < aq_cq_depth q \<Longrightarrow> aq_ok (advance_aq h q)"
  by (auto simp: aq_ok_def advance_aq_def split: option.splits)

lemma ctl_ok_step: "cqe_step h v w \<Longrightarrow> ctl_ok v \<Longrightarrow> ctl_ok w"
  unfolding cqe_step_def ctl_ok_def by (auto simp: aq_ok_cqe)

lemma proc_admin_req_ok:
  assumes "proc_admin_req eid v = Some w" and "ctl_ok v"
  shows "ctl_ok w" and "admin_q w \<noteq> None"
proof -
  obtain q v1 q1 where q: "admin_q v = Some q" and v1: "admin_dispatch eid (aq_cq_head q) v = Some v1" "admin_q v1 = Some q1"
    and w: "w = v1\<lparr> admin_q := Some (advance_aq (aq_cq_head q) q1) \<rparr>"
    using assms(1) by (auto simp: proc_admin_req_def fault_simps)
  have st: "cqe_step (aq_cq_head q) v v1" by (rule dispatch_step [OF v1(1)])
  have ok1: "ctl_ok v1" by (rule ctl_ok_step [OF st assms(2)])
  have "aq_cq_depth q1 = aq_cq_depth q" using st q v1(2) by (auto simp: cqe_step_def)
  moreover have "aq_cq_head q < aq_cq_depth q" using assms(2) q by (simp add: ctl_ok_def aq_ok_def)
  ultimately have "aq_ok (advance_aq (aq_cq_head q) q1)" using ok1 v1(2) by (intro aq_ok_advance) (simp_all add: ctl_ok_def)
  then show "ctl_ok w" using ok1 unfolding w by (simp add: ctl_ok_def arrays_ok_def)
  show "admin_q w \<noteq> None" by (simp add: w)
qed

section \<open>The register steps\<close>

definition zero_dbs :: "'s controller \<Rightarrow> 's controller" where
  "zero_dbs v = v\<lparr> dbs := (dbs v)[0 := 0, 1 := 0], old_dbs := (old_dbs v)[0 := 0, 1 := 0] \<rparr>"

lemma NR_DBS_pos: "0 < NR_DBS" "1 < NR_DBS" "Suc 0 < NR_DBS" by (simp_all add: NR_DBS_def PAGE_SIZE_def)

lemma reset_both:
  assumes "arrays_ok v"
  shows "Option.bind (reset_db 0 v) (reset_db 1) = Some (zero_dbs v)"
  using reset_db_Some [OF assms NR_DBS_pos(1)] assms NR_DBS_pos by (simp add: reset_db_def arrays_ok_def zero_dbs_def)

lemma zero_dbs_simps [simp]: "arrays_ok (zero_dbs v) = arrays_ok v" "admin_q (zero_dbs v) = admin_q v" "vdev (zero_dbs v) = vdev v"
  by (simp_all add: zero_dbs_def arrays_ok_def)

lemma arrays_ok_simps [simp]: "arrays_ok (v\<lparr> admin_q := x \<rparr>) = arrays_ok v" "arrays_ok (v\<lparr> dbs := (dbs v)[i := x'] \<rparr>) = arrays_ok v"
  "arrays_ok (v\<lparr> dbs := (dbs v)[i := x'], old_dbs := (old_dbs v)[j := y'] \<rparr>) = arrays_ok v"
  "arrays_ok (v\<lparr> admin_q := x, dbs := (dbs v)[i := x'], old_dbs := (old_dbs v)[j := y'] \<rparr>) = arrays_ok v"
  by (simp_all add: arrays_ok_def)

text \<open>Each step written as one update.\<close>

lemma bars_aqa_eq:
  assumes "arrays_ok (ctl d)"
  shows "bars_aqa d = Some (if o_aqa (old_bar d) = u_aqa (bar d) then d
    else (d\<lparr> old_bar := (old_bar d)\<lparr> o_aqa := u_aqa (bar d) \<rparr>,
            ctl := (if admin_q (ctl d) = None then (zero_dbs (ctl d))\<lparr> admin_q := Some (new_admin_queue (bar d)) \<rparr> else ctl d) \<rparr>))"
proof -
  have "Option.bind (reset_db 0 (ctl d)) (\<lambda>v. Option.bind (reset_db 1 v) (\<lambda>v. Some (f v))) = Some (f (zero_dbs (ctl d)))" for f :: "'a controller \<Rightarrow> 'a device"
  proof -
    obtain v0 where "reset_db 0 (ctl d) = Some v0" "reset_db 1 v0 = Some (zero_dbs (ctl d))"
      using reset_both [OF assms] by (auto simp: fault_simps)
    then show ?thesis by simp
  qed
  then show ?thesis by (simp add: bars_aqa_def Let_def)
qed

definition asq_queue :: "bytes \<Rightarrow> nvme_ctrl_regs \<Rightarrow> nvmev_admin_queue \<Rightarrow> nvmev_admin_queue" where
  "asq_queue m r q = q\<lparr> aq_sq_depth := aqa_asqs r + 1, nvme_sq := Some (sq_ring m (page_of (u_asq r)) (aqa_asqs r + 1)) \<rparr>"

definition acq_queue :: "bytes \<Rightarrow> nvme_ctrl_regs \<Rightarrow> nvmev_admin_queue \<Rightarrow> nvmev_admin_queue" where
  "acq_queue m r q = q\<lparr> aq_cq_depth := aqa_acqs r + 1, nvme_cq := Some (cq_ring m (page_of (u_acq r)) (aqa_acqs r + 1)), aq_cq_head := 0 \<rparr>"

lemma ring_queue_ok: "aq_ok q \<Longrightarrow> aq_ok (asq_queue m r q)" "aq_ok q \<Longrightarrow> aq_ok (acq_queue m r q)" "aq_ok (new_admin_queue r)"
  "aq_ok q \<Longrightarrow> aq_ok (q\<lparr> aq_cq_head := 0 \<rparr>)"
  using ring_fits(1) [of "aqa_asqs r + 1" m "page_of (u_asq r)"] ring_fits(2) [of "aqa_acqs r + 1" m "page_of (u_acq r)"]
  by (auto simp: aq_ok_def asq_queue_def acq_queue_def new_admin_queue_def split: option.splits)

lemma bars_asq_eq:
  assumes "arrays_ok (ctl d)"
  shows "bars_asq d = Some (if o_asq (old_bar d) = u_asq (bar d) then (True, d)
    else case admin_q (ctl d) of None \<Rightarrow> (False, d)
      | Some q \<Rightarrow> (True, d\<lparr> old_bar := (old_bar d)\<lparr> o_asq := u_asq (bar d) \<rparr>,
          ctl := (ctl d)\<lparr> admin_q := Some (asq_queue (dev_host (vdev (ctl d))) (bar d) q), dbs := (dbs (ctl d))[0 := 0], old_dbs := (old_dbs (ctl d))[0 := 0] \<rparr> \<rparr>))"
  using assms NR_DBS_pos by (auto simp: bars_asq_def on_admin_q_def reset_db_def Let_def asq_queue_def arrays_ok_def split: option.splits)

lemma bars_acq_eq:
  assumes "arrays_ok (ctl d)"
  shows "bars_acq d = Some (if o_acq (old_bar d) = u_acq (bar d) then (True, d)
    else case admin_q (ctl d) of None \<Rightarrow> (False, d)
      | Some q \<Rightarrow> (True, d\<lparr> old_bar := (old_bar d)\<lparr> o_acq := u_acq (bar d) \<rparr>,
          ctl := (ctl d)\<lparr> admin_q := Some (acq_queue (dev_host (vdev (ctl d))) (bar d) q), dbs := (dbs (ctl d))[1 := 0], old_dbs := (old_dbs (ctl d))[1 := 0] \<rparr> \<rparr>))"
  using assms NR_DBS_pos by (auto simp: bars_acq_def on_admin_q_def reset_db_def Let_def acq_queue_def arrays_ok_def split: option.splits)

lemma cc_shutdown_eq:
  assumes "arrays_ok (ctl d)"
  shows "cc_shutdown d = (if cc_shn (bar d) \<noteq> 1 then Some d
    else case admin_q (ctl d) of None \<Rightarrow> None
      | Some q \<Rightarrow> Some (d\<lparr> bar := (bar d)\<lparr> csts_shst := 2 \<rparr>, ctl := (zero_dbs (ctl d))\<lparr> admin_q := Some (q\<lparr> aq_cq_head := 0 \<rparr>) \<rparr> \<rparr>))"
proof -
  obtain v0 where "reset_db 0 (ctl d) = Some v0" "reset_db 1 v0 = Some (zero_dbs (ctl d))"
    using reset_both [OF assms] by (auto simp: fault_simps)
  then show ?thesis by (simp add: cc_shutdown_def on_admin_q_def Let_def split: option.splits)
qed

lemma ctl_ok_update: "ctl_ok v \<Longrightarrow> arrays_ok w = arrays_ok v \<Longrightarrow> admin_q w = Some q \<Longrightarrow> aq_ok q \<Longrightarrow> ctl_ok w"
  by (simp add: ctl_ok_def)

lemma bars_aqa_ok:
  assumes "device_ok d"
  shows "\<exists>d'. bars_aqa d = Some d' \<and> device_ok d' \<and> bar d' = bar d \<and> (admin_q (ctl d') = None \<longrightarrow> o_aqa (old_bar d) = u_aqa (bar d)) \<and>
    (admin_q (ctl d) \<noteq> None \<longrightarrow> admin_q (ctl d') \<noteq> None)"
proof -
  have "arrays_ok (ctl d)" using assms by (simp add: device_ok_def ctl_ok_def)
  then show ?thesis using assms ring_queue_ok(3) by (auto simp: bars_aqa_eq device_ok_def ctl_ok_def)
qed

lemma bars_ring_ok:
  assumes "device_ok d"
  shows "\<exists>go d'. bars_asq d = Some (go, d') \<and> device_ok d' \<and> bar d' = bar d \<and> (admin_q (ctl d') = None) = (admin_q (ctl d) = None)"
    and "\<exists>go d'. bars_acq d = Some (go, d') \<and> device_ok d' \<and> bar d' = bar d \<and> (admin_q (ctl d') = None) = (admin_q (ctl d) = None)"
proof -
  have a: "arrays_ok (ctl d)" using assms by (simp add: device_ok_def ctl_ok_def)
  have q: "aq_ok q" if "admin_q (ctl d) = Some q" for q using assms that by (simp add: device_ok_def ctl_ok_def)
  show "\<exists>go d'. bars_asq d = Some (go, d') \<and> device_ok d' \<and> bar d' = bar d \<and> (admin_q (ctl d') = None) = (admin_q (ctl d) = None)"
    using assms q ring_queue_ok(1) unfolding bars_asq_eq [OF a] by (auto simp: device_ok_def ctl_ok_def split: option.splits)
  show "\<exists>go d'. bars_acq d = Some (go, d') \<and> device_ok d' \<and> bar d' = bar d \<and> (admin_q (ctl d') = None) = (admin_q (ctl d) = None)"
    using assms q ring_queue_ok(2) unfolding bars_acq_eq [OF a] by (auto simp: device_ok_def ctl_ok_def split: option.splits)
qed

lemma bars_cc_ok:
  assumes "device_ok d"
  shows "bars_cc d = Some d' \<Longrightarrow> device_ok d'"
    and "admin_q (ctl d) \<noteq> None \<or> cc_en (bar d) \<or> cc_shn (bar d) \<noteq> 1 \<Longrightarrow> \<exists>d'. bars_cc d = Some d'"
proof -
  have a: "arrays_ok (ctl (d\<lparr> bar := r \<rparr>))" for r using assms by (simp add: device_ok_def ctl_ok_def)
  have q: "aq_ok q" if "admin_q (ctl d) = Some q" for q using assms that by (simp add: device_ok_def ctl_ok_def)
  show "device_ok d'" if "bars_cc d = Some d'"
    using assms q ring_queue_ok(4) that unfolding bars_cc_def cc_shutdown_eq [OF a]
    by (auto simp: device_ok_def ctl_ok_def cc_shn_def split: option.splits if_splits)
  show "\<exists>d'. bars_cc d = Some d'" if "admin_q (ctl d) \<noteq> None \<or> cc_en (bar d) \<or> cc_shn (bar d) \<noteq> 1"
    using that unfolding bars_cc_def cc_shutdown_eq [OF a] by (auto simp: cc_shn_def split: option.splits)
qed

lemma nvmev_proc_bars_ok:
  assumes "device_ok d"
  shows "nvmev_proc_bars d = Some d' \<Longrightarrow> device_ok d'"
    and "admin_q (ctl d) \<noteq> None \<or> u_aqa (bar d) \<noteq> o_aqa (old_bar d) \<or> cc_en (bar d) \<or> cc_shn (bar d) \<noteq> 1 \<Longrightarrow> \<exists>d'. nvmev_proc_bars d = Some d'"
proof -
  obtain d1 where d1: "bars_aqa d = Some d1" "device_ok d1" "bar d1 = bar d" "admin_q (ctl d1) = None \<longrightarrow> o_aqa (old_bar d) = u_aqa (bar d)"
    "admin_q (ctl d) \<noteq> None \<longrightarrow> admin_q (ctl d1) \<noteq> None"
    using bars_aqa_ok [OF assms] by (elim exE conjE)
  obtain go2 d2 where d2: "bars_asq d1 = Some (go2, d2)" "device_ok d2" "bar d2 = bar d" "(admin_q (ctl d2) = None) = (admin_q (ctl d1) = None)"
    using bars_ring_ok(1) [OF d1(2)] d1(3) by auto
  obtain go3 d3 where d3: "bars_acq d2 = Some (go3, d3)" "device_ok d3" "bar d3 = bar d" "(admin_q (ctl d3) = None) = (admin_q (ctl d1) = None)"
    using bars_ring_ok(2) [OF d2(2)] d2(3,4) by auto
  have run: "nvmev_proc_bars d = (if \<not> go2 then Some d2 else if \<not> go3 then Some d3 else bars_cc d3)"
    using d1(1) d2(1) d3(1) by (simp add: nvmev_proc_bars_def)
  show "device_ok d'" if "nvmev_proc_bars d = Some d'"
    using that bars_cc_ok(1) [OF d3(2)] d2(2) d3(2) unfolding run by (auto split: if_splits)
  assume "admin_q (ctl d) \<noteq> None \<or> u_aqa (bar d) \<noteq> o_aqa (old_bar d) \<or> cc_en (bar d) \<or> cc_shn (bar d) \<noteq> 1"
  then have "admin_q (ctl d3) \<noteq> None \<or> cc_en (bar d3) \<or> cc_shn (bar d3) \<noteq> 1" using d1(4,5) d3(3,4) by metis
  then show "\<exists>d'. nvmev_proc_bars d = Some d'" using bars_cc_ok(2) [OF d3(2)] unfolding run by auto
qed

section \<open>Runs of the device\<close>

text \<open>The host writes registers, doorbells, its memory and the entries of its submission ring; the dispatcher polls the
  registers and processes admin commands one at a time; the last rule is every step of the I/O path.\<close>

definition fresh_device :: "'s device \<Rightarrow> bool" where
  "fresh_device d \<longleftrightarrow> arrays_ok (ctl d) \<and> admin_q (ctl d) = None \<and> dbs (ctl d) = replicate NR_DBS 0 \<and> old_dbs (ctl d) = replicate NR_DBS 0 \<and>
     bar d = \<lparr> u_aqa = 0, u_asq = 0, u_acq = 0, u_cc = 0, csts_rdy = False, csts_shst = 0 \<rparr> \<and>
     old_bar d = \<lparr> o_cc = 0, o_aqa = 0, o_asq = 0, o_acq = 0 \<rparr>"

inductive device_run :: "'s device \<Rightarrow> bool" where
  start: "fresh_device d \<Longrightarrow> device_run d"
| host_regs: "device_run d \<Longrightarrow> device_run (d\<lparr> bar := (bar d)\<lparr> u_aqa := a, u_asq := s, u_acq := c, u_cc := e \<rparr> \<rparr>)"
| host_doorbell: "device_run d \<Longrightarrow> device_run (d\<lparr> ctl := (ctl d)\<lparr> dbs := (dbs (ctl d))[i := x] \<rparr> \<rparr>)"
| host_memory: "device_run d \<Longrightarrow> device_run (d\<lparr> ctl := with_host f (ctl d) \<rparr>)"
| host_command: "device_run d \<Longrightarrow> admin_q (ctl d) = Some q \<Longrightarrow> nvme_sq q = Some cs \<Longrightarrow>
    device_run (d\<lparr> ctl := (ctl d)\<lparr> admin_q := Some (q\<lparr> nvme_sq := Some (cs[i := c]) \<rparr>) \<rparr> \<rparr>)"
| poll_bars: "device_run d \<Longrightarrow> nvmev_proc_bars d = Some d' \<Longrightarrow> device_run d'"
| admin_request: "device_run d \<Longrightarrow> proc_admin_req eid (ctl d) = Some v \<Longrightarrow> device_run (d\<lparr> ctl := v \<rparr>)"
| io_step: "device_run d \<Longrightarrow> admin_q v = admin_q (ctl d) \<Longrightarrow> arrays_ok v \<Longrightarrow> device_run (d\<lparr> ctl := v \<rparr>)"

lemma device_run_ok: "device_run d \<Longrightarrow> device_ok d"
proof (induction rule: device_run.induct)
  case (start d)
  then show ?case by (simp add: device_ok_def ctl_ok_def fresh_device_def)
next
  case (host_command d q cs i c)
  then show ?case by (simp add: device_ok_def ctl_ok_def aq_ok_def split: option.splits)
next
  case (poll_bars d d')
  then show ?case using nvmev_proc_bars_ok(1) by blast
next
  case (admin_request d eid v)
  then have "ctl_ok v" "admin_q v \<noteq> None" using proc_admin_req_ok [of eid "ctl d" v] by (simp_all add: device_ok_def)
  then show ?case by (simp add: device_ok_def)
qed (simp_all add: device_ok_def ctl_ok_def with_host_def arrays_ok_def)

section \<open>A round of the dispatcher\<close>

lemma proc_admin_req_quiet:
  assumes "proc_admin_req eid v = Some w" and "quiet v"
  shows "quiet w"
proof -
  obtain q v1 q1 where "admin_q v = Some q" and v1: "admin_dispatch eid (aq_cq_head q) v = Some v1" and "admin_q v1 = Some q1"
    and w: "w = v1\<lparr> admin_q := Some (advance_aq (aq_cq_head q) q1) \<rparr>"
    using assms(1) by (auto simp: proc_admin_req_def fault_simps)
  have "quiet v1" using dispatch_step [OF v1] assms(2) by (simp add: cqe_step_def)
  then show ?thesis by (simp add: w quiet_def)
qed

lemma proc_admin_entries_keeps:
  "proc_admin_entries depth eid n v = Some w \<Longrightarrow> quiet v \<Longrightarrow> ctl_ok v \<Longrightarrow> quiet w \<and> ctl_ok w"
proof (induction n arbitrary: eid v)
  case (Suc n)
  then obtain v1 where "proc_admin_req eid v = Some v1" "proc_admin_entries depth (if eid + 1 = depth then 0 else eid + 1) n v1 = Some w"
    by (auto simp: fault_simps)
  then show ?case using Suc.IH Suc.prems(2,3) proc_admin_req_quiet proc_admin_req_ok(1) by blast
qed simp

lemma foldM_skip: "(\<And>i. i \<in> set is \<Longrightarrow> f i s = Some s) \<Longrightarrow> foldM f is s = Some s"
  by (induction "is") simp_all

lemma db_loops_quiet:
  assumes "quiet v" and "arrays_ok v"
  shows "foldM (db_sq handler clock) [1..<nr_sq v + 1] v = Some v" and "foldM db_cq [1..<nr_cq v + 1] v = Some v"
    and "db_admin_cq v = Some v"
proof -
  have l: "length (sqes (vdev v)) = 73" "length (cqes (vdev v)) = 73" "length (dbs v) = NR_DBS" "length (old_dbs v) = NR_DBS"
    using assms(2) by (simp_all add: arrays_ok_def NR_MAX_IO_QUEUE_def)
  have nd: "i < 146 \<Longrightarrow> i < NR_DBS" for i by (simp add: NR_DBS_def PAGE_SIZE_def)
  have same: "dbs v ! i = old_dbs v ! i" if "0 < i" "i < 146" for i using assms(1) that nd by (simp add: quiet_def)
  have n: "nr_sq v \<le> 72" "nr_cq v \<le> 72" using assms(1) by (simp_all add: quiet_def NR_MAX_IO_QUEUE_def)
  show "foldM (db_sq handler clock) [1..<nr_sq v + 1] v = Some v"
  proof (rule foldM_skip)
    fix qid assume "qid \<in> set [1..<nr_sq v + 1]"
    then have q: "0 < qid" "qid < 73" using n by auto
    then show "db_sq handler clock qid v = Some v" using l same [of "qid * 2"] nd [of "qid * 2"] by (simp add: db_sq_def)
  qed
  show "foldM db_cq [1..<nr_cq v + 1] v = Some v"
  proof (rule foldM_skip)
    fix qid assume "qid \<in> set [1..<nr_cq v + 1]"
    then have q: "0 < qid" "qid < 73" using n by auto
    then show "db_cq qid v = Some v" using l same [of "qid * 2 + 1"] nd [of "qid * 2 + 1"] by (simp add: db_cq_def)
  qed
  show "db_admin_cq v = Some v" using l same [of 1] nd [of 1] by (simp add: db_admin_cq_def)
qed

section \<open>Properties\<close>

text \<open>C13: In every state the device reaches under a host that writes registers, doorbells and memory as it likes, a
  controller that says it is ready has an admin queue, the position in the completion ring is inside it and both
  rings, once set up, are as long as the depths the code uses. Polling the registers never stops the kernel but
  in one case: a shutdown is requested while there is no admin queue; there it does.\<close>

theorem device_state_sound:
  assumes "device_run d"
  shows "(csts_rdy (bar d) \<longrightarrow> admin_q (ctl d) \<noteq> None) \<and>
    (\<forall>q. admin_q (ctl d) = Some q \<longrightarrow> aq_cq_head q < aq_cq_depth q \<and> 0 < aq_sq_depth q \<and>
       (\<forall>cs. nvme_sq q = Some cs \<longrightarrow> aq_sq_depth q \<le> length cs) \<and> (\<forall>es. nvme_cq q = Some es \<longrightarrow> aq_cq_depth q \<le> length es)) \<and>
    (nvmev_proc_bars d = None \<longleftrightarrow> admin_q (ctl d) = None \<and> u_aqa (bar d) = o_aqa (old_bar d) \<and> u_asq (bar d) = o_asq (old_bar d) \<and>
       u_acq (bar d) = o_acq (old_bar d) \<and> u_cc (bar d) \<noteq> o_cc (old_bar d) \<and> \<not> cc_en (bar d) \<and> cc_shn (bar d) = 1)"
proof -
  have ok: "device_ok d" by (rule device_run_ok [OF assms])
  then have a: "arrays_ok (ctl d)" "arrays_ok (ctl (d\<lparr> bar := r \<rparr>))" for r by (simp_all add: device_ok_def ctl_ok_def)
  have stop: "nvmev_proc_bars d = None" if "admin_q (ctl d) = None" "u_aqa (bar d) = o_aqa (old_bar d)" "u_asq (bar d) = o_asq (old_bar d)"
    "u_acq (bar d) = o_acq (old_bar d)" "u_cc (bar d) \<noteq> o_cc (old_bar d)" "\<not> cc_en (bar d)" "cc_shn (bar d) = 1"
    using that by (simp add: nvmev_proc_bars_def bars_aqa_def bars_asq_def bars_acq_def bars_cc_def cc_shutdown_eq [OF a(2)] cc_shn_def)
  have rings: "u_asq (bar d) = o_asq (old_bar d) \<and> u_acq (bar d) = o_acq (old_bar d) \<and> u_cc (bar d) \<noteq> o_cc (old_bar d)"
    if "nvmev_proc_bars d = None" "admin_q (ctl d) = None" "u_aqa (bar d) = o_aqa (old_bar d)"
  proof -
    have "bars_aqa d = Some d" using that(3) by (simp add: bars_aqa_def)
    then show ?thesis using that(1,2) by (auto simp: nvmev_proc_bars_def bars_asq_def bars_acq_def bars_cc_def split: if_splits)
  qed
  have "admin_q (ctl d) = None \<and> u_aqa (bar d) = o_aqa (old_bar d) \<and> \<not> cc_en (bar d) \<and> cc_shn (bar d) = 1" if "nvmev_proc_bars d = None"
    using nvmev_proc_bars_ok(2) [OF ok] that by fastforce
  then have "nvmev_proc_bars d = None \<longleftrightarrow> admin_q (ctl d) = None \<and> u_aqa (bar d) = o_aqa (old_bar d) \<and> u_asq (bar d) = o_asq (old_bar d) \<and>
       u_acq (bar d) = o_acq (old_bar d) \<and> u_cc (bar d) \<noteq> o_cc (old_bar d) \<and> \<not> cc_en (bar d) \<and> cc_shn (bar d) = 1"
    using rings stop by blast
  then show ?thesis using ok by (auto simp: device_ok_def ctl_ok_def aq_ok_def)
qed

definition tiny_device :: "unit device" where
  "tiny_device = \<lparr> ctl = (tiny_ctrl [] plain_ns)\<lparr> admin_q := None, dbs := replicate NR_DBS 0, old_dbs := replicate NR_DBS 0 \<rparr>,
     bar = \<lparr> u_aqa = 0, u_asq = 0, u_acq = 0, u_cc = 0, csts_rdy = False, csts_shst = 0 \<rparr>,
     old_bar = \<lparr> o_cc = 0, o_aqa = 0, o_asq = 0, o_acq = 0 \<rparr> \<rparr>"

lemma tiny_device_fresh: "fresh_device tiny_device"
  by (simp add: fresh_device_def tiny_device_def arrays_ok_def tiny_ctrl_def NR_MAX_IO_QUEUE_def)

lemma device_state_sound_witness:
  "nvmev_proc_bars (tiny_device\<lparr> bar := (bar tiny_device)\<lparr> u_aqa := 0, u_asq := 0, u_acq := 0, u_cc := 2 ^ 14 \<rparr> \<rparr>) = None"
  using device_state_sound [OF host_regs [where a = 0 and s = 0 and c = 0 and e = "2 ^ 14", OF start [OF tiny_device_fresh]]]
  by (simp add: tiny_device_def tiny_ctrl_def cc_en_def cc_shn_def)

text \<open>The registers as the dispatcher last saw them.\<close>

definition settled :: "'s device \<Rightarrow> bool" where
  "settled d \<longleftrightarrow> o_aqa (old_bar d) = u_aqa (bar d) \<and> o_asq (old_bar d) = u_asq (bar d) \<and> o_acq (old_bar d) = u_acq (bar d)"

lemma settled_bars: "settled d \<Longrightarrow> nvmev_proc_bars d = bars_cc d"
  by (simp add: settled_def nvmev_proc_bars_def bars_aqa_def bars_asq_def bars_acq_def)

lemma settled_all: "settled d \<Longrightarrow> o_cc (old_bar d) = u_cc (bar d) \<Longrightarrow> nvmev_proc_bars d = Some d"
  by (simp add: settled_bars bars_cc_def)

lemma enable_handshake:
  assumes "fresh_device d" and "a \<noteq> 0" and "s \<noteq> 0" and "c \<noteq> 0" and "odd e" and "e div 2 ^ 14 mod 4 \<noteq> 1"
    and "r = (bar d)\<lparr> u_aqa := a, u_asq := s, u_acq := c, u_cc := e \<rparr>"
  shows "\<exists>d'. nvmev_proc_bars (d\<lparr> bar := r \<rparr>) = Some d' \<and> csts_rdy (bar d') \<and>
    admin_q (ctl d') = Some \<lparr> aq_phase = True, aq_sq_depth = a mod 2 ^ 12 + 1, aq_cq_depth = a div 2 ^ 16 mod 2 ^ 12 + 1, aq_cq_head = 0,
      nvme_sq = Some (sq_ring (dev_host (vdev (ctl d))) (page_of s) (a mod 2 ^ 12 + 1)),
      nvme_cq = Some (cq_ring (dev_host (vdev (ctl d))) (page_of c) (a div 2 ^ 16 mod 2 ^ 12 + 1)) \<rparr> \<and>
    dbs (ctl d') = replicate NR_DBS 0 \<and> old_dbs (ctl d') = replicate NR_DBS 0 \<and> nvmev_proc_bars d' = Some d' \<and> settled d' \<and> o_cc (old_bar d') = u_cc (bar d')"
proof -
  let ?m = "dev_host (vdev (ctl d))"
  define q where "q = acq_queue ?m r (asq_queue ?m r (new_admin_queue r))"
  note f = assms(1) [unfolded fresh_device_def]
  have r: "u_aqa r = a" "u_asq r = s" "u_acq r = c" "u_cc r = e" "\<not> csts_rdy r" by (simp_all add: assms(7) f)
  define d1 where "d1 = d\<lparr> bar := r, old_bar := (old_bar d)\<lparr> o_aqa := a \<rparr>, ctl := (zero_dbs (ctl d))\<lparr> admin_q := Some (new_admin_queue r) \<rparr> \<rparr>"
  have a1: "bars_aqa (d\<lparr> bar := r \<rparr>) = Some d1" using f r assms(2) by (simp add: bars_aqa_eq d1_def)
  have ok1: "arrays_ok (ctl d1)" using f by (simp add: d1_def)
  have zero: "(replicate NR_DBS (0::nat))[i := 0] = replicate NR_DBS 0" for i
    by (cases "i < NR_DBS") (simp_all add: list_update_same_conv list_update_beyond)
  then have z: "dbs (zero_dbs (ctl d)) = replicate NR_DBS 0" "old_dbs (zero_dbs (ctl d)) = replicate NR_DBS 0"
    using f by (simp_all add: zero_dbs_def)
  define d2 where "d2 = d1\<lparr> old_bar := (old_bar d1)\<lparr> o_asq := s \<rparr>, ctl := (ctl d1)\<lparr> admin_q := Some (asq_queue ?m r (new_admin_queue r)),
      dbs := replicate NR_DBS 0, old_dbs := replicate NR_DBS 0 \<rparr> \<rparr>"
  have a2: "bars_asq d1 = Some (True, d2)"
    using f r assms(3) z zero unfolding bars_asq_eq [OF ok1] by (simp add: d2_def d1_def)
  have ok2: "arrays_ok (ctl d2)" using ok1 by (simp add: d2_def arrays_ok_def)
  define d3 where "d3 = d2\<lparr> old_bar := (old_bar d2)\<lparr> o_acq := c \<rparr>, ctl := (ctl d2)\<lparr> admin_q := Some q \<rparr> \<rparr>"
  have a3: "bars_acq d2 = Some (True, d3)"
    using f r assms(4) zero unfolding bars_acq_eq [OF ok2] by (simp add: d3_def d2_def d1_def q_def)
  define d4 where "d4 = d3\<lparr> bar := r\<lparr> csts_rdy := True \<rparr>, old_bar := (old_bar d3)\<lparr> o_cc := e \<rparr> \<rparr>"
  have "e \<noteq> 0" using assms(5) by (cases e) auto
  then have "bars_cc d3 = Some d4"
    using f r assms(5,6) by (simp add: bars_cc_def cc_shutdown_def d4_def d3_def d2_def d1_def cc_en_def cc_shn_def)
  then have run: "nvmev_proc_bars (d\<lparr> bar := r \<rparr>) = Some d4" using a1 a2 a3 by (simp add: nvmev_proc_bars_def)
  have st: "settled d4" "o_cc (old_bar d4) = u_cc (bar d4)" by (simp_all add: settled_def d4_def d3_def d2_def d1_def r)
  then have "nvmev_proc_bars d4 = Some d4" by (rule settled_all)
  moreover have "q = \<lparr> aq_phase = True, aq_sq_depth = a mod 2 ^ 12 + 1, aq_cq_depth = a div 2 ^ 16 mod 2 ^ 12 + 1, aq_cq_head = 0,
      nvme_sq = Some (sq_ring ?m (page_of s) (a mod 2 ^ 12 + 1)), nvme_cq = Some (cq_ring ?m (page_of c) (a div 2 ^ 16 mod 2 ^ 12 + 1)) \<rparr>"
    by (simp add: q_def acq_queue_def asq_queue_def new_admin_queue_def aqa_asqs_def aqa_acqs_def r)
  ultimately show ?thesis using run st by (intro exI [of _ d4]) (simp add: d4_def d3_def d2_def)
qed

text \<open>C30: The handshake by which a host brings a fresh controller up: it gives the sizes and the pages of the
  admin rings, none of the registers zero, and sets the enable bit without asking for a normal shutdown; one poll of
  the registers later the controller is ready, its admin queue is empty, starts with phase 1, has the depths asked for
  and the rings the host's pages hold, and the admin doorbells are zero. Polling again changes nothing.\<close>

theorem enable_makes_ready:
  assumes "fresh_device d" and "a \<noteq> 0" and "s \<noteq> 0" and "c \<noteq> 0" and "odd e" and "e div 2 ^ 14 mod 4 \<noteq> 1"
    and "r = (bar d)\<lparr> u_aqa := a, u_asq := s, u_acq := c, u_cc := e \<rparr>"
  shows "\<exists>d'. nvmev_proc_bars (d\<lparr> bar := r \<rparr>) = Some d' \<and> csts_rdy (bar d') \<and>
    admin_q (ctl d') = Some \<lparr> aq_phase = True, aq_sq_depth = a mod 2 ^ 12 + 1, aq_cq_depth = a div 2 ^ 16 mod 2 ^ 12 + 1, aq_cq_head = 0,
      nvme_sq = Some (sq_ring (dev_host (vdev (ctl d))) (page_of s) (a mod 2 ^ 12 + 1)),
      nvme_cq = Some (cq_ring (dev_host (vdev (ctl d))) (page_of c) (a div 2 ^ 16 mod 2 ^ 12 + 1)) \<rparr> \<and>
    dbs (ctl d') = replicate NR_DBS 0 \<and> old_dbs (ctl d') = replicate NR_DBS 0 \<and> nvmev_proc_bars d' = Some d'"
  using enable_handshake [OF assms] by blast

lemma enable_makes_ready_witness:
  "\<exists>d'. nvmev_proc_bars (tiny_device\<lparr> bar := (bar tiny_device)\<lparr> u_aqa := 31 * 65536 + 31, u_asq := 4096, u_acq := 8192, u_cc := 1 \<rparr> \<rparr>) = Some d' \<and> csts_rdy (bar d')"
  using enable_makes_ready [OF tiny_device_fresh _ _ _ _ _ refl, of "31 * 65536 + 31" 4096 8192 1] by auto

text \<open>A controller that the host shuts down, disables and enables again without moving the admin rings comes back
  ready and at the start of the completion ring, but with the phase it had: after an odd number of turns of the
  ring it posts the first completions with phase 0, where a host that starts afresh waits for 1.\<close>

theorem reenable_keeps_phase:
  assumes "settled d" and "arrays_ok (ctl d)" and "admin_q (ctl d) = Some q" and "o_cc (old_bar d) = 1"
    and "d1 = d\<lparr> bar := (bar d)\<lparr> u_cc := 2 ^ 14 + 1 \<rparr> \<rparr>"
  shows "\<exists>d2 d3 d4. nvmev_proc_bars d1 = Some d2 \<and> nvmev_proc_bars (d2\<lparr> bar := (bar d2)\<lparr> u_cc := 0 \<rparr> \<rparr>) = Some d3 \<and>
    nvmev_proc_bars (d3\<lparr> bar := (bar d3)\<lparr> u_cc := 1 \<rparr> \<rparr>) = Some d4 \<and> csts_rdy (bar d4) \<and> csts_shst (bar d2) = 2 \<and> \<not> csts_rdy (bar d3) \<and>
    admin_q (ctl d4) = Some (q\<lparr> aq_cq_head := 0 \<rparr>)"
proof -
  have s1: "settled d1" using assms(1,5) by (simp add: settled_def)
  define d2 where "d2 = d1\<lparr> bar := (bar d1)\<lparr> csts_rdy := True, csts_shst := 2 \<rparr>, old_bar := (old_bar d)\<lparr> o_cc := 2 ^ 14 + 1 \<rparr>,
      ctl := (zero_dbs (ctl d))\<lparr> admin_q := Some (q\<lparr> aq_cq_head := 0 \<rparr>) \<rparr> \<rparr>"
  have a: "arrays_ok (ctl (d1\<lparr> bar := r \<rparr>))" for r using assms(2,5) by simp
  have "bars_cc d1 = Some d2"
    using assms(3,4,5) unfolding bars_cc_def cc_shutdown_eq [OF a] by (simp add: d2_def cc_en_def cc_shn_def)
  then have 1: "nvmev_proc_bars d1 = Some d2" by (simp add: settled_bars [OF s1])
  define e3 where "e3 = d2\<lparr> bar := (bar d2)\<lparr> u_cc := 0 \<rparr> \<rparr>"
  define d3 where "d3 = e3\<lparr> bar := (bar e3)\<lparr> csts_rdy := False \<rparr>, old_bar := (old_bar e3)\<lparr> o_cc := 0 \<rparr> \<rparr>"
  have s3: "settled e3" using s1 assms(5) by (simp add: settled_def e3_def d2_def)
  have 2: "nvmev_proc_bars e3 = Some d3"
    using assms(5) unfolding settled_bars [OF s3] by (simp add: bars_cc_def cc_shutdown_def d3_def e3_def d2_def cc_en_def cc_shn_def)
  define e4 where "e4 = d3\<lparr> bar := (bar d3)\<lparr> u_cc := 1 \<rparr> \<rparr>"
  define d4 where "d4 = e4\<lparr> bar := (bar e4)\<lparr> csts_rdy := True \<rparr>, old_bar := (old_bar e4)\<lparr> o_cc := 1 \<rparr> \<rparr>"
  have s4: "settled e4" using s3 by (simp add: settled_def e4_def d3_def)
  have 3: "nvmev_proc_bars e4 = Some d4"
    unfolding settled_bars [OF s4] by (simp add: bars_cc_def cc_shutdown_def d4_def e4_def d3_def e3_def d2_def cc_en_def cc_shn_def)
  have "csts_rdy (bar d4)" "csts_shst (bar d2) = 2" "\<not> csts_rdy (bar d3)" "admin_q (ctl d4) = Some (q\<lparr> aq_cq_head := 0 \<rparr>)"
    by (simp_all add: d4_def e4_def d3_def e3_def d2_def)
  then show ?thesis using 1 2 3 unfolding e3_def e4_def by blast
qed

definition used_device :: "unit device" where
  "used_device = tiny_device\<lparr> ctl := (ctl tiny_device)\<lparr> admin_q := Some ((tiny_aq [])\<lparr> aq_phase := False \<rparr>) \<rparr>,
     old_bar := (old_bar tiny_device)\<lparr> o_cc := 1 \<rparr> \<rparr>"

lemma reenable_keeps_phase_witness:
  "\<exists>d2 d3 d4. nvmev_proc_bars (used_device\<lparr> bar := (bar used_device)\<lparr> u_cc := 2 ^ 14 + 1 \<rparr> \<rparr>) = Some d2 \<and>
     nvmev_proc_bars (d2\<lparr> bar := (bar d2)\<lparr> u_cc := 0 \<rparr> \<rparr>) = Some d3 \<and> nvmev_proc_bars (d3\<lparr> bar := (bar d3)\<lparr> u_cc := 1 \<rparr> \<rparr>) = Some d4 \<and>
     csts_rdy (bar d4) \<and> map_option aq_phase (admin_q (ctl d4)) = Some False"
proof -
  have "settled used_device" by (simp add: settled_def used_device_def tiny_device_def)
  moreover have "arrays_ok (ctl used_device)"
    using tiny_device_fresh by (simp add: used_device_def fresh_device_def)
  ultimately show ?thesis using reenable_keeps_phase [OF _ _ _ _ refl, of used_device "(tiny_aq [])\<lparr> aq_phase := False \<rparr>"]
    by (auto simp: used_device_def)
qed

text \<open>C12: One round of the dispatcher serves the admin queue: in a reachable, settled state in which the host
  has put new commands into the ring and rung the admin doorbell, and nothing else is new, and in which there are no
  more new commands than the completion ring has entries and the code can serve every one of them
  (\<open>admin_cmd_ok\<close>: queue numbers and log lengths inside the arrays, an existing namespace to identify),
  the round returns, each command has been answered at its place of the completion ring (or left unanswered if the
  code does not handle it), the queue stands n places further, one interrupt is raised for all, and the doorbell is no
  longer news.\<close>

theorem dispatcher_serves_admin:
  assumes "device_run d" and "settled d" and "o_cc (old_bar d) = u_cc (bar d)" and v: "v = ctl d" and "rings v q cs es" and "quiet v"
    and "dbs v ! 0 = new" and "old_dbs v ! 0 = old" and "new \<noteq> old" and "new < aq_sq_depth q" and "old < aq_sq_depth q" and "aq_sq_depth q < 2 ^ 31"
    and "n = (if old \<le> new then new - old else new + aq_sq_depth q - old)" and "n \<le> aq_cq_depth q"
    and "\<And>k. k < n \<Longrightarrow> admin_cmd_ok v (cs ! entry_at q old k)"
  shows "\<exists>v' es'. nvmev_dispatcher handler clock d = Some (d\<lparr> ctl := v' \<rparr>) \<and> rings v' (advanced (q\<lparr> nvme_cq := Some es' \<rparr>) n) cs es' \<and>
    (\<forall>k<n. answer (phase_at q k) (entry_at q old k) (cs ! entry_at q old k) (es ! slot_at q k) (es' ! slot_at q k)) \<and>
    old_dbs v' ! 0 = new \<and> irqs_raised v' = irqs_raised v @ [0]"
proof -
  have ok: "ctl_ok v" using device_run_ok [OF assms(1)] v by (simp add: device_ok_def)
  then have aq: "aq_sq_depth q \<le> length cs" "aq_cq_head q < aq_cq_depth q" "aq_cq_depth q \<le> length es" "arrays_ok v"
    using assms(5) by (simp_all add: ctl_ok_def aq_ok_def rings_def)
  obtain w es' where run: "proc_admin_entries (aq_sq_depth q) old n v = Some w" "rings w (advanced (q\<lparr> nvme_cq := Some es' \<rparr>) n) cs es'"
    and got: "\<forall>k<n. answer (phase_at q k) (entry_at q old k) (cs ! entry_at q old k) (es ! slot_at q k) (es' ! slot_at q k)"
    and frame: "same_setup v w"
    using proc_admin_entries_effect [OF assms(5) aq(1) assms(11) aq(2,3,4) assms(14,15)] by blast
  have w: "quiet w" "arrays_ok w" using proc_admin_entries_keeps [OF run(1) assms(6) ok] by (simp_all add: ctl_ok_def)
  have sg: "signed32 new = int new" "signed32 old = int old" using assms(10-12) by (simp_all add: signed32_def u32_def)
  have num: "nat (if int new - int old < 0 then int new - int old + int (aq_sq_depth q) else int new - int old) = n"
    using assms(10,11,13) by auto
  define v' where "v' = (nvmev_signal_irq 0 w)\<lparr> old_dbs := (old_dbs w)[0 := new] \<rparr>"
  have "nvmev_proc_admin_sq (signed32 new) (signed32 old) v = Some (nvmev_signal_irq 0 w)"
    using assms(5) run(1) num by (simp add: nvmev_proc_admin_sq_def rings_def Let_def sg)
  moreover have ld: "0 < length (dbs v)" "0 < length (old_dbs v)" "0 < length (old_dbs w)" using aq(4) w(2) NR_DBS_pos by (simp_all add: arrays_ok_def)
  ultimately have "db_admin_sq v = Some v'"
    using assms(7-9) by (simp add: db_admin_sq_def set_old_db_def v'_def nvmev_signal_irq_def)
  moreover have v'q: "quiet v'" "arrays_ok v'" using w by (simp_all add: v'_def nvmev_signal_irq_def quiet_def arrays_ok_def)
  ultimately have "nvmev_proc_dbs handler clock v = Some v'"
    using db_loops_quiet(1) [OF v'q, of handler clock] db_loops_quiet(2,3) [OF v'q] unfolding nvmev_proc_dbs_def by (simp only: Option.bind.simps)
  then have "nvmev_dispatcher handler clock d = Some (d\<lparr> ctl := v' \<rparr>)"
    using settled_all [OF assms(2,3)] v by (simp add: nvmev_dispatcher_def)
  moreover have "rings v' x cs es' = rings w x cs es'" for x by (rule rings_cong) (simp add: v'_def nvmev_signal_irq_def)
  moreover have "old_dbs v' ! 0 = new" "irqs_raised v' = irqs_raised v @ [0]" using ld frame by (simp_all add: v'_def nvmev_signal_irq_def same_setup_def)
  ultimately show ?thesis using run(2) got by blast
qed

text \<open>The example: the host brings the controller up and asks for the event notification the code limits.\<close>

lemma dispatcher_serves_admin_witness:
  "\<exists>d v'. device_run (d :: unit device) \<and> nvmev_dispatcher (\<lambda>_ _ _. None) (\<lambda>_ _. (0, 0)) d = Some (d\<lparr> ctl := v' \<rparr>) \<and> old_dbs v' ! 0 = (1 :: nat) \<and> irqs_raised v' = [0]"
proof -
  let ?m = "dev_host (vdev (ctl tiny_device))"
  define cs where "cs = (sq_ring ?m (page_of 4096) ((31 * 65536 + 31) mod 2 ^ 12 + 1))[0 := admin_cmd nvme_admin_async_event 5 0 0]"
  define es where "es = cq_ring ?m (page_of 8192) ((31 * 65536 + 31) div 2 ^ 16 mod 2 ^ 12 + 1)"
  define q where "q = \<lparr> aq_phase = True, aq_sq_depth = (31 * 65536 + 31) mod 2 ^ 12 + 1, aq_cq_depth = (31 * 65536 + 31) div 2 ^ 16 mod 2 ^ 12 + 1, aq_cq_head = 0,
      nvme_sq = Some cs, nvme_cq = Some es \<rparr>"
  obtain d1 where d1: "nvmev_proc_bars (tiny_device\<lparr> bar := (bar tiny_device)\<lparr> u_aqa := 31 * 65536 + 31, u_asq := 4096, u_acq := 8192, u_cc := 1 \<rparr> \<rparr>) = Some d1"
    "admin_q (ctl d1) = Some (q\<lparr> nvme_sq := Some (sq_ring ?m (page_of 4096) ((31 * 65536 + 31) mod 2 ^ 12 + 1)) \<rparr>)"
    "settled d1" "o_cc (old_bar d1) = u_cc (bar d1)"
    using enable_handshake [OF tiny_device_fresh _ _ _ _ _ refl, of "31 * 65536 + 31" 4096 8192 1] unfolding q_def es_def by auto
  define d2 where "d2 = d1\<lparr> ctl := (ctl d1)\<lparr> admin_q := Some q \<rparr> \<rparr>"
  have "device_run d1" by (rule poll_bars [OF host_regs [OF start [OF tiny_device_fresh]] d1(1)])
  from host_command [OF this d1(2), of "sq_ring ?m (page_of 4096) ((31 * 65536 + 31) mod 2 ^ 12 + 1)" 0 "admin_cmd nvme_admin_async_event 5 0 0"]
  have "device_run d2" unfolding d2_def q_def cs_def by simp
  define v where "v = (ctl tiny_device)\<lparr> admin_q := Some q, dbs := (replicate NR_DBS 0)[0 := 1], old_dbs := replicate NR_DBS 0 \<rparr>"
  have arr: "arrays_ok v" using tiny_device_fresh by (simp add: v_def fresh_device_def arrays_ok_def)
  then have r3: "device_run (d2\<lparr> ctl := v \<rparr>)" using io_step [OF \<open>device_run d2\<close>, of v] by (simp add: d2_def v_def)
  have "length (sq_ring ?m (page_of 4096) ((31 * 65536 + 31) mod 2 ^ 12 + 1)) \<noteq> 0" using ring_fits(1) [of "(31 * 65536 + 31) mod 2 ^ 12 + 1" ?m "page_of 4096"] by linarith
  then have c0: "cs ! 0 = admin_cmd nvme_admin_async_event 5 0 0" by (simp add: cs_def)
  then have cmd: "admin_cmd_ok v (cs ! entry_at q 0 k)" if "k < 1" for k
    using that by (simp add: entry_at_def admin_cmd_ok_def) (simp add: admin_cmd_def admin_opcodes)
  have "quiet v" by (auto simp: quiet_def v_def tiny_device_def tiny_ctrl_def)
  moreover have "dbs v ! 0 = 1" "old_dbs v ! 0 = 0" using NR_DBS_pos by (simp_all add: v_def)
  moreover have "rings v q cs es" by (simp add: rings_def v_def q_def)
  moreover have "settled (d2\<lparr> ctl := v \<rparr>)" "o_cc (old_bar (d2\<lparr> ctl := v \<rparr>)) = u_cc (bar (d2\<lparr> ctl := v \<rparr>))"
    using d1(3,4) by (simp_all add: d2_def settled_def)
  ultimately obtain v' where "nvmev_dispatcher (\<lambda>_ _ _. None) (\<lambda>_ _. (0, 0)) (d2\<lparr> ctl := v \<rparr>) = Some (d2\<lparr> ctl := v, ctl := v' \<rparr>)"
    "old_dbs v' ! 0 = 1" "irqs_raised v' = irqs_raised v @ [0]"
    using dispatcher_serves_admin [OF r3, where v = v and q = q and cs = cs and es = es and new = 1 and old = 0 and n = 1
        and handler = "\<lambda>_ _ _. None" and clock = "\<lambda>_ _. (0, 0)"] cmd by (auto simp: q_def)
  moreover have "irqs_raised v = []" by (simp add: v_def tiny_device_def tiny_ctrl_def)
  ultimately show ?thesis using r3 by (intro exI [of _ "d2\<lparr> ctl := v \<rparr>"] exI [of _ v']) simp
qed

end
