(* ===== verification/Dma.thy ===== *)
theory Dma
  imports IO_Queue
begin

text \<open>
  Copying by a DMA engine: the client of the engine in \<open>dma.c\<close> (choosing channels, submitting one copy,
  cleaning up) and the transfer of a command that uses it, \<open>__do_perform_io_using_dma\<close> of \<open>io.c\<close>. The engine
  belongs to the kernel: it is a record of the calls the code makes, over a state \<open>'e\<close> of its own that
  contains the physical memory. Locks and messages have no effect, and \<open>kmalloc\<close> succeeds.
\<close>

section \<open>The engine as the code calls it\<close>

datatype dma_status = DMA_COMPLETE | DMA_IN_PROGRESS | DMA_PAUSED | DMA_ERROR | DMA_OUT_OF_ORDER

record dma_chan =
  dma_chan_name :: string
  dma_dev_name :: string
  has_memcpy :: bool
  has_no_order :: bool

record ('t, 'e) dma_engine =
  prep_dma_memcpy :: "dma_chan \<Rightarrow> nat \<Rightarrow> nat \<Rightarrow> nat \<Rightarrow> 'e \<Rightarrow> 't option"
  tx_submit :: "'t \<Rightarrow> 'e \<Rightarrow> int \<times> 'e"
  dma_sync_wait :: "dma_chan \<Rightarrow> int \<Rightarrow> 'e \<Rightarrow> dma_status \<times> 'e"
  dmaengine_terminate_sync :: "dma_chan \<Rightarrow> 'e \<Rightarrow> 'e"
  dma_request_channel :: "(dma_chan \<Rightarrow> bool) \<Rightarrow> 'e \<Rightarrow> (dma_chan \<times> 'e) option"
  dma_release_channel :: "dma_chan \<Rightarrow> 'e \<Rightarrow> 'e"

section \<open>The client\<close>

record ioat_dma_params =
  dp_buf_size :: nat
  dp_channel :: string
  dp_device :: string
  dp_max_channels :: nat
  dp_timeout :: int
  dp_transfer_size :: nat
  dp_polled :: bool

text \<open>\<open>channels\<close> lists the \<open>struct ioat_dma_chan\<close>, whose list of threads stays empty.\<close>

record ioat_dma_info =
  di_params :: ioat_dma_params
  di_channels :: "dma_chan list"
  di_nr_channels :: nat
  di_last_error :: int

text \<open>The static variables of the file; \<open>dma_thread\<close> holds its channel, NULL at first, and its type is always
  \<open>DMA_MEMCPY\<close>.\<close>

record 'e dma_state =
  test_info :: ioat_dma_info
  test_channel :: string
  dma_thread :: "dma_chan option"
  engine :: 'e

definition CHANNEL_NAME_LEN :: nat where "CHANNEL_NAME_LEN = 20"

definition ENOMEM :: int where "ENOMEM = 12"
definition EBUSY :: int where "EBUSY = 16"
definition EINVAL :: int where "EINVAL = 22"

text \<open>\<open>isspace\<close>, \<open>strim\<close> and \<open>strlcpy\<close> of the kernel. \<open>strim\<close> cuts the blanks at the end in place and
  returns where the blanks at the start end.\<close>

definition isspace :: "char \<Rightarrow> bool" where
  "isspace c \<longleftrightarrow> (of_char c :: nat) \<in> {9, 10, 11, 12, 13, 32, 160}"

definition cut_end :: "string \<Rightarrow> string" where
  "cut_end s = rev (dropWhile isspace (rev s))"

definition strim :: "string \<Rightarrow> string" where
  "strim s = dropWhile isspace (cut_end s)"

definition strlcpy :: "string \<Rightarrow> nat \<Rightarrow> string" where
  "strlcpy s n = take (n - 1) s"

definition ioat_dma_match_channel :: "ioat_dma_params \<Rightarrow> dma_chan \<Rightarrow> bool" where
  "ioat_dma_match_channel p c = (if dp_channel p = '''' then True else dma_chan_name c = dp_channel p)"

definition ioat_dma_match_device :: "ioat_dma_params \<Rightarrow> dma_chan \<Rightarrow> bool" where
  "ioat_dma_match_device p c = (if dp_device p = '''' then True else dma_dev_name c = dp_device p)"

definition dma_filter :: "ioat_dma_params \<Rightarrow> dma_chan \<Rightarrow> bool" where
  "dma_filter p c \<longleftrightarrow> ioat_dma_match_channel p c \<and> ioat_dma_match_device p c"

text \<open>One copy. \<open>None\<close> is the NULL channel of a thread that was never set.\<close>

definition ioat_dma_submit :: "('t, 'e) dma_engine \<Rightarrow> nat \<Rightarrow> nat \<Rightarrow> nat \<Rightarrow> 'e dma_state \<Rightarrow> (int \<times> 'e dma_state) option" where
  "ioat_dma_submit E src dst n g = do {
     chan \<leftarrow> dma_thread g;
     let fail = (\<lambda>e. Some (- ENOMEM, g\<lparr> engine := dmaengine_terminate_sync E chan e \<rparr>));
     (case prep_dma_memcpy E chan dst src n (engine g) of
        None \<Rightarrow> fail (engine g)
      | Some tx \<Rightarrow>
          (let (cookie, e) = tx_submit E tx (engine g)
           in if cookie < 0 then fail e
              else let (status, e) = dma_sync_wait E chan cookie e;
                       e = dmaengine_terminate_sync E chan e
                   in if status \<noteq> DMA_COMPLETE \<and> \<not> (has_no_order chan \<and> status = DMA_OUT_OF_ORDER) then fail e
                      else Some (0, g\<lparr> engine := e \<rparr>)))
   }"

definition ioat_dma_add_channel :: "dma_chan \<Rightarrow> 'e dma_state \<Rightarrow> 'e dma_state" where
  "ioat_dma_add_channel chan g =
     (let info = test_info g;
          info = (if has_no_order chan \<and> dp_polled (di_params info)
                  then info\<lparr> di_params := (di_params info)\<lparr> dp_polled := False \<rparr> \<rparr> else info);
          g = (if has_memcpy chan then g\<lparr> dma_thread := Some chan \<rparr> else g)
      in g\<lparr> test_info := info\<lparr> di_channels := di_channels info @ [chan], di_nr_channels := u32 (di_nr_channels info + 1) \<rparr> \<rparr>)"

text \<open>The loop ends when the engine has no more channels, so only if it has finitely many.\<close>

partial_function (option) request_channels :: "('t, 'e) dma_engine \<Rightarrow> 'e dma_state \<Rightarrow> 'e dma_state option" where
  "request_channels E g =
     (let p = di_params (test_info g)
      in case dma_request_channel E (dma_filter p) (engine g) of
           None \<Rightarrow> Some g
         | Some ce \<Rightarrow>
             (let g = ioat_dma_add_channel (fst ce) (g\<lparr> engine := snd ce \<rparr>); info = test_info g
              in if dp_max_channels (di_params info) \<noteq> 0 \<and> dp_max_channels (di_params info) \<le> di_nr_channels info
                 then Some g else request_channels E g))"

text \<open>The parameters are the static variables of the file; nothing changes any of them but the channel.\<close>

definition add_threaded_dma :: "('t, 'e) dma_engine \<Rightarrow> 'e dma_state \<Rightarrow> 'e dma_state option" where
  "add_threaded_dma E g =
     (let p = \<lparr> dp_buf_size = 4096, dp_channel = strlcpy (strim (test_channel g)) CHANNEL_NAME_LEN, dp_device = strlcpy (strim '''') 32,
                dp_max_channels = 0, dp_timeout = 3000, dp_transfer_size = 1024, dp_polled = True \<rparr>
      in request_channels E (g\<lparr> test_info := (test_info g)\<lparr> di_params := p \<rparr>, test_channel := cut_end (test_channel g) \<rparr>))"

definition ioat_dma_chan_set :: "('t, 'e) dma_engine \<Rightarrow> string \<Rightarrow> 'e dma_state \<Rightarrow> (int \<times> 'e dma_state) option" where
  "ioat_dma_chan_set E val g = do {
     nvmev_assert (length val < CHANNEL_NAME_LEN);
     let g = g\<lparr> test_channel := val \<rparr>;
     let answer = (\<lambda>r g. Some (r, g\<lparr> test_info := (test_info g)\<lparr> di_last_error := r \<rparr> \<rparr>));
     if \<exists>c \<in> set (di_channels (test_info g)). dma_chan_name c = strim val
     then answer (- EBUSY) (g\<lparr> test_channel := cut_end val \<rparr>)
     else do {
       g \<leftarrow> add_threaded_dma E g;
       if di_channels (test_info g) \<noteq> [] then
         if dma_chan_name (last (di_channels (test_info g))) \<noteq> strim (test_channel g) \<and> strim (test_channel g) \<noteq> ''''
         then answer (- EINVAL) g else answer 0 g
       else answer (- EBUSY) g
     }
   }"

definition ioat_dma_cleanup :: "('t, 'e) dma_engine \<Rightarrow> 'e dma_state \<Rightarrow> 'e dma_state" where
  "ioat_dma_cleanup E g =
     (let e = fold (\<lambda>c e. dma_release_channel E c (dmaengine_terminate_sync E c e)) (di_channels (test_info g)) (engine g)
      in g\<lparr> test_info := (test_info g)\<lparr> di_channels := [], di_nr_channels := 0 \<rparr>, engine := e \<rparr>)"

section \<open>The transfer of a command\<close>

text \<open>The first loop of \<open>__do_perform_io_using_dma\<close> collects the addresses of the pieces into the static array
  \<open>paddr_list\<close>, of which element 0 is not used; its steps are those of the copying loop.\<close>

definition PADDR_LIST_LEN :: nat where "PADDR_LIST_LEN = 513"

function gather_prps :: "bytes \<Rightarrow> nat \<Rightarrow> nat \<Rightarrow> nat \<Rightarrow> nat \<Rightarrow> nat option \<Rightarrow> nat \<Rightarrow> nat list \<Rightarrow> (nat \<times> nat list) option" where
  "gather_prps m p1 p2 n remaining lst i addrs =
     (if remaining = 0 then Some (n, addrs)
      else case prp_next m p1 p2 (n + 1) remaining lst i of
        None \<Rightarrow> None
      | Some (paddr, lst', i') \<Rightarrow>
          (case arr_set addrs (n + 1) paddr of
             None \<Rightarrow> None
           | Some addrs' \<Rightarrow> gather_prps m p1 p2 (n + 1) (remaining - prp_io_size paddr remaining) lst' i' addrs'))"
  by pat_completeness auto
termination
  by (relation "measure (\<lambda>(m, p1, p2, n, r, _). r)") (auto simp: prp_io_size_pos)

declare gather_prps.simps [simp del]

text \<open>The inner loop of the second one: pages that follow each other in memory are joined to one copy.\<close>

function coalesce :: "nat list \<Rightarrow> nat \<Rightarrow> nat \<Rightarrow> nat \<Rightarrow> (nat \<times> nat) option" where
  "coalesce addrs num j page_size =
     (if j \<le> num then do {
        a \<leftarrow> arr_get addrs j;
        b \<leftarrow> arr_get addrs (j - 1);
        if a = u64 (b + PAGE_SIZE) then coalesce addrs num (j + 1) (page_size + PAGE_SIZE) else Some (j, page_size)
      } else Some (j, page_size))"
  by pat_completeness auto
termination
  by (relation "measure (\<lambda>(_, num, j, _). Suc num - j)") auto

declare coalesce.simps [simp del]

lemma coalesce_grows: "coalesce addrs num j ps = Some (j', ps') \<Longrightarrow> ps \<le> ps'"
proof (induction addrs num j ps rule: coalesce.induct)
  case (1 addrs num j ps)
  from "1.prems" show ?case
    by (subst (asm) coalesce.simps) (auto split: if_splits bind_splits dest!: "1.IH")
qed

text \<open>What \<open>ioat_dma_submit\<close> returns is not looked at.\<close>

definition dma_piece :: "('t, 'e) dma_engine \<Rightarrow> nat \<Rightarrow> nat \<Rightarrow> nat \<Rightarrow> nat \<Rightarrow> nat \<Rightarrow> 'e dma_state \<Rightarrow> 'e dma_state option" where
  "dma_piece E op start paddr offset io_size g =
     (if op = nvme_cmd_write \<or> op = nvme_cmd_zone_append then map_option snd (ioat_dma_submit E paddr (u64 (start + offset)) (u32 io_size) g)
      else if op = nvme_cmd_read then map_option snd (ioat_dma_submit E (u64 (start + offset)) paddr (u32 io_size) g)
      else Some g)"

function dma_transfer :: "('t, 'e) dma_engine \<Rightarrow> nat \<Rightarrow> nat \<Rightarrow> nat list \<Rightarrow> nat \<Rightarrow> nat \<Rightarrow> nat \<Rightarrow> nat \<Rightarrow> 'e dma_state \<Rightarrow> 'e dma_state option" where
  "dma_transfer E op start addrs num prp_offs remaining offset g =
     (if remaining = 0 then Some g
      else case arr_get addrs prp_offs of
        None \<Rightarrow> None
      | Some paddr \<Rightarrow>
          (case coalesce addrs num (prp_offs + 1) (prp_io_size paddr remaining) of
             None \<Rightarrow> None
           | Some (prp_offs', page_size) \<Rightarrow>
               (case dma_piece E op start paddr offset (min remaining page_size) g of
                  None \<Rightarrow> None
                | Some g' \<Rightarrow> dma_transfer E op start addrs num prp_offs' (remaining - min remaining page_size)
                              (u64 (offset + min remaining page_size)) g')))"
  by pat_completeness auto
termination
proof (relation "measure (\<lambda>(E, op, s, a, num, p, r, _). r)", goal_cases)
  case (2 E op start addrs num prp_offs remaining offset g paddr r prp_offs' page_size g')
  then have "prp_io_size paddr remaining \<le> page_size" by (auto dest!: coalesce_grows)
  with prp_io_size_pos [of remaining paddr] 2 show ?case by simp
qed simp

declare dma_transfer.simps [simp del]

text \<open>\<open>storage_start\<close> is the physical address of the memory of the first namespace; the command's namespace is
  not looked at. \<open>mem\<close> reads the physical memory, where the PRP list is.\<close>

definition do_perform_io_using_dma ::
  "('t, 'e) dma_engine \<Rightarrow> ('e \<Rightarrow> bytes) \<Rightarrow> nat \<Rightarrow> nvme_command \<Rightarrow> 'e dma_state \<Rightarrow> (nat \<times> 'e dma_state) option" where
  "do_perform_io_using_dma E mem start c g = do {
     let offset = u64 (rw_slba c * 512);
     let len = (rw_length c + 1) * 512;
     (num_prps, addrs) \<leftarrow> gather_prps (mem (engine g)) (prp1 c) (prp2 c) 0 len None 0 (replicate PADDR_LIST_LEN 0);
     g \<leftarrow> dma_transfer E (opcode c) start addrs num_prps 1 len offset g;
     Some (len, g)
   }"

section \<open>What the copy moves\<close>

text \<open>The documented behaviour of an engine: a copy that is prepared, submitted and waited for has been made.\<close>

definition engine_copies :: "('t, 'e) dma_engine \<Rightarrow> ('e \<Rightarrow> bytes) \<Rightarrow> bool" where
  "engine_copies E mem \<longleftrightarrow> (\<forall>chan src dst n e. \<exists>tx. prep_dma_memcpy E chan dst src n e = Some tx \<and>
     (let (cookie, e1) = tx_submit E tx e; (status, e2) = dma_sync_wait E chan cookie e1
      in 0 \<le> cookie \<and> status = DMA_COMPLETE \<and> mem (dmaengine_terminate_sync E chan e2) = memcpy (mem e) dst (mem e) src n))"

lemma submit_copies:
  assumes "engine_copies E mem" and "dma_thread g = Some chan"
  shows "\<exists>g'. ioat_dma_submit E src dst n g = Some (0, g') \<and> mem (engine g') = memcpy (mem (engine g)) dst (mem (engine g)) src n \<and>
    dma_thread g' = Some chan"
proof -
  obtain tx where tx: "prep_dma_memcpy E chan dst src n (engine g) = Some tx"
    "let (cookie, e1) = tx_submit E tx (engine g); (status, e2) = dma_sync_wait E chan cookie e1
     in 0 \<le> cookie \<and> status = DMA_COMPLETE \<and> mem (dmaengine_terminate_sync E chan e2) = memcpy (mem (engine g)) dst (mem (engine g)) src n"
    using assms(1) unfolding engine_copies_def by blast
  then show ?thesis using assms(2) by (auto simp: ioat_dma_submit_def Let_def split: prod.splits)
qed

text \<open>Where the pieces of a transfer start.\<close>

definition piece_pos :: "nat \<Rightarrow> nat \<Rightarrow> nat" where
  "piece_pos p1 k = (if k = 0 then 0 else (PAGE_SIZE - p1 mod PAGE_SIZE) + (k - 1) * PAGE_SIZE)"

lemma piece_pos_0 [simp]: "piece_pos p1 0 = 0"
  by (simp add: piece_pos_def)

lemma piece_pos_1: "piece_pos p1 (Suc 0) = PAGE_SIZE - p1 mod PAGE_SIZE"
  by (simp add: piece_pos_def)

lemma piece_pos_Suc: "0 < k \<Longrightarrow> piece_pos p1 (Suc k) = piece_pos p1 k + PAGE_SIZE"
  by (cases k) (simp_all add: piece_pos_def)

lemma piece_pos_less: "piece_pos p1 k < piece_pos p1 (Suc k)"
  by (cases "k = 0") (simp_all add: piece_pos_1 piece_pos_Suc PAGE_SIZE_def)

lemma piece_pos_mono: "j \<le> k \<Longrightarrow> piece_pos p1 j \<le> piece_pos p1 k"
  by (rule lift_Suc_mono_le [of "piece_pos p1"]) (simp_all add: piece_pos_less less_imp_le)

lemma prp_addr_page:
  assumes "y < PAGE_SIZE"
  shows "prp_addr m p1 p2 len (piece_pos p1 (Suc i) + y) =
    (if len - piece_pos p1 (Suc 0) \<le> PAGE_SIZE then p2 + (i * PAGE_SIZE + y) else le64 m (p2 + 8 * i) + y)"
proof -
  define first where "first = PAGE_SIZE - p1 mod PAGE_SIZE"
  have pos: "piece_pos p1 (Suc i) + y = first + (i * PAGE_SIZE + y)" "piece_pos p1 (Suc 0) = first"
    by (simp_all add: piece_pos_def first_def)
  have "(i * PAGE_SIZE + y) div PAGE_SIZE = i" "(i * PAGE_SIZE + y) mod PAGE_SIZE = y" using assms by simp_all
  then show ?thesis unfolding pos by (simp add: prp_addr_def first_def [symmetric] Let_def)
qed

lemma prp_addr_piece:
  assumes "piece_pos p1 k + y < piece_pos p1 (Suc k)"
  shows "prp_addr m p1 p2 len (piece_pos p1 k + y) = prp_addr m p1 p2 len (piece_pos p1 k) + y"
proof (cases k)
  case 0
  then show ?thesis using assms by (simp add: prp_addr_def piece_pos_1 Let_def)
next
  case (Suc i)
  then have y: "y < PAGE_SIZE" and p: "0 < PAGE_SIZE" using assms by (simp_all add: piece_pos_Suc PAGE_SIZE_def)
  show ?thesis using prp_addr_page [OF y, of m p1 p2 len i] prp_addr_page [OF p, of m p1 p2 len i] Suc by simp
qed

lemma prp_addr_aligned:
  assumes "prp_wf m p1 p2 len" and "0 < k" and "piece_pos p1 k < len"
  shows "prp_addr m p1 p2 len (piece_pos p1 k) mod PAGE_SIZE = 0"
proof -
  define first where "first = PAGE_SIZE - p1 mod PAGE_SIZE"
  let ?n = "(len - first + PAGE_SIZE - 1) div PAGE_SIZE"
  obtain i where k: "k = Suc i" using assms(2) by (cases k) auto
  have pos: "piece_pos p1 k = first + i * PAGE_SIZE" "piece_pos p1 (Suc 0) = first" using k by (simp_all add: piece_pos_def first_def)
  have len: "first < len" using assms(3) pos by simp
  have wf: "len - first \<le> PAGE_SIZE \<Longrightarrow> p2 mod PAGE_SIZE = 0" "\<not> len - first \<le> PAGE_SIZE \<Longrightarrow> \<forall>j < ?n. le64 m (p2 + 8 * j) mod PAGE_SIZE = 0"
    using assms(1) len unfolding prp_wf_def Let_def first_def [symmetric] by auto
  have "0 < PAGE_SIZE" by (simp add: PAGE_SIZE_def)
  note addr = prp_addr_page [OF this, of m p1 p2 len i, folded k, unfolded pos(2), simplified]
  show ?thesis
  proof (cases "len - first \<le> PAGE_SIZE")
    case True
    then show ?thesis using wf(1) by (simp add: addr mod_add_left_eq [symmetric])
  next
    case False
    have "i * PAGE_SIZE < len - first" using assms(3) pos by linarith
    then have "i < ?n" by (simp add: PAGE_SIZE_def)
    then show ?thesis using False wf(2) by (simp add: addr)
  qed
qed

lemma piece_io_size:
  assumes "prp_wf m p1 p2 len" and "piece_pos p1 k < len"
  shows "prp_io_size (prp_addr m p1 p2 len (piece_pos p1 k)) (len - piece_pos p1 k) = min len (piece_pos p1 (Suc k)) - piece_pos p1 k"
proof (cases "k = 0")
  case True
  then have "prp_addr m p1 p2 len (piece_pos p1 k) = p1" by (simp add: prp_addr_def Let_def PAGE_SIZE_def)
  then show ?thesis using True by (simp add: prp_io_size_eq piece_pos_1)
next
  case False
  then show ?thesis using prp_addr_aligned [OF assms(1) _ assms(2)] by (simp add: prp_io_size_eq piece_pos_Suc)
qed

text \<open>What the first loop leaves in the array.\<close>

definition gathered :: "bytes \<Rightarrow> nat \<Rightarrow> nat \<Rightarrow> nat \<Rightarrow> nat \<Rightarrow> nat list \<Rightarrow> bool" where
  "gathered m p1 p2 len num addrs \<longleftrightarrow> length addrs = PADDR_LIST_LEN \<and> num < PADDR_LIST_LEN \<and> len \<le> piece_pos p1 num \<and>
     (\<forall>k < num. piece_pos p1 k < len \<and> addrs ! Suc k = prp_addr m p1 p2 len (piece_pos p1 k))"

lemma gather_pieces:
  assumes wf: "prp_wf m p1 p2 len" and fits: "len \<le> piece_pos p1 (PADDR_LIST_LEN - 1)"
    and at: "x < len \<Longrightarrow> piece_at m p1 p2 len n x lst i" and x: "x = min len (piece_pos p1 n)"
    and addrs: "length addrs = PADDR_LIST_LEN" "\<forall>k < n. piece_pos p1 k < len \<and> addrs ! Suc k = prp_addr m p1 p2 len (piece_pos p1 k)"
  shows "\<exists>num addrs'. gather_prps m p1 p2 n (len - x) lst i addrs = Some (num, addrs') \<and> gathered m p1 p2 len num addrs'"
  using at x addrs
proof (induction "len - x" arbitrary: n x lst i addrs rule: less_induct)
  case less
  show ?case
  proof (cases "x < len")
    case False
    then have "len \<le> piece_pos p1 n" using less.prems(2) by simp
    moreover have "n < PADDR_LIST_LEN"
    proof (rule ccontr)
      assume "\<not> n < PADDR_LIST_LEN"
      then have "PADDR_LIST_LEN - 1 < n" by (simp add: PADDR_LIST_LEN_def)
      then have "piece_pos p1 (PADDR_LIST_LEN - 1) < len" using less.prems(4) by blast
      then show False using fits by simp
    qed
    ultimately show ?thesis using False less.prems by (simp add: gather_prps.simps gathered_def)
  next
    case True
    then have xp: "x = piece_pos p1 n" using less.prems(2) by (simp add: min_def split: if_splits)
    from piece_next [OF wf less.prems(1) [OF True] True] obtain a lst' i'
      where nx: "prp_next m p1 p2 (n + 1) (len - x) lst i = Some (a, lst', i')"
        and ad: "\<forall>y < prp_io_size a (len - x). prp_addr m p1 p2 len (x + y) = a + y"
        and pa: "x + prp_io_size a (len - x) < len \<longrightarrow> piece_at m p1 p2 len (n + 1) (x + prp_io_size a (len - x)) lst' i'" by blast
    have a: "a = prp_addr m p1 p2 len x" using ad prp_io_size_pos [of "len - x" a] True by (metis add.right_neutral zero_less_diff)
    then have io: "prp_io_size a (len - x) = min len (piece_pos p1 (Suc n)) - x"
      using piece_io_size [OF wf, of n] True xp by simp
    have x': "x + prp_io_size a (len - x) = min len (piece_pos p1 (Suc n))"
      using io True piece_pos_less [of p1 n] xp by simp
    have "n < PADDR_LIST_LEN - 1"
    proof (rule ccontr)
      assume "\<not> n < PADDR_LIST_LEN - 1"
      then have "piece_pos p1 (PADDR_LIST_LEN - 1) \<le> piece_pos p1 n" by (intro piece_pos_mono) simp
      then show False using True xp fits by simp
    qed
    then have set': "arr_set addrs (n + 1) a = Some (addrs[n + 1 := a])" using less.prems(3) by (simp add: arr_set_def)
    have "\<exists>num addrs'. gather_prps m p1 p2 (n + 1) (len - (x + prp_io_size a (len - x))) lst' i' (addrs[n + 1 := a]) = Some (num, addrs') \<and>
        gathered m p1 p2 len num addrs'"
    proof (rule less.hyps)
      show "len - (x + prp_io_size a (len - x)) < len - x" using True prp_io_size_pos [of "len - x" a] by simp
      show "\<forall>k < n + 1. piece_pos p1 k < len \<and> addrs[n + 1 := a] ! Suc k = prp_addr m p1 p2 len (piece_pos p1 k)"
        using less.prems(3,4) True a xp \<open>n < PADDR_LIST_LEN - 1\<close> by (auto simp: nth_list_update less_Suc_eq)
    qed (use pa x' less.prems(3) in auto)
    then show ?thesis using True nx set' by (subst gather_prps.simps) simp
  qed
qed

text \<open>What joining finds: pieces \<open>k\<close> to \<open>j - 2\<close> are one stretch of memory.\<close>

definition joined :: "bytes \<Rightarrow> nat \<Rightarrow> nat \<Rightarrow> nat \<Rightarrow> nat \<Rightarrow> nat \<Rightarrow> nat \<Rightarrow> nat \<Rightarrow> bool" where
  "joined m p1 p2 len num k j ps \<longleftrightarrow> k + 2 \<le> j \<and> j \<le> num + 1 \<and>
     min (len - piece_pos p1 k) ps = min len (piece_pos p1 (j - 1)) - piece_pos p1 k \<and>
     (\<forall>y. piece_pos p1 k + y < min len (piece_pos p1 (j - 1)) \<longrightarrow>
        prp_addr m p1 p2 len (piece_pos p1 k + y) = prp_addr m p1 p2 len (piece_pos p1 k) + y)"

lemma gathered_addr: "gathered m p1 p2 len num addrs \<Longrightarrow> k < num \<Longrightarrow> arr_get addrs (Suc k) = Some (prp_addr m p1 p2 len (piece_pos p1 k))"
  by (auto simp: gathered_def arr_get_def)

lemma coalesce_joins:
  assumes wf: "prp_wf m p1 p2 len" and g: "gathered m p1 p2 len num addrs" and k: "k < num"
    and low: "\<forall>x < len. prp_addr m p1 p2 len x < 2 ^ 63"
    and j: "joined m p1 p2 len num k j ps" "j \<le> num \<longrightarrow> ps = piece_pos p1 (j - 1) - piece_pos p1 k"
  shows "\<exists>j' ps'. coalesce addrs num j ps = Some (j', ps') \<and> joined m p1 p2 len num k j' ps'"
  using j
proof (induction "num + 1 - j" arbitrary: j ps rule: less_induct)
  case less
  let ?A = "prp_addr m p1 p2 len" and ?p = "piece_pos p1"
  show ?case
  proof (cases "j \<le> num")
    case False
    then show ?thesis using less.prems by (simp add: coalesce.simps)
  next
    case True
    obtain i where i: "j = Suc (Suc i)" "k \<le> i" using less.prems(1) by (metis joined_def add_2_eq_Suc' le_Suc_ex add_Suc le_add1)
    have in': "?p i < len" "?p (Suc i) < len" using g True i by (simp_all add: gathered_def)
    have get: "arr_get addrs j = Some (?A (?p (Suc i)))" "arr_get addrs (j - 1) = Some (?A (?p i))"
      using gathered_addr [OF g] True i by simp_all
    have ki: "?p k \<le> ?p i" "?p i < ?p (Suc i)" using i piece_pos_mono piece_pos_less by simp_all
    have run: "?A (?p k + y) = ?A (?p k) + y" if "?p k + y < ?p (Suc i)" for y
      using less.prems(1) that in' i by (simp add: joined_def)
    have Ai: "?A (?p i) = ?A (?p k) + (?p i - ?p k)" using run [of "?p i - ?p k"] ki by simp
    have wrap: "u64 (?A (?p i) + PAGE_SIZE) = ?A (?p i) + PAGE_SIZE" using low in' by (auto simp: u64_def PAGE_SIZE_def dest!: spec [of _ "?p i"])
    show ?thesis
    proof (cases "?A (?p (Suc i)) = ?A (?p i) + PAGE_SIZE")
      case False
      then show ?thesis using True get wrap less.prems by (simp add: coalesce.simps)
    next
      case next_page: True
      have full: "?p (Suc i) = ?p i + PAGE_SIZE"
      proof (cases "i = 0")
        case False
        then show ?thesis by (simp add: piece_pos_Suc)
      next
        case True
        have "?A 0 = p1" by (simp add: prp_addr_def Let_def PAGE_SIZE_def)
        then have "(p1 + PAGE_SIZE) mod PAGE_SIZE = 0" using prp_addr_aligned [OF wf _ in'(2)] next_page True by simp
        then show ?thesis using True by (simp add: piece_pos_1)
      qed
      have pj: "?p j = ?p (Suc i) + PAGE_SIZE" using i by (simp add: piece_pos_Suc)
      have run': "?A (?p k + y) = ?A (?p k) + y" if y: "?p k + y < min len (?p j)" for y
      proof (cases "?p k + y < ?p (Suc i)")
        case False
        define z where "z = ?p k + y - ?p (Suc i)"
        have z: "?p k + y = ?p (Suc i) + z" "?p (Suc i) + z < ?p (Suc (Suc i))" using False y i by (simp_all add: z_def)
        have "?A (?p k + y) = ?A (?p (Suc i)) + z" unfolding z(1) by (rule prp_addr_piece [OF z(2)])
        then show ?thesis using next_page Ai full ki z(1) by simp
      qed (rule run)
      have "joined m p1 p2 len num k (j + 1) (ps + PAGE_SIZE)"
        using less.prems True run' pj full ki i by (auto simp: joined_def min_def)
      moreover have "j + 1 \<le> num \<longrightarrow> ps + PAGE_SIZE = ?p (j + 1 - 1) - ?p k"
        using less.prems(2) True pj ki i by simp
      ultimately obtain j' ps' where "coalesce addrs num (j + 1) (ps + PAGE_SIZE) = Some (j', ps')" "joined m p1 p2 len num k j' ps'"
        using less.hyps [of "j + 1" "ps + PAGE_SIZE"] True by (metis Suc_eq_plus1 diff_less_mono2 less_Suc_eq_le lessI)
      then show ?thesis using True get wrap next_page by (subst coalesce.simps) simp
    qed
  qed
qed

text \<open>One round of the second loop: from piece \<open>k\<close> to piece \<open>j\<close>, one copy.\<close>

lemma transfer_round:
  assumes wf: "prp_wf m p1 p2 len" and g: "gathered m p1 p2 len num addrs" and k: "k < num"
    and low: "\<forall>x < len. prp_addr m p1 p2 len x < 2 ^ 63"
  shows "\<exists>j ps. coalesce addrs num (Suc k + 1) (prp_io_size (prp_addr m p1 p2 len (piece_pos p1 k)) (len - piece_pos p1 k)) = Some (Suc j, ps) \<and>
    k < j \<and> j \<le> num \<and> min (len - piece_pos p1 k) ps = min len (piece_pos p1 j) - piece_pos p1 k \<and> piece_pos p1 k < min len (piece_pos p1 j) \<and>
    (\<forall>y < min (len - piece_pos p1 k) ps. prp_addr m p1 p2 len (piece_pos p1 k + y) = prp_addr m p1 p2 len (piece_pos p1 k) + y)"
proof -
  let ?p = "piece_pos p1"
  have kl: "?p k < len" using g k by (simp add: gathered_def)
  note io = piece_io_size [OF wf kl]
  have "joined m p1 p2 len num k (Suc k + 1) (prp_io_size (prp_addr m p1 p2 len (?p k)) (len - ?p k))"
    unfolding io using k by (auto simp: joined_def intro: prp_addr_piece)
  moreover have "Suc k + 1 \<le> num \<longrightarrow> prp_io_size (prp_addr m p1 p2 len (?p k)) (len - ?p k) = ?p (Suc k + 1 - 1) - ?p k"
    unfolding io using g by (auto simp: gathered_def)
  ultimately obtain j' ps where j': "coalesce addrs num (Suc k + 1) (prp_io_size (prp_addr m p1 p2 len (?p k)) (len - ?p k)) = Some (j', ps)"
    "joined m p1 p2 len num k j' ps" using coalesce_joins [OF wf g k low] by blast
  then obtain j where j: "j' = Suc j" by (cases j') (auto simp: joined_def)
  have "?p k < ?p j" using piece_pos_less [of p1 k] piece_pos_mono [of "Suc k" j p1] j'(2) j by (simp add: joined_def)
  have n: "min (len - ?p k) ps = min len (?p j) - ?p k" using j'(2) j by (simp add: joined_def)
  have "prp_addr m p1 p2 len (?p k + y) = prp_addr m p1 p2 len (?p k) + y" if "y < min (len - ?p k) ps" for y
  proof -
    have "?p k + y < min len (?p j)" using that unfolding n by linarith
    then show ?thesis using j'(2) j by (simp add: joined_def)
  qed
  moreover have "k < j" "j \<le> num" "?p k < min len (?p j)" using \<open>?p k < ?p j\<close> j'(2) j kl by (simp_all add: joined_def)
  ultimately show ?thesis using j'(1) j n by blast
qed

text \<open>Host to device.\<close>

lemma transfer_from_host:
  assumes E: "engine_copies E mem" and op: "op = nvme_cmd_write \<or> op = nvme_cmd_zone_append"
    and wf: "prp_wf m p1 p2 len" and g: "gathered m p1 p2 len num addrs"
    and low: "\<forall>x < len. prp_addr m p1 p2 len x < 2 ^ 63" and top: "start + off + len < 2 ^ 63" "len < 2 ^ 32"
    and apart: "\<forall>x < len. prp_addr m p1 p2 len x \<notin> {start + off..<start + off + len}"
    and k: "k \<le> num" "x = min len (piece_pos p1 k)" and s: "dma_thread s = Some chan"
    and host: "\<forall>y < len. mem (engine s) (prp_addr m p1 p2 len y) = m (prp_addr m p1 p2 len y)"
  shows "\<exists>s'. dma_transfer E op start addrs num (Suc k) (len - x) (off + x) s = Some s' \<and>
    mem (engine s') = (\<lambda>z. if start + off + x \<le> z \<and> z < start + off + len then m (prp_addr m p1 p2 len (z - (start + off))) else mem (engine s) z)"
  using k s host
proof (induction "num - k" arbitrary: k x s rule: less_induct)
  case less
  let ?A = "prp_addr m p1 p2 len" and ?p = "piece_pos p1"
  show ?case
  proof (cases "k < num")
    case False
    then have "x = len" using less.prems g by (simp add: gathered_def)
    then show ?thesis by (auto simp: dma_transfer.simps fun_eq_iff)
  next
    case True
    then have x: "x = ?p k" "x < len" using less.prems(2) g by (simp_all add: gathered_def)
    from transfer_round [OF wf g True low] obtain j ps
      where c: "coalesce addrs num (Suc k + 1) (prp_io_size (?A x) (len - x)) = Some (Suc j, ps)"
        and j: "k < j" "j \<le> num" "min (len - x) ps = min len (?p j) - x" "x < min len (?p j)"
        and run: "\<forall>y < min (len - x) ps. ?A (x + y) = ?A x + y" unfolding x(1) by blast
    let ?n = "min (len - x) ps"
    have x': "x + ?n = min len (?p j)" using j(3,4) by simp
    have ex: "u64 (start + (off + x)) = start + off + x" "u32 ?n = ?n" "u64 (off + x + ?n) = off + (x + ?n)"
      using top x x' by (simp_all add: u64_def u32_def)
    obtain s1 where s1: "ioat_dma_submit E (?A x) (start + off + x) ?n s = Some (0, s1)"
      "mem (engine s1) = memcpy (mem (engine s)) (start + off + x) (mem (engine s)) (?A x) ?n" "dma_thread s1 = Some chan"
      using submit_copies [OF E less.prems(3)] by blast
    have piece: "dma_piece E op start (?A x) (off + x) ?n s = Some s1" using op s1(1) by (simp add: dma_piece_def ex(1,2))
    have host: "\<forall>y < len. mem (engine s1) (?A y) = m (?A y)"
      using apart less.prems(4) x' by (auto simp: s1(2) memcpy_def)
    obtain s' where s': "dma_transfer E op start addrs num (Suc j) (len - (x + ?n)) (off + (x + ?n)) s1 = Some s'"
      "mem (engine s') = (\<lambda>z. if start + off + (x + ?n) \<le> z \<and> z < start + off + len then m (?A (z - (start + off))) else mem (engine s1) z)"
      using less.hyps [OF diff_less_mono2 [OF j(1) True] j(2) x' s1(3) host] by blast
    have "mem (engine s') z = (if start + off + x \<le> z \<and> z < start + off + len then m (?A (z - (start + off))) else mem (engine s) z)" for z
    proof (cases "start + off + x \<le> z \<and> z < start + off + x + ?n")
      case True
      define y where "y = z - (start + off + x)"
      have y: "z = start + off + (x + y)" "y < ?n" using True unfolding y_def by linarith+
      have "x + y < len" using y(2) by linarith
      moreover from this have "m (?A (x + y)) = mem (engine s) (?A x + y)" using less.prems(4) run y(2) by metis
      ultimately show ?thesis using y by (simp add: s'(2) s1(2) memcpy_def)
    next
      case False
      then show ?thesis using x' by (auto simp: s'(2) s1(2) memcpy_def)
    qed
    then have "mem (engine s') = (\<lambda>z. if start + off + x \<le> z \<and> z < start + off + len then m (?A (z - (start + off))) else mem (engine s) z)" by blast
    moreover have "dma_transfer E op start addrs num (Suc k) (len - x) (off + x) s = Some s'"
    proof -
      have a: "arr_get addrs (Suc k) = Some (?A x)" using gathered_addr [OF g True] x(1) by simp
      have rest: "dma_transfer E op start addrs num (Suc j) (len - x - ?n) (u64 (off + x + ?n)) s1 = Some s'"
        using s'(1) by (simp only: ex(3) diff_diff_left)
      have "len - x \<noteq> 0" using x(2) by simp
      then show ?thesis by (subst dma_transfer.simps) (simp only: a c piece rest if_False option.case prod.case)
    qed
    ultimately show ?thesis by blast
  qed
qed

text \<open>Device to host.\<close>

lemma transfer_to_host:
  assumes E: "engine_copies E mem" and wf: "prp_wf m p1 p2 len" and g: "gathered m p1 p2 len num addrs"
    and low: "\<forall>x < len. prp_addr m p1 p2 len x < 2 ^ 63" and top: "start + off + len < 2 ^ 63" "len < 2 ^ 32"
    and apart: "\<forall>x < len. prp_addr m p1 p2 len x \<notin> {start + off..<start + off + len}"
    and inj: "inj_on (prp_addr m p1 p2 len) {..<len}"
    and k: "k \<le> num" "x = min len (piece_pos p1 k)" and s: "dma_thread s = Some chan"
  shows "\<exists>s'. dma_transfer E nvme_cmd_read start addrs num (Suc k) (len - x) (off + x) s = Some s' \<and>
    (\<forall>y < len. x \<le> y \<longrightarrow> mem (engine s') (prp_addr m p1 p2 len y) = mem (engine s) (start + off + y)) \<and>
    (\<forall>z. z \<notin> prp_addr m p1 p2 len ` {x..<len} \<longrightarrow> mem (engine s') z = mem (engine s) z)"
  using k s
proof (induction "num - k" arbitrary: k x s rule: less_induct)
  case less
  let ?A = "prp_addr m p1 p2 len" and ?p = "piece_pos p1"
  show ?case
  proof (cases "k < num")
    case False
    then have "x = len" using less.prems g by (simp add: gathered_def)
    then show ?thesis by (auto simp: dma_transfer.simps)
  next
    case True
    then have x: "x = ?p k" "x < len" using less.prems(2) g by (simp_all add: gathered_def)
    from transfer_round [OF wf g True low] obtain j ps
      where c: "coalesce addrs num (Suc k + 1) (prp_io_size (?A x) (len - x)) = Some (Suc j, ps)"
        and j: "k < j" "j \<le> num" "min (len - x) ps = min len (?p j) - x" "x < min len (?p j)"
        and run: "\<forall>y < min (len - x) ps. ?A (x + y) = ?A x + y" unfolding x(1) by blast
    let ?n = "min (len - x) ps"
    have x': "x + ?n = min len (?p j)" using j(3,4) by simp
    have ex: "u64 (start + (off + x)) = start + off + x" "u32 ?n = ?n" "u64 (off + x + ?n) = off + (x + ?n)"
      using top x x' by (simp_all add: u64_def u32_def)
    obtain s1 where s1: "ioat_dma_submit E (start + off + x) (?A x) ?n s = Some (0, s1)"
      "mem (engine s1) = memcpy (mem (engine s)) (?A x) (mem (engine s)) (start + off + x) ?n" "dma_thread s1 = Some chan"
      using submit_copies [OF E less.prems(3)] by blast
    have piece: "dma_piece E nvme_cmd_read start (?A x) (off + x) ?n s = Some s1"
      using s1(1) by (simp add: dma_piece_def ex(1,2) nvme_cmd_read_def nvme_cmd_write_def nvme_cmd_zone_append_def)
    have hit: "z \<in> ?A ` {x..<x + ?n} \<longleftrightarrow> ?A x \<le> z \<and> z < ?A x + ?n" for z
    proof
      assume "z \<in> ?A ` {x..<x + ?n}"
      then obtain w where w: "x \<le> w" "w < x + ?n" "z = ?A w" by auto
      define d where "d = w - x"
      have "z = ?A (x + d)" "d < ?n" using w by (auto simp: d_def)
      then show "?A x \<le> z \<and> z < ?A x + ?n" using run by simp
    next
      assume z: "?A x \<le> z \<and> z < ?A x + ?n"
      define d where "d = z - ?A x"
      have d: "z = ?A x + d" "d < ?n" using z by (auto simp: d_def)
      then have "z = ?A (x + d)" using run by simp
      then show "z \<in> ?A ` {x..<x + ?n}" using d(2) by (intro image_eqI [of _ _ "x + d"]) auto
    qed
    have s1_at: "mem (engine s1) (?A y) = mem (engine s) (start + off + y)" if y: "x \<le> y" "y < x + ?n" for y
    proof -
      define e where "e = y - x"
      have e: "y = x + e" "e < ?n" using y unfolding e_def by linarith+
      have "?A y = ?A x + e" using e run by simp
      then show ?thesis using e(2) by (simp add: e(1) s1(2) memcpy_def add.assoc)
    qed
    have s1_off: "mem (engine s1) z = mem (engine s) z" if "z \<notin> ?A ` {x..<x + ?n}" for z
      using that unfolding hit by (auto simp: s1(2) memcpy_def)
    have s1_store: "mem (engine s1) (start + off + y) = mem (engine s) (start + off + y)" if "y < len" for y
      using apart that x' by (intro s1_off) (auto simp: image_iff)
    obtain s' where s': "dma_transfer E nvme_cmd_read start addrs num (Suc j) (len - (x + ?n)) (off + (x + ?n)) s1 = Some s'"
      "\<forall>y < len. x + ?n \<le> y \<longrightarrow> mem (engine s') (?A y) = mem (engine s1) (start + off + y)"
      "\<forall>z. z \<notin> ?A ` {x + ?n..<len} \<longrightarrow> mem (engine s') z = mem (engine s1) z"
      using less.hyps [OF diff_less_mono2 [OF j(1) True] j(2) x' s1(3)] by blast
    have "mem (engine s') (?A y) = mem (engine s) (start + off + y)" if y: "y < len" "x \<le> y" for y
    proof (cases "x + ?n \<le> y")
      case True
      then show ?thesis using s'(2) s1_store y by simp
    next
      case False
      have "{x + ?n..<len} \<subseteq> {..<len}" by auto
      then have "?A y \<notin> ?A ` {x + ?n..<len}" using False y by (subst inj_on_image_mem_iff [OF inj]) auto
      then show ?thesis using s'(3) s1_at False y by simp
    qed
    moreover have "mem (engine s') z = mem (engine s) z" if "z \<notin> ?A ` {x..<len}" for z
    proof -
      have "?A ` {x..<x + ?n} \<subseteq> ?A ` {x..<len}" "?A ` {x + ?n..<len} \<subseteq> ?A ` {x..<len}" using x' x by auto
      then have "z \<notin> ?A ` {x..<x + ?n}" "z \<notin> ?A ` {x + ?n..<len}" using that by blast+
      then show ?thesis using s'(3) s1_off by simp
    qed
    moreover have "dma_transfer E nvme_cmd_read start addrs num (Suc k) (len - x) (off + x) s = Some s'"
    proof -
      have a: "arr_get addrs (Suc k) = Some (?A x)" using gathered_addr [OF g True] x(1) by simp
      have rest: "dma_transfer E nvme_cmd_read start addrs num (Suc j) (len - x - ?n) (u64 (off + x + ?n)) s1 = Some s'"
        using s'(1) by (simp only: ex(3) diff_diff_left)
      have "len - x \<noteq> 0" using x(2) by simp
      then show ?thesis by (subst dma_transfer.simps) (simp only: a c piece rest if_False option.case prod.case)
    qed
    ultimately show ?thesis by blast
  qed
qed

section \<open>The two ways of copying\<close>

text \<open>Physical memory: the device memory from \<open>start\<close> on, host memory elsewhere.\<close>

definition phys :: "nat \<Rightarrow> nat \<Rightarrow> bytes \<Rightarrow> bytes \<Rightarrow> bytes" where
  "phys start size' host dev = (\<lambda>a. if start \<le> a \<and> a < start + size' then dev (a - start) else host a)"

text \<open>The host's pages and its PRP list are outside the device memory, in the lower half of the address space.\<close>

definition host_apart :: "bytes \<Rightarrow> nat \<Rightarrow> nat \<Rightarrow> nat \<Rightarrow> nat \<Rightarrow> nat \<Rightarrow> bool" where
  "host_apart m p1 p2 len start size' \<longleftrightarrow>
     (\<forall>x < len. prp_addr m p1 p2 len x < 2 ^ 63 \<and> prp_addr m p1 p2 len x \<notin> {start..<start + size'}) \<and>
     prp_list p1 p2 len \<inter> {start..<start + size'} = {}"

lemma phys_host: "z \<notin> {start..<start + size'} \<Longrightarrow> phys start size' host dev z = host z"
  by (auto simp: phys_def)

lemma rw_len: "(rw_length c + 1) * 512 < 2 ^ 32"
proof -
  have "rw_length c < 2 ^ 16" by (simp add: rw_length_def)
  then show ?thesis by simp
qed

text \<open>C5: For a write, append or read of the first namespace, with an engine that makes the copies it is given,
  the transfer by DMA and the one by the processor leave the same bytes in host and device memory, whichever pages the
  DMA transfer joins to one copy. It is stated for blocks inside the device memory, at most 512 PRP entries (the array
  of the DMA transfer), entries after the first that name whole pages, a list inside one page (\<open>prp_wf\<close>),
  for a read pages apart from each other and from the list (\<open>prp_safe\<close>), and host pages and list outside
  the device memory (\<open>host_apart\<close>). The DMA transfer ignores the namespace, and what the engine
  answers.\<close>

theorem dma_copy_equals_processor_copy:
  fixes d :: "'s nvmev_dev" and c :: nvme_command
  assumes "engine_copies E mem" and "dma_thread g \<noteq> None"
    and "opcode c \<in> {nvme_cmd_write, nvme_cmd_zone_append, nvme_cmd_read}" and "nsid c = 1" and "ns_base d \<noteq> []" and "ns_base d ! 0 = 0"
  defines "len \<equiv> (rw_length c + 1) * 512" and "off \<equiv> u64 (rw_slba c * 512)"
  assumes "off + len \<le> dev_storage_size d" and "start + dev_storage_size d < 2 ^ 63" and "len \<le> piece_pos (prp1 c) 512"
    and "prp_wf (dev_host d) (prp1 c) (prp2 c) len" and "opcode c = nvme_cmd_read \<longrightarrow> prp_safe (dev_host d) (prp1 c) (prp2 c) len"
    and "host_apart (dev_host d) (prp1 c) (prp2 c) len start (dev_storage_size d)"
    and "mem (engine g) = phys start (dev_storage_size d) (dev_host d) (dev_storage d)"
  shows "\<exists>g' d'. do_perform_io_using_dma E mem start c g = Some (len, g') \<and> do_perform_io d c = Some d' \<and>
    mem (engine g') = phys start (dev_storage_size d) (dev_host d') (dev_storage d')"
proof -
  let ?h = "dev_host d" and ?s = "dev_storage d" and ?n = "dev_storage_size d" and ?m = "mem (engine g)"
  let ?A = "prp_addr ?h (prp1 c) (prp2 c) len"
  obtain chan where chan: "dma_thread g = Some chan" using assms(2) by blast
  have len32: "len < 2 ^ 32" unfolding len_def by (rule rw_len)
  have top: "start + off + len < 2 ^ 63" using assms(9,10) by linarith
  have apart: "\<forall>x < len. ?A x < 2 ^ 63" "\<forall>x < len. ?A x \<notin> {start..<start + ?n}" "prp_list (prp1 c) (prp2 c) len \<inter> {start..<start + ?n} = {}"
    using assms(14) by (auto simp: host_apart_def)
  then have apart': "\<forall>x < len. ?A x \<notin> {start + off..<start + off + len}" using assms(9) by auto
  have same: "?m z = ?h z" if "z \<in> prp_list (prp1 c) (prp2 c) len" for z
    using that apart(3) unfolding assms(15) by (intro phys_host) blast
  have m_host: "?m z = ?h z" if "z \<notin> {start..<start + ?n}" for z using that unfolding assms(15) by (rule phys_host)
  have wf: "prp_wf ?m (prp1 c) (prp2 c) len" using prp_cong(1) [of "prp1 c" "prp2 c" len ?m ?h] same assms(12) by blast
  have A: "prp_addr ?m (prp1 c) (prp2 c) len x = ?A x" if "x < len" for x
    using prp_cong(2) [of "prp1 c" "prp2 c" len ?m ?h, OF _ that] same by blast
  obtain num addrs where ga: "gather_prps ?m (prp1 c) (prp2 c) 0 (len - 0) None 0 (replicate PADDR_LIST_LEN 0) = Some (num, addrs)"
    "gathered ?m (prp1 c) (prp2 c) len num addrs"
    using gather_pieces [OF wf, of 0 0 None 0 "replicate PADDR_LIST_LEN 0"] assms(11) by (auto simp: PADDR_LIST_LEN_def piece_at_def)
  have gd: "gathered ?h (prp1 c) (prp2 c) len num addrs" using ga(2) A by (simp add: gathered_def)
  have io: "do_perform_io d c = (case prp_loop (io_dir (opcode c)) ?n (prp1 c) (prp2 c) 0 len off None 0 ?h ?s of
      None \<Rightarrow> None | Some (host, dev) \<Rightarrow> Some (d\<lparr> dev_host := host, dev_storage := dev \<rparr>))"
  proof -
    have "sub32 (nsid c) 1 = 0" using assms(4) by (simp add: sub32_def u32_def)
    then show ?thesis using assms(5,6) by (simp add: do_perform_io_def arr_get_def len_def off_def bind_eq_Some_conv split: option.splits)
  qed
  have dma: "do_perform_io_using_dma E mem start c g = map_option (\<lambda>g. (len, g)) (dma_transfer E (opcode c) start addrs num 1 len off g)"
    using ga(1) by (simp add: do_perform_io_using_dma_def len_def off_def map_option_case split: option.splits)
  show ?thesis
  proof (cases "opcode c = nvme_cmd_read")
    case False
    then have op: "opcode c = nvme_cmd_write \<or> opcode c = nvme_cmd_zone_append" and dir: "io_dir (opcode c) = FROM_HOST"
      using assms(3) by (auto simp: io_dir_def)
    let ?s' = "\<lambda>z. if off \<le> z \<and> z < off + len then ?h (?A (z - off)) else ?s z"
    have host: "\<forall>y < len. ?m (?A y) = ?h (?A y)" using apart(2) m_host by blast
    obtain g' where g': "dma_transfer E (opcode c) start addrs num (Suc 0) (len - 0) (off + 0) g = Some g'"
      "mem (engine g') = (\<lambda>z. if start + off + 0 \<le> z \<and> z < start + off + len then ?h (?A (z - (start + off))) else ?m z)"
      using transfer_from_host [OF assms(1) op assms(12) gd apart(1) top len32 apart', of 0 0 g chan] chan host by auto
    have "prp_loop FROM_HOST ?n (prp1 c) (prp2 c) 0 len off None 0 ?h ?s = Some (?h, ?s')"
      using prp_loop_from_host [OF assms(12,9), of 0 0 None 0 ?s] piece_start by simp
    moreover have "mem (engine g') = phys start ?n ?h ?s'"
      using assms(9) unfolding g'(2) assms(15) phys_def by (auto simp: fun_eq_iff)
    ultimately show ?thesis using io dma g'(1) dir by simp
  next
    case True
    then have dir: "io_dir (opcode c) = TO_HOST" by (simp add: io_dir_def nvme_cmd_read_def nvme_cmd_write_def nvme_cmd_zone_append_def)
    have safe: "prp_safe ?h (prp1 c) (prp2 c) len" using assms(13) True by blast
    then have inj: "inj_on ?A {..<len}" by (simp add: prp_safe_def)
    obtain g' where g': "dma_transfer E nvme_cmd_read start addrs num (Suc 0) (len - 0) (off + 0) g = Some g'"
      "\<forall>y < len. 0 \<le> y \<longrightarrow> mem (engine g') (?A y) = ?m (start + off + y)"
      "\<forall>z. z \<notin> ?A ` {0..<len} \<longrightarrow> mem (engine g') z = ?m z"
      using transfer_to_host [OF assms(1,12) gd apart(1) top len32 apart' inj, of 0 0 g chan] chan by auto
    obtain h where h: "prp_loop TO_HOST ?n (prp1 c) (prp2 c) 0 len off None 0 ?h ?s = Some (h, ?s)"
      "\<forall>y < len. 0 \<le> y \<longrightarrow> h (?A y) = ?s (off + y)" "\<forall>z. z \<notin> ?A ` {0..<len} \<longrightarrow> h z = ?h z"
      using prp_loop_to_host [OF safe assms(9), of 0 0 None 0 ?h ?s] piece_start by auto
    have "mem (engine g') z = phys start ?n h ?s z" for z
    proof (cases "z \<in> ?A ` {0..<len}")
      case True
      then obtain y where y: "y < len" "z = ?A y" by auto
      then have "mem (engine g') z = ?s (off + y)" using g'(2) assms(9) unfolding assms(15) by (simp add: phys_def)
      moreover have "phys start ?n h ?s z = h z" using apart(2) y by (intro phys_host) blast
      ultimately show ?thesis using h(2) y by simp
    next
      case False
      then show ?thesis using g'(3) h(3) unfolding assms(15) by (simp add: phys_def)
    qed
    then have "mem (engine g') = phys start ?n h ?s" by blast
    then show ?thesis using io dma g'(1) h(1) dir True by simp
  qed
qed

section \<open>Choosing channels\<close>

text \<open>The documented behaviour of \<open>dma_request_channel\<close>, for the capability \<open>DMA_MEMCPY\<close>: it gives out a free channel
  the filter accepts, and none only if there is none. \<open>free\<close> are the channels nobody holds.\<close>

definition channel_pool :: "('t, 'e) dma_engine \<Rightarrow> ('e \<Rightarrow> dma_chan set) \<Rightarrow> bool" where
  "channel_pool E free \<longleftrightarrow> (\<forall>f e. finite (free e) \<and>
     (case dma_request_channel E f e of
        None \<Rightarrow> {c \<in> free e. has_memcpy c \<and> f c} = {}
      | Some (c, e') \<Rightarrow> c \<in> free e \<and> has_memcpy c \<and> f c \<and> free e' = free e - {c}))"

lemma add_channel_effect [simp]:
  "di_channels (test_info (ioat_dma_add_channel c g)) = di_channels (test_info g) @ [c]"
  "engine (ioat_dma_add_channel c g) = engine g" "test_channel (ioat_dma_add_channel c g) = test_channel g"
  "has_memcpy c \<Longrightarrow> dma_thread (ioat_dma_add_channel c g) = Some c"
  "dma_filter (di_params (test_info (ioat_dma_add_channel c g))) = dma_filter (di_params (test_info g))"
  "dp_max_channels (di_params (test_info (ioat_dma_add_channel c g))) = dp_max_channels (di_params (test_info g))"
  by (auto simp: ioat_dma_add_channel_def Let_def dma_filter_def ioat_dma_match_channel_def ioat_dma_match_device_def fun_eq_iff)

lemma request_channels_takes_all:
  assumes pool: "channel_pool E free" and "dp_max_channels (di_params (test_info g)) = 0"
  shows "\<exists>g' xs. request_channels E g = Some g' \<and> di_channels (test_info g') = di_channels (test_info g) @ xs \<and>
    set xs = {c \<in> free (engine g). has_memcpy c \<and> dma_filter (di_params (test_info g)) c} \<and> free (engine g') = free (engine g) - set xs \<and>
    dma_thread g' = (if xs = [] then dma_thread g else Some (last xs)) \<and> test_channel g' = test_channel g"
  using assms(2)
proof (induction "card (free (engine g))" arbitrary: g rule: less_induct)
  case less
  let ?f = "dma_filter (di_params (test_info g))"
  have p: "finite (free (engine g))" "case dma_request_channel E ?f (engine g) of
      None \<Rightarrow> {c \<in> free (engine g). has_memcpy c \<and> ?f c} = {}
    | Some (c, e') \<Rightarrow> c \<in> free (engine g) \<and> has_memcpy c \<and> ?f c \<and> free e' = free (engine g) - {c}"
    using pool unfolding channel_pool_def by blast+
  show ?case
  proof (cases "dma_request_channel E ?f (engine g)")
    case None
    then show ?thesis using p(2) by (subst request_channels.simps) (auto simp: Let_def)
  next
    case (Some r)
    obtain c e where r: "r = (c, e)" by (cases r)
    have c: "c \<in> free (engine g)" "has_memcpy c" "?f c" "free e = free (engine g) - {c}" using p(2) Some r by simp_all
    define g1 where "g1 = ioat_dma_add_channel c (g\<lparr> engine := e \<rparr>)"
    have g1: "di_channels (test_info g1) = di_channels (test_info g) @ [c]" "engine g1 = e" "test_channel g1 = test_channel g"
      "dma_thread g1 = Some c" "dma_filter (di_params (test_info g1)) = ?f" "dp_max_channels (di_params (test_info g1)) = 0"
      using c(2) less.prems by (simp_all add: g1_def)
    have step: "request_channels E g = request_channels E g1"
      using Some r g1(6) unfolding g1_def by (subst request_channels.simps) (simp add: Let_def)
    have "card (free (engine g1)) < card (free (engine g))" unfolding g1(2) c(4) by (rule card_Diff1_less [OF p(1) c(1)])
    from less.hyps [OF this g1(6)] obtain g' xs where "request_channels E g1 = Some g'" "di_channels (test_info g') = di_channels (test_info g1) @ xs"
      "set xs = {c \<in> free (engine g1). has_memcpy c \<and> ?f c}" "free (engine g') = free (engine g1) - set xs"
      "dma_thread g' = (if xs = [] then dma_thread g1 else Some (last xs))" "test_channel g' = test_channel g1"
      unfolding g1(5) by blast
    then show ?thesis using step g1 c by (intro exI [of _ g'] exI [of _ "c # xs"]) auto
  qed
qed

lemma cut_end_idem [simp]: "cut_end (cut_end s) = cut_end s"
  by (simp add: cut_end_def dropWhile_idem)

lemma strim_cut_end [simp]: "strim (cut_end s) = strim s"
  by (simp add: strim_def)

lemma strim_length: "length (strim s) \<le> length s"
proof -
  have "length (strim s) \<le> length (cut_end s)" unfolding strim_def by (rule length_dropWhile_le)
  also have "\<dots> \<le> length s" unfolding cut_end_def length_rev by (metis length_dropWhile_le length_rev)
  finally show ?thesis .
qed

lemma chan_set_step:
  assumes "length val < CHANNEL_NAME_LEN" and "\<not> (\<exists>c \<in> set (di_channels (test_info g)). dma_chan_name c = strim val)"
    and "add_threaded_dma E (g\<lparr> test_channel := val \<rparr>) = Some g'" and "strim (test_channel g') = strim val"
    and "r = (if di_channels (test_info g') = [] then - EBUSY
              else if dma_chan_name (last (di_channels (test_info g'))) \<noteq> strim val \<and> strim val \<noteq> '''' then - EINVAL else 0)"
  shows "ioat_dma_chan_set E val g = Some (r, g'\<lparr> test_info := (test_info g')\<lparr> di_last_error := r \<rparr> \<rparr>)"
  using assms(1-4) unfolding assms(5) ioat_dma_chan_set_def by (simp add: Let_def)

text \<open>The whole of it.\<close>

lemma chan_set_answers:
  fixes g :: "'e dma_state"
  assumes "channel_pool E free" and "length val < CHANNEL_NAME_LEN"
  defines "cs \<equiv> di_channels (test_info g)"
    and "found \<equiv> {c \<in> free (engine g). has_memcpy c \<and> (strim val = '''' \<or> dma_chan_name c = strim val)}"
  shows "\<exists>r g'. ioat_dma_chan_set E val g = Some (r, g') \<and> di_last_error (test_info g') = r \<and>
    (if strim val \<in> dma_chan_name ` set cs
     then r = - EBUSY \<and> di_channels (test_info g') = cs \<and> engine g' = engine g \<and> dma_thread g' = dma_thread g
     else \<exists>xs. di_channels (test_info g') = cs @ xs \<and> set xs = found \<and> free (engine g') = free (engine g) - found \<and>
       dma_thread g' = (if xs = [] then dma_thread g else Some (last xs)) \<and>
       r = (if cs @ xs = [] then - EBUSY else if xs = [] \<and> strim val \<noteq> '''' then - EINVAL else 0))"
proof (cases "strim val \<in> dma_chan_name ` set cs")
  case True
  then have "\<exists>c \<in> set (di_channels (test_info g)). dma_chan_name c = strim val" unfolding cs_def by (metis imageE)
  then show ?thesis using assms(2) True by (simp add: ioat_dma_chan_set_def Let_def cs_def)
next
  case False
  then have new: "\<not> (\<exists>c \<in> set (di_channels (test_info g)). dma_chan_name c = strim val)" unfolding cs_def by (metis imageI)
  have fits: "strlcpy (strim val) CHANNEL_NAME_LEN = strim val"
    using strim_length [of val] assms(2) by (simp add: strlcpy_def)
  define p where "p = \<lparr> dp_buf_size = 4096, dp_channel = strim val, dp_device = '''', dp_max_channels = 0, dp_timeout = 3000,
    dp_transfer_size = 1024, dp_polled = True \<rparr>"
  define g1 where "g1 = g\<lparr> test_info := (test_info g)\<lparr> di_params := p \<rparr>, test_channel := cut_end val \<rparr>"
  have add: "add_threaded_dma E (g\<lparr> test_channel := val \<rparr>) = request_channels E g1"
    using fits by (simp add: add_threaded_dma_def g1_def p_def Let_def) (simp add: strim_def cut_end_def strlcpy_def)
  have filt: "dma_filter p c \<longleftrightarrow> strim val = '''' \<or> dma_chan_name c = strim val" for c
    by (simp add: dma_filter_def ioat_dma_match_channel_def ioat_dma_match_device_def p_def)
  have max0: "dp_max_channels (di_params (test_info g1)) = 0" by (simp add: g1_def p_def)
  obtain g' xs where "request_channels E g1 = Some g'" "di_channels (test_info g') = di_channels (test_info g1) @ xs"
    "set xs = {c \<in> free (engine g1). has_memcpy c \<and> dma_filter (di_params (test_info g1)) c}" "free (engine g') = free (engine g1) - set xs"
    "dma_thread g' = (if xs = [] then dma_thread g1 else Some (last xs))" "test_channel g' = test_channel g1"
    using request_channels_takes_all [OF assms(1) max0] by blast
  then have g': "request_channels E g1 = Some g'" "di_channels (test_info g') = cs @ xs" "set xs = found" "free (engine g') = free (engine g) - found"
    "dma_thread g' = (if xs = [] then dma_thread g else Some (last xs))" "test_channel g' = cut_end val"
    by (simp_all add: g1_def cs_def found_def filt)
  have named: "dma_chan_name (last (cs @ xs)) \<noteq> strim val \<and> strim val \<noteq> '''' \<longleftrightarrow> xs = [] \<and> strim val \<noteq> ''''" if "cs @ xs \<noteq> []"
  proof (cases "xs = []")
    case True
    then have "last cs \<in> set cs" using that by simp
    then have "dma_chan_name (last cs) \<noteq> strim val" using False by (metis imageI)
    then show ?thesis using True by simp
  next
    case ne: False
    then have "last xs \<in> found" using g'(3) last_in_set by blast
    then show ?thesis using ne by (auto simp: found_def)
  qed
  let ?r = "if cs @ xs = [] then - EBUSY else if xs = [] \<and> strim val \<noteq> '''' then - EINVAL else 0"
  let ?g = "g'\<lparr> test_info := (test_info g')\<lparr> di_last_error := ?r \<rparr> \<rparr>"
  have "ioat_dma_chan_set E val g = Some (?r, g'\<lparr> test_info := (test_info g')\<lparr> di_last_error := ?r \<rparr> \<rparr>)"
  proof (rule chan_set_step [OF assms(2) new])
    show "?r = (if di_channels (test_info g') = [] then - EBUSY
              else if dma_chan_name (last (di_channels (test_info g'))) \<noteq> strim val \<and> strim val \<noteq> '''' then - EINVAL else 0)"
      unfolding g'(2) by (cases "cs @ xs = []") (simp_all only: named if_True if_False refl not_False_eq_True)
  qed (use add g'(1,6) in simp_all)
  moreover have same: "di_channels (test_info ?g) = di_channels (test_info g')" "engine ?g = engine g'" "dma_thread ?g = dma_thread g'"
    by simp_all
  moreover have "if strim val \<in> dma_chan_name ` set cs
      then ?r = - EBUSY \<and> di_channels (test_info ?g) = cs \<and> engine ?g = engine g \<and> dma_thread ?g = dma_thread g
      else \<exists>xs. di_channels (test_info ?g) = cs @ xs \<and> set xs = found \<and> free (engine ?g) = free (engine g) - found \<and>
        dma_thread ?g = (if xs = [] then dma_thread g else Some (last xs)) \<and>
        ?r = (if cs @ xs = [] then - EBUSY else if xs = [] \<and> strim val \<noteq> '''' then - EINVAL else 0)"
    unfolding if_not_P [OF False] by (rule exI [of _ xs], intro conjI) (simp_all only: same g'(2-5))
  moreover have "di_last_error (test_info ?g) = ?r" by simp
  ultimately show ?thesis by blast
qed

text \<open>C40: Setting the channel, with finitely many channels in the engine and a name that fits its buffer, always
  answers. If a channel of that name is registered nothing is requested and the answer is \<open>-EBUSY\<close>; otherwise
  every free channel that can copy and has the name (or every one, for a blank name) is registered behind
  the old ones, none of them stays free, and the last one is the channel of the copying thread. The answer
  is 0 exactly if a channel was found or the name is blank and some are registered already.\<close>

theorem dma_chan_set_correct:
  fixes g :: "'e dma_state"
  assumes "channel_pool E free" and "length val < CHANNEL_NAME_LEN"
  defines "cs \<equiv> di_channels (test_info g)"
    and "found \<equiv> {c \<in> free (engine g). has_memcpy c \<and> (strim val = '''' \<or> dma_chan_name c = strim val)}"
  shows "\<exists>r g'. ioat_dma_chan_set E val g = Some (r, g') \<and> di_last_error (test_info g') = r \<and>
    (if strim val \<in> dma_chan_name ` set cs
     then r = - EBUSY \<and> di_channels (test_info g') = cs \<and> engine g' = engine g \<and> dma_thread g' = dma_thread g
     else \<exists>xs. di_channels (test_info g') = cs @ xs \<and> set xs = found \<and> free (engine g') = free (engine g) - found \<and>
       dma_thread g' = (if xs = [] then dma_thread g else Some (last xs)) \<and>
       r = (if cs @ xs = [] then - EBUSY else if xs = [] \<and> strim val \<noteq> '''' then - EINVAL else 0))"
  using chan_set_answers [OF assms(1,2), of g] unfolding cs_def found_def .

text \<open>The step of \<open>NVMeV_init\<close> that turns to the processor when there is no engine, and why a device that
  keeps using the engine has a channel.\<close>

definition init_dma :: "('t, 'e) dma_engine \<Rightarrow> bool \<Rightarrow> 'e dma_state \<Rightarrow> (bool \<times> 'e dma_state) option" where
  "init_dma E io_using_dma g =
     (if io_using_dma then do { (r, g) \<leftarrow> ioat_dma_chan_set E ''dma7chan0'' g; Some (r = 0, g) } else Some (False, g))"

lemma trim_dma7chan0: "strim ''dma7chan0'' = ''dma7chan0''"
  by (simp add: strim_def cut_end_def isspace_def)

lemma init_dma_has_channel:
  assumes "channel_pool E free" and "di_channels (test_info g) = []"
  shows "\<exists>u g'. init_dma E io_using_dma g = Some (u, g') \<and> (u \<longrightarrow> dma_thread g' \<noteq> None)"
proof (cases io_using_dma)
  case True
  have n: "length ''dma7chan0'' < CHANNEL_NAME_LEN" by (simp add: CHANNEL_NAME_LEN_def)
  have no: "''dma7chan0'' \<notin> dma_chan_name ` set ([] :: dma_chan list)" by simp
  obtain r g' xs where "ioat_dma_chan_set E ''dma7chan0'' g = Some (r, g')"
    "dma_thread g' = (if xs = [] then dma_thread g else Some (last xs))" "xs = [] \<Longrightarrow> r = - EBUSY"
    using chan_set_answers [OF assms(1) n, of g] unfolding trim_dma7chan0 assms(2) if_not_P [OF no] by auto
  then show ?thesis using True by (cases "xs = []") (auto simp: init_dma_def EBUSY_def)
next
  case False
  then show ?thesis by (intro exI [of _ False] exI [of _ g]) (simp add: init_dma_def)
qed

text \<open>Cleaning up gives every registered channel back.\<close>

lemma cleanup_releases:
  assumes "\<And>c e. free (dma_release_channel E c e) = insert c (free e)" and "\<And>c e. free (dmaengine_terminate_sync E c e) = free e"
  shows "free (engine (ioat_dma_cleanup E g)) = free (engine g) \<union> set (di_channels (test_info g))"
proof -
  have "free (fold (\<lambda>c e. dma_release_channel E c (dmaengine_terminate_sync E c e)) cs e) = free e \<union> set cs" for cs e
    by (induction cs arbitrary: e) (auto simp: assms)
  then show ?thesis by (simp add: ioat_dma_cleanup_def Let_def)
qed

section \<open>Examples\<close>

text \<open>An engine that copies at once; its state is the memory and the free channels.\<close>

definition chan0 :: dma_chan where
  "chan0 = \<lparr> dma_chan_name = ''dma7chan0'', dma_dev_name = ''ioat'', has_memcpy = True, has_no_order = False \<rparr>"

definition sync_engine :: "(nat \<times> nat \<times> nat, bytes \<times> dma_chan list) dma_engine" where
  "sync_engine = \<lparr> prep_dma_memcpy = (\<lambda>_ dst src n _. Some (dst, src, n)),
     tx_submit = (\<lambda>(dst, src, n) (m, cs). (1, (memcpy m dst m src n, cs))),
     dma_sync_wait = (\<lambda>_ _ e. (DMA_COMPLETE, e)), dmaengine_terminate_sync = (\<lambda>_ e. e),
     dma_request_channel = (\<lambda>f (m, cs). case filter (\<lambda>c. has_memcpy c \<and> f c) cs of [] \<Rightarrow> None | c # _ \<Rightarrow> Some (c, (m, removeAll c cs))),
     dma_release_channel = (\<lambda>c (m, cs). (m, c # cs)) \<rparr>"

definition idle_client :: "bytes \<Rightarrow> (bytes \<times> dma_chan list) dma_state" where
  "idle_client m = \<lparr> test_info = \<lparr> di_params = \<lparr> dp_buf_size = 0, dp_channel = '''', dp_device = '''', dp_max_channels = 0,
       dp_timeout = 0, dp_transfer_size = 0, dp_polled = False \<rparr>, di_channels = [], di_nr_channels = 0, di_last_error = 0 \<rparr>,
     test_channel = '''', dma_thread = None, engine = (m, [chan0]) \<rparr>"

lemma sync_engine_copies: "engine_copies sync_engine fst"
  by (auto simp: engine_copies_def sync_engine_def Let_def split: prod.splits)

lemma sync_engine_pool: "channel_pool sync_engine (set \<circ> snd)"
proof -
  have "case dma_request_channel sync_engine f e of None \<Rightarrow> {c \<in> set (snd e). has_memcpy c \<and> f c} = {}
    | Some (c, e') \<Rightarrow> c \<in> set (snd e) \<and> has_memcpy c \<and> f c \<and> set (snd e') = set (snd e) - {c}" for f e
  proof (cases e, cases "filter (\<lambda>c. has_memcpy c \<and> f c) (snd e)")
    fix m cs assume e: "e = (m, cs)" and "filter (\<lambda>c. has_memcpy c \<and> f c) (snd e) = []"
    then show ?thesis by (auto simp: sync_engine_def filter_empty_conv)
  next
    fix m cs c rest assume e: "e = (m, cs)" and f: "filter (\<lambda>c. has_memcpy c \<and> f c) (snd e) = c # rest"
    then have "c \<in> set (filter (\<lambda>c. has_memcpy c \<and> f c) cs)" by simp
    then show ?thesis using e f by (auto simp: sync_engine_def)
  qed
  then show ?thesis unfolding channel_pool_def comp_def by blast
qed

lemma dma_chan_set_correct_witness:
  "\<exists>g'. ioat_dma_chan_set sync_engine ''dma7chan0'' (idle_client (\<lambda>_. 0)) = Some (0, g') \<and> dma_thread g' = Some chan0"
proof -
  have n: "length ''dma7chan0'' < CHANNEL_NAME_LEN" by (simp add: CHANNEL_NAME_LEN_def)
  have found: "{c \<in> set [chan0]. has_memcpy c \<and> (''dma7chan0'' = '''' \<or> dma_chan_name c = ''dma7chan0'')} = {chan0}" by (auto simp: chan0_def)
  have old: "di_channels (test_info (idle_client (\<lambda>_. 0))) = []" "(set \<circ> snd) (engine (idle_client (\<lambda>_. 0))) = set [chan0]"
    by (simp_all add: idle_client_def)
  obtain r g' where r: "ioat_dma_chan_set sync_engine ''dma7chan0'' (idle_client (\<lambda>_. 0)) = Some (r, g')"
    and rest: "if ''dma7chan0'' \<in> dma_chan_name ` set ([] :: dma_chan list)
      then r = - EBUSY \<and> di_channels (test_info g') = [] \<and> engine g' = engine (idle_client (\<lambda>_. 0)) \<and> dma_thread g' = dma_thread (idle_client (\<lambda>_. 0))
      else \<exists>xs. di_channels (test_info g') = [] @ xs \<and> set xs = {chan0} \<and> (set \<circ> snd) (engine g') = set [chan0] - {chan0} \<and>
        dma_thread g' = (if xs = [] then dma_thread (idle_client (\<lambda>_. 0)) else Some (last xs)) \<and>
        r = (if [] @ xs = [] then - EBUSY else if xs = [] \<and> ''dma7chan0'' \<noteq> '''' then - EINVAL else 0)"
    using dma_chan_set_correct [OF sync_engine_pool n, of "idle_client (\<lambda>_. 0)"] unfolding trim_dma7chan0 old found
    by (elim exE conjE) (rule that)
  have "''dma7chan0'' \<notin> dma_chan_name ` set ([] :: dma_chan list)" by simp
  note rest = rest [unfolded if_not_P [OF this]]
  from rest obtain xs where xs: "set xs = {chan0}" "dma_thread g' = (if xs = [] then dma_thread (idle_client (\<lambda>_. 0)) else Some (last xs))"
    "r = (if [] @ xs = [] then - EBUSY else if xs = [] \<and> ''dma7chan0'' \<noteq> '''' then - EINVAL else 0)" by blast
  then have "xs \<noteq> []" by auto
  moreover from this have "last xs = chan0" using xs(1) last_in_set by blast
  ultimately show ?thesis using r xs(2,3) by simp
qed

lemma dma_copy_equals_processor_copy_witness:
  "\<exists>g' d'. do_perform_io_using_dma sync_engine fst (2 ^ 32) (tiny_cmd nvme_cmd_read 16384 20480)
       ((idle_client (phys (2 ^ 32) 2097152 tiny_host (\<lambda>_. 7)))\<lparr> dma_thread := Some chan0 \<rparr>) = Some (8704, g')
     \<and> do_perform_io (tiny_dev\<lparr> ns_base := [0], dev_storage := (\<lambda>_. 7) \<rparr>) (tiny_cmd nvme_cmd_read 16384 20480) = Some d'
     \<and> fst (engine g') = phys (2 ^ 32) 2097152 (dev_host d') (dev_storage d')"
proof -
  let ?c = "tiny_cmd nvme_cmd_read 16384 20480" and ?d = "tiny_dev\<lparr> ns_base := [0], dev_storage := (\<lambda>_. 7) \<rparr>"
  let ?g = "(idle_client (phys (2 ^ 32) 2097152 tiny_host (\<lambda>_. 7)))\<lparr> dma_thread := Some chan0 \<rparr>"
  have f: "(rw_length ?c + 1) * 512 = 8704" "u64 (rw_slba ?c * 512) = 4096" "prp1 ?c = 16384" "prp2 ?c = 20480" "opcode ?c = nvme_cmd_read" "nsid ?c = 1"
    by (simp_all add: tiny_cmd_def rw_slba_def rw_length_def u32_def u64_def)
  have d: "ns_base ?d = [0]" "dev_host ?d = tiny_host" "dev_storage ?d = (\<lambda>_. 7)" "dev_storage_size ?d = 2097152" by simp_all
  have apart: "host_apart tiny_host 16384 20480 8704 (2 ^ 32) 2097152"
    using tiny_host_addr by (auto simp: host_apart_def prp_list_def PAGE_SIZE_def)
  have wf: "prp_wf tiny_host 16384 20480 8704" using tiny_host_safe by (simp add: prp_safe_def)
  have g: "dma_thread ?g \<noteq> None" "fst (engine ?g) = phys (2 ^ 32) 2097152 tiny_host (\<lambda>_. 7)" by (simp_all add: idle_client_def)
  show ?thesis
    using dma_copy_equals_processor_copy [of sync_engine fst ?g ?c ?d "2 ^ 32", unfolded f d, OF sync_engine_copies g(1)] g(2) wf tiny_host_safe apart
    by (simp add: piece_pos_def PAGE_SIZE_def)
qed

end
