(* ===== verification/Setup.thy ===== *)
theory Setup
  imports Device Dma Simple_FTL Conv_IO Kv_FTL Zns_IO
begin

text \<open>
  Bringing the module up and down (\<open>main.c\<close>, \<open>VDEV_FINALIZE\<close> in \<open>pci.c\<close>): the checks of the parameters, the
  configuration made of them, the namespaces of each build, the files under \<open>/proc/nvmev\<close> and what is freed at
  the end. Parameters of the module are a record. What the kernel answers is an argument: which memory is
  mapped how, the numbers its string functions read, whether the bus could be scanned.
\<close>

section \<open>Parameters and configuration\<close>

record module_params =
  p_memmap_start :: nat
  p_memmap_size :: nat
  p_read_time :: nat
  p_read_delay :: nat
  p_read_trailing :: nat
  p_write_time :: nat
  p_write_delay :: nat
  p_write_trailing :: nat
  p_nr_io_units :: nat
  p_io_unit_shift :: nat
  p_cpus :: "nat list"

text \<open>\<open>p_cpus\<close> are the numbers between the commas, none if the parameter is not given.\<close>

datatype e820_type = E820_TYPE_RAM | E820_TYPE_RESERVED_KERN | E820_TYPE_RESERVED

definition EPERM :: int where "EPERM = 1"

definition EIO :: int where "EIO = 5"

definition validate_configs_arch :: "(nat \<Rightarrow> nat \<Rightarrow> e820_type \<Rightarrow> bool) \<Rightarrow> module_params \<Rightarrow> int" where
  "validate_configs_arch mapped_any p =
     (let resv_start = p_memmap_start p; resv_end = sub64 (u64 (resv_start + p_memmap_size p)) 1
      in if mapped_any resv_start resv_end E820_TYPE_RAM \<or> mapped_any resv_start resv_end E820_TYPE_RESERVED_KERN then - EPERM
         else if \<not> mapped_any resv_start resv_end E820_TYPE_RESERVED then - EPERM
         else 0)"

definition validate_configs :: "(nat \<Rightarrow> nat \<Rightarrow> e820_type \<Rightarrow> bool) \<Rightarrow> module_params \<Rightarrow> int" where
  "validate_configs mapped_any p =
     (if p_memmap_start p = 0 then - EINVAL
      else if p_memmap_size p = 0 then - EINVAL
      else if p_memmap_size p \<le> MB 1 then - EINVAL
      else if validate_configs_arch mapped_any p \<noteq> 0 then - EPERM
      else if p_nr_io_units p = 0 \<or> p_io_unit_shift p = 0 then - EINVAL
      else if p_read_time p = 0 then - EINVAL
      else if p_write_time p = 0 then - EINVAL
      else 0)"

text \<open>The first number is the dispatcher's processor, the others go into an array of 32.\<close>

definition MAX_IO_CPUS :: nat where "MAX_IO_CPUS = 32"

definition take_cpu :: "nat \<Rightarrow> bool \<times> nvmev_config \<Rightarrow> (bool \<times> nvmev_config) option" where
  "take_cpu cpu_nr s = (case s of (first, cfg) \<Rightarrow>
     if first then Some (False, cfg\<lparr> cfg_cpu_nr_dispatcher := u32 cpu_nr \<rparr>)
     else do {
       ws \<leftarrow> arr_set (cfg_cpu_nr_io_workers cfg) (cfg_nr_io_cpu cfg) (u32 cpu_nr);
       Some (False, cfg\<lparr> cfg_cpu_nr_io_workers := ws, cfg_nr_io_cpu := cfg_nr_io_cpu cfg + 1 \<rparr>)
     })"

text \<open>\<open>__load_configs\<close>: \<open>Some None\<close> is its answer \<open>false\<close>; \<open>table_size\<close> is \<open>KV_MAPPING_TABLE_SIZE\<close>.\<close>

definition load_configs :: "base_ssd \<Rightarrow> nat \<Rightarrow> (nat \<Rightarrow> nat \<Rightarrow> e820_type \<Rightarrow> bool) \<Rightarrow> module_params \<Rightarrow> nvmev_config option option" where
  "load_configs b table_size mapped_any p =
     (if validate_configs mapped_any p < 0 then Some None
      else
        let memmap_size = (if b = KV_PROTOTYPE then sub64 (p_memmap_size p) table_size else p_memmap_size p);
            cfg = \<lparr> cfg_memmap_start = p_memmap_start p, cfg_memmap_size = memmap_size,
              cfg_storage_start = u64 (p_memmap_start p + MB 1), cfg_storage_size = sub64 memmap_size (MB 1),
              cfg_nr_io_units = p_nr_io_units p, cfg_io_unit_shift = p_io_unit_shift p,
              cfg_cpu_nr_dispatcher = 2 ^ 32 - 1, cfg_nr_io_cpu = 0, cfg_cpu_nr_io_workers = replicate MAX_IO_CPUS 0,
              cfg_read_delay = p_read_delay p, cfg_read_time = p_read_time p, cfg_read_trailing = p_read_trailing p,
              cfg_write_delay = p_write_delay p, cfg_write_time = p_write_time p, cfg_write_trailing = p_write_trailing p \<rparr>
        in do { (_, cfg) \<leftarrow> foldM take_cpu (p_cpus p) (True, cfg); Some (Some cfg) })"

section \<open>Namespaces\<close>

text \<open>The namespaces of the four kinds, and all that their initialisation depends on besides the configuration:
  the macros of the build and the contents of memory that is not set.\<close>

datatype any_ns = Simple_ns "unit nvmev_ns" | Conv_ns "conv_ftl nvmev_ns" | Zns_ns "zns_ftl nvmev_ns" | Kv_ns "kv_ftl nvmev_ns"

record ns_env =
  ne_mac :: build_macros
  ne_stack :: ssdparams
  ne_junk :: "nat \<Rightarrow> nat"
  ne_raw :: "nat \<Rightarrow> conv_ftl"
  ne_raw_lm :: "nat \<Rightarrow> nat \<Rightarrow> line_mgmt"
  ne_raw_wp :: "nat \<Rightarrow> nat \<Rightarrow> write_pointer"
  ne_zmac :: zns_macros
  ne_mem :: bytes
  ne_allocator :: allocator_type
  ne_table_size :: nat
  ne_entry_size :: nat
  ne_bitmap :: bitmap_pool
  ne_append :: append_pool
  ne_handles :: "kv_iter_context option list"
  ne_simple_ns :: "unit nvmev_ns"
  ne_kv_ns :: "kv_ftl nvmev_ns"

definition init_namespace :: "base_ssd \<Rightarrow> ns_env \<Rightarrow> nvmev_config \<Rightarrow> nat \<Rightarrow> nat \<Rightarrow> nat \<Rightarrow> any_ns option" where
  "init_namespace b E cfg i size' addr = (case NS_SSD_TYPE_0 b of
       SSD_TYPE_NVM \<Rightarrow> Some (Simple_ns (simple_init_namespace i size' addr (ne_simple_ns E)))
     | SSD_TYPE_CONV \<Rightarrow> map_option Conv_ns (conv_init_namespace b (ne_mac E) (ne_stack E) (ne_junk E) (ne_raw E) (ne_raw_lm E) (ne_raw_wp E)
           i size' addr (cfg_cpu_nr_dispatcher cfg))
     | SSD_TYPE_ZNS \<Rightarrow> map_option Zns_ns (zns_init_namespace b (ne_mac E) (ne_stack E) (ne_zmac E) (ne_junk E 0) i size' addr (ne_mem E)
           (cfg_cpu_nr_dispatcher cfg))
     | SSD_TYPE_KV \<Rightarrow> map_option Kv_ns (kv_init_namespace (ne_allocator E) (cfg_storage_size cfg) (ne_table_size E) (ne_entry_size E)
           (ne_bitmap E) (ne_append E) (ne_handles E) i size' addr (ne_kv_ns E)))"

text \<open>The loop, for any number of namespaces and any capacities; 0 stands for all that is left.\<close>

definition ns_step :: "(nat \<Rightarrow> nat) \<Rightarrow> (nat \<Rightarrow> nat \<Rightarrow> nat \<Rightarrow> 'n option) \<Rightarrow> nat \<Rightarrow> nat \<times> nat \<times> 'n list \<Rightarrow> (nat \<times> nat \<times> 'n list) option" where
  "ns_step capacity init i s = (case s of (remaining, addr, ns) \<Rightarrow> do {
     let size' = (if capacity i = 0 then remaining else min (capacity i) remaining);
     n \<leftarrow> init i size' addr;
     Some (remaining - size', addr + size', ns @ [n])
   })"

definition NS_CAPACITY :: "nat \<Rightarrow> nat" where "NS_CAPACITY i = 0"

definition NVMEV_NAMESPACE_INIT :: "base_ssd \<Rightarrow> ns_env \<Rightarrow> nvmev_config \<Rightarrow> nat \<Rightarrow> any_ns list option" where
  "NVMEV_NAMESPACE_INIT b E cfg mapped = do {
     (_, _, ns) \<leftarrow> foldM (ns_step NS_CAPACITY (init_namespace b E cfg)) [0..<NR_NAMESPACES] (cfg_storage_size cfg, mapped, []);
     Some ns
   }"

definition kv_remove_namespace :: "kv_ftl nvmev_ns \<Rightarrow> kv_ftl nvmev_ns" where
  "kv_remove_namespace ns = ns\<lparr> ns_ftls := [] \<rparr>"

definition remove_namespace :: "any_ns \<Rightarrow> any_ns" where
  "remove_namespace n = (case n of
       Simple_ns x \<Rightarrow> Simple_ns x
     | Conv_ns x \<Rightarrow> Conv_ns (conv_remove_namespace x)
     | Zns_ns x \<Rightarrow> Zns_ns (zns_remove_namespace x)
     | Kv_ns x \<Rightarrow> Kv_ns (kv_remove_namespace x))"

section \<open>The files under \<open>/proc/nvmev\<close>\<close>

definition get_nr_entries :: "'s controller \<Rightarrow> nat \<Rightarrow> nat \<Rightarrow> int option" where
  "get_nr_entries v dbs_idx queue_size = do {
     x \<leftarrow> arr_get (dbs v) dbs_idx;
     y \<leftarrow> arr_get (old_dbs v) dbs_idx;
     let diff = signed32 (sub32 x y);
     Some (if diff < 0 then diff + int queue_size else diff)
   }"

text \<open>A line of \<open>stat\<close>: the queue, its new entries and its counters; reading resets the maximum of a queue.\<close>

record stat_line =
  st_qid :: nat
  st_entries :: int
  st_stat :: nvmev_sq_stat

definition stat_step :: "nat \<Rightarrow> stat_line list \<times> 's controller \<Rightarrow> (stat_line list \<times> 's controller) option" where
  "stat_step i s = (case s of (ls, v) \<Rightarrow> do {
     osq \<leftarrow> arr_get (sqes (vdev v)) i;
     (case osq of None \<Rightarrow> Some (ls, v)
      | Some sq \<Rightarrow> do {
          n \<leftarrow> get_nr_entries v (i * 2) (sq_size sq);
          dev \<leftarrow> on_sq (vdev v) i (\<lambda>sq. sq\<lparr> sq_stat := (sq_stat sq)\<lparr> max_nr_in_flight := 0 \<rparr> \<rparr>);
          Some (ls @ [\<lparr> st_qid = i, st_entries = n, st_stat = sq_stat sq \<rparr>], v\<lparr> vdev := dev \<rparr>)
        })
   })"

text \<open>The four totals, in the order in flight, dispatch, dispatched, I/O.\<close>

definition stat_total :: "stat_line list \<Rightarrow> nat \<times> nat \<times> nat \<times> nat" where
  "stat_total ls = (u32 (sum_list (map (\<lambda>l. nr_in_flight (st_stat l)) ls)), u32 (sum_list (map (\<lambda>l. nr_dispatch (st_stat l)) ls)),
     u32 (sum_list (map (\<lambda>l. nr_dispatched (st_stat l)) ls)), u64 (sum_list (map (\<lambda>l. total_io (st_stat l)) ls)))"

definition proc_stat_read :: "'s controller \<Rightarrow> (stat_line list \<times> (nat \<times> nat \<times> nat \<times> nat) \<times> 's controller) option" where
  "proc_stat_read v = do {
     (ls, v) \<leftarrow> foldM stat_step [1..<nr_sq v + 1] ([], v);
     Some (ls, stat_total ls, v)
   }"

definition clear_stat :: "nat \<Rightarrow> 's controller \<Rightarrow> 's controller option" where
  "clear_stat i v = do {
     osq \<leftarrow> arr_get (sqes (vdev v)) i;
     (case osq of None \<Rightarrow> Some v
      | Some sq \<Rightarrow> do { dev \<leftarrow> on_sq (vdev v) i (\<lambda>sq. sq\<lparr> sq_stat := zero_stat \<rparr>); Some (v\<lparr> vdev := dev \<rparr>) })
   }"

definition proc_stat_write :: "'s controller \<Rightarrow> 's controller option" where
  "proc_stat_write v = foldM clear_stat [1..<nr_sq v + 1] v"

text \<open>The other files: \<open>vals\<close> are the numbers \<open>sscanf\<close> reads, which may be fewer than asked for. A new number of
  units gives new, idle units.\<close>

datatype config_file = READ_TIMES | WRITE_TIMES | IO_UNITS

definition nth_or :: "nat list \<Rightarrow> nat \<Rightarrow> nat \<Rightarrow> nat" where
  "nth_or vals i x = (if i < length vals then u32 (vals ! i) else x)"

definition proc_config_write :: "config_file \<Rightarrow> nat list \<Rightarrow> nvmev_config \<times> nat list \<Rightarrow> nvmev_config \<times> nat list" where
  "proc_config_write f vals s = (case s of (cfg, io_unit_stat) \<Rightarrow> (case f of
       READ_TIMES \<Rightarrow> (cfg\<lparr> cfg_read_delay := nth_or vals 0 (cfg_read_delay cfg), cfg_read_time := nth_or vals 1 (cfg_read_time cfg),
           cfg_read_trailing := nth_or vals 2 (cfg_read_trailing cfg) \<rparr>, io_unit_stat)
     | WRITE_TIMES \<Rightarrow> (cfg\<lparr> cfg_write_delay := nth_or vals 0 (cfg_write_delay cfg), cfg_write_time := nth_or vals 1 (cfg_write_time cfg),
           cfg_write_trailing := nth_or vals 2 (cfg_write_trailing cfg) \<rparr>, io_unit_stat)
     | IO_UNITS \<Rightarrow>
         if vals = [] then (cfg, io_unit_stat)
         else let cfg = cfg\<lparr> cfg_nr_io_units := nth_or vals 0 (cfg_nr_io_units cfg), cfg_io_unit_shift := nth_or vals 1 (cfg_io_unit_shift cfg) \<rparr>
              in (cfg, replicate (cfg_nr_io_units cfg) 0)))"

section \<open>Loading and unloading\<close>

text \<open>\<open>VDEV_FINALIZE\<close> frees the rings of the admin queue before it asks whether there is a queue.\<close>

definition VDEV_FINALIZE :: "nvmev_admin_queue option \<Rightarrow> unit option" where
  "VDEV_FINALIZE q = do { _ \<leftarrow> q; Some () }"

record module_state =
  ms_config :: nvmev_config
  ms_io_unit_stat :: "nat list"
  ms_namespaces :: "any_ns list"

text \<open>\<open>bus\<close> says whether the kernel could scan the bus, \<open>mapped\<close> is where it mapped the storage. The answer is 0
  with the state, or an error.\<close>

definition NVMeV_init :: "base_ssd \<Rightarrow> ns_env \<Rightarrow> nat \<Rightarrow> (nat \<Rightarrow> nat \<Rightarrow> e820_type \<Rightarrow> bool) \<Rightarrow> nat \<Rightarrow> bool \<Rightarrow> module_params \<Rightarrow> (int + module_state) option" where
  "NVMeV_init b E table_size mapped_any mapped bus p = do {
     ocfg \<leftarrow> load_configs b table_size mapped_any p;
     (case ocfg of None \<Rightarrow> do { _ \<leftarrow> VDEV_FINALIZE None; Some (Inl (- EIO)) }
      | Some cfg \<Rightarrow> do {
          ns \<leftarrow> NVMEV_NAMESPACE_INIT b E cfg mapped;
          if \<not> bus then do { _ \<leftarrow> VDEV_FINALIZE None; Some (Inl (- EIO)) }
          else Some (Inr \<lparr> ms_config = cfg, ms_io_unit_stat = replicate (cfg_nr_io_units cfg) 0, ms_namespaces = ns \<rparr>)
        })
   }"

text \<open>The queues freed at the end: those that are still there afterwards are lost. Then the rest is freed.\<close>

definition free_queues :: "nat \<Rightarrow> 'q option list \<Rightarrow> 'q option list option" where
  "free_queues n qs = foldM (\<lambda>i qs. arr_set qs i None) [0..<n] qs"

definition NVMeV_exit :: "module_state \<Rightarrow> 's controller \<Rightarrow> (module_state \<times> 's controller) option" where
  "NVMeV_exit ms v = do {
     sqs \<leftarrow> free_queues (nr_sq v) (sqes (vdev v));
     cqs \<leftarrow> free_queues (nr_cq v) (cqes (vdev v));
     _ \<leftarrow> VDEV_FINALIZE (admin_q v);
     Some (ms\<lparr> ms_namespaces := map remove_namespace (ms_namespaces ms) \<rparr>, v\<lparr> vdev := (vdev v)\<lparr> sqes := sqs, cqes := cqs \<rparr> \<rparr>)
   }"

section \<open>Start and end\<close>

text \<open>Neither error path of the initialisation returns: both free an admin queue that does not exist yet.\<close>

lemma init_error_path_stops:
  "validate_configs mapped_any p < 0 \<or> \<not> bus \<Longrightarrow> NVMeV_init b E table_size mapped_any mapped bus p = None"
  by (auto simp: NVMeV_init_def VDEV_FINALIZE_def load_configs_def bind_eq_None_conv Let_def split: option.splits)

lemma free_queues_Some:
  assumes "n \<le> length qs"
  shows "\<exists>qs'. free_queues n qs = Some qs' \<and> length qs' = length qs \<and> (\<forall>i < length qs. qs' ! i = (if i < n then None else qs ! i))"
proof -
  have "\<exists>qs'. foldM (\<lambda>i qs. arr_set qs i None) [0..<n] qs = Some qs' \<and>
      length qs' = length qs \<and> (\<forall>i < length qs. qs' ! i = (if i < n then None else qs ! i))"
    by (rule foldM_upto [where P = "\<lambda>k xs. length xs = length qs \<and> (\<forall>i < length qs. xs ! i = (if i < k then None else qs ! i))"])
      (use assms in \<open>auto simp: nth_list_update less_Suc_eq\<close>)
  then show ?thesis by (simp add: free_queues_def)
qed

text \<open>Queues are numbered from 1, and the end of the module frees those from 0: the last of each kind is lost.\<close>

lemma exit_loses_last_queue:
  assumes "arrays_ok v" and "admin_q v \<noteq> None" and "1 \<le> nr_sq v" and "nr_sq v \<le> NR_MAX_IO_QUEUE" and "nr_cq v \<le> NR_MAX_IO_QUEUE"
    and "sqes (vdev v) ! nr_sq v = Some sq"
  shows "\<exists>ms' v'. NVMeV_exit ms v = Some (ms', v') \<and> sqes (vdev v') ! nr_sq v = Some sq \<and> (\<forall>i < nr_sq v. sqes (vdev v') ! i = None)"
proof -
  obtain sqs where s: "free_queues (nr_sq v) (sqes (vdev v)) = Some sqs" "\<forall>i < length (sqes (vdev v)). sqs ! i = (if i < nr_sq v then None else sqes (vdev v) ! i)"
    using free_queues_Some [of "nr_sq v" "sqes (vdev v)"] assms(1,4) by (auto simp: arrays_ok_def)
  obtain cqs where c: "free_queues (nr_cq v) (cqes (vdev v)) = Some cqs"
    using free_queues_Some [of "nr_cq v" "cqes (vdev v)"] assms(1,5) by (auto simp: arrays_ok_def)
  have "nr_sq v < length (sqes (vdev v))" using assms(1,4) by (simp add: arrays_ok_def)
  then show ?thesis using s c assms(2,6) by (auto simp: NVMeV_exit_def VDEV_FINALIZE_def)
qed

lemma take_cpus:
  assumes "cfg_nr_io_cpu cfg + length xs \<le> length (cfg_cpu_nr_io_workers cfg)"
  shows "\<exists>ws. foldM take_cpu xs (False, cfg) = Some (False, cfg\<lparr> cfg_cpu_nr_io_workers := ws, cfg_nr_io_cpu := cfg_nr_io_cpu cfg + length xs \<rparr>) \<and>
    take (cfg_nr_io_cpu cfg + length xs) ws = take (cfg_nr_io_cpu cfg) (cfg_cpu_nr_io_workers cfg) @ map u32 xs"
  using assms
proof (induction xs arbitrary: cfg)
  case (Cons x xs)
  define c1 where "c1 = cfg\<lparr> cfg_cpu_nr_io_workers := (cfg_cpu_nr_io_workers cfg)[cfg_nr_io_cpu cfg := u32 x], cfg_nr_io_cpu := cfg_nr_io_cpu cfg + 1 \<rparr>"
  have "take_cpu x (False, cfg) = Some (False, c1)" using Cons.prems by (simp add: take_cpu_def c1_def)
  moreover have "take (cfg_nr_io_cpu c1) (cfg_cpu_nr_io_workers c1) = take (cfg_nr_io_cpu cfg) (cfg_cpu_nr_io_workers cfg) @ [u32 x]"
    using Cons.prems by (simp add: c1_def take_Suc_conv_app_nth)
  moreover obtain ws where "foldM take_cpu xs (False, c1) = Some (False, c1\<lparr> cfg_cpu_nr_io_workers := ws, cfg_nr_io_cpu := cfg_nr_io_cpu c1 + length xs \<rparr>)"
    "take (cfg_nr_io_cpu c1 + length xs) ws = take (cfg_nr_io_cpu c1) (cfg_cpu_nr_io_workers c1) @ map u32 xs"
    using Cons.IH [of c1] Cons.prems by (auto simp: c1_def)
  ultimately show ?case by (intro exI [of _ ws]) (simp add: c1_def)
next
  case Nil
  show ?case by (rule exI [of _ "cfg_cpu_nr_io_workers cfg"]) simp
qed

lemma sub64_wraps: "a < b \<Longrightarrow> b < 2 ^ 64 \<Longrightarrow> sub64 a b = a + 2 ^ 64 - b"
  by (simp add: sub64_def u64_def)

lemma sub64_twice:
  assumes "s < 2 ^ 64" and "t < 2 ^ 63" and "2 ^ 20 < s"
  shows "sub64 (sub64 s t) (2 ^ 20) = (if t + 2 ^ 20 \<le> s then s - t - 2 ^ 20 else 2 ^ 64 - (t + 2 ^ 20 - s))"
proof (cases "t \<le> s")
  case True
  then have 1: "sub64 s t = s - t" using assms(1) by (intro sub64_exact) simp_all
  show ?thesis
  proof (cases "t + 2 ^ 20 \<le> s")
    case False
    then have "sub64 (s - t) (2 ^ 20) = (s - t) + 2 ^ 64 - 2 ^ 20" by (intro sub64_wraps) simp_all
    then show ?thesis using 1 False True by simp
  qed (use 1 assms(1) in simp)
next
  case False
  then have 1: "sub64 s t = s + 2 ^ 64 - t" using assms(2) by (intro sub64_wraps) simp_all
  have "sub64 (s + 2 ^ 64 - t) (2 ^ 20) = s + 2 ^ 64 - t - 2 ^ 20" using False assms(2) by (intro sub64_exact) simp_all
  then show ?thesis using 1 False assms(2) by simp
qed

section \<open>Properties\<close>

text \<open>C31: The configuration made of accepted parameters (the reserved memory ending below 2^64, a table of less than
  2^63 bytes, at most 33 processors) takes the latencies, the units and the processors as given: the first number of the list is
  the dispatcher's, each number after it is that of the next worker, and -1 is the dispatcher's if there is none. It puts the
  storage into the reserved memory: it starts one mebibyte after the start, is not empty and ends where the memory ends, less
  the table of the key-value build. For the key-value build the table
  is subtracted without a check: with less memory than the table and the first mebibyte take, the size wraps
  around to one larger than the memory.\<close>

theorem load_configs_sound:
  assumes "validate_configs mapped_any p = 0" and "p_memmap_start p + p_memmap_size p < 2 ^ 64" and "table_size < 2 ^ 63" and "length (p_cpus p) \<le> 33"
  shows "\<exists>cfg. load_configs b table_size mapped_any p = Some (Some cfg) \<and> cfg_nr_io_cpu cfg = length (p_cpus p) - 1 \<and>
    cfg_cpu_nr_dispatcher cfg = (case p_cpus p of [] \<Rightarrow> 2 ^ 32 - 1 | n # _ \<Rightarrow> u32 n) \<and>
    take (cfg_nr_io_cpu cfg) (cfg_cpu_nr_io_workers cfg) = map u32 (tl (p_cpus p)) \<and>
    cfg_read_delay cfg = p_read_delay p \<and> cfg_read_time cfg = p_read_time p \<and> cfg_read_trailing cfg = p_read_trailing p \<and>
    cfg_write_delay cfg = p_write_delay p \<and> cfg_write_time cfg = p_write_time p \<and> cfg_write_trailing cfg = p_write_trailing p \<and>
    cfg_nr_io_units cfg = p_nr_io_units p \<and> cfg_io_unit_shift cfg = p_io_unit_shift p \<and>
    cfg_storage_start cfg = p_memmap_start p + 2 ^ 20 \<and>
    (b \<noteq> KV_PROTOTYPE \<longrightarrow> 0 < cfg_storage_size cfg \<and> cfg_storage_start cfg + cfg_storage_size cfg = p_memmap_start p + p_memmap_size p) \<and>
    (b = KV_PROTOTYPE \<and> table_size + 2 ^ 20 < p_memmap_size p \<longrightarrow>
       0 < cfg_storage_size cfg \<and> cfg_storage_start cfg + cfg_storage_size cfg + table_size = p_memmap_start p + p_memmap_size p) \<and>
    (b = KV_PROTOTYPE \<and> p_memmap_size p < table_size + 2 ^ 20 \<longrightarrow>
       cfg_storage_size cfg = 2 ^ 64 - (table_size + 2 ^ 20 - p_memmap_size p) \<and> p_memmap_size p < cfg_storage_size cfg)"
proof -
  have size: "2 ^ 20 < p_memmap_size p" using assms(1) by (auto simp: validate_configs_def MB_def EINVAL_def split: if_splits)
  define ms where "ms = (if b = KV_PROTOTYPE then sub64 (p_memmap_size p) table_size else p_memmap_size p)"
  define cfg0 where "cfg0 = \<lparr> cfg_memmap_start = p_memmap_start p, cfg_memmap_size = ms,
              cfg_storage_start = u64 (p_memmap_start p + MB 1), cfg_storage_size = sub64 ms (MB 1),
              cfg_nr_io_units = p_nr_io_units p, cfg_io_unit_shift = p_io_unit_shift p,
              cfg_cpu_nr_dispatcher = 2 ^ 32 - 1, cfg_nr_io_cpu = 0, cfg_cpu_nr_io_workers = replicate MAX_IO_CPUS 0,
              cfg_read_delay = p_read_delay p, cfg_read_time = p_read_time p, cfg_read_trailing = p_read_trailing p,
              cfg_write_delay = p_write_delay p, cfg_write_time = p_write_time p, cfg_write_trailing = p_write_trailing p \<rparr>"
  have "\<exists>f ws. foldM take_cpu (p_cpus p) (True, cfg0) = Some (f, cfg0\<lparr> cfg_cpu_nr_dispatcher := (case p_cpus p of [] \<Rightarrow> 2 ^ 32 - 1 | n # _ \<Rightarrow> u32 n),
        cfg_cpu_nr_io_workers := ws, cfg_nr_io_cpu := length (p_cpus p) - 1 \<rparr>) \<and> take (length (p_cpus p) - 1) ws = map u32 (tl (p_cpus p))"
  proof (cases "p_cpus p")
    case Nil
    then show ?thesis by (intro exI [of _ True] exI [of _ "cfg_cpu_nr_io_workers cfg0"]) (simp add: cfg0_def)
  next
    case (Cons x xs)
    obtain ws where "foldM take_cpu xs (False, cfg0\<lparr> cfg_cpu_nr_dispatcher := u32 x \<rparr>)
        = Some (False, cfg0\<lparr> cfg_cpu_nr_dispatcher := u32 x, cfg_cpu_nr_io_workers := ws, cfg_nr_io_cpu := length xs \<rparr>)"
      "take (length xs) ws = map u32 xs"
      using take_cpus [of "cfg0\<lparr> cfg_cpu_nr_dispatcher := u32 x \<rparr>" xs] assms(4) Cons by (auto simp: cfg0_def MAX_IO_CPUS_def)
    then show ?thesis using Cons by (intro exI [of _ False] exI [of _ ws]) (simp add: take_cpu_def)
  qed
  then obtain f ws cfg where c: "cfg = cfg0\<lparr> cfg_cpu_nr_dispatcher := (case p_cpus p of [] \<Rightarrow> 2 ^ 32 - 1 | n # _ \<Rightarrow> u32 n),
        cfg_cpu_nr_io_workers := ws, cfg_nr_io_cpu := length (p_cpus p) - 1 \<rparr>" "take (length (p_cpus p) - 1) ws = map u32 (tl (p_cpus p))"
      "foldM take_cpu (p_cpus p) (True, cfg0) = Some (f, cfg)" by blast
  then have cfg: "foldM take_cpu (p_cpus p) (True, cfg0) = Some (f, cfg)" "cfg_nr_io_cpu cfg = length (p_cpus p) - 1"
    "cfg_storage_start cfg = cfg_storage_start cfg0" "cfg_storage_size cfg = cfg_storage_size cfg0" by simp_all
  have "load_configs b table_size mapped_any p = Some (Some cfg)"
    using assms(1) cfg(1) unfolding load_configs_def Let_def ms_def [symmetric] cfg0_def [symmetric] by simp
  moreover have "cfg_storage_start cfg = p_memmap_start p + 2 ^ 20" using size assms(2) cfg(3) by (simp add: cfg0_def MB_def)
  moreover have "cfg_storage_size cfg = sub64 ms (2 ^ 20)" using cfg(4) by (simp add: cfg0_def MB_def)
  moreover have "sub64 (p_memmap_size p) (2 ^ 20) = p_memmap_size p - 2 ^ 20" using size assms(2) by (intro sub64_exact) simp_all
  moreover have "sub64 (sub64 (p_memmap_size p) table_size) (2 ^ 20) =
      (if table_size + 2 ^ 20 \<le> p_memmap_size p then p_memmap_size p - table_size - 2 ^ 20 else 2 ^ 64 - (table_size + 2 ^ 20 - p_memmap_size p))"
    using sub64_twice [OF _ assms(3), of "p_memmap_size p"] size assms(2) by simp
  moreover have "cfg_cpu_nr_dispatcher cfg = (case p_cpus p of [] \<Rightarrow> 2 ^ 32 - 1 | n # _ \<Rightarrow> u32 n)"
    "take (cfg_nr_io_cpu cfg) (cfg_cpu_nr_io_workers cfg) = map u32 (tl (p_cpus p))" using c(1,2) by simp_all
  moreover have "cfg_read_delay cfg = p_read_delay p" "cfg_read_time cfg = p_read_time p" "cfg_read_trailing cfg = p_read_trailing p"
    "cfg_write_delay cfg = p_write_delay p" "cfg_write_time cfg = p_write_time p" "cfg_write_trailing cfg = p_write_trailing p"
    "cfg_nr_io_units cfg = p_nr_io_units p" "cfg_io_unit_shift cfg = p_io_unit_shift p" by (simp_all add: c(1) cfg0_def)
  ultimately show ?thesis using cfg(2) size assms(2,3) by (auto simp: ms_def)
qed

lemma load_configs_sound_witness:
  "\<exists>cfg. load_configs KV_PROTOTYPE (2 ^ 30) (\<lambda>_ _ t. t = E820_TYPE_RESERVED)
       \<lparr> p_memmap_start = 2 ^ 32, p_memmap_size = 2 ^ 29, p_read_time = 1, p_read_delay = 1, p_read_trailing = 0, p_write_time = 1,
         p_write_delay = 1, p_write_trailing = 0, p_nr_io_units = 8, p_io_unit_shift = 12, p_cpus = [7, 8] \<rparr> = Some (Some cfg) \<and>
     cfg_nr_io_cpu cfg = 1 \<and> 2 ^ 29 < cfg_storage_size cfg"
  using load_configs_sound [of "\<lambda>_ _ t. t = E820_TYPE_RESERVED" "\<lparr> p_memmap_start = 2 ^ 32, p_memmap_size = 2 ^ 29, p_read_time = 1, p_read_delay = 1,
       p_read_trailing = 0, p_write_time = 1, p_write_delay = 1, p_write_trailing = 0, p_nr_io_units = 8, p_io_unit_shift = 12, p_cpus = [7, 8] \<rparr>"
      "2 ^ 30" KV_PROTOTYPE]
  by (auto simp: validate_configs_def validate_configs_arch_def MB_def)

end
