(* ===== verification/Teardown.thy ===== *)
theory Teardown
  imports Zone Conv_FTL
begin

text \<open>
  The memory of the module: which blocks \<open>kmalloc\<close> and \<open>vmalloc\<close> hand out while a namespace is brought up and
  which of them \<open>kfree\<close> and \<open>vfree\<close> take back when it goes (\<open>ssd.c\<close>, \<open>conv_ftl.c\<close>, \<open>zns_ftl.c\<close>, \<open>pqueue.c\<close>,
  \<open>io.c\<close>). A block is named by the field that points at it, with the indices of the structures the field
  lies in; the heap is the set of the blocks in use. To read a field is to use the block it lies in.
  \<open>None\<close> stands for the use of a block that is not in use, and for freeing one. Allocation succeeds.
\<close>

datatype field =
    F_ssd | F_ch | F_ch_model | F_lun | F_pl | F_blk | F_pg | F_sec | F_pcie | F_pcie_model | F_write_buffer
  | F_conv_ftls | F_lunlm | F_lunwp | F_maptbl | F_rmap | F_lines | F_victim_pq | F_victim_d | F_hotness
  | F_lun_lines | F_lun_pq | F_lun_d
  | F_zns_ftl | F_zone_descs | F_report_buffer | F_zwra_buffer | F_zone_write_buffer
  | F_proc_info | F_proc_table | F_other

type_synonym block = "field \<times> nat list"
type_synonym heap = "block set"

definition alloc :: "block \<Rightarrow> heap \<Rightarrow> heap" where
  "alloc b H = insert b H"

definition kfree :: "block \<Rightarrow> heap \<Rightarrow> heap option" where
  "kfree b H = (if b \<in> H then Some (H - {b}) else None)"

definition use_block :: "block \<Rightarrow> heap \<Rightarrow> heap option" where
  "use_block b H = (if b \<in> H then Some H else None)"

text \<open>\<open>kfree\<close> of a pointer that may be NULL.\<close>

definition kfree_ptr :: "block option \<Rightarrow> heap \<Rightarrow> heap option" where
  "kfree_ptr p H = (case p of None \<Rightarrow> Some H | Some b \<Rightarrow> kfree b H)"

text \<open>An array of \<open>n\<close> structures in one block, each brought up by \<open>ini\<close> and taken down by \<open>fin\<close>: the loops of
  the pairs \<open>ssd_init_nand_blk\<close>, \<open>ssd_remove_nand_blk\<close> and so on.\<close>

definition alloc_array :: "field \<Rightarrow> nat \<Rightarrow> (nat list \<Rightarrow> heap \<Rightarrow> heap) \<Rightarrow> nat list \<Rightarrow> heap \<Rightarrow> heap" where
  "alloc_array f n ini p H = fold (\<lambda>i. ini (p @ [i])) [0..<n] (alloc (f, p) H)"

definition free_array :: "field \<Rightarrow> nat \<Rightarrow> (nat list \<Rightarrow> heap \<Rightarrow> heap option) \<Rightarrow> nat list \<Rightarrow> heap \<Rightarrow> heap option" where
  "free_array f n fin p H = do {
     H \<leftarrow> foldM (\<lambda>i H. do { H \<leftarrow> use_block (f, p) H; fin (p @ [i]) H }) [0..<n] H;
     kfree (f, p) H
   }"

section \<open>The flash array\<close>

definition mem_init_nand_page :: "nat list \<Rightarrow> heap \<Rightarrow> heap" where
  "mem_init_nand_page p H = alloc (F_sec, p) H"

definition ssd_remove_nand_page :: "nat list \<Rightarrow> heap \<Rightarrow> heap option" where
  "ssd_remove_nand_page p H = kfree (F_sec, p) H"

definition mem_init_nand_blk :: "ssdparams \<Rightarrow> nat list \<Rightarrow> heap \<Rightarrow> heap" where
  "mem_init_nand_blk spp = alloc_array F_pg (pgs_per_blk spp) mem_init_nand_page"

definition ssd_remove_nand_blk :: "ssdparams \<Rightarrow> nat list \<Rightarrow> heap \<Rightarrow> heap option" where
  "ssd_remove_nand_blk spp = free_array F_pg (pgs_per_blk spp) ssd_remove_nand_page"

definition mem_init_nand_plane :: "ssdparams \<Rightarrow> nat list \<Rightarrow> heap \<Rightarrow> heap" where
  "mem_init_nand_plane spp = alloc_array F_blk (blks_per_pl spp) (mem_init_nand_blk spp)"

definition ssd_remove_nand_plane :: "ssdparams \<Rightarrow> nat list \<Rightarrow> heap \<Rightarrow> heap option" where
  "ssd_remove_nand_plane spp = free_array F_blk (blks_per_pl spp) (ssd_remove_nand_blk spp)"

definition mem_init_nand_lun :: "ssdparams \<Rightarrow> nat list \<Rightarrow> heap \<Rightarrow> heap" where
  "mem_init_nand_lun spp = alloc_array F_pl (pls_per_lun spp) (mem_init_nand_plane spp)"

definition ssd_remove_nand_lun :: "ssdparams \<Rightarrow> nat list \<Rightarrow> heap \<Rightarrow> heap option" where
  "ssd_remove_nand_lun spp = free_array F_pl (pls_per_lun spp) (ssd_remove_nand_plane spp)"

definition mem_init_ch :: "ssdparams \<Rightarrow> nat list \<Rightarrow> heap \<Rightarrow> heap" where
  "mem_init_ch spp p H = alloc (F_ch_model, p) (alloc_array F_lun (luns_per_ch spp) (mem_init_nand_lun spp) p H)"

definition ssd_remove_ch :: "ssdparams \<Rightarrow> nat list \<Rightarrow> heap \<Rightarrow> heap option" where
  "ssd_remove_ch spp p H = do {
     H \<leftarrow> kfree (F_ch_model, p) H;
     free_array F_lun (luns_per_ch spp) (ssd_remove_nand_lun spp) p H
   }"

text \<open>\<open>ssd_init\<close> and \<open>ssd_remove\<close>, for the \<open>struct ssd\<close> at \<open>p\<close>; the pointers to the PCIe model and the write buffer
  can be NULL when it is removed.\<close>

definition mem_ssd_init :: "ssdparams \<Rightarrow> nat list \<Rightarrow> heap \<Rightarrow> heap" where
  "mem_ssd_init spp p H =
     (let H = alloc_array F_ch (nchs spp) (mem_init_ch spp) p H;
          H = alloc (F_pcie_model, p) (alloc (F_pcie, p) H)
      in alloc (F_write_buffer, p) H)"

definition ssd_remove :: "ssdparams \<Rightarrow> nat list \<Rightarrow> block option \<Rightarrow> block option \<Rightarrow> heap \<Rightarrow> heap option" where
  "ssd_remove spp p pcie wbuf H = do {
     H \<leftarrow> use_block (F_ssd, p) H;
     H \<leftarrow> kfree_ptr wbuf H;
     H \<leftarrow> (case pcie of None \<Rightarrow> Some H | Some q \<Rightarrow> do { H \<leftarrow> use_block q H; H \<leftarrow> kfree (F_pcie_model, snd q) H; kfree q H });
     free_array F_ch (nchs spp) (ssd_remove_ch spp) p H
   }"

section \<open>The conventional namespace\<close>

definition pqueue_mem_init :: "field \<Rightarrow> field \<Rightarrow> nat list \<Rightarrow> heap \<Rightarrow> heap" where
  "pqueue_mem_init q d p H = alloc (d, p) (alloc (q, p) H)"

definition pqueue_free :: "field \<Rightarrow> field \<Rightarrow> nat list \<Rightarrow> heap \<Rightarrow> heap option" where
  "pqueue_free q d p H = do { H \<leftarrow> use_block (q, p) H; H \<leftarrow> kfree (d, p) H; kfree (q, p) H }"

definition remove_lines :: "nat list \<Rightarrow> heap \<Rightarrow> heap option" where
  "remove_lines p H = do { H \<leftarrow> pqueue_free F_victim_pq F_victim_d p H; kfree (F_lines, p) H }"

definition luncount :: "ssdparams \<Rightarrow> nat" where
  "luncount spp = luns_per_ch spp * nchs spp"

definition lun_mem_init :: "nat list \<Rightarrow> heap \<Rightarrow> heap" where
  "lun_mem_init p H = pqueue_mem_init F_lun_pq F_lun_d p (alloc (F_lun_lines, p) H)"

definition init_lines_DA_mem :: "ssdparams \<Rightarrow> nat list \<Rightarrow> heap \<Rightarrow> heap" where
  "init_lines_DA_mem spp p H = fold (\<lambda>lun. lun_mem_init (p @ [lun])) [0..<luncount spp] H"

definition lun_lines_free :: "nat list \<Rightarrow> heap \<Rightarrow> heap option" where
  "lun_lines_free p H = do { H \<leftarrow> pqueue_free F_lun_pq F_lun_d p H; kfree (F_lun_lines, p) H }"

definition remove_lines_DA :: "ssdparams \<Rightarrow> nat list \<Rightarrow> heap \<Rightarrow> heap option" where
  "remove_lines_DA spp p H = foldM (\<lambda>lun H. do { H \<leftarrow> use_block (F_lunlm, p) H; lun_lines_free (p @ [lun]) H }) [0..<luncount spp] H"

definition conv_init_ftl_mem :: "base_ssd \<Rightarrow> ssdparams \<Rightarrow> nat list \<Rightarrow> heap \<Rightarrow> heap" where
  "conv_init_ftl_mem b spp p H =
     (let H = alloc (F_rmap, p) (alloc (F_maptbl, p) H);
          H = pqueue_mem_init F_victim_pq F_victim_d p (alloc (F_lines, p) H)
      in if b = HYBRID_SSD then init_lines_DA_mem spp p (alloc (F_hotness, p) H) else H)"

definition conv_remove_ftl :: "base_ssd \<Rightarrow> ssdparams \<Rightarrow> nat list \<Rightarrow> heap \<Rightarrow> heap option" where
  "conv_remove_ftl b spp p H = do {
     H \<leftarrow> kfree (F_maptbl, p) H;
     H \<leftarrow> kfree (F_rmap, p) H;
     H \<leftarrow> remove_lines p H;
     if b = HYBRID_SSD then do { H \<leftarrow> kfree (F_hotness, p) H; remove_lines_DA spp p H } else Some H
   }"

definition conv_part_init :: "base_ssd \<Rightarrow> ssdparams \<Rightarrow> nat \<Rightarrow> heap \<Rightarrow> heap" where
  "conv_part_init b spp i H =
     (let H = alloc (F_lunwp, [i]) (alloc (F_lunlm, [i]) H);
          H = mem_ssd_init spp [i] (alloc (F_ssd, [i]) H)
      in conv_init_ftl_mem b spp [i] H)"

text \<open>After the partitions are up, those from the second on drop their PCIe model and write buffer for the
  ones of the first.\<close>

definition share_part :: "nat \<Rightarrow> heap \<Rightarrow> heap option" where
  "share_part i H = do { H \<leftarrow> use_block (F_pcie, [i]) H; H \<leftarrow> kfree (F_pcie_model, [i]) H; H \<leftarrow> kfree (F_pcie, [i]) H; kfree (F_write_buffer, [i]) H }"

definition conv_init_mem :: "base_ssd \<Rightarrow> ssdparams \<Rightarrow> nat \<Rightarrow> heap \<Rightarrow> heap option" where
  "conv_init_mem b spp nr_parts H =
     (let H = fold (conv_part_init b spp) [0..<nr_parts] (alloc (F_conv_ftls, []) H)
      in foldM share_part [1..<nr_parts] H)"

definition drop_part :: "nat \<Rightarrow> heap \<Rightarrow> heap option" where
  "drop_part i H = do { H \<leftarrow> use_block (F_conv_ftls, []) H; H \<leftarrow> use_block (F_ssd, [i]) H; H \<leftarrow> kfree (F_lunlm, [i]) H; kfree (F_lunwp, [i]) H }"

definition conv_part_remove :: "base_ssd \<Rightarrow> ssdparams \<Rightarrow> nat \<Rightarrow> heap \<Rightarrow> heap option" where
  "conv_part_remove b spp i H = do {
     H \<leftarrow> use_block (F_conv_ftls, []) H;
     H \<leftarrow> conv_remove_ftl b spp [i] H;
     H \<leftarrow> ssd_remove spp [i] (if i = 0 then Some (F_pcie, [0]) else None) (if i = 0 then Some (F_write_buffer, [0]) else None) H;
     kfree (F_ssd, [i]) H
   }"

definition conv_remove_mem :: "base_ssd \<Rightarrow> ssdparams \<Rightarrow> nat \<Rightarrow> heap \<Rightarrow> heap option" where
  "conv_remove_mem b spp nr_parts H = do {
     H \<leftarrow> foldM drop_part [1..<nr_parts] H;
     H \<leftarrow> foldM (conv_part_remove b spp) [0..<nr_parts] H;
     kfree (F_conv_ftls, []) H
   }"

section \<open>The zoned namespace and the workers\<close>

definition zns_init_mem :: "ssdparams \<Rightarrow> znsparams \<Rightarrow> heap \<Rightarrow> heap" where
  "zns_init_mem spp zpp H =
     (let H = mem_ssd_init spp [] (alloc (F_ssd, []) H);
          H = alloc (F_report_buffer, []) (alloc (F_zone_descs, []) (alloc (F_zns_ftl, []) H));
          H = (if zrwa_buffer_size zpp \<noteq> 0 then alloc (F_zwra_buffer, []) H else H)
      in if zone_wb_size zpp \<noteq> 0 then alloc (F_zone_write_buffer, []) H else H)"

definition remove_descriptor :: "znsparams \<Rightarrow> heap \<Rightarrow> heap option" where
  "remove_descriptor zpp H = do {
     H \<leftarrow> use_block (F_zns_ftl, []) H;
     H \<leftarrow> (if zrwa_buffer_size zpp \<noteq> 0 then kfree (F_zwra_buffer, []) H else Some H);
     H \<leftarrow> (if zone_wb_size zpp \<noteq> 0 then kfree (F_zone_write_buffer, []) H else Some H);
     H \<leftarrow> kfree (F_report_buffer, []) H;
     kfree (F_zone_descs, []) H
   }"

definition zns_remove_mem :: "ssdparams \<Rightarrow> znsparams \<Rightarrow> heap \<Rightarrow> heap option" where
  "zns_remove_mem spp zpp H = do {
     H \<leftarrow> use_block (F_zns_ftl, []) H;
     H \<leftarrow> ssd_remove spp [] (Some (F_pcie, [])) (Some (F_write_buffer, [])) H;
     H \<leftarrow> remove_descriptor zpp H;
     H \<leftarrow> kfree (F_ssd, []) H;
     kfree (F_zns_ftl, []) H
   }"

definition io_proc_mem_init :: "nat \<Rightarrow> heap \<Rightarrow> heap" where
  "io_proc_mem_init nr_io_cpu H = alloc_array F_proc_info nr_io_cpu (\<lambda>p. alloc (F_proc_table, p)) [] H"

definition NVMEV_IO_PROC_FINAL :: "nat \<Rightarrow> heap \<Rightarrow> heap option" where
  "NVMEV_IO_PROC_FINAL nr_io_cpu H = free_array F_proc_info nr_io_cpu (\<lambda>p. kfree (F_proc_table, p)) [] H"

section \<open>Structures that own their memory\<close>

definition own_array :: "field \<Rightarrow> nat \<Rightarrow> (nat list \<Rightarrow> block set) \<Rightarrow> nat list \<Rightarrow> block set" where
  "own_array f n own p = insert (f, p) (\<Union>i < n. own (p @ [i]))"

lemma foldM_frees:
  assumes "\<And>i H. i \<in> set is \<Longrightarrow> S i \<subseteq> H \<Longrightarrow> K \<subseteq> H \<Longrightarrow> fin i H = Some (H - S i)"
    and "\<And>i j. i \<in> set is \<Longrightarrow> j \<in> set is \<Longrightarrow> i \<noteq> j \<Longrightarrow> S i \<inter> S j = {}" and "\<And>i. i \<in> set is \<Longrightarrow> S i \<inter> K = {}"
    and "distinct is" and "(\<Union>i \<in> set is. S i) \<subseteq> H" and "K \<subseteq> H"
  shows "foldM fin is H = Some (H - (\<Union>i \<in> set is. S i))"
  using assms
proof (induction "is" arbitrary: H)
  case (Cons i "is")
  have "fin i H = Some (H - S i)" using Cons.prems by auto
  moreover have "foldM fin is (H - S i) = Some (H - S i - (\<Union>i \<in> set is. S i))"
  proof (rule Cons.IH)
    show "(\<Union>i \<in> set is. S i) \<subseteq> H - S i"
    proof -
      have "S i \<inter> S j = {}" if "j \<in> set is" for j using Cons.prems(2) [of i j] Cons.prems(4) that by auto
      then show ?thesis using Cons.prems(5) by auto
    qed
    show "K \<subseteq> H - S i" using Cons.prems(3,6) by auto
  qed (use Cons.prems in auto)
  ultimately show ?case by (simp add: Diff_eq Int_assoc)
qed simp

locale owned_structure =
  fixes own :: "nat list \<Rightarrow> block set" and ini :: "nat list \<Rightarrow> heap \<Rightarrow> heap" and fin :: "nat list \<Rightarrow> heap \<Rightarrow> heap option"
  assumes ini: "ini p H = H \<union> own p"
    and fin: "own p \<subseteq> H \<Longrightarrow> fin p H = Some (H - own p)"
    and below: "b \<in> own p \<Longrightarrow> \<exists>q. snd b = p @ q"
begin

lemma apart:
  assumes "i \<noteq> j"
  shows "own (p @ [i]) \<inter> own (p @ [j]) = {}"
proof -
  have False if b: "b \<in> own (p @ [i])" "b \<in> own (p @ [j])" for b
    using below [OF b(1)] below [OF b(2)] assms by auto
  then show ?thesis by blast
qed

lemma not_own: "(f, p) \<notin> own (p @ [i])"
  using below [of "(f, p)" "p @ [i]"] by auto

lemma array_ini: "alloc_array f n ini p H = H \<union> own_array f n own p"
proof -
  have "fold (\<lambda>i. ini (p @ [i])) is H = H \<union> (\<Union>i \<in> set is. own (p @ [i]))" for "is" H
    by (induction "is" arbitrary: H) (auto simp: ini)
  then show ?thesis by (auto simp: alloc_array_def own_array_def alloc_def)
qed

lemma array_fin:
  assumes "own_array f n own p \<subseteq> H"
  shows "free_array f n fin p H = Some (H - own_array f n own p)"
proof -
  let ?step = "\<lambda>i H. do { H \<leftarrow> use_block (f, p) H; fin (p @ [i]) H }"
  have "foldM ?step [0..<n] H = Some (H - (\<Union>i \<in> set [0..<n]. own (p @ [i])))"
  proof (rule foldM_frees [where K = "{(f, p)}"])
    show "(\<Union>i \<in> set [0..<n]. own (p @ [i])) \<subseteq> H" "{(f, p)} \<subseteq> H"
      using assms by (simp_all add: own_array_def lessThan_atLeast0)
  qed (use apart not_own in \<open>auto simp: use_block_def fin\<close>)
  moreover have "(f, p) \<in> H - (\<Union>i \<in> set [0..<n]. own (p @ [i]))" using assms not_own by (auto simp: own_array_def)
  ultimately show ?thesis by (auto simp: free_array_def kfree_def own_array_def)
qed

lemma array_below:
  assumes "b \<in> own_array f n own p"
  shows "\<exists>q. snd b = p @ q"
proof -
  consider "b = (f, p)" | i where "b \<in> own (p @ [i])" using assms by (auto simp: own_array_def)
  then show ?thesis
  proof cases
    case 2
    then show ?thesis using below [OF 2] by auto
  qed simp
qed

lemma array_owned: "owned_structure (own_array f n own) (alloc_array f n ini) (free_array f n fin)"
  by unfold_locales (simp_all add: array_ini array_fin array_below)

end

abbreviation own_page :: "nat list \<Rightarrow> block set" where "own_page \<equiv> \<lambda>p. {(F_sec, p)}"

definition own_blk :: "ssdparams \<Rightarrow> nat list \<Rightarrow> block set" where "own_blk spp = own_array F_pg (pgs_per_blk spp) own_page"
definition own_plane :: "ssdparams \<Rightarrow> nat list \<Rightarrow> block set" where "own_plane spp = own_array F_blk (blks_per_pl spp) (own_blk spp)"
definition own_lun :: "ssdparams \<Rightarrow> nat list \<Rightarrow> block set" where "own_lun spp = own_array F_pl (pls_per_lun spp) (own_plane spp)"
definition own_ch :: "ssdparams \<Rightarrow> nat list \<Rightarrow> block set" where
  "own_ch spp p = insert (F_ch_model, p) (own_array F_lun (luns_per_ch spp) (own_lun spp) p)"
definition own_chs :: "ssdparams \<Rightarrow> nat list \<Rightarrow> block set" where "own_chs spp = own_array F_ch (nchs spp) (own_ch spp)"

interpretation page: owned_structure own_page mem_init_nand_page ssd_remove_nand_page
  by unfold_locales (auto simp: mem_init_nand_page_def ssd_remove_nand_page_def alloc_def kfree_def)

interpretation blk: owned_structure "own_blk spp" "mem_init_nand_blk spp" "ssd_remove_nand_blk spp" for spp
  unfolding own_blk_def mem_init_nand_blk_def ssd_remove_nand_blk_def by (rule page.array_owned)

interpretation plane: owned_structure "own_plane spp" "mem_init_nand_plane spp" "ssd_remove_nand_plane spp" for spp
  unfolding own_plane_def mem_init_nand_plane_def ssd_remove_nand_plane_def by (rule blk.array_owned)

interpretation nlun: owned_structure "own_lun spp" "mem_init_nand_lun spp" "ssd_remove_nand_lun spp" for spp
  unfolding own_lun_def mem_init_nand_lun_def ssd_remove_nand_lun_def by (rule plane.array_owned)

text \<open>Which fields the blocks of a structure are reached by.\<close>

lemma own_array_fields: "(\<And>q. fst ` own q \<subseteq> F) \<Longrightarrow> fst ` own_array f n own p \<subseteq> insert f F"
  unfolding own_array_def by (simp add: image_UN UN_subset_iff subset_insertI2)

lemma own_lun_fields: "fst ` own_lun spp p \<subseteq> {F_pl, F_blk, F_pg, F_sec}"
proof -
  have "fst ` own_blk spp q \<subseteq> {F_pg, F_sec}" for q unfolding own_blk_def by (rule own_array_fields) auto
  then have "fst ` own_plane spp q \<subseteq> {F_blk, F_pg, F_sec}" for q unfolding own_plane_def by (rule own_array_fields)
  then show ?thesis unfolding own_lun_def by (rule own_array_fields)
qed

lemma own_luns_fields: "fst ` own_array F_lun n (own_lun spp) p \<subseteq> {F_lun, F_pl, F_blk, F_pg, F_sec}"
  by (rule own_array_fields [OF own_lun_fields])

interpretation ch: owned_structure "own_ch spp" "mem_init_ch spp" "ssd_remove_ch spp" for spp
proof
  fix p H
  show "mem_init_ch spp p H = H \<union> own_ch spp p"
    by (simp add: mem_init_ch_def own_ch_def alloc_def nlun.array_ini)
  have "(F_ch_model, p) \<notin> own_array F_lun (luns_per_ch spp) (own_lun spp) p"
    using own_luns_fields [of "luns_per_ch spp" spp p] by (force simp: image_subset_iff)
  note no_model = this
  show "ssd_remove_ch spp p H = Some (H - own_ch spp p)" if sub: "own_ch spp p \<subseteq> H"
  proof -
    have "own_array F_lun (luns_per_ch spp) (own_lun spp) p \<subseteq> H - {(F_ch_model, p)}" using sub no_model by (auto simp: own_ch_def)
    note luns = nlun.array_fin [OF this]
    have "kfree (F_ch_model, p) H = Some (H - {(F_ch_model, p)})" using sub by (simp add: own_ch_def kfree_def)
    moreover have "H - insert (F_ch_model, p) (own_array F_lun (luns_per_ch spp) (own_lun spp) p)
        = H - {(F_ch_model, p)} - own_array F_lun (luns_per_ch spp) (own_lun spp) p" by blast
    ultimately show ?thesis unfolding ssd_remove_ch_def own_ch_def by (simp only: luns bind.bind_lunit)
  qed
  show "\<exists>q. snd b = p @ q" if "b \<in> own_ch spp p" for b
    using that nlun.array_below [of b F_lun "luns_per_ch spp" spp p] by (auto simp: own_ch_def)
qed

interpretation chs: owned_structure "own_chs spp" "alloc_array F_ch (nchs spp) (mem_init_ch spp)" "free_array F_ch (nchs spp) (ssd_remove_ch spp)" for spp
  unfolding own_chs_def by (rule ch.array_owned)

interpretation tables: owned_structure "\<lambda>p. {(F_proc_table, p)}" "\<lambda>p. alloc (F_proc_table, p)" "\<lambda>p. kfree (F_proc_table, p)"
  by unfold_locales (auto simp: alloc_def kfree_def)

interpretation workers: owned_structure "own_array F_proc_info n (\<lambda>p. {(F_proc_table, p)})"
  "alloc_array F_proc_info n (\<lambda>p. alloc (F_proc_table, p))" "free_array F_proc_info n (\<lambda>p. kfree (F_proc_table, p))" for n
  by (rule tables.array_owned)

lemma own_chs_fields: "fst ` own_chs spp p \<subseteq> {F_ch, F_ch_model, F_lun, F_pl, F_blk, F_pg, F_sec}"
proof -
  have "fst ` own_ch spp q \<subseteq> {F_ch_model, F_lun, F_pl, F_blk, F_pg, F_sec}" for q
    using own_luns_fields [of "luns_per_ch spp" spp q] by (auto simp: own_ch_def)
  then show ?thesis unfolding own_chs_def by (rule own_array_fields)
qed

section \<open>A device\<close>

definition own_ssd :: "ssdparams \<Rightarrow> nat list \<Rightarrow> block set" where
  "own_ssd spp p = {(F_write_buffer, p), (F_pcie, p), (F_pcie_model, p)} \<union> own_chs spp p"

lemma kfree_in: "b \<in> H \<Longrightarrow> kfree b H = Some (H - {b})"
  by (simp add: kfree_def)

lemma use_in: "b \<in> H \<Longrightarrow> use_block b H = Some H"
  by (simp add: use_block_def)

lemma not_in_chs: "f \<notin> {F_ch, F_ch_model, F_lun, F_pl, F_blk, F_pg, F_sec} \<Longrightarrow> (f, q) \<notin> own_chs spp p"
  using own_chs_fields [of spp p] by (force simp: image_subset_iff)

lemma mem_ssd_init: "mem_ssd_init spp p H = H \<union> own_ssd spp p"
  by (auto simp: mem_ssd_init_def chs.ini alloc_def own_ssd_def Let_def)

lemma ssd_remove_shared:
  assumes "(F_ssd, p) \<in> H" and "own_chs spp p \<subseteq> H"
  shows "ssd_remove spp p None None H = Some (H - own_chs spp p)"
  using assms by (simp add: ssd_remove_def use_in kfree_ptr_def chs.fin)

lemma ssd_remove_own:
  assumes "(F_ssd, p) \<in> H" and "own_ssd spp p \<subseteq> H"
  shows "ssd_remove spp p (Some (F_pcie, p)) (Some (F_write_buffer, p)) H = Some (H - own_ssd spp p)"
proof -
  let ?H = "H - {(F_write_buffer, p)} - {(F_pcie_model, p)} - {(F_pcie, p)}"
  have "own_chs spp p \<subseteq> ?H" using assms(2) by (auto simp: own_ssd_def not_in_chs)
  note chs.fin [OF this]
  moreover have "?H - own_chs spp p = H - own_ssd spp p" by (auto simp: own_ssd_def)
  moreover have "(F_write_buffer, p) \<in> H" "(F_pcie, p) \<in> H" "(F_pcie_model, p) \<in> H" using assms(2) by (auto simp: own_ssd_def)
  ultimately show ?thesis using assms(1) by (simp add: ssd_remove_def use_in kfree_ptr_def kfree_in)
qed

text \<open>A heap with none of the module's blocks.\<close>

definition fresh :: "heap \<Rightarrow> bool" where
  "fresh H \<longleftrightarrow> fst ` H \<subseteq> {F_other}"

lemma fresh_not_in: "fresh H \<Longrightarrow> f \<noteq> F_other \<Longrightarrow> (f, p) \<notin> H"
  by (force simp: fresh_def image_subset_iff)

text \<open>A zoned namespace gives back all it took.\<close>

lemma zns_heap_balanced:
  assumes "fresh H"
  shows "zns_remove_mem spp zpp (zns_init_mem spp zpp H) = Some H"
proof -
  let ?z = "{(F_zns_ftl, []), (F_zone_descs, []), (F_report_buffer, [])} \<union> (if zrwa_buffer_size zpp \<noteq> 0 then {(F_zwra_buffer, [])} else {})
    \<union> (if zone_wb_size zpp \<noteq> 0 then {(F_zone_write_buffer, [])} else {})"
  let ?H = "insert (F_ssd, []) H \<union> own_ssd spp [] \<union> ?z"
  have init: "zns_init_mem spp zpp H = ?H" by (auto simp: zns_init_mem_def mem_ssd_init alloc_def Let_def)
  have apart: "own_ssd spp [] \<inter> (insert (F_ssd, []) H \<union> ?z) = {}"
    using fresh_not_in [OF assms] own_chs_fields [of spp "[]"] by (fastforce simp: own_ssd_def image_subset_iff split: if_splits)
  have "ssd_remove spp [] (Some (F_pcie, [])) (Some (F_write_buffer, [])) ?H = Some (?H - own_ssd spp [])"
    by (rule ssd_remove_own) auto
  moreover have "?H - own_ssd spp [] = insert (F_ssd, []) H \<union> ?z" using apart by blast
  ultimately have "zns_remove_mem spp zpp ?H = do { H \<leftarrow> remove_descriptor zpp (insert (F_ssd, []) H \<union> ?z); H \<leftarrow> kfree (F_ssd, []) H; kfree (F_zns_ftl, []) H }"
    by (simp add: zns_remove_mem_def use_in)
  moreover have "remove_descriptor zpp (insert (F_ssd, []) H \<union> ?z) = Some (insert (F_ssd, []) (insert (F_zns_ftl, []) H))"
    using fresh_not_in [OF assms] by (auto simp: remove_descriptor_def use_block_def kfree_def)
  ultimately show ?thesis using fresh_not_in [OF assms] by (auto simp: init kfree_def)
qed

lemma workers_heap_balanced:
  assumes "fresh H"
  shows "NVMEV_IO_PROC_FINAL n (io_proc_mem_init n H) = Some H"
proof -
  have "own_array F_proc_info n (\<lambda>p. {(F_proc_table, p)}) [] \<inter> H = {}" using fresh_not_in [OF assms] by (auto simp: own_array_def)
  then show ?thesis unfolding NVMEV_IO_PROC_FINAL_def io_proc_mem_init_def workers.ini by (subst workers.fin) auto
qed

section \<open>The partitions\<close>

definition own_luns :: "base_ssd \<Rightarrow> ssdparams \<Rightarrow> nat \<Rightarrow> block set" where
  "own_luns b spp i = (if b = HYBRID_SSD then insert (F_hotness, [i]) ({F_lun_lines, F_lun_pq, F_lun_d} \<times> (\<lambda>lun. [i, lun]) ` {..<luncount spp}) else {})"

definition own_ftl :: "base_ssd \<Rightarrow> ssdparams \<Rightarrow> nat \<Rightarrow> block set" where
  "own_ftl b spp i = {F_maptbl, F_rmap, F_lines, F_victim_pq, F_victim_d} \<times> {[i]} \<union> own_luns b spp i"

definition own_shared :: "nat \<Rightarrow> block set" where
  "own_shared i = {F_pcie, F_pcie_model, F_write_buffer} \<times> {[i]}"

definition own_DA :: "nat \<Rightarrow> block set" where
  "own_DA i = {F_lunlm, F_lunwp} \<times> {[i]}"

definition own_part :: "base_ssd \<Rightarrow> ssdparams \<Rightarrow> nat \<Rightarrow> block set" where
  "own_part b spp i = own_ftl b spp i \<union> insert (F_ssd, [i]) (own_chs spp [i])"

lemma part_below: "x \<in> own_part b spp i \<union> own_shared i \<union> own_DA i \<Longrightarrow> \<exists>q. snd x = i # q"
  using chs.below [of x spp "[i]"]
  by (auto simp: own_part_def own_ftl_def own_shared_def own_DA_def own_luns_def split: if_splits)

lemma parts_apart:
  assumes "i \<noteq> j"
  shows "(own_part b spp i \<union> own_shared i \<union> own_DA i) \<inter> (own_part b spp j \<union> own_shared j \<union> own_DA j) = {}"
  using part_below [of _ b spp i] part_below [of _ b spp j] assms by fastforce

lemma part_fields_apart: "own_part b spp i \<inter> own_shared i = {}" "own_part b spp i \<inter> own_DA i = {}" "own_shared i \<inter> own_DA i = {}"
  by (auto simp: own_part_def own_ftl_def own_shared_def own_DA_def own_luns_def not_in_chs split: if_splits)

lemma part_init: "conv_part_init b spp i H = H \<union> (own_part b spp i \<union> own_shared i \<union> own_DA i)"
proof -
  have luns: "fold (\<lambda>lun. lun_mem_init ([i] @ [lun])) ls H = H \<union> {F_lun_lines, F_lun_pq, F_lun_d} \<times> (\<lambda>lun. [i, lun]) ` set ls" for ls H
    by (induction ls arbitrary: H) (auto simp: lun_mem_init_def pqueue_mem_init_def alloc_def)
  have DA: "init_lines_DA_mem spp [i] H = H \<union> {F_lun_lines, F_lun_pq, F_lun_d} \<times> (\<lambda>lun. [i, lun]) ` {..<luncount spp}" for H
    unfolding init_lines_DA_mem_def luns by (simp add: lessThan_atLeast0)
  show ?thesis
    by (auto simp: conv_part_init_def conv_init_ftl_mem_def pqueue_mem_init_def mem_ssd_init alloc_def Let_def DA
        own_part_def own_ftl_def own_luns_def own_shared_def own_DA_def own_ssd_def)
qed

lemma lun_lines_freed:
  assumes "i' < luncount spp" and "{F_lun_lines, F_lun_pq, F_lun_d} \<times> {[i, i']} \<subseteq> H"
  shows "lun_lines_free [i, i'] H = Some (H - {F_lun_lines, F_lun_pq, F_lun_d} \<times> {[i, i']})"
  using assms by (auto simp: lun_lines_free_def pqueue_free_def use_block_def kfree_def)

lemma remove_lines_DA_frees:
  assumes "{F_lun_lines, F_lun_pq, F_lun_d} \<times> (\<lambda>lun. [i, lun]) ` {..<luncount spp} \<subseteq> H" and "0 < luncount spp \<Longrightarrow> (F_lunlm, [i]) \<in> H"
  shows "remove_lines_DA spp [i] H = Some (H - {F_lun_lines, F_lun_pq, F_lun_d} \<times> (\<lambda>lun. [i, lun]) ` {..<luncount spp})"
proof -
  let ?S = "\<lambda>lun. {F_lun_lines, F_lun_pq, F_lun_d} \<times> {[i, lun]}"
  have u: "(\<Union>lun \<in> set [0..<luncount spp]. ?S lun) = {F_lun_lines, F_lun_pq, F_lun_d} \<times> (\<lambda>lun. [i, lun]) ` {..<luncount spp}" by auto
  have "remove_lines_DA spp [i] H = Some (H - (\<Union>lun \<in> set [0..<luncount spp]. ?S lun))"
    unfolding remove_lines_DA_def
  proof (rule foldM_frees [where K = "if luncount spp = 0 then {} else {(F_lunlm, [i])}"])
    fix lun G
    assume "lun \<in> set [0..<luncount spp]" "?S lun \<subseteq> G" "(if luncount spp = 0 then {} else {(F_lunlm, [i])}) \<subseteq> G"
    then show "do { H \<leftarrow> use_block (F_lunlm, [i]) G; lun_lines_free ([i] @ [lun]) H } = Some (G - ?S lun)"
      by (simp add: use_in lun_lines_freed)
  qed (use assms u in auto)
  then show ?thesis unfolding u .
qed

lemma conv_remove_ftl_frees:
  assumes "own_ftl b spp i \<subseteq> H" and "b = HYBRID_SSD \<Longrightarrow> 0 < luncount spp \<Longrightarrow> (F_lunlm, [i]) \<in> H"
  shows "conv_remove_ftl b spp [i] H = Some (H - own_ftl b spp i)"
proof -
  let ?H = "H - {F_maptbl, F_rmap, F_lines, F_victim_pq, F_victim_d} \<times> {[i]}"
  have basic: "{F_maptbl, F_rmap, F_lines, F_victim_pq, F_victim_d} \<times> {[i]} \<subseteq> H" using assms(1) by (auto simp: own_ftl_def)
  have "?H = H - {(F_maptbl, [i])} - {(F_rmap, [i])} - {(F_victim_d, [i])} - {(F_victim_pq, [i])} - {(F_lines, [i])}" by blast
  then have start: "conv_remove_ftl b spp [i] H =
      (if b = HYBRID_SSD then do { H \<leftarrow> kfree (F_hotness, [i]) ?H; remove_lines_DA spp [i] H } else Some ?H)"
    using basic by (simp add: conv_remove_ftl_def remove_lines_def pqueue_free_def use_block_def kfree_def)
  show ?thesis
  proof (cases "b = HYBRID_SSD")
    case False
    then show ?thesis by (simp add: start own_ftl_def own_luns_def)
  next
    case True
    let ?L = "{F_lun_lines, F_lun_pq, F_lun_d} \<times> (\<lambda>lun. [i, lun]) ` {..<luncount spp}"
    have L: "?L \<subseteq> ?H - {(F_hotness, [i])}" and hot: "(F_hotness, [i]) \<in> ?H" using assms(1) True by (auto simp: own_ftl_def own_luns_def)
    have m: "(F_lunlm, [i]) \<in> ?H - {(F_hotness, [i])}" if "0 < luncount spp" using assms(2) [OF True that] by auto
    have "conv_remove_ftl b spp [i] H = Some (?H - {(F_hotness, [i])} - ?L)"
      unfolding start by (simp only: if_P [OF True] kfree_in [OF hot] bind.bind_lunit remove_lines_DA_frees [OF L m])
    moreover have "?H - {(F_hotness, [i])} - ?L = H - own_ftl b spp i" using True by (auto simp: own_ftl_def own_luns_def)
    ultimately show ?thesis by simp
  qed
qed

text \<open>Taking down a partition, when what it uses is still there.\<close>

definition own_removed :: "base_ssd \<Rightarrow> ssdparams \<Rightarrow> nat \<Rightarrow> block set" where
  "own_removed b spp i = own_part b spp i \<union> (if i = 0 then own_shared 0 else {})"

lemma conv_part_remove_frees:
  assumes "own_removed b spp i \<subseteq> H" and "(F_conv_ftls, []) \<in> H" and "b = HYBRID_SSD \<Longrightarrow> 0 < luncount spp \<Longrightarrow> (F_lunlm, [i]) \<in> H"
  shows "conv_part_remove b spp i H = Some (H - own_removed b spp i)"
proof -
  have sub: "own_ftl b spp i \<subseteq> H" using assms(1) by (auto simp: own_removed_def own_part_def)
  note ftl = conv_remove_ftl_frees [OF sub assms(3)]
  let ?H = "H - own_ftl b spp i"
  have ssd: "(F_ssd, [i]) \<in> ?H" "own_chs spp [i] \<subseteq> ?H"
    using assms(1) by (auto simp: own_removed_def own_part_def own_ftl_def own_luns_def not_in_chs split: if_splits)
  show ?thesis
  proof (cases "i = 0")
    case False
    have "H - own_removed b spp i = ?H - own_chs spp [i] - {(F_ssd, [i])}" using False by (auto simp: own_removed_def own_part_def)
    moreover have "(F_ssd, [i]) \<in> ?H - own_chs spp [i]" using ssd by (simp add: not_in_chs)
    ultimately show ?thesis using False assms(2) ssd by (simp add: conv_part_remove_def use_in ftl ssd_remove_shared kfree_in)
  next
    case True
    have own: "own_ssd spp [0] = own_shared 0 \<union> own_chs spp [0]" by (auto simp: own_ssd_def own_shared_def)
    have "own_shared 0 \<subseteq> ?H" using assms(1) True part_fields_apart(1) [of b spp 0] by (auto simp: own_removed_def own_part_def)
    then have "own_ssd spp [0] \<subseteq> ?H" using ssd(2) True own by simp
    moreover have "H - own_removed b spp i = ?H - own_ssd spp [0] - {(F_ssd, [0])}" using True own by (auto simp: own_removed_def own_part_def)
    moreover have "(F_ssd, [0]) \<in> ?H - own_ssd spp [0]" using ssd True own by (auto simp: not_in_chs own_shared_def)
    ultimately show ?thesis using True assms(2) ssd by (simp add: conv_part_remove_def use_in ftl [unfolded True] ssd_remove_own kfree_in)
  qed
qed

text \<open>The heap of a namespace that is up: the shared blocks of the first partition only.\<close>

definition conv_heap :: "base_ssd \<Rightarrow> ssdparams \<Rightarrow> nat \<Rightarrow> heap \<Rightarrow> heap" where
  "conv_heap b spp n H = insert (F_conv_ftls, []) (H \<union> (\<Union>i < n. own_removed b spp i \<union> own_DA i))"

lemma share_part_frees: "own_shared i \<subseteq> H \<Longrightarrow> share_part i H = Some (H - own_shared i)"
  by (auto simp: share_part_def own_shared_def use_block_def kfree_def)

lemma conv_init_mem:
  assumes "fresh H"
  shows "conv_init_mem b spp n H = Some (conv_heap b spp n H)"
proof -
  let ?P = "\<lambda>i. own_part b spp i \<union> own_shared i \<union> own_DA i"
  have parts: "fold (conv_part_init b spp) is G = G \<union> (\<Union>i \<in> set is. ?P i)" for "is" G
    by (induction "is" arbitrary: G) (auto simp: part_init)
  let ?G = "insert (F_conv_ftls, []) H \<union> (\<Union>i \<in> set [0..<n]. ?P i)"
  have "foldM share_part [1..<n] ?G = Some (?G - (\<Union>i \<in> set [1..<n]. own_shared i))"
    by (rule foldM_frees [where K = "{}"]) (auto simp: share_part_frees own_shared_def)
  moreover have "?G - (\<Union>i \<in> set [1..<n]. own_shared i) = conv_heap b spp n H"
  proof -
    define U where "U = (\<Union>i \<in> set [1..<n]. own_shared i)"
    have apart: "own_part b spp i \<inter> U = {}" "own_DA i \<inter> U = {}" "own_shared 0 \<inter> U = {}" for i
    proof -
      have "own_part b spp i \<inter> own_shared j = {}" "own_DA i \<inter> own_shared j = {}" for j
        using parts_apart [of i j b spp] part_fields_apart(1) [of b spp i] part_fields_apart(3) [of i] by (cases "i = j"; blast)+
      then show "own_part b spp i \<inter> U = {}" "own_DA i \<inter> U = {}" unfolding U_def by blast+
      show "own_shared 0 \<inter> U = {}" by (auto simp: U_def own_shared_def)
    qed
    have part: "?P i - U = own_removed b spp i \<union> own_DA i" if "i < n" for i
    proof (cases "i = 0")
      case True
      then show ?thesis using apart(1,2) [of 0] apart(3) unfolding own_removed_def by auto
    next
      case False
      then have "i \<in> set [1..<n]" using that by simp
      then have "own_shared i \<subseteq> U" unfolding U_def by blast
      then show ?thesis using False apart(1,2) [of i] unfolding own_removed_def by auto
    qed
    have "(insert (F_conv_ftls, []) H) \<inter> U = {}" using fresh_not_in [OF assms] by (auto simp: U_def own_shared_def)
    then have "?G - U = insert (F_conv_ftls, []) H \<union> (\<Union>i \<in> set [0..<n]. ?P i - U)" by blast
    also have "\<dots> = insert (F_conv_ftls, []) H \<union> (\<Union>i \<in> set [0..<n]. own_removed b spp i \<union> own_DA i)" using part by simp
    finally show ?thesis unfolding U_def conv_heap_def by (simp add: lessThan_atLeast0)
  qed
  ultimately show ?thesis by (simp add: conv_init_mem_def parts alloc_def)
qed

lemma heap_shrinks:
  "kfree b H = Some H' \<Longrightarrow> H' \<subseteq> H" "use_block b H = Some H' \<Longrightarrow> H' \<subseteq> H"
  by (auto simp: kfree_def use_block_def split: if_splits)

lemma lun_lines_use: "remove_lines_DA spp p H = Some H' \<Longrightarrow> 0 < luncount spp \<Longrightarrow> (F_lunlm, p) \<in> H"
  by (auto simp: remove_lines_DA_def upt_rec use_block_def bind_eq_Some_conv split: if_splits)

lemma hybrid_part_uses:
  assumes "conv_part_remove HYBRID_SSD spp i H = Some H'" and "0 < luncount spp"
  shows "(F_lunlm, [i]) \<in> H"
  using assms by (auto simp: conv_part_remove_def conv_remove_ftl_def remove_lines_def pqueue_free_def bind_eq_Some_conv
      dest!: heap_shrinks lun_lines_use) blast

lemma removed_apart:
  assumes "fresh H"
  shows "H \<inter> (own_removed b spp i \<union> own_DA i) = {}" and "own_removed b spp i \<inter> own_DA j = {}"
    and "i \<noteq> j \<Longrightarrow> own_removed b spp i \<inter> own_removed b spp j = {}" and "(F_conv_ftls, []) \<notin> own_removed b spp i \<union> own_DA j"
proof -
  have "(F_other, q) \<notin> own_removed b spp i \<union> own_DA i" for q
    by (auto simp: own_removed_def own_part_def own_ftl_def own_luns_def own_DA_def own_shared_def not_in_chs split: if_splits)
  moreover have "x \<in> H \<Longrightarrow> \<exists>q. x = (F_other, q)" for x using assms by (cases x) (auto simp: fresh_def)
  ultimately show "H \<inter> (own_removed b spp i \<union> own_DA i) = {}" by blast
  have own: "own_removed b spp i \<subseteq> own_part b spp i \<union> own_shared i" for i by (auto simp: own_removed_def split: if_splits)
  show "own_removed b spp i \<inter> own_DA j = {}"
  proof (cases "i = j")
    case True
    then show ?thesis using own [of i] part_fields_apart(2) [of b spp i] part_fields_apart(3) [of i] by blast
  next
    case False
    then show ?thesis using own [of i] parts_apart [OF False, of b spp] by blast
  qed
  show "own_removed b spp i \<inter> own_removed b spp j = {}" if "i \<noteq> j"
    using own [of i] own [of j] parts_apart [OF that, of b spp] by blast
  show "(F_conv_ftls, []) \<notin> own_removed b spp i \<union> own_DA j"
    by (auto simp: own_removed_def own_part_def own_ftl_def own_luns_def own_DA_def own_shared_def not_in_chs split: if_splits)
qed

lemma drop_parts: "foldM drop_part [1..<n] (conv_heap b spp n H) = Some (conv_heap b spp n H - (\<Union>i \<in> set [1..<n]. own_DA i))"
proof (rule foldM_frees [where K = "insert (F_conv_ftls, []) ((\<lambda>i. (F_ssd, [i])) ` {..<n})"])
  fix i G
  assume "i \<in> set [1..<n]" "own_DA i \<subseteq> G" "insert (F_conv_ftls, []) ((\<lambda>i. (F_ssd, [i])) ` {..<n}) \<subseteq> G"
  then show "drop_part i G = Some (G - own_DA i)" by (auto simp: drop_part_def own_DA_def use_block_def kfree_def)
next
  show "insert (F_conv_ftls, []) ((\<lambda>i. (F_ssd, [i])) ` {..<n}) \<subseteq> conv_heap b spp n H"
    by (auto simp: conv_heap_def own_removed_def own_part_def)
  show "(\<Union>i \<in> set [1..<n]. own_DA i) \<subseteq> conv_heap b spp n H" by (auto simp: conv_heap_def)
qed (auto simp: own_DA_def)

lemma what_is_left:
  "A \<inter> D = {} \<Longrightarrow> A \<inter> R = {} \<Longrightarrow> H \<inter> R = {} \<Longrightarrow> H \<inter> D = {} \<Longrightarrow> x \<notin> H \<Longrightarrow> x \<notin> A \<Longrightarrow>
    insert x (H \<union> R \<union> (A \<union> D)) - D - R - {x} = H \<union> A"
  by blast

text \<open>C29: Bringing a conventional namespace up and taking it down again. In every build but the hybrid one, and in
  the hybrid one with a single partition, nothing is freed twice or used after it is freed, and what stays
  behind is exactly the line managers and the write pointers per LUN of the first partition, which nothing
  frees. In the hybrid build with more partitions the removal uses the line managers of the second one
  after it has freed them. Zoned namespaces and the workers give back all they took.\<close>

theorem namespace_memory:
  assumes "fresh H" and "0 < n"
  shows "(\<exists>H1. conv_init_mem b spp n H = Some H1 \<and>
      (if b = HYBRID_SSD \<and> 1 < n \<and> 0 < luncount spp then conv_remove_mem b spp n H1 = None
       else conv_remove_mem b spp n H1 = Some (H \<union> {(F_lunlm, [0]), (F_lunwp, [0])}))) \<and>
    zns_remove_mem spp zpp (zns_init_mem spp zpp H) = Some H \<and>
    NVMEV_IO_PROC_FINAL n (io_proc_mem_init n H) = Some H"
proof -
  let ?H1 = "conv_heap b spp n H" and ?D = "\<Union>i \<in> set [1..<n]. own_DA i" and ?R = "\<Union>i \<in> set [0..<n]. own_removed b spp i"
  note off = removed_apart [OF assms(1), where b = b and spp = spp]
  have up: "conv_init_mem b spp n H = Some ?H1" by (rule conv_init_mem [OF assms(1)])
  have drop: "foldM drop_part [1..<n] ?H1 = Some (?H1 - ?D)" by (rule drop_parts)
  have there: "own_removed b spp i \<subseteq> ?H1 - ?D" if "i < n" for i
    using that off(2) [of i] unfolding conv_heap_def by blast
  have ftls: "(F_conv_ftls, []) \<in> ?H1 - ?D" by (auto simp: conv_heap_def own_DA_def)
  have lunlm0: "(F_lunlm, [0]) \<in> ?H1 - ?D" using assms(2) by (auto simp: conv_heap_def own_DA_def)
  have "if b = HYBRID_SSD \<and> 1 < n \<and> 0 < luncount spp then conv_remove_mem b spp n ?H1 = None
       else conv_remove_mem b spp n ?H1 = Some (H \<union> {(F_lunlm, [0]), (F_lunwp, [0])})"
  proof (cases "b = HYBRID_SSD \<and> 1 < n \<and> 0 < luncount spp")
    case True
    let ?G = "?H1 - ?D - own_removed b spp 0"
    have first: "conv_part_remove b spp 0 (?H1 - ?D) = Some ?G"
      using there [of 0] ftls lunlm0 assms(2) by (intro conv_part_remove_frees) auto
    have "(F_lunlm, [1]) \<in> ?D" using True by (auto simp: own_DA_def)
    then have "(F_lunlm, [1]) \<notin> ?G" by blast
    then have "conv_part_remove b spp 1 ?G = None" using hybrid_part_uses [of spp 1 ?G] True by (cases "conv_part_remove b spp 1 ?G") auto
    moreover have "[0..<n] = 0 # 1 # [2..<n]" using True by (simp add: upt_rec numeral_2_eq_2)
    ultimately have "foldM (conv_part_remove b spp) [0..<n] (?H1 - ?D) = None" using first by simp
    then show ?thesis using True drop by (simp add: conv_remove_mem_def)
  next
    case False
    let ?K = "insert (F_conv_ftls, []) (if b = HYBRID_SSD \<and> 0 < luncount spp then {(F_lunlm, [0])} else {})"
    have "foldM (conv_part_remove b spp) [0..<n] (?H1 - ?D) = Some (?H1 - ?D - ?R)"
    proof (rule foldM_frees [where K = ?K])
      show "conv_part_remove b spp i G = Some (G - own_removed b spp i)" if i: "i \<in> set [0..<n]" "own_removed b spp i \<subseteq> G" "?K \<subseteq> G" for i G
      proof (rule conv_part_remove_frees [OF i(2)])
        show "(F_lunlm, [i]) \<in> G" if "b = HYBRID_SSD" "0 < luncount spp"
        proof -
          have "i = 0" using False that i(1) by auto
          then show ?thesis using that i(3) by simp
        qed
      qed (use i(3) in simp)
      show "own_removed b spp i \<inter> ?K = {}" for i using off(2) [of i 0] off(4) [of i] by (auto simp: own_DA_def split: if_splits)
      show "?K \<subseteq> ?H1 - ?D" using ftls lunlm0 by (simp only: insert_subset empty_subsetI split: if_split) simp
      show "?R \<subseteq> ?H1 - ?D" using there by (intro UN_least) simp
    qed (use off(3) in auto)
    moreover have "(F_conv_ftls, []) \<in> ?H1 - ?D - ?R" using ftls off(4) by blast
    ultimately have "conv_remove_mem b spp n ?H1 = Some (?H1 - ?D - ?R - {(F_conv_ftls, [])})"
      using drop by (simp add: conv_remove_mem_def kfree_in)
    moreover have "?H1 - ?D - ?R - {(F_conv_ftls, [])} = H \<union> own_DA 0"
    proof -
      have "{..<n} = insert 0 (set [1..<n])" using assms(2) by auto
      then have DA: "(\<Union>i < n. own_DA i) = own_DA 0 \<union> ?D" by (simp only: UN_insert)
      have R: "(\<Union>i < n. own_removed b spp i) = ?R" by (simp add: lessThan_atLeast0)
      have H1: "?H1 = insert (F_conv_ftls, []) (H \<union> ?R \<union> (own_DA 0 \<union> ?D))" unfolding conv_heap_def UN_Un_distrib R DA by blast
      have "own_DA 0 \<inter> ?D = {}" by (auto simp: own_DA_def)
      moreover have "own_DA 0 \<inter> ?R = {}" "H \<inter> ?R = {}" "H \<inter> ?D = {}" using off(1,2) by blast+
      moreover have "(F_conv_ftls, []) \<notin> H" "(F_conv_ftls, []) \<notin> own_DA 0" using fresh_not_in [OF assms(1)] off(4) by auto
      ultimately show ?thesis unfolding H1 by (intro what_is_left)
    qed
    moreover have "own_DA 0 = {(F_lunlm, [0]), (F_lunwp, [0])}" by (auto simp: own_DA_def)
    ultimately show ?thesis unfolding if_not_P [OF False] by simp
  qed
  then show ?thesis using up zns_heap_balanced [OF assms(1)] workers_heap_balanced [OF assms(1)] by blast
qed

lemma namespace_memory_witness:
  "\<exists>H1. conv_init_mem HYBRID_SSD tiny_params 4 {(F_other, [7])} = Some H1 \<and> conv_remove_mem HYBRID_SSD tiny_params 4 H1 = None"
proof -
  have f: "fresh {(F_other, [7])}" "0 < (4::nat)" by (simp_all add: fresh_def)
  have c: "HYBRID_SSD = HYBRID_SSD \<and> 1 < (4::nat) \<and> 0 < luncount tiny_params" by (simp add: luncount_def tiny_params_def)
  show ?thesis by (rule namespace_memory [OF f, of HYBRID_SSD tiny_params tiny_zpp, unfolded if_P [OF c], THEN conjunct1])
qed

end
