(* ===== verification/Pci.thy ===== *)
theory Pci
  imports Admin
begin

unbundle bit_operations_syntax

text \<open>
  The PCI configuration space of the virtual device (\<open>pci.c\<close>, \<open>pci.h\<close>): one page of memory, the settings the
  module writes into it, and the read and write operations the kernel calls. Registers are little-endian and
  bit fields are allocated from the low end. The constants of \<open>linux/pci_regs.h\<close> are a parameter.
\<close>

section \<open>State and access\<close>

record pci_regs =
  PCI_HEADER_TYPE_NORMAL :: nat
  PCI_BASE_CLASS_STORAGE :: nat
  PCI_BASE_ADDRESS_MEM_TYPE_64 :: nat
  PCI_CAP_ID_PM :: nat
  PCI_PM_CAP_PME_D0 :: nat
  PCI_CAP_ID_MSIX :: nat
  PCI_CAP_ID_EXP :: nat
  PCI_EXP_FLAGS :: nat
  PCI_EXP_TYPE_ENDPOINT :: nat
  PCI_EXT_CAP_ID_ERR :: nat
  PCI_EXT_CAP_ID_VC :: nat
  PCI_EXT_CAP_ID_PWR :: nat
  PCI_EXT_CAP_ID_ARI :: nat
  PCI_EXT_CAP_ID_DSN :: nat
  PCI_EXT_CAP_ID_SECPCI :: nat

record pci_state =
  virtDev :: bytes
  msix_enabled :: bool

definition OFFS_PCI_PM_CAP :: nat where "OFFS_PCI_PM_CAP = 0x40"
definition OFFS_PCI_MSIX_CAP :: nat where "OFFS_PCI_MSIX_CAP = 0x50"
definition OFFS_PCIE_CAP :: nat where "OFFS_PCIE_CAP = 0x60"
definition PCI_CFG_SPACE_SIZE :: nat where "PCI_CFG_SPACE_SIZE = 256"

lemmas pci_offsets = OFFS_PCI_PM_CAP_def OFFS_PCI_MSIX_CAP_def OFFS_PCIE_CAP_def PCI_CFG_SPACE_SIZE_def

definition VDEV_INIT :: pci_state where
  "VDEV_INIT = \<lparr> virtDev = (\<lambda>_. 0), msix_enabled = True \<rparr>"

text \<open>A bit field of \<open>n\<close> bits from bit \<open>lo\<close> of the \<open>w\<close>-byte unit at \<open>a\<close>.\<close>

definition get_bits :: "nat \<Rightarrow> nat \<Rightarrow> nat \<Rightarrow> nat \<Rightarrow> bytes \<Rightarrow> nat" where
  "get_bits w lo n a m = load w m a div 2 ^ lo mod 2 ^ n"

definition set_bits :: "nat \<Rightarrow> nat \<Rightarrow> nat \<Rightarrow> nat \<Rightarrow> nat \<Rightarrow> bytes \<Rightarrow> bytes" where
  "set_bits w lo n a v m = store w a (load w m a - get_bits w lo n a m * 2 ^ lo + v mod 2 ^ n * 2 ^ lo) m"

section \<open>The settings\<close>

definition PCI_HEADER_SETTINGS :: "pci_regs \<Rightarrow> nat \<Rightarrow> bytes \<Rightarrow> bytes" where
  "PCI_HEADER_SETTINGS R base_pa m =
     (let m = store 2 2 0x0101 m;
          m = store 2 0 0x0c51 m;
          m = set_bits 1 1 1 4 1 m;
          m = set_bits 1 4 1 6 1 m;
          m = set_bits 1 7 1 14 0 m;
          m = set_bits 1 0 7 14 (PCI_HEADER_TYPE_NORMAL R) m;
          m = store 1 8 0x01 m;
          m = store 1 11 (PCI_BASE_CLASS_STORAGE R) m;
          m = store 1 10 0x08 m;
          m = store 1 9 0x02 m;
          m = set_bits 4 1 2 16 (PCI_BASE_ADDRESS_MEM_TYPE_64 R div 2) m;
          m = set_bits 4 14 18 16 (base_pa mod 2 ^ 32 div 2 ^ 14) m;
          m = store 4 20 (base_pa div 2 ^ 32) m;
          m = store 2 46 0x370d m;
          m = store 2 44 0x0c51 m;
          m = store 4 48 0 m;
          m = store 1 52 OFFS_PCI_PM_CAP m;
          m = store 1 61 0 m
      in store 1 60 0 m)"

definition PCI_PMCAP_SETTINGS :: "pci_regs \<Rightarrow> bytes \<Rightarrow> bytes" where
  "PCI_PMCAP_SETTINGS R m =
     (let m = store 1 OFFS_PCI_PM_CAP (PCI_CAP_ID_PM R) m;
          m = store 1 (OFFS_PCI_PM_CAP + 1) OFFS_PCI_MSIX_CAP m;
          m = set_bits 2 0 3 (OFFS_PCI_PM_CAP + 2) 3 m;
          m = set_bits 2 3 1 (OFFS_PCI_PM_CAP + 4) 1 m
      in set_bits 2 0 2 (OFFS_PCI_PM_CAP + 4) (PCI_PM_CAP_PME_D0 R div 2 ^ 16) m)"

definition PCI_MSIXCAP_SETTINGS :: "pci_regs \<Rightarrow> bytes \<Rightarrow> bytes" where
  "PCI_MSIXCAP_SETTINGS R m =
     (let m = store 1 OFFS_PCI_MSIX_CAP (PCI_CAP_ID_MSIX R) m;
          m = store 1 (OFFS_PCI_MSIX_CAP + 1) OFFS_PCIE_CAP m;
          m = set_bits 2 15 1 (OFFS_PCI_MSIX_CAP + 2) 1 m;
          m = set_bits 2 0 11 (OFFS_PCI_MSIX_CAP + 2) 127 m;
          m = set_bits 4 0 3 (OFFS_PCI_MSIX_CAP + 4) 0 m;
          m = set_bits 4 3 29 (OFFS_PCI_MSIX_CAP + 4) 0x400 m;
          m = set_bits 4 3 29 (OFFS_PCI_MSIX_CAP + 8) 0x1000 m
      in set_bits 4 0 3 (OFFS_PCI_MSIX_CAP + 8) 0 m)"

definition PCI_PCIECAP_SETTINGS :: "pci_regs \<Rightarrow> bytes \<Rightarrow> bytes" where
  "PCI_PCIECAP_SETTINGS R m =
     (let m = store 1 OFFS_PCIE_CAP (PCI_CAP_ID_EXP R) m;
          m = store 1 (OFFS_PCIE_CAP + 1) 0 m;
          m = set_bits 1 0 4 (OFFS_PCIE_CAP + 2) (PCI_EXP_FLAGS R) m;
          m = set_bits 1 1 5 (OFFS_PCIE_CAP + 3) 0 m;
          m = set_bits 1 4 4 (OFFS_PCIE_CAP + 2) (PCI_EXP_TYPE_ENDPOINT R) m;
          m = set_bits 4 0 3 (OFFS_PCIE_CAP + 4) 1 m;
          m = set_bits 4 3 2 (OFFS_PCIE_CAP + 4) 0 m;
          m = set_bits 4 5 1 (OFFS_PCIE_CAP + 4) 1 m;
          m = set_bits 4 6 3 (OFFS_PCIE_CAP + 4) 6 m;
          m = set_bits 4 9 3 (OFFS_PCIE_CAP + 4) 2 m;
          m = set_bits 4 15 1 (OFFS_PCIE_CAP + 4) 1 m;
          m = set_bits 4 18 8 (OFFS_PCIE_CAP + 4) 0 m;
          m = set_bits 4 26 2 (OFFS_PCIE_CAP + 4) 0 m
      in set_bits 4 28 1 (OFFS_PCIE_CAP + 4) 1 m)"

text \<open>The header of an extended capability: \<open>cid\<close>, then \<open>cver\<close> and \<open>next\<close> in one 16-bit unit.\<close>

definition put_ext :: "nat \<Rightarrow> nat \<Rightarrow> nat \<Rightarrow> bytes \<Rightarrow> bytes" where
  "put_ext a cid nx m = set_bits 2 4 12 (a + 2) nx (set_bits 2 0 4 (a + 2) 1 (store 2 a cid m))"

definition PCI_AERCAP_SETTINGS :: "pci_regs \<Rightarrow> bytes \<Rightarrow> bytes" where
  "PCI_AERCAP_SETTINGS R m = put_ext PCI_CFG_SPACE_SIZE (PCI_EXT_CAP_ID_ERR R) (PCI_CFG_SPACE_SIZE + 0x50) m"

text \<open>\<open>exp_cap + i\<close> moves a pointer to a structure of four bytes.\<close>

definition SZ_EXP_HDR :: nat where "SZ_EXP_HDR = 4"

definition exp_cap_at :: "nat \<Rightarrow> nat" where
  "exp_cap_at i = PCI_CFG_SPACE_SIZE + i * SZ_EXP_HDR"

definition PCI_PCIE_EXTCAP_SETTINGS :: "pci_regs \<Rightarrow> bytes \<Rightarrow> bytes" where
  "PCI_PCIE_EXTCAP_SETTINGS R m =
     (let m = put_ext (exp_cap_at 0x50) (PCI_EXT_CAP_ID_VC R) (PCI_CFG_SPACE_SIZE + 0x80) m;
          m = put_ext (exp_cap_at 0x80) (PCI_EXT_CAP_ID_PWR R) (PCI_CFG_SPACE_SIZE + 0x90) m;
          m = put_ext (exp_cap_at 0x90) (PCI_EXT_CAP_ID_ARI R) (PCI_CFG_SPACE_SIZE + 0x170) m;
          m = put_ext (exp_cap_at 0x170) (PCI_EXT_CAP_ID_DSN R) (PCI_CFG_SPACE_SIZE + 0x1a0) m
      in put_ext (exp_cap_at 0x1a0) (PCI_EXT_CAP_ID_SECPCI R) 0 m)"

text \<open>The settings of \<open>NVMEV_PCI_INIT\<close>; scanning the bus is the kernel's.\<close>

definition pci_settings :: "pci_regs \<Rightarrow> nat \<Rightarrow> bytes \<Rightarrow> bytes" where
  "pci_settings R memmap_start m =
     PCI_PCIE_EXTCAP_SETTINGS R (PCI_AERCAP_SETTINGS R (PCI_PCIECAP_SETTINGS R (PCI_MSIXCAP_SETTINGS R
       (PCI_PMCAP_SETTINGS R (PCI_HEADER_SETTINGS R memmap_start m)))))"

section \<open>Reads and writes\<close>

text \<open>\<open>*val\<close> is the caller's: a read of less than four bytes leaves the rest of it.\<close>

definition nvmev_pci_read :: "pci_state \<Rightarrow> nat \<Rightarrow> nat \<Rightarrow> nat \<Rightarrow> nat \<Rightarrow> (nat \<times> nat) option" where
  "nvmev_pci_read p devfn where' size' val =
     (if devfn \<noteq> 0 then Some (1, val)
      else if PAGE_SIZE < where' + size' \<or> 4 < size' then None
      else Some (0, val div 256 ^ size' * 256 ^ size' + load size' (virtDev p) where'))"

definition hdr_masks :: "(nat \<times> 32 word) list" where
  "hdr_masks = [(0x0, 0x0), (0x04, 0x0547), (0x06, 0xF200), (0x09, 0x0), (0x0d, 0x0), (0x0e, 0x0), (0x0f, 0x40),
     (0x10, 0xFFFFC000), (0x18, 0x0), (0x1c, 0x0), (0x20, 0x0), (0x24, 0x0), (0x28, 0x0), (0x2c, 0x0), (0x34, 0x0),
     (0x3c, 0xF), (0x3e, 0x0), (0x3f, 0x0)]"

definition msix_masks :: "(nat \<times> 32 word) list" where
  "msix_masks = [(0, 0x0), (2, 0xC000), (4, 0x0), (8, 0x0)]"

definition mask_of :: "(nat \<times> 32 word) list \<Rightarrow> nat \<Rightarrow> 32 word" where
  "mask_of t target = (case map_of t target of None \<Rightarrow> 0xFFFFFFFF | Some k \<Rightarrow> k)"

definition write_mask :: "nat \<Rightarrow> 32 word" where
  "write_mask where' =
     (if where' < OFFS_PCI_PM_CAP then mask_of hdr_masks where'
      else if where' < OFFS_PCI_MSIX_CAP then 0xFFFFFFFF
      else if where' < OFFS_PCIE_CAP then mask_of msix_masks (where' - OFFS_PCI_MSIX_CAP)
      else 0xFFFFFFFF)"

text \<open>\<open>junk\<close> is what the variable \<open>val\<close> held before its low bytes were read. The function number is not looked at.\<close>

definition nvmev_pci_write :: "nat \<Rightarrow> pci_state \<Rightarrow> nat \<Rightarrow> nat \<Rightarrow> nat \<Rightarrow> 32 word \<Rightarrow> (nat \<times> pci_state) option" where
  "nvmev_pci_write junk p devfn where' size' v =
     (if PAGE_SIZE < where' + size' \<or> 4 < size' then None
      else
        let val = word_of_nat (junk * 256 ^ size' + load size' (virtDev p) where') :: 32 word;
            mask = write_mask where';
            p = (if where' = OFFS_PCI_MSIX_CAP + 2 \<and> val AND mask = mask then p\<lparr> msix_enabled := True \<rparr> else p);
            val = (val AND NOT mask) OR (v AND mask)
        in Some (0, p\<lparr> virtDev := store size' where' (unat val) (virtDev p) \<rparr>))"

section \<open>Bit fields\<close>

lemma load_less: "load n m a < 256 ^ n"
proof (induction n arbitrary: a)
  case (Suc n)
  have "unat (m a) \<le> 255" using unsigned_less [of "m a", where 'a = nat] by simp
  moreover have "load n m (a + 1) + 1 \<le> 256 ^ n" using Suc.IH [of "a + 1"] by simp
  then have "256 * (load n m (a + 1) + 1) \<le> 256 * 256 ^ n" by (rule mult_le_mono2)
  ultimately show ?case by (simp add: load.simps)
qed (simp add: load.simps)

lemma load_zero [simp]: "load n (\<lambda>_. 0) a = 0"
  by (induction n arbitrary: a) (simp_all add: load.simps)

lemma load_add: "load (n + k) m a = load n m a + 256 ^ n * load k m (a + n)"
  by (induction n arbitrary: a) (simp_all add: load.simps algebra_simps)

text \<open>Replacing a field of a number, from the parts of the number.\<close>

lemma field_parts:
  fixes x lo n :: nat
  defines "hi \<equiv> x div 2 ^ (lo + n)" and "mid \<equiv> x div 2 ^ lo mod 2 ^ n" and "low \<equiv> x mod 2 ^ lo"
  shows "x - mid * 2 ^ lo + f * 2 ^ lo = (hi * 2 ^ n + f) * 2 ^ lo + low"
proof -
  have "x = x div 2 ^ lo * 2 ^ lo + low" unfolding low_def by (rule div_mult_mod_eq [symmetric])
  also have "x div 2 ^ lo = hi * 2 ^ n + mid" unfolding hi_def mid_def power_add div_mult2_eq by (rule div_mult_mod_eq [symmetric])
  finally have "x = hi * 2 ^ n * 2 ^ lo + mid * 2 ^ lo + low" by (simp add: distrib_right)
  then show ?thesis by (simp add: distrib_right)
qed

lemma field_same:
  fixes f low lo :: nat
  assumes "f < 2 ^ n" and "low < 2 ^ lo"
  shows "((hi * 2 ^ n + f) * 2 ^ lo + low) div 2 ^ lo mod 2 ^ n = f"
  using assms by simp

lemma field_below:
  fixes f low lo :: nat
  assumes "lo' + n' \<le> lo"
  shows "((h * 2 ^ lo + low) div 2 ^ lo' mod 2 ^ n' :: nat) = low div 2 ^ lo' mod 2 ^ n'"
proof -
  obtain k where k: "lo = lo' + n' + k" using assms le_Suc_ex by blast
  have "h * 2 ^ lo = (h * 2 ^ k * 2 ^ n') * 2 ^ lo'" unfolding k by (simp add: power_add)
  then have "(h * 2 ^ lo + low) div 2 ^ lo' = ((h * 2 ^ k * 2 ^ n') * 2 ^ lo' + low) div 2 ^ lo'" by (rule arg_cong)
  also have "\<dots> = h * 2 ^ k * 2 ^ n' + low div 2 ^ lo'" by (rule div_mult_self3) simp
  finally have "(h * 2 ^ lo + low) div 2 ^ lo' = h * 2 ^ k * 2 ^ n' + low div 2 ^ lo'" .
  then show ?thesis by simp
qed

lemma field_bound:
  fixes f low lo :: nat
  assumes "hi < 2 ^ k" and "f < 2 ^ n" and "low < 2 ^ lo"
  shows "(hi * 2 ^ n + f) * 2 ^ lo + low < 2 ^ (k + n + lo)"
proof -
  have step: "a * 2 ^ j + b < 2 ^ (i + j)" if "a < 2 ^ i" "b < 2 ^ j" for a b i j :: nat
  proof -
    have "(a + 1) * 2 ^ j \<le> 2 ^ i * 2 ^ j" using that(1) by (intro mult_le_mono1) simp
    then show ?thesis using that(2) by (simp add: power_add)
  qed
  show ?thesis using step [OF step [OF assms(1,2)] assms(3)] by simp
qed

lemma set_bits_load:
  assumes "lo + n \<le> 8 * w"
  shows "load w (set_bits w lo n a v m) a = (load w m a div 2 ^ (lo + n) * 2 ^ n + v mod 2 ^ n) * 2 ^ lo + load w m a mod 2 ^ lo"
proof -
  define k where "k = 8 * w - (lo + n)"
  have w: "(256 :: nat) ^ w = 2 ^ (k + n + lo)" using assms by (simp add: k_def power_mult)
  have "load w m a < 2 ^ k * 2 ^ (lo + n)" using load_less [of w m a] unfolding w by (simp add: power_add ac_simps)
  then have "load w m a div 2 ^ (lo + n) < 2 ^ k" by (rule less_mult_imp_div_less)
  then have "(load w m a div 2 ^ (lo + n) * 2 ^ n + v mod 2 ^ n) * 2 ^ lo + load w m a mod 2 ^ lo < 256 ^ w"
    unfolding w by (rule field_bound) simp_all
  then show ?thesis by (simp add: set_bits_def get_bits_def field_parts)
qed

lemma get_set_bits [simp]: "lo + n \<le> 8 * w \<Longrightarrow> get_bits w lo n a (set_bits w lo n a v m) = v mod 2 ^ n"
  by (simp add: get_bits_def set_bits_load field_same)

lemma get_set_bits_below [simp]:
  "lo + n \<le> 8 * w \<Longrightarrow> lo' + n' \<le> lo \<Longrightarrow> get_bits w lo' n' a (set_bits w lo n a v m) = get_bits w lo' n' a m"
proof -
  assume w: "lo + n \<le> 8 * w" and l: "lo' + n' \<le> lo"
  have "load w m a = load w m a div 2 ^ lo * 2 ^ lo + load w m a mod 2 ^ lo" by (rule div_mult_mod_eq [symmetric])
  then show ?thesis using field_below [OF l] unfolding get_bits_def set_bits_load [OF w] by metis
qed

lemma set_bits_other [simp]:
  "b + k \<le> a \<or> a + w \<le> b \<Longrightarrow> load k (set_bits w lo n a v m) b = load k m b"
  "b + k \<le> a \<or> a + w \<le> b \<Longrightarrow> get_bits k lo' n' b (set_bits w lo n a v m) = get_bits k lo' n' b m"
  "b + k \<le> a \<or> a + w \<le> b \<Longrightarrow> get_bits k lo' n' b (store w a v m) = get_bits k lo' n' b m"
  by (simp_all add: set_bits_def get_bits_def)

lemma put_ext_load:
  "load 2 (put_ext a cid nx m) a = cid mod 2 ^ 16" "get_bits 2 4 12 (a + 2) (put_ext a cid nx m) = nx mod 2 ^ 12"
  "get_bits 2 0 4 (a + 2) (put_ext a cid nx m) = 1"
  "b + k \<le> a \<or> a + 4 \<le> b \<Longrightarrow> load k (put_ext a cid nx m) b = load k m b"
  "b + k \<le> a \<or> a + 4 \<le> b \<Longrightarrow> get_bits k lo n b (put_ext a cid nx m) = get_bits k lo n b m"
  by (auto simp: put_ext_def)

section \<open>Properties\<close>

text \<open>The walks of a host over the two lists of capabilities: the identifiers it finds.\<close>

primrec cap_list :: "nat \<Rightarrow> bytes \<Rightarrow> nat \<Rightarrow> nat list" where
  "cap_list 0 m p = []"
| "cap_list (Suc n) m p = (if p = 0 then [] else load 1 m p # cap_list n m (load 1 m (p + 1)))"

primrec ext_list :: "nat \<Rightarrow> bytes \<Rightarrow> nat \<Rightarrow> nat list" where
  "ext_list 0 m p = []"
| "ext_list (Suc n) m p = (if p = 0 \<or> load 4 m p = 0 then [] else load 2 m p # ext_list n m (get_bits 2 4 12 (p + 2) m))"

lemma settings_caps:
  fixes m0 :: bytes and R :: pci_regs and base_pa :: nat
  defines "m \<equiv> pci_settings R base_pa m0"
  shows "load 1 m 52 = 0x40" and "load 1 m 0x40 = PCI_CAP_ID_PM R mod 256" and "load 1 m 0x41 = 0x50"
    and "load 1 m 0x50 = PCI_CAP_ID_MSIX R mod 256" and "load 1 m 0x51 = 0x60"
    and "load 1 m 0x60 = PCI_CAP_ID_EXP R mod 256" and "load 1 m 0x61 = 0"
  unfolding m_def pci_settings_def PCI_PCIE_EXTCAP_SETTINGS_def PCI_AERCAP_SETTINGS_def exp_cap_at_def SZ_EXP_HDR_def Let_def
  by (simp_all add: put_ext_load pci_offsets PCI_PCIECAP_SETTINGS_def PCI_MSIXCAP_SETTINGS_def PCI_PMCAP_SETTINGS_def PCI_HEADER_SETTINGS_def)

lemma settings_header:
  fixes m0 :: bytes and R :: pci_regs and base_pa :: nat
  defines "m \<equiv> pci_settings R base_pa m0"
  shows "load 2 m 0 = 0x0c51" and "load 2 m 2 = 0x0101" and "load 4 m 20 = base_pa div 2 ^ 32 mod 2 ^ 32"
    and "get_bits 4 14 18 16 m = base_pa mod 2 ^ 32 div 2 ^ 14"
proof -
  have d: "base_pa mod 4294967296 div 16384 mod 262144 = base_pa mod 4294967296 div 16384"
    using mod_less_divisor [of 4294967296 base_pa] by (simp add: less_mult_imp_div_less del: mod_less_divisor)
  show "load 2 m 0 = 0x0c51" "load 2 m 2 = 0x0101" "load 4 m 20 = base_pa div 2 ^ 32 mod 2 ^ 32"
    "get_bits 4 14 18 16 m = base_pa mod 2 ^ 32 div 2 ^ 14"
    unfolding m_def pci_settings_def PCI_PCIE_EXTCAP_SETTINGS_def PCI_AERCAP_SETTINGS_def exp_cap_at_def SZ_EXP_HDR_def Let_def
    by (simp_all add: put_ext_load pci_offsets PCI_PCIECAP_SETTINGS_def PCI_MSIXCAP_SETTINGS_def PCI_PMCAP_SETTINGS_def PCI_HEADER_SETTINGS_def d)
qed

lemma settings_ext:
  fixes m0 :: bytes and R :: pci_regs and base_pa :: nat
  defines "m \<equiv> pci_settings R base_pa m0"
  shows "load 2 m 256 = PCI_EXT_CAP_ID_ERR R mod 2 ^ 16" and "get_bits 2 4 12 258 m = 0x150" and "get_bits 2 0 4 258 m = 1"
    and "load 4 m 0x150 = load 4 m0 0x150"
proof -
  show "load 2 m 256 = PCI_EXT_CAP_ID_ERR R mod 2 ^ 16" "get_bits 2 4 12 258 m = 0x150" "get_bits 2 0 4 258 m = 1"
    unfolding m_def pci_settings_def PCI_PCIE_EXTCAP_SETTINGS_def PCI_AERCAP_SETTINGS_def exp_cap_at_def SZ_EXP_HDR_def Let_def
    using put_ext_load(1-3) [of 256 "PCI_EXT_CAP_ID_ERR R" 336]
    by (simp_all add: put_ext_load(4,5) pci_offsets)
  show "load 4 m 0x150 = load 4 m0 0x150"
    unfolding m_def pci_settings_def PCI_PCIE_EXTCAP_SETTINGS_def PCI_AERCAP_SETTINGS_def exp_cap_at_def SZ_EXP_HDR_def Let_def
    by (simp add: put_ext_load pci_offsets PCI_PCIECAP_SETTINGS_def PCI_MSIXCAP_SETTINGS_def PCI_PMCAP_SETTINGS_def PCI_HEADER_SETTINGS_def)
qed

text \<open>C35: After initialisation a host that walks the configuration space finds vendor and device, the base address of
  the registers (16 KiB aligned, 64 bits) as the module was told it, and the capabilities power management, MSI-X
  and PCI Express, in this order and nothing else. Of the six extended capabilities it finds only error
  reporting: the code moves the pointer for the other five by structures of four bytes, not by bytes, so they
  lie elsewhere and the list ends at an empty header.\<close>

theorem pci_config_correct:
  assumes "base_pa mod 2 ^ 14 = 0" and "base_pa < 2 ^ 64" and "m = pci_settings R base_pa (virtDev VDEV_INIT)"
  shows "load 2 m 0 = 0x0c51 \<and> load 2 m 2 = 0x0101 \<and> load 4 m 20 * 2 ^ 32 + get_bits 4 14 18 16 m * 2 ^ 14 = base_pa \<and>
    cap_list 48 m (load 1 m 52) = [PCI_CAP_ID_PM R mod 2 ^ 8, PCI_CAP_ID_MSIX R mod 2 ^ 8, PCI_CAP_ID_EXP R mod 2 ^ 8] \<and>
    ext_list 960 m 256 = [PCI_EXT_CAP_ID_ERR R mod 2 ^ 16]"
proof -
  note caps = settings_caps [of R base_pa "virtDev VDEV_INIT", folded assms(3)]
  note hdr = settings_header [of R base_pa "virtDev VDEV_INIT", folded assms(3)]
  note ext = settings_ext [of R base_pa "virtDev VDEV_INIT", folded assms(3)]
  have "cap_list (Suc (Suc (Suc (Suc n)))) m (load 1 m 52) = [PCI_CAP_ID_PM R mod 2 ^ 8, PCI_CAP_ID_MSIX R mod 2 ^ 8, PCI_CAP_ID_EXP R mod 2 ^ 8]" for n
    using caps by simp
  from this [of 44] have "cap_list 48 m (load 1 m 52) = [PCI_CAP_ID_PM R mod 2 ^ 8, PCI_CAP_ID_MSIX R mod 2 ^ 8, PCI_CAP_ID_EXP R mod 2 ^ 8]"
    by (simp only: Suc_numeral semiring_norm)
  moreover have some: "load 4 m 256 \<noteq> 0"
  proof
    assume z: "load 4 m 256 = 0"
    have "load 4 m 256 = load 2 m 256 + 65536 * load 2 m 258" using load_add [of 2 2 m 256] by simp
    then have "load 2 m 258 = 0" using z by simp
    then show False using ext(3) by (simp add: get_bits_def)
  qed
  have none: "load 4 m 0x150 = 0"
    using ext(4) by (simp add: VDEV_INIT_def)
  have "ext_list (Suc (Suc n)) m 256 = [PCI_EXT_CAP_ID_ERR R mod 2 ^ 16]" for n
    using ext some none by simp
  from this [of 958] have "ext_list 960 m 256 = [PCI_EXT_CAP_ID_ERR R mod 2 ^ 16]"
    by (simp only: Suc_numeral semiring_norm)
  ultimately have lists: "ext_list 960 m 256 = [PCI_EXT_CAP_ID_ERR R mod 2 ^ 16]"
    "cap_list 48 m (load 1 m 52) = [PCI_CAP_ID_PM R mod 2 ^ 8, PCI_CAP_ID_MSIX R mod 2 ^ 8, PCI_CAP_ID_EXP R mod 2 ^ 8]"
    by blast+
  have "base_pa div 2 ^ 32 < 2 ^ 32" using assms(2) by (simp add: less_mult_imp_div_less)
  moreover have "base_pa mod 2 ^ 32 mod 2 ^ 14 = 0" using assms(1) by (simp add: mod_mod_cancel)
  then have "base_pa mod 2 ^ 32 div 2 ^ 14 * 2 ^ 14 = base_pa mod 2 ^ 32" by (metis add.right_neutral div_mult_mod_eq)
  ultimately have "load 4 m 20 * 2 ^ 32 + get_bits 4 14 18 16 m * 2 ^ 14 = base_pa"
    unfolding hdr by (simp only: mod_less div_mult_mod_eq)
  then show ?thesis using lists hdr(1,2) by blast
qed

lemma pci_config_correct_witness:
  "load 4 (pci_settings \<lparr> PCI_HEADER_TYPE_NORMAL = 0, PCI_BASE_CLASS_STORAGE = 1, PCI_BASE_ADDRESS_MEM_TYPE_64 = 4, PCI_CAP_ID_PM = 1,
     PCI_PM_CAP_PME_D0 = 2048, PCI_CAP_ID_MSIX = 17, PCI_CAP_ID_EXP = 16, PCI_EXP_FLAGS = 2, PCI_EXP_TYPE_ENDPOINT = 0, PCI_EXT_CAP_ID_ERR = 1,
     PCI_EXT_CAP_ID_VC = 2, PCI_EXT_CAP_ID_PWR = 4, PCI_EXT_CAP_ID_ARI = 14, PCI_EXT_CAP_ID_DSN = 3, PCI_EXT_CAP_ID_SECPCI = 25 \<rparr>
     (2 ^ 33) (virtDev VDEV_INIT)) 20 * 2 ^ 32 +
   get_bits 4 14 18 16 (pci_settings \<lparr> PCI_HEADER_TYPE_NORMAL = 0, PCI_BASE_CLASS_STORAGE = 1, PCI_BASE_ADDRESS_MEM_TYPE_64 = 4, PCI_CAP_ID_PM = 1,
     PCI_PM_CAP_PME_D0 = 2048, PCI_CAP_ID_MSIX = 17, PCI_CAP_ID_EXP = 16, PCI_EXP_FLAGS = 2, PCI_EXP_TYPE_ENDPOINT = 0, PCI_EXT_CAP_ID_ERR = 1,
     PCI_EXT_CAP_ID_VC = 2, PCI_EXT_CAP_ID_PWR = 4, PCI_EXT_CAP_ID_ARI = 14, PCI_EXT_CAP_ID_DSN = 3, PCI_EXT_CAP_ID_SECPCI = 25 \<rparr>
     (2 ^ 33) (virtDev VDEV_INIT)) * 2 ^ 14 = 2 ^ 33"
  using pci_config_correct [of "2 ^ 33", OF _ _ refl] by auto

text \<open>C36: A write to the configuration space changes, within the bytes it covers, exactly the bits of the register's
  mask, to the bits written, whatever the uninitialised part of the local variable holds; no other byte
  changes. The mask is chosen by the first byte alone: a write of four bytes at offset 8 replaces the class
  code, which a write at its own offset 9 leaves alone.\<close>

theorem pci_write_masked:
  assumes "where' + size' \<le> 4096" and "size' \<le> 4"
  shows "\<exists>p'. nvmev_pci_write junk p devfn where' size' v = Some (0, p') \<and>
    (\<forall>x. x < where' \<or> where' + size' \<le> x \<longrightarrow> virtDev p' x = virtDev p x) \<and>
    (\<forall>i < 8 * size'. bit (load size' (virtDev p') where') i =
       (if bit (write_mask where') i then bit v i else bit (load size' (virtDev p) where') i)) \<and>
    write_mask 8 = 0xFFFFFFFF \<and> write_mask 9 = 0"
proof -
  define l where "l = load size' (virtDev p) where'"
  define val where "val = (word_of_nat (junk * 256 ^ size' + l) :: 32 word)"
  define out where "out = (val AND NOT (write_mask where')) OR (v AND write_mask where')"
  define p' where "p' = (if where' = OFFS_PCI_MSIX_CAP + 2 \<and> val AND write_mask where' = write_mask where' then p\<lparr> msix_enabled := True \<rparr> else p)
    \<lparr> virtDev := store size' where' (unat out) (virtDev p) \<rparr>"
  have run: "nvmev_pci_write junk p devfn where' size' v = Some (0, p')"
    using assms by (simp add: nvmev_pci_write_def PAGE_SIZE_def Let_def p'_def out_def val_def l_def)
  have pow: "(256 :: nat) ^ size' = 2 ^ (8 * size')" by (simp add: power_mult)
  have bits: "bit (load size' (virtDev p') where') i = (if bit (write_mask where') i then bit v i else bit l i)" if i: "i < 8 * size'" for i
  proof -
    have i32: "i < 32" using i assms(2) by simp
    have "bit (junk * 256 ^ size' + l) i = bit (take_bit (8 * size') (junk * 256 ^ size' + l)) i" using i by (simp add: bit_take_bit_iff)
    also have "take_bit (8 * size') (junk * 256 ^ size' + l) = l"
      using load_less [of size' "virtDev p" where'] unfolding pow l_def by (simp add: take_bit_eq_mod)
    finally have val: "bit val i = bit l i" using i32 unfolding val_def bit_of_nat_iff by simp
    have "load size' (virtDev p') where' = take_bit (8 * size') (unat out)"
      by (simp add: p'_def pow take_bit_eq_mod)
    then have "bit (load size' (virtDev p') where') i = bit out i" using i by (simp add: bit_take_bit_iff bit_unsigned_iff)
    also have "\<dots> = (if bit (write_mask where') i then bit v i else bit val i)"
      using i32 by (simp add: out_def bit_or_iff bit_and_iff bit_not_iff)
    finally show ?thesis using val by simp
  qed
  have "virtDev p' x = virtDev p x" if "x < where' \<or> where' + size' \<le> x" for x
    using that by (auto simp: p'_def store_def)
  moreover have "write_mask 8 = 0xFFFFFFFF" "write_mask 9 = 0"
    by (simp_all add: write_mask_def mask_of_def hdr_masks_def pci_offsets)
  ultimately show ?thesis using run bits unfolding l_def by blast
qed

lemma pci_write_masked_witness:
  "\<exists>p'. nvmev_pci_write 77 VDEV_INIT 0 8 4 (push_bit 9 1) = Some (0, p') \<and> bit (load 4 (virtDev p') 8) 9"
proof -
  have "(0xFFFFFFFF :: 32 word) = - 1" by simp
  then have b: "bit (push_bit 9 1 :: 32 word) 9" "bit (0xFFFFFFFF :: 32 word) 9"
    by (simp_all add: bit_simps del: push_bit_numeral)
  from pci_write_masked [of 8 4 77 VDEV_INIT 0 "push_bit 9 1"] obtain p' where run: "nvmev_pci_write 77 VDEV_INIT 0 8 4 (push_bit 9 1) = Some (0, p')"
    and bits: "\<forall>i < 8 * 4. bit (load 4 (virtDev p') 8) i = (if bit (write_mask 8) i then bit (push_bit 9 1 :: 32 word) i else bit (load 4 (virtDev VDEV_INIT) 8) i)"
    and m: "write_mask 8 = 0xFFFFFFFF" by force
  have "(9 :: nat) < 8 * 4" by simp
  with bits have "bit (load 4 (virtDev p') 8) 9 = (if bit (write_mask 8) 9 then bit (push_bit 9 1 :: 32 word) 9 else bit (load 4 (virtDev VDEV_INIT) 8) 9)"
    by blast
  then have "bit (load 4 (virtDev p') 8) 9" using b unfolding m by (simp only: if_True)
  then show ?thesis using run by blast
qed

end
