(* ===== verification/Layout.thy ===== *)
theory Layout
  imports Pci
begin

unbundle bit_operations_syntax

text \<open>
  The structures the device shares with its host (\<open>pci.h\<close>, \<open>nvme.h\<close>, \<open>nvme_zns.h\<close>, \<open>nvme_kv.h\<close>) as declarations, and the
  layout the x86-64 ABI gives them: alignment of members, allocation of bit fields, unions, arrays and anonymous
  members. The offsets that the other theories use for commands, completions, registers, identify pages and the
  configuration space are proved to be those of the declared members.
\<close>

section \<open>Types and their layout\<close>

text \<open>An integer of \<open>n\<close> bytes, a bit field of \<open>w\<close> bits in units of \<open>n\<close> bytes, arrays, structures and unions. The name
  of an unnamed bit field and of an anonymous member is empty.\<close>

datatype ctype = CInt nat | CBits nat nat | CArr nat ctype | CStruct "(string \<times> ctype) list" | CUnion "(string \<times> ctype) list"

definition round_up :: "nat \<Rightarrow> nat \<Rightarrow> nat" where "round_up n p = (p + (n - 1)) div n * n"

fun is_bits :: "ctype \<Rightarrow> bool" where
  "is_bits (CBits n w) = True"
| "is_bits _ = False"

text \<open>Alignment, in bytes. An unnamed bit field has no say in that of its structure.\<close>

fun align_of :: "ctype \<Rightarrow> nat" and align_fs :: "(string \<times> ctype) list \<Rightarrow> nat" where
  "align_of (CInt n) = n"
| "align_of (CBits n w) = n"
| "align_of (CArr k t) = align_of t"
| "align_of (CStruct fs) = align_fs fs"
| "align_of (CUnion fs) = align_fs fs"
| "align_fs [] = 1"
| "align_fs ((f, t) # fs) = (if f = [] \<and> is_bits t then align_fs fs else max (align_of t) (align_fs fs))"

text \<open>The bit at which a member goes when the ones before it end at bit \<open>p\<close>: a bit field goes on in the unit that holds
  bit \<open>p\<close> when it fits there, any other member is aligned.\<close>

fun start_of :: "nat \<Rightarrow> ctype \<Rightarrow> nat" where
  "start_of p (CBits n w) = (if p mod (8 * n) + w \<le> 8 * n then p else round_up (8 * n) p)"
| "start_of p t = round_up (8 * align_of t) p"

fun bits_of :: "ctype \<Rightarrow> nat" and fields_end :: "nat \<Rightarrow> (string \<times> ctype) list \<Rightarrow> nat" and union_bits :: "(string \<times> ctype) list \<Rightarrow> nat" where
  "bits_of (CInt n) = 8 * n"
| "bits_of (CBits n w) = w"
| "bits_of (CArr k t) = k * bits_of t"
| "bits_of (CStruct fs) = round_up (8 * align_fs fs) (fields_end 0 fs)"
| "bits_of (CUnion fs) = round_up (8 * align_fs fs) (union_bits fs)"
| "fields_end p [] = p"
| "fields_end p ((f, t) # fs) = fields_end (start_of p t + bits_of t) fs"
| "union_bits [] = 0"
| "union_bits ((f, t) # fs) = max (bits_of t) (union_bits fs)"

definition size_of :: "ctype \<Rightarrow> nat" where "size_of t = bits_of t div 8"

text \<open>The named members with the bits where they start; those of an anonymous member are members of the whole.\<close>

definition shift :: "nat \<Rightarrow> (string \<times> nat \<times> ctype) list \<Rightarrow> (string \<times> nat \<times> ctype) list" where
  "shift p ms = map (\<lambda>(f, q, t). (f, p + q, t)) ms"

fun members :: "ctype \<Rightarrow> (string \<times> nat \<times> ctype) list" and struct_members :: "nat \<Rightarrow> (string \<times> ctype) list \<Rightarrow> (string \<times> nat \<times> ctype) list"
  and union_members :: "(string \<times> ctype) list \<Rightarrow> (string \<times> nat \<times> ctype) list" where
  "members (CInt n) = []"
| "members (CBits n w) = []"
| "members (CArr k t) = []"
| "members (CStruct fs) = struct_members 0 fs"
| "members (CUnion fs) = union_members fs"
| "struct_members p [] = []"
| "struct_members p ((f, t) # fs) = (let q = start_of p t in
     (if f = [] then shift q (members t) else [(f, q, t)]) @ struct_members (q + bits_of t) fs)"
| "union_members [] = []"
| "union_members ((f, t) # fs) = (if f = [] then members t else [(f, 0, t)]) @ union_members fs"

datatype sel = Fld string | Idx nat

primrec field_at :: "ctype \<Rightarrow> sel list \<Rightarrow> (nat \<times> ctype) option" where
  "field_at t [] = Some (0, t)"
| "field_at t (s # ss) = do {
     (p, u) \<leftarrow> (case s of Fld f \<Rightarrow> map_of (members t) f
                | Idx i \<Rightarrow> (case t of CArr k u \<Rightarrow> if i < k then Some (i * bits_of u, u) else None | _ \<Rightarrow> None));
     (q, v) \<leftarrow> field_at u ss;
     Some (p + q, v)
   }"

text \<open>Reading and writing a member of the object at address \<open>a\<close>.\<close>

definition read_field :: "ctype \<Rightarrow> nat \<Rightarrow> sel list \<Rightarrow> bytes \<Rightarrow> nat" where
  "read_field t a ss m =
     (case field_at t ss of
        Some (p, CInt n) \<Rightarrow> load n m (a + p div 8)
      | Some (p, CBits n w) \<Rightarrow> get_bits n (p mod (8 * n)) w (a + p div (8 * n) * n) m
      | _ \<Rightarrow> 0)"

definition write_field :: "ctype \<Rightarrow> nat \<Rightarrow> sel list \<Rightarrow> nat \<Rightarrow> bytes \<Rightarrow> bytes" where
  "write_field t a ss v m =
     (case field_at t ss of
        Some (p, CInt n) \<Rightarrow> store n (a + p div 8) v m
      | Some (p, CBits n w) \<Rightarrow> set_bits n (p mod (8 * n)) w (a + p div (8 * n) * n) v m
      | _ \<Rightarrow> m)"

definition assigns :: "ctype \<Rightarrow> nat \<Rightarrow> (sel list \<times> nat) list \<Rightarrow> bytes \<Rightarrow> bytes" where
  "assigns t a vs m = fold (\<lambda>(ss, v). write_field t a ss v) vs m"

section \<open>Every declaration is laid out without overlap\<close>

fun wf_ctype :: "ctype \<Rightarrow> bool" and wf_fs :: "(string \<times> ctype) list \<Rightarrow> bool" where
  "wf_ctype (CInt n) = (n \<in> {1, 2, 4, 8})"
| "wf_ctype (CBits n w) = (n \<in> {1, 2, 4, 8} \<and> w \<le> 8 * n)"
| "wf_ctype (CArr k t) = (wf_ctype t \<and> \<not> is_bits t)"
| "wf_ctype (CStruct fs) = wf_fs fs"
| "wf_ctype (CUnion fs) = wf_fs fs"
| "wf_fs [] = True"
| "wf_fs ((f, t) # fs) = (wf_ctype t \<and> wf_fs fs)"

fun scalar :: "ctype \<Rightarrow> bool" where
  "scalar (CInt n) = True"
| "scalar (CBits n w) = True"
| "scalar _ = False"

text \<open>A bit of memory, counted from address 0.\<close>

definition mem_bit :: "bytes \<Rightarrow> nat \<Rightarrow> bool" where "mem_bit m k = bit (m (k div 8)) (k mod 8)"

lemma round_up_props:
  assumes "0 < n"
  shows "p \<le> round_up n p" and "n dvd round_up n p"
proof -
  have "p + (n - 1) < round_up n p + n"
    using dividend_less_div_times [OF assms, of "p + (n - 1)"] by (simp add: round_up_def)
  then show "p \<le> round_up n p" using assms by linarith
qed (simp add: round_up_def)

lemma round_up_0 [simp]: "round_up n 0 = 0"
  by (cases n) (simp_all add: round_up_def)

lemma align_values:
  "wf_ctype t \<Longrightarrow> align_of t \<in> {1, 2, 4, 8}"
  "wf_fs fs \<Longrightarrow> align_fs fs \<in> {1, 2, 4, 8}"
  by (induction t and fs rule: align_of_align_fs.induct) (auto simp: max_def)

lemma align_pos [simp]: "wf_ctype t \<Longrightarrow> 0 < align_of t" "wf_fs fs \<Longrightarrow> 0 < align_fs fs"
  using align_values by force+

lemma align_dvd_max:
  fixes x y :: nat
  assumes "x \<in> {1, 2, 4, 8}" and "y \<in> {1, 2, 4, 8}"
  shows "x dvd max x y" and "y dvd max x y"
  using assms by (auto simp: max_def)

lemma bits_aligned: "wf_ctype t \<Longrightarrow> \<not> is_bits t \<Longrightarrow> 8 * align_of t dvd bits_of t"
  by (induction t) (auto simp: round_up_props intro: dvd_mult)

lemma start_of_ge [simp]: "wf_ctype t \<Longrightarrow> p \<le> start_of p t"
  by (cases t) (auto simp: round_up_props(1))

lemma start_aligned: "wf_ctype t \<Longrightarrow> \<not> is_bits t \<Longrightarrow> 8 * align_of t dvd start_of p t"
  by (cases t) (auto intro!: round_up_props(2))

lemma fields_end_ge: "wf_fs fs \<Longrightarrow> p \<le> fields_end p fs"
proof (induction fs arbitrary: p)
  case (Cons ft fs)
  obtain f t where ft: "ft = (f, t)" by (cases ft)
  have "p \<le> start_of p t" "start_of p t + bits_of t \<le> fields_end (start_of p t + bits_of t) fs"
    using Cons by (auto simp: ft)
  then show ?case by (simp add: ft)
qed simp

text \<open>How a member sits in an object of alignment \<open>A\<close>.\<close>

definition place_ok :: "nat \<Rightarrow> nat \<Rightarrow> ctype \<Rightarrow> bool" where
  "place_ok A p u \<longleftrightarrow> wf_ctype u \<and> align_of u dvd A \<and>
     (case u of CBits n w \<Rightarrow> p mod (8 * n) + w \<le> 8 * n | _ \<Rightarrow> 8 * align_of u dvd p)"

lemma place_ok_shift:
  assumes "place_ok B q u" and "8 * B dvd p" and "B dvd A"
  shows "place_ok A (p + q) u"
proof -
  have "8 * align_of u dvd 8 * B" using assms(1) by (simp add: place_ok_def)
  then have d: "8 * align_of u dvd p" using assms(2) dvd_trans by blast
  then obtain c where c: "p = 8 * align_of u * c" by (rule dvdE)
  have "(p + q) mod (8 * align_of u) = q mod (8 * align_of u)" unfolding c by simp
  moreover have "align_of u dvd A" using assms(1,3) dvd_trans unfolding place_ok_def by blast
  ultimately show ?thesis using assms(1) d by (cases u) (simp_all add: place_ok_def)
qed

lemma place_ok_mono: "place_ok B q u \<Longrightarrow> B dvd A \<Longrightarrow> place_ok A q u"
  using place_ok_shift [of B q u 0 A] by simp

lemma place_ok_start:
  assumes "wf_ctype t" and "align_of t dvd A"
  shows "place_ok A (start_of p t) t"
proof (cases t)
  case (CBits n w)
  then have n: "0 < 8 * n" "w \<le> 8 * n" using assms(1) by auto
  have "round_up (8 * n) p mod (8 * n) = 0" using round_up_props(2) [OF n(1)] by (simp add: mod_eq_0_iff_dvd)
  then show ?thesis using assms n(2) CBits by (simp add: place_ok_def)
qed (use assms in \<open>auto simp: place_ok_def round_up_props(2)\<close>)

lemma members_placed:
  "wf_ctype t \<Longrightarrow> (f, q, u) \<in> set (members t) \<Longrightarrow> place_ok (align_of t) q u \<and> q + bits_of u \<le> bits_of t"
  "wf_fs fs \<Longrightarrow> (f, q, u) \<in> set (struct_members p fs) \<Longrightarrow> place_ok (align_fs fs) q u \<and> p \<le> q \<and> q + bits_of u \<le> fields_end p fs"
  "wf_fs fs \<Longrightarrow> (f, q, u) \<in> set (union_members fs) \<Longrightarrow> place_ok (align_fs fs) q u \<and> q + bits_of u \<le> union_bits fs"
proof (induction t and p fs and fs arbitrary: f q u and f q u and f q u rule: members_struct_members_union_members.induct)
  case (4 fs)
  have "fields_end 0 fs \<le> bits_of (CStruct fs)" using "4.prems"(1) by (simp add: round_up_props(1))
  moreover have "place_ok (align_fs fs) q u \<and> 0 \<le> q \<and> q + bits_of u \<le> fields_end 0 fs"
    by (rule "4.IH") (use "4.prems" in simp_all)
  ultimately show ?case unfolding align_of.simps by linarith
next
  case (5 fs)
  have "union_bits fs \<le> bits_of (CUnion fs)" using "5.prems"(1) by (simp add: round_up_props(1))
  moreover have "place_ok (align_fs fs) q u \<and> q + bits_of u \<le> union_bits fs"
    by (rule "5.IH") (use "5.prems" in simp_all)
  ultimately show ?case unfolding align_of.simps by linarith
next
  case (7 p g t fs)
  let ?q = "start_of p t" and ?fs = "(g, t) # fs"
  have wf: "wf_ctype t" "wf_fs fs" using "7.prems"(1) by simp_all
  note ge = start_of_ge [OF wf(1), of p] fields_end_ge [OF wf(2), of "?q + bits_of t"]
  have dv: "align_fs fs dvd align_fs ?fs" "\<not> (g = [] \<and> is_bits t) \<Longrightarrow> align_of t dvd align_fs ?fs"
    using align_dvd_max align_values wf by auto
  consider (anon) "g = []" "(f, q, u) \<in> set (shift ?q (members t))" | (named) "g \<noteq> []" "q = ?q" "u = t"
    | (rest) "(f, q, u) \<in> set (struct_members (?q + bits_of t) fs)"
    using "7.prems"(2) by (auto simp: Let_def split: if_splits)
  then show ?case
  proof cases
    case anon
    then obtain r where r: "q = ?q + r" "(f, r, u) \<in> set (members t)" by (auto simp: shift_def)
    have nb: "\<not> is_bits t" using r(2) by (cases t) auto
    have "place_ok (align_of t) r u \<and> r + bits_of u \<le> bits_of t" using "7.IH"(1) [OF refl anon(1) wf(1) r(2)] .
    moreover have "8 * align_of t dvd ?q" by (rule start_aligned [OF wf(1) nb])
    ultimately show ?thesis using r(1) ge dv(2) nb place_ok_shift by auto
  next
    case named
    then show ?thesis using ge dv(2) place_ok_start [OF wf(1)] by auto
  next
    case rest
    then have "place_ok (align_fs fs) q u \<and> ?q + bits_of t \<le> q \<and> q + bits_of u \<le> fields_end (?q + bits_of t) fs"
      using "7.IH"(2) [OF refl wf(2)] by blast
    then show ?thesis using ge dv(1) place_ok_mono by auto
  qed
next
  case (9 g t fs)
  let ?fs = "(g, t) # fs"
  have wf: "wf_ctype t" "wf_fs fs" using "9.prems"(1) by simp_all
  have dv: "align_fs fs dvd align_fs ?fs" "\<not> (g = [] \<and> is_bits t) \<Longrightarrow> align_of t dvd align_fs ?fs"
    using align_dvd_max align_values wf by auto
  consider (anon) "g = []" "(f, q, u) \<in> set (members t)" | (named) "g \<noteq> []" "q = 0" "u = t"
    | (rest) "(f, q, u) \<in> set (union_members fs)"
    using "9.prems"(2) by (auto split: if_splits)
  then show ?case
  proof cases
    case anon
    have nb: "\<not> is_bits t" using anon(2) by (cases t) auto
    show ?thesis using "9.IH"(1) [OF anon(1) wf(1) anon(2)] dv(2) nb place_ok_mono by auto
  next
    case named
    then show ?thesis using dv(2) wf(1) by (cases t) (auto simp: place_ok_def)
  next
    case rest
    then show ?thesis using "9.IH"(2) [OF wf(2) rest] dv(1) place_ok_mono by auto
  qed
qed simp_all

lemma field_at_placed:
  assumes "wf_ctype t" and "\<not> is_bits t" and "field_at t ss = Some (p, u)"
  shows "place_ok (align_of t) p u \<and> p + bits_of u \<le> bits_of t"
  using assms
proof (induction ss arbitrary: t p u)
  case Nil
  then show ?case by (cases t) (auto simp: place_ok_def)
next
  case (Cons s ss)
  obtain p0 w q where w: "(case s of Fld f \<Rightarrow> map_of (members t) f
      | Idx i \<Rightarrow> (case t of CArr k u \<Rightarrow> if i < k then Some (i * bits_of u, u) else None | _ \<Rightarrow> None)) = Some (p0, w)"
    and q: "field_at w ss = Some (q, u)" "p = p0 + q"
    using Cons.prems(3) by (auto simp: bind_eq_Some_conv)
  have w_ok: "place_ok (align_of t) p0 w \<and> p0 + bits_of w \<le> bits_of t"
  proof (cases s)
    case (Fld f)
    then show ?thesis using w members_placed(1) [OF Cons.prems(1)] map_of_SomeD by fastforce
  next
    case (Idx i)
    then obtain k where k: "t = CArr k w" "i < k" "p0 = i * bits_of w" using w by (auto split: ctype.splits if_splits)
    have "Suc i * bits_of w \<le> k * bits_of w" using k(2) by (intro mult_le_mono1) simp
    moreover have "8 * align_of w dvd bits_of w" using bits_aligned Cons.prems(1) k(1) by simp
    ultimately show ?thesis using k Cons.prems(1) by (cases w) (auto simp: place_ok_def intro: dvd_mult)
  qed
  show ?case
  proof (cases "is_bits w")
    case True
    then have "p = p0 \<and> u = w" using q by (cases ss; cases w) (auto split: sel.splits)
    then show ?thesis using w_ok by simp
  next
    case False
    then have d: "8 * align_of w dvd p0" using w_ok by (cases w) (auto simp: place_ok_def)
    have wf: "wf_ctype w" "align_of w dvd align_of t" using w_ok by (simp_all add: place_ok_def)
    have "place_ok (align_of w) q u" "q + bits_of u \<le> bits_of w" using Cons.IH [OF wf(1) False q(1)] by simp_all
    then show ?thesis using place_ok_shift [OF _ d wf(2), of q u] w_ok q(2) by simp
  qed
qed

section \<open>A member is written bit by bit\<close>

lemma bit_split:
  fixes x y :: nat
  assumes "y < 2 ^ k"
  shows "bit (x * 2 ^ k + y) i = (if i < k then bit y i else bit x (i - k))"
proof (cases "i < k")
  case True
  have "bit (x * 2 ^ k + y) i = bit (take_bit k (x * 2 ^ k + y)) i" using True by (simp add: bit_take_bit_iff)
  also have "take_bit k (x * 2 ^ k + y) = y" using assms by (simp add: take_bit_eq_mod)
  finally show ?thesis using True by simp
next
  case False
  then have "bit (x * 2 ^ k + y) i = bit (drop_bit k (x * 2 ^ k + y)) (i - k)" by (simp add: bit_drop_bit_eq)
  also have "drop_bit k (x * 2 ^ k + y) = x" using assms by (simp add: drop_bit_eq_div)
  finally show ?thesis using False by simp
qed

lemma bit_load: "bit (load n m a) i = (i < 8 * n \<and> mem_bit m (8 * a + i))"
proof (induction n arbitrary: a i)
  case 0
  then show ?case by (simp add: load.simps)
next
  case (Suc n)
  have "unat (m a) < 2 ^ 8" using unsigned_less [of "m a", where 'a = nat] by simp
  then have s: "bit (load n m (a + 1) * 2 ^ 8 + unat (m a)) i = (if i < 8 then bit (unat (m a)) i else bit (load n m (a + 1)) (i - 8))"
    by (rule bit_split)
  have l: "load (Suc n) m a = load n m (a + 1) * 2 ^ 8 + unat (m a)" by (simp add: load.simps)
  show ?case
  proof (cases "i < 8")
    case True
    then show ?thesis unfolding l s by (simp add: mem_bit_def bit_unsigned_iff)
  next
    case False
    then have "8 * (a + 1) + (i - 8) = 8 * a + i" by simp
    then show ?thesis using False unfolding l s Suc.IH by auto
  qed
qed

lemma mem_bit_store:
  "mem_bit (store n a v m) k = (if 8 * a \<le> k \<and> k < 8 * a + 8 * n then bit v (k - 8 * a) else mem_bit m k)"
proof (cases "8 * a \<le> k \<and> k < 8 * a + 8 * n")
  case True
  define x j where "x = k div 8" and "j = k mod 8"
  have k: "k = 8 * x + j" "j < 8" by (simp_all add: x_def j_def)
  then have x: "a \<le> x" "x < a + n" using True by linarith+
  have "mem_bit (store n a v m) k = bit (of_nat (v div 256 ^ (x - a)) :: 8 word) j"
    using x by (simp add: mem_bit_def x_def [symmetric] j_def [symmetric] store_def)
  also have "\<dots> = bit (drop_bit (8 * (x - a)) v) j"
    using k(2) by (simp add: bit_of_nat_iff drop_bit_eq_div power_mult)
  also have "\<dots> = bit v (k - 8 * a)" using k x by (simp add: bit_drop_bit_eq diff_mult_distrib2)
  finally show ?thesis using True by simp
next
  case False
  then have "k div 8 < a \<or> a + n \<le> k div 8" by linarith
  then show ?thesis using False by (auto simp: mem_bit_def store_other)
qed

lemma mem_bit_set_bits:
  assumes "lo + n \<le> 8 * w"
  shows "mem_bit (set_bits w lo n a v m) k =
    (if 8 * a + lo \<le> k \<and> k < 8 * a + lo + n then bit v (k - (8 * a + lo)) else mem_bit m k)"
proof (cases "8 * a \<le> k \<and> k < 8 * a + 8 * w")
  case True
  define i x where "i = k - 8 * a" and "x = load w m a"
  have i: "k = 8 * a + i" "i < 8 * w" using True by (auto simp: i_def)
  have old: "bit x i = mem_bit m k" using i by (simp add: x_def bit_load)
  have lo_bit: "bit (y mod 2 ^ j) l = (l < j \<and> bit y l)" for y j l :: nat
    unfolding take_bit_eq_mod [symmetric] bit_take_bit_iff by simp
  have hi_bit: "bit (y div 2 ^ j) l = bit y (j + l)" for y j l :: nat
    unfolding drop_bit_eq_div [symmetric] bit_drop_bit_eq by simp
  have "set_bits w lo n a v m = store w a ((x div 2 ^ (lo + n) * 2 ^ n + v mod 2 ^ n) * 2 ^ lo + x mod 2 ^ lo) m"
    by (simp add: set_bits_def get_bits_def field_parts x_def)
  then have "mem_bit (set_bits w lo n a v m) k = bit ((x div 2 ^ (lo + n) * 2 ^ n + v mod 2 ^ n) * 2 ^ lo + x mod 2 ^ lo) i"
    using True by (simp add: mem_bit_store i_def)
  also have "\<dots> = (if i < lo then bit (x mod 2 ^ lo) i else if i - lo < n then bit (v mod 2 ^ n) (i - lo)
      else bit (x div 2 ^ (lo + n)) (i - lo - n))"
    by (simp add: bit_split)
  also have "\<dots> = (if lo \<le> i \<and> i < lo + n then bit v (i - lo) else bit x i)"
    unfolding lo_bit hi_bit by auto
  finally show ?thesis using i(1) old by auto
next
  case False
  then show ?thesis using assms by (auto simp: set_bits_def mem_bit_store)
qed

lemma bit_get_bits:
  assumes "lo + n \<le> 8 * w"
  shows "bit (get_bits w lo n a m) i = (i < n \<and> mem_bit m (8 * a + lo + i))"
proof -
  have "get_bits w lo n a m = take_bit n (drop_bit lo (load w m a))"
    by (simp add: get_bits_def take_bit_eq_mod drop_bit_eq_div)
  then show ?thesis using assms by (auto simp: bit_take_bit_iff bit_drop_bit_eq bit_load add.assoc)
qed

lemma field_address:
  assumes "place_ok A p u" and "scalar u"
  shows "u = CInt n \<Longrightarrow> 8 * (a + p div 8) = 8 * a + p"
    and "u = CBits n w \<Longrightarrow> 8 * (a + p div (8 * n) * n) + p mod (8 * n) = 8 * a + p"
    and "u = CBits n w \<Longrightarrow> p mod (8 * n) + w \<le> 8 * n"
proof -
  show "8 * (a + p div 8) = 8 * a + p" if "u = CInt n"
  proof -
    have "8 * n dvd p" using assms(1) that by (simp add: place_ok_def)
    then have "8 dvd p" by (rule dvd_mult_left)
    then show ?thesis by simp
  qed
  show "8 * (a + p div (8 * n) * n) + p mod (8 * n) = 8 * a + p"
    using div_mult_mod_eq [of p "8 * n"] by (simp add: algebra_simps)
  show "p mod (8 * n) + w \<le> 8 * n" if "u = CBits n w"
    using assms(1) that by (simp add: place_ok_def)
qed

lemma read_field_bits:
  assumes "wf_ctype t" and "\<not> is_bits t" and "field_at t ss = Some (p, u)" and "scalar u"
  shows "bit (read_field t a ss m) i = (i < bits_of u \<and> mem_bit m (8 * a + p + i))"
proof -
  have pl: "place_ok (align_of t) p u" using field_at_placed [OF assms(1-3)] by simp
  show ?thesis
  proof (cases u)
    case (CInt n)
    then show ?thesis using assms(3) field_address(1) [OF pl assms(4)] by (simp add: read_field_def bit_load)
  next
    case (CBits n w)
    note fa = field_address(2,3) [OF pl assms(4) CBits]
    show ?thesis unfolding read_field_def assms(3) CBits
      by (simp only: option.case prod.case ctype.case bit_get_bits [OF fa(2)] fa(1) bits_of.simps)
  qed (use assms(4) in simp_all)
qed

lemma write_field_bits:
  assumes "wf_ctype t" and "\<not> is_bits t" and "field_at t ss = Some (p, u)" and "scalar u"
  shows "mem_bit (write_field t a ss v m) k =
    (if 8 * a + p \<le> k \<and> k < 8 * a + p + bits_of u then bit v (k - (8 * a + p)) else mem_bit m k)"
proof -
  have pl: "place_ok (align_of t) p u" using field_at_placed [OF assms(1-3)] by simp
  show ?thesis
  proof (cases u)
    case (CInt n)
    then show ?thesis using assms(3) field_address(1) [OF pl assms(4)] by (simp add: write_field_def mem_bit_store)
  next
    case (CBits n w)
    note fa = field_address(2,3) [OF pl assms(4) CBits]
    show ?thesis unfolding write_field_def assms(3) CBits
      by (simp only: option.case prod.case ctype.case mem_bit_set_bits [OF fa(2)] fa(1) bits_of.simps)
  qed (use assms(4) in simp_all)
qed

lemma read_write_same:
  assumes "wf_ctype t" and "\<not> is_bits t" and "field_at t ss = Some (p, u)" and "scalar u"
  shows "read_field t a ss (write_field t a ss v m) = v mod 2 ^ bits_of u"
  unfolding take_bit_eq_mod [symmetric]
  by (rule bit_eqI) (simp add: read_field_bits [OF assms] write_field_bits [OF assms] bit_take_bit_iff)

lemma read_write_other:
  assumes "wf_ctype t" and "\<not> is_bits t" and "field_at t ss = Some (p, u)" and "scalar u"
    and "field_at t ss' = Some (p', u')" and "scalar u'" and "p' + bits_of u' \<le> p \<or> p + bits_of u \<le> p'"
  shows "read_field t a ss' (write_field t a ss v m) = read_field t a ss' m"
  by (rule bit_eqI) (use assms(7) in \<open>auto simp: read_field_bits [OF assms(1,2,5,6)] write_field_bits [OF assms(1-4)]\<close>)

text \<open>Writing a scalar member of any declared object, a bit field or an integer however deep in structures, unions
  and arrays, changes exactly the bits of that member, which lie inside the object: it reads back as the value cut
  to its width, and every member that shares no bit with it keeps its value. In particular the bit fields next to
  it in the same unit survive, and no member straddles a unit.\<close>

theorem write_field_exact:
  assumes "wf_ctype t" and "\<not> is_bits t" and "field_at t ss = Some (p, u)" and "scalar u"
  shows "(\<forall>k. mem_bit (write_field t a ss v m) k =
      (if 8 * a + p \<le> k \<and> k < 8 * a + p + bits_of u then bit v (k - (8 * a + p)) else mem_bit m k)) \<and>
    p + bits_of u \<le> bits_of t \<and>
    read_field t a ss (write_field t a ss v m) = v mod 2 ^ bits_of u \<and>
    (\<forall>ss' p' u'. field_at t ss' = Some (p', u') \<and> scalar u' \<and> (p' + bits_of u' \<le> p \<or> p + bits_of u \<le> p') \<longrightarrow>
       read_field t a ss' (write_field t a ss v m) = read_field t a ss' m)"
  using field_at_placed [OF assms(1-3)] write_field_bits [OF assms] read_write_same [OF assms] read_write_other [OF assms] by blast

lemma write_field_exact_witness:
  "read_field (CStruct [(''vs'', CBits 2 3), (''pmec'', CBits 2 1)]) 0 [Fld ''pmec'']
     (write_field (CStruct [(''vs'', CBits 2 3), (''pmec'', CBits 2 1)]) 0 [Fld ''pmec''] 1 (\<lambda>_. 0)) = 1"
proof -
  have "field_at (CStruct [(''vs'', CBits 2 3), (''pmec'', CBits 2 1)]) [Fld ''pmec''] = Some (3, CBits 2 1)"
    by (simp add: shift_def Let_def)
  from write_field_exact [OF _ _ this, of 0 1 "\<lambda>_. 0"] show ?thesis by simp
qed

text \<open>A sequence of assignments to members of several objects. If no two of the members share a bit, each reads back at
  the end as the value cut to its width, and no other bit of memory changes.\<close>

definition write_all :: "(ctype \<times> nat \<times> sel list \<times> nat) list \<Rightarrow> bytes \<Rightarrow> bytes" where
  "write_all ws m = fold (\<lambda>(t, a, ss, v). write_field t a ss v) ws m"

definition spot :: "ctype \<Rightarrow> nat \<Rightarrow> sel list \<Rightarrow> (nat \<times> nat) option" where
  "spot t a ss = (case field_at t ss of
     Some (p, u) \<Rightarrow> if wf_ctype t \<and> \<not> is_bits t \<and> scalar u then Some (8 * a + p, bits_of u) else None
   | None \<Rightarrow> None)"

definition width_of :: "ctype \<Rightarrow> sel list \<Rightarrow> nat" where
  "width_of t ss = (case field_at t ss of Some (_, u) \<Rightarrow> bits_of u | None \<Rightarrow> 0)"

fun all_apart :: "(nat \<times> nat) list \<Rightarrow> bool" where
  "all_apart [] = True"
| "all_apart ((p, n) # qs) = (list_all (\<lambda>(q, k). p + n \<le> q \<or> q + k \<le> p) qs \<and> all_apart qs)"

lemma spot_bits:
  assumes "spot t a ss = Some (p, n)"
  shows "mem_bit (write_field t a ss v m) k = (if p \<le> k \<and> k < p + n then bit v (k - p) else mem_bit m k)"
    and "bit (read_field t a ss m) i = (i < n \<and> mem_bit m (p + i))"
proof -
  obtain q u where q: "field_at t ss = Some (q, u)" "wf_ctype t" "\<not> is_bits t" "scalar u" "p = 8 * a + q" "n = bits_of u"
    using assms by (auto simp: spot_def split: option.splits if_splits)
  show "mem_bit (write_field t a ss v m) k = (if p \<le> k \<and> k < p + n then bit v (k - p) else mem_bit m k)"
    "bit (read_field t a ss m) i = (i < n \<and> mem_bit m (p + i))"
    by (simp_all add: write_field_bits [OF q(2,3,1,4)] read_field_bits [OF q(2,3,1,4)] q(5,6))
qed

lemma write_all_other:
  assumes "list_all2 (\<lambda>(t, a, ss, v) s. spot t a ss = Some s) ws qs" and "list_all (\<lambda>(q, n). k < q \<or> q + n \<le> k) qs"
  shows "mem_bit (write_all ws m) k = mem_bit m k"
  using assms
proof (induction arbitrary: m rule: list_all2_induct)
  case (Cons w ws s qs)
  obtain t a ss v q n where w: "w = (t, a, ss, v)" "s = (q, n)" by (cases w; cases s)
  then have "mem_bit (write_field t a ss v m) k = mem_bit m k"
    using Cons.hyps(1) Cons.prems by (auto simp: spot_bits(1))
  then show ?case using Cons.IH [of "write_field t a ss v m"] Cons.prems by (simp add: w write_all_def)
qed (simp add: write_all_def)

lemma write_all_reads:
  assumes "list_all2 (\<lambda>(t, a, ss, v) s. spot t a ss = Some s) ws qs" and "all_apart qs"
  shows "list_all (\<lambda>(t, a, ss, v). read_field t a ss (write_all ws m) = v mod 2 ^ width_of t ss) ws"
  using assms
proof (induction arbitrary: m rule: list_all2_induct)
  case (Cons w ws s qs)
  obtain t a ss v q n where w: "w = (t, a, ss, v)" "s = (q, n)" by (cases w; cases s)
  have sp: "spot t a ss = Some (q, n)" using Cons.hyps(1) by (simp add: w)
  have keep: "mem_bit (write_all ws m') (q + i) = mem_bit m' (q + i)" if "i < n" for m' i
    by (rule write_all_other [OF Cons.hyps(2)]) (use Cons.prems that in \<open>auto simp: w list_all_iff\<close>)
  have n: "width_of t ss = n" using sp by (auto simp: spot_def width_of_def split: option.splits if_splits)
  have "read_field t a ss (write_all ws (write_field t a ss v m)) = v mod 2 ^ width_of t ss"
    unfolding take_bit_eq_mod [symmetric]
    by (rule bit_eqI) (auto simp: spot_bits [OF sp] keep n bit_take_bit_iff)
  then show ?case using Cons.IH [of "write_field t a ss v m"] Cons.prems by (simp add: w write_all_def)
qed simp

text \<open>Named members of a structure come in their order, each after the end of the one before.\<close>

lemma struct_members_sorted:
  assumes "wf_fs fs" and "\<forall>(f, t) \<in> set fs. f \<noteq> [] \<or> is_bits t"
  shows "sorted_wrt (\<lambda>(f, q, t) (g, r, u). q + bits_of t \<le> r) (struct_members p fs)"
  using assms
proof (induction fs arbitrary: p)
  case (Cons ft fs)
  obtain f t where ft: "ft = (f, t)" by (cases ft)
  have wf: "wf_ctype t" "wf_fs fs" using Cons.prems(1) by (simp_all add: ft)
  have nil: "members t = []" if "f = []" using that Cons.prems(2) by (cases t) (auto simp: ft)
  have "start_of p t + bits_of t \<le> r" if "(g, r, u) \<in> set (struct_members (start_of p t + bits_of t) fs)" for g r u
    using members_placed(2) [OF wf(2) that] by simp
  then show ?case using Cons.IH [OF wf(2)] Cons.prems(2) nil by (auto simp: ft Let_def shift_def)
qed simp

text \<open>Parts of an integer in memory.\<close>

lemma load_part:
  assumes "j + k \<le> n" and "b = a + j"
  shows "load k m b = load n m a div 256 ^ j mod 256 ^ k"
proof -
  have "load n m a div 256 ^ j mod 256 ^ k = take_bit (8 * k) (drop_bit (8 * j) (load n m a))"
    by (simp add: take_bit_eq_mod drop_bit_eq_div power_mult)
  also have "\<dots> = load k m b"
    by (rule bit_eqI) (use assms in \<open>auto simp: bit_take_bit_iff bit_drop_bit_eq bit_load algebra_simps\<close>)
  finally show ?thesis ..
qed

lemma get_bits_part:
  assumes "j + w \<le> k" and "lo + n \<le> 8 * w" and "b = a + j" and "i = 8 * j + lo"
  shows "get_bits w lo n b m = load k m a div 2 ^ i mod 2 ^ n"
  unfolding drop_bit_eq_div [symmetric] take_bit_eq_mod [symmetric]
  by (rule bit_eqI) (use assms in \<open>auto simp: bit_take_bit_iff bit_drop_bit_eq bit_load bit_get_bits add.assoc\<close>)

lemma load_pair: "b = a + n \<Longrightarrow> w = n + k \<Longrightarrow> load w m a = load n m a + 256 ^ n * load k m b"
  by (simp add: load_add)

declare field_at.simps [simp del] read_field_def [simp del]

end
