(* ===== verification/Structs.thy ===== *)
theory Structs
  imports Layout Device "HOL-Library.Code_Target_Nat"
begin

text \<open>
  The declarations of \<open>pci.h\<close>, \<open>nvme.h\<close>, \<open>nvme_zns.h\<close> and \<open>nvme_kv.h\<close>, member for member, and what their layout says of the
  models: commands, completions, queue parameters, registers, identify pages and the configuration space are read
  and written by the other theories at the places of the declared members.
\<close>

section \<open>Declarations\<close>

abbreviation U8 :: ctype where "U8 \<equiv> CInt 1"
abbreviation U16 :: ctype where "U16 \<equiv> CInt 2"
abbreviation U32 :: ctype where "U32 \<equiv> CInt 4"
abbreviation U64 :: ctype where "U64 \<equiv> CInt 8"

text \<open>The configuration space and the register block (\<open>pci.h\<close>).\<close>

definition struct___nvme_bar :: ctype where
  "struct___nvme_bar = CStruct [
     (''cap'', U64), (''vs'', U32), (''intms'', U32), (''intmc'', U32), (''cc'', U32), (''rsvd1'', U32),
     (''csts'', U32), (''nssr'', U32), (''aqa'', U32), (''asq'', U64), (''acq'', U64), (''cmbloc'', U32),
     (''cmbsz'', U32)]"

definition struct_pci_header :: ctype where
  "struct_pci_header = CStruct [
     (''id'', CStruct [(''vid'', U16), (''did'', U16)]),
     (''cmd'', CStruct [
        (''iose'', CBits 1 1), (''mse'', CBits 1 1), (''bme'', CBits 1 1), (''sce'', CBits 1 1),
        (''mwie'', CBits 1 1), (''vga'', CBits 1 1), (''pee'', CBits 1 1), (''fixed'', CBits 1 1),
        (''see'', CBits 1 1), (''fbe'', CBits 1 1), (''id'', CBits 1 1), (''rsvd'', CBits 1 5)]),
     (''sts'', CStruct [
        (''rsvd1'', CBits 1 3), (''is'', CBits 1 1), (''cl'', CBits 1 1), (''c66'', CBits 1 1),
        (''rsvd2'', CBits 1 1), (''fbc'', CBits 1 1), (''dpd'', CBits 1 1), (''devt'', CBits 1 2),
        (''sta'', CBits 1 1), (''rta'', CBits 1 1), (''rma'', CBits 1 1), (''sse'', CBits 1 1),
        (''dpe'', CBits 1 1)]),
     (''rid'', U8), (''cc'', CStruct [(''pi'', U8), (''scc'', U8), (''bcc'', U8)]), (''cls'', U8),
     (''mlt'', U8), (''htype'', CStruct [(''hl'', CBits 1 7), (''mfd'', CBits 1 1)]),
     (''bist'', CStruct [(''cc'', CBits 1 4), (''rsvd'', CBits 1 2), (''sb'', CBits 1 1), (''bc'', CBits 1 1)]),
     (''mlbar'', CStruct [
        (''rte'', CBits 4 1), (''tp'', CBits 4 2), (''pf'', CBits 4 1), (''rsvd'', CBits 4 10),
        (''ba'', CBits 4 18)]),
     (''mulbar'', U32), (''idbar'', U32), (''bar3'', U32), (''bar4'', U32), (''bar5'', U32), (''ccptr'', U32),
     (''ss'', CStruct [(''ssvid'', U16), (''ssid'', U16)]), (''erom'', U32), (''cap'', U8),
     (''rsvd'', CArr 7 U8), (''intr'', CStruct [(''iline'', U8), (''ipin'', U8)]), (''mgnt'', U8),
     (''mlat'', U8)]"

definition struct_pci_pm_cap :: ctype where
  "struct_pci_pm_cap = CStruct [
     (''pid'', CStruct [(''cid'', U8), (''next'', U8)]),
     (''pc'', CStruct [
        (''vs'', CBits 2 3), (''pmec'', CBits 2 1), (''resv'', CBits 2 1), (''dsi'', CBits 2 1),
        (''auxc'', CBits 2 3), (''d1s'', CBits 2 1), (''d2s'', CBits 2 1), (''psup'', CBits 2 5)]),
     (''pmcs'', CStruct [
        (''ps'', CBits 2 2), (''rsvd01'', CBits 2 1), (''nsfrst'', CBits 2 1), (''rsvd02'', CBits 2 4),
        (''pmee'', CBits 2 1), (''dse'', CBits 2 4), (''dsc'', CBits 2 2), (''pmes'', CBits 2 1)]),
     (''ext'', CArr 2 U8)]"

definition struct_pci_msi_cap :: ctype where
  "struct_pci_msi_cap = CStruct [
     (''mid'', CStruct []), (''mc'', CStruct []), (''ma'', CStruct []), (''mua'', CStruct []),
     (''md'', CStruct []), (''mmask'', CStruct []), (''mpend'', CStruct [])]"

definition struct_pci_msix_cap :: ctype where
  "struct_pci_msix_cap = CStruct [
     (''mxid'', CStruct [(''cid'', U8), (''next'', U8)]),
     (''mxc'', CStruct [(''ts'', CBits 2 11), (''rsvd'', CBits 2 3), (''fm'', CBits 2 1), (''mxe'', CBits 2 1)]),
     (''mtab'', CStruct [(''tbir'', CBits 4 3), (''to'', CBits 4 29)]),
     (''mpba'', CStruct [(''pbir'', CBits 4 3), (''pbao'', CBits 4 29)])]"

definition struct_pcie_cap :: ctype where
  "struct_pcie_cap = CStruct [
     (''pxid'', CStruct [(''cid'', U8), (''next'', U8)]),
     (''pxcap'', CStruct [
        (''ver'', CBits 1 4), (''dpt'', CBits 1 4), (''si'', CBits 1 1), (''imn'', CBits 1 5),
        (''rsvd'', CBits 1 2)]),
     (''pxdcap'', CStruct [
        (''mps'', CBits 4 3), (''pfs'', CBits 4 2), (''etfs'', CBits 4 1), (''l0sl'', CBits 4 3),
        (''l1l'', CBits 4 3), (''rsvd'', CBits 4 3), (''rer'', CBits 4 1), (''rsvd2'', CBits 4 2),
        (''csplv'', CBits 4 8), (''cspls'', CBits 4 2), (''flrc'', CBits 4 1), (''rsvd3'', CBits 4 3)]),
     (''pxdc'', CStruct [
        (''cere'', CBits 2 1), (''nfere'', CBits 2 1), (''fere'', CBits 2 2), (''urre'', CBits 2 1),
        (''ero'', CBits 2 1), (''mps'', CBits 2 3), (''ete'', CBits 2 1), (''pfe'', CBits 2 1),
        (''appme'', CBits 2 1), (''ens'', CBits 2 1), (''mrrs'', CBits 2 3), (''iflr'', CBits 2 1)]),
     (''pxds'', CStruct [
        (''ced'', CBits 2 1), (''nfed'', CBits 2 1), (''fed'', CBits 2 1), (''urd'', CBits 2 1),
        (''apd'', CBits 2 1), (''tp'', CBits 2 1), (''rsvd'', CBits 2 10)]),
     (''pxlcap'', CStruct [
        (''sls'', CBits 4 4), (''mlw'', CBits 4 6), (''aspms'', CBits 4 2), (''l0sel'', CBits 4 3),
        (''l1el'', CBits 4 3), (''cpm'', CBits 4 1), (''sderc'', CBits 4 1), (''dllla'', CBits 4 20),
        (''lbnc'', CBits 4 1), (''aoc'', CBits 4 1), (''rsvd'', CBits 4 1), (''pn'', CBits 4 8)]),
     (''pxlc'', CStruct [
        (''aspmc'', CBits 2 2), (''rsvd'', CBits 2 1), (''rcb'', CBits 2 1), (''rsvd2'', CBits 2 2),
        (''ccc'', CBits 2 1), (''es'', CBits 2 1), (''ecpm'', CBits 2 1), (''hawd'', CBits 2 1),
        (''rsvd3'', CBits 2 6)]),
     (''pxls'', CStruct [
        (''clc'', CBits 2 4), (''nlw'', CBits 2 6), (''rsvd'', CBits 2 2), (''scc'', CBits 2 1),
        (''rsvd2'', CBits 2 3)]),
     (''pxdcap2'', CStruct [
        (''ctrs'', CBits 4 4), (''ctds'', CBits 4 1), (''arifs'', CBits 4 1), (''aors'', CBits 4 1),
        (''aocs32'', CBits 4 1), (''aocs'', CBits 4 1), (''ccs128'', CBits 4 1), (''nprpr'', CBits 4 1),
        (''ltrs'', CBits 4 1), (''tphcs'', CBits 4 2), (''rsvd'', CBits 4 4), (''obffs'', CBits 4 2),
        (''effs'', CBits 4 1), (''eetps'', CBits 4 1), (''meetp'', CBits 4 2), (''rsvd2'', CBits 4 8)]),
     (''pxdc2'', CStruct [
        (''ctv'', CBits 4 4), (''ctd'', CBits 4 1), (''rsvd'', CBits 4 5), (''ltrme'', CBits 4 1),
        (''rsvd2'', CBits 4 2), (''obffe'', CBits 4 2), (''rsvd3'', CBits 4 17)])]"

definition struct_aer_cap :: ctype where
  "struct_aer_cap = CStruct [
     (''aerid'', CStruct [(''cid'', U16), (''cver'', CBits 2 4), (''next'', CBits 2 12)]),
     (''aeruces'', CStruct [
        (''rsvd'', CBits 4 4), (''dlpes'', CBits 4 1), (''rsvd2'', CBits 4 7), (''pts'', CBits 4 1),
        (''fcpes'', CBits 4 1), (''cts'', CBits 4 1), (''cas'', CBits 4 1), (''ucs'', CBits 4 1),
        (''ros'', CBits 4 1), (''mts'', CBits 4 1), (''ecrces'', CBits 4 1), (''ures'', CBits 4 1),
        (''acsvs'', CBits 4 1), (''uies'', CBits 4 1), (''mcbts'', CBits 4 1), (''aoebs'', CBits 4 1),
        (''tpbes'', CBits 4 1), (''rsvd3'', CBits 4 6)]),
     (''aerucem'', CStruct [
        (''rsvd'', CBits 4 4), (''dlpem'', CBits 4 1), (''rsvd2'', CBits 4 7), (''ptm'', CBits 4 1),
        (''fcpem'', CBits 4 1), (''ctm'', CBits 4 1), (''cam'', CBits 4 1), (''ucm'', CBits 4 1),
        (''rom'', CBits 4 1), (''mtm'', CBits 4 1), (''ecrcem'', CBits 4 1), (''urem'', CBits 4 1),
        (''acsvm'', CBits 4 1), (''uiem'', CBits 4 1), (''mcbtm'', CBits 4 1), (''aoebm'', CBits 4 1),
        (''tpbem'', CBits 4 1), (''rsvd3'', CBits 4 6)]),
     (''aerucesev'', CStruct [
        (''rsvd'', CBits 4 4), (''dlpesev'', CBits 4 1), (''rsvd2'', CBits 4 7), (''ptsev'', CBits 4 1),
        (''fcpesev'', CBits 4 1), (''ctsev'', CBits 4 1), (''casev'', CBits 4 1), (''ucsev'', CBits 4 1),
        (''rosev'', CBits 4 1), (''mtsev'', CBits 4 1), (''ecrcesev'', CBits 4 1), (''uresev'', CBits 4 1),
        (''acsvsev'', CBits 4 1), (''uiesev'', CBits 4 1), (''mcbtsev'', CBits 4 1), (''aoebsev'', CBits 4 1),
        (''tpbesev'', CBits 4 1), (''rsvd3'', CBits 4 6)]),
     (''aerces'', CStruct [
        (''res'', CBits 4 1), (''rsvd'', CBits 4 5), (''bts'', CBits 4 1), (''bds'', CBits 4 1),
        (''rrs'', CBits 4 1), (''rsvd2'', CBits 4 3), (''rts'', CBits 4 1), (''anfes'', CBits 4 1),
        (''cies'', CBits 4 1), (''hlos'', CBits 4 1), (''rsvd3'', CBits 4 16)]),
     (''aercem'', CStruct [
        (''rem'', CBits 4 1), (''rsvd'', CBits 4 5), (''btm'', CBits 4 1), (''bdm'', CBits 4 1),
        (''rrm'', CBits 4 1), (''rsvd2'', CBits 4 3), (''rtm'', CBits 4 1), (''anfem'', CBits 4 1),
        (''ciem'', CBits 4 1), (''hlom'', CBits 4 1), (''rsvd3'', CBits 4 16)]),
     (''aercc'', CStruct [
        (''fep'', CBits 4 5), (''egc'', CBits 4 1), (''ege'', CBits 4 1), (''ecc'', CBits 4 1),
        (''ece'', CBits 4 1), (''mhrc'', CBits 4 1), (''mhre'', CBits 4 1), (''tplp'', CBits 4 1),
        (''rsvd'', CBits 4 20)]),
     (''aerhl'', CStruct [
        (''hb3'', U8), (''hb2'', U8), (''hb1'', U8), (''hb0'', U8), (''hb7'', U8), (''hb6'', U8), (''hb5'', U8),
        (''hb4'', U8), (''hb11'', U8), (''hb10'', U8), (''hb9'', U8), (''hb8'', U8), (''hb15'', U8),
        (''hb14'', U8), (''hb13'', U8), (''hb12'', U8)]),
     (''aertlp'', CStruct [
        (''tpl1b3'', U8), (''tpl1b2'', U8), (''tpl1b1'', U8), (''tpl1b0'', U8), (''tpl2b3'', U8),
        (''tpl2b2'', U8), (''tpl2b1'', U8), (''tpl2b0'', U8), (''tpl3b3'', U8), (''tpl3b2'', U8),
        (''tpl3b1'', U8), (''tpl3b0'', U8), (''tpl4b3'', U8), (''tpl4b2'', U8), (''tpl4b1'', U8),
        (''tpl4b0'', U8)])]"

definition struct_pci_exp_hdr :: ctype where
  "struct_pci_exp_hdr = CStruct [
     (''id'', CStruct [(''cid'', U16), (''cver'', CBits 2 4), (''next'', CBits 2 12)])]"

definition struct_nvme_ctrl_regs :: ctype where
  "struct_nvme_ctrl_regs = CStruct [
     ('''', CUnion [
        (''cap'', CStruct [
           (''mqes'', U16), (''cqr'', CBits 2 1), (''ams'', CBits 2 2), (''rsvd'', CBits 2 5),
           (''to'', CBits 2 8), (''dstrd'', CBits 2 4), (''nssrs'', CBits 2 1), (''css'', CBits 2 8),
           (''rsvd2'', CBits 2 3), (''mpsmin'', CBits 2 4), (''mpsmax'', CBits 2 4), (''rsvd3'', CBits 2 8)]),
        (''u_cap'', U64)]),
     ('''', CUnion [(''vs'', CStruct [(''rsvd'', U8), (''mnr'', U8), (''mjr'', U16)]), (''u_vs'', U32)]),
     (''intms'', U32), (''intmc'', U32),
     ('''', CUnion [
        (''cc'', CStruct [
           (''en'', CBits 2 1), (''rsvd'', CBits 2 3), (''css'', CBits 2 3), (''mps'', CBits 2 4),
           (''ams'', CBits 2 3), (''shn'', CBits 2 2), (''iosqes'', CBits 2 4), (''iocqes'', CBits 2 4),
           (''rsvd2'', CBits 2 8)]),
        (''u_cc'', U32)]),
     (''rsvd1'', U32),
     ('''', CUnion [
        (''csts'', CStruct [
           (''rdy'', CBits 4 1), (''cfs'', CBits 4 1), (''shst'', CBits 4 2), (''nssro'', CBits 4 1),
           (''pp'', CBits 4 1), (''rsvd'', CBits 4 26)]),
        (''u_csts'', U32)]),
     (''nssr'', U32),
     ('''', CUnion [
        (''aqa'', CStruct [(''asqs'', CBits 4 12), (''rsvd1'', CBits 4 4), (''acqs'', CBits 4 12), (''rsvd2'', CBits 4 4)]),
        (''u_aqa'', U32)]),
     ('''', CUnion [(''asq'', CStruct [(''rsvd'', CBits 8 12), (''asqb'', CBits 8 52)]), (''u_asq'', U64)]),
     ('''', CUnion [(''acq'', CStruct [(''rsvd'', CBits 8 12), (''acqb'', CBits 8 52)]), (''u_acq'', U64)]),
     ('''', CUnion [
        (''cmbloc'', CStruct [(''bir'', CBits 4 3), (''rsvd'', CBits 4 9), (''ofst'', CBits 4 20)]),
        (''u_cmbloc'', U32)]),
     ('''', CUnion [
        (''cmbsz'', CStruct [
           (''sqs'', CBits 4 1), (''cqs'', CBits 4 1), (''lists'', CBits 4 1), (''rds'', CBits 4 1),
           (''wds'', CBits 4 1), (''rsvd'', CBits 4 3), (''szu'', CBits 4 4), (''sz'', CBits 4 20)]),
        (''u_cmbsz'', U32)])]"

text \<open>Commands, completions, identify pages and logs (\<open>nvme.h\<close>).\<close>

definition struct_nvme_bar :: ctype where
  "struct_nvme_bar = CStruct [
     (''cap'', U64), (''vs'', U32), (''intms'', U32), (''intmc'', U32), (''cc'', U32), (''rsvd1'', U32),
     (''csts'', U32), (''nssr'', U32), (''aqa'', U32), (''asq'', U64), (''acq'', U64), (''cmbloc'', U32),
     (''cmbsz'', U32)]"

definition struct_nvme_id_power_state :: ctype where
  "struct_nvme_id_power_state = CStruct [
     (''max_power'', U16), (''rsvd2'', U8), (''flags'', U8), (''entry_lat'', U32), (''exit_lat'', U32),
     (''read_tput'', U8), (''read_lat'', U8), (''write_tput'', U8), (''write_lat'', U8), (''idle_power'', U16),
     (''idle_scale'', U8), (''rsvd19'', U8), (''active_power'', U16), (''active_work_scale'', U8),
     (''rsvd23'', CArr 9 U8)]"

definition struct_nvme_id_ctrl :: ctype where
  "struct_nvme_id_ctrl = CStruct [
     (''vid'', U16), (''ssvid'', U16), (''sn'', CArr 20 U8), (''mn'', CArr 40 U8), (''fr'', CArr 8 U8),
     (''rab'', U8), (''ieee'', CArr 3 U8), (''mic'', U8), (''mdts'', U8), (''cntlid'', U16), (''ver'', U32),
     (''rsvd84'', CArr 172 U8), (''oacs'', U16), (''acl'', U8), (''aerl'', U8), (''frmw'', U8), (''lpa'', U8),
     (''elpe'', U8), (''npss'', U8), (''avscc'', U8), (''apsta'', U8), (''wctemp'', U16), (''cctemp'', U16),
     (''rsvd270'', CArr 242 U8), (''sqes'', U8), (''cqes'', U8), (''rsvd514'', CArr 2 U8), (''nn'', U32),
     (''oncs'', U16), (''fuses'', U16), (''fna'', U8), (''vwc'', U8), (''awun'', U16), (''awupf'', U16),
     (''nvscc'', U8), (''rsvd531'', U8), (''acwu'', U16), (''rsvd534'', CArr 2 U8), (''sgls'', U32),
     (''rsvd540'', CArr 1508 U8), (''psd'', CArr 32 struct_nvme_id_power_state), (''vs'', CArr 1024 U8)]"

definition struct_nvme_lbaf :: ctype where
  "struct_nvme_lbaf = CStruct [
     (''ms'', U16), (''ds'', U8), (''rp'', U8)]"

definition struct_nvme_id_ns :: ctype where
  "struct_nvme_id_ns = CStruct [
     (''nsze'', U64), (''ncap'', U64), (''nuse'', U64), (''nsfeat'', U8), (''nlbaf'', U8), (''flbas'', U8),
     (''mc'', U8), (''dpc'', U8), (''dps'', U8), (''nmic'', U8), (''rescap'', U8), (''fpi'', U8),
     (''rsvd33'', U8), (''nawun'', U16), (''nawupf'', U16), (''nacwu'', U16), (''nabsn'', U16), (''nabo'', U16),
     (''nabspf'', U16), (''rsvd46'', U16), (''nvmcap'', CArr 2 U64), (''rsvd64'', CArr 40 U8),
     (''nguid'', CArr 16 U8), (''eui64'', CArr 8 U8), (''lbaf'', CArr 16 struct_nvme_lbaf),
     (''rsvd192'', CArr 192 U8), (''vs'', CArr 3712 U8)]"

definition struct_nvme_id_ns_desc :: ctype where
  "struct_nvme_id_ns_desc = CStruct [
     (''nidt'', U8), (''nidl'', U8), (''rsvd'', CArr 2 U8), (''nid'', CArr 4092 U8)]"

definition struct_nvme_lba_format_extension :: ctype where
  "struct_nvme_lba_format_extension = CStruct [
     (''zsze'', CArr 8 U8), (''zdes'', CArr 8 U8), (''rsv'', CArr 56 U8)]"

definition struct_nvme_smart_log :: ctype where
  "struct_nvme_smart_log = CStruct [
     (''critical_warning'', U8), (''temperature'', CArr 2 U8), (''avail_spare'', U8), (''spare_thresh'', U8),
     (''percent_used'', U8), (''rsvd6'', CArr 26 U8), (''data_units_read'', CArr 16 U8),
     (''data_units_written'', CArr 16 U8), (''host_reads'', CArr 16 U8), (''host_writes'', CArr 16 U8),
     (''ctrl_busy_time'', CArr 16 U8), (''power_cycles'', CArr 16 U8), (''power_on_hours'', CArr 16 U8),
     (''unsafe_shutdowns'', CArr 16 U8), (''media_errors'', CArr 16 U8), (''num_err_log_entries'', CArr 16 U8),
     (''warning_temp_time'', U32), (''critical_comp_time'', U32), (''temp_sensor'', CArr 8 U16),
     (''rsvd216'', CArr 296 U8)]"

definition struct_nvme_effects_log :: ctype where
  "struct_nvme_effects_log = CStruct [
     (''acs'', CArr 256 U32), (''iocs'', CArr 256 U32), (''resv'', CArr 2048 U8)]"

definition struct_nvme_lba_range_type :: ctype where
  "struct_nvme_lba_range_type = CStruct [
     (''type'', U8), (''attributes'', U8), (''rsvd2'', CArr 14 U8), (''slba'', U64), (''nlb'', U64),
     (''guid'', CArr 16 U8), (''rsvd48'', CArr 16 U8)]"

definition struct_nvme_reservation_status :: ctype where
  "struct_nvme_reservation_status = CStruct [
     (''gen'', U32), (''rtype'', U8), (''regctl'', CArr 2 U8), (''resv5'', CArr 2 U8), (''ptpls'', U8),
     (''resv10'', CArr 13 U8),
     (''regctl_ds'', CArr 0 (CStruct [(''cntlid'', U16), (''rcsts'', U8), (''resv3'', CArr 5 U8), (''hostid'', U64), (''rkey'', U64)]))]"

definition struct_nvme_common_command :: ctype where
  "struct_nvme_common_command = CStruct [
     (''opcode'', U8), (''flags'', U8), (''command_id'', U16), (''nsid'', U32), (''cdw2'', CArr 2 U32),
     (''metadata'', U64), (''prp1'', U64), (''prp2'', U64), (''cdw10'', CArr 6 U32)]"

definition struct_nvme_rw_command :: ctype where
  "struct_nvme_rw_command = CStruct [
     (''opcode'', U8), (''flags'', U8), (''command_id'', U16), (''nsid'', U32), (''pslba'', U64),
     (''metadata'', U64), (''prp1'', U64), (''prp2'', U64), (''slba'', U64), (''length'', U16),
     (''control'', U16), (''dsmgmt'', U32), (''reftag'', U32), (''apptag'', U16), (''appmask'', U16)]"

definition struct_nvme_get_log_page_command :: ctype where
  "struct_nvme_get_log_page_command = CStruct [
     (''opcode'', U8), (''flags'', U8), (''command_id'', U16), (''nsid'', U32), (''rsvd2'', CArr 2 U64),
     (''prp1'', U64), (''prp2'', U64), (''lid'', U8), (''lsp'', U8), (''numdl'', U16), (''numdu'', U16),
     (''rsvd11'', U16), ('''', CUnion [('''', CStruct [(''lpol'', U32), (''lpou'', U32)]), (''lpo'', U64)]),
     (''rsvd14'', CArr 3 U8), (''csi'', U8), (''rsvd15'', U32)]"

definition struct_nvme_dsm_cmd :: ctype where
  "struct_nvme_dsm_cmd = CStruct [
     (''opcode'', U8), (''flags'', U8), (''command_id'', U16), (''nsid'', U32), (''rsvd2'', CArr 2 U64),
     (''prp1'', U64), (''prp2'', U64), (''nr'', U32), (''attributes'', U32), (''rsvd12'', CArr 4 U32)]"

definition struct_nvme_dsm_range :: ctype where
  "struct_nvme_dsm_range = CStruct [
     (''cattr'', U32), (''nlb'', U32), (''slba'', U64)]"

definition struct_nvme_identify :: ctype where
  "struct_nvme_identify = CStruct [
     (''opcode'', U8), (''flags'', U8), (''command_id'', U16), (''nsid'', U32), (''rsvd2'', CArr 2 U64),
     (''prp1'', U64), (''prp2'', U64), (''cns'', U32), (''rsvd11'', CArr 5 U32)]"

definition struct_nvme_features :: ctype where
  "struct_nvme_features = CStruct [
     (''opcode'', U8), (''flags'', U8), (''command_id'', U16), (''nsid'', U32), (''rsvd2'', CArr 2 U64),
     (''prp1'', U64), (''prp2'', U64), (''fid'', U32), (''dword11'', U32), (''rsvd12'', CArr 4 U32)]"

definition struct_nvme_create_cq :: ctype where
  "struct_nvme_create_cq = CStruct [
     (''opcode'', U8), (''flags'', U8), (''command_id'', U16), (''rsvd1'', CArr 5 U32), (''prp1'', U64),
     (''rsvd8'', U64), (''cqid'', U16), (''qsize'', U16), (''cq_flags'', U16), (''irq_vector'', U16),
     (''rsvd12'', CArr 4 U32)]"

definition struct_nvme_create_sq :: ctype where
  "struct_nvme_create_sq = CStruct [
     (''opcode'', U8), (''flags'', U8), (''command_id'', U16), (''rsvd1'', CArr 5 U32), (''prp1'', U64),
     (''rsvd8'', U64), (''sqid'', U16), (''qsize'', U16), (''sq_flags'', U16), (''cqid'', U16),
     (''rsvd12'', CArr 4 U32)]"

definition struct_nvme_delete_queue :: ctype where
  "struct_nvme_delete_queue = CStruct [
     (''opcode'', U8), (''flags'', U8), (''command_id'', U16), (''rsvd1'', CArr 9 U32), (''qid'', U16),
     (''rsvd10'', U16), (''rsvd11'', CArr 5 U32)]"

definition struct_nvme_abort_cmd :: ctype where
  "struct_nvme_abort_cmd = CStruct [
     (''opcode'', U8), (''flags'', U8), (''command_id'', U16), (''rsvd1'', CArr 9 U32), (''sqid'', U16),
     (''cid'', U16), (''rsvd11'', CArr 5 U32)]"

definition struct_nvme_download_firmware :: ctype where
  "struct_nvme_download_firmware = CStruct [
     (''opcode'', U8), (''flags'', U8), (''command_id'', U16), (''rsvd1'', CArr 5 U32), (''prp1'', U64),
     (''prp2'', U64), (''numd'', U32), (''offset'', U32), (''rsvd12'', CArr 4 U32)]"

definition struct_nvme_format_cmd :: ctype where
  "struct_nvme_format_cmd = CStruct [
     (''opcode'', U8), (''flags'', U8), (''command_id'', U16), (''nsid'', U32), (''rsvd2'', CArr 4 U64),
     (''cdw10'', U32), (''rsvd11'', CArr 5 U32)]"

definition struct_nvme_command :: ctype where
  "struct_nvme_command = CStruct [
     ('''', CUnion [
        (''common'', struct_nvme_common_command), (''rw'', struct_nvme_rw_command),
        (''get_log_page'', struct_nvme_get_log_page_command), (''identify'', struct_nvme_identify),
        (''features'', struct_nvme_features), (''create_cq'', struct_nvme_create_cq),
        (''create_sq'', struct_nvme_create_sq), (''delete_queue'', struct_nvme_delete_queue),
        (''dlfw'', struct_nvme_download_firmware), (''format'', struct_nvme_format_cmd),
        (''dsm'', struct_nvme_dsm_cmd), (''abort'', struct_nvme_abort_cmd)])]"

definition struct_nvme_completion :: ctype where
  "struct_nvme_completion = CStruct [
     (''result0'', U32), (''result1'', U32), (''sq_head'', U16), (''sq_id'', U16), (''command_id'', U16),
     (''status'', U16)]"

text \<open>The zoned command set (\<open>nvme_zns.h\<close>).\<close>

definition struct_nvme_id_zns_ctrl :: ctype where
  "struct_nvme_id_zns_ctrl = CStruct [
     (''zasl'', U8), (''rsvd1'', CArr 4095 U8)]"

definition struct_nvme_zns_lbaf :: ctype where
  "struct_nvme_zns_lbaf = CStruct [
     (''zsze'', U64), (''zdes'', U8), (''resv'', CArr 7 U8)]"

definition struct_nvme_id_zns_ns :: ctype where
  "struct_nvme_id_zns_ns = CStruct [
     (''zoc'', U16), (''ozcs'', U16), (''mar'', U32), (''mor'', U32), (''rrl'', U32), (''frl'', U32),
     (''rsv1'', CArr 6 U32), (''numzrwa'', U32), (''zrwafg'', U16), (''zrwasz'', U16), (''zrwacap'', U8),
     (''rsv2'', CArr 2763 U8), (''lbaf'', CArr 16 struct_nvme_zns_lbaf), (''rsv3'', CArr 768 U8),
     (''vs'', CArr 256 U8)]"

definition struct_zone_descriptor :: ctype where
  "struct_zone_descriptor = CStruct [
     (''type'', CBits 1 4), ('''', CBits 1 4), ('''', CBits 1 4), (''state'', CBits 1 4),
     ('''', CUnion [
        (''za'', U8),
        ('''', CStruct [
           (''zfc'', CBits 1 1), (''fzr'', CBits 1 1), (''rzr'', CBits 1 1), (''zrwav'', CBits 1 1),
           ('''', CBits 1 3), (''zdef'', CBits 1 1)])]),
     ('''', CUnion [(''zai'', U8), ('''', CStruct [(''fzrtl'', CBits 1 2), (''rzrtl'', CBits 1 2), ('''', CBits 1 4)])]),
     (''reserved'', U32), (''zone_capacity'', U64), (''zslba'', U64), (''wp'', U64), (''rsvd'', CArr 8 U32)]"

definition struct_zone_report :: ctype where
  "struct_zone_report = CStruct [
     (''nr_zones'', U64), (''rsvd'', CArr 7 U64), (''zd'', CArr 0 struct_zone_descriptor)]"

definition struct_nvme_zone_mgmt_recv :: ctype where
  "struct_nvme_zone_mgmt_recv = CStruct [
     (''opcode'', U8), (''flags'', U8), (''command_id'', U16), (''nsid'', U32), (''cdw2'', CArr 2 U32),
     (''metadata'', U64), (''prp1'', U64), (''prp2'', U64), (''slba'', U64), (''nr_dw'', U32),
     ('''', CUnion [
        (''DW13'', U32),
        ('''', CStruct [
           (''zra'', U8), (''zra_specific_field'', U8), (''zra_specific_features'', CBits 2 1),
           (''reserved'', CBits 2 15)])]),
     (''rsvd'', CArr 3 U32)]"

definition struct_nvme_zone_mgmt_send :: ctype where
  "struct_nvme_zone_mgmt_send = CStruct [
     (''opcode'', U8), (''flags'', U8), (''command_id'', U16), (''nsid'', U32), (''cdw2'', CArr 2 U32),
     (''metadata'', U64), (''prp1'', U64), (''prp2'', U64), (''slba'', U64), (''reserved'', U32),
     ('''', CUnion [
        (''DW13'', U32),
        ('''', CStruct [(''zsa'', CBits 4 8), (''select_all'', CBits 4 1), (''zsaso'', CBits 4 1), ('''', CBits 4 22)])]),
     (''rsvd'', CArr 3 U32)]"

definition struct_nvme_zone_append :: ctype where
  "struct_nvme_zone_append = CStruct [
     (''opcode'', U8), (''flags'', U8), (''command_id'', U16), (''nsid'', U32), (''cdw2'', CArr 2 U32),
     (''metadata'', U64), (''prp1'', U64), (''prp2'', U64), (''slba'', U64),
     ('''', CUnion [
        (''DW12'', U32),
        ('''', CStruct [
           (''nr_lba'', CBits 4 16), ('''', CBits 4 4), (''dtype'', CBits 4 4), (''stc'', CBits 4 1),
           (''piremap'', CBits 4 1), (''printfo'', CBits 4 4), (''fua'', CBits 4 1), (''lr'', CBits 4 1)])]),
     ('''', CUnion [(''DW13'', U32), ('''', CStruct [('''', CBits 4 16), (''dspec'', CBits 4 16)])]),
     (''DW14'', U32),
     ('''', CUnion [(''DW15'', U32), ('''', CStruct [(''lbat'', CBits 4 16), (''lbatm'', CBits 4 16)])])]"

text \<open>The key-value command set (\<open>nvme_kv.h\<close>).\<close>

definition union_nvme_data_ptr :: ctype where
  "union_nvme_data_ptr = CUnion [
     ('''', CStruct [(''prp1'', U64), (''prp2'', U64)])]"

definition struct_nvme_kv_store_command :: ctype where
  "struct_nvme_kv_store_command = CStruct [
     (''opcode'', U8), (''flags'', U8), (''command_id'', U16), (''nsid'', U32), (''rsvd'', U64),
     (''offset'', U32), (''rsvd2'', U32), (''dptr'', union_nvme_data_ptr), (''value_len'', U32),
     (''key_len'', U8), (''option'', U8), (''invalid_byte'', CBits 1 2), (''rsvd3'', CBits 1 6),
     (''rsvd4'', U8),
     ('''', CUnion [('''', CStruct [(''key'', CArr 16 U8)]), ('''', CStruct [(''key_prp'', U64), (''key_prp2'', U64)])])]"

definition struct_nvme_kv_append_command :: ctype where
  "struct_nvme_kv_append_command = CStruct [
     (''opcode'', U8), (''flags'', U8), (''command_id'', U16), (''nsid'', U32), (''rsvd'', U64),
     (''offset'', U32), (''rsvd2'', U32), (''dptr'', union_nvme_data_ptr), (''value_len'', U32),
     (''key_len'', U8), (''option'', U8), (''invalid_byte'', CBits 1 2), (''rsvd3'', CBits 1 6),
     (''rsvd4'', U8),
     ('''', CUnion [('''', CStruct [(''key'', CArr 16 U8)]), ('''', CStruct [(''key_prp'', U64), (''key_prp2'', U64)])])]"

definition struct_nvme_kv_batch_command :: ctype where
  "struct_nvme_kv_batch_command = CStruct [
     (''opcode'', U8), (''flags'', U8), (''command_id'', U16), (''nsid'', U32), (''rsvd'', U64),
     (''offset'', U32), (''rsvd2'', U32), (''dptr'', union_nvme_data_ptr), (''value_len'', U32),
     (''key_len'', U8), (''option'', U8), (''rsvd3'', U8), (''rsvd4'', U8),
     ('''', CUnion [('''', CStruct [(''key'', CArr 16 U8)]), ('''', CStruct [(''key_prp'', U64), (''key_prp2'', U64)])])]"

definition struct_nvme_kv_retrieve_command :: ctype where
  "struct_nvme_kv_retrieve_command = CStruct [
     (''opcode'', U8), (''flags'', U8), (''command_id'', U16), (''nsid'', U32), (''rsvd'', U64),
     (''offset'', U32), (''rsvd2'', U32), (''dptr'', union_nvme_data_ptr), (''value_len'', U32),
     (''key_len'', U8), (''option'', U8), (''rsvd3'', U16),
     ('''', CUnion [('''', CStruct [(''key'', CArr 16 U8)]), ('''', CStruct [(''key_prp'', U64), (''key_prp2'', U64)])])]"

definition struct_nvme_kv_delete_command :: ctype where
  "struct_nvme_kv_delete_command = CStruct [
     (''opcode'', U8), (''flags'', U8), (''command_id'', U16), (''nsid'', U32), (''rsvd'', U64),
     (''offset'', U32), (''rsvd2'', U32), (''rsvd3'', CArr 2 U64), (''value_len'', U32), (''key_len'', U8),
     (''option'', U8), (''rsvd4'', U16),
     ('''', CUnion [('''', CStruct [(''key'', CArr 16 U8)]), ('''', CStruct [(''key_prp'', U64), (''key_prp2'', U64)])])]"

definition struct_nvme_kv_iter_req_command :: ctype where
  "struct_nvme_kv_iter_req_command = CStruct [
     (''opcode'', U8), (''flags'', U8), (''command_id'', U16), (''nsid'', U32), (''rsvd'', CArr 4 U64),
     (''zero'', U32), (''iter_handle'', U8), (''option'', U8), (''rsvd2'', U16), (''iter_val'', U32),
     (''iter_bitmask'', U32), (''rsvd3'', U64)]"

definition struct_nvme_kv_iter_read_command :: ctype where
  "struct_nvme_kv_iter_read_command = CStruct [
     (''opcode'', U8), (''flags'', U8), (''command_id'', U16), (''nsid'', U32), (''rsvd'', CArr 2 U64),
     (''dptr'', union_nvme_data_ptr), (''value_len'', U32), (''iter_handle'', U8), (''option'', U8),
     (''rsvd2'', U16), (''rsvd3'', CArr 2 U64)]"

definition struct_nvme_kv_exist_command :: ctype where
  "struct_nvme_kv_exist_command = CStruct [
     (''opcode'', U8), (''flags'', U8), (''command_id'', U16), (''nsid'', U32), (''rsvd'', U64),
     (''offset'', U32), (''rsvd2'', U32), (''rsvd3'', CArr 2 U64), (''value_len'', U32), (''key_len'', U8),
     (''option'', U8), (''rsvd4'', U16),
     ('''', CUnion [('''', CStruct [(''key'', CArr 16 U8)]), ('''', CStruct [(''key_prp'', U64), (''key_prp2'', U64)])])]"

definition struct_kv_iter_context :: ctype where
  "struct_kv_iter_context = CStruct [
     (''handle'', U8), (''prefix'', U32), (''bitmask'', U32), (''buf'', U64), (''buflen'', U32),
     (''byteswritten'', U32), (''bufoffset'', U32), (''end'', U8), (''current_pos'', U64)]"

definition struct_sub_cmd_attribute :: ctype where
  "struct_sub_cmd_attribute = CStruct [
     (''opcode'', U8), (''keySize'', U8), (''reservedDw0'', CArr 2 U8), (''valueSize'', U32), (''option'', U8),
     (''nsid'', U8), (''reservedDw2'', CArr 2 U8), (''NoUsed'', U32)]"

definition struct_batch_cmd_head :: ctype where
  "struct_batch_cmd_head = CStruct [
     (''attr'', CArr 8 struct_sub_cmd_attribute), (''reserved'', CArr 384 U8)]"

definition struct_sub_cmd_head :: ctype where
  "struct_sub_cmd_head = CStruct [
     (''reserved'', CArr 64 U8)]"

definition struct_sub_payload_format :: ctype where
  "struct_sub_payload_format = CStruct [
     (''sub_head'', struct_sub_cmd_head), (''data'', CArr 0 U8)]"

definition struct_payload_format :: ctype where
  "struct_payload_format = CStruct [
     (''batch_head'', struct_batch_cmd_head), (''sub_payload'', CArr 0 U8)]"

definition struct_sub_payload_attribute :: ctype where
  "struct_sub_payload_attribute = CStruct [
     (''sub_payload_len'', U32), (''key_len'', U32), (''value_len'', U32)]"

definition struct_kv_batch_data :: ctype where
  "struct_kv_batch_data = CStruct [
     (''key'', CArr 256 U8), (''keySize'', U32), (''value'', CArr 4097 U8), (''valueSize'', U32),
     (''opcode'', U32)]"

definition struct_nvme_kv_command :: ctype where
  "struct_nvme_kv_command = CStruct [
     ('''', CUnion [
        (''common'', struct_nvme_common_command), (''kv_store'', struct_nvme_kv_store_command),
        (''kv_retrieve'', struct_nvme_kv_retrieve_command), (''kv_delete'', struct_nvme_kv_delete_command),
        (''kv_append'', struct_nvme_kv_append_command), (''kv_iter_req'', struct_nvme_kv_iter_req_command),
        (''kv_iter_read'', struct_nvme_kv_iter_read_command), (''kv_exist'', struct_nvme_kv_exist_command),
        (''kv_batch'', struct_nvme_kv_batch_command)])]"
section \<open>Sizes\<close>

lemma declarations_well_formed:
  "list_all wf_ctype [struct_pci_header, struct_pci_pm_cap, struct_pci_msix_cap, struct_pcie_cap, struct_aer_cap, struct_pci_exp_hdr,
     struct_nvme_ctrl_regs, struct___nvme_bar, struct_nvme_command, struct_nvme_completion, struct_nvme_id_ctrl, struct_nvme_id_ns,
     struct_nvme_id_ns_desc, struct_nvme_id_zns_ns, struct_nvme_smart_log, struct_nvme_effects_log, struct_zone_report,
     struct_nvme_zone_mgmt_send, struct_nvme_zone_mgmt_recv, struct_nvme_zone_append, struct_nvme_kv_command, struct_payload_format]"
  by code_simp

text \<open>The zone management commands end with three reserved words where two would fill the 64 bytes of an entry.\<close>

lemma command_sizes:
  "size_of struct_nvme_command = 64" "size_of struct_nvme_completion = 16" "size_of struct_nvme_zone_append = 64"
  "size_of struct_nvme_kv_command = 64" "size_of struct_nvme_zone_mgmt_send = 72" "size_of struct_nvme_zone_mgmt_recv = 72"
  by code_simp+

lemma page_sizes:
  "size_of struct_nvme_id_ctrl = 4096" "size_of struct_nvme_id_ns = 4096" "size_of struct_nvme_id_ns_desc = 4096"
  "size_of struct_nvme_id_zns_ns = 4096" "size_of struct_nvme_smart_log = 512" "size_of struct_nvme_effects_log = 4096"
  "size_of struct_zone_descriptor = 64" "size_of struct_zone_report = 64" "size_of struct_pci_header = 64"
  "size_of struct_pci_pm_cap = 8" "size_of struct_pci_msix_cap = 12" "size_of struct_pci_exp_hdr = 4"
  by code_simp+

lemma capability_sizes: "size_of struct_pcie_cap = 36" "size_of struct_aer_cap = 60"
  by code_simp+

section \<open>Commands and completions\<close>

definition command_names :: "string list" where
  "command_names = [''common'', ''rw'', ''get_log_page'', ''identify'', ''features'', ''create_cq'', ''create_sq'', ''delete_queue'',
     ''dlfw'', ''format'', ''dsm'', ''abort'']"

text \<open>The union of all commands: a member of it is a member of its variant, at the same place.\<close>

lemma command_union:
  "members struct_nvme_command = [
     (''common'', 0, struct_nvme_common_command), (''rw'', 0, struct_nvme_rw_command),
     (''get_log_page'', 0, struct_nvme_get_log_page_command), (''identify'', 0, struct_nvme_identify),
     (''features'', 0, struct_nvme_features), (''create_cq'', 0, struct_nvme_create_cq),
     (''create_sq'', 0, struct_nvme_create_sq), (''delete_queue'', 0, struct_nvme_delete_queue),
     (''dlfw'', 0, struct_nvme_download_firmware), (''format'', 0, struct_nvme_format_cmd),
     (''dsm'', 0, struct_nvme_dsm_cmd), (''abort'', 0, struct_nvme_abort_cmd)]"
  by (simp only: struct_nvme_command_def members.simps struct_members.simps union_members.simps start_of.simps round_up_0 Let_def shift_def
      list.map prod.case append.simps if_True if_False list.distinct simp_thms add_0 append_Nil2)

lemma command_variants:
  "field_at struct_nvme_command (Fld ''common'' # ss) = field_at struct_nvme_common_command ss"
  "field_at struct_nvme_command (Fld ''rw'' # ss) = field_at struct_nvme_rw_command ss"
  "field_at struct_nvme_command (Fld ''get_log_page'' # ss) = field_at struct_nvme_get_log_page_command ss"
  "field_at struct_nvme_command (Fld ''identify'' # ss) = field_at struct_nvme_identify ss"
  "field_at struct_nvme_command (Fld ''features'' # ss) = field_at struct_nvme_features ss"
  "field_at struct_nvme_command (Fld ''create_cq'' # ss) = field_at struct_nvme_create_cq ss"
  "field_at struct_nvme_command (Fld ''create_sq'' # ss) = field_at struct_nvme_create_sq ss"
  "field_at struct_nvme_command (Fld ''delete_queue'' # ss) = field_at struct_nvme_delete_queue ss"
  "field_at struct_nvme_command (Fld ''dlfw'' # ss) = field_at struct_nvme_download_firmware ss"
  "field_at struct_nvme_command (Fld ''format'' # ss) = field_at struct_nvme_format_cmd ss"
  "field_at struct_nvme_command (Fld ''dsm'' # ss) = field_at struct_nvme_dsm_cmd ss"
  "field_at struct_nvme_command (Fld ''abort'' # ss) = field_at struct_nvme_abort_cmd ss"
  by (simp_all add: field_at.simps(2) command_union)

text \<open>Every command has its opcode and identifier at the same place, so that the dispatcher may read them before it
  knows which member of the union the command is.\<close>

lemma command_heads:
  "list_all (\<lambda>c. field_at struct_nvme_command [Fld c, Fld ''opcode''] = Some (0, U8) \<and>
     field_at struct_nvme_command [Fld c, Fld ''command_id''] = Some (16, U16)) command_names"
  unfolding command_names_def list.pred_inject command_variants by (intro conjI TrueI; code_simp)

lemma command_members_at:
  "list_all (\<lambda>c. field_at struct_nvme_command [Fld c, Fld ''nsid''] = Some (32, U32))
     [''common'', ''rw'', ''get_log_page'', ''identify'', ''features'', ''format'', ''dsm'']"
  "list_all (\<lambda>c. field_at struct_nvme_command [Fld c, Fld ''prp1''] = Some (192, U64))
     [''common'', ''rw'', ''get_log_page'', ''identify'', ''features'', ''create_cq'', ''create_sq'', ''dlfw'', ''dsm'']"
  "list_all (\<lambda>c. field_at struct_nvme_command [Fld c, Fld ''prp2''] = Some (256, U64))
     [''common'', ''rw'', ''get_log_page'', ''identify'', ''features'', ''dlfw'', ''dsm'']"
  unfolding list.pred_inject command_variants by (intro conjI TrueI; code_simp)+

lemma format_field: "field_at struct_nvme_command [Fld ''format'', Fld ''cdw10''] = Some (320, U32)"
  unfolding command_variants by code_simp

lemma command_fields:
  "field_at struct_nvme_command [Fld ''common'', Fld ''opcode''] = Some (0, U8)"
  "field_at struct_nvme_command [Fld ''common'', Fld ''command_id''] = Some (16, U16)"
  "field_at struct_nvme_command [Fld ''common'', Fld ''nsid''] = Some (32, U32)"
  "field_at struct_nvme_command [Fld ''common'', Fld ''prp1''] = Some (192, U64)"
  "field_at struct_nvme_command [Fld ''common'', Fld ''prp2''] = Some (256, U64)"
  "field_at struct_nvme_command [Fld ''common'', Fld ''cdw10'', Idx 0] = Some (320, U32)"
  "field_at struct_nvme_command [Fld ''common'', Fld ''cdw10'', Idx 1] = Some (352, U32)"
  "field_at struct_nvme_command [Fld ''common'', Fld ''cdw10'', Idx 2] = Some (384, U32)"
  "field_at struct_nvme_command [Fld ''common'', Fld ''cdw10'', Idx 3] = Some (416, U32)"
  unfolding command_variants by code_simp+

lemma rw_fields:
  "field_at struct_nvme_command [Fld ''rw'', Fld ''prp1''] = Some (192, U64)"
  "field_at struct_nvme_command [Fld ''rw'', Fld ''prp2''] = Some (256, U64)"
  "field_at struct_nvme_command [Fld ''rw'', Fld ''slba''] = Some (320, U64)"
  "field_at struct_nvme_command [Fld ''rw'', Fld ''length''] = Some (384, U16)"
  "field_at struct_nvme_command [Fld ''rw'', Fld ''control''] = Some (400, U16)"
  unfolding command_variants by code_simp+

lemma admin_fields:
  "field_at struct_nvme_command [Fld ''create_cq'', Fld ''prp1''] = Some (192, U64)"
  "field_at struct_nvme_command [Fld ''create_cq'', Fld ''cqid''] = Some (320, U16)"
  "field_at struct_nvme_command [Fld ''create_cq'', Fld ''qsize''] = Some (336, U16)"
  "field_at struct_nvme_command [Fld ''create_cq'', Fld ''cq_flags''] = Some (352, U16)"
  "field_at struct_nvme_command [Fld ''create_cq'', Fld ''irq_vector''] = Some (368, U16)"
  "field_at struct_nvme_command [Fld ''create_sq'', Fld ''prp1''] = Some (192, U64)"
  "field_at struct_nvme_command [Fld ''create_sq'', Fld ''sqid''] = Some (320, U16)"
  "field_at struct_nvme_command [Fld ''create_sq'', Fld ''qsize''] = Some (336, U16)"
  "field_at struct_nvme_command [Fld ''create_sq'', Fld ''cqid''] = Some (368, U16)"
  "field_at struct_nvme_command [Fld ''delete_queue'', Fld ''qid''] = Some (320, U16)"
  "field_at struct_nvme_command [Fld ''identify'', Fld ''nsid''] = Some (32, U32)"
  "field_at struct_nvme_command [Fld ''identify'', Fld ''prp1''] = Some (192, U64)"
  "field_at struct_nvme_command [Fld ''identify'', Fld ''cns''] = Some (320, U32)"
  "field_at struct_nvme_command [Fld ''features'', Fld ''fid''] = Some (320, U32)"
  "field_at struct_nvme_command [Fld ''features'', Fld ''dword11''] = Some (352, U32)"
  "field_at struct_nvme_command [Fld ''get_log_page'', Fld ''prp1''] = Some (192, U64)"
  "field_at struct_nvme_command [Fld ''get_log_page'', Fld ''lid''] = Some (320, U8)"
  "field_at struct_nvme_command [Fld ''get_log_page'', Fld ''numdl''] = Some (336, U16)"
  "field_at struct_nvme_command [Fld ''get_log_page'', Fld ''numdu''] = Some (352, U16)"
  unfolding command_variants by code_simp+

lemma zone_fields:
  "field_at struct_nvme_zone_mgmt_send [Fld ''slba''] = Some (320, U64)"
  "field_at struct_nvme_zone_mgmt_send [Fld ''zsa''] = Some (416, CBits 4 8)"
  "field_at struct_nvme_zone_mgmt_send [Fld ''select_all''] = Some (424, CBits 4 1)"
  "field_at struct_nvme_zone_mgmt_send [Fld ''zsaso''] = Some (425, CBits 4 1)"
  "field_at struct_nvme_zone_mgmt_recv [Fld ''slba''] = Some (320, U64)"
  "field_at struct_nvme_zone_mgmt_recv [Fld ''nr_dw''] = Some (384, U32)"
  "field_at struct_nvme_zone_mgmt_recv [Fld ''zra''] = Some (416, U8)"
  "field_at struct_nvme_zone_mgmt_recv [Fld ''zra_specific_field''] = Some (424, U8)"
  "field_at struct_nvme_zone_mgmt_recv [Fld ''zra_specific_features''] = Some (432, CBits 2 1)"
  "field_at struct_nvme_zone_append [Fld ''slba''] = Some (320, U64)"
  "field_at struct_nvme_zone_append [Fld ''nr_lba''] = Some (384, CBits 4 16)"
  by code_simp+

lemma completion_fields:
  "field_at struct_nvme_completion [Fld ''result0''] = Some (0, U32)"
  "field_at struct_nvme_completion [Fld ''result1''] = Some (32, U32)"
  "field_at struct_nvme_completion [Fld ''sq_head''] = Some (64, U16)"
  "field_at struct_nvme_completion [Fld ''sq_id''] = Some (80, U16)"
  "field_at struct_nvme_completion [Fld ''command_id''] = Some (96, U16)"
  "field_at struct_nvme_completion [Fld ''status''] = Some (112, U16)"
  by code_simp+

abbreviation cmd_field :: "bytes \<Rightarrow> nat \<Rightarrow> sel list \<Rightarrow> nat" where
  "cmd_field m a ss \<equiv> read_field struct_nvme_command a ss m"

text \<open>The halves and bytes of the dwords from \<open>cdw10\<close> on.\<close>

lemma dword_parts:
  "load 2 m (a + 40) = load 4 m (a + 40) mod 2 ^ 16" "load 2 m (a + 42) = load 4 m (a + 40) div 2 ^ 16 mod 2 ^ 16"
  "load 2 m (a + 44) = load 4 m (a + 44) mod 2 ^ 16" "load 2 m (a + 46) = load 4 m (a + 44) div 2 ^ 16 mod 2 ^ 16"
  "load 2 m (a + 48) = load 4 m (a + 48) mod 2 ^ 16" "load 2 m (a + 50) = load 4 m (a + 48) div 2 ^ 16 mod 2 ^ 16"
  "load 1 m (a + 40) = load 4 m (a + 40) mod 2 ^ 8" "load 1 m (a + 52) = load 4 m (a + 52) mod 2 ^ 8"
  "load 1 m (a + 53) = load 4 m (a + 52) div 2 ^ 8 mod 2 ^ 8" "load 2 m (a + 54) = load 4 m (a + 52) div 2 ^ 16 mod 2 ^ 16"
  "load 8 m (a + 40) = load 4 m (a + 40) + load 4 m (a + 44) * 2 ^ 32"
  using load_part [of 0 2 4 "a + 40"] load_part [of 2 2 4 "a + 42" "a + 40"] load_part [of 0 2 4 "a + 44"] load_part [of 2 2 4 "a + 46" "a + 44"]
    load_part [of 0 2 4 "a + 48"] load_part [of 2 2 4 "a + 50" "a + 48"] load_part [of 0 1 4 "a + 40"] load_part [of 0 1 4 "a + 52"]
    load_part [of 1 1 4 "a + 53" "a + 52"] load_part [of 2 2 4 "a + 54" "a + 52"] load_pair [of "a + 44" "a + 40" 4 8 4 m]
  by (simp_all del: One_nat_def)

lemmas decode_simps = command_at_def read_field_def dword_parts

lemma load_u32 [simp]: "u32 (load 4 m a) = load 4 m a"
  using load_less [of 4 m a] by (simp add: u32_def)

lemma command_at_fields:
  "command_at m a = \<lparr> opcode = cmd_field m a [Fld ''common'', Fld ''opcode''], command_id = cmd_field m a [Fld ''common'', Fld ''command_id''],
     nsid = cmd_field m a [Fld ''common'', Fld ''nsid''], prp1 = cmd_field m a [Fld ''common'', Fld ''prp1''],
     prp2 = cmd_field m a [Fld ''common'', Fld ''prp2''], cdw10 = cmd_field m a [Fld ''common'', Fld ''cdw10'', Idx 0],
     cdw11 = cmd_field m a [Fld ''common'', Fld ''cdw10'', Idx 1], cdw12 = cmd_field m a [Fld ''common'', Fld ''cdw10'', Idx 2],
     cdw13 = cmd_field m a [Fld ''common'', Fld ''cdw10'', Idx 3] \<rparr>"
  by (simp add: decode_simps command_fields del: One_nat_def)

lemma rw_decoded:
  "rw_slba (command_at m a) = cmd_field m a [Fld ''rw'', Fld ''slba'']"
  "rw_length (command_at m a) = cmd_field m a [Fld ''rw'', Fld ''length'']"
  "rw_control (command_at m a) = cmd_field m a [Fld ''rw'', Fld ''control'']"
  by (simp_all add: decode_simps rw_fields rw_slba_def rw_length_def rw_control_def)

lemma queue_decoded:
  "q_id (command_at m a) = cmd_field m a [Fld ''create_cq'', Fld ''cqid'']"
  "q_id (command_at m a) = cmd_field m a [Fld ''create_sq'', Fld ''sqid'']"
  "q_id (command_at m a) = cmd_field m a [Fld ''delete_queue'', Fld ''qid'']"
  "q_size (command_at m a) = cmd_field m a [Fld ''create_cq'', Fld ''qsize'']"
  "q_size (command_at m a) = cmd_field m a [Fld ''create_sq'', Fld ''qsize'']"
  "q_flags (command_at m a) = cmd_field m a [Fld ''create_cq'', Fld ''cq_flags'']"
  "q_vector (command_at m a) = cmd_field m a [Fld ''create_cq'', Fld ''irq_vector'']"
  "q_cqid (command_at m a) = cmd_field m a [Fld ''create_sq'', Fld ''cqid'']"
  by (simp_all add: decode_simps admin_fields q_id_def q_size_def q_flags_def q_vector_def q_cqid_def)

lemma admin_decoded:
  "cdw10 (command_at m a) = cmd_field m a [Fld ''identify'', Fld ''cns'']"
  "cdw10 (command_at m a) = cmd_field m a [Fld ''features'', Fld ''fid'']"
  "cdw11 (command_at m a) = cmd_field m a [Fld ''features'', Fld ''dword11'']"
  "log_lid (command_at m a) = cmd_field m a [Fld ''get_log_page'', Fld ''lid'']"
  "log_len (command_at m a) = u32 ((cmd_field m a [Fld ''get_log_page'', Fld ''numdu''] * 2 ^ 16 +
     cmd_field m a [Fld ''get_log_page'', Fld ''numdl''] + 1) mod 2 ^ 32 * 4)"
  by (simp_all add: decode_simps admin_fields log_lid_def log_len_def del: One_nat_def)

lemma zone_decoded:
  "rw_slba (command_at m a) = read_field struct_nvme_zone_mgmt_send a [Fld ''slba''] m"
  "zsend_zsa (command_at m a) = read_field struct_nvme_zone_mgmt_send a [Fld ''zsa''] m"
  "zsend_select_all (command_at m a) = (read_field struct_nvme_zone_mgmt_send a [Fld ''select_all''] m = 1)"
  "zsend_zsaso (command_at m a) = (read_field struct_nvme_zone_mgmt_send a [Fld ''zsaso''] m = 1)"
  "rw_slba (command_at m a) = read_field struct_nvme_zone_mgmt_recv a [Fld ''slba''] m"
  "zrecv_nr_dw (command_at m a) = read_field struct_nvme_zone_mgmt_recv a [Fld ''nr_dw''] m"
  "zrecv_zra (command_at m a) = read_field struct_nvme_zone_mgmt_recv a [Fld ''zra''] m"
  "zrecv_specific_field (command_at m a) = read_field struct_nvme_zone_mgmt_recv a [Fld ''zra_specific_field''] m"
  "zrecv_specific_features (command_at m a) = read_field struct_nvme_zone_mgmt_recv a [Fld ''zra_specific_features''] m"
  "rw_slba (command_at m a) = read_field struct_nvme_zone_append a [Fld ''slba''] m"
  "rw_length (command_at m a) = read_field struct_nvme_zone_append a [Fld ''nr_lba''] m"
  by (simp_all add: decode_simps zone_fields rw_slba_def rw_length_def zsend_zsa_def zsend_select_all_def zsend_zsaso_def
      zrecv_nr_dw_def zrecv_zra_def zrecv_specific_field_def zrecv_specific_features_def get_bits_def odd_iff_mod_2_eq_one mod_mod_cancel del: One_nat_def)

section \<open>The configuration space\<close>

lemma header_fields:
  "field_at struct_pci_header [Fld ''id'', Fld ''did''] = Some (16, U16)"
  "field_at struct_pci_header [Fld ''id'', Fld ''vid''] = Some (0, U16)"
  "field_at struct_pci_header [Fld ''cmd'', Fld ''mse''] = Some (33, CBits 1 1)"
  "field_at struct_pci_header [Fld ''sts'', Fld ''cl''] = Some (52, CBits 1 1)"
  "field_at struct_pci_header [Fld ''htype'', Fld ''mfd''] = Some (119, CBits 1 1)"
  "field_at struct_pci_header [Fld ''htype'', Fld ''hl''] = Some (112, CBits 1 7)"
  "field_at struct_pci_header [Fld ''rid''] = Some (64, U8)"
  "field_at struct_pci_header [Fld ''cc'', Fld ''bcc''] = Some (88, U8)"
  "field_at struct_pci_header [Fld ''cc'', Fld ''scc''] = Some (80, U8)"
  "field_at struct_pci_header [Fld ''cc'', Fld ''pi''] = Some (72, U8)"
  "field_at struct_pci_header [Fld ''mlbar'', Fld ''tp''] = Some (129, CBits 4 2)"
  "field_at struct_pci_header [Fld ''mlbar'', Fld ''ba''] = Some (142, CBits 4 18)"
  "field_at struct_pci_header [Fld ''mulbar''] = Some (160, U32)"
  "field_at struct_pci_header [Fld ''ss'', Fld ''ssid''] = Some (368, U16)"
  "field_at struct_pci_header [Fld ''ss'', Fld ''ssvid''] = Some (352, U16)"
  "field_at struct_pci_header [Fld ''erom''] = Some (384, U32)"
  "field_at struct_pci_header [Fld ''cap''] = Some (416, U8)"
  "field_at struct_pci_header [Fld ''intr'', Fld ''ipin''] = Some (488, U8)"
  "field_at struct_pci_header [Fld ''intr'', Fld ''iline''] = Some (480, U8)"
  by code_simp+

lemma pm_fields:
  "field_at struct_pci_pm_cap [Fld ''pid'', Fld ''cid''] = Some (0, U8)"
  "field_at struct_pci_pm_cap [Fld ''pid'', Fld ''next''] = Some (8, U8)"
  "field_at struct_pci_pm_cap [Fld ''pc'', Fld ''vs''] = Some (16, CBits 2 3)"
  "field_at struct_pci_pm_cap [Fld ''pmcs'', Fld ''nsfrst''] = Some (35, CBits 2 1)"
  "field_at struct_pci_pm_cap [Fld ''pmcs'', Fld ''ps''] = Some (32, CBits 2 2)"
  by code_simp+

lemma msix_fields:
  "field_at struct_pci_msix_cap [Fld ''mxid'', Fld ''cid''] = Some (0, U8)"
  "field_at struct_pci_msix_cap [Fld ''mxid'', Fld ''next''] = Some (8, U8)"
  "field_at struct_pci_msix_cap [Fld ''mxc'', Fld ''mxe''] = Some (31, CBits 2 1)"
  "field_at struct_pci_msix_cap [Fld ''mxc'', Fld ''ts''] = Some (16, CBits 2 11)"
  "field_at struct_pci_msix_cap [Fld ''mtab'', Fld ''tbir''] = Some (32, CBits 4 3)"
  "field_at struct_pci_msix_cap [Fld ''mtab'', Fld ''to''] = Some (35, CBits 4 29)"
  "field_at struct_pci_msix_cap [Fld ''mpba'', Fld ''pbao''] = Some (67, CBits 4 29)"
  "field_at struct_pci_msix_cap [Fld ''mpba'', Fld ''pbir''] = Some (64, CBits 4 3)"
  by code_simp+

lemma pcie_fields:
  "field_at struct_pcie_cap [Fld ''pxid'', Fld ''cid''] = Some (0, U8)"
  "field_at struct_pcie_cap [Fld ''pxid'', Fld ''next''] = Some (8, U8)"
  "field_at struct_pcie_cap [Fld ''pxcap'', Fld ''ver''] = Some (16, CBits 1 4)"
  "field_at struct_pcie_cap [Fld ''pxcap'', Fld ''imn''] = Some (25, CBits 1 5)"
  "field_at struct_pcie_cap [Fld ''pxcap'', Fld ''dpt''] = Some (20, CBits 1 4)"
  "field_at struct_pcie_cap [Fld ''pxdcap'', Fld ''mps''] = Some (32, CBits 4 3)"
  "field_at struct_pcie_cap [Fld ''pxdcap'', Fld ''pfs''] = Some (35, CBits 4 2)"
  "field_at struct_pcie_cap [Fld ''pxdcap'', Fld ''etfs''] = Some (37, CBits 4 1)"
  "field_at struct_pcie_cap [Fld ''pxdcap'', Fld ''l0sl''] = Some (38, CBits 4 3)"
  "field_at struct_pcie_cap [Fld ''pxdcap'', Fld ''l1l''] = Some (41, CBits 4 3)"
  "field_at struct_pcie_cap [Fld ''pxdcap'', Fld ''rer''] = Some (47, CBits 4 1)"
  "field_at struct_pcie_cap [Fld ''pxdcap'', Fld ''csplv''] = Some (50, CBits 4 8)"
  "field_at struct_pcie_cap [Fld ''pxdcap'', Fld ''cspls''] = Some (58, CBits 4 2)"
  "field_at struct_pcie_cap [Fld ''pxdcap'', Fld ''flrc''] = Some (60, CBits 4 1)"
  by code_simp+

lemma aer_fields:
  "field_at struct_aer_cap [Fld ''aerid'', Fld ''cid''] = Some (0, U16)"
  "field_at struct_aer_cap [Fld ''aerid'', Fld ''cver''] = Some (16, CBits 2 4)"
  "field_at struct_aer_cap [Fld ''aerid'', Fld ''next''] = Some (20, CBits 2 12)"
  by code_simp+

lemma exp_hdr_fields:
  "field_at struct_pci_exp_hdr [Fld ''id'', Fld ''cid''] = Some (0, U16)"
  "field_at struct_pci_exp_hdr [Fld ''id'', Fld ''cver''] = Some (16, CBits 2 4)"
  "field_at struct_pci_exp_hdr [Fld ''id'', Fld ''next''] = Some (20, CBits 2 12)"
  by code_simp+

lemmas assign_simps = assigns_def write_field_def Let_def

lemma header_members:
  "PCI_HEADER_SETTINGS R base_pa m =
     assigns struct_pci_header 0 [
       ([Fld ''id'', Fld ''did''], 0x0101), ([Fld ''id'', Fld ''vid''], 0x0c51), ([Fld ''cmd'', Fld ''mse''], 1),
       ([Fld ''sts'', Fld ''cl''], 1), ([Fld ''htype'', Fld ''mfd''], 0),
       ([Fld ''htype'', Fld ''hl''], PCI_HEADER_TYPE_NORMAL R), ([Fld ''rid''], 0x01),
       ([Fld ''cc'', Fld ''bcc''], PCI_BASE_CLASS_STORAGE R), ([Fld ''cc'', Fld ''scc''], 0x08),
       ([Fld ''cc'', Fld ''pi''], 0x02), ([Fld ''mlbar'', Fld ''tp''], PCI_BASE_ADDRESS_MEM_TYPE_64 R div 2),
       ([Fld ''mlbar'', Fld ''ba''], base_pa mod 2 ^ 32 div 2 ^ 14), ([Fld ''mulbar''], base_pa div 2 ^ 32),
       ([Fld ''ss'', Fld ''ssid''], 0x370d), ([Fld ''ss'', Fld ''ssvid''], 0x0c51), ([Fld ''erom''], 0),
       ([Fld ''cap''], OFFS_PCI_PM_CAP), ([Fld ''intr'', Fld ''ipin''], 0), ([Fld ''intr'', Fld ''iline''], 0)] m"
  by (simp add: PCI_HEADER_SETTINGS_def assign_simps header_fields del: One_nat_def)

lemma pm_members:
  "PCI_PMCAP_SETTINGS R m =
     assigns struct_pci_pm_cap OFFS_PCI_PM_CAP [
       ([Fld ''pid'', Fld ''cid''], PCI_CAP_ID_PM R), ([Fld ''pid'', Fld ''next''], OFFS_PCI_MSIX_CAP),
       ([Fld ''pc'', Fld ''vs''], 3), ([Fld ''pmcs'', Fld ''nsfrst''], 1),
       ([Fld ''pmcs'', Fld ''ps''], PCI_PM_CAP_PME_D0 R div 2 ^ 16)] m"
  by (simp add: PCI_PMCAP_SETTINGS_def assign_simps pm_fields del: One_nat_def)

lemma msix_members:
  "PCI_MSIXCAP_SETTINGS R m =
     assigns struct_pci_msix_cap OFFS_PCI_MSIX_CAP [
       ([Fld ''mxid'', Fld ''cid''], PCI_CAP_ID_MSIX R), ([Fld ''mxid'', Fld ''next''], OFFS_PCIE_CAP),
       ([Fld ''mxc'', Fld ''mxe''], 1), ([Fld ''mxc'', Fld ''ts''], 127), ([Fld ''mtab'', Fld ''tbir''], 0),
       ([Fld ''mtab'', Fld ''to''], 0x400), ([Fld ''mpba'', Fld ''pbao''], 0x1000), ([Fld ''mpba'', Fld ''pbir''], 0)] m"
  by (simp add: PCI_MSIXCAP_SETTINGS_def assign_simps msix_fields del: One_nat_def)

lemma pcie_members:
  "PCI_PCIECAP_SETTINGS R m =
     assigns struct_pcie_cap OFFS_PCIE_CAP [
       ([Fld ''pxid'', Fld ''cid''], PCI_CAP_ID_EXP R), ([Fld ''pxid'', Fld ''next''], 0),
       ([Fld ''pxcap'', Fld ''ver''], PCI_EXP_FLAGS R), ([Fld ''pxcap'', Fld ''imn''], 0),
       ([Fld ''pxcap'', Fld ''dpt''], PCI_EXP_TYPE_ENDPOINT R), ([Fld ''pxdcap'', Fld ''mps''], 1),
       ([Fld ''pxdcap'', Fld ''pfs''], 0), ([Fld ''pxdcap'', Fld ''etfs''], 1), ([Fld ''pxdcap'', Fld ''l0sl''], 6),
       ([Fld ''pxdcap'', Fld ''l1l''], 2), ([Fld ''pxdcap'', Fld ''rer''], 1), ([Fld ''pxdcap'', Fld ''csplv''], 0),
       ([Fld ''pxdcap'', Fld ''cspls''], 0), ([Fld ''pxdcap'', Fld ''flrc''], 1)] m"
  by (simp add: PCI_PCIECAP_SETTINGS_def assign_simps pcie_fields del: One_nat_def)

lemma aer_members:
  "PCI_AERCAP_SETTINGS R m =
     assigns struct_aer_cap PCI_CFG_SPACE_SIZE [
       ([Fld ''aerid'', Fld ''cid''], PCI_EXT_CAP_ID_ERR R), ([Fld ''aerid'', Fld ''cver''], 1),
       ([Fld ''aerid'', Fld ''next''], PCI_CFG_SPACE_SIZE + 0x50)] m"
  by (simp add: PCI_AERCAP_SETTINGS_def put_ext_def assign_simps aer_fields del: One_nat_def)

lemma exp_hdr_members:
  "put_ext a cid nx m =
     assigns struct_pci_exp_hdr a [
       ([Fld ''id'', Fld ''cid''], cid), ([Fld ''id'', Fld ''cver''], 1), ([Fld ''id'', Fld ''next''], nx)] m"
  by (simp add: put_ext_def assign_simps exp_hdr_fields del: One_nat_def)

section \<open>Registers\<close>

lemma register_fields:
  "field_at struct_nvme_ctrl_regs [Fld ''u_cap''] = Some (0, U64)"
  "field_at struct_nvme_ctrl_regs [Fld ''cap'', Fld ''mqes''] = Some (0, U16)"
  "field_at struct_nvme_ctrl_regs [Fld ''cap'', Fld ''to''] = Some (24, CBits 2 8)"
  "field_at struct_nvme_ctrl_regs [Fld ''cap'', Fld ''dstrd''] = Some (32, CBits 2 4)"
  "field_at struct_nvme_ctrl_regs [Fld ''cap'', Fld ''nssrs''] = Some (36, CBits 2 1)"
  "field_at struct_nvme_ctrl_regs [Fld ''cap'', Fld ''css''] = Some (37, CBits 2 8)"
  "field_at struct_nvme_ctrl_regs [Fld ''cap'', Fld ''mpsmin''] = Some (48, CBits 2 4)"
  "field_at struct_nvme_ctrl_regs [Fld ''cap'', Fld ''mpsmax''] = Some (52, CBits 2 4)"
  "field_at struct_nvme_ctrl_regs [Fld ''u_vs''] = Some (64, U32)"
  "field_at struct_nvme_ctrl_regs [Fld ''vs'', Fld ''mnr''] = Some (72, U8)"
  "field_at struct_nvme_ctrl_regs [Fld ''vs'', Fld ''mjr''] = Some (80, U16)"
  "field_at struct_nvme_ctrl_regs [Fld ''u_cc''] = Some (160, U32)"
  "field_at struct_nvme_ctrl_regs [Fld ''cc'', Fld ''en''] = Some (160, CBits 2 1)"
  "field_at struct_nvme_ctrl_regs [Fld ''cc'', Fld ''shn''] = Some (174, CBits 2 2)"
  "field_at struct_nvme_ctrl_regs [Fld ''csts'', Fld ''rdy''] = Some (224, CBits 4 1)"
  "field_at struct_nvme_ctrl_regs [Fld ''csts'', Fld ''shst''] = Some (226, CBits 4 2)"
  "field_at struct_nvme_ctrl_regs [Fld ''u_aqa''] = Some (288, U32)"
  "field_at struct_nvme_ctrl_regs [Fld ''aqa'', Fld ''asqs''] = Some (288, CBits 4 12)"
  "field_at struct_nvme_ctrl_regs [Fld ''aqa'', Fld ''acqs''] = Some (304, CBits 4 12)"
  "field_at struct_nvme_ctrl_regs [Fld ''u_asq''] = Some (320, U64)"
  "field_at struct_nvme_ctrl_regs [Fld ''u_acq''] = Some (384, U64)"
  by code_simp+

text \<open>The old values, by which the dispatcher finds out what the host wrote, are kept in a plain structure with the same
  registers at the same places.\<close>

definition register_names :: "(string \<times> string) list" where
  "register_names = [(''cap'', ''u_cap''), (''vs'', ''u_vs''), (''intms'', ''intms''), (''intmc'', ''intmc''), (''cc'', ''u_cc''),
     (''rsvd1'', ''rsvd1''), (''csts'', ''u_csts''), (''nssr'', ''nssr''), (''aqa'', ''u_aqa''), (''asq'', ''u_asq''), (''acq'', ''u_acq''),
     (''cmbloc'', ''u_cmbloc''), (''cmbsz'', ''u_cmbsz'')]"

lemma old_registers_agree:
  "list_all (\<lambda>(f, g). field_at struct___nvme_bar [Fld f] \<noteq> None \<and> field_at struct___nvme_bar [Fld f] = field_at struct_nvme_ctrl_regs [Fld g] \<and>
     field_at struct_nvme_bar [Fld f] = field_at struct_nvme_ctrl_regs [Fld g]) register_names \<and>
   size_of struct___nvme_bar = size_of struct_nvme_ctrl_regs"
  by code_simp

text \<open>The register block as \<open>Device\<close> keeps it.\<close>

definition regs_at :: "bytes \<Rightarrow> nat \<Rightarrow> nvme_ctrl_regs" where
  "regs_at m a = (let rd = (\<lambda>ss. read_field struct_nvme_ctrl_regs a ss m) in
     \<lparr> u_aqa = rd [Fld ''u_aqa''], u_asq = rd [Fld ''u_asq''], u_acq = rd [Fld ''u_acq''], u_cc = rd [Fld ''u_cc''],
       csts_rdy = (rd [Fld ''csts'', Fld ''rdy''] = 1), csts_shst = rd [Fld ''csts'', Fld ''shst''] \<rparr>)"

text \<open>The masks of \<open>nvme.h\<close> for the same registers.\<close>

definition NVME_CAP_MQES :: "nat \<Rightarrow> nat" where "NVME_CAP_MQES cap = cap AND 0xffff"
definition NVME_CAP_TIMEOUT :: "nat \<Rightarrow> nat" where "NVME_CAP_TIMEOUT cap = drop_bit 24 cap AND 0xff"
definition NVME_CAP_STRIDE :: "nat \<Rightarrow> nat" where "NVME_CAP_STRIDE cap = drop_bit 32 cap AND 0xf"
definition NVME_CAP_NSSRC :: "nat \<Rightarrow> nat" where "NVME_CAP_NSSRC cap = drop_bit 36 cap AND 0x1"
definition NVME_CAP_MPSMIN :: "nat \<Rightarrow> nat" where "NVME_CAP_MPSMIN cap = drop_bit 48 cap AND 0xf"
definition NVME_CAP_MPSMAX :: "nat \<Rightarrow> nat" where "NVME_CAP_MPSMAX cap = drop_bit 52 cap AND 0xf"

lemma and_masks:
  fixes x :: nat
  shows "x AND 0xffff = x mod 2 ^ 16" "x AND 0xff = x mod 2 ^ 8" "x AND 0xf = x mod 2 ^ 4" "x AND 1 = x mod 2"
  using take_bit_eq_mask [of 16 x] take_bit_eq_mask [of 8 x] take_bit_eq_mask [of 4 x] take_bit_eq_mask [of 1 x]
  by (simp_all add: mask_eq_exp_minus_1 take_bit_eq_mod)

abbreviation reg :: "bytes \<Rightarrow> nat \<Rightarrow> sel list \<Rightarrow> nat" where
  "reg m a ss \<equiv> read_field struct_nvme_ctrl_regs a ss m"

lemma masks_agree:
  "NVME_CAP_MQES (reg m a [Fld ''u_cap'']) = reg m a [Fld ''cap'', Fld ''mqes'']"
  "NVME_CAP_TIMEOUT (reg m a [Fld ''u_cap'']) = reg m a [Fld ''cap'', Fld ''to'']"
  "NVME_CAP_STRIDE (reg m a [Fld ''u_cap'']) = reg m a [Fld ''cap'', Fld ''dstrd'']"
  "NVME_CAP_NSSRC (reg m a [Fld ''u_cap'']) = reg m a [Fld ''cap'', Fld ''nssrs'']"
  "NVME_CAP_MPSMIN (reg m a [Fld ''u_cap'']) = reg m a [Fld ''cap'', Fld ''mpsmin'']"
  "NVME_CAP_MPSMAX (reg m a [Fld ''u_cap'']) = reg m a [Fld ''cap'', Fld ''mpsmax'']"
proof -
  note defs = read_field_def register_fields drop_bit_eq_div and_masks
  show "NVME_CAP_MQES (reg m a [Fld ''u_cap'']) = reg m a [Fld ''cap'', Fld ''mqes'']"
    using load_part [of 0 2 8 a a m] by (simp add: NVME_CAP_MQES_def defs)
  show "NVME_CAP_TIMEOUT (reg m a [Fld ''u_cap'']) = reg m a [Fld ''cap'', Fld ''to'']"
    using get_bits_part [of 2 2 8 8 8 "a + 2" a 24 m] by (simp add: NVME_CAP_TIMEOUT_def defs)
  show "NVME_CAP_STRIDE (reg m a [Fld ''u_cap'']) = reg m a [Fld ''cap'', Fld ''dstrd'']"
    using get_bits_part [of 4 2 8 0 4 "a + 4" a 32 m] by (simp add: NVME_CAP_STRIDE_def defs)
  show "NVME_CAP_NSSRC (reg m a [Fld ''u_cap'']) = reg m a [Fld ''cap'', Fld ''nssrs'']"
    using get_bits_part [of 4 2 8 4 1 "a + 4" a 36 m] by (simp add: NVME_CAP_NSSRC_def defs)
  show "NVME_CAP_MPSMIN (reg m a [Fld ''u_cap'']) = reg m a [Fld ''cap'', Fld ''mpsmin'']"
    using get_bits_part [of 6 2 8 0 4 "a + 6" a 48 m] by (simp add: NVME_CAP_MPSMIN_def defs)
  show "NVME_CAP_MPSMAX (reg m a [Fld ''u_cap'']) = reg m a [Fld ''cap'', Fld ''mpsmax'']"
    using get_bits_part [of 6 2 8 4 4 "a + 6" a 52 m] by (simp add: NVME_CAP_MPSMAX_def defs)
qed

lemma registers_decoded:
  "cc_en (regs_at m a) = (reg m a [Fld ''cc'', Fld ''en''] = 1)"
  "cc_shn (regs_at m a) = reg m a [Fld ''cc'', Fld ''shn'']"
  "aqa_asqs (regs_at m a) = reg m a [Fld ''aqa'', Fld ''asqs'']"
  "aqa_acqs (regs_at m a) = reg m a [Fld ''aqa'', Fld ''acqs'']"
proof -
  note defs = regs_at_def read_field_def register_fields Let_def
  show "cc_en (regs_at m a) = (reg m a [Fld ''cc'', Fld ''en''] = 1)"
    using get_bits_part [of 0 2 4 0 1 "a + 20" "a + 20" 0 m] by (simp add: cc_en_def defs odd_iff_mod_2_eq_one)
  show "cc_shn (regs_at m a) = reg m a [Fld ''cc'', Fld ''shn'']"
    using get_bits_part [of 0 2 4 14 2 "a + 20" "a + 20" 14 m] by (simp add: cc_shn_def defs)
  show "aqa_asqs (regs_at m a) = reg m a [Fld ''aqa'', Fld ''asqs'']" "aqa_acqs (regs_at m a) = reg m a [Fld ''aqa'', Fld ''acqs'']"
    by (simp_all add: aqa_asqs_def aqa_acqs_def defs get_bits_def)
qed

text \<open>What \<open>__create_pci_bus\<close> writes into the registers and the doorbells behind them.\<close>

definition CAP_CSS_BIT_SPECIFIC :: nat where "CAP_CSS_BIT_SPECIFIC = 2 ^ 6"

definition init_bar :: "bool \<Rightarrow> nat \<Rightarrow> bytes \<Rightarrow> bytes" where
  "init_bar zns a m =
     (let m = memset a 0 (PAGE_SIZE * 2) m;
          m = write_field struct_nvme_ctrl_regs a [Fld ''vs'', Fld ''mjr''] 1 m;
          m = write_field struct_nvme_ctrl_regs a [Fld ''vs'', Fld ''mnr''] 0 m;
          m = write_field struct_nvme_ctrl_regs a [Fld ''cap'', Fld ''mpsmin''] 0 m;
          m = write_field struct_nvme_ctrl_regs a [Fld ''cap'', Fld ''mqes''] (1024 - 1) m
      in if zns then write_field struct_nvme_ctrl_regs a [Fld ''cap'', Fld ''css''] CAP_CSS_BIT_SPECIFIC m else m)"

lemma regs_wf [simp]: "wf_ctype struct_nvme_ctrl_regs" "\<not> is_bits struct_nvme_ctrl_regs"
  by code_simp+

lemma init_bar_bytes:
  "init_bar zns a m =
     (let m = store 2 a 1023 (set_bits 2 0 4 (a + 6) 0 (store 1 (a + 9) 0 (store 2 (a + 10) 1 (memset a 0 8192 m))))
      in if zns then set_bits 2 5 8 (a + 4) 64 m else m)"
  by (simp add: init_bar_def write_field_def register_fields CAP_CSS_BIT_SPECIFIC_def PAGE_SIZE_def Let_def del: One_nat_def)

lemma init_bar_loads:
  "load 2 (init_bar zns a m) a = 1023" "load 2 (init_bar zns a m) (a + 2) = 0"
  "load 2 (init_bar zns a m) (a + 4) = (if zns then 2048 else 0)" "load 2 (init_bar zns a m) (a + 6) = 0"
  "load 1 (init_bar zns a m) (a + 8) = 0" "load 1 (init_bar zns a m) (a + 9) = 0" "load 2 (init_bar zns a m) (a + 10) = 1"
  "a + 12 \<le> b \<Longrightarrow> b + n \<le> a + 8192 \<Longrightarrow> load n (init_bar zns a m) b = 0"
  by (simp_all add: init_bar_bytes Let_def set_bits_load)

lemma init_bar_registers:
  "reg (init_bar zns a m) a [Fld ''u_vs''] = 2 ^ 16"
  "reg (init_bar zns a m) a [Fld ''u_cap''] = 1023 + (if zns then 2 ^ 43 else 0)"
  "regs_at (init_bar zns a m) a = \<lparr> u_aqa = 0, u_asq = 0, u_acq = 0, u_cc = 0, csts_rdy = False, csts_shst = 0 \<rparr>"
  "a + PAGE_SIZE \<le> b \<Longrightarrow> b + 4 \<le> a + 2 * PAGE_SIZE \<Longrightarrow> load 4 (init_bar zns a m) b = 0"
proof -
  note l = init_bar_loads [where zns = zns and a = a and m = m] and rd = read_field_def register_fields
  show "reg (init_bar zns a m) a [Fld ''u_vs''] = 2 ^ 16"
    using load_pair [of "a + 10" "a + 8" 2 4 2 "init_bar zns a m"] load_pair [of "a + 9" "a + 8" 1 2 1 "init_bar zns a m"] l(5-7)
    by (simp add: rd)
  show "reg (init_bar zns a m) a [Fld ''u_cap''] = 1023 + (if zns then 2 ^ 43 else 0)"
  proof -
    let ?m = "init_bar zns a m"
    have "load 4 ?m a = load 2 ?m a + 256 ^ 2 * load 2 ?m (a + 2)" by (rule load_pair) simp_all
    then have lo: "load 4 ?m a = 1023" unfolding l(1,2) by simp
    have "load 4 ?m (a + 4) = load 2 ?m (a + 4) + 256 ^ 2 * load 2 ?m (a + 6)" by (rule load_pair) simp_all
    then have hi: "load 4 ?m (a + 4) = (if zns then 2048 else 0)" unfolding l(3,4) by simp
    have "load 8 ?m a = load 4 ?m a + 256 ^ 4 * load 4 ?m (a + 4)" by (rule load_pair) simp_all
    then show ?thesis unfolding lo hi by (simp add: rd)
  qed
  show "regs_at (init_bar zns a m) a = \<lparr> u_aqa = 0, u_asq = 0, u_acq = 0, u_cc = 0, csts_rdy = False, csts_shst = 0 \<rparr>"
    by (simp add: regs_at_def rd get_bits_def l Let_def)
  show "load 4 (init_bar zns a m) b = 0" if "a + PAGE_SIZE \<le> b" "b + 4 \<le> a + 2 * PAGE_SIZE"
    by (rule l(8)) (use that in \<open>simp_all add: PAGE_SIZE_def\<close>)
qed

section \<open>Identify pages and logs\<close>

lemma id_ctrl_fields:
  "field_at struct_nvme_id_ctrl [Fld ''sn''] = Some (32, CArr 20 U8)"
  "field_at struct_nvme_id_ctrl [Fld ''mn''] = Some (192, CArr 40 U8)"
  "field_at struct_nvme_id_ctrl [Fld ''fr''] = Some (512, CArr 8 U8)"
  "field_at struct_nvme_id_ctrl [Fld ''mdts''] = Some (616, U8)"
  "field_at struct_nvme_id_ctrl [Fld ''acl''] = Some (2064, U8)"
  "field_at struct_nvme_id_ctrl [Fld ''sqes''] = Some (4096, U8)"
  "field_at struct_nvme_id_ctrl [Fld ''cqes''] = Some (4104, U8)"
  "field_at struct_nvme_id_ctrl [Fld ''nn''] = Some (4128, U32)"
  "field_at struct_nvme_id_ctrl [Fld ''oncs''] = Some (4160, U16)"
  "field_at struct_nvme_id_ctrl [Fld ''vwc''] = Some (4200, U8)"
  by code_simp+

lemma id_ns_fields_at:
  "field_at struct_nvme_id_ns [Fld ''nsze''] = Some (0, U64)"
  "field_at struct_nvme_id_ns [Fld ''ncap''] = Some (64, U64)"
  "field_at struct_nvme_id_ns [Fld ''nuse''] = Some (128, U64)"
  "field_at struct_nvme_id_ns [Fld ''nlbaf''] = Some (200, U8)"
  "field_at struct_nvme_id_ns [Fld ''flbas''] = Some (208, U8)"
  "field_at struct_nvme_id_ns [Fld ''dps''] = Some (232, U8)"
  "field_at struct_nvme_id_ns [Fld ''lbaf''] = Some (1024, CArr 16 (CStruct [(''ms'', U16), (''ds'', U8), (''rp'', U8)]))"
  by code_simp+

lemma id_zns_fields:
  "field_at struct_nvme_id_zns_ns [Fld ''zoc''] = Some (0, U16)"
  "field_at struct_nvme_id_zns_ns [Fld ''ozcs''] = Some (16, U16)"
  "field_at struct_nvme_id_zns_ns [Fld ''mar''] = Some (32, U32)"
  "field_at struct_nvme_id_zns_ns [Fld ''mor''] = Some (64, U32)"
  "field_at struct_nvme_id_zns_ns [Fld ''numzrwa''] = Some (352, U32)"
  "field_at struct_nvme_id_zns_ns [Fld ''zrwafg''] = Some (384, U16)"
  "field_at struct_nvme_id_zns_ns [Fld ''zrwasz''] = Some (400, U16)"
  "field_at struct_nvme_id_zns_ns [Fld ''zrwacap''] = Some (416, U8)"
  "field_at struct_nvme_id_zns_ns [Fld ''lbaf'', Idx 0, Fld ''zsze''] = Some (22528, U64)"
  "field_at struct_nvme_id_zns_ns [Fld ''lbaf'', Idx 0, Fld ''zdes''] = Some (22592, U8)"
  by code_simp+

lemma id_desc_fields:
  "field_at struct_nvme_id_ns_desc [Fld ''nidt''] = Some (0, U8)"
  "field_at struct_nvme_id_ns_desc [Fld ''nidl''] = Some (8, U8)"
  "field_at struct_nvme_id_ns_desc [Fld ''nid'', Idx 0] = Some (32, U8)"
  "field_at struct_nvme_smart_log [Fld ''spare_thresh''] = Some (32, U8)"
  "field_at struct_nvme_effects_log [Fld ''acs''] = Some (0, CArr 256 U32)"
  "field_at struct_nvme_effects_log [Fld ''iocs''] = Some (8192, CArr 256 U32)"
  by code_simp+

text \<open>An element of an array member.\<close>

lemma field_at_append:
  "field_at t (ss @ ss') = do { (p, u) \<leftarrow> field_at t ss; (q, v) \<leftarrow> field_at u ss'; Some (p + q, v) }"
  by (induction ss arbitrary: t) (auto simp: field_at.simps bind_assoc split: sel.splits ctype.splits Option.bind_splits)

lemma field_at_elem:
  assumes "field_at t [Fld f] = Some (p, CArr k u)" and "i < k" and "field_at u ss = Some (q, v)"
  shows "field_at t (Fld f # Idx i # ss) = Some (p + (i * bits_of u + q), v)"
  using field_at_append [of t "[Fld f]" "Idx i # ss"] assms by (simp add: field_at.simps(2) [of "CArr k u"])

lemma lbaf_entry:
  "bits_of (CStruct [(''ms'', U16), (''ds'', U8), (''rp'', U8)]) = 32"
  "field_at (CStruct [(''ms'', U16), (''ds'', U8), (''rp'', U8)]) [Fld ''ms''] = Some (0, U16)"
  "field_at (CStruct [(''ms'', U16), (''ds'', U8), (''rp'', U8)]) [Fld ''ds''] = Some (16, U8)"
  "field_at (CStruct [(''ms'', U16), (''ds'', U8), (''rp'', U8)]) [Fld ''rp''] = Some (24, U8)"
  by code_simp+

lemma lbaf_fields:
  assumes "i < 16"
  shows "field_at struct_nvme_id_ns [Fld ''lbaf'', Idx i, Fld ''ms''] = Some (1024 + 32 * i, U16)"
    and "field_at struct_nvme_id_ns [Fld ''lbaf'', Idx i, Fld ''ds''] = Some (1040 + 32 * i, U8)"
    and "field_at struct_nvme_id_ns [Fld ''lbaf'', Idx i, Fld ''rp''] = Some (1048 + 32 * i, U8)"
  using field_at_elem [OF id_ns_fields_at(7) assms lbaf_entry(2)] field_at_elem [OF id_ns_fields_at(7) assms lbaf_entry(3)]
    field_at_elem [OF id_ns_fields_at(7) assms lbaf_entry(4)] by (simp_all add: lbaf_entry(1) del: One_nat_def bits_of.simps)

lemma effects_fields:
  assumes "i < 256"
  shows "field_at struct_nvme_effects_log [Fld ''acs'', Idx i] = Some (32 * i, U32)"
    and "field_at struct_nvme_effects_log [Fld ''iocs'', Idx i] = Some (8192 + 32 * i, U32)"
  using field_at_elem [OF id_desc_fields(5) assms field_at.simps(1)] field_at_elem [OF id_desc_fields(6) assms field_at.simps(1)]
  by simp_all

definition member_addr :: "ctype \<Rightarrow> nat \<Rightarrow> sel list \<Rightarrow> nat" where
  "member_addr t a ss = (case field_at t ss of Some (p, u) \<Rightarrow> a + p div 8 | None \<Rightarrow> 0)"

lemma id_ctrl_members:
  "id_ctrl nn md a m =
     assigns struct_nvme_id_ctrl a [([Fld ''mdts''], md), ([Fld ''sqes''], 0x66), ([Fld ''cqes''], 0x44)]
       (put_bytes (member_addr struct_nvme_id_ctrl a [Fld ''fr'']) (c_string ''CSL_002'')
          (put_bytes (member_addr struct_nvme_id_ctrl a [Fld ''mn'']) (c_string ''CSL_Virt_MN_01'')
             (put_bytes (member_addr struct_nvme_id_ctrl a [Fld ''sn'']) (c_string ''CSL_Virt_SN_01'')
                (assigns struct_nvme_id_ctrl a [([Fld ''nn''], nn), ([Fld ''oncs''], 0), ([Fld ''acl''], 3), ([Fld ''vwc''], 0)]
                   (memset a 0 (size_of struct_nvme_id_ctrl) m)))))"
  by (simp add: id_ctrl_def assigns_def write_field_def member_addr_def id_ctrl_fields page_sizes Let_def del: One_nat_def)

lemma id_ctrl_strings_fit:
  "length (c_string ''CSL_002'') = 8" "length (c_string ''CSL_Virt_MN_01'') \<le> 40" "length (c_string ''CSL_Virt_SN_01'') \<le> 20"
  by (simp_all add: c_string_def)

lemma put_lbaf_members:
  "i < 16 \<Longrightarrow> put_lbaf a (i, ms, ds, rp) m =
     assigns struct_nvme_id_ns a [([Fld ''lbaf'', Idx i, Fld ''ms''], ms), ([Fld ''lbaf'', Idx i, Fld ''ds''], ds), ([Fld ''lbaf'', Idx i, Fld ''rp''], rp)] m"
proof -
  assume i: "i < 16"
  have "a + (1024 + 32 * i) div 8 = lbaf_at a i" "a + (1040 + 32 * i) div 8 = lbaf_at a i + 2" "a + (1048 + 32 * i) div 8 = lbaf_at a i + 3"
    unfolding lbaf_at_def by linarith+
  then show ?thesis
    by (simp only: put_lbaf_def assigns_def write_field_def lbaf_fields [OF i] fold_simps prod.case option.case ctype.case)
qed

lemma id_ns_desc_members:
  "id_ns_desc csi a m = assigns struct_nvme_id_ns_desc a [([Fld ''nidt''], NVME_NIDT_CSI), ([Fld ''nidl''], 1), ([Fld ''nid'', Idx 0], csi_code csi)]
     (memset a 0 (size_of struct_nvme_id_ns_desc) m)"
  by (simp add: id_ns_desc_def assigns_def write_field_def id_desc_fields page_sizes del: One_nat_def)

lemma id_zns_ns_members:
  "id_zns_ns z a m =
     (let wr = assigns struct_nvme_id_zns_ns a;
          m = wr [([Fld ''zoc''], 0), ([Fld ''ozcs''], 0), ([Fld ''mar''], sub32 (nr_active_zones z) 1), ([Fld ''mor''], sub32 (nr_open_zones z) 1)]
                (memset a 0 (size_of struct_nvme_id_zns_ns) m);
          m = (if 0 < nr_zrwa_zones z then
                 wr [([Fld ''ozcs''], OZCS_ZRWA), ([Fld ''numzrwa''], sub32 (nr_zrwa_zones z) 1), ([Fld ''zrwafg''], zrwafg_size z),
                   ([Fld ''zrwasz''], zrwa_size z), ([Fld ''zrwacap''], ZRWACAP_EXPFLUSHSUP)] m
               else m)
      in wr [([Fld ''lbaf'', Idx 0, Fld ''zsze''], BYTE_TO_LBA (zone_size z)), ([Fld ''lbaf'', Idx 0, Fld ''zdes''], 0)] m)"
  by (simp add: id_zns_ns_def assigns_def write_field_def id_zns_fields page_sizes Let_def del: One_nat_def)

lemma smart_log_members: "smart_log = write_field struct_nvme_smart_log 0 [Fld ''spare_thresh''] 20 (\<lambda>_. 0)"
  by (simp add: smart_log_def write_field_def id_desc_fields del: One_nat_def)

lemma effects_log_members:
  "effects_log zns =
     (let wr = (\<lambda>f op v. write_field struct_nvme_effects_log 0 [Fld f, Idx op] v);
          m = fold (\<lambda>op. wr ''acs'' op 1) [nvme_admin_get_log_page, nvme_admin_identify, nvme_admin_set_features,
                nvme_admin_get_features, nvme_admin_async_event] (\<lambda>_. 0)
      in if zns then wr ''iocs'' nvme_cmd_zone_mgmt_recv 1 (wr ''iocs'' nvme_cmd_zone_mgmt_send 3 (wr ''iocs'' nvme_cmd_zone_append 1 m)) else m)"
  by (simp add: effects_log_def write_field_def effects_fields nvme_admin_get_log_page_def nvme_admin_identify_def nvme_admin_set_features_def
      nvme_admin_get_features_def nvme_admin_async_event_def nvme_cmd_zone_mgmt_recv_def nvme_cmd_zone_mgmt_send_def nvme_cmd_zone_append_def
      Let_def del: One_nat_def)

section \<open>The models read and write the declared members\<close>

text \<open>Two declarations do not fit the registers they stand for: the control register has 17 bits in a 16-bit unit, and
  a field of 20 bits in the link capabilities does not fit the rest of its word.\<close>

lemma pcie_cap_displaced:
  "field_at struct_pcie_cap [Fld ''pxdc'', Fld ''iflr''] = Some (80, CBits 2 1)"
  "field_at struct_pcie_cap [Fld ''pxds'', Fld ''ced''] = Some (96, CBits 2 1)"
  "field_at struct_pcie_cap [Fld ''pxlcap'', Fld ''dllla''] = Some (160, CBits 4 20)"
  "size_of struct_pcie_cap = 36"
  by code_simp+

text \<open>C32: What the models take from the bytes of a command is what the members of the union \<open>nvme_command\<close> and of the
  zone commands name. The opcode and the identifier are those of all twelve variants. The namespace is the member of
  that name of the seven variants that have one, the first page pointer that of the nine and the second that of the
  seven that have it. The identify selector and the feature are read from the first command word, the feature value from the second; the start block, length
  and control word of a transfer, the queue, size, flags, vector and completion queue of the queue commands, the log
  page and its length, the zone actions with their flags and the first block and length of an append are read from
  the members of these names. A completion is read back from its members.\<close>

theorem command_members:
  "command_at m a = \<lparr> opcode = cmd_field m a [Fld ''common'', Fld ''opcode''], command_id = cmd_field m a [Fld ''common'', Fld ''command_id''],
     nsid = cmd_field m a [Fld ''common'', Fld ''nsid''], prp1 = cmd_field m a [Fld ''rw'', Fld ''prp1''],
     prp2 = cmd_field m a [Fld ''rw'', Fld ''prp2''], cdw10 = cmd_field m a [Fld ''common'', Fld ''cdw10'', Idx 0],
     cdw11 = cmd_field m a [Fld ''features'', Fld ''dword11''], cdw12 = cmd_field m a [Fld ''common'', Fld ''cdw10'', Idx 2],
     cdw13 = cmd_field m a [Fld ''common'', Fld ''cdw10'', Idx 3] \<rparr> \<and>
   list_all (\<lambda>c. cmd_field m a [Fld c, Fld ''opcode''] = opcode (command_at m a) \<and>
      cmd_field m a [Fld c, Fld ''command_id''] = command_id (command_at m a)) command_names \<and>
   list_all (\<lambda>c. cmd_field m a [Fld c, Fld ''nsid''] = nsid (command_at m a)) [''common'', ''rw'', ''get_log_page'', ''identify'', ''features'', ''format'', ''dsm''] \<and>
   list_all (\<lambda>c. cmd_field m a [Fld c, Fld ''prp1''] = prp1 (command_at m a))
     [''common'', ''rw'', ''get_log_page'', ''identify'', ''features'', ''create_cq'', ''create_sq'', ''dlfw'', ''dsm''] \<and>
   list_all (\<lambda>c. cmd_field m a [Fld c, Fld ''prp2''] = prp2 (command_at m a))
     [''common'', ''rw'', ''get_log_page'', ''identify'', ''features'', ''dlfw'', ''dsm''] \<and>
   cdw10 (command_at m a) = cmd_field m a [Fld ''identify'', Fld ''cns''] \<and>
   cdw10 (command_at m a) = cmd_field m a [Fld ''features'', Fld ''fid''] \<and>
   cdw10 (command_at m a) = cmd_field m a [Fld ''format'', Fld ''cdw10''] \<and>
   rw_slba (command_at m a) = cmd_field m a [Fld ''rw'', Fld ''slba''] \<and>
   rw_length (command_at m a) = cmd_field m a [Fld ''rw'', Fld ''length''] \<and>
   rw_control (command_at m a) = cmd_field m a [Fld ''rw'', Fld ''control''] \<and>
   q_id (command_at m a) = cmd_field m a [Fld ''create_cq'', Fld ''cqid''] \<and>
   q_id (command_at m a) = cmd_field m a [Fld ''create_sq'', Fld ''sqid''] \<and>
   q_id (command_at m a) = cmd_field m a [Fld ''delete_queue'', Fld ''qid''] \<and>
   q_size (command_at m a) = cmd_field m a [Fld ''create_cq'', Fld ''qsize''] \<and>
   q_size (command_at m a) = cmd_field m a [Fld ''create_sq'', Fld ''qsize''] \<and>
   q_flags (command_at m a) = cmd_field m a [Fld ''create_cq'', Fld ''cq_flags''] \<and>
   q_vector (command_at m a) = cmd_field m a [Fld ''create_cq'', Fld ''irq_vector''] \<and>
   q_cqid (command_at m a) = cmd_field m a [Fld ''create_sq'', Fld ''cqid''] \<and>
   log_lid (command_at m a) = cmd_field m a [Fld ''get_log_page'', Fld ''lid''] \<and>
   log_len (command_at m a) = u32 ((cmd_field m a [Fld ''get_log_page'', Fld ''numdu''] * 2 ^ 16 +
     cmd_field m a [Fld ''get_log_page'', Fld ''numdl''] + 1) mod 2 ^ 32 * 4) \<and>
   zsend_zsa (command_at m a) = read_field struct_nvme_zone_mgmt_send a [Fld ''zsa''] m \<and>
   zsend_select_all (command_at m a) = (read_field struct_nvme_zone_mgmt_send a [Fld ''select_all''] m = 1) \<and>
   zsend_zsaso (command_at m a) = (read_field struct_nvme_zone_mgmt_send a [Fld ''zsaso''] m = 1) \<and>
   zrecv_nr_dw (command_at m a) = read_field struct_nvme_zone_mgmt_recv a [Fld ''nr_dw''] m \<and>
   zrecv_zra (command_at m a) = read_field struct_nvme_zone_mgmt_recv a [Fld ''zra''] m \<and>
   rw_slba (command_at m a) = read_field struct_nvme_zone_append a [Fld ''slba''] m \<and>
   rw_length (command_at m a) = read_field struct_nvme_zone_append a [Fld ''nr_lba''] m \<and>
   completion_at m a = (let rd = (\<lambda>f. read_field struct_nvme_completion a [Fld f] m) in
     \<lparr> c_result0 = rd ''result0'', c_result1 = rd ''result1'', c_sq_head = rd ''sq_head'', c_sq_id = rd ''sq_id'',
       c_command_id = rd ''command_id'', c_status = rd ''status'' \<rparr>)"
proof -
  have cmd: "command_at m a = \<lparr> opcode = cmd_field m a [Fld ''common'', Fld ''opcode''], command_id = cmd_field m a [Fld ''common'', Fld ''command_id''],
     nsid = cmd_field m a [Fld ''common'', Fld ''nsid''], prp1 = cmd_field m a [Fld ''rw'', Fld ''prp1''],
     prp2 = cmd_field m a [Fld ''rw'', Fld ''prp2''], cdw10 = cmd_field m a [Fld ''common'', Fld ''cdw10'', Idx 0],
     cdw11 = cmd_field m a [Fld ''features'', Fld ''dword11''], cdw12 = cmd_field m a [Fld ''common'', Fld ''cdw10'', Idx 2],
     cdw13 = cmd_field m a [Fld ''common'', Fld ''cdw10'', Idx 3] \<rparr>"
    by (simp add: decode_simps command_fields rw_fields admin_fields del: One_nat_def)
  have heads: "list_all (\<lambda>c. cmd_field m a [Fld c, Fld ''opcode''] = opcode (command_at m a) \<and>
      cmd_field m a [Fld c, Fld ''command_id''] = command_id (command_at m a)) command_names"
    using command_heads by (simp add: list_all_iff command_at_def read_field_def)
  have nsids: "list_all (\<lambda>c. cmd_field m a [Fld c, Fld ''nsid''] = nsid (command_at m a))
      [''common'', ''rw'', ''get_log_page'', ''identify'', ''features'', ''format'', ''dsm'']"
    using command_members_at(1) by (simp add: command_at_def read_field_def)
  have prp1s: "list_all (\<lambda>c. cmd_field m a [Fld c, Fld ''prp1''] = prp1 (command_at m a))
      [''common'', ''rw'', ''get_log_page'', ''identify'', ''features'', ''create_cq'', ''create_sq'', ''dlfw'', ''dsm'']"
    using command_members_at(2) by (simp add: command_at_def read_field_def)
  have prp2s: "list_all (\<lambda>c. cmd_field m a [Fld c, Fld ''prp2''] = prp2 (command_at m a))
      [''common'', ''rw'', ''get_log_page'', ''identify'', ''features'', ''dlfw'', ''dsm'']"
    using command_members_at(3) by (simp add: command_at_def read_field_def)
  have fmt: "cdw10 (command_at m a) = cmd_field m a [Fld ''format'', Fld ''cdw10'']"
    using format_field by (simp add: command_at_def read_field_def)
  have cpl: "completion_at m a = (let rd = (\<lambda>f. read_field struct_nvme_completion a [Fld f] m) in
     \<lparr> c_result0 = rd ''result0'', c_result1 = rd ''result1'', c_sq_head = rd ''sq_head'', c_sq_id = rd ''sq_id'',
       c_command_id = rd ''command_id'', c_status = rd ''status'' \<rparr>)"
    by (simp add: completion_at_def read_field_def completion_fields Let_def)
  show ?thesis by (intro conjI cmd heads nsids prp1s prp2s fmt cpl rw_decoded queue_decoded admin_decoded zone_decoded)
qed

section \<open>The configuration space as the host finds it\<close>

text \<open>The structures of the configuration space, where the code puts each of them, and the members it assigns. An
  extended header is found by moving a pointer to a header of four bytes.\<close>

definition config_objects :: "pci_regs \<Rightarrow> nat \<Rightarrow> (ctype \<times> nat \<times> (sel list \<times> nat) list) list" where
  "config_objects R base_pa = [
     (struct_pci_header, 0, [
        ([Fld ''id'', Fld ''did''], 0x0101), ([Fld ''id'', Fld ''vid''], 0x0c51), ([Fld ''cmd'', Fld ''mse''], 1),
        ([Fld ''sts'', Fld ''cl''], 1), ([Fld ''htype'', Fld ''mfd''], 0), ([Fld ''htype'', Fld ''hl''],
        PCI_HEADER_TYPE_NORMAL R), ([Fld ''rid''], 0x01), ([Fld ''cc'', Fld ''bcc''], PCI_BASE_CLASS_STORAGE R), ([Fld
        ''cc'', Fld ''scc''], 0x08), ([Fld ''cc'', Fld ''pi''], 0x02), ([Fld ''mlbar'', Fld ''tp''],
        PCI_BASE_ADDRESS_MEM_TYPE_64 R div 2), ([Fld ''mlbar'', Fld ''ba''], base_pa mod 2 ^ 32 div 2 ^ 14), ([Fld
        ''mulbar''], base_pa div 2 ^ 32), ([Fld ''ss'', Fld ''ssid''], 0x370d), ([Fld ''ss'', Fld ''ssvid''], 0x0c51),
        ([Fld ''erom''], 0), ([Fld ''cap''], OFFS_PCI_PM_CAP), ([Fld ''intr'', Fld ''ipin''], 0), ([Fld ''intr'', Fld
        ''iline''], 0)]),
     (struct_pci_pm_cap, OFFS_PCI_PM_CAP, [
        ([Fld ''pid'', Fld ''cid''], PCI_CAP_ID_PM R), ([Fld ''pid'', Fld ''next''], OFFS_PCI_MSIX_CAP), ([Fld ''pc'',
        Fld ''vs''], 3), ([Fld ''pmcs'', Fld ''nsfrst''], 1), ([Fld ''pmcs'', Fld ''ps''], PCI_PM_CAP_PME_D0 R div 2 ^
        16)]),
     (struct_pci_msix_cap, OFFS_PCI_MSIX_CAP, [
        ([Fld ''mxid'', Fld ''cid''], PCI_CAP_ID_MSIX R), ([Fld ''mxid'', Fld ''next''], OFFS_PCIE_CAP), ([Fld
        ''mxc'', Fld ''mxe''], 1), ([Fld ''mxc'', Fld ''ts''], 127), ([Fld ''mtab'', Fld ''tbir''], 0), ([Fld
        ''mtab'', Fld ''to''], 0x400), ([Fld ''mpba'', Fld ''pbao''], 0x1000), ([Fld ''mpba'', Fld ''pbir''], 0)]),
     (struct_pcie_cap, OFFS_PCIE_CAP, [
        ([Fld ''pxid'', Fld ''cid''], PCI_CAP_ID_EXP R), ([Fld ''pxid'', Fld ''next''], 0), ([Fld ''pxcap'', Fld
        ''ver''], PCI_EXP_FLAGS R), ([Fld ''pxcap'', Fld ''imn''], 0), ([Fld ''pxcap'', Fld ''dpt''],
        PCI_EXP_TYPE_ENDPOINT R), ([Fld ''pxdcap'', Fld ''mps''], 1), ([Fld ''pxdcap'', Fld ''pfs''], 0), ([Fld
        ''pxdcap'', Fld ''etfs''], 1), ([Fld ''pxdcap'', Fld ''l0sl''], 6), ([Fld ''pxdcap'', Fld ''l1l''], 2), ([Fld
        ''pxdcap'', Fld ''rer''], 1), ([Fld ''pxdcap'', Fld ''csplv''], 0), ([Fld ''pxdcap'', Fld ''cspls''], 0),
        ([Fld ''pxdcap'', Fld ''flrc''], 1)]),
     (struct_aer_cap, PCI_CFG_SPACE_SIZE, [
        ([Fld ''aerid'', Fld ''cid''], PCI_EXT_CAP_ID_ERR R), ([Fld ''aerid'', Fld ''cver''], 1), ([Fld ''aerid'', Fld
        ''next''], PCI_CFG_SPACE_SIZE + 0x50)]),
     (struct_pci_exp_hdr, PCI_CFG_SPACE_SIZE + 0x50 * size_of struct_pci_exp_hdr, [
        ([Fld ''id'', Fld ''cid''], PCI_EXT_CAP_ID_VC R), ([Fld ''id'', Fld ''cver''], 1), ([Fld ''id'', Fld
        ''next''], PCI_CFG_SPACE_SIZE + 0x80)]),
     (struct_pci_exp_hdr, PCI_CFG_SPACE_SIZE + 0x80 * size_of struct_pci_exp_hdr, [
        ([Fld ''id'', Fld ''cid''], PCI_EXT_CAP_ID_PWR R), ([Fld ''id'', Fld ''cver''], 1), ([Fld ''id'', Fld
        ''next''], PCI_CFG_SPACE_SIZE + 0x90)]),
     (struct_pci_exp_hdr, PCI_CFG_SPACE_SIZE + 0x90 * size_of struct_pci_exp_hdr, [
        ([Fld ''id'', Fld ''cid''], PCI_EXT_CAP_ID_ARI R), ([Fld ''id'', Fld ''cver''], 1), ([Fld ''id'', Fld
        ''next''], PCI_CFG_SPACE_SIZE + 0x170)]),
     (struct_pci_exp_hdr, PCI_CFG_SPACE_SIZE + 0x170 * size_of struct_pci_exp_hdr, [
        ([Fld ''id'', Fld ''cid''], PCI_EXT_CAP_ID_DSN R), ([Fld ''id'', Fld ''cver''], 1), ([Fld ''id'', Fld
        ''next''], PCI_CFG_SPACE_SIZE + 0x1a0)]),
     (struct_pci_exp_hdr, PCI_CFG_SPACE_SIZE + 0x1a0 * size_of struct_pci_exp_hdr, [
        ([Fld ''id'', Fld ''cid''], PCI_EXT_CAP_ID_SECPCI R), ([Fld ''id'', Fld ''cver''], 1), ([Fld ''id'', Fld
        ''next''], 0)])]"

definition config_space :: "pci_regs \<Rightarrow> nat \<Rightarrow> (ctype \<times> nat \<times> sel list \<times> nat) list" where
  "config_space R base_pa = concat (map (\<lambda>(t, a, vs). map (\<lambda>(ss, v). (t, a, ss, v)) vs) (config_objects R base_pa))"

text \<open>The bits of the members, in the order of the assignments: the first bit and the number of bits.\<close>

definition config_spots :: "(nat \<times> nat) list" where
  "config_spots = [
     (16, 16), (0, 16), (33, 1), (52, 1), (119, 1), (112, 7), (64, 8), (88, 8), (80, 8), (72, 8), (129, 2), (142, 18),
     (160, 32), (368, 16), (352, 16), (384, 32), (416, 8), (488, 8), (480, 8), (512, 8), (520, 8), (528, 3), (547, 1),
     (544, 2), (640, 8), (648, 8), (671, 1), (656, 11), (672, 3), (675, 29), (707, 29), (704, 3), (768, 8), (776, 8),
     (784, 4), (793, 5), (788, 4), (800, 3), (803, 2), (805, 1), (806, 3), (809, 3), (815, 1), (818, 8), (826, 2),
     (828, 1), (2048, 16), (2064, 4), (2068, 12), (4608, 16), (4624, 4), (4628, 12), (6144, 16), (6160, 4), (6164,
     12), (6656, 16), (6672, 4), (6676, 12), (13824, 16), (13840, 4), (13844, 12), (15360, 16), (15376, 4), (15380,
     12)]"

lemma config_spots_apart: "all_apart config_spots"
  by code_simp

lemma assigns_write_all: "assigns t a vs m = write_all (map (\<lambda>(ss, v). (t, a, ss, v)) vs) m"
  unfolding assigns_def write_all_def fold_map by (rule fold_cong) auto

lemma write_all_append: "write_all (xs @ ys) m = write_all ys (write_all xs m)"
  by (simp add: write_all_def)

lemma pci_settings_members: "pci_settings R base_pa m = write_all (config_space R base_pa) m"
  unfolding pci_settings_def PCI_PCIE_EXTCAP_SETTINGS_def Let_def header_members pm_members msix_members pcie_members aer_members
    exp_hdr_members config_space_def config_objects_def exp_cap_at_def SZ_EXP_HDR_def page_sizes assigns_write_all
  by (simp only: list.map prod.case concat.simps write_all_append append_Nil2)

lemmas config_fields = header_fields pm_fields msix_fields pcie_fields aer_fields exp_hdr_fields

lemma config_wf:
  "wf_ctype struct_pci_header" "wf_ctype struct_pci_pm_cap" "wf_ctype struct_pci_msix_cap" "wf_ctype struct_pcie_cap"
  "wf_ctype struct_aer_cap" "wf_ctype struct_pci_exp_hdr"
  "\<not> is_bits struct_pci_header" "\<not> is_bits struct_pci_pm_cap" "\<not> is_bits struct_pci_msix_cap" "\<not> is_bits struct_pcie_cap"
  "\<not> is_bits struct_aer_cap" "\<not> is_bits struct_pci_exp_hdr"
  by code_simp+

lemma config_members_at:
  "list_all2 (\<lambda>(t, a, ss, v) s. spot t a ss = Some s) (config_space R base_pa) config_spots"
  by (simp add: config_space_def config_objects_def config_spots_def spot_def config_fields config_wf page_sizes pci_offsets del: One_nat_def)

text \<open>C33: After the whole initialisation of the configuration space, over whatever the memory held, each of the members
  the code assigns, of the header, of the power management, MSI-X and PCI Express capabilities, of the error
  reporting capability and of the five extended headers after it, reads back the value assigned to it, cut to its
  width: no later assignment disturbs an earlier one, within a structure, where several bit fields share a unit, or
  across structures. The only bits of memory that may change are those of these members, and they lie within the
  page; the structures the settings fill lie one after the other, and the extended headers after them.\<close>

theorem configuration_space_reads_back:
  "list_all (\<lambda>(t, a, ss, v). read_field t a ss (pci_settings R base_pa m) = v mod 2 ^ width_of t ss) (config_space R base_pa) \<and>
   {k. mem_bit (pci_settings R base_pa m) k \<noteq> mem_bit m k} \<subseteq> (\<Union>(p, n) \<in> set config_spots. {p..<p + n}) \<and>
   list_all2 (\<lambda>(t, a, ss, v) s. spot t a ss = Some s) (config_space R base_pa) config_spots \<and>
   list_all (\<lambda>(p, n). p + n \<le> 8 * PAGE_SIZE) config_spots \<and>
   sorted_wrt (\<lambda>(t, a, vs) (t', a', vs'). a + size_of t \<le> a') (config_objects R base_pa)"
proof (intro conjI)
  note at = config_members_at [of R base_pa]
  show "list_all (\<lambda>(t, a, ss, v). read_field t a ss (pci_settings R base_pa m) = v mod 2 ^ width_of t ss) (config_space R base_pa)"
    unfolding pci_settings_members by (rule write_all_reads [OF at config_spots_apart])
  show "{k. mem_bit (pci_settings R base_pa m) k \<noteq> mem_bit m k} \<subseteq> (\<Union>(p, n) \<in> set config_spots. {p..<p + n})"
  proof
    fix k assume k: "k \<in> {k. mem_bit (pci_settings R base_pa m) k \<noteq> mem_bit m k}"
    have "\<not> list_all (\<lambda>(q, n). k < q \<or> q + n \<le> k) config_spots"
      using k write_all_other [OF at, of k m] unfolding pci_settings_members by blast
    then show "k \<in> (\<Union>(p, n) \<in> set config_spots. {p..<p + n})" by (force simp: list_all_iff not_less not_le)
  qed
  show "list_all2 (\<lambda>(t, a, ss, v) s. spot t a ss = Some s) (config_space R base_pa) config_spots" by (rule at)
  show "list_all (\<lambda>(p, n). p + n \<le> 8 * PAGE_SIZE) config_spots" by code_simp
  show "sorted_wrt (\<lambda>(t, a, vs) (t', a', vs'). a + size_of t \<le> a') (config_objects R base_pa)"
    by (simp add: config_objects_def page_sizes capability_sizes pci_offsets)
qed

text \<open>C34: The register block the module sets up reads back, through the structure of bit fields and through the masks of
  \<open>nvme.h\<close> alike, as version 1.0, queues of 1024 entries, the smallest page and, for zoned builds, the selectable
  command sets; the controller is disabled and not ready, no queue has an address, and all doorbells are zero. Every
  register has the place in the block that it has in the copy of old values, so that no change is seen before the
  host makes one.\<close>

theorem register_block_members:
  "NVME_CAP_MQES (reg (init_bar zns a m) a [Fld ''u_cap'']) = 1023 \<and>
   reg (init_bar zns a m) a [Fld ''cap'', Fld ''css''] = (if zns then CAP_CSS_BIT_SPECIFIC else 0) \<and>
   NVME_CAP_MPSMIN (reg (init_bar zns a m) a [Fld ''u_cap'']) = 0 \<and> NVME_CAP_STRIDE (reg (init_bar zns a m) a [Fld ''u_cap'']) = 0 \<and>
   NVME_CAP_MQES (reg m a [Fld ''u_cap'']) = reg m a [Fld ''cap'', Fld ''mqes''] \<and>
   NVME_CAP_TIMEOUT (reg m a [Fld ''u_cap'']) = reg m a [Fld ''cap'', Fld ''to''] \<and>
   NVME_CAP_STRIDE (reg m a [Fld ''u_cap'']) = reg m a [Fld ''cap'', Fld ''dstrd''] \<and>
   NVME_CAP_NSSRC (reg m a [Fld ''u_cap'']) = reg m a [Fld ''cap'', Fld ''nssrs''] \<and>
   NVME_CAP_MPSMIN (reg m a [Fld ''u_cap'']) = reg m a [Fld ''cap'', Fld ''mpsmin''] \<and>
   NVME_CAP_MPSMAX (reg m a [Fld ''u_cap'']) = reg m a [Fld ''cap'', Fld ''mpsmax''] \<and>
   reg (init_bar zns a m) a [Fld ''u_vs''] = 2 ^ 16 \<and>
   regs_at (init_bar zns a m) a = \<lparr> u_aqa = 0, u_asq = 0, u_acq = 0, u_cc = 0, csts_rdy = False, csts_shst = 0 \<rparr> \<and>
   list_all (\<lambda>i. load 4 (init_bar zns a m) (a + PAGE_SIZE + 4 * i) = 0) [0..<1024] \<and>
   cc_en (regs_at m a) = (reg m a [Fld ''cc'', Fld ''en''] = 1) \<and> cc_shn (regs_at m a) = reg m a [Fld ''cc'', Fld ''shn''] \<and>
   aqa_asqs (regs_at m a) = reg m a [Fld ''aqa'', Fld ''asqs''] \<and> aqa_acqs (regs_at m a) = reg m a [Fld ''aqa'', Fld ''acqs''] \<and>
   list_all (\<lambda>(f, g). field_at struct___nvme_bar [Fld f] \<noteq> None \<and>
      field_at struct___nvme_bar [Fld f] = field_at struct_nvme_ctrl_regs [Fld g]) register_names"
proof -
  have css: "reg (init_bar zns a m) a [Fld ''cap'', Fld ''css''] = (if zns then CAP_CSS_BIT_SPECIFIC else 0)"
    by (simp add: read_field_def register_fields get_bits_def init_bar_loads CAP_CSS_BIT_SPECIFIC_def)
  have caps: "NVME_CAP_MQES (reg (init_bar zns a m) a [Fld ''u_cap'']) = 1023" "NVME_CAP_MPSMIN (reg (init_bar zns a m) a [Fld ''u_cap'']) = 0"
    "NVME_CAP_STRIDE (reg (init_bar zns a m) a [Fld ''u_cap'']) = 0"
    unfolding masks_agree by (simp_all add: read_field_def register_fields get_bits_def init_bar_loads)
  have dbs: "list_all (\<lambda>i. load 4 (init_bar zns a m) (a + PAGE_SIZE + 4 * i) = 0) [0..<1024]"
    unfolding list_all_iff by (auto intro!: init_bar_registers(4) simp: PAGE_SIZE_def)
  have old: "list_all (\<lambda>(f, g). field_at struct___nvme_bar [Fld f] \<noteq> None \<and>
      field_at struct___nvme_bar [Fld f] = field_at struct_nvme_ctrl_regs [Fld g]) register_names"
    using old_registers_agree by (auto simp: list_all_iff)
  show ?thesis by (intro conjI css caps dbs old masks_agree registers_decoded init_bar_registers(1,3))
qed

end
